(* ===== verification/Prelude.thy ===== *)
theory Prelude
  imports Main "HOL-Library.Word"
begin

text \<open>
  Shared vocabulary of the development: Rust's machine integers with checked arithmetic,
  fallible computations, and the list idioms (indexing, \<open>collect::<Result<_, _>>\<close>, loops
  with an early return) that every component uses.

  A \<open>usize\<close> is a natural number; every arithmetic operation that the source checks is
  checked here against the 64-bit bound. A \<open>u32\<close> identifier is a natural number whose
  conversions (\<open>u32::try_from\<close>, \<open>as u32\<close>) are written out. A fallible function returns
  \<open>Inl (Err e)\<close> for a returned error, \<open>Inl Panic\<close> where the Rust code would panic (an index
  out of range, a failed \<open>expect\<close>), and \<open>Inr x\<close> for a value.
\<close>

unbundle bit_operations_syntax

named_theorems outcome_simps
  \<open>rewriting of fallible computations: which paths succeed and which fail\<close>

section \<open>Machine integers\<close>

type_synonym usize = nat

abbreviation usize_max :: nat where
  "usize_max \<equiv> 18446744073709551615"

definition checked_mul :: "usize \<Rightarrow> usize \<Rightarrow> usize option" where
  "checked_mul a b = (if a * b \<le> usize_max then Some (a * b) else None)"

definition checked_add :: "usize \<Rightarrow> usize \<Rightarrow> usize option" where
  "checked_add a b = (if a + b \<le> usize_max then Some (a + b) else None)"

abbreviation u32_range :: nat where
  "u32_range \<equiv> 4294967296"

definition u32_try_from :: "usize \<Rightarrow> nat option" where
  "u32_try_from n = (if n < u32_range then Some n else None)"

definition as_u32 :: "usize \<Rightarrow> nat" where
  "as_u32 n = n mod u32_range"

lemma checked_mul_Some [simp]: "checked_mul a b = Some c \<longleftrightarrow> c = a * b \<and> a * b \<le> usize_max"
  by (auto simp: checked_mul_def)

lemma checked_mul_None [simp]: "checked_mul a b = None \<longleftrightarrow> usize_max < a * b"
  by (auto simp: checked_mul_def)

lemma checked_add_Some [simp]: "checked_add a b = Some c \<longleftrightarrow> c = a + b \<and> a + b \<le> usize_max"
  by (auto simp: checked_add_def)

lemma checked_add_None [simp]: "checked_add a b = None \<longleftrightarrow> usize_max < a + b"
  by (auto simp: checked_add_def)

lemma checked_mul_in [simp]: "a * b \<le> usize_max \<Longrightarrow> checked_mul a b = Some (a * b)"
  by simp

lemma checked_add_in [simp]: "a + b \<le> usize_max \<Longrightarrow> checked_add a b = Some (a + b)"
  by simp

lemma u32_try_from_in [simp]: "n < u32_range \<Longrightarrow> u32_try_from n = Some n"
  by (simp add: u32_try_from_def)

lemma u32_try_from_Some [simp]: "u32_try_from n = Some m \<longleftrightarrow> m = n \<and> n < u32_range"
  by (auto simp: u32_try_from_def)

lemma u32_try_from_None [simp]: "u32_try_from n = None \<longleftrightarrow> u32_range \<le> n"
  by (auto simp: u32_try_from_def)

lemma as_u32_small [simp]: "n < u32_range \<Longrightarrow> as_u32 n = n"
  by (simp add: as_u32_def)

section \<open>Fallible computations\<close>

datatype 'e failure = Err 'e | Panic

type_synonym ('e, 'a) outcome = "'e failure + 'a"

abbreviation fail :: "'e \<Rightarrow> ('e, 'a) outcome" where
  "fail e \<equiv> Inl (Err e)"

text \<open>The \<open>?\<close> operator, \<open>map_err\<close> and \<open>ok_or\<close>.\<close>

definition try_bind :: "'x + 'a \<Rightarrow> ('a \<Rightarrow> 'x + 'b) \<Rightarrow> 'x + 'b" where
  "try_bind m f = (case m of Inl e \<Rightarrow> Inl e | Inr x \<Rightarrow> f x)"

fun map_err :: "('e \<Rightarrow> 'f) \<Rightarrow> ('e, 'a) outcome \<Rightarrow> ('f, 'a) outcome" where
  "map_err f (Inl (Err e)) = Inl (Err (f e))"
| "map_err f (Inl Panic) = Inl Panic"
| "map_err f (Inr x) = Inr x"

definition ok_or :: "'e \<Rightarrow> 'a option \<Rightarrow> ('e, 'a) outcome" where
  "ok_or e m = (case m of None \<Rightarrow> fail e | Some x \<Rightarrow> Inr x)"

definition require :: "bool \<Rightarrow> 'e \<Rightarrow> ('e, unit) outcome" where
  "require b e = (if b then Inr () else fail e)"

text \<open>Rust indexing \<open>xs[i]\<close> panics out of range.\<close>

definition idx :: "'a list \<Rightarrow> nat \<Rightarrow> ('e, 'a) outcome" where
  "idx xs i = (if i < length xs then Inr (xs ! i) else Inl Panic)"

text \<open>
  Writing \<open>xs[i] = v\<close>, the slices \<open>xs[i..]\<close> and \<open>xs[..i]\<close>, and the subtraction \<open>a - b\<close> of two \<open>usize\<close>
  panic likewise.
\<close>

definition idx_set :: "'a list \<Rightarrow> nat \<Rightarrow> 'a \<Rightarrow> ('e, 'a list) outcome" where
  "idx_set xs i v = (if i < length xs then Inr (xs[i := v]) else Inl Panic)"

definition slice_from :: "'a list \<Rightarrow> nat \<Rightarrow> ('e, 'a list) outcome" where
  "slice_from xs i = (if i \<le> length xs then Inr (drop i xs) else Inl Panic)"

definition slice_to :: "'a list \<Rightarrow> nat \<Rightarrow> ('e, 'a list) outcome" where
  "slice_to xs i = (if i \<le> length xs then Inr (take i xs) else Inl Panic)"

definition sub_usize :: "usize \<Rightarrow> usize \<Rightarrow> ('e, usize) outcome" where
  "sub_usize a b = (if b \<le> a then Inr (a - b) else Inl Panic)"

text \<open>
  The operators \<open>&&\<close> and \<open>||\<close> on tests that may panic: the right operand is evaluated only when the
  left one does not decide.
\<close>

definition and_then :: "'x + bool \<Rightarrow> 'x + bool \<Rightarrow> 'x + bool" where
  "and_then a b = try_bind a (\<lambda>x. if x then b else Inr False)"

definition or_else :: "'x + bool \<Rightarrow> 'x + bool \<Rightarrow> 'x + bool" where
  "or_else a b = try_bind a (\<lambda>x. if x then Inr True else b)"

text \<open>The comparison of two values that are read first, the left one first.\<close>

definition same_read :: "'x + 'a \<Rightarrow> 'x + 'a \<Rightarrow> 'x + bool" where
  "same_read a b = try_bind a (\<lambda>x. try_bind b (\<lambda>y. Inr (x = y)))"

definition differ_read :: "'x + 'a \<Rightarrow> 'x + 'a \<Rightarrow> 'x + bool" where
  "differ_read a b = try_bind a (\<lambda>x. try_bind b (\<lambda>y. Inr (x \<noteq> y)))"

text \<open>\<open>slice.get(i)\<close> returns an option.\<close>

definition get :: "'a list \<Rightarrow> nat \<Rightarrow> 'a option" where
  "get xs i = (if i < length xs then Some (xs ! i) else None)"

lemma try_bind_Inl [simp]: "try_bind (Inl e) f = Inl e"
  by (simp add: try_bind_def)

lemma try_bind_Inr [simp]: "try_bind (Inr x) f = f x"
  by (simp add: try_bind_def)

lemma try_bind_return [simp]: "try_bind m Inr = m"
  by (cases m) auto

lemma try_bind_eq_Inr [outcome_simps]:
  "try_bind m f = Inr y \<longleftrightarrow> (\<exists>x. m = Inr x \<and> f x = Inr y)"
  by (cases m) auto

lemma try_bind_eq_Inl [outcome_simps]:
  "try_bind m f = Inl e \<longleftrightarrow> m = Inl e \<or> (\<exists>x. m = Inr x \<and> f x = Inl e)"
  by (cases m) auto

lemma try_bind_split:
  "P (try_bind m f) \<longleftrightarrow> (\<forall>e. m = Inl e \<longrightarrow> P (Inl e)) \<and> (\<forall>x. m = Inr x \<longrightarrow> P (f x))"
  by (cases m) auto

lemma map_err_eq_Inr [simp]: "map_err f m = Inr x \<longleftrightarrow> m = Inr x"
  by (cases "(f, m)" rule: map_err.cases) auto

lemma map_err_eq_Panic [simp]: "map_err f m = Inl Panic \<longleftrightarrow> m = Inl Panic"
  by (cases "(f, m)" rule: map_err.cases) auto

lemma map_err_eq_Err: "map_err f m = fail e \<longleftrightarrow> (\<exists>e'. m = fail e' \<and> e = f e')"
  by (cases "(f, m)" rule: map_err.cases) auto

lemma ok_or_simps [simp]: "ok_or e (Some x) = Inr x" "ok_or e None = fail e"
  by (simp_all add: ok_or_def)

lemma ok_or_eq_Inr [simp]: "ok_or e m = Inr x \<longleftrightarrow> m = Some x"
  by (simp add: ok_or_def split: option.splits)

lemma ok_or_eq_Inl [simp]: "ok_or e m = Inl f \<longleftrightarrow> m = None \<and> f = Err e"
  by (auto simp: ok_or_def split: option.splits)

lemma require_eq_Inr [simp]: "require b e = Inr u \<longleftrightarrow> b"
  by (simp add: require_def)

lemma require_eq_Inl [simp]: "require b e = Inl f \<longleftrightarrow> \<not> b \<and> f = Err e"
  by (auto simp: require_def)

lemma idx_eq_Inr [simp]: "idx xs i = Inr x \<longleftrightarrow> i < length xs \<and> x = xs ! i"
  by (auto simp: idx_def)

lemma idx_eq_Inl [simp]: "idx xs i = Inl f \<longleftrightarrow> length xs \<le> i \<and> f = Panic"
  by (auto simp: idx_def)

lemma get_eq_Some [simp]: "get xs i = Some x \<longleftrightarrow> i < length xs \<and> x = xs ! i"
  by (auto simp: get_def)

lemma get_eq_None [simp]: "get xs i = None \<longleftrightarrow> length xs \<le> i"
  by (auto simp: get_def)

lemma idx_set_eq_Inr [simp]: "idx_set xs i v = Inr ys \<longleftrightarrow> i < length xs \<and> ys = xs[i := v]"
  by (auto simp: idx_set_def)

lemma idx_set_eq_Inl [simp]: "idx_set xs i v = Inl f \<longleftrightarrow> length xs \<le> i \<and> f = Panic"
  by (auto simp: idx_set_def)

lemma slice_eq_Inr [simp]:
  "slice_from xs i = Inr ys \<longleftrightarrow> i \<le> length xs \<and> ys = drop i xs"
  "slice_to xs i = Inr ys \<longleftrightarrow> i \<le> length xs \<and> ys = take i xs"
  by (auto simp: slice_from_def slice_to_def)

lemma idx_set_in [simp]: "i < length xs \<Longrightarrow> idx_set xs i v = Inr (xs[i := v])"
  by simp

lemma slice_in [simp]:
  "i \<le> length xs \<Longrightarrow> slice_from xs i = Inr (drop i xs)"
  "i \<le> length xs \<Longrightarrow> slice_to xs i = Inr (take i xs)"
  by simp_all

lemma sub_usize_in [simp]: "b \<le> a \<Longrightarrow> sub_usize a b = Inr (a - b)"
  by (simp add: sub_usize_def)

lemma connective_simps [simp]:
  "and_then (Inr False) b = Inr False" "and_then (Inr True) b = b" "and_then (Inl f) b = Inl f"
  "or_else (Inr True) b = Inr True" "or_else (Inr False) b = b" "or_else (Inl f) b = Inl f"
  "same_read (Inr x) (Inr y) = Inr (x = y)" "differ_read (Inr x) (Inr y) = Inr (x \<noteq> y)"
  by (simp_all add: and_then_def or_else_def same_read_def differ_read_def)

lemma connectives_total [simp]:
  "and_then (Inr x) (Inr y) = Inr (x \<and> y)" "or_else (Inr x) (Inr y) = Inr (x \<or> y)"
  by (simp_all add: and_then_def or_else_def)

lemma or_else_reject:
  "try_bind (or_else (Inr x) b) (\<lambda>bad. require (\<not> bad) e) =
     (if x then fail e else try_bind b (\<lambda>bad. require (\<not> bad) e))"
  by (simp add: require_def)

lemma and_then_decided:
  "(x \<Longrightarrow> b = Inr y) \<Longrightarrow> and_then (Inr x) b = Inr (x \<and> y)"
  by (cases x) simp_all

lemma or_else_decided:
  "(\<not> x \<Longrightarrow> b = Inr y) \<Longrightarrow> or_else (Inr x) b = Inr (x \<or> y)"
  by (cases x) simp_all

lemmas idx_in [simp] = idx_eq_Inr [THEN iffD2, OF conjI, OF _ refl]

section \<open>Loops with an early return\<close>

text \<open>\<open>iter().map(f).collect::<Result<Vec<_>, _>>()?\<close>\<close>

fun traverse :: "('a \<Rightarrow> 'x + 'b) \<Rightarrow> 'a list \<Rightarrow> 'x + 'b list" where
  "traverse f [] = Inr []"
| "traverse f (x # xs) =
     try_bind (f x) (\<lambda>y. try_bind (traverse f xs) (\<lambda>ys. Inr (y # ys)))"

text \<open>A loop whose body may return an error and otherwise continues.\<close>

fun for_each :: "('a \<Rightarrow> 'x + unit) \<Rightarrow> 'a list \<Rightarrow> 'x + unit" where
  "for_each f [] = Inr ()"
| "for_each f (x # xs) = try_bind (f x) (\<lambda>_. for_each f xs)"

text \<open>A loop that carries a state (\<open>try_fold\<close>, or a \<open>for\<close> over mutable locals).\<close>

fun try_fold :: "('s \<Rightarrow> 'a \<Rightarrow> 'x + 's) \<Rightarrow> 's \<Rightarrow> 'a list \<Rightarrow> 'x + 's" where
  "try_fold f s [] = Inr s"
| "try_fold f s (x # xs) = try_bind (f s x) (\<lambda>s'. try_fold f s' xs)"

lemma for_each_Inr [outcome_simps]:
  "for_each f xs = Inr u \<longleftrightarrow> (\<forall>x \<in> set xs. f x = Inr ())"
  by (induction xs) (auto simp: outcome_simps)

lemma for_each_InlD: "for_each f xs = Inl e \<Longrightarrow> \<exists>x \<in> set xs. f x = Inl e"
  by (induction xs) (auto simp: outcome_simps)

lemma traverse_Inr:
  "traverse f xs = Inr ys \<longleftrightarrow>
     length ys = length xs \<and> (\<forall>i < length xs. f (xs ! i) = Inr (ys ! i))"
proof (induction xs arbitrary: ys)
  case Nil
  then show ?case by auto
next
  case (Cons x xs)
  show ?case
  proof (cases ys)
    case Nil
    then show ?thesis by (auto simp: outcome_simps)
  next
    case (Cons y ys')
    then show ?thesis
      by (auto simp: outcome_simps Cons.IH nth_Cons split: nat.splits)
  qed
qed

lemma traverse_InlD: "traverse f xs = Inl e \<Longrightarrow> \<exists>x \<in> set xs. f x = Inl e"
  by (induction xs) (auto simp: outcome_simps)

lemma traverse_map: "\<forall>x \<in> set xs. f x = Inr (g x) \<Longrightarrow> traverse f xs = Inr (map g xs)"
  by (induction xs) auto

lemma traverse_length: "traverse f xs = Inr ys \<Longrightarrow> length ys = length xs"
  by (simp add: traverse_Inr)

lemma try_fold_append [simp]:
  "try_fold f s (xs @ ys) = try_bind (try_fold f s xs) (\<lambda>s'. try_fold f s' ys)"
  by (induction xs arbitrary: s) (auto simp: try_bind_def split: sum.splits)

text \<open>
  The loop rule: an invariant indexed by the number of elements consumed, and the step
  succeeds whenever the invariant holds. Total: the fold returns a value.
\<close>

lemma try_fold_total:
  assumes "P 0 s"
    and "\<And>i s. i < length xs \<Longrightarrow> P i s \<Longrightarrow> \<exists>s'. f s (xs ! i) = Inr s' \<and> P (Suc i) s'"
  shows "\<exists>s'. try_fold f s xs = Inr s' \<and> P (length xs) s'"
  using assms
proof (induction xs rule: rev_induct)
  case Nil
  then show ?case by simp
next
  case (snoc x xs)
  have "\<exists>s'. try_fold f s xs = Inr s' \<and> P (length xs) s'"
  proof (rule snoc.IH [OF snoc.prems(1)])
    fix i t assume "i < length xs" "P i t"
    with snoc.prems(2) [of i t] show "\<exists>s'. f t (xs ! i) = Inr s' \<and> P (Suc i) s'"
      by (simp add: nth_append)
  qed
  then obtain t where t: "try_fold f s xs = Inr t" "P (length xs) t" by blast
  with snoc.prems(2) [of "length xs" t] show ?case by (auto simp: nth_append)
qed

text \<open>The partial rule: whatever the loop returns satisfies the invariant.\<close>

lemma try_fold_invariant:
  assumes "try_fold f s xs = Inr t" and "P 0 s"
    and "\<And>i s s'. i < length xs \<Longrightarrow> P i s \<Longrightarrow> f s (xs ! i) = Inr s' \<Longrightarrow> P (Suc i) s'"
  shows "P (length xs) t"
  using assms
proof (induction xs arbitrary: t rule: rev_induct)
  case Nil
  then show ?case by simp
next
  case (snoc x xs)
  from snoc.prems(1) obtain u where u: "try_fold f s xs = Inr u" "f u x = Inr t"
    by (auto simp: outcome_simps)
  have "P (length xs) u"
  proof (rule snoc.IH [OF u(1) snoc.prems(2)])
    fix i v v' assume "i < length xs" "P i v" "f v (xs ! i) = Inr v'"
    with snoc.prems(3) [of i v v'] show "P (Suc i) v'" by (simp add: nth_append)
  qed
  with u(2) snoc.prems(3) [of "length xs" u t] show ?case by (simp add: nth_append)
qed

lemma try_fold_Inl:
  assumes "try_fold f s xs = Inl e" and "P 0 s"
    and "\<And>i s s'. i < length xs \<Longrightarrow> P i s \<Longrightarrow> f s (xs ! i) = Inr s' \<Longrightarrow> P (Suc i) s'"
  shows "\<exists>i s. i < length xs \<and> P i s \<and> f s (xs ! i) = Inl e"
  using assms
proof (induction xs rule: rev_induct)
  case Nil
  then show ?case by simp
next
  case (snoc x xs)
  have step: "P (Suc i) v'" if "i < length xs" "P i v" "f v (xs ! i) = Inr v'" for i v v'
    using snoc.prems(3) [of i v v'] that by (simp add: nth_append)
  show ?case
  proof (cases "try_fold f s xs")
    case (Inl e')
    with snoc.prems(1) have "e' = e" by simp
    with Inl have "try_fold f s xs = Inl e" by simp
    from snoc.IH [OF this snoc.prems(2)] step obtain i v
      where "i < length xs" "P i v" "f v (xs ! i) = Inl e" by blast
    then show ?thesis by (intro exI [of _ i] exI [of _ v]) (simp add: nth_append)
  next
    case (Inr u)
    with snoc.prems(1) have "f u x = Inl e" by simp
    moreover have "P (length xs) u"
      using try_fold_invariant [where P = P, OF Inr snoc.prems(2)] step by blast
    ultimately show ?thesis by (intro exI [of _ "length xs"] exI [of _ u]) simp
  qed
qed

text \<open>\<open>iter().enumerate()\<close> is \<open>enumerate 0\<close>; its elements are the indexed elements.\<close>

lemma set_enumerate0: "(i, x) \<in> set (enumerate 0 xs) \<longleftrightarrow> i < length xs \<and> x = xs ! i"
  by (auto simp: in_set_enumerate_eq)

lemma ball_enumerate0:
  "(\<forall>p \<in> set (enumerate 0 xs). Q p) \<longleftrightarrow> (\<forall>i < length xs. Q (i, xs ! i))"
  by (auto simp: set_enumerate0)

lemma nth_enumerate0 [simp]: "i < length xs \<Longrightarrow> enumerate 0 xs ! i = (i, xs ! i)"
  by (simp add: nth_enumerate_eq)

section \<open>Lists\<close>

lemma find_Some_first:
  "List.find P xs = Some x \<Longrightarrow> \<exists>i < length xs. xs ! i = x \<and> P x \<and> (\<forall>j < i. \<not> P (xs ! j))"
  by (auto simp: find_Some_iff)

lemma all_less_Suc: "(\<forall>i < Suc n. P i) \<longleftrightarrow> (\<forall>i < n. P i) \<and> P n"
  by (auto simp: less_Suc_eq)

end
