(* ===== verification/Compute_Core.thy ===== *)
theory Compute_Core
  imports Prelude
begin

text \<open>
  The backend-neutral contracts of \<open>scirust-compute\<close> that the tensor stack is built on:
  scalar types (\<open>dtype.rs\<close>), shapes and row-major strides with checked arithmetic
  (\<open>shape.rs\<close>, \<open>strides.rs\<close>), tensor specifications (\<open>tensor.rs\<close>), host memory policies
  (\<open>memory.rs\<close>), launch geometry (\<open>launch.rs\<close>), kernel modules (\<open>kernel.rs\<close>) and reusable
  workspaces (\<open>workspace.rs\<close>).
\<close>

section \<open>Scalar types, shapes and strides\<close>

datatype dtype = Bool | U8 | I8 | U16 | I16 | F16 | Bf16 | U32 | I32 | F32 | U64 | I64 | F64

fun size_bytes :: "dtype \<Rightarrow> usize" where
  "size_bytes Bool = 1"
| "size_bytes U8 = 1"
| "size_bytes I8 = 1"
| "size_bytes U16 = 2"
| "size_bytes I16 = 2"
| "size_bytes F16 = 2"
| "size_bytes Bf16 = 2"
| "size_bytes U32 = 4"
| "size_bytes I32 = 4"
| "size_bytes F32 = 4"
| "size_bytes U64 = 8"
| "size_bytes I64 = 8"
| "size_bytes F64 = 8"

datatype device_kind = DevReference | DevCpu | DevWgpu | DevCuda

datatype compute_error =
    InvalidArgument string
  | ShapeOverflow
  | ByteSizeOverflow
  | BackendUnavailable device_kind
  | Unsupported string
  | Allocation string
  | Transfer string
  | Compilation string
  | Launch string
  | Synchronization string

type_synonym shape = "usize list"
type_synonym strides = "usize list"

definition checked_num_elements :: "shape \<Rightarrow> (compute_error, usize) outcome" where
  "checked_num_elements dims =
     try_fold (\<lambda>total dim. ok_or ShapeOverflow (checked_mul total dim)) 1 dims"

text \<open>
  \<open>Strides::contiguous\<close> fills \<open>values\<close> from the last axis to the first. The recursion below
  returns the strides of the axes of \<open>dims\<close>; the stride of an axis is the product of its
  successor's stride and its successor's dimension.
\<close>

fun contiguous :: "shape \<Rightarrow> (compute_error, strides) outcome" where
  "contiguous [] = Inr []"
| "contiguous [d] = Inr [1]"
| "contiguous (d # d' # ds) =
     try_bind (contiguous (d' # ds)) (\<lambda>values.
     try_bind (ok_or ShapeOverflow (checked_mul (hd values) d')) (\<lambda>v.
     Inr (v # values)))"

text \<open>The mathematical meaning: products of dimensions, computed without overflow checks.\<close>

fun row_major :: "shape \<Rightarrow> strides" where
  "row_major [] = []"
| "row_major (d # ds) = prod_list ds # row_major ds"

lemma length_row_major [simp]: "length (row_major ds) = length ds"
  by (induction ds) auto

lemma size_bytes_pos [simp]: "0 < size_bytes d"
  by (cases d) auto

lemma try_fold_mul_Inr:
  "try_fold (\<lambda>total dim. ok_or e (checked_mul total dim)) a dims = Inr n
     \<Longrightarrow> n = a * prod_list dims"
proof (induction dims arbitrary: a)
  case Nil
  then show ?case by simp
next
  case (Cons d dims)
  then have "n = a * d * prod_list dims" by (auto simp: outcome_simps)
  then show ?case by simp
qed

lemma checked_num_elements_Inr:
  "checked_num_elements dims = Inr n \<Longrightarrow> n = prod_list dims"
  unfolding checked_num_elements_def by (drule try_fold_mul_Inr) simp

lemma try_fold_mul_le:
  "try_fold (\<lambda>total dim. ok_or e (checked_mul total dim)) a dims = Inr n \<Longrightarrow>
     a \<le> usize_max \<Longrightarrow> n \<le> usize_max"
  by (induction dims arbitrary: a) (auto simp: outcome_simps)

lemma checked_num_elements_le:
  "checked_num_elements dims = Inr n \<Longrightarrow> n \<le> usize_max"
  unfolding checked_num_elements_def by (erule try_fold_mul_le) simp

lemma try_fold_mul_ok:
  assumes "\<forall>d \<in> set dims. 0 < d" and "a * prod_list dims \<le> usize_max"
  shows "try_fold (\<lambda>total dim. ok_or e (checked_mul total dim)) a dims
           = Inr (a * prod_list dims)"
  using assms
proof (induction dims arbitrary: a)
  case Nil
  then show ?case by simp
next
  case (Cons d dims)
  have pos: "0 < prod_list dims"
    using Cons.prems(1) by (auto simp: prod_list_zero_iff intro!: gr0I)
  have "a * d \<le> a * d * prod_list dims" using pos by simp
  also have "\<dots> \<le> usize_max" using Cons.prems(2) by (simp add: mult.assoc)
  finally have le: "a * d \<le> usize_max" .
  then have "ok_or e (checked_mul a d) = Inr (a * d)" by simp
  moreover have "try_fold (\<lambda>total dim. ok_or e (checked_mul total dim)) (a * d) dims
      = Inr (a * d * prod_list dims)"
    using Cons.prems by (intro Cons.IH) (auto simp: mult.assoc)
  ultimately show ?case by (simp add: mult.assoc)
qed

lemma checked_num_elements_ok:
  "\<forall>d \<in> set dims. 0 < d \<Longrightarrow> prod_list dims \<le> usize_max \<Longrightarrow>
     checked_num_elements dims = Inr (prod_list dims)"
  unfolding checked_num_elements_def by (simp add: try_fold_mul_ok)

lemma contiguous_Inr: "contiguous dims = Inr s \<Longrightarrow> s = row_major dims"
  by (induction dims arbitrary: s rule: contiguous.induct) (auto simp: outcome_simps)

lemma contiguous_length: "contiguous dims = Inr s \<Longrightarrow> length s = length dims"
  by (auto dest: contiguous_Inr)

text \<open>
  For a shape without a zero dimension whose element count fits, the strides fit: every
  stride divides the element count.
\<close>

lemma contiguous_ok:
  "\<forall>d \<in> set dims. 0 < d \<Longrightarrow> prod_list dims \<le> usize_max \<Longrightarrow>
     contiguous dims = Inr (row_major dims)"
proof (induction dims rule: contiguous.induct)
  case 1
  then show ?case by simp
next
  case (2 d)
  then show ?case by simp
next
  case (3 d d' ds)
  have "0 < d" using "3.prems"(1) by simp
  have "prod_list (d' # ds) \<le> d * prod_list (d' # ds)" using \<open>0 < d\<close> by simp
  also have "\<dots> \<le> usize_max" using "3.prems"(2) by simp
  finally have le: "prod_list (d' # ds) \<le> usize_max" .
  then have "contiguous (d' # ds) = Inr (row_major (d' # ds))"
    using "3.prems"(1) by (intro "3.IH") auto
  moreover have "ok_or ShapeOverflow (checked_mul (prod_list ds) d') = Inr (prod_list (d' # ds))"
    using le by (simp add: mult.commute)
  ultimately show ?case by simp
qed

section \<open>Tensor specifications, launch geometry and kernel modules\<close>

datatype memory_space = HostMemory | HostPinned | DeviceMemory | UnifiedMemory
datatype layout = ContiguousRowMajor | Strided

record device_id =
  dev_kind :: device_kind
  dev_ordinal :: nat

record tensor_spec =
  spec_dtype :: dtype
  spec_shape :: shape
  spec_strides :: strides
  spec_layout :: layout
  spec_device :: device_id

definition tensor_spec_contiguous ::
  "dtype \<Rightarrow> shape \<Rightarrow> device_id \<Rightarrow> (compute_error, tensor_spec) outcome" where
  "tensor_spec_contiguous dt sh dev =
     try_bind (contiguous sh) (\<lambda>st.
       Inr \<lparr>spec_dtype = dt, spec_shape = sh, spec_strides = st,
            spec_layout = ContiguousRowMajor, spec_device = dev\<rparr>)"

definition checked_byte_len :: "tensor_spec \<Rightarrow> (compute_error, usize) outcome" where
  "checked_byte_len spec =
     try_bind (checked_num_elements (spec_shape spec)) (\<lambda>n.
       ok_or ByteSizeOverflow (checked_mul n (size_bytes (spec_dtype spec))))"

record launch_config =
  grid :: "nat \<times> nat \<times> nat"
  block :: "nat \<times> nat \<times> nat"
  shared_memory_bytes :: nat

fun contains_zero :: "nat \<times> nat \<times> nat \<Rightarrow> bool" where
  "contains_zero (x, y, z) = (x = 0 \<or> y = 0 \<or> z = 0)"

definition launch_config_new ::
  "nat \<times> nat \<times> nat \<Rightarrow> nat \<times> nat \<times> nat \<Rightarrow> nat \<Rightarrow> (compute_error, launch_config) outcome" where
  "launch_config_new g b m =
     (if contains_zero g then fail (InvalidArgument ''grid dimensions must be non-zero'')
      else if contains_zero b then fail (InvalidArgument ''block dimensions must be non-zero'')
      else Inr \<lparr>grid = g, block = b, shared_memory_bytes = m\<rparr>)"

datatype kernel_format = ReferenceFormat | Wgsl | SpirV | Ptx

record kernel_module =
  km_format :: kernel_format
  entry_point :: string
  code :: "8 word list"

definition kernel_module_new ::
  "kernel_format \<Rightarrow> string \<Rightarrow> 8 word list \<Rightarrow> (compute_error, kernel_module) outcome" where
  "kernel_module_new fmt entry bytes =
     (if entry = [] then fail (InvalidArgument ''kernel entry point must not be empty'')
      else if bytes = [] then fail (InvalidArgument ''kernel module code must not be empty'')
      else Inr \<lparr>km_format = fmt, entry_point = entry, code = bytes\<rparr>)"

section \<open>Host memory policies\<close>

definition is_power_of_two :: "usize \<Rightarrow> bool" where
  "is_power_of_two n \<longleftrightarrow> list_ex (\<lambda>k. n = 2 ^ k) [0..<64]"

lemma is_power_of_two_iff: "is_power_of_two n \<longleftrightarrow> (\<exists>k < 64. n = 2 ^ k)"
  by (auto simp: is_power_of_two_def list_ex_iff)

datatype host_page_policy = DefaultPages | TransparentHugePageHint | AvoidTransparentHugePages

datatype memory_policy_error = InvalidAlignment usize

record host_memory_policy =
  alignment_bytes :: usize
  page_policy :: host_page_policy
  lock_resident :: bool

definition host_memory_policy_new ::
  "usize \<Rightarrow> host_page_policy \<Rightarrow> bool \<Rightarrow> (memory_policy_error, host_memory_policy) outcome" where
  "host_memory_policy_new alignment policy lock =
     (if alignment = 0 \<or> \<not> is_power_of_two alignment then fail (InvalidAlignment alignment)
      else Inr \<lparr>alignment_bytes = alignment, page_policy = policy, lock_resident = lock\<rparr>)"

definition default_host :: host_memory_policy where
  "default_host = \<lparr>alignment_bytes = 1, page_policy = DefaultPages, lock_resident = False\<rparr>"

definition aligned_64 :: host_memory_policy where
  "aligned_64 = \<lparr>alignment_bytes = 64, page_policy = DefaultPages, lock_resident = False\<rparr>"

definition with_page_policy :: "host_memory_policy \<Rightarrow> host_page_policy \<Rightarrow> host_memory_policy" where
  "with_page_policy p policy = p\<lparr>page_policy := policy\<rparr>"

definition with_lock_resident :: "host_memory_policy \<Rightarrow> bool \<Rightarrow> host_memory_policy" where
  "with_lock_resident p lock = p\<lparr>lock_resident := lock\<rparr>"

text \<open>The policies reachable through the public constructors and setters.\<close>

inductive valid_policy :: "host_memory_policy \<Rightarrow> bool" where
  new: "host_memory_policy_new a p l = Inr q \<Longrightarrow> valid_policy q"
| default: "valid_policy default_host"
| aligned: "valid_policy aligned_64"
| pages: "valid_policy q \<Longrightarrow> valid_policy (with_page_policy q p)"
| lock: "valid_policy q \<Longrightarrow> valid_policy (with_lock_resident q l)"

lemma valid_policy_alignment: "valid_policy q \<Longrightarrow> is_power_of_two (alignment_bytes q)"
proof (induction rule: valid_policy.induct)
  case default
  show ?case by (simp add: is_power_of_two_iff default_host_def) (rule exI [of _ 0], simp)
next
  case aligned
  show ?case by (simp add: is_power_of_two_iff aligned_64_def) (rule exI [of _ 6], simp)
qed (auto simp: host_memory_policy_new_def with_page_policy_def with_lock_resident_def
       split: if_splits)

end
