(* ===== verification/Tensor_Graph.thy ===== *)
theory Tensor_Graph
  imports Compute_Core
begin

text \<open>
  The canonical tensor graph of \<open>scirust-tensor-ir\<close>: bit-exact scalar attributes and the
  operation set (\<open>operation.rs\<close>), the append-only graph with its construction-time checks
  (\<open>graph.rs\<close>, \<open>error.rs\<close>, \<open>ids.rs\<close>). A node identifier is the index of its node; nodes only
  refer to earlier nodes, so a graph is a topologically ordered DAG by construction.
\<close>

section \<open>Scalars\<close>

text \<open>An \<open>f32\<close> is its IEEE-754 bit pattern; equality is the language's \<open>==\<close> on floats.\<close>

type_synonym f32 = "32 word"

definition f32_is_nan :: "f32 \<Rightarrow> bool" where
  "f32_is_nan x \<longleftrightarrow> (x AND 0x7F800000) = 0x7F800000 \<and> (x AND 0x007FFFFF) \<noteq> 0"

definition f32_is_zero :: "f32 \<Rightarrow> bool" where
  "f32_is_zero x \<longleftrightarrow> (x AND 0x7FFFFFFF) = 0"

definition f32_eq :: "f32 \<Rightarrow> f32 \<Rightarrow> bool" where
  "f32_eq x y \<longleftrightarrow> \<not> f32_is_nan x \<and> \<not> f32_is_nan y \<and>
     (x = y \<or> (f32_is_zero x \<and> f32_is_zero y))"

abbreviation f32_zero :: f32 where "f32_zero \<equiv> 0"
abbreviation f32_one :: f32 where "f32_one \<equiv> 0x3F800000"
abbreviation f32_minus_one :: f32 where "f32_minus_one \<equiv> 0xBF800000"

record scalar =
  sc_dtype :: dtype
  sc_bits :: "64 word"

definition scalar_f32 :: "f32 \<Rightarrow> scalar" where
  "scalar_f32 x = \<lparr>sc_dtype = F32, sc_bits = ucast x\<rparr>"

definition as_f32 :: "scalar \<Rightarrow> f32 option" where
  "as_f32 s = (if sc_dtype s = F32 then Some (ucast (sc_bits s)) else None)"

definition as_f32_is :: "scalar \<Rightarrow> f32 \<Rightarrow> bool" where
  \<comment> \<open>\<open>factor.as_f32() == Some(value)\<close>, with the float comparison of \<open>Option<f32>\<close>\<close>
  "as_f32_is s x = (case as_f32 s of None \<Rightarrow> False | Some y \<Rightarrow> f32_eq y x)"

lemma as_f32_scalar_f32 [simp]: "as_f32 (scalar_f32 x) = Some x"
  by (simp add: as_f32_def scalar_f32_def) (transfer, simp add: take_bit_eq_mod)

section \<open>Operations\<close>

type_synonym node_id = nat
type_synonym constant_id = nat

datatype operation =
    Input string
  | Constant constant_id
  | Add
  | Sub
  | Mul
  | Div
  | Scale scalar
  | Relu
  | Exp
  | Log
  | ReluGrad
  | ZerosLike
  | OnesLike
  | MatMul
  | BatchMatMul
  | Reshape shape
  | Transpose "usize list"
  | BroadcastTo shape
  | ReduceSumTo shape
  | StopGradient
  | Checkpoint

fun expected_arity :: "operation \<Rightarrow> usize" where
  "expected_arity (Input _) = 0"
| "expected_arity (Constant _) = 0"
| "expected_arity Relu = 1"
| "expected_arity Exp = 1"
| "expected_arity Log = 1"
| "expected_arity (Scale _) = 1"
| "expected_arity ZerosLike = 1"
| "expected_arity OnesLike = 1"
| "expected_arity (Reshape _) = 1"
| "expected_arity (Transpose _) = 1"
| "expected_arity (BroadcastTo _) = 1"
| "expected_arity (ReduceSumTo _) = 1"
| "expected_arity StopGradient = 1"
| "expected_arity Checkpoint = 1"
| "expected_arity Add = 2"
| "expected_arity Sub = 2"
| "expected_arity Mul = 2"
| "expected_arity Div = 2"
| "expected_arity MatMul = 2"
| "expected_arity BatchMatMul = 2"
| "expected_arity ReluGrad = 2"

section \<open>Graphs\<close>

datatype graph_error =
    TooManyNodes
  | ArityMismatch usize usize
  | InvalidInput usize node_id
  | InvalidOutput node_id

record tensor_type =
  ty_dtype :: dtype
  ty_shape :: shape

definition tensor_type_new :: "dtype \<Rightarrow> shape \<Rightarrow> tensor_type" where
  "tensor_type_new dt sh = \<lparr>ty_dtype = dt, ty_shape = sh\<rparr>"

record node =
  node_operation :: operation
  node_inputs :: "node_id list"
  node_output :: tensor_type

record graph =
  graph_nodes :: "node list"
  graph_outputs :: "node_id list"

definition graph_new :: graph where
  "graph_new = \<lparr>graph_nodes = [], graph_outputs = []\<rparr>"

definition check_inputs :: "usize \<Rightarrow> node_id list \<Rightarrow> (graph_error, unit) outcome" where
  "check_inputs node_index ins =
     for_each (\<lambda>input. require (\<not> input \<ge> node_index) (InvalidInput node_index input)) ins"

definition add_node ::
  "graph \<Rightarrow> operation \<Rightarrow> node_id list \<Rightarrow> tensor_type \<Rightarrow> (graph_error, graph \<times> node_id) outcome"
where
  "add_node g operation ins out =
     (let expected = expected_arity operation in
      if length ins \<noteq> expected then fail (ArityMismatch expected (length ins))
      else
        (let node_index = length (graph_nodes g) in
         try_bind (check_inputs node_index ins) (\<lambda>_.
         try_bind (ok_or TooManyNodes (u32_try_from node_index)) (\<lambda>raw_id.
         Inr (g\<lparr>graph_nodes := graph_nodes g @
                  [\<lparr>node_operation = operation, node_inputs = ins, node_output = out\<rparr>]\<rparr>,
              raw_id)))))"

definition add_input ::
  "graph \<Rightarrow> string \<Rightarrow> tensor_type \<Rightarrow> (graph_error, graph \<times> node_id) outcome" where
  "add_input g name out = add_node g (Input name) [] out"

definition add_constant ::
  "graph \<Rightarrow> constant_id \<Rightarrow> tensor_type \<Rightarrow> (graph_error, graph \<times> node_id) outcome" where
  "add_constant g c out = add_node g (Constant c) [] out"

definition check_outputs :: "graph \<Rightarrow> node_id list \<Rightarrow> (graph_error, unit) outcome" where
  "check_outputs g outs =
     for_each (\<lambda>out. require (\<not> out \<ge> length (graph_nodes g)) (InvalidOutput out)) outs"

definition set_outputs :: "graph \<Rightarrow> node_id list \<Rightarrow> (graph_error, graph) outcome" where
  "set_outputs g outs =
     try_bind (check_outputs g outs) (\<lambda>_. Inr (g\<lparr>graph_outputs := outs\<rparr>))"

definition validate_node :: "usize \<times> node \<Rightarrow> (graph_error, unit) outcome" where
  "validate_node p = (case p of (node_index, n) \<Rightarrow>
     (let expected = expected_arity (node_operation n) in
      if length (node_inputs n) \<noteq> expected
      then fail (ArityMismatch expected (length (node_inputs n)))
      else check_inputs node_index (node_inputs n)))"

definition validate :: "graph \<Rightarrow> (graph_error, unit) outcome" where
  "validate g =
     try_bind (for_each validate_node (enumerate 0 (graph_nodes g))) (\<lambda>_.
     check_outputs g (graph_outputs g))"

section \<open>What the checks mean\<close>

definition node_ok :: "nat \<Rightarrow> node \<Rightarrow> bool" where
  "node_ok i n \<longleftrightarrow> length (node_inputs n) = expected_arity (node_operation n) \<and>
     (\<forall>k \<in> set (node_inputs n). k < i)"

definition nodes_ok :: "node list \<Rightarrow> bool" where
  "nodes_ok ns \<longleftrightarrow> (\<forall>i < length ns. node_ok i (ns ! i))"

definition wf_graph :: "graph \<Rightarrow> bool" where
  "wf_graph g \<longleftrightarrow> nodes_ok (graph_nodes g) \<and>
     (\<forall>k \<in> set (graph_outputs g). k < length (graph_nodes g))"

lemma check_inputs_Inr [simp]: "check_inputs i ins = Inr u \<longleftrightarrow> (\<forall>k \<in> set ins. k < i)"
  by (auto simp: check_inputs_def outcome_simps not_le)

lemma check_outputs_Inr [simp]:
  "check_outputs g outs = Inr u \<longleftrightarrow> (\<forall>k \<in> set outs. k < length (graph_nodes g))"
  by (auto simp: check_outputs_def outcome_simps not_le)

lemma validate_node_Inr [simp]: "validate_node (i, n) = Inr u \<longleftrightarrow> node_ok i n"
  by (auto simp: validate_node_def node_ok_def Let_def)

lemma validate_iff_wf: "validate g = Inr u \<longleftrightarrow> wf_graph g"
  by (simp add: validate_def wf_graph_def nodes_ok_def outcome_simps ball_enumerate0)

lemma nodes_ok_snoc:
  "nodes_ok (ns @ [n]) \<longleftrightarrow> nodes_ok ns \<and> node_ok (length ns) n"
  by (auto simp: nodes_ok_def nth_append less_Suc_eq)

lemma nodes_ok_inputs:
  "nodes_ok ns \<Longrightarrow> i < length ns \<Longrightarrow> k \<in> set (node_inputs (ns ! i)) \<Longrightarrow> k < i"
  by (auto simp: nodes_ok_def node_ok_def)

lemma nodes_ok_arity:
  "nodes_ok ns \<Longrightarrow> i < length ns \<Longrightarrow>
     length (node_inputs (ns ! i)) = expected_arity (node_operation (ns ! i))"
  by (auto simp: nodes_ok_def node_ok_def)

text \<open>The result of \<open>add_node\<close>, on success: one node appended, its index returned.\<close>

lemma add_node_Inr:
  "add_node g oper ins out = Inr (g', i) \<longleftrightarrow>
     length ins = expected_arity oper \<and> (\<forall>k \<in> set ins. k < length (graph_nodes g)) \<and>
     length (graph_nodes g) < u32_range \<and> i = length (graph_nodes g) \<and>
     g' = g\<lparr>graph_nodes := graph_nodes g @
              [\<lparr>node_operation = oper, node_inputs = ins, node_output = out\<rparr>]\<rparr>"
  by (auto simp: add_node_def Let_def outcome_simps)

lemma add_node_Inl:
  "add_node g oper ins out = Inl f \<Longrightarrow>
     length ins \<noteq> expected_arity oper \<or> (\<exists>k \<in> set ins. length (graph_nodes g) \<le> k) \<or>
     u32_range \<le> length (graph_nodes g)"
  by (auto simp: add_node_def Let_def outcome_simps check_inputs_def
      split: if_splits dest!: for_each_InlD)

lemma set_outputs_Inr [simp]:
  "set_outputs g outs = Inr g' \<longleftrightarrow>
     (\<forall>k \<in> set outs. k < length (graph_nodes g)) \<and> g' = g\<lparr>graph_outputs := outs\<rparr>"
  by (auto simp: set_outputs_def outcome_simps)

lemma add_node_wf:
  "add_node g oper ins out = Inr (g', i) \<Longrightarrow> wf_graph g \<Longrightarrow> wf_graph g'"
  by (auto simp: add_node_Inr wf_graph_def nodes_ok_snoc node_ok_def)

lemma set_outputs_wf: "set_outputs g outs = Inr g' \<Longrightarrow> wf_graph g \<Longrightarrow> wf_graph g'"
  by (auto simp: wf_graph_def)

text \<open>Concrete graphs for the witnesses: \<open>relu(x)\<close>, and \<open>(x * 1) + (x * 1)\<close> beside a dead node.\<close>

definition matrix_type :: tensor_type where
  "matrix_type = tensor_type_new F32 [2, 2]"

definition mk_node :: "operation \<Rightarrow> node_id list \<Rightarrow> node" where
  "mk_node oper ins = \<lparr>node_operation = oper, node_inputs = ins, node_output = matrix_type\<rparr>"

definition example_graph :: graph where
  "example_graph =
     \<lparr>graph_nodes = [mk_node (Input ''x'') [], mk_node Relu [0]], graph_outputs = [1]\<rparr>"

definition example_scaled :: graph where
  "example_scaled =
     \<lparr>graph_nodes =
        [mk_node (Input ''x'') [], mk_node (Scale (scalar_f32 f32_one)) [0],
         mk_node Exp [0], mk_node Exp [1], mk_node Add [2, 3], mk_node Relu [0]],
      graph_outputs = [4]\<rparr>"

section \<open>The graphs of the public interface\<close>

text \<open>
  The fields of \<open>Graph\<close> are private: every graph is built by \<open>Graph::new\<close>, \<open>add_node\<close> (which
  \<open>add_input\<close> and \<open>add_constant\<close> call) and \<open>set_outputs\<close>.
\<close>

inductive built_graph :: "graph \<Rightarrow> bool" where
  new: "built_graph graph_new"
| node: "built_graph g \<Longrightarrow> add_node g oper ins out = Inr (g', i) \<Longrightarrow> built_graph g'"
| outputs: "built_graph g \<Longrightarrow> set_outputs g outs = Inr g' \<Longrightarrow> built_graph g'"

lemma built_graph_wf: "built_graph g \<Longrightarrow> wf_graph g"
proof (induction rule: built_graph.induct)
  case new
  show ?case by (simp add: wf_graph_def nodes_ok_def graph_new_def)
qed (auto intro: add_node_wf set_outputs_wf)

lemma built_graph_size: "built_graph g \<Longrightarrow> length (graph_nodes g) \<le> u32_range"
  by (induction rule: built_graph.induct) (auto simp: graph_new_def add_node_Inr)

text \<open>
  every graph that the public construction interface can produce passes
  \<open>Graph::validate\<close>, has at most \<open>2^32\<close> nodes, so that every node index survives the \<open>as u32\<close>
  conversion unchanged, and refers only to earlier nodes.
\<close>

theorem built_graph_validates:
  assumes "built_graph g"
  shows "validate g = Inr () \<and> length (graph_nodes g) \<le> u32_range \<and>
           (\<forall>i < length (graph_nodes g). as_u32 i = i \<and>
              (\<forall>k \<in> set (node_inputs (graph_nodes g ! i)). k < i))"
  using built_graph_wf [OF assms] built_graph_size [OF assms]
  by (auto simp: validate_iff_wf wf_graph_def dest: nodes_ok_inputs)


theorem built_graph_validates_witness:
  "\<exists>g. validate g = Inr () \<and> length (graph_nodes g) \<le> u32_range \<and>
     graph_outputs g = [1] \<and>
     (\<forall>i < length (graph_nodes g). as_u32 i = i \<and>
        (\<forall>k \<in> set (node_inputs (graph_nodes g ! i)). k < i))"
proof -
  let ?g1 = "\<lparr>graph_nodes = [mk_node (Input ''x'') []], graph_outputs = []\<rparr>"
  let ?g2 = "\<lparr>graph_nodes = [mk_node (Input ''x'') [], mk_node Relu [0]], graph_outputs = []\<rparr>"
  have "built_graph ?g1"
    by (rule built_graph.node [OF built_graph.new, of "Input ''x''" "[]" matrix_type _ 0])
      (simp add: add_node_Inr graph_new_def mk_node_def)
  then have "built_graph ?g2"
    by (rule built_graph.node [of _ Relu "[0]" matrix_type _ 1])
      (simp add: add_node_Inr mk_node_def)
  then have "built_graph example_graph"
    by (rule built_graph.outputs [of _ "[1]"]) (simp add: example_graph_def)
  from built_graph_validates [OF this] show ?thesis
    by (intro exI [of _ example_graph]) (simp add: example_graph_def)
qed

text \<open>
  construction is append-only: adding a node leaves every existing node and its identifier
  as they were, the new node gets the next identifier, and a rejected node (wrong arity,
  forward reference, identifier space exhausted) is reported with the error that names it.
\<close>

theorem add_node_appends:
  "case add_node g oper ins out of
     Inr (g', i) \<Rightarrow>
       i = length (graph_nodes g) \<and>
       graph_nodes g' = graph_nodes g @
         [\<lparr>node_operation = oper, node_inputs = ins, node_output = out\<rparr>] \<and>
       graph_outputs g' = graph_outputs g
   | Inl f \<Rightarrow>
       (f = Err (ArityMismatch (expected_arity oper) (length ins)) \<and>
          length ins \<noteq> expected_arity oper) \<or>
       (\<exists>k \<in> set ins. f = Err (InvalidInput (length (graph_nodes g)) k) \<and>
          length (graph_nodes g) \<le> k) \<or>
       (f = Err TooManyNodes \<and> u32_range \<le> length (graph_nodes g))"
proof (cases "add_node g oper ins out")
  case (Inl f)
  then show ?thesis
    by (auto simp: add_node_def Let_def outcome_simps check_inputs_def
        split: if_splits dest!: for_each_InlD)
next
  case (Inr r)
  then obtain g' i where eq: "add_node g oper ins out = Inr (g', i)" by (cases r) auto
  from eq [unfolded add_node_Inr] show ?thesis by (simp add: eq)
qed

end
