(* ===== verification/Little_Endian.thy ===== *)
theory Little_Endian
  imports Prelude
begin

text \<open>
  Fixed-width integers and their little-endian bytes (\<open>to_le_bytes\<close>, \<open>from_le_bytes\<close>), as a locale of
  their laws with one interpretation per width.
\<close>

type_synonym u8 = "8 word"
type_synonym u16 = "16 word"
type_synonym u32 = "32 word"
type_synonym u64 = "64 word"

section \<open>Little-endian fields\<close>

definition le_bytes :: "nat \<Rightarrow> nat \<Rightarrow> u8 list" where
  "le_bytes width n = map (\<lambda>i. word_of_nat (n div 256 ^ i)) [0..<width]"

definition from_le :: "u8 list \<Rightarrow> nat" where
  "from_le bs = foldr (\<lambda>b n. unat b + 256 * n) bs 0"

lemma length_le_bytes [simp]: "length (le_bytes width n) = width"
  by (simp add: le_bytes_def)

lemma le_bytes_Suc: "le_bytes (Suc width) n = word_of_nat n # le_bytes width (n div 256)"
  by (intro nth_equalityI) (auto simp: le_bytes_def nth_Cons div_mult2_eq simp del: upt_Suc split: nat.split)

lemma unat_byte: "unat (word_of_nat n :: u8) = n mod 256"
  by (simp add: unat_of_nat)

lemma from_le_bytes: "from_le (le_bytes width n) = n mod 256 ^ width"
proof (induction width arbitrary: n)
  case 0
  then show ?case by (simp add: from_le_def le_bytes_def)
next
  case (Suc width)
  have "from_le (le_bytes (Suc width) n) = n mod 256 + 256 * from_le (le_bytes width (n div 256))"
    by (simp add: le_bytes_Suc from_le_def unat_byte)
  also have "\<dots> = n mod 256 ^ Suc width" by (simp add: Suc.IH mod_mult2_eq)
  finally show ?case .
qed

lemma from_le_less: "from_le bs < 256 ^ length bs"
proof (induction bs)
  case (Cons b bs)
  have "unat b < 256" using unsigned_less [of b] by simp
  with Cons show ?case by (simp add: from_le_def)
qed (simp add: from_le_def)

lemma le_bytes_from_le: "length bs = width \<Longrightarrow> le_bytes width (from_le bs) = bs"
proof (induction bs arbitrary: width)
  case Nil
  then show ?case by (simp add: le_bytes_def)
next
  case (Cons b bs)
  then obtain w where w: "width = Suc w" "length bs = w" by auto
  have b: "unat b < 256" using unsigned_less [of b] by simp
  have n: "from_le (b # bs) = unat b + 256 * from_le bs" by (simp add: from_le_def)
  have "word_of_nat (from_le (b # bs)) = b"
  proof -
    have "word_of_nat (unat b + 256 * from_le bs) = (word_of_nat (unat b) :: u8)"
      unfolding word_of_nat_eq_iff by (simp add: take_bit_eq_mod)
    also have "\<dots> = b" by simp
    finally show ?thesis unfolding n .
  qed
  moreover have "from_le (b # bs) div 256 = from_le bs" unfolding n using b by simp
  ultimately show ?case using Cons.IH [OF w(2)] w(1) by (simp add: le_bytes_Suc)
qed

definition u16_le :: "u16 \<Rightarrow> u8 list" where "u16_le w = le_bytes 2 (unat w)"
definition u32_le :: "u32 \<Rightarrow> u8 list" where "u32_le w = le_bytes 4 (unat w)"
definition u64_le :: "u64 \<Rightarrow> u8 list" where "u64_le w = le_bytes 8 (unat w)"

definition u16_from_le :: "u8 list \<Rightarrow> u16" where "u16_from_le bs = word_of_nat (from_le bs)"
definition u32_from_le :: "u8 list \<Rightarrow> u32" where "u32_from_le bs = word_of_nat (from_le bs)"
definition u64_from_le :: "u8 list \<Rightarrow> u64" where "u64_from_le bs = word_of_nat (from_le bs)"

text \<open>The laws of a fixed-width byte representation, and the three of the format.\<close>

locale fixed_width =
  fixes enc :: "'a \<Rightarrow> u8 list" and dec :: "u8 list \<Rightarrow> 'a" and width :: nat
  assumes enc_length: "length (enc x) = width"
    and dec_enc: "dec (enc x) = x"
    and enc_dec: "length bs = width \<Longrightarrow> enc (dec bs) = bs"
begin

lemma enc_eq_iff: "enc x = enc y \<longleftrightarrow> x = y"
  by (metis dec_enc)

lemma enc_append_eq: "enc x @ xs = enc y @ ys \<longleftrightarrow> x = y \<and> xs = ys"
  by (simp add: enc_length enc_eq_iff)

end

lemma word_le_bytes:
  assumes "LENGTH('a) = 8 * width"
  shows "word_of_nat (from_le (le_bytes width (unat (w :: 'a::len word)))) = w"
    and "length bs = width \<Longrightarrow> le_bytes width (unat (word_of_nat (from_le bs) :: 'a word)) = bs"
proof -
  have range: "(2::nat) ^ LENGTH('a) = 256 ^ width"
    unfolding assms by (simp add: power_mult)
  have "unat w < 2 ^ LENGTH('a)" by (rule unsigned_less)
  then have "unat w < 256 ^ width" by (simp only: range)
  then show "word_of_nat (from_le (le_bytes width (unat w))) = w" by (simp add: from_le_bytes)
  assume "length bs = width"
  then have "unat (word_of_nat (from_le bs) :: 'a word) = from_le bs"
    using from_le_less [of bs] by (simp add: unat_of_nat range)
  with \<open>length bs = width\<close> le_bytes_from_le show "le_bytes width (unat (word_of_nat (from_le bs) :: 'a word)) = bs"
    by metis
qed

interpretation u16: fixed_width u16_le u16_from_le 2
  by unfold_locales (simp_all add: u16_le_def u16_from_le_def word_le_bytes)

interpretation u32: fixed_width u32_le u32_from_le 4
  by unfold_locales (simp_all add: u32_le_def u32_from_le_def word_le_bytes)

interpretation u64: fixed_width u64_le u64_from_le 8
  by unfold_locales (simp_all add: u64_le_def u64_from_le_def word_le_bytes)

end
