(* ===== verification/Reference_Format.thy ===== *)
theory Reference_Format
  imports Tensor_Graph Little_Endian
begin

text \<open>
  The Reference kernel format of \<open>scirust-tensor-reference\<close>: the wire constants of \<open>format.rs\<close>, the
  artefact of \<open>artifact.rs\<close> and the errors of \<open>error.rs\<close>. Wire integers are words of their width.
\<close>

section \<open>Constants, opcodes and tags\<close>

definition reference_magic :: "u8 list" where
  "reference_magic = [83, 67, 73, 82, 85, 83, 84, 45, 82, 69, 70, 69, 82, 69, 78, 67, 69, 45, 75, 69, 82, 78, 69, 76, 0]"

definition reference_max_rank :: u16 where "reference_max_rank = 32"

definition attribute_tag_none :: u16 where "attribute_tag_none = 0x0000"
definition attribute_tag_scale :: u16 where "attribute_tag_scale = 0x0001"
definition attribute_tag_permute :: u16 where "attribute_tag_permute = 0x0002"

record format_version =
  fv_major :: u16
  fv_minor :: u16

definition reference_format_version :: format_version where
  "reference_format_version = \<lparr>fv_major = 1, fv_minor = 1\<rparr>"

datatype opcode =
    OpRelu | OpExp | OpLog | OpScale | OpReluGrad | OpZerosLike | OpOnesLike
  | OpAdd | OpSub | OpMul | OpDiv
  | OpShapeCopy | OpBroadcastTo | OpReduceSumTo | OpPermute | OpMatMul | OpBatchMatMul

fun opcode_code :: "opcode \<Rightarrow> u16" where
  "opcode_code OpRelu = 0x0001"
| "opcode_code OpExp = 0x0002"
| "opcode_code OpLog = 0x0003"
| "opcode_code OpScale = 0x0004"
| "opcode_code OpReluGrad = 0x0005"
| "opcode_code OpZerosLike = 0x0006"
| "opcode_code OpOnesLike = 0x0007"
| "opcode_code OpAdd = 0x0010"
| "opcode_code OpSub = 0x0011"
| "opcode_code OpMul = 0x0012"
| "opcode_code OpDiv = 0x0013"
| "opcode_code OpShapeCopy = 0x0020"
| "opcode_code OpBroadcastTo = 0x0021"
| "opcode_code OpReduceSumTo = 0x0022"
| "opcode_code OpPermute = 0x0030"
| "opcode_code OpMatMul = 0x0040"
| "opcode_code OpBatchMatMul = 0x0041"

definition opcode_from_code :: "u16 \<Rightarrow> opcode option" where
  "opcode_from_code c =
     (if c = 0x0001 then Some OpRelu
      else if c = 0x0002 then Some OpExp
      else if c = 0x0003 then Some OpLog
      else if c = 0x0004 then Some OpScale
      else if c = 0x0005 then Some OpReluGrad
      else if c = 0x0006 then Some OpZerosLike
      else if c = 0x0007 then Some OpOnesLike
      else if c = 0x0010 then Some OpAdd
      else if c = 0x0011 then Some OpSub
      else if c = 0x0012 then Some OpMul
      else if c = 0x0013 then Some OpDiv
      else if c = 0x0020 then Some OpShapeCopy
      else if c = 0x0021 then Some OpBroadcastTo
      else if c = 0x0022 then Some OpReduceSumTo
      else if c = 0x0030 then Some OpPermute
      else if c = 0x0040 then Some OpMatMul
      else if c = 0x0041 then Some OpBatchMatMul
      else None)"

fun operand_count :: "opcode \<Rightarrow> u16" where
  "operand_count OpAdd = 2"
| "operand_count OpSub = 2"
| "operand_count OpMul = 2"
| "operand_count OpDiv = 2"
| "operand_count OpReluGrad = 2"
| "operand_count OpMatMul = 2"
| "operand_count OpBatchMatMul = 2"
| "operand_count _ = 1"

fun minimum_minor :: "opcode \<Rightarrow> u16" where
  "minimum_minor OpReluGrad = 1"
| "minimum_minor OpZerosLike = 1"
| "minimum_minor OpOnesLike = 1"
| "minimum_minor OpBroadcastTo = 1"
| "minimum_minor OpReduceSumTo = 1"
| "minimum_minor OpMatMul = 1"
| "minimum_minor OpBatchMatMul = 1"
| "minimum_minor _ = 0"

fun dtype_to_tag :: "dtype \<Rightarrow> u16" where
  "dtype_to_tag Bool = 0x0001"
| "dtype_to_tag U8 = 0x0002"
| "dtype_to_tag I8 = 0x0003"
| "dtype_to_tag U16 = 0x0004"
| "dtype_to_tag I16 = 0x0005"
| "dtype_to_tag F16 = 0x0006"
| "dtype_to_tag Bf16 = 0x0007"
| "dtype_to_tag U32 = 0x0008"
| "dtype_to_tag I32 = 0x0009"
| "dtype_to_tag F32 = 0x000A"
| "dtype_to_tag U64 = 0x000B"
| "dtype_to_tag I64 = 0x000C"
| "dtype_to_tag F64 = 0x000D"

definition dtype_from_tag :: "u16 \<Rightarrow> dtype option" where
  "dtype_from_tag tag =
     (if tag = 0x0001 then Some Bool
      else if tag = 0x0002 then Some U8
      else if tag = 0x0003 then Some I8
      else if tag = 0x0004 then Some U16
      else if tag = 0x0005 then Some I16
      else if tag = 0x0006 then Some F16
      else if tag = 0x0007 then Some Bf16
      else if tag = 0x0008 then Some U32
      else if tag = 0x0009 then Some I32
      else if tag = 0x000A then Some F32
      else if tag = 0x000B then Some U64
      else if tag = 0x000C then Some I64
      else if tag = 0x000D then Some F64
      else None)"

lemma opcode_from_code_Some [simp]: "opcode_from_code c = Some oper \<longleftrightarrow> c = opcode_code oper"
proof
  show "opcode_from_code c = Some oper" if "c = opcode_code oper"
    unfolding that by (cases oper) (simp_all add: opcode_from_code_def)
  show "c = opcode_code oper" if "opcode_from_code c = Some oper"
    using that by (auto simp: opcode_from_code_def split: if_splits)
qed

lemma dtype_from_tag_Some [simp]: "dtype_from_tag t = Some d \<longleftrightarrow> t = dtype_to_tag d"
proof
  show "dtype_from_tag t = Some d" if "t = dtype_to_tag d"
    unfolding that by (cases d) (simp_all add: dtype_from_tag_def)
  show "t = dtype_to_tag d" if "dtype_from_tag t = Some d"
    using that by (auto simp: dtype_from_tag_def split: if_splits)
qed

section \<open>Artefacts\<close>

record tensor_layout =
  tl_dims :: "u64 list"
  tl_elements :: u64

datatype attributes = NoAttributes | ScaleAttributes u32 | PermuteAttributes "u16 list"

record artifact =
  ra_kernel :: u32
  ra_version :: format_version
  ra_opcode :: opcode
  ra_dtype :: dtype
  ra_operands :: "tensor_layout list"
  ra_result :: tensor_layout
  ra_attributes :: attributes

text \<open>\<open>format!("scirust_reference_kernel_{}", id)\<close>: the decimal digits of the identifier.\<close>

fun decimal :: "nat \<Rightarrow> string" where
  "decimal n = (if n < 10 then [char_of (48 + n)] else decimal (n div 10) @ [char_of (48 + n mod 10)])"

declare decimal.simps [simp del]

definition artifact_entry_point :: "artifact \<Rightarrow> string" where
  "artifact_entry_point a = ''scirust_reference_kernel_'' @ decimal (unat (ra_kernel a))"

section \<open>Errors\<close>

datatype generation_error =
    TooManyKernels usize
  | DuplicateLogicalKernel u32
  | MissingLogicalKernel u32
  | OutOfOrderLogicalKernel u32 u32
  | UnsupportedKernelFamily u32
  | GenerationUnsupportedDType u32 dtype
  | MixedDTypes u32
  | ScaleFactorTypeMismatch u32
  | ScaleFactorBitsOverflow u32
  | GenerationUnexpectedOperandCount u32 usize usize
  | GenerationRankTooLarge u32 usize u16
  | DimensionOverflow u32
  | GenerationElementCountOverflow u32
  | AxisIndexOverflow u32
  | InvalidKernelModule u32 compute_error

datatype decode_error =
    InvalidMagic
  | IncompatibleMajorVersion u16 u16
  | UnsupportedMinorVersion u16 u16
  | UnknownOpcode u16
  | UnknownDType u16
  | DecodeUnsupportedDType dtype
  | UnknownAttributeTag u16
  | AttributeOpcodeMismatch opcode
  | TruncatedInput usize usize
  | TrailingBytes usize
  | RankTooLarge u16 u16
  | InvalidResultCount u16
  | UnexpectedOperandCount opcode usize usize
  | ElementCountOverflow
  | ElementCountMismatch
  | DecodeInvalidPermutation
  | ShapeMismatch

datatype execution_error =
    WrongKernelFormat kernel_format
  | InvalidEncoding decode_error
  | EntryPointMismatch string string
  | UnsupportedOpcode opcode
  | DeterministicMathUnavailable opcode
  | ExecutionUnsupportedDType dtype
  | OperandCountMismatch usize usize
  | OperandLengthMismatch usize usize usize
  | OutputLengthMismatch usize usize
  | AttributeMismatch opcode
  | DimensionConversionOverflow u64
  | IndexOverflow
  | InternalIndexOutOfBounds

end
