(* ===== verification/Codec_Correct.thy ===== *)
theory Codec_Correct
  imports Reference_Codec
begin

text \<open>
  Correctness of the Reference codec. A wire field is a parser together with the byte string of
  a value and the condition under which the parser accepts it; the law of the interface says that
  the parser accepts exactly the byte strings of the acceptable values. Integers, layouts and
  sequences of fields are wire fields, and the decoder is their composition followed by the shape
  rules, so that among the byte strings of version 1.1 it accepts exactly the encodings of the valid
  artefacts.
\<close>

section \<open>Cursor positions\<close>

definition at_pos :: "u8 list \<Rightarrow> u8 list \<Rightarrow> byte_reader" where
  "at_pos pre xs = \<lparr>br_bytes = pre @ xs, br_offset = length pre\<rparr>"

lemma reader_new_at: "reader_new bytes = at_pos [] bytes"
  by (simp add: reader_new_def at_pos_def)

lemma reader_remaining_at [simp]: "reader_remaining (at_pos pre xs) = length xs"
  by (simp add: reader_remaining_def at_pos_def)

lemma take_bytes_at:
  "take_bytes n (at_pos pre xs) =
     (if length xs < n then fail (TruncatedInput n (length xs))
      else Inr (take n xs, at_pos (pre @ take n xs) (drop n xs)))"
  by (auto simp: take_bytes_def at_pos_def require_def reader_remaining_def)

lemma take_bytes_iff [outcome_simps]:
  "take_bytes n (at_pos pre xs) = Inr (bs, r) \<longleftrightarrow>
     length bs = n \<and> (\<exists>ys. xs = bs @ ys \<and> r = at_pos (pre @ bs) ys)"
  by (auto simp: take_bytes_at intro: exI [of _ "drop n xs"])

lemma take_bytes_no_panic [simp]: "take_bytes n r \<noteq> Inl Panic"
  by (simp add: take_bytes_def Let_def outcome_simps)

lemma bind_pair_Inr [outcome_simps]:
  "try_bind m (\<lambda>(x, r). f x r) = Inr y \<longleftrightarrow> (\<exists>x r. m = Inr (x, r) \<and> f x r = Inr y)"
  by (auto simp: try_bind_eq_Inr)

section \<open>Wire fields\<close>

locale wire_field =
  fixes read :: "'a parser" and enc :: "'a \<Rightarrow> u8 list" and ok :: "'a \<Rightarrow> bool"
  assumes read_iff:
    "read (at_pos pre xs) = Inr (x, r) \<longleftrightarrow> ok x \<and> (\<exists>ys. xs = enc x @ ys \<and> r = at_pos (pre @ enc x) ys)"
begin

lemma read_many_iff:
  "read_many read n (at_pos pre xs) = Inr (vs, r) \<longleftrightarrow>
     length vs = n \<and> list_all ok vs \<and>
     (\<exists>ys. xs = concat (map enc vs) @ ys \<and> r = at_pos (pre @ concat (map enc vs)) ys)"
proof (induction n arbitrary: pre xs vs)
  case 0
  then show ?case by auto
next
  case (Suc n)
  then show ?case
    by (cases vs) (auto simp: outcome_simps read_iff)
qed

lemma read_enc: "ok x \<Longrightarrow> read (at_pos pre (enc x @ ys)) = Inr (x, at_pos (pre @ enc x) ys)"
  by (simp add: read_iff)

lemma read_many_enc:
  "list_all ok vs \<Longrightarrow> read_many read (length vs) (at_pos pre (concat (map enc vs) @ ys)) =
     Inr (vs, at_pos (pre @ concat (map enc vs)) ys)"
  by (simp add: read_many_iff)

lemma prefix_free:
  assumes "ok x" "ok y" "enc x @ xs = enc y @ ys"
  shows "x = y \<and> xs = ys"
proof -
  from read_enc [OF assms(1), of "[]" xs] read_enc [OF assms(2), of "[]" ys] assms(3)
  have "x = y" by simp
  with assms(3) show ?thesis by simp
qed

end

lemma fixed_width_field:
  assumes "fixed_width enc dec n"
    and "\<And>r. read r = try_bind (take_bytes n r) (\<lambda>(slice, r). Inr (dec slice, r))"
  shows "wire_field read enc (\<lambda>_. True)"
  using fixed_width.enc_length [OF assms(1)] fixed_width.dec_enc [OF assms(1)] fixed_width.enc_dec [OF assms(1)]
  by unfold_locales (auto simp: assms(2) outcome_simps)

interpretation f16: wire_field read_u16 u16_le "\<lambda>_. True"
  by (rule fixed_width_field [OF u16.fixed_width_axioms]) (simp add: read_u16_def)

interpretation f32: wire_field read_u32 u32_le "\<lambda>_. True"
  by (rule fixed_width_field [OF u32.fixed_width_axioms]) (simp add: read_u32_def)

interpretation f64: wire_field read_u64 u64_le "\<lambda>_. True"
  by (rule fixed_width_field [OF u64.fixed_width_axioms]) (simp add: read_u64_def)

section \<open>The encoder as a concatenation of fields\<close>

definition layout_bytes :: "tensor_layout \<Rightarrow> u8 list" where
  "layout_bytes l =
     u16_le (as_u16 (length (tl_dims l))) @ concat (map u64_le (tl_dims l)) @ u64_le (tl_elements l)"

fun attribute_tag_of :: "attributes \<Rightarrow> u16" where
  "attribute_tag_of NoAttributes = attribute_tag_none"
| "attribute_tag_of (ScaleAttributes _) = attribute_tag_scale"
| "attribute_tag_of (PermuteAttributes _) = attribute_tag_permute"

fun payload_bytes :: "attributes \<Rightarrow> u8 list" where
  "payload_bytes NoAttributes = []"
| "payload_bytes (ScaleAttributes bits) = u32_le bits"
| "payload_bytes (PermuteAttributes axes) = u16_le (as_u16 (length axes)) @ concat (map u16_le axes)"

lemma foldl_append: "(\<And>w x. g w x = w @ f x) \<Longrightarrow> foldl g w xs = w @ concat (map f xs)"
  by (induction xs arbitrary: w) auto

lemmas foldl_fields =
  foldl_append [of w_u16 u16_le, OF w_u16_def] foldl_append [of w_u64 u64_le, OF w_u64_def]

lemma write_layout_eq: "write_layout w l = w @ layout_bytes l"
  by (simp add: write_layout_def foldl_fields w_u16_def w_u64_def layout_bytes_def)

lemma write_attributes_eq: "write_attributes w at = w @ u16_le (attribute_tag_of at) @ payload_bytes at"
  by (cases at) (simp_all add: write_attributes_def foldl_fields w_u16_def w_u32_def)

lemma encode_eq:
  "encode a =
     reference_magic @ u16_le (fv_major (ra_version a)) @ u16_le (fv_minor (ra_version a)) @
     u32_le (ra_kernel a) @ u16_le (opcode_code (ra_opcode a)) @ u16_le (dtype_to_tag (ra_dtype a)) @
     u16_le (as_u16 (length (ra_operands a))) @ u16_le 1 @
     concat (map layout_bytes (ra_operands a)) @ layout_bytes (ra_result a) @
     u16_le (attribute_tag_of (ra_attributes a)) @ payload_bytes (ra_attributes a)"
  by (simp add: encode_def w_raw_def w_u16_def w_u32_def write_attributes_eq Let_def
      write_layout_eq foldl_append [of write_layout layout_bytes, OF write_layout_eq])

lemma as_u16_unat [simp]: "as_u16 (unat w) = w"
  by (simp add: as_u16_def)

lemma unat_as_u16 [simp]: "n < 65536 \<Longrightarrow> unat (as_u16 n) = n"
  by (simp add: as_u16_def unat_of_nat)

section \<open>Layouts\<close>

definition layout_ok :: "tensor_layout \<Rightarrow> bool" where
  "layout_ok l \<longleftrightarrow> length (tl_dims l) \<le> 32 \<and> layout_elements (tl_dims l) = Inr (tl_elements l)"

lemma length_concat_fixed: "(\<And>x. length (f x) = k) \<Longrightarrow> length (concat (map f xs)) = length xs * k"
  by (induction xs) auto

lemma length_u64s [simp]: "length (concat (map u64_le dims)) = length dims * 8"
  by (rule length_concat_fixed) (rule u64.enc_length)

lemma length_u16s [simp]: "length (concat (map u16_le axes)) = length axes * 2"
  by (rule length_concat_fixed) (rule u16.enc_length)

lemma rank_limit: "\<not> rank > reference_max_rank \<longleftrightarrow> unat rank \<le> 32"
  by (simp add: reference_max_rank_def word_less_nat_alt not_less)

interpretation layout: wire_field read_layout layout_bytes layout_ok
proof
  fix pre xs l r
  show "read_layout (at_pos pre xs) = Inr (l, r) \<longleftrightarrow>
      layout_ok l \<and> (\<exists>ys. xs = layout_bytes l @ ys \<and> r = at_pos (pre @ layout_bytes l) ys)"
  proof
    assume "read_layout (at_pos pre xs) = Inr (l, r)"
    then show "layout_ok l \<and> (\<exists>ys. xs = layout_bytes l @ ys \<and> r = at_pos (pre @ layout_bytes l) ys)"
      by (auto simp: read_layout_def outcome_simps f16.read_iff f64.read_iff f64.read_many_iff rank_limit
          layout_ok_def layout_bytes_def Let_def)
  next
    assume "layout_ok l \<and> (\<exists>ys. xs = layout_bytes l @ ys \<and> r = at_pos (pre @ layout_bytes l) ys)"
    then obtain ys where ok: "length (tl_dims l) \<le> 32" "layout_elements (tl_dims l) = Inr (tl_elements l)"
      and xs: "xs = layout_bytes l @ ys" and r: "r = at_pos (pre @ layout_bytes l) ys"
      by (auto simp: layout_ok_def)
    have rank: "unat (as_u16 (length (tl_dims l))) = length (tl_dims l)" using ok(1) by simp
    show "read_layout (at_pos pre xs) = Inr (l, r)"
      using ok(1) unfolding xs r
      by (simp add: read_layout_def layout_bytes_def f16.read_enc f64.read_enc rank_limit rank require_def
          Let_def f64.read_many_enc ok(2) u64.enc_length list_all_iff)
  qed
qed

section \<open>Attributes\<close>

fun attributes_ok :: "opcode \<Rightarrow> usize \<Rightarrow> attributes \<Rightarrow> bool" where
  "attributes_ok oper rank NoAttributes \<longleftrightarrow> oper \<noteq> OpScale \<and> oper \<noteq> OpPermute"
| "attributes_ok oper rank (ScaleAttributes _) \<longleftrightarrow> oper = OpScale"
| "attributes_ok oper rank (PermuteAttributes axes) \<longleftrightarrow> oper = OpPermute \<and> length axes = rank"

lemmas attribute_tags = attribute_tag_none_def attribute_tag_scale_def attribute_tag_permute_def

lemma read_attributes_iff:
  assumes "rank \<le> 32"
  shows "read_attributes oper tag rank (at_pos pre xs) = Inr (attrs, r) \<longleftrightarrow>
    attributes_ok oper rank attrs \<and> tag = attribute_tag_of attrs \<and>
    (\<exists>ys. xs = payload_bytes attrs @ ys \<and> r = at_pos (pre @ payload_bytes attrs) ys)"
proof
  assume "read_attributes oper tag rank (at_pos pre xs) = Inr (attrs, r)"
  then show "attributes_ok oper rank attrs \<and> tag = attribute_tag_of attrs \<and>
    (\<exists>ys. xs = payload_bytes attrs @ ys \<and> r = at_pos (pre @ payload_bytes attrs) ys)"
    by (auto simp: read_attributes_def outcome_simps f32.read_iff f16.read_iff f16.read_many_iff Let_def
        split: if_splits)
next
  assume asm: "attributes_ok oper rank attrs \<and> tag = attribute_tag_of attrs \<and>
    (\<exists>ys. xs = payload_bytes attrs @ ys \<and> r = at_pos (pre @ payload_bytes attrs) ys)"
  then obtain ys where "attributes_ok oper rank attrs" "tag = attribute_tag_of attrs"
    "xs = payload_bytes attrs @ ys" "r = at_pos (pre @ payload_bytes attrs) ys" by blast
  then show "read_attributes oper tag rank (at_pos pre xs) = Inr (attrs, r)"
    using assms f16.read_many_enc
    by (cases attrs)
      (auto simp: read_attributes_def f32.read_enc f16.read_enc require_def attribute_tags list_all_iff Let_def)
qed

section \<open>Shape rules\<close>

text \<open>The rules between the layouts of a kernel, as relations on dimension lists.\<close>

definition aligned :: "u64 list \<Rightarrow> u64 list \<Rightarrow> bool" where
  "aligned source target \<longleftrightarrow>
     length source \<le> length target \<and>
     list_all2 (\<lambda>s t. s = t \<or> s = 1) source (drop (length target - length source) target)"

fun matmul_dims :: "u64 list \<Rightarrow> u64 list \<Rightarrow> u64 list \<Rightarrow> bool" where
  "matmul_dims [m, k] [k', n] [m', n'] \<longleftrightarrow> k = k' \<and> m = m' \<and> n = n'"
| "matmul_dims _ _ _ \<longleftrightarrow> False"

definition batch_matmul_dims :: "u64 list \<Rightarrow> u64 list \<Rightarrow> u64 list \<Rightarrow> bool" where
  "batch_matmul_dims lhs rhs out \<longleftrightarrow>
     (let r = length lhs - 2 in
      length lhs \<ge> 3 \<and> length rhs = length lhs \<and> length out = length lhs \<and>
      take r lhs = take r rhs \<and> take r lhs = take r out \<and> matmul_dims (drop r lhs) (drop r rhs) (drop r out))"

definition permuted_dims :: "u64 list \<Rightarrow> u16 list \<Rightarrow> u64 list \<Rightarrow> bool" where
  "permuted_dims source axes out \<longleftrightarrow>
     length axes = length source \<and> distinct axes \<and> list_all (\<lambda>a. unat a < length source) axes \<and>
     out = map (\<lambda>a. source ! unat a) axes"

definition shapes_typed :: "opcode \<Rightarrow> tensor_layout list \<Rightarrow> tensor_layout \<Rightarrow> attributes \<Rightarrow> bool" where
  [simp]: "shapes_typed oper operands result attrs =
     (case operands of
        [a] \<Rightarrow>
          if oper = OpShapeCopy then tl_elements a = tl_elements result
          else if oper = OpBroadcastTo then aligned (tl_dims a) (tl_dims result)
          else if oper = OpReduceSumTo then aligned (tl_dims result) (tl_dims a)
          else if oper = OpPermute then
            (case attrs of PermuteAttributes axes \<Rightarrow> permuted_dims (tl_dims a) axes (tl_dims result) | _ \<Rightarrow> False)
          else operand_count oper = 1 \<and> tl_dims a = tl_dims result
      | [a, b] \<Rightarrow>
          if oper = OpMatMul then matmul_dims (tl_dims a) (tl_dims b) (tl_dims result)
          else if oper = OpBatchMatMul then batch_matmul_dims (tl_dims a) (tl_dims b) (tl_dims result)
          else operand_count oper = 2 \<and> tl_dims a = tl_dims result \<and> tl_dims b = tl_dims result
      | _ \<Rightarrow> False)"

lemma aligned_dims_iff [simp]: "aligned_dims source target = Inr u \<longleftrightarrow> aligned source target"
  by (auto simp: aligned_dims_def aligned_def outcome_simps Let_def list_all2_iff list_all_iff)

lemma see_axes_iff:
  "length seen = rank \<Longrightarrow>
     (\<exists>s. try_fold (see_axis rank) seen axes = Inr s) \<longleftrightarrow>
       distinct axes \<and> (\<forall>a \<in> set axes. unat a < rank \<and> \<not> seen ! unat a)"
proof (induction axes arbitrary: seen)
  case Nil
  then show ?case by simp
next
  case (Cons a axes)
  show ?case
  proof (cases "unat a < rank \<and> \<not> seen ! unat a")
    case True
    with Cons.prems have step: "see_axis rank seen a = Inr (seen[unat a := True])"
      by (simp add: see_axis_def Let_def)
    have "(\<exists>s. try_fold (see_axis rank) (seen[unat a := True]) axes = Inr s) \<longleftrightarrow>
        distinct axes \<and> (\<forall>b \<in> set axes. unat b < rank \<and> \<not> seen[unat a := True] ! unat b)"
      by (rule Cons.IH) (simp add: Cons.prems)
    also have "\<dots> \<longleftrightarrow> distinct (a # axes) \<and> (\<forall>b \<in> set (a # axes). unat b < rank \<and> \<not> seen ! unat b)"
      using True Cons.prems by (auto simp: nth_list_update simp flip: word_unat_eq_iff)
    finally show ?thesis by (simp add: step)
  next
    case False
    then show ?thesis using Cons.prems by (auto simp: see_axis_def Let_def outcome_simps)
  qed
qed

lemma validate_permutation_iff [simp]:
  "validate_permutation inp out axes = Inr u \<longleftrightarrow> permuted_dims (tl_dims inp) axes (tl_dims out)"
proof -
  let ?rank = "length (tl_dims inp)"
  have seen: "(\<exists>s. try_fold (see_axis ?rank) (replicate ?rank False) axes = Inr s) \<longleftrightarrow>
      distinct axes \<and> (\<forall>a \<in> set axes. unat a < ?rank)"
    by (subst see_axes_iff) auto
  have "validate_permutation inp out axes = Inr u \<longleftrightarrow>
      (length axes = ?rank \<and> length (tl_dims out) = ?rank) \<and>
      (\<exists>s. try_fold (see_axis ?rank) (replicate ?rank False) axes = Inr s) \<and>
      (\<forall>i < length axes. i < length (tl_dims out) \<and> unat (axes ! i) < ?rank \<and>
         tl_dims out ! i = tl_dims inp ! unat (axes ! i))"
    by (auto simp: validate_permutation_def outcome_simps layout_rank_def ball_enumerate0 Let_def)
  also have "\<dots> \<longleftrightarrow> permuted_dims (tl_dims inp) axes (tl_dims out)"
    unfolding seen permuted_dims_def list_all_iff by (auto simp: list_eq_iff_nth_eq)
  finally show ?thesis .
qed

lemma length_two: "length xs = 2 \<longleftrightarrow> (\<exists>a b. xs = [a, b])"
  by (auto simp: numeral_2_eq_2 length_Suc_conv)

lemma matmul_dims_iff:
  "matmul_dims lhs rhs out \<longleftrightarrow>
     length lhs = 2 \<and> length rhs = 2 \<and> length out = 2 \<and> lhs ! 1 = rhs ! 0 \<and> out ! 0 = lhs ! 0 \<and> out ! 1 = rhs ! 1"
  by (cases "(lhs, rhs, out)" rule: matmul_dims.cases) (auto simp: length_two)

lemma batch_matmul_dims_iff:
  "batch_matmul_dims lhs rhs out \<longleftrightarrow>
     \<not> (length lhs < 3 \<or> length lhs \<noteq> length rhs \<or> length lhs \<noteq> length out) \<and>
     take (length lhs - 2) lhs = take (length lhs - 2) rhs \<and> take (length lhs - 2) lhs = take (length lhs - 2) out \<and>
     lhs ! (length lhs - 1) = rhs ! (length lhs - 2) \<and> out ! (length lhs - 2) = lhs ! (length lhs - 2) \<and>
     out ! (length lhs - 1) = rhs ! (length lhs - 1)"
proof (cases "3 \<le> length lhs \<and> length rhs = length lhs \<and> length out = length lhs")
  case True
  have last: "drop (length lhs - 2) xs ! 1 = xs ! (length lhs - 1)"
    "drop (length lhs - 2) xs ! 0 = xs ! (length lhs - 2)" "length (drop (length lhs - 2) xs) = 2"
    if "length xs = length lhs" for xs :: "u64 list"
  proof -
    have "Suc (length lhs - 2) = length lhs - 1" using True by arith
    with that True show "drop (length lhs - 2) xs ! 1 = xs ! (length lhs - 1)" by simp
  qed (use that True in auto)
  show ?thesis using True by (auto simp: batch_matmul_dims_def matmul_dims_iff Let_def last last [unfolded One_nat_def] simp del: nth_drop)
qed (auto simp: batch_matmul_dims_def Let_def)

lemma operand_count_cases:
  assumes "length operands = unat (operand_count oper)"
  obtains a where "operands = [a]" "operand_count oper = 1"
  | a b where "operands = [a, b]" "operand_count oper = 2"
  using assms by (cases oper) (auto simp: length_two length_Suc_conv)

lemma validate_opcode_shapes_iff:
  assumes "length operands = unat (operand_count oper)"
  shows "validate_opcode_shapes oper operands result attrs = Inr u \<longleftrightarrow>
    shapes_typed oper operands result attrs"
  using assms
  by (cases rule: operand_count_cases; cases oper)
    (auto simp: validate_opcode_shapes_def outcome_simps Let_def matmul_dims_iff batch_matmul_dims_iff
      split: attributes.splits)

section \<open>Valid artefacts and the decoder\<close>

definition artifact_ok :: "artifact \<Rightarrow> bool" where
  "artifact_ok a \<longleftrightarrow>
     ra_version a = reference_format_version \<and> ra_dtype a = F32 \<and>
     length (ra_operands a) = unat (operand_count (ra_opcode a)) \<and>
     list_all layout_ok (ra_operands a) \<and> layout_ok (ra_result a) \<and>
     attributes_ok (ra_opcode a) (length (tl_dims (ra_result a))) (ra_attributes a) \<and>
     shapes_typed (ra_opcode a) (ra_operands a) (ra_result a) (ra_attributes a)"

lemma read_attributes_iff_layout:
  assumes "layout_ok l"
  shows "read_attributes oper tag (layout_rank l) (at_pos pre xs) = Inr (attrs, r) \<longleftrightarrow>
    attributes_ok oper (length (tl_dims l)) attrs \<and> tag = attribute_tag_of attrs \<and>
    (\<exists>ys. xs = payload_bytes attrs @ ys \<and> r = at_pos (pre @ payload_bytes attrs) ys)"
  unfolding layout_rank_def by (rule read_attributes_iff) (use assms in \<open>simp add: layout_ok_def\<close>)

lemma decode_sound:
  assumes "decode bytes = Inr a"
  shows "artifact_ok a \<and> bytes = encode a"
  using assms unfolding decode_def reader_new_at
  apply (simp only: bind_pair_Inr take_bytes_iff Let_def)
  apply (clarsimp simp: outcome_simps f16.read_iff f32.read_iff layout.read_iff layout.read_many_iff
      validate_opcode_shapes_iff read_attributes_iff_layout)
  apply (simp add: artifact_ok_def encode_eq reference_format_version_def)
  done

lemma encode_complete:
  assumes "artifact_ok a"
  shows "decode (encode a) = Inr a"
proof -
  have "unat (operand_count (ra_opcode a)) < 65536" using unsigned_less [of "operand_count (ra_opcode a)"] by simp
  then have cnt: "as_u16 (length (ra_operands a)) = operand_count (ra_opcode a)"
    using assms by (simp add: artifact_ok_def)
  have shapes: "validate_opcode_shapes (ra_opcode a) (ra_operands a) (ra_result a) (ra_attributes a) = Inr ()"
    using assms by (simp add: artifact_ok_def validate_opcode_shapes_iff)
  have attrs: "read_attributes (ra_opcode a) (attribute_tag_of (ra_attributes a)) (layout_rank (ra_result a))
      (at_pos pre (payload_bytes (ra_attributes a))) = Inr (ra_attributes a, at_pos (pre @ payload_bytes (ra_attributes a)) [])"
    for pre
    using assms by (simp add: artifact_ok_def read_attributes_iff_layout)
  have operands: "read_many read_layout (unat (operand_count (ra_opcode a)))
      (at_pos pre (concat (map layout_bytes (ra_operands a)) @ ys)) =
      Inr (ra_operands a, at_pos (pre @ concat (map layout_bytes (ra_operands a))) ys)" for pre ys
    using assms layout.read_many_enc [of "ra_operands a" pre ys] by (simp add: artifact_ok_def)
  have magic: "take_bytes (length reference_magic) (at_pos [] (reference_magic @ xs)) =
      Inr (reference_magic, at_pos reference_magic xs)" for xs
    by (simp add: take_bytes_at)
  have tags: "opcode_from_code (opcode_code (ra_opcode a)) = Some (ra_opcode a)" "dtype_from_tag 10 = Some F32"
    by simp_all
  show ?thesis
    using assms unfolding decode_def reader_new_at encode_eq
    by (simp add: magic tags f16.read_enc f32.read_enc require_def artifact_ok_def cnt Let_def
        operands layout.read_enc shapes attrs)
qed

lemma decode_iff: "decode bytes = Inr a \<longleftrightarrow> artifact_ok a \<and> bytes = encode a"
  using decode_sound encode_complete by blast

section \<open>Malformed input is an error, never a panic\<close>

lemma bind_no_panic:
  assumes "m \<noteq> Inl Panic" "\<And>x. m = Inr x \<Longrightarrow> f x \<noteq> Inl Panic"
  shows "try_bind m f \<noteq> Inl Panic"
  using assms by (cases m) auto

lemma bind_pair_no_panic:
  assumes "m \<noteq> Inl Panic" "\<And>x r. m = Inr (x, r) \<Longrightarrow> f x r \<noteq> Inl Panic"
  shows "try_bind m (\<lambda>(x, r). f x r) \<noteq> Inl Panic"
  using assms by (cases m) auto

lemma require_no_panic [simp]: "require b e \<noteq> Inl Panic"
  by simp

lemma ok_or_no_panic [simp]: "ok_or e m \<noteq> Inl Panic"
  by simp

lemmas no_panic_intros = bind_pair_no_panic bind_no_panic

lemma read_ints_no_panic [simp]: "read_u16 r \<noteq> Inl Panic" "read_u32 r \<noteq> Inl Panic" "read_u64 r \<noteq> Inl Panic"
  unfolding read_u16_def read_u32_def read_u64_def by (intro no_panic_intros; simp)+

lemma read_many_no_panic [simp]: "(\<And>r. read r \<noteq> Inl Panic) \<Longrightarrow> read_many read n r \<noteq> Inl Panic"
  by (induction n arbitrary: r) (auto simp: try_bind_eq_Inl)

lemma read_many_length: "read_many read n r = Inr (xs, r') \<Longrightarrow> length xs = n"
  by (induction n arbitrary: r xs r') (auto simp: outcome_simps)

lemma layout_elements_no_panic [simp]: "layout_elements dims \<noteq> Inl Panic"
proof
  assume "layout_elements dims = Inl Panic"
  then have "\<exists>i s. i < length dims \<and> True \<and> ok_or ElementCountOverflow (u64_checked_mul s (dims ! i)) = Inl Panic"
    unfolding layout_elements_def by (rule try_fold_Inl) simp_all
  then show False by simp
qed

lemma read_layout_no_panic [simp]: "read_layout r \<noteq> Inl Panic"
  unfolding read_layout_def Let_def by (intro no_panic_intros) auto

lemma read_attributes_no_panic [simp]: "read_attributes oper tag rank r \<noteq> Inl Panic"
  unfolding read_attributes_def Let_def by (simp add: try_bind_eq_Inl split: prod.splits)

lemma see_axes_no_panic: "try_fold (see_axis rank) (replicate rank False) axes \<noteq> Inl Panic"
proof
  assume "try_fold (see_axis rank) (replicate rank False) axes = Inl Panic"
  then have "\<exists>i s. i < length axes \<and> length s = rank \<and> see_axis rank s (axes ! i) = Inl Panic"
    by (rule try_fold_Inl) (auto simp: see_axis_def Let_def outcome_simps split: if_splits)
  then show False by (auto simp: see_axis_def Let_def outcome_simps split: if_splits)
qed

lemma validate_permutation_no_panic: "validate_permutation inp out axes \<noteq> Inl Panic"
proof
  assume panic: "validate_permutation inp out axes = Inl Panic"
  let ?rank = "length (tl_dims inp)"
  from panic see_axes_no_panic obtain s i where
    len: "length axes = ?rank" "length (tl_dims out) = ?rank"
    and seen: "try_fold (see_axis ?rank) (replicate ?rank False) axes = Inr s"
    and i: "i < length axes" "?rank \<le> unat (axes ! i)"
    by (auto simp: validate_permutation_def layout_rank_def outcome_simps set_enumerate0 Let_def
        dest!: for_each_InlD)
  from seen have "\<forall>a \<in> set axes. unat a < ?rank"
    using see_axes_iff [of "replicate ?rank False" ?rank axes] by auto
  with i show False by (auto simp: not_le [symmetric])
qed

lemma aligned_dims_no_panic: "aligned_dims source target \<noteq> Inl Panic"
  by (simp add: aligned_dims_def Let_def)

lemma validate_opcode_shapes_no_panic:
  assumes "length operands = unat (operand_count oper)"
  shows "validate_opcode_shapes oper operands result attrs \<noteq> Inl Panic"
  using assms validate_permutation_no_panic aligned_dims_no_panic
  by (cases rule: operand_count_cases; cases oper)
    (auto simp: validate_opcode_shapes_def outcome_simps Let_def split: attributes.splits)

lemma decode_no_panic: "decode bytes \<noteq> Inl Panic"
  unfolding decode_def Let_def
  by (intro no_panic_intros) (auto dest!: read_many_length simp: validate_opcode_shapes_no_panic)

text \<open>The version that a byte string carries behind the magic.\<close>

definition carries_version :: "u8 list \<Rightarrow> u16 \<Rightarrow> u16 \<Rightarrow> bool" where
  "carries_version bytes major minor \<longleftrightarrow>
     (\<exists>rest. bytes = reference_magic @ u16_le major @ u16_le minor @ rest)"

lemma encode_version:
  "artifact_ok a \<Longrightarrow> carries_version (encode a) 1 1"
  by (auto simp: carries_version_def encode_eq artifact_ok_def reference_format_version_def)

text \<open>
  C32: on a byte string of version 1.1, the version that the encoder writes, the decoder never panics and
  accepts exactly the encodings of the valid artefacts: arity, layouts, attributes and shapes obey the rules
  of the format, the data type is \<open>F32\<close>, and nothing follows the artefact. So decoding inverts encoding,
  and two byte strings never decode to the same artefact. Strings of version 1.0, which the documentation
  of the format says are accepted as well, are not covered: the decoder refuses them all
  (\<open>decode_refuses_version_1_0\<close>).
\<close>

theorem decode_accepts_exactly_encodings:
  assumes "carries_version bytes 1 1"
  shows "(decode bytes = Inr a \<longleftrightarrow> artifact_ok a \<and> bytes = encode a) \<and> decode bytes \<noteq> Inl Panic"
  using decode_iff decode_no_panic by blast

definition sample_layout :: tensor_layout where
  "sample_layout = \<lparr>tl_dims = [2], tl_elements = 2\<rparr>"

definition sample_artifact :: artifact where
  "sample_artifact = \<lparr>ra_kernel = 7, ra_version = reference_format_version, ra_opcode = OpRelu, ra_dtype = F32,
     ra_operands = [sample_layout], ra_result = sample_layout, ra_attributes = NoAttributes\<rparr>"

lemma sample_artifact_ok: "artifact_ok sample_artifact"
  by (simp add: artifact_ok_def sample_artifact_def sample_layout_def layout_ok_def layout_elements_def
      u64_checked_mul_def)

theorem decode_accepts_exactly_encodings_witness:
  "decode (encode sample_artifact) = Inr sample_artifact \<and>
   decode (encode sample_artifact @ [0]) \<noteq> Inr sample_artifact"
proof -
  note version = encode_version [OF sample_artifact_ok]
  then have "carries_version (encode sample_artifact @ [0]) 1 1" by (auto simp: carries_version_def)
  from decode_accepts_exactly_encodings [OF this] decode_accepts_exactly_encodings [OF version]
    sample_artifact_ok show ?thesis by simp
qed

text \<open>The documentation of the format promises that 1.0 is accepted; every such string is refused.\<close>

theorem decode_refuses_version_1_0:
  assumes "carries_version bytes 1 0"
  shows "decode bytes = fail (UnsupportedMinorVersion 0 1)"
proof -
  from assms obtain rest where bytes: "bytes = reference_magic @ u16_le 1 @ u16_le 0 @ rest"
    by (auto simp: carries_version_def)
  have magic: "take_bytes (length reference_magic) (at_pos [] (reference_magic @ xs)) =
      Inr (reference_magic, at_pos reference_magic xs)" for xs
    by (simp add: take_bytes_at)
  show ?thesis
    unfolding decode_def reader_new_at bytes
    by (simp add: magic f16.read_enc require_def reference_format_version_def)
qed

text \<open>
  the decoder never panics, whatever the bytes: a truncated, oversized or inconsistent input
  is a typed error before any slice, axis table or shape is indexed out of range.
\<close>

theorem decode_total:
  "(\<exists>a. decode bytes = Inr a) \<noteq> (\<exists>e. decode bytes = Inl (Err e))"
proof (cases "decode bytes")
  case (Inl f)
  with decode_no_panic [of bytes] show ?thesis by (cases f) auto
qed auto

section \<open>Element counts\<close>

lemma u64_checked_mul_Some [simp]:
  "u64_checked_mul a b = Some c \<longleftrightarrow> unat a * unat b < 2 ^ 64 \<and> c = a * b"
  by (auto simp: u64_checked_mul_def)

lemma unat_mult_small: "unat a * unat b < 2 ^ 64 \<Longrightarrow> unat (a * b :: u64) = unat a * unat b"
  by (simp add: unat_mult_lem [THEN iffD1])

lemma layout_elements_prod:
  assumes "layout_elements dims = Inr n"
  shows "unat n = prod_list (map unat dims)"
proof -
  have "unat n = unat m * prod_list (map unat dims)"
    if "try_fold (\<lambda>total dim. ok_or ElementCountOverflow (u64_checked_mul total dim)) m dims = Inr n" for m
    using that
  proof (induction dims arbitrary: m)
    case (Cons d dims)
    then show ?case by (auto simp: outcome_simps unat_mult_small mult.assoc)
  qed simp
  from this [of 1] assms show ?thesis by (simp add: layout_elements_def)
qed

lemma layout_ok_elements: "layout_ok l \<Longrightarrow> unat (tl_elements l) = prod_list (map unat (tl_dims l))"
  by (simp add: layout_ok_def layout_elements_prod)

end
