(* ===== verification/Reference_Interpreter.thy ===== *)
theory Reference_Interpreter
  imports Codec_Correct
begin

text \<open>
  The serial CPU interpreter of one Reference kernel (\<open>interpreter.rs\<close>, \<open>invocation.rs\<close>): a
  decoded artefact is prepared once, an invocation is validated in full, and the kernel body
  writes the output slice. Elements are the bit patterns of \<open>f32\<close>; the four arithmetic operators
  are a parameter, because the source leaves NaN payloads and the target's rounding to the
  platform. Every body returns the output slice as it leaves it, with its result, so that a
  failing invocation shows what it has written.
\<close>

section \<open>Elements\<close>

type_synonym element = "32 word"

record arithmetic =
  fadd :: "element \<Rightarrow> element \<Rightarrow> element"
  fsub :: "element \<Rightarrow> element \<Rightarrow> element"
  fmul :: "element \<Rightarrow> element \<Rightarrow> element"
  fdiv :: "element \<Rightarrow> element \<Rightarrow> element"

definition is_nan :: "element \<Rightarrow> bool" where
  "is_nan x \<longleftrightarrow> x AND 0x7F800000 = 0x7F800000 \<and> x AND 0x007FFFFF \<noteq> 0"

text \<open>\<open>x > 0.0\<close>: not a NaN, sign bit clear, not \<open>+0.0\<close>.\<close>

definition is_positive :: "element \<Rightarrow> bool" where
  "is_positive x \<longleftrightarrow> \<not> is_nan x \<and> x AND 0x80000000 = 0 \<and> x \<noteq> 0"

definition one_element :: element where "one_element = 0x3F800000"

definition relu :: "element \<Rightarrow> element" where
  "relu x = (if is_nan x \<or> is_positive x then x else 0)"

section \<open>Preparation\<close>

record permute_plan =
  pp_input_dims :: "usize list"
  pp_output_dims :: "usize list"
  pp_input_strides :: "usize list"
  pp_output_strides :: "usize list"
  pp_permutation :: "usize list"

record matrix_plan =
  mx_batches :: usize
  mx_m :: usize
  mx_k :: usize
  mx_n :: usize

datatype prepared_attributes =
    PreparedNone
  | PreparedScale element
  | PreparedPermute permute_plan
  | PreparedMatrixProduct matrix_plan

record prepared_kernel =
  pk_kernel_id :: u32
  pk_opcode :: opcode
  pk_dtype :: dtype
  pk_operand_lengths :: "usize list"
  pk_result_length :: usize
  pk_attributes :: prepared_attributes

abbreviation max_rank :: usize where "max_rank \<equiv> unat reference_max_rank"

definition checked_usize :: "u64 \<Rightarrow> (execution_error, usize) outcome" where
  "checked_usize w =
     (if unat w \<le> usize_max then Inr (unat w) else fail (DimensionConversionOverflow w))"

definition checked_dims :: "u64 list \<Rightarrow> (execution_error, usize list) outcome" where
  "checked_dims dims = traverse checked_usize dims"

definition checked_product :: "usize list \<Rightarrow> (execution_error, usize) outcome" where
  "checked_product dims = try_fold (\<lambda>p d. ok_or IndexOverflow (checked_mul p d)) 1 dims"

definition stride_step ::
  "usize list \<Rightarrow> usize list \<times> usize \<Rightarrow> nat \<Rightarrow> (execution_error, usize list \<times> usize) outcome" where
  "stride_step dims st axis = (case st of (strides, accumulator) \<Rightarrow>
     if axis < length strides then
       try_bind (ok_or InternalIndexOutOfBounds (get dims axis)) (\<lambda>dim.
       try_bind (ok_or IndexOverflow (checked_mul accumulator dim)) (\<lambda>next.
       Inr (strides[axis := accumulator], next)))
     else fail InternalIndexOutOfBounds)"

definition row_major_strides :: "usize list \<Rightarrow> (execution_error, usize list) outcome" where
  "row_major_strides dims =
     try_bind (try_fold (stride_step dims) (replicate (length dims) 0, 1) (rev [0..<length dims]))
       (\<lambda>(strides, _). Inr strides)"

definition prepare_matrix_product :: "artifact \<Rightarrow> opcode \<Rightarrow> (execution_error, prepared_attributes) outcome" where
  "prepare_matrix_product a oper =
     try_bind (ok_or (AttributeMismatch oper) (get (ra_operands a) 0)) (\<lambda>lhs.
     try_bind (ok_or (AttributeMismatch oper) (get (ra_operands a) 1)) (\<lambda>rhs.
     try_bind (checked_dims (tl_dims lhs)) (\<lambda>lhs_dims.
     try_bind (checked_dims (tl_dims rhs)) (\<lambda>rhs_dims.
     try_bind (checked_dims (tl_dims (ra_result a))) (\<lambda>output_dims.
     let rank = length lhs_dims; batched = (oper = OpBatchMatMul) in
     if (\<not> batched \<and> (rank \<noteq> 2 \<or> length rhs_dims \<noteq> 2 \<or> length output_dims \<noteq> 2)) \<or>
        (batched \<and> (rank < 3 \<or> length rhs_dims \<noteq> rank \<or> length output_dims \<noteq> rank))
     then fail (AttributeMismatch oper)
     else
       (let matrix_axis = rank - 2;
            prefixes_match = (\<not> batched \<or>
              (take matrix_axis lhs_dims = take matrix_axis rhs_dims \<and>
               take matrix_axis lhs_dims = take matrix_axis output_dims));
            matrix_contract =
              (get lhs_dims (matrix_axis + 1) = get rhs_dims matrix_axis \<and>
               get output_dims matrix_axis = get lhs_dims matrix_axis \<and>
               get output_dims (matrix_axis + 1) = get rhs_dims (matrix_axis + 1)) in
        if \<not> prefixes_match \<or> \<not> matrix_contract then fail (AttributeMismatch oper)
        else
          try_bind (if batched then checked_product (take matrix_axis lhs_dims) else Inr 1) (\<lambda>batches.
          try_bind (idx lhs_dims matrix_axis) (\<lambda>m.
          try_bind (idx lhs_dims (matrix_axis + 1)) (\<lambda>k.
          try_bind (idx rhs_dims (matrix_axis + 1)) (\<lambda>n.
          Inr (PreparedMatrixProduct \<lparr>mx_batches = batches, mx_m = m, mx_k = k, mx_n = n\<rparr>)))))))))))"

definition prepare_permute :: "artifact \<Rightarrow> u16 list \<Rightarrow> (execution_error, prepared_attributes) outcome" where
  "prepare_permute a axes =
     try_bind (ok_or (AttributeMismatch (ra_opcode a)) (get (ra_operands a) 0)) (\<lambda>operand.
     try_bind (checked_dims (tl_dims operand)) (\<lambda>input_dims.
     try_bind (checked_dims (tl_dims (ra_result a))) (\<lambda>output_dims.
     if length axes > max_rank \<or> length input_dims > max_rank \<or> length output_dims > max_rank
     then fail InternalIndexOutOfBounds
     else
       (let permutation = map unat axes in
        try_bind (row_major_strides input_dims) (\<lambda>input_strides.
        try_bind (row_major_strides output_dims) (\<lambda>output_strides.
        Inr (PreparedPermute \<lparr>pp_input_dims = input_dims, pp_output_dims = output_dims,
               pp_input_strides = input_strides, pp_output_strides = output_strides,
               pp_permutation = permutation\<rparr>)))))))"

definition prepare_attributes :: "artifact \<Rightarrow> (execution_error, prepared_attributes) outcome" where
  "prepare_attributes a =
     (let oper = ra_opcode a in
      case ra_attributes a of
        ScaleAttributes factor_bits \<Rightarrow>
          if oper = OpScale then Inr (PreparedScale factor_bits) else fail (AttributeMismatch oper)
      | PermuteAttributes axes \<Rightarrow>
          if oper = OpPermute then prepare_permute a axes else fail (AttributeMismatch oper)
      | NoAttributes \<Rightarrow>
          if oper \<in> {OpMatMul, OpBatchMatMul} then prepare_matrix_product a oper
          else if oper \<in> {OpRelu, OpZerosLike, OpOnesLike, OpAdd, OpSub, OpMul, OpDiv, OpShapeCopy}
          then Inr PreparedNone
          else fail (AttributeMismatch oper))"

text \<open>The opcode gate, repeated at preparation and at every invocation.\<close>

definition executable_opcode :: "opcode \<Rightarrow> (execution_error, unit) outcome" where
  "executable_opcode oper =
     (if oper \<in> {OpExp, OpLog} then fail (DeterministicMathUnavailable oper)
      else if oper \<in> {OpReluGrad, OpBroadcastTo, OpReduceSumTo} then fail (UnsupportedOpcode oper)
      else Inr ())"

definition from_artifact :: "artifact \<Rightarrow> (execution_error, prepared_kernel) outcome" where
  "from_artifact a =
     try_bind (executable_opcode (ra_opcode a)) (\<lambda>_.
     try_bind (require (\<not> ra_dtype a \<noteq> F32) (ExecutionUnsupportedDType (ra_dtype a))) (\<lambda>_.
     try_bind (traverse (\<lambda>layout. checked_usize (tl_elements layout)) (ra_operands a)) (\<lambda>operand_lengths.
     try_bind (checked_usize (tl_elements (ra_result a))) (\<lambda>result_length.
     try_bind (prepare_attributes a) (\<lambda>attrs.
     Inr \<lparr>pk_kernel_id = ra_kernel a, pk_opcode = ra_opcode a, pk_dtype = ra_dtype a,
          pk_operand_lengths = operand_lengths, pk_result_length = result_length,
          pk_attributes = attrs\<rparr>)))))"

definition from_kernel_module :: "kernel_module \<Rightarrow> (execution_error, prepared_kernel) outcome" where
  "from_kernel_module m =
     try_bind (require (\<not> km_format m \<noteq> ReferenceFormat) (WrongKernelFormat (km_format m))) (\<lambda>_.
     try_bind (map_err InvalidEncoding (decode (code m))) (\<lambda>a.
     let expected = artifact_entry_point a in
     try_bind (require (\<not> entry_point m \<noteq> expected) (EntryPointMismatch expected (entry_point m))) (\<lambda>_.
     from_artifact a)))"

section \<open>Invocation checks\<close>

fun attributes_match :: "opcode \<Rightarrow> prepared_attributes \<Rightarrow> bool" where
  "attributes_match oper (PreparedScale _) \<longleftrightarrow> oper = OpScale"
| "attributes_match oper (PreparedPermute _) \<longleftrightarrow> oper = OpPermute"
| "attributes_match oper (PreparedMatrixProduct _) \<longleftrightarrow> oper \<in> {OpMatMul, OpBatchMatMul}"
| "attributes_match oper PreparedNone \<longleftrightarrow>
     oper \<in> {OpRelu, OpZerosLike, OpOnesLike, OpAdd, OpSub, OpMul, OpDiv, OpShapeCopy}"

definition validate_invocation ::
  "prepared_kernel \<Rightarrow> element list list \<Rightarrow> element list \<Rightarrow> (execution_error, unit) outcome" where
  "validate_invocation p operands out =
     (let oper = pk_opcode p in
      try_bind (executable_opcode oper) (\<lambda>_.
      try_bind (require (attributes_match oper (pk_attributes p)) (AttributeMismatch oper)) (\<lambda>_.
      try_bind (require (\<not> pk_dtype p \<noteq> F32) (ExecutionUnsupportedDType (pk_dtype p))) (\<lambda>_.
      try_bind (require (\<not> length operands \<noteq> length (pk_operand_lengths p))
                  (OperandCountMismatch (length (pk_operand_lengths p)) (length operands))) (\<lambda>_.
      try_bind (for_each (\<lambda>(operand_index, operand, expected).
          require (\<not> length operand \<noteq> expected) (OperandLengthMismatch operand_index expected (length operand)))
          (enumerate 0 (zip operands (pk_operand_lengths p)))) (\<lambda>_.
      require (\<not> length out \<noteq> pk_result_length p)
        (OutputLengthMismatch (pk_result_length p) (length out))))))))"

section \<open>Kernel bodies\<close>

text \<open>
  A body takes the output slice and returns it with its result. \<open>attempt\<close> is \<open>?\<close> inside a body:
  an error leaves the slice as it is.
\<close>

type_synonym 's body = "'s \<Rightarrow> 's \<times> (execution_error, unit) outcome"

definition attempt :: "(execution_error, 'a) outcome \<Rightarrow> ('a \<Rightarrow> 's body) \<Rightarrow> 's body" where
  "attempt m f out = (case m of Inl e \<Rightarrow> (out, Inl e) | Inr x \<Rightarrow> f x out)"

fun run_loop :: "('a \<Rightarrow> 's body) \<Rightarrow> 'a list \<Rightarrow> 's body" where
  "run_loop f [] out = (out, Inr ())"
| "run_loop f (x # xs) out =
     (case f x out of (out, Inl e) \<Rightarrow> (out, Inl e) | (out, Inr _) \<Rightarrow> run_loop f xs out)"

definition set_element :: "usize \<Rightarrow> element \<Rightarrow> element list body" where
  "set_element i v out =
     (if i < length out then (out[i := v], Inr ()) else (out, fail InternalIndexOutOfBounds))"

text \<open>\<open>for (target, value) in output.iter_mut().zip(vs) { *target = value }\<close>\<close>

definition write_zip :: "element list \<Rightarrow> element list body" where
  "write_zip vs out = (take (length out) vs @ drop (length vs) out, Inr ())"

definition first_operand :: "element list list \<Rightarrow> (execution_error, element list) outcome" where
  "first_operand operands = ok_or InternalIndexOutOfBounds (get operands 0)"

definition binary_operands ::
  "element list list \<Rightarrow> (execution_error, element list \<times> element list) outcome" where
  "binary_operands operands =
     try_bind (ok_or InternalIndexOutOfBounds (get operands 0)) (\<lambda>left.
     try_bind (ok_or InternalIndexOutOfBounds (get operands 1)) (\<lambda>right.
     Inr (left, right)))"

definition execute_binary ::
  "(element \<Rightarrow> element \<Rightarrow> element) \<Rightarrow> element list list \<Rightarrow> element list body" where
  "execute_binary f operands =
     attempt (binary_operands operands) (\<lambda>(left, right). write_zip (map (\<lambda>(x, y). f x y) (zip left right)))"

definition checked_index :: "usize \<Rightarrow> usize \<Rightarrow> (execution_error, usize) outcome" where
  "checked_index a b = ok_or IndexOverflow (checked_mul a b)"

definition checked_offset :: "usize \<Rightarrow> usize \<Rightarrow> (execution_error, usize) outcome" where
  "checked_offset a b = ok_or IndexOverflow (checked_add a b)"

definition product_term ::
  "arithmetic \<Rightarrow> element list \<Rightarrow> element list \<Rightarrow> usize \<Rightarrow> usize \<Rightarrow> usize \<Rightarrow> usize \<Rightarrow> element \<Rightarrow> usize
     \<Rightarrow> (execution_error, element) outcome" where
  "product_term A lhs rhs lhs_row rhs_base n col acc inner =
     try_bind (checked_offset lhs_row inner) (\<lambda>lhs_index.
     try_bind (checked_index inner n) (\<lambda>row_base.
     try_bind (checked_offset rhs_base row_base) (\<lambda>base.
     try_bind (checked_offset base col) (\<lambda>rhs_index.
     try_bind (ok_or InternalIndexOutOfBounds (get lhs lhs_index)) (\<lambda>lhs_value.
     try_bind (ok_or InternalIndexOutOfBounds (get rhs rhs_index)) (\<lambda>rhs_value.
     Inr (fadd A acc (fmul A lhs_value rhs_value))))))))"

definition product_cell ::
  "arithmetic \<Rightarrow> matrix_plan \<Rightarrow> element list \<Rightarrow> element list \<Rightarrow> usize \<Rightarrow> usize \<Rightarrow> usize \<Rightarrow> usize
     \<Rightarrow> element list body" where
  "product_cell A plan lhs rhs lhs_row rhs_base out_row col =
     attempt (try_fold (product_term A lhs rhs lhs_row rhs_base (mx_n plan) col) 0 [0..<mx_k plan]) (\<lambda>cell_sum.
     attempt (checked_offset out_row col) (\<lambda>output_index.
     set_element output_index cell_sum))"

definition product_row ::
  "arithmetic \<Rightarrow> matrix_plan \<Rightarrow> element list \<Rightarrow> element list \<Rightarrow> usize \<Rightarrow> usize \<Rightarrow> usize \<Rightarrow> usize
     \<Rightarrow> element list body" where
  "product_row A plan lhs rhs lhs_base rhs_base out_base row =
     attempt (checked_index row (mx_k plan)) (\<lambda>lhs_offset.
     attempt (checked_offset lhs_base lhs_offset) (\<lambda>lhs_row.
     attempt (checked_index row (mx_n plan)) (\<lambda>out_offset.
     attempt (checked_offset out_base out_offset) (\<lambda>out_row.
     run_loop (product_cell A plan lhs rhs lhs_row rhs_base out_row) [0..<mx_n plan]))))"

definition product_batch ::
  "arithmetic \<Rightarrow> matrix_plan \<Rightarrow> element list \<Rightarrow> element list \<Rightarrow> usize \<Rightarrow> usize \<Rightarrow> usize \<Rightarrow> usize
     \<Rightarrow> element list body" where
  "product_batch A plan lhs rhs lhs_matrix rhs_matrix out_matrix batch =
     attempt (checked_index batch lhs_matrix) (\<lambda>lhs_base.
     attempt (checked_index batch rhs_matrix) (\<lambda>rhs_base.
     attempt (checked_index batch out_matrix) (\<lambda>out_base.
     run_loop (product_row A plan lhs rhs lhs_base rhs_base out_base) [0..<mx_m plan])))"

definition execute_matrix_product ::
  "arithmetic \<Rightarrow> prepared_attributes \<Rightarrow> element list list \<Rightarrow> element list body" where
  "execute_matrix_product A attrs operands =
     attempt (binary_operands operands) (\<lambda>(lhs, rhs).
     case attrs of
       PreparedMatrixProduct plan \<Rightarrow>
         attempt (checked_index (mx_m plan) (mx_k plan)) (\<lambda>lhs_matrix.
         attempt (checked_index (mx_k plan) (mx_n plan)) (\<lambda>rhs_matrix.
         attempt (checked_index (mx_m plan) (mx_n plan)) (\<lambda>out_matrix.
         run_loop (product_batch A plan lhs rhs lhs_matrix rhs_matrix out_matrix) [0..<mx_batches plan])))
     | _ \<Rightarrow> attempt (fail InternalIndexOutOfBounds) (\<lambda>_ :: unit. \<lambda>out. (out, Inr ())))"

definition set_coordinate ::
  "usize \<Rightarrow> usize list \<Rightarrow> usize \<times> usize \<times> usize \<Rightarrow> (execution_error, usize list) outcome" where
  "set_coordinate output_index coordinates p = (case p of (axis, stride, dim) \<Rightarrow>
     try_bind (require (\<not> (stride = 0 \<or> dim = 0)) InternalIndexOutOfBounds) (\<lambda>_.
     if axis < length coordinates then Inr (coordinates[axis := (output_index div stride) mod dim])
     else fail InternalIndexOutOfBounds))"

definition add_term ::
  "permute_plan \<Rightarrow> usize list \<Rightarrow> usize \<Rightarrow> usize \<times> usize \<Rightarrow> (execution_error, usize) outcome" where
  "add_term plan coordinates source_index p = (case p of (axis, input_axis) \<Rightarrow>
     try_bind (ok_or InternalIndexOutOfBounds (get coordinates axis)) (\<lambda>coordinate.
     try_bind (ok_or InternalIndexOutOfBounds (get (pp_input_strides plan) input_axis)) (\<lambda>input_stride.
     try_bind (checked_index coordinate input_stride) (\<lambda>summand.
     checked_offset source_index summand))))"

definition permute_element ::
  "permute_plan \<Rightarrow> element list \<Rightarrow> usize \<Rightarrow> (usize list \<times> element list) body" where
  "permute_element plan operand output_index st = (case st of (coordinates, out) \<Rightarrow>
     attempt (try_fold (set_coordinate output_index) coordinates
                (enumerate 0 (zip (pp_output_strides plan) (pp_output_dims plan)))) (\<lambda>coordinates _.
     attempt (try_fold (add_term plan coordinates) 0 (enumerate 0 (pp_permutation plan))) (\<lambda>source_index.
     attempt (ok_or InternalIndexOutOfBounds (get operand source_index)) (\<lambda>v st.
     ((coordinates, out[output_index := v]), Inr ()))) (coordinates, out)) (coordinates, out))"

definition execute_permute :: "permute_plan \<Rightarrow> element list \<Rightarrow> element list body" where
  "execute_permute plan operand out =
     (if out = [] then (out, Inr ())
      else if length (pp_permutation plan) \<noteq> length (pp_output_dims plan) \<or>
              length (pp_input_dims plan) \<noteq> length (pp_output_dims plan) \<or>
              length (pp_input_strides plan) \<noteq> length (pp_input_dims plan) \<or>
              length (pp_output_strides plan) \<noteq> length (pp_output_dims plan) \<or>
              length (pp_output_dims plan) > max_rank
      then (out, fail InternalIndexOutOfBounds)
      else
        (case run_loop (permute_element plan operand) [0..<length out] (replicate max_rank 0, out) of
           ((_, out), r) \<Rightarrow> (out, r)))"

section \<open>Execution\<close>

definition execute_body ::
  "arithmetic \<Rightarrow> prepared_kernel \<Rightarrow> element list list \<Rightarrow> element list body" where
  "execute_body A p operands out =
     (let oper = pk_opcode p in
      case oper of
        OpRelu \<Rightarrow> attempt (first_operand operands) (\<lambda>operand. write_zip (map relu operand)) out
      | OpZerosLike \<Rightarrow> attempt (first_operand operands) (\<lambda>_ out. (replicate (length out) 0, Inr ())) out
      | OpOnesLike \<Rightarrow>
          attempt (first_operand operands) (\<lambda>_ out. (replicate (length out) one_element, Inr ())) out
      | OpScale \<Rightarrow>
          attempt (first_operand operands) (\<lambda>operand out.
            case pk_attributes p of
              PreparedScale factor \<Rightarrow> write_zip (map (\<lambda>x. fmul A x factor) operand) out
            | _ \<Rightarrow> (out, fail (AttributeMismatch oper))) out
      | OpAdd \<Rightarrow> execute_binary (fadd A) operands out
      | OpSub \<Rightarrow> execute_binary (fsub A) operands out
      | OpMul \<Rightarrow> execute_binary (fmul A) operands out
      | OpDiv \<Rightarrow> execute_binary (fdiv A) operands out
      | OpMatMul \<Rightarrow> execute_matrix_product A (pk_attributes p) operands out
      | OpBatchMatMul \<Rightarrow> execute_matrix_product A (pk_attributes p) operands out
      | OpShapeCopy \<Rightarrow>
          attempt (first_operand operands) (\<lambda>operand out.
            if length operand \<noteq> length out
            then (out, fail (OutputLengthMismatch (length operand) (length out)))
            else (operand, Inr ())) out
      | OpPermute \<Rightarrow>
          attempt (first_operand operands) (\<lambda>operand out.
            case pk_attributes p of
              PreparedPermute plan \<Rightarrow> execute_permute plan operand out
            | _ \<Rightarrow> (out, fail (AttributeMismatch oper))) out
      | OpExp \<Rightarrow> (out, fail (DeterministicMathUnavailable oper))
      | OpLog \<Rightarrow> (out, fail (DeterministicMathUnavailable oper))
      | OpReluGrad \<Rightarrow> (out, fail (UnsupportedOpcode oper))
      | OpBroadcastTo \<Rightarrow> (out, fail (UnsupportedOpcode oper))
      | OpReduceSumTo \<Rightarrow> (out, fail (UnsupportedOpcode oper)))"

definition execute_kernel ::
  "arithmetic \<Rightarrow> prepared_kernel \<Rightarrow> element list list \<Rightarrow> element list body" where
  "execute_kernel A p operands out =
     attempt (validate_invocation p operands out) (\<lambda>_. execute_body A p operands) out"

end
