(* ===== verification/Row_Major.thy ===== *)
theory Row_Major
  imports Compute_Core
begin

text \<open>
  Row-major indexing, shared by the tensor views and the interpreter: the flat index of a
  multi-index, its inverse, and the arithmetic of flattened matrix batches.
\<close>

section \<open>Flattened batches of matrices\<close>

lemma flat_index_less:
  assumes "b < B" "r < R" "c < (C :: nat)"
  shows "b * (R * C) + r * C + c < B * (R * C)"
proof -
  have "r * C + c < Suc r * C" using assms(3) by simp
  also have "\<dots> \<le> R * C" using assms(2) by (intro mult_le_mono1) simp
  finally have "b * (R * C) + (r * C + c) < Suc b * (R * C)" by simp
  also have "\<dots> \<le> B * (R * C)" using assms(1) by (intro mult_le_mono1) simp
  finally show ?thesis by simp
qed

lemma div_flat: "x < D \<Longrightarrow> (b * D + x) div D = (b :: nat)"
proof -
  assume "x < D"
  then have "D \<noteq> 0" "x div D = 0" by auto
  then show ?thesis by simp
qed

lemma flat_index_parts:
  assumes "r < R" "c < (C :: nat)"
  shows "(b * (R * C) + r * C + c) div (R * C) = b" "(b * (R * C) + r * C + c) mod (R * C) div C = r"
    "(b * (R * C) + r * C + c) mod C = c"
proof -
  have rc: "r * C + c < R * C" using flat_index_less [of 0 1 r R c C] assms by simp
  then show "(b * (R * C) + r * C + c) div (R * C) = b" by (simp only: add.assoc div_flat)
  have "(b * (R * C) + r * C + c) mod (R * C) = r * C + c" using rc by (simp add: add.assoc)
  then show "(b * (R * C) + r * C + c) mod (R * C) div C = r" using assms(2) by (simp only: div_flat)
  have "(b * (R * C) + r * C + c) mod C = ((b * R + r) * C + c) mod C" by (simp add: algebra_simps)
  then show "(b * (R * C) + r * C + c) mod C = c" using assms(2) by simp
qed

section \<open>Multi-indices\<close>

fun ravel :: "nat list \<Rightarrow> nat list \<Rightarrow> nat" where
  "ravel (d # ds) (c # cs) = c * prod_list ds + ravel ds cs"
| "ravel _ _ = 0"

definition in_range :: "nat list \<Rightarrow> nat list \<Rightarrow> bool" where
  "in_range c ds \<longleftrightarrow> list_all2 (<) c ds"

lemma row_major_nth: "j < length ds \<Longrightarrow> row_major ds ! j = prod_list (drop (Suc j) ds)"
  by (induction ds arbitrary: j) (auto simp: nth_Cons split: nat.splits)

lemma ravel_sum: "length c = length ds \<Longrightarrow> ravel ds c = (\<Sum>j < length ds. c ! j * row_major ds ! j)"
proof (induction ds arbitrary: c)
  case (Cons d ds)
  then obtain x cs where "c = x # cs" "length cs = length ds" by (cases c) auto
  with Cons.IH show ?case by (simp add: sum.lessThan_Suc_shift del: sum.lessThan_Suc)
qed simp

lemma ravel_less: "in_range c ds \<Longrightarrow> ravel ds c < prod_list ds"
proof (induction ds arbitrary: c)
  case (Cons d ds)
  then obtain x cs where c: "c = x # cs" "x < d" "in_range cs ds" by (cases c) (auto simp: in_range_def)
  have "x * prod_list ds + ravel ds cs < Suc x * prod_list ds" using Cons.IH [OF c(3)] by simp
  also have "\<dots> \<le> d * prod_list ds" using c(2) by (intro mult_le_mono1) simp
  finally show ?case using c(1) by simp
qed (simp add: in_range_def)

lemma ravel_coordinate:
  assumes "in_range c ds" and "j < length ds"
  shows "ravel ds c div (row_major ds ! j) mod (ds ! j) = c ! j"
  using assms
proof (induction ds arbitrary: c j)
  case (Cons d ds)
  then obtain x cs where c: "c = x # cs" "x < d" "in_range cs ds" by (cases c) (auto simp: in_range_def)
  show ?case
  proof (cases j)
    case 0
    with c ravel_less [OF c(3)] show ?thesis by (simp add: div_flat)
  next
    case (Suc i)
    with Cons.prems have i: "i < length ds" by simp
    let ?s = "row_major ds ! i" and ?q = "prod_list (take i ds)"
    have "ds = take i ds @ ds ! i # drop (Suc i) ds" using i by (rule id_take_nth_drop)
    from arg_cong [OF this, of prod_list] have P: "prod_list ds = (?q * ds ! i) * ?s"
      using i by (simp add: row_major_nth mult.assoc)
    have "prod_list ds > 0" using ravel_less [OF c(3)] by simp
    with P have pos: "?s \<noteq> 0" by auto
    have "ravel (d # ds) c div ?s = (x * ?q * ds ! i * ?s + ravel ds cs) div ?s"
      by (simp add: c(1) P mult.assoc)
    also have "\<dots> = x * ?q * ds ! i + ravel ds cs div ?s" using pos by simp
    finally have "ravel (d # ds) c div ?s mod ds ! i = ravel ds cs div ?s mod ds ! i" by simp
    with Cons.IH [OF c(3) i] show ?thesis by (simp add: Suc c(1))
  qed
qed simp

lemma ravel_surj: "i < prod_list ds \<Longrightarrow> \<exists>c. in_range c ds \<and> ravel ds c = i"
proof (induction ds arbitrary: i)
  case (Cons d ds)
  let ?P = "prod_list ds"
  have pos: "?P \<noteq> 0" using Cons.prems by (intro notI) simp
  then obtain cs where cs: "in_range cs ds" "ravel ds cs = i mod ?P" using Cons.IH [of "i mod ?P"] by auto
  have "i div ?P < d" using Cons.prems pos by (simp add: less_mult_imp_div_less)
  with cs show ?case by (intro exI [of _ "i div ?P # cs"]) (simp add: in_range_def)
qed (simp add: in_range_def)

lemma prod_list_pos: "0 < prod_list (xs :: nat list) \<Longrightarrow> x \<in> set xs \<Longrightarrow> 0 < x"
  by (induction xs) auto

lemma prod_drop_pos: "0 < prod_list (xs :: nat list) \<Longrightarrow> 0 < prod_list (drop k xs)"
  by (metis append_take_drop_id nat_0_less_mult_iff prod_list.append)

section \<open>Axis permutations\<close>

definition axes_ok :: "nat list \<Rightarrow> nat list \<Rightarrow> bool" where
  "axes_ok p ds \<longleftrightarrow> length p = length ds \<and> distinct p \<and> set p = {..<length ds}"

definition permuted :: "nat list \<Rightarrow> nat list \<Rightarrow> nat list" where
  "permuted p xs = map ((!) xs) p"

lemma axes_ok_nth:
  assumes "axes_ok p ds"
  shows "length p = length ds" and "j < length ds \<Longrightarrow> p ! j < length ds"
    and "i < length ds \<Longrightarrow> j < length ds \<Longrightarrow> p ! i = p ! j \<Longrightarrow> i = j"
proof -
  show len: "length p = length ds" using assms by (simp add: axes_ok_def)
  show "p ! j < length ds" if "j < length ds"
  proof -
    have "p ! j \<in> set p" using len that by simp
    then show ?thesis using assms by (simp add: axes_ok_def)
  qed
  show "i = j" if "i < length ds" "j < length ds" "p ! i = p ! j"
    using assms that nth_eq_iff_index_eq [of p i j] by (simp add: axes_ok_def)
qed

lemma axes_ok_bij:
  assumes "axes_ok p ds"
  shows "bij_betw ((!) p) {..<length ds} {..<length ds}"
  by (rule bij_betw_nth) (use assms in \<open>simp_all add: axes_ok_def\<close>)

lemma in_range_permuted:
  assumes "axes_ok p ds" and "in_range d ds"
  shows "in_range (permuted p d) (permuted p ds)"
  using assms axes_ok_nth [OF assms(1)] by (simp add: in_range_def permuted_def list_all2_conv_all_nth)

lemma prod_list_nth: "prod_list xs = (\<Prod>i < length xs. xs ! i :: nat)"
  by (induction xs) (simp_all add: prod.lessThan_Suc_shift del: prod.lessThan_Suc)

lemma prod_permuted:
  assumes "axes_ok p ds"
  shows "prod_list (permuted p ds) = prod_list ds"
proof -
  have "prod_list (permuted p ds) = (\<Prod>j < length ds. ds ! (p ! j))"
    using axes_ok_nth(1) [OF assms] by (simp add: prod_list_nth permuted_def)
  also have "\<dots> = prod_list ds"
    unfolding prod_list_nth by (rule prod.reindex_bij_betw [OF axes_ok_bij [OF assms]])
  finally show ?thesis .
qed

lemma unpermute:
  assumes ok: "axes_ok p ds" and c: "in_range c (permuted p ds)"
  obtains d where "in_range d ds" "permuted p d = c"
proof -
  let ?n = "length ds"
  have len: "length c = ?n" "length p = ?n"
    using c axes_ok_nth(1) [OF ok] by (simp_all add: in_range_def permuted_def list_all2_conv_all_nth)
  have "\<exists>j < ?n. p ! j = a" if "a < ?n" for a
  proof -
    have "a \<in> set p" using ok that by (simp add: axes_ok_def)
    with len(2) show ?thesis by (auto simp: in_set_conv_nth)
  qed
  then obtain f where f: "\<And>a. a < ?n \<Longrightarrow> f a < ?n \<and> p ! f a = a" by metis
  let ?d = "map (\<lambda>a. c ! f a) [0..<?n]"
  have axis: "p ! j < ?n" "f (p ! j) = j" if "j < ?n" for j
    using axes_ok_nth(2,3) [OF ok] f that by metis+
  have "permuted p ?d = c"
    using axis len by (intro nth_equalityI) (simp_all add: permuted_def)
  moreover have "in_range ?d ds"
    unfolding in_range_def list_all2_conv_all_nth
  proof (intro conjI allI impI)
    fix a assume "a < length ?d"
    then have a: "a < ?n" by simp
    with f have fa: "f a < ?n" "p ! f a = a" by simp_all
    have "\<forall>i < ?n. c ! i < ds ! (p ! i)"
      using c len by (simp add: in_range_def permuted_def list_all2_conv_all_nth)
    with fa(1) have "c ! f a < ds ! (p ! f a)" by blast
    with a fa(2) show "?d ! a < ds ! a" by simp
  qed simp
  ultimately show thesis using that by blast
qed

section \<open>All multi-indices\<close>

text \<open>In row-major order: the order in which tensors are materialised.\<close>

fun indices :: "nat list \<Rightarrow> nat list list" where
  "indices [] = [[]]"
| "indices (d # ds) = concat (map (\<lambda>x. map ((#) x) (indices ds)) [0..<d])"

lemma upt_blocks: "concat (map (\<lambda>x. map (\<lambda>i. x * P + i) [0..<P]) [0..<d]) = [0..<d * P]"
proof (induction d)
  case (Suc d)
  have "map (\<lambda>i. d * P + i) [0..<P] = [d * P..<d * P + P]"
    using map_add_upt [of "d * P" P] by (simp add: add.commute)
  moreover have "[0..<Suc d * P] = [0..<d * P] @ [d * P..<d * P + P]"
    using upt_add_eq_append [of 0 "d * P" P] by (simp add: add.commute)
  ultimately show ?case using Suc by simp
qed simp

lemma ravel_indices: "map (ravel ds) (indices ds) = [0..<prod_list ds]"
proof (induction ds)
  case (Cons d ds)
  have "map (ravel (d # ds)) (indices (d # ds)) =
      concat (map (\<lambda>x. map (\<lambda>i. x * prod_list ds + i) (map (ravel ds) (indices ds))) [0..<d])"
    by (simp add: map_concat comp_def)
  also have "\<dots> = [0..<prod_list (d # ds)]" by (simp add: Cons upt_blocks)
  finally show ?case .
qed simp

lemma length_indices [simp]: "length (indices ds) = prod_list ds"
  using arg_cong [OF ravel_indices, of length] by simp

lemma set_indices: "set (indices ds) = {c. in_range c ds}"
proof (induction ds)
  case Nil
  then show ?case by (auto simp: in_range_def)
next
  case (Cons d ds)
  show ?case
  proof (intro set_eqI iffI)
    fix c assume "c \<in> set (indices (d # ds))"
    then show "c \<in> {c. in_range c (d # ds)}" using Cons by (auto simp: in_range_def)
  next
    fix c assume "c \<in> {c. in_range c (d # ds)}"
    then obtain x cs where "c = x # cs" "x < d" "in_range cs ds"
      by (cases c) (auto simp: in_range_def)
    with Cons show "c \<in> set (indices (d # ds))" by auto
  qed
qed

lemma ravel_snoc: "length c = length ds \<Longrightarrow> ravel (ds @ [d]) (c @ [x]) = ravel ds c * d + x"
  by (induction ds c rule: ravel.induct) (auto simp: algebra_simps)

end
