(* ===== verification/Interpreter_Bodies.thy ===== *)
theory Interpreter_Bodies
  imports Reference_Interpreter Row_Major
begin

text \<open>
  Correctness of the kernel bodies of the Reference interpreter: the matrix-product loops fill
  the output with the fixed-order sums of products, and the permutation copies every element to
  its permuted multi-index. Both are total: no index overflows, no access is out of range.
\<close>

section \<open>Loops over the output slice\<close>

lemma attempt_simps [simp]: "attempt (Inr x) f out = f x out" "attempt (Inl e) f out = (out, Inl e)"
  by (simp_all add: attempt_def)

text \<open>The total loop rule, with an invariant indexed by the number of iterations.\<close>

lemma run_loop_total:
  assumes "P 0 s" and "\<And>i s. i < length xs \<Longrightarrow> P i s \<Longrightarrow> \<exists>s'. f (xs ! i) s = (s', Inr ()) \<and> P (Suc i) s'"
  shows "\<exists>s'. run_loop f xs s = (s', Inr ()) \<and> P (length xs) s'"
  using assms
proof (induction xs arbitrary: P s)
  case Nil
  then show ?case by simp
next
  case (Cons x xs)
  from Cons.prems(2) [of 0 s] Cons.prems(1) obtain s1 where s1: "f x s = (s1, Inr ())" "P 1 s1" by auto
  have "\<exists>s'. run_loop f xs s1 = (s', Inr ()) \<and> P (Suc (length xs)) s'"
  proof (rule Cons.IH [where P = "\<lambda>i. P (Suc i)"])
    show "P (Suc 0) s1" using s1(2) by simp
    fix i t assume "i < length xs" "P (Suc i) t"
    with Cons.prems(2) [of "Suc i" t] show "\<exists>s'. f (xs ! i) t = (s', Inr ()) \<and> P (Suc (Suc i)) s'" by simp
  qed
  with s1(1) show ?case by simp
qed

text \<open>The first \<open>t\<close> elements of the slice hold the values of \<open>g\<close>.\<close>

definition filled :: "(nat \<Rightarrow> element) \<Rightarrow> nat \<Rightarrow> nat \<Rightarrow> element list \<Rightarrow> bool" where
  "filled g len t out \<longleftrightarrow> length out = len \<and> t \<le> len \<and> (\<forall>j < t. out ! j = g j)"

lemma filled_set:
  assumes "filled g len t out" and "t < len"
  shows "\<exists>out'. set_element t (g t) out = (out', Inr ()) \<and> filled g len (Suc t) out'"
  using assms by (auto simp: filled_def set_element_def nth_list_update less_Suc_eq)

lemma filled_all: "filled g len len out \<longleftrightarrow> out = map g [0..<len]"
proof
  assume "filled g len len out"
  then show "out = map g [0..<len]" by (intro nth_equalityI) (simp_all add: filled_def)
qed (simp add: filled_def)

lemma filled_0: "filled g len 0 out \<longleftrightarrow> length out = len"
  by (simp add: filled_def)

section \<open>Matrix products\<close>

text \<open>The sum in increasing inner order, starting from \<open>+0.0\<close>.\<close>

definition dot :: "arithmetic \<Rightarrow> (nat \<Rightarrow> element) \<Rightarrow> (nat \<Rightarrow> element) \<Rightarrow> nat \<Rightarrow> element" where
  "dot A f g k = foldl (\<lambda>acc i. fadd A acc (fmul A (f i) (g i))) 0 [0..<k]"

definition product_entry :: "arithmetic \<Rightarrow> matrix_plan \<Rightarrow> element list \<Rightarrow> element list \<Rightarrow> nat \<Rightarrow> nat \<Rightarrow> nat \<Rightarrow> element" where
  "product_entry A plan lhs rhs batch row col =
     dot A (\<lambda>i. lhs ! (batch * (mx_m plan * mx_k plan) + row * mx_k plan + i))
           (\<lambda>i. rhs ! (batch * (mx_k plan * mx_n plan) + i * mx_n plan + col)) (mx_k plan)"

definition matrix_spec :: "arithmetic \<Rightarrow> matrix_plan \<Rightarrow> element list \<Rightarrow> element list \<Rightarrow> element list" where
  "matrix_spec A plan lhs rhs =
     map (\<lambda>t. product_entry A plan lhs rhs (t div (mx_m plan * mx_n plan))
                (t mod (mx_m plan * mx_n plan) div mx_n plan) (t mod mx_n plan))
       [0..<mx_batches plan * (mx_m plan * mx_n plan)]"

definition matrices_sized :: "matrix_plan \<Rightarrow> element list \<Rightarrow> element list \<Rightarrow> element list \<Rightarrow> bool" where
  "matrices_sized plan lhs rhs out \<longleftrightarrow>
     length lhs = mx_batches plan * (mx_m plan * mx_k plan) \<and>
     length rhs = mx_batches plan * (mx_k plan * mx_n plan) \<and>
     length out = mx_batches plan * (mx_m plan * mx_n plan) \<and>
     length lhs \<le> usize_max \<and> length rhs \<le> usize_max \<and> length out \<le> usize_max"

lemma checked_index_in [simp]: "a * b \<le> usize_max \<Longrightarrow> checked_index a b = Inr (a * b)"
  by (simp add: checked_index_def)

lemma checked_offset_in [simp]: "a + b \<le> usize_max \<Longrightarrow> checked_offset a b = Inr (a + b)"
  by (simp add: checked_offset_def)

lemma product_sum:
  assumes "\<And>i. i < k \<Longrightarrow> lhs_row + i < length lhs" "\<And>i. i < k \<Longrightarrow> rhs_base + i * n + col < length rhs"
    and "length lhs \<le> usize_max" "length rhs \<le> usize_max"
  shows "try_fold (product_term A lhs rhs lhs_row rhs_base n col) 0 [0..<k] =
    Inr (dot A (\<lambda>i. lhs ! (lhs_row + i)) (\<lambda>i. rhs ! (rhs_base + i * n + col)) k)"
  using assms(1,2)
proof (induction k)
  case 0
  then show ?case by (simp add: dot_def)
next
  case (Suc k)
  have "lhs_row + k < length lhs" "rhs_base + k * n + col < length rhs" using Suc.prems by auto
  with assms(3,4) have "product_term A lhs rhs lhs_row rhs_base n col acc k =
      Inr (fadd A acc (fmul A (lhs ! (lhs_row + k)) (rhs ! (rhs_base + k * n + col))))" for acc
    by (simp add: product_term_def get_def)
  with Suc show ?case by (simp add: dot_def)
qed

lemma row_within:
  assumes "b < B" "r < R"
  shows "b * (R * C) + r * C + C \<le> B * (R * (C :: nat))"
proof -
  have "r * C + C \<le> R * C" using mult_le_mono1 [of "Suc r" R C] assms(2) by simp
  moreover have "b * (R * C) + R * C \<le> B * (R * C)" using mult_le_mono1 [of "Suc b" B "R * C"] assms(1) by simp
  ultimately show ?thesis by simp
qed

lemma product_index:
  assumes "b < B" "r < (R :: nat)"
  shows "b * (R * C) \<le> B * (R * C)" "r * C \<le> B * (R * C)" "b * (R * C) + r * C \<le> B * (R * C)"
  using row_within [OF assms, of C] by linarith+

definition entry_at :: "arithmetic \<Rightarrow> matrix_plan \<Rightarrow> element list \<Rightarrow> element list \<Rightarrow> nat \<Rightarrow> element" where
  "entry_at A plan lhs rhs t =
     product_entry A plan lhs rhs (t div (mx_m plan * mx_n plan))
       (t mod (mx_m plan * mx_n plan) div mx_n plan) (t mod mx_n plan)"

lemma product_cell_step:
  assumes sized: "matrices_sized plan lhs rhs out" and b: "b < mx_batches plan" and r: "r < mx_m plan"
    and c: "c < mx_n plan"
    and out: "filled (entry_at A plan lhs rhs) (length out) (b * (mx_m plan * mx_n plan) + r * mx_n plan + c) u"
  shows "\<exists>v. product_cell A plan lhs rhs (b * (mx_m plan * mx_k plan) + r * mx_k plan)
      (b * (mx_k plan * mx_n plan)) (b * (mx_m plan * mx_n plan) + r * mx_n plan) c u = (v, Inr ()) \<and>
    filled (entry_at A plan lhs rhs) (length out) (b * (mx_m plan * mx_n plan) + r * mx_n plan + Suc c) v"
proof -
  let ?t = "b * (mx_m plan * mx_n plan) + r * mx_n plan + c"
  note lens = sized [unfolded matrices_sized_def]
  have t: "?t < length out" using flat_index_less [OF b r c] lens by simp
  then have small: "?t \<le> usize_max" using lens by linarith
  have "try_fold (product_term A lhs rhs (b * (mx_m plan * mx_k plan) + r * mx_k plan)
      (b * (mx_k plan * mx_n plan)) (mx_n plan) c) 0 [0..<mx_k plan] = Inr (product_entry A plan lhs rhs b r c)"
    unfolding product_entry_def
  proof (rule product_sum)
    show "b * (mx_m plan * mx_k plan) + r * mx_k plan + i < length lhs" if "i < mx_k plan" for i
      using flat_index_less [OF b r that] lens by simp
    show "b * (mx_k plan * mx_n plan) + i * mx_n plan + c < length rhs" if "i < mx_k plan" for i
      using flat_index_less [OF b that c] lens by simp
  qed (use lens in simp_all)
  moreover have "product_entry A plan lhs rhs b r c = entry_at A plan lhs rhs ?t"
    unfolding entry_at_def by (simp only: flat_index_parts [OF r c])
  ultimately show ?thesis
    using filled_set [OF out t] small by (simp add: product_cell_def del: upt_Suc)
qed

lemma product_row_step:
  assumes sized: "matrices_sized plan lhs rhs out" and b: "b < mx_batches plan" and r: "r < mx_m plan"
    and out: "filled (entry_at A plan lhs rhs) (length out) (b * (mx_m plan * mx_n plan) + r * mx_n plan) u"
  shows "\<exists>v. product_row A plan lhs rhs (b * (mx_m plan * mx_k plan)) (b * (mx_k plan * mx_n plan))
      (b * (mx_m plan * mx_n plan)) r u = (v, Inr ()) \<and>
    filled (entry_at A plan lhs rhs) (length out) (b * (mx_m plan * mx_n plan) + Suc r * mx_n plan) v"
proof -
  note lens = sized [unfolded matrices_sized_def]
  let ?P = "\<lambda>c. filled (entry_at A plan lhs rhs) (length out) (b * (mx_m plan * mx_n plan) + r * mx_n plan + c)"
  have bounds: "r * mx_k plan \<le> usize_max" "b * (mx_m plan * mx_k plan) + r * mx_k plan \<le> usize_max"
    "r * mx_n plan \<le> usize_max" "b * (mx_m plan * mx_n plan) + r * mx_n plan \<le> usize_max"
    using product_index [OF b r, of "mx_k plan"] product_index [OF b r, of "mx_n plan"] lens by linarith+
  have "\<exists>v. run_loop (product_cell A plan lhs rhs (b * (mx_m plan * mx_k plan) + r * mx_k plan)
      (b * (mx_k plan * mx_n plan)) (b * (mx_m plan * mx_n plan) + r * mx_n plan)) [0..<mx_n plan] u = (v, Inr ()) \<and>
      ?P (length [0..<mx_n plan]) v"
  proof (rule run_loop_total [where P = ?P])
    show "?P 0 u" using out by simp
    fix c s assume "c < length [0..<mx_n plan]" "?P c s"
    then show "\<exists>v. product_cell A plan lhs rhs (b * (mx_m plan * mx_k plan) + r * mx_k plan)
      (b * (mx_k plan * mx_n plan)) (b * (mx_m plan * mx_n plan) + r * mx_n plan) ([0..<mx_n plan] ! c) s = (v, Inr ()) \<and>
        ?P (Suc c) v"
      using product_cell_step [OF sized b r] by simp
  qed
  with bounds show ?thesis
    by (simp add: product_row_def add.assoc add.commute [of "mx_n plan"])
qed

lemma product_batch_step:
  assumes sized: "matrices_sized plan lhs rhs out" and b: "b < mx_batches plan"
    and out: "filled (entry_at A plan lhs rhs) (length out) (b * (mx_m plan * mx_n plan)) u"
  shows "\<exists>v. product_batch A plan lhs rhs (mx_m plan * mx_k plan) (mx_k plan * mx_n plan)
      (mx_m plan * mx_n plan) b u = (v, Inr ()) \<and>
    filled (entry_at A plan lhs rhs) (length out) (Suc b * (mx_m plan * mx_n plan)) v"
proof -
  note lens = sized [unfolded matrices_sized_def]
  let ?P = "\<lambda>r. filled (entry_at A plan lhs rhs) (length out) (b * (mx_m plan * mx_n plan) + r * mx_n plan)"
  have "b * D \<le> usize_max" if "mx_batches plan * D \<le> usize_max" for D
    using mult_le_mono1 [of b "mx_batches plan" D] b that by linarith
  with lens have bounds: "b * (mx_m plan * mx_k plan) \<le> usize_max" "b * (mx_k plan * mx_n plan) \<le> usize_max"
    "b * (mx_m plan * mx_n plan) \<le> usize_max" by simp_all
  have "\<exists>v. run_loop (product_row A plan lhs rhs (b * (mx_m plan * mx_k plan)) (b * (mx_k plan * mx_n plan))
      (b * (mx_m plan * mx_n plan))) [0..<mx_m plan] u = (v, Inr ()) \<and> ?P (length [0..<mx_m plan]) v"
  proof (rule run_loop_total [where P = ?P])
    show "?P 0 u" using out by simp
    fix r s assume "r < length [0..<mx_m plan]" "?P r s"
    then show "\<exists>v. product_row A plan lhs rhs (b * (mx_m plan * mx_k plan)) (b * (mx_k plan * mx_n plan))
      (b * (mx_m plan * mx_n plan)) ([0..<mx_m plan] ! r) s = (v, Inr ()) \<and> ?P (Suc r) v"
      using product_row_step [OF sized b] by simp
  qed
  with bounds show ?thesis
    by (simp add: product_batch_def add.commute [of "mx_m plan * mx_n plan"])
qed

lemma execute_matrix_product_eq:
  assumes sized: "matrices_sized plan lhs rhs out"
    and fits: "mx_m plan * mx_k plan \<le> usize_max" "mx_k plan * mx_n plan \<le> usize_max" "mx_m plan * mx_n plan \<le> usize_max"
  shows "execute_matrix_product A (PreparedMatrixProduct plan) [lhs, rhs] out = (matrix_spec A plan lhs rhs, Inr ())"
proof -
  note lens = sized [unfolded matrices_sized_def]
  let ?P = "\<lambda>b. filled (entry_at A plan lhs rhs) (length out) (b * (mx_m plan * mx_n plan))"
  have "\<exists>v. run_loop (product_batch A plan lhs rhs (mx_m plan * mx_k plan) (mx_k plan * mx_n plan)
      (mx_m plan * mx_n plan)) [0..<mx_batches plan] out = (v, Inr ()) \<and> ?P (length [0..<mx_batches plan]) v"
  proof (rule run_loop_total [where P = ?P])
    show "?P 0 out" by (simp add: filled_0)
    fix b s assume "b < length [0..<mx_batches plan]" "?P b s"
    then show "\<exists>v. product_batch A plan lhs rhs (mx_m plan * mx_k plan) (mx_k plan * mx_n plan)
      (mx_m plan * mx_n plan) ([0..<mx_batches plan] ! b) s = (v, Inr ()) \<and> ?P (Suc b) v"
      using product_batch_step [OF sized] by simp
  qed
  then obtain v where v: "run_loop (product_batch A plan lhs rhs (mx_m plan * mx_k plan) (mx_k plan * mx_n plan)
      (mx_m plan * mx_n plan)) [0..<mx_batches plan] out = (v, Inr ())"
    "filled (entry_at A plan lhs rhs) (length out) (length out) v"
    using lens by auto
  then have "v = matrix_spec A plan lhs rhs"
    using lens by (simp add: filled_all matrix_spec_def entry_at_def [abs_def])
  with v(1) fits show ?thesis
    by (simp add: execute_matrix_product_def binary_operands_def get_def)
qed

section \<open>Row-major strides\<close>

definition strides_fit :: "nat list \<Rightarrow> bool" where
  "strides_fit ds \<longleftrightarrow> (\<forall>j < length ds. prod_list (drop j ds) \<le> usize_max)"

lemma stride_loop:
  assumes "length st = length ds" "m \<le> length ds" "drop m st = row_major (drop m ds)"
  shows "try_fold (stride_step ds) (st, prod_list (drop m ds)) (rev [0..<m]) =
    (if \<forall>j < m. prod_list (drop j ds) \<le> usize_max then Inr (row_major ds, prod_list ds) else fail IndexOverflow)"
  using assms
proof (induction m arbitrary: st)
  case 0
  then show ?case by simp
next
  case (Suc m)
  have d: "drop m ds = ds ! m # drop (Suc m) ds" using Suc.prems(2) by (simp add: Cons_nth_drop_Suc)
  then have P: "prod_list (drop (Suc m) ds) * ds ! m = prod_list (drop m ds)" by (simp add: mult.commute)
  let ?st = "st[m := prod_list (drop (Suc m) ds)]"
  have "drop m ?st = row_major (drop m ds)"
    using Suc.prems by (simp add: d Cons_nth_drop_Suc [symmetric])
  with Suc.IH [of ?st] Suc.prems have IH: "try_fold (stride_step ds) (?st, prod_list (drop m ds)) (rev [0..<m]) =
    (if \<forall>j < m. prod_list (drop j ds) \<le> usize_max then Inr (row_major ds, prod_list ds) else fail IndexOverflow)"
    by simp
  have step: "stride_step ds (st, prod_list (drop (Suc m) ds)) m =
      (if prod_list (drop m ds) \<le> usize_max then Inr (?st, prod_list (drop m ds)) else fail IndexOverflow)"
    using Suc.prems by (simp add: stride_step_def get_def checked_mul_def P)
  show ?case using IH step by (auto simp: all_less_Suc)
qed

lemma row_major_strides_eq:
  "row_major_strides ds = (if strides_fit ds then Inr (row_major ds) else fail IndexOverflow)"
  using stride_loop [of "replicate (length ds) 0" ds "length ds"]
  by (simp add: row_major_strides_def strides_fit_def)

section \<open>Permutations\<close>

text \<open>Where the element of output position \<open>i\<close> comes from.\<close>

definition source_index :: "nat list \<Rightarrow> nat list \<Rightarrow> nat \<Rightarrow> nat" where
  "source_index ds p i =
     (\<Sum>j < length p. (i div (row_major (permuted p ds) ! j) mod (permuted p ds ! j)) * row_major ds ! (p ! j))"

definition permute_spec :: "nat list \<Rightarrow> nat list \<Rightarrow> element list \<Rightarrow> element list" where
  "permute_spec ds p xs = map (\<lambda>i. xs ! source_index ds p i) [0..<prod_list ds]"

lemma source_index_ravel:
  assumes ok: "axes_ok p ds" and d: "in_range d ds"
  shows "source_index ds p (ravel (permuted p ds) (permuted p d)) = ravel ds d"
proof -
  note c = in_range_permuted [OF ok d]
  have n: "length p = length ds" "length d = length ds"
    using axes_ok_nth(1) [OF ok] d by (simp_all add: in_range_def list_all2_conv_all_nth)
  have "source_index ds p (ravel (permuted p ds) (permuted p d)) =
      (\<Sum>j < length ds. permuted p d ! j * row_major ds ! (p ! j))"
    unfolding source_index_def n
    by (intro sum.cong refl) (use ravel_coordinate [OF c] n in \<open>simp add: permuted_def\<close>)
  also have "\<dots> = (\<Sum>j < length ds. d ! (p ! j) * row_major ds ! (p ! j))"
    by (intro sum.cong refl) (simp add: permuted_def n)
  also have "\<dots> = (\<Sum>a < length ds. d ! a * row_major ds ! a)"
    by (rule sum.reindex_bij_betw [OF axes_ok_bij [OF ok], where g = "\<lambda>a. d ! a * row_major ds ! a"])
  also have "\<dots> = ravel ds d" using n by (simp add: ravel_sum)
  finally show ?thesis .
qed

text \<open>
  The permuted tensor holds at the permuted multi-index the element of the original
  multi-index, and every output position is such a multi-index.
\<close>

lemma permute_spec_index:
  assumes "axes_ok p ds" and "in_range d ds"
  shows "permute_spec ds p xs ! ravel (permuted p ds) (permuted p d) = xs ! ravel ds d"
  using ravel_less [OF in_range_permuted [OF assms]] source_index_ravel [OF assms]
  by (simp add: permute_spec_def prod_permuted [OF assms(1)])

lemma source_index_less:
  assumes ok: "axes_ok p ds" and i: "i < prod_list ds"
  shows "source_index ds p i < prod_list ds"
proof -
  from i ravel_surj [of i "permuted p ds"] prod_permuted [OF ok] obtain c
    where c: "in_range c (permuted p ds)" "ravel (permuted p ds) c = i" by auto
  from unpermute [OF ok c(1)] obtain d where "in_range d ds" "permuted p d = c" .
  with source_index_ravel [OF ok] ravel_less c(2) show ?thesis by metis
qed

definition permute_plan_of :: "nat list \<Rightarrow> nat list \<Rightarrow> permute_plan" where
  "permute_plan_of ds p =
     \<lparr>pp_input_dims = ds, pp_output_dims = permuted p ds, pp_input_strides = row_major ds,
      pp_output_strides = row_major (permuted p ds), pp_permutation = p\<rparr>"

lemma coordinates_set:
  assumes ok: "axes_ok p ds" and pos: "0 < prod_list ds" and rank: "length ds \<le> 32" and len: "length cs = 32"
  shows "\<exists>cs'. try_fold (set_coordinate i) cs
      (enumerate 0 (zip (row_major (permuted p ds)) (permuted p ds))) = Inr cs' \<and> length cs' = 32 \<and>
    (\<forall>j < length p. cs' ! j = i div (row_major (permuted p ds) ! j) mod (permuted p ds ! j))"
proof -
  let ?os = "permuted p ds" and ?xs = "enumerate 0 (zip (row_major (permuted p ds)) (permuted p ds))"
  have n: "length p = length ds" "length ?os = length ds" using ok by (simp_all add: axes_ok_def permuted_def)
  have opos: "0 < prod_list ?os" using pos prod_permuted [OF ok] by simp
  let ?P = "\<lambda>t cs. length cs = 32 \<and> (\<forall>j < t. cs ! j = i div (row_major ?os ! j) mod (?os ! j))"
  have "\<exists>cs'. try_fold (set_coordinate i) cs ?xs = Inr cs' \<and> ?P (length ?xs) cs'"
  proof (rule try_fold_total [where P = ?P])
    show "?P 0 cs" using len by simp
    fix t u assume t: "t < length ?xs" "?P t u"
    then have j: "t < length ?os" by simp
    have "row_major ?os ! t \<noteq> 0" "?os ! t \<noteq> 0"
      using prod_drop_pos [OF opos] prod_list_pos [OF opos nth_mem [OF j]] j by (simp_all add: row_major_nth)
    then have "set_coordinate i u (?xs ! t) = Inr (u[t := i div (row_major ?os ! t) mod (?os ! t)])"
      using t j n rank by (simp add: set_coordinate_def require_def)
    with t show "\<exists>s'. set_coordinate i u (?xs ! t) = Inr s' \<and> ?P (Suc t) s'"
      using j n rank by (auto simp: nth_list_update less_Suc_eq)
  qed
  then show ?thesis using n by simp
qed

lemma source_summed:
  assumes ok: "axes_ok p ds" and i: "i < prod_list ds" and small: "prod_list ds \<le> usize_max"
    and cs: "length cs = 32" "length ds \<le> 32"
    "\<forall>j < length p. cs ! j = i div (row_major (permuted p ds) ! j) mod (permuted p ds ! j)"
  shows "try_fold (add_term (permute_plan_of ds p) cs) 0 (enumerate 0 p) = Inr (source_index ds p i)"
proof -
  let ?h = "\<lambda>j. cs ! j * row_major ds ! (p ! j)"
  have n: "length p = length ds" using ok by (simp add: axes_ok_def)
  have si: "source_index ds p i = (\<Sum>j < length p. ?h j)"
    unfolding source_index_def by (intro sum.cong refl) (simp add: cs(3))
  have bound: "(\<Sum>j < t. ?h j) \<le> usize_max" if "t \<le> length p" for t
  proof -
    have "(\<Sum>j < t. ?h j) \<le> (\<Sum>j < length p. ?h j)" using that by (intro sum_mono2) auto
    with si source_index_less [OF ok i] small show ?thesis by linarith
  qed
  have "\<exists>s. try_fold (add_term (permute_plan_of ds p) cs) 0 (enumerate 0 p) = Inr s \<and>
      s = (\<Sum>j < length (enumerate 0 p). ?h j)"
  proof (rule try_fold_total [where P = "\<lambda>t s. s = (\<Sum>j < t. ?h j)"])
    fix t s assume t: "t < length (enumerate 0 p)" "s = (\<Sum>j < t. ?h j)"
    then have tp: "t < length p" by simp
    have "p ! t < length ds" using axes_ok_nth(1,2) [OF ok] tp by simp
    moreover have "(\<Sum>j < t. ?h j) + ?h t \<le> usize_max" using bound [of "Suc t"] tp by simp
    ultimately show "\<exists>s'. add_term (permute_plan_of ds p) cs s (enumerate 0 p ! t) = Inr s' \<and>
        s' = (\<Sum>j < Suc t. ?h j)"
      using t tp cs n by (simp add: add_term_def get_def permute_plan_of_def)
  qed simp
  then show ?thesis by (simp add: si)
qed

lemma execute_permute_eq:
  assumes ok: "axes_ok p ds" and small: "prod_list ds \<le> usize_max" and rank: "length ds \<le> 32"
    and len: "length xs = prod_list ds" "length out = prod_list ds"
  shows "execute_permute (permute_plan_of ds p) xs out = (permute_spec ds p xs, Inr ())"
proof (cases "out = []")
  case True
  with len show ?thesis by (simp add: execute_permute_def permute_spec_def)
next
  case False
  then have pos: "0 < prod_list ds" using len by (metis length_greater_0_conv)
  have n: "length p = length ds" "length (permuted p ds) = length ds" using ok by (simp_all add: axes_ok_def permuted_def)
  have max: "max_rank = 32" by (simp add: reference_max_rank_def)
  let ?P = "\<lambda>t (cs :: nat list, u). length cs = 32 \<and> filled (\<lambda>i. xs ! source_index ds p i) (length out) t u"
  have "\<exists>st. run_loop (permute_element (permute_plan_of ds p) xs) [0..<length out] (replicate max_rank 0, out) =
      (st, Inr ()) \<and> ?P (length [0..<length out]) st"
  proof (rule run_loop_total [where P = ?P])
    show "?P 0 (replicate max_rank 0, out)" by (simp add: filled_0 max)
    fix t st assume t: "t < length [0..<length out]" and "?P t st"
    then obtain cs u where st: "st = (cs, u)" "length cs = 32"
      "filled (\<lambda>i. xs ! source_index ds p i) (length out) t u" by auto
    have t': "t < prod_list ds" using t len by simp
    from coordinates_set [OF ok pos rank st(2), where i = t] obtain cs' where cs':
      "try_fold (set_coordinate t) cs (enumerate 0 (zip (row_major (permuted p ds)) (permuted p ds))) = Inr cs'"
      "length cs' = 32" "\<forall>j < length p. cs' ! j = t div (row_major (permuted p ds) ! j) mod (permuted p ds ! j)"
      by blast
    note src = source_summed [OF ok t' small cs'(2) rank cs'(3)]
    have "permute_element (permute_plan_of ds p) xs t (cs, u) = ((cs', u[t := xs ! source_index ds p t]), Inr ())"
      using cs'(1) src source_index_less [OF ok t'] len
      by (simp add: permute_element_def permute_plan_of_def get_def)
    moreover have "filled (\<lambda>i. xs ! source_index ds p i) (length out) (Suc t) (u[t := xs ! source_index ds p t])"
      using st(3) t by (auto simp: filled_def nth_list_update less_Suc_eq)
    ultimately show "\<exists>st'. permute_element (permute_plan_of ds p) xs ([0..<length out] ! t) st = (st', Inr ()) \<and> ?P (Suc t) st'"
      using t st(1) cs'(2) by simp
  qed
  then obtain cs v where run: "run_loop (permute_element (permute_plan_of ds p) xs) [0..<length out]
      (replicate max_rank 0, out) = ((cs, v), Inr ())"
    and "filled (\<lambda>i. xs ! source_index ds p i) (length out) (length out) v" by auto
  then have "v = permute_spec ds p xs" by (simp add: filled_all permute_spec_def len)
  with run False n rank show ?thesis
    by (simp add: execute_permute_def max) (simp add: permute_plan_of_def)
qed

end
