(* ===== verification/Interpreter_Correct.thy ===== *)
theory Interpreter_Correct
  imports Interpreter_Bodies
begin

text \<open>
  Correctness of the Reference interpreter on valid artefacts: which artefacts are prepared and
  what preparation computes, what an invocation writes, and that a failing invocation writes
  nothing.
\<close>

section \<open>Sizes of valid layouts\<close>

definition nat_dims :: "tensor_layout \<Rightarrow> nat list" where
  "nat_dims l = map unat (tl_dims l)"

definition element_count :: "tensor_layout \<Rightarrow> nat" where
  "element_count l = unat (tl_elements l)"

lemma u64_usize: "unat (w :: u64) \<le> usize_max"
proof -
  have "unat w < 2 ^ 64" using unsigned_less [of w] by simp
  then show ?thesis by simp
qed

lemma checked_usize_eq [simp]: "checked_usize w = Inr (unat w)"
  using u64_usize [of w] by (simp add: checked_usize_def)

lemma checked_dims_eq [simp]: "checked_dims dims = Inr (map unat dims)"
  unfolding checked_dims_def by (rule traverse_map) simp

lemma element_count_dims: "layout_ok l \<Longrightarrow> element_count l = prod_list (nat_dims l)"
  by (simp add: element_count_def nat_dims_def layout_ok_elements)

lemma element_count_small: "element_count l \<le> usize_max"
  by (simp add: element_count_def u64_usize)

lemma checked_product_prefix:
  assumes "layout_elements (xs @ ys) = Inr n"
  shows "checked_product (map unat xs) = Inr (prod_list (map unat xs))"
proof -
  have "try_fold (\<lambda>p d. ok_or IndexOverflow (checked_mul p d)) (unat m) (map unat xs) = Inr (unat m * prod_list (map unat xs))"
    if "try_fold (\<lambda>total dim. ok_or ElementCountOverflow (u64_checked_mul total dim)) m xs = Inr r" for m r
    using that
  proof (induction xs arbitrary: m)
    case (Cons x xs)
    then have fits: "unat m * unat x < 2 ^ 64"
      and rest: "try_fold (\<lambda>total dim. ok_or ElementCountOverflow (u64_checked_mul total dim)) (m * x) xs = Inr r"
      by (auto simp: outcome_simps)
    from Cons.IH [OF rest] fits show ?case by (simp add: unat_mult_small mult.assoc)
  qed simp
  moreover from assms obtain r where
    "try_fold (\<lambda>total dim. ok_or ElementCountOverflow (u64_checked_mul total dim)) 1 xs = Inr r"
    by (auto simp: layout_elements_def outcome_simps)
  ultimately show ?thesis using unsigned_1 by (fastforce simp: checked_product_def)
qed

section \<open>Preparation\<close>

definition matrix_plan_of :: "artifact \<Rightarrow> matrix_plan" where
  "matrix_plan_of a =
     (let lhs = nat_dims (ra_operands a ! 0); rhs = nat_dims (ra_operands a ! 1); axis = length lhs - 2 in
      \<lparr>mx_batches = (if ra_opcode a = OpBatchMatMul then prod_list (take axis lhs) else 1),
       mx_m = lhs ! axis, mx_k = lhs ! (axis + 1), mx_n = rhs ! (axis + 1)\<rparr>)"

fun prepared_attributes_of :: "artifact \<Rightarrow> attributes \<Rightarrow> prepared_attributes" where
  "prepared_attributes_of a (ScaleAttributes bits) = PreparedScale bits"
| "prepared_attributes_of a (PermuteAttributes axes) =
     PreparedPermute (permute_plan_of (nat_dims (ra_operands a ! 0)) (map unat axes))"
| "prepared_attributes_of a NoAttributes =
     (if ra_opcode a \<in> {OpMatMul, OpBatchMatMul} then PreparedMatrixProduct (matrix_plan_of a) else PreparedNone)"

definition prepared_of :: "artifact \<Rightarrow> prepared_kernel" where
  "prepared_of a =
     \<lparr>pk_kernel_id = ra_kernel a, pk_opcode = ra_opcode a, pk_dtype = F32,
      pk_operand_lengths = map element_count (ra_operands a), pk_result_length = element_count (ra_result a),
      pk_attributes = prepared_attributes_of a (ra_attributes a)\<rparr>"

text \<open>The row-major strides of both sides of a permutation must be representable.\<close>

definition permutation_fits :: "artifact \<Rightarrow> bool" where
  "permutation_fits a \<longleftrightarrow> strides_fit (nat_dims (ra_operands a ! 0)) \<and> strides_fit (nat_dims (ra_result a))"

definition preparation_error :: "artifact \<Rightarrow> execution_error option" where
  "preparation_error a =
     (if ra_opcode a \<in> {OpExp, OpLog} then Some (DeterministicMathUnavailable (ra_opcode a))
      else if ra_opcode a \<in> {OpReluGrad, OpBroadcastTo, OpReduceSumTo} then Some (UnsupportedOpcode (ra_opcode a))
      else if ra_opcode a = OpPermute \<and> \<not> permutation_fits a then Some IndexOverflow
      else None)"

lemma matmul_dims_ex:
  "matmul_dims lhs rhs out \<longleftrightarrow> (\<exists>m k n. lhs = [m, k] \<and> rhs = [k, n] \<and> out = [m, n])"
  by (cases "(lhs, rhs, out)" rule: matmul_dims.cases) auto

lemma batch_matmul_dims_ex:
  assumes "batch_matmul_dims lhs rhs out"
  shows "\<exists>pre m k n. pre \<noteq> [] \<and> lhs = pre @ [m, k] \<and> rhs = pre @ [k, n] \<and> out = pre @ [m, n]"
proof -
  let ?r = "length lhs - 2"
  from assms obtain m k n where "drop ?r lhs = [m, k]" "drop ?r rhs = [k, n]" "drop ?r out = [m, n]"
    and same: "take ?r lhs = take ?r rhs" "take ?r lhs = take ?r out" "3 \<le> length lhs"
    by (auto simp: batch_matmul_dims_def matmul_dims_ex Let_def)
  then have "lhs = take ?r lhs @ [m, k]" "rhs = take ?r lhs @ [k, n]" "out = take ?r lhs @ [m, n]"
    by (metis append_take_drop_id)+
  moreover have "take ?r lhs \<noteq> []" using same(3) by auto
  ultimately show ?thesis by blast
qed

text \<open>The shape of a matrix product: a batch prefix, empty for a rank-2 product.\<close>

lemma matrix_operands:
  assumes ok: "artifact_ok a" and oper: "ra_opcode a \<in> {OpMatMul, OpBatchMatMul}"
  obtains lhs rhs pre m k n where "ra_operands a = [lhs, rhs]" "layout_ok lhs" "layout_ok rhs"
    "layout_ok (ra_result a)" "ra_attributes a = NoAttributes"
    "tl_dims lhs = pre @ [m, k]" "tl_dims rhs = pre @ [k, n]" "tl_dims (ra_result a) = pre @ [m, n]"
    "pre = [] \<longleftrightarrow> ra_opcode a = OpMatMul"
proof -
  have "operand_count (ra_opcode a) = 2" using oper by auto
  with ok have "length (ra_operands a) = 2" by (simp add: artifact_ok_def)
  then obtain lhs rhs where ops: "ra_operands a = [lhs, rhs]" by (auto simp: length_two)
  have "ra_attributes a = NoAttributes"
    using ok oper by (cases "ra_attributes a") (auto simp: artifact_ok_def)
  moreover obtain pre m k n where "tl_dims lhs = pre @ [m, k]" "tl_dims rhs = pre @ [k, n]"
    "tl_dims (ra_result a) = pre @ [m, n]" "pre = [] \<longleftrightarrow> ra_opcode a = OpMatMul"
  proof (cases "ra_opcode a = OpMatMul")
    case True
    with ok ops that [of "[]"] show thesis by (auto simp: artifact_ok_def matmul_dims_ex)
  next
    case False
    with oper ok ops have "batch_matmul_dims (tl_dims lhs) (tl_dims rhs) (tl_dims (ra_result a))"
      by (simp add: artifact_ok_def)
    from batch_matmul_dims_ex [OF this] False that show thesis by blast
  qed
  ultimately show thesis using that ok ops by (simp add: artifact_ok_def)
qed

lemma matrix_plan_eq:
  assumes "ra_operands a = [lhs, rhs]" "tl_dims lhs = pre @ [m, k]" "tl_dims rhs = pre @ [k, n]"
    "pre = [] \<longleftrightarrow> ra_opcode a = OpMatMul" "ra_opcode a \<in> {OpMatMul, OpBatchMatMul}"
  shows "matrix_plan_of a = \<lparr>mx_batches = prod_list (map unat pre), mx_m = unat m, mx_k = unat k, mx_n = unat n\<rparr>"
  using assms by (auto simp: matrix_plan_of_def nat_dims_def nth_append)

lemma prepare_matrix_product_eq:
  assumes ok: "artifact_ok a" and oper: "ra_opcode a \<in> {OpMatMul, OpBatchMatMul}"
  shows "prepare_matrix_product a (ra_opcode a) = Inr (PreparedMatrixProduct (matrix_plan_of a))"
proof -
  from matrix_operands [OF ok oper] obtain lhs rhs pre m k n where ops: "ra_operands a = [lhs, rhs]"
    "layout_ok lhs" "layout_ok rhs" "layout_ok (ra_result a)" "ra_attributes a = NoAttributes"
    "tl_dims lhs = pre @ [m, k]" "tl_dims rhs = pre @ [k, n]" "tl_dims (ra_result a) = pre @ [m, n]"
    "pre = [] \<longleftrightarrow> ra_opcode a = OpMatMul" .
  from ops(2,6) have "layout_elements (pre @ [m, k]) = Inr (tl_elements lhs)" by (simp add: layout_ok_def)
  note prefix = checked_product_prefix [OF this]
  show ?thesis
    unfolding matrix_plan_eq [OF ops(1,6,7,9) oper]
    using oper ops prefix
    by (auto simp: prepare_matrix_product_def get_def nth_append Let_def idx_def length_0_conv [symmetric]
        simp del: length_0_conv length_greater_0_conv)
qed

lemma permute_operands:
  assumes ok: "artifact_ok a" and oper: "ra_opcode a = OpPermute"
  obtains x axes where "ra_operands a = [x]" "ra_attributes a = PermuteAttributes axes" "layout_ok x"
    "layout_ok (ra_result a)" "axes_ok (map unat axes) (nat_dims x)"
    "nat_dims (ra_result a) = permuted (map unat axes) (nat_dims x)"
proof -
  from ok oper obtain x where x: "ra_operands a = [x]" by (auto simp: artifact_ok_def length_Suc_conv)
  from ok oper x obtain axes where axes: "ra_attributes a = PermuteAttributes axes"
    by (cases "ra_attributes a") (auto simp: artifact_ok_def)
  from ok oper x axes have p: "permuted_dims (tl_dims x) axes (tl_dims (ra_result a))"
    by (simp add: artifact_ok_def)
  then have "distinct (map unat axes)"
    by (simp add: permuted_dims_def distinct_map inj_on_def word_unat_eq_iff)
  moreover have "set (map unat axes) = {..<length (tl_dims x)}"
  proof (rule card_subset_eq)
    show "set (map unat axes) \<subseteq> {..<length (tl_dims x)}" using p by (auto simp: permuted_dims_def list_all_iff)
    show "card (set (map unat axes)) = card {..<length (tl_dims x)}"
      using p distinct_card [OF \<open>distinct (map unat axes)\<close>] by (simp add: permuted_dims_def)
  qed simp
  ultimately have "axes_ok (map unat axes) (nat_dims x)"
    using p by (simp add: axes_ok_def nat_dims_def permuted_dims_def)
  moreover have "nat_dims (ra_result a) = permuted (map unat axes) (nat_dims x)"
    using p by (auto simp: nat_dims_def permuted_def permuted_dims_def list_all_iff)
  ultimately show thesis using that ok x axes by (simp add: artifact_ok_def)
qed

lemma prepare_permute_eq:
  assumes ok: "artifact_ok a" and oper: "ra_opcode a = OpPermute" and attrs: "ra_attributes a = PermuteAttributes axes"
  shows "prepare_permute a axes = (if permutation_fits a
    then Inr (PreparedPermute (permute_plan_of (nat_dims (ra_operands a ! 0)) (map unat axes)))
    else fail IndexOverflow)"
proof -
  from permute_operands [OF ok oper] obtain x where x: "ra_operands a = [x]" "layout_ok x" "layout_ok (ra_result a)"
    and axes: "axes_ok (map unat axes) (nat_dims x)"
    "nat_dims (ra_result a) = permuted (map unat axes) (nat_dims x)"
    using attrs by (metis attributes.inject(2))
  have "length axes \<le> 32" "length (nat_dims x) \<le> 32" "length (permuted (map unat axes) (nat_dims x)) \<le> 32"
    using x axes(1) by (simp_all add: layout_ok_def axes_ok_def nat_dims_def permuted_def)
  with x axes(2) show ?thesis
    by (auto simp: prepare_permute_def get_def reference_max_rank_def row_major_strides_eq permutation_fits_def
        permute_plan_of_def Let_def simp flip: nat_dims_def)
qed

lemma prepare_attributes_eq:
  assumes ok: "artifact_ok a" and exec: "executable_opcode (ra_opcode a) = Inr ()"
  shows "prepare_attributes a = (if ra_opcode a = OpPermute \<and> \<not> permutation_fits a then fail IndexOverflow
    else Inr (prepared_attributes_of a (ra_attributes a)))"
proof (cases "ra_attributes a")
  case NoAttributes
  then have "ra_opcode a \<notin> {OpScale, OpPermute}" using ok by (auto simp: artifact_ok_def)
  then show ?thesis
    using NoAttributes prepare_matrix_product_eq [OF ok] exec
    by (cases "ra_opcode a") (simp_all add: prepare_attributes_def executable_opcode_def)
next
  case (ScaleAttributes bits)
  with ok show ?thesis by (simp add: prepare_attributes_def artifact_ok_def)
next
  case (PermuteAttributes axes)
  then have "ra_opcode a = OpPermute" using ok by (simp add: artifact_ok_def)
  with PermuteAttributes prepare_permute_eq [OF ok this] show ?thesis
    by (simp add: prepare_attributes_def)
qed

lemma from_artifact_eq:
  assumes ok: "artifact_ok a"
  shows "from_artifact a =
    (case preparation_error a of Some e \<Rightarrow> fail e | None \<Rightarrow> Inr (prepared_of a))"
proof (cases "executable_opcode (ra_opcode a)")
  case (Inl f)
  then have "preparation_error a = Some e" if "f = Err e" for e
    using that by (auto simp: executable_opcode_def preparation_error_def split: if_splits)
  with Inl show ?thesis
    by (cases f) (auto simp: from_artifact_def executable_opcode_def split: if_splits)
next
  case (Inr u)
  then have exec: "executable_opcode (ra_opcode a) = Inr ()" by simp
  then have err: "preparation_error a = (if ra_opcode a = OpPermute \<and> \<not> permutation_fits a then Some IndexOverflow else None)"
    by (auto simp: executable_opcode_def preparation_error_def split: if_splits)
  have lens: "traverse (\<lambda>l. Inr (unat (tl_elements l))) (ra_operands a) = (Inr (map element_count (ra_operands a)) :: (execution_error, usize list) outcome)"
    by (rule traverse_map) (simp add: element_count_def)
  have "ra_dtype a = F32" using ok by (simp add: artifact_ok_def)
  then show ?thesis
    by (simp add: from_artifact_def exec require_def lens prepare_attributes_eq [OF ok exec] err prepared_of_def
        element_count_def)
qed

section \<open>Invocations\<close>

definition invocation_sized :: "artifact \<Rightarrow> element list list \<Rightarrow> element list \<Rightarrow> bool" where
  "invocation_sized a operands out \<longleftrightarrow>
     map length operands = map element_count (ra_operands a) \<and> length out = element_count (ra_result a)"

lemma attributes_match_prepared:
  assumes "artifact_ok a" and "preparation_error a = None"
  shows "attributes_match (ra_opcode a) (prepared_attributes_of a (ra_attributes a))"
  using assms by (cases "ra_attributes a"; cases "ra_opcode a")
    (auto simp: artifact_ok_def preparation_error_def)

lemma executable_prepared: "preparation_error a = None \<Longrightarrow> executable_opcode (ra_opcode a) = Inr ()"
  by (auto simp: preparation_error_def executable_opcode_def split: if_splits)

lemma lengths_checked:
  "length operands = length lens \<Longrightarrow>
     (\<forall>x \<in> set (enumerate 0 (zip operands lens)). case x of (i, operand, expected) \<Rightarrow> length operand = expected) \<longleftrightarrow>
     map length operands = lens"
  by (auto simp: ball_enumerate0 list_eq_iff_nth_eq)

lemma validate_invocation_iff:
  assumes "artifact_ok a" and "preparation_error a = None"
  shows "validate_invocation (prepared_of a) operands out = Inr u \<longleftrightarrow> invocation_sized a operands out"
proof -
  let ?lens = "map element_count (ra_operands a)"
  have "validate_invocation (prepared_of a) operands out = Inr u \<longleftrightarrow>
      length operands = length ?lens \<and>
      (\<forall>x \<in> set (enumerate 0 (zip operands ?lens)). case x of (i, operand, expected) \<Rightarrow> length operand = expected) \<and>
      length out = element_count (ra_result a)"
    using executable_prepared [OF assms(2)] attributes_match_prepared [OF assms]
    by (auto simp: validate_invocation_def prepared_of_def outcome_simps split: prod.splits)
  also have "\<dots> \<longleftrightarrow> invocation_sized a operands out"
    unfolding invocation_sized_def using lengths_checked [of operands ?lens] by (metis length_map)
  finally show ?thesis .
qed

lemma validate_invocation_no_panic: "validate_invocation p operands out \<noteq> Inl Panic"
proof
  assume "validate_invocation p operands out = Inl Panic"
  then show False
    by (auto simp: validate_invocation_def executable_opcode_def Let_def outcome_simps dest!: for_each_InlD
        split: if_splits)
qed

section \<open>What a kernel computes\<close>

definition kernel_spec :: "arithmetic \<Rightarrow> artifact \<Rightarrow> element list list \<Rightarrow> element list" where
  "kernel_spec A a operands =
     (let x = operands ! 0; y = operands ! 1 in
      case ra_opcode a of
        OpRelu \<Rightarrow> map relu x
      | OpZerosLike \<Rightarrow> replicate (element_count (ra_result a)) 0
      | OpOnesLike \<Rightarrow> replicate (element_count (ra_result a)) one_element
      | OpScale \<Rightarrow> (case ra_attributes a of ScaleAttributes bits \<Rightarrow> map (\<lambda>v. fmul A v bits) x | _ \<Rightarrow> [])
      | OpAdd \<Rightarrow> map2 (fadd A) x y
      | OpSub \<Rightarrow> map2 (fsub A) x y
      | OpMul \<Rightarrow> map2 (fmul A) x y
      | OpDiv \<Rightarrow> map2 (fdiv A) x y
      | OpMatMul \<Rightarrow> matrix_spec A (matrix_plan_of a) x y
      | OpBatchMatMul \<Rightarrow> matrix_spec A (matrix_plan_of a) x y
      | OpShapeCopy \<Rightarrow> x
      | OpPermute \<Rightarrow>
          (case ra_attributes a of
             PermuteAttributes axes \<Rightarrow> permute_spec (nat_dims (ra_operands a ! 0)) (map unat axes) x
           | _ \<Rightarrow> [])
      | _ \<Rightarrow> [])"

text \<open>The matrix sizes of a batched product, which an empty batch does not bound.\<close>

definition batch_fits :: "artifact \<Rightarrow> bool" where
  "batch_fits a \<longleftrightarrow> (ra_opcode a = OpBatchMatMul \<longrightarrow>
     (let plan = matrix_plan_of a in
      mx_m plan * mx_k plan \<le> usize_max \<and> mx_k plan * mx_n plan \<le> usize_max \<and> mx_m plan * mx_n plan \<le> usize_max))"

lemma write_zip_all [simp]: "length vs = length out \<Longrightarrow> write_zip vs out = (vs, Inr ())"
  by (simp add: write_zip_def)

lemma sized_unary:
  assumes ok: "artifact_ok a" and sized: "invocation_sized a operands out"
    and oper: "ra_opcode a \<in> {OpRelu, OpZerosLike, OpOnesLike, OpScale, OpShapeCopy}"
  obtains x where "operands = [x]" "length x = length out" "length out = element_count (ra_result a)"
proof -
  from ok oper obtain l where l: "ra_operands a = [l]" by (auto simp: artifact_ok_def length_Suc_conv)
  with ok oper have "element_count l = element_count (ra_result a)"
    by (cases "ra_opcode a = OpShapeCopy")
      (auto simp: artifact_ok_def element_count_def layout_ok_def)
  with sized l that show thesis by (auto simp: invocation_sized_def)
qed

lemma sized_binary:
  assumes ok: "artifact_ok a" and sized: "invocation_sized a operands out"
    and oper: "ra_opcode a \<in> {OpAdd, OpSub, OpMul, OpDiv}"
  obtains x y where "operands = [x, y]" "length x = length out" "length y = length out"
proof -
  from ok oper have "length (ra_operands a) = 2" by (auto simp: artifact_ok_def)
  then obtain l r where l: "ra_operands a = [l, r]" by (auto simp: length_two)
  with ok oper have "element_count l = element_count (ra_result a)" "element_count r = element_count (ra_result a)"
    by (auto simp: artifact_ok_def element_count_dims nat_dims_def)
  with sized l that show thesis by (auto simp: invocation_sized_def)
qed

lemma sized_matrix:
  assumes ok: "artifact_ok a" and sized: "invocation_sized a operands out"
    and oper: "ra_opcode a \<in> {OpMatMul, OpBatchMatMul}"
  obtains x y where "operands = [x, y]" "matrices_sized (matrix_plan_of a) x y out"
    "ra_opcode a = OpMatMul \<longrightarrow> mx_batches (matrix_plan_of a) = 1"
proof -
  from matrix_operands [OF ok oper] obtain lhs rhs pre m k n where ops: "ra_operands a = [lhs, rhs]"
    "layout_ok lhs" "layout_ok rhs" "layout_ok (ra_result a)" "ra_attributes a = NoAttributes"
    "tl_dims lhs = pre @ [m, k]" "tl_dims rhs = pre @ [k, n]" "tl_dims (ra_result a) = pre @ [m, n]"
    "pre = [] \<longleftrightarrow> ra_opcode a = OpMatMul" .
  note plan = matrix_plan_eq [OF ops(1,6,7,9) oper]
  from sized ops(1) obtain x y where xy: "operands = [x, y]" "length x = element_count lhs" "length y = element_count rhs"
    "length out = element_count (ra_result a)" by (auto simp: invocation_sized_def)
  have "matrices_sized (matrix_plan_of a) x y out"
    unfolding matrices_sized_def plan xy(2-4)
    using element_count_small [of lhs] element_count_small [of rhs] element_count_small [of "ra_result a"] ops(2-4,6-8) by (simp add: element_count_dims nat_dims_def)
  moreover have "mx_batches (matrix_plan_of a) = 1" if "ra_opcode a = OpMatMul"
    unfolding plan using ops(9) that by simp
  ultimately show thesis using that xy(1) by blast
qed

lemma sized_permute:
  assumes ok: "artifact_ok a" and sized: "invocation_sized a operands out" and oper: "ra_opcode a = OpPermute"
  obtains x axes where "operands = [x]" "ra_attributes a = PermuteAttributes axes"
    "execute_permute (permute_plan_of (nat_dims (ra_operands a ! 0)) (map unat axes)) x out =
       (permute_spec (nat_dims (ra_operands a ! 0)) (map unat axes) x, Inr ())"
proof -
  from permute_operands [OF ok oper] obtain l axes where l: "ra_operands a = [l]"
    "ra_attributes a = PermuteAttributes axes" "layout_ok l" "layout_ok (ra_result a)"
    "axes_ok (map unat axes) (nat_dims l)" "nat_dims (ra_result a) = permuted (map unat axes) (nat_dims l)" .
  have dims: "length (nat_dims l) \<le> 32" "prod_list (nat_dims l) = element_count l" "element_count l \<le> usize_max"
    using element_count_dims [OF l(3)] l(3) element_count_small [of l] by (simp_all add: layout_ok_def nat_dims_def)
  have "element_count (ra_result a) = element_count l"
    using l prod_permuted by (metis element_count_dims)
  with sized l(1) obtain x where x: "operands = [x]" "length x = prod_list (nat_dims l)" "length out = prod_list (nat_dims l)"
    using dims(2) by (auto simp: invocation_sized_def)
  have "execute_permute (permute_plan_of (nat_dims l) (map unat axes)) x out = (permute_spec (nat_dims l) (map unat axes) x, Inr ())"
    by (rule execute_permute_eq [OF l(5) _ dims(1) x(2,3)]) (simp add: dims)
  with that [of x axes] x l show thesis by simp
qed

lemma matrix_overflow:
  assumes "\<not> (mx_m plan * mx_k plan \<le> usize_max \<and> mx_k plan * mx_n plan \<le> usize_max \<and> mx_m plan * mx_n plan \<le> usize_max)"
  shows "execute_matrix_product A (PreparedMatrixProduct plan) [lhs, rhs] out = (out, fail IndexOverflow)"
  using assms
  by (auto simp: execute_matrix_product_def binary_operands_def get_def checked_index_def checked_mul_def)

lemma rank2_fits:
  assumes "matrices_sized plan x y out" and "mx_batches plan = 1"
  shows "mx_m plan * mx_k plan \<le> usize_max \<and> mx_k plan * mx_n plan \<le> usize_max \<and> mx_m plan * mx_n plan \<le> usize_max"
  using assms by (simp add: matrices_sized_def)

lemma execute_body_eq:
  assumes ok: "artifact_ok a" and prep: "preparation_error a = None" and sized: "invocation_sized a operands out"
  shows "execute_body A (prepared_of a) operands out =
    (if batch_fits a then (kernel_spec A a operands, Inr ()) else (out, fail IndexOverflow))"
proof -
  have sel: "pk_opcode (prepared_of a) = ra_opcode a"
    "pk_attributes (prepared_of a) = prepared_attributes_of a (ra_attributes a)" by (simp_all add: prepared_of_def)
  have matrix: "execute_body A (prepared_of a) operands out =
      (if batch_fits a then (kernel_spec A a operands, Inr ()) else (out, fail IndexOverflow))"
    if oper: "ra_opcode a \<in> {OpMatMul, OpBatchMatMul}"
  proof -
    from matrix_operands [OF ok oper] have "ra_attributes a = NoAttributes" by metis
    then have body: "execute_body A (prepared_of a) operands out =
        execute_matrix_product A (PreparedMatrixProduct (matrix_plan_of a)) operands out"
      using oper by (auto simp: execute_body_def sel)
    from sized_matrix [OF ok sized oper] obtain x y where xy: "operands = [x, y]"
      "matrices_sized (matrix_plan_of a) x y out" "ra_opcode a = OpMatMul \<longrightarrow> mx_batches (matrix_plan_of a) = 1" .
    show ?thesis
    proof (cases "batch_fits a")
      case True
      then have "mx_m (matrix_plan_of a) * mx_k (matrix_plan_of a) \<le> usize_max \<and>
          mx_k (matrix_plan_of a) * mx_n (matrix_plan_of a) \<le> usize_max \<and>
          mx_m (matrix_plan_of a) * mx_n (matrix_plan_of a) \<le> usize_max"
        using oper rank2_fits [OF xy(2)] xy(3) by (auto simp: batch_fits_def Let_def)
      with execute_matrix_product_eq [OF xy(2)] True oper show ?thesis
        by (auto simp: body [unfolded xy(1)] xy(1) kernel_spec_def)
    next
      case False
      then show ?thesis
        using matrix_overflow [of "matrix_plan_of a" A x y out] by (auto simp: body [unfolded xy(1)] xy(1) batch_fits_def Let_def)
    qed
  qed
  show ?thesis
  proof (cases "ra_opcode a \<in> {OpMatMul, OpBatchMatMul}")
    case True
    then show ?thesis by (rule matrix)
  next
    case False
    then have fits: "batch_fits a" by (simp add: batch_fits_def)
    consider "ra_opcode a \<in> {OpRelu, OpZerosLike, OpOnesLike, OpScale, OpShapeCopy}"
      | "ra_opcode a \<in> {OpAdd, OpSub, OpMul, OpDiv}" | "ra_opcode a = OpPermute"
      using False prep by (cases "ra_opcode a") (simp_all add: preparation_error_def)
    then show ?thesis
    proof cases
      case 1
      from sized_unary [OF ok sized 1] obtain x where x: "operands = [x]" "length x = length out"
        "length out = element_count (ra_result a)" .
      have "ra_attributes a = (case ra_attributes a of ScaleAttributes b \<Rightarrow> ScaleAttributes b | _ \<Rightarrow> NoAttributes)"
        "ra_opcode a = OpScale \<Longrightarrow> \<exists>b. ra_attributes a = ScaleAttributes b"
        using ok 1 by (cases "ra_attributes a"; auto simp: artifact_ok_def)+
      with 1 x fits show ?thesis
        by (auto simp: execute_body_def sel first_operand_def get_def kernel_spec_def)
    next
      case 2
      from sized_binary [OF ok sized 2] obtain x y where "operands = [x, y]" "length x = length out" "length y = length out" .
      with 2 fits show ?thesis
        by (auto simp: execute_body_def sel execute_binary_def binary_operands_def get_def kernel_spec_def)
    next
      case 3
      from sized_permute [OF ok sized 3] obtain x axes where "operands = [x]" "ra_attributes a = PermuteAttributes axes"
        "execute_permute (permute_plan_of (nat_dims (ra_operands a ! 0)) (map unat axes)) x out =
           (permute_spec (nat_dims (ra_operands a ! 0)) (map unat axes) x, Inr ())" .
      with 3 fits show ?thesis
        by (simp add: execute_body_def sel first_operand_def get_def kernel_spec_def)
    qed
  qed
qed

text \<open>
  An invocation of a prepared valid kernel: it succeeds exactly when the slices have the lengths
  of the layouts and the matrix sizes are representable, and then writes the specified values.
\<close>

lemma execute_kernel_eq:
  assumes ok: "artifact_ok a" and prep: "preparation_error a = None"
  shows "if invocation_sized a operands out \<and> batch_fits a
    then execute_kernel A (prepared_of a) operands out = (kernel_spec A a operands, Inr ())
    else \<exists>e. execute_kernel A (prepared_of a) operands out = (out, fail e)"
proof (cases "invocation_sized a operands out")
  case True
  then have "validate_invocation (prepared_of a) operands out = Inr ()" by (simp add: validate_invocation_iff [OF ok prep])
  with execute_body_eq [OF ok prep True] True show ?thesis by (auto simp: execute_kernel_def)
next
  case False
  then have "validate_invocation (prepared_of a) operands out \<noteq> Inr ()" by (simp add: validate_invocation_iff [OF ok prep])
  then obtain f where f: "validate_invocation (prepared_of a) operands out = Inl f"
    by (cases "validate_invocation (prepared_of a) operands out") auto
  moreover obtain e where "f = Err e" using f validate_invocation_no_panic by (cases f) auto
  ultimately show ?thesis using False by (simp add: execute_kernel_def)
qed

lemma from_kernel_module_eq:
  assumes "artifact_ok a"
  shows "from_kernel_module \<lparr>km_format = ReferenceFormat, entry_point = artifact_entry_point a, code = encode a\<rparr> =
    from_artifact a"
  using encode_complete [OF assms] by (simp add: from_kernel_module_def require_def Let_def)

section \<open>Properties\<close>

text \<open>A concrete kernel: the transposition of a 2 by 3 matrix.\<close>

definition example_permute :: artifact where
  "example_permute =
     \<lparr>ra_kernel = 7, ra_version = reference_format_version, ra_opcode = OpPermute, ra_dtype = F32,
      ra_operands = [\<lparr>tl_dims = [2, 3], tl_elements = 6\<rparr>], ra_result = \<lparr>tl_dims = [3, 2], tl_elements = 6\<rparr>,
      ra_attributes = PermuteAttributes [1, 0]\<rparr>"

definition wrapping_arithmetic :: arithmetic where
  "wrapping_arithmetic = \<lparr>fadd = (+), fsub = (-), fmul = (*), fdiv = (div)\<rparr>"

lemma example_permute_ok: "artifact_ok example_permute" "decode (encode example_permute) = Inr example_permute"
proof -
  show "artifact_ok example_permute"
    by (simp add: artifact_ok_def example_permute_def layout_ok_def layout_elements_def u64_checked_mul_def
        permuted_dims_def)
  then show "decode (encode example_permute) = Inr example_permute" by (rule encode_complete)
qed

lemma example_permute_prepared: "preparation_error example_permute = None"
proof -
  have "strides_fit [2, 3]" "strides_fit [3, 2]" by (auto simp: strides_fit_def less_Suc_eq)
  then show ?thesis
    by (simp add: preparation_error_def example_permute_def permutation_fits_def nat_dims_def)
qed

lemma example_permute_sized:
  "invocation_sized example_permute [[10, 11, 12, 13, 14, 15]] [0, 0, 0, 0, 0, 0]" "batch_fits example_permute"
  by (simp_all add: invocation_sized_def example_permute_def element_count_def batch_fits_def)

text \<open>
  preparing a valid artefact fails exactly for the transcendental opcodes, the opcodes the
  interpreter does not execute and a permutation whose row-major strides are not representable,
  with the error of each; otherwise the prepared kernel holds the element counts of the layouts
  and the batch, row, inner and column sizes or the strides of the shapes.
\<close>

theorem preparation_decides:
  assumes "decode bytes = Inr a"
  shows "from_artifact a = (case preparation_error a of Some e \<Rightarrow> fail e | None \<Rightarrow> Inr (prepared_of a))"
  using assms from_artifact_eq decode_iff by blast

theorem preparation_decides_witness:
  "from_artifact example_permute = Inr (prepared_of example_permute)"
  using preparation_decides [OF example_permute_ok(2)] example_permute_prepared by simp

text \<open>
  C33: executing a prepared kernel of a valid artefact, whatever arithmetic the target has:
  with slices of the lengths of the layouts it never fails on an index and writes exactly the
  element-wise map, the fixed-order sums of products, the copy or the permutation of the
  operands; any failing invocation is a typed error and leaves the output slice unchanged. The one
  invocation of the right lengths that fails so is a product over an empty batch of matrices too large to
  be addressed (not \<open>batch_fits\<close>).
\<close>

theorem execution_decides:
  assumes "decode bytes = Inr a" and "from_artifact a = Inr p"
  shows "if invocation_sized a operands out \<and> batch_fits a
    then execute_kernel A p operands out = (kernel_spec A a operands, Inr ())
    else \<exists>e. execute_kernel A p operands out = (out, fail e)"
proof -
  have ok: "artifact_ok a" using assms(1) decode_iff by blast
  with assms(2) from_artifact_eq [OF ok] have prep: "preparation_error a = None" "p = prepared_of a"
    by (auto split: option.splits)
  from execute_kernel_eq [OF ok prep(1)] prep(2) show ?thesis by simp
qed

theorem execution_decides_witness:
  "execute_kernel wrapping_arithmetic (prepared_of example_permute) [[10, 11, 12, 13, 14, 15]] [0, 0, 0, 0, 0, 0] =
     ([10, 13, 11, 14, 12, 15], Inr ())"
proof -
  have prepared: "from_artifact example_permute = Inr (prepared_of example_permute)"
    using from_artifact_eq [OF example_permute_ok(1)] example_permute_prepared by simp
  have upt: "[0..<6] = [0, 1, 2, 3, 4, 5 :: nat]" by (simp add: upt_rec)
  have "kernel_spec wrapping_arithmetic example_permute [[10, 11, 12, 13, 14, 15]] = [10, 13, 11, 14, 12, 15]"
    by (simp add: kernel_spec_def example_permute_def permute_spec_def nat_dims_def source_index_def permuted_def
        upt)
  with execution_decides [OF example_permute_ok(2) prepared, of _ _ wrapping_arithmetic] example_permute_sized
  show ?thesis by metis
qed

text \<open>
  the permutation kernel moves the element at every input multi-index to the permuted
  multi-index of the output: the flat index arithmetic of the source (strides, divisions and
  remainders) is the row-major indexing of the two shapes.
\<close>

theorem permute_moves_elements:
  assumes "decode bytes = Inr a" and "ra_attributes a = PermuteAttributes axes"
    and "in_range d (nat_dims (ra_operands a ! 0))"
  shows "kernel_spec A a [x] ! ravel (nat_dims (ra_result a)) (permuted (map unat axes) d) =
    x ! ravel (nat_dims (ra_operands a ! 0)) d"
proof -
  have ok: "artifact_ok a" using assms(1) decode_iff by blast
  then have oper: "ra_opcode a = OpPermute" using assms(2) by (simp add: artifact_ok_def)
  from permute_operands [OF ok oper] obtain l where l: "ra_operands a = [l]"
    "axes_ok (map unat axes) (nat_dims l)" "nat_dims (ra_result a) = permuted (map unat axes) (nat_dims l)"
    using assms(2) by (metis attributes.inject(2))
  from permute_spec_index [OF l(2), of d x] assms(2,3) l oper show ?thesis by (simp add: kernel_spec_def)
qed

theorem permute_moves_elements_witness:
  "kernel_spec wrapping_arithmetic example_permute [[10, 11, 12, 13, 14, 15]] ! ravel [3, 2] [0, 1] = 13"
proof -
  have "ra_attributes example_permute = PermuteAttributes [1, 0]" "in_range [1, 0] (nat_dims (ra_operands example_permute ! 0))"
    by (simp_all add: example_permute_def in_range_def nat_dims_def)
  from permute_moves_elements [OF example_permute_ok(2) this, of wrapping_arithmetic "[10, 11, 12, 13, 14, 15]"]
  show ?thesis by (simp add: example_permute_def nat_dims_def permuted_def)
qed

end
