(* ===== verification/Compute_Backend.thy ===== *)
theory Compute_Backend
  imports Interpreter_Correct
begin

text \<open>
  The execution contract of \<open>scirust-compute\<close>: device capabilities (\<open>capabilities.rs\<close>), buffer
  bindings (\<open>binding.rs\<close>) and the trait \<open>ComputeBackend\<close> (\<open>backend.rs\<close>) as a record of operations.
  An operation is an action: it passes the backend's state along and returns a value or an error.
  The laws a client relies on are the assumptions of two locales: what a successful call does to
  the bytes of the buffers, and when a call succeeds.
\<close>

section \<open>Actions\<close>

type_synonym ('s, 'e, 'a) action = "'s \<Rightarrow> 's \<times> ('e, 'a) outcome"

named_theorems act_simps \<open>which paths of an action succeed\<close>

definition act_return :: "'a \<Rightarrow> ('s, 'e, 'a) action" where
  "act_return x s = (s, Inr x)"

definition act_lift :: "('e, 'a) outcome \<Rightarrow> ('s, 'e, 'a) action" where
  "act_lift r s = (s, r)"

definition act_bind :: "('s, 'e, 'a) action \<Rightarrow> ('a \<Rightarrow> ('s, 'e, 'b) action) \<Rightarrow> ('s, 'e, 'b) action" where
  "act_bind m f s = (case m s of (s', Inl e) \<Rightarrow> (s', Inl e) | (s', Inr x) \<Rightarrow> f x s')"

definition act_map_err :: "('e \<Rightarrow> 'f) \<Rightarrow> ('s, 'e, 'a) action \<Rightarrow> ('s, 'f, 'a) action" where
  "act_map_err f m s = (case m s of (s', r) \<Rightarrow> (s', map_err f r))"

fun act_traverse :: "('a \<Rightarrow> ('s, 'e, 'b) action) \<Rightarrow> 'a list \<Rightarrow> ('s, 'e, 'b list) action" where
  "act_traverse f [] = act_return []"
| "act_traverse f (x # xs) = act_bind (f x) (\<lambda>y. act_bind (act_traverse f xs) (\<lambda>ys. act_return (y # ys)))"

fun act_for_each :: "('a \<Rightarrow> ('s, 'e, unit) action) \<Rightarrow> 'a list \<Rightarrow> ('s, 'e, unit) action" where
  "act_for_each f [] = act_return ()"
| "act_for_each f (x # xs) = act_bind (f x) (\<lambda>_. act_for_each f xs)"

lemma act_bind_Inr [act_simps]:
  "act_bind m f s = (t, Inr y) \<longleftrightarrow> (\<exists>u x. m s = (u, Inr x) \<and> f x u = (t, Inr y))"
  by (auto simp: act_bind_def split: prod.split sum.split)

lemma act_return_eq [act_simps]: "act_return x s = (t, r) \<longleftrightarrow> t = s \<and> r = Inr x"
  by (auto simp: act_return_def)

lemma act_lift_eq [act_simps]: "act_lift r s = (t, r') \<longleftrightarrow> t = s \<and> r = r'"
  by (auto simp: act_lift_def)

lemma act_map_err_Inr [act_simps]: "act_map_err f m s = (t, Inr x) \<longleftrightarrow> m s = (t, Inr x)"
  by (auto simp: act_map_err_def split: prod.split)

text \<open>An action that fails before its first call leaves the state alone.\<close>

lemma act_bind_lift: "act_bind (act_lift r) f s = (case r of Inl e \<Rightarrow> (s, Inl e) | Inr x \<Rightarrow> f x s)"
  by (simp add: act_bind_def act_lift_def split: sum.split)

lemma act_bind_map_err:
  "act_bind (act_map_err h m) k s = (case m s of (s', Inl f) \<Rightarrow> (s', map_err h (Inl f)) | (s', Inr x) \<Rightarrow> k x s')"
proof -
  obtain s' r where m: "m s = (s', r)" by (cases "m s")
  show ?thesis
  proof (cases r)
    case (Inl f)
    with m show ?thesis by (cases f) (simp_all add: act_bind_def act_map_err_def)
  qed (simp add: m act_bind_def act_map_err_def)
qed

lemma act_traverse_append:
  "act_traverse f (xs @ [x]) = act_bind (act_traverse f xs) (\<lambda>ys. act_bind (f x) (\<lambda>y. act_return (ys @ [y])))"
proof (induction xs)
  case Nil
  show ?case by (rule ext) (auto simp: act_bind_def act_return_def split: prod.split sum.split)
next
  case (Cons a xs)
  show ?case
    by (rule ext) (auto simp: Cons.IH act_bind_def act_return_def split: prod.split sum.split)
qed

text \<open>
  The loop rule for traversals: an invariant indexed by the number of results so far. The first form
  is about a run that succeeds, the second proves that it does.
\<close>

lemma act_traverse_invariant:
  assumes "act_traverse f xs s = (t, Inr ys)" and "P 0 s []"
    and "\<And>i s s' ys y. i < length xs \<Longrightarrow> length ys = i \<Longrightarrow> P i s ys \<Longrightarrow> f (xs ! i) s = (s', Inr y) \<Longrightarrow> P (Suc i) s' (ys @ [y])"
  shows "length ys = length xs \<and> P (length xs) t ys"
  using assms
proof (induction xs arbitrary: t ys rule: rev_induct)
  case Nil
  then show ?case by (simp add: act_simps)
next
  case (snoc x xs)
  from snoc.prems(1) obtain u zs y where u: "act_traverse f xs s = (u, Inr zs)" "f x u = (t, Inr y)" "ys = zs @ [y]"
    by (auto simp: act_traverse_append act_simps)
  have "length zs = length xs \<and> P (length xs) u zs"
  proof (rule snoc.IH [OF u(1) snoc.prems(2)])
    fix i v v' ws w assume "i < length xs" "length ws = i" "P i v ws" "f (xs ! i) v = (v', Inr w)"
    with snoc.prems(3) [of i ws v v' w] show "P (Suc i) v' (ws @ [w])" by (simp add: nth_append)
  qed
  with u snoc.prems(3) [of "length xs" zs u t y] show ?case by (simp add: nth_append)
qed

lemma act_traverse_total:
  assumes "P 0 s []"
    and "\<And>i s ys. i < length xs \<Longrightarrow> length ys = i \<Longrightarrow> P i s ys \<Longrightarrow> \<exists>s' y. f (xs ! i) s = (s', Inr y) \<and> P (Suc i) s' (ys @ [y])"
  shows "\<exists>t ys. act_traverse f xs s = (t, Inr ys) \<and> length ys = length xs \<and> P (length xs) t ys"
  using assms
proof (induction xs rule: rev_induct)
  case Nil
  then show ?case by (simp add: act_simps)
next
  case (snoc x xs)
  have "\<exists>t ys. act_traverse f xs s = (t, Inr ys) \<and> length ys = length xs \<and> P (length xs) t ys"
  proof (rule snoc.IH [OF snoc.prems(1)])
    fix i v ws assume "i < length xs" "length ws = i" "P i v ws"
    with snoc.prems(2) [of i ws v] show "\<exists>s' y. f (xs ! i) v = (s', Inr y) \<and> P (Suc i) s' (ws @ [y])"
      by (simp add: nth_append)
  qed
  then obtain t ys where t: "act_traverse f xs s = (t, Inr ys)" "length ys = length xs" "P (length xs) t ys" by blast
  with snoc.prems(2) [of "length xs" ys t] obtain s' y where "f x t = (s', Inr y)" "P (Suc (length xs)) s' (ys @ [y])"
    by (auto simp: nth_append)
  with t show ?case by (auto simp: act_traverse_append act_simps)
qed

lemma act_for_each_append:
  "act_for_each f (xs @ [x]) = act_bind (act_for_each f xs) (\<lambda>_. f x)"
proof (induction xs)
  case Nil
  show ?case by (rule ext) (auto simp: act_bind_def act_return_def split: prod.split sum.split)
next
  case (Cons a xs)
  show ?case by (rule ext) (auto simp: Cons.IH act_bind_def act_return_def split: prod.split sum.split)
qed

lemma act_for_each_invariant:
  assumes "act_for_each f xs s = (t, Inr u)" and "P 0 s"
    and "\<And>i s s'. i < length xs \<Longrightarrow> P i s \<Longrightarrow> f (xs ! i) s = (s', Inr ()) \<Longrightarrow> P (Suc i) s'"
  shows "P (length xs) t"
  using assms
proof (induction xs arbitrary: t u rule: rev_induct)
  case Nil
  then show ?case by (simp add: act_simps)
next
  case (snoc x xs)
  from snoc.prems(1) obtain v where v: "act_for_each f xs s = (v, Inr ())" "f x v = (t, Inr ())"
    by (auto simp: act_for_each_append act_simps)
  have "P (length xs) v"
  proof (rule snoc.IH [OF v(1) snoc.prems(2)])
    fix i w w' assume "i < length xs" "P i w" "f (xs ! i) w = (w', Inr ())"
    with snoc.prems(3) [of i w w'] show "P (Suc i) w'" by (simp add: nth_append)
  qed
  with v snoc.prems(3) [of "length xs" v t] show ?case by (simp add: nth_append)
qed

lemma act_for_each_total:
  assumes "P 0 s"
    and "\<And>i s. i < length xs \<Longrightarrow> P i s \<Longrightarrow> \<exists>s'. f (xs ! i) s = (s', Inr ()) \<and> P (Suc i) s'"
  shows "\<exists>t. act_for_each f xs s = (t, Inr ()) \<and> P (length xs) t"
  using assms
proof (induction xs rule: rev_induct)
  case Nil
  then show ?case by (simp add: act_simps)
next
  case (snoc x xs)
  have "\<exists>t. act_for_each f xs s = (t, Inr ()) \<and> P (length xs) t"
  proof (rule snoc.IH [OF snoc.prems(1)])
    fix i v assume "i < length xs" "P i v"
    with snoc.prems(2) [of i v] show "\<exists>s'. f (xs ! i) v = (s', Inr ()) \<and> P (Suc i) s'" by (simp add: nth_append)
  qed
  then obtain t where t: "act_for_each f xs s = (t, Inr ())" "P (length xs) t" by blast
  with snoc.prems(2) [of "length xs" t] show ?case by (auto simp: nth_append act_for_each_append act_simps)
qed

section \<open>Capabilities, bindings and the trait\<close>

record device_capabilities =
  dc_device :: device_id
  dc_name :: string
  dc_supported_dtypes :: "dtype list"
  dc_max_buffer_bytes :: "usize option"
  dc_max_workgroup_size :: "nat \<times> nat \<times> nat"
  dc_supports_async_execution :: bool

definition supports_dtype :: "device_capabilities \<Rightarrow> dtype \<Rightarrow> bool" where
  "supports_dtype caps dt \<longleftrightarrow> dt \<in> set (dc_supported_dtypes caps)"

datatype buffer_access = ReadOnly | WriteOnly | ReadWrite

record 'b buffer_binding =
  bb_slot :: nat
  bb_buffer :: 'b
  bb_offset_bytes :: usize
  bb_length_bytes :: usize
  bb_access :: buffer_access

text \<open>
  A backend with state \<open>'s\<close>, buffers \<open>'b\<close>, kernels \<open>'k\<close>, streams \<open>'t\<close>, events \<open>'v\<close> and errors \<open>'e\<close>.
  \<open>read\<close> takes the length of the destination slice and returns its new contents.
\<close>

record ('s, 'b, 'k, 't, 'v, 'e) backend =
  be_capabilities :: device_capabilities
  be_allocate :: "usize \<Rightarrow> usize \<Rightarrow> memory_space \<Rightarrow> ('s, 'e, 'b) action"
  be_write :: "'b \<Rightarrow> usize \<Rightarrow> u8 list \<Rightarrow> ('s, 'e, unit) action"
  be_read :: "'b \<Rightarrow> usize \<Rightarrow> usize \<Rightarrow> ('s, 'e, u8 list) action"
  be_compile :: "kernel_module \<Rightarrow> ('s, 'e, 'k) action"
  be_create_stream :: "('s, 'e, 't) action"
  be_launch :: "'k \<Rightarrow> 't \<Rightarrow> launch_config \<Rightarrow> 'b buffer_binding list \<Rightarrow> ('s, 'e, 'v) action"
  be_wait :: "'v \<Rightarrow> ('s, 'e, unit) action"
  be_synchronize :: "'t \<Rightarrow> ('s, 'e, unit) action"

text \<open>The one launch geometry of the Reference format.\<close>

definition canonical_launch_config :: launch_config where
  "canonical_launch_config = \<lparr>grid = (1, 1, 1), block = (1, 1, 1), shared_memory_bytes = 0\<rparr>"

section \<open>Elements as bytes\<close>

text \<open>\<open>as_chunks::<4>()\<close>: the groups of four and the remainder.\<close>

fun as_chunks4 :: "'a list \<Rightarrow> 'a list list \<times> 'a list" where
  "as_chunks4 (a # b # c # d # xs) = (case as_chunks4 xs of (groups, remainder) \<Rightarrow> ([a, b, c, d] # groups, remainder))"
| "as_chunks4 xs = ([], xs)"

definition element_bytes :: "element list \<Rightarrow> u8 list" where
  "element_bytes vs = concat (map u32_le vs)"

definition elements_of :: "u8 list \<Rightarrow> element list" where
  "elements_of bs = map u32_from_le (fst (as_chunks4 bs))"

lemmas length_u32_le [simp] = u32.enc_length

lemma length_element_bytes [simp]: "length (element_bytes vs) = 4 * length vs"
  by (induction vs) (simp_all add: element_bytes_def)

lemma as_chunks4_append: "length g = 4 \<Longrightarrow> as_chunks4 (g @ xs) = (g # fst (as_chunks4 xs), snd (as_chunks4 xs))"
proof -
  assume "length g = 4"
  then obtain a b c d where "g = [a, b, c, d]" by (auto simp: numeral_eq_Suc length_Suc_conv)
  then show ?thesis by (simp split: prod.split)
qed

lemma as_chunks4_bytes: "as_chunks4 (element_bytes vs) = (map u32_le vs, [])"
  by (induction vs) (simp_all add: element_bytes_def as_chunks4_append)

lemma elements_of_bytes [simp]: "elements_of (element_bytes vs) = vs"
  by (simp add: elements_of_def as_chunks4_bytes comp_def u32.dec_enc)

lemma as_chunks4_multiple:
  "length xs = 4 * n \<Longrightarrow> snd (as_chunks4 xs) = [] \<and> length (fst (as_chunks4 xs)) = n \<and>
     concat (fst (as_chunks4 xs)) = xs \<and> (\<forall>g \<in> set (fst (as_chunks4 xs)). length g = 4)"
proof (induction n arbitrary: xs)
  case 0
  then show ?case by simp
next
  case (Suc n)
  have xs: "xs = take 4 xs @ drop 4 xs" and g: "length (take 4 xs) = 4" "length (drop 4 xs) = 4 * n" using Suc.prems by simp_all
  from as_chunks4_append [OF g(1), of "drop 4 xs"] Suc.IH [OF g(2)] g(1) xs show ?case by simp
qed

lemma length_elements_of: "length bs = 4 * n \<Longrightarrow> length (elements_of bs) = n"
  using as_chunks4_multiple [of bs n] by (simp add: elements_of_def)

lemma element_bytes_of: "length bs = 4 * n \<Longrightarrow> element_bytes (elements_of bs) = bs"
proof -
  assume "length bs = 4 * n"
  then have c: "concat (fst (as_chunks4 bs)) = bs" "\<forall>g \<in> set (fst (as_chunks4 bs)). length g = 4"
    using as_chunks4_multiple by blast+
  have "map (\<lambda>g. u32_le (u32_from_le g)) (fst (as_chunks4 bs)) = fst (as_chunks4 bs)"
    by (rule map_idI) (use c(2) in \<open>simp add: u32.enc_dec\<close>)
  then show ?thesis using c(1) by (simp add: element_bytes_def elements_of_def comp_def)
qed

section \<open>The laws of a backend that runs Reference kernels\<close>

text \<open>The bindings of a dispatch: the operands at slots \<open>0, 1, \<dots>\<close>, then the result, each a whole range.\<close>

definition abi_bindings :: "('b \<times> usize) list \<Rightarrow> 'b \<times> usize \<Rightarrow> 'b buffer_binding list" where
  "abi_bindings ins out =
     map (\<lambda>(i, b, n). \<lparr>bb_slot = i, bb_buffer = b, bb_offset_bytes = 0, bb_length_bytes = n, bb_access = ReadOnly\<rparr>)
       (enumerate 0 ins) @
     [\<lparr>bb_slot = length ins, bb_buffer = fst out, bb_offset_bytes = 0, bb_length_bytes = snd out,
       bb_access = WriteOnly\<rparr>]"

definition bound :: "('b \<rightharpoonup> u8 list) \<Rightarrow> 'b \<times> usize \<Rightarrow> bool" where
  "bound bytes p \<longleftrightarrow> (\<exists>bs. bytes (fst p) = Some bs \<and> length bs = snd p)"

definition bound_elements :: "('b \<rightharpoonup> u8 list) \<Rightarrow> 'b \<times> usize \<Rightarrow> element list" where
  "bound_elements bytes p = elements_of (the (bytes (fst p)))"

lemma bound_elements_length: "bound bytes p \<Longrightarrow> snd p = 4 * n \<Longrightarrow> length (bound_elements bytes p) = n"
  by (auto simp: bound_def bound_elements_def length_elements_of)

text \<open>
  What a successful call does: an allocation is fresh and has the requested size, transfers move the
  bytes they say, a compiled kernel computes what its artefact means, and nothing else changes.
\<close>

locale reference_backend =
  fixes B :: "('s, 'b, 'k, 't, 'v, 'e) backend" and bytes_of :: "'s \<Rightarrow> 'b \<rightharpoonup> u8 list"
    and compiled :: "'k \<Rightarrow> artifact \<Rightarrow> bool" and A :: arithmetic
  assumes allocate_law: "be_allocate B n 1 HostMemory s = (s', Inr b) \<Longrightarrow>
      bytes_of s b = None \<and> (\<exists>bs. length bs = n \<and> bytes_of s' = (bytes_of s)(b \<mapsto> bs))"
    and write_law: "be_write B b off data s = (s', Inr ()) \<Longrightarrow> bytes_of s b = Some bs \<Longrightarrow>
      off + length data \<le> length bs \<and>
      bytes_of s' = (bytes_of s)(b \<mapsto> take off bs @ data @ drop (off + length data) bs)"
    and read_law: "be_read B b off n s = (s', Inr data) \<Longrightarrow> bytes_of s b = Some bs \<Longrightarrow>
      bytes_of s' = bytes_of s \<and> off + n \<le> length bs \<and> data = take n (drop off bs)"
    and compile_law: "be_compile B m s = (s', Inr k) \<Longrightarrow> decode (code m) = Inr a \<Longrightarrow>
      bytes_of s' = bytes_of s \<and> compiled k a"
    and stream_law: "be_create_stream B s = (s', Inr st) \<Longrightarrow> bytes_of s' = bytes_of s"
    and launch_law: "compiled k a \<Longrightarrow>
      be_launch B k st canonical_launch_config (abi_bindings ins out) s = (s', Inr ev) \<Longrightarrow>
      \<forall>p \<in> set (out # ins). bound (bytes_of s) p \<Longrightarrow>
      4 * length (kernel_spec A a (map (bound_elements (bytes_of s)) ins)) = snd out \<and>
      bytes_of s' = (bytes_of s)
        (fst out \<mapsto> element_bytes (kernel_spec A a (map (bound_elements (bytes_of s)) ins)))"
    and wait_law: "be_wait B ev s = (s', Inr ()) \<Longrightarrow> bytes_of s' = bytes_of s"
    and synchronize_law: "be_synchronize B st s = (s', Inr ()) \<Longrightarrow> bytes_of s' = bytes_of s"

text \<open>When a call succeeds: \<open>grants n\<close> says that a request for \<open>n\<close> bytes is met.\<close>

locale progressing_backend = reference_backend B bytes_of compiled A
  for B :: "('s, 'b, 'k, 't, 'v, 'e) backend" and bytes_of compiled A +
  fixes ready :: "'s \<Rightarrow> bool" and grants :: "usize \<Rightarrow> bool"
  assumes allocate_ok: "ready s \<Longrightarrow> grants n \<Longrightarrow>
      \<exists>s' b. be_allocate B n 1 HostMemory s = (s', Inr b) \<and> ready s'"
    and write_ok: "ready s \<Longrightarrow> bytes_of s b = Some bs \<Longrightarrow> length bs \<le> usize_max \<Longrightarrow> off + length data \<le> length bs \<Longrightarrow>
      \<exists>s'. be_write B b off data s = (s', Inr ()) \<and> ready s'"
    and read_ok: "ready s \<Longrightarrow> bytes_of s b = Some bs \<Longrightarrow> length bs \<le> usize_max \<Longrightarrow> off + n \<le> length bs \<Longrightarrow>
      \<exists>s' data. be_read B b off n s = (s', Inr data) \<and> ready s'"
    and compile_ok: "ready s \<Longrightarrow> from_kernel_module m = Inr p \<Longrightarrow>
      \<exists>s' k. be_compile B m s = (s', Inr k) \<and> ready s'"
    and stream_ok: "ready s \<Longrightarrow> \<exists>s' st. be_create_stream B s = (s', Inr st) \<and> ready s'"
    and launch_ok: "ready s \<Longrightarrow> compiled k a \<Longrightarrow> batch_fits a \<Longrightarrow>
      \<forall>p \<in> set (out # ins). bound (bytes_of s) p \<and> snd p \<le> usize_max \<Longrightarrow>
      map snd ins = map (\<lambda>l. 4 * element_count l) (ra_operands a) \<Longrightarrow>
      snd out = 4 * element_count (ra_result a) \<Longrightarrow>
      \<exists>s' ev. be_launch B k st canonical_launch_config (abi_bindings ins out) s = (s', Inr ev) \<and> ready s'"
    and wait_ok: "ready s \<Longrightarrow> \<exists>s'. be_wait B ev s = (s', Inr ()) \<and> ready s'"
    and synchronize_ok: "ready s \<Longrightarrow> \<exists>s'. be_synchronize B st s = (s', Inr ()) \<and> ready s'"

end
