(* ===== verification/Cpu_Backend.thy ===== *)
theory Cpu_Backend
  imports Compute_Backend
begin

text \<open>
  The CPU backend of \<open>scirust-gpu\<close>: the adapter that implements \<open>ComputeBackend\<close>
  (\<open>compute_adapter.rs\<close>) and the launch path of Reference kernels (\<open>cpu_reference.rs\<close>). The state
  is the heap of the buffers, a buffer is a position of it; each cell keeps the borrow flag of its
  \<open>RefCell\<close>. The host allocator is a parameter. Errors that the source renders into a message are
  kept as values: a launch failure stands for its own rendering.
\<close>

section \<open>Buffers, kernels and errors\<close>

datatype borrow_flag = Unborrowed | SharedBorrow | MutableBorrow

record cpu_buffer =
  cb_bytes :: "u8 list"
  cb_borrow :: borrow_flag
  cb_alignment :: usize
  cb_memory_space :: memory_space

type_synonym cpu_heap = "cpu_buffer list"

record cpu_kernel =
  ck_module :: kernel_module
  ck_prepared :: prepared_kernel

datatype cpu_launch_error =
    InvalidBindingCount usize usize
  | DuplicateBindingSlot nat
  | MissingBindingSlot nat
  | UnexpectedBindingSlot nat nat
  | InvalidOperandAccess nat buffer_access
  | InvalidOutputAccess nat buffer_access
  | MisalignedOffset nat usize
  | MisalignedLength nat usize
  | BindingLengthMismatch nat usize usize
  | BufferRangeOverflow nat
  | BufferOutOfBounds nat usize usize
  | BufferBorrowConflict nat
  | LaunchElementCountOverflow nat
  | InvalidLaunchConfig "nat \<times> nat \<times> nat" "nat \<times> nat \<times> nat" nat
  | MalformedElementBytes nat
  | InvalidReferenceKernel execution_error

datatype cpu_error =
    CpuFailed compute_error
  | CpuCompilation execution_error
  | CpuLaunch cpu_launch_error

abbreviation f32_bytes :: usize where "f32_bytes \<equiv> 4"

text \<open>\<open>RefCell::try_borrow\<close> and \<open>try_borrow_mut\<close>, for the length of one operation.\<close>

definition try_borrow :: "'e \<Rightarrow> cpu_heap \<Rightarrow> nat \<Rightarrow> ('e, u8 list) outcome" where
  "try_borrow e heap b =
     try_bind (idx heap b) (\<lambda>cell. if cb_borrow cell = MutableBorrow then fail e else Inr (cb_bytes cell))"

definition try_borrow_mut :: "'e \<Rightarrow> cpu_heap \<Rightarrow> nat \<Rightarrow> ('e, u8 list) outcome" where
  "try_borrow_mut e heap b =
     try_bind (idx heap b) (\<lambda>cell. if cb_borrow cell \<noteq> Unborrowed then fail e else Inr (cb_bytes cell))"

definition set_bytes :: "cpu_heap \<Rightarrow> nat \<Rightarrow> u8 list \<Rightarrow> cpu_heap" where
  "set_bytes heap b bytes = heap[b := (heap ! b)\<lparr>cb_bytes := bytes\<rparr>]"

section \<open>Launching a Reference kernel\<close>

definition slot_index_as_u32 :: "usize \<Rightarrow> nat" where
  "slot_index_as_u32 i = (case u32_try_from i of Some w \<Rightarrow> w | None \<Rightarrow> u32_range - 1)"

definition validate_launch_config :: "launch_config \<Rightarrow> (cpu_launch_error, unit) outcome" where
  "validate_launch_config config =
     (if grid config \<noteq> (1, 1, 1) \<or> block config \<noteq> (1, 1, 1) \<or> shared_memory_bytes config \<noteq> 0
      then fail (InvalidLaunchConfig (grid config) (block config) (shared_memory_bytes config))
      else Inr ())"

definition place_binding ::
  "nat \<Rightarrow> nat buffer_binding option list \<Rightarrow> nat buffer_binding
     \<Rightarrow> (cpu_launch_error, nat buffer_binding option list) outcome" where
  "place_binding highest slots binding =
     try_bind (ok_or (UnexpectedBindingSlot (bb_slot binding) highest) (get slots (bb_slot binding))) (\<lambda>entry.
     if entry \<noteq> None then fail (DuplicateBindingSlot (bb_slot binding))
     else Inr (slots[bb_slot binding := Some binding]))"

definition resolve_bindings ::
  "usize \<Rightarrow> nat buffer_binding list \<Rightarrow> (cpu_launch_error, nat buffer_binding list) outcome" where
  "resolve_bindings arity bindings =
     try_bind (ok_or (InvalidBindingCount usize_max (length bindings)) (checked_add arity 1)) (\<lambda>expected.
     if length bindings \<noteq> expected then fail (InvalidBindingCount expected (length bindings))
     else
       try_bind (try_fold (place_binding (slot_index_as_u32 arity)) (replicate expected None) bindings) (\<lambda>slots.
       traverse (\<lambda>(index, entry). ok_or (MissingBindingSlot (slot_index_as_u32 index)) entry) (enumerate 0 slots)))"

definition validate_binding_range ::
  "cpu_heap \<Rightarrow> nat buffer_binding \<Rightarrow> usize \<Rightarrow> (cpu_launch_error, usize) outcome" where
  "validate_binding_range heap binding elements =
     (let slot = bb_slot binding in
      try_bind (require (bb_offset_bytes binding mod f32_bytes = 0) (MisalignedOffset slot (bb_offset_bytes binding))) (\<lambda>_.
      try_bind (require (bb_length_bytes binding mod f32_bytes = 0) (MisalignedLength slot (bb_length_bytes binding))) (\<lambda>_.
      try_bind (ok_or (LaunchElementCountOverflow slot) (checked_mul elements f32_bytes)) (\<lambda>expected.
      try_bind (require (\<not> bb_length_bytes binding \<noteq> expected)
                  (BindingLengthMismatch slot expected (bb_length_bytes binding))) (\<lambda>_.
      try_bind (ok_or (BufferRangeOverflow slot)
                  (checked_add (bb_offset_bytes binding) (bb_length_bytes binding))) (\<lambda>end_bytes.
      try_bind (try_borrow (BufferBorrowConflict slot) heap (bb_buffer binding)) (\<lambda>bytes.
      if end_bytes > length bytes then fail (BufferOutOfBounds slot end_bytes (length bytes))
      else Inr end_bytes)))))))"

text \<open>\<open>bytes.get(a..b)\<close>\<close>

definition get_range :: "'a list \<Rightarrow> usize \<Rightarrow> usize \<Rightarrow> 'a list option" where
  "get_range xs a b = (if a \<le> b \<and> b \<le> length xs then Some (take (b - a) (drop a xs)) else None)"

definition read_operand ::
  "cpu_heap \<Rightarrow> nat buffer_binding \<Rightarrow> usize \<Rightarrow> (cpu_launch_error, element list) outcome" where
  "read_operand heap binding elements =
     (let slot = bb_slot binding in
      try_bind (validate_binding_range heap binding elements) (\<lambda>end_bytes.
      try_bind (try_borrow (BufferBorrowConflict slot) heap (bb_buffer binding)) (\<lambda>bytes.
      try_bind (ok_or (BufferOutOfBounds slot end_bytes (length bytes))
                  (get_range bytes (bb_offset_bytes binding) end_bytes)) (\<lambda>range.
      case as_chunks4 range of (groups, remainder) \<Rightarrow>
        if remainder \<noteq> [] then fail (MalformedElementBytes slot)
        else Inr (map u32_from_le groups)))))"

definition write_result ::
  "nat buffer_binding \<Rightarrow> element list \<Rightarrow> (cpu_heap, cpu_launch_error, unit) action" where
  "write_result binding vs =
     (let slot = bb_slot binding; start = bb_offset_bytes binding in
      act_bind (\<lambda>heap. act_lift (
          try_bind (validate_binding_range heap binding (length vs)) (\<lambda>end_bytes.
          try_bind (try_borrow_mut (BufferBorrowConflict slot) heap (bb_buffer binding)) (\<lambda>bytes.
          try_bind (ok_or (BufferOutOfBounds slot end_bytes (length bytes)) (get_range bytes start end_bytes)) (\<lambda>range.
          case as_chunks4 range of (groups, remainder) \<Rightarrow>
            if remainder \<noteq> [] then fail (MalformedElementBytes slot) else Inr (bytes, end_bytes, groups))))) heap)
        (\<lambda>(bytes, end_bytes, groups) heap.
          (let written = map u32_le (take (length groups) vs) @ drop (length vs) groups in
           (set_bytes heap (bb_buffer binding) (take start bytes @ concat written @ drop end_bytes bytes), Inr ()))))"

definition validate_binding ::
  "cpu_heap \<Rightarrow> prepared_kernel \<Rightarrow> usize \<times> nat buffer_binding \<Rightarrow> (cpu_launch_error, unit) outcome" where
  "validate_binding heap prepared p = (case p of (slot_index, binding) \<Rightarrow>
     (let (elements, is_operand) =
        (case get (pk_operand_lengths prepared) slot_index of
           Some elements \<Rightarrow> (elements, True)
         | None \<Rightarrow> (pk_result_length prepared, False)) in
      try_bind
        (if is_operand then
           require (\<not> bb_access binding \<noteq> ReadOnly) (InvalidOperandAccess (bb_slot binding) (bb_access binding))
         else
           require (\<not> bb_access binding \<noteq> WriteOnly) (InvalidOutputAccess (bb_slot binding) (bb_access binding))) (\<lambda>_.
      try_bind (validate_binding_range heap binding elements) (\<lambda>_. Inr ()))))"

definition launch_reference_kernel ::
  "arithmetic \<Rightarrow> prepared_kernel \<Rightarrow> launch_config \<Rightarrow> nat buffer_binding list
     \<Rightarrow> (cpu_heap, cpu_launch_error, unit) action" where
  "launch_reference_kernel A prepared config bindings heap =
     (let operand_lengths = pk_operand_lengths prepared; arity = length operand_lengths in
      act_bind (act_lift (
        try_bind (validate_launch_config config) (\<lambda>_.
        try_bind (resolve_bindings arity bindings) (\<lambda>resolved.
        try_bind (for_each (validate_binding heap prepared) (enumerate 0 resolved)) (\<lambda>_.
        try_bind (traverse (\<lambda>(slot_index, elements).
            try_bind (ok_or (MissingBindingSlot (slot_index_as_u32 slot_index)) (get resolved slot_index)) (\<lambda>binding.
            read_operand heap binding elements)) (enumerate 0 operand_lengths)) (\<lambda>operands.
        case execute_kernel A prepared operands (replicate (pk_result_length prepared) 0) of
          (_, Inl (Err e)) \<Rightarrow> fail (InvalidReferenceKernel e)
        | (_, Inl Panic) \<Rightarrow> Inl Panic
        | (out, Inr _) \<Rightarrow>
            try_bind (ok_or (MissingBindingSlot (slot_index_as_u32 arity)) (get resolved arity))
              (\<lambda>result_binding. Inr (result_binding, out))))))))
        (\<lambda>(result_binding, out). write_result result_binding out) heap)"

section \<open>The adapter\<close>

definition cpu_capabilities :: device_capabilities where
  "cpu_capabilities =
     \<lparr>dc_device = \<lparr>dev_kind = DevCpu, dev_ordinal = 0\<rparr>, dc_name = ''scirust-gpu-cpu'',
      dc_supported_dtypes = [F32], dc_max_buffer_bytes = None, dc_max_workgroup_size = (1, 1, 1),
      dc_supports_async_execution = False\<rparr>"

text \<open>The host allocator: why a reservation fails, given the heap.\<close>

type_synonym host_allocator = "cpu_heap \<Rightarrow> usize \<Rightarrow> string option"

definition cpu_allocate ::
  "host_allocator \<Rightarrow> usize \<Rightarrow> usize \<Rightarrow> memory_space \<Rightarrow> (cpu_heap, cpu_error, nat) action" where
  "cpu_allocate reserve bytes alignment space heap =
     (if alignment = 0 then (heap, fail (CpuFailed (InvalidArgument ''buffer alignment must be non-zero'')))
      else if alignment \<noteq> 1
      then (heap, fail (CpuFailed (Unsupported ''CPU adapter currently supports byte alignment only'')))
      else if space \<noteq> HostMemory
      then (heap, fail (CpuFailed (Unsupported ''CPU adapter supports host memory only'')))
      else
        case reserve heap bytes of
          Some error \<Rightarrow> (heap, fail (CpuFailed (Allocation error)))
        | None \<Rightarrow>
            (heap @ [\<lparr>cb_bytes = replicate bytes 0, cb_borrow = Unborrowed, cb_alignment = alignment,
                      cb_memory_space = space\<rparr>], Inr (length heap)))"

definition cpu_write :: "nat \<Rightarrow> usize \<Rightarrow> u8 list \<Rightarrow> (cpu_heap, cpu_error, unit) action" where
  "cpu_write destination offset_bytes data =
     act_bind (\<lambda>heap. act_lift (
         try_bind (ok_or (CpuFailed (Transfer ''write range overflow'')) (checked_add offset_bytes (length data))) (\<lambda>end_bytes.
         try_bind (try_borrow_mut (CpuFailed (Transfer ''buffer is already borrowed'')) heap destination) (\<lambda>bytes.
         if end_bytes > length bytes then fail (CpuFailed (Transfer ''write exceeds buffer bounds''))
         else Inr (take offset_bytes bytes @ data @ drop end_bytes bytes)))) heap)
       (\<lambda>bytes heap. (set_bytes heap destination bytes, Inr ()))"

definition cpu_read :: "nat \<Rightarrow> usize \<Rightarrow> usize \<Rightarrow> (cpu_heap, cpu_error, u8 list) action" where
  "cpu_read source offset_bytes len heap =
     act_lift (try_bind (ok_or (CpuFailed (Transfer ''read range overflow'')) (checked_add offset_bytes len)) (\<lambda>end_bytes.
       try_bind (try_borrow (CpuFailed (Transfer ''buffer is mutably borrowed'')) heap source) (\<lambda>bytes.
       if end_bytes > length bytes then fail (CpuFailed (Transfer ''read exceeds buffer bounds''))
       else Inr (take (end_bytes - offset_bytes) (drop offset_bytes bytes))))) heap"

definition cpu_compile :: "kernel_module \<Rightarrow> (cpu_heap, cpu_error, cpu_kernel) action" where
  "cpu_compile m =
     act_lift (if km_format m \<noteq> ReferenceFormat
       then fail (CpuFailed (Unsupported ''CPU adapter accepts reference kernels only''))
       else
         try_bind (map_err CpuCompilation (from_kernel_module m)) (\<lambda>prepared.
         Inr \<lparr>ck_module = m, ck_prepared = prepared\<rparr>))"

definition cpu_launch ::
  "arithmetic \<Rightarrow> cpu_kernel \<Rightarrow> unit \<Rightarrow> launch_config \<Rightarrow> nat buffer_binding list \<Rightarrow> (cpu_heap, cpu_error, unit) action" where
  "cpu_launch A kern stream config bindings =
     act_bind (act_map_err CpuLaunch (launch_reference_kernel A (ck_prepared kern) config bindings)) (\<lambda>_. act_return ())"

definition cpu_backend ::
  "host_allocator \<Rightarrow> arithmetic \<Rightarrow> (cpu_heap, nat, cpu_kernel, unit, unit, cpu_error) backend" where
  "cpu_backend reserve A =
     \<lparr>be_capabilities = cpu_capabilities, be_allocate = cpu_allocate reserve, be_write = cpu_write,
      be_read = cpu_read, be_compile = cpu_compile, be_create_stream = act_return (),
      be_launch = cpu_launch A, be_wait = (\<lambda>_. act_return ()), be_synchronize = (\<lambda>_. act_return ())\<rparr>"

end
