(* ===== verification/Cpu_Correct.thy ===== *)
theory Cpu_Correct
  imports Cpu_Backend
begin

text \<open>
  The CPU backend keeps the contract: every law of \<open>reference_backend\<close>, and every call of a
  well-formed request succeeds when no buffer is borrowed and the allocator grants the memory. A
  launch that fails leaves every buffer as it was.
\<close>

section \<open>The bytes of the heap\<close>

definition cpu_bytes :: "cpu_heap \<Rightarrow> nat \<rightharpoonup> u8 list" where
  "cpu_bytes heap b = map_option cb_bytes (get heap b)"

definition cpu_compiled :: "cpu_kernel \<Rightarrow> artifact \<Rightarrow> bool" where
  "cpu_compiled k a \<longleftrightarrow> artifact_ok a \<and> from_artifact a = Inr (ck_prepared k)"

definition cpu_ready :: "cpu_heap \<Rightarrow> bool" where
  "cpu_ready heap \<longleftrightarrow> (\<forall>cell \<in> set heap. cb_borrow cell = Unborrowed)"

definition cpu_grants :: "host_allocator \<Rightarrow> usize \<Rightarrow> bool" where
  "cpu_grants reserve n \<longleftrightarrow> (\<forall>heap. reserve heap n = None)"

lemma cpu_bytes_Some [simp]: "cpu_bytes heap b = Some bs \<longleftrightarrow> b < length heap \<and> cb_bytes (heap ! b) = bs"
  by (auto simp: cpu_bytes_def)

lemma cpu_bytes_append: "cpu_bytes (heap @ [cell]) = (cpu_bytes heap)(length heap \<mapsto> cb_bytes cell)"
  by (rule ext) (auto simp: cpu_bytes_def get_def nth_append)

lemma cpu_bytes_set: "b < length heap \<Longrightarrow> cpu_bytes (set_bytes heap b bs) = (cpu_bytes heap)(b \<mapsto> bs)"
  by (rule ext) (auto simp: cpu_bytes_def get_def set_bytes_def)

lemma set_bytes_ready: "cpu_ready heap \<Longrightarrow> b < length heap \<Longrightarrow> cpu_ready (set_bytes heap b bs)"
  by (auto simp: cpu_ready_def set_bytes_def dest: set_update_subset_insert [THEN subsetD])

lemma ready_borrow: "cpu_ready heap \<Longrightarrow> b < length heap \<Longrightarrow> cb_borrow (heap ! b) = Unborrowed"
  by (simp add: cpu_ready_def)

lemma try_borrow_Inr [simp]:
  "try_borrow e heap b = Inr bs \<longleftrightarrow> b < length heap \<and> cb_borrow (heap ! b) \<noteq> MutableBorrow \<and> bs = cb_bytes (heap ! b)"
  by (auto simp: try_borrow_def outcome_simps)

lemma try_borrow_mut_Inr [simp]:
  "try_borrow_mut e heap b = Inr bs \<longleftrightarrow> b < length heap \<and> cb_borrow (heap ! b) = Unborrowed \<and> bs = cb_bytes (heap ! b)"
  by (auto simp: try_borrow_mut_def outcome_simps)

section \<open>Bindings that cover a whole buffer\<close>

definition whole :: "cpu_heap \<Rightarrow> nat buffer_binding \<Rightarrow> bool" where
  "whole heap bd \<longleftrightarrow> bb_offset_bytes bd = 0 \<and> bb_buffer bd < length heap \<and>
     bb_length_bytes bd = length (cb_bytes (heap ! bb_buffer bd))"

definition readable_cell :: "cpu_heap \<Rightarrow> nat buffer_binding \<Rightarrow> bool" where
  "readable_cell heap bd \<longleftrightarrow> cb_borrow (heap ! bb_buffer bd) \<noteq> MutableBorrow"

lemma validate_whole:
  assumes "whole heap bd"
  shows "validate_binding_range heap bd n = Inr e \<longleftrightarrow>
    readable_cell heap bd \<and> bb_length_bytes bd = 4 * n \<and> 4 * n \<le> usize_max \<and> e = 4 * n"
  using assms by (auto simp: validate_binding_range_def whole_def readable_cell_def outcome_simps Let_def mult.commute)

lemma read_whole:
  assumes "whole heap bd"
  shows "read_operand heap bd n = Inr vs \<longleftrightarrow>
    readable_cell heap bd \<and> bb_length_bytes bd = 4 * n \<and> 4 * n \<le> usize_max \<and>
    vs = elements_of (cb_bytes (heap ! bb_buffer bd))"
  using assms as_chunks4_multiple [of "cb_bytes (heap ! bb_buffer bd)" n]
  by (auto simp: read_operand_def outcome_simps Let_def validate_whole get_range_def whole_def readable_cell_def
      elements_of_def split: prod.splits if_splits)

lemma write_whole:
  assumes "whole heap bd"
  shows "write_result bd vs heap = (heap', Inr ()) \<longleftrightarrow>
    cb_borrow (heap ! bb_buffer bd) = Unborrowed \<and> bb_length_bytes bd = 4 * length vs \<and> 4 * length vs \<le> usize_max \<and>
    heap' = set_bytes heap (bb_buffer bd) (element_bytes vs)"
proof -
  have "concat (map u32_le (take (length g) vs) @ drop (length vs) g) = element_bytes vs"
    if "length g = length vs" for g using that by (simp add: element_bytes_def)
  then show ?thesis
    using assms as_chunks4_multiple [of "cb_bytes (heap ! bb_buffer bd)" "length vs"]
    by (auto simp: write_result_def act_simps outcome_simps Let_def validate_whole get_range_def whole_def
      readable_cell_def split: prod.splits if_splits)
qed

lemma resolve_in_order:
  assumes "length bs = Suc n" and "Suc n \<le> usize_max" and "\<forall>i < Suc n. bb_slot (bs ! i) = i"
  shows "resolve_bindings n bs = Inr bs"
proof -
  let ?inv = "\<lambda>i slots. slots = map Some (take i bs) @ replicate (Suc n - i) None"
  have "\<exists>slots. try_fold (place_binding (slot_index_as_u32 n)) (replicate (Suc n) None) bs = Inr slots \<and> ?inv (length bs) slots"
  proof (rule try_fold_total [where P = ?inv])
    show "?inv 0 (replicate (Suc n) None)" by simp
    fix i slots assume i: "i < length bs" and inv: "?inv i slots"
    then have "slots ! i = None" "i < length slots" using assms(1) by (simp_all add: nth_append)
    moreover have "(replicate (Suc (n - i)) None)[0 := Some (bs ! i)] = Some (bs ! i) # replicate (n - i) None" by simp
    then have "slots[i := Some (bs ! i)] = map Some (take (Suc i) bs) @ replicate (Suc n - Suc i) None"
      using i inv assms(1) by (simp add: take_Suc_conv_app_nth list_update_append Suc_diff_le del: replicate_Suc)
    ultimately show "\<exists>s'. place_binding (slot_index_as_u32 n) slots (bs ! i) = Inr s' \<and> ?inv (Suc i) s'"
      using assms i by (simp add: place_binding_def get_def)
  qed
  moreover have "traverse (\<lambda>(index, entry). ok_or (MissingBindingSlot (slot_index_as_u32 index)) entry) (enumerate 0 (map Some bs)) = Inr bs"
    by (simp add: traverse_Inr)
  ultimately show ?thesis using assms by (simp add: resolve_bindings_def)
qed

section \<open>One launch\<close>

lemma kernel_spec_length:
  assumes ok: "artifact_ok a" and prep: "preparation_error a = None" and sized: "invocation_sized a operands out"
  shows "length (kernel_spec A a operands) = element_count (ra_result a)"
proof -
  have out: "length out = element_count (ra_result a)" using sized by (simp add: invocation_sized_def)
  consider "ra_opcode a \<in> {OpRelu, OpZerosLike, OpOnesLike, OpScale, OpShapeCopy}"
    | "ra_opcode a \<in> {OpAdd, OpSub, OpMul, OpDiv}" | "ra_opcode a = OpPermute" | "ra_opcode a \<in> {OpMatMul, OpBatchMatMul}"
    using prep by (cases "ra_opcode a") (simp_all add: preparation_error_def)
  then show ?thesis
  proof cases
    case 1
    have "ra_opcode a = OpScale \<Longrightarrow> \<exists>b. ra_attributes a = ScaleAttributes b"
      using ok by (cases "ra_attributes a") (auto simp: artifact_ok_def)
    with sized_unary [OF ok sized 1] 1 show ?thesis by (fastforce simp: kernel_spec_def)
  next
    case 2
    with sized_binary [OF ok sized 2] out show ?thesis by (fastforce simp: kernel_spec_def)
  next
    case 3
    from permute_operands [OF ok 3] obtain l axes where l: "ra_operands a = [l]" "ra_attributes a = PermuteAttributes axes"
      "layout_ok l" "layout_ok (ra_result a)" "axes_ok (map unat axes) (nat_dims l)"
      "nat_dims (ra_result a) = permuted (map unat axes) (nat_dims l)" .
    then have "prod_list (nat_dims l) = element_count (ra_result a)" by (simp add: element_count_dims prod_permuted)
    with 3 l show ?thesis by (simp add: kernel_spec_def permute_spec_def)
  next
    case 4
    from sized_matrix [OF ok sized 4] obtain x y where "operands = [x, y]" "matrices_sized (matrix_plan_of a) x y out" by metis
    with 4 out show ?thesis by (auto simp: kernel_spec_def matrix_spec_def matrices_sized_def)
  qed
qed

lemma abi_bindings_nth:
  "length (abi_bindings ins out) = Suc (length ins)"
  "i < length ins \<Longrightarrow> abi_bindings ins out ! i = \<lparr>bb_slot = i, bb_buffer = fst (ins ! i), bb_offset_bytes = 0,
     bb_length_bytes = snd (ins ! i), bb_access = ReadOnly\<rparr>"
  "abi_bindings ins out ! length ins = \<lparr>bb_slot = length ins, bb_buffer = fst out, bb_offset_bytes = 0,
     bb_length_bytes = snd out, bb_access = WriteOnly\<rparr>"
  by (auto simp: abi_bindings_def nth_append split: prod.split)

lemma abi_whole:
  assumes "\<forall>p \<in> set (out # ins). bound (cpu_bytes heap) p" and "i \<le> length ins"
  shows "whole heap (abi_bindings ins out ! i)"
proof (cases "i = length ins")
  case True
  with assms show ?thesis by (auto simp: whole_def bound_def abi_bindings_nth)
next
  case False
  with assms have "i < length ins" "bound (cpu_bytes heap) (ins ! i)" by simp_all
  then show ?thesis by (auto simp: whole_def bound_def abi_bindings_nth)
qed

text \<open>
  A launch on the bindings of a dispatch: it succeeds exactly when the lengths are those of the
  artefact, no cell is borrowed in the way and the matrix sizes are representable, and then the
  result buffer holds the value of the kernel.
\<close>

definition launchable :: "cpu_heap \<Rightarrow> artifact \<Rightarrow> (nat \<times> usize) list \<Rightarrow> nat \<times> usize \<Rightarrow> bool" where
  "launchable heap a ins out \<longleftrightarrow>
     map snd ins = map (\<lambda>l. 4 * element_count l) (ra_operands a) \<and> snd out = 4 * element_count (ra_result a) \<and>
     (\<forall>p \<in> set (out # ins). snd p \<le> usize_max \<and> cb_borrow (heap ! fst p) \<noteq> MutableBorrow) \<and>
     cb_borrow (heap ! fst out) = Unborrowed \<and> batch_fits a"

lemma artifact_arity: "artifact_ok a \<Longrightarrow> length (ra_operands a) \<le> 2"
  by (cases "ra_opcode a") (simp_all add: artifact_ok_def)

lemma launch_validated:
  assumes ok: "artifact_ok a" and bnd: "\<forall>p \<in> set (out # ins). bound (cpu_bytes heap) p"
    and len: "length ins = length (ra_operands a)"
  shows "for_each (validate_binding heap (prepared_of a)) (enumerate 0 (abi_bindings ins out)) = Inr () \<longleftrightarrow>
    (\<forall>i < length ins. readable_cell heap (abi_bindings ins out ! i) \<and> snd (ins ! i) = 4 * element_count (ra_operands a ! i) \<and>
       snd (ins ! i) \<le> usize_max) \<and>
    readable_cell heap (abi_bindings ins out ! length ins) \<and> snd out = 4 * element_count (ra_result a) \<and> snd out \<le> usize_max"
proof -
  let ?bd = "\<lambda>i. abi_bindings ins out ! i"
  have operand: "validate_binding heap (prepared_of a) (i, ?bd i) = Inr () \<longleftrightarrow>
      readable_cell heap (?bd i) \<and> snd (ins ! i) = 4 * element_count (ra_operands a ! i) \<and> snd (ins ! i) \<le> usize_max"
    if i: "i < length ins" for i
    using i len abi_bindings_nth(2) [OF i, of out] validate_whole [OF abi_whole [OF bnd], of i]
    by (auto simp: validate_binding_def prepared_of_def get_def outcome_simps)
  have result: "validate_binding heap (prepared_of a) (length ins, ?bd (length ins)) = Inr () \<longleftrightarrow>
      readable_cell heap (?bd (length ins)) \<and> snd out = 4 * element_count (ra_result a) \<and> snd out \<le> usize_max"
    using len abi_bindings_nth(3) [of ins out] validate_whole [OF abi_whole [OF bnd], of "length ins"]
    by (auto simp: validate_binding_def prepared_of_def get_def outcome_simps)
  have "(\<forall>i < Suc (length ins). validate_binding heap (prepared_of a) (i, ?bd i) = Inr ()) \<longleftrightarrow>
      (\<forall>i < length ins. readable_cell heap (?bd i) \<and> snd (ins ! i) = 4 * element_count (ra_operands a ! i) \<and>
         snd (ins ! i) \<le> usize_max) \<and>
      readable_cell heap (?bd (length ins)) \<and> snd out = 4 * element_count (ra_result a) \<and> snd out \<le> usize_max"
    unfolding all_less_Suc result using operand by blast
  then show ?thesis by (simp add: outcome_simps ball_enumerate0 abi_bindings_nth(1))
qed

lemma launch_operands:
  assumes bnd: "\<forall>p \<in> set (out # ins). bound (cpu_bytes heap) p" and len: "length ins = length lens"
    and sizes: "\<forall>i < length ins. readable_cell heap (abi_bindings ins out ! i) \<and> snd (ins ! i) = 4 * lens ! i \<and>
       snd (ins ! i) \<le> usize_max"
  shows "traverse (\<lambda>(slot_index, elements).
      try_bind (ok_or (MissingBindingSlot (slot_index_as_u32 slot_index)) (get (abi_bindings ins out) slot_index)) (\<lambda>binding.
      read_operand heap binding elements)) (enumerate 0 lens) = Inr (map (bound_elements (cpu_bytes heap)) ins)"
proof -
  have "read_operand heap (abi_bindings ins out ! i) (lens ! i) = Inr (bound_elements (cpu_bytes heap) (ins ! i))"
    if i: "i < length ins" for i
  proof -
    have "bound (cpu_bytes heap) (ins ! i)" using bnd i by simp
    then show ?thesis
      using sizes [rule_format, OF i] read_whole [OF abi_whole [OF bnd], of i] i abi_bindings_nth(2) [OF i, of out]
      by (auto simp: bound_def bound_elements_def cpu_bytes_def get_def)
  qed
  then show ?thesis using len by (simp add: traverse_Inr abi_bindings_nth(1) get_def)
qed

lemma launch_eq:
  assumes ok: "artifact_ok a" and prep: "preparation_error a = None"
    and bnd: "\<forall>p \<in> set (out # ins). bound (cpu_bytes heap) p" and len: "length ins = length (ra_operands a)"
  shows "launch_reference_kernel A (prepared_of a) canonical_launch_config (abi_bindings ins out) heap = (heap', Inr ()) \<longleftrightarrow>
    launchable heap a ins out \<and>
    heap' = set_bytes heap (fst out) (element_bytes (kernel_spec A a (map (bound_elements (cpu_bytes heap)) ins)))"
    (is "?run = _ \<longleftrightarrow> ?ok \<and> heap' = ?heap")
proof -
  let ?bds = "abi_bindings ins out" and ?p = "prepared_of a" and ?xs = "map (bound_elements (cpu_bytes heap)) ins"
  have resolved: "resolve_bindings (length ins) ?bds = Inr ?bds"
  proof (rule resolve_in_order)
    show "Suc (length ins) \<le> usize_max" using artifact_arity [OF ok] len by simp
    show "\<forall>i < Suc (length ins). bb_slot (?bds ! i) = i" by (simp add: all_less_Suc abi_bindings_nth)
  qed (simp add: abi_bindings_nth)
  have arity: "length (pk_operand_lengths ?p) = length ins" "pk_operand_lengths ?p = map element_count (ra_operands a)"
    "pk_result_length ?p = element_count (ra_result a)" using len by (simp_all add: prepared_of_def)
  note valid = launch_validated [OF ok bnd len]
  have readable: "readable_cell heap (?bds ! i) \<longleftrightarrow> cb_borrow (heap ! fst (ins ! i)) \<noteq> MutableBorrow" if "i < length ins" for i
    using that by (simp add: readable_cell_def abi_bindings_nth)
  have last: "readable_cell heap (?bds ! length ins) \<longleftrightarrow> cb_borrow (heap ! fst out) \<noteq> MutableBorrow"
    by (simp add: readable_cell_def abi_bindings_nth)
  have run: "launch_reference_kernel A ?p canonical_launch_config ?bds heap = (heap', Inr ()) \<longleftrightarrow>
      for_each (validate_binding heap ?p) (enumerate 0 ?bds) = Inr () \<and>
      (\<exists>vs. execute_kernel A ?p ?xs (replicate (element_count (ra_result a)) 0) = (vs, Inr ()) \<and>
         write_result (?bds ! length ins) vs heap = (heap', Inr ()))" (is "_ \<longleftrightarrow> ?valid \<and> ?write")
  proof (cases ?valid)
    case True
    then have "traverse (\<lambda>(slot_index, elements).
        try_bind (ok_or (MissingBindingSlot (slot_index_as_u32 slot_index)) (get ?bds slot_index)) (\<lambda>binding.
        read_operand heap binding elements)) (enumerate 0 (map element_count (ra_operands a))) = Inr ?xs"
      unfolding valid by (intro launch_operands [OF bnd]) (use len in auto)
    then have "launch_reference_kernel A ?p canonical_launch_config ?bds heap =
        act_bind (act_lift (case execute_kernel A ?p ?xs (replicate (element_count (ra_result a)) 0) of
            (_, Inl (Err e)) \<Rightarrow> fail (InvalidReferenceKernel e)
          | (_, Inl Panic) \<Rightarrow> Inl Panic
          | (vs, Inr _) \<Rightarrow> Inr (?bds ! length ins, vs)))
          (\<lambda>(result_binding, out). write_result result_binding out) heap"
      using True unfolding launch_reference_kernel_def Let_def arity
      by (simp add: validate_launch_config_def canonical_launch_config_def resolved len [symmetric] get_def
          abi_bindings_nth(1) cong: sum.case_cong failure.case_cong)
    with True show ?thesis by (auto simp: act_simps split: prod.splits sum.splits failure.splits)
  next
    case False
    then obtain e where "for_each (validate_binding heap ?p) (enumerate 0 ?bds) = Inl e"
      by (cases "for_each (validate_binding heap ?p) (enumerate 0 ?bds)") auto
    then have "launch_reference_kernel A ?p canonical_launch_config ?bds heap = (heap, Inl e)"
      unfolding launch_reference_kernel_def Let_def arity
      by (simp add: act_bind_lift validate_launch_config_def canonical_launch_config_def resolved len [symmetric])
    with False show ?thesis by simp
  qed
  show ?thesis
  proof (cases ?valid)
    case True
    note sizes = True [unfolded valid]
    have "length (bound_elements (cpu_bytes heap) (ins ! i)) = element_count (ra_operands a ! i)" if "i < length ins" for i
    proof -
      have "bound (cpu_bytes heap) (ins ! i)" "snd (ins ! i) = 4 * element_count (ra_operands a ! i)"
        using bnd sizes that by simp_all
      then show ?thesis by (rule bound_elements_length)
    qed
    then have sized: "invocation_sized a ?xs (replicate (element_count (ra_result a)) 0)"
      using len by (auto simp: invocation_sized_def intro: nth_equalityI)
    have "?ok \<longleftrightarrow> cb_borrow (heap ! fst out) = Unborrowed \<and> batch_fits a"
      using sizes len readable last by (auto simp: launchable_def list_eq_iff_nth_eq all_set_conv_all_nth)
    moreover have "execute_kernel A ?p ?xs (replicate (element_count (ra_result a)) 0) = (vs, Inr ()) \<longleftrightarrow>
        batch_fits a \<and> vs = kernel_spec A a ?xs" for vs
      using execute_kernel_eq [OF ok prep, of ?xs "replicate (element_count (ra_result a)) 0" A] sized
      by (cases "batch_fits a") auto
    then have "?write \<longleftrightarrow> batch_fits a \<and> cb_borrow (heap ! fst out) = Unborrowed \<and> heap' = ?heap"
      using write_whole [OF abi_whole [OF bnd], of "length ins"] sizes kernel_spec_length [OF ok prep sized, of A]
      by (auto simp: abi_bindings_nth(3))
    ultimately show ?thesis using run True by blast
  next
    case False
    then have "\<not> ?ok" unfolding valid using len readable last by (auto simp: launchable_def list_eq_iff_nth_eq all_set_conv_all_nth)
    with run False show ?thesis by blast
  qed
qed

section \<open>The laws\<close>

lemma cpu_prepared: "cpu_compiled k a \<Longrightarrow> artifact_ok a \<and> preparation_error a = None \<and> ck_prepared k = prepared_of a"
  using from_artifact_eq by (fastforce simp: cpu_compiled_def split: option.splits)

lemma cpu_launch_Inr:
  assumes k: "cpu_compiled k a" and bnd: "\<forall>p \<in> set (out # ins). bound (cpu_bytes heap) p"
    and len: "length ins = length (ra_operands a)"
  shows "cpu_launch A k st canonical_launch_config (abi_bindings ins out) heap = (heap', Inr ev) \<longleftrightarrow>
    launchable heap a ins out \<and>
    heap' = set_bytes heap (fst out) (element_bytes (kernel_spec A a (map (bound_elements (cpu_bytes heap)) ins)))"
  using launch_eq [OF _ _ bnd len] cpu_prepared [OF k] by (simp add: cpu_launch_def act_simps)

lemma cpu_launch_arity:
  assumes k: "cpu_compiled k a"
    and run: "cpu_launch A k st canonical_launch_config (abi_bindings ins out) heap = (heap', Inr ev)"
  shows "length ins = length (ra_operands a)"
proof -
  have "length (pk_operand_lengths (ck_prepared k)) = length (ra_operands a)"
    using cpu_prepared [OF k] by (simp add: prepared_of_def)
  with run show ?thesis
    by (auto simp: cpu_launch_def launch_reference_kernel_def act_simps outcome_simps resolve_bindings_def Let_def
        abi_bindings_nth(1) split: if_splits)
qed

lemma cpu_allocate_Inr:
  "cpu_allocate reserve n 1 HostMemory heap = (heap', Inr b) \<longleftrightarrow>
     reserve heap n = None \<and> b = length heap \<and>
     heap' = heap @ [\<lparr>cb_bytes = replicate n 0, cb_borrow = Unborrowed, cb_alignment = 1, cb_memory_space = HostMemory\<rparr>]"
  by (auto simp: cpu_allocate_def split: option.split)

lemma cpu_write_Inr:
  assumes "cpu_bytes heap b = Some bs"
  shows "cpu_write b off data heap = (heap', Inr ()) \<longleftrightarrow>
    off + length data \<le> usize_max \<and> cb_borrow (heap ! b) = Unborrowed \<and> off + length data \<le> length bs \<and>
    heap' = set_bytes heap b (take off bs @ data @ drop (off + length data) bs)"
  using assms by (auto simp: cpu_write_def act_simps outcome_simps)

lemma cpu_read_Inr:
  assumes "cpu_bytes heap b = Some bs"
  shows "cpu_read b off n heap = (heap', Inr data) \<longleftrightarrow>
    off + n \<le> usize_max \<and> cb_borrow (heap ! b) \<noteq> MutableBorrow \<and> off + n \<le> length bs \<and>
    heap' = heap \<and> data = take n (drop off bs)"
  using assms by (auto simp: cpu_read_def act_simps outcome_simps)

lemma cpu_compile_Inr:
  "cpu_compile m heap = (heap', Inr k) \<longleftrightarrow>
     heap' = heap \<and> km_format m = ReferenceFormat \<and> (\<exists>p. from_kernel_module m = Inr p \<and> k = \<lparr>ck_module = m, ck_prepared = p\<rparr>)"
  by (auto simp: cpu_compile_def act_simps outcome_simps)

lemma module_compiled:
  assumes "from_kernel_module m = Inr p" and "decode (code m) = Inr a"
  shows "cpu_compiled \<lparr>ck_module = m, ck_prepared = p\<rparr> a"
  using assms decode_iff by (auto simp: from_kernel_module_def outcome_simps cpu_compiled_def Let_def)

lemmas backend_simps = cpu_backend_def act_simps

interpretation cpu: reference_backend "cpu_backend reserve A" cpu_bytes cpu_compiled A for reserve A
proof (unfold_locales, goal_cases)
  case (1 n s s' b)
  then show ?case by (auto simp: backend_simps cpu_allocate_Inr cpu_bytes_append cpu_bytes_def get_def simp del: One_nat_def
        intro!: exI [of _ "replicate n 0"])
next
  case (2 b off data s s' bs)
  then show ?case by (auto simp: backend_simps cpu_write_Inr cpu_bytes_set)
next
  case (3 b off n s s' data bs)
  then show ?case by (auto simp: backend_simps cpu_read_Inr)
next
  case (4 m s s' k a)
  then show ?case by (auto simp: backend_simps cpu_compile_Inr module_compiled)
next
  case (6 k a st ins out s s' ev)
  from 6(2) have run: "cpu_launch A k st canonical_launch_config (abi_bindings ins out) s = (s', Inr ev)"
    by (simp add: cpu_backend_def)
  note launched = cpu_launch_Inr [OF 6(1,3) cpu_launch_arity [OF 6(1) run], THEN iffD1, OF run]
  from 6(3) have "bound (cpu_bytes s) out" by simp
  then have out: "fst out < length s" by (auto simp: bound_def)
  have prep: "artifact_ok a" "preparation_error a = None" using cpu_prepared [OF 6(1)] by simp_all
  have "length (bound_elements (cpu_bytes s) p) = n" if "p \<in> set ins" "snd p = 4 * n" for p n
  proof -
    from 6(3) that have "bound (cpu_bytes s) p" "snd p = 4 * n" by simp_all
    then show ?thesis by (rule bound_elements_length)
  qed
  then have sized: "invocation_sized a (map (bound_elements (cpu_bytes s)) ins) (replicate (element_count (ra_result a)) 0)"
    using launched by (auto simp: invocation_sized_def launchable_def list_eq_iff_nth_eq)
  from kernel_spec_length [OF prep sized, of A] launched out show ?case
    by (simp add: launchable_def cpu_bytes_set)
qed (simp_all add: backend_simps)

interpretation cpu: progressing_backend "cpu_backend reserve A" cpu_bytes cpu_compiled A cpu_ready "cpu_grants reserve"
  for reserve A
proof (unfold_locales, goal_cases)
  case (1 s n)
  then show ?case by (auto simp: backend_simps cpu_allocate_Inr cpu_grants_def cpu_ready_def simp del: One_nat_def)
next
  case (2 s b bs off data)
  then have "cpu_write b off data s = (set_bytes s b (take off bs @ data @ drop (off + length data) bs), Inr ())"
    by (auto simp: cpu_write_Inr ready_borrow)
  with 2 show ?case by (auto simp: cpu_backend_def set_bytes_ready)
next
  case (3 s b bs off n)
  then have "cpu_read b off n s = (s, Inr (take n (drop off bs)))" by (auto simp: cpu_read_Inr ready_borrow)
  with 3 show ?case by (auto simp: cpu_backend_def)
next
  case (4 s m p)
  then have "km_format m = ReferenceFormat" by (auto simp: from_kernel_module_def outcome_simps)
  with 4 show ?case by (simp add: backend_simps cpu_compile_Inr)
next
  case (6 s k a out ins st)
  then have bnd: "\<forall>p \<in> set (out # ins). bound (cpu_bytes s) p" by simp
  then have fst: "fst p < length s" if "p \<in> set (out # ins)" for p using that by (auto simp: bound_def)
  have len: "length ins = length (ra_operands a)" using 6(5) by (metis length_map)
  have "launchable s a ins out"
    using 6 fst by (auto simp: launchable_def ready_borrow)
  with cpu_launch_Inr [OF 6(2) bnd len, of A st] have
    "cpu_launch A k st canonical_launch_config (abi_bindings ins out) s =
      (set_bytes s (fst out) (element_bytes (kernel_spec A a (map (bound_elements (cpu_bytes s)) ins))), Inr ())" by blast
  with 6(1) fst set_bytes_ready show ?case by (auto simp: cpu_backend_def)
qed (simp_all add: backend_simps)

end
