(* ===== verification/Tensor_View.thy ===== *)
theory Tensor_View
  imports Tensor_Graph Little_Endian Row_Major
begin

text \<open>
  Strided tensor views (\<open>general.rs\<close> of \<open>scirust-tensor-core\<close>): a tensor is a shared byte storage with
  a shape, one stride per axis and an offset, all counted in elements. Views change the metadata
  only. The storage of an \<open>Arc\<close> is its byte list; whether two tensors share one allocation is not
  observable here. Unchecked \<open>usize\<close> arithmetic panics on overflow, as in a debug build.
\<close>

section \<open>Tensors\<close>

datatype tensor_device = HostDevice | BackendDevice string nat

datatype tensor_error =
    TensorShapeOverflow
  | ByteLengthMismatch usize usize
  | RankMismatch usize usize
  | ViewOutOfBounds
  | TensorInvalidPermutation
  | InvalidAxis usize usize
  | InvalidSlice
  | BroadcastMismatch "usize list" "usize list"
  | ReshapeElementCount usize usize
  | ReshapeRequiresContiguous
  | DTypeMismatch dtype dtype

record tensor =
  tn_storage :: "u8 list"
  tn_dtype :: dtype
  tn_shape :: shape
  tn_strides :: strides
  tn_offset_elements :: usize
  tn_device :: tensor_device

definition tensor_rank :: "tensor \<Rightarrow> usize" where
  "tensor_rank t = length (tn_shape t)"

definition checked_numel :: "shape \<Rightarrow> (tensor_error, usize) outcome" where
  "checked_numel sh = map_err (\<lambda>_. TensorShapeOverflow) (checked_num_elements sh)"

text \<open>\<open>numel\<close> has an \<open>expect\<close>.\<close>

definition numel :: "tensor \<Rightarrow> (tensor_error, usize) outcome" where
  "numel t = (case checked_num_elements (tn_shape t) of Inr n \<Rightarrow> Inr n | Inl _ \<Rightarrow> Inl Panic)"

definition view_step ::
  "usize \<Rightarrow> usize \<times> usize \<Rightarrow> (tensor_error, usize) outcome" where
  "view_step max_index p = (case p of (dim, stride) \<Rightarrow>
     if dim = 0 then Inl Panic
     else
       try_bind (ok_or TensorShapeOverflow (checked_mul (dim - 1) stride)) (\<lambda>span.
       ok_or TensorShapeOverflow (checked_add max_index span)))"

definition validate_view_bounds ::
  "shape \<Rightarrow> strides \<Rightarrow> usize \<Rightarrow> usize \<Rightarrow> (tensor_error, unit) outcome" where
  "validate_view_bounds sh strides offset storage_elements =
     try_bind (checked_numel sh) (\<lambda>n.
     if n = 0 then require (offset \<le> storage_elements) ViewOutOfBounds
     else
       try_bind (try_fold view_step offset (zip sh strides)) (\<lambda>max_index.
       require (\<not> max_index \<ge> storage_elements) ViewOutOfBounds))"

definition from_shared_parts ::
  "u8 list \<Rightarrow> dtype \<Rightarrow> shape \<Rightarrow> strides \<Rightarrow> usize \<Rightarrow> tensor_device \<Rightarrow> (tensor_error, tensor) outcome" where
  "from_shared_parts storage dt sh strides offset device =
     try_bind (require (\<not> length sh \<noteq> length strides) (RankMismatch (length sh) (length strides))) (\<lambda>_.
     let width = size_bytes dt in
     try_bind (require (\<not> (width = 0 \<or> length storage mod width \<noteq> 0)) ViewOutOfBounds) (\<lambda>_.
     let storage_elements = length storage div width in
     try_bind (validate_view_bounds sh strides offset storage_elements) (\<lambda>_.
     Inr \<lparr>tn_storage = storage, tn_dtype = dt, tn_shape = sh, tn_strides = strides,
          tn_offset_elements = offset, tn_device = device\<rparr>)))"

section \<open>Construction\<close>

definition tensor_from_bytes ::
  "u8 list \<Rightarrow> dtype \<Rightarrow> shape \<Rightarrow> tensor_device \<Rightarrow> (tensor_error, tensor) outcome" where
  "tensor_from_bytes bytes dt sh device =
     try_bind (checked_numel sh) (\<lambda>n.
     try_bind (ok_or TensorShapeOverflow (checked_mul n (size_bytes dt))) (\<lambda>expected.
     try_bind (require (\<not> length bytes \<noteq> expected) (ByteLengthMismatch expected (length bytes))) (\<lambda>_.
     try_bind (map_err (\<lambda>_. TensorShapeOverflow) (contiguous sh)) (\<lambda>strides.
     from_shared_parts bytes dt sh strides 0 device))))"

definition tensor_from_f32 :: "u32 list \<Rightarrow> shape \<Rightarrow> (tensor_error, tensor) outcome" where
  "tensor_from_f32 data sh = tensor_from_bytes (concat (map u32_le data)) F32 sh HostDevice"

definition tensor_from_f64 :: "u64 list \<Rightarrow> shape \<Rightarrow> (tensor_error, tensor) outcome" where
  "tensor_from_f64 data sh = tensor_from_bytes (concat (map u64_le data)) F64 sh HostDevice"

definition tensor_from_i64 :: "u64 list \<Rightarrow> shape \<Rightarrow> (tensor_error, tensor) outcome" where
  "tensor_from_i64 data sh = tensor_from_bytes (concat (map u64_le data)) I64 sh HostDevice"

definition tensor_zeros :: "dtype \<Rightarrow> shape \<Rightarrow> tensor_device \<Rightarrow> (tensor_error, tensor) outcome" where
  "tensor_zeros dt sh device =
     try_bind (checked_numel sh) (\<lambda>n.
     try_bind (ok_or TensorShapeOverflow (checked_mul n (size_bytes dt))) (\<lambda>bytes.
     tensor_from_bytes (replicate bytes 0) dt sh device))"

definition tensor_scalar_f32 :: "u32 \<Rightarrow> (tensor_error, tensor) outcome" where
  "tensor_scalar_f32 value =
     (case tensor_from_f32 [value] [] of Inr t \<Rightarrow> Inr t | Inl _ \<Rightarrow> Inl Panic)"

section \<open>Reading\<close>

definition is_contiguous :: "tensor \<Rightarrow> bool" where
  "is_contiguous t = (case contiguous (tn_shape t) of Inr expected \<Rightarrow> expected = tn_strides t | Inl _ \<Rightarrow> False)"

definition usize_op :: "usize \<Rightarrow> ('e, usize) outcome" where
  "usize_op n = (if n \<le> usize_max then Inr n else Inl Panic)"

definition offset_step ::
  "shape \<Rightarrow> strides \<Rightarrow> usize \<times> usize \<Rightarrow> nat \<Rightarrow> (tensor_error, usize \<times> usize) outcome" where
  "offset_step sh strides st axis = (case st of (remainder, offset) \<Rightarrow>
     try_bind (idx sh axis) (\<lambda>dim.
     if dim = 0 then Inl Panic
     else
       (let coordinate = remainder mod dim; remainder = remainder div dim in
        try_bind (idx strides axis) (\<lambda>stride.
        try_bind (usize_op (coordinate * stride)) (\<lambda>summand.
        try_bind (usize_op (offset + summand)) (\<lambda>offset.
        Inr (remainder, offset)))))))"

text \<open>The item of \<open>LogicalOffsets\<close> at position \<open>linear\<close>, and all its items.\<close>

definition logical_offset :: "tensor \<Rightarrow> usize \<Rightarrow> (tensor_error, usize) outcome" where
  "logical_offset t linear =
     try_bind (try_fold (offset_step (tn_shape t) (tn_strides t)) (linear, tn_offset_elements t)
                (rev [0..<length (tn_shape t)])) (\<lambda>(_, offset). Inr offset)"

definition logical_storage_offsets :: "tensor \<Rightarrow> (tensor_error, usize list) outcome" where
  "logical_storage_offsets t = try_bind (numel t) (\<lambda>n. traverse (logical_offset t) [0..<n])"

definition storage_element :: "tensor \<Rightarrow> usize \<Rightarrow> (tensor_error, u8 list) outcome" where
  "storage_element t storage_index =
     (let width = size_bytes (tn_dtype t) in
      try_bind (usize_op (storage_index * width)) (\<lambda>byte_start.
      try_bind (usize_op (byte_start + width)) (\<lambda>byte_end.
      if byte_end \<le> length (tn_storage t) then Inr (take width (drop byte_start (tn_storage t)))
      else Inl Panic)))"

definition to_contiguous_bytes :: "tensor \<Rightarrow> (tensor_error, u8 list) outcome" where
  "to_contiguous_bytes t =
     try_bind (logical_storage_offsets t) (\<lambda>offsets.
     try_bind (traverse (storage_element t) offsets) (\<lambda>elements. Inr (concat elements)))"

fun chunks4 :: "u8 list \<Rightarrow> u8 list list" where
  "chunks4 [] = []"
| "chunks4 (b # bs) = take 4 (b # bs) # chunks4 (drop 4 (b # bs))"

definition f32_of_chunk :: "u8 list \<Rightarrow> (tensor_error, u32) outcome" where
  "f32_of_chunk chunk = (if length chunk < 4 then Inl Panic else Inr (u32_from_le (take 4 chunk)))"

definition to_f32_vec :: "tensor \<Rightarrow> (tensor_error, u32 list) outcome" where
  "to_f32_vec t =
     try_bind (require (\<not> tn_dtype t \<noteq> F32) (DTypeMismatch F32 (tn_dtype t))) (\<lambda>_.
     try_bind (to_contiguous_bytes t) (\<lambda>bytes.
     traverse f32_of_chunk (chunks4 bytes)))"

section \<open>Views\<close>

definition tensor_reshape :: "tensor \<Rightarrow> shape \<Rightarrow> (tensor_error, tensor) outcome" where
  "tensor_reshape t new_shape =
     try_bind (checked_numel new_shape) (\<lambda>requested.
     try_bind (numel t) (\<lambda>current.
     try_bind (require (\<not> requested \<noteq> current) (ReshapeElementCount current requested)) (\<lambda>_.
     try_bind (require (is_contiguous t) ReshapeRequiresContiguous) (\<lambda>_.
     try_bind (map_err (\<lambda>_. TensorShapeOverflow) (contiguous new_shape)) (\<lambda>strides.
     from_shared_parts (tn_storage t) (tn_dtype t) new_shape strides (tn_offset_elements t) (tn_device t))))))"

definition see_tensor_axis :: "usize \<Rightarrow> bool list \<Rightarrow> usize \<Rightarrow> (tensor_error, bool list) outcome" where
  "see_tensor_axis rank seen axis =
     (if axis \<ge> rank then fail TensorInvalidPermutation
      else try_bind (idx seen axis) (\<lambda>s.
           if s then fail TensorInvalidPermutation else Inr (seen[axis := True])))"

definition tensor_permute :: "tensor \<Rightarrow> usize list \<Rightarrow> (tensor_error, tensor) outcome" where
  "tensor_permute t permutation =
     (let rank = tensor_rank t in
      try_bind (require (\<not> length permutation \<noteq> rank) TensorInvalidPermutation) (\<lambda>_.
      try_bind (try_fold (see_tensor_axis rank) (replicate rank False) permutation) (\<lambda>_.
      try_bind (traverse (\<lambda>axis. idx (tn_shape t) axis) permutation) (\<lambda>dims.
      try_bind (traverse (\<lambda>axis. idx (tn_strides t) axis) permutation) (\<lambda>strides.
      from_shared_parts (tn_storage t) (tn_dtype t) dims strides (tn_offset_elements t) (tn_device t))))))"

definition tensor_transpose :: "tensor \<Rightarrow> usize \<Rightarrow> usize \<Rightarrow> (tensor_error, tensor) outcome" where
  "tensor_transpose t first second =
     (let rank = tensor_rank t in
      try_bind (require (\<not> first \<ge> rank) (InvalidAxis first rank)) (\<lambda>_.
      try_bind (require (\<not> second \<ge> rank) (InvalidAxis second rank)) (\<lambda>_.
      tensor_permute t ([0..<rank][first := second, second := first]))))"

definition tensor_slice ::
  "tensor \<Rightarrow> usize \<Rightarrow> usize \<Rightarrow> usize \<Rightarrow> usize \<Rightarrow> (tensor_error, tensor) outcome" where
  "tensor_slice t axis start stop step =
     (let rank = tensor_rank t in
      try_bind (require (\<not> axis \<ge> rank) (InvalidAxis axis rank)) (\<lambda>_.
      try_bind (idx (tn_shape t) axis) (\<lambda>dim.
      try_bind (require (\<not> (step = 0 \<or> start > stop \<or> stop > dim)) InvalidSlice) (\<lambda>_.
      let span = stop - start; new_dim = (if span = 0 then 0 else 1 + (span - 1) div step) in
      try_bind (idx (tn_strides t) axis) (\<lambda>axis_stride.
      try_bind (ok_or TensorShapeOverflow (checked_mul start axis_stride)) (\<lambda>skipped.
      try_bind (ok_or TensorShapeOverflow (checked_add (tn_offset_elements t) skipped)) (\<lambda>new_offset.
      try_bind (ok_or TensorShapeOverflow (checked_mul axis_stride step)) (\<lambda>new_axis_stride.
      from_shared_parts (tn_storage t) (tn_dtype t) ((tn_shape t)[axis := new_dim])
        ((tn_strides t)[axis := new_axis_stride]) new_offset (tn_device t)))))))))"

definition broadcast_axis ::
  "tensor \<Rightarrow> shape \<Rightarrow> usize \<Rightarrow> usize list \<Rightarrow> usize \<Rightarrow> (tensor_error, usize list) outcome" where
  "broadcast_axis t target rank_delta strides source_axis =
     (let target_axis = source_axis + rank_delta in
      try_bind (idx (tn_shape t) source_axis) (\<lambda>source_dim.
      try_bind (idx target target_axis) (\<lambda>target_dim.
      if source_dim = target_dim then
        try_bind (idx (tn_strides t) source_axis) (\<lambda>stride. Inr (strides[target_axis := stride]))
      else if source_dim = 1 then Inr (strides[target_axis := 0])
      else fail (BroadcastMismatch (tn_shape t) target))))"

definition tensor_broadcast_to :: "tensor \<Rightarrow> shape \<Rightarrow> (tensor_error, tensor) outcome" where
  "tensor_broadcast_to t target =
     try_bind (require (\<not> length target < tensor_rank t) (BroadcastMismatch (tn_shape t) target)) (\<lambda>_.
     let rank_delta = length target - tensor_rank t in
     try_bind (try_fold (broadcast_axis t target rank_delta) (replicate (length target) 0) [0..<tensor_rank t])
       (\<lambda>strides.
     from_shared_parts (tn_storage t) (tn_dtype t) target strides (tn_offset_elements t) (tn_device t)))"

definition tensor_contiguous :: "tensor \<Rightarrow> (tensor_error, tensor) outcome" where
  "tensor_contiguous t =
     try_bind (to_contiguous_bytes t) (\<lambda>bytes.
     tensor_from_bytes bytes (tn_dtype t) (tn_shape t) (tn_device t))"

end
