(* ===== verification/Tensor_View_Correct.thy ===== *)
theory Tensor_View_Correct
  imports Tensor_View
begin

text \<open>
  Correctness of strided views. A tensor is observed only through \<open>tensor_at\<close>, the bytes of the element
  at a multi-index. Every tensor the public interface can build satisfies \<open>tensor_ok\<close>; reading one
  never panics and lists the elements in row-major order; each view reads the element that its
  definition on multi-indices names, from the same storage.
\<close>

section \<open>Well-formed tensors and their elements\<close>

fun stride_dot :: "strides \<Rightarrow> nat list \<Rightarrow> nat" where
  "stride_dot (s # ss) (c # cs) = c * s + stride_dot ss cs"
| "stride_dot _ _ = 0"

definition storage_elements :: "tensor \<Rightarrow> nat" where
  "storage_elements t = length (tn_storage t) div size_bytes (tn_dtype t)"

definition last_index :: "shape \<Rightarrow> nat list" where
  "last_index sh = map (\<lambda>d. d - 1) sh"

definition tensor_ok :: "tensor \<Rightarrow> bool" where
  "tensor_ok t \<longleftrightarrow> length (tn_strides t) = length (tn_shape t) \<and>
     length (tn_storage t) mod size_bytes (tn_dtype t) = 0 \<and> length (tn_storage t) \<le> usize_max \<and>
     checked_num_elements (tn_shape t) = Inr (prod_list (tn_shape t)) \<and>
     (if prod_list (tn_shape t) = 0 then tn_offset_elements t \<le> storage_elements t
      else tn_offset_elements t + stride_dot (tn_strides t) (last_index (tn_shape t)) < storage_elements t)"

definition tensor_at :: "tensor \<Rightarrow> nat list \<Rightarrow> u8 list" where
  "tensor_at t c =
     (let width = size_bytes (tn_dtype t) in
      take width (drop ((tn_offset_elements t + stride_dot (tn_strides t) c) * width) (tn_storage t)))"

lemma stride_dot_snoc:
  "length ss = length cs \<Longrightarrow> stride_dot (ss @ [s]) (cs @ [c]) = stride_dot ss cs + c * s"
  by (induction ss cs rule: stride_dot.induct) auto

lemma stride_dot_mono: "list_all2 (\<le>) c d \<Longrightarrow> stride_dot ss c \<le> stride_dot ss d"
proof (induction c d arbitrary: ss rule: list_all2_induct)
  case (Cons x xs y ys)
  then show ?case by (cases ss) (auto intro: add_le_mono mult_le_mono)
qed simp

lemma in_range_last: "in_range c sh \<Longrightarrow> list_all2 (\<le>) c (last_index sh)"
  by (auto simp: in_range_def last_index_def list_all2_conv_all_nth)

lemma in_range_length: "in_range c sh \<Longrightarrow> length c = length sh"
  by (simp add: in_range_def list_all2_lengthD)

lemma in_range_prod: "in_range c sh \<Longrightarrow> 0 < prod_list sh"
  using ravel_less [of c sh] by simp

lemma stride_dot_row_major: "length c = length sh \<Longrightarrow> stride_dot (row_major sh) c = ravel sh c"
  by (induction sh c rule: list_induct2') auto

lemma tensor_index_bound:
  assumes "tensor_ok t" and "in_range c (tn_shape t)"
  shows "tn_offset_elements t + stride_dot (tn_strides t) c < storage_elements t"
proof -
  have "stride_dot (tn_strides t) c \<le> stride_dot (tn_strides t) (last_index (tn_shape t))"
    using assms(2) by (intro stride_dot_mono in_range_last)
  with assms in_range_prod [OF assms(2)] show ?thesis by (simp add: tensor_ok_def)
qed

lemma tensor_byte_bound:
  assumes "tensor_ok t" and "i < storage_elements t"
  shows "i * size_bytes (tn_dtype t) + size_bytes (tn_dtype t) \<le> length (tn_storage t)"
proof -
  have "Suc i * size_bytes (tn_dtype t) \<le> storage_elements t * size_bytes (tn_dtype t)"
    using assms(2) by (intro mult_le_mono1) simp
  also have "\<dots> \<le> length (tn_storage t)" by (simp add: storage_elements_def)
  finally show ?thesis by simp
qed

section \<open>Validation of views\<close>

lemma view_fold:
  assumes "\<forall>d \<in> set sh. 0 < d" and "length ss = length sh"
  shows "try_fold view_step m (zip sh ss) =
    (if m + stride_dot ss (last_index sh) \<le> usize_max then Inr (m + stride_dot ss (last_index sh))
     else if m \<le> usize_max then fail TensorShapeOverflow
     else try_fold view_step m (zip sh ss))"
  using assms
proof (induction sh arbitrary: ss m)
  case Nil
  then show ?case by (simp add: last_index_def)
next
  case (Cons d sh)
  then obtain s st where ss: "ss = s # st" "length st = length sh" by (cases ss) auto
  have d: "0 < d" "\<forall>d \<in> set sh. 0 < d" using Cons.prems by auto
  show ?case
  proof (cases "m + (d - 1) * s \<le> usize_max")
    case True
    then have "view_step m (d, s) = Inr (m + (d - 1) * s)"
      using d by (simp add: view_step_def checked_mul_def checked_add_def)
    with Cons.IH [OF d(2) ss(2), of "m + (d - 1) * s"] True show ?thesis
      by (simp add: ss last_index_def add.assoc)
  next
    case False
    then have "view_step m (d, s) = fail TensorShapeOverflow"
      using d by (simp add: view_step_def checked_mul_def checked_add_def)
    with False show ?thesis by (simp add: ss last_index_def)
  qed
qed

lemma prod_list_0: "prod_list (xs :: nat list) = 0 \<longleftrightarrow> 0 \<in> set xs"
  by (induction xs) auto

lemma checked_numel_eq:
  "checked_numel sh = Inr n \<longleftrightarrow> n = prod_list sh \<and> checked_num_elements sh = Inr (prod_list sh)"
  by (auto simp: checked_numel_def dest: checked_num_elements_Inr)

lemma checked_numel_cases:
  obtains "checked_num_elements sh = Inr (prod_list sh)" "checked_numel sh = Inr (prod_list sh)"
  | e where "checked_num_elements sh = fail e" "checked_numel sh = fail TensorShapeOverflow"
proof (cases "checked_num_elements sh")
  case (Inr n)
  then have "n = prod_list sh" by (rule checked_num_elements_Inr)
  with Inr that(1) show ?thesis by (simp add: checked_numel_def)
next
  case (Inl f)
  have "f \<noteq> Panic"
  proof
    assume "f = Panic"
    with Inl have "try_fold (\<lambda>n d. ok_or ShapeOverflow (checked_mul n d)) 1 sh = Inl Panic"
      by (simp add: checked_num_elements_def)
    then show False using try_fold_Inl [where P = "\<lambda>_ _. True"] by fastforce
  qed
  with Inl that(2) show ?thesis by (cases f) (auto simp: checked_numel_def)
qed

abbreviation mk_tensor ::
  "u8 list \<Rightarrow> dtype \<Rightarrow> shape \<Rightarrow> strides \<Rightarrow> usize \<Rightarrow> tensor_device \<Rightarrow> tensor" where
  "mk_tensor storage dt sh strides offset device \<equiv>
     \<lparr>tn_storage = storage, tn_dtype = dt, tn_shape = sh, tn_strides = strides,
      tn_offset_elements = offset, tn_device = device\<rparr>"

lemma view_bounds_nonempty:
  assumes "checked_num_elements sh = Inr (prod_list sh)" and "prod_list sh \<noteq> 0"
    and "length ss = length sh" and "n \<le> usize_max" and "off \<le> usize_max"
  shows "validate_view_bounds sh ss off n =
    (if off + stride_dot ss (last_index sh) < n then Inr ()
     else if off + stride_dot ss (last_index sh) \<le> usize_max then fail ViewOutOfBounds
     else fail TensorShapeOverflow)"
proof -
  have pos: "\<forall>d \<in> set sh. 0 < d" using assms(2) by (auto simp: prod_list_0 intro: gr0I)
  have "checked_numel sh = Inr (prod_list sh)" using assms(1) by (simp add: checked_numel_eq)
  with view_fold [OF pos assms(3), of off] assms(2,4,5) show ?thesis
    by (auto simp: validate_view_bounds_def require_def)
qed

lemma at_value: "(P \<longleftrightarrow> Q \<and> t = m) \<Longrightarrow> (R m \<longleftrightarrow> Q) \<Longrightarrow> (P \<longleftrightarrow> t = m \<and> R t)"
  by auto

lemma from_shared_parts_Inr:
  assumes "length st \<le> usize_max" and "off \<le> usize_max"
  shows "from_shared_parts st dt sh ss off dev = Inr t \<longleftrightarrow>
    t = mk_tensor st dt sh ss off dev \<and> tensor_ok t"
proof -
  have n: "length st div size_bytes dt \<le> usize_max" by (rule order_trans [OF div_le_dividend assms(1)])
  have bounds: "validate_view_bounds sh ss off (length st div size_bytes dt) = Inr () \<longleftrightarrow>
      checked_num_elements sh = Inr (prod_list sh) \<and>
      (if prod_list sh = 0 then off \<le> length st div size_bytes dt
       else off + stride_dot ss (last_index sh) < length st div size_bytes dt)"
    if "length ss = length sh"
  proof (cases rule: checked_numel_cases [of sh])
    case 1
    then show ?thesis
      using view_bounds_nonempty [OF 1(1) _ that n assms(2)]
      by (cases "prod_list sh = 0") (auto simp: validate_view_bounds_def)
  next
    case (2 e)
    then show ?thesis by (simp add: validate_view_bounds_def)
  qed
  show ?thesis
  proof (cases "length ss = length sh")
    case True
    let ?n = "length st div size_bytes dt"
    have "from_shared_parts st dt sh ss off dev = Inr t \<longleftrightarrow>
        (length st mod size_bytes dt = 0 \<and> validate_view_bounds sh ss off ?n = Inr ()) \<and>
        t = mk_tensor st dt sh ss off dev"
      using True by (auto simp: from_shared_parts_def outcome_simps Let_def simp del: length_0_conv)
    moreover have "tensor_ok (mk_tensor st dt sh ss off dev) \<longleftrightarrow>
        length st mod size_bytes dt = 0 \<and> validate_view_bounds sh ss off ?n = Inr ()"
      unfolding bounds [OF True] by (simp only: tensor_ok_def storage_elements_def tensor.select_convs True assms(1) simp_thms)
    ultimately show ?thesis by (rule at_value)
  next
    case False
    then have "length sh \<noteq> length ss" by simp
    then have "from_shared_parts st dt sh ss off dev = Inr t \<longleftrightarrow> False \<and> t = mk_tensor st dt sh ss off dev"
      by (simp add: from_shared_parts_def require_def)
    moreover have "tensor_ok (mk_tensor st dt sh ss off dev) \<longleftrightarrow> False" using False by (simp add: tensor_ok_def)
    ultimately show ?thesis by (rule at_value)
  qed
qed

lemma validate_view_bounds_no_panic: "validate_view_bounds sh ss off n \<noteq> Inl Panic"
proof (cases rule: checked_numel_cases [of sh])
  case 1
  have "try_fold view_step off (zip sh ss) \<noteq> Inl Panic" if "prod_list sh \<noteq> 0"
  proof
    assume "try_fold view_step off (zip sh ss) = Inl Panic"
    from try_fold_Inl [where P = "\<lambda>_ _. True", OF this] obtain i m
      where "i < length (zip sh ss)" "view_step m (zip sh ss ! i) = Inl Panic" by blast
    then have i: "i < length sh" "i < length ss" "view_step m (sh ! i, ss ! i) = Inl Panic" by auto
    have "sh ! i \<noteq> 0" using that nth_mem [OF i(1)] by (metis prod_list_0)
    then have "view_step m (sh ! i, ss ! i) \<noteq> Inl Panic"
      by (auto simp: view_step_def outcome_simps)
    with i(3) show False by simp
  qed
  with 1 show ?thesis by (auto simp: validate_view_bounds_def outcome_simps)
next
  case (2 e)
  then show ?thesis by (simp add: validate_view_bounds_def)
qed

lemma from_shared_parts_no_panic: "from_shared_parts st dt sh ss off dev \<noteq> Inl Panic"
  using validate_view_bounds_no_panic by (auto simp: from_shared_parts_def outcome_simps Let_def)

section \<open>Reading\<close>

lemma traverse_map_comp: "traverse f (map g xs) = traverse (\<lambda>x. f (g x)) xs"
  by (induction xs) auto

lemma logical_offset_fold:
  assumes "in_range c sh" and "length ss = length sh" and "k \<le> length sh"
    and "off + stride_dot (take k ss) (take k c) \<le> usize_max"
  shows "try_fold (offset_step sh ss) (ravel (take k sh) (take k c), off) (rev [0..<k]) =
    Inr (0, off + stride_dot (take k ss) (take k c))"
  using assms(3,4)
proof (induction k arbitrary: off)
  case (Suc k)
  have len: "length c = length sh" using assms(1) by (rule in_range_length)
  have k: "k < length sh" "k < length c" "k < length ss" using Suc.prems(1) assms(2) len by simp_all
  have ck: "c ! k < sh ! k" using assms(1) k by (simp add: in_range_def list_all2_conv_all_nth)
  have takes: "take (Suc k) sh = take k sh @ [sh ! k]" "take (Suc k) c = take k c @ [c ! k]"
    "take (Suc k) ss = take k ss @ [ss ! k]"
    using k by (simp_all add: take_Suc_conv_app_nth)
  let ?R = "ravel (take k sh) (take k c)" and ?D = "stride_dot (take k ss) (take k c)"
  have R: "ravel (take (Suc k) sh) (take (Suc k) c) = ?R * sh ! k + c ! k"
    using k by (simp add: takes ravel_snoc)
  have D: "stride_dot (take (Suc k) ss) (take (Suc k) c) = ?D + c ! k * ss ! k"
    using k by (simp add: takes stride_dot_snoc)
  have bound: "off + c ! k * ss ! k + ?D \<le> usize_max" using Suc.prems(2) by (simp add: D)
  have "offset_step sh ss (?R * sh ! k + c ! k, off) k = Inr (?R, off + c ! k * ss ! k)"
    using ck k bound by (simp add: offset_step_def usize_op_def div_flat Let_def)
  with Suc.IH [of "off + c ! k * ss ! k"] bound k(1) show ?case
    by (simp add: R D)
qed simp

lemma logical_offset_at:
  assumes ok: "tensor_ok t" and c: "in_range c (tn_shape t)"
  shows "logical_offset t (ravel (tn_shape t) c) = Inr (tn_offset_elements t + stride_dot (tn_strides t) c)"
proof -
  have "storage_elements t \<le> usize_max"
    using ok order_trans [OF div_le_dividend] by (simp add: tensor_ok_def storage_elements_def)
  with tensor_index_bound [OF ok c]
  have "tn_offset_elements t + stride_dot (tn_strides t) c \<le> usize_max" by simp
  with logical_offset_fold [OF c, of "tn_strides t" "length (tn_shape t)" "tn_offset_elements t"] ok
    in_range_length [OF c]
  show ?thesis by (simp add: logical_offset_def tensor_ok_def)
qed

lemma storage_element_at:
  assumes ok: "tensor_ok t" and c: "in_range c (tn_shape t)"
  shows "storage_element t (tn_offset_elements t + stride_dot (tn_strides t) c) = Inr (tensor_at t c)"
  using tensor_byte_bound [OF ok tensor_index_bound [OF ok c]] ok
  by (simp add: storage_element_def tensor_at_def usize_op_def Let_def tensor_ok_def)

lemma to_contiguous_bytes_ok:
  assumes ok: "tensor_ok t"
  shows "to_contiguous_bytes t = Inr (concat (map (tensor_at t) (indices (tn_shape t))))"
proof -
  let ?sh = "tn_shape t" and ?off = "\<lambda>c. tn_offset_elements t + stride_dot (tn_strides t) c"
  have "numel t = Inr (prod_list ?sh)" using ok by (simp add: numel_def tensor_ok_def)
  then have "logical_storage_offsets t = traverse (logical_offset t) (map (ravel ?sh) (indices ?sh))"
    by (simp add: logical_storage_offsets_def ravel_indices)
  also have "\<dots> = Inr (map ?off (indices ?sh))"
    unfolding traverse_map_comp
    by (rule traverse_map) (simp add: set_indices logical_offset_at ok)
  finally have "logical_storage_offsets t = Inr (map ?off (indices ?sh))" .
  moreover have "traverse (storage_element t) (map ?off (indices ?sh)) = Inr (map (tensor_at t) (indices ?sh))"
    unfolding traverse_map_comp
    by (rule traverse_map) (simp add: set_indices storage_element_at ok)
  ultimately show ?thesis by (simp add: to_contiguous_bytes_def)
qed

section \<open>Views as maps of multi-indices\<close>

datatype view_op =
    PermuteView "usize list"
  | TransposeView usize usize
  | SliceView usize usize usize usize
  | BroadcastView shape
  | ReshapeView shape

fun apply_view :: "tensor \<Rightarrow> view_op \<Rightarrow> (tensor_error, tensor) outcome" where
  "apply_view t (PermuteView p) = tensor_permute t p"
| "apply_view t (TransposeView i j) = tensor_transpose t i j"
| "apply_view t (SliceView axis start stop step) = tensor_slice t axis start stop step"
| "apply_view t (BroadcastView target) = tensor_broadcast_to t target"
| "apply_view t (ReshapeView sh) = tensor_reshape t sh"

text \<open>
  The specification: the shape of the view, and the index in the source whose element the view shows
  at the index \<open>c\<close>. \<open>position p a\<close> is where the axis \<open>a\<close> went.
\<close>

definition position :: "nat list \<Rightarrow> nat \<Rightarrow> nat" where
  "position p a = length (takeWhile (\<lambda>b. b \<noteq> a) p)"

definition swapped :: "nat \<Rightarrow> nat \<Rightarrow> nat \<Rightarrow> nat list" where
  "swapped rank i j = [0..<rank][i := j, j := i]"

fun view_shape :: "shape \<Rightarrow> view_op \<Rightarrow> shape" where
  "view_shape sh (PermuteView p) = permuted p sh"
| "view_shape sh (TransposeView i j) = permuted (swapped (length sh) i j) sh"
| "view_shape sh (SliceView axis start stop step) =
     sh[axis := if stop = start then 0 else 1 + (stop - start - 1) div step]"
| "view_shape sh (BroadcastView target) = target"
| "view_shape sh (ReshapeView target) = target"

fun unravel :: "nat list \<Rightarrow> nat \<Rightarrow> nat list" where
  "unravel [] i = []"
| "unravel (d # ds) i = (i div prod_list ds) # unravel ds (i mod prod_list ds)"

fun view_source :: "shape \<Rightarrow> view_op \<Rightarrow> nat list \<Rightarrow> nat list" where
  "view_source sh (PermuteView p) c = map (\<lambda>a. c ! position p a) [0..<length sh]"
| "view_source sh (TransposeView i j) c = c[i := c ! j, j := c ! i]"
| "view_source sh (SliceView axis start stop step) c = c[axis := start + c ! axis * step]"
| "view_source sh (BroadcastView target) c =
     map2 (\<lambda>d x. if d = 1 then 0 else x) sh (drop (length target - length sh) c)"
| "view_source sh (ReshapeView target) c = unravel sh (ravel target c)"

text \<open>A view built by \<open>from_shared_parts\<close> on the storage of its source.\<close>

definition reads_as :: "tensor \<Rightarrow> tensor \<Rightarrow> shape \<Rightarrow> (nat list \<Rightarrow> nat list) \<Rightarrow> bool" where
  "reads_as v t sh source \<longleftrightarrow> tensor_ok v \<and> tn_shape v = sh \<and> tn_storage v = tn_storage t \<and>
     tn_dtype v = tn_dtype t \<and> tn_device v = tn_device t \<and>
     (\<forall>c. in_range c sh \<longrightarrow> in_range (source c) (tn_shape t) \<and> tensor_at v c = tensor_at t (source c))"

lemma tensor_offset_le: "tensor_ok t \<Longrightarrow> tn_offset_elements t \<le> usize_max"
proof -
  assume ok: "tensor_ok t"
  then have "storage_elements t \<le> usize_max"
    using order_trans [OF div_le_dividend] by (simp add: tensor_ok_def storage_elements_def)
  with ok show ?thesis by (auto simp: tensor_ok_def split: if_splits)
qed

lemma reads_as_parts:
  assumes ok: "tensor_ok t" and off: "off \<le> usize_max"
    and v: "from_shared_parts (tn_storage t) (tn_dtype t) sh ss off (tn_device t) = Inr v"
    and source: "\<And>c. in_range c sh \<Longrightarrow> in_range (source c) (tn_shape t) \<and>
      off + stride_dot ss c = tn_offset_elements t + stride_dot (tn_strides t) (source c)"
  shows "reads_as v t sh source"
proof -
  have "length (tn_storage t) \<le> usize_max" using ok by (simp add: tensor_ok_def)
  note made = from_shared_parts_Inr [OF this off, THEN iffD1, OF v]
  have v: "v = mk_tensor (tn_storage t) (tn_dtype t) sh ss off (tn_device t)" "tensor_ok v"
    by (rule conjunct1 [OF made], rule conjunct2 [OF made])
  with source show ?thesis by (simp add: reads_as_def tensor_at_def)
qed

lemma in_range_last_index: "prod_list sh \<noteq> 0 \<Longrightarrow> in_range (last_index sh) sh"
  by (induction sh) (auto simp: in_range_def last_index_def)

text \<open>When the indices of a view lie in the source, only the element count can fail.\<close>

lemma parts_total:
  assumes ok: "tensor_ok t" and off: "off \<le> storage_elements t" and "length ss = length sh"
    and "checked_num_elements sh = Inr (prod_list sh)"
    and source: "\<And>c. in_range c sh \<Longrightarrow> in_range (source c) (tn_shape t) \<and>
      off + stride_dot ss c = tn_offset_elements t + stride_dot (tn_strides t) (source c)"
  shows "\<exists>v. from_shared_parts (tn_storage t) (tn_dtype t) sh ss off (tn_device t) = Inr v"
proof -
  have len: "length (tn_storage t) \<le> usize_max" using ok by (simp add: tensor_ok_def)
  have "storage_elements t \<le> usize_max"
    using order_trans [OF div_le_dividend len] by (simp add: storage_elements_def)
  with off have off_max: "off \<le> usize_max" by simp
  have "off + stride_dot ss (last_index sh) < storage_elements t" if "prod_list sh \<noteq> 0"
    using source [OF in_range_last_index [OF that]] tensor_index_bound [OF ok] by simp
  with assms have "tensor_ok (mk_tensor (tn_storage t) (tn_dtype t) sh ss off (tn_device t))"
    by (simp add: tensor_ok_def storage_elements_def)
  with from_shared_parts_Inr [OF len off_max] show ?thesis by blast
qed

lemma tensor_offset_elements: "tensor_ok t \<Longrightarrow> tn_offset_elements t \<le> storage_elements t"
  by (auto simp: tensor_ok_def split: if_splits)

lemma stride_dot_sum:
  "length ss = length c \<Longrightarrow> stride_dot ss c = (\<Sum>j < length c. c ! j * ss ! j)"
proof (induction ss c rule: stride_dot.induct)
  case (1 s ss c cs)
  then show ?case by (simp add: sum.lessThan_Suc_shift del: sum.lessThan_Suc)
qed auto

lemma stride_dot_permuted:
  assumes ok: "axes_ok p ss" and "length d = length ss"
  shows "stride_dot (permuted p ss) (permuted p d) = stride_dot ss d"
proof -
  have "stride_dot (permuted p ss) (permuted p d) = (\<Sum>j < length ss. d ! (p ! j) * ss ! (p ! j))"
    using axes_ok_nth(1) [OF ok] by (simp add: permuted_def stride_dot_sum)
  also have "\<dots> = (\<Sum>i < length ss. d ! i * ss ! i)"
    by (rule sum.reindex_bij_betw [OF axes_ok_bij [OF ok]])
  finally show ?thesis using assms(2) by (simp add: stride_dot_sum)
qed

lemma position_nth: "distinct p \<Longrightarrow> j < length p \<Longrightarrow> position p (p ! j) = j"
proof (induction p arbitrary: j)
  case (Cons a p)
  then show ?case by (cases j) (auto simp: position_def)
qed simp

lemma permuted_position:
  assumes "axes_ok p sh" and "length c = length sh"
  shows "permuted p (map (\<lambda>a. c ! position p a) [0..<length sh]) = c"
  using assms axes_ok_nth [OF assms(1)] position_nth [of p]
  by (intro nth_equalityI) (simp_all add: permuted_def axes_ok_def)

section \<open>Permutations\<close>

lemma see_tensor_axes:
  assumes "length seen = rank"
  shows "if distinct p \<and> (\<forall>a \<in> set p. a < rank \<and> \<not> seen ! a)
    then \<exists>s. try_fold (see_tensor_axis rank) seen p = Inr s
    else try_fold (see_tensor_axis rank) seen p = fail TensorInvalidPermutation"
  using assms
proof (induction p arbitrary: seen)
  case (Cons a p)
  show ?case
  proof (cases "a < rank \<and> \<not> seen ! a")
    case True
    with Cons.prems have step: "see_tensor_axis rank seen a = Inr (seen[a := True])"
      by (simp add: see_tensor_axis_def)
    have "distinct (a # p) \<and> (\<forall>b \<in> set (a # p). b < rank \<and> \<not> seen ! b) \<longleftrightarrow>
        distinct p \<and> (\<forall>b \<in> set p. b < rank \<and> \<not> seen[a := True] ! b)"
      using True Cons.prems by (auto simp: nth_list_update)
    with Cons.IH [of "seen[a := True]"] Cons.prems step show ?thesis by simp
  next
    case False
    with Cons.prems have "see_tensor_axis rank seen a = fail TensorInvalidPermutation"
      by (simp add: see_tensor_axis_def)
    with False show ?thesis by simp
  qed
qed simp

lemma axes_ok_iff: "axes_ok p ds \<longleftrightarrow> length p = length ds \<and> distinct p \<and> (\<forall>a \<in> set p. a < length ds)"
proof
  assume r: "length p = length ds \<and> distinct p \<and> (\<forall>a \<in> set p. a < length ds)"
  then have "card (set p) = card {..<length ds}" "set p \<subseteq> {..<length ds}" by (auto simp: distinct_card)
  then have "set p = {..<length ds}" by (intro card_subset_eq) simp_all
  with r show "axes_ok p ds" by (simp add: axes_ok_def)
qed (auto simp: axes_ok_def)

lemma axes_ok_cong: "length xs = length ys \<Longrightarrow> axes_ok p xs = axes_ok p ys"
  by (simp add: axes_ok_def)

lemma tensor_permute_eq:
  assumes ok: "tensor_ok t"
  shows "tensor_permute t p =
    (if axes_ok p (tn_shape t)
     then from_shared_parts (tn_storage t) (tn_dtype t) (permuted p (tn_shape t)) (permuted p (tn_strides t))
            (tn_offset_elements t) (tn_device t)
     else fail TensorInvalidPermutation)"
proof -
  let ?n = "length (tn_shape t)"
  have len: "length (tn_strides t) = ?n" using ok by (simp add: tensor_ok_def)
  note seen = see_tensor_axes [of "replicate ?n False" ?n p]
  show ?thesis
  proof (cases "axes_ok p (tn_shape t)")
    case True
    then have p: "length p = ?n" "distinct p" "\<forall>a \<in> set p. a < ?n" by (simp_all add: axes_ok_iff)
    with seen obtain s where "try_fold (see_tensor_axis ?n) (replicate ?n False) p = Inr s" by auto
    moreover have
      "(traverse (idx (tn_shape t)) p :: (tensor_error, _) outcome) = Inr (permuted p (tn_shape t))"
      "(traverse (idx (tn_strides t)) p :: (tensor_error, _) outcome) = Inr (permuted p (tn_strides t))"
      unfolding permuted_def using p(3) len by (auto intro!: traverse_map)
    ultimately show ?thesis using True p(1)
      by (simp add: tensor_permute_def tensor_rank_def require_def Let_def)
  next
    case False
    then show ?thesis
      using seen by (auto simp: axes_ok_iff tensor_permute_def tensor_rank_def require_def Let_def)
  qed
qed

lemma permute_source:
  assumes p: "axes_ok p sh" and len: "length ss = length sh" and c: "in_range c (permuted p sh)"
  shows "in_range (view_source sh (PermuteView p) c) sh \<and>
    off + stride_dot (permuted p ss) c = off + stride_dot ss (view_source sh (PermuteView p) c)"
proof -
  obtain d where d: "in_range d sh" "permuted p d = c" using unpermute [OF p c] by blast
  have "view_source sh (PermuteView p) c = d"
  proof (intro nth_equalityI)
    fix a assume "a < length (view_source sh (PermuteView p) c)"
    then have a: "a < length sh" by simp
    then have "a \<in> set p" using p by (simp add: axes_ok_def)
    then obtain j where j: "j < length p" "p ! j = a" by (auto simp: in_set_conv_nth)
    then have "position p a = j" using p position_nth [of p j] by (simp add: axes_ok_def)
    with a d(2) j show "view_source sh (PermuteView p) c ! a = d ! a" by (auto simp: permuted_def)
  qed (use in_range_length [OF d(1)] in simp)
  moreover have "stride_dot (permuted p ss) c = stride_dot ss d"
    using stride_dot_permuted [of p ss d] p d len axes_ok_cong [OF len] by (simp add: in_range_length)
  ultimately show ?thesis using d(1) by simp
qed

lemma permute_reads:
  assumes ok: "tensor_ok t" and v: "tensor_permute t p = Inr v"
  shows "reads_as v t (permuted p (tn_shape t)) (view_source (tn_shape t) (PermuteView p))"
proof -
  have p: "axes_ok p (tn_shape t)"
    and parts: "from_shared_parts (tn_storage t) (tn_dtype t) (permuted p (tn_shape t))
      (permuted p (tn_strides t)) (tn_offset_elements t) (tn_device t) = Inr v"
    using v tensor_permute_eq [OF ok, of p] by (simp_all split: if_splits)
  have len: "length (tn_strides t) = length (tn_shape t)" using ok by (simp add: tensor_ok_def)
  show ?thesis
    by (rule reads_as_parts [OF ok tensor_offset_le [OF ok] parts permute_source [OF p len]])
qed

lemma swapped_nth:
  "k < n \<Longrightarrow> i < n \<Longrightarrow> j < n \<Longrightarrow> swapped n i j ! k = (if k = j then i else if k = i then j else k)"
  by (simp add: swapped_def nth_list_update)

lemma axes_ok_swapped: "i < length ds \<Longrightarrow> j < length ds \<Longrightarrow> axes_ok (swapped (length ds) i j) ds"
proof -
  assume ij: "i < length ds" "j < length ds"
  let ?u = "[0..<length ds]"
  have "swapped (length ds) i j = ?u[i := ?u ! j, j := ?u ! i]" using ij by (simp add: swapped_def)
  moreover have "distinct (?u[i := ?u ! j, j := ?u ! i])" using ij by (subst distinct_swap) simp_all
  moreover have "set (?u[i := ?u ! j, j := ?u ! i]) = {..<length ds}"
    using ij by (subst set_swap) (simp_all add: atLeast0LessThan)
  ultimately show ?thesis by (simp only: axes_ok_def length_list_update length_upt diff_zero simp_thms)
qed

lemma position_swapped:
  assumes "a < n" "i < n" "j < n"
  shows "position (swapped n i j) a = (if a = i then j else if a = j then i else a)"
proof -
  let ?k = "if a = i then j else if a = j then i else a"
  have "axes_ok (swapped n i j) [0..<n]" using axes_ok_swapped [of i "[0..<n]" j] assms by simp
  then have "distinct (swapped n i j)" "length (swapped n i j) = n" by (simp_all add: axes_ok_def)
  moreover have "?k < n" "swapped n i j ! ?k = a" using assms by (auto simp: swapped_nth)
  ultimately show ?thesis using position_nth [of "swapped n i j" ?k] by simp
qed

lemma tensor_transpose_eq:
  "tensor_transpose t i j =
    (if i \<ge> length (tn_shape t) then fail (InvalidAxis i (length (tn_shape t)))
     else if j \<ge> length (tn_shape t) then fail (InvalidAxis j (length (tn_shape t)))
     else tensor_permute t (swapped (length (tn_shape t)) i j))"
  by (simp add: tensor_transpose_def tensor_rank_def require_def Let_def swapped_def)

lemma transpose_reads:
  assumes ok: "tensor_ok t" and v: "tensor_transpose t i j = Inr v"
  shows "reads_as v t (view_shape (tn_shape t) (TransposeView i j)) (view_source (tn_shape t) (TransposeView i j))"
proof -
  let ?n = "length (tn_shape t)"
  have ij: "i < ?n" "j < ?n" and p: "tensor_permute t (swapped ?n i j) = Inr v"
    using v tensor_transpose_eq [of t i j] by (simp_all split: if_splits)
  have "view_source (tn_shape t) (PermuteView (swapped ?n i j)) c = view_source (tn_shape t) (TransposeView i j) c"
    if "in_range c (permuted (swapped ?n i j) (tn_shape t))" for c
  proof -
    have "length c = ?n"
      using in_range_length [OF that] axes_ok_nth(1) [OF axes_ok_swapped [OF ij]] by (simp add: permuted_def)
    then show ?thesis
      using ij by (intro nth_equalityI) (simp_all add: position_swapped nth_list_update)
  qed
  with permute_reads [OF ok p] show ?thesis by (simp add: reads_as_def)
qed

section \<open>Slices\<close>

lemma stride_dot_update:
  "a < length ss \<Longrightarrow> length c = length ss \<Longrightarrow>
    start * ss ! a + stride_dot (ss[a := ss ! a * step]) c = stride_dot ss (c[a := start + c ! a * step])"
proof (induction ss c arbitrary: a rule: stride_dot.induct)
  case (1 s ss x cs)
  then show ?case by (cases a) (auto simp: algebra_simps)
qed auto

lemma tensor_slice_eq:
  assumes "tensor_ok t"
  shows "tensor_slice t axis start stop step =
    (if axis \<ge> length (tn_shape t) then fail (InvalidAxis axis (length (tn_shape t)))
     else if step = 0 \<or> start > stop \<or> stop > tn_shape t ! axis then fail InvalidSlice
     else if start * tn_strides t ! axis > usize_max then fail TensorShapeOverflow
     else if tn_offset_elements t + start * tn_strides t ! axis > usize_max then fail TensorShapeOverflow
     else if tn_strides t ! axis * step > usize_max then fail TensorShapeOverflow
     else from_shared_parts (tn_storage t) (tn_dtype t)
            (view_shape (tn_shape t) (SliceView axis start stop step))
            ((tn_strides t)[axis := tn_strides t ! axis * step])
            (tn_offset_elements t + start * tn_strides t ! axis) (tn_device t))"
  using assms
  by (auto simp: tensor_slice_def tensor_rank_def require_def Let_def tensor_ok_def checked_mul_def checked_add_def)

lemma slice_source:
  assumes axis: "axis < length sh" and len: "length ss = length sh"
    and args: "start \<le> stop" "stop \<le> sh ! axis"
    and c: "in_range c (view_shape sh (SliceView axis start stop step))"
  shows "in_range (view_source sh (SliceView axis start stop step) c) sh \<and>
    off + start * ss ! axis + stride_dot (ss[axis := ss ! axis * step]) c =
    off + stride_dot ss (view_source sh (SliceView axis start stop step) c)"
proof -
  have lc: "length c = length sh" using in_range_length [OF c] by simp
  have ca: "c ! axis < (if stop = start then 0 else 1 + (stop - start - 1) div step)"
    using c axis by (auto simp: in_range_def list_all2_conv_all_nth)
  then have span: "stop \<noteq> start" "c ! axis \<le> (stop - start - 1) div step" by (simp_all split: if_splits)
  have "c ! axis * step \<le> (stop - start - 1) div step * step" using span(2) by simp
  also have "\<dots> \<le> stop - start - 1" by simp
  finally have "start + c ! axis * step < sh ! axis" using span(1) args by simp
  then have "in_range (c[axis := start + c ! axis * step]) sh"
    using c axis by (auto simp: in_range_def list_all2_conv_all_nth nth_list_update)
  with stride_dot_update [of axis ss c start step] axis len lc show ?thesis by simp
qed

lemma slice_reads:
  assumes ok: "tensor_ok t" and v: "tensor_slice t axis start stop step = Inr v"
  shows "reads_as v t (view_shape (tn_shape t) (SliceView axis start stop step))
    (view_source (tn_shape t) (SliceView axis start stop step))"
proof -
  have axis: "axis < length (tn_shape t)" and args: "start \<le> stop" "stop \<le> tn_shape t ! axis"
    and off: "tn_offset_elements t + start * tn_strides t ! axis \<le> usize_max"
    and parts: "from_shared_parts (tn_storage t) (tn_dtype t)
      (view_shape (tn_shape t) (SliceView axis start stop step))
      ((tn_strides t)[axis := tn_strides t ! axis * step])
      (tn_offset_elements t + start * tn_strides t ! axis) (tn_device t) = Inr v"
    using v unfolding tensor_slice_eq [OF ok] by (simp_all split: if_splits)
  have len: "length (tn_strides t) = length (tn_shape t)" using ok by (simp add: tensor_ok_def)
  show ?thesis
    by (rule reads_as_parts [OF ok off parts slice_source [OF axis len args]])
qed

section \<open>Broadcasts\<close>

definition broadcast_stride :: "shape \<Rightarrow> strides \<Rightarrow> shape \<Rightarrow> usize \<Rightarrow> usize" where
  "broadcast_stride sh ss target i = (if sh ! i = target ! (i + (length target - length sh)) then ss ! i else 0)"

definition broadcast_strides :: "shape \<Rightarrow> strides \<Rightarrow> shape \<Rightarrow> strides" where
  "broadcast_strides sh ss target =
     replicate (length target - length sh) 0 @ map (broadcast_stride sh ss target) [0..<length sh]"

definition broadcasts :: "shape \<Rightarrow> shape \<Rightarrow> bool" where
  "broadcasts sh target \<longleftrightarrow> length sh \<le> length target \<and>
     list_all2 (\<lambda>d d'. d = d' \<or> d = 1) sh (drop (length target - length sh) target)"

lemma broadcasts_iff:
  "broadcasts sh target \<longleftrightarrow> length sh \<le> length target \<and>
    (\<forall>i < length sh. sh ! i = target ! (i + (length target - length sh)) \<or> sh ! i = 1)"
  by (auto simp: broadcasts_def list_all2_conv_all_nth add.commute)

lemma broadcast_fold:
  assumes len: "length (tn_strides t) = length (tn_shape t)" "length (tn_shape t) \<le> length target"
    and "k \<le> length (tn_shape t)"
  defines "\<delta> \<equiv> length target - length (tn_shape t)"
  shows "try_fold (broadcast_axis t target \<delta>) (replicate (length target) 0) [0..<k] =
    (if \<forall>i < k. tn_shape t ! i = target ! (i + \<delta>) \<or> tn_shape t ! i = 1
     then Inr (replicate \<delta> 0 @ map (broadcast_stride (tn_shape t) (tn_strides t) target) [0..<k] @
               replicate (length (tn_shape t) - k) 0)
     else fail (BroadcastMismatch (tn_shape t) target))"
  using assms(3)
proof (induction k)
  case 0
  then show ?case using len(2) by (simp add: \<delta>_def flip: replicate_add)
next
  case (Suc k)
  let ?n = "length (tn_shape t)"
  let ?st = "replicate \<delta> 0 @ map (broadcast_stride (tn_shape t) (tn_strides t) target) [0..<k]"
  have k: "k < ?n" "k + \<delta> < length target" using Suc.prems len(2) by (simp_all add: \<delta>_def)
  have rest: "replicate (?n - k) 0 = (0 :: nat) # replicate (?n - Suc k) 0"
    using k(1) by (simp add: Suc_diff_Suc flip: replicate_Suc)
  have "broadcast_axis t target \<delta> (?st @ replicate (?n - k) 0) k =
      (if tn_shape t ! k = target ! (k + \<delta>) \<or> tn_shape t ! k = 1
       then Inr (?st @ broadcast_stride (tn_shape t) (tn_strides t) target k # replicate (?n - Suc k) 0)
       else fail (BroadcastMismatch (tn_shape t) target))"
    using k len by (simp add: broadcast_axis_def broadcast_stride_def \<delta>_def [symmetric] rest list_update_append)
  with Suc k(1) show ?case by (auto simp: all_less_Suc)
qed

lemma tensor_broadcast_eq:
  assumes "tensor_ok t"
  shows "tensor_broadcast_to t target =
    (if broadcasts (tn_shape t) target
     then from_shared_parts (tn_storage t) (tn_dtype t) target
            (broadcast_strides (tn_shape t) (tn_strides t) target) (tn_offset_elements t) (tn_device t)
     else fail (BroadcastMismatch (tn_shape t) target))"
proof (cases "length (tn_shape t) \<le> length target")
  case True
  have "length (tn_strides t) = length (tn_shape t)" using assms by (simp add: tensor_ok_def)
  note fold = broadcast_fold [OF this True order_refl]
  have cond: "(\<forall>i < length (tn_shape t). tn_shape t ! i = target ! (i + (length target - length (tn_shape t))) \<or>
      tn_shape t ! i = 1) \<longleftrightarrow> broadcasts (tn_shape t) target"
    using True by (simp add: broadcasts_iff)
  from fold [unfolded cond] True show ?thesis
    by (simp add: tensor_broadcast_to_def tensor_rank_def require_def Let_def broadcast_strides_def)
next
  case False
  then show ?thesis
    by (simp add: tensor_broadcast_to_def tensor_rank_def require_def broadcasts_iff)
qed

lemma stride_dot_drop: "stride_dot (replicate n 0 @ ss) c = stride_dot ss (drop n c)"
proof (induction n arbitrary: c)
  case (Suc n)
  then show ?case by (cases c) auto
qed simp

lemma broadcast_source:
  assumes b: "broadcasts sh target" and len: "length ss = length sh" and c: "in_range c target"
  shows "in_range (view_source sh (BroadcastView target) c) sh \<and>
    off + stride_dot (broadcast_strides sh ss target) c =
    off + stride_dot ss (view_source sh (BroadcastView target) c)"
proof -
  let ?d = "length target - length sh" and ?c = "view_source sh (BroadcastView target) c"
  have le: "length sh \<le> length target" using b by (simp add: broadcasts_iff)
  have lc: "length c = length target" by (rule in_range_length [OF c])
  have lens: "length (drop ?d c) = length sh" "length ?c = length sh" using le lc by simp_all
  have at: "drop ?d c ! i < target ! (i + ?d)" "sh ! i = target ! (i + ?d) \<or> sh ! i = 1"
    "?c ! i = (if sh ! i = 1 then 0 else drop ?d c ! i)" if "i < length sh" for i
    using c b le lc that
    by (auto simp: in_range_def list_all2_conv_all_nth broadcasts_iff add.commute [of ?d])
  have "in_range ?c sh"
    unfolding in_range_def list_all2_conv_all_nth
  proof (intro conjI allI impI)
    fix i assume "i < length ?c"
    with lens at [of i] show "?c ! i < sh ! i" by (auto split: if_splits)
  qed (use lens in simp)
  moreover have "stride_dot (broadcast_strides sh ss target) c =
      (\<Sum>i < length sh. drop ?d c ! i * broadcast_stride sh ss target i)"
    unfolding broadcast_strides_def stride_dot_drop using lens(1) by (simp add: stride_dot_sum)
  moreover have "\<dots> = (\<Sum>i < length sh. ?c ! i * ss ! i)"
  proof (rule sum.cong [OF refl])
    fix i assume "i \<in> {..<length sh}"
    then have "i < length sh" by simp
    with at [of i] show "drop ?d c ! i * broadcast_stride sh ss target i = ?c ! i * ss ! i"
      by (auto simp: broadcast_stride_def split: if_splits)
  qed
  moreover have "\<dots> = stride_dot ss ?c" using len lens(2) by (simp add: stride_dot_sum)
  ultimately show ?thesis by simp
qed

lemma broadcast_reads:
  assumes ok: "tensor_ok t" and v: "tensor_broadcast_to t target = Inr v"
  shows "reads_as v t target (view_source (tn_shape t) (BroadcastView target))"
proof -
  have b: "broadcasts (tn_shape t) target"
    and parts: "from_shared_parts (tn_storage t) (tn_dtype t) target
      (broadcast_strides (tn_shape t) (tn_strides t) target) (tn_offset_elements t) (tn_device t) = Inr v"
    using v tensor_broadcast_eq [OF ok, of target] by (simp_all split: if_splits)
  have len: "length (tn_strides t) = length (tn_shape t)" using ok by (simp add: tensor_ok_def)
  show ?thesis
    by (rule reads_as_parts [OF ok tensor_offset_le [OF ok] parts broadcast_source [OF b len]])
qed

section \<open>Reshapes\<close>

lemma ravel_unravel: "i < prod_list ds \<Longrightarrow> in_range (unravel ds i) ds \<and> ravel ds (unravel ds i) = i"
proof (induction ds arbitrary: i)
  case (Cons d ds)
  have pos: "prod_list ds \<noteq> 0" using Cons.prems by (intro notI) simp
  then have "i div prod_list ds < d" using Cons.prems by (simp add: less_mult_imp_div_less)
  with Cons.IH [of "i mod prod_list ds"] pos show ?case by (simp add: in_range_def)
qed (simp add: in_range_def)

lemma is_contiguous_strides: "is_contiguous t \<Longrightarrow> tn_strides t = row_major (tn_shape t)"
  by (auto simp: is_contiguous_def split: sum.splits dest: contiguous_Inr)

lemma contiguous_cases:
  obtains "contiguous sh = Inr (row_major sh)" | "(contiguous sh :: (compute_error, _) outcome) = fail ShapeOverflow"
proof -
  have "contiguous sh = Inr (row_major sh) \<or> contiguous sh = fail ShapeOverflow"
  proof (induction sh rule: contiguous.induct)
    case (3 d d' ds)
    then show ?case by (auto simp: outcome_simps ok_or_def try_bind_def dest: contiguous_Inr split: option.splits list.splits)
  qed simp_all
  with that show ?thesis by blast
qed

lemma tensor_reshape_eq:
  assumes "tensor_ok t"
  shows "tensor_reshape t sh =
    (if checked_num_elements sh \<noteq> Inr (prod_list sh) then fail TensorShapeOverflow
     else if prod_list sh \<noteq> prod_list (tn_shape t)
     then fail (ReshapeElementCount (prod_list (tn_shape t)) (prod_list sh))
     else if \<not> is_contiguous t then fail ReshapeRequiresContiguous
     else if contiguous sh \<noteq> Inr (row_major sh) then fail TensorShapeOverflow
     else from_shared_parts (tn_storage t) (tn_dtype t) sh (row_major sh) (tn_offset_elements t) (tn_device t))"
proof -
  have "numel t = Inr (prod_list (tn_shape t))" using assms by (simp add: numel_def tensor_ok_def)
  then show ?thesis
    by (cases rule: checked_numel_cases [of sh]; cases rule: contiguous_cases [of sh])
      (simp_all add: tensor_reshape_def require_def)
qed

lemma reshape_source:
  assumes "prod_list sh' = prod_list sh" and c: "in_range c sh'"
  shows "in_range (view_source sh (ReshapeView sh') c) sh \<and>
    off + stride_dot (row_major sh') c = off + stride_dot (row_major sh) (view_source sh (ReshapeView sh') c)"
proof -
  have "ravel sh' c < prod_list sh" using ravel_less [OF c] assms(1) by simp
  from ravel_unravel [OF this] in_range_length [OF c] show ?thesis
    by (simp add: stride_dot_row_major in_range_length)
qed

lemma reshape_reads:
  assumes ok: "tensor_ok t" and v: "tensor_reshape t sh = Inr v"
  shows "reads_as v t sh (view_source (tn_shape t) (ReshapeView sh))"
proof -
  have n: "prod_list sh = prod_list (tn_shape t)" and cont: "is_contiguous t"
    and parts: "from_shared_parts (tn_storage t) (tn_dtype t) sh (row_major sh) (tn_offset_elements t) (tn_device t) = Inr v"
    using v unfolding tensor_reshape_eq [OF ok] by (simp_all split: if_splits)
  show ?thesis
    using reads_as_parts [OF ok tensor_offset_le [OF ok] parts]
      reshape_source [OF n, where off = "tn_offset_elements t"]
    by (simp add: is_contiguous_strides [OF cont])
qed

lemma apply_view_reads:
  assumes "tensor_ok t" and "apply_view t op = Inr v"
  shows "reads_as v t (view_shape (tn_shape t) op) (view_source (tn_shape t) op)"
  using assms permute_reads [of t _ v] transpose_reads [of t _ _ v] slice_reads [of t _ _ _ _ v]
    broadcast_reads [of t _ v] reshape_reads [of t _ v]
  by (cases op) simp_all

section \<open>Construction and materialisation\<close>

lemma concat_chunks:
  "concat (map (\<lambda>i. take w (drop ((off + i) * w) bs)) [0..<n]) = take (n * w) (drop (off * w) bs)"
proof (induction n)
  case (Suc n)
  have "Suc n * w = n * w + w" "(off + n) * w = n * w + off * w" by (simp_all add: algebra_simps)
  then show ?case using Suc by (simp only: take_add) simp
qed simp

lemma contiguous_payload:
  assumes "tn_strides t = row_major (tn_shape t)"
  shows "concat (map (tensor_at t) (indices (tn_shape t))) =
    take (prod_list (tn_shape t) * size_bytes (tn_dtype t))
      (drop (tn_offset_elements t * size_bytes (tn_dtype t)) (tn_storage t))"
proof -
  let ?w = "size_bytes (tn_dtype t)"
  have "map (tensor_at t) (indices (tn_shape t)) =
      map (\<lambda>i. take ?w (drop ((tn_offset_elements t + i) * ?w) (tn_storage t)))
        (map (ravel (tn_shape t)) (indices (tn_shape t)))"
    using assms by (auto simp: tensor_at_def Let_def set_indices stride_dot_row_major in_range_length)
  then show ?thesis by (simp add: ravel_indices concat_chunks)
qed

lemma tensor_from_bytes_eq:
  "tensor_from_bytes bytes dt sh dev =
    (if checked_num_elements sh \<noteq> Inr (prod_list sh) then fail TensorShapeOverflow
     else if prod_list sh * size_bytes dt > usize_max then fail TensorShapeOverflow
     else if length bytes \<noteq> prod_list sh * size_bytes dt
     then fail (ByteLengthMismatch (prod_list sh * size_bytes dt) (length bytes))
     else if contiguous sh \<noteq> Inr (row_major sh) then fail TensorShapeOverflow
     else Inr (mk_tensor bytes dt sh (row_major sh) 0 dev))"
    (is "_ = ?rhs")
proof (cases "checked_num_elements sh = Inr (prod_list sh) \<and> prod_list sh * size_bytes dt \<le> usize_max \<and>
    length bytes = prod_list sh * size_bytes dt \<and> contiguous sh = Inr (row_major sh)")
  case True
  then have len: "length bytes \<le> usize_max" and n: "length bytes div size_bytes dt = prod_list sh" by simp_all
  have "stride_dot (row_major sh) (last_index sh) < prod_list sh" if "prod_list sh \<noteq> 0"
    using ravel_less [OF in_range_last_index [OF that]]
    by (simp add: stride_dot_row_major last_index_def)
  then have "tensor_ok (mk_tensor bytes dt sh (row_major sh) 0 dev)"
    using True len n by (simp add: tensor_ok_def storage_elements_def)
  with from_shared_parts_Inr [OF len, of 0]
  have "from_shared_parts bytes dt sh (row_major sh) 0 dev = Inr (mk_tensor bytes dt sh (row_major sh) 0 dev)"
    by blast
  then show ?thesis using True by (simp add: tensor_from_bytes_def require_def checked_numel_eq [THEN iffD2])
next
  case False
  then show ?thesis
    by (cases rule: checked_numel_cases [of sh]; cases rule: contiguous_cases [of sh])
      (auto simp: tensor_from_bytes_def require_def checked_mul_def)
qed

lemma tensor_from_bytes_ok:
  assumes "tensor_from_bytes bytes dt sh dev = Inr t"
  shows "tensor_ok t" and "t = mk_tensor bytes dt sh (row_major sh) 0 dev"
    and "length bytes = prod_list sh * size_bytes dt"
proof -
  have c: "checked_num_elements sh = Inr (prod_list sh)" "prod_list sh * size_bytes dt \<le> usize_max"
    and len: "length bytes = prod_list sh * size_bytes dt" and t: "t = mk_tensor bytes dt sh (row_major sh) 0 dev"
    using assms unfolding tensor_from_bytes_eq by (simp_all split: if_splits)
  show "length bytes = prod_list sh * size_bytes dt" and "t = mk_tensor bytes dt sh (row_major sh) 0 dev"
    by (fact len, fact t)
  have "stride_dot (row_major sh) (last_index sh) < prod_list sh" if "prod_list sh \<noteq> 0"
    using ravel_less [OF in_range_last_index [OF that]]
    by (simp add: stride_dot_row_major last_index_def)
  then show "tensor_ok t" using c len by (simp add: t tensor_ok_def storage_elements_def)
qed

text \<open>The tensors that the public interface builds.\<close>

inductive built_tensor :: "tensor \<Rightarrow> bool" where
  from_bytes: "tensor_from_bytes bytes dt sh dev = Inr t \<Longrightarrow> built_tensor t"
| view: "built_tensor t \<Longrightarrow> apply_view t op = Inr v \<Longrightarrow> built_tensor v"
| compact: "built_tensor t \<Longrightarrow> tensor_contiguous t = Inr v \<Longrightarrow> built_tensor v"

lemma built_tensor_ok: "built_tensor t \<Longrightarrow> tensor_ok t"
proof (induction rule: built_tensor.induct)
  case (from_bytes bytes dt sh dev t)
  then show ?case by (rule tensor_from_bytes_ok)
next
  case (view t op v)
  then show ?case using apply_view_reads [of t op v] by (simp add: reads_as_def)
next
  case (compact t v)
  then show ?case
    by (auto simp: tensor_contiguous_def outcome_simps intro: tensor_from_bytes_ok(1))
qed

section \<open>Floats\<close>

lemma chunks4_concat: "\<forall>x \<in> set xs. length x = 4 \<Longrightarrow> chunks4 (concat xs) = xs"
proof (induction xs)
  case (Cons x xs)
  then obtain b bs where "x = b # bs" by (cases x) auto
  with Cons show ?case by (simp del: take_Suc_Cons drop_Suc_Cons)
qed simp

lemma length_tensor_at:
  assumes "tensor_ok t" and "in_range c (tn_shape t)"
  shows "length (tensor_at t c) = size_bytes (tn_dtype t)"
  using tensor_byte_bound [OF assms(1) tensor_index_bound [OF assms]] by (simp add: tensor_at_def Let_def)

lemma to_f32_vec_ok:
  assumes ok: "tensor_ok t" and f32: "tn_dtype t = F32"
  shows "to_f32_vec t = Inr (map (\<lambda>c. u32_from_le (tensor_at t c)) (indices (tn_shape t)))"
proof -
  have len: "\<forall>c \<in> set (indices (tn_shape t)). length (tensor_at t c) = 4"
    using length_tensor_at [OF ok] f32 by (simp add: set_indices)
  then have "chunks4 (concat (map (tensor_at t) (indices (tn_shape t)))) = map (tensor_at t) (indices (tn_shape t))"
    by (intro chunks4_concat) simp
  moreover have "traverse f32_of_chunk (map (tensor_at t) (indices (tn_shape t))) =
      Inr (map (\<lambda>c. u32_from_le (tensor_at t c)) (indices (tn_shape t)))"
    unfolding traverse_map_comp using len by (intro traverse_map) (simp add: f32_of_chunk_def)
  ultimately show ?thesis using f32 to_contiguous_bytes_ok [OF ok] by (simp add: to_f32_vec_def require_def)
qed

end
