(* ===== verification/Tensor_View_Theorems.thy ===== *)
theory Tensor_View_Theorems
  imports Tensor_View_Correct
begin

text \<open>
  What the views promise: which arguments each of them accepts, with the error of every rejection; the
  invariant of the tensors that the interface builds; the element that a view shows; and the payload of
  construction, reshaping and compaction.
\<close>

section \<open>Element counts of derived shapes\<close>

lemma try_fold_mul_smaller:
  assumes "list_all2 (\<le>) sh' sh" and "\<forall>d \<in> set sh. 0 < d" and "a * prod_list sh \<le> usize_max"
  shows "try_fold (\<lambda>total dim. ok_or e (checked_mul total dim)) a sh' = Inr (a * prod_list sh')"
  using assms
proof (induction sh' sh arbitrary: a rule: list_all2_induct)
  case (Cons d' sh' d sh)
  then have pos: "0 < prod_list sh" by (metis list.set_intros(2) not_gr_zero prod_list_0)
  have "a * d' * prod_list sh \<le> a * d * prod_list sh"
    using Cons.hyps(1) by (intro mult_le_mono1 mult_le_mono2)
  moreover have "a * d * prod_list sh \<le> usize_max" using Cons.prems by (simp add: mult.assoc)
  ultimately have rest: "a * d' * prod_list sh \<le> usize_max" by (rule order_trans)
  have "a * d' \<le> a * d' * prod_list sh" using pos by simp
  then have "a * d' \<le> usize_max" using rest by (rule order_trans)
  with Cons.IH [of "a * d'"] Cons.prems(1) rest show ?case by (simp add: mult.assoc)
qed simp

lemma numel_smaller:
  assumes "list_all2 (\<le>) sh' sh" and "prod_list sh \<noteq> 0" and "prod_list sh \<le> usize_max"
  shows "checked_num_elements sh' = Inr (prod_list sh')"
proof -
  have "\<forall>d \<in> set sh. 0 < d" using assms(2) by (auto simp: prod_list_0 intro: gr0I)
  from try_fold_mul_smaller [OF assms(1) this, of 1] assms(3) show ?thesis
    by (simp add: checked_num_elements_def)
qed

lemma numel_positive:
  "prod_list sh \<noteq> 0 \<Longrightarrow> prod_list sh \<le> usize_max \<Longrightarrow> checked_num_elements sh = Inr (prod_list sh)"
  by (rule numel_smaller [of sh sh]) (simp_all add: list_all2_refl)

lemma tensor_ok_numel: "tensor_ok t \<Longrightarrow> prod_list (tn_shape t) \<le> usize_max"
  using checked_num_elements_le by (auto simp: tensor_ok_def)

lemma contiguous_positive:
  "prod_list sh \<noteq> 0 \<Longrightarrow> prod_list sh \<le> usize_max \<Longrightarrow> contiguous sh = Inr (row_major sh)"
  by (rule contiguous_ok) (auto simp: prod_list_0 intro: gr0I)

section \<open>Which views are accepted\<close>

text \<open>What the code rejects, with its error. The specification it is measured against is \<open>view_error\<close> below.\<close>

fun view_rejection :: "tensor \<Rightarrow> view_op \<Rightarrow> tensor_error option" where
  "view_rejection t (PermuteView p) = (if axes_ok p (tn_shape t) then None else Some TensorInvalidPermutation)"
| "view_rejection t (TransposeView i j) =
     (let rank = length (tn_shape t) in
      if i \<ge> rank then Some (InvalidAxis i rank) else if j \<ge> rank then Some (InvalidAxis j rank) else None)"
| "view_rejection t (SliceView axis start stop step) =
     (let rank = length (tn_shape t); stride = tn_strides t ! axis;
          first = tn_offset_elements t + start * stride in
      if axis \<ge> rank then Some (InvalidAxis axis rank)
      else if step = 0 \<or> start > stop \<or> stop > tn_shape t ! axis then Some InvalidSlice
      else if first > usize_max \<or> stride * step > usize_max then Some TensorShapeOverflow
      else if start = stop \<and> first > storage_elements t then Some ViewOutOfBounds
      else None)"
| "view_rejection t (BroadcastView target) =
     (if \<not> broadcasts (tn_shape t) target then Some (BroadcastMismatch (tn_shape t) target)
      else if checked_num_elements target \<noteq> Inr (prod_list target) then Some TensorShapeOverflow
      else None)"
| "view_rejection t (ReshapeView target) =
     (let current = prod_list (tn_shape t); requested = prod_list target in
      if checked_num_elements target \<noteq> Inr requested then Some TensorShapeOverflow
      else if requested \<noteq> current then Some (ReshapeElementCount current requested)
      else if \<not> is_contiguous t then Some ReshapeRequiresContiguous
      else None)"

definition decided_by :: "('e, 'a) outcome \<Rightarrow> 'e option \<Rightarrow> bool" where
  "decided_by r e \<longleftrightarrow> (case e of Some x \<Rightarrow> r = fail x | None \<Rightarrow> \<exists>v. r = Inr v)"

lemma permute_decides:
  assumes ok: "tensor_ok t" and ne: "prod_list (tn_shape t) \<noteq> 0"
  shows "decided_by (tensor_permute t p) (view_rejection t (PermuteView p))"
proof (cases "axes_ok p (tn_shape t)")
  case True
  have len: "length (tn_strides t) = length (tn_shape t)" using ok by (simp add: tensor_ok_def)
  have "checked_num_elements (permuted p (tn_shape t)) = Inr (prod_list (permuted p (tn_shape t)))"
    using ne tensor_ok_numel [OF ok] by (intro numel_positive) (simp_all add: prod_permuted [OF True])
  from parts_total [OF ok tensor_offset_elements [OF ok] _ this permute_source [OF True len]] True
  show ?thesis by (simp add: decided_by_def tensor_permute_eq [OF ok] permuted_def)
qed (simp add: decided_by_def tensor_permute_eq [OF ok])

lemma transpose_decides:
  assumes ok: "tensor_ok t" and ne: "prod_list (tn_shape t) \<noteq> 0"
  shows "decided_by (tensor_transpose t i j) (view_rejection t (TransposeView i j))"
proof (cases "i < length (tn_shape t) \<and> j < length (tn_shape t)")
  case True
  with permute_decides [OF ok ne, of "swapped (length (tn_shape t)) i j"] axes_ok_swapped [of i "tn_shape t" j]
  show ?thesis by (simp add: tensor_transpose_eq)
qed (auto simp: decided_by_def tensor_transpose_eq)

lemma slice_decides:
  assumes ok: "tensor_ok t" and ne: "prod_list (tn_shape t) \<noteq> 0"
  shows "decided_by (tensor_slice t axis start stop step) (view_rejection t (SliceView axis start stop step))"
proof -
  let ?n = "length (tn_shape t)" and ?s = "tn_strides t ! axis" and ?d = "tn_shape t ! axis"
  let ?first = "tn_offset_elements t + start * ?s"
  let ?sh = "view_shape (tn_shape t) (SliceView axis start stop step)"
  let ?parts = "from_shared_parts (tn_storage t) (tn_dtype t) ?sh ((tn_strides t)[axis := ?s * step]) ?first (tn_device t)"
  have len: "length (tn_strides t) = ?n" using ok by (simp add: tensor_ok_def)
  have parts: "decided_by ?parts (if start = stop \<and> ?first > storage_elements t then Some ViewOutOfBounds else None)"
    if axis: "axis < ?n" and args: "step \<noteq> 0" "start \<le> stop" "stop \<le> ?d" and first: "?first \<le> usize_max"
  proof -
    have "(if stop = start then 0 else 1 + (stop - start - 1) div step) \<le> ?d"
    proof (cases "stop = start")
      case False
      have "(stop - start - 1) div step \<le> stop - start - 1" by (rule div_le_dividend)
      also have "\<dots> < ?d" using False args by simp
      finally show ?thesis using False by simp
    qed simp
    then have "list_all2 (\<le>) ?sh (tn_shape t)"
      using axis by (auto simp: list_all2_conv_all_nth nth_list_update)
    then have count: "checked_num_elements ?sh = Inr (prod_list ?sh)"
      by (rule numel_smaller [OF _ ne tensor_ok_numel [OF ok]])
    show ?thesis
    proof (cases "start = stop \<and> ?first > storage_elements t")
      case True
      then have "?sh ! axis = 0" "axis < length ?sh" using axis by simp_all
      then have "prod_list ?sh = 0" by (metis nth_mem prod_list_0)
      with count have "checked_numel ?sh = Inr 0" by (simp add: checked_numel_def)
      moreover have "\<not> ?first \<le> storage_elements t" using True [THEN conjunct2] by simp
      ultimately have "validate_view_bounds ?sh ss ?first (storage_elements t) = fail ViewOutOfBounds" for ss
        by (simp only: validate_view_bounds_def try_bind_Inr require_def simp_thms if_True if_False)
      moreover have "length ?sh = length ((tn_strides t)[axis := ?s * step])" using len by simp
      ultimately have "?parts = fail ViewOutOfBounds"
        using ok unfolding from_shared_parts_def storage_elements_def tensor_ok_def
        by (simp only: require_def Let_def) simp
      then show ?thesis unfolding if_P [OF True] decided_by_def by simp
    next
      case False
      have "?first \<le> storage_elements t"
      proof (cases "start = stop")
        case False
        have "\<forall>i < ?n. 0 < tn_shape t ! i" using ne by (metis gr0I nth_mem prod_list_0)
        with False args axis have "in_range ((replicate ?n 0)[axis := start]) (tn_shape t)"
          by (simp add: in_range_def list_all2_conv_all_nth nth_list_update)
        from tensor_index_bound [OF ok this]
          stride_dot_update [of axis "tn_strides t" "replicate ?n 0" start 0] axis len
        show ?thesis by simp
      qed (use False in simp)
      from parts_total [OF ok this _ count slice_source [where step = step, OF axis len args(2,3)]] len
      show ?thesis unfolding if_not_P [OF False] decided_by_def by simp
    qed
  qed
  show ?thesis
    unfolding tensor_slice_eq [OF ok] using parts
    by (auto simp: decided_by_def Let_def not_le not_less)
qed

lemma broadcast_decides:
  assumes ok: "tensor_ok t"
  shows "decided_by (tensor_broadcast_to t target) (view_rejection t (BroadcastView target))"
proof (cases "broadcasts (tn_shape t) target")
  case True
  let ?ss = "broadcast_strides (tn_shape t) (tn_strides t) target"
  have len: "length (tn_strides t) = length (tn_shape t)" using ok by (simp add: tensor_ok_def)
  have lss: "length ?ss = length target" using True by (simp add: broadcast_strides_def broadcasts_iff)
  show ?thesis
  proof (cases rule: checked_numel_cases [of target])
    case 1
    from parts_total [OF ok tensor_offset_elements [OF ok] lss 1(1) broadcast_source [OF True len]] True 1
    show ?thesis by (simp add: decided_by_def tensor_broadcast_eq [OF ok])
  next
    case (2 e)
    then show ?thesis
      using True ok lss
      by (simp add: decided_by_def tensor_broadcast_eq [OF ok] from_shared_parts_def require_def
          validate_view_bounds_def tensor_ok_def Let_def)
  qed
qed (simp add: decided_by_def tensor_broadcast_eq [OF ok])

lemma reshape_decides:
  assumes ok: "tensor_ok t" and ne: "prod_list (tn_shape t) \<noteq> 0"
  shows "decided_by (tensor_reshape t target) (view_rejection t (ReshapeView target))"
proof (cases "checked_num_elements target = Inr (prod_list target) \<and>
    prod_list target = prod_list (tn_shape t) \<and> is_contiguous t")
  case True
  then have n: "prod_list target = prod_list (tn_shape t)" and cont: "is_contiguous t"
    and count: "checked_num_elements target = Inr (prod_list target)" by simp_all
  have "contiguous target = Inr (row_major target)"
    using ne n tensor_ok_numel [OF ok] by (intro contiguous_positive) simp_all
  moreover have "\<exists>v. from_shared_parts (tn_storage t) (tn_dtype t) target (row_major target)
      (tn_offset_elements t) (tn_device t) = Inr v"
    using parts_total [OF ok tensor_offset_elements [OF ok] _ count, where source = "view_source (tn_shape t) (ReshapeView target)"]
      reshape_source [OF n, where off = "tn_offset_elements t"] is_contiguous_strides [OF cont] by simp
  ultimately show ?thesis using True by (simp add: decided_by_def tensor_reshape_eq [OF ok] Let_def)
next
  case False
  then show ?thesis by (auto simp: decided_by_def tensor_reshape_eq [OF ok] Let_def)
qed

lemma apply_view_decides:
  assumes "tensor_ok t" and "prod_list (tn_shape t) \<noteq> 0"
  shows "decided_by (apply_view t op) (view_rejection t op)"
  using permute_decides [OF assms] transpose_decides [OF assms] slice_decides [OF assms]
    broadcast_decides [OF assms(1)] reshape_decides [OF assms]
  by (cases op) (simp_all del: view_rejection.simps)

lemma apply_view_no_panic:
  assumes ok: "tensor_ok t"
  shows "apply_view t op \<noteq> Inl Panic"
  using from_shared_parts_no_panic
  by (cases op) (simp_all add: tensor_permute_eq [OF ok] tensor_transpose_eq tensor_slice_eq [OF ok]
      tensor_broadcast_eq [OF ok] tensor_reshape_eq [OF ok])

section \<open>Properties\<close>

text \<open>every tensor that construction, views and compaction can build keeps its invariant; reading it
  never panics and yields the bytes of its elements in row-major order.\<close>

theorem built_tensor_reads:
  assumes "built_tensor t"
  shows "tensor_ok t \<and> numel t = Inr (prod_list (tn_shape t)) \<and>
    to_contiguous_bytes t = Inr (concat (map (tensor_at t) (indices (tn_shape t)))) \<and>
    to_f32_vec t = (if tn_dtype t = F32
      then Inr (map (\<lambda>c. u32_from_le (tensor_at t c)) (indices (tn_shape t)))
      else fail (DTypeMismatch F32 (tn_dtype t))) \<and>
    apply_view t op \<noteq> Inl Panic \<and> tensor_contiguous t \<noteq> Inl Panic"
proof (intro conjI)
  show ok: "tensor_ok t" using assms by (rule built_tensor_ok)
  then show "numel t = Inr (prod_list (tn_shape t))" by (simp add: numel_def tensor_ok_def)
  show bytes: "to_contiguous_bytes t = Inr (concat (map (tensor_at t) (indices (tn_shape t))))"
    by (rule to_contiguous_bytes_ok [OF ok])
  show "to_f32_vec t = (if tn_dtype t = F32
      then Inr (map (\<lambda>c. u32_from_le (tensor_at t c)) (indices (tn_shape t)))
      else fail (DTypeMismatch F32 (tn_dtype t)))"
    using to_f32_vec_ok [OF ok] by (simp add: to_f32_vec_def require_def)
  show "apply_view t op \<noteq> Inl Panic" by (rule apply_view_no_panic [OF ok])
  show "tensor_contiguous t \<noteq> Inl Panic"
    by (simp add: tensor_contiguous_def bytes tensor_from_bytes_eq)
qed

text \<open>A concrete source for the witnesses: two rows of three floats.\<close>

definition sample_tensor :: tensor where
  "sample_tensor = mk_tensor (concat (map u32_le [1, 2, 3, 4, 5, 6])) F32 [2, 3] [3, 1] 0 HostDevice"

lemma length_u32_le: "length (u32_le w) = 4"
  by (simp add: u32_le_def)

lemma length_sample: "length (concat (map u32_le [1, 2, 3, 4, 5, 6])) = 24"
  by (simp add: length_u32_le)

lemma sample_from_f32: "tensor_from_f32 [1, 2, 3, 4, 5, 6] [2, 3] = Inr sample_tensor"
proof -
  have "checked_num_elements [2, 3] = Inr 6" "contiguous [2, 3] = Inr [3, 1]"
    by (simp_all add: checked_num_elements_def checked_mul_def)
  then show ?thesis
    using length_sample
    by (simp add: tensor_from_f32_def tensor_from_bytes_eq sample_tensor_def)
qed

lemma sample_built: "built_tensor sample_tensor"
  using sample_from_f32 unfolding tensor_from_f32_def by (rule built_tensor.from_bytes)

theorem built_tensor_reads_witness:
  "to_f32_vec sample_tensor = Inr (map (\<lambda>c. u32_from_le (tensor_at sample_tensor c)) (indices [2, 3]))"
  using built_tensor_reads [OF sample_built] by (simp add: sample_tensor_def)

text \<open>C37: a view shares the storage of its source and shows at each index the element of the source that
  its meaning on indices names: permutation and transposition move indices, a slice starts at
  \<open>start\<close> and steps by \<open>step\<close>, a broadcast ignores the broadcast axes, a reshape keeps the
  row-major position.\<close>

theorem view_reads_source:
  assumes "built_tensor t" and "apply_view t op = Inr v"
  shows "tensor_ok v \<and> tn_shape v = view_shape (tn_shape t) op \<and>
    tn_storage v = tn_storage t \<and> tn_dtype v = tn_dtype t \<and> tn_device v = tn_device t \<and>
    (\<forall>c. in_range c (tn_shape v) \<longrightarrow> in_range (view_source (tn_shape t) op c) (tn_shape t) \<and>
      tensor_at v c = tensor_at t (view_source (tn_shape t) op c))"
  using apply_view_reads [OF built_tensor_ok [OF assms(1)] assms(2)] by (simp_all add: reads_as_def)

lemma sample_slice:
  "apply_view sample_tensor (SliceView 1 0 3 2) = Inr (sample_tensor\<lparr>tn_shape := [2, 2], tn_strides := [3, 2]\<rparr>)"
proof -
  have ok: "tensor_ok sample_tensor" by (rule built_tensor_ok [OF sample_built])
  let ?st = "concat (map u32_le [1, 2, 3, 4, 5, 6])"
  have st: "tn_storage sample_tensor = ?st" by (simp only: sample_tensor_def tensor.select_convs)
  have "tensor_ok (mk_tensor ?st F32 [2, 2] [3, 2] 0 HostDevice)"
    by (simp add: tensor_ok_def storage_elements_def checked_num_elements_def checked_mul_def last_index_def length_u32_le)
  moreover have "length ?st \<le> usize_max" using length_sample by simp
  ultimately have parts: "from_shared_parts ?st F32 [2, 2] [3, 2] 0 HostDevice = Inr (mk_tensor ?st F32 [2, 2] [3, 2] 0 HostDevice)"
    using from_shared_parts_Inr [of ?st 0 F32 "[2, 2]" "[3, 2]" HostDevice] by blast
  have "view_shape [2, 3] (SliceView 1 0 3 2) = [2, 2]" by simp
  then show ?thesis
    unfolding apply_view.simps tensor_slice_eq [OF ok]
    using parts by (simp add: sample_tensor_def del: view_shape.simps)
qed

theorem view_reads_source_witness:
  "tensor_at (sample_tensor\<lparr>tn_shape := [2, 2], tn_strides := [3, 2]\<rparr>) [1, 1] = tensor_at sample_tensor [1, 2]"
proof -
  have "view_source (tn_shape sample_tensor) (SliceView 1 0 3 2) [1, 1] = [1, 2]"
    by (simp add: sample_tensor_def)
  moreover have "in_range [1, 1] (tn_shape (sample_tensor\<lparr>tn_shape := [2, 2], tn_strides := [3, 2]\<rparr>))"
    by (simp add: in_range_def)
  ultimately show ?thesis using view_reads_source [OF sample_built sample_slice] by metis
qed

text \<open>
  The specification of the views. A permutation lists every axis once; a transposition names two axes; a
  slice names an axis, a positive step and a half-open range within the dimension, so that an empty range at
  either end is valid; a broadcast aligns the shapes from the right; a reshape keeps the element count
  and needs a contiguous tensor. Element counts must be representable.
\<close>

fun view_error :: "tensor \<Rightarrow> view_op \<Rightarrow> tensor_error option" where
  "view_error t (PermuteView p) =
     (if distinct p \<and> set p = {..<length (tn_shape t)} then None else Some TensorInvalidPermutation)"
| "view_error t (TransposeView i j) =
     (let rank = length (tn_shape t) in
      if i \<ge> rank then Some (InvalidAxis i rank) else if j \<ge> rank then Some (InvalidAxis j rank) else None)"
| "view_error t (SliceView axis start stop step) =
     (if axis \<ge> length (tn_shape t) then Some (InvalidAxis axis (length (tn_shape t)))
      else if step = 0 \<or> start > stop \<or> stop > tn_shape t ! axis then Some InvalidSlice
      else None)"
| "view_error t (BroadcastView target) =
     (if \<not> broadcasts (tn_shape t) target then Some (BroadcastMismatch (tn_shape t) target)
      else if checked_num_elements target \<noteq> Inr (prod_list target) then Some TensorShapeOverflow
      else None)"
| "view_error t (ReshapeView target) =
     (let current = prod_list (tn_shape t); requested = prod_list target in
      if checked_num_elements target \<noteq> Inr requested then Some TensorShapeOverflow
      else if requested \<noteq> current then Some (ReshapeElementCount current requested)
      else if \<not> is_contiguous t then Some ReshapeRequiresContiguous
      else None)"

text \<open>
  Two kinds of valid slices are nevertheless refused: those whose new stride is no 64-bit number, and the
  empty slice at the very end of an axis, when the offset computed for it passes the storage.
\<close>

fun stride_unrepresentable :: "tensor \<Rightarrow> view_op \<Rightarrow> bool" where
  "stride_unrepresentable t (SliceView axis start stop step) \<longleftrightarrow> tn_strides t ! axis * step > usize_max"
| "stride_unrepresentable t _ \<longleftrightarrow> False"

fun empty_end_past_storage :: "tensor \<Rightarrow> view_op \<Rightarrow> bool" where
  "empty_end_past_storage t (SliceView axis start stop step) \<longleftrightarrow>
     start = tn_shape t ! axis \<and> stop = tn_shape t ! axis \<and>
     tn_offset_elements t + start * tn_strides t ! axis > storage_elements t"
| "empty_end_past_storage t _ \<longleftrightarrow> False"

lemma slice_start_stored:
  assumes ok: "tensor_ok t" and ne: "prod_list (tn_shape t) \<noteq> 0" and axis: "axis < length (tn_shape t)"
    and start: "start < tn_shape t ! axis"
  shows "tn_offset_elements t + start * tn_strides t ! axis \<le> storage_elements t"
proof -
  let ?n = "length (tn_shape t)"
  have len: "length (tn_strides t) = ?n" using ok by (simp add: tensor_ok_def)
  have "\<forall>i < ?n. 0 < tn_shape t ! i" using ne by (metis gr0I nth_mem prod_list_0)
  with start axis have "in_range ((replicate ?n 0)[axis := start]) (tn_shape t)"
    by (simp add: in_range_def list_all2_conv_all_nth nth_list_update)
  from tensor_index_bound [OF ok this]
    stride_dot_update [of axis "tn_strides t" "replicate ?n 0" start 0] axis len
  show ?thesis by simp
qed

lemma storage_elements_le: "tensor_ok t \<Longrightarrow> storage_elements t \<le> usize_max"
  by (auto simp: tensor_ok_def storage_elements_def intro: le_trans [OF div_le_dividend])

lemma axes_ok_set: "axes_ok p ds \<longleftrightarrow> distinct p \<and> set p = {..<length ds}"
  unfolding axes_ok_def by (metis card_lessThan distinct_card)

lemma view_rejection_spec:
  assumes ok: "tensor_ok t" and ne: "prod_list (tn_shape t) \<noteq> 0"
  shows "view_rejection t op =
    (case view_error t op of
       Some e \<Rightarrow> Some e
     | None \<Rightarrow>
         if stride_unrepresentable t op then Some TensorShapeOverflow
         else if empty_end_past_storage t op
         then Some (case op of SliceView axis start _ _ \<Rightarrow>
             if tn_offset_elements t + start * tn_strides t ! axis > usize_max then TensorShapeOverflow
             else ViewOutOfBounds)
         else None)"
proof (cases op)
  case (SliceView axis start stop step)
  consider "axis < length (tn_shape t)" "start < tn_shape t ! axis"
    | "axis < length (tn_shape t)" "start = tn_shape t ! axis" "stop = tn_shape t ! axis"
    | "axis \<ge> length (tn_shape t) \<or> start > stop \<or> stop > tn_shape t ! axis" by linarith
  then show ?thesis
  proof cases
    case 1
    with slice_start_stored [OF ok ne 1] storage_elements_le [OF ok] SliceView show ?thesis
      by (auto simp: Let_def)
  next
    case 2
    with SliceView storage_elements_le [OF ok] show ?thesis by (auto simp: Let_def)
  next
    case 3
    with SliceView show ?thesis by (auto simp: Let_def)
  qed
qed (simp_all add: axes_ok_set Let_def)

text \<open>C38: on a tensor with elements, a view that the specification \<open>view_error\<close> rejects is refused with
  the error of its first violated condition, and every other view is accepted, with two exceptions, both
  slices. A slice whose new stride does not fit 64 bits is refused with \<open>ShapeOverflow\<close>. The empty
  slice at the end of an axis is refused, with \<open>ViewOutOfBounds\<close> (or \<open>ShapeOverflow\<close> where the sum passes 64
  bits), when the stride of the axis carries its offset beyond the storage. The second exception is a
  defect of the code: the half-open slice is valid, and the same slice of a compact tensor is accepted
  (\<open>empty_slice_of_strided_view_rejected\<close>).\<close>

theorem view_decides:
  assumes "built_tensor t" and "prod_list (tn_shape t) \<noteq> 0"
  shows "case view_error t op of
      Some e \<Rightarrow> apply_view t op = fail e
    | None \<Rightarrow>
        if stride_unrepresentable t op then apply_view t op = fail TensorShapeOverflow
        else if empty_end_past_storage t op then apply_view t op \<in> {fail ViewOutOfBounds, fail TensorShapeOverflow}
        else \<exists>v. apply_view t op = Inr v"
  using apply_view_decides [OF built_tensor_ok [OF assms(1)] assms(2), of op]
    view_rejection_spec [OF built_tensor_ok [OF assms(1)] assms(2), of op]
  by (auto simp: decided_by_def split: option.splits if_splits view_op.splits)

theorem view_decides_witness:
  "apply_view sample_tensor (TransposeView 0 2) = fail (InvalidAxis 2 2) \<and>
   (\<exists>v. apply_view sample_tensor (PermuteView [1, 0]) = Inr v) \<and>
   (\<exists>v. apply_view sample_tensor (SliceView 0 2 2 1) = Inr v)"
proof (intro conjI)
  have ne: "prod_list (tn_shape sample_tensor) \<noteq> 0" by (simp add: sample_tensor_def)
  show "apply_view sample_tensor (TransposeView 0 2) = fail (InvalidAxis 2 2)"
    using view_decides [OF sample_built ne, of "TransposeView 0 2"] by (simp add: sample_tensor_def)
  have "set [1, 0] = {..<length (tn_shape sample_tensor)}" by (auto simp: sample_tensor_def)
  then show "\<exists>v. apply_view sample_tensor (PermuteView [1, 0]) = Inr v"
    using view_decides [OF sample_built ne, of "PermuteView [1, 0]"] by simp
  have "storage_elements sample_tensor = 6" "tn_offset_elements sample_tensor = 0"
    "tn_strides sample_tensor ! 0 = 3" "tn_shape sample_tensor = [2, 3]"
    using length_sample by (simp_all add: storage_elements_def sample_tensor_def)
  then show "\<exists>v. apply_view sample_tensor (SliceView 0 2 2 1) = Inr v"
    using view_decides [OF sample_built ne, of "SliceView 0 2 2 1"] by simp
qed

section \<open>Payloads\<close>

lemma from_bytes_payload:
  assumes "tensor_from_bytes bytes dt sh dev = Inr t"
  shows "to_contiguous_bytes t = Inr bytes"
  using to_contiguous_bytes_ok [OF tensor_from_bytes_ok(1) [OF assms]] contiguous_payload [of t]
    tensor_from_bytes_ok(2,3) [OF assms]
  by simp

lemma length_concat_u32: "length (concat (map u32_le data)) = 4 * length data"
  by (induction data) (simp_all add: length_u32_le)

lemma from_f32_payload:
  assumes "tensor_from_f32 data sh = Inr t"
  shows "to_f32_vec t = Inr data"
proof -
  have t: "tensor_from_bytes (concat (map u32_le data)) F32 sh HostDevice = Inr t"
    using assms by (simp add: tensor_from_f32_def)
  have "chunks4 (concat (map u32_le data)) = map u32_le data"
    by (rule chunks4_concat) (simp add: length_u32_le)
  moreover have "traverse f32_of_chunk (map u32_le data) = Inr data"
    unfolding traverse_map_comp
    using traverse_map [of data "\<lambda>x. f32_of_chunk (u32_le x)" id]
    by (simp add: f32_of_chunk_def length_u32_le u32.dec_enc)
  ultimately show ?thesis
    using from_bytes_payload [OF t] tensor_from_bytes_ok(2) [OF t] by (simp add: to_f32_vec_def require_def)
qed

lemma reshape_payload:
  assumes ok: "tensor_ok t" and v: "tensor_reshape t sh = Inr v"
  shows "to_contiguous_bytes v = to_contiguous_bytes t"
proof -
  have n: "prod_list sh = prod_list (tn_shape t)" and cont: "is_contiguous t"
    and parts: "from_shared_parts (tn_storage t) (tn_dtype t) sh (row_major sh) (tn_offset_elements t) (tn_device t) = Inr v"
    using v unfolding tensor_reshape_eq [OF ok] by (simp_all split: if_splits)
  have "length (tn_storage t) \<le> usize_max" using ok by (simp add: tensor_ok_def)
  note made = from_shared_parts_Inr [OF this tensor_offset_le [OF ok], THEN iffD1, OF parts]
  note v_eq = conjunct1 [OF made] and v_ok = conjunct2 [OF made]
  have "tn_strides v = row_major (tn_shape v)" by (simp only: v_eq tensor.select_convs)
  from contiguous_payload [OF this] contiguous_payload [OF is_contiguous_strides [OF cont]]
  show ?thesis
    unfolding to_contiguous_bytes_ok [OF ok] to_contiguous_bytes_ok [OF v_ok]
    by (simp add: v_eq n)
qed

text \<open>reading back what was stored: the floats of a new tensor are its data, a reshape of any
  tensor keeps the payload, and compaction keeps it and yields a contiguous tensor.\<close>

theorem tensor_payload_roundtrip:
  assumes "tensor_from_f32 data sh = Inr t" and "built_tensor u"
    and "tensor_reshape u sh' = Inr r" and "tensor_contiguous u = Inr v"
  shows "to_f32_vec t = Inr data \<and> to_contiguous_bytes r = to_contiguous_bytes u \<and>
    to_contiguous_bytes v = to_contiguous_bytes u \<and> is_contiguous v \<and> tn_shape v = tn_shape u"
proof (intro conjI)
  show "to_f32_vec t = Inr data" by (rule from_f32_payload [OF assms(1)])
  have ok: "tensor_ok u" by (rule built_tensor_ok [OF assms(2)])
  show "to_contiguous_bytes r = to_contiguous_bytes u" by (rule reshape_payload [OF ok assms(3)])
  obtain bytes where bytes: "to_contiguous_bytes u = Inr bytes"
    and v: "tensor_from_bytes bytes (tn_dtype u) (tn_shape u) (tn_device u) = Inr v"
    using assms(4) by (auto simp: tensor_contiguous_def outcome_simps)
  show "to_contiguous_bytes v = to_contiguous_bytes u" using from_bytes_payload [OF v] bytes by simp
  show "tn_shape v = tn_shape u" using tensor_from_bytes_ok(2) [OF v] by simp
  have "contiguous (tn_shape u) = Inr (row_major (tn_shape u))"
    using v unfolding tensor_from_bytes_eq by (simp split: if_splits)
  then show "is_contiguous v" using tensor_from_bytes_ok(2) [OF v] by (simp add: is_contiguous_def)
qed

lemma sample_reshape: "\<exists>r. tensor_reshape sample_tensor [3, 2] = Inr r"
  using apply_view_decides [OF built_tensor_ok [OF sample_built], of "ReshapeView [3, 2]"]
  by (simp add: decided_by_def sample_tensor_def checked_num_elements_def checked_mul_def is_contiguous_def)

lemma sample_contiguous: "\<exists>v. tensor_contiguous sample_tensor = Inr v"
proof -
  have "to_contiguous_bytes sample_tensor = Inr (concat (map u32_le [1, 2, 3, 4, 5, 6]))"
    using from_bytes_payload sample_from_f32 unfolding tensor_from_f32_def .
  then show ?thesis
    using sample_from_f32
    by (auto simp: tensor_contiguous_def tensor_from_f32_def sample_tensor_def)
qed

theorem tensor_payload_roundtrip_witness:
  "to_f32_vec sample_tensor = Inr [1, 2, 3, 4, 5, 6] \<and>
   (\<exists>r. tensor_reshape sample_tensor [3, 2] = Inr r \<and> to_contiguous_bytes r = to_contiguous_bytes sample_tensor)"
proof -
  obtain r v where "tensor_reshape sample_tensor [3, 2] = Inr r" "tensor_contiguous sample_tensor = Inr v"
    using sample_reshape sample_contiguous by blast
  with tensor_payload_roundtrip [OF sample_from_f32 sample_built this] show ?thesis by blast
qed

section \<open>An empty slice that is rejected\<close>

text \<open>The view of every second row of the sample, from row 1, has one row; its empty slice \<open>1..1\<close> lies
  in range, but the start is computed with the stride of the view and passes the storage.\<close>

lemma empty_slice_of_strided_view_rejected:
  shows "apply_view sample_tensor (SliceView 0 1 2 2) =
      Inr (sample_tensor\<lparr>tn_shape := [1, 3], tn_strides := [6, 1], tn_offset_elements := 3\<rparr>)" (is "_ = Inr ?v")
    and "apply_view (sample_tensor\<lparr>tn_shape := [1, 3], tn_strides := [6, 1], tn_offset_elements := 3\<rparr>)
      (SliceView 0 1 1 1) = fail ViewOutOfBounds"
proof -
  have ok: "tensor_ok sample_tensor" by (rule built_tensor_ok [OF sample_built])
  let ?st = "concat (map u32_le [1, 2, 3, 4, 5, 6])"
  have v: "tensor_ok (mk_tensor ?st F32 [1, 3] [6, 1] 3 HostDevice)"
    by (simp add: tensor_ok_def storage_elements_def checked_num_elements_def checked_mul_def last_index_def length_u32_le)
  moreover have "length ?st \<le> usize_max" using length_sample by simp
  ultimately have parts: "from_shared_parts ?st F32 [1, 3] [6, 1] 3 HostDevice = Inr (mk_tensor ?st F32 [1, 3] [6, 1] 3 HostDevice)"
    using from_shared_parts_Inr [of ?st 3 F32 "[1, 3]" "[6, 1]" HostDevice] by auto
  have "view_shape [2, 3] (SliceView 0 1 2 2) = [1, 3]" by simp
  then show "apply_view sample_tensor (SliceView 0 1 2 2) = Inr ?v"
    unfolding apply_view.simps tensor_slice_eq [OF ok]
    using parts by (simp add: sample_tensor_def del: view_shape.simps)
  have "storage_elements ?v = 6"
    using length_sample by (simp add: storage_elements_def sample_tensor_def)
  then have "view_rejection ?v (SliceView 0 1 1 1) = Some ViewOutOfBounds" by (simp add: sample_tensor_def)
  moreover have "tensor_ok ?v" "prod_list (tn_shape ?v) \<noteq> 0" using v by (simp_all add: sample_tensor_def)
  ultimately show "apply_view ?v (SliceView 0 1 1 1) = fail ViewOutOfBounds"
    using apply_view_decides [of ?v "SliceView 0 1 1 1"] by (simp only: decided_by_def option.case not_False_eq_True simp_thms)
qed

end
