(* ===== verification/Graph_Verify.thy ===== *)
theory Graph_Verify
  imports Tensor_Graph
begin

text \<open>
  The semantic verifier \<open>validate_semantics\<close> of \<open>scirust-tensor-ir/src/verify.rs\<close>: shape and
  dtype rules of every operation. The second half states the rules declaratively
  (\<open>op_typed\<close>) and shows that the verifier accepts exactly the well-typed graphs and never
  panics on a structurally valid one; the indexed reads of the source are \<open>idx\<close>, \<open>idx_set\<close> and the
  slices of the prelude, which panic out of range.
\<close>

datatype semantic_error =
    InvalidNode node_id
  | TypeMismatch node_id tensor_type tensor_type
  | BinaryTypeMismatch node_id
  | InvalidReshape node_id
  | InvalidTranspose node_id
  | InvalidBroadcast node_id
  | InvalidReduction node_id
  | InvalidMatMul node_id
  | InvalidBatchMatMul node_id

section \<open>Shape rules\<close>

text \<open>The rules index and slice the dimension lists; every such read is one that may panic.\<close>

definition can_broadcast_to ::
  "usize list \<Rightarrow> usize list \<Rightarrow> (semantic_error, bool) outcome" where
  "can_broadcast_to source target =
     (if length source > length target then Inr False
      else
        try_bind (sub_usize (length target) (length source)) (\<lambda>offset.
        try_bind (slice_from target offset) (\<lambda>suffix.
        Inr (list_all (\<lambda>(source_dim, target_dim). source_dim = target_dim \<or> source_dim = 1)
           (zip source suffix)))))"

definition can_reduce_sum_to ::
  "usize list \<Rightarrow> usize list \<Rightarrow> (semantic_error, bool) outcome" where
  "can_reduce_sum_to source target =
     (if length target > length source then Inr False
      else
        try_bind (sub_usize (length source) (length target)) (\<lambda>offset.
        try_bind (slice_from source offset) (\<lambda>suffix.
        Inr (list_all (\<lambda>(target_dim, source_dim). target_dim = source_dim \<or> target_dim = 1)
           (zip target suffix)))))"

definition valid_rank2_matmul ::
  "tensor_type \<Rightarrow> tensor_type \<Rightarrow> tensor_type \<Rightarrow> (semantic_error, bool) outcome" where
  "valid_rank2_matmul lhs rhs out =
     and_then (Inr (ty_dtype lhs = ty_dtype rhs))
    (and_then (Inr (ty_dtype lhs = ty_dtype out))
    (and_then (Inr (length (ty_shape lhs) = 2))
    (and_then (Inr (length (ty_shape rhs) = 2))
    (and_then (Inr (length (ty_shape out) = 2))
    (and_then (same_read (idx (ty_shape lhs) 1) (idx (ty_shape rhs) 0))
    (and_then (same_read (idx (ty_shape out) 0) (idx (ty_shape lhs) 0))
              (same_read (idx (ty_shape out) 1) (idx (ty_shape rhs) 1))))))))"

text \<open>\<open>dims[..rank - n]\<close> and \<open>dims[rank - n]\<close>.\<close>

definition dims_but :: "usize list \<Rightarrow> usize \<Rightarrow> usize \<Rightarrow> (semantic_error, usize list) outcome" where
  "dims_but dims rank n = try_bind (sub_usize rank n) (slice_to dims)"

definition dim_back :: "usize list \<Rightarrow> usize \<Rightarrow> usize \<Rightarrow> (semantic_error, usize) outcome" where
  "dim_back dims rank n = try_bind (sub_usize rank n) (idx dims)"

definition valid_batch_matmul ::
  "tensor_type \<Rightarrow> tensor_type \<Rightarrow> tensor_type \<Rightarrow> (semantic_error, bool) outcome" where
  "valid_batch_matmul lhs rhs out =
     (if ty_dtype lhs \<noteq> ty_dtype rhs \<or> ty_dtype lhs \<noteq> ty_dtype out \<or>
         length (ty_shape lhs) < 3 \<or> length (ty_shape lhs) \<noteq> length (ty_shape rhs) \<or>
         length (ty_shape lhs) \<noteq> length (ty_shape out)
      then Inr False
      else
        (let rank = length (ty_shape lhs); lhs_dims = ty_shape lhs;
             rhs_dims = ty_shape rhs; out_dims = ty_shape out in
         and_then (same_read (dims_but lhs_dims rank 2) (dims_but rhs_dims rank 2))
        (and_then (same_read (dims_but lhs_dims rank 2) (dims_but out_dims rank 2))
        (and_then (same_read (dim_back lhs_dims rank 1) (dim_back rhs_dims rank 2))
        (and_then (same_read (dim_back out_dims rank 2) (dim_back lhs_dims rank 2))
                  (same_read (dim_back out_dims rank 1) (dim_back rhs_dims rank 1)))))))"

definition require_same ::
  "node_id \<Rightarrow> tensor_type \<Rightarrow> tensor_type \<Rightarrow> (semantic_error, unit) outcome" where
  "require_same n expected actual =
     (if expected = actual then Inr () else fail (TypeMismatch n expected actual))"

text \<open>
  The loop of the \<open>Transpose\<close> rule, over the enumerated permutation with the vector \<open>seen\<close>. The
  disjunction guards the reads: an axis is compared with the length before \<open>seen\<close> is read at it.
\<close>

definition transpose_step ::
  "node_id \<Rightarrow> usize list \<Rightarrow> shape \<Rightarrow> shape \<Rightarrow> bool list \<Rightarrow> usize \<times> usize
     \<Rightarrow> (semantic_error, bool list) outcome" where
  "transpose_step n permutation in_dims out_dims seen p = (case p of (output_axis, input_axis) \<Rightarrow>
     try_bind
       (or_else (Inr (input_axis \<ge> length permutation))
       (or_else (idx seen input_axis)
                (differ_read (idx out_dims output_axis) (idx in_dims input_axis)))) (\<lambda>bad.
     if bad then fail (InvalidTranspose n)
     else idx_set seen input_axis True))"

section \<open>The verifier\<close>

definition input_types ::
  "graph \<Rightarrow> node_id list \<Rightarrow> (semantic_error, tensor_type list) outcome" where
  "input_types g ins =
     traverse (\<lambda>input. ok_or (InvalidNode input)
       (map_option node_output (get (graph_nodes g) input))) ins"

definition verify_operation ::
  "node_id \<Rightarrow> operation \<Rightarrow> tensor_type list \<Rightarrow> tensor_type \<Rightarrow> (semantic_error, unit) outcome"
where
  "verify_operation n oper inputs out =
     (let rejected = (\<lambda>e bad. require (\<not> bad) e);
          elementwise2 =
            try_bind
              (or_else (Inr (length inputs \<noteq> 2))
              (or_else (differ_read (idx inputs 0) (Inr out)) (differ_read (idx inputs 1) (Inr out))))
              (rejected (BinaryTypeMismatch n));
          unary = try_bind (idx inputs 0) (\<lambda>input. require_same n input out)
      in case oper of
        Input _ \<Rightarrow> Inr ()
      | Constant _ \<Rightarrow> Inr ()
      | Add \<Rightarrow> elementwise2
      | Sub \<Rightarrow> elementwise2
      | Mul \<Rightarrow> elementwise2
      | Div \<Rightarrow> elementwise2
      | Scale factor \<Rightarrow>
          try_bind unary (\<lambda>_.
            require (sc_dtype factor = ty_dtype out)
              (TypeMismatch n (tensor_type_new (sc_dtype factor) (ty_shape out)) out))
      | Relu \<Rightarrow> unary
      | Exp \<Rightarrow> unary
      | Log \<Rightarrow> unary
      | ZerosLike \<Rightarrow> unary
      | OnesLike \<Rightarrow> unary
      | StopGradient \<Rightarrow> unary
      | Checkpoint \<Rightarrow> unary
      | ReluGrad \<Rightarrow>
          try_bind (or_else (differ_read (idx inputs 0) (Inr out)) (differ_read (idx inputs 1) (Inr out)))
            (rejected (BinaryTypeMismatch n))
      | Reshape sh \<Rightarrow>
          try_bind (idx inputs 0) (\<lambda>input.
          try_bind (map_err (\<lambda>_. InvalidReshape n) (checked_num_elements (ty_shape input)))
            (\<lambda>source_elements.
          try_bind (map_err (\<lambda>_. InvalidReshape n) (checked_num_elements sh))
            (\<lambda>target_elements.
          require (\<not> (ty_dtype input \<noteq> ty_dtype out \<or> ty_shape out \<noteq> sh \<or>
                     source_elements \<noteq> target_elements)) (InvalidReshape n))))
      | Transpose permutation \<Rightarrow>
          try_bind (idx inputs 0) (\<lambda>input.
            if length permutation \<noteq> length (ty_shape input) \<or>
               ty_dtype out \<noteq> ty_dtype input \<or>
               length (ty_shape out) \<noteq> length (ty_shape input)
            then fail (InvalidTranspose n)
            else
              try_bind (try_fold (transpose_step n permutation (ty_shape input) (ty_shape out))
                          (replicate (length permutation) False) (enumerate 0 permutation))
                (\<lambda>_. Inr ()))
      | BroadcastTo sh \<Rightarrow>
          try_bind (idx inputs 0) (\<lambda>input.
            try_bind
              (or_else (Inr (ty_dtype input \<noteq> ty_dtype out \<or> ty_shape out \<noteq> sh))
                (try_bind (can_broadcast_to (ty_shape input) sh) (\<lambda>ok. Inr (\<not> ok))))
              (rejected (InvalidBroadcast n)))
      | ReduceSumTo sh \<Rightarrow>
          try_bind (idx inputs 0) (\<lambda>input.
            try_bind
              (or_else (Inr (ty_dtype input \<noteq> ty_dtype out \<or> ty_shape out \<noteq> sh))
                (try_bind (can_reduce_sum_to (ty_shape input) sh) (\<lambda>ok. Inr (\<not> ok))))
              (rejected (InvalidReduction n)))
      | MatMul \<Rightarrow>
          try_bind (idx inputs 0) (\<lambda>lhs. try_bind (idx inputs 1) (\<lambda>rhs.
            try_bind (valid_rank2_matmul lhs rhs out) (\<lambda>ok. require ok (InvalidMatMul n))))
      | BatchMatMul \<Rightarrow>
          try_bind (idx inputs 0) (\<lambda>lhs. try_bind (idx inputs 1) (\<lambda>rhs.
            try_bind (valid_batch_matmul lhs rhs out) (\<lambda>ok. require ok (InvalidBatchMatMul n)))))"

definition verify_node :: "graph \<Rightarrow> usize \<times> node \<Rightarrow> (semantic_error, unit) outcome" where
  "verify_node g p = (case p of (index, n) \<Rightarrow>
     try_bind (input_types g (node_inputs n)) (\<lambda>inputs.
       verify_operation (as_u32 index) (node_operation n) inputs (node_output n)))"

definition validate_semantics :: "graph \<Rightarrow> (semantic_error, unit) outcome" where
  "validate_semantics g = for_each (verify_node g) (enumerate 0 (graph_nodes g))"

section \<open>The typing rules, declaratively\<close>

definition broadcastable :: "shape \<Rightarrow> shape \<Rightarrow> bool" where
  "broadcastable source target \<longleftrightarrow> length source \<le> length target \<and>
     (\<forall>i < length source. source ! i = 1 \<or>
        source ! i = target ! (length target - length source + i))"

definition is_permutation :: "usize list \<Rightarrow> bool" where
  "is_permutation p \<longleftrightarrow> distinct p \<and> set p = {..<length p}"

fun op_typed :: "operation \<Rightarrow> tensor_type list \<Rightarrow> tensor_type \<Rightarrow> bool" where
  "op_typed (Input _) tys out \<longleftrightarrow> tys = []"
| "op_typed (Constant _) tys out \<longleftrightarrow> tys = []"
| "op_typed Add tys out \<longleftrightarrow> tys = [out, out]"
| "op_typed Sub tys out \<longleftrightarrow> tys = [out, out]"
| "op_typed Mul tys out \<longleftrightarrow> tys = [out, out]"
| "op_typed Div tys out \<longleftrightarrow> tys = [out, out]"
| "op_typed ReluGrad tys out \<longleftrightarrow> tys = [out, out]"
| "op_typed (Scale factor) tys out \<longleftrightarrow> tys = [out] \<and> sc_dtype factor = ty_dtype out"
| "op_typed Relu tys out \<longleftrightarrow> tys = [out]"
| "op_typed Exp tys out \<longleftrightarrow> tys = [out]"
| "op_typed Log tys out \<longleftrightarrow> tys = [out]"
| "op_typed ZerosLike tys out \<longleftrightarrow> tys = [out]"
| "op_typed OnesLike tys out \<longleftrightarrow> tys = [out]"
| "op_typed StopGradient tys out \<longleftrightarrow> tys = [out]"
| "op_typed Checkpoint tys out \<longleftrightarrow> tys = [out]"
| "op_typed (Reshape sh) tys out \<longleftrightarrow>
     (\<exists>a. tys = [a] \<and> ty_dtype a = ty_dtype out \<and> ty_shape out = sh \<and>
        (\<exists>n. checked_num_elements (ty_shape a) = Inr n \<and> checked_num_elements sh = Inr n))"
| "op_typed (Transpose p) tys out \<longleftrightarrow>
     (\<exists>a. tys = [a] \<and> ty_dtype a = ty_dtype out \<and> length p = length (ty_shape a) \<and>
        is_permutation p \<and> ty_shape out = map ((!) (ty_shape a)) p)"
| "op_typed (BroadcastTo sh) tys out \<longleftrightarrow>
     (\<exists>a. tys = [a] \<and> ty_dtype a = ty_dtype out \<and> ty_shape out = sh \<and>
        broadcastable (ty_shape a) sh)"
| "op_typed (ReduceSumTo sh) tys out \<longleftrightarrow>
     (\<exists>a. tys = [a] \<and> ty_dtype a = ty_dtype out \<and> ty_shape out = sh \<and>
        broadcastable sh (ty_shape a))"
| "op_typed MatMul tys out \<longleftrightarrow>
     (\<exists>dt m k n. tys = [tensor_type_new dt [m, k], tensor_type_new dt [k, n]] \<and>
        out = tensor_type_new dt [m, n])"
| "op_typed BatchMatMul tys out \<longleftrightarrow>
     (\<exists>dt bs m k n. bs \<noteq> [] \<and>
        tys = [tensor_type_new dt (bs @ [m, k]), tensor_type_new dt (bs @ [k, n])] \<and>
        out = tensor_type_new dt (bs @ [m, n]))"

definition type_of :: "node list \<Rightarrow> node_id \<Rightarrow> tensor_type" where
  "type_of ns i = node_output (ns ! i)"

definition node_typed :: "node list \<Rightarrow> node \<Rightarrow> bool" where
  "node_typed ns n \<longleftrightarrow>
     op_typed (node_operation n) (map (type_of ns) (node_inputs n)) (node_output n)"

definition typed_graph :: "graph \<Rightarrow> bool" where
  "typed_graph g \<longleftrightarrow> (\<forall>n \<in> set (graph_nodes g). node_typed (graph_nodes g) n)"

text \<open>Appending a node keeps the types of the others.\<close>

lemma type_of_snoc [simp]: "j < length ns \<Longrightarrow> type_of (ns @ [x]) j = type_of ns j"
  by (simp add: type_of_def nth_append)

lemma node_typed_snoc:
  "node_typed ns n \<Longrightarrow> \<forall>k \<in> set (node_inputs n). k < length ns \<Longrightarrow> node_typed (ns @ [x]) n"
  by (auto simp: node_typed_def cong: map_cong)

lemma typed_graph_snoc:
  assumes "typed_graph g" and "nodes_ok (graph_nodes g)" and "node_ok (length (graph_nodes g)) n"
    and "node_typed (graph_nodes g) n"
  shows "typed_graph (g\<lparr>graph_nodes := graph_nodes g @ [n]\<rparr>)"
proof -
  have "node_typed (graph_nodes g @ [n]) m" if "m \<in> set (graph_nodes g)" for m
  proof -
    from that obtain i where i: "i < length (graph_nodes g)" "m = graph_nodes g ! i"
      by (auto simp: in_set_conv_nth)
    then have "\<forall>k \<in> set (node_inputs m). k < length (graph_nodes g)"
      using nodes_ok_inputs [OF assms(2)] by fastforce
    with that assms(1) show ?thesis by (auto intro: node_typed_snoc simp: typed_graph_def)
  qed
  moreover have "node_typed (graph_nodes g @ [n]) n"
    using assms(3,4) by (auto intro: node_typed_snoc simp: node_ok_def)
  ultimately show ?thesis by (simp add: typed_graph_def)
qed

lemma broadcastable_list_all:
  assumes "length s \<le> length t"
  shows "list_all (\<lambda>(x, y). x = y \<or> x = (1::nat)) (zip s (drop (length t - length s) t)) \<longleftrightarrow>
    (\<forall>i < length s. s ! i = 1 \<or> s ! i = t ! (length t - length s + i))"
  using assms unfolding list_all_length by fastforce

lemma can_broadcast_to_eq [simp]: "can_broadcast_to s t = Inr (broadcastable s t)"
  using broadcastable_list_all [of s t]
  by (cases "length s \<le> length t") (simp_all add: can_broadcast_to_def broadcastable_def)

lemma can_reduce_sum_to_eq [simp]: "can_reduce_sum_to s t = Inr (broadcastable t s)"
  using broadcastable_list_all [of t s]
  by (cases "length t \<le> length s") (simp_all add: can_reduce_sum_to_def broadcastable_def)

lemma transpose_step_in:
  assumes "length seen = length p" and "length ind = length p" and "length outd = length p"
    and "k < length p"
  shows "transpose_step n p ind outd seen (k, a) =
    (if a < length p \<and> \<not> seen ! a \<and> outd ! k = ind ! a then Inr (seen[a := True])
     else fail (InvalidTranspose n))"
  using assms by (cases "a < length p") (auto simp: transpose_step_def or_else_def)

lemma transpose_loop_Inr:
  assumes "length ind = length p" and "length outd = length p"
  shows "(\<exists>seen. try_fold (transpose_step n p ind outd) (replicate (length p) False)
            (enumerate 0 p) = Inr seen)
     \<longleftrightarrow> is_permutation p \<and> outd = map ((!) ind) p"
proof -
  let ?step = "transpose_step n p ind outd"
  let ?seen = "\<lambda>k. map (\<lambda>a. a \<in> set (take k p)) [0..<length p]"
  define good where "good k \<longleftrightarrow> distinct (take k p) \<and> (\<forall>a \<in> set (take k p). a < length p) \<and>
      (\<forall>i < k. outd ! i = ind ! (p ! i))" for k
  have run: "try_fold ?step (?seen k) (drop k (enumerate 0 p)) =
      (if \<forall>j \<le> length p. k \<le> j \<longrightarrow> good j then Inr (?seen (length p))
       else Inl (Err (InvalidTranspose n)))"
    if "k \<le> length p" "good k" for k
    using that
  proof (induction "length p - k" arbitrary: k)
    case 0
    then have "k = length p" by simp
    with 0 show ?case by simp
  next
    case (Suc d)
    then have k: "k < length p" by simp
    then have drop: "drop k (enumerate 0 p) = (k, p ! k) # drop (Suc k) (enumerate 0 p)"
      by (simp add: Cons_nth_drop_Suc [symmetric])
    have take: "take (Suc k) p = take k p @ [p ! k]" using k by (simp add: take_Suc_conv_app_nth)
    show ?case
    proof (cases "good (Suc k)")
      case True
      then have pk: "p ! k < length p" "p ! k \<notin> set (take k p)" "outd ! k = ind ! (p ! k)"
        by (auto simp: good_def take)
      have "(?seen k)[p ! k := True] = ?seen (Suc k)"
        using pk(1) by (intro nth_equalityI) (auto simp: take nth_list_update)
      with pk have "?step (?seen k) (k, p ! k) = Inr (?seen (Suc k))"
        using k by (simp add: transpose_step_in assms)
      moreover have "(\<forall>j \<le> length p. k \<le> j \<longrightarrow> good j) \<longleftrightarrow> (\<forall>j \<le> length p. Suc k \<le> j \<longrightarrow> good j)"
        using \<open>good k\<close> by (metis Suc_le_eq le_eq_less_or_eq)
      ultimately show ?thesis using Suc.hyps(1) [of "Suc k"] Suc.hyps(2) k True by (simp add: drop)
    next
      case False
      with \<open>good k\<close> have "\<not> (p ! k < length p \<and> p ! k \<notin> set (take k p) \<and> outd ! k = ind ! (p ! k))"
        by (auto simp: good_def take less_Suc_eq)
      then have "?step (?seen k) (k, p ! k) = Inl (Err (InvalidTranspose n))"
        using k by (auto simp: transpose_step_in assms)
      moreover have "\<not> (\<forall>j \<le> length p. k \<le> j \<longrightarrow> good j)"
        using False k by (auto intro!: exI [of _ "Suc k"])
      ultimately show ?thesis by (simp add: drop)
    qed
  qed
  have start: "?seen 0 = replicate (length p) False" "good 0"
    by (auto simp: good_def intro!: nth_equalityI)
  have mono: "good (length p) \<Longrightarrow> j \<le> length p \<Longrightarrow> good j" for j
    by (auto simp: good_def distinct_take dest: in_set_takeD)
  have "outd = map ((!) ind) p \<longleftrightarrow> (\<forall>i < length p. outd ! i = ind ! (p ! i))"
    using assms by (auto intro: nth_equalityI)
  moreover have "(\<forall>a \<in> set p. a < length p) \<longleftrightarrow> set p = {..<length p}" if "distinct p"
    using that card_subset_eq [of "{..<length p}" "set p"] by (auto simp: distinct_card)
  ultimately have "good (length p) \<longleftrightarrow> is_permutation p \<and> outd = map ((!) ind) p"
    by (auto simp: good_def is_permutation_def)
  moreover have "(\<forall>j \<le> length p. 0 \<le> j \<longrightarrow> good j) \<longleftrightarrow> good (length p)"
    using mono by auto
  ultimately show ?thesis using run [of 0] start by auto
qed

lemma length2: "length xs = 2 \<longleftrightarrow> (\<exists>x y. xs = [x, y])"
  by (auto simp: numeral_2_eq_2 length_Suc_conv)

lemma length1: "length xs = Suc 0 \<longleftrightarrow> (\<exists>x. xs = [x])"
  by (auto simp: length_Suc_conv)

lemma tensor_type_eta: "tensor_type_new (ty_dtype t) (ty_shape t) = t"
  by (simp add: tensor_type_new_def)

lemma tensor_type_new_sel [simp]:
  "ty_dtype (tensor_type_new d s) = d" "ty_shape (tensor_type_new d s) = s"
  "tensor_type_new d s = tensor_type_new d' s' \<longleftrightarrow> d = d' \<and> s = s'"
  by (simp_all add: tensor_type_new_def)

lemma tensor_type_eqI: "ty_dtype a = d \<Longrightarrow> ty_shape a = s \<Longrightarrow> a = tensor_type_new d s"
  by (simp add: tensor_type_new_def)

definition rank2_compatible :: "tensor_type \<Rightarrow> tensor_type \<Rightarrow> tensor_type \<Rightarrow> bool" where
  "rank2_compatible a b c \<longleftrightarrow>
     (\<exists>dt m k n. a = tensor_type_new dt [m, k] \<and> b = tensor_type_new dt [k, n] \<and>
        c = tensor_type_new dt [m, n])"

lemma rank2_compatible_iff:
  "rank2_compatible a b c \<longleftrightarrow>
     ty_dtype a = ty_dtype b \<and> ty_dtype a = ty_dtype c \<and>
     length (ty_shape a) = 2 \<and> length (ty_shape b) = 2 \<and> length (ty_shape c) = 2 \<and>
     ty_shape a ! 1 = ty_shape b ! 0 \<and> ty_shape c ! 0 = ty_shape a ! 0 \<and>
     ty_shape c ! 1 = ty_shape b ! 1"
  (is "_ \<longleftrightarrow> ?checks")
proof
  assume ?checks
  then show "rank2_compatible a b c"
    unfolding rank2_compatible_def
    by (intro exI [of _ "ty_dtype a"] exI [of _ "ty_shape a ! 0"] exI [of _ "ty_shape a ! 1"]
        exI [of _ "ty_shape b ! 1"])
      (auto simp: length2 intro!: tensor_type_eqI)
qed (auto simp: rank2_compatible_def)

lemma valid_rank2_matmul_eq [simp]:
  "valid_rank2_matmul a b c = Inr (rank2_compatible a b c)"
  unfolding rank2_compatible_iff valid_rank2_matmul_def
  by (intro and_then_decided) simp_all

lemma split_last_two:
  assumes "2 \<le> length xs"
  shows "xs = take (length xs - 2) xs @ [xs ! (length xs - 2), xs ! (length xs - 1)]"
proof -
  from assms obtain ys a where xs: "xs = ys @ [a]" by (cases xs rule: rev_cases) auto
  with assms obtain zs b where "ys = zs @ [b]" by (cases ys rule: rev_cases) auto
  with xs show ?thesis by (simp add: nth_append)
qed

definition batch_compatible :: "tensor_type \<Rightarrow> tensor_type \<Rightarrow> tensor_type \<Rightarrow> bool" where
  "batch_compatible a b c \<longleftrightarrow>
     (\<exists>dt bs m k n. bs \<noteq> [] \<and> a = tensor_type_new dt (bs @ [m, k]) \<and>
        b = tensor_type_new dt (bs @ [k, n]) \<and> c = tensor_type_new dt (bs @ [m, n]))"

lemma batch_compatible_iff:
  "batch_compatible a b c \<longleftrightarrow>
     ty_dtype a = ty_dtype b \<and> ty_dtype a = ty_dtype c \<and> 3 \<le> length (ty_shape a) \<and>
     length (ty_shape a) = length (ty_shape b) \<and> length (ty_shape a) = length (ty_shape c) \<and>
     (let r = length (ty_shape a) in
      take (r - 2) (ty_shape a) = take (r - 2) (ty_shape b) \<and>
      take (r - 2) (ty_shape a) = take (r - 2) (ty_shape c) \<and>
      ty_shape a ! (r - 1) = ty_shape b ! (r - 2) \<and> ty_shape c ! (r - 2) = ty_shape a ! (r - 2) \<and>
      ty_shape c ! (r - 1) = ty_shape b ! (r - 1))"
  (is "_ \<longleftrightarrow> ?checks")
proof
  assume v: ?checks
  define r where "r = length (ty_shape a)"
  from v have r: "3 \<le> r" "length (ty_shape b) = r" "length (ty_shape c) = r"
    by (auto simp: r_def)
  from v have eqs: "take (r - 2) (ty_shape b) = take (r - 2) (ty_shape a)"
    "take (r - 2) (ty_shape c) = take (r - 2) (ty_shape a)"
    "ty_shape b ! (r - 2) = ty_shape a ! (r - 1)" "ty_shape c ! (r - 2) = ty_shape a ! (r - 2)"
    "ty_shape c ! (r - 1) = ty_shape b ! (r - 1)"
    "ty_dtype b = ty_dtype a" "ty_dtype c = ty_dtype a"
    by (auto simp: Let_def r_def)
  have "ty_shape a = take (r - 2) (ty_shape a) @ [ty_shape a ! (r - 2), ty_shape a ! (r - 1)]"
    "ty_shape b = take (r - 2) (ty_shape b) @ [ty_shape b ! (r - 2), ty_shape b ! (r - 1)]"
    "ty_shape c = take (r - 2) (ty_shape c) @ [ty_shape c ! (r - 2), ty_shape c ! (r - 1)]"
    using split_last_two [of "ty_shape a"] split_last_two [of "ty_shape b"]
      split_last_two [of "ty_shape c"] r by (simp_all add: r_def)
  moreover have "take (r - 2) (ty_shape a) \<noteq> []" using r by (auto simp: r_def)
  ultimately show "batch_compatible a b c"
    using eqs unfolding batch_compatible_def by (metis tensor_type_eta)
next
  assume "batch_compatible a b c"
  then obtain dt bs m k n where "bs \<noteq> []" "a = tensor_type_new dt (bs @ [m, k])"
    "b = tensor_type_new dt (bs @ [k, n])" "c = tensor_type_new dt (bs @ [m, n])"
    unfolding batch_compatible_def by blast
  then show ?checks
    by (cases bs) (auto simp: Let_def nth_append)
qed

lemma dims_read [simp]:
  "n \<le> rank \<Longrightarrow> rank \<le> length dims \<Longrightarrow> dims_but dims rank n = Inr (take (rank - n) dims)"
  "0 < n \<Longrightarrow> n \<le> rank \<Longrightarrow> rank \<le> length dims \<Longrightarrow> dim_back dims rank n = Inr (dims ! (rank - n))"
  by (simp_all add: dims_but_def dim_back_def)

lemma valid_batch_matmul_eq [simp]:
  "valid_batch_matmul a b c = Inr (batch_compatible a b c)"
proof (cases "ty_dtype a = ty_dtype b \<and> ty_dtype a = ty_dtype c \<and> 3 \<le> length (ty_shape a) \<and>
     length (ty_shape a) = length (ty_shape b) \<and> length (ty_shape a) = length (ty_shape c)")
  case True
  then show ?thesis
    unfolding batch_compatible_iff valid_batch_matmul_def Let_def
    by simp
next
  case False
  then show ?thesis unfolding batch_compatible_iff by (auto simp: valid_batch_matmul_def)
qed

section \<open>The verifier decides the typing rules\<close>

lemma num_elements_no_panic [simp]: "checked_num_elements d \<noteq> Inl Panic"
proof
  assume "checked_num_elements d = Inl Panic"
  then have "\<exists>i s. i < length d \<and> True \<and> ok_or ShapeOverflow (checked_mul s (d ! i)) = Inl Panic"
    unfolding checked_num_elements_def by (rule try_fold_Inl) simp_all
  then show False by simp
qed

lemma transpose_loop_no_panic:
  assumes "length ind = length p" and "length outd = length p"
  shows "try_fold (transpose_step n p ind outd) (replicate (length p) False) (enumerate 0 p) \<noteq> Inl Panic"
proof
  assume "try_fold (transpose_step n p ind outd) (replicate (length p) False) (enumerate 0 p) = Inl Panic"
  then have "\<exists>i t. i < length (enumerate 0 p) \<and> length t = length p \<and>
      transpose_step n p ind outd t (enumerate 0 p ! i) = Inl Panic"
    by (rule try_fold_Inl) (auto simp: transpose_step_in assms split: if_splits)
  then show False by (auto simp: transpose_step_in assms split: if_splits)
qed

lemma verify_transpose_Inr:
  assumes "length p = length (ty_shape a)" "length (ty_shape out) = length (ty_shape a)"
  shows "(\<exists>x. try_fold (transpose_step n p (ty_shape a) (ty_shape out))
            (replicate (length p) False) (enumerate 0 p) = Inr x) \<longleftrightarrow>
         is_permutation p \<and> ty_shape out = map ((!) (ty_shape a)) p"
  using transpose_loop_Inr [of "ty_shape a" p "ty_shape out" n] assms by simp

lemma verify_operation_Inr:
  assumes "length tys = expected_arity oper"
  shows "verify_operation n oper tys out = Inr u \<longleftrightarrow> op_typed oper tys out"
proof -
  consider "tys = []" "expected_arity oper = 0" | a where "tys = [a]" "expected_arity oper = 1"
    | a b where "tys = [a, b]" "expected_arity oper = 2"
    using assms by (cases oper) (auto simp: length1 length2)
  then show ?thesis
  proof cases
    case 1
    then show ?thesis by (cases oper) (auto simp: verify_operation_def)
  next
    case (2 a)
    show ?thesis
    proof (cases oper)
      case (Transpose p)
      with 2 show ?thesis
        using verify_transpose_Inr [of p a out n]
        by (auto simp: verify_operation_def outcome_simps)
    qed (use 2 in \<open>auto simp: verify_operation_def outcome_simps require_same_def Let_def or_else_def\<close>)
  next
    case (3 a b)
    show ?thesis
      by (cases oper) (use 3 in \<open>auto simp: verify_operation_def outcome_simps Let_def or_else_def
          rank2_compatible_def batch_compatible_def\<close>)
  qed
qed

lemma verify_operation_no_panic:
  assumes "length tys = expected_arity oper"
  shows "verify_operation n oper tys out \<noteq> Inl Panic"
proof -
  consider "tys = []" "expected_arity oper = 0" | a where "tys = [a]" "expected_arity oper = 1"
    | a b where "tys = [a, b]" "expected_arity oper = 2"
    using assms by (cases oper) (auto simp: length1 length2)
  then show ?thesis
  proof cases
    case 1
    then show ?thesis by (cases oper) (auto simp: verify_operation_def)
  next
    case (2 a)
    show ?thesis
    proof (cases oper)
      case (Transpose p)
      with 2 show ?thesis
        using transpose_loop_no_panic [of "ty_shape a" p "ty_shape out" n]
        by (auto simp: verify_operation_def try_bind_eq_Inl)
    qed (use 2 in \<open>auto simp: verify_operation_def outcome_simps require_same_def or_else_reject\<close>)
  next
    case (3 a b)
    then show ?thesis
      by (cases oper) (auto simp: verify_operation_def or_else_reject)
  qed
qed

lemma input_types_wf:
  "\<forall>k \<in> set ins. k < length (graph_nodes g) \<Longrightarrow>
     input_types g ins = Inr (map (type_of (graph_nodes g)) ins)"
  unfolding input_types_def
  by (rule traverse_map) (auto simp: type_of_def get_def)

lemma verify_node_wf:
  assumes "nodes_ok (graph_nodes g)" and "i < length (graph_nodes g)"
  shows "verify_node g (i, graph_nodes g ! i) =
    verify_operation (as_u32 i) (node_operation (graph_nodes g ! i))
      (map (type_of (graph_nodes g)) (node_inputs (graph_nodes g ! i)))
      (node_output (graph_nodes g ! i))"
proof -
  have "\<forall>k \<in> set (node_inputs (graph_nodes g ! i)). k < length (graph_nodes g)"
    using assms nodes_ok_inputs by fastforce
  then show ?thesis by (simp add: verify_node_def input_types_wf)
qed

lemma validate_semantics_iff_typed:
  assumes "wf_graph g"
  shows "validate_semantics g = Inr u \<longleftrightarrow> typed_graph g"
proof -
  have ok: "nodes_ok (graph_nodes g)" using assms by (simp add: wf_graph_def)
  then have "verify_node g (i, graph_nodes g ! i) = Inr () \<longleftrightarrow>
      node_typed (graph_nodes g) (graph_nodes g ! i)" if "i < length (graph_nodes g)" for i
    using that by (simp add: verify_node_wf verify_operation_Inr nodes_ok_arity node_typed_def)
  then show ?thesis
    by (simp add: validate_semantics_def outcome_simps ball_enumerate0 typed_graph_def
        all_set_conv_all_nth)
qed

lemma example_graph_valid:
  "validate example_graph = Inr ()" "validate_semantics example_graph = Inr ()"
proof -
  have "wf_graph example_graph"
    by (simp add: example_graph_def wf_graph_def nodes_ok_def node_ok_def mk_node_def all_less_Suc
        numeral_eq_Suc)
  moreover have "typed_graph example_graph"
    by (simp add: example_graph_def typed_graph_def node_typed_def mk_node_def type_of_def
        matrix_type_def tensor_type_new_def)
  ultimately show "validate example_graph = Inr ()" "validate_semantics example_graph = Inr ()"
    by (simp_all add: validate_iff_wf validate_semantics_iff_typed)
qed

lemma semantics_no_panic:
  assumes "wf_graph g"
  shows "validate_semantics g \<noteq> Inl Panic"
proof
  have ok: "nodes_ok (graph_nodes g)" using assms by (simp add: wf_graph_def)
  assume "validate_semantics g = Inl Panic"
  then obtain i where "i < length (graph_nodes g)" "verify_node g (i, graph_nodes g ! i) = Inl Panic"
    by (auto simp: validate_semantics_def set_enumerate0 dest!: for_each_InlD)
  with ok show False by (simp add: verify_node_wf verify_operation_no_panic nodes_ok_arity)
qed

text \<open>
  C14: on a structurally valid graph the semantic verifier accepts exactly the graphs whose
  every node obeys the declarative typing rule of its operation, and otherwise returns a
  typed error: no index it computes is ever out of range.
\<close>

theorem validate_semantics_decides_typing:
  assumes "validate g = Inr ()"
  shows "(validate_semantics g = Inr () \<longleftrightarrow> typed_graph g) \<and>
         (\<not> typed_graph g \<longleftrightarrow> (\<exists>e. validate_semantics g = Inl (Err e)))"
proof -
  from assms have wf: "wf_graph g" by (simp add: validate_iff_wf)
  from semantics_no_panic [OF wf] validate_semantics_iff_typed [OF wf] show ?thesis
    by (cases "validate_semantics g") (auto, metis failure.exhaust)
qed

theorem validate_semantics_decides_typing_witness:
  "(validate_semantics example_graph = Inr () \<longleftrightarrow> typed_graph example_graph) \<and>
   (\<not> typed_graph example_graph \<longleftrightarrow> (\<exists>e. validate_semantics example_graph = Inl (Err e)))"
  by (rule validate_semantics_decides_typing) code_simp

lemma example_scaled_ok:
  "validate example_scaled = Inr ()" "validate_semantics example_scaled = Inr ()"
proof -
  have "wf_graph example_scaled"
    by (simp add: example_scaled_def wf_graph_def nodes_ok_def node_ok_def mk_node_def all_less_Suc
        numeral_eq_Suc)
  moreover have "typed_graph example_scaled"
    by (simp add: example_scaled_def typed_graph_def node_typed_def mk_node_def type_of_def
        scalar_f32_def matrix_type_def tensor_type_new_def)
  ultimately show "validate example_scaled = Inr ()" "validate_semantics example_scaled = Inr ()"
    by (simp_all add: validate_iff_wf validate_semantics_iff_typed)
qed

end
