(* ===== verification/Graph_Optimize.thy ===== *)
theory Graph_Optimize
  imports Graph_Verify
begin

text \<open>
  The backend-neutral graph optimizer of \<open>scirust-tensor-ir/src/optimize.rs\<close>: dead-code
  elimination, exact common-subexpression elimination, view and identity aliasing, and the
  folding of a scale by zero. This theory holds the model and its structural correctness:
  the optimizer is total on valid graphs and its result is valid, well-typed, live and no
  larger. Preservation of values is in \<open>Optimize_Semantics\<close>.
\<close>

section \<open>Configuration, statistics, errors\<close>

record optimization_config =
  dead_code_elimination :: bool
  common_subexpression_elimination :: bool
  algebraic_simplification :: bool

definition optimization_config_default :: optimization_config where
  "optimization_config_default =
     \<lparr>dead_code_elimination = True, common_subexpression_elimination = True,
      algebraic_simplification = True\<rparr>"

lemma optimization_config_default_sel [simp]:
  "dead_code_elimination optimization_config_default"
  "common_subexpression_elimination optimization_config_default"
  "algebraic_simplification optimization_config_default"
  by (simp_all add: optimization_config_default_def)

record optimization_stats =
  original_nodes :: usize
  retained_nodes :: usize
  eliminated_dead_nodes :: usize
  common_subexpressions :: usize
  simplified_nodes :: usize

definition optimization_stats_default :: optimization_stats where
  "optimization_stats_default =
     \<lparr>original_nodes = 0, retained_nodes = 0, eliminated_dead_nodes = 0,
      common_subexpressions = 0, simplified_nodes = 0\<rparr>"

record optimized_graph =
  og_graph :: graph
  old_to_new :: "node_id option list"
  og_stats :: optimization_stats

datatype optimization_error =
    InvalidGraph graph_error
  | InvalidSemantics semantic_error
  | MissingMappedInput node_id

section \<open>Reachability\<close>

text \<open>
  The work list \<open>pending\<close> is a stack whose top is the end of the vector: \<open>pop\<close> takes the last
  element and \<open>extend\<close> appends. \<open>CanonicalCompiler::compile\<close> contains the same loop.
\<close>

function mark_reachable ::
  "node list \<Rightarrow> bool list \<Rightarrow> node_id list \<Rightarrow> ('e, bool list) outcome" where
  "mark_reachable ns reachable pending =
     (if pending = [] then Inr reachable
      else if last pending \<ge> length reachable then Inl Panic
      else if reachable ! last pending then mark_reachable ns reachable (butlast pending)
      else if last pending \<ge> length ns then Inl Panic
      else mark_reachable ns (reachable[last pending := True])
             (butlast pending @ node_inputs (ns ! last pending)))"
  by pat_completeness auto

definition unmarked :: "bool list \<Rightarrow> nat" where
  "unmarked bs = card {i. i < length bs \<and> \<not> bs ! i}"

lemma unmarked_update:
  assumes "i < length bs" "\<not> bs ! i"
  shows "unmarked (bs[i := True]) < unmarked bs"
  unfolding unmarked_def
proof (rule psubset_card_mono)
  show "finite {i. i < length bs \<and> \<not> bs ! i}" by simp
  show "{j. j < length (bs[i := True]) \<and> \<not> bs[i := True] ! j} \<subset> {j. j < length bs \<and> \<not> bs ! j}"
    using assms by (auto simp: nth_list_update split: if_splits)
qed

termination mark_reachable
  by (relation "measures [\<lambda>(_, r, _). unmarked r, \<lambda>(_, _, p). length p]")
    (auto simp: unmarked_update)

declare mark_reachable.simps [simp del]

definition reachable_nodes :: "graph \<Rightarrow> ('e, bool list) outcome" where
  "reachable_nodes g =
     mark_reachable (graph_nodes g) (replicate (length (graph_nodes g)) False) (graph_outputs g)"

section \<open>Local rewrites\<close>

definition simplify_alias ::
  "graph \<Rightarrow> operation \<Rightarrow> node_id list \<Rightarrow> tensor_type \<Rightarrow> ('e, node_id option) outcome" where
  "simplify_alias g oper inputs out =
     (case inputs of
        [] \<Rightarrow> Inr None
      | input # _ \<Rightarrow>
          try_bind (idx (graph_nodes g) input) (\<lambda>n.
            let input_type = node_output n in
            Inr (case oper of
                Scale factor \<Rightarrow> if as_f32_is factor f32_one then Some input else None
              | Reshape sh \<Rightarrow>
                  if ty_dtype input_type = ty_dtype out \<and> ty_shape input_type = sh
                  then Some input else None
              | Transpose permutation \<Rightarrow>
                  if permutation = [0..<length permutation] then Some input else None
              | BroadcastTo sh \<Rightarrow>
                  if ty_dtype input_type = ty_dtype out \<and> ty_shape input_type = sh
                  then Some input else None
              | ReduceSumTo sh \<Rightarrow>
                  if ty_dtype input_type = ty_dtype out \<and> ty_shape input_type = sh
                  then Some input else None
              | _ \<Rightarrow> None)))"

definition simplify_operation :: "operation \<Rightarrow> operation option" where
  "simplify_operation oper =
     (case oper of
        Scale factor \<Rightarrow> if as_f32_is factor f32_zero then Some ZerosLike else None
      | _ \<Rightarrow> None)"

definition cse_eligible :: "operation \<Rightarrow> bool" where
  "cse_eligible oper =
     (case oper of
        Input _ \<Rightarrow> False
      | Constant _ \<Rightarrow> False
      | StopGradient \<Rightarrow> False
      | Checkpoint \<Rightarrow> False
      | _ \<Rightarrow> True)"

definition find_equivalent ::
  "graph \<Rightarrow> operation \<Rightarrow> node_id list \<Rightarrow> tensor_type \<Rightarrow> node_id option" where
  "find_equivalent g oper inputs out =
     map_option (\<lambda>(index, _). as_u32 index)
       (List.find (\<lambda>(_, n). node_operation n = oper \<and> node_inputs n = inputs \<and>
                            node_output n = out)
          (enumerate 0 (graph_nodes g)))"

section \<open>The optimizer\<close>

record opt_state =
  os_graph :: graph
  os_mapping :: "node_id option list"
  os_stats :: optimization_stats

definition lookup_mapping ::
  "node_id option list \<Rightarrow> node_id \<Rightarrow> (optimization_error, node_id) outcome" where
  "lookup_mapping mapping i =
     try_bind (idx mapping i) (\<lambda>m. ok_or (MissingMappedInput i) m)"

definition fold_operation :: "optimization_config \<Rightarrow> operation \<Rightarrow> operation" where
  "fold_operation cfg oper =
     (if algebraic_simplification cfg
      then case simplify_operation oper of Some folded \<Rightarrow> folded | None \<Rightarrow> oper
      else oper)"

definition optimize_step ::
  "optimization_config \<Rightarrow> bool list \<Rightarrow> opt_state \<Rightarrow> usize \<times> node
     \<Rightarrow> (optimization_error, opt_state) outcome" where
  "optimize_step cfg reachable st p = (case p of (index, n) \<Rightarrow>
     try_bind (idx reachable index) (\<lambda>live.
     if \<not> live then
       Inr (st\<lparr>os_stats := (os_stats st)
              \<lparr>eliminated_dead_nodes := eliminated_dead_nodes (os_stats st) + 1\<rparr>\<rparr>)
     else
       try_bind (traverse (lookup_mapping (os_mapping st)) (node_inputs n)) (\<lambda>mapped_inputs.
       try_bind (if algebraic_simplification cfg
                 then simplify_alias (os_graph st) (node_operation n) mapped_inputs (node_output n)
                 else Inr None) (\<lambda>aliased.
       case aliased of
         Some target \<Rightarrow>
           Inr (st\<lparr>os_mapping := (os_mapping st)[index := Some target],
                   os_stats := (os_stats st)
                     \<lparr>simplified_nodes := simplified_nodes (os_stats st) + 1\<rparr>\<rparr>)
       | None \<Rightarrow>
           (let oper = fold_operation cfg (node_operation n);
                stats = (if algebraic_simplification cfg \<and>
                            simplify_operation (node_operation n) \<noteq> None
                         then (os_stats st)
                           \<lparr>simplified_nodes := simplified_nodes (os_stats st) + 1\<rparr>
                         else os_stats st) in
            case (if common_subexpression_elimination cfg \<and> cse_eligible oper
                  then find_equivalent (os_graph st) oper mapped_inputs (node_output n)
                  else None) of
              Some existing \<Rightarrow>
                Inr (st\<lparr>os_mapping := (os_mapping st)[index := Some existing],
                        os_stats := stats
                          \<lparr>common_subexpressions := common_subexpressions stats + 1\<rparr>\<rparr>)
            | None \<Rightarrow>
                try_bind (map_err InvalidGraph
                            (add_node (os_graph st) oper mapped_inputs (node_output n)))
                  (\<lambda>(g', new_id).
                     Inr (st\<lparr>os_graph := g',
                             os_mapping := (os_mapping st)[index := Some new_id],
                             os_stats := stats\<rparr>)))))))"

definition optimize_graph ::
  "graph \<Rightarrow> optimization_config \<Rightarrow> (optimization_error, optimized_graph) outcome" where
  "optimize_graph source cfg =
     try_bind (map_err InvalidGraph (validate source)) (\<lambda>_.
     try_bind (map_err InvalidSemantics (validate_semantics source)) (\<lambda>_.
     try_bind (if dead_code_elimination cfg then reachable_nodes source
               else Inr (replicate (length (graph_nodes source)) True)) (\<lambda>reachable.
     try_bind (try_fold (optimize_step cfg reachable)
                \<lparr>os_graph = graph_new,
                 os_mapping = replicate (length (graph_nodes source)) None,
                 os_stats = optimization_stats_default
                   \<lparr>original_nodes := length (graph_nodes source)\<rparr>\<rparr>
                (enumerate 0 (graph_nodes source))) (\<lambda>st.
     try_bind (traverse (lookup_mapping (os_mapping st)) (graph_outputs source)) (\<lambda>outputs.
     try_bind (map_err InvalidGraph (set_outputs (os_graph st) outputs)) (\<lambda>g.
     Inr \<lparr>og_graph = g, old_to_new = os_mapping st,
          og_stats = (os_stats st)\<lparr>retained_nodes := length (graph_nodes g)\<rparr>\<rparr>))))))"

section \<open>Reachability is correct\<close>

definition input_edge :: "node list \<Rightarrow> (node_id \<times> node_id) set" where
  "input_edge ns = {(i, k). i < length ns \<and> k \<in> set (node_inputs (ns ! i))}"

definition needed :: "node list \<Rightarrow> node_id list \<Rightarrow> node_id set" where
  "needed ns outs = (input_edge ns)\<^sup>* `` set outs"

text \<open>
  Loop invariant: a marked node is needed, every pending node is needed, an output is marked
  or pending, and the inputs of a marked node are marked or pending.
\<close>

lemma mark_reachable_correct:
  assumes "nodes_ok ns" and "length reachable = length ns"
    and "\<forall>k \<in> set pending. k < length ns"
    and "\<forall>i < length ns. reachable ! i \<longrightarrow> i \<in> needed ns outs"
    and "set pending \<subseteq> needed ns outs"
    and "\<forall>k \<in> set outs. k < length ns \<longrightarrow> reachable ! k \<or> k \<in> set pending"
    and "\<forall>i < length ns. reachable ! i \<longrightarrow>
           (\<forall>k \<in> set (node_inputs (ns ! i)). reachable ! k \<or> k \<in> set pending)"
    and "\<forall>k \<in> set outs. k < length ns"
  shows "\<exists>r. (mark_reachable ns reachable pending :: ('e, bool list) outcome) = Inr r \<and> length r = length ns \<and>
           (\<forall>i < length ns. r ! i \<longleftrightarrow> i \<in> needed ns outs)"
  using assms
proof (induction ns reachable pending rule: mark_reachable.induct)
  case (1 ns reachable pending)
  note prems = "1.prems"
  show ?case
  proof (cases "pending = []")
    case True
    have closed: "k < length ns \<and> reachable ! k" if "k \<in> needed ns outs" for k
    proof -
      from that obtain o' where o': "o' \<in> set outs" "(o', k) \<in> (input_edge ns)\<^sup>*"
        by (auto simp: needed_def)
      from o'(2) show ?thesis
      proof (induction rule: rtrancl_induct)
        case base
        then show ?case using o'(1) prems(6,8) True by auto
      next
        case (step i k)
        then have ik: "i < length ns" "k \<in> set (node_inputs (ns ! i))" "reachable ! i"
          by (auto simp: input_edge_def)
        moreover have "k < length ns" using nodes_ok_inputs [OF prems(1) ik(1,2)] ik(1) by simp
        moreover have "reachable ! k" using prems(7) ik unfolding True by simp
        ultimately show ?case by simp
      qed
    qed
    have "(mark_reachable ns reachable pending :: ('e, bool list) outcome) = Inr reachable"
      using True by (simp add: mark_reachable.simps [of ns reachable "[]"])
    moreover have "\<forall>i < length ns. reachable ! i \<longleftrightarrow> i \<in> needed ns outs"
      using prems(4) closed by blast
    ultimately show ?thesis using prems(2) by blast
  next
    case False
    define v where "v = last pending"
    have v: "set pending = insert v (set (butlast pending))" "v \<in> set pending"
      using False by (cases pending rule: rev_cases, auto simp: v_def)+
    have vlt: "v < length ns" using v(2) prems(3) by simp
    show ?thesis
    proof (cases "reachable ! v")
      case True
      have "\<exists>r. (mark_reachable ns reachable (butlast pending) :: ('e, bool list) outcome) = Inr r \<and> length r = length ns \<and>
           (\<forall>i < length ns. r ! i \<longleftrightarrow> i \<in> needed ns outs)"
      proof (rule "1.IH"(1))
        show "\<forall>i<length ns. reachable ! i \<longrightarrow>
            (\<forall>k\<in>set (node_inputs (ns ! i)). reachable ! k \<or> k \<in> set (butlast pending))"
          using prems(7) v(1) True by auto
      qed (use prems v False vlt True in \<open>auto simp: v_def\<close>)
      then show ?thesis
        using False True vlt prems(2) by (subst mark_reachable.simps) (simp add: v_def)
    next
      case unseen: False
      let ?r = "reachable[v := True]"
      let ?p = "butlast pending @ node_inputs (ns ! v)"
      have vneeded: "v \<in> needed ns outs" using prems(5) v(2) by auto
      have inputs: "k < length ns" "k \<in> needed ns outs"
        if "k \<in> set (node_inputs (ns ! v))" for k
        using that vneeded vlt nodes_ok_inputs [OF prems(1) vlt that]
        by (auto simp: needed_def input_edge_def intro: rtrancl_into_rtrancl)
      have "\<exists>r. (mark_reachable ns ?r ?p :: ('e, bool list) outcome) = Inr r \<and> length r = length ns \<and>
           (\<forall>i < length ns. r ! i \<longleftrightarrow> i \<in> needed ns outs)"
      proof (rule "1.IH"(2) [folded v_def])
        show "\<forall>i<length ns. ?r ! i \<longrightarrow> i \<in> needed ns outs"
          using prems(2,4) vneeded vlt by (auto simp: nth_list_update split: if_splits)
        show "\<forall>k\<in>set outs. k < length ns \<longrightarrow> ?r ! k \<or> k \<in> set ?p"
          using prems(2,6) v(1) vlt by (auto simp: nth_list_update)
        show "\<forall>i<length ns. ?r ! i \<longrightarrow> (\<forall>k\<in>set (node_inputs (ns ! i)). ?r ! k \<or> k \<in> set ?p)"
          using prems(2,7) v(1) vlt by (auto simp: nth_list_update split: if_splits)
        show "set ?p \<subseteq> needed ns outs" using prems(5) v(1) inputs(2) by auto
        show "\<forall>k\<in>set ?p. k < length ns" using prems(3) v(1) inputs(1) by auto
      qed (use prems False vlt unseen in auto)
      then show ?thesis
        using False unseen vlt prems(2) by (subst mark_reachable.simps) (simp add: v_def)
    qed
  qed
qed

lemma reachable_nodes_correct:
  assumes "wf_graph g"
  shows "\<exists>r. reachable_nodes g = Inr r \<and> length r = length (graph_nodes g) \<and>
           (\<forall>i < length (graph_nodes g). r ! i \<longleftrightarrow> i \<in> needed (graph_nodes g) (graph_outputs g))"
  unfolding reachable_nodes_def
  by (rule mark_reachable_correct) (use assms in \<open>auto simp: wf_graph_def needed_def\<close>)

section \<open>The simulation between the source and the optimized nodes\<close>

definition is_alias :: "operation \<Rightarrow> tensor_type \<Rightarrow> tensor_type \<Rightarrow> bool" where
  "is_alias oper input_type out \<longleftrightarrow>
     (case oper of
        Scale factor \<Rightarrow> as_f32_is factor f32_one
      | Reshape sh \<Rightarrow> ty_dtype input_type = ty_dtype out \<and> ty_shape input_type = sh
      | Transpose permutation \<Rightarrow> permutation = [0..<length permutation]
      | BroadcastTo sh \<Rightarrow> ty_dtype input_type = ty_dtype out \<and> ty_shape input_type = sh
      | ReduceSumTo sh \<Rightarrow> ty_dtype input_type = ty_dtype out \<and> ty_shape input_type = sh
      | _ \<Rightarrow> False)"

lemma simplify_alias_in:
  assumes "\<forall>k \<in> set ms. k < length (graph_nodes g)"
  shows "simplify_alias g oper ms out =
    Inr (case ms of [] \<Rightarrow> None
         | j # _ \<Rightarrow> if is_alias oper (type_of (graph_nodes g) j) out then Some j else None)"
  using assms
  by (cases ms) (auto simp: simplify_alias_def is_alias_def type_of_def Let_def split: operation.split)

lemma find_equivalent_Some:
  assumes "find_equivalent g oper ms out = Some j" and "length (graph_nodes g) \<le> u32_range"
  shows "j < length (graph_nodes g) \<and> graph_nodes g ! j =
           \<lparr>node_operation = oper, node_inputs = ms, node_output = out\<rparr>"
  using assms by (auto simp: find_equivalent_def dest!: find_Some_first)

lemma find_equivalent_None:
  assumes "find_equivalent g oper ms out = None" and "j < length (graph_nodes g)"
  shows "graph_nodes g ! j \<noteq> \<lparr>node_operation = oper, node_inputs = ms, node_output = out\<rparr>"
  using assms by (auto simp: find_equivalent_def find_None_iff set_enumerate0 dest: spec [of _ j])

text \<open>
  Node \<open>n\<close> of the source is represented by node \<open>j\<close> of the result: its inputs are
  represented by \<open>ms\<close>, and \<open>j\<close> is either the same (possibly folded) operation over \<open>ms\<close>,
  freshly added or found by the CSE lookup, or the operand that \<open>n\<close> is an alias of.
\<close>

definition represents ::
  "optimization_config \<Rightarrow> node list \<Rightarrow> node_id option list \<Rightarrow> node \<Rightarrow> node_id \<Rightarrow> bool" where
  "represents cfg ns mapping n j \<longleftrightarrow> j < length ns \<and>
     (\<exists>ms. map ((!) mapping) (node_inputs n) = map Some ms \<and>
        (ns ! j = \<lparr>node_operation = fold_operation cfg (node_operation n), node_inputs = ms,
                   node_output = node_output n\<rparr> \<or>
         algebraic_simplification cfg \<and>
         (\<exists>rest. ms = j # rest \<and> is_alias (node_operation n) (type_of ns j) (node_output n))))"

definition input_closed :: "node list \<Rightarrow> bool list \<Rightarrow> bool" where
  "input_closed ns live \<longleftrightarrow> length live = length ns \<and>
     (\<forall>i < length ns. live ! i \<longrightarrow> (\<forall>k \<in> set (node_inputs (ns ! i)). live ! k))"

text \<open>No two eligible nodes of the result compute the same expression.\<close>

definition no_common_subexpressions :: "node list \<Rightarrow> bool" where
  "no_common_subexpressions ns \<longleftrightarrow>
     (\<forall>i < length ns. \<forall>j < i. cse_eligible (node_operation (ns ! i)) \<longrightarrow> ns ! i \<noteq> ns ! j)"

definition dead_count :: "bool list \<Rightarrow> nat \<Rightarrow> nat" where
  "dead_count live k = length (filter Not (take k live))"

definition opt_inv ::
  "optimization_config \<Rightarrow> node list \<Rightarrow> bool list \<Rightarrow> nat \<Rightarrow> opt_state \<Rightarrow> bool" where
  "opt_inv cfg src live k st \<longleftrightarrow>
     (let ns = graph_nodes (os_graph st); stats = os_stats st in
      nodes_ok ns \<and> typed_graph (os_graph st) \<and> length ns \<le> k \<and>
      graph_outputs (os_graph st) = [] \<and>
      length (os_mapping st) = length src \<and>
      (\<forall>i < k. live ! i \<longrightarrow> (\<exists>j. os_mapping st ! i = Some j \<and>
          represents cfg ns (os_mapping st) (src ! i) j \<and> type_of ns j = type_of src i)) \<and>
      (\<forall>i < length src. (k \<le> i \<or> \<not> live ! i) \<longrightarrow> os_mapping st ! i = None) \<and>
      (\<forall>j < length ns. \<exists>i < k. live ! i \<and> os_mapping st ! i = Some j) \<and>
      (common_subexpression_elimination cfg \<longrightarrow> no_common_subexpressions ns) \<and>
      original_nodes stats = length src \<and>
      eliminated_dead_nodes stats = dead_count live k \<and>
      length ns + eliminated_dead_nodes stats + common_subexpressions stats \<le> k \<and>
      k \<le> length ns + eliminated_dead_nodes stats + common_subexpressions stats
            + simplified_nodes stats)"

lemma expected_arity_fold [simp]: "expected_arity (fold_operation cfg oper) = expected_arity oper"
  by (cases oper) (auto simp: fold_operation_def simplify_operation_def)

lemma fold_operation_typed:
  "op_typed oper tys out \<Longrightarrow> op_typed (fold_operation cfg oper) tys out"
  by (cases oper) (auto simp: fold_operation_def simplify_operation_def)

lemma alias_typed:
  assumes "op_typed oper [a] out" and "is_alias oper a out"
  shows "a = out"
proof (cases oper)
  case (Transpose p)
  with assms have "length p = length (ty_shape a)" "ty_dtype a = ty_dtype out"
    "ty_shape out = map ((!) (ty_shape a)) p" "p = [0..<length p]"
    by (auto simp: is_alias_def)
  then have "ty_shape out = map ((!) (ty_shape a)) [0..<length (ty_shape a)]" by metis
  then show ?thesis using \<open>ty_dtype a = ty_dtype out\<close> by (simp add: map_nth)
qed (use assms in \<open>auto simp: is_alias_def\<close>)

lemma represents_append:
  "represents cfg ns mapping n j \<Longrightarrow> represents cfg (ns @ xs) mapping n j"
  by (fastforce simp: represents_def nth_append type_of_def)

lemma represents_update:
  assumes "represents cfg ns mapping n j" and "\<forall>k \<in> set (node_inputs n). k \<noteq> i"
  shows "represents cfg ns (mapping[i := m]) n j"
proof -
  have same: "map ((!) (mapping[i := m])) (node_inputs n) = map ((!) mapping) (node_inputs n)"
    using assms(2) by auto
  show ?thesis using assms(1) unfolding represents_def same .
qed

lemma traverse_lookup:
  assumes "\<forall>k \<in> set ks. k < length mapping \<and> mapping ! k \<noteq> None"
  shows "traverse (lookup_mapping mapping) ks = Inr (map (\<lambda>k. the (mapping ! k)) ks)"
  by (rule traverse_map) (use assms in \<open>auto simp: lookup_mapping_def\<close>)

lemma dead_count_Suc:
  "k < length live \<Longrightarrow> dead_count live (Suc k) = dead_count live k + (if live ! k then 0 else 1)"
  by (simp add: dead_count_def take_Suc_conv_app_nth)

text \<open>
  Recording a representative keeps the invariant, whether it is an operand, an existing node
  or one just appended.
\<close>

lemma opt_inv_record:
  assumes inv: "opt_inv cfg src live k st" and k: "k < length src" and "length live = length src"
    and live: "live ! k" and src: "nodes_ok src"
    and g': "graph_nodes g' = graph_nodes (os_graph st) @ xs" "graph_outputs g' = []"
      "nodes_ok (graph_nodes g')" "typed_graph g'"
      "common_subexpression_elimination cfg \<Longrightarrow> no_common_subexpressions (graph_nodes g')"
    and new: "\<And>i. length (graph_nodes (os_graph st)) \<le> i \<Longrightarrow> i < length (graph_nodes g') \<Longrightarrow> i = j"
    and rep: "represents cfg (graph_nodes g') (os_mapping st) (src ! k) j"
    and ty: "type_of (graph_nodes g') j = type_of src k"
    and stats: "original_nodes stats = original_nodes (os_stats st)"
      "eliminated_dead_nodes stats = eliminated_dead_nodes (os_stats st)"
      "length xs + common_subexpressions stats \<le> common_subexpressions (os_stats st) + 1"
      "common_subexpressions (os_stats st) + simplified_nodes (os_stats st) + 1
         \<le> length xs + common_subexpressions stats + simplified_nodes stats"
  shows "opt_inv cfg src live (Suc k)
           (st\<lparr>os_graph := g', os_mapping := (os_mapping st)[k := Some j], os_stats := stats\<rparr>)"
proof -
  let ?m = "os_mapping st" and ?ns = "graph_nodes (os_graph st)" and ?ns' = "graph_nodes g'"
  have len: "length ?m = length src" using inv by (simp add: opt_inv_def Let_def)
  have old: "\<exists>j'. (?m[k := Some j]) ! i = Some j' \<and>
      represents cfg ?ns' (?m[k := Some j]) (src ! i) j' \<and> type_of ?ns' j' = type_of src i"
    if i: "i < Suc k" and li: "live ! i" for i
  proof (cases "i = k")
    case True
    have "\<forall>a \<in> set (node_inputs (src ! k)). a \<noteq> k" using nodes_ok_inputs [OF src k] by fastforce
    with rep ty True k len show ?thesis by (auto intro: represents_update)
  next
    case False
    with i have i': "i < k" by simp
    then obtain j' where j': "?m ! i = Some j'" "represents cfg ?ns ?m (src ! i) j'"
      "type_of ?ns j' = type_of src i"
      using inv li by (auto simp: opt_inv_def Let_def)
    moreover have "type_of ?ns' j' = type_of ?ns j'"
      using j'(2) by (simp add: g' type_of_def represents_def nth_append)
    moreover have "\<forall>a \<in> set (node_inputs (src ! i)). a \<noteq> k"
      using nodes_ok_inputs [OF src, of i] i' k by fastforce
    ultimately show ?thesis
      using False by (auto intro: represents_update represents_append simp: g')
  qed
  have onto: "\<exists>i < Suc k. live ! i \<and> (?m[k := Some j]) ! i = Some j'" if "j' < length ?ns'" for j'
  proof (cases "j' < length ?ns")
    case True
    with inv obtain i where "i < k" "live ! i" "?m ! i = Some j'"
      by (auto simp: opt_inv_def Let_def)
    then show ?thesis by (intro exI [of _ i]) auto
  next
    case False
    with that new have "j' = j" by simp
    with live k len show ?thesis by (intro exI [of _ k]) simp
  qed
  have dead: "dead_count live (Suc k) = dead_count live k"
    using live k assms(3) by (simp add: dead_count_Suc)
  have counts: "length ?ns' = length ?ns + length xs" by (simp add: g')
  show ?thesis
    using inv old onto len k live stats g'(2-)
    unfolding opt_inv_def Let_def by (auto simp: dead nth_list_update counts)
qed

lemma opt_inv_dead:
  assumes "opt_inv cfg src live k st" and "k < length src" and "length live = length src"
    and "\<not> live ! k"
  shows "opt_inv cfg src live (Suc k)
    (st\<lparr>os_stats := (os_stats st)
        \<lparr>eliminated_dead_nodes := eliminated_dead_nodes (os_stats st) + 1\<rparr>\<rparr>)"
proof -
  have "dead_count live (Suc k) = Suc (dead_count live k)"
    using assms by (simp add: dead_count_Suc)
  moreover have "(\<exists>i < Suc k. live ! i \<and> P i) \<longleftrightarrow> (\<exists>i < k. live ! i \<and> P i)" for P
    using assms(4) by (auto simp: less_Suc_eq)
  moreover have "(\<forall>i < Suc k. live ! i \<longrightarrow> P i) \<longleftrightarrow> (\<forall>i < k. live ! i \<longrightarrow> P i)" for P
    using assms(4) by (auto simp: less_Suc_eq)
  ultimately show ?thesis using assms(1) unfolding opt_inv_def Let_def by auto
qed

lemma no_common_subexpressions_snoc:
  assumes "no_common_subexpressions ns"
    and "cse_eligible (node_operation n) \<longrightarrow> (\<forall>j < length ns. ns ! j \<noteq> n)"
  shows "no_common_subexpressions (ns @ [n])"
  using assms unfolding no_common_subexpressions_def
  by (fastforce simp: nth_append less_Suc_eq)

lemma optimize_step_inv:
  assumes inv: "opt_inv cfg src live k st" and k: "k < length src"
    and live: "input_closed src live" and src: "nodes_ok src"
    and typed: "node_typed src (src ! k)" and size: "length src \<le> u32_range"
  shows "\<exists>st'. optimize_step cfg live st (k, src ! k) = Inr st' \<and> opt_inv cfg src live (Suc k) st'"
proof (cases "live ! k")
  case False
  then show ?thesis
    using k live opt_inv_dead [OF inv k] by (simp add: optimize_step_def input_closed_def)
next
  case True
  let ?n = "src ! k" and ?m = "os_mapping st" and ?g = "os_graph st"
  let ?ns = "graph_nodes ?g" and ?oper = "node_operation ?n" and ?out = "node_output ?n"
  let ?fold = "fold_operation cfg ?oper"
  define ms where "ms = map (\<lambda>i. the (?m ! i)) (node_inputs ?n)"
  have llen: "length live = length src" using live by (simp add: input_closed_def)
  have inputs: "i < k \<and> i < length ?m \<and> (\<exists>j. ?m ! i = Some j \<and> j < length ?ns \<and>
      type_of ?ns j = type_of src i)" if "i \<in> set (node_inputs ?n)" for i
  proof -
    have "i < k" "live ! i"
      using that nodes_ok_inputs [OF src k that] live True k by (auto simp: input_closed_def)
    then show ?thesis using inv k by (fastforce simp: opt_inv_def Let_def represents_def)
  qed
  then have trav: "traverse (lookup_mapping ?m) (node_inputs ?n) = Inr ms"
    unfolding ms_def by (intro traverse_lookup) auto
  have mapped: "map ((!) ?m) (node_inputs ?n) = map Some ms"
    using inputs by (fastforce simp: ms_def)
  have mlt: "\<forall>j \<in> set ms. j < length ?ns" using inputs by (fastforce simp: ms_def)
  have types: "map (type_of ?ns) ms = map (type_of src) (node_inputs ?n)"
    using inputs by (fastforce simp: ms_def)
  have arity: "length ms = expected_arity ?oper"
    using nodes_ok_arity [OF src k] by (simp add: ms_def)
  have ty_op: "op_typed ?oper (map (type_of ?ns) ms) ?out"
    using typed by (simp add: node_typed_def types)
  have g: "nodes_ok ?ns" "typed_graph ?g" "length ?ns \<le> k" "graph_outputs ?g = []"
    "common_subexpression_elimination cfg \<Longrightarrow> no_common_subexpressions ?ns"
    using inv by (auto simp: opt_inv_def Let_def)
  note keep = opt_inv_record [OF inv k llen True src, where xs = "[]" and g' = ?g, simplified, OF g(4,1,2,5)]
  show ?thesis
  proof (cases "algebraic_simplification cfg \<and>
      (\<exists>j rest. ms = j # rest \<and> is_alias ?oper (type_of ?ns j) ?out)")
    case operand: True
    then obtain j rest where j: "ms = j # rest" "is_alias ?oper (type_of ?ns j) ?out" by blast
    have jlt: "j < length ?ns" using mlt j(1) by simp
    have "rest = []" using arity j by (cases ?oper) (auto simp: is_alias_def)
    then have same: "type_of ?ns j = ?out" using ty_op j alias_typed by auto
    have "represents cfg ?ns ?m ?n j"
      unfolding represents_def using operand mapped j jlt by blast
    with same have "opt_inv cfg src live (Suc k) (st\<lparr>os_mapping := ?m[k := Some j],
        os_stats := (os_stats st)\<lparr>simplified_nodes := simplified_nodes (os_stats st) + 1\<rparr>\<rparr>)"
      by (intro keep) (auto simp: type_of_def)
    then show ?thesis
      using True k llen operand j mlt jlt
      by (simp add: optimize_step_def trav simplify_alias_in)
  next
    case no_alias: False
    define stats where "stats = (if algebraic_simplification cfg \<and> simplify_operation ?oper \<noteq> None
        then (os_stats st)\<lparr>simplified_nodes := simplified_nodes (os_stats st) + 1\<rparr>
        else os_stats st)"
    define found where "found = (if common_subexpression_elimination cfg \<and> cse_eligible ?fold
        then find_equivalent ?g ?fold ms ?out else None)"
    have aliased: "(if algebraic_simplification cfg then simplify_alias ?g ?oper ms ?out
        else Inr None) = Inr None"
      using no_alias mlt by (auto simp: simplify_alias_in split: list.split)
    note run = optimize_step_def trav aliased stats_def found_def [symmetric] Let_def
    let ?new = "\<lparr>node_operation = ?fold, node_inputs = ms, node_output = ?out\<rparr>"
    show ?thesis
    proof (cases found)
      case (Some j)
      then have j: "j < length ?ns" "?ns ! j = ?new"
        using find_equivalent_Some [of ?g ?fold ms ?out j] g(3) k size
        by (auto simp: found_def split: if_splits)
      then have "opt_inv cfg src live (Suc k) (st\<lparr>os_mapping := ?m[k := Some j],
          os_stats := stats\<lparr>common_subexpressions := common_subexpressions stats + 1\<rparr>\<rparr>)"
        using mapped by (intro keep) (auto simp: represents_def type_of_def stats_def)
      then show ?thesis using True k llen Some by (auto simp: run split: if_splits)
    next
      case None
      let ?g' = "?g\<lparr>graph_nodes := ?ns @ [?new]\<rparr>"
      have ok: "node_ok (length ?ns) ?new" using arity mlt by (simp add: node_ok_def)
      have add: "add_node ?g ?fold ms ?out = Inr (?g', length ?ns)"
        using arity mlt g(3) k size by (simp add: add_node_Inr)
      have "node_typed ?ns ?new" using ty_op by (simp add: node_typed_def fold_operation_typed)
      then have "typed_graph ?g'" using typed_graph_snoc [OF g(2,1) ok] by simp
      moreover have "no_common_subexpressions (?ns @ [?new])"
        if cse: "common_subexpression_elimination cfg"
        using no_common_subexpressions_snoc [OF g(5) [OF cse]] None cse
          find_equivalent_None [of ?g ?fold ms ?out]
        by (simp add: found_def split: if_splits)
      ultimately have "opt_inv cfg src live (Suc k)
          (st\<lparr>os_graph := ?g', os_mapping := ?m[k := Some (length ?ns)], os_stats := stats\<rparr>)"
        using mapped g ok
        by (intro opt_inv_record [OF inv k llen True src, where xs = "[?new]"])
          (auto simp: represents_def type_of_def nodes_ok_snoc stats_def)
      then show ?thesis using True k llen None by (auto simp: run add split: if_splits)
    qed
  qed
qed

section \<open>The optimizer is total, and its result\<close>

definition live_nodes :: "optimization_config \<Rightarrow> graph \<Rightarrow> bool list" where
  "live_nodes cfg g =
     map (\<lambda>i. dead_code_elimination cfg \<longrightarrow> i \<in> needed (graph_nodes g) (graph_outputs g))
       [0..<length (graph_nodes g)]"

lemma needed_output: "k \<in> set outs \<Longrightarrow> k \<in> needed ns outs"
  by (auto simp: needed_def)

lemma needed_input:
  "i \<in> needed ns outs \<Longrightarrow> i < length ns \<Longrightarrow> k \<in> set (node_inputs (ns ! i)) \<Longrightarrow> k \<in> needed ns outs"
  by (auto simp: needed_def input_edge_def intro: rtrancl_into_rtrancl)

lemma needed_induct [consumes 1, case_names root edge]:
  assumes "k \<in> needed ns outs"
    and "\<And>k. k \<in> set outs \<Longrightarrow> P k"
    and "\<And>i k. i \<in> needed ns outs \<Longrightarrow> i < length ns \<Longrightarrow> k \<in> set (node_inputs (ns ! i)) \<Longrightarrow> P i \<Longrightarrow> P k"
  shows "P k"
proof -
  from assms(1) obtain o' where o': "o' \<in> set outs" "(o', k) \<in> (input_edge ns)\<^sup>*"
    by (auto simp: needed_def)
  from o'(2) have "k \<in> needed ns outs \<and> P k"
  proof (induction rule: rtrancl_induct)
    case base
    then show ?case using o'(1) assms(2) needed_output by blast
  next
    case (step i k)
    then show ?case using assms(3) needed_input by (fastforce simp: input_edge_def)
  qed
  then show ?thesis ..
qed

lemma live_nodes_closed:
  assumes "wf_graph g"
  shows "input_closed (graph_nodes g) (live_nodes cfg g)"
proof -
  have "k < length (graph_nodes g)"
    if "i < length (graph_nodes g)" "k \<in> set (node_inputs (graph_nodes g ! i))" for i k
    using assms nodes_ok_inputs [OF _ that] that(1) by (fastforce simp: wf_graph_def)
  then show ?thesis by (auto simp: input_closed_def live_nodes_def intro: needed_input)
qed

lemma reachable_live:
  assumes "wf_graph g"
  shows "(if dead_code_elimination cfg then reachable_nodes g
          else Inr (replicate (length (graph_nodes g)) True)) =
         (Inr (live_nodes cfg g) :: ('e, bool list) outcome)"
proof (cases "dead_code_elimination cfg")
  case True
  obtain r where r: "reachable_nodes g = (Inr r :: ('e, bool list) outcome)" "length r = length (graph_nodes g)"
    "\<forall>i < length (graph_nodes g). r ! i \<longleftrightarrow> i \<in> needed (graph_nodes g) (graph_outputs g)"
    using reachable_nodes_correct [OF assms] by blast
  then have "r = live_nodes cfg g"
    using True by (intro nth_equalityI) (auto simp: live_nodes_def)
  with r(1) show ?thesis using True by simp
next
  case False
  then have "live_nodes cfg g = replicate (length (graph_nodes g)) True"
    by (intro nth_equalityI) (simp_all add: live_nodes_def)
  with False show ?thesis by simp
qed

lemma optimize_graph_run:
  assumes wf: "wf_graph src" and typed: "typed_graph src"
    and size: "length (graph_nodes src) \<le> u32_range"
  obtains st where
    "opt_inv cfg (graph_nodes src) (live_nodes cfg src) (length (graph_nodes src)) st"
    "optimize_graph src cfg =
       Inr \<lparr>og_graph = (os_graph st)
              \<lparr>graph_outputs := map (\<lambda>k. the (os_mapping st ! k)) (graph_outputs src)\<rparr>,
            old_to_new = os_mapping st,
            og_stats = (os_stats st)\<lparr>retained_nodes := length (graph_nodes (os_graph st))\<rparr>\<rparr>"
proof -
  let ?ns = "graph_nodes src" and ?live = "live_nodes cfg src"
  let ?s0 = "\<lparr>os_graph = graph_new, os_mapping = replicate (length ?ns) None,
               os_stats = optimization_stats_default\<lparr>original_nodes := length ?ns\<rparr>\<rparr>"
  have closed: "input_closed ?ns ?live" by (rule live_nodes_closed [OF wf])
  have ok: "nodes_ok ?ns" using wf by (simp add: wf_graph_def)
  have "opt_inv cfg ?ns ?live 0 ?s0"
    by (simp add: opt_inv_def graph_new_def nodes_ok_def typed_graph_def dead_count_def
        no_common_subexpressions_def optimization_stats_default_def)
  moreover have "\<exists>s'. optimize_step cfg ?live s (enumerate 0 ?ns ! i) = Inr s' \<and>
      opt_inv cfg ?ns ?live (Suc i) s'"
    if "i < length (enumerate 0 ?ns)" "opt_inv cfg ?ns ?live i s" for i s
    using that optimize_step_inv [OF that(2) _ closed ok _ size] typed by (simp add: typed_graph_def)
  ultimately obtain st where fold: "try_fold (optimize_step cfg ?live) ?s0 (enumerate 0 ?ns) = Inr st"
    and inv: "opt_inv cfg ?ns ?live (length ?ns) st"
    using try_fold_total [of "opt_inv cfg ?ns ?live" ?s0 "enumerate 0 ?ns" "optimize_step cfg ?live"]
    by auto
  have outs: "k < length (os_mapping st) \<and> (\<exists>j. os_mapping st ! k = Some j \<and>
      j < length (graph_nodes (os_graph st)))" if "k \<in> set (graph_outputs src)" for k
  proof -
    have "k < length ?ns" using wf that by (simp add: wf_graph_def)
    moreover from this have "?live ! k" using that by (simp add: live_nodes_def needed_output)
    ultimately show ?thesis using inv by (fastforce simp: opt_inv_def Let_def represents_def)
  qed
  have lookup: "traverse (lookup_mapping (os_mapping st)) (graph_outputs src) =
      Inr (map (\<lambda>k. the (os_mapping st ! k)) (graph_outputs src))"
    using outs by (intro traverse_lookup) auto
  have set: "set_outputs (os_graph st) (map (\<lambda>k. the (os_mapping st ! k)) (graph_outputs src)) =
      Inr ((os_graph st)\<lparr>graph_outputs := map (\<lambda>k. the (os_mapping st ! k)) (graph_outputs src)\<rparr>)"
    using outs by fastforce
  have "optimize_graph src cfg =
      Inr \<lparr>og_graph = (os_graph st)
             \<lparr>graph_outputs := map (\<lambda>k. the (os_mapping st ! k)) (graph_outputs src)\<rparr>,
           old_to_new = os_mapping st,
           og_stats = (os_stats st)\<lparr>retained_nodes := length (graph_nodes (os_graph st))\<rparr>\<rparr>"
    using validate_iff_wf [of src "()"] validate_semantics_iff_typed [OF wf, of "()"] wf typed
    by (simp add: optimize_graph_def reachable_live fold lookup set)
  with inv that show ?thesis by blast
qed

text \<open>
  C11: the optimizer is total on the graphs it accepts: a valid, well-typed graph of at most
  \<open>2^32\<close> nodes is always optimized, never with a panic or a lost mapping, and the result is
  again valid and well-typed, no larger, and has outputs of the same types.
\<close>

theorem optimize_graph_total:
  assumes "validate src = Inr ()" and "validate_semantics src = Inr ()"
    and "length (graph_nodes src) \<le> u32_range"
  shows "\<exists>r. optimize_graph src cfg = Inr r \<and>
           validate (og_graph r) = Inr () \<and> validate_semantics (og_graph r) = Inr () \<and>
           length (graph_nodes (og_graph r)) \<le> length (graph_nodes src) \<and>
           map (type_of (graph_nodes (og_graph r))) (graph_outputs (og_graph r)) =
             map (type_of (graph_nodes src)) (graph_outputs src)"
proof -
  from assms have wf: "wf_graph src" and typed: "typed_graph src"
    using validate_semantics_iff_typed by (auto simp: validate_iff_wf)
  obtain st where inv: "opt_inv cfg (graph_nodes src) (live_nodes cfg src) (length (graph_nodes src)) st"
    and run: "optimize_graph src cfg =
       Inr \<lparr>og_graph = (os_graph st)
              \<lparr>graph_outputs := map (\<lambda>k. the (os_mapping st ! k)) (graph_outputs src)\<rparr>,
            old_to_new = os_mapping st,
            og_stats = (os_stats st)\<lparr>retained_nodes := length (graph_nodes (os_graph st))\<rparr>\<rparr>"
    using optimize_graph_run [OF wf typed assms(3)] .
  let ?g = "(os_graph st)\<lparr>graph_outputs := map (\<lambda>k. the (os_mapping st ! k)) (graph_outputs src)\<rparr>"
  have out: "the (os_mapping st ! k) < length (graph_nodes (os_graph st)) \<and>
      type_of (graph_nodes (os_graph st)) (the (os_mapping st ! k)) = type_of (graph_nodes src) k"
    if "k \<in> set (graph_outputs src)" for k
  proof -
    have "k < length (graph_nodes src)" using wf that by (simp add: wf_graph_def)
    moreover from this have "live_nodes cfg src ! k"
      using that by (simp add: live_nodes_def needed_output)
    ultimately show ?thesis using inv by (fastforce simp: opt_inv_def Let_def represents_def)
  qed
  have "wf_graph ?g" using inv out by (auto simp: opt_inv_def Let_def wf_graph_def)
  moreover have "typed_graph ?g" using inv by (simp add: opt_inv_def Let_def typed_graph_def)
  moreover have "length (graph_nodes (os_graph st)) \<le> length (graph_nodes src)"
    using inv by (simp add: opt_inv_def Let_def)
  ultimately show ?thesis
    using out by (intro exI [of _ "\<lparr>og_graph = ?g, old_to_new = os_mapping st, og_stats =
        (os_stats st)\<lparr>retained_nodes := length (graph_nodes (os_graph st))\<rparr>\<rparr>"])
      (simp add: run validate_iff_wf validate_semantics_iff_typed)
qed

theorem optimize_graph_total_witness:
  "\<exists>r. optimize_graph example_scaled optimization_config_default = Inr r \<and>
     validate (og_graph r) = Inr () \<and> validate_semantics (og_graph r) = Inr () \<and>
     length (graph_nodes (og_graph r)) \<le> length (graph_nodes example_scaled) \<and>
     map (type_of (graph_nodes (og_graph r))) (graph_outputs (og_graph r)) =
       map (type_of (graph_nodes example_scaled)) (graph_outputs example_scaled)"
  by (rule optimize_graph_total [OF example_scaled_ok]) (simp add: example_scaled_def)

text \<open>
  every optimization the configuration asks for is complete. With dead-code elimination
  every node of the result is needed by an output; with common-subexpression elimination no
  eligible node repeats an earlier one; and the statistics account for every source node:
  each is dead, merged, retained or simplified, and the dead ones are exactly those that no
  output needs.
\<close>

theorem optimize_graph_complete:
  assumes "validate src = Inr ()" and "validate_semantics src = Inr ()"
    and "length (graph_nodes src) \<le> u32_range" and "optimize_graph src cfg = Inr r"
  shows "(dead_code_elimination cfg \<longrightarrow> (\<forall>j < length (graph_nodes (og_graph r)).
            j \<in> needed (graph_nodes (og_graph r)) (graph_outputs (og_graph r)))) \<and>
         (common_subexpression_elimination cfg \<longrightarrow>
            no_common_subexpressions (graph_nodes (og_graph r))) \<and>
         original_nodes (og_stats r) = length (graph_nodes src) \<and>
         retained_nodes (og_stats r) = length (graph_nodes (og_graph r)) \<and>
         (dead_code_elimination cfg \<longrightarrow> eliminated_dead_nodes (og_stats r) =
            card {i. i < length (graph_nodes src) \<and>
                     i \<notin> needed (graph_nodes src) (graph_outputs src)}) \<and>
         retained_nodes (og_stats r) + eliminated_dead_nodes (og_stats r) +
           common_subexpressions (og_stats r) \<le> original_nodes (og_stats r) \<and>
         original_nodes (og_stats r) \<le> retained_nodes (og_stats r) +
           eliminated_dead_nodes (og_stats r) + common_subexpressions (og_stats r) +
           simplified_nodes (og_stats r)"
proof -
  from assms have wf: "wf_graph src" and typed: "typed_graph src"
    using validate_semantics_iff_typed by (auto simp: validate_iff_wf)
  let ?src = "graph_nodes src" and ?live = "live_nodes cfg src"
  obtain st where inv: "opt_inv cfg ?src ?live (length ?src) st"
    and run: "optimize_graph src cfg =
       Inr \<lparr>og_graph = (os_graph st)
              \<lparr>graph_outputs := map (\<lambda>k. the (os_mapping st ! k)) (graph_outputs src)\<rparr>,
            old_to_new = os_mapping st,
            og_stats = (os_stats st)\<lparr>retained_nodes := length (graph_nodes (os_graph st))\<rparr>\<rparr>"
    using optimize_graph_run [OF wf typed assms(3)] .
  let ?ns = "graph_nodes (os_graph st)" and ?m = "os_mapping st"
  let ?outs = "map (\<lambda>k. the (?m ! k)) (graph_outputs src)"
  have needed: "j \<in> needed ?ns ?outs"
    if "i \<in> needed ?src (graph_outputs src)" "i < length ?src" "?m ! i = Some j" for i j
    using that
  proof (induction arbitrary: j rule: needed_induct)
    case (root k)
    then show ?case by (intro needed_output) force
  next
    case (edge i k)
    then have "?live ! i" by (simp add: live_nodes_def)
    with inv edge.hyps(2) obtain i' where i': "?m ! i = Some i'" "represents cfg ?ns ?m (?src ! i) i'"
      by (auto simp: opt_inv_def Let_def)
    then obtain ms where ms: "map ((!) ?m) (node_inputs (?src ! i)) = map Some ms"
      and alt: "node_inputs (?ns ! i') = ms \<or> (\<exists>rest. ms = i' # rest \<and>
        is_alias (node_operation (?src ! i)) (type_of ?ns i') (node_output (?src ! i)))"
      by (auto simp: represents_def)
    have single: "rest = []" if "ms = i' # rest"
      "is_alias (node_operation (?src ! i)) (type_of ?ns i') (node_output (?src ! i))" for rest
    proof -
      have "length ms = expected_arity (node_operation (?src ! i))"
        using ms nodes_ok_arity edge.hyps(2) wf by (metis length_map wf_graph_def)
      with that show ?thesis
        by (cases "node_operation (?src ! i)") (auto simp: is_alias_def)
    qed
    have "j \<in> set ms"
    proof -
      have "?m ! k \<in> set (map ((!) ?m) (node_inputs (?src ! i)))" using edge.hyps(3) by simp
      with ms edge.prems(2) show ?thesis by auto
    qed
    moreover have "node_inputs (?ns ! i') = ms \<or> ms = [i']" using alt single by blast
    ultimately have "j \<in> set (node_inputs (?ns ! i')) \<or> j = i'" by (elim disjE) simp_all
    moreover have "i' \<in> needed ?ns ?outs" by (rule edge.IH [OF edge.hyps(2) i'(1)])
    moreover have "i' < length ?ns" using i'(2) by (simp add: represents_def)
    ultimately show ?case using needed_input by blast
  qed
  have all: "j \<in> needed ?ns ?outs" if dce: "dead_code_elimination cfg" and j: "j < length ?ns" for j
  proof -
    obtain i where "i < length ?src" "?live ! i" "?m ! i = Some j"
      using inv j by (auto simp: opt_inv_def Let_def)
    with dce needed show ?thesis by (auto simp: live_nodes_def)
  qed
  have "dead_count ?live (length ?src) = card {i. i < length ?src \<and> \<not> ?live ! i}"
    by (simp add: dead_count_def length_filter_conv_card live_nodes_def)
  moreover have "{i. i < length ?src \<and> \<not> ?live ! i} =
      {i. i < length ?src \<and> i \<notin> needed ?src (graph_outputs src)}" if "dead_code_elimination cfg"
    using that by (auto simp: live_nodes_def)
  moreover have "common_subexpression_elimination cfg \<longrightarrow> no_common_subexpressions ?ns"
    "original_nodes (os_stats st) = length ?src"
    "eliminated_dead_nodes (os_stats st) = dead_count ?live (length ?src)"
    "length ?ns + eliminated_dead_nodes (os_stats st) + common_subexpressions (os_stats st)
       \<le> length ?src"
    "length ?src \<le> length ?ns + eliminated_dead_nodes (os_stats st) +
       common_subexpressions (os_stats st) + simplified_nodes (os_stats st)"
    using inv by (simp_all add: opt_inv_def Let_def)
  moreover from assms(4) have "r = \<lparr>og_graph = (os_graph st)\<lparr>graph_outputs := ?outs\<rparr>,
      old_to_new = ?m, og_stats = (os_stats st)\<lparr>retained_nodes := length ?ns\<rparr>\<rparr>"
    by (simp add: run)
  ultimately show ?thesis using all by simp
qed

lemma optimize_example:
  "optimize_graph example_scaled optimization_config_default = Inr
     \<lparr>og_graph =
        \<lparr>graph_nodes = [mk_node (Input ''x'') [], mk_node Exp [0], mk_node Add [1, 1]],
         graph_outputs = [2]\<rparr>,
      old_to_new = [Some 0, Some 0, Some 1, Some 1, Some 2, None],
      og_stats = \<lparr>original_nodes = 6, retained_nodes = 3, eliminated_dead_nodes = 1,
         common_subexpressions = 1, simplified_nodes = 1\<rparr>\<rparr>"
proof -
  have live: "reachable_nodes example_scaled =
      (Inr [True, True, True, True, True, False] :: (optimization_error, bool list) outcome)"
    by (simp add: example_scaled_def reachable_nodes_def mark_reachable.simps mk_node_def)
  note unfold_step = optimize_step_def lookup_mapping_def simplify_alias_def fold_operation_def
    simplify_operation_def cse_eligible_def find_equivalent_def add_node_def Let_def
    check_inputs_def as_f32_is_def f32_eq_def f32_is_nan_def f32_is_zero_def require_def
  show ?thesis
    by (simp add: optimize_graph_def example_scaled_ok optimization_config_default_def live)
      (simp add: example_scaled_def mk_node_def graph_new_def optimization_stats_default_def
        unfold_step set_outputs_def check_outputs_def)
qed

theorem optimize_graph_complete_witness:
  "\<exists>r. optimize_graph example_scaled optimization_config_default = Inr r \<and>
     (\<forall>j < length (graph_nodes (og_graph r)).
        j \<in> needed (graph_nodes (og_graph r)) (graph_outputs (og_graph r))) \<and>
     no_common_subexpressions (graph_nodes (og_graph r)) \<and> eliminated_dead_nodes (og_stats r) = 1"
proof -
  have "length (graph_nodes example_scaled) \<le> u32_range" by (simp add: example_scaled_def)
  from optimize_graph_complete [OF example_scaled_ok this optimize_example] show ?thesis
    by (auto simp: optimize_example)
qed

end
