(* ===== verification/Ordered_Map.thy ===== *)
theory Ordered_Map
  imports Prelude
begin

text \<open>
  Rust's \<open>BTreeMap\<close> with natural-number keys, as an association list with strictly increasing
  keys: the iteration order of the map is the order of the list. The locale states what the
  planner and the lowerer rely on; the interpretation discharges it for the sorted lists.
\<close>

type_synonym 'v bt_map = "(nat \<times> 'v) list"

fun bt_get :: "'v bt_map \<Rightarrow> nat \<Rightarrow> 'v option" where
  "bt_get [] k = None"
| "bt_get ((k', v) # m) k = (if k = k' then Some v else bt_get m k)"

fun bt_insert :: "nat \<Rightarrow> 'v \<Rightarrow> 'v bt_map \<Rightarrow> 'v bt_map" where
  "bt_insert k v [] = [(k, v)]"
| "bt_insert k v ((k', v') # m) =
     (if k < k' then (k, v) # (k', v') # m
      else if k = k' then (k, v) # m
      else (k', v') # bt_insert k v m)"

definition bt_remove :: "nat \<Rightarrow> 'v bt_map \<Rightarrow> 'v bt_map" where
  "bt_remove k m = filter (\<lambda>p. fst p \<noteq> k) m"

definition bt_keys :: "'v bt_map \<Rightarrow> nat list" where
  "bt_keys m = map fst m"

definition bt_ok :: "'v bt_map \<Rightarrow> bool" where
  "bt_ok m \<longleftrightarrow> sorted_wrt (<) (map fst m)"

lemma bt_get_map_of: "bt_get m k = map_of m k"
  by (induction m k rule: bt_get.induct) auto

lemma bt_keys_insert: "set (map fst (bt_insert k v m)) = insert k (set (map fst m))"
  by (induction k v m rule: bt_insert.induct) auto

lemma bt_ok_insert: "bt_ok m \<Longrightarrow> bt_ok (bt_insert k v m)"
proof (induction k v m rule: bt_insert.induct)
  case (2 k v k' v' m)
  then show ?case using bt_keys_insert [of k v m] by (auto simp: bt_ok_def)
qed (simp add: bt_ok_def)

lemma bt_get_insert [simp]: "bt_get (bt_insert k v m) k' = (if k' = k then Some v else bt_get m k')"
  by (induction k v m rule: bt_insert.induct) auto

lemma bt_ok_remove: "bt_ok m \<Longrightarrow> bt_ok (bt_remove k m)"
  unfolding bt_ok_def bt_remove_def by (induction m) auto

lemma bt_get_remove [simp]: "bt_get (bt_remove k m) k' = (if k' = k then None else bt_get m k')"
  unfolding bt_remove_def by (induction m) auto

lemma bt_keys_get: "k \<in> set (bt_keys m) \<longleftrightarrow> bt_get m k \<noteq> None"
  unfolding bt_keys_def by (induction m) auto

lemma bt_ok_distinct: "bt_ok m \<Longrightarrow> distinct (bt_keys m)"
  by (simp add: bt_ok_def bt_keys_def strict_sorted_iff)

lemma bt_get_mem: "bt_ok m \<Longrightarrow> (k, v) \<in> set m \<longleftrightarrow> bt_get m k = Some v"
  by (metis bt_get_map_of bt_keys_def bt_ok_distinct map_of_eq_Some_iff)

section \<open>The contract of an ordered map\<close>

locale ordered_map =
  fixes empty_map :: 'm
    and get_map :: "'m \<Rightarrow> nat \<Rightarrow> 'v option"
    and insert_map :: "nat \<Rightarrow> 'v \<Rightarrow> 'm \<Rightarrow> 'm"
    and remove_map :: "nat \<Rightarrow> 'm \<Rightarrow> 'm"
    and keys_map :: "'m \<Rightarrow> nat list"
    and ok_map :: "'m \<Rightarrow> bool"
  assumes ok_empty: "ok_map empty_map"
    and ok_insert: "ok_map m \<Longrightarrow> ok_map (insert_map k v m)"
    and ok_remove: "ok_map m \<Longrightarrow> ok_map (remove_map k m)"
    and get_empty: "get_map empty_map k = None"
    and get_insert: "get_map (insert_map k v m) k' = (if k' = k then Some v else get_map m k')"
    and get_remove: "get_map (remove_map k m) k' = (if k' = k then None else get_map m k')"
    and keys_get: "ok_map m \<Longrightarrow> sorted_wrt (<) (keys_map m) \<and> set (keys_map m) = {k. get_map m k \<noteq> None}"
begin

text \<open>Removing a list of keys, and building a map from a list of entries.\<close>

lemma get_remove_all:
  "get_map (fold remove_map ks m) k = (if k \<in> set ks then None else get_map m k)"
  by (induction ks arbitrary: m) (auto simp: get_remove)

lemma ok_remove_all: "ok_map m \<Longrightarrow> ok_map (fold remove_map ks m)"
  by (induction ks arbitrary: m) (auto simp: ok_remove)

lemma get_insert_all:
  "distinct (map fst es) \<Longrightarrow>
     get_map (fold (\<lambda>(k, v). insert_map k v) es m) k =
       (case map_of es k of Some v \<Rightarrow> Some v | None \<Rightarrow> get_map m k)"
  by (induction es arbitrary: m) (auto simp: get_insert map_of_eq_None_iff split: option.splits
      dest: map_of_SomeD intro: rev_image_eqI)

lemma ok_insert_all: "ok_map m \<Longrightarrow> ok_map (fold (\<lambda>(k, v). insert_map k v) es m)"
  by (induction es arbitrary: m) (auto simp: ok_insert)

lemma key_count: "ok_map m \<Longrightarrow> length (keys_map m) = card {k. get_map m k \<noteq> None}"
  using keys_get [of m] by (metis distinct_card strict_sorted_iff)

end

interpretation bt: ordered_map "[]" bt_get bt_insert bt_remove bt_keys bt_ok
proof unfold_locales
  show "sorted_wrt (<) (bt_keys m) \<and> set (bt_keys m) = {k. bt_get m k \<noteq> None}" if "bt_ok m"
    for m :: "'a bt_map"
    using that bt_keys_get [of _ m] by (auto simp: bt_ok_def bt_keys_def)
qed (auto simp: bt_ok_insert bt_ok_remove bt_ok_def [of "[]"])

end
