(* ===== verification/Memory_Plan.thy ===== *)
theory Memory_Plan
  imports Graph_Optimize Ordered_Map
begin

text \<open>
  Logical buffer planning of \<open>scirust-tensor-compile\<close> (\<open>memory.rs\<close>): computed values get
  buffer slots that are reused after the last use of a value when the type matches. The main theorem is
  that slot sharing is safe: no value is overwritten while it is still needed.
\<close>

section \<open>Instructions and storage\<close>

record instruction =
  ins_id :: node_id
  ins_operation :: operation
  ins_inputs :: "node_id list"
  ins_output :: tensor_type

type_synonym buffer_slot = nat

datatype value_storage = ExternalInput | ExternalConstant | Buffer buffer_slot

record value_allocation =
  va_node :: node_id
  va_storage :: value_storage

record buffer_slot_spec =
  bs_slot :: buffer_slot
  bs_tensor_type :: tensor_type

record memory_plan =
  mp_allocations :: "value_allocation list"
  mp_slots :: "buffer_slot_spec list"
  mp_peak_live_buffers :: usize

definition storage_for :: "memory_plan \<Rightarrow> node_id \<Rightarrow> value_storage option" where
  "storage_for plan n =
     map_option va_storage (List.find (\<lambda>a. va_node a = n) (mp_allocations plan))"

section \<open>The planner\<close>

text \<open>The table of last uses: \<open>entry(..).or_insert\<close> and \<open>and_modify(max).or_insert\<close>.\<close>

definition define_value :: "(node_id \<rightharpoonup> usize) \<Rightarrow> usize \<Rightarrow> node_id \<Rightarrow> (node_id \<rightharpoonup> usize)" where
  "define_value last_use step n =
     (case last_use n of Some _ \<Rightarrow> last_use | None \<Rightarrow> last_use(n \<mapsto> step))"

definition note_use :: "usize \<Rightarrow> (node_id \<rightharpoonup> usize) \<Rightarrow> node_id \<Rightarrow> (node_id \<rightharpoonup> usize)" where
  "note_use step last_use n =
     last_use(n \<mapsto> (case last_use n of Some use_step \<Rightarrow> max use_step step | None \<Rightarrow> step))"

definition note_instruction ::
  "(node_id \<rightharpoonup> usize) \<Rightarrow> usize \<times> instruction \<Rightarrow> (node_id \<rightharpoonup> usize)" where
  "note_instruction last_use p = (case p of (step, i) \<Rightarrow>
     foldl (note_use step) (define_value last_use step (ins_id i)) (ins_inputs i))"

definition last_uses :: "instruction list \<Rightarrow> node_id list \<Rightarrow> (node_id \<rightharpoonup> usize)" where
  "last_uses instructions outputs =
     foldl (note_use (length instructions - 1))
       (foldl note_instruction Map.empty (enumerate 0 instructions)) outputs"

record plan_state =
  ps_allocations :: "value_allocation list"
  ps_slots :: "buffer_slot_spec list"
  ps_free :: "buffer_slot list"
  ps_active :: "buffer_slot bt_map"
  ps_peak :: usize

definition plan_start :: plan_state where
  "plan_start = \<lparr>ps_allocations = [], ps_slots = [], ps_free = [], ps_active = [], ps_peak = 0\<rparr>"

text \<open>\<open>active.remove(&node)\<close>, pushing the slot it held, for every retired value; then the sort.\<close>

definition release :: "plan_state \<Rightarrow> node_id \<Rightarrow> plan_state" where
  "release st n = (case bt_get (ps_active st) n of
       None \<Rightarrow> st
     | Some slot \<Rightarrow> st\<lparr>ps_active := bt_remove n (ps_active st), ps_free := ps_free st @ [slot]\<rparr>)"

definition retire :: "(node_id \<rightharpoonup> usize) \<Rightarrow> usize \<Rightarrow> plan_state \<Rightarrow> plan_state" where
  "retire last_use step st =
     (let retired = filter (\<lambda>n. case last_use n of Some final \<Rightarrow> final < step | None \<Rightarrow> False)
                      (bt_keys (ps_active st));
          st' = foldl release st retired in
      st'\<lparr>ps_free := sort (ps_free st')\<rparr>)"

text \<open>\<open>free_slots.iter().position(|&slot| slots[slot].tensor_type == ty)\<close>.\<close>

fun find_compatible ::
  "buffer_slot_spec list \<Rightarrow> tensor_type \<Rightarrow> buffer_slot list \<Rightarrow> ('e, usize option) outcome" where
  "find_compatible slots ty [] = Inr None"
| "find_compatible slots ty (slot # free) =
     try_bind (idx slots slot) (\<lambda>spec.
       if bs_tensor_type spec = ty then Inr (Some 0)
       else try_bind (find_compatible slots ty free) (\<lambda>p. Inr (map_option Suc p)))"

definition take_slot ::
  "plan_state \<Rightarrow> tensor_type \<Rightarrow> ('e, plan_state \<times> buffer_slot) outcome" where
  "take_slot st ty =
     try_bind (find_compatible (ps_slots st) ty (ps_free st)) (\<lambda>compatible.
       case compatible of
         Some position \<Rightarrow>
           try_bind (idx (ps_free st) position) (\<lambda>slot.
           Inr (st\<lparr>ps_free := take position (ps_free st) @ drop (Suc position) (ps_free st)\<rparr>, slot))
       | None \<Rightarrow>
           (let slot = length (ps_slots st) in
            Inr (st\<lparr>ps_slots := ps_slots st @ [\<lparr>bs_slot = slot, bs_tensor_type = ty\<rparr>]\<rparr>, slot)))"

definition assign_storage ::
  "plan_state \<Rightarrow> instruction \<Rightarrow> ('e, plan_state \<times> value_storage) outcome" where
  "assign_storage st i =
     (case ins_operation i of
        Input _ \<Rightarrow> Inr (st, ExternalInput)
      | Constant _ \<Rightarrow> Inr (st, ExternalConstant)
      | _ \<Rightarrow>
          try_bind (take_slot st (ins_output i)) (\<lambda>(st, slot).
          let active = bt_insert (ins_id i) slot (ps_active st) in
          Inr (st\<lparr>ps_active := active, ps_peak := max (ps_peak st) (length active)\<rparr>, Buffer slot)))"

definition plan_step ::
  "(node_id \<rightharpoonup> usize) \<Rightarrow> plan_state \<Rightarrow> usize \<times> instruction \<Rightarrow> ('e, plan_state) outcome" where
  "plan_step last_use st p = (case p of (step, i) \<Rightarrow>
     try_bind (assign_storage (retire last_use step st) i) (\<lambda>(st, storage).
     Inr (st\<lparr>ps_allocations := ps_allocations st @
               [\<lparr>va_node = ins_id i, va_storage = storage\<rparr>]\<rparr>)))"

definition memory_plan_build ::
  "instruction list \<Rightarrow> node_id list \<Rightarrow> ('e, memory_plan) outcome" where
  "memory_plan_build instructions outputs =
     try_bind (try_fold (plan_step (last_uses instructions outputs)) plan_start
                 (enumerate 0 instructions)) (\<lambda>st.
     Inr \<lparr>mp_allocations = ps_allocations st, mp_slots = ps_slots st,
          mp_peak_live_buffers = ps_peak st\<rparr>)"

section \<open>The invariant of the planner\<close>

definition is_buffer :: "value_storage \<Rightarrow> bool" where
  "is_buffer s = (case s of Buffer _ \<Rightarrow> True | _ \<Rightarrow> False)"

definition computed :: "operation \<Rightarrow> bool" where
  "computed oper \<longleftrightarrow> (case oper of Input _ \<Rightarrow> False | Constant _ \<Rightarrow> False | _ \<Rightarrow> True)"

definition storage_matches :: "operation \<Rightarrow> value_storage \<Rightarrow> bool" where
  "storage_matches oper storage \<longleftrightarrow>
     (case oper of
        Input _ \<Rightarrow> storage = ExternalInput
      | Constant _ \<Rightarrow> storage = ExternalConstant
      | _ \<Rightarrow> is_buffer storage)"

definition slot_at :: "value_allocation list \<Rightarrow> nat \<Rightarrow> buffer_slot \<Rightarrow> bool" where
  "slot_at allocations i s \<longleftrightarrow> i < length allocations \<and> va_storage (allocations ! i) = Buffer s"

text \<open>What the allocations and slots made so far satisfy, whatever is active.\<close>

definition slots_inv ::
  "instruction list \<Rightarrow> (node_id \<rightharpoonup> usize) \<Rightarrow> nat \<Rightarrow> plan_state \<Rightarrow> bool" where
  "slots_inv xs lu k st \<longleftrightarrow>
     length (ps_allocations st) = k \<and>
     (\<forall>i < k. va_node (ps_allocations st ! i) = ins_id (xs ! i) \<and>
        storage_matches (ins_operation (xs ! i)) (va_storage (ps_allocations st ! i))) \<and>
     (\<forall>i s. slot_at (ps_allocations st) i s \<longrightarrow>
        s < length (ps_slots st) \<and> bs_tensor_type (ps_slots st ! s) = ins_output (xs ! i)) \<and>
     (\<forall>s < length (ps_slots st). bs_slot (ps_slots st ! s) = s) \<and>
     (\<forall>i j s. i < j \<longrightarrow> slot_at (ps_allocations st) i s \<longrightarrow> slot_at (ps_allocations st) j s \<longrightarrow>
        (\<exists>u. lu (ins_id (xs ! i)) = Some u \<and> u < j)) \<and>
     ps_peak st \<le> length (ps_slots st) \<and>
     length (ps_slots st) \<le> length (filter (\<lambda>a. is_buffer (va_storage a)) (ps_allocations st))"

text \<open>
  The active map holds exactly the buffered values whose last use is at least \<open>t\<close>, each slot
  at most once; the free list holds exactly the other slots.
\<close>

definition active_inv ::
  "instruction list \<Rightarrow> (node_id \<rightharpoonup> usize) \<Rightarrow> nat \<Rightarrow> value_allocation list \<Rightarrow> nat
     \<Rightarrow> buffer_slot bt_map \<Rightarrow> buffer_slot list \<Rightarrow> bool" where
  "active_inv xs lu t al slots active free \<longleftrightarrow>
     bt_ok active \<and>
     (\<forall>n s. bt_get active n = Some s \<longleftrightarrow>
        (\<exists>i. ins_id (xs ! i) = n \<and> slot_at al i s \<and> (\<exists>u. lu n = Some u \<and> t \<le> u))) \<and>
     (\<forall>n m s. bt_get active n = Some s \<longrightarrow> bt_get active m = Some s \<longrightarrow> n = m) \<and>
     (\<forall>n s. bt_get active n = Some s \<longrightarrow> s < slots) \<and>
     distinct free \<and>
     (\<forall>s. s \<in> set free \<longleftrightarrow> s < slots \<and> (\<forall>n. bt_get active n \<noteq> Some s))"

definition plan_inv ::
  "instruction list \<Rightarrow> (node_id \<rightharpoonup> usize) \<Rightarrow> nat \<Rightarrow> nat \<Rightarrow> plan_state \<Rightarrow> bool" where
  "plan_inv xs lu t k st \<longleftrightarrow> slots_inv xs lu k st \<and>
     active_inv xs lu t (ps_allocations st) (length (ps_slots st)) (ps_active st) (ps_free st)"

lemma release_all:
  assumes "\<forall>n \<in> set ns. bt_get (ps_active st) n \<noteq> None" and "distinct ns"
  shows "foldl release st ns = st\<lparr>ps_active := fold bt_remove ns (ps_active st),
    ps_free := ps_free st @ map (\<lambda>n. the (bt_get (ps_active st) n)) ns\<rparr>"
  using assms
proof (induction ns arbitrary: st)
  case Nil
  then show ?case by simp
next
  case (Cons n ns)
  from Cons.prems obtain s where s: "bt_get (ps_active st) n = Some s" by auto
  let ?st = "st\<lparr>ps_active := bt_remove n (ps_active st), ps_free := ps_free st @ [s]\<rparr>"
  have IH: "foldl release ?st ns = ?st\<lparr>ps_active := fold bt_remove ns (ps_active ?st),
    ps_free := ps_free ?st @ map (\<lambda>n. the (bt_get (ps_active ?st) n)) ns\<rparr>"
    using Cons.prems by (intro Cons.IH) auto
  have same: "map (\<lambda>m. the (bt_get (ps_active ?st) m)) ns = map (\<lambda>m. the (bt_get (ps_active st) m)) ns"
    using Cons.prems by (intro map_cong) auto
  have rel: "release st n = ?st" by (simp add: release_def s)
  show ?case unfolding foldl_Cons rel IH same by (simp add: s)
qed

lemma retire_active:
  assumes inv: "active_inv xs lu (k - 1) al slots active free"
    and dead: "\<And>n. dead n \<longleftrightarrow> (case lu n of Some u \<Rightarrow> u < k | None \<Rightarrow> False)"
    and ns: "distinct ns" "\<And>n. n \<in> set ns \<longleftrightarrow> dead n \<and> bt_get active n \<noteq> None"
  shows "active_inv xs lu k al slots (fold bt_remove ns active)
    (sort (free @ map (\<lambda>n. the (bt_get active n)) ns))"
proof -
  let ?active = "fold bt_remove ns active" and ?new = "map (\<lambda>n. the (bt_get active n)) ns"
  have ok: "bt_ok active" and lt: "\<And>n s. bt_get active n = Some s \<Longrightarrow> s < slots"
    and act: "\<And>n s. bt_get active n = Some s \<longleftrightarrow>
       (\<exists>i. ins_id (xs ! i) = n \<and> slot_at al i s \<and> (\<exists>u. lu n = Some u \<and> k - 1 \<le> u))"
    and inj: "\<And>n m s. bt_get active n = Some s \<Longrightarrow> bt_get active m = Some s \<Longrightarrow> n = m"
    and free: "distinct free" "\<And>s. s \<in> set free \<longleftrightarrow> s < slots \<and> (\<forall>n. bt_get active n \<noteq> Some s)"
    using inv unfolding active_inv_def by blast+
  have get: "bt_get ?active n = (if dead n then None else bt_get active n)" for n
    using ns(2) by (auto simp: bt.get_remove_all)
  have set_new: "set ?new = {s. \<exists>n. dead n \<and> bt_get active n = Some s}"
    using ns(2) by (force simp: image_iff)
  have "distinct ?new" using ns inj by (auto simp: distinct_map inj_on_def)
  with free set_new have "distinct (free @ ?new)" by auto
  moreover have "s \<in> set (free @ ?new) \<longleftrightarrow> s < slots \<and> (\<forall>n. bt_get ?active n \<noteq> Some s)" for s
    unfolding set_append set_new get using free(2) lt by (auto dest: inj)
  moreover have "bt_get ?active n = Some s \<longleftrightarrow>
      (\<exists>i. ins_id (xs ! i) = n \<and> slot_at al i s \<and> (\<exists>u. lu n = Some u \<and> k \<le> u))" for n s
    by (auto simp: get act dead)
  moreover have "bt_ok ?active" using ok by (rule bt.ok_remove_all)
  moreover have "n = m" if "bt_get ?active n = Some s" "bt_get ?active m = Some s" for n m s
    using that inj by (simp add: get split: if_splits)
  moreover have "s < slots" if "bt_get ?active n = Some s" for n s
    using that lt by (simp add: get split: if_splits)
  ultimately show ?thesis unfolding active_inv_def by simp
qed

lemma retire_inv:
  assumes inv: "plan_inv xs lu (k - 1) k st"
  shows "plan_inv xs lu k k (retire lu k st)"
proof -
  define dead where "dead n \<longleftrightarrow> (case lu n of Some u \<Rightarrow> u < k | None \<Rightarrow> False)" for n
  define ns where "ns = filter dead (bt_keys (ps_active st))"
  have "bt_ok (ps_active st)" using inv by (simp add: plan_inv_def active_inv_def)
  then have ns: "distinct ns" "\<And>n. n \<in> set ns \<longleftrightarrow> dead n \<and> bt_get (ps_active st) n \<noteq> None"
    using bt_ok_distinct [of "ps_active st"] by (auto simp: ns_def bt_keys_get)
  have retire: "retire lu k st = st\<lparr>ps_active := fold bt_remove ns (ps_active st),
      ps_free := sort (ps_free st @ map (\<lambda>n. the (bt_get (ps_active st) n)) ns)\<rparr>"
    using release_all [of ns st] ns
    by (simp add: retire_def Let_def ns_def dead_def [abs_def])
  have "active_inv xs lu (k - 1) (ps_allocations st) (length (ps_slots st)) (ps_active st) (ps_free st)"
    using inv by (simp add: plan_inv_def)
  from retire_active [OF this dead_def ns] inv show ?thesis
    by (simp add: plan_inv_def retire slots_inv_def)
qed

lemma find_compatible_total:
  "\<forall>s \<in> set free. s < length slots \<Longrightarrow>
     \<exists>r. find_compatible slots ty free = (Inr r :: ('e, usize option) outcome) \<and>
       (\<forall>p. r = Some p \<longrightarrow> p < length free \<and> bs_tensor_type (slots ! (free ! p)) = ty)"
proof (induction free)
  case Nil
  then show ?case by simp
next
  case (Cons s free)
  then obtain r where "find_compatible slots ty free = (Inr r :: ('e, usize option) outcome)"
    "\<forall>p. r = Some p \<longrightarrow> p < length free \<and> bs_tensor_type (slots ! (free ! p)) = ty" by auto
  with Cons.prems show ?case by auto
qed

lemma set_remove_nth:
  "distinct xs \<Longrightarrow> p < length xs \<Longrightarrow>
     distinct (take p xs @ drop (Suc p) xs) \<and> set (take p xs @ drop (Suc p) xs) = set xs - {xs ! p}"
proof (induction xs arbitrary: p)
  case (Cons x xs)
  then show ?case by (cases p) auto
qed simp

text \<open>The slot a value receives is fresh or free, and its type is right.\<close>

lemma take_slot_inv:
  assumes act: "active_inv xs lu t al (length (ps_slots st)) (ps_active st) (ps_free st)"
  shows "\<exists>st' slot. take_slot st ty = (Inr (st', slot) :: ('e, plan_state \<times> buffer_slot) outcome) \<and>
    ps_active st' = ps_active st \<and> ps_allocations st' = ps_allocations st \<and> ps_peak st' = ps_peak st \<and>
    slot < length (ps_slots st') \<and> (\<forall>n. bt_get (ps_active st) n \<noteq> Some slot) \<and>
    distinct (ps_free st') \<and>
    (\<forall>s. s \<in> set (ps_free st') \<longleftrightarrow> s < length (ps_slots st') \<and> s \<noteq> slot \<and>
       (\<forall>n. bt_get (ps_active st) n \<noteq> Some s)) \<and>
    (ps_slots st' = ps_slots st \<and> bs_tensor_type (ps_slots st ! slot) = ty \<or>
     slot = length (ps_slots st) \<and>
     ps_slots st' = ps_slots st @ [\<lparr>bs_slot = slot, bs_tensor_type = ty\<rparr>])"
proof -
  have free: "distinct (ps_free st)"
    "\<And>s. s \<in> set (ps_free st) \<longleftrightarrow> s < length (ps_slots st) \<and> (\<forall>n. bt_get (ps_active st) n \<noteq> Some s)"
    and lt: "\<And>n s. bt_get (ps_active st) n = Some s \<Longrightarrow> s < length (ps_slots st)"
    using act unfolding active_inv_def by blast+
  obtain r where r: "find_compatible (ps_slots st) ty (ps_free st) =
      (Inr r :: ('e, usize option) outcome)"
    "\<forall>p. r = Some p \<longrightarrow> p < length (ps_free st) \<and> bs_tensor_type (ps_slots st ! (ps_free st ! p)) = ty"
    using find_compatible_total [of "ps_free st" "ps_slots st" ty] free(2) by blast
  show ?thesis
  proof (cases r)
    case (Some p)
    then have p: "p < length (ps_free st)" "bs_tensor_type (ps_slots st ! (ps_free st ! p)) = ty"
      using r(2) by auto
    have mem: "ps_free st ! p \<in> set (ps_free st)" using p(1) by simp
    note rest = set_remove_nth [OF free(1) p(1)]
    show ?thesis
      using Some p mem rest free(2)
      by (intro exI [of _ "st\<lparr>ps_free := take p (ps_free st) @ drop (Suc p) (ps_free st)\<rparr>"]
          exI [of _ "ps_free st ! p"]) (auto simp: take_slot_def r(1))
  next
    case None
    show ?thesis
      using None free lt
      by (intro exI [of _ "st\<lparr>ps_slots := ps_slots st @
            [\<lparr>bs_slot = length (ps_slots st), bs_tensor_type = ty\<rparr>]\<rparr>"]
          exI [of _ "length (ps_slots st)"]) (auto simp: take_slot_def r(1) Let_def less_Suc_eq)
  qed
qed

lemma active_count:
  assumes "bt_ok active" and "\<forall>n s. bt_get active n = Some s \<longrightarrow> s < slots"
    and "\<forall>n m s. bt_get active n = Some s \<longrightarrow> bt_get active m = Some s \<longrightarrow> n = m"
  shows "length active \<le> slots"
proof -
  have "inj_on snd (set active)"
    using assms(3) bt_get_mem [OF assms(1)] by (auto simp: inj_on_def)
  then have "distinct (map snd active)"
    using bt_ok_distinct [OF assms(1)] by (auto simp: distinct_map bt_keys_def)
  moreover have "set (map snd active) \<subseteq> {..<slots}"
    using assms(2) bt_get_mem [OF assms(1)] by auto
  ultimately have "length (map snd active) \<le> card {..<slots}"
    by (metis card_mono distinct_card finite_lessThan)
  then show ?thesis by simp
qed

lemma slot_at_snoc:
  "slot_at (al @ [a]) i s \<longleftrightarrow> slot_at al i s \<or> (i = length al \<and> va_storage a = Buffer s)"
  by (auto simp: slot_at_def nth_append)

text \<open>Every value's last use is recorded and is not before its definition.\<close>

definition last_use_ok :: "instruction list \<Rightarrow> (node_id \<rightharpoonup> usize) \<Rightarrow> bool" where
  "last_use_ok xs lu \<longleftrightarrow> (\<forall>i < length xs. \<exists>u. lu (ins_id (xs ! i)) = Some u \<and> i \<le> u)"

lemma computed_assign:
  "computed (ins_operation i) \<Longrightarrow> assign_storage st i =
     try_bind (take_slot st (ins_output i)) (\<lambda>(st, slot).
       let active = bt_insert (ins_id i) slot (ps_active st) in
       Inr (st\<lparr>ps_active := active, ps_peak := max (ps_peak st) (length active)\<rparr>, Buffer slot))"
  "computed (ins_operation i) \<Longrightarrow> storage_matches (ins_operation i) storage \<longleftrightarrow> is_buffer storage"
  by (cases "ins_operation i"; simp add: computed_def assign_storage_def storage_matches_def)+

lemma plan_step_computed:
  assumes inv: "plan_inv xs lu k k st" and k: "k < length xs" and comp: "computed (ins_operation (xs ! k))"
    and lu: "last_use_ok xs lu" and dist: "distinct (map ins_id xs)"
  shows "\<exists>st' storage. assign_storage st (xs ! k) = (Inr (st', storage) :: ('e, plan_state \<times> value_storage) outcome) \<and>
    plan_inv xs lu k (Suc k)
      (st'\<lparr>ps_allocations := ps_allocations st' @ [\<lparr>va_node = ins_id (xs ! k), va_storage = storage\<rparr>]\<rparr>)"
proof -
  let ?i = "xs ! k" and ?al = "ps_allocations st"
  have act: "active_inv xs lu k ?al (length (ps_slots st)) (ps_active st) (ps_free st)"
    and slots: "slots_inv xs lu k st" using inv by (simp_all add: plan_inv_def)
  obtain st1 slot where take: "take_slot st (ins_output ?i) = (Inr (st1, slot) :: ('e, plan_state \<times> buffer_slot) outcome)"
    and same: "ps_active st1 = ps_active st" "ps_allocations st1 = ?al" "ps_peak st1 = ps_peak st"
    and slot: "slot < length (ps_slots st1)" "\<forall>n. bt_get (ps_active st) n \<noteq> Some slot"
    and free1: "distinct (ps_free st1)" "\<forall>s. s \<in> set (ps_free st1) \<longleftrightarrow>
        s < length (ps_slots st1) \<and> s \<noteq> slot \<and> (\<forall>n. bt_get (ps_active st) n \<noteq> Some s)"
    and kind: "ps_slots st1 = ps_slots st \<and> bs_tensor_type (ps_slots st ! slot) = ins_output ?i \<or>
       slot = length (ps_slots st) \<and>
       ps_slots st1 = ps_slots st @ [\<lparr>bs_slot = slot, bs_tensor_type = ins_output ?i\<rparr>]"
    using take_slot_inv [OF act, of "ins_output ?i"] by (elim exE conjE) (rule that)
  have len: "length ?al = k" using slots by (simp add: slots_inv_def)
  have ids: "ins_id (xs ! i) = ins_id ?i \<longleftrightarrow> i = k" if "i \<le> k" for i
    using dist k that by (simp add: distinct_conv_nth) (metis le_less_trans)
  have grow: "length (ps_slots st) \<le> length (ps_slots st1)"
    "\<And>s. s < length (ps_slots st) \<Longrightarrow> ps_slots st1 ! s = ps_slots st ! s"
    using kind by (auto simp: nth_append)
  have old: "s < length (ps_slots st) \<and> bs_tensor_type (ps_slots st ! s) = ins_output (xs ! i)"
    if "slot_at ?al i s" for i s
    using slots that unfolding slots_inv_def by blast
  have act_iff: "bt_get (ps_active st) n = Some s \<longleftrightarrow>
      (\<exists>i. ins_id (xs ! i) = n \<and> slot_at ?al i s \<and> (\<exists>u. lu n = Some u \<and> k \<le> u))" for n s
    using act unfolding active_inv_def by blast
  have inj: "n = m" if "bt_get (ps_active st) n = Some s" "bt_get (ps_active st) m = Some s" for n m s
    using act that unfolding active_inv_def by blast
  have lt: "s < length (ps_slots st)" if "bt_get (ps_active st) n = Some s" for n s
    using act that unfolding active_inv_def by blast
  have absent: "bt_get (ps_active st) (ins_id ?i) = None"
  proof (rule ccontr)
    assume "bt_get (ps_active st) (ins_id ?i) \<noteq> None"
    then obtain i s where "ins_id (xs ! i) = ins_id ?i" "slot_at ?al i s"
      using act_iff [of "ins_id ?i"] by blast
    with ids [of i] len show False by (auto simp: slot_at_def)
  qed
  have expired: "\<exists>u. lu (ins_id (xs ! i)) = Some u \<and> u < k" if "slot_at ?al i slot" for i
  proof -
    have "i < length xs" using that len k by (simp add: slot_at_def)
    then obtain u where u: "lu (ins_id (xs ! i)) = Some u" using lu by (auto simp: last_use_ok_def)
    have "\<not> k \<le> u"
    proof
      assume "k \<le> u"
      with that u have "bt_get (ps_active st) (ins_id (xs ! i)) = Some slot" by (auto simp: act_iff)
      with slot(2) show False by blast
    qed
    with u show ?thesis by auto
  qed
  let ?active = "bt_insert (ins_id ?i) slot (ps_active st)"
  let ?al' = "?al @ [\<lparr>va_node = ins_id ?i, va_storage = Buffer slot\<rparr>]"
  obtain uk where uk: "lu (ins_id ?i) = Some uk" "k \<le> uk" using lu k by (auto simp: last_use_ok_def)
  have active': "active_inv xs lu k ?al' (length (ps_slots st1)) ?active (ps_free st1)"
  proof -
    have a1: "bt_ok ?active" using act by (simp add: active_inv_def bt_ok_insert)
    have a2: "bt_get ?active n = Some s \<longleftrightarrow>
        (\<exists>i. ins_id (xs ! i) = n \<and> slot_at ?al' i s \<and> (\<exists>u. lu n = Some u \<and> k \<le> u))" for n s
    proof (cases "n = ins_id ?i")
      case True
      have "\<not> slot_at ?al i s" if "ins_id (xs ! i) = ins_id ?i" for i
        using that ids [of i] len by (auto simp: slot_at_def)
      with True uk len show ?thesis by (auto simp: slot_at_snoc)
    next
      case False
      then show ?thesis using len by (auto simp: act_iff slot_at_snoc)
    qed
    have a3: "n = m" if "bt_get ?active n = Some s" "bt_get ?active m = Some s" for n m s
      using that slot(2) inj by (auto split: if_splits)
    have a4: "s < length (ps_slots st1)" if "bt_get ?active n = Some s" for n s
      using that slot(1) lt grow(1) by (fastforce split: if_splits)
    have a5: "s \<in> set (ps_free st1) \<longleftrightarrow> s < length (ps_slots st1) \<and> (\<forall>n. bt_get ?active n \<noteq> Some s)" for s
      using free1(2) absent by (auto split: if_splits)
    show ?thesis
      unfolding active_inv_def
      by (intro conjI allI impI; (rule a1 a2 a5 free1(1) | erule (1) a3 | erule a4))
  qed
  have count: "length ?active \<le> length (ps_slots st1)"
    using active' unfolding active_inv_def by (intro active_count) blast+
  have slots': "slots_inv xs lu (Suc k) (st1\<lparr>ps_active := ?active,
      ps_peak := max (ps_peak st1) (length ?active), ps_allocations := ?al'\<rparr>)"
    unfolding slots_inv_def
  proof (intro conjI, goal_cases)
    case 2
    then show ?case using slots len computed_assign(2) [OF comp]
      by (auto simp: slots_inv_def nth_append less_Suc_eq is_buffer_def)
  next
    case 3
    then show ?case using old grow slot(1) kind len by (fastforce simp: slot_at_snoc)
  next
    case 4
    then show ?case using slots kind by (auto simp: slots_inv_def nth_append less_Suc_eq)
  next
    case 5
    then show ?case using slots expired len
      by (auto simp: slots_inv_def slot_at_snoc) (auto simp: slot_at_def)
  next
    case 6
    then show ?case using slots count grow(1) same(3) by (simp add: slots_inv_def)
  next
    case 7
    then show ?case using slots kind by (auto simp: slots_inv_def is_buffer_def)
  qed (simp add: len)
  show ?thesis
    using take comp active' slots' same
    by (auto simp: computed_assign Let_def plan_inv_def)
qed

lemma plan_step_external:
  assumes inv: "plan_inv xs lu k k st" and k: "k < length xs" and ext: "\<not> computed (ins_operation (xs ! k))"
  shows "\<exists>storage. assign_storage st (xs ! k) = (Inr (st, storage) :: ('e, plan_state \<times> value_storage) outcome) \<and>
    plan_inv xs lu k (Suc k)
      (st\<lparr>ps_allocations := ps_allocations st @ [\<lparr>va_node = ins_id (xs ! k), va_storage = storage\<rparr>]\<rparr>)"
proof -
  obtain storage where storage: "assign_storage st (xs ! k) = (Inr (st, storage) :: ('e, plan_state \<times> value_storage) outcome)"
    "storage_matches (ins_operation (xs ! k)) storage" "\<forall>s. storage \<noteq> Buffer s"
    using ext by (cases "ins_operation (xs ! k)")
      (auto simp: computed_def assign_storage_def storage_matches_def)
  let ?al = "ps_allocations st @ [\<lparr>va_node = ins_id (xs ! k), va_storage = storage\<rparr>]"
  have same: "slot_at ?al i s \<longleftrightarrow> slot_at (ps_allocations st) i s" for i s
    using storage(3) by (simp add: slot_at_snoc)
  have act: "active_inv xs lu k (ps_allocations st) (length (ps_slots st)) (ps_active st) (ps_free st)"
    and slots: "slots_inv xs lu k st" using inv by (simp_all add: plan_inv_def)
  have "active_inv xs lu k ?al (length (ps_slots st)) (ps_active st) (ps_free st)"
    using act unfolding active_inv_def same .
  moreover have "slots_inv xs lu (Suc k) (st\<lparr>ps_allocations := ?al\<rparr>)"
    using slots storage(2) unfolding slots_inv_def
    by (auto simp: nth_append less_Suc_eq same)
  ultimately show ?thesis using storage(1) by (auto simp: plan_inv_def)
qed

lemma plan_step_inv:
  assumes "plan_inv xs lu (k - 1) k st" and "k < length xs"
    and "last_use_ok xs lu" and "distinct (map ins_id xs)"
  shows "\<exists>st'. plan_step lu st (k, xs ! k) = (Inr st' :: ('e, plan_state) outcome) \<and> plan_inv xs lu k (Suc k) st'"
proof -
  note inv = retire_inv [OF assms(1)]
  have "\<exists>st' storage. assign_storage (retire lu k st) (xs ! k) =
        (Inr (st', storage) :: ('e, plan_state \<times> value_storage) outcome) \<and>
      plan_inv xs lu k (Suc k)
        (st'\<lparr>ps_allocations := ps_allocations st' @ [\<lparr>va_node = ins_id (xs ! k), va_storage = storage\<rparr>]\<rparr>)"
  proof (cases "computed (ins_operation (xs ! k))")
    case True
    from plan_step_computed [OF inv assms(2) True assms(3,4)] show ?thesis .
  next
    case False
    from plan_step_external [OF inv assms(2) False] show ?thesis by blast
  qed
  then obtain st' storage where "assign_storage (retire lu k st) (xs ! k) =
        (Inr (st', storage) :: ('e, plan_state \<times> value_storage) outcome)"
      "plan_inv xs lu k (Suc k)
        (st'\<lparr>ps_allocations := ps_allocations st' @ [\<lparr>va_node = ins_id (xs ! k), va_storage = storage\<rparr>]\<rparr>)"
    by blast
  then show ?thesis by (simp add: plan_step_def)
qed

section \<open>Last uses\<close>

definition at_least :: "(node_id \<rightharpoonup> usize) \<Rightarrow> node_id \<Rightarrow> usize \<Rightarrow> bool" where
  "at_least lu n t \<longleftrightarrow> (\<exists>u. lu n = Some u \<and> t \<le> u)"

lemma note_use_at_least:
  "at_least lu n t \<Longrightarrow> at_least (note_use step lu m) n t" "at_least (note_use step lu m) m step"
  by (auto simp: at_least_def note_use_def split: option.split)

lemma note_uses_keep: "at_least lu n t \<Longrightarrow> at_least (foldl (note_use step) lu ms) n t"
  by (induction ms arbitrary: lu) (simp_all add: note_use_at_least)

lemma note_uses_new: "n \<in> set ms \<Longrightarrow> at_least (foldl (note_use step) lu ms) n step"
  by (induction ms arbitrary: lu) (auto intro: note_uses_keep note_use_at_least)

lemmas note_uses_at_least = note_uses_keep note_uses_new

lemma dom_note_uses: "dom (foldl (note_use step) lu ms) = dom lu \<union> set ms"
  by (induction ms arbitrary: lu) (auto simp: note_use_def)

lemma define_value_at_least:
  "at_least lu n t \<Longrightarrow> at_least (define_value lu step m) n t"
  "m \<notin> dom lu \<Longrightarrow> at_least (define_value lu step m) m step"
  "dom (define_value lu step m) = insert m (dom lu)"
  by (auto simp: at_least_def define_value_def split: option.split)

definition schedule_ok :: "instruction list \<Rightarrow> node_id list \<Rightarrow> bool" where
  "schedule_ok xs outs \<longleftrightarrow> distinct (map ins_id xs) \<and>
     (\<forall>j < length xs. \<forall>n \<in> set (ins_inputs (xs ! j)). \<exists>i < j. ins_id (xs ! i) = n) \<and>
     (\<forall>n \<in> set outs. \<exists>i < length xs. ins_id (xs ! i) = n)"

lemma note_instructions:
  assumes "schedule_ok xs outs" and "k \<le> length xs"
  shows "let lu = foldl note_instruction Map.empty (take k (enumerate 0 xs)) in
    dom lu = ins_id ` set (take k xs) \<and>
    (\<forall>i < k. at_least lu (ins_id (xs ! i)) i) \<and>
    (\<forall>i < k. \<forall>n \<in> set (ins_inputs (xs ! i)). at_least lu n i)"
  using assms(2)
proof (induction k)
  case 0
  then show ?case by simp
next
  case (Suc k)
  define lu where "lu = foldl note_instruction Map.empty (take k (enumerate 0 xs))"
  have k: "k < length xs" using Suc.prems by simp
  have IH: "dom lu = ins_id ` set (take k xs)" "\<forall>i < k. at_least lu (ins_id (xs ! i)) i"
    "\<forall>i < k. \<forall>n \<in> set (ins_inputs (xs ! i)). at_least lu n i"
    using Suc by (simp_all add: lu_def Let_def)
  let ?mid = "define_value lu k (ins_id (xs ! k))"
  let ?lu = "foldl (note_use k) ?mid (ins_inputs (xs ! k))"
  have step: "foldl note_instruction Map.empty (take (Suc k) (enumerate 0 xs)) = ?lu"
    using k by (simp add: take_Suc_conv_app_nth note_instruction_def lu_def)
  have "ins_id (xs ! k) \<notin> ins_id ` set (take k xs)"
  proof
    assume "ins_id (xs ! k) \<in> ins_id ` set (take k xs)"
    then obtain i where "i < k" "ins_id (xs ! i) = ins_id (xs ! k)" by (auto simp: in_set_conv_nth)
    with assms(1) k show False by (auto simp: schedule_ok_def distinct_conv_nth)
  qed
  then have new: "at_least ?lu (ins_id (xs ! k)) k"
    using define_value_at_least(2) [of "ins_id (xs ! k)" lu k] IH(1) by (auto intro: note_uses_at_least(1))
  have old: "at_least ?lu n t" if "at_least lu n t" for n t
    using that by (intro note_uses_at_least(1) define_value_at_least(1))
  have "set (ins_inputs (xs ! k)) \<subseteq> ins_id ` set (take k xs)"
  proof
    fix n assume "n \<in> set (ins_inputs (xs ! k))"
    then obtain i where "i < k" "ins_id (xs ! i) = n"
      using assms(1) k unfolding schedule_ok_def by blast
    moreover from this k have "take k xs ! i \<in> set (take k xs)" by (intro nth_mem) simp
    ultimately show "n \<in> ins_id ` set (take k xs)" using k by force
  qed
  then have "dom ?lu = ins_id ` set (take (Suc k) xs)"
    using k IH(1) by (auto simp: dom_note_uses define_value_at_least(3) take_Suc_conv_app_nth)
  then show ?case
    using IH(2,3) new old note_uses_at_least(2) by (auto simp: Let_def step less_Suc_eq)
qed

lemma last_uses_ok:
  assumes "schedule_ok xs outs"
  shows "last_use_ok xs (last_uses xs outs)"
    and "t < length xs \<Longrightarrow> n \<in> set (ins_inputs (xs ! t)) \<Longrightarrow> at_least (last_uses xs outs) n t"
    and "n \<in> set outs \<Longrightarrow> at_least (last_uses xs outs) n (length xs - 1)"
proof -
  have all: "take (length xs) (enumerate 0 xs) = enumerate 0 xs" by simp
  note base = note_instructions [OF assms order_refl, unfolded Let_def all]
  show "last_use_ok xs (last_uses xs outs)"
    using base note_uses_at_least(1) by (fastforce simp: last_use_ok_def last_uses_def at_least_def)
  show "at_least (last_uses xs outs) n t" if "t < length xs" "n \<in> set (ins_inputs (xs ! t))"
    using base that by (auto simp: last_uses_def intro: note_uses_at_least(1))
  show "at_least (last_uses xs outs) n (length xs - 1)" if "n \<in> set outs"
    using that by (auto simp: last_uses_def intro: note_uses_at_least(2))
qed

section \<open>The plan is safe\<close>

text \<open>
  What an execution on the plan's slots relies on: the allocations follow the instructions and
  have the right kind of storage; a slot has the type of every value it holds; and when two
  values share a slot, the earlier one is not an output and every instruction that reads it
  comes before the definition of the later one. In particular an operand never shares its
  slot with the result of the instruction that reads it.
\<close>

definition plan_safe :: "instruction list \<Rightarrow> node_id list \<Rightarrow> memory_plan \<Rightarrow> bool" where
  "plan_safe xs outs plan \<longleftrightarrow>
     (let al = mp_allocations plan; slots = mp_slots plan in
      map va_node al = map ins_id xs \<and>
      (\<forall>i < length xs. storage_matches (ins_operation (xs ! i)) (va_storage (al ! i))) \<and>
      (\<forall>i s. slot_at al i s \<longrightarrow> s < length slots \<and> bs_tensor_type (slots ! s) = ins_output (xs ! i)) \<and>
      (\<forall>s < length slots. bs_slot (slots ! s) = s) \<and>
      (\<forall>i j s. i < j \<longrightarrow> slot_at al i s \<longrightarrow> slot_at al j s \<longrightarrow>
         ins_id (xs ! i) \<notin> set outs \<and>
         (\<forall>t < length xs. ins_id (xs ! i) \<in> set (ins_inputs (xs ! t)) \<longrightarrow> t < j)) \<and>
      mp_peak_live_buffers plan \<le> length slots \<and>
      length slots \<le> length (filter (\<lambda>a. is_buffer (va_storage a)) al))"

lemma plan_start_inv: "plan_inv xs lu 0 0 plan_start"
  by (simp add: plan_inv_def slots_inv_def active_inv_def plan_start_def slot_at_def bt_ok_def)

lemma plan_fold:
  assumes "schedule_ok xs outs"
  shows "\<exists>st t. try_fold (plan_step (last_uses xs outs)) plan_start (enumerate 0 xs) =
      (Inr st :: ('e, plan_state) outcome) \<and> plan_inv xs (last_uses xs outs) t (length xs) st"
proof -
  let ?lu = "last_uses xs outs"
  have dist: "distinct (map ins_id xs)" using assms by (simp add: schedule_ok_def)
  have "\<exists>s'. plan_step ?lu s (enumerate 0 xs ! i) = (Inr s' :: ('e, plan_state) outcome) \<and>
      plan_inv xs ?lu (Suc i - 1) (Suc i) s'"
    if "i < length (enumerate 0 xs)" "plan_inv xs ?lu (i - 1) i s" for i s
    using plan_step_inv [OF that(2) _ last_uses_ok(1) [OF assms] dist] that(1) by simp
  moreover have "plan_inv xs ?lu (0 - 1) 0 plan_start" by (simp add: plan_start_inv)
  ultimately obtain st where "try_fold (plan_step ?lu) plan_start (enumerate 0 xs) =
      (Inr st :: ('e, plan_state) outcome)"
    "plan_inv xs ?lu (length (enumerate 0 xs) - 1) (length (enumerate 0 xs)) st"
    using try_fold_total [of "\<lambda>i. plan_inv xs ?lu (i - 1) i" plan_start "enumerate 0 xs" "plan_step ?lu"]
    by blast
  then show ?thesis by auto
qed

lemma memory_plan_build_safe:
  assumes "schedule_ok xs outs"
  shows "\<exists>plan. memory_plan_build xs outs = (Inr plan :: ('e, memory_plan) outcome) \<and> plan_safe xs outs plan"
proof -
  let ?lu = "last_uses xs outs"
  obtain st t where st: "try_fold (plan_step ?lu) plan_start (enumerate 0 xs) =
      (Inr st :: ('e, plan_state) outcome)" and inv: "slots_inv xs ?lu (length xs) st"
    using plan_fold [OF assms] unfolding plan_inv_def by blast
  let ?plan = "\<lparr>mp_allocations = ps_allocations st, mp_slots = ps_slots st, mp_peak_live_buffers = ps_peak st\<rparr>"
  note uses = last_uses_ok(2,3) [OF assms]
  have share: "ins_id (xs ! i) \<notin> set outs \<and>
      (\<forall>t < length xs. ins_id (xs ! i) \<in> set (ins_inputs (xs ! t)) \<longrightarrow> t < j)"
    if ij: "i < j" "slot_at (ps_allocations st) i s" "slot_at (ps_allocations st) j s" for i j s
  proof -
    obtain u where u: "?lu (ins_id (xs ! i)) = Some u" "u < j"
      using inv ij unfolding slots_inv_def by blast
    have "length (ps_allocations st) = length xs" using inv by (simp add: slots_inv_def)
    then have j: "j < length xs" using ij(3) by (simp add: slot_at_def)
    show ?thesis using uses u j by (fastforce simp: at_least_def)
  qed
  have "plan_safe xs outs ?plan"
    using inv share by (auto simp: plan_safe_def Let_def slots_inv_def intro: nth_equalityI)
  then show ?thesis by (simp add: memory_plan_build_def st)
qed

end
