(* ===== verification/Canonical_Compile.thy ===== *)
theory Canonical_Compile
  imports Memory_Plan
begin

text \<open>
  The canonical compiler of \<open>scirust-tensor-compile\<close> (\<open>canonical.rs\<close>): it validates a graph,
  drops the nodes no output needs, and plans the logical buffers of the remaining ones.
\<close>

section \<open>The compiler\<close>

datatype compile_error = CompileInvalidGraph graph_error | NoOutputs

record compile_stats =
  cs_original_nodes :: usize
  cs_retained_nodes :: usize
  cs_eliminated_nodes :: usize
  cs_allocated_buffer_slots :: usize
  cs_reused_buffer_values :: usize
  cs_peak_live_buffers :: usize

record execution_plan =
  ep_instructions :: "instruction list"
  ep_outputs :: "node_id list"
  ep_memory :: memory_plan
  ep_stats :: compile_stats

definition to_instruction :: "usize \<times> node \<Rightarrow> instruction" where
  "to_instruction p = (case p of (index, n) \<Rightarrow>
     \<lparr>ins_id = as_u32 index, ins_operation = node_operation n, ins_inputs = node_inputs n,
      ins_output = node_output n\<rparr>)"

text \<open>The subtractions of the statistics (\<open>sub_usize\<close>) panic on underflow.\<close>

definition compile :: "graph \<Rightarrow> (compile_error, execution_plan) outcome" where
  "compile g =
     try_bind (map_err CompileInvalidGraph (validate g)) (\<lambda>_.
     if graph_outputs g = [] then fail NoOutputs
     else
       try_bind (reachable_nodes g) (\<lambda>reachable.
       let instructions = map to_instruction
             (filter (\<lambda>(index, _). reachable ! index) (enumerate 0 (graph_nodes g)));
           original_nodes = length (graph_nodes g);
           retained_nodes = length instructions in
       try_bind (memory_plan_build instructions (graph_outputs g)) (\<lambda>memory.
       let buffered_values = length (filter (\<lambda>a. is_buffer (va_storage a)) (mp_allocations memory));
           allocated_buffer_slots = length (mp_slots memory) in
       try_bind (sub_usize original_nodes retained_nodes) (\<lambda>eliminated.
       try_bind (sub_usize buffered_values allocated_buffer_slots) (\<lambda>reused.
       Inr \<lparr>ep_instructions = instructions, ep_outputs = graph_outputs g, ep_memory = memory,
            ep_stats = \<lparr>cs_original_nodes = original_nodes, cs_retained_nodes = retained_nodes,
              cs_eliminated_nodes = eliminated, cs_allocated_buffer_slots = allocated_buffer_slots,
              cs_reused_buffer_values = reused,
              cs_peak_live_buffers = mp_peak_live_buffers memory\<rparr>\<rparr>)))))"

section \<open>The compiled plan\<close>

definition instruction_of :: "node list \<Rightarrow> nat \<Rightarrow> instruction" where
  "instruction_of ns i = to_instruction (i, ns ! i)"

definition needed_list :: "graph \<Rightarrow> nat list" where
  "needed_list g = filter (\<lambda>i. i \<in> needed (graph_nodes g) (graph_outputs g)) [0..<length (graph_nodes g)]"

lemma needed_less:
  assumes "wf_graph g" and "k \<in> needed (graph_nodes g) (graph_outputs g)"
  shows "k < length (graph_nodes g)"
  using assms(2)
proof (induction rule: needed_induct)
  case (root k)
  then show ?case using assms(1) by (simp add: wf_graph_def)
next
  case (edge i k)
  then show ?case using assms(1) nodes_ok_inputs by (fastforce simp: wf_graph_def)
qed

lemma schedule_needed:
  assumes wf: "wf_graph g" and small: "length (graph_nodes g) \<le> u32_range"
  shows "schedule_ok (map (instruction_of (graph_nodes g)) (needed_list g)) (graph_outputs g)"
proof -
  let ?ns = "graph_nodes g" and ?l = "needed_list g"
  have l: "set ?l = needed ?ns (graph_outputs g)" "sorted ?l" "distinct ?l"
    using needed_less [OF wf] by (auto simp: needed_list_def sorted_wrt_filter)
  have id: "ins_id (instruction_of ?ns i) = i" if "i < length ?ns" for i
    using that small by (simp add: instruction_of_def to_instruction_def)
  have lt: "k < length ?ns" if "k \<in> set ?l" for k using that needed_less [OF wf] l(1) by simp
  have ids: "map ins_id (map (instruction_of ?ns) ?l) = ?l"
    by (rule nth_equalityI) (auto simp: id lt)
  have at: "ins_id (map (instruction_of ?ns) ?l ! i) = ?l ! i" if "i < length ?l" for i
    using that by (simp add: id lt)
  have "\<exists>i < j. ?l ! i = n" if j: "j < length ?l" and n: "n \<in> set (node_inputs (?ns ! (?l ! j)))" for j n
  proof -
    have jl: "?l ! j < length ?ns" "?l ! j \<in> needed ?ns (graph_outputs g)" using j lt l(1) nth_mem by auto
    then have "n \<in> set ?l" "n < ?l ! j"
      using n wf nodes_ok_inputs [of ?ns "?l ! j" n] needed_input l(1) by (auto simp: wf_graph_def)
    then obtain i where "i < length ?l" "?l ! i = n" by (auto simp: in_set_conv_nth)
    moreover have "i < j" using calculation \<open>n < ?l ! j\<close> l(2) j sorted_nth_mono [OF l(2)] by (metis not_le)
    ultimately show ?thesis by blast
  qed
  moreover have "\<exists>i < length ?l. ?l ! i = n" if "n \<in> set (graph_outputs g)" for n
    using that l(1) needed_output by (metis in_set_conv_nth)
  ultimately show ?thesis
    unfolding schedule_ok_def ids using l(3) at
    by (fastforce simp: instruction_of_def to_instruction_def)
qed

lemma buffered_computed:
  assumes "map va_node al = map ins_id xs"
    and "\<forall>i < length xs. storage_matches (ins_operation (xs ! i)) (va_storage (al ! i))"
  shows "length (filter (\<lambda>a. is_buffer (va_storage a)) al) =
    length (filter (\<lambda>x. computed (ins_operation x)) xs)"
proof -
  have len: "length al = length xs" using map_eq_imp_length_eq [OF assms(1)] .
  have matches: "storage_matches oper storage \<Longrightarrow> is_buffer storage = computed oper" for oper storage
    by (cases oper; simp add: storage_matches_def computed_def is_buffer_def)
  have "map (\<lambda>a. is_buffer (va_storage a)) al = map (\<lambda>x. computed (ins_operation x)) xs"
    using len assms(2) by (intro nth_equalityI) (simp_all add: matches)
  then have "filter id (map (\<lambda>a. is_buffer (va_storage a)) al) = filter id (map (\<lambda>x. computed (ins_operation x)) xs)"
    by simp
  then show ?thesis by (simp add: filter_map comp_def) (metis length_map)
qed

lemma enumerate_filter_needed:
  assumes "length r = length ns" and "\<forall>i < length ns. r ! i \<longleftrightarrow> i \<in> S"
  shows "map to_instruction (filter (\<lambda>(index, _). r ! index) (enumerate 0 ns)) =
    map (instruction_of ns) (filter (\<lambda>i. i \<in> S) [0..<length ns])"
proof -
  have "enumerate 0 ns = map (\<lambda>i. (i, ns ! i)) [0..<length ns]"
    by (rule nth_equalityI) (simp_all add: nth_enumerate_eq)
  moreover have "filter ((\<lambda>(index, _). r ! index) \<circ> (\<lambda>i. (i, ns ! i))) [0..<length ns] =
      filter (\<lambda>i. i \<in> S) [0..<length ns]"
    using assms by (intro filter_cong) auto
  ultimately show ?thesis by (simp add: filter_map instruction_of_def comp_def)
qed

lemma validate_no_panic: "validate g \<noteq> Inl Panic"
  by (auto simp: validate_def validate_node_def check_inputs_def check_outputs_def require_def Let_def
      outcome_simps split: if_splits dest!: for_each_InlD)

lemma compile_run:
  assumes wf: "wf_graph g" and outs: "graph_outputs g \<noteq> []" and small: "length (graph_nodes g) \<le> u32_range"
  shows "\<exists>plan. compile g = Inr plan \<and>
    ep_instructions plan = map (instruction_of (graph_nodes g)) (needed_list g) \<and>
    ep_outputs plan = graph_outputs g \<and>
    memory_plan_build (ep_instructions plan) (graph_outputs g) =
      (Inr (ep_memory plan) :: (compile_error, memory_plan) outcome) \<and>
    plan_safe (ep_instructions plan) (ep_outputs plan) (ep_memory plan) \<and>
    ep_stats plan = \<lparr>cs_original_nodes = length (graph_nodes g),
      cs_retained_nodes = length (needed_list g),
      cs_eliminated_nodes = length (graph_nodes g) - length (needed_list g),
      cs_allocated_buffer_slots = length (mp_slots (ep_memory plan)),
      cs_reused_buffer_values =
        length (filter (\<lambda>a. is_buffer (va_storage a)) (mp_allocations (ep_memory plan)))
        - length (mp_slots (ep_memory plan)),
      cs_peak_live_buffers = mp_peak_live_buffers (ep_memory plan)\<rparr>"
proof -
  let ?ns = "graph_nodes g" and ?is = "map (instruction_of (graph_nodes g)) (needed_list g)"
  obtain r where r: "reachable_nodes g = (Inr r :: (compile_error, bool list) outcome)" "length r = length ?ns"
    "\<forall>i < length ?ns. r ! i \<longleftrightarrow> i \<in> needed ?ns (graph_outputs g)"
    using reachable_nodes_correct [OF wf] by blast
  have list: "map to_instruction (filter (\<lambda>(index, _). r ! index) (enumerate 0 ?ns)) = ?is"
    unfolding needed_list_def by (rule enumerate_filter_needed [OF r(2,3)])
  obtain plan where plan: "memory_plan_build ?is (graph_outputs g) = (Inr plan :: (compile_error, memory_plan) outcome)"
    "plan_safe ?is (graph_outputs g) plan"
    using memory_plan_build_safe [OF schedule_needed [OF wf small]] by blast
  have "length (needed_list g) \<le> length ?ns"
    unfolding needed_list_def by (rule order_trans [OF length_filter_le]) simp
  moreover have "length (mp_slots plan) \<le> length (filter (\<lambda>a. is_buffer (va_storage a)) (mp_allocations plan))"
    using plan(2) by (simp add: plan_safe_def Let_def)
  moreover have "length (filter (\<lambda>(index, _). r ! index) (enumerate 0 ?ns)) = length (needed_list g)"
    using arg_cong [OF list, of length] by simp
  ultimately show ?thesis
    using validate_iff_wf [of g "()"] wf outs plan
    by (simp add: compile_def r(1) list Let_def sub_usize_def)
qed

text \<open>
  C2: the canonical compiler is total on graphs of at most \<open>2^32\<close> nodes: it rejects exactly the
  invalid graphs (with the error of the validator) and the graphs without outputs, and
  otherwise returns a plan whose instructions are exactly the nodes some output needs, in the
  order of the graph, with a safe memory plan and statistics that count what they say.
\<close>

theorem compile_correct:
  assumes "length (graph_nodes g) \<le> u32_range"
  shows "case validate g of
      Inl e \<Rightarrow> \<exists>e'. e = Err e' \<and> compile g = fail (CompileInvalidGraph e')
    | Inr _ \<Rightarrow>
        if graph_outputs g = [] then compile g = fail NoOutputs
        else \<exists>plan. compile g = Inr plan \<and>
          map ins_id (ep_instructions plan) =
            filter (\<lambda>i. i \<in> needed (graph_nodes g) (graph_outputs g)) [0..<length (graph_nodes g)] \<and>
          (\<forall>x \<in> set (ep_instructions plan). let n = graph_nodes g ! ins_id x in
             ins_operation x = node_operation n \<and> ins_inputs x = node_inputs n \<and>
             ins_output x = node_output n) \<and>
          ep_outputs plan = graph_outputs g \<and>
          plan_safe (ep_instructions plan) (ep_outputs plan) (ep_memory plan) \<and>
          cs_original_nodes (ep_stats plan) = length (graph_nodes g) \<and>
          cs_retained_nodes (ep_stats plan) = length (ep_instructions plan) \<and>
          cs_retained_nodes (ep_stats plan) + cs_eliminated_nodes (ep_stats plan) =
            length (graph_nodes g) \<and>
          cs_allocated_buffer_slots (ep_stats plan) + cs_reused_buffer_values (ep_stats plan) =
            length (filter (\<lambda>x. computed (ins_operation x)) (ep_instructions plan)) \<and>
          cs_peak_live_buffers (ep_stats plan) \<le> cs_allocated_buffer_slots (ep_stats plan)"
proof (cases "validate g")
  case (Inl e)
  with validate_no_panic [of g] obtain e' where "e = Err e'" by (cases e) auto
  with Inl show ?thesis by (simp add: compile_def)
next
  case (Inr u)
  then have wf: "wf_graph g" by (simp add: validate_iff_wf)
  show ?thesis
  proof (cases "graph_outputs g = []")
    case True
    with Inr show ?thesis by (simp add: compile_def)
  next
    case False
    let ?ns = "graph_nodes g"
    from compile_run [OF wf False assms] obtain plan where plan: "compile g = Inr plan"
      "ep_instructions plan = map (instruction_of ?ns) (needed_list g)"
      "ep_outputs plan = graph_outputs g"
      "plan_safe (ep_instructions plan) (ep_outputs plan) (ep_memory plan)"
      and stats: "ep_stats plan = \<lparr>cs_original_nodes = length ?ns,
        cs_retained_nodes = length (needed_list g),
        cs_eliminated_nodes = length ?ns - length (needed_list g),
        cs_allocated_buffer_slots = length (mp_slots (ep_memory plan)),
        cs_reused_buffer_values =
          length (filter (\<lambda>a. is_buffer (va_storage a)) (mp_allocations (ep_memory plan)))
          - length (mp_slots (ep_memory plan)),
        cs_peak_live_buffers = mp_peak_live_buffers (ep_memory plan)\<rparr>"
      by (elim exE conjE) (rule that)
    have id: "ins_id (instruction_of ?ns i) = i" if "i < length ?ns" for i
      using that assms by (simp add: instruction_of_def to_instruction_def)
    have ids: "map ins_id (ep_instructions plan) = needed_list g"
      unfolding plan(2) by (rule nth_equalityI) (auto simp: needed_list_def intro!: id dest!: nth_mem)
    have nodes: "\<forall>x \<in> set (ep_instructions plan). let n = ?ns ! ins_id x in
        ins_operation x = node_operation n \<and> ins_inputs x = node_inputs n \<and> ins_output x = node_output n"
      unfolding plan(2) by (auto simp: needed_list_def Let_def id) (auto simp: instruction_of_def to_instruction_def)
    have le: "length (needed_list g) \<le> length ?ns"
      unfolding needed_list_def by (rule order_trans [OF length_filter_le]) simp
    note safe = plan(4) [unfolded plan_safe_def Let_def]
    have "length (filter (\<lambda>a. is_buffer (va_storage a)) (mp_allocations (ep_memory plan))) =
        length (filter (\<lambda>x. computed (ins_operation x)) (ep_instructions plan))"
      using safe by (intro buffered_computed) simp_all
    with ids nodes le plan(1,3,4) safe Inr False show ?thesis
      by (simp add: stats plan(2) needed_list_def)
  qed
qed

text \<open>
  A concrete graph: \<open>relu(x)\<close>, \<open>exp\<close> of it, their sum, and a dead \<open>tanh\<close>. The sum takes a third
  slot, since both operands are read at its step.
\<close>

definition example_chain :: graph where
  "example_chain =
     \<lparr>graph_nodes = [mk_node (Input ''x'') [], mk_node Relu [0], mk_node Exp [1], mk_node Relu [2],
        mk_node Exp [0], mk_node Add [2, 3]],
      graph_outputs = [5]\<rparr>"

lemma example_chain_valid: "validate example_chain = Inr ()" "wf_graph example_chain"
proof -
  show "wf_graph example_chain"
    by (simp add: example_chain_def wf_graph_def nodes_ok_def node_ok_def mk_node_def all_less_Suc
        numeral_eq_Suc)
  then show "validate example_chain = Inr ()" by (simp add: validate_iff_wf)
qed

theorem compile_correct_witness:
  "\<exists>plan. compile example_chain = Inr plan \<and>
     plan_safe (ep_instructions plan) (ep_outputs plan) (ep_memory plan) \<and>
     cs_original_nodes (ep_stats plan) = 6"
proof -
  have "length (graph_nodes example_chain) \<le> u32_range" "graph_outputs example_chain \<noteq> []"
    "length (graph_nodes example_chain) = 6"
    by (simp_all add: example_chain_def)
  with compile_correct [of example_chain] example_chain_valid show ?thesis by auto
qed

end
