(* ===== verification/Compiler_IR.thy ===== *)
theory Compiler_IR
  imports Canonical_Compile
begin

text \<open>
  The SSA compiler representation of \<open>scirust-tensor-compile\<close> (\<open>compiler_ir/\<close>): values,
  operations, blocks and regions, the structural verifier, the construction from an execution
  plan and the projection back to one (\<open>canonical.rs\<close>). Construction resolves names to definitions and
  yields a program in static single assignment form.
\<close>

section \<open>The program\<close>

type_synonym ir_value_id = nat
type_synonym ir_operation_id = nat
type_synonym ir_block_id = nat
type_synonym ir_region_id = nat

record ir_value =
  iv_id :: ir_value_id
  iv_canonical_node :: node_id
  iv_tensor_type :: tensor_type
  iv_defining_operation :: ir_operation_id

record ir_operation =
  io_id :: ir_operation_id
  io_canonical_node :: node_id
  io_operation :: operation
  io_operands :: "ir_value_id list"
  io_result :: ir_value_id

record ir_block =
  ib_id :: ir_block_id
  ib_operations :: "ir_operation_id list"

record ir_region =
  ig_id :: ir_region_id
  ig_blocks :: "ir_block_id list"

record compiler_ir =
  ci_values :: "ir_value list"
  ci_operations :: "ir_operation list"
  ci_blocks :: "ir_block list"
  ci_regions :: "ir_region list"
  ci_entry_region :: ir_region_id
  ci_outputs :: "ir_value_id list"

datatype id_space = ValueSpace | OperationSpace | BlockSpace | RegionSpace

datatype ir_error =
    IdentifierOverflow id_space
  | MissingOperand node_id node_id
  | MissingOutput node_id
  | InvalidEntryRegion ir_region_id
  | InvalidBlock ir_region_id ir_block_id
  | InvalidOperation ir_block_id ir_operation_id
  | InvalidValue ir_operation_id ir_value_id
  | InvalidOutputValue ir_value_id
  | IdentifierMismatch id_space nat nat
  | OperationArityMismatch ir_operation_id usize usize
  | NonSsaOperand ir_operation_id ir_value_id ir_operation_id
  | ResultDefinitionMismatch ir_operation_id ir_value_id ir_operation_id
  | CanonicalNodeMismatch ir_operation_id ir_value_id node_id node_id

definition ir_value_at :: "compiler_ir \<Rightarrow> ir_value_id \<Rightarrow> ir_value option" where
  "ir_value_at ir i = get (ci_values ir) i"

definition ir_operation_at :: "compiler_ir \<Rightarrow> ir_operation_id \<Rightarrow> ir_operation option" where
  "ir_operation_at ir i = get (ci_operations ir) i"

definition ir_block_at :: "compiler_ir \<Rightarrow> ir_block_id \<Rightarrow> ir_block option" where
  "ir_block_at ir i = get (ci_blocks ir) i"

definition ir_region_at :: "compiler_ir \<Rightarrow> ir_region_id \<Rightarrow> ir_region option" where
  "ir_region_at ir i = get (ci_regions ir) i"

definition checked_id :: "usize \<Rightarrow> id_space \<Rightarrow> (ir_error, nat) outcome" where
  "checked_id len space = ok_or (IdentifierOverflow space) (u32_try_from len)"

section \<open>The verifier\<close>

definition check_identifier :: "id_space \<Rightarrow> usize \<Rightarrow> nat \<Rightarrow> (ir_error, unit) outcome" where
  "check_identifier space index actual =
     try_bind (checked_id index space) (\<lambda>expected.
     require (actual = expected) (IdentifierMismatch space expected actual))"

definition verify_block ::
  "compiler_ir \<Rightarrow> ir_block_id \<Rightarrow> ir_operation_id list \<Rightarrow> (ir_error, unit) outcome" where
  "verify_block ir block_id operations =
     for_each (\<lambda>oper. require (ir_operation_at ir oper \<noteq> None) (InvalidOperation block_id oper))
       operations"

definition verify_region :: "compiler_ir \<Rightarrow> usize \<times> ir_region \<Rightarrow> (ir_error, unit) outcome" where
  "verify_region ir p = (case p of (index, region) \<Rightarrow>
     try_bind (check_identifier RegionSpace index (ig_id region)) (\<lambda>_.
     for_each (\<lambda>block_id.
       try_bind (ok_or (InvalidBlock (ig_id region) block_id) (ir_block_at ir block_id)) (\<lambda>block.
       verify_block ir (ib_id block) (ib_operations block))) (ig_blocks region)))"

definition verify_operand ::
  "compiler_ir \<Rightarrow> ir_operation_id \<Rightarrow> ir_value_id \<Rightarrow> (ir_error, unit) outcome" where
  "verify_operand ir oper_id operand =
     try_bind (ok_or (InvalidValue oper_id operand) (ir_value_at ir operand)) (\<lambda>v.
     require (\<not> iv_defining_operation v \<ge> oper_id)
       (NonSsaOperand oper_id operand (iv_defining_operation v)))"

definition verify_ir_operation ::
  "compiler_ir \<Rightarrow> usize \<times> ir_operation \<Rightarrow> (ir_error, unit) outcome" where
  "verify_ir_operation ir p = (case p of (index, oper) \<Rightarrow>
     try_bind (check_identifier OperationSpace index (io_id oper)) (\<lambda>_.
     let expected_arity = expected_arity (io_operation oper);
         actual_arity = length (io_operands oper) in
     try_bind (require (expected_arity = actual_arity)
                 (OperationArityMismatch (io_id oper) expected_arity actual_arity)) (\<lambda>_.
     try_bind (ok_or (InvalidValue (io_id oper) (io_result oper)) (ir_value_at ir (io_result oper)))
       (\<lambda>result.
     try_bind (require (iv_defining_operation result = io_id oper)
                 (ResultDefinitionMismatch (io_id oper) (iv_id result) (iv_defining_operation result)))
       (\<lambda>_.
     try_bind (require (iv_canonical_node result = io_canonical_node oper)
                 (CanonicalNodeMismatch (io_id oper) (iv_id result) (io_canonical_node oper)
                    (iv_canonical_node result))) (\<lambda>_.
     for_each (verify_operand ir (io_id oper)) (io_operands oper)))))))"

definition verify_compiler_ir :: "compiler_ir \<Rightarrow> (ir_error, unit) outcome" where
  "verify_compiler_ir ir =
     try_bind (require (ir_region_at ir (ci_entry_region ir) \<noteq> None)
                 (InvalidEntryRegion (ci_entry_region ir))) (\<lambda>_.
     try_bind (for_each (\<lambda>(index, block). check_identifier BlockSpace index (ib_id block))
                 (enumerate 0 (ci_blocks ir))) (\<lambda>_.
     try_bind (for_each (verify_region ir) (enumerate 0 (ci_regions ir))) (\<lambda>_.
     try_bind (for_each (verify_ir_operation ir) (enumerate 0 (ci_operations ir))) (\<lambda>_.
     try_bind (for_each (\<lambda>(index, v). check_identifier ValueSpace index (iv_id v))
                 (enumerate 0 (ci_values ir))) (\<lambda>_.
     for_each (\<lambda>out. require (ir_value_at ir out \<noteq> None) (InvalidOutputValue out))
       (ci_outputs ir))))))"

section \<open>Construction from an execution plan, and the projection back\<close>

record ir_building =
  ib_values :: "ir_value list"
  ib_opers :: "ir_operation list"
  ib_oper_ids :: "ir_operation_id list"
  ib_canonical :: "ir_value_id bt_map"

definition lookup_operand ::
  "ir_value_id bt_map \<Rightarrow> node_id \<Rightarrow> node_id \<Rightarrow> (ir_error, ir_value_id) outcome" where
  "lookup_operand canonical_values n operand =
     ok_or (MissingOperand n operand) (bt_get canonical_values operand)"

definition import_instruction ::
  "ir_building \<Rightarrow> instruction \<Rightarrow> (ir_error, ir_building) outcome" where
  "import_instruction st i =
     try_bind (checked_id (length (ib_opers st)) OperationSpace) (\<lambda>operation_id.
     try_bind (checked_id (length (ib_values st)) ValueSpace) (\<lambda>result_id.
     try_bind (traverse (lookup_operand (ib_canonical st) (ins_id i)) (ins_inputs i)) (\<lambda>operands.
     Inr \<lparr>ib_values = ib_values st @
            [\<lparr>iv_id = result_id, iv_canonical_node = ins_id i, iv_tensor_type = ins_output i,
              iv_defining_operation = operation_id\<rparr>],
          ib_opers = ib_opers st @
            [\<lparr>io_id = operation_id, io_canonical_node = ins_id i, io_operation = ins_operation i,
              io_operands = operands, io_result = result_id\<rparr>],
          ib_oper_ids = ib_oper_ids st @ [operation_id],
          ib_canonical = bt_insert (ins_id i) result_id (ib_canonical st)\<rparr>)))"

definition from_execution_plan :: "execution_plan \<Rightarrow> (ir_error, compiler_ir) outcome" where
  "from_execution_plan plan =
     try_bind (try_fold import_instruction
                 \<lparr>ib_values = [], ib_opers = [], ib_oper_ids = [], ib_canonical = []\<rparr>
                 (ep_instructions plan)) (\<lambda>st.
     try_bind (traverse (\<lambda>n. ok_or (MissingOutput n) (bt_get (ib_canonical st) n))
                 (ep_outputs plan)) (\<lambda>outputs.
     let ir = \<lparr>ci_values = ib_values st, ci_operations = ib_opers st,
               ci_blocks = [\<lparr>ib_id = 0, ib_operations = ib_oper_ids st\<rparr>],
               ci_regions = [\<lparr>ig_id = 0, ig_blocks = [0]\<rparr>],
               ci_entry_region = 0, ci_outputs = outputs\<rparr> in
     try_bind (verify_compiler_ir ir) (\<lambda>_. Inr ir)))"

definition project_operation :: "compiler_ir \<Rightarrow> ir_operation \<Rightarrow> (ir_error, instruction) outcome" where
  "project_operation ir oper =
     try_bind (ok_or (InvalidValue (io_id oper) (io_result oper)) (ir_value_at ir (io_result oper)))
       (\<lambda>result.
     try_bind (traverse (\<lambda>operand.
         ok_or (InvalidValue (io_id oper) operand)
           (map_option iv_canonical_node (ir_value_at ir operand))) (io_operands oper)) (\<lambda>inputs.
     Inr \<lparr>ins_id = io_canonical_node oper, ins_operation = io_operation oper,
          ins_inputs = inputs, ins_output = iv_tensor_type result\<rparr>))"

definition project_compiler_ir ::
  "compiler_ir \<Rightarrow> memory_plan \<Rightarrow> (ir_error, execution_plan) outcome" where
  "project_compiler_ir ir memory =
     try_bind (verify_compiler_ir ir) (\<lambda>_.
     try_bind (traverse (project_operation ir) (ci_operations ir)) (\<lambda>instructions.
     try_bind (traverse (\<lambda>out. ok_or (InvalidOutputValue out)
                 (map_option iv_canonical_node (ir_value_at ir out))) (ci_outputs ir)) (\<lambda>outputs.
     let retained_nodes = length instructions;
         buffered_values = length (filter (\<lambda>a. is_buffer (va_storage a)) (mp_allocations memory));
         allocated_buffer_slots = length (mp_slots memory) in
     Inr \<lparr>ep_instructions = instructions, ep_outputs = outputs, ep_memory = memory,
          ep_stats = \<lparr>cs_original_nodes = retained_nodes, cs_retained_nodes = retained_nodes,
            cs_eliminated_nodes = 0, cs_allocated_buffer_slots = allocated_buffer_slots,
            cs_reused_buffer_values = buffered_values - allocated_buffer_slots,
            cs_peak_live_buffers = mp_peak_live_buffers memory\<rparr>\<rparr>)))"

section \<open>What the verifier accepts\<close>

text \<open>
  What the checks of the verifier amount to: identifiers are positions, references exist, and every operand
  names an earlier operation as its definition. \<open>ssa_form\<close> below asks for more: that the named operation
  produces the value.
\<close>

definition operation_ok :: "compiler_ir \<Rightarrow> nat \<Rightarrow> ir_operation \<Rightarrow> bool" where
  "operation_ok ir i oper \<longleftrightarrow>
     io_id oper = i \<and> length (io_operands oper) = expected_arity (io_operation oper) \<and>
     io_result oper < length (ci_values ir) \<and>
     iv_defining_operation (ci_values ir ! io_result oper) = i \<and>
     iv_canonical_node (ci_values ir ! io_result oper) = io_canonical_node oper \<and>
     (\<forall>v \<in> set (io_operands oper). v < length (ci_values ir) \<and>
        iv_defining_operation (ci_values ir ! v) < i)"

definition wf_ir :: "compiler_ir \<Rightarrow> bool" where
  "wf_ir ir \<longleftrightarrow>
     ci_entry_region ir < length (ci_regions ir) \<and>
     length (ci_blocks ir) \<le> u32_range \<and> length (ci_regions ir) \<le> u32_range \<and>
     length (ci_operations ir) \<le> u32_range \<and> length (ci_values ir) \<le> u32_range \<and>
     (\<forall>i < length (ci_blocks ir). ib_id (ci_blocks ir ! i) = i) \<and>
     (\<forall>i < length (ci_regions ir). ig_id (ci_regions ir ! i) = i \<and>
        (\<forall>b \<in> set (ig_blocks (ci_regions ir ! i)). b < length (ci_blocks ir) \<and>
           (\<forall>k \<in> set (ib_operations (ci_blocks ir ! b)). k < length (ci_operations ir)))) \<and>
     (\<forall>i < length (ci_operations ir). operation_ok ir i (ci_operations ir ! i)) \<and>
     (\<forall>i < length (ci_values ir). iv_id (ci_values ir ! i) = i) \<and>
     (\<forall>v \<in> set (ci_outputs ir). v < length (ci_values ir))"

lemma check_identifier_Inr [simp]:
  "check_identifier space index actual = Inr u \<longleftrightarrow> actual = index \<and> index < u32_range"
  by (auto simp: check_identifier_def checked_id_def outcome_simps)

lemma verify_region_Inr:
  "verify_region ir (i, region) = Inr u \<longleftrightarrow> ig_id region = i \<and> i < u32_range \<and>
     (\<forall>b \<in> set (ig_blocks region). b < length (ci_blocks ir) \<and>
        (\<forall>k \<in> set (ib_operations (ci_blocks ir ! b)). k < length (ci_operations ir)))"
  by (auto simp: verify_region_def verify_block_def ir_block_at_def ir_operation_at_def
      outcome_simps not_le)

lemma verify_ir_operation_Inr:
  "verify_ir_operation ir (i, oper) = Inr u \<longleftrightarrow> i < u32_range \<and> operation_ok ir i oper"
  by (auto simp: verify_ir_operation_def verify_operand_def operation_ok_def ir_value_at_def
      outcome_simps not_le Let_def)

lemma less_range_length: "(\<forall>i < n. i < u32_range) \<longleftrightarrow> n \<le> u32_range"
  by (meson leI less_le_trans less_irrefl)

lemma all_range: "(\<forall>i < n. P i \<and> i < u32_range) \<longleftrightarrow> n \<le> u32_range \<and> (\<forall>i < n. P i)"
  using less_range_length by blast

lemma verify_iff_wf: "verify_compiler_ir ir = Inr u \<longleftrightarrow> wf_ir ir"
proof -
  have "(\<forall>i < n. Q i \<and> i < u32_range \<and> P i) \<longleftrightarrow> n \<le> u32_range \<and> (\<forall>i < n. Q i \<and> P i)"
    "(\<forall>i < n. i < u32_range \<and> P i) \<longleftrightarrow> n \<le> u32_range \<and> (\<forall>i < n. P i)" for n P Q
    using less_range_length [of n] by blast+
  then show ?thesis
    unfolding verify_compiler_ir_def wf_ir_def
    by (auto simp: outcome_simps ball_enumerate0 ir_region_at_def ir_value_at_def
        verify_region_Inr verify_ir_operation_Inr all_range not_le)
qed

lemma wf_verify [simp]: "wf_ir ir \<Longrightarrow> verify_compiler_ir ir = Inr ()"
  by (simp add: verify_iff_wf)

lemma verify_compiler_ir_no_panic: "verify_compiler_ir ir \<noteq> Inl Panic"
  by (auto simp: verify_compiler_ir_def verify_region_def verify_block_def verify_ir_operation_def
      verify_operand_def check_identifier_def checked_id_def Let_def outcome_simps
      dest!: for_each_InlD)

section \<open>The construction\<close>

definition value_of :: "instruction list \<Rightarrow> nat \<Rightarrow> ir_value" where
  "value_of xs i = \<lparr>iv_id = i, iv_canonical_node = ins_id (xs ! i),
     iv_tensor_type = ins_output (xs ! i), iv_defining_operation = i\<rparr>"

definition imported :: "instruction list \<Rightarrow> nat \<Rightarrow> ir_operation \<Rightarrow> bool" where
  "imported xs i oper \<longleftrightarrow> io_id oper = i \<and> io_canonical_node oper = ins_id (xs ! i) \<and>
     io_operation oper = ins_operation (xs ! i) \<and> io_result oper = i \<and>
     (\<forall>v \<in> set (io_operands oper). v < i) \<and>
     map (\<lambda>v. ins_id (xs ! v)) (io_operands oper) = ins_inputs (xs ! i)"

definition built_ir :: "instruction list \<Rightarrow> nat \<Rightarrow> ir_building \<Rightarrow> bool" where
  "built_ir xs k st \<longleftrightarrow>
     ib_values st = map (value_of xs) [0..<k] \<and>
     length (ib_opers st) = k \<and> (\<forall>i < k. imported xs i (ib_opers st ! i)) \<and>
     ib_oper_ids st = [0..<k] \<and>
     (\<forall>n v. bt_get (ib_canonical st) n = Some v \<longrightarrow> v < k \<and> ins_id (xs ! v) = n) \<and>
     (\<forall>i < k. bt_get (ib_canonical st) (ins_id (xs ! i)) \<noteq> None)"

definition defined_before :: "instruction list \<Rightarrow> nat \<Rightarrow> node_id \<Rightarrow> bool" where
  "defined_before xs k n \<longleftrightarrow> (\<exists>i < k. ins_id (xs ! i) = n)"

lemma built_ir_lookup:
  "built_ir xs k st \<Longrightarrow> bt_get (ib_canonical st) n \<noteq> None \<longleftrightarrow> defined_before xs k n"
  unfolding built_ir_def defined_before_def by (metis option.exhaust)

lemma import_instruction_Inr:
  assumes "built_ir xs k st" and "import_instruction st (xs ! k) = Inr st'"
  shows "built_ir xs (Suc k) st' \<and> k < u32_range \<and> (\<forall>n \<in> set (ins_inputs (xs ! k)). defined_before xs k n)"
proof -
  have len: "length (ib_opers st) = k" "length (ib_values st) = k"
    and look: "\<And>n v. bt_get (ib_canonical st) n = Some v \<Longrightarrow> v < k \<and> ins_id (xs ! v) = n"
    using assms(1) unfolding built_ir_def by auto
  from assms(2) obtain operands where k: "k < u32_range"
    and operands: "traverse (lookup_operand (ib_canonical st) (ins_id (xs ! k))) (ins_inputs (xs ! k)) = Inr operands"
    and st': "st' = \<lparr>ib_values = ib_values st @
            [\<lparr>iv_id = k, iv_canonical_node = ins_id (xs ! k), iv_tensor_type = ins_output (xs ! k),
              iv_defining_operation = k\<rparr>],
          ib_opers = ib_opers st @
            [\<lparr>io_id = k, io_canonical_node = ins_id (xs ! k), io_operation = ins_operation (xs ! k),
              io_operands = operands, io_result = k\<rparr>],
          ib_oper_ids = ib_oper_ids st @ [k],
          ib_canonical = bt_insert (ins_id (xs ! k)) k (ib_canonical st)\<rparr>"
    by (auto simp: import_instruction_def checked_id_def len outcome_simps)
  have get: "bt_get (ib_canonical st) (ins_inputs (xs ! k) ! j) = Some (operands ! j)"
    if "j < length (ins_inputs (xs ! k))" for j
    using operands that by (auto simp: traverse_Inr lookup_operand_def)
  have lens: "length operands = length (ins_inputs (xs ! k))" using operands by (rule traverse_length)
  have "\<forall>v \<in> set operands. v < k" using get look lens by (metis in_set_conv_nth)
  moreover have "map (\<lambda>v. ins_id (xs ! v)) operands = ins_inputs (xs ! k)"
    using get look lens by (intro nth_equalityI) (simp, fastforce)
  moreover have "\<forall>n \<in> set (ins_inputs (xs ! k)). defined_before xs k n"
    using get look by (metis defined_before_def in_set_conv_nth)
  ultimately show ?thesis
    using assms(1) k look unfolding built_ir_def st'
    by (auto simp: imported_def value_of_def nth_append less_Suc_eq)
qed

lemma import_instruction_total:
  assumes "built_ir xs k st" and "k < u32_range" and "\<forall>n \<in> set (ins_inputs (xs ! k)). defined_before xs k n"
  shows "\<exists>st'. import_instruction st (xs ! k) = Inr st'"
proof -
  have len: "length (ib_opers st) = k" "length (ib_values st) = k"
    using assms(1) unfolding built_ir_def by auto
  have "traverse (lookup_operand (ib_canonical st) (ins_id (xs ! k))) (ins_inputs (xs ! k)) =
      Inr (map (\<lambda>n. the (bt_get (ib_canonical st) n)) (ins_inputs (xs ! k)))"
    using assms(3) built_ir_lookup [OF assms(1)]
    by (intro traverse_map ballI) (fastforce simp: lookup_operand_def)
  then show ?thesis using assms(2) by (simp add: import_instruction_def checked_id_def len)
qed

text \<open>The program the construction returns, and when it returns one.\<close>

definition built_program :: "instruction list \<Rightarrow> node_id list \<Rightarrow> compiler_ir \<Rightarrow> bool" where
  "built_program xs outs ir \<longleftrightarrow>
     ci_values ir = map (value_of xs) [0..<length xs] \<and>
     length (ci_operations ir) = length xs \<and>
     (\<forall>i < length xs. imported xs i (ci_operations ir ! i)) \<and>
     ci_blocks ir = [\<lparr>ib_id = 0, ib_operations = [0..<length xs]\<rparr>] \<and>
     ci_regions ir = [\<lparr>ig_id = 0, ig_blocks = [0]\<rparr>] \<and> ci_entry_region ir = 0 \<and>
     (\<forall>v \<in> set (ci_outputs ir). v < length xs) \<and>
     map (\<lambda>v. ins_id (xs ! v)) (ci_outputs ir) = outs"

definition linear_plan :: "instruction list \<Rightarrow> node_id list \<Rightarrow> bool" where
  "linear_plan xs outs \<longleftrightarrow> length xs \<le> u32_range \<and>
     (\<forall>j < length xs. length (ins_inputs (xs ! j)) = expected_arity (ins_operation (xs ! j)) \<and>
        (\<forall>n \<in> set (ins_inputs (xs ! j)). defined_before xs j n)) \<and>
     (\<forall>n \<in> set outs. defined_before xs (length xs) n)"

lemma built_program_wf:
  assumes "built_program xs outs ir"
  shows "wf_ir ir \<longleftrightarrow> length xs \<le> u32_range \<and>
    (\<forall>j < length xs. length (ins_inputs (xs ! j)) = expected_arity (ins_operation (xs ! j)))"
proof -
  have vals: "length (ci_values ir) = length xs" "\<And>v. v < length xs \<Longrightarrow> ci_values ir ! v = value_of xs v"
    using assms by (simp_all add: built_program_def)
  have "operation_ok ir i (ci_operations ir ! i) \<longleftrightarrow>
      length (ins_inputs (xs ! i)) = expected_arity (ins_operation (xs ! i))" if i: "i < length xs" for i
  proof -
    have imp: "imported xs i (ci_operations ir ! i)" using assms i by (simp add: built_program_def)
    have "length (io_operands (ci_operations ir ! i)) = length (ins_inputs (xs ! i))"
      using imp unfolding imported_def by (metis length_map)
    moreover have "v < length xs \<and> iv_defining_operation (ci_values ir ! v) < i"
      if "v \<in> set (io_operands (ci_operations ir ! i))" for v
    proof -
      have "v < i" using imp that by (simp add: imported_def)
      with i show ?thesis by (simp add: vals value_of_def)
    qed
    ultimately show ?thesis
      using imp i unfolding operation_ok_def imported_def by (auto simp: vals value_of_def)
  qed
  then show ?thesis
    using assms unfolding wf_ir_def by (auto simp: built_program_def value_of_def)
qed

lemma import_invariant:
  assumes "try_fold import_instruction \<lparr>ib_values = [], ib_opers = [], ib_oper_ids = [], ib_canonical = []\<rparr> xs = Inr st"
  shows "built_ir xs (length xs) st \<and> (\<forall>j < length xs. \<forall>n \<in> set (ins_inputs (xs ! j)). defined_before xs j n)"
proof -
  let ?P = "\<lambda>k st. built_ir xs k st \<and> (\<forall>j < k. \<forall>n \<in> set (ins_inputs (xs ! j)). defined_before xs j n)"
  have "?P (length xs) st"
  proof (rule try_fold_invariant [where P = ?P, OF assms])
    fix i s s' assume "?P i s" "import_instruction s (xs ! i) = Inr s'"
    with import_instruction_Inr [of xs i s s'] show "?P (Suc i) s'" by (auto simp: less_Suc_eq)
  qed (simp add: built_ir_def)
  then show ?thesis .
qed

lemma from_execution_plan_Inr:
  assumes "from_execution_plan plan = Inr ir"
  shows "built_program (ep_instructions plan) (ep_outputs plan) ir \<and>
    linear_plan (ep_instructions plan) (ep_outputs plan)"
proof -
  let ?xs = "ep_instructions plan" and ?outs = "ep_outputs plan"
  from assms obtain st outputs where
    fold: "try_fold import_instruction \<lparr>ib_values = [], ib_opers = [], ib_oper_ids = [], ib_canonical = []\<rparr> ?xs = Inr st"
    and outs: "traverse (\<lambda>n. ok_or (MissingOutput n) (bt_get (ib_canonical st) n)) ?outs = Inr outputs"
    and ir: "ir = \<lparr>ci_values = ib_values st, ci_operations = ib_opers st,
               ci_blocks = [\<lparr>ib_id = 0, ib_operations = ib_oper_ids st\<rparr>],
               ci_regions = [\<lparr>ig_id = 0, ig_blocks = [0]\<rparr>],
               ci_entry_region = 0, ci_outputs = outputs\<rparr>"
    and wf: "verify_compiler_ir ir = Inr ()"
    by (auto simp: from_execution_plan_def Let_def outcome_simps)
  note inv = import_invariant [OF fold]
  have get: "bt_get (ib_canonical st) (?outs ! j) = Some (outputs ! j)" if "j < length ?outs" for j
    using outs that by (auto simp: traverse_Inr)
  have look: "\<And>n v. bt_get (ib_canonical st) n = Some v \<Longrightarrow> v < length ?xs \<and> ins_id (?xs ! v) = n"
    using inv unfolding built_ir_def by auto
  have lens: "length outputs = length ?outs" using outs by (rule traverse_length)
  have "\<forall>v \<in> set outputs. v < length ?xs" using get look lens by (metis in_set_conv_nth)
  moreover have "map (\<lambda>v. ins_id (?xs ! v)) outputs = ?outs"
    using get look lens by (intro nth_equalityI) (simp, fastforce)
  ultimately have built: "built_program ?xs ?outs ir"
    using inv unfolding built_program_def built_ir_def ir by simp
  moreover have "\<forall>n \<in> set ?outs. defined_before ?xs (length ?xs) n"
    using get look by (metis defined_before_def in_set_conv_nth)
  ultimately show ?thesis
    using built_program_wf [OF built] wf inv by (simp add: verify_iff_wf linear_plan_def)
qed

lemma from_execution_plan_total:
  assumes "linear_plan (ep_instructions plan) (ep_outputs plan)"
  shows "\<exists>ir. from_execution_plan plan = Inr ir"
proof -
  let ?xs = "ep_instructions plan" and ?outs = "ep_outputs plan"
  let ?s0 = "\<lparr>ib_values = [], ib_opers = [], ib_oper_ids = [], ib_canonical = []\<rparr>"
  have "\<exists>st. try_fold import_instruction ?s0 ?xs = Inr st \<and> built_ir ?xs (length ?xs) st"
  proof (rule try_fold_total [where P = "built_ir ?xs"])
    fix i st assume i: "i < length ?xs" "built_ir ?xs i st"
    with assms have "i < u32_range" "\<forall>n \<in> set (ins_inputs (?xs ! i)). defined_before ?xs i n"
      unfolding linear_plan_def by auto
    from import_instruction_total [OF i(2) this] import_instruction_Inr [OF i(2)]
    show "\<exists>st'. import_instruction st (?xs ! i) = Inr st' \<and> built_ir ?xs (Suc i) st'" by blast
  qed (simp add: built_ir_def)
  then obtain st where fold: "try_fold import_instruction ?s0 ?xs = Inr st" and inv: "built_ir ?xs (length ?xs) st"
    by blast
  define outputs where "outputs = map (\<lambda>n. the (bt_get (ib_canonical st) n)) ?outs"
  have some: "\<forall>n \<in> set ?outs. \<exists>v. bt_get (ib_canonical st) n = Some v"
    using assms built_ir_lookup [OF inv] unfolding linear_plan_def by auto
  have outs: "traverse (\<lambda>n. ok_or (MissingOutput n) (bt_get (ib_canonical st) n)) ?outs = Inr outputs"
    unfolding outputs_def using some by (intro traverse_map) force
  let ?ir = "\<lparr>ci_values = ib_values st, ci_operations = ib_opers st,
      ci_blocks = [\<lparr>ib_id = 0, ib_operations = ib_oper_ids st\<rparr>],
      ci_regions = [\<lparr>ig_id = 0, ig_blocks = [0]\<rparr>], ci_entry_region = 0, ci_outputs = outputs\<rparr>"
  have "\<forall>v \<in> set outputs. v < length ?xs" "map (\<lambda>v. ins_id (?xs ! v)) outputs = ?outs"
    using some inv unfolding outputs_def built_ir_def by (force, intro nth_equalityI) (simp, force)
  then have "built_program ?xs ?outs ?ir"
    using inv unfolding built_program_def built_ir_def by simp
  from built_program_wf [OF this] assms have "verify_compiler_ir ?ir = Inr ()"
    by (simp add: verify_iff_wf linear_plan_def)
  then show ?thesis by (simp add: from_execution_plan_def fold outs)
qed

section \<open>The projection inverts the construction\<close>

lemma project_operation_imported:
  assumes "built_program xs outs ir" and i: "i < length xs"
  shows "project_operation ir (ci_operations ir ! i) = Inr (xs ! i)"
proof -
  let ?oper = "ci_operations ir ! i"
  have imp: "imported xs i ?oper" using assms by (simp add: built_program_def)
  have vals: "ir_value_at ir v = Some (value_of xs v)" if "v < length xs" for v
    using assms(1) that by (simp add: ir_value_at_def built_program_def)
  have node: "map_option iv_canonical_node (ir_value_at ir v) = Some (ins_id (xs ! v))"
    if "v \<in> set (io_operands ?oper)" for v
    using imp that i vals [of v] by (auto simp: imported_def value_of_def)
  have "traverse (\<lambda>operand. ok_or (InvalidValue (io_id ?oper) operand)
      (map_option iv_canonical_node (ir_value_at ir operand))) (io_operands ?oper) =
    Inr (map (\<lambda>v. ins_id (xs ! v)) (io_operands ?oper))"
    by (rule traverse_map) (simp add: node)
  then show ?thesis
    using imp i by (simp add: project_operation_def imported_def vals) (simp add: value_of_def)
qed

lemma project_built:
  assumes "built_program xs outs ir" and "wf_ir ir"
  shows "project_compiler_ir ir memory =
    Inr \<lparr>ep_instructions = xs, ep_outputs = outs, ep_memory = memory,
      ep_stats = \<lparr>cs_original_nodes = length xs, cs_retained_nodes = length xs,
        cs_eliminated_nodes = 0, cs_allocated_buffer_slots = length (mp_slots memory),
        cs_reused_buffer_values =
          length (filter (\<lambda>a. is_buffer (va_storage a)) (mp_allocations memory)) - length (mp_slots memory),
        cs_peak_live_buffers = mp_peak_live_buffers memory\<rparr>\<rparr>"
proof -
  have len: "length (ci_operations ir) = length xs" using assms(1) by (simp add: built_program_def)
  have "traverse (project_operation ir) (ci_operations ir) = Inr xs"
    using project_operation_imported [OF assms(1)] by (simp add: traverse_Inr len)
  moreover have "traverse (\<lambda>out. ok_or (InvalidOutputValue out)
      (map_option iv_canonical_node (ir_value_at ir out))) (ci_outputs ir) =
    Inr (map (\<lambda>v. ins_id (xs ! v)) (ci_outputs ir))"
    using assms(1) by (intro traverse_map) (auto simp: built_program_def ir_value_at_def value_of_def get_def)
  moreover have "verify_compiler_ir ir = Inr ()" using assms(2) by (simp add: verify_iff_wf)
  ultimately show ?thesis
    using assms by (simp add: project_compiler_ir_def built_program_def Let_def)
qed

text \<open>
  round trip. Projecting a program that was built from an execution plan gives back the
  instructions and the outputs of the plan, whatever memory plan it is given.
\<close>

theorem compiler_ir_round_trip:
  assumes "from_execution_plan plan = Inr ir"
  shows "\<exists>p. project_compiler_ir ir memory = Inr p \<and>
     ep_instructions p = ep_instructions plan \<and> ep_outputs p = ep_outputs plan \<and>
     ep_memory p = memory \<and> cs_retained_nodes (ep_stats p) = length (ep_instructions plan)"
proof -
  note built = from_execution_plan_Inr [OF assms]
  then have "wf_ir ir" using built_program_wf by (auto simp: linear_plan_def)
  from project_built [OF conjunct1 [OF built] this, of memory] show ?thesis by simp
qed

section \<open>Static single assignment\<close>

text \<open>
  The invariant of the representation, stated on the operations alone: every value is the result of exactly
  one operation, an operand is the result of an earlier one, an output is the result of some operation, and
  the operations run in order in the one block.
\<close>

definition ssa_form :: "compiler_ir \<Rightarrow> bool" where
  "ssa_form ir \<longleftrightarrow>
     (\<forall>v < length (ci_values ir). \<exists>!i. i < length (ci_operations ir) \<and> io_result (ci_operations ir ! i) = v) \<and>
     (\<forall>i < length (ci_operations ir). \<forall>v \<in> set (io_operands (ci_operations ir ! i)).
        \<exists>j < i. io_result (ci_operations ir ! j) = v) \<and>
     (\<forall>v \<in> set (ci_outputs ir). \<exists>j < length (ci_operations ir). io_result (ci_operations ir ! j) = v) \<and>
     map ib_operations (ci_blocks ir) = [[0..<length (ci_operations ir)]]"

text \<open>The instruction whose value a node names at position \<open>k\<close> of a plan: the latest before it.\<close>

definition latest_before :: "instruction list \<Rightarrow> nat \<Rightarrow> node_id \<Rightarrow> nat \<Rightarrow> bool" where
  "latest_before xs k n v \<longleftrightarrow> v < k \<and> ins_id (xs ! v) = n \<and> (\<forall>w. v < w \<and> w < k \<longrightarrow> ins_id (xs ! w) \<noteq> n)"

lemma latest_before_Suc:
  "latest_before xs (Suc k) n v \<longleftrightarrow> (if ins_id (xs ! k) = n then v = k else latest_before xs k n v)"
  unfolding latest_before_def by (auto simp: less_Suc_eq)

definition bindings_latest :: "instruction list \<Rightarrow> nat \<Rightarrow> ir_building \<Rightarrow> bool" where
  "bindings_latest xs k st \<longleftrightarrow> (\<forall>n v. bt_get (ib_canonical st) n = Some v \<longleftrightarrow> latest_before xs k n v) \<and>
     (\<forall>i < k. list_all2 (latest_before xs i) (ins_inputs (xs ! i)) (io_operands (ib_opers st ! i)))"

lemma import_resolves:
  assumes "built_ir xs k st" and "bindings_latest xs k st" and "import_instruction st (xs ! k) = Inr st'"
  shows "bindings_latest xs (Suc k) st'"
proof -
  have len: "length (ib_opers st) = k" "length (ib_values st) = k"
    using assms(1) unfolding built_ir_def by auto
  from assms(3) obtain operands where
    operands: "traverse (lookup_operand (ib_canonical st) (ins_id (xs ! k))) (ins_inputs (xs ! k)) = Inr operands"
    and st': "ib_canonical st' = bt_insert (ins_id (xs ! k)) k (ib_canonical st)"
      "ib_opers st' = ib_opers st @ [\<lparr>io_id = k, io_canonical_node = ins_id (xs ! k),
        io_operation = ins_operation (xs ! k), io_operands = operands, io_result = k\<rparr>]"
    by (auto simp: import_instruction_def checked_id_def len outcome_simps)
  have "list_all2 (latest_before xs k) (ins_inputs (xs ! k)) operands"
    using operands assms(2) by (auto simp: traverse_Inr lookup_operand_def bindings_latest_def list_all2_conv_all_nth)
  with assms(2) len show ?thesis
    by (auto simp: bindings_latest_def st' latest_before_Suc nth_append less_Suc_eq)
qed

lemma import_resolved:
  assumes "try_fold import_instruction \<lparr>ib_values = [], ib_opers = [], ib_oper_ids = [], ib_canonical = []\<rparr> xs = Inr st"
  shows "built_ir xs (length xs) st \<and> bindings_latest xs (length xs) st \<and> length xs \<le> u32_range"
proof -
  let ?P = "\<lambda>k st. built_ir xs k st \<and> bindings_latest xs k st \<and> k \<le> u32_range"
  have "?P (length xs) st"
  proof (rule try_fold_invariant [where P = ?P, OF assms])
    fix i s s' assume "?P i s" "import_instruction s (xs ! i) = Inr s'"
    with import_instruction_Inr [of xs i s s'] import_resolves [of xs i s s'] show "?P (Suc i) s'" by simp
  qed (simp add: built_ir_def bindings_latest_def latest_before_def)
  then show ?thesis .
qed

text \<open>Why a plan cannot become a compiler program.\<close>

fun plan_problem :: "instruction list \<Rightarrow> node_id list \<Rightarrow> ir_error \<Rightarrow> bool" where
  "plan_problem xs outs (IdentifierOverflow _) \<longleftrightarrow> u32_range < length xs"
| "plan_problem xs outs (MissingOperand n m) \<longleftrightarrow>
     (\<exists>j < length xs. ins_id (xs ! j) = n \<and> m \<in> set (ins_inputs (xs ! j)) \<and> \<not> defined_before xs j m)"
| "plan_problem xs outs (MissingOutput n) \<longleftrightarrow> n \<in> set outs \<and> \<not> defined_before xs (length xs) n"
| "plan_problem xs outs (OperationArityMismatch i expected actual) \<longleftrightarrow>
     i < length xs \<and> expected = expected_arity (ins_operation (xs ! i)) \<and>
     actual = length (ins_inputs (xs ! i)) \<and> expected \<noteq> actual"
| "plan_problem xs outs _ \<longleftrightarrow> False"

lemma import_fails:
  assumes "try_fold import_instruction \<lparr>ib_values = [], ib_opers = [], ib_oper_ids = [], ib_canonical = []\<rparr> xs = Inl f"
  shows "\<exists>e. f = Err e \<and> plan_problem xs outs e"
proof -
  from assms have "\<exists>i st. i < length xs \<and> built_ir xs i st \<and> import_instruction st (xs ! i) = Inl f"
  proof (rule try_fold_Inl)
    show "built_ir xs (Suc i) s'" if "built_ir xs i s" "import_instruction s (xs ! i) = Inr s'" for i s s'
      using import_instruction_Inr [OF that] by simp
  qed (simp add: built_ir_def)
  then obtain i st where i: "i < length xs" and st: "built_ir xs i st" and fails: "import_instruction st (xs ! i) = Inl f"
    by blast
  have len: "length (ib_opers st) = i" "length (ib_values st) = i" using st unfolding built_ir_def by auto
  show ?thesis
  proof (cases "i < u32_range")
    case False
    with fails i len show ?thesis by (auto simp: import_instruction_def checked_id_def outcome_simps)
  next
    case True
    with fails len have "traverse (lookup_operand (ib_canonical st) (ins_id (xs ! i))) (ins_inputs (xs ! i)) = Inl f"
      by (auto simp: import_instruction_def checked_id_def outcome_simps)
    then obtain m where m: "m \<in> set (ins_inputs (xs ! i))" "bt_get (ib_canonical st) m = None"
      "f = Err (MissingOperand (ins_id (xs ! i)) m)"
      by (auto simp: lookup_operand_def dest!: traverse_InlD)
    with built_ir_lookup [OF st, of m] i show ?thesis by auto
  qed
qed

lemma built_verify_fails:
  assumes built: "built_program xs outs ir" and small: "length xs \<le> u32_range"
    and fails: "verify_compiler_ir ir = Inl f"
  shows "\<exists>e. f = Err e \<and> plan_problem xs outs e"
proof -
  note b = built [unfolded built_program_def]
  have entry: "ir_region_at ir (ci_entry_region ir) \<noteq> None" using b by (simp add: ir_region_at_def)
  have ident: "check_identifier space 0 0 = Inr ()" for space by simp
  have blocks: "for_each (\<lambda>(index, block). check_identifier BlockSpace index (ib_id block)) (enumerate 0 (ci_blocks ir)) = Inr ()"
    and regions: "for_each (verify_region ir) (enumerate 0 (ci_regions ir)) = Inr ()"
    using b by (simp_all add: verify_region_Inr)
  have vals: "for_each (\<lambda>(index, v). check_identifier ValueSpace index (iv_id v)) (enumerate 0 (ci_values ir)) = Inr ()"
    using b small by (simp add: for_each_Inr ball_enumerate0 value_of_def)
  have outputs: "for_each (\<lambda>out. require (ir_value_at ir out \<noteq> None) (InvalidOutputValue out)) (ci_outputs ir) = Inr ()"
    using b by (auto simp: for_each_Inr ir_value_at_def not_le)
  from fails have "for_each (verify_ir_operation ir) (enumerate 0 (ci_operations ir)) = Inl f"
    unfolding verify_compiler_ir_def using entry blocks regions vals outputs
    by (auto simp: try_bind_eq_Inl)
  then obtain i where i: "i < length xs" and op: "verify_ir_operation ir (i, ci_operations ir ! i) = Inl f"
    using b by (auto simp: set_enumerate0 dest!: for_each_InlD)
  let ?oper = "ci_operations ir ! i"
  have imp: "imported xs i ?oper" using b i by simp
  have operands: "length (io_operands ?oper) = length (ins_inputs (xs ! i))"
    using imp unfolding imported_def by (metis length_map)
  have arity: "length (ins_inputs (xs ! i)) \<noteq> expected_arity (ins_operation (xs ! i))"
  proof
    assume same: "length (ins_inputs (xs ! i)) = expected_arity (ins_operation (xs ! i))"
    have "v < length xs \<and> iv_defining_operation (ci_values ir ! v) < i" if "v \<in> set (io_operands ?oper)" for v
    proof -
      have "v < i" using imp that by (simp add: imported_def)
      with i b show ?thesis by (simp add: value_of_def)
    qed
    with same operands imp i b have "operation_ok ir i ?oper"
      by (auto simp: operation_ok_def imported_def value_of_def)
    then have "verify_ir_operation ir (i, ?oper) = Inr ()" using i small by (simp add: verify_ir_operation_Inr)
    with op show False by simp
  qed
  have "check_identifier OperationSpace i (io_id ?oper) = Inr ()" using imp i small by (simp add: imported_def)
  with op arity operands imp have "f = Err (OperationArityMismatch i (expected_arity (ins_operation (xs ! i)))
      (length (ins_inputs (xs ! i))))"
    by (auto simp: verify_ir_operation_def imported_def Let_def try_bind_eq_Inl)
  with i arity show ?thesis by simp
qed

lemma from_execution_plan_refused:
  assumes "from_execution_plan plan = Inl f"
  shows "\<exists>e. f = Err e \<and> plan_problem (ep_instructions plan) (ep_outputs plan) e"
proof (cases "try_fold import_instruction \<lparr>ib_values = [], ib_opers = [], ib_oper_ids = [], ib_canonical = []\<rparr>
    (ep_instructions plan)")
  case (Inl f')
  with assms import_fails [OF Inl] show ?thesis by (simp add: from_execution_plan_def)
next
  case (Inr st)
  let ?xs = "ep_instructions plan" and ?outs = "ep_outputs plan"
  note st = import_resolved [OF Inr]
  show ?thesis
  proof (cases "traverse (\<lambda>n. ok_or (MissingOutput n) (bt_get (ib_canonical st) n)) ?outs")
    case (Inl f')
    then obtain n where "n \<in> set ?outs" "bt_get (ib_canonical st) n = None" "f' = Err (MissingOutput n)"
      by (auto dest!: traverse_InlD)
    moreover have "f = f'" using assms Inr Inl by (simp add: from_execution_plan_def)
    ultimately show ?thesis using built_ir_lookup [OF conjunct1 [OF st], of n] by simp
  next
    case outs: (Inr outputs)
    let ?ir = "\<lparr>ci_values = ib_values st, ci_operations = ib_opers st,
        ci_blocks = [\<lparr>ib_id = 0, ib_operations = ib_oper_ids st\<rparr>],
        ci_regions = [\<lparr>ig_id = 0, ig_blocks = [0]\<rparr>], ci_entry_region = 0, ci_outputs = outputs\<rparr>"
    have look: "v < length ?xs \<and> ins_id (?xs ! v) = n" if "bt_get (ib_canonical st) n = Some v" for n v
      using st that unfolding built_ir_def by blast
    have get: "bt_get (ib_canonical st) (?outs ! j) = Some (outputs ! j)" if "j < length ?outs" for j
      using outs that by (auto simp: traverse_Inr)
    have lens: "length outputs = length ?outs" using outs by (rule traverse_length)
    have "\<forall>v \<in> set outputs. v < length ?xs" using get look lens by (metis in_set_conv_nth)
    moreover have "map (\<lambda>v. ins_id (?xs ! v)) outputs = ?outs"
      using get look lens by (intro nth_equalityI) (simp, fastforce)
    ultimately have built: "built_program ?xs ?outs ?ir"
      using st unfolding built_program_def built_ir_def by simp
    have "verify_compiler_ir ?ir = Inl f"
      using assms Inr outs by (auto simp: from_execution_plan_def Let_def try_bind_eq_Inl)
    from built_verify_fails [OF built _ this] st show ?thesis by simp
  qed
qed

lemma from_execution_plan_resolved:
  assumes "from_execution_plan plan = Inr ir"
  shows "\<forall>i < length (ep_instructions plan).
      list_all2 (latest_before (ep_instructions plan) i) (ins_inputs (ep_instructions plan ! i)) (io_operands (ci_operations ir ! i))"
    and "list_all2 (latest_before (ep_instructions plan) (length (ep_instructions plan))) (ep_outputs plan) (ci_outputs ir)"
proof -
  from assms obtain st where
    fold: "try_fold import_instruction \<lparr>ib_values = [], ib_opers = [], ib_oper_ids = [], ib_canonical = []\<rparr>
        (ep_instructions plan) = Inr st"
    and outs: "traverse (\<lambda>n. ok_or (MissingOutput n) (bt_get (ib_canonical st) n)) (ep_outputs plan) = Inr (ci_outputs ir)"
    and ir: "ci_operations ir = ib_opers st"
    by (auto simp: from_execution_plan_def Let_def outcome_simps)
  note st = import_resolved [OF fold]
  then show "\<forall>i < length (ep_instructions plan).
      list_all2 (latest_before (ep_instructions plan) i) (ins_inputs (ep_instructions plan ! i)) (io_operands (ci_operations ir ! i))"
    by (simp add: ir bindings_latest_def)
  show "list_all2 (latest_before (ep_instructions plan) (length (ep_instructions plan))) (ep_outputs plan) (ci_outputs ir)"
    using outs st by (auto simp: traverse_Inr bindings_latest_def list_all2_conv_all_nth)
qed

lemma built_ssa:
  assumes "built_program xs outs ir"
  shows "ssa_form ir"
proof -
  have res: "io_result (ci_operations ir ! i) = i" if "i < length xs" for i
    using assms that by (simp add: built_program_def imported_def)
  have ops: "\<exists>j < i. io_result (ci_operations ir ! j) = v"
    if "i < length xs" "v \<in> set (io_operands (ci_operations ir ! i))" for i v
  proof -
    have "v < i" using assms that by (simp add: built_program_def imported_def)
    with res [of v] that show ?thesis by auto
  qed
  have one: "\<exists>!i. i < length xs \<and> io_result (ci_operations ir ! i) = v" if "v < length xs" for v
    using res that by (intro ex1I [of _ v]) auto
  have "\<exists>j < length xs. io_result (ci_operations ir ! j) = v" if "v \<in> set (ci_outputs ir)" for v
    using assms res that by (auto simp: built_program_def)
  with ops one assms show ?thesis by (simp add: ssa_form_def built_program_def)
qed

text \<open>
  C39: an execution plan becomes a compiler program exactly when every operand and output is defined by
  an earlier instruction, every operation has its arity and the positions fit 32-bit identifiers; every
  other plan is reported with a typed error that names a true reason, and the verifier's errors about
  the program's own structure are unreachable. The program is in static single assignment form: each value
  is the result of exactly one operation, and uses follow the definition. It has one operation per instruction,
  in order, with the instruction's node, operation and type, and each operand and output is the value of
  the latest instruction that defines the node it names. Projecting it back gives the instructions and the
  outputs of the plan again, with the memory plan it is given.
\<close>

theorem from_execution_plan_decides:
  "case from_execution_plan plan of
     Inr ir \<Rightarrow> linear_plan (ep_instructions plan) (ep_outputs plan) \<and> ssa_form ir \<and>
       length (ci_operations ir) = length (ep_instructions plan) \<and>
       length (ci_values ir) = length (ep_instructions plan) \<and>
       (\<forall>i < length (ep_instructions plan).
          let x = ep_instructions plan ! i; oper = ci_operations ir ! i in
          io_operation oper = ins_operation x \<and> io_canonical_node oper = ins_id x \<and>
          iv_tensor_type (ci_values ir ! io_result oper) = ins_output x \<and>
          list_all2 (latest_before (ep_instructions plan) i) (ins_inputs x) (io_operands oper)) \<and>
       list_all2 (latest_before (ep_instructions plan) (length (ep_instructions plan))) (ep_outputs plan) (ci_outputs ir) \<and>
       (\<exists>p. project_compiler_ir ir memory = Inr p \<and> ep_instructions p = ep_instructions plan \<and>
          ep_outputs p = ep_outputs plan \<and> ep_memory p = memory)
   | Inl f \<Rightarrow> \<not> linear_plan (ep_instructions plan) (ep_outputs plan) \<and>
       (\<exists>e. f = Err e \<and> plan_problem (ep_instructions plan) (ep_outputs plan) e)"
proof (cases "from_execution_plan plan")
  case (Inl f)
  with from_execution_plan_refused [OF Inl] from_execution_plan_total [of plan] show ?thesis by auto
next
  case (Inr ir)
  note built = from_execution_plan_Inr [OF Inr]
  then have "wf_ir ir" using built_program_wf by (auto simp: linear_plan_def)
  note projected = project_built [OF conjunct1 [OF built] this, of memory]
  from Inr built built_ssa [OF conjunct1 [OF built]] from_execution_plan_resolved [OF Inr] projected show ?thesis
    by (auto simp: built_program_def imported_def value_of_def Let_def)
qed

text \<open>
  The verifier alone does not establish the form: it compares an operand with the operation that the value
  claims as its definition, and never asks whether that operation produces the value. Here value 1
  claims operation 0, which produces value 0; nothing produces value 1, and the program is accepted.
\<close>

definition phantom_program :: compiler_ir where
  "phantom_program = \<lparr>
     ci_values = [\<lparr>iv_id = 0, iv_canonical_node = 0, iv_tensor_type = matrix_type, iv_defining_operation = 0\<rparr>,
       \<lparr>iv_id = 1, iv_canonical_node = 0, iv_tensor_type = matrix_type, iv_defining_operation = 0\<rparr>,
       \<lparr>iv_id = 2, iv_canonical_node = 1, iv_tensor_type = matrix_type, iv_defining_operation = 1\<rparr>],
     ci_operations = [\<lparr>io_id = 0, io_canonical_node = 0, io_operation = Input ''x'', io_operands = [], io_result = 0\<rparr>,
       \<lparr>io_id = 1, io_canonical_node = 1, io_operation = Relu, io_operands = [1], io_result = 2\<rparr>],
     ci_blocks = [\<lparr>ib_id = 0, ib_operations = [0, 1]\<rparr>], ci_regions = [\<lparr>ig_id = 0, ig_blocks = [0]\<rparr>],
     ci_entry_region = 0, ci_outputs = [2]\<rparr>"

theorem verifier_accepts_undefined_operand:
  "verify_compiler_ir phantom_program = Inr () \<and> \<not> ssa_form phantom_program"
proof
  show "verify_compiler_ir phantom_program = Inr ()"
    by (simp add: verify_iff_wf wf_ir_def operation_ok_def phantom_program_def all_less_Suc)
  have "\<forall>i < length (ci_operations phantom_program). io_result (ci_operations phantom_program ! i) \<noteq> 1"
    by (simp add: phantom_program_def all_less_Suc)
  moreover have "1 < length (ci_values phantom_program)" by (simp add: phantom_program_def)
  ultimately show "\<not> ssa_form phantom_program" unfolding ssa_form_def by blast
qed

section \<open>Compiled plans are linear\<close>

lemma compile_plan_schedule:
  assumes "compile g = Inr plan" and "length (graph_nodes g) \<le> u32_range"
  shows "wf_graph g \<and> graph_outputs g \<noteq> [] \<and>
    ep_instructions plan = map (instruction_of (graph_nodes g)) (needed_list g) \<and>
    ep_outputs plan = graph_outputs g \<and> schedule_ok (ep_instructions plan) (ep_outputs plan) \<and>
    memory_plan_build (ep_instructions plan) (ep_outputs plan) =
      (Inr (ep_memory plan) :: (compile_error, memory_plan) outcome) \<and>
    linear_plan (ep_instructions plan) (ep_outputs plan)"
proof -
  have wf: "wf_graph g" and outs: "graph_outputs g \<noteq> []"
    using assms(1) by (auto simp: compile_def validate_iff_wf outcome_simps split: if_splits)
  from compile_run [OF wf outs assms(2)] assms(1) have
    ins: "ep_instructions plan = map (instruction_of (graph_nodes g)) (needed_list g)"
    "ep_outputs plan = graph_outputs g"
    "memory_plan_build (ep_instructions plan) (graph_outputs g) =
      (Inr (ep_memory plan) :: (compile_error, memory_plan) outcome)" by auto
  have sched: "schedule_ok (ep_instructions plan) (ep_outputs plan)"
    using schedule_needed [OF wf assms(2)] ins by simp
  have "length (needed_list g) \<le> length (graph_nodes g)"
    unfolding needed_list_def by (rule order_trans [OF length_filter_le]) simp
  moreover have "length (ins_inputs (ep_instructions plan ! j)) =
      expected_arity (ins_operation (ep_instructions plan ! j))" if "j < length (ep_instructions plan)" for j
  proof -
    have "needed_list g ! j < length (graph_nodes g)"
      using that ins(1) nth_mem [of j "needed_list g"] by (auto simp: needed_list_def)
    with wf that ins(1) show ?thesis
      by (simp add: instruction_of_def to_instruction_def wf_graph_def nodes_ok_arity)
  qed
  ultimately have "linear_plan (ep_instructions plan) (ep_outputs plan)"
    using sched ins assms(2) unfolding linear_plan_def schedule_ok_def defined_before_def by auto
  with wf outs ins sched show ?thesis by simp
qed

theorem compiler_ir_round_trip_witness:
  "\<exists>plan ir p. compile example_chain = Inr plan \<and> from_execution_plan plan = Inr ir \<and>
     project_compiler_ir ir (ep_memory plan) = Inr p \<and>
     ep_instructions p = ep_instructions plan \<and> ep_outputs p = [5]"
proof -
  have small: "length (graph_nodes example_chain) \<le> u32_range" "graph_outputs example_chain = [5]"
    by (simp_all add: example_chain_def)
  then obtain plan where plan: "compile example_chain = Inr plan"
    using compile_run [OF example_chain_valid(2)] by auto
  note sched = compile_plan_schedule [OF this small(1)]
  then obtain ir where "from_execution_plan plan = Inr ir" using from_execution_plan_total by blast
  with compiler_ir_round_trip [OF this, of "ep_memory plan"] plan sched small show ?thesis by auto
qed

theorem from_execution_plan_decides_witness:
  "\<exists>plan ir p. compile example_chain = Inr plan \<and> from_execution_plan plan = Inr ir \<and> ssa_form ir \<and>
     project_compiler_ir ir (ep_memory plan) = Inr p \<and>
     ep_instructions p = ep_instructions plan \<and> ep_outputs p = [5]"
proof -
  have small: "length (graph_nodes example_chain) \<le> u32_range" "graph_outputs example_chain = [5]"
    by (simp_all add: example_chain_def)
  then obtain plan where plan: "compile example_chain = Inr plan"
    using compile_run [OF example_chain_valid(2)] by auto
  note sched = compile_plan_schedule [OF this small(1)]
  then obtain ir where "from_execution_plan plan = Inr ir" using from_execution_plan_total by blast
  with from_execution_plan_decides [of plan "ep_memory plan"] plan sched small show ?thesis by auto
qed

end
