(* ===== verification/IR_Passes.thy ===== *)
theory IR_Passes
  imports Compiler_IR
begin

text \<open>
  Analyses, rewrites and passes over the compiler representation
  (\<open>compiler_ir/program/analysis.rs\<close>, \<open>analysis/liveness.rs\<close>, \<open>rewrite.rs\<close>, \<open>pass.rs\<close>).
  An operation that mutates the program returns the program beside its result, so that what
  an error leaves behind is part of the model.
\<close>

section \<open>Use counts\<close>

text \<open>\<open>counts.get_mut(index)\<close> does nothing out of range, as \<open>xs[i := v]\<close>.\<close>

definition count_use :: "usize list \<Rightarrow> ir_value_id \<Rightarrow> usize list" where
  "count_use counts v = (case get counts v of Some c \<Rightarrow> counts[v := c + 1] | None \<Rightarrow> counts)"

definition use_counts :: "compiler_ir \<Rightarrow> usize list" where
  "use_counts ir =
     (let counts = foldl (\<lambda>counts oper. foldl count_use counts (io_operands oper))
                     (replicate (length (ci_values ir)) 0) (ci_operations ir) in
      foldl count_use counts (ci_outputs ir))"

lemma count_uses:
  "length (foldl count_use counts vs) = length counts \<and>
   (\<forall>v < length counts. foldl count_use counts vs ! v = counts ! v + count_list vs v)"
proof (induction vs arbitrary: counts)
  case (Cons u vs)
  have "length (count_use counts u) = length counts"
    "\<And>v. v < length counts \<Longrightarrow> count_use counts u ! v = counts ! v + (if u = v then 1 else 0)"
    by (auto simp: count_use_def get_def nth_list_update)
  with Cons.IH [of "count_use counts u"] show ?case by simp
qed simp

lemma count_operand_uses:
  "length (foldl (\<lambda>counts oper. foldl count_use counts (io_operands oper)) counts opers) = length counts \<and>
   (\<forall>v < length counts. foldl (\<lambda>counts oper. foldl count_use counts (io_operands oper)) counts opers ! v =
      counts ! v + count_list (concat (map io_operands opers)) v)"
proof (induction opers arbitrary: counts)
  case (Cons oper opers)
  from count_uses [of counts "io_operands oper"] Cons.IH [of "foldl count_use counts (io_operands oper)"]
  show ?case by simp
qed simp

text \<open>
  the use counts are exact: for every value, the number of its occurrences among the
  operands of all operations and the declared outputs, repeated operands counted each time.
\<close>

theorem use_counts_exact:
  "use_counts ir = map (count_list (concat (map io_operands (ci_operations ir)) @ ci_outputs ir))
     [0..<length (ci_values ir)]"
proof (rule nth_equalityI)
  let ?c = "foldl (\<lambda>counts oper. foldl count_use counts (io_operands oper))
    (replicate (length (ci_values ir)) 0) (ci_operations ir)"
  from count_operand_uses [of "replicate (length (ci_values ir)) 0" "ci_operations ir"]
    count_uses [of ?c "ci_outputs ir"]
  show "length (use_counts ir) = length (map (count_list (concat (map io_operands (ci_operations ir)) @
      ci_outputs ir)) [0..<length (ci_values ir)])"
    and "\<And>v. v < length (use_counts ir) \<Longrightarrow> use_counts ir ! v =
      map (count_list (concat (map io_operands (ci_operations ir)) @ ci_outputs ir))
        [0..<length (ci_values ir)] ! v"
    unfolding use_counts_def Let_def by simp_all
qed

section \<open>Linear liveness\<close>

record live_range =
  lr_definition :: ir_operation_id
  lr_last_operation_use :: "ir_operation_id option"
  lr_live_out :: bool

definition note_operand :: "ir_operation_id \<Rightarrow> live_range list \<Rightarrow> ir_value_id \<Rightarrow> live_range list" where
  "note_operand oper_id ranges v =
     (case get ranges v of
        Some r \<Rightarrow> ranges[v := r\<lparr>lr_last_operation_use := Some oper_id\<rparr>]
      | None \<Rightarrow> ranges)"

definition note_output :: "live_range list \<Rightarrow> ir_value_id \<Rightarrow> live_range list" where
  "note_output ranges v =
     (case get ranges v of Some r \<Rightarrow> ranges[v := r\<lparr>lr_live_out := True\<rparr>] | None \<Rightarrow> ranges)"

definition linear_liveness :: "compiler_ir \<Rightarrow> live_range list" where
  "linear_liveness ir =
     (let ranges = map (\<lambda>v. \<lparr>lr_definition = iv_defining_operation v,
                             lr_last_operation_use = None, lr_live_out = False\<rparr>) (ci_values ir);
          ranges = foldl (\<lambda>ranges oper. foldl (note_operand (io_id oper)) ranges (io_operands oper))
                     ranges (ci_operations ir) in
      foldl note_output ranges (ci_outputs ir))"

lemma note_operands:
  "length (foldl (note_operand i) rs vs) = length rs \<and>
   (\<forall>v < length rs. foldl (note_operand i) rs vs ! v =
      (if v \<in> set vs then (rs ! v)\<lparr>lr_last_operation_use := Some i\<rparr> else rs ! v))"
proof (induction vs arbitrary: rs)
  case (Cons u vs)
  have "length (note_operand i rs u) = length rs"
    "\<And>v. v < length rs \<Longrightarrow> note_operand i rs u ! v =
       (if u = v then (rs ! v)\<lparr>lr_last_operation_use := Some i\<rparr> else rs ! v)"
    by (auto simp: note_operand_def get_def nth_list_update)
  with Cons.IH [of "note_operand i rs u"] show ?case by auto
qed simp

lemma note_outputs:
  "length (foldl note_output rs vs) = length rs \<and>
   (\<forall>v < length rs. foldl note_output rs vs ! v =
      (rs ! v)\<lparr>lr_live_out := lr_live_out (rs ! v) \<or> v \<in> set vs\<rparr>)"
proof (induction vs arbitrary: rs)
  case (Cons u vs)
  have "length (note_output rs u) = length rs"
    "\<And>v. v < length rs \<Longrightarrow> note_output rs u ! v =
       (rs ! v)\<lparr>lr_live_out := lr_live_out (rs ! v) \<or> v = u\<rparr>"
    by (auto simp: note_output_def get_def nth_list_update)
  with Cons.IH [of "note_output rs u"] show ?case by auto
qed simp

text \<open>The last operation that uses a value, as the source's left-to-right scan finds it.\<close>

fun last_use_among :: "ir_operation list \<Rightarrow> ir_value_id \<Rightarrow> ir_operation_id option" where
  "last_use_among [] v = None"
| "last_use_among (oper # opers) v =
     (case last_use_among opers v of
        Some i \<Rightarrow> Some i
      | None \<Rightarrow> if v \<in> set (io_operands oper) then Some (io_id oper) else None)"

lemma scan_operations:
  "length (foldl (\<lambda>ranges oper. foldl (note_operand (io_id oper)) ranges (io_operands oper)) rs opers) = length rs \<and>
   (\<forall>v < length rs.
      foldl (\<lambda>ranges oper. foldl (note_operand (io_id oper)) ranges (io_operands oper)) rs opers ! v =
      (case last_use_among opers v of
         Some i \<Rightarrow> (rs ! v)\<lparr>lr_last_operation_use := Some i\<rparr>
       | None \<Rightarrow> rs ! v))"
proof (induction opers arbitrary: rs)
  case (Cons oper opers)
  from note_operands [of "io_id oper" rs "io_operands oper"]
    Cons.IH [of "foldl (note_operand (io_id oper)) rs (io_operands oper)"]
  show ?case by (auto split: option.splits)
qed simp

lemma linear_liveness_nth:
  "length (linear_liveness ir) = length (ci_values ir) \<and>
   (\<forall>v < length (ci_values ir). linear_liveness ir ! v =
      \<lparr>lr_definition = iv_defining_operation (ci_values ir ! v),
       lr_last_operation_use = last_use_among (ci_operations ir) v,
       lr_live_out = (v \<in> set (ci_outputs ir))\<rparr>)"
proof -
  define rs where "rs = map (\<lambda>v. \<lparr>lr_definition = iv_defining_operation v,
      lr_last_operation_use = None, lr_live_out = False\<rparr>) (ci_values ir)"
  define rs' where "rs' = foldl (\<lambda>ranges oper. foldl (note_operand (io_id oper)) ranges (io_operands oper))
      rs (ci_operations ir)"
  have scan: "length rs' = length rs" "rs' ! v = (case last_use_among (ci_operations ir) v of
      Some i \<Rightarrow> (rs ! v)\<lparr>lr_last_operation_use := Some i\<rparr> | None \<Rightarrow> rs ! v)" if "v < length rs" for v
    using scan_operations [of rs "ci_operations ir"] that by (simp_all add: rs'_def)
  have out: "length (linear_liveness ir) = length rs'"
    "linear_liveness ir ! v = (rs' ! v)\<lparr>lr_live_out := lr_live_out (rs' ! v) \<or> v \<in> set (ci_outputs ir)\<rparr>"
    if "v < length rs'" for v
    using note_outputs [of rs' "ci_outputs ir"] that
    by (simp_all add: linear_liveness_def Let_def rs'_def rs_def)
  have len: "length rs' = length rs" "length rs = length (ci_values ir)"
    "length (linear_liveness ir) = length rs'"
    using scan_operations [of rs "ci_operations ir"] note_outputs [of rs' "ci_outputs ir"]
    by (simp_all add: rs'_def rs_def linear_liveness_def Let_def)
  show ?thesis
    using scan out len by (auto simp: rs_def split: option.split)
qed

lemma last_use_among_bound:
  assumes "\<forall>i < length opers. io_id (opers ! i) = base + i"
  shows "(\<forall>i. last_use_among opers v = Some i \<longrightarrow> base \<le> i) \<and>
    ((\<forall>i. last_use_among opers v = Some i \<longrightarrow> i < t) \<longleftrightarrow>
     (\<forall>i < length opers. v \<in> set (io_operands (opers ! i)) \<longrightarrow> base + i < t))"
  using assms
proof (induction opers arbitrary: base)
  case (Cons oper opers)
  have "\<forall>i < length opers. io_id (opers ! i) = Suc base + i" using Cons.prems by auto
  note IH = Cons.IH [OF this]
  have id: "io_id oper = base" using Cons.prems by force
  have all: "(\<forall>i < length (oper # opers). v \<in> set (io_operands ((oper # opers) ! i)) \<longrightarrow> base + i < t) \<longleftrightarrow>
      (v \<in> set (io_operands oper) \<longrightarrow> base < t) \<and>
      (\<forall>i < length opers. v \<in> set (io_operands (opers ! i)) \<longrightarrow> Suc base + i < t)"
    by (auto simp: less_Suc_eq_0_disj)
  show ?case
  proof (cases "last_use_among opers v")
    case None
    with IH all id show ?thesis by simp
  next
    case (Some i)
    with IH have "Suc base \<le> i" by simp
    with Some IH all show ?thesis by auto
  qed
qed simp

text \<open>
  linear liveness is exact on every program that satisfies the SSA invariant: the range of
  a value starts at its definition, its last use is the greatest operation that reads it (and
  none exactly when no operation does), which lies after the definition, and it is live out
  exactly when it is a declared output.
\<close>

theorem linear_liveness_exact:
  assumes "verify_compiler_ir ir = Inr ()" and "v < length (ci_values ir)"
  shows "let r = linear_liveness ir ! v;
             users = {i. i < length (ci_operations ir) \<and> v \<in> set (io_operands (ci_operations ir ! i))} in
    length (linear_liveness ir) = length (ci_values ir) \<and>
    lr_definition r = iv_defining_operation (ci_values ir ! v) \<and>
    lr_last_operation_use r = (if users = {} then None else Some (Max users)) \<and>
    (\<forall>i. lr_last_operation_use r = Some i \<longrightarrow> lr_definition r < i) \<and>
    (lr_live_out r \<longleftrightarrow> v \<in> set (ci_outputs ir))"
proof -
  let ?opers = "ci_operations ir"
  let ?users = "{i. i < length ?opers \<and> v \<in> set (io_operands (?opers ! i))}"
  have wf: "wf_ir ir" using assms(1) by (simp add: verify_iff_wf)
  then have ids: "\<forall>i < length ?opers. io_id (?opers ! i) = 0 + i"
    and ssa: "\<And>i. i \<in> ?users \<Longrightarrow> iv_defining_operation (ci_values ir ! v) < i"
    by (auto simp: wf_ir_def operation_ok_def)
  have bound: "(\<forall>i. last_use_among ?opers v = Some i \<longrightarrow> i < t) \<longleftrightarrow> (\<forall>i \<in> ?users. i < t)" for t
    using last_use_among_bound [OF ids, of v t] by auto
  have last_use: "last_use_among ?opers v = (if ?users = {} then None else Some (Max ?users))"
  proof (cases "last_use_among ?opers v")
    case None
    then have "\<forall>i \<in> ?users. i < 0" using bound [of 0] by simp
    then have "?users = {}" by blast
    with None show ?thesis by simp
  next
    case (Some i)
    then have le: "\<forall>j \<in> ?users. j < Suc i" and ge: "\<not> (\<forall>j \<in> ?users. j < i)" using bound by auto
    then have "i \<in> ?users" by (metis less_SucE)
    moreover from this le have "Max ?users = i" by (intro Max_eqI) auto
    ultimately show ?thesis using Some by auto
  qed
  have "iv_defining_operation (ci_values ir ! v) < Max ?users" if "?users \<noteq> {}"
    using ssa Max_in [OF _ that] by simp
  with linear_liveness_nth [of ir] assms(2) last_use show ?thesis by (auto simp: Let_def)
qed

section \<open>Rewrites\<close>

text \<open>A rewrite may keep a state of its own (\<open>&mut self\<close>), of type \<open>'r\<close>.\<close>

type_synonym 'r rewrite = "'r \<Rightarrow> ir_operation \<Rightarrow> operation option \<times> 'r"

record rewrite_stats =
  rs_operations_visited :: usize
  rs_rewrites_applied :: usize

definition rewrite_changed :: "rewrite_stats \<Rightarrow> bool" where
  "rewrite_changed stats \<longleftrightarrow> rs_rewrites_applied stats \<noteq> 0"

type_synonym 'r collecting = "rewrite_stats \<times> (usize \<times> operation) list \<times> 'r"

definition collect_rewrite ::
  "'r rewrite \<Rightarrow> 'r collecting \<Rightarrow> usize \<times> ir_operation \<Rightarrow> (ir_error, 'r collecting) outcome" where
  "collect_rewrite rewrite st p = (case (st, p) of ((stats, replacements, r), (index, oper)) \<Rightarrow>
     (let stats = stats\<lparr>rs_operations_visited := rs_operations_visited stats + 1\<rparr> in
      case rewrite r oper of
        (None, r) \<Rightarrow> Inr (stats, replacements, r)
      | (Some replacement, r) \<Rightarrow>
          if replacement = io_operation oper then Inr (stats, replacements, r)
          else
            (let expected = expected_arity replacement; actual = length (io_operands oper) in
             try_bind (require (expected = actual)
                         (OperationArityMismatch (io_id oper) expected actual)) (\<lambda>_.
             Inr (stats, replacements @ [(index, replacement)], r)))))"

definition replace_operation ::
  "ir_operation list \<Rightarrow> usize \<times> operation \<Rightarrow> (ir_error, ir_operation list) outcome" where
  "replace_operation opers p = (case p of (index, replacement) \<Rightarrow>
     try_bind (idx opers index) (\<lambda>oper.
     Inr (opers[index := oper\<lparr>io_operation := replacement\<rparr>])))"

definition apply_rewrite ::
  "'r rewrite \<Rightarrow> 'r \<Rightarrow> compiler_ir \<Rightarrow> compiler_ir \<times> (ir_error, rewrite_stats \<times> 'r) outcome" where
  "apply_rewrite rewrite r ir =
     (case try_fold (collect_rewrite rewrite)
             (\<lparr>rs_operations_visited = 0, rs_rewrites_applied = 0\<rparr>, [], r)
             (enumerate 0 (ci_operations ir)) of
        Inl e \<Rightarrow> (ir, Inl e)
      | Inr (stats, replacements, r) \<Rightarrow>
          (let stats = stats\<lparr>rs_rewrites_applied := length replacements\<rparr> in
           case try_fold replace_operation (ci_operations ir) replacements of
             Inl e \<Rightarrow> (ir, Inl e)
           | Inr opers \<Rightarrow>
               (let ir' = ir\<lparr>ci_operations := opers\<rparr> in
                (ir', try_bind (verify_compiler_ir ir') (\<lambda>_. Inr (stats, r))))))"

section \<open>Passes\<close>

text \<open>
  A pass manager runs each of its passes once per run, so within a run a pass is a function of
  the program, whatever state it keeps of its own.
\<close>

type_synonym pass_result = bool

type_synonym compiler_pass = "compiler_ir \<Rightarrow> compiler_ir \<times> (ir_error, pass_result) outcome"

record pass_manager_stats =
  pm_passes_run :: usize
  pm_passes_changed :: usize

fun run_passes ::
  "compiler_pass list \<Rightarrow> pass_manager_stats \<Rightarrow> compiler_ir
     \<Rightarrow> compiler_ir \<times> (ir_error, pass_manager_stats) outcome" where
  "run_passes [] stats ir = (ir, Inr stats)"
| "run_passes (pass # passes) stats ir =
     (case pass ir of
        (ir, Inl e) \<Rightarrow> (ir, Inl e)
      | (ir, Inr changed) \<Rightarrow>
          (let stats = stats\<lparr>pm_passes_run := pm_passes_run stats + 1\<rparr>;
               stats = (if changed then stats\<lparr>pm_passes_changed := pm_passes_changed stats + 1\<rparr>
                        else stats) in
           case verify_compiler_ir ir of
             Inl e \<Rightarrow> (ir, Inl e)
           | Inr _ \<Rightarrow> run_passes passes stats ir))"

definition pass_manager_run ::
  "compiler_pass list \<Rightarrow> compiler_ir \<Rightarrow> compiler_ir \<times> (ir_error, pass_manager_stats) outcome" where
  "pass_manager_run passes ir =
     (case verify_compiler_ir ir of
        Inl e \<Rightarrow> (ir, Inl e)
      | Inr _ \<Rightarrow> run_passes passes \<lparr>pm_passes_run = 0, pm_passes_changed = 0\<rparr> ir)"

definition scale_zero_rewrite :: "unit rewrite" where
  "scale_zero_rewrite r oper =
     (case io_operation oper of
        Scale factor \<Rightarrow> (if as_f32_is factor f32_zero then Some ZerosLike else None, r)
      | _ \<Rightarrow> (None, r))"

definition rewrite_pass :: "'r rewrite \<Rightarrow> 'r \<Rightarrow> compiler_pass" where
  "rewrite_pass rewrite r ir =
     (case verify_compiler_ir ir of
        Inl e \<Rightarrow> (ir, Inl e)
      | Inr _ \<Rightarrow>
          (case apply_rewrite rewrite r ir of
             (ir', res) \<Rightarrow> (ir', try_bind res (\<lambda>(stats, _). Inr (rewrite_changed stats)))))"

definition scale_zero_pass :: compiler_pass where
  "scale_zero_pass = rewrite_pass scale_zero_rewrite ()"

section \<open>Rewriting is atomic and structural\<close>

definition rewritten :: "compiler_ir \<Rightarrow> compiler_ir \<Rightarrow> bool" where
  "rewritten ir ir' \<longleftrightarrow> length (ci_operations ir') = length (ci_operations ir) \<and>
     ir' = ir\<lparr>ci_operations := ci_operations ir'\<rparr> \<and>
     (\<forall>i < length (ci_operations ir). ci_operations ir' ! i =
        (ci_operations ir ! i)\<lparr>io_operation := io_operation (ci_operations ir' ! i)\<rparr>)"

text \<open>What a rewrite, in some state of its own, answers for an operation.\<close>

definition produced :: "'r rewrite \<Rightarrow> ir_operation \<Rightarrow> operation \<Rightarrow> bool" where
  "produced rewrite oper new \<longleftrightarrow>
     (\<exists>r r'. rewrite r oper = (Some new, r') \<or> rewrite r oper = (None, r') \<and> new = io_operation oper)"

definition replaced :: "ir_operation list \<Rightarrow> (usize \<times> operation) list \<Rightarrow> nat \<Rightarrow> operation" where
  "replaced opers reps i = (case map_of reps i of Some new \<Rightarrow> new | None \<Rightarrow> io_operation (opers ! i))"

definition collect_inv :: "'r rewrite \<Rightarrow> ir_operation list \<Rightarrow> nat \<Rightarrow> 'r collecting \<Rightarrow> bool" where
  "collect_inv rewrite opers k st \<longleftrightarrow> (case st of (stats, reps, _) \<Rightarrow>
     rs_operations_visited stats = k \<and> distinct (map fst reps) \<and> (\<forall>p \<in> set reps. fst p < k) \<and>
     (\<forall>i < k. let new = replaced opers reps i in produced rewrite (opers ! i) new \<and>
        length (io_operands (opers ! i)) = expected_arity new \<and>
        (i \<in> fst ` set reps \<longleftrightarrow> new \<noteq> io_operation (opers ! i))))"

lemma collect_inv_skip:
  assumes "collect_inv rewrite opers k (stats, reps, r0)" and "produced rewrite (opers ! k) (io_operation (opers ! k))"
    and "length (io_operands (opers ! k)) = expected_arity (io_operation (opers ! k))"
  shows "collect_inv rewrite opers (Suc k) (stats\<lparr>rs_operations_visited := rs_operations_visited stats + 1\<rparr>, reps, r)"
proof -
  have k: "k \<notin> fst ` set reps" using assms(1) by (auto simp: collect_inv_def)
  then have "map_of reps k = None" by (simp add: map_of_eq_None_iff)
  with assms k show ?thesis
    by (auto simp: collect_inv_def all_less_Suc Let_def replaced_def)
qed

lemma collect_inv_replace:
  assumes "collect_inv rewrite opers k (stats, reps, r0)" and "produced rewrite (opers ! k) new"
    and "length (io_operands (opers ! k)) = expected_arity new" and "new \<noteq> io_operation (opers ! k)"
  shows "collect_inv rewrite opers (Suc k)
    (stats\<lparr>rs_operations_visited := rs_operations_visited stats + 1\<rparr>, reps @ [(k, new)], r)"
proof -
  have k: "k \<notin> fst ` set reps" using assms(1) by (auto simp: collect_inv_def)
  then have "map_of reps k = None" by (simp add: map_of_eq_None_iff)
  then have new: "replaced opers (reps @ [(k, new)]) k = new" by (simp add: replaced_def map_add_def)
  have old: "replaced opers (reps @ [(k, new)]) i = replaced opers reps i" if "i < k" for i
    using that by (simp add: replaced_def map_add_def split: option.split)
  have dist: "distinct (map fst (reps @ [(k, new)]))"
    and lt: "\<forall>p \<in> set (reps @ [(k, new)]). fst p < Suc k"
    using assms(1) k by (auto simp: collect_inv_def)
  have "\<forall>i < k. let new' = replaced opers (reps @ [(k, new)]) i in produced rewrite (opers ! i) new' \<and>
        length (io_operands (opers ! i)) = expected_arity new' \<and>
        (i \<in> fst ` set (reps @ [(k, new)]) \<longleftrightarrow> new' \<noteq> io_operation (opers ! i))"
    using assms(1) by (auto simp: collect_inv_def Let_def old)
  with dist lt assms new show ?thesis
    by (auto simp: collect_inv_def all_less_Suc Let_def)
qed

lemma collect_rewrite_step:
  assumes "collect_inv rewrite opers k st"
    and "length (io_operands (opers ! k)) = expected_arity (io_operation (opers ! k))"
  shows "(\<exists>st'. collect_rewrite rewrite st (k, opers ! k) = Inr st' \<and> collect_inv rewrite opers (Suc k) st') \<or>
    (\<exists>i e a. collect_rewrite rewrite st (k, opers ! k) = fail (OperationArityMismatch i e a) \<and>
       (\<exists>r new r'. rewrite r (opers ! k) = (Some new, r') \<and>
          expected_arity new \<noteq> expected_arity (io_operation (opers ! k))))"
proof -
  obtain stats reps r where st: "st = (stats, reps, r)" by (cases st) auto
  obtain ans r' where ans: "rewrite r (opers ! k) = (ans, r')" by (cases "rewrite r (opers ! k)")
  note inv = assms(1) [unfolded st]
  show ?thesis
  proof (cases ans)
    case None
    then have "produced rewrite (opers ! k) (io_operation (opers ! k))" using ans by (auto simp: produced_def)
    from collect_inv_skip [OF inv this assms(2)] None ans show ?thesis
      by (simp add: collect_rewrite_def st Let_def)
  next
    case (Some new)
    then have prod: "produced rewrite (opers ! k) new" using ans by (auto simp: produced_def)
    show ?thesis
    proof (cases "new = io_operation (opers ! k)")
      case True
      with collect_inv_skip [OF inv _ assms(2)] prod Some ans show ?thesis
        by (simp add: collect_rewrite_def st Let_def)
    next
      case False
      show ?thesis
      proof (cases "expected_arity new = length (io_operands (opers ! k))")
        case True
        with collect_inv_replace [OF inv prod] False Some ans show ?thesis
          by (simp add: collect_rewrite_def st Let_def require_def)
      next
        case neq: False
        then have "expected_arity new \<noteq> expected_arity (io_operation (opers ! k))" using assms(2) by simp
        with False neq Some ans show ?thesis
          by (auto simp: collect_rewrite_def st Let_def require_def)
      qed
    qed
  qed
qed

lemma replace_operations:
  assumes "distinct (map fst reps)" and "\<forall>p \<in> set reps. fst p < length opers"
  shows "\<exists>opers'. try_fold replace_operation opers reps = Inr opers' \<and> length opers' = length opers \<and>
    (\<forall>i < length opers. opers' ! i = (opers ! i)\<lparr>io_operation := replaced opers reps i\<rparr>)"
  using assms
proof (induction reps rule: rev_induct)
  case Nil
  then show ?case by (simp add: replaced_def)
next
  case (snoc p reps)
  obtain k new where p: "p = (k, new)" by (cases p)
  from snoc.prems have prems: "distinct (map fst reps)" "\<forall>p \<in> set reps. fst p < length opers"
    and k: "k < length opers" "k \<notin> fst ` set reps" by (auto simp: p)
  from snoc.IH [OF prems] obtain opers' where opers':
    "try_fold replace_operation opers reps = Inr opers'" "length opers' = length opers"
    "\<And>i. i < length opers \<Longrightarrow> opers' ! i = (opers ! i)\<lparr>io_operation := replaced opers reps i\<rparr>"
    by blast
  have none: "map_of reps k = None" using k(2) by (simp add: map_of_eq_None_iff)
  have "replaced opers (reps @ [p]) i = (if i = k then new else replaced opers reps i)" for i
    using none by (simp add: replaced_def p map_add_def split: option.split)
  then show ?case
    using opers' k(1)
    by (intro exI [of _ "opers'[k := (opers' ! k)\<lparr>io_operation := new\<rparr>]"])
      (auto simp: p replace_operation_def [of opers' "(k, new)"] nth_list_update)
qed

lemma rewritten_wf:
  assumes "wf_ir ir" and "rewritten ir ir'"
    and "\<forall>i < length (ci_operations ir). length (io_operands (ci_operations ir ! i)) =
           expected_arity (io_operation (ci_operations ir' ! i))"
  shows "wf_ir ir'"
proof -
  have same: "ci_values ir' = ci_values ir" "ci_blocks ir' = ci_blocks ir" "ci_regions ir' = ci_regions ir"
    "ci_entry_region ir' = ci_entry_region ir" "ci_outputs ir' = ci_outputs ir"
    "length (ci_operations ir') = length (ci_operations ir)"
    using assms(2) by (auto simp: rewritten_def dest: arg_cong [of _ _ ci_values]
        arg_cong [of _ _ ci_blocks] arg_cong [of _ _ ci_regions] arg_cong [of _ _ ci_entry_region]
        arg_cong [of _ _ ci_outputs])
  have "operation_ok ir' i (ci_operations ir' ! i)" if i: "i < length (ci_operations ir)" for i
  proof -
    have eq: "ci_operations ir' ! i = (ci_operations ir ! i)\<lparr>io_operation := io_operation (ci_operations ir' ! i)\<rparr>"
      using assms(2) i by (simp add: rewritten_def)
    have "operation_ok ir i (ci_operations ir ! i)" using assms(1) i by (simp add: wf_ir_def)
    with assms(3) i same show ?thesis
      by (subst eq) (simp add: operation_ok_def)
  qed
  with assms(1) same show ?thesis by (simp add: wf_ir_def)
qed

lemma apply_rewrite_cases:
  assumes wf: "wf_ir ir"
  shows "(\<exists>ir' stats r'. apply_rewrite rewrite r ir = (ir', Inr (stats, r')) \<and> wf_ir ir' \<and> rewritten ir ir' \<and>
      rs_operations_visited stats = length (ci_operations ir) \<and>
      rs_rewrites_applied stats = card {i. i < length (ci_operations ir) \<and>
        io_operation (ci_operations ir' ! i) \<noteq> io_operation (ci_operations ir ! i)} \<and>
      (\<forall>i < length (ci_operations ir).
         produced rewrite (ci_operations ir ! i) (io_operation (ci_operations ir' ! i)))) \<or>
    (\<exists>i e a. apply_rewrite rewrite r ir = (ir, fail (OperationArityMismatch i e a)) \<and>
      (\<exists>oper r new r'. rewrite r oper = (Some new, r') \<and>
         expected_arity new \<noteq> expected_arity (io_operation oper)))"
proof -
  let ?opers = "ci_operations ir"
  let ?s0 = "(\<lparr>rs_operations_visited = 0, rs_rewrites_applied = 0\<rparr>, [], r)"
  have arity: "length (io_operands (?opers ! i)) = expected_arity (io_operation (?opers ! i))"
    if "i < length ?opers" for i
    using wf that by (simp add: wf_ir_def operation_ok_def)
  have start: "collect_inv rewrite ?opers 0 ?s0" by (simp add: collect_inv_def)
  have step: "collect_inv rewrite ?opers (Suc i) st'"
    if "i < length (enumerate 0 ?opers)" "collect_inv rewrite ?opers i st"
      "collect_rewrite rewrite st (enumerate 0 ?opers ! i) = Inr st'" for i st st'
    using collect_rewrite_step [OF that(2) arity] that(1,3) by auto
  show ?thesis
  proof (cases "try_fold (collect_rewrite rewrite) ?s0 (enumerate 0 ?opers)")
    case (Inl e)
    have "\<exists>i st. i < length (enumerate 0 ?opers) \<and> collect_inv rewrite ?opers i st \<and>
        collect_rewrite rewrite st (enumerate 0 ?opers ! i) = Inl e"
      using Inl start by (rule try_fold_Inl) (rule step)
    then obtain i st where i: "i < length ?opers" "collect_inv rewrite ?opers i st"
      "collect_rewrite rewrite st (i, ?opers ! i) = Inl e" by (auto simp del: split_paired_Ex)
    from collect_rewrite_step [OF i(2) arity [OF i(1)]] i(3)
    have "(\<exists>i n a. e = Err (OperationArityMismatch i n a)) \<and>
        (\<exists>oper r new r'. rewrite r oper = (Some new, r') \<and>
           expected_arity new \<noteq> expected_arity (io_operation oper))" by auto
    with Inl show ?thesis by (auto simp: apply_rewrite_def)
  next
    case (Inr st)
    obtain stats reps r' where st: "st = (stats, reps, r')" by (cases st) auto
    have inv: "collect_inv rewrite ?opers (length ?opers) (stats, reps, r')"
    proof -
      have "collect_inv rewrite ?opers (length (enumerate 0 ?opers)) st"
        using Inr start by (rule try_fold_invariant) (rule step)
      with st show ?thesis by simp
    qed
    have new: "produced rewrite (?opers ! i) (replaced ?opers reps i) \<and>
        length (io_operands (?opers ! i)) = expected_arity (replaced ?opers reps i) \<and>
        (i \<in> fst ` set reps \<longleftrightarrow> replaced ?opers reps i \<noteq> io_operation (?opers ! i))"
      if "i < length ?opers" for i
      using inv that by (simp add: collect_inv_def Let_def)
    have reps: "distinct (map fst reps)" "\<forall>p \<in> set reps. fst p < length ?opers"
      using inv by (simp_all add: collect_inv_def)
    from replace_operations [OF reps] obtain opers' where opers':
      "try_fold replace_operation ?opers reps = Inr opers'" "length opers' = length ?opers"
      "\<And>i. i < length ?opers \<Longrightarrow> opers' ! i = (?opers ! i)\<lparr>io_operation := replaced ?opers reps i\<rparr>"
      by blast
    let ?ir' = "ir\<lparr>ci_operations := opers'\<rparr>"
    have rew: "rewritten ir ?ir'" using opers' by (simp add: rewritten_def)
    have wf': "wf_ir ?ir'"
      by (rule rewritten_wf [OF wf rew]) (use opers' new in simp)
    have "{i. i < length ?opers \<and> io_operation (opers' ! i) \<noteq> io_operation (?opers ! i)} =
        {i. i < length ?opers \<and> i \<in> fst ` set reps}"
    proof (intro Collect_cong conj_cong refl)
      fix i assume "i < length ?opers"
      with new [of i] opers'(3) [of i]
      show "io_operation (opers' ! i) \<noteq> io_operation (?opers ! i) \<longleftrightarrow> i \<in> fst ` set reps" by simp
    qed
    also have "\<dots> = fst ` set reps" using reps(2) by auto
    finally have "{i. i < length ?opers \<and> io_operation (opers' ! i) \<noteq> io_operation (?opers ! i)} =
        fst ` set reps" .
    moreover have "card (fst ` set reps) = length reps"
      using distinct_card [OF reps(1)] by simp
    ultimately have applied: "length reps = card {i. i < length ?opers \<and>
        io_operation (opers' ! i) \<noteq> io_operation (?opers ! i)}" by simp
    have visited: "rs_operations_visited stats = length ?opers" using inv by (simp add: collect_inv_def)
    have "apply_rewrite rewrite r ir =
        (?ir', Inr (stats\<lparr>rs_rewrites_applied := length reps\<rparr>, r'))"
      using Inr st opers'(1) wf' by (simp add: apply_rewrite_def Let_def)
    with wf' rew applied visited new opers'(3) show ?thesis by auto
  qed
qed

text \<open>
  rewriting is atomic and structural, for every rewrite and whatever state it keeps: on a
  program that satisfies the SSA invariant it either fails with an arity mismatch and leaves
  the program as it was, or visits every operation and returns a program that satisfies the
  invariant again, differs from the old one in operation codes only, and whose statistics
  count exactly the operations that changed.
\<close>

theorem apply_rewrite_atomic:
  assumes "verify_compiler_ir ir = Inr ()"
  shows "case apply_rewrite rewrite r ir of
      (ir', Inl f) \<Rightarrow> ir' = ir \<and> (\<exists>i e a. f = Err (OperationArityMismatch i e a))
    | (ir', Inr (stats, _)) \<Rightarrow>
        verify_compiler_ir ir' = Inr () \<and> rewritten ir ir' \<and>
        rs_operations_visited stats = length (ci_operations ir) \<and>
        rs_rewrites_applied stats = card {i. i < length (ci_operations ir) \<and>
          io_operation (ci_operations ir' ! i) \<noteq> io_operation (ci_operations ir ! i)}"
proof -
  have "wf_ir ir" using assms by (simp add: verify_iff_wf)
  from apply_rewrite_cases [OF this, of rewrite r] show ?thesis by (elim disjE exE conjE) simp_all
qed

section \<open>The contracts of rewrites and passes\<close>

text \<open>
  The class of storage a value gets is decided by its operation; memory plans survive a pass
  that keeps it.
\<close>

definition same_storage :: "operation \<Rightarrow> operation \<Rightarrow> bool" where
  "same_storage a b \<longleftrightarrow> storage_matches a = storage_matches b"

definition retyped :: "compiler_ir \<Rightarrow> compiler_ir \<Rightarrow> bool" where
  "retyped ir ir' \<longleftrightarrow> rewritten ir ir' \<and>
     (\<forall>i < length (ci_operations ir).
        same_storage (io_operation (ci_operations ir' ! i)) (io_operation (ci_operations ir ! i)))"

definition pass_ok :: "compiler_pass \<Rightarrow> bool" where
  "pass_ok pass \<longleftrightarrow> (\<forall>ir. wf_ir ir \<longrightarrow>
     (\<exists>ir' changed. pass ir = (ir', Inr changed) \<and> wf_ir ir' \<and> retyped ir ir' \<and> (changed \<longleftrightarrow> ir' \<noteq> ir)))"

lemma retyped_refl [simp]: "retyped ir ir"
  by (simp add: retyped_def rewritten_def same_storage_def)

lemma rewritten_trans: "rewritten a b \<Longrightarrow> rewritten b c \<Longrightarrow> rewritten a c"
proof -
  assume ab: "rewritten a b" and bc: "rewritten b c"
  have "c = a\<lparr>ci_operations := ci_operations c\<rparr>"
    using ab bc unfolding rewritten_def by (metis compiler_ir.surjective compiler_ir.update_convs(2))
  moreover have "ci_operations c ! i = (ci_operations a ! i)\<lparr>io_operation := io_operation (ci_operations c ! i)\<rparr>"
    if "i < length (ci_operations a)" for i
    using ab bc that unfolding rewritten_def
    by (metis ir_operation.surjective ir_operation.update_convs(3))
  ultimately show "rewritten a c" using ab bc unfolding rewritten_def by metis
qed

lemma retyped_trans: "retyped a b \<Longrightarrow> retyped b c \<Longrightarrow> retyped a c"
  using rewritten_trans unfolding retyped_def same_storage_def by (metis rewritten_def)

lemma rewritten_eq:
  assumes "rewritten ir ir'"
    and "\<forall>i < length (ci_operations ir). io_operation (ci_operations ir' ! i) = io_operation (ci_operations ir ! i)"
  shows "ir' = ir"
proof -
  have "ci_operations ir' = ci_operations ir"
    using assms by (intro nth_equalityI) (auto simp: rewritten_def)
  with assms(1) show ?thesis unfolding rewritten_def by (metis compiler_ir.surjective compiler_ir.update_convs(2))
qed

text \<open>A pass that keeps the contract, and what a pipeline of it does.\<close>

locale structural_pass =
  fixes pass :: compiler_pass
  assumes keeps: "pass_ok pass"
begin

lemma run_total:
  assumes "wf_ir ir"
  obtains ir' changed where "pass ir = (ir', Inr changed)" "wf_ir ir'" "retyped ir ir'" "changed \<longleftrightarrow> ir' \<noteq> ir"
  using keeps assms unfolding pass_ok_def by blast

lemma run_identity: "wf_ir ir \<Longrightarrow> pass ir = (ir, Inr False) \<or> (\<exists>ir'. ir' \<noteq> ir \<and> pass ir = (ir', Inr True))"
  by (rule run_total) (assumption, auto)

end

locale structural_rewrite =
  fixes rewrite :: "'r rewrite"
  assumes keeps_arity: "rewrite r oper = (Some new, r') \<Longrightarrow> expected_arity new = expected_arity (io_operation oper)"
    and keeps_storage: "rewrite r oper = (Some new, r') \<Longrightarrow> same_storage new (io_operation oper)"
begin

lemma produced_storage: "produced rewrite oper new \<Longrightarrow> same_storage new (io_operation oper)"
  unfolding produced_def using keeps_storage by (auto simp: same_storage_def)

lemma apply_total:
  assumes "wf_ir ir"
  obtains ir' stats r' where "apply_rewrite rewrite r ir = (ir', Inr (stats, r'))" "wf_ir ir'"
    "retyped ir ir'" "rewrite_changed stats \<longleftrightarrow> ir' \<noteq> ir"
    "\<forall>i < length (ci_operations ir).
       produced rewrite (ci_operations ir ! i) (io_operation (ci_operations ir' ! i))"
proof -
  from apply_rewrite_cases [OF assms, of rewrite r] obtain ir' stats r' where
    run: "apply_rewrite rewrite r ir = (ir', Inr (stats, r'))" and wf: "wf_ir ir'" and rew: "rewritten ir ir'"
    and applied: "rs_rewrites_applied stats = card {i. i < length (ci_operations ir) \<and>
        io_operation (ci_operations ir' ! i) \<noteq> io_operation (ci_operations ir ! i)}"
    and prod: "\<forall>i < length (ci_operations ir).
       produced rewrite (ci_operations ir ! i) (io_operation (ci_operations ir' ! i))"
    using keeps_arity by blast
  have "rs_rewrites_applied stats = 0 \<longleftrightarrow> ir' = ir"
    using rewritten_eq [OF rew] by (auto simp: applied)
  then have "rewrite_changed stats \<longleftrightarrow> ir' \<noteq> ir" by (simp add: rewrite_changed_def)
  moreover have "retyped ir ir'" using rew prod produced_storage by (simp add: retyped_def)
  ultimately show ?thesis using run wf prod that by blast
qed

lemma rewrite_pass_ok: "pass_ok (rewrite_pass rewrite r)"
  unfolding pass_ok_def
proof (intro allI impI)
  fix ir assume wf: "wf_ir ir"
  from apply_total [OF wf, of r] obtain ir' stats r' where
    "apply_rewrite rewrite r ir = (ir', Inr (stats, r'))" "wf_ir ir'" "retyped ir ir'"
    "rewrite_changed stats \<longleftrightarrow> ir' \<noteq> ir" by metis
  with wf show "\<exists>ir' changed. rewrite_pass rewrite r ir = (ir', Inr changed) \<and> wf_ir ir' \<and>
      retyped ir ir' \<and> (changed \<longleftrightarrow> ir' \<noteq> ir)"
    by (simp add: rewrite_pass_def)
qed

end

sublocale structural_rewrite \<subseteq> rewriting: structural_pass "rewrite_pass rewrite r" for r
  by unfold_locales (rule rewrite_pass_ok)

interpretation scale_zero: structural_rewrite scale_zero_rewrite
proof unfold_locales
  show "expected_arity new = expected_arity (io_operation oper)"
    if "scale_zero_rewrite r oper = (Some new, r')" for r oper new r'
    using that by (auto simp: scale_zero_rewrite_def split: operation.splits if_splits)
  show "same_storage new (io_operation oper)"
    if "scale_zero_rewrite r oper = (Some new, r')" for r oper new r'
    using that by (auto simp: scale_zero_rewrite_def same_storage_def storage_matches_def
        fun_eq_iff split: operation.splits if_splits)
qed

interpretation scale_zero_step: structural_pass scale_zero_pass
  unfolding scale_zero_pass_def by unfold_locales (rule scale_zero.rewrite_pass_ok)

section \<open>The canonicalization pass and the pass manager\<close>

definition is_scale_zero :: "operation \<Rightarrow> bool" where
  "is_scale_zero oper \<longleftrightarrow> (case oper of Scale factor \<Rightarrow> as_f32_is factor f32_zero | _ \<Rightarrow> False)"

lemma produced_scale_zero:
  "produced scale_zero_rewrite oper new \<longleftrightarrow>
     new = (if is_scale_zero (io_operation oper) then ZerosLike else io_operation oper)"
  by (auto simp: produced_def scale_zero_rewrite_def is_scale_zero_def split: operation.split)

text \<open>
  the zero-scaling canonicalization is total on programs that satisfy the SSA invariant and
  does exactly its job: it replaces every multiplication by a zero scalar by \<open>ZerosLike\<close> and
  nothing else, reports a change exactly when there was one, and is idempotent.
\<close>

theorem scale_zero_pass_exact:
  assumes "verify_compiler_ir ir = Inr ()"
  shows "\<exists>ir' changed. scale_zero_pass ir = (ir', Inr changed) \<and>
     ci_operations ir' = map (\<lambda>oper. if is_scale_zero (io_operation oper)
        then oper\<lparr>io_operation := ZerosLike\<rparr> else oper) (ci_operations ir) \<and>
     ir' = ir\<lparr>ci_operations := ci_operations ir'\<rparr> \<and>
     (changed \<longleftrightarrow> (\<exists>oper \<in> set (ci_operations ir). is_scale_zero (io_operation oper))) \<and>
     scale_zero_pass ir' = (ir', Inr False)"
proof -
  have wf: "wf_ir ir" using assms by (simp add: verify_iff_wf)
  let ?f = "\<lambda>oper. if is_scale_zero (io_operation oper) then oper\<lparr>io_operation := ZerosLike\<rparr> else oper"
  have pass: "\<exists>ir'. scale_zero_pass ir = (ir', Inr (ir' \<noteq> ir)) \<and> wf_ir ir' \<and>
      ci_operations ir' = map ?f (ci_operations ir) \<and> ir' = ir\<lparr>ci_operations := ci_operations ir'\<rparr>"
    if wf: "wf_ir ir" for ir
  proof -
    from scale_zero.apply_total [OF wf, of "()"] obtain ir' stats r' where
      run: "apply_rewrite scale_zero_rewrite () ir = (ir', Inr (stats, r'))" "wf_ir ir'" "retyped ir ir'"
        "rewrite_changed stats \<longleftrightarrow> ir' \<noteq> ir"
      and prod: "\<forall>i < length (ci_operations ir).
         produced scale_zero_rewrite (ci_operations ir ! i) (io_operation (ci_operations ir' ! i))"
      by metis
    have rew: "rewritten ir ir'" using run(3) by (simp add: retyped_def)
    have "ci_operations ir' ! i = ?f (ci_operations ir ! i)" if i: "i < length (ci_operations ir)" for i
    proof -
      have "ci_operations ir' ! i = (ci_operations ir ! i)\<lparr>io_operation := io_operation (ci_operations ir' ! i)\<rparr>"
        using rew i by (simp add: rewritten_def)
      also have "\<dots> = ?f (ci_operations ir ! i)"
        using prod i by (simp add: produced_scale_zero)
      finally show ?thesis .
    qed
    then have "ci_operations ir' = map ?f (ci_operations ir)"
      using rew by (intro nth_equalityI) (simp_all add: rewritten_def)
    with run wf rew show ?thesis
      by (auto simp: scale_zero_pass_def rewrite_pass_def rewritten_def)
  qed
  have idle: "is_scale_zero (io_operation (?f oper)) = False" for oper
    by (simp add: is_scale_zero_def)
  from pass [OF wf] obtain ir' where ir': "scale_zero_pass ir = (ir', Inr (ir' \<noteq> ir))" "wf_ir ir'"
    "ci_operations ir' = map ?f (ci_operations ir)" "ir' = ir\<lparr>ci_operations := ci_operations ir'\<rparr>" by blast
  from pass [OF ir'(2)] obtain ir2 where ir2: "scale_zero_pass ir' = (ir2, Inr (ir2 \<noteq> ir'))"
    "ci_operations ir2 = map ?f (ci_operations ir')" "ir2 = ir'\<lparr>ci_operations := ci_operations ir2\<rparr>" by blast
  have "map ?f (ci_operations ir') = ci_operations ir'"
    unfolding ir'(3) by (simp only: list.map_comp comp_def idle if_False)
  with ir2 have "ir2 = ir'" by (metis compiler_ir.surjective compiler_ir.update_convs(2))
  moreover have "ir' \<noteq> ir \<longleftrightarrow> (\<exists>oper \<in> set (ci_operations ir). is_scale_zero (io_operation oper))"
  proof -
    have changed: "?f oper = oper \<longleftrightarrow> \<not> is_scale_zero (io_operation oper)" for oper
    proof (cases "is_scale_zero (io_operation oper)")
      case True
      then have "io_operation oper \<noteq> ZerosLike" by (auto simp: is_scale_zero_def)
      then have "oper\<lparr>io_operation := ZerosLike\<rparr> \<noteq> oper"
        by (metis ir_operation.select_convs(3) ir_operation.surjective ir_operation.update_convs(3))
      with True show ?thesis by simp
    qed simp
    have "ir' = ir \<longleftrightarrow> ci_operations ir' = ci_operations ir"
      using ir'(4) by (metis compiler_ir.surjective compiler_ir.update_convs(2))
    moreover have "map ?f opers = opers \<longleftrightarrow> (\<forall>oper \<in> set opers. ?f oper = oper)" for opers
      by (induction opers) (simp_all only: list.map list.inject list.set ball_simps simp_thms)
    ultimately show ?thesis unfolding ir'(3) using changed by blast
  qed
  ultimately show ?thesis using ir' ir2 by auto
qed

lemma run_passes_ok:
  assumes "list_all pass_ok passes" and "wf_ir ir"
  shows "\<exists>ir' stats'. run_passes passes stats ir = (ir', Inr stats') \<and> wf_ir ir' \<and> retyped ir ir' \<and>
    pm_passes_run stats' = pm_passes_run stats + length passes \<and>
    pm_passes_changed stats' \<le> pm_passes_changed stats + length passes"
  using assms
proof (induction passes arbitrary: stats ir)
  case Nil
  then show ?case by simp
next
  case (Cons pass passes)
  from Cons.prems obtain ir1 changed where
    ir1: "pass ir = (ir1, Inr changed)" "wf_ir ir1" "retyped ir ir1"
    unfolding list_all_iff pass_ok_def by (metis list.set_intros(1))
  let ?stats = "stats\<lparr>pm_passes_run := pm_passes_run stats + 1,
      pm_passes_changed := pm_passes_changed stats + (if changed then 1 else 0)\<rparr>"
  have "list_all pass_ok passes" using Cons.prems by simp
  from Cons.IH [OF this ir1(2), of ?stats] obtain ir' stats' where
    rest: "run_passes passes ?stats ir1 = (ir', Inr stats')" "wf_ir ir'" "retyped ir1 ir'"
    "pm_passes_run stats' = pm_passes_run ?stats + length passes"
    "pm_passes_changed stats' \<le> pm_passes_changed ?stats + length passes" by blast
  have "run_passes (pass # passes) stats ir = run_passes passes ?stats ir1"
    using ir1 by simp
  with rest retyped_trans [OF ir1(3) rest(3)] show ?case by (auto split: if_splits)
qed

lemma pass_manager_run_ok:
  assumes "list_all pass_ok passes" and "wf_ir ir"
  shows "\<exists>ir' stats'. pass_manager_run passes ir = (ir', Inr stats') \<and> wf_ir ir' \<and> retyped ir ir' \<and>
    pm_passes_run stats' = length passes \<and> pm_passes_changed stats' \<le> length passes"
  using run_passes_ok [OF assms, of "\<lparr>pm_passes_run = 0, pm_passes_changed = 0\<rparr>"] assms(2)
  by (simp add: pass_manager_run_def)

text \<open>
  whatever the passes do, a pipeline that reports success leaves a program that satisfies
  the SSA invariant, has run every pass once, and counts at most that many changes; a program
  that violates the invariant is left as it was, and the empty pipeline fails on no other.
\<close>

theorem pass_manager_run_verified:
  "case pass_manager_run passes ir of
     (ir', Inr stats) \<Rightarrow> wf_ir ir' \<and> pm_passes_run stats = length passes \<and>
       pm_passes_changed stats \<le> length passes
   | (ir', Inl f) \<Rightarrow> if wf_ir ir then passes \<noteq> [] else ir' = ir"
proof -
  have run: "wf_ir ir' \<and> pm_passes_run stats' = pm_passes_run stats + length passes \<and>
      pm_passes_changed stats' \<le> pm_passes_changed stats + length passes"
    if "run_passes passes stats ir = (ir', Inr stats')" "wf_ir ir" for passes stats ir ir' stats'
    using that
  proof (induction passes arbitrary: stats ir)
    case (Cons pass passes)
    from Cons.prems obtain ir1 changed where pass: "pass ir = (ir1, Inr changed)"
      by (auto split: prod.splits sum.splits)
    with Cons.prems(1) have wf1: "wf_ir ir1"
      by (cases "verify_compiler_ir ir1") (simp_all add: Let_def verify_iff_wf)
    have "run_passes passes (stats\<lparr>pm_passes_run := pm_passes_run stats + 1,
        pm_passes_changed := pm_passes_changed stats + (if changed then 1 else 0)\<rparr>) ir1 = (ir', Inr stats')"
      using pass Cons.prems(1) wf1 by (simp add: Let_def split: if_splits)
    from Cons.IH [OF this wf1] show ?case by (auto split: if_splits)
  qed simp
  show ?thesis
  proof (cases "verify_compiler_ir ir")
    case (Inl e)
    then show ?thesis using wf_verify [of ir] by (cases "wf_ir ir") (auto simp: pass_manager_run_def)
  next
    case (Inr u)
    then have wf: "wf_ir ir" by (simp add: verify_iff_wf)
    let ?s0 = "\<lparr>pm_passes_run = 0, pm_passes_changed = 0\<rparr>"
    have eq: "pass_manager_run passes ir = run_passes passes ?s0 ir"
      using Inr by (simp add: pass_manager_run_def)
    obtain ir' res where res: "run_passes passes ?s0 ir = (ir', res)" by (metis surj_pair)
    show ?thesis
    proof (cases res)
      case (Inl e)
      with res have "passes \<noteq> []" by (cases passes) simp_all
      with eq res Inl wf show ?thesis by simp
    next
      case (Inr stats)
      with run [of passes ?s0 ir, OF _ wf] res eq show ?thesis by simp
    qed
  qed
qed

section \<open>A concrete program\<close>

text \<open>\<open>x\<close> and \<open>x * 0\<close>, the second one the output.\<close>

definition example_ir :: compiler_ir where
  "example_ir =
     \<lparr>ci_values =
        [\<lparr>iv_id = 0, iv_canonical_node = 0, iv_tensor_type = matrix_type, iv_defining_operation = 0\<rparr>,
         \<lparr>iv_id = 1, iv_canonical_node = 1, iv_tensor_type = matrix_type, iv_defining_operation = 1\<rparr>],
      ci_operations =
        [\<lparr>io_id = 0, io_canonical_node = 0, io_operation = Input ''x'', io_operands = [], io_result = 0\<rparr>,
         \<lparr>io_id = 1, io_canonical_node = 1, io_operation = Scale (scalar_f32 f32_zero),
          io_operands = [0], io_result = 1\<rparr>],
      ci_blocks = [\<lparr>ib_id = 0, ib_operations = [0, 1]\<rparr>],
      ci_regions = [\<lparr>ig_id = 0, ig_blocks = [0]\<rparr>],
      ci_entry_region = 0, ci_outputs = [1]\<rparr>"

lemma example_ir_ok: "verify_compiler_ir example_ir = Inr ()"
proof (rule wf_verify)
  show "wf_ir example_ir"
    by (simp add: wf_ir_def operation_ok_def example_ir_def all_less_Suc)
qed

theorem linear_liveness_exact_witness:
  "lr_definition (linear_liveness example_ir ! 0) = 0 \<and>
   lr_last_operation_use (linear_liveness example_ir ! 0) = Some 1 \<and>
   \<not> lr_live_out (linear_liveness example_ir ! 0)"
proof -
  have "0 < length (ci_values example_ir)" by (simp add: example_ir_def)
  note live = linear_liveness_exact [OF example_ir_ok this]
  have "{i. i < length (ci_operations example_ir) \<and> 0 \<in> set (io_operands (ci_operations example_ir ! i))} = {1}"
    by (auto simp: example_ir_def less_Suc_eq)
  note live = live [unfolded Let_def this]
  have "iv_defining_operation (ci_values example_ir ! 0) = 0" "0 \<notin> set (ci_outputs example_ir)"
    by (simp_all add: example_ir_def)
  with live show ?thesis by simp
qed

theorem apply_rewrite_atomic_witness:
  "verify_compiler_ir (fst (apply_rewrite scale_zero_rewrite () example_ir)) = Inr ()"
  using apply_rewrite_atomic [OF example_ir_ok, of scale_zero_rewrite "()"] example_ir_ok
  by (cases "apply_rewrite scale_zero_rewrite () example_ir";
      cases "snd (apply_rewrite scale_zero_rewrite () example_ir)") auto

theorem scale_zero_pass_exact_witness:
  "\<exists>ir'. scale_zero_pass example_ir = (ir', Inr True) \<and> scale_zero_pass ir' = (ir', Inr False) \<and>
     map io_operation (ci_operations ir') = [Input ''x'', ZerosLike]"
proof -
  from scale_zero_pass_exact [OF example_ir_ok] obtain ir' changed where
    ir': "scale_zero_pass example_ir = (ir', Inr changed)" "scale_zero_pass ir' = (ir', Inr False)"
    "ci_operations ir' = map (\<lambda>oper. if is_scale_zero (io_operation oper)
        then oper\<lparr>io_operation := ZerosLike\<rparr> else oper) (ci_operations example_ir)"
    "changed \<longleftrightarrow> (\<exists>oper \<in> set (ci_operations example_ir). is_scale_zero (io_operation oper))" by blast
  have "is_scale_zero (Scale (scalar_f32 f32_zero))" "\<not> is_scale_zero (Input ''x'')"
    by (simp_all add: is_scale_zero_def as_f32_is_def f32_eq_def f32_is_nan_def f32_is_zero_def)
  then have "changed" "map io_operation (ci_operations ir') = [Input ''x'', ZerosLike]"
    using ir'(3,4) by (simp_all add: example_ir_def)
  with ir' show ?thesis by simp
qed

end
