(* ===== verification/IR_Memory.thy ===== *)
theory IR_Memory
  imports IR_Passes
begin

text \<open>
  Buffer planning from the SSA program (\<open>MemoryPlan::from_compiler_ir\<close> in \<open>memory.rs\<close>): the
  lifetimes come from linear liveness instead of the table of last uses. The theorem is that
  it computes the same plan as \<open>MemoryPlan::build\<close>, so that the safety of the one carries over.
\<close>

section \<open>The planner\<close>

type_synonym active_value = "buffer_slot \<times> nat \<times> bool"

record ir_plan_state =
  ips_allocations :: "value_allocation list"
  ips_slots :: "buffer_slot_spec list"
  ips_free :: "buffer_slot list"
  ips_active :: "active_value bt_map"
  ips_peak :: usize

definition ir_plan_start :: ir_plan_state where
  "ir_plan_start = \<lparr>ips_allocations = [], ips_slots = [], ips_free = [], ips_active = [], ips_peak = 0\<rparr>"

definition ir_release :: "ir_plan_state \<Rightarrow> ir_value_id \<Rightarrow> ir_plan_state" where
  "ir_release st v = (case bt_get (ips_active st) v of
       None \<Rightarrow> st
     | Some (slot, _, _) \<Rightarrow>
         st\<lparr>ips_active := bt_remove v (ips_active st), ips_free := ips_free st @ [slot]\<rparr>)"

definition ir_retire :: "nat \<Rightarrow> ir_plan_state \<Rightarrow> ir_plan_state" where
  "ir_retire step st =
     (let retired = map fst (filter (\<lambda>(v, _, final, live_out). \<not> live_out \<and> final < step) (ips_active st));
          st' = foldl ir_release st retired in
      st'\<lparr>ips_free := sort (ips_free st')\<rparr>)"

definition ir_take_slot ::
  "ir_plan_state \<Rightarrow> tensor_type \<Rightarrow> (ir_error, ir_plan_state \<times> buffer_slot) outcome" where
  "ir_take_slot st ty =
     try_bind (find_compatible (ips_slots st) ty (ips_free st)) (\<lambda>compatible.
       case compatible of
         Some position \<Rightarrow>
           try_bind (idx (ips_free st) position) (\<lambda>slot.
           Inr (st\<lparr>ips_free := take position (ips_free st) @ drop (Suc position) (ips_free st)\<rparr>, slot))
       | None \<Rightarrow>
           (let slot = length (ips_slots st) in
            Inr (st\<lparr>ips_slots := ips_slots st @ [\<lparr>bs_slot = slot, bs_tensor_type = ty\<rparr>]\<rparr>, slot)))"

definition ir_assign_storage ::
  "live_range list \<Rightarrow> ir_plan_state \<Rightarrow> ir_operation \<Rightarrow> ir_value
     \<Rightarrow> (ir_error, ir_plan_state \<times> value_storage) outcome" where
  "ir_assign_storage liveness st oper result =
     (case io_operation oper of
        Input _ \<Rightarrow> Inr (st, ExternalInput)
      | Constant _ \<Rightarrow> Inr (st, ExternalConstant)
      | _ \<Rightarrow>
          try_bind (ir_take_slot st (iv_tensor_type result)) (\<lambda>(st, slot).
          try_bind (ok_or (InvalidValue (io_id oper) (io_result oper)) (get liveness (io_result oper)))
            (\<lambda>range.
          let final = (case lr_last_operation_use range of Some i \<Rightarrow> i | None \<Rightarrow> lr_definition range);
              active = bt_insert (io_result oper) (slot, final, lr_live_out range) (ips_active st) in
          Inr (st\<lparr>ips_active := active, ips_peak := max (ips_peak st) (length active)\<rparr>, Buffer slot))))"

definition ir_plan_step ::
  "compiler_ir \<Rightarrow> live_range list \<Rightarrow> ir_plan_state \<Rightarrow> ir_operation \<Rightarrow> (ir_error, ir_plan_state) outcome"
where
  "ir_plan_step ir liveness st oper =
     (let st = ir_retire (io_id oper) st in
      try_bind (ok_or (InvalidValue (io_id oper) (io_result oper)) (ir_value_at ir (io_result oper)))
        (\<lambda>result.
      try_bind (ir_assign_storage liveness st oper result) (\<lambda>(st, storage).
      Inr (st\<lparr>ips_allocations := ips_allocations st @
                [\<lparr>va_node = iv_canonical_node result, va_storage = storage\<rparr>]\<rparr>))))"

definition memory_from_compiler_ir :: "compiler_ir \<Rightarrow> (ir_error, memory_plan) outcome" where
  "memory_from_compiler_ir ir =
     try_bind (verify_compiler_ir ir) (\<lambda>_.
     let liveness = linear_liveness ir in
     try_bind (try_fold (ir_plan_step ir liveness) ir_plan_start (ci_operations ir)) (\<lambda>st.
     Inr \<lparr>mp_allocations = ips_allocations st, mp_slots = ips_slots st,
          mp_peak_live_buffers = ips_peak st\<rparr>))"

section \<open>Ordered maps under a monotone renaming of keys\<close>

definition rekey :: "(nat \<Rightarrow> nat) \<Rightarrow> ('a \<Rightarrow> 'b) \<Rightarrow> 'a bt_map \<Rightarrow> 'b bt_map" where
  "rekey f h m = map (\<lambda>(k, x). (f k, h x)) m"

lemma length_rekey [simp]: "length (rekey f h m) = length m"
  by (simp add: rekey_def)

lemma rekey_get:
  "\<forall>k \<in> fst ` set m. f v = f k \<longleftrightarrow> v = k \<Longrightarrow> bt_get (rekey f h m) (f v) = map_option h (bt_get m v)"
proof (induction m)
  case (Cons p m)
  obtain k y where p: "p = (k, y)" by (cases p)
  have "bt_get (rekey f h m) (f v) = map_option h (bt_get m v)" using Cons by simp
  with Cons.prems show ?case by (simp add: p rekey_def)
qed (simp add: rekey_def)

lemma rekey_insert:
  "\<forall>k \<in> fst ` set m. (f v < f k \<longleftrightarrow> v < k) \<and> (f v = f k \<longleftrightarrow> v = k) \<Longrightarrow>
     bt_insert (f v) (h x) (rekey f h m) = rekey f h (bt_insert v x m)"
proof (induction m)
  case (Cons p m)
  obtain k y where p: "p = (k, y)" by (cases p)
  have "bt_insert (f v) (h x) (rekey f h m) = rekey f h (bt_insert v x m)"
    using Cons by simp
  with Cons.prems show ?case by (simp add: p rekey_def)
qed (simp add: rekey_def)

lemma rekey_remove:
  "\<forall>k \<in> fst ` set m. f v = f k \<longleftrightarrow> v = k \<Longrightarrow> bt_remove (f v) (rekey f h m) = rekey f h (bt_remove v m)"
  unfolding bt_remove_def rekey_def by (induction m) auto

section \<open>When a value dies\<close>

text \<open>A bound on what a table of last uses says of a node.\<close>

definition bounded :: "(node_id \<rightharpoonup> usize) \<Rightarrow> node_id \<Rightarrow> usize \<Rightarrow> bool" where
  "bounded lu n t \<longleftrightarrow> (\<forall>u. lu n = Some u \<longrightarrow> u < t)"

lemma bounded_note_use:
  "bounded (note_use step lu m) n t \<longleftrightarrow> bounded lu n t \<and> (n = m \<longrightarrow> step < t)"
  by (auto simp: bounded_def note_use_def split: option.splits)

lemma bounded_note_uses:
  "bounded (foldl (note_use step) lu ms) n t \<longleftrightarrow> bounded lu n t \<and> (n \<in> set ms \<longrightarrow> step < t)"
  by (induction ms arbitrary: lu) (auto simp: bounded_note_use)

lemma bounded_define:
  "m \<notin> dom lu \<Longrightarrow> bounded (define_value lu step m) n t \<longleftrightarrow> bounded lu n t \<and> (n = m \<longrightarrow> step < t)"
  by (auto simp: bounded_def define_value_def split: option.splits)

lemma bounded_instructions:
  assumes sched: "schedule_ok xs outs" and "k \<le> length xs"
  shows "bounded (foldl note_instruction Map.empty (take k (enumerate 0 xs))) n t \<longleftrightarrow>
    (\<forall>i < k. n = ins_id (xs ! i) \<or> n \<in> set (ins_inputs (xs ! i)) \<longrightarrow> i < t)"
  using assms(2)
proof (induction k)
  case 0
  then show ?case by (simp add: bounded_def)
next
  case (Suc k)
  let ?lu = "foldl note_instruction Map.empty (take k (enumerate 0 xs))"
  have k: "k < length xs" using Suc.prems by simp
  have "dom ?lu = ins_id ` set (take k xs)"
    using note_instructions [OF sched, of k] k by (simp add: Let_def)
  moreover have "ins_id (xs ! k) \<notin> ins_id ` set (take k xs)"
  proof
    assume "ins_id (xs ! k) \<in> ins_id ` set (take k xs)"
    then obtain i where "i < k" "ins_id (xs ! i) = ins_id (xs ! k)" by (auto simp: in_set_conv_nth)
    with sched k show False by (auto simp: schedule_ok_def distinct_conv_nth)
  qed
  ultimately have new: "ins_id (xs ! k) \<notin> dom ?lu" by simp
  have step: "foldl note_instruction Map.empty (take (Suc k) (enumerate 0 xs)) =
      foldl (note_use k) (define_value ?lu k (ins_id (xs ! k))) (ins_inputs (xs ! k))"
    using k by (simp add: take_Suc_conv_app_nth note_instruction_def)
  show ?case
    unfolding step bounded_note_uses bounded_define [OF new]
    using Suc.IH k by (auto simp: all_less_Suc)
qed

lemma bounded_last_uses:
  assumes "schedule_ok xs outs"
  shows "bounded (last_uses xs outs) n t \<longleftrightarrow>
    (\<forall>i < length xs. n = ins_id (xs ! i) \<or> n \<in> set (ins_inputs (xs ! i)) \<longrightarrow> i < t) \<and>
    (n \<in> set outs \<longrightarrow> length xs - 1 < t)"
  using bounded_instructions [OF assms order_refl, of n t]
  by (simp add: last_uses_def bounded_note_uses)

section \<open>The two planners run in lock step\<close>

lemma try_fold_sim:
  assumes "try_fold f s xs = Inr t" and "R 0 s s'" and "length ys = length xs"
    and "\<And>i u u' v. i < length xs \<Longrightarrow> R i u u' \<Longrightarrow> f u (xs ! i) = Inr v \<Longrightarrow>
           \<exists>v'. g u' (ys ! i) = Inr v' \<and> R (Suc i) v v'"
  shows "\<exists>t'. try_fold g s' ys = Inr t' \<and> R (length xs) t t'"
  using assms
proof (induction xs arbitrary: t ys rule: rev_induct)
  case Nil
  then show ?case by simp
next
  case (snoc x xs)
  obtain zs y where ys: "ys = zs @ [y]" using snoc.prems(3) by (cases ys rule: rev_cases) auto
  then have len: "length zs = length xs" using snoc.prems(3) by simp
  from snoc.prems(1) obtain u where u: "try_fold f s xs = Inr u" "f u x = Inr t" by (auto simp: outcome_simps)
  have "\<exists>u'. try_fold g s' zs = Inr u' \<and> R (length xs) u u'"
  proof (rule snoc.IH [OF u(1) snoc.prems(2) len])
    fix i v v' w assume "i < length xs" "R i v v'" "f v (xs ! i) = Inr w"
    with snoc.prems(4) [of i v v' w] show "\<exists>w'. g v' (zs ! i) = Inr w' \<and> R (Suc i) w w'"
      by (simp add: nth_append ys len)
  qed
  then obtain u' where u': "try_fold g s' zs = Inr u'" "R (length xs) u u'" by blast
  with snoc.prems(4) [of "length xs" u u' t] u(2) show ?case by (auto simp: ys nth_append len)
qed

definition node_of :: "instruction list \<Rightarrow> ir_value_id \<Rightarrow> node_id" where
  "node_of xs v = ins_id (xs ! v)"

text \<open>The last step at which a value is used, as the planner reads it from its live range.\<close>

definition final_use :: "compiler_ir \<Rightarrow> ir_value_id \<Rightarrow> nat" where
  "final_use ir v = (case last_use_among (ci_operations ir) v of Some i \<Rightarrow> i | None \<Rightarrow> v)"

definition scheduled :: "instruction list \<Rightarrow> node_id list \<Rightarrow> compiler_ir \<Rightarrow> bool" where
  "scheduled xs outs ir \<longleftrightarrow> schedule_ok xs outs \<and> built_program xs outs ir \<and>
     sorted_wrt (<) (map ins_id xs)"

lemma node_of_mono:
  assumes "scheduled xs outs ir" and "v < length xs" and "w < length xs"
  shows "(node_of xs v < node_of xs w \<longleftrightarrow> v < w) \<and> (node_of xs v = node_of xs w \<longleftrightarrow> v = w)"
proof -
  have "node_of xs i < node_of xs j" if "i < j" "j < length xs" for i j
    using assms(1) that by (simp add: scheduled_def node_of_def sorted_wrt_iff_nth_less)
  from this [of v w] this [of w v] assms(2,3) show ?thesis by (cases v w rule: linorder_cases) auto
qed

lemma live_range_of:
  assumes "scheduled xs outs ir" and "v < length xs"
  shows "linear_liveness ir ! v =
    \<lparr>lr_definition = v, lr_last_operation_use = last_use_among (ci_operations ir) v,
     lr_live_out = (v \<in> set (ci_outputs ir))\<rparr> \<and> v < length (linear_liveness ir)"
  using assms linear_liveness_nth [of ir] by (simp add: scheduled_def built_program_def value_of_def)

lemma last_use_among_user:
  "last_use_among opers v = Some i \<Longrightarrow> \<exists>oper \<in> set opers. io_id oper = i \<and> v \<in> set (io_operands oper)"
  by (induction opers) (auto split: option.splits if_splits)

lemma operand_input:
  assumes "scheduled xs outs ir" and "i < length xs" and "v < length xs"
  shows "node_of xs v \<in> set (ins_inputs (xs ! i)) \<longleftrightarrow> v \<in> set (io_operands (ci_operations ir ! i))"
proof -
  let ?vs = "io_operands (ci_operations ir ! i)"
  have vs: "\<forall>w \<in> set ?vs. w < i" "ins_inputs (xs ! i) = map (node_of xs) ?vs"
    using assms(1,2) by (simp_all add: scheduled_def built_program_def imported_def node_of_def [abs_def])
  then have "\<forall>w \<in> set ?vs. node_of xs v = node_of xs w \<longleftrightarrow> v = w"
    using node_of_mono [OF assms(1,3)] assms(2) by (meson less_trans)
  with vs(2) show ?thesis by auto
qed

lemma output_value:
  assumes "scheduled xs outs ir" and "v < length xs"
  shows "node_of xs v \<in> set outs \<longleftrightarrow> v \<in> set (ci_outputs ir)"
proof -
  have vs: "\<forall>w \<in> set (ci_outputs ir). w < length xs" "outs = map (node_of xs) (ci_outputs ir)"
    using assms(1) by (auto simp: scheduled_def built_program_def node_of_def [abs_def])
  then have "\<forall>w \<in> set (ci_outputs ir). node_of xs v = node_of xs w \<longleftrightarrow> v = w"
    using node_of_mono [OF assms] by blast
  with vs(2) show ?thesis by auto
qed

text \<open>The two ways of deciding that a value is dead agree at every step.\<close>

lemma dead_agree:
  assumes sch: "scheduled xs outs ir" and v: "v < length xs" and k: "k < length xs"
  shows "(case last_uses xs outs (node_of xs v) of Some u \<Rightarrow> u < k | None \<Rightarrow> False) \<longleftrightarrow>
    v \<notin> set (ci_outputs ir) \<and> final_use ir v < k"
proof -
  let ?opers = "ci_operations ir"
  have sched: "schedule_ok xs outs" and opers: "length ?opers = length xs"
    and imp: "\<And>i. i < length xs \<Longrightarrow> imported xs i (?opers ! i)"
    using sch by (simp_all add: scheduled_def built_program_def)
  have ids: "\<forall>i < length ?opers. io_id (?opers ! i) = 0 + i" using imp by (simp add: opers imported_def)
  obtain u where u: "last_uses xs outs (node_of xs v) = Some u"
    using last_uses_ok(1) [OF sched] v by (auto simp: last_use_ok_def node_of_def)
  have "u < k \<longleftrightarrow> bounded (last_uses xs outs) (node_of xs v) k" by (simp add: bounded_def u)
  also have "\<dots> \<longleftrightarrow> (\<forall>i < length xs. node_of xs v = ins_id (xs ! i) \<or>
      node_of xs v \<in> set (ins_inputs (xs ! i)) \<longrightarrow> i < k) \<and> node_of xs v \<notin> set outs"
    using bounded_last_uses [OF sched] k by auto
  also have "\<dots> \<longleftrightarrow> (v < k \<and> (\<forall>i < length ?opers. v \<in> set (io_operands (?opers ! i)) \<longrightarrow> 0 + i < k)) \<and>
      v \<notin> set (ci_outputs ir)"
  proof -
    have "(node_of xs v = ins_id (xs ! i) \<or> node_of xs v \<in> set (ins_inputs (xs ! i))) \<longleftrightarrow>
        v = i \<or> v \<in> set (io_operands (?opers ! i))" if "i < length xs" for i
      using operand_input [OF sch that v] node_of_mono [OF sch v that] by (simp add: node_of_def)
    then show ?thesis using output_value [OF sch v] v by (auto simp: opers)
  qed
  also have "(v < k \<and> (\<forall>i < length ?opers. v \<in> set (io_operands (?opers ! i)) \<longrightarrow> 0 + i < k)) \<longleftrightarrow> final_use ir v < k"
  proof (cases "last_use_among ?opers v")
    case None
    then show ?thesis using last_use_among_bound [OF ids, of v k] by (auto simp: final_use_def)
  next
    case (Some i)
    then obtain j where "j < length xs" "io_id (?opers ! j) = i" "v \<in> set (io_operands (?opers ! j))"
      using last_use_among_user by (metis in_set_conv_nth opers)
    then have "v < i" using imp [of j] by (simp add: imported_def)
    with Some show ?thesis using last_use_among_bound [OF ids, of v k] by (auto simp: final_use_def)
  qed
  finally show ?thesis by (auto simp: u)
qed

definition sim :: "instruction list \<Rightarrow> compiler_ir \<Rightarrow> nat \<Rightarrow> plan_state \<Rightarrow> ir_plan_state \<Rightarrow> bool" where
  "sim xs ir k st st' \<longleftrightarrow>
     ips_allocations st' = ps_allocations st \<and> ips_slots st' = ps_slots st \<and>
     ips_free st' = ps_free st \<and> ips_peak st' = ps_peak st \<and>
     ps_active st = rekey (node_of xs) fst (ips_active st') \<and>
     (\<forall>(v, slot, final, live_out) \<in> set (ips_active st').
        v < k \<and> final = final_use ir v \<and> live_out = (v \<in> set (ci_outputs ir)))"

lemma sim_keys: "sim xs ir k st st' \<Longrightarrow> v \<in> fst ` set (ips_active st') \<Longrightarrow> v < k"
  by (auto simp: sim_def)

lemma sim_release:
  assumes sch: "scheduled xs outs ir" and sim: "sim xs ir k st st'" and "k \<le> length xs" and v: "v < length xs"
  shows "sim xs ir k (release st (node_of xs v)) (ir_release st' v)"
proof -
  have keys: "\<forall>w \<in> fst ` set (ips_active st'). node_of xs v = node_of xs w \<longleftrightarrow> v = w"
    using node_of_mono [OF sch v] sim_keys [OF sim] assms(3) by (meson less_le_trans)
  have get: "bt_get (ps_active st) (node_of xs v) = map_option fst (bt_get (ips_active st') v)"
    using sim rekey_get [OF keys, of fst] by (simp add: sim_def)
  have remove: "bt_remove (node_of xs v) (ps_active st) = rekey (node_of xs) fst (bt_remove v (ips_active st'))"
    using sim rekey_remove [OF keys, of fst] by (simp add: sim_def)
  show ?thesis
    using sim get remove
    by (auto simp: release_def ir_release_def sim_def bt_remove_def split: option.splits)
qed

lemma sim_releases:
  assumes "scheduled xs outs ir" and "sim xs ir k st st'" and "k \<le> length xs" and "\<forall>v \<in> set vs. v < length xs"
  shows "sim xs ir k (foldl release st (map (node_of xs) vs)) (foldl ir_release st' vs)"
  using assms(2,4)
proof (induction vs arbitrary: st st')
  case (Cons v vs)
  with sim_release [OF assms(1) Cons.prems(1) assms(3)] show ?case by simp
qed simp

lemma sim_retire:
  assumes sch: "scheduled xs outs ir" and sim: "sim xs ir k st st'" and k: "k < length xs"
  shows "sim xs ir k (retire (last_uses xs outs) k st) (ir_retire k st')"
proof -
  let ?dead = "\<lambda>n. case last_uses xs outs n of Some u \<Rightarrow> u < k | None \<Rightarrow> False"
  let ?dead' = "\<lambda>(v, slot, final, live_out). \<not> live_out \<and> final < k"
  let ?act = "ips_active st'"
  have agree: "?dead (node_of xs (fst p)) = ?dead' p" if "p \<in> set ?act" for p
  proof -
    obtain v slot final live_out where p: "p = (v, slot, final, live_out)" by (cases p) auto
    with sim that have "v < k" "final = final_use ir v" "live_out = (v \<in> set (ci_outputs ir))"
      by (auto simp: sim_def)
    with dead_agree [OF sch _ k, of v] k show ?thesis by (simp add: p)
  qed
  have keys: "bt_keys (ps_active st) = map (\<lambda>p. node_of xs (fst p)) ?act"
    using sim by (simp add: sim_def bt_keys_def rekey_def comp_def case_prod_beta)
  have dead: "filter ?dead (bt_keys (ps_active st)) = map (node_of xs) (map fst (filter ?dead' ?act))"
    unfolding keys filter_map by (simp add: comp_def agree cong: filter_cong)
  have "\<forall>v \<in> set (map fst (filter ?dead' ?act)). v < length xs"
    using sim_keys [OF sim] k by fastforce
  then have "sim xs ir k (foldl release st (filter ?dead (bt_keys (ps_active st))))
      (foldl ir_release st' (map fst (filter ?dead' ?act)))"
    unfolding dead using k by (intro sim_releases [OF sch sim]) simp_all
  then show ?thesis by (simp add: retire_def ir_retire_def Let_def sim_def)
qed

lemma sim_take_slot:
  assumes "sim xs ir k st st'"
    and "take_slot st ty = (Inr (st1, slot) :: (ir_error, plan_state \<times> buffer_slot) outcome)"
  shows "\<exists>st1'. ir_take_slot st' ty = Inr (st1', slot) \<and> sim xs ir k st1 st1'"
proof -
  from assms(2) obtain r where r: "find_compatible (ps_slots st) ty (ps_free st) =
      (Inr r :: (ir_error, usize option) outcome)"
    by (auto simp: take_slot_def outcome_simps)
  have same: "ips_slots st' = ps_slots st" "ips_free st' = ps_free st" using assms(1) by (simp_all add: sim_def)
  show ?thesis
  proof (cases r)
    case None
    with assms r same show ?thesis
      by (auto simp: take_slot_def ir_take_slot_def sim_def Let_def)
  next
    case (Some p)
    with assms r same show ?thesis
      by (auto simp: take_slot_def ir_take_slot_def sim_def outcome_simps)
  qed
qed

lemma sim_assign:
  assumes sch: "scheduled xs outs ir" and sim: "sim xs ir k st st'" and k: "k < length xs"
    and assign: "assign_storage st (xs ! k) =
      (Inr (st1, storage) :: (ir_error, plan_state \<times> value_storage) outcome)"
  shows "\<exists>st1'. ir_assign_storage (linear_liveness ir) st' (ci_operations ir ! k) (value_of xs k) =
      Inr (st1', storage) \<and> sim xs ir (Suc k) st1 st1'"
proof -
  have imp: "io_operation (ci_operations ir ! k) = ins_operation (xs ! k)" "io_result (ci_operations ir ! k) = k"
    using sch k by (simp_all add: scheduled_def built_program_def imported_def)
  have weaken: "sim xs ir (Suc k) st st'" if "sim xs ir k st st'" for st st'
    using that by (force simp: sim_def)
  show ?thesis
  proof (cases "computed (ins_operation (xs ! k))")
    case False
    then show ?thesis using assign weaken [OF sim]
      by (cases "ins_operation (xs ! k)")
        (auto simp: assign_storage_def ir_assign_storage_def imp computed_def)
  next
    case True
    from assign obtain st2 slot where take: "take_slot st (ins_output (xs ! k)) =
        (Inr (st2, slot) :: (ir_error, plan_state \<times> buffer_slot) outcome)"
      and st1: "st1 = st2\<lparr>ps_active := bt_insert (ins_id (xs ! k)) slot (ps_active st2),
        ps_peak := max (ps_peak st2) (length (bt_insert (ins_id (xs ! k)) slot (ps_active st2)))\<rparr>"
      "storage = Buffer slot"
      by (auto simp: computed_assign(1) [OF True] outcome_simps Let_def)
    from sim_take_slot [OF sim take] obtain st2' where take': "ir_take_slot st' (ins_output (xs ! k)) = Inr (st2', slot)"
      and sim2: "sim xs ir k st2 st2'" by blast
    let ?entry = "(slot, final_use ir k, k \<in> set (ci_outputs ir))"
    have keys: "\<forall>w \<in> fst ` set (ips_active st2').
        (node_of xs k < node_of xs w \<longleftrightarrow> k < w) \<and> (node_of xs k = node_of xs w \<longleftrightarrow> k = w)"
      using node_of_mono [OF sch k] sim_keys [OF sim2] k by (meson less_trans)
    have active2: "ps_active st2 = rekey (node_of xs) fst (ips_active st2')" using sim2 by (simp add: sim_def)
    have "bt_insert (node_of xs k) (fst ?entry) (rekey (node_of xs) fst (ips_active st2')) =
        rekey (node_of xs) fst (bt_insert k ?entry (ips_active st2'))"
      by (rule rekey_insert [OF keys])
    then have insert: "bt_insert (ins_id (xs ! k)) slot (ps_active st2) =
        rekey (node_of xs) fst (bt_insert k ?entry (ips_active st2'))"
      by (simp only: active2 fst_conv) (simp only: node_of_def)
    define r where "r = linear_liveness ir ! k"
    have range: "get (linear_liveness ir) k = Some r" "lr_live_out r = (k \<in> set (ci_outputs ir))"
      "(case lr_last_operation_use r of Some i \<Rightarrow> i | None \<Rightarrow> lr_definition r) = final_use ir k"
      using live_range_of [OF sch k] by (simp_all add: r_def final_use_def split: option.split)
    let ?st1' = "st2'\<lparr>ips_active := bt_insert k ?entry (ips_active st2'),
        ips_peak := max (ips_peak st2') (length (bt_insert k ?entry (ips_active st2')))\<rparr>"
    have run: "ir_assign_storage (linear_liveness ir) st' (ci_operations ir ! k) (value_of xs k) = Inr (?st1', Buffer slot)"
      using True take'
      by (cases "ins_operation (xs ! k)")
        (simp_all add: range ir_assign_storage_def imp computed_def value_of_def Let_def)
    have entries: "set (bt_insert k ?entry m) \<subseteq> insert (k, ?entry) (set m)" for m
      by (induction k ?entry m rule: bt_insert.induct) auto
    have "sim xs ir (Suc k) st1 ?st1'"
      using sim2 insert entries [of "ips_active st2'"] unfolding sim_def st1(1)
      by (auto simp: less_Suc_eq dest!: subsetD)
    with run st1(2) show ?thesis by blast
  qed
qed

lemma sim_step:
  assumes sch: "scheduled xs outs ir" and sim: "sim xs ir k st st'" and k: "k < length xs"
    and step: "plan_step (last_uses xs outs) st (k, xs ! k) = (Inr st1 :: (ir_error, plan_state) outcome)"
  shows "\<exists>st1'. ir_plan_step ir (linear_liveness ir) st' (ci_operations ir ! k) = Inr st1' \<and>
    sim xs ir (Suc k) st1 st1'"
proof -
  have imp: "io_id (ci_operations ir ! k) = k" "io_result (ci_operations ir ! k) = k"
    and val: "ir_value_at ir k = Some (value_of xs k)"
    using sch k by (simp_all add: scheduled_def built_program_def imported_def ir_value_at_def get_def)
  from step obtain st2 storage where
    assign: "assign_storage (retire (last_uses xs outs) k st) (xs ! k) =
      (Inr (st2, storage) :: (ir_error, plan_state \<times> value_storage) outcome)"
    and st1: "st1 = st2\<lparr>ps_allocations := ps_allocations st2 @
      [\<lparr>va_node = ins_id (xs ! k), va_storage = storage\<rparr>]\<rparr>"
    by (auto simp: plan_step_def outcome_simps)
  from sim_assign [OF sch sim_retire [OF sch sim k] k assign] obtain st2' where
    "ir_assign_storage (linear_liveness ir) (ir_retire k st') (ci_operations ir ! k) (value_of xs k) = Inr (st2', storage)"
    "sim xs ir (Suc k) st2 st2'" by blast
  then show ?thesis by (simp add: ir_plan_step_def imp val st1 sim_def) (simp add: value_of_def)
qed

section \<open>The plans are equal\<close>

text \<open>A plan does not depend on the type of the errors it never returns.\<close>

lemma find_compatible_error_type:
  "find_compatible slots ty free = (Inr r :: ('e, usize option) outcome) \<Longrightarrow>
     find_compatible slots ty free = (Inr r :: ('f, usize option) outcome)"
  by (induction free arbitrary: r) (auto simp: outcome_simps split: if_splits)

lemma take_slot_error_type:
  "take_slot st ty = (Inr r :: ('e, plan_state \<times> buffer_slot) outcome) \<Longrightarrow>
     take_slot st ty = (Inr r :: ('f, plan_state \<times> buffer_slot) outcome)"
proof -
  assume r: "take_slot st ty = (Inr r :: ('e, plan_state \<times> buffer_slot) outcome)"
  then obtain c where "find_compatible (ps_slots st) ty (ps_free st) = (Inr c :: ('e, usize option) outcome)"
    by (auto simp: take_slot_def outcome_simps)
  with r find_compatible_error_type [OF this, where ?'f = 'f] show ?thesis
    by (cases c) (auto simp: take_slot_def outcome_simps Let_def)
qed

lemma plan_step_error_type:
  "plan_step lu st p = (Inr r :: ('e, plan_state) outcome) \<Longrightarrow>
     plan_step lu st p = (Inr r :: ('f, plan_state) outcome)"
proof -
  assume r: "plan_step lu st p = (Inr r :: ('e, plan_state) outcome)"
  obtain step i where p: "p = (step, i)" by (cases p)
  let ?st = "retire lu step st"
  from r obtain st1 storage where assign: "assign_storage ?st i =
      (Inr (st1, storage) :: ('e, plan_state \<times> value_storage) outcome)"
    and r': "r = st1\<lparr>ps_allocations := ps_allocations st1 @ [\<lparr>va_node = ins_id i, va_storage = storage\<rparr>]\<rparr>"
    by (auto simp: plan_step_def p outcome_simps)
  have "assign_storage ?st i = (Inr (st1, storage) :: ('f, plan_state \<times> value_storage) outcome)"
  proof (cases "computed (ins_operation i)")
    case True
    with assign obtain st2 slot where take: "take_slot ?st (ins_output i) =
        (Inr (st2, slot) :: ('e, plan_state \<times> buffer_slot) outcome)"
      by (auto simp: computed_assign(1) outcome_simps)
    with take_slot_error_type [OF take, where ?'f = 'f] assign True show ?thesis
      by (simp add: computed_assign(1) Let_def)
  next
    case False
    with assign show ?thesis
      by (cases "ins_operation i") (auto simp: assign_storage_def computed_def)
  qed
  then show ?thesis by (simp add: plan_step_def p r')
qed

lemma try_fold_mono:
  "(\<And>s x t. f s x = Inr t \<Longrightarrow> g s x = Inr t) \<Longrightarrow> try_fold f s xs = Inr t \<Longrightarrow> try_fold g s xs = Inr t"
  by (induction xs arbitrary: s) (auto simp: outcome_simps)

lemma memory_plan_build_error_type:
  "memory_plan_build xs outs = (Inr r :: ('e, memory_plan) outcome) \<Longrightarrow>
     memory_plan_build xs outs = (Inr r :: ('f, memory_plan) outcome)"
  unfolding memory_plan_build_def
  using try_fold_mono [OF plan_step_error_type, where xs = "enumerate 0 xs"]
  by (fastforce simp: outcome_simps)

lemma memory_from_scheduled:
  assumes sch: "scheduled xs outs ir" and wf: "wf_ir ir"
    and build: "memory_plan_build xs outs = (Inr plan :: ('e, memory_plan) outcome)"
  shows "memory_from_compiler_ir ir = Inr plan"
proof -
  let ?lu = "last_uses xs outs"
  note build = memory_plan_build_error_type [OF build, where ?'f = ir_error]
  then obtain st where fold: "try_fold (plan_step ?lu) plan_start (enumerate 0 xs) =
      (Inr st :: (ir_error, plan_state) outcome)"
    and plan: "plan = \<lparr>mp_allocations = ps_allocations st, mp_slots = ps_slots st,
          mp_peak_live_buffers = ps_peak st\<rparr>"
    by (auto simp: memory_plan_build_def outcome_simps)
  have "\<exists>st'. try_fold (ir_plan_step ir (linear_liveness ir)) ir_plan_start (ci_operations ir) = Inr st' \<and>
      sim xs ir (length (enumerate 0 xs)) st st'"
    using fold
  proof (rule try_fold_sim)
    show "sim xs ir 0 plan_start ir_plan_start"
      by (simp add: sim_def plan_start_def ir_plan_start_def rekey_def)
    show "length (ci_operations ir) = length (enumerate 0 xs)"
      using sch by (simp add: scheduled_def built_program_def)
    fix i u u' v
    assume "i < length (enumerate 0 xs)" "sim xs ir i u u'"
      "plan_step ?lu u (enumerate 0 xs ! i) = (Inr v :: (ir_error, plan_state) outcome)"
    with sim_step [OF sch, of i u u' v] show "\<exists>v'. ir_plan_step ir (linear_liveness ir) u' (ci_operations ir ! i) = Inr v' \<and>
        sim xs ir (Suc i) v v'" by simp
  qed
  then show ?thesis using wf by (auto simp: memory_from_compiler_ir_def plan sim_def)
qed

text \<open>A pass that keeps the storage class of every operation keeps the plan.\<close>

lemma same_storage_cases:
  assumes "same_storage a b"
  shows "(case a of Input _ \<Rightarrow> x | Constant _ \<Rightarrow> y | _ \<Rightarrow> z) = (case b of Input _ \<Rightarrow> x | Constant _ \<Rightarrow> y | _ \<Rightarrow> z)"
proof -
  have "storage_matches a s = storage_matches b s" for s using assms by (simp add: same_storage_def)
  from this [of ExternalInput] this [of ExternalConstant] show ?thesis
    by (cases a; cases b; simp add: storage_matches_def is_buffer_def)
qed

lemma rewritten_operation:
  assumes "rewritten ir ir'" and "i < length (ci_operations ir)"
  shows "io_id (ci_operations ir' ! i) = io_id (ci_operations ir ! i) \<and>
    io_canonical_node (ci_operations ir' ! i) = io_canonical_node (ci_operations ir ! i) \<and>
    io_operands (ci_operations ir' ! i) = io_operands (ci_operations ir ! i) \<and>
    io_result (ci_operations ir' ! i) = io_result (ci_operations ir ! i)"
proof -
  have eq: "ci_operations ir' ! i = (ci_operations ir ! i)\<lparr>io_operation := io_operation (ci_operations ir' ! i)\<rparr>"
    using assms by (simp add: rewritten_def)
  show ?thesis by (subst (1 2 3 4) eq) simp
qed

lemma rewritten_program:
  assumes "rewritten ir ir'"
  shows "ci_values ir' = ci_values ir" "ci_outputs ir' = ci_outputs ir"
    "length (ci_operations ir') = length (ci_operations ir)"
proof -
  have eq: "ir' = ir\<lparr>ci_operations := ci_operations ir'\<rparr>" using assms by (simp add: rewritten_def)
  show "ci_values ir' = ci_values ir" "ci_outputs ir' = ci_outputs ir" by (subst eq, simp)+
  show "length (ci_operations ir') = length (ci_operations ir)" using assms by (simp add: rewritten_def)
qed

lemma last_use_among_cong:
  "list_all2 (\<lambda>a b. io_id a = io_id b \<and> io_operands a = io_operands b) opers opers' \<Longrightarrow>
     last_use_among opers v = last_use_among opers' v"
  by (induction rule: list_all2_induct) (auto split: option.split)

lemma memory_retyped:
  assumes "retyped ir ir'" and "wf_ir ir" and "wf_ir ir'"
  shows "memory_from_compiler_ir ir' = memory_from_compiler_ir ir"
proof -
  have rew: "rewritten ir ir'" using assms(1) by (simp add: retyped_def)
  note oper = rewritten_operation [OF rew] and prog = rewritten_program [OF rew]
  have "last_use_among (ci_operations ir') v = last_use_among (ci_operations ir) v" for v
    using oper prog(3) by (intro last_use_among_cong) (simp add: list_all2_conv_all_nth)
  then have live: "linear_liveness ir' = linear_liveness ir"
    using linear_liveness_nth [of ir] linear_liveness_nth [of ir'] prog by (intro nth_equalityI) simp_all
  have step: "ir_plan_step ir' liveness st (ci_operations ir' ! i) = ir_plan_step ir liveness st (ci_operations ir ! i)"
    if i: "i < length (ci_operations ir)" for i st liveness
  proof -
    have same: "same_storage (io_operation (ci_operations ir' ! i)) (io_operation (ci_operations ir ! i))"
      using assms(1) i by (simp add: retyped_def)
    have "ir_value_at ir' v = ir_value_at ir v" for v by (simp add: ir_value_at_def prog(1))
    then show ?thesis
      unfolding ir_plan_step_def ir_assign_storage_def same_storage_cases [OF same]
      by (simp only: oper [OF i])
  qed
  have "try_fold (ir_plan_step ir' (linear_liveness ir)) st (map ((!) (ci_operations ir')) is) =
      try_fold (ir_plan_step ir (linear_liveness ir)) st (map ((!) (ci_operations ir)) is)"
    if "\<forall>i \<in> set is. i < length (ci_operations ir)" for st "is"
    using that by (induction "is" arbitrary: st) (simp_all add: step try_bind_def split: sum.split)
  from this [of "[0..<length (ci_operations ir)]"] have
    "try_fold (ir_plan_step ir' (linear_liveness ir)) st (ci_operations ir') =
      try_fold (ir_plan_step ir (linear_liveness ir)) st (ci_operations ir)" for st
    using prog(3) by (metis atLeastLessThan_iff map_nth set_upt)
  then show ?thesis
    using assms(2,3) by (simp add: memory_from_compiler_ir_def live Let_def)
qed

section \<open>Passes, then planning\<close>

definition run_passes_and_plan_memory ::
  "compiler_pass list \<Rightarrow> compiler_ir \<Rightarrow> compiler_ir \<times> (ir_error, pass_manager_stats \<times> memory_plan) outcome" where
  "run_passes_and_plan_memory passes ir =
     (case pass_manager_run passes ir of
        (ir', Inl e) \<Rightarrow> (ir', Inl e)
      | (ir', Inr stats) \<Rightarrow>
          (ir', try_bind (memory_from_compiler_ir ir') (\<lambda>memory. Inr (stats, memory))))"

lemma compiled_scheduled:
  assumes "compile g = Inr plan" and "length (graph_nodes g) \<le> u32_range"
    and "from_execution_plan plan = Inr ir"
  shows "scheduled (ep_instructions plan) (ep_outputs plan) ir"
proof -
  note sched = compile_plan_schedule [OF assms(1,2)]
  have "sorted_wrt (<) (needed_list g)"
    by (simp add: needed_list_def sorted_wrt_filter)
  moreover have "map ins_id (ep_instructions plan) = needed_list g"
  proof -
    have "ins_id (instruction_of (graph_nodes g) i) = i" if "i \<in> set (needed_list g)" for i
      using that assms(2) by (simp add: needed_list_def instruction_of_def to_instruction_def)
    then show ?thesis using sched by (simp add: comp_def map_idI)
  qed
  ultimately have "sorted_wrt (<) (map ins_id (ep_instructions plan))" by (simp only:)
  with sched from_execution_plan_Inr [OF assms(3)] show ?thesis unfolding scheduled_def by blast
qed

lemma compiled_program:
  assumes "compile g = Inr plan" and "length (graph_nodes g) \<le> u32_range" and "list_all pass_ok passes"
  obtains ir ir' stats where "from_execution_plan plan = Inr ir" "wf_ir ir" "wf_ir ir'" "retyped ir ir'"
    "run_passes_and_plan_memory passes ir = (ir', Inr (stats, ep_memory plan))"
    "pm_passes_run stats = length passes" "memory_from_compiler_ir ir' = Inr (ep_memory plan)"
proof -
  note sched = compile_plan_schedule [OF assms(1,2)]
  then obtain ir where ir: "from_execution_plan plan = Inr ir" using from_execution_plan_total by blast
  note built = from_execution_plan_Inr [OF ir]
  have wf: "wf_ir ir" using built built_program_wf by (auto simp: linear_plan_def)
  have memory: "memory_from_compiler_ir ir = Inr (ep_memory plan)"
    using memory_from_scheduled [OF compiled_scheduled [OF assms(1,2) ir] wf] sched by blast
  from pass_manager_run_ok [OF assms(3) wf] obtain ir' stats where run:
    "pass_manager_run passes ir = (ir', Inr stats)" "wf_ir ir'" "retyped ir ir'"
    "pm_passes_run stats = length passes" by blast
  moreover have "memory_from_compiler_ir ir' = Inr (ep_memory plan)"
    using memory_retyped [OF run(3) wf run(2)] memory by simp
  ultimately show ?thesis using that ir wf by (simp add: run_passes_and_plan_memory_def)
qed

text \<open>
  C18: the SSA planner is equivalent to the instruction planner. For every graph the canonical
  compiler accepts, the plan it returns becomes an SSA program, and planning buffers from the
  liveness of that program, after any pipeline of passes that keep arities and storage
  classes, gives exactly the memory plan embedded in the execution plan, whose slot sharing
  is safe.
\<close>

theorem compiler_ir_memory_equal:
  assumes "compile g = Inr plan" and "length (graph_nodes g) \<le> u32_range" and "list_all pass_ok passes"
  shows "\<exists>ir ir' stats. from_execution_plan plan = Inr ir \<and>
    memory_from_compiler_ir ir = Inr (ep_memory plan) \<and>
    run_passes_and_plan_memory passes ir = (ir', Inr (stats, ep_memory plan)) \<and>
    plan_safe (ep_instructions plan) (ep_outputs plan) (ep_memory plan)"
proof -
  note sched = compile_plan_schedule [OF assms(1,2)]
  from compiled_program [OF assms] obtain ir ir' stats where
    "from_execution_plan plan = Inr ir" "wf_ir ir" "wf_ir ir'" "retyped ir ir'"
    "run_passes_and_plan_memory passes ir = (ir', Inr (stats, ep_memory plan))"
    "memory_from_compiler_ir ir' = Inr (ep_memory plan)" by metis
  moreover from this have "memory_from_compiler_ir ir = Inr (ep_memory plan)"
    using memory_retyped by simp
  moreover have "plan_safe (ep_instructions plan) (ep_outputs plan) (ep_memory plan)"
    using memory_plan_build_safe [where ?'e = compile_error] sched by fastforce
  ultimately show ?thesis by blast
qed

theorem compiler_ir_memory_equal_witness:
  "\<exists>plan ir ir' stats. compile example_chain = Inr plan \<and> from_execution_plan plan = Inr ir \<and>
     run_passes_and_plan_memory [scale_zero_pass] ir = (ir', Inr (stats, ep_memory plan))"
proof -
  have small: "length (graph_nodes example_chain) \<le> u32_range" "graph_outputs example_chain \<noteq> []"
    by (simp_all add: example_chain_def)
  then obtain plan where plan: "compile example_chain = Inr plan"
    using compile_run [OF example_chain_valid(2)] by auto
  have "list_all pass_ok [scale_zero_pass]" using scale_zero_step.keeps by simp
  from compiler_ir_memory_equal [OF plan small(1) this] plan show ?thesis by blast
qed

end
