(* ===== verification/Kernel_Lowering.thy ===== *)
theory Kernel_Lowering
  imports IR_Memory
begin

text \<open>
  Logical kernel lowering (\<open>lowering.rs\<close> of \<open>scirust-tensor-compile\<close>): an execution plan and a
  table of external bindings become a list of dispatches over deduplicated kernel signatures.
  No backend is involved; arguments are logical sources (a binding or a buffer slot).
\<close>

section \<open>Bindings, kernels and dispatches\<close>

type_synonym binding_id = nat
type_synonym kernel_id = nat

datatype identifier_space = ExternalBindingSpace | LogicalKernelSpace | KernelArgumentSpace

datatype external_value_kind = InputKind | ConstantKind

record external_binding =
  eb_node :: node_id
  eb_kind :: external_value_kind

type_synonym external_bindings = "external_binding list"

datatype unary_kernel =
    ReluKernel | ExpKernel | LogKernel | ZerosLikeKernel | OnesLikeKernel | ScaleKernel scalar

datatype binary_kernel = AddKernel | SubKernel | MulKernel | DivKernel

datatype kernel_family =
    ElementwiseUnary unary_kernel
  | ElementwiseBinary binary_kernel
  | MatMulKernel
  | BatchMatMulKernel
  | ShapeCopy
  | Permute "usize list"

record logical_kernel =
  lk_id :: kernel_id
  lk_family :: kernel_family
  lk_operands :: "tensor_type list"
  lk_result :: tensor_type

datatype argument_access = ReadAccess | WriteAccess

datatype argument_source =
    FromInput binding_id
  | FromConstant binding_id
  | FromBuffer buffer_slot

record kernel_argument =
  ka_index :: nat
  ka_source :: argument_source
  ka_access :: argument_access
  ka_tensor_type :: tensor_type

record logical_dispatch =
  ld_extent :: shape
  ld_elements :: usize

record lowered_instruction =
  li_node :: node_id
  li_sources :: "node_id list"
  li_kernel :: kernel_id
  li_arguments :: "kernel_argument list"
  li_dispatch :: logical_dispatch

record lowered_output =
  lo_node :: node_id
  lo_source :: argument_source

record lowered_plan =
  lp_kernels :: "logical_kernel list"
  lp_instructions :: "lowered_instruction list"
  lp_bindings :: external_bindings
  lp_outputs :: "lowered_output list"

datatype lowering_error =
    UnsupportedOperation node_id operation
  | MissingExternalBinding node_id
  | DuplicateExternalBinding node_id
  | ExtraneousExternalBinding node_id
  | ExternalBindingKindMismatch node_id external_value_kind external_value_kind
  | UnknownNode node_id
  | MissingBufferSlot node_id
  | LoweringArityMismatch node_id usize usize
  | UnloweredOutput node_id
  | OperandTypeMismatch node_id tensor_type tensor_type
  | LoweringInvalidMatMul node_id
  | LoweringInvalidBatchMatMul node_id
  | LoweringInvalidReshape node_id
  | InvalidPermutation node_id
  | DispatchExtentOverflow node_id
  | ArgumentIndexMismatch node_id nat nat
  | LoweringIdentifierOverflow identifier_space node_id

record value_info =
  vi_storage :: value_storage
  vi_tensor_type :: tensor_type

definition external_kind :: "value_storage \<Rightarrow> external_value_kind option" where
  "external_kind storage =
     (case storage of
        ExternalInput \<Rightarrow> Some InputKind
      | ExternalConstant \<Rightarrow> Some ConstantKind
      | Buffer _ \<Rightarrow> None)"

text \<open>The deterministic default table: every external value, in plan order.\<close>

definition derive_bindings :: "execution_plan \<Rightarrow> external_bindings" where
  "derive_bindings plan =
     List.map_filter (\<lambda>allocation.
         map_option (\<lambda>kind. \<lparr>eb_node = va_node allocation, eb_kind = kind\<rparr>)
           (external_kind (va_storage allocation)))
       (mp_allocations (ep_memory plan))"

definition lowered_kernel :: "lowered_plan \<Rightarrow> kernel_id \<Rightarrow> logical_kernel option" where
  "lowered_kernel plan i = get (lp_kernels plan) i"

definition lowered_binding :: "lowered_plan \<Rightarrow> binding_id \<Rightarrow> external_binding option" where
  "lowered_binding plan i = get (lp_bindings plan) i"

definition instruction_for :: "lowered_plan \<Rightarrow> node_id \<Rightarrow> lowered_instruction option" where
  "instruction_for plan n = List.find (\<lambda>i. li_node i = n) (lp_instructions plan)"

section \<open>The values of the plan and the binding table\<close>

definition collect_value ::
  "value_storage bt_map \<Rightarrow> value_info bt_map \<Rightarrow> instruction \<Rightarrow> (lowering_error, value_info bt_map) outcome"
where
  "collect_value storages values i =
     try_bind (ok_or (MissingBufferSlot (ins_id i)) (bt_get storages (ins_id i))) (\<lambda>storage.
     Inr (bt_insert (ins_id i) \<lparr>vi_storage = storage, vi_tensor_type = ins_output i\<rparr> values))"

definition collect_values :: "execution_plan \<Rightarrow> (lowering_error, value_info bt_map) outcome" where
  "collect_values plan =
     (let storages = foldl (\<lambda>storages a. bt_insert (va_node a) (va_storage a) storages) []
                       (mp_allocations (ep_memory plan)) in
      try_fold (collect_value storages) [] (ep_instructions plan))"

definition bind_entry ::
  "value_info bt_map \<Rightarrow> binding_id bt_map \<Rightarrow> usize \<times> external_binding
     \<Rightarrow> (lowering_error, binding_id bt_map) outcome" where
  "bind_entry values binding_ids p = (case p of (position, entry) \<Rightarrow>
     let n = eb_node entry in
     try_bind (ok_or (UnknownNode n) (bt_get values n)) (\<lambda>info.
     try_bind (ok_or (ExtraneousExternalBinding n) (external_kind (vi_storage info))) (\<lambda>expected.
     try_bind (require (expected = eb_kind entry)
                 (ExternalBindingKindMismatch n expected (eb_kind entry))) (\<lambda>_.
     try_bind (ok_or (LoweringIdentifierOverflow ExternalBindingSpace n) (u32_try_from position))
       (\<lambda>raw.
     if bt_get binding_ids n \<noteq> None then fail (DuplicateExternalBinding n)
     else Inr (bt_insert n raw binding_ids))))))"

definition validate_bindings ::
  "value_info bt_map \<Rightarrow> external_bindings \<Rightarrow> (lowering_error, binding_id bt_map) outcome" where
  "validate_bindings values bindings =
     try_bind (try_fold (bind_entry values) [] (enumerate 0 bindings)) (\<lambda>binding_ids.
     try_bind (for_each (\<lambda>(n, info).
         require (\<not> (external_kind (vi_storage info) \<noteq> None \<and> bt_get binding_ids n = None))
           (MissingExternalBinding n)) values) (\<lambda>_.
     Inr binding_ids))"

definition source_of ::
  "node_id \<Rightarrow> value_storage \<Rightarrow> binding_id bt_map \<Rightarrow> (lowering_error, argument_source) outcome" where
  "source_of n storage binding_ids =
     (case storage of
        Buffer slot \<Rightarrow> Inr (FromBuffer slot)
      | ExternalInput \<Rightarrow>
          ok_or (MissingExternalBinding n) (map_option FromInput (bt_get binding_ids n))
      | ExternalConstant \<Rightarrow>
          ok_or (MissingExternalBinding n) (map_option FromConstant (bt_get binding_ids n)))"

section \<open>Kernel families\<close>

definition checked_elements :: "node_id \<Rightarrow> shape \<Rightarrow> (lowering_error, usize) outcome" where
  "checked_elements n sh = map_err (\<lambda>_. DispatchExtentOverflow n) (checked_num_elements sh)"

definition argument_index :: "node_id \<Rightarrow> usize \<Rightarrow> (lowering_error, nat) outcome" where
  "argument_index n position =
     ok_or (LoweringIdentifierOverflow KernelArgumentSpace n) (u32_try_from position)"

definition require_uniform_operands ::
  "node_id \<Rightarrow> instruction \<Rightarrow> tensor_type list \<Rightarrow> (lowering_error, unit) outcome" where
  "require_uniform_operands n i operands =
     for_each (\<lambda>operand. require (operand = ins_output i)
       (OperandTypeMismatch n (ins_output i) operand)) operands"

definition uniform_unary ::
  "node_id \<Rightarrow> unary_kernel \<Rightarrow> instruction \<Rightarrow> tensor_type list \<Rightarrow> (lowering_error, kernel_family) outcome"
where
  "uniform_unary n kern i operands =
     try_bind (require_uniform_operands n i operands) (\<lambda>_. Inr (ElementwiseUnary kern))"

definition uniform_binary ::
  "node_id \<Rightarrow> binary_kernel \<Rightarrow> instruction \<Rightarrow> tensor_type list \<Rightarrow> (lowering_error, kernel_family) outcome"
where
  "uniform_binary n kern i operands =
     try_bind (require_uniform_operands n i operands) (\<lambda>_. Inr (ElementwiseBinary kern))"

definition is_valid_permutation :: "usize list \<Rightarrow> tensor_type \<Rightarrow> tensor_type \<Rightarrow> bool" where
  "is_valid_permutation permutation input out =
     (if ty_dtype input \<noteq> ty_dtype out then False
      else
        (let rank = length (ty_shape input) in
         if length permutation \<noteq> rank \<or> length (ty_shape out) \<noteq> rank then False
         else
           (let axes = sort permutation in
            if list_ex (\<lambda>(axis, v). v \<noteq> axis) (enumerate 0 axes) then False
            else list_all (\<lambda>(position, axis). get (ty_shape out) position = get (ty_shape input) axis)
                   (enumerate 0 permutation))))"

definition matrix_product ::
  "node_id \<Rightarrow> instruction \<Rightarrow> tensor_type list \<Rightarrow> bool \<Rightarrow> (lowering_error, kernel_family) outcome" where
  "matrix_product n i operands batched =
     try_bind (ok_or (LoweringArityMismatch n 2 (length operands)) (get operands 0)) (\<lambda>lhs.
     try_bind (ok_or (LoweringArityMismatch n 2 (length operands)) (get operands 1)) (\<lambda>rhs.
     let out = ins_output i in
     if ty_dtype lhs \<noteq> ty_dtype out then fail (OperandTypeMismatch n out lhs)
     else if ty_dtype rhs \<noteq> ty_dtype out then fail (OperandTypeMismatch n out rhs)
     else
       (let lhs_dims = ty_shape lhs; rhs_dims = ty_shape rhs; out_dims = ty_shape out in
        if \<not> batched then
          (if length lhs_dims = 2 \<and> length rhs_dims = 2 \<and> length out_dims = 2 \<and>
              get lhs_dims 1 = get rhs_dims 0 \<and> get out_dims 0 = get lhs_dims 0 \<and>
              get out_dims 1 = get rhs_dims 1
           then Inr MatMulKernel else fail (LoweringInvalidMatMul n))
        else if length lhs_dims < 3 \<or> length rhs_dims \<noteq> length lhs_dims \<or>
                length out_dims \<noteq> length lhs_dims
        then fail (LoweringInvalidBatchMatMul n)
        else
          (let matrix_axis = length lhs_dims - 2 in
           if take matrix_axis lhs_dims = take matrix_axis rhs_dims \<and>
              take matrix_axis lhs_dims = take matrix_axis out_dims \<and>
              get lhs_dims (matrix_axis + 1) = get rhs_dims matrix_axis \<and>
              get out_dims matrix_axis = get lhs_dims matrix_axis \<and>
              get out_dims (matrix_axis + 1) = get rhs_dims (matrix_axis + 1)
           then Inr BatchMatMulKernel else fail (LoweringInvalidBatchMatMul n)))))"

definition kernel_family ::
  "node_id \<Rightarrow> instruction \<Rightarrow> tensor_type list \<Rightarrow> usize \<Rightarrow> (lowering_error, kernel_family) outcome" where
  "kernel_family n i operands elements =
     (case ins_operation i of
        Add \<Rightarrow> uniform_binary n AddKernel i operands
      | Sub \<Rightarrow> uniform_binary n SubKernel i operands
      | Mul \<Rightarrow> uniform_binary n MulKernel i operands
      | Div \<Rightarrow> uniform_binary n DivKernel i operands
      | Relu \<Rightarrow> uniform_unary n ReluKernel i operands
      | Exp \<Rightarrow> uniform_unary n ExpKernel i operands
      | Log \<Rightarrow> uniform_unary n LogKernel i operands
      | ZerosLike \<Rightarrow> uniform_unary n ZerosLikeKernel i operands
      | OnesLike \<Rightarrow> uniform_unary n OnesLikeKernel i operands
      | Scale factor \<Rightarrow> uniform_unary n (ScaleKernel factor) i operands
      | MatMul \<Rightarrow> matrix_product n i operands False
      | BatchMatMul \<Rightarrow> matrix_product n i operands True
      | Reshape sh \<Rightarrow>
          try_bind (ok_or (LoweringArityMismatch n 1 (length operands)) (get operands 0)) (\<lambda>source.
          try_bind (checked_elements n (ty_shape source)) (\<lambda>source_elements.
          if ty_dtype source \<noteq> ty_dtype (ins_output i) \<or> ty_shape (ins_output i) \<noteq> sh \<or>
             source_elements \<noteq> elements
          then fail (LoweringInvalidReshape n)
          else Inr ShapeCopy))
      | Transpose permutation \<Rightarrow>
          try_bind (ok_or (LoweringArityMismatch n 1 (length operands)) (get operands 0)) (\<lambda>source.
          if \<not> is_valid_permutation permutation source (ins_output i)
          then fail (InvalidPermutation n)
          else Inr (Permute permutation))
      | oper \<Rightarrow> fail (UnsupportedOperation n oper))"

definition intern_kernel ::
  "logical_kernel list \<Rightarrow> node_id \<Rightarrow> kernel_family \<Rightarrow> tensor_type list \<Rightarrow> tensor_type
     \<Rightarrow> (lowering_error, logical_kernel list \<times> kernel_id) outcome" where
  "intern_kernel kernels n family operands result =
     (case List.find (\<lambda>k. lk_family k = family \<and> lk_operands k = operands \<and> lk_result k = result) kernels of
        Some k \<Rightarrow> Inr (kernels, lk_id k)
      | None \<Rightarrow>
          try_bind (ok_or (LoweringIdentifierOverflow LogicalKernelSpace n)
                      (u32_try_from (length kernels))) (\<lambda>raw.
          Inr (kernels @ [\<lparr>lk_id = raw, lk_family = family, lk_operands = operands,
                           lk_result = result\<rparr>], raw)))"

section \<open>Lowering\<close>

definition read_argument ::
  "node_id \<Rightarrow> value_info bt_map \<Rightarrow> binding_id bt_map \<Rightarrow> usize \<times> node_id \<times> tensor_type
     \<Rightarrow> (lowering_error, kernel_argument) outcome" where
  "read_argument n values binding_ids p = (case p of (position, input, ty) \<Rightarrow>
     try_bind (ok_or (UnknownNode input) (bt_get values input)) (\<lambda>info.
     try_bind (argument_index n position) (\<lambda>index.
     try_bind (source_of input (vi_storage info) binding_ids) (\<lambda>source.
     Inr \<lparr>ka_index = index, ka_source = source, ka_access = ReadAccess, ka_tensor_type = ty\<rparr>))))"

definition lower_instruction ::
  "value_info bt_map \<Rightarrow> binding_id bt_map \<Rightarrow> instruction \<Rightarrow> logical_kernel list
     \<Rightarrow> (lowering_error, logical_kernel list \<times> lowered_instruction) outcome" where
  "lower_instruction values binding_ids i kernels =
     (let n = ins_id i; arity = expected_arity (ins_operation i) in
      try_bind (require (length (ins_inputs i) = arity)
                  (LoweringArityMismatch n arity (length (ins_inputs i)))) (\<lambda>_.
      try_bind (traverse (\<lambda>input. ok_or (UnknownNode input)
                  (map_option vi_tensor_type (bt_get values input))) (ins_inputs i)) (\<lambda>operands.
      try_bind (checked_elements n (ty_shape (ins_output i))) (\<lambda>elements.
      try_bind (kernel_family n i operands elements) (\<lambda>family.
      try_bind (traverse (read_argument n values binding_ids)
                  (enumerate 0 (zip (ins_inputs i) operands))) (\<lambda>reads.
      try_bind (ok_or (MissingBufferSlot n) (bt_get values n)) (\<lambda>result_info.
      try_bind (argument_index n (length reads)) (\<lambda>result_index.
      try_bind (source_of n (vi_storage result_info) binding_ids) (\<lambda>result_source.
      let arguments = reads @ [\<lparr>ka_index = result_index, ka_source = result_source,
                                ka_access = WriteAccess, ka_tensor_type = ins_output i\<rparr>] in
      try_bind (for_each (\<lambda>(position, argument).
          try_bind (argument_index n position) (\<lambda>expected.
          require (ka_index argument = expected)
            (ArgumentIndexMismatch n expected (ka_index argument)))) (enumerate 0 arguments)) (\<lambda>_.
      try_bind (intern_kernel kernels n family operands (ins_output i)) (\<lambda>(kernels, kern).
      Inr (kernels,
           \<lparr>li_node = n, li_sources = [n], li_kernel = kern, li_arguments = arguments,
            li_dispatch = \<lparr>ld_extent = ty_shape (ins_output i), ld_elements = elements\<rparr>\<rparr>))))))))))))"

definition lower_step ::
  "value_info bt_map \<Rightarrow> binding_id bt_map \<Rightarrow> logical_kernel list \<times> lowered_instruction list \<Rightarrow> instruction
     \<Rightarrow> (lowering_error, logical_kernel list \<times> lowered_instruction list) outcome" where
  "lower_step values binding_ids st i = (case st of (kernels, instructions) \<Rightarrow>
     (case ins_operation i of
        Input _ \<Rightarrow> Inr st
      | Constant _ \<Rightarrow> Inr st
      | _ \<Rightarrow>
          try_bind (lower_instruction values binding_ids i kernels) (\<lambda>(kernels, lowered).
          Inr (kernels, instructions @ [lowered]))))"

definition lower_output ::
  "value_info bt_map \<Rightarrow> binding_id bt_map \<Rightarrow> node_id \<Rightarrow> (lowering_error, lowered_output) outcome" where
  "lower_output values binding_ids n =
     try_bind (ok_or (UnloweredOutput n) (bt_get values n)) (\<lambda>info.
     try_bind (source_of n (vi_storage info) binding_ids) (\<lambda>source.
     Inr \<lparr>lo_node = n, lo_source = source\<rparr>))"

definition lower_plan ::
  "execution_plan \<Rightarrow> external_bindings \<Rightarrow> (lowering_error, lowered_plan) outcome" where
  "lower_plan plan bindings =
     try_bind (collect_values plan) (\<lambda>values.
     try_bind (validate_bindings values bindings) (\<lambda>binding_ids.
     try_bind (try_fold (lower_step values binding_ids) ([], []) (ep_instructions plan))
       (\<lambda>(kernels, instructions).
     try_bind (traverse (lower_output values binding_ids) (ep_outputs plan)) (\<lambda>outputs.
     Inr \<lparr>lp_kernels = kernels, lp_instructions = instructions, lp_bindings = bindings,
          lp_outputs = outputs\<rparr>))))"

end
