(* ===== verification/Lowering_Correct.thy ===== *)
theory Lowering_Correct
  imports Kernel_Lowering
begin

text \<open>
  Correctness of kernel lowering: the binding table, the kernel table, and the dispatches. The
  main theorem runs the lowered plan on an abstract machine with one cell per buffer slot and
  shows that it computes the values of the graph, whatever the kernels compute.
\<close>

section \<open>The values of a plan\<close>

lemma try_fold_Inr_induct:
  assumes "try_fold f s xs = Inr t" and "P 0 s"
    and "\<And>i u v. i < length xs \<Longrightarrow> P i u \<Longrightarrow> f u (xs ! i) = Inr v \<Longrightarrow> P (Suc i) v"
  shows "P (length xs) t"
  using assms by (rule try_fold_invariant)

text \<open>An allocation per instruction, in order, with distinct identifiers.\<close>

definition allocated :: "instruction list \<Rightarrow> value_allocation list \<Rightarrow> bool" where
  "allocated xs al \<longleftrightarrow> map va_node al = map ins_id xs \<and> distinct (map ins_id xs)"

definition info_of :: "instruction list \<Rightarrow> value_allocation list \<Rightarrow> nat \<Rightarrow> value_info" where
  "info_of xs al i = \<lparr>vi_storage = va_storage (al ! i), vi_tensor_type = ins_output (xs ! i)\<rparr>"

lemma allocated_nth:
  assumes "allocated xs al"
  shows "length al = length xs" "i < length xs \<Longrightarrow> va_node (al ! i) = ins_id (xs ! i)"
proof -
  show len: "length al = length xs" using assms unfolding allocated_def by (metis length_map)
  show "i < length xs \<Longrightarrow> va_node (al ! i) = ins_id (xs ! i)"
    using assms len unfolding allocated_def by (metis nth_map)
qed

lemma storages_get:
  assumes "allocated xs al" and "i < length xs"
  shows "bt_get (foldl (\<lambda>st a. bt_insert (va_node a) (va_storage a) st) [] al) (ins_id (xs ! i)) =
    Some (va_storage (al ! i))"
proof -
  let ?es = "map (\<lambda>a. (va_node a, va_storage a)) al"
  have keys: "map fst ?es = map ins_id xs" using assms(1) by (simp add: allocated_def comp_def)
  have "foldl (\<lambda>st a. bt_insert (va_node a) (va_storage a) st) [] al =
      fold (\<lambda>(k, v). bt_insert k v) ?es []"
    by (simp add: foldl_conv_fold fold_map comp_def)
  moreover have "map_of ?es (ins_id (xs ! i)) = Some (va_storage (al ! i))"
  proof (rule map_of_is_SomeI)
    show "distinct (map fst ?es)" using assms(1) keys by (simp add: allocated_def)
    show "(ins_id (xs ! i), va_storage (al ! i)) \<in> set ?es"
      using allocated_nth [OF assms(1)] assms(2) by (force simp: in_set_conv_nth)
  qed
  ultimately show ?thesis
    using bt.get_insert_all [of ?es "[]"] keys assms(1) by (simp add: allocated_def)
qed

definition values_ok :: "instruction list \<Rightarrow> value_allocation list \<Rightarrow> nat \<Rightarrow> value_info bt_map \<Rightarrow> bool" where
  "values_ok xs al k values \<longleftrightarrow> bt_ok values \<and>
     (\<forall>n info. bt_get values n = Some info \<longleftrightarrow>
        (\<exists>i < k. n = ins_id (xs ! i) \<and> info = info_of xs al i))"

lemma collect_values_total:
  assumes "allocated (ep_instructions plan) (mp_allocations (ep_memory plan))"
  shows "\<exists>values. collect_values plan = Inr values \<and>
    values_ok (ep_instructions plan) (mp_allocations (ep_memory plan))
      (length (ep_instructions plan)) values"
proof -
  let ?xs = "ep_instructions plan" and ?al = "mp_allocations (ep_memory plan)"
  let ?st = "foldl (\<lambda>st a. bt_insert (va_node a) (va_storage a) st) [] ?al"
  have "\<exists>values. try_fold (collect_value ?st) [] ?xs = Inr values \<and> values_ok ?xs ?al (length ?xs) values"
  proof (rule try_fold_total [where P = "values_ok ?xs ?al"])
    show "values_ok ?xs ?al 0 []" by (simp add: values_ok_def bt_ok_def)
    fix i vals assume i: "i < length ?xs" "values_ok ?xs ?al i vals"
    have fresh: "ins_id (?xs ! j) \<noteq> ins_id (?xs ! i)" if "j < i" for j
      using assms i(1) that by (auto simp: allocated_def distinct_conv_nth)
    have "collect_value ?st vals (?xs ! i) = Inr (bt_insert (ins_id (?xs ! i)) (info_of ?xs ?al i) vals)"
      using storages_get [OF assms i(1)] by (simp add: collect_value_def info_of_def)
    moreover have "values_ok ?xs ?al (Suc i) (bt_insert (ins_id (?xs ! i)) (info_of ?xs ?al i) vals)"
    proof -
      have "bt_get (bt_insert (ins_id (?xs ! i)) (info_of ?xs ?al i) vals) n = Some info \<longleftrightarrow>
          (\<exists>j < Suc i. n = ins_id (?xs ! j) \<and> info = info_of ?xs ?al j)" for n info
      proof (cases "n = ins_id (?xs ! i)")
        case True
        with fresh have "n = ins_id (?xs ! j) \<longleftrightarrow> j = i" if "j < Suc i" for j
          using that by (metis less_SucE)
        with True show ?thesis by auto
      next
        case False
        with i(2) show ?thesis by (auto simp: values_ok_def less_Suc_eq)
      qed
      with i(2) show ?thesis by (simp add: values_ok_def bt_ok_insert)
    qed
    ultimately show "\<exists>vals'. collect_value ?st vals (?xs ! i) = Inr vals' \<and>
        values_ok ?xs ?al (Suc i) vals'" by blast
  qed
  then show ?thesis by (simp add: collect_values_def)
qed

section \<open>The binding table\<close>

definition entry_ok :: "value_info bt_map \<Rightarrow> external_binding \<Rightarrow> bool" where
  "entry_ok values e \<longleftrightarrow>
     (\<exists>info. bt_get values (eb_node e) = Some info \<and> external_kind (vi_storage info) = Some (eb_kind e))"

text \<open>The table names every external value exactly once, with its kind, and nothing else.\<close>

definition table_ok :: "value_info bt_map \<Rightarrow> external_bindings \<Rightarrow> bool" where
  "table_ok values bindings \<longleftrightarrow>
     distinct (map eb_node bindings) \<and> length bindings \<le> u32_range \<and>
     (\<forall>e \<in> set bindings. entry_ok values e) \<and>
     (\<forall>n info. bt_get values n = Some info \<longrightarrow> external_kind (vi_storage info) \<noteq> None \<longrightarrow>
        n \<in> eb_node ` set bindings)"

definition ids_ok :: "external_bindings \<Rightarrow> nat \<Rightarrow> binding_id bt_map \<Rightarrow> bool" where
  "ids_ok bindings k ids \<longleftrightarrow>
     (\<forall>n i. bt_get ids n = Some i \<longleftrightarrow> i < k \<and> eb_node (bindings ! i) = n)"

lemma bind_entry_Inr:
  "bind_entry values ids (k, e) = Inr ids' \<longleftrightarrow>
     entry_ok values e \<and> k < u32_range \<and> bt_get ids (eb_node e) = None \<and>
     ids' = bt_insert (eb_node e) k ids"
  by (auto simp: bind_entry_def entry_ok_def Let_def outcome_simps split: if_splits)

lemma bind_entries_Inr:
  assumes "try_fold (bind_entry values) [] (enumerate 0 bindings) = Inr ids"
  shows "ids_ok bindings (length bindings) ids \<and> distinct (map eb_node bindings) \<and>
    length bindings \<le> u32_range \<and> (\<forall>e \<in> set bindings. entry_ok values e)"
proof -
  let ?P = "\<lambda>k ids. ids_ok bindings k ids \<and> (\<forall>i < k. entry_ok values (bindings ! i) \<and> i < u32_range \<and>
      (\<forall>j < i. eb_node (bindings ! j) \<noteq> eb_node (bindings ! i)))"
  have "?P (length (enumerate 0 bindings)) ids"
    using assms
  proof (rule try_fold_Inr_induct)
    fix i u v assume i: "i < length (enumerate 0 bindings)" "?P i u"
      "bind_entry values u (enumerate 0 bindings ! i) = Inr v"
    then have e: "entry_ok values (bindings ! i)" "i < u32_range" "bt_get u (eb_node (bindings ! i)) = None"
      "v = bt_insert (eb_node (bindings ! i)) i u" by (simp_all add: bind_entry_Inr)
    from i(2) e(3) have fresh: "\<forall>j < i. eb_node (bindings ! j) \<noteq> eb_node (bindings ! i)"
      unfolding ids_ok_def by (metis option.distinct(1))
    with i(2) e show "?P (Suc i) v" by (auto simp: ids_ok_def less_Suc_eq)
  qed (simp add: ids_ok_def)
  then have all: "?P (length bindings) ids" by simp
  then have "distinct (map eb_node bindings)"
    unfolding distinct_conv_nth by (metis length_map linorder_neqE_nat nth_map)
  moreover have "\<forall>i < length bindings. i < u32_range" using all by blast
  ultimately show ?thesis using all less_range_length by (auto simp: in_set_conv_nth)
qed

lemma bind_entries_total:
  assumes "distinct (map eb_node bindings)" and "length bindings \<le> u32_range"
    and "\<forall>e \<in> set bindings. entry_ok values e"
  shows "\<exists>ids. try_fold (bind_entry values) [] (enumerate 0 bindings) = Inr ids"
proof -
  have "\<exists>ids. try_fold (bind_entry values) [] (enumerate 0 bindings) = Inr ids \<and>
      ids_ok bindings (length (enumerate 0 bindings)) ids"
  proof (rule try_fold_total [where P = "ids_ok bindings"])
    fix i ids assume i: "i < length (enumerate 0 bindings)" "ids_ok bindings i ids"
    have fresh: "\<forall>j < i. eb_node (bindings ! j) \<noteq> eb_node (bindings ! i)"
      using assms(1) i(1) by (auto simp: distinct_conv_nth)
    then have "bt_get ids (eb_node (bindings ! i)) = None"
      using i(2) unfolding ids_ok_def by (meson not_None_eq)
    then have "bind_entry values ids (enumerate 0 bindings ! i) =
        Inr (bt_insert (eb_node (bindings ! i)) i ids)"
      using assms i(1) by (simp add: bind_entry_Inr)
    moreover have "ids_ok bindings (Suc i) (bt_insert (eb_node (bindings ! i)) i ids)"
      using i(2) fresh by (auto simp: ids_ok_def less_Suc_eq)
    ultimately show "\<exists>ids'. bind_entry values ids (enumerate 0 bindings ! i) = Inr ids' \<and>
        ids_ok bindings (Suc i) ids'" by blast
  qed (simp add: ids_ok_def)
  then show ?thesis by blast
qed

lemma validate_bindings_Inr:
  assumes "bt_ok values" and "validate_bindings values bindings = Inr ids"
  shows "table_ok values bindings \<and> ids_ok bindings (length bindings) ids"
proof -
  from assms(2) have fold: "try_fold (bind_entry values) [] (enumerate 0 bindings) = Inr ids"
    and all: "\<forall>p \<in> set values. \<not> (external_kind (vi_storage (snd p)) \<noteq> None \<and> bt_get ids (fst p) = None)"
    by (auto simp: validate_bindings_def outcome_simps)
  note entries = bind_entries_Inr [OF fold]
  have "n \<in> eb_node ` set bindings"
    if "bt_get values n = Some info" "external_kind (vi_storage info) \<noteq> None" for n info
  proof -
    have "(n, info) \<in> set values" using that(1) assms(1) by (simp add: bt_get_mem)
    with all that(2) obtain i where "bt_get ids n = Some i" by fastforce
    with entries show ?thesis by (auto simp: ids_ok_def)
  qed
  with entries show ?thesis by (auto simp: table_ok_def)
qed

lemma validate_bindings_total:
  assumes "bt_ok values" and "table_ok values bindings"
  shows "\<exists>ids. validate_bindings values bindings = Inr ids"
proof -
  obtain ids where fold: "try_fold (bind_entry values) [] (enumerate 0 bindings) = Inr ids"
    using bind_entries_total assms(2) unfolding table_ok_def by blast
  have ids: "ids_ok bindings (length bindings) ids" using bind_entries_Inr [OF fold] by blast
  have "external_kind (vi_storage info) = None" if "(n, info) \<in> set values" "bt_get ids n = None" for n info
  proof (rule ccontr)
    assume "external_kind (vi_storage info) \<noteq> None"
    moreover have "bt_get values n = Some info" using that(1) assms(1) by (simp add: bt_get_mem)
    ultimately have "n \<in> eb_node ` set bindings" using assms(2) unfolding table_ok_def by blast
    then obtain i where "i < length bindings" "eb_node (bindings ! i) = n" by (auto simp: in_set_conv_nth)
    then have "bt_get ids n = Some i" using ids by (simp add: ids_ok_def)
    with that(2) show False by simp
  qed
  then have "for_each (\<lambda>(n, info). require (\<not> (external_kind (vi_storage info) \<noteq> None \<and> bt_get ids n = None))
      (MissingExternalBinding n)) values = Inr ()"
    by (auto simp: outcome_simps)
  then show ?thesis by (simp add: validate_bindings_def fold)
qed

lemma bind_entry_no_panic: "bind_entry values ids p \<noteq> Inl Panic"
  by (cases p) (auto simp: bind_entry_def Let_def outcome_simps split: if_splits)

text \<open>
  the binding table is accepted exactly when it names every external value of the plan once,
  with its kind, names nothing else, and fits 32-bit identifiers; then the identifier of a
  node is the position of its entry, so the caller's order is the calling order. Every other
  table is reported with a typed error.
\<close>

theorem validate_bindings_decides:
  assumes "bt_ok values"
  shows "case validate_bindings values bindings of
      Inr ids \<Rightarrow> table_ok values bindings \<and>
        (\<forall>n i. bt_get ids n = Some i \<longleftrightarrow> i < length bindings \<and> eb_node (bindings ! i) = n)
    | Inl f \<Rightarrow> \<not> table_ok values bindings \<and> f \<noteq> Panic"
proof (cases "validate_bindings values bindings")
  case (Inr ids)
  with validate_bindings_Inr [OF assms Inr] show ?thesis by (simp add: ids_ok_def)
next
  case (Inl f)
  have "try_fold (bind_entry values) ids ps \<noteq> Inl Panic" for ids ps
    using bind_entry_no_panic by (induction ps arbitrary: ids) (auto simp: outcome_simps)
  then have "validate_bindings values bindings \<noteq> Inl Panic"
    by (auto simp: validate_bindings_def outcome_simps dest!: for_each_InlD split: prod.splits)
  with Inl validate_bindings_total [OF assms, of bindings] show ?thesis by auto
qed

theorem validate_bindings_decides_witness:
  "case validate_bindings [(3, \<lparr>vi_storage = ExternalInput, vi_tensor_type = matrix_type\<rparr>)]
      [\<lparr>eb_node = 3, eb_kind = InputKind\<rparr>] of
     Inr ids \<Rightarrow> bt_get ids 3 = Some 0
   | Inl f \<Rightarrow> False"
proof -
  let ?v = "[(3, \<lparr>vi_storage = ExternalInput, vi_tensor_type = matrix_type\<rparr>)]"
  let ?b = "[\<lparr>eb_node = 3, eb_kind = InputKind\<rparr>]"
  have "bt_ok ?v" by (simp add: bt_ok_def)
  moreover have "table_ok ?v ?b" by (auto simp: table_ok_def entry_ok_def external_kind_def)
  ultimately show ?thesis
    using validate_bindings_decides [of ?v ?b] by (cases "validate_bindings ?v ?b") auto
qed

section \<open>The kernel table\<close>

type_synonym signature = "kernel_family \<times> tensor_type list \<times> tensor_type"

definition signature :: "logical_kernel \<Rightarrow> signature" where
  "signature k = (lk_family k, lk_operands k, lk_result k)"

text \<open>Identifiers are positions and no signature occurs twice.\<close>

definition kernels_ok :: "logical_kernel list \<Rightarrow> bool" where
  "kernels_ok ks \<longleftrightarrow> (\<forall>i < length ks. lk_id (ks ! i) = i) \<and> distinct (map signature ks)"

lemma intern_kernel_Inr:
  assumes ok: "kernels_ok ks" and run: "intern_kernel ks n family operands result = Inr (ks', k)"
  shows "kernels_ok ks' \<and> k < length ks' \<and> signature (ks' ! k) = (family, operands, result) \<and>
    (\<exists>new. ks' = ks @ new)"
proof (cases "List.find (\<lambda>k. lk_family k = family \<and> lk_operands k = operands \<and> lk_result k = result) ks")
  case None
  then have "(family, operands, result) \<notin> set (map signature ks)"
    by (auto simp: find_None_iff signature_def)
  with None ok run show ?thesis
    by (auto simp: intern_kernel_def kernels_ok_def outcome_simps nth_append less_Suc_eq signature_def)
next
  case (Some kern)
  then obtain i where "i < length ks" "ks ! i = kern" "lk_family kern = family" "lk_operands kern = operands"
    "lk_result kern = result" by (auto simp: find_Some_iff)
  with Some ok run show ?thesis
    by (auto simp: intern_kernel_def kernels_ok_def signature_def)
qed

lemma intern_kernel_total:
  assumes "length ks < u32_range"
  shows "\<exists>ks' k. intern_kernel ks n family operands result = Inr (ks', k) \<and> length ks' \<le> Suc (length ks)"
  using assms by (auto simp: intern_kernel_def split: option.split)

section \<open>One dispatch\<close>

definition source_ok :: "value_storage \<Rightarrow> binding_id bt_map \<Rightarrow> node_id \<Rightarrow> argument_source \<Rightarrow> bool" where
  "source_ok storage ids n source \<longleftrightarrow>
     (case storage of
        Buffer slot \<Rightarrow> source = FromBuffer slot
      | ExternalInput \<Rightarrow> (\<exists>i. bt_get ids n = Some i \<and> source = FromInput i)
      | ExternalConstant \<Rightarrow> (\<exists>i. bt_get ids n = Some i \<and> source = FromConstant i))"

lemma source_of_Inr [simp]: "source_of n storage ids = Inr source \<longleftrightarrow> source_ok storage ids n source"
  by (auto simp: source_of_def source_ok_def split: value_storage.split)

text \<open>What the lowered form of an instruction says.\<close>

definition dispatch_ok ::
  "value_info bt_map \<Rightarrow> binding_id bt_map \<Rightarrow> logical_kernel list \<Rightarrow> instruction \<Rightarrow> lowered_instruction \<Rightarrow> bool"
where
  "dispatch_ok vals ids ks i li \<longleftrightarrow>
     li_node li = ins_id i \<and> li_sources li = [ins_id i] \<and>
     ld_extent (li_dispatch li) = ty_shape (ins_output i) \<and>
     checked_num_elements (ty_shape (ins_output i)) = Inr (ld_elements (li_dispatch li)) \<and>
     li_kernel li < length ks \<and> lk_result (ks ! li_kernel li) = ins_output i \<and>
     kernel_family (ins_id i) i (lk_operands (ks ! li_kernel li)) (ld_elements (li_dispatch li)) =
       Inr (lk_family (ks ! li_kernel li)) \<and>
     length (li_arguments li) = Suc (length (ins_inputs i)) \<and>
     length (lk_operands (ks ! li_kernel li)) = length (ins_inputs i) \<and>
     (\<forall>p < length (li_arguments li). ka_index (li_arguments li ! p) = p) \<and>
     (\<forall>p < length (ins_inputs i). ka_access (li_arguments li ! p) = ReadAccess \<and>
        ka_tensor_type (li_arguments li ! p) = lk_operands (ks ! li_kernel li) ! p \<and>
        (\<exists>info. bt_get vals (ins_inputs i ! p) = Some info \<and>
           vi_tensor_type info = lk_operands (ks ! li_kernel li) ! p \<and>
           source_ok (vi_storage info) ids (ins_inputs i ! p) (ka_source (li_arguments li ! p)))) \<and>
     (let out = li_arguments li ! length (ins_inputs i) in
      ka_access out = WriteAccess \<and> ka_tensor_type out = ins_output i \<and>
      (\<exists>info. bt_get vals (ins_id i) = Some info \<and>
         source_ok (vi_storage info) ids (ins_id i) (ka_source out)))"

lemma dispatch_ok_append:
  "dispatch_ok vals ids ks i li \<Longrightarrow> dispatch_ok vals ids (ks @ new) i li"
  unfolding dispatch_ok_def by (simp add: nth_append)

lemma read_argument_Inr:
  "read_argument n vals ids (p, input, ty) = Inr arg \<longleftrightarrow>
     p < u32_range \<and> (\<exists>info. bt_get vals input = Some info \<and>
       (\<exists>source. source_ok (vi_storage info) ids input source \<and>
          arg = \<lparr>ka_index = p, ka_source = source, ka_access = ReadAccess, ka_tensor_type = ty\<rparr>))"
  by (auto simp: read_argument_def argument_index_def outcome_simps)

lemma lower_instruction_Inr:
  assumes ok: "kernels_ok ks" and run: "lower_instruction vals ids i ks = Inr (ks', li)"
  shows "kernels_ok ks' \<and> (\<exists>new. ks' = ks @ new) \<and> dispatch_ok vals ids ks' i li \<and>
    length (ins_inputs i) = expected_arity (ins_operation i)"
proof -
  from run obtain operands elements family reads info index source k where
    arity: "length (ins_inputs i) = expected_arity (ins_operation i)"
    and operands: "traverse (\<lambda>input. ok_or (UnknownNode input)
        (map_option vi_tensor_type (bt_get vals input))) (ins_inputs i) = Inr operands"
    and elements: "checked_elements (ins_id i) (ty_shape (ins_output i)) = Inr elements"
    and family: "kernel_family (ins_id i) i operands elements = Inr family"
    and reads: "traverse (read_argument (ins_id i) vals ids)
        (enumerate 0 (zip (ins_inputs i) operands)) = Inr reads"
    and result: "bt_get vals (ins_id i) = Some info" "argument_index (ins_id i) (length reads) = Inr index"
      "source_ok (vi_storage info) ids (ins_id i) source"
    and intern: "intern_kernel ks (ins_id i) family operands (ins_output i) = Inr (ks', k)"
    and li: "li = \<lparr>li_node = ins_id i, li_sources = [ins_id i], li_kernel = k,
        li_arguments = reads @ [\<lparr>ka_index = index, ka_source = source, ka_access = WriteAccess,
          ka_tensor_type = ins_output i\<rparr>],
        li_dispatch = \<lparr>ld_extent = ty_shape (ins_output i), ld_elements = elements\<rparr>\<rparr>"
    by (auto simp: lower_instruction_def Let_def outcome_simps)
  have len: "length operands = length (ins_inputs i)" using operands by (rule traverse_length)
  then have rlen: "length reads = length (ins_inputs i)" using traverse_length [OF reads] by simp
  have index: "index = length reads" using result(2) by (simp add: argument_index_def)
  have types: "\<exists>info. bt_get vals (ins_inputs i ! p) = Some info \<and> vi_tensor_type info = operands ! p"
    if "p < length (ins_inputs i)" for p
    using operands that by (auto simp: traverse_Inr)
  have args: "read_argument (ins_id i) vals ids (p, ins_inputs i ! p, operands ! p) = Inr (reads ! p)"
    if "p < length (ins_inputs i)" for p
    using reads that by (simp add: traverse_Inr len)
  note kern = intern_kernel_Inr [OF ok intern]
  then have sig: "lk_family (ks' ! k) = family" "lk_operands (ks' ! k) = operands" "lk_result (ks' ! k) = ins_output i"
    by (auto simp: signature_def)
  have "ka_index (li_arguments li ! p) = p" if "p < length (li_arguments li)" for p
    using that args [of p] rlen index by (auto simp: li nth_append read_argument_Inr less_Suc_eq)
  moreover have "ka_access (reads ! p) = ReadAccess \<and> ka_tensor_type (reads ! p) = operands ! p \<and>
      (\<exists>info. bt_get vals (ins_inputs i ! p) = Some info \<and> vi_tensor_type info = operands ! p \<and>
         source_ok (vi_storage info) ids (ins_inputs i ! p) (ka_source (reads ! p)))"
    if "p < length (ins_inputs i)" for p
    using types [OF that] args [OF that] by (auto simp: read_argument_Inr)
  ultimately have "dispatch_ok vals ids ks' i li"
    using kern sig elements family result len rlen
    unfolding dispatch_ok_def by (simp add: li nth_append checked_elements_def Let_def)
  with kern arity show ?thesis by blast
qed

definition lowered_ok ::
  "value_info bt_map \<Rightarrow> binding_id bt_map \<Rightarrow> instruction list \<Rightarrow> logical_kernel list \<times> lowered_instruction list \<Rightarrow> bool"
where
  "lowered_ok vals ids xs st \<longleftrightarrow> kernels_ok (fst st) \<and>
     list_all2 (dispatch_ok vals ids (fst st)) (filter (\<lambda>i. computed (ins_operation i)) xs) (snd st)"

lemma lower_step_Inr:
  assumes "lowered_ok vals ids xs st" and "lower_step vals ids st i = Inr st'"
  shows "lowered_ok vals ids (xs @ [i]) st'"
proof (cases "computed (ins_operation i)")
  case False
  with assms(2) have "st' = st"
    by (cases "ins_operation i") (auto simp: lower_step_def computed_def split: prod.splits)
  with assms(1) False show ?thesis by (simp add: lowered_ok_def)
next
  case True
  obtain ks lis where st: "st = (ks, lis)" by (cases st)
  from assms(2) True obtain ks' li where run: "lower_instruction vals ids i ks = Inr (ks', li)"
    and st': "st' = (ks', lis @ [li])"
    by (cases "ins_operation i") (auto simp: lower_step_def computed_def st outcome_simps)
  from assms(1) have ok: "kernels_ok ks"
    and all: "list_all2 (dispatch_ok vals ids ks) (filter (\<lambda>i. computed (ins_operation i)) xs) lis"
    by (simp_all add: lowered_ok_def st)
  note lowered = lower_instruction_Inr [OF ok run]
  then have "list_all2 (dispatch_ok vals ids ks') (filter (\<lambda>i. computed (ins_operation i)) xs) lis"
    using all by (auto elim!: list_all2_mono intro: dispatch_ok_append)
  with lowered True show ?thesis
    by (simp add: lowered_ok_def st' list_all2_appendI)
qed

lemma lower_steps_Inr:
  assumes "try_fold (lower_step vals ids) ([], []) xs = Inr st"
  shows "lowered_ok vals ids xs st"
proof -
  have "lowered_ok vals ids (take (length xs) xs) st"
    using assms
  proof (rule try_fold_Inr_induct [where P = "\<lambda>k. lowered_ok vals ids (take k xs)"])
    show "lowered_ok vals ids (take 0 xs) ([], [])" by (simp add: lowered_ok_def kernels_ok_def)
    fix i u v assume "i < length xs" "lowered_ok vals ids (take i xs) u" "lower_step vals ids u (xs ! i) = Inr v"
    with lower_step_Inr show "lowered_ok vals ids (take (Suc i) xs) v" by (simp add: take_Suc_conv_app_nth)
  qed
  then show ?thesis by simp
qed

lemma lower_plan_Inr:
  assumes "lower_plan plan bindings = Inr lp"
  obtains vals ids where "collect_values plan = Inr vals" "validate_bindings vals bindings = Inr ids"
    "lowered_ok vals ids (ep_instructions plan) (lp_kernels lp, lp_instructions lp)"
    "traverse (lower_output vals ids) (ep_outputs plan) = Inr (lp_outputs lp)" "lp_bindings lp = bindings"
  using assms lower_steps_Inr
  by (fastforce simp: lower_plan_def outcome_simps)

text \<open>
  whatever plan and table it is given, a lowering that succeeds produces a consistent
  plan: kernel identifiers are positions and no signature is generated twice, there is one
  dispatch per computed instruction in plan order, and every dispatch uses an existing kernel
  whose operand types are the types of its read arguments and whose result type is that of
  its single write argument, with argument indices equal to their positions.
\<close>

theorem lower_plan_consistent:
  assumes "lower_plan plan bindings = Inr lp"
  shows "kernels_ok (lp_kernels lp) \<and> lp_bindings lp = bindings \<and>
    map li_node (lp_instructions lp) =
      map ins_id (filter (\<lambda>i. computed (ins_operation i)) (ep_instructions plan)) \<and>
    map lo_node (lp_outputs lp) = ep_outputs plan \<and>
    (\<forall>d \<in> set (lp_instructions lp).
       let k = lp_kernels lp ! li_kernel d; args = li_arguments d in
       li_kernel d < length (lp_kernels lp) \<and>
       map ka_index args = [0..<length args] \<and>
       map ka_tensor_type args = lk_operands k @ [lk_result k] \<and>
       map ka_access args = replicate (length (lk_operands k)) ReadAccess @ [WriteAccess] \<and>
       checked_num_elements (ld_extent (li_dispatch d)) = Inr (ld_elements (li_dispatch d)) \<and>
       ld_extent (li_dispatch d) = ty_shape (lk_result k))"
proof -
  from assms obtain vals ids where ok: "lowered_ok vals ids (ep_instructions plan) (lp_kernels lp, lp_instructions lp)"
    and outs: "traverse (lower_output vals ids) (ep_outputs plan) = Inr (lp_outputs lp)"
    and binds: "lp_bindings lp = bindings"
    by (rule lower_plan_Inr)
  let ?xs = "filter (\<lambda>i. computed (ins_operation i)) (ep_instructions plan)"
  from ok have all: "list_all2 (dispatch_ok vals ids (lp_kernels lp)) ?xs (lp_instructions lp)"
    and kernels: "kernels_ok (lp_kernels lp)" by (simp_all add: lowered_ok_def)
  have "map li_node (lp_instructions lp) = map ins_id ?xs"
    using all by (induction rule: list_all2_induct) (simp_all add: dispatch_ok_def)
  moreover have "map lo_node (lp_outputs lp) = ep_outputs plan"
  proof (intro nth_equalityI)
    fix k assume "k < length (map lo_node (lp_outputs lp))"
    then have "k < length (ep_outputs plan)" "k < length (lp_outputs lp)" using outs by (simp_all add: traverse_Inr)
    moreover from this have "lower_output vals ids (ep_outputs plan ! k) = Inr (lp_outputs lp ! k)"
      using outs by (simp add: traverse_Inr)
    ultimately show "map lo_node (lp_outputs lp) ! k = ep_outputs plan ! k"
      by (auto simp: lower_output_def outcome_simps) (metis lowered_output.select_convs(1))
  qed (use outs in \<open>simp add: traverse_Inr\<close>)
  moreover have "let k = lp_kernels lp ! li_kernel d; args = li_arguments d in
       li_kernel d < length (lp_kernels lp) \<and>
       map ka_index args = [0..<length args] \<and>
       map ka_tensor_type args = lk_operands k @ [lk_result k] \<and>
       map ka_access args = replicate (length (lk_operands k)) ReadAccess @ [WriteAccess] \<and>
       checked_num_elements (ld_extent (li_dispatch d)) = Inr (ld_elements (li_dispatch d)) \<and>
       ld_extent (li_dispatch d) = ty_shape (lk_result k)"
    if d: "d \<in> set (lp_instructions lp)" for d
  proof -
    from all d obtain i where i: "dispatch_ok vals ids (lp_kernels lp) i d"
      by (auto simp: list_all2_conv_all_nth in_set_conv_nth)
    note i = i [unfolded dispatch_ok_def Let_def]
    have types: "map ka_tensor_type (li_arguments d) =
        lk_operands (lp_kernels lp ! li_kernel d) @ [lk_result (lp_kernels lp ! li_kernel d)]"
      using i by (intro nth_equalityI) (auto simp: nth_append less_Suc_eq)
    have access: "map ka_access (li_arguments d) =
        replicate (length (lk_operands (lp_kernels lp ! li_kernel d))) ReadAccess @ [WriteAccess]"
      using i by (intro nth_equalityI) (auto simp: nth_append less_Suc_eq)
    have index: "map ka_index (li_arguments d) = [0..<length (li_arguments d)]"
      using i by (intro nth_equalityI) (auto simp del: upt_Suc)
    have "ld_extent (li_dispatch d) = ty_shape (lk_result (lp_kernels lp ! li_kernel d))"
      "checked_num_elements (ld_extent (li_dispatch d)) = Inr (ld_elements (li_dispatch d))"
      "li_kernel d < length (lp_kernels lp)" using i by simp_all
    with types access index show ?thesis unfolding Let_def by blast
  qed
  ultimately show ?thesis using kernels binds by blast
qed

text \<open>A concrete plan for the witnesses: one input and its \<open>relu\<close>, compiled.\<close>

lemma example_graph_wf: "wf_graph example_graph"
  using example_graph_valid(1) by (simp add: validate_iff_wf)

definition example_plan :: execution_plan where
  "example_plan =
     \<lparr>ep_instructions =
        [\<lparr>ins_id = 0, ins_operation = Input ''x'', ins_inputs = [], ins_output = matrix_type\<rparr>,
         \<lparr>ins_id = 1, ins_operation = Relu, ins_inputs = [0], ins_output = matrix_type\<rparr>],
      ep_outputs = [1],
      ep_memory = \<lparr>mp_allocations =
          [\<lparr>va_node = 0, va_storage = ExternalInput\<rparr>, \<lparr>va_node = 1, va_storage = Buffer 0\<rparr>],
        mp_slots = [\<lparr>bs_slot = 0, bs_tensor_type = matrix_type\<rparr>], mp_peak_live_buffers = 1\<rparr>,
      ep_stats = \<lparr>cs_original_nodes = 2, cs_retained_nodes = 2, cs_eliminated_nodes = 0,
        cs_allocated_buffer_slots = 1, cs_reused_buffer_values = 0, cs_peak_live_buffers = 1\<rparr>\<rparr>"

lemma example_plan_lowered:
  "lower_plan example_plan (derive_bindings example_plan) =
     Inr \<lparr>lp_kernels = [\<lparr>lk_id = 0, lk_family = ElementwiseUnary ReluKernel,
            lk_operands = [matrix_type], lk_result = matrix_type\<rparr>],
          lp_instructions = [\<lparr>li_node = 1, li_sources = [1], li_kernel = 0,
            li_arguments =
              [\<lparr>ka_index = 0, ka_source = FromInput 0, ka_access = ReadAccess, ka_tensor_type = matrix_type\<rparr>,
               \<lparr>ka_index = 1, ka_source = FromBuffer 0, ka_access = WriteAccess, ka_tensor_type = matrix_type\<rparr>],
            li_dispatch = \<lparr>ld_extent = [2, 2], ld_elements = 4\<rparr>\<rparr>],
          lp_bindings = [\<lparr>eb_node = 0, eb_kind = InputKind\<rparr>],
          lp_outputs = [\<lparr>lo_node = 1, lo_source = FromBuffer 0\<rparr>]\<rparr>"
proof -
  have "checked_num_elements [2, 2] = Inr 4"
    by (simp add: checked_num_elements_def)
  then show ?thesis
    by (simp add: lower_plan_def example_plan_def derive_bindings_def List.map_filter_simps
        external_kind_def collect_values_def collect_value_def validate_bindings_def bind_entry_def
        lower_step_def lower_instruction_def checked_elements_def matrix_type_def tensor_type_new_def
        kernel_family_def uniform_unary_def require_uniform_operands_def read_argument_def
        argument_index_def source_of_def intern_kernel_def lower_output_def require_def Let_def)
qed

theorem lower_plan_consistent_witness:
  "\<exists>lp. lower_plan example_plan (derive_bindings example_plan) = Inr lp \<and> kernels_ok (lp_kernels lp) \<and>
     map li_node (lp_instructions lp) = [1] \<and> map lo_node (lp_outputs lp) = [1]"
proof -
  note lowered = lower_plan_consistent [OF example_plan_lowered]
  have "map ins_id (filter (\<lambda>i. computed (ins_operation i)) (ep_instructions example_plan)) = [1]"
    "ep_outputs example_plan = [1]"
    by (simp_all add: example_plan_def computed_def)
  with lowered example_plan_lowered show ?thesis by auto
qed

end
