(* ===== verification/Plan_Execution.thy ===== *)
theory Plan_Execution
  imports Lowering_Correct
begin

text \<open>
  The lowered plan refines the graph. The reference semantics gives every node of a graph a
  value, from an interpretation of the operations; the abstract machine runs the dispatches of
  a lowered plan on one cell per buffer slot, from an interpretation of the kernels (generated
  code, a parameter). If every kernel implements its operation, the machine computes the
  values of the graph: dead-node elimination, slot reuse, external bindings and kernel
  deduplication change no result.
\<close>

section \<open>Kernels implement operations\<close>

text \<open>The kernel family of an operation that has one.\<close>

fun family_of :: "operation \<Rightarrow> kernel_family option" where
  "family_of Add = Some (ElementwiseBinary AddKernel)"
| "family_of Sub = Some (ElementwiseBinary SubKernel)"
| "family_of Mul = Some (ElementwiseBinary MulKernel)"
| "family_of Div = Some (ElementwiseBinary DivKernel)"
| "family_of Relu = Some (ElementwiseUnary ReluKernel)"
| "family_of Exp = Some (ElementwiseUnary ExpKernel)"
| "family_of Log = Some (ElementwiseUnary LogKernel)"
| "family_of ZerosLike = Some (ElementwiseUnary ZerosLikeKernel)"
| "family_of OnesLike = Some (ElementwiseUnary OnesLikeKernel)"
| "family_of (Scale factor) = Some (ElementwiseUnary (ScaleKernel factor))"
| "family_of MatMul = Some MatMulKernel"
| "family_of BatchMatMul = Some BatchMatMulKernel"
| "family_of (Reshape _) = Some ShapeCopy"
| "family_of (Transpose permutation) = Some (Permute permutation)"
| "family_of _ = None"

lemma kernel_family_family_of:
  assumes "kernel_family n i tys elements = Inr family"
  shows "family_of (ins_operation i) = Some family"
  using assms
  by (cases "ins_operation i")
    (auto simp: kernel_family_def uniform_unary_def uniform_binary_def matrix_product_def
      outcome_simps Let_def split: if_splits)

type_synonym 'v operation_semantics = "operation \<Rightarrow> tensor_type list \<Rightarrow> tensor_type \<Rightarrow> 'v list \<Rightarrow> 'v"
type_synonym 'v kernel_semantics = "kernel_family \<Rightarrow> tensor_type list \<Rightarrow> tensor_type \<Rightarrow> 'v list \<Rightarrow> 'v"

locale kernel_generator =
  fixes opsem :: "'v operation_semantics" and ksem :: "'v kernel_semantics"
  assumes implements: "family_of oper = Some family \<Longrightarrow> ksem family tys out vs = opsem oper tys out vs"
begin

lemma lowered_family:
  "kernel_family n i tys elements = Inr family \<Longrightarrow> ksem family ts out vs = opsem (ins_operation i) ts out vs"
  using kernel_family_family_of implements by blast

end

text \<open>The kernels of the model itself: reading the operation back from the family.\<close>

definition direct_semantics :: "'v kernel_semantics \<Rightarrow> 'v operation_semantics" where
  "direct_semantics ksem oper = ksem (the (family_of oper))"

interpretation direct: kernel_generator "direct_semantics ksem" ksem for ksem
  by unfold_locales (simp add: direct_semantics_def)

section \<open>The value of a node\<close>

function node_value ::
  "'v operation_semantics \<Rightarrow> (node_id \<Rightarrow> 'v) \<Rightarrow> node list \<Rightarrow> node_id \<Rightarrow> 'v" where
  "node_value opsem ext ns i =
     (if computed (node_operation (ns ! i))
      then opsem (node_operation (ns ! i)) (map (type_of ns) (node_inputs (ns ! i))) (node_output (ns ! i))
             (map (\<lambda>k. if k < i then node_value opsem ext ns k else ext k) (node_inputs (ns ! i)))
      else ext i)"
  by pat_completeness auto
termination by (relation "measure (\<lambda>(_, _, _, i). i)") auto

declare node_value.simps [simp del]

section \<open>The abstract machine\<close>

type_synonym 'v cells = "buffer_slot \<rightharpoonup> 'v"

definition read_source :: "(binding_id \<Rightarrow> 'v) \<Rightarrow> 'v cells \<Rightarrow> argument_source \<Rightarrow> 'v option" where
  "read_source extern cells source =
     (case source of
        FromInput b \<Rightarrow> Some (extern b)
      | FromConstant b \<Rightarrow> Some (extern b)
      | FromBuffer s \<Rightarrow> cells s)"

definition run_dispatch ::
  "'v kernel_semantics \<Rightarrow> (binding_id \<Rightarrow> 'v) \<Rightarrow> logical_kernel list \<Rightarrow> 'v cells \<Rightarrow> lowered_instruction
     \<Rightarrow> 'v cells option" where
  "run_dispatch ksem extern kernels cells d =
     Option.bind (get kernels (li_kernel d)) (\<lambda>k.
     Option.bind (those (map (\<lambda>a. read_source extern cells (ka_source a))
                           (filter (\<lambda>a. ka_access a = ReadAccess) (li_arguments d)))) (\<lambda>vs.
       case map ka_source (filter (\<lambda>a. ka_access a = WriteAccess) (li_arguments d)) of
         [FromBuffer s] \<Rightarrow> Some (cells(s \<mapsto> ksem (lk_family k) (lk_operands k) (lk_result k) vs))
       | _ \<Rightarrow> None))"

definition run_dispatches ::
  "'v kernel_semantics \<Rightarrow> (binding_id \<Rightarrow> 'v) \<Rightarrow> logical_kernel list \<Rightarrow> lowered_instruction list
     \<Rightarrow> 'v cells option" where
  "run_dispatches ksem extern kernels ds =
     foldl (\<lambda>cells d. Option.bind cells (\<lambda>cells. run_dispatch ksem extern kernels cells d)) (Some Map.empty) ds"

definition run_lowered ::
  "'v kernel_semantics \<Rightarrow> (binding_id \<Rightarrow> 'v) \<Rightarrow> lowered_plan \<Rightarrow> 'v option list option" where
  "run_lowered ksem extern lp =
     map_option (\<lambda>cells. map (\<lambda>out. read_source extern cells (lo_source out)) (lp_outputs lp))
       (run_dispatches ksem extern (lp_kernels lp) (lp_instructions lp))"

lemma those_map: "\<forall>x \<in> set xs. f x = Some (g x) \<Longrightarrow> those (map f xs) = Some (map g xs)"
  by (induction xs) auto

section \<open>The simulation\<close>

text \<open>
  What the values of the instructions satisfy, for any valuation of the identifiers: the link
  between the instruction list and the node list.
\<close>

definition valued ::
  "'v operation_semantics \<Rightarrow> (node_id \<Rightarrow> 'v) \<Rightarrow> (node_id \<Rightarrow> tensor_type) \<Rightarrow> (node_id \<Rightarrow> 'v)
     \<Rightarrow> instruction list \<Rightarrow> bool" where
  "valued opsem ext ty val xs \<longleftrightarrow> (\<forall>i < length xs.
     ins_output (xs ! i) = ty (ins_id (xs ! i)) \<and>
     val (ins_id (xs ! i)) =
       (if computed (ins_operation (xs ! i))
        then opsem (ins_operation (xs ! i)) (map ty (ins_inputs (xs ! i))) (ins_output (xs ! i))
               (map val (ins_inputs (xs ! i)))
        else ext (ins_id (xs ! i))))"

text \<open>A cell holds the value of the last instruction so far that writes its slot.\<close>

definition cells_ok ::
  "(node_id \<Rightarrow> 'v) \<Rightarrow> instruction list \<Rightarrow> value_allocation list \<Rightarrow> nat \<Rightarrow> 'v cells \<Rightarrow> bool" where
  "cells_ok val xs al k cells \<longleftrightarrow>
     (\<forall>i s. i < k \<longrightarrow> slot_at al i s \<longrightarrow> (\<forall>j. i < j \<longrightarrow> j < k \<longrightarrow> \<not> slot_at al j s) \<longrightarrow>
        cells s = Some (val (ins_id (xs ! i))))"

text \<open>Everything the run relies on: the schedule, the memory plan, and the binding table.\<close>

definition runnable ::
  "instruction list \<Rightarrow> node_id list \<Rightarrow> memory_plan \<Rightarrow> external_bindings \<Rightarrow> value_info bt_map
     \<Rightarrow> binding_id bt_map \<Rightarrow> bool" where
  "runnable xs outs memory bindings vals ids \<longleftrightarrow>
     schedule_ok xs outs \<and> plan_safe xs outs memory \<and>
     values_ok xs (mp_allocations memory) (length xs) vals \<and> ids_ok bindings (length bindings) ids"

lemma runnable_allocation:
  assumes "runnable xs outs memory bindings vals ids" and "i < length xs"
  shows "length (mp_allocations memory) = length xs"
    and "storage_matches (ins_operation (xs ! i)) (va_storage (mp_allocations memory ! i))"
proof -
  have safe: "plan_safe xs outs memory" using assms(1) by (simp add: runnable_def)
  then have "map va_node (mp_allocations memory) = map ins_id xs" by (simp add: plan_safe_def Let_def)
  then show "length (mp_allocations memory) = length xs" by (metis length_map)
  show "storage_matches (ins_operation (xs ! i)) (va_storage (mp_allocations memory ! i))"
    using safe assms(2) by (simp add: plan_safe_def Let_def)
qed

lemma runnable_info:
  assumes "runnable xs outs memory bindings vals ids" and "i < length xs"
    and "bt_get vals (ins_id (xs ! i)) = Some info"
  shows "info = info_of xs (mp_allocations memory) i"
proof -
  have "distinct (map ins_id xs)" using assms(1) by (simp add: runnable_def schedule_ok_def)
  moreover obtain j where "j < length xs" "ins_id (xs ! i) = ins_id (xs ! j)"
    "info = info_of xs (mp_allocations memory) j"
    using assms by (auto simp: runnable_def values_ok_def)
  ultimately show ?thesis using assms(2) by (metis (no_types, lifting) distinct_conv_nth length_map nth_map)
qed

text \<open>Reading the source of a value that no later instruction has overwritten yields the value.\<close>

lemma read_value:
  assumes run: "runnable xs outs memory bindings vals ids" and val: "valued opsem ext ty val xs"
    and cells: "cells_ok val xs (mp_allocations memory) k cells" and i: "i < length xs" "i < k"
    and kept: "\<And>s j. slot_at (mp_allocations memory) i s \<Longrightarrow> i < j \<Longrightarrow> j < k \<Longrightarrow> \<not> slot_at (mp_allocations memory) j s"
    and source: "source_ok (va_storage (mp_allocations memory ! i)) ids (ins_id (xs ! i)) source"
  shows "read_source (\<lambda>b. ext (eb_node (bindings ! b))) cells source = Some (val (ins_id (xs ! i)))"
proof (cases "va_storage (mp_allocations memory ! i)")
  case (Buffer s)
  then have "slot_at (mp_allocations memory) i s"
    using runnable_allocation(1) [OF run i(1)] i(1) by (simp add: slot_at_def)
  with cells i(2) kept have "cells s = Some (val (ins_id (xs ! i)))" unfolding cells_ok_def by blast
  with source Buffer show ?thesis by (simp add: source_ok_def read_source_def)
next
  case ExternalInput
  then have "\<not> computed (ins_operation (xs ! i))"
    using runnable_allocation(2) [OF run i(1)] computed_assign(2) by (fastforce simp: is_buffer_def)
  moreover obtain b where b: "bt_get ids (ins_id (xs ! i)) = Some b" "source = FromInput b"
    using source ExternalInput by (auto simp: source_ok_def)
  moreover have "eb_node (bindings ! b) = ins_id (xs ! i)" using run b(1) by (simp add: runnable_def ids_ok_def)
  ultimately show ?thesis using val i(1) by (simp add: read_source_def valued_def)
next
  case ExternalConstant
  then have "\<not> computed (ins_operation (xs ! i))"
    using runnable_allocation(2) [OF run i(1)] computed_assign(2) by (fastforce simp: is_buffer_def)
  moreover obtain b where b: "bt_get ids (ins_id (xs ! i)) = Some b" "source = FromConstant b"
    using source ExternalConstant by (auto simp: source_ok_def)
  moreover have "eb_node (bindings ! b) = ins_id (xs ! i)" using run b(1) by (simp add: runnable_def ids_ok_def)
  ultimately show ?thesis using val i(1) by (simp add: read_source_def valued_def)
qed

text \<open>The arguments of a dispatch: the operands in order, then the result.\<close>

lemma dispatch_arguments:
  assumes "dispatch_ok vals ids ks i d"
  shows "filter (\<lambda>a. ka_access a = ReadAccess) (li_arguments d) =
      map ((!) (li_arguments d)) [0..<length (ins_inputs i)]"
    and "filter (\<lambda>a. ka_access a = WriteAccess) (li_arguments d) =
      [li_arguments d ! length (ins_inputs i)]"
proof -
  let ?n = "length (ins_inputs i)" and ?as = "li_arguments d"
  have len: "length ?as = Suc ?n" and reads: "\<forall>p < ?n. ka_access (?as ! p) = ReadAccess"
    and out: "ka_access (?as ! ?n) = WriteAccess"
    using assms by (auto simp: dispatch_ok_def Let_def)
  have split: "?as = map ((!) ?as) [0..<?n] @ [?as ! ?n]"
    using len by (intro nth_equalityI) (auto simp: nth_append less_Suc_eq)
  have read: "\<forall>a \<in> set (map ((!) ?as) [0..<?n]). ka_access a = ReadAccess" using reads by auto
  have "filter (\<lambda>a. ka_access a = ReadAccess) (map ((!) ?as) [0..<?n]) = map ((!) ?as) [0..<?n]"
    using read by (simp only: filter_id_conv)
  moreover have "filter (\<lambda>a. ka_access a = WriteAccess) (map ((!) ?as) [0..<?n]) = []"
    using read by (simp only: filter_empty_conv) simp
  ultimately show "filter (\<lambda>a. ka_access a = ReadAccess) ?as = map ((!) ?as) [0..<?n]"
    "filter (\<lambda>a. ka_access a = WriteAccess) ?as = [?as ! ?n]"
    using out arg_cong [OF split, of "filter (\<lambda>a. ka_access a = ReadAccess)"]
      arg_cong [OF split, of "filter (\<lambda>a. ka_access a = WriteAccess)"]
    by simp_all
qed

text \<open>An operand was defined by an earlier instruction and nothing has overwritten its slot.\<close>

lemma operand_kept:
  assumes run: "runnable xs outs memory bindings vals ids" and k: "k < length xs"
    and n: "n \<in> set (ins_inputs (xs ! k))"
  obtains i where "i < k" "ins_id (xs ! i) = n"
    "\<And>s j. slot_at (mp_allocations memory) i s \<Longrightarrow> i < j \<Longrightarrow> j < k \<Longrightarrow> \<not> slot_at (mp_allocations memory) j s"
proof -
  from run k n obtain i where i: "i < k" "ins_id (xs ! i) = n"
    unfolding runnable_def schedule_ok_def by blast
  moreover have "\<not> slot_at (mp_allocations memory) j s"
    if "slot_at (mp_allocations memory) i s" "i < j" "j < k" for s j
  proof
    assume "slot_at (mp_allocations memory) j s"
    with run that(1,2) k n i(2) have "k < j" unfolding runnable_def plan_safe_def Let_def by blast
    with that(3) show False by simp
  qed
  ultimately show ?thesis using that by blast
qed

lemma operand_read:
  assumes run: "runnable xs outs memory bindings vals ids" and val: "valued opsem ext ty val xs"
    and cells: "cells_ok val xs (mp_allocations memory) k cells" and k: "k < length xs"
    and n: "n \<in> set (ins_inputs (xs ! k))" and info: "bt_get vals n = Some info"
    and source: "source_ok (vi_storage info) ids n source"
  shows "read_source (\<lambda>b. ext (eb_node (bindings ! b))) cells source = Some (val n) \<and>
    vi_tensor_type info = ty n"
proof -
  from operand_kept [OF run k n] obtain i where i: "i < k" "ins_id (xs ! i) = n"
    and kept: "\<And>s j. slot_at (mp_allocations memory) i s \<Longrightarrow> i < j \<Longrightarrow> j < k \<Longrightarrow>
      \<not> slot_at (mp_allocations memory) j s" by metis
  have il: "i < length xs" using i(1) k by simp
  have "info = info_of xs (mp_allocations memory) i"
    using runnable_info [OF run il] info i(2) by simp
  with source i(2) have "source_ok (va_storage (mp_allocations memory ! i)) ids (ins_id (xs ! i)) source"
    "vi_tensor_type info = ins_output (xs ! i)" by (simp_all add: info_of_def)
  with read_value [OF run val cells il i(1) kept] val il i(2) show ?thesis
    by (simp add: valued_def)
qed

lemma cells_ok_write:
  assumes "cells_ok val xs al k cells" and "slot_at al k s"
  shows "cells_ok val xs al (Suc k) (cells(s \<mapsto> val (ins_id (xs ! k))))"
  unfolding cells_ok_def
proof (intro allI impI)
  fix i s' assume i: "i < Suc k" "slot_at al i s'" and last: "\<forall>j. i < j \<longrightarrow> j < Suc k \<longrightarrow> \<not> slot_at al j s'"
  show "(cells(s \<mapsto> val (ins_id (xs ! k)))) s' = Some (val (ins_id (xs ! i)))"
  proof (cases "i = k")
    case True
    with i(2) assms(2) show ?thesis by (simp add: slot_at_def)
  next
    case False
    with i(1) have "i < k" by simp
    with last have "\<not> slot_at al k s'" by blast
    with assms(2) have "s' \<noteq> s" by metis
    moreover have "cells s' = Some (val (ins_id (xs ! i)))"
      using assms(1) \<open>i < k\<close> i(2) last unfolding cells_ok_def by (meson less_SucI)
    ultimately show ?thesis by simp
  qed
qed

lemma cells_ok_skip:
  assumes "cells_ok val xs al k cells" and "\<And>s. \<not> slot_at al k s"
  shows "cells_ok val xs al (Suc k) cells"
  using assms unfolding cells_ok_def by (metis less_Suc_eq)

context kernel_generator
begin

text \<open>One dispatch writes the value of its instruction.\<close>

lemma run_dispatch_value:
  assumes run: "runnable xs outs memory bindings vals ids" and val: "valued opsem ext ty val xs"
    and cells: "cells_ok val xs (mp_allocations memory) k cells" and k: "k < length xs"
    and comp: "computed (ins_operation (xs ! k))" and d: "dispatch_ok vals ids ks (xs ! k) d"
  shows "\<exists>cells'. run_dispatch ksem (\<lambda>b. ext (eb_node (bindings ! b))) ks cells d = Some cells' \<and>
    cells_ok val xs (mp_allocations memory) (Suc k) cells'"
proof -
  let ?i = "xs ! k" and ?as = "li_arguments d" and ?extern = "\<lambda>b. ext (eb_node (bindings ! b))"
  note d' = d [unfolded dispatch_ok_def Let_def]
  have operand: "read_source ?extern cells (ka_source (?as ! p)) = Some (val (ins_inputs ?i ! p)) \<and>
      lk_operands (ks ! li_kernel d) ! p = ty (ins_inputs ?i ! p)" if p: "p < length (ins_inputs ?i)" for p
  proof -
    from d' p obtain info where "bt_get vals (ins_inputs ?i ! p) = Some info"
      "vi_tensor_type info = lk_operands (ks ! li_kernel d) ! p"
      "source_ok (vi_storage info) ids (ins_inputs ?i ! p) (ka_source (?as ! p))" by blast
    with operand_read [OF run val cells k nth_mem [OF p]] show ?thesis by metis
  qed
  then have operands: "lk_operands (ks ! li_kernel d) = map ty (ins_inputs ?i)"
    using d' by (intro nth_equalityI) auto
  have "those (map (\<lambda>a. read_source ?extern cells (ka_source a)) (map ((!) ?as) [0..<length (ins_inputs ?i)])) =
      those (map (\<lambda>p. Some (val (ins_inputs ?i ! p))) [0..<length (ins_inputs ?i)])"
    using operand by (auto intro!: arg_cong [where f = those])
  also have "\<dots> = Some (map (\<lambda>p. val (ins_inputs ?i ! p)) [0..<length (ins_inputs ?i)])"
    by (rule those_map) simp
  also have "map (\<lambda>p. val (ins_inputs ?i ! p)) [0..<length (ins_inputs ?i)] = map val (ins_inputs ?i)"
    by (intro nth_equalityI) auto
  finally have reads: "those (map (\<lambda>a. read_source ?extern cells (ka_source a))
      (map ((!) ?as) [0..<length (ins_inputs ?i)])) = Some (map val (ins_inputs ?i))" .
  note alloc = runnable_allocation [OF run k]
  then obtain s where s: "va_storage (mp_allocations memory ! k) = Buffer s"
    using computed_assign(2) [OF comp] by (auto simp: is_buffer_def split: value_storage.splits)
  then have slot: "slot_at (mp_allocations memory) k s" using k alloc(1) by (simp add: slot_at_def)
  from d' obtain info where "bt_get vals (ins_id ?i) = Some info"
    "source_ok (vi_storage info) ids (ins_id ?i) (ka_source (?as ! length (ins_inputs ?i)))" by blast
  with runnable_info [OF run k] s have target: "ka_source (?as ! length (ins_inputs ?i)) = FromBuffer s"
    by (auto simp: info_of_def source_ok_def)
  have "ksem (lk_family (ks ! li_kernel d)) (map ty (ins_inputs ?i)) (ins_output ?i) (map val (ins_inputs ?i)) =
      val (ins_id ?i)"
    using val k comp d' lowered_family unfolding valued_def by metis
  moreover have kern: "get ks (li_kernel d) = Some (ks ! li_kernel d)" and "lk_result (ks ! li_kernel d) = ins_output ?i"
    using d' by simp_all
  ultimately have "run_dispatch ksem ?extern ks cells d = Some (cells(s \<mapsto> val (ins_id ?i)))"
    by (simp add: run_dispatch_def kern dispatch_arguments [OF d] reads [unfolded map_map] target operands)
  with cells_ok_write [OF cells slot] show ?thesis by blast
qed

text \<open>All dispatches of the computed instructions of a prefix.\<close>

lemma run_dispatches_snoc:
  "run_dispatches ksem extern ks (ds @ [d]) =
     Option.bind (run_dispatches ksem extern ks ds) (\<lambda>cells. run_dispatch ksem extern ks cells d)"
  by (simp add: run_dispatches_def)

lemma run_dispatches_values:
  assumes run: "runnable xs outs memory bindings vals ids" and val: "valued opsem ext ty val xs"
    and "k \<le> length xs"
    and "list_all2 (dispatch_ok vals ids ks) (filter (\<lambda>i. computed (ins_operation i)) (take k xs)) ds"
  shows "\<exists>cells. run_dispatches ksem (\<lambda>b. ext (eb_node (bindings ! b))) ks ds = Some cells \<and>
    cells_ok val xs (mp_allocations memory) k cells"
  using assms(3,4)
proof (induction k arbitrary: ds)
  case 0
  then show ?case by (simp add: run_dispatches_def cells_ok_def)
next
  case (Suc k)
  then have k: "k < length xs" by simp
  note take = take_Suc_conv_app_nth [OF k]
  show ?case
  proof (cases "computed (ins_operation (xs ! k))")
    case True
    with Suc.prems(2) obtain ds' d where ds: "ds = ds' @ [d]"
      "list_all2 (dispatch_ok vals ids ks) (filter (\<lambda>i. computed (ins_operation i)) (take k xs)) ds'"
      "dispatch_ok vals ids ks (xs ! k) d"
      by (auto simp: take list_all2_append1 list_all2_Cons1)
    from Suc.IH [OF _ ds(2)] k obtain cells where
      "run_dispatches ksem (\<lambda>b. ext (eb_node (bindings ! b))) ks ds' = Some cells"
      "cells_ok val xs (mp_allocations memory) k cells" by auto
    with run_dispatch_value [OF run val _ k True ds(3)] show ?thesis
      by (simp add: ds(1) run_dispatches_snoc)
  next
    case False
    with Suc obtain cells where cells: "run_dispatches ksem (\<lambda>b. ext (eb_node (bindings ! b))) ks ds = Some cells"
      "cells_ok val xs (mp_allocations memory) k cells" by (auto simp: take)
    have "\<not> slot_at (mp_allocations memory) k s" for s
      using runnable_allocation(2) [OF run k] False computed_assign
      by (cases "ins_operation (xs ! k)") (auto simp: slot_at_def storage_matches_def computed_def)
    with cells cells_ok_skip show ?thesis by blast
  qed
qed

text \<open>An output is read after the last instruction; its slot is never given away.\<close>

lemma output_read:
  assumes run: "runnable xs outs memory bindings vals ids" and val: "valued opsem ext ty val xs"
    and cells: "cells_ok val xs (mp_allocations memory) (length xs) cells" and n: "n \<in> set outs"
    and out: "lower_output vals ids n = Inr out"
  shows "read_source (\<lambda>b. ext (eb_node (bindings ! b))) cells (lo_source out) = Some (val n)"
proof -
  from out obtain info source where info: "bt_get vals n = Some info" "source_ok (vi_storage info) ids n source"
    "out = \<lparr>lo_node = n, lo_source = source\<rparr>" by (auto simp: lower_output_def outcome_simps)
  from run n obtain i where i: "i < length xs" "ins_id (xs ! i) = n"
    unfolding runnable_def schedule_ok_def by blast
  have "info = info_of xs (mp_allocations memory) i" using runnable_info [OF run i(1)] info(1) i(2) by simp
  with info(2) i(2) have "source_ok (va_storage (mp_allocations memory ! i)) ids (ins_id (xs ! i)) source"
    by (simp add: info_of_def)
  moreover have "\<not> slot_at (mp_allocations memory) j s" if "slot_at (mp_allocations memory) i s" "i < j" for s j
  proof
    assume "slot_at (mp_allocations memory) j s"
    with run that have "ins_id (xs ! i) \<notin> set outs"
      unfolding runnable_def plan_safe_def Let_def by blast
    with n i(2) show False by simp
  qed
  ultimately show ?thesis
    using read_value [OF run val cells i(1) i(1)] info(3) i(2) by simp
qed

lemma run_lowered_values:
  assumes run: "runnable (ep_instructions plan) (ep_outputs plan) (ep_memory plan) bindings vals ids"
    and val: "valued opsem ext ty val (ep_instructions plan)"
    and ok: "lowered_ok vals ids (ep_instructions plan) (lp_kernels lp, lp_instructions lp)"
    and outs: "traverse (lower_output vals ids) (ep_outputs plan) = Inr (lp_outputs lp)"
  shows "run_lowered ksem (\<lambda>b. ext (eb_node (bindings ! b))) lp = Some (map (\<lambda>n. Some (val n)) (ep_outputs plan))"
proof -
  let ?xs = "ep_instructions plan" and ?extern = "\<lambda>b. ext (eb_node (bindings ! b))"
  have "list_all2 (dispatch_ok vals ids (lp_kernels lp))
      (filter (\<lambda>i. computed (ins_operation i)) (take (length ?xs) ?xs)) (lp_instructions lp)"
    using ok by (simp add: lowered_ok_def)
  from run_dispatches_values [OF run val order_refl this] obtain cells where
    cells: "run_dispatches ksem ?extern (lp_kernels lp) (lp_instructions lp) = Some cells"
    "cells_ok val ?xs (mp_allocations (ep_memory plan)) (length ?xs) cells" by blast
  have "read_source ?extern cells (lo_source (lp_outputs lp ! k)) = Some (val (ep_outputs plan ! k))"
    if "k < length (ep_outputs plan)" for k
    using outs that output_read [OF run val cells(2) nth_mem [OF that]] by (simp add: traverse_Inr)
  with outs have "map (\<lambda>out. read_source ?extern cells (lo_source out)) (lp_outputs lp) =
      map (\<lambda>n. Some (val n)) (ep_outputs plan)"
    by (intro nth_equalityI) (simp_all add: traverse_Inr)
  with cells(1) show ?thesis by (simp add: run_lowered_def)
qed

end

section \<open>The lowered plan refines the graph\<close>

lemma compiled_valued:
  assumes wf: "wf_graph g" and small: "length (graph_nodes g) \<le> u32_range"
  shows "valued opsem ext (type_of (graph_nodes g)) (node_value opsem ext (graph_nodes g))
    (map (instruction_of (graph_nodes g)) (needed_list g))"
  unfolding valued_def
proof (intro allI impI)
  let ?ns = "graph_nodes g" and ?xs = "map (instruction_of (graph_nodes g)) (needed_list g)"
  let ?val = "node_value opsem ext ?ns"
  fix i assume "i < length ?xs"
  define k where "k = needed_list g ! i"
  have "k \<in> set (needed_list g)" using \<open>i < length ?xs\<close> by (simp add: k_def)
  then have k: "k < length ?ns" by (auto simp: needed_list_def)
  have x: "?xs ! i = \<lparr>ins_id = k, ins_operation = node_operation (?ns ! k),
      ins_inputs = node_inputs (?ns ! k), ins_output = node_output (?ns ! k)\<rparr>"
    using \<open>i < length ?xs\<close> k small by (simp add: k_def instruction_of_def to_instruction_def)
  have inputs: "map (\<lambda>j. if j < k then ?val j else ext j) (node_inputs (?ns ! k)) = map ?val (node_inputs (?ns ! k))"
    using wf k nodes_ok_inputs by (auto simp: wf_graph_def)
  have "?val k = (if computed (node_operation (?ns ! k))
      then opsem (node_operation (?ns ! k)) (map (type_of ?ns) (node_inputs (?ns ! k))) (node_output (?ns ! k))
             (map ?val (node_inputs (?ns ! k)))
      else ext k)"
    by (subst node_value.simps) (simp only: inputs)
  then show "ins_output (?xs ! i) = type_of ?ns (ins_id (?xs ! i)) \<and>
    ?val (ins_id (?xs ! i)) = (if computed (ins_operation (?xs ! i))
      then opsem (ins_operation (?xs ! i)) (map (type_of ?ns) (ins_inputs (?xs ! i))) (ins_output (?xs ! i))
             (map ?val (ins_inputs (?xs ! i)))
      else ext (ins_id (?xs ! i)))"
    using k by (simp add: x type_of_def)
qed

lemma runnable_plan:
  assumes "schedule_ok (ep_instructions plan) (ep_outputs plan)"
    and "plan_safe (ep_instructions plan) (ep_outputs plan) (ep_memory plan)"
    and "collect_values plan = Inr vals" and "validate_bindings vals bindings = Inr ids"
  shows "runnable (ep_instructions plan) (ep_outputs plan) (ep_memory plan) bindings vals ids"
proof -
  have "map va_node (mp_allocations (ep_memory plan)) = map ins_id (ep_instructions plan)"
    using assms(2) unfolding plan_safe_def Let_def by blast
  moreover have "distinct (map ins_id (ep_instructions plan))"
    using assms(1) unfolding schedule_ok_def by blast
  ultimately have "allocated (ep_instructions plan) (mp_allocations (ep_memory plan))"
    by (simp only: allocated_def)
  from collect_values_total [OF this] assms(3) have vals: "values_ok (ep_instructions plan)
      (mp_allocations (ep_memory plan)) (length (ep_instructions plan)) vals" by auto
  then have "ids_ok bindings (length bindings) ids"
    using validate_bindings_Inr [OF _ assms(4)] by (simp add: values_ok_def)
  with vals assms(1,2) show ?thesis by (simp only: runnable_def)
qed

lemma compiled_safe:
  assumes "compile g = Inr plan" and "length (graph_nodes g) \<le> u32_range"
  shows "schedule_ok (ep_instructions plan) (ep_outputs plan)"
    and "plan_safe (ep_instructions plan) (ep_outputs plan) (ep_memory plan)"
    and "length (ep_instructions plan) \<le> u32_range" and "ep_outputs plan = graph_outputs g"
proof -
  note sched = compile_plan_schedule [OF assms]
  then show "schedule_ok (ep_instructions plan) (ep_outputs plan)" by blast
  show "plan_safe (ep_instructions plan) (ep_outputs plan) (ep_memory plan)"
    using memory_plan_build_safe [where ?'e = compile_error] sched by fastforce
  show "length (ep_instructions plan) \<le> u32_range" "ep_outputs plan = graph_outputs g"
    using sched by (auto simp only: linear_plan_def)
qed

lemma lowered_runnable:
  assumes "compile g = Inr plan" and "length (graph_nodes g) \<le> u32_range"
    and "collect_values plan = Inr vals" and "validate_bindings vals bindings = Inr ids"
  shows "runnable (ep_instructions plan) (ep_outputs plan) (ep_memory plan) bindings vals ids"
  using runnable_plan [OF compiled_safe(1,2) [OF assms(1,2)] assms(3,4)] .

definition implements :: "'v kernel_semantics \<Rightarrow> 'v operation_semantics \<Rightarrow> bool" where
  "implements ksem opsem \<longleftrightarrow> (\<forall>oper family. family_of oper = Some family \<longrightarrow>
     (\<forall>tys out vs. ksem family tys out vs = opsem oper tys out vs))"

lemma implements_generator: "implements ksem opsem \<Longrightarrow> kernel_generator opsem ksem"
  by unfold_locales (simp add: implements_def)

lemma lowered_values:
  assumes "compile g = Inr plan" and "length (graph_nodes g) \<le> u32_range"
    and "lower_plan plan bindings = Inr lp" and "implements ksem opsem"
  shows "run_lowered ksem (\<lambda>b. ext (eb_node (bindings ! b))) lp =
    Some (map (\<lambda>n. Some (node_value opsem ext (graph_nodes g) n)) (graph_outputs g))"
proof -
  note sched = compile_plan_schedule [OF assms(1,2)]
  from assms(3) obtain vals ids where vals: "collect_values plan = Inr vals"
    "validate_bindings vals bindings = Inr ids"
    and ok: "lowered_ok vals ids (ep_instructions plan) (lp_kernels lp, lp_instructions lp)"
    and outs: "traverse (lower_output vals ids) (ep_outputs plan) = Inr (lp_outputs lp)"
    by (rule lower_plan_Inr)
  note run = lowered_runnable [OF assms(1,2) vals]
  have "valued opsem ext (type_of (graph_nodes g)) (node_value opsem ext (graph_nodes g)) (ep_instructions plan)"
    using compiled_valued [OF _ assms(2)] sched by metis
  from kernel_generator.run_lowered_values [OF implements_generator [OF assms(4)] run this ok outs] sched
  show ?thesis by simp
qed

text \<open>
  C10: end-to-end refinement of the canonical path. Whatever the operations mean, and whatever
  generated kernels implement them, running the dispatches of a lowered plan on reusable
  buffer slots yields for every output of the graph the value the graph gives it, with each
  external read through the caller's own binding table. Dead-node elimination, slot reuse,
  binding order and kernel deduplication change no result.
\<close>

theorem lowered_plan_refines_graph:
  assumes "compile g = Inr plan" and "length (graph_nodes g) \<le> u32_range"
    and "lower_plan plan bindings = Inr lp" and "implements ksem opsem"
  shows "run_lowered ksem (\<lambda>b. ext (eb_node (bindings ! b))) lp =
    Some (map (\<lambda>n. Some (node_value opsem ext (graph_nodes g) n)) (graph_outputs g))"
  using assms by (rule lowered_values)

text \<open>A concrete interpretation for the witness: a value is the text of its computation.\<close>

definition text_kernels :: "string kernel_semantics" where
  "text_kernels family tys out vs =
     (case family of
        ElementwiseUnary ReluKernel \<Rightarrow> ''relu '' @ concat vs
      | _ \<Rightarrow> concat vs)"

lemma text_implements: "implements text_kernels (direct_semantics text_kernels)"
  by (simp add: implements_def direct_semantics_def)

lemma example_compiled: "compile example_graph = Inr example_plan"
proof -
  have "reachable_nodes example_graph = (Inr [True, True] :: (compile_error, bool list) outcome)"
    by (simp add: reachable_nodes_def example_graph_def mk_node_def mark_reachable.simps)
  moreover have "memory_plan_build (ep_instructions example_plan) [1] =
      (Inr (ep_memory example_plan) :: (compile_error, memory_plan) outcome)"
    by (simp add: memory_plan_build_def example_plan_def plan_start_def plan_step_def last_uses_def
        note_instruction_def define_value_def note_use_def retire_def assign_storage_def take_slot_def)
  ultimately show ?thesis
    using example_graph_valid(1)
    by (simp add: compile_def example_graph_def mk_node_def to_instruction_def example_plan_def
        sub_usize_def is_buffer_def Let_def)
qed

theorem lowered_plan_refines_graph_witness:
  "\<exists>lp. lower_plan example_plan (derive_bindings example_plan) = Inr lp \<and>
     run_lowered text_kernels (\<lambda>b. ''x'') lp = Some [Some ''relu x'']"
proof -
  have "node_value (direct_semantics text_kernels) (\<lambda>_. ''x'') (graph_nodes example_graph) 1 = ''relu x''"
    by (simp add: node_value.simps example_graph_def mk_node_def computed_def direct_semantics_def
        text_kernels_def)
  moreover have "length (graph_nodes example_graph) \<le> u32_range" "graph_outputs example_graph = [1]"
    by (simp_all add: example_graph_def)
  ultimately show ?thesis
    using lowered_plan_refines_graph [OF example_compiled _ example_plan_lowered text_implements, of "\<lambda>_. ''x''"]
      example_plan_lowered by simp
qed

end
