(* ===== verification/Lowering_Total.thy ===== *)
theory Lowering_Total
  imports Plan_Execution
begin

text \<open>
  When lowering succeeds. On a compiled, well-typed graph, with the default binding table, the
  lowerer can only fail on an operation that has no kernel family or on an iteration space that
  is not representable; a successful lowering never lets a dispatch read the slot it writes.
\<close>

section \<open>Kernel families of typed operations\<close>

lemma sort_permutation: "sort p = [0..<length p] \<longleftrightarrow> is_permutation p"
proof
  assume s: "sort p = [0..<length p]"
  then have "distinct (sort p)" "set (sort p) = {..<length p}" by auto
  then show "is_permutation p" by (simp add: is_permutation_def)
next
  assume "is_permutation p"
  then have "distinct p" "set p = {..<length p}" by (simp_all add: is_permutation_def)
  then show "sort p = [0..<length p]"
    by (metis atLeast0LessThan distinct_sort set_sort set_upt sorted_distinct_set_unique sorted_sort
        sorted_upt distinct_upt)
qed

lemma valid_permutation_typed:
  assumes "op_typed (Transpose p) [a] out"
  shows "is_valid_permutation p a out"
proof -
  from assms have t: "ty_dtype a = ty_dtype out" "length p = length (ty_shape a)" "is_permutation p"
    "ty_shape out = map ((!) (ty_shape a)) p" by auto
  then have "sort p = [0..<length (ty_shape a)]" using sort_permutation by metis
  moreover have "axis < length (ty_shape a)" if "axis \<in> set p" for axis
    using t that by (auto simp: is_permutation_def)
  ultimately show ?thesis
    using t by (auto simp: is_valid_permutation_def list_ex_iff list_all_iff set_enumerate0 get_def)
qed

lemma matrix_product_typed:
  "op_typed MatMul tys out \<Longrightarrow> ins_output i = out \<Longrightarrow> matrix_product n i tys False = Inr MatMulKernel"
  "op_typed BatchMatMul tys out \<Longrightarrow> ins_output i = out \<Longrightarrow> matrix_product n i tys True = Inr BatchMatMulKernel"
  by (auto simp: matrix_product_def get_def nth_append Let_def)

lemma kernel_family_typed:
  assumes "op_typed (ins_operation i) tys (ins_output i)" and "computed (ins_operation i)"
    and "checked_num_elements (ty_shape (ins_output i)) = Inr elements"
  shows "kernel_family n i tys elements =
    (case family_of (ins_operation i) of
       Some family \<Rightarrow> Inr family
     | None \<Rightarrow> fail (UnsupportedOperation n (ins_operation i)))"
proof (cases "ins_operation i")
  case (Reshape sh)
  with assms show ?thesis
    by (auto simp: kernel_family_def checked_elements_def get_def)
next
  case (Transpose p)
  with assms(1) obtain a where "tys = [a]" "op_typed (Transpose p) [a] (ins_output i)" by auto
  with Transpose valid_permutation_typed show ?thesis by (auto simp: kernel_family_def get_def)
next
  case MatMul
  with assms matrix_product_typed(1) show ?thesis by (simp add: kernel_family_def)
next
  case BatchMatMul
  with assms matrix_product_typed(2) show ?thesis by (simp add: kernel_family_def)
qed (use assms in \<open>auto simp: kernel_family_def uniform_unary_def uniform_binary_def
      require_uniform_operands_def require_def computed_def\<close>)

section \<open>One instruction\<close>

lemma traverse_ex: "\<forall>x \<in> set xs. \<exists>y. f x = Inr y \<Longrightarrow> \<exists>ys. traverse f xs = Inr ys"
  by (induction xs) fastforce+

definition readable ::
  "(node_id \<Rightarrow> tensor_type) \<Rightarrow> value_info bt_map \<Rightarrow> binding_id bt_map \<Rightarrow> node_id \<Rightarrow> bool" where
  "readable ty vals ids n \<longleftrightarrow> (\<exists>info source. bt_get vals n = Some info \<and> vi_tensor_type info = ty n \<and>
     source_ok (vi_storage info) ids n source)"

lemma arity_at_most_two: "expected_arity oper \<le> 2"
  by (cases oper) auto

definition lowerable :: "instruction \<Rightarrow> bool" where
  "lowerable i \<longleftrightarrow> family_of (ins_operation i) \<noteq> None \<and>
     (\<exists>elements. checked_num_elements (ty_shape (ins_output i)) = Inr elements)"

text \<open>The two errors lowering has on typed instructions, with the reason of each.\<close>

definition lowering_blocked :: "instruction \<Rightarrow> lowering_error failure \<Rightarrow> bool" where
  "lowering_blocked i f \<longleftrightarrow>
     f = Err (UnsupportedOperation (ins_id i) (ins_operation i)) \<and> family_of (ins_operation i) = None \<or>
     f = Err (DispatchExtentOverflow (ins_id i)) \<and>
       (\<forall>elements. checked_num_elements (ty_shape (ins_output i)) \<noteq> Inr elements)"

lemma reads_total:
  assumes "\<forall>n \<in> set ns. readable ty vals ids n" and "length ns \<le> 2"
  shows "\<exists>reads. traverse (read_argument m vals ids) (enumerate 0 (zip ns (map ty ns))) = Inr reads \<and>
    length reads = length ns \<and> (\<forall>p < length ns. ka_index (reads ! p) = p)"
proof -
  have step: "\<exists>arg. read_argument m vals ids (p, ns ! p, ty (ns ! p)) = Inr arg" if "p < length ns" for p
  proof -
    have "readable ty vals ids (ns ! p)" using assms(1) that by simp
    with that assms(2) show ?thesis by (auto simp: read_argument_Inr readable_def)
  qed
  then have "\<forall>x \<in> set (enumerate 0 (zip ns (map ty ns))). \<exists>arg. read_argument m vals ids x = Inr arg"
    by (auto simp: set_enumerate0)
  from traverse_ex [OF this] obtain reads where
    reads: "traverse (read_argument m vals ids) (enumerate 0 (zip ns (map ty ns))) = Inr reads" by blast
  moreover have "length reads = length ns" using traverse_length [OF reads] by simp
  moreover have "ka_index (reads ! p) = p" if "p < length ns" for p
  proof -
    have "read_argument m vals ids (p, ns ! p, ty (ns ! p)) = Inr (reads ! p)"
      using reads that by (simp add: traverse_Inr)
    then show ?thesis by (auto simp: read_argument_Inr)
  qed
  ultimately show ?thesis by blast
qed

lemma lower_instruction_typed:
  assumes comp: "computed (ins_operation i)" and small: "length ks < u32_range"
    and arity: "length (ins_inputs i) = expected_arity (ins_operation i)"
    and typed: "op_typed (ins_operation i) (map ty (ins_inputs i)) (ins_output i)"
    and ins: "\<forall>n \<in> set (ins_inputs i). readable ty vals ids n" and out: "readable ty vals ids (ins_id i)"
  shows "case lower_instruction vals ids i ks of
      Inr (ks', li) \<Rightarrow> lowerable i \<and> length ks' \<le> Suc (length ks)
    | Inl f \<Rightarrow> lowering_blocked i f"
proof -
  let ?n = "ins_id i" and ?tys = "map ty (ins_inputs i)"
  have operands: "traverse (\<lambda>input. ok_or (UnknownNode input)
      (map_option vi_tensor_type (bt_get vals input))) (ins_inputs i) = Inr ?tys"
    using ins by (intro traverse_map) (auto simp: readable_def)
  show ?thesis
  proof (cases "checked_num_elements (ty_shape (ins_output i))")
    case (Inl e)
    then have "checked_elements ?n (ty_shape (ins_output i)) = fail (DispatchExtentOverflow ?n)"
      using num_elements_no_panic by (cases e) (auto simp: checked_elements_def)
    with Inl show ?thesis
      by (simp add: lower_instruction_def arity require_def operands lowering_blocked_def)
  next
    case (Inr elements)
    note family = kernel_family_typed [OF typed comp Inr]
    have elements: "checked_elements ?n (ty_shape (ins_output i)) = Inr elements"
      by (simp add: checked_elements_def Inr)
    show ?thesis
    proof (cases "family_of (ins_operation i)")
      case None
      then show ?thesis
        by (simp add: lower_instruction_def arity require_def operands elements family lowering_blocked_def)
    next
      case (Some fam)
      have two: "length (ins_inputs i) \<le> 2" using arity arity_at_most_two by metis
      then have index: "p \<le> 2 \<Longrightarrow> argument_index ?n p = Inr p" for p
        by (simp add: argument_index_def)
      from reads_total [OF ins two] obtain reads where
        reads: "traverse (read_argument ?n vals ids) (enumerate 0 (zip (ins_inputs i) ?tys)) = Inr reads"
        "length reads = length (ins_inputs i)" "\<forall>p < length (ins_inputs i). ka_index (reads ! p) = p" by blast
      from out obtain info source where info: "bt_get vals ?n = Some info" "source_of ?n (vi_storage info) ids = Inr source"
        by (auto simp: readable_def)
      let ?args = "reads @ [\<lparr>ka_index = length reads, ka_source = source, ka_access = WriteAccess,
          ka_tensor_type = ins_output i\<rparr>]"
      have check: "for_each (\<lambda>(position, argument).
          try_bind (argument_index ?n position) (\<lambda>expected.
          require (ka_index argument = expected)
            (ArgumentIndexMismatch ?n expected (ka_index argument)))) (enumerate 0 ?args) = Inr ()"
        using reads(2,3) two index by (auto simp: for_each_Inr set_enumerate0 nth_append less_Suc_eq)
      from intern_kernel_total [OF small] obtain ks' k where
        intern: "intern_kernel ks ?n fam ?tys (ins_output i) = Inr (ks', k)" "length ks' \<le> Suc (length ks)" by blast
      have "lower_instruction vals ids i ks = Inr (ks', \<lparr>li_node = ?n, li_sources = [?n], li_kernel = k,
          li_arguments = ?args, li_dispatch = \<lparr>ld_extent = ty_shape (ins_output i), ld_elements = elements\<rparr>\<rparr>)"
        using check reads(2) two
        by (simp add: lower_instruction_def arity require_def operands elements family Some reads(1) info
            index intern(1) Let_def del: source_of_Inr)
      with intern(2) Some Inr show ?thesis by (simp add: lowerable_def)
    qed
  qed
qed

section \<open>The default binding table\<close>

lemma derived_nodes:
  "map eb_node (derive_bindings plan) =
     map va_node (filter (\<lambda>a. external_kind (va_storage a) \<noteq> None) (mp_allocations (ep_memory plan)))"
proof -
  have "map eb_node (List.map_filter (\<lambda>a. map_option (\<lambda>kind. \<lparr>eb_node = va_node a, eb_kind = kind\<rparr>)
        (external_kind (va_storage a))) al) =
      map va_node (filter (\<lambda>a. external_kind (va_storage a) \<noteq> None) al)" for al
    by (induction al) (auto simp: List.map_filter_simps)
  then show ?thesis by (simp add: derive_bindings_def)
qed

lemma derived_entry:
  "e \<in> set (derive_bindings plan) \<longleftrightarrow>
     (\<exists>a \<in> set (mp_allocations (ep_memory plan)). eb_node e = va_node a \<and> external_kind (va_storage a) = Some (eb_kind e))"
proof -
  have "e \<in> set (List.map_filter (\<lambda>a. map_option (\<lambda>kind. \<lparr>eb_node = va_node a, eb_kind = kind\<rparr>)
        (external_kind (va_storage a))) al) \<longleftrightarrow>
      (\<exists>a \<in> set al. eb_node e = va_node a \<and> external_kind (va_storage a) = Some (eb_kind e))" for al
    by (induction al) (auto simp: List.map_filter_simps split: option.split)
  then show ?thesis by (simp add: derive_bindings_def)
qed

lemma derived_table_ok:
  assumes alloc: "allocated (ep_instructions plan) (mp_allocations (ep_memory plan))"
    and vals: "values_ok (ep_instructions plan) (mp_allocations (ep_memory plan)) (length (ep_instructions plan)) vals"
    and small: "length (ep_instructions plan) \<le> u32_range"
  shows "table_ok vals (derive_bindings plan)"
proof -
  let ?al = "mp_allocations (ep_memory plan)" and ?xs = "ep_instructions plan"
  note nth = allocated_nth [OF alloc]
  have get: "bt_get vals (va_node (?al ! i)) = Some (info_of ?xs ?al i)" if "i < length ?xs" for i
    using vals that nth by (auto simp: values_ok_def)
  have "distinct (map eb_node (derive_bindings plan))"
    using alloc by (simp add: derived_nodes allocated_def distinct_map_filter)
  moreover have "length (derive_bindings plan) \<le> u32_range"
  proof -
    have "length (derive_bindings plan) \<le> length ?al"
      using arg_cong [OF derived_nodes, of length] by simp
    with nth(1) small show ?thesis by simp
  qed
  moreover have "entry_ok vals e" if "e \<in> set (derive_bindings plan)" for e
  proof -
    from that obtain a where "a \<in> set ?al" "eb_node e = va_node a" "external_kind (va_storage a) = Some (eb_kind e)"
      unfolding derived_entry by blast
    then obtain i where "i < length ?xs" "eb_node e = va_node (?al ! i)"
      "external_kind (va_storage (?al ! i)) = Some (eb_kind e)"
      using nth(1) by (metis in_set_conv_nth)
    with get show ?thesis by (auto simp: entry_ok_def info_of_def)
  qed
  moreover have "n \<in> eb_node ` set (derive_bindings plan)"
    if "bt_get vals n = Some info" "external_kind (vi_storage info) \<noteq> None" for n info
  proof -
    from that(1) vals obtain i where i: "i < length ?xs" "n = ins_id (?xs ! i)" "info = info_of ?xs ?al i"
      by (auto simp: values_ok_def)
    with that(2) nth have "\<lparr>eb_node = n, eb_kind = the (external_kind (va_storage (?al ! i)))\<rparr> \<in> set (derive_bindings plan)"
      by (force simp: derived_entry info_of_def)
    then show ?thesis by force
  qed
  ultimately show ?thesis by (simp add: table_ok_def)
qed

section \<open>Lowering a compiled, typed graph\<close>

lemma runnable_readable:
  assumes run: "runnable xs outs memory bindings vals ids" and table: "table_ok vals bindings"
    and i: "i < length xs" and ty: "\<forall>x \<in> set xs. ins_output x = ty (ins_id x)"
  shows "readable ty vals ids (ins_id (xs ! i))"
proof -
  let ?info = "info_of xs (mp_allocations memory) i"
  have get: "bt_get vals (ins_id (xs ! i)) = Some ?info"
    using run i by (auto simp: runnable_def values_ok_def)
  have "\<exists>source. source_ok (vi_storage ?info) ids (ins_id (xs ! i)) source"
  proof (cases "external_kind (vi_storage ?info)")
    case None
    then show ?thesis by (cases "vi_storage ?info") (auto simp: source_ok_def external_kind_def)
  next
    case (Some kind)
    with get table obtain k where "k < length bindings" "eb_node (bindings ! k) = ins_id (xs ! i)"
      unfolding table_ok_def by (metis image_iff in_set_conv_nth option.distinct(1))
    with run have "bt_get ids (ins_id (xs ! i)) = Some k" by (simp add: runnable_def ids_ok_def)
    with Some show ?thesis by (cases "vi_storage ?info") (auto simp: source_ok_def external_kind_def)
  qed
  with get ty i show ?thesis by (auto simp: readable_def info_of_def)
qed

lemma lower_steps_typed:
  assumes typed: "\<forall>x \<in> set xs. op_typed (ins_operation x) (map ty (ins_inputs x)) (ins_output x) \<and>
      length (ins_inputs x) = expected_arity (ins_operation x) \<and> readable ty vals ids (ins_id x) \<and>
      (\<forall>n \<in> set (ins_inputs x). readable ty vals ids n)"
    and small: "length xs \<le> u32_range"
  shows "case try_fold (lower_step vals ids) ([], []) xs of
      Inr (ks, lis) \<Rightarrow> \<forall>x \<in> set xs. computed (ins_operation x) \<longrightarrow> lowerable x
    | Inl f \<Rightarrow> \<exists>x \<in> set xs. computed (ins_operation x) \<and> lowering_blocked x f"
proof -
  let ?P = "\<lambda>k st. length (fst st) \<le> k \<and> (\<forall>i < k. computed (ins_operation (xs ! i)) \<longrightarrow> lowerable (xs ! i))"
  have step: "case lower_step vals ids st (xs ! k) of
        Inr st' \<Rightarrow> ?P (Suc k) st'
      | Inl f \<Rightarrow> computed (ins_operation (xs ! k)) \<and> lowering_blocked (xs ! k) f"
    if k: "k < length xs" and st: "?P k st" for k st
  proof (cases "computed (ins_operation (xs ! k))")
    case False
    then have "lower_step vals ids st (xs ! k) = Inr st"
      by (cases "ins_operation (xs ! k)") (auto simp: lower_step_def computed_def split: prod.splits)
    with st False show ?thesis by (auto simp: less_Suc_eq)
  next
    case True
    obtain ks lis where ks: "st = (ks, lis)" by (cases st)
    have run: "lower_step vals ids st (xs ! k) =
        try_bind (lower_instruction vals ids (xs ! k) ks) (\<lambda>(kernels, lowered). Inr (kernels, lis @ [lowered]))"
      using True by (cases "ins_operation (xs ! k)") (auto simp: lower_step_def computed_def ks)
    have "length ks < u32_range" using st k small by (simp add: ks)
    from lower_instruction_typed [OF True this] typed nth_mem [OF k] have
      "case lower_instruction vals ids (xs ! k) ks of
         Inr (ks', li) \<Rightarrow> lowerable (xs ! k) \<and> length ks' \<le> Suc (length ks)
       | Inl f \<Rightarrow> lowering_blocked (xs ! k) f" by blast
    with st True show ?thesis
      unfolding run by (auto simp: ks less_Suc_eq split: sum.splits)
  qed
  show ?thesis
  proof (cases "try_fold (lower_step vals ids) ([], []) xs")
    case (Inr st)
    have "?P (length xs) st"
      using Inr
    proof (rule try_fold_invariant)
      fix i u v assume "i < length xs" "?P i u" "lower_step vals ids u (xs ! i) = Inr v"
      with step [of i u] show "?P (Suc i) v" by simp
    qed simp
    with Inr show ?thesis by (auto simp: in_set_conv_nth split: prod.splits)
  next
    case (Inl f)
    then have "\<exists>i u. i < length xs \<and> ?P i u \<and> lower_step vals ids u (xs ! i) = Inl f"
    proof (rule try_fold_Inl)
      fix i u v assume "i < length xs" "?P i u" "lower_step vals ids u (xs ! i) = Inr v"
      with step [of i u] show "?P (Suc i) v" by simp
    qed simp
    then obtain i u where i: "i < length xs" "?P i u" "lower_step vals ids u (xs ! i) = Inl f" by blast
    with step [of i u] have "computed (ins_operation (xs ! i)) \<and> lowering_blocked (xs ! i) f" by simp
    with i(1) Inl show ?thesis by auto
  qed
qed

lemma plan_readable:
  assumes run: "runnable xs outs memory bindings vals ids" and table: "table_ok vals bindings"
    and ty: "\<forall>x \<in> set xs. ins_output x = ty (ins_id x)" and x: "x \<in> set xs"
  shows "readable ty vals ids (ins_id x) \<and> (\<forall>n \<in> set (ins_inputs x). readable ty vals ids n)"
proof -
  have all: "readable ty vals ids (ins_id (xs ! i))" if "i < length xs" for i
    by (rule runnable_readable [OF run table that ty])
  from x obtain j where j: "j < length xs" "x = xs ! j" by (auto simp: in_set_conv_nth)
  have "readable ty vals ids n" if "n \<in> set (ins_inputs x)" for n
  proof -
    from run j that obtain i where "i < j" "ins_id (xs ! i) = n"
      unfolding runnable_def schedule_ok_def by blast
    with all [of i] j(1) show ?thesis by simp
  qed
  with all [OF j(1)] j(2) show ?thesis by simp
qed

lemma plan_collect:
  assumes sched: "schedule_ok (ep_instructions plan) (ep_outputs plan)"
    and safe: "plan_safe (ep_instructions plan) (ep_outputs plan) (ep_memory plan)"
    and small: "length (ep_instructions plan) \<le> u32_range"
  obtains vals ids where "collect_values plan = Inr vals"
    "validate_bindings vals (derive_bindings plan) = Inr ids" "table_ok vals (derive_bindings plan)"
proof -
  let ?xs = "ep_instructions plan"
  have "map va_node (mp_allocations (ep_memory plan)) = map ins_id ?xs"
    using safe unfolding plan_safe_def Let_def by blast
  moreover have "distinct (map ins_id ?xs)" using sched unfolding schedule_ok_def by blast
  ultimately have alloc: "allocated ?xs (mp_allocations (ep_memory plan))" by (simp only: allocated_def)
  from collect_values_total [OF alloc] obtain vals where vals: "collect_values plan = Inr vals"
    "values_ok ?xs (mp_allocations (ep_memory plan)) (length ?xs) vals" by blast
  then have "bt_ok vals" by (simp add: values_ok_def)
  with validate_bindings_total derived_table_ok [OF alloc vals(2) small] vals(1) that show ?thesis
    by blast
qed

definition instruction_typed :: "(node_id \<Rightarrow> tensor_type) \<Rightarrow> instruction \<Rightarrow> bool" where
  "instruction_typed ty x \<longleftrightarrow> op_typed (ins_operation x) (map ty (ins_inputs x)) (ins_output x) \<and>
     length (ins_inputs x) = expected_arity (ins_operation x) \<and> ins_output x = ty (ins_id x)"

lemma lower_typed_plan:
  assumes sched: "schedule_ok (ep_instructions plan) (ep_outputs plan)"
    and safe: "plan_safe (ep_instructions plan) (ep_outputs plan) (ep_memory plan)"
    and small: "length (ep_instructions plan) \<le> u32_range"
    and typed: "\<forall>x \<in> set (ep_instructions plan). instruction_typed ty x"
  shows "case lower_plan plan (derive_bindings plan) of
      Inr lp \<Rightarrow> \<forall>x \<in> set (ep_instructions plan). computed (ins_operation x) \<longrightarrow> lowerable x
    | Inl f \<Rightarrow> \<exists>x \<in> set (ep_instructions plan). computed (ins_operation x) \<and> lowering_blocked x f"
proof -
  let ?xs = "ep_instructions plan"
  from plan_collect [OF sched safe small] obtain vals ids where vals: "collect_values plan = Inr vals"
    "validate_bindings vals (derive_bindings plan) = Inr ids" and table: "table_ok vals (derive_bindings plan)" .
  note run = runnable_plan [OF sched safe vals]
  have "\<forall>x \<in> set ?xs. ins_output x = ty (ins_id x)" using typed by (simp add: instruction_typed_def)
  note readable = plan_readable [OF run table this]
  have "\<forall>x \<in> set ?xs. op_typed (ins_operation x) (map ty (ins_inputs x)) (ins_output x) \<and>
      length (ins_inputs x) = expected_arity (ins_operation x) \<and> readable ty vals ids (ins_id x) \<and>
      (\<forall>n \<in> set (ins_inputs x). readable ty vals ids n)"
    using readable typed unfolding instruction_typed_def by blast
  note steps = lower_steps_typed [OF this small]
  have "\<exists>out. lower_output vals ids n = Inr out" if n: "n \<in> set (ep_outputs plan)" for n
  proof -
    from n sched obtain i where i: "i < length ?xs" "ins_id (?xs ! i) = n" unfolding schedule_ok_def by blast
    from conjunct1 [OF readable [OF nth_mem [OF i(1)]]] obtain info source where
      "bt_get vals n = Some info" "source_of n (vi_storage info) ids = Inr source"
      by (auto simp: readable_def i(2))
    then show ?thesis by (simp add: lower_output_def del: source_of_Inr)
  qed
  then have "\<forall>n \<in> set (ep_outputs plan). \<exists>out. lower_output vals ids n = Inr out" by simp
  from traverse_ex [OF this] obtain outs where outs: "traverse (lower_output vals ids) (ep_outputs plan) = Inr outs" ..
  show ?thesis
  proof (cases "try_fold (lower_step vals ids) ([], []) ?xs")
    case (Inl f)
    with steps show ?thesis by (simp add: lower_plan_def vals)
  next
    case (Inr st)
    with steps have "\<forall>x \<in> set ?xs. computed (ins_operation x) \<longrightarrow> lowerable x" by (cases st) simp
    with Inr show ?thesis by (cases st) (simp add: lower_plan_def vals outs)
  qed
qed

lemma compiled_typed:
  assumes "compile g = Inr plan" and "length (graph_nodes g) \<le> u32_range"
    and "validate_semantics g = Inr ()" and "x \<in> set (ep_instructions plan)"
  shows "instruction_typed (type_of (graph_nodes g)) x"
proof -
  note sched = compile_plan_schedule [OF assms(1,2)]
  then have typed: "typed_graph g" using assms(3) validate_semantics_iff_typed by blast
  from sched obtain k where k: "k \<in> set (needed_list g)" "x = instruction_of (graph_nodes g) k"
    using assms(4) by auto
  then have "k < length (graph_nodes g)" by (auto simp: needed_list_def)
  with k(2) typed sched assms(2) show ?thesis
    by (auto simp: typed_graph_def node_typed_def instruction_of_def to_instruction_def wf_graph_def
        nodes_ok_arity instruction_typed_def type_of_def)
qed

text \<open>
  C17: lowering a compiled, well-typed graph with the default binding table succeeds exactly when
  every computed instruction has a kernel family and a representable iteration space;
  otherwise it names an instruction that has none, and the reason. It has no other failure.
\<close>

theorem lowering_decides:
  assumes "compile g = Inr plan" and "length (graph_nodes g) \<le> u32_range"
    and "validate_semantics g = Inr ()"
  shows "case lower_plan plan (derive_bindings plan) of
      Inr lp \<Rightarrow> \<forall>x \<in> set (ep_instructions plan). computed (ins_operation x) \<longrightarrow> lowerable x
    | Inl f \<Rightarrow> \<exists>x \<in> set (ep_instructions plan). computed (ins_operation x) \<and> lowering_blocked x f"
  using lower_typed_plan [OF compiled_safe(1-3) [OF assms(1,2)]] compiled_typed [OF assms] by blast

theorem lowering_decides_witness:
  "lowerable (ep_instructions example_plan ! 1)"
proof -
  have "length (graph_nodes example_graph) \<le> u32_range" by (simp add: example_graph_def)
  from lowering_decides [OF example_compiled this example_graph_valid(2)] example_plan_lowered
  have "\<forall>x \<in> set (ep_instructions example_plan). computed (ins_operation x) \<longrightarrow> lowerable x" by simp
  then show ?thesis by (simp add: example_plan_def computed_def)
qed

section \<open>Dispatches never alias\<close>

lemma list_all2_right: "list_all2 P xs ys \<Longrightarrow> y \<in> set ys \<Longrightarrow> \<exists>x \<in> set xs. P x y"
  by (induction rule: list_all2_induct) auto

lemma buffer_source:
  assumes run: "runnable xs outs memory bindings vals ids" and i: "i < length xs"
    and "bt_get vals (ins_id (xs ! i)) = Some info" and "source_ok (vi_storage info) ids n (FromBuffer s)"
  shows "slot_at (mp_allocations memory) i s \<and> vi_tensor_type info = ins_output (xs ! i)"
  using assms(4) runnable_info [OF run i assms(3)] runnable_allocation(1) [OF run i] i
  by (auto simp: source_ok_def info_of_def slot_at_def split: value_storage.splits)

lemma slot_typed:
  assumes "runnable xs outs memory bindings vals ids" and "slot_at (mp_allocations memory) i s"
  shows "s < length (mp_slots memory) \<and> bs_tensor_type (mp_slots memory ! s) = ins_output (xs ! i)"
  using assms unfolding runnable_def plan_safe_def Let_def by blast

lemma dispatch_safe:
  assumes run: "runnable xs outs memory bindings vals ids" and k: "k < length xs"
    and d: "dispatch_ok vals ids ks (xs ! k) d" and a: "a \<in> set (li_arguments d)" "ka_source a = FromBuffer s"
  shows "s < length (mp_slots memory) \<and> bs_tensor_type (mp_slots memory ! s) = ka_tensor_type a \<and>
    (ka_access a = ReadAccess \<longrightarrow>
       (\<forall>b \<in> set (li_arguments d). ka_access b = WriteAccess \<longrightarrow> ka_source b \<noteq> FromBuffer s))"
proof -
  let ?n = "length (ins_inputs (xs ! k))" and ?as = "li_arguments d" and ?al = "mp_allocations memory"
  note d' = d [unfolded dispatch_ok_def Let_def]
  then obtain out where out: "bt_get vals (ins_id (xs ! k)) = Some out"
    "source_ok (vi_storage out) ids (ins_id (xs ! k)) (ka_source (?as ! ?n))" by blast
  have written: "slot_at ?al k t" if "b \<in> set ?as" "ka_access b = WriteAccess" "ka_source b = FromBuffer t" for b t
  proof -
    have "b \<in> set (filter (\<lambda>a. ka_access a = WriteAccess) ?as)" using that by simp
    then have "b = ?as ! ?n" by (simp add: dispatch_arguments(2) [OF d])
    with out that(3) buffer_source [OF run k out(1)] show ?thesis by simp
  qed
  from a(1) d' obtain p where p: "p < Suc ?n" "a = ?as ! p" by (auto simp: in_set_conv_nth)
  show ?thesis
  proof (cases "p = ?n")
    case True
    then have "ka_access a = WriteAccess" "ka_tensor_type a = ins_output (xs ! k)" using d' p by auto
    with slot_typed [OF run written [OF a(1) _ a(2)]] show ?thesis by simp
  next
    case False
    with p(1) have pn: "p < ?n" by simp
    with d' p(2) obtain info where info: "bt_get vals (ins_inputs (xs ! k) ! p) = Some info"
      "ka_tensor_type a = vi_tensor_type info"
      "source_ok (vi_storage info) ids (ins_inputs (xs ! k) ! p) (FromBuffer s)"
      using a(2) by metis
    from operand_kept [OF run k nth_mem [OF pn]] obtain i where i: "i < k" "ins_id (xs ! i) = ins_inputs (xs ! k) ! p"
      by metis
    then have il: "i < length xs" using k by simp
    from buffer_source [OF run il _ info(3)] info(1) i(2) have slot: "slot_at ?al i s"
      "vi_tensor_type info = ins_output (xs ! i)" by simp_all
    have "\<not> slot_at ?al k s"
    proof
      assume "slot_at ?al k s"
      with run i(1) slot(1) have "\<forall>t < length xs. ins_id (xs ! i) \<in> set (ins_inputs (xs ! t)) \<longrightarrow> t < k"
        unfolding runnable_def plan_safe_def Let_def by blast
      with k i(2) pn show False by (metis less_irrefl nth_mem)
    qed
    with slot_typed [OF run slot(1)] slot(2) info(2) written show ?thesis by auto
  qed
qed

text \<open>
  in a lowered plan of a compiled graph no dispatch reads the buffer slot it writes, and
  every buffer argument has the tensor type of its slot: a buffer can be handed to a kernel as
  it is.
\<close>

theorem lowered_dispatch_safe:
  assumes "compile g = Inr plan" and "length (graph_nodes g) \<le> u32_range"
    and "lower_plan plan bindings = Inr lp" and "d \<in> set (lp_instructions lp)"
    and "a \<in> set (li_arguments d)" and "ka_source a = FromBuffer s"
  shows "s < length (mp_slots (ep_memory plan)) \<and>
    bs_tensor_type (mp_slots (ep_memory plan) ! s) = ka_tensor_type a \<and>
    (ka_access a = ReadAccess \<longrightarrow>
       (\<forall>b \<in> set (li_arguments d). ka_access b = WriteAccess \<longrightarrow> ka_source b \<noteq> FromBuffer s))"
proof -
  from assms(3) obtain vals ids where vals: "collect_values plan = Inr vals"
    "validate_bindings vals bindings = Inr ids"
    and ok: "lowered_ok vals ids (ep_instructions plan) (lp_kernels lp, lp_instructions lp)"
    by (rule lower_plan_Inr)
  from list_all2_right [OF _ assms(4)] ok obtain x where
    "x \<in> set (filter (\<lambda>i. computed (ins_operation i)) (ep_instructions plan))"
    "dispatch_ok vals ids (lp_kernels lp) x d"
    unfolding lowered_ok_def by fastforce
  then have "x \<in> set (ep_instructions plan)" "dispatch_ok vals ids (lp_kernels lp) x d" by simp_all
  moreover from this obtain k where "k < length (ep_instructions plan)" "x = ep_instructions plan ! k"
    by (auto simp: in_set_conv_nth)
  ultimately show ?thesis
    using dispatch_safe [OF lowered_runnable [OF assms(1,2) vals] _ _ assms(5,6)] by metis
qed

theorem lowered_dispatch_safe_witness:
  "\<exists>lp. lower_plan example_plan (derive_bindings example_plan) = Inr lp \<and>
     (\<forall>d \<in> set (lp_instructions lp). \<forall>a \<in> set (li_arguments d). ka_source a = FromBuffer 0 \<longrightarrow>
        bs_tensor_type (mp_slots (ep_memory example_plan) ! 0) = ka_tensor_type a)"
proof -
  obtain lp where lp: "lower_plan example_plan (derive_bindings example_plan) = Inr lp"
    using example_plan_lowered by blast
  have "length (graph_nodes example_graph) \<le> u32_range" by (simp add: example_graph_def)
  from lowered_dispatch_safe [OF example_compiled this lp, of _ _ 0] lp show ?thesis by blast
qed

end
