(* ===== verification/Reference_Generator.thy ===== *)
theory Reference_Generator
  imports Codec_Correct Lowering_Total
begin

text \<open>
  Generation of Reference artefacts from a lowered plan (\<open>generator.rs\<close>, the constructors of
  \<open>artifact.rs\<close>). Logical kernel identifiers are below \<open>2^32\<close>; in errors and artefacts they are
  words.
\<close>

section \<open>Layouts\<close>

definition u64_try_from :: "usize \<Rightarrow> u64 option" where
  "u64_try_from n = (if n < 2 ^ 64 then Some (word_of_nat n) else None)"

definition u16_try_from :: "usize \<Rightarrow> u16 option" where
  "u16_try_from n = (if n < 65536 then Some (word_of_nat n) else None)"

definition u64_as_u32_try :: "u64 \<Rightarrow> u32 option" where
  "u64_as_u32_try w = (if unat w < u32_range then Some (ucast w) else None)"

definition from_shape :: "shape \<Rightarrow> u32 \<Rightarrow> (generation_error, tensor_layout) outcome" where
  "from_shape sh k =
     (let rank = length sh in
      if rank > unat reference_max_rank then fail (GenerationRankTooLarge k rank reference_max_rank)
      else
        try_bind (traverse (\<lambda>dim. ok_or (DimensionOverflow k) (u64_try_from dim)) sh) (\<lambda>dims.
        try_bind (map_err (\<lambda>_. GenerationElementCountOverflow k) (checked_num_elements sh)) (\<lambda>elements.
        try_bind (ok_or (GenerationElementCountOverflow k) (u64_try_from elements)) (\<lambda>elements.
        Inr \<lparr>tl_dims = dims, tl_elements = elements\<rparr>))))"

section \<open>Opcodes of kernel families\<close>

datatype attribute_source = NoSource | ScaleSource dtype u64 | PermuteSource "usize list"

fun opcode_for_family ::
  "kernel_family \<Rightarrow> u32 \<Rightarrow> (generation_error, opcode \<times> attribute_source) outcome" where
  "opcode_for_family (ElementwiseUnary ReluKernel) k = Inr (OpRelu, NoSource)"
| "opcode_for_family (ElementwiseUnary ExpKernel) k = Inr (OpExp, NoSource)"
| "opcode_for_family (ElementwiseUnary LogKernel) k = Inr (OpLog, NoSource)"
| "opcode_for_family (ElementwiseUnary ZerosLikeKernel) k = Inr (OpZerosLike, NoSource)"
| "opcode_for_family (ElementwiseUnary OnesLikeKernel) k = Inr (OpOnesLike, NoSource)"
| "opcode_for_family (ElementwiseUnary (ScaleKernel factor)) k =
     Inr (OpScale, ScaleSource (sc_dtype factor) (sc_bits factor))"
| "opcode_for_family (ElementwiseBinary AddKernel) k = Inr (OpAdd, NoSource)"
| "opcode_for_family (ElementwiseBinary SubKernel) k = Inr (OpSub, NoSource)"
| "opcode_for_family (ElementwiseBinary MulKernel) k = Inr (OpMul, NoSource)"
| "opcode_for_family (ElementwiseBinary DivKernel) k = Inr (OpDiv, NoSource)"
| "opcode_for_family MatMulKernel k = Inr (OpMatMul, NoSource)"
| "opcode_for_family BatchMatMulKernel k = Inr (OpBatchMatMul, NoSource)"
| "opcode_for_family ShapeCopy k = Inr (OpShapeCopy, NoSource)"
| "opcode_for_family (Permute permutation) k = Inr (OpPermute, PermuteSource permutation)"

section \<open>One kernel\<close>

definition resolve_attributes ::
  "u32 \<Rightarrow> dtype \<Rightarrow> attribute_source \<Rightarrow> (generation_error, attributes) outcome" where
  "resolve_attributes k dt source =
     (case source of
        NoSource \<Rightarrow> Inr NoAttributes
      | ScaleSource factor_dtype factor_bits \<Rightarrow>
          try_bind (require (\<not> factor_dtype \<noteq> dt) (ScaleFactorTypeMismatch k)) (\<lambda>_.
          try_bind (ok_or (ScaleFactorBitsOverflow k) (u64_as_u32_try factor_bits)) (\<lambda>factor_bits.
          Inr (ScaleAttributes factor_bits)))
      | PermuteSource permutation \<Rightarrow>
          try_bind (traverse (\<lambda>axis. ok_or (AxisIndexOverflow k) (u16_try_from axis)) permutation) (\<lambda>axes.
          Inr (PermuteAttributes axes)))"

definition generate_kernel :: "logical_kernel \<Rightarrow> (generation_error, artifact) outcome" where
  "generate_kernel kern =
     (let k = word_of_nat (lk_id kern) in
      try_bind (opcode_for_family (lk_family kern) k) (\<lambda>(oper, source).
      let dt = ty_dtype (lk_result kern) in
      try_bind (require (\<not> dt \<noteq> F32) (GenerationUnsupportedDType k dt)) (\<lambda>_.
      try_bind (for_each (\<lambda>operand. require (\<not> ty_dtype operand \<noteq> dt) (MixedDTypes k)) (lk_operands kern)) (\<lambda>_.
      let expected_operands = unat (operand_count oper) in
      try_bind (require (\<not> length (lk_operands kern) \<noteq> expected_operands)
                  (GenerationUnexpectedOperandCount k expected_operands (length (lk_operands kern)))) (\<lambda>_.
      try_bind (traverse (\<lambda>operand. from_shape (ty_shape operand) k) (lk_operands kern)) (\<lambda>operands.
      try_bind (from_shape (ty_shape (lk_result kern)) k) (\<lambda>result.
      try_bind (resolve_attributes k dt source) (\<lambda>attrs.
      Inr \<lparr>ra_kernel = k, ra_version = reference_format_version, ra_opcode = oper, ra_dtype = dt,
           ra_operands = operands, ra_result = result, ra_attributes = attrs\<rparr>))))))))"

section \<open>A lowered plan\<close>

definition generate_step ::
  "usize \<Rightarrow> bool list \<times> artifact list \<Rightarrow> usize \<times> logical_kernel
     \<Rightarrow> (generation_error, bool list \<times> artifact list) outcome" where
  "generate_step cnt st p = (case (st, p) of ((seen, artifacts), (position, kern)) \<Rightarrow>
     try_bind (ok_or (TooManyKernels cnt) (u32_try_from position)) (\<lambda>expected.
     let raw = lk_id kern in
     if raw \<ge> cnt then fail (OutOfOrderLogicalKernel (word_of_nat expected) (word_of_nat (lk_id kern)))
     else
       try_bind (idx seen raw) (\<lambda>present.
       if present then fail (DuplicateLogicalKernel (word_of_nat (lk_id kern)))
       else
         (let seen = seen[raw := True] in
          if lk_id kern \<noteq> expected
          then fail (OutOfOrderLogicalKernel (word_of_nat expected) (word_of_nat (lk_id kern)))
          else try_bind (generate_kernel kern) (\<lambda>a. Inr (seen, artifacts @ [a]))))))"

definition generate :: "lowered_plan \<Rightarrow> (generation_error, artifact list) outcome" where
  "generate plan =
     (let kernels = lp_kernels plan; cnt = length kernels in
      try_bind (try_fold (generate_step cnt) (replicate cnt False, []) (enumerate 0 kernels))
        (\<lambda>(seen, artifacts).
      case List.find (\<lambda>(position, present). \<not> present) (enumerate 0 seen) of
        Some (missing_position, _) \<Rightarrow>
          try_bind (ok_or (TooManyKernels cnt) (u32_try_from missing_position)) (\<lambda>expected.
          fail (MissingLogicalKernel (word_of_nat expected)))
      | None \<Rightarrow> Inr artifacts))"

definition to_kernel_module :: "artifact \<Rightarrow> (generation_error, kernel_module) outcome" where
  "to_kernel_module a =
     map_err (\<lambda>source. InvalidKernelModule (ra_kernel a) source)
       (kernel_module_new ReferenceFormat (artifact_entry_point a) (encode a))"

definition to_kernel_modules :: "artifact list \<Rightarrow> (generation_error, kernel_module list) outcome" where
  "to_kernel_modules artifacts = traverse to_kernel_module artifacts"

definition set_artifact :: "artifact list \<Rightarrow> u32 \<Rightarrow> artifact option" where
  "set_artifact artifacts k = get artifacts (unat k)"

end
