(* ===== verification/Generator_Correct.thy ===== *)
theory Generator_Correct
  imports Reference_Generator
begin

text \<open>
  What the Reference generator makes of a lowered plan: for the kernels of a compiled, typed
  graph it returns the artefact of every kernel, in order, or names a kernel that the format
  cannot express and the reason. Every generated artefact is valid, so that it decodes back.
\<close>

section \<open>The kernels of a lowered plan\<close>

text \<open>Every kernel is used by a dispatch, and every identifier fits 32 bits.\<close>

definition kernels_used :: "logical_kernel list \<times> lowered_instruction list \<Rightarrow> bool" where
  "kernels_used st \<longleftrightarrow> length (fst st) \<le> u32_range \<and> {..<length (fst st)} \<subseteq> li_kernel ` set (snd st)"

lemma intern_kernel_grows:
  assumes "intern_kernel ks n family operands result = Inr (ks', k)"
  shows "ks' = ks \<or> (\<exists>new. ks' = ks @ [new] \<and> k = length ks \<and> length ks < u32_range)"
  using assms by (auto simp: intern_kernel_def outcome_simps split: option.splits)

lemma lower_instruction_interns:
  assumes "lower_instruction vals ids i ks = Inr (ks', li)"
  shows "\<exists>family operands. intern_kernel ks (ins_id i) family operands (ins_output i) = Inr (ks', li_kernel li)"
  using assms by (clarsimp simp: lower_instruction_def Let_def outcome_simps) blast

lemma lower_step_used:
  assumes "kernels_used st" and "lower_step vals ids st i = Inr st'"
  shows "kernels_used st'"
proof (cases "computed (ins_operation i)")
  case False
  with assms show ?thesis
    by (cases "ins_operation i") (auto simp: lower_step_def computed_def split: prod.splits)
next
  case True
  obtain ks lis where st: "st = (ks, lis)" by (cases st)
  from assms(2) True obtain ks' li where run: "lower_instruction vals ids i ks = Inr (ks', li)"
    and st': "st' = (ks', lis @ [li])"
    by (cases "ins_operation i") (auto simp: lower_step_def computed_def st outcome_simps)
  from lower_instruction_interns [OF run] intern_kernel_grows
  have "ks' = ks \<or> (\<exists>new. ks' = ks @ [new] \<and> li_kernel li = length ks \<and> length ks < u32_range)" by blast
  with assms(1) show ?thesis by (auto simp: kernels_used_def st st' subset_iff less_Suc_eq)
qed

lemma lower_plan_used:
  assumes "lower_plan plan bindings = Inr lp"
  shows "kernels_used (lp_kernels lp, lp_instructions lp)"
proof -
  from assms obtain vals ids where
    "try_fold (lower_step vals ids) ([], []) (ep_instructions plan) = Inr (lp_kernels lp, lp_instructions lp)"
    by (auto simp: lower_plan_def outcome_simps)
  then show ?thesis
  proof (rule try_fold_invariant [where P = "\<lambda>_. kernels_used"])
    show "kernels_used ([], [])" by (simp add: kernels_used_def)
  qed (rule lower_step_used)
qed

definition kernel_typed :: "logical_kernel \<Rightarrow> bool" where
  "kernel_typed k \<longleftrightarrow>
     (\<exists>oper. family_of oper = Some (lk_family k) \<and> op_typed oper (lk_operands k) (lk_result k))"

lemma dispatch_operands:
  assumes run: "runnable xs outs memory bindings vals ids" and k: "k < length xs"
    and typed: "\<forall>x \<in> set xs. instruction_typed ty x"
    and d: "dispatch_ok vals ids ks (xs ! k) d"
  shows "lk_operands (ks ! li_kernel d) = map ty (ins_inputs (xs ! k))"
proof (rule nth_equalityI)
  note d' = d [unfolded dispatch_ok_def Let_def]
  show "length (lk_operands (ks ! li_kernel d)) = length (map ty (ins_inputs (xs ! k)))" using d' by simp
  fix p assume "p < length (lk_operands (ks ! li_kernel d))"
  then have p: "p < length (ins_inputs (xs ! k))" using d' by simp
  with d' obtain info where info: "bt_get vals (ins_inputs (xs ! k) ! p) = Some info"
    "vi_tensor_type info = lk_operands (ks ! li_kernel d) ! p" by blast
  from operand_kept [OF run k nth_mem [OF p]] obtain i where i: "i < k" "ins_id (xs ! i) = ins_inputs (xs ! k) ! p"
    by metis
  then have "i < length xs" using k by simp
  with runnable_info [OF run this] info(1) i(2) have "info = info_of xs (mp_allocations memory) i" by simp
  with info(2) have "lk_operands (ks ! li_kernel d) ! p = ins_output (xs ! i)" by (simp add: info_of_def)
  also have "\<dots> = ty (ins_id (xs ! i))"
    using typed nth_mem [OF \<open>i < length xs\<close>] unfolding instruction_typed_def by blast
  finally show "lk_operands (ks ! li_kernel d) ! p = map ty (ins_inputs (xs ! k)) ! p" using p i(2) by simp
qed

lemma dispatch_kernel_typed:
  assumes run: "runnable xs outs memory bindings vals ids" and k: "k < length xs"
    and typed: "\<forall>x \<in> set xs. instruction_typed ty x"
    and d: "dispatch_ok vals ids ks (xs ! k) d"
  shows "kernel_typed (ks ! li_kernel d)"
proof -
  have "op_typed (ins_operation (xs ! k)) (map ty (ins_inputs (xs ! k))) (ins_output (xs ! k))"
    using typed nth_mem [OF k] unfolding instruction_typed_def by blast
  moreover have "family_of (ins_operation (xs ! k)) = Some (lk_family (ks ! li_kernel d))"
    "lk_result (ks ! li_kernel d) = ins_output (xs ! k)"
    using d kernel_family_family_of by (auto simp: dispatch_ok_def Let_def)
  ultimately show ?thesis using dispatch_operands [OF assms] by (auto simp: kernel_typed_def)
qed

text \<open>Every computed node that the outputs need has its kernel, with the types of the graph.\<close>

lemma lowered_node_kernel:
  assumes graph: "compile g = Inr plan" "length (graph_nodes g) \<le> u32_range" "validate_semantics g = Inr ()" "lower_plan plan bindings = Inr lp"
    and n: "n \<in> set (needed_list g)" "computed (node_operation (graph_nodes g ! n))"
  shows "\<exists>k \<in> set (lp_kernels lp). family_of (node_operation (graph_nodes g ! n)) = Some (lk_family k) \<and>
    lk_operands k = map (type_of (graph_nodes g)) (node_inputs (graph_nodes g ! n)) \<and> lk_result k = type_of (graph_nodes g) n"
proof -
  from graph(4) obtain vals ids where vals: "collect_values plan = Inr vals" "validate_bindings vals bindings = Inr ids"
    and ok: "lowered_ok vals ids (ep_instructions plan) (lp_kernels lp, lp_instructions lp)" by (rule lower_plan_Inr)
  note run = lowered_runnable [OF graph(1,2) vals]
  have typed: "\<forall>x \<in> set (ep_instructions plan). instruction_typed (type_of (graph_nodes g)) x" using compiled_typed [OF graph(1-3)] by blast
  let ?x = "instruction_of (graph_nodes g) n"
  have x: "?x \<in> set (ep_instructions plan)" "computed (ins_operation ?x)" "node_operation (graph_nodes g ! n) = ins_operation ?x"
    "ins_output ?x = type_of (graph_nodes g) n" "ins_inputs ?x = node_inputs (graph_nodes g ! n)"
    using compile_plan_schedule [OF graph(1,2)] n by (auto simp: instruction_of_def to_instruction_def type_of_def)
  then obtain j where j: "j < length (ep_instructions plan)" "ep_instructions plan ! j = ?x" by (auto simp: in_set_conv_nth)
  have "?x \<in> set (filter (\<lambda>i. computed (ins_operation i)) (ep_instructions plan))" using x by simp
  then obtain q where q: "q < length (filter (\<lambda>i. computed (ins_operation i)) (ep_instructions plan))"
    "filter (\<lambda>i. computed (ins_operation i)) (ep_instructions plan) ! q = ?x" unfolding in_set_conv_nth by blast
  with ok have d: "dispatch_ok vals ids (lp_kernels lp) (ep_instructions plan ! j) (lp_instructions lp ! q)"
    by (auto simp: lowered_ok_def list_all2_conv_all_nth j(2))
  let ?k = "lp_kernels lp ! li_kernel (lp_instructions lp ! q)"
  have "?k \<in> set (lp_kernels lp)" using d by (simp add: dispatch_ok_def)
  moreover have "family_of (ins_operation ?x) = Some (lk_family ?k)" "lk_result ?k = ins_output ?x"
    using d kernel_family_family_of unfolding j(2) by (auto simp: dispatch_ok_def Let_def)
  moreover have "lk_operands ?k = map (type_of (graph_nodes g)) (ins_inputs ?x)" using dispatch_operands [OF run j(1) typed d] j(2) by simp
  ultimately show ?thesis using x by auto
qed

lemma lowered_kernels_typed:
  assumes "compile g = Inr plan" and "length (graph_nodes g) \<le> u32_range"
    and "validate_semantics g = Inr ()" and "lower_plan plan bindings = Inr lp"
  shows "list_all kernel_typed (lp_kernels lp)"
proof -
  from assms(4) obtain vals ids where vals: "collect_values plan = Inr vals"
    "validate_bindings vals bindings = Inr ids"
    and ok: "lowered_ok vals ids (ep_instructions plan) (lp_kernels lp, lp_instructions lp)"
    by (rule lower_plan_Inr)
  note run = lowered_runnable [OF assms(1,2) vals]
  have typed: "\<forall>x \<in> set (ep_instructions plan). instruction_typed (type_of (graph_nodes g)) x"
    using compiled_typed [OF assms(1-3)] by blast
  have "kernel_typed (lp_kernels lp ! k)" if "k < length (lp_kernels lp)" for k
  proof -
    from lower_plan_used [OF assms(4)] that obtain d where d: "d \<in> set (lp_instructions lp)" "li_kernel d = k"
      by (auto simp: kernels_used_def)
    from list_all2_right [OF _ d(1)] ok obtain x where
      "x \<in> set (filter (\<lambda>i. computed (ins_operation i)) (ep_instructions plan))"
      "dispatch_ok vals ids (lp_kernels lp) x d"
      unfolding lowered_ok_def by fastforce
    then obtain j where "j < length (ep_instructions plan)" "dispatch_ok vals ids (lp_kernels lp) (ep_instructions plan ! j) d"
      by (auto simp: in_set_conv_nth)
    from dispatch_kernel_typed [OF run this(1) typed this(2)] d(2) show ?thesis by simp
  qed
  then show ?thesis by (auto simp: list_all_length)
qed

lemma lowered_kernel_ids:
  assumes "lower_plan plan bindings = Inr lp"
  shows "length (lp_kernels lp) \<le> u32_range" "i < length (lp_kernels lp) \<Longrightarrow> lk_id (lp_kernels lp ! i) = i"
proof -
  from assms obtain vals ids where
    "lowered_ok vals ids (ep_instructions plan) (lp_kernels lp, lp_instructions lp)"
    by (rule lower_plan_Inr)
  then show "i < length (lp_kernels lp) \<Longrightarrow> lk_id (lp_kernels lp ! i) = i"
    by (simp add: lowered_ok_def kernels_ok_def)
  show "length (lp_kernels lp) \<le> u32_range" using lower_plan_used [OF assms] by (simp add: kernels_used_def)
qed

section \<open>Layouts of shapes\<close>

definition shape_encodable :: "shape \<Rightarrow> bool" where
  "shape_encodable sh \<longleftrightarrow> length sh \<le> 32 \<and> (\<forall>d \<in> set sh. d < 2 ^ 64) \<and>
     (\<exists>n. checked_num_elements sh = Inr n)"

definition layout_of :: "shape \<Rightarrow> tensor_layout" where
  "layout_of sh = \<lparr>tl_dims = map word_of_nat sh, tl_elements = word_of_nat (prod_list sh)\<rparr>"

definition shape_blocked :: "u32 \<Rightarrow> shape \<Rightarrow> generation_error failure \<Rightarrow> bool" where
  "shape_blocked k sh f \<longleftrightarrow>
     f = Err (GenerationRankTooLarge k (length sh) 32) \<and> 32 < length sh \<or>
     f = Err (DimensionOverflow k) \<and> (\<exists>d \<in> set sh. 2 ^ 64 \<le> d) \<or>
     f = Err (GenerationElementCountOverflow k) \<and> (\<forall>n. checked_num_elements sh \<noteq> Inr n)"

lemma u64_try_from_Some [simp]: "u64_try_from n = Some w \<longleftrightarrow> n < 2 ^ 64 \<and> w = word_of_nat n"
  by (auto simp: u64_try_from_def)

lemma u64_try_from_None [simp]: "u64_try_from n = None \<longleftrightarrow> 2 ^ 64 \<le> n"
  by (auto simp: u64_try_from_def)

lemma num_elements_prod:
  assumes "checked_num_elements sh = Inr n"
  shows "n = prod_list sh" "prod_list sh < 2 ^ 64"
  using checked_num_elements_Inr [OF assms] checked_num_elements_le [OF assms] by simp_all

lemma traverse_dims:
  "traverse (\<lambda>dim. ok_or e (u64_try_from dim)) sh =
     (if \<forall>d \<in> set sh. d < 2 ^ 64 then Inr (map word_of_nat sh) else fail e)"
  by (induction sh) (auto simp: u64_try_from_def)

lemma max_rank: "unat reference_max_rank = 32"
  by (simp add: reference_max_rank_def)

lemma from_shape_eq:
  "case from_shape sh k of
     Inr l \<Rightarrow> shape_encodable sh \<and> l = layout_of sh
   | Inl f \<Rightarrow> \<not> shape_encodable sh \<and> shape_blocked k sh f"
proof (cases "length sh \<le> 32 \<and> (\<forall>d \<in> set sh. d < 2 ^ 64)")
  case False
  then show ?thesis
    by (cases "32 < length sh")
      (auto simp: from_shape_def traverse_dims shape_encodable_def shape_blocked_def max_rank Let_def
        reference_max_rank_def not_less)
next
  case True
  show ?thesis
  proof (cases "checked_num_elements sh")
    case (Inl f)
    then have "map_err (\<lambda>_. GenerationElementCountOverflow k) (checked_num_elements sh) =
        fail (GenerationElementCountOverflow k)"
      using num_elements_no_panic by (cases f) auto
    with True Inl show ?thesis
      by (simp add: from_shape_def max_rank traverse_dims shape_encodable_def shape_blocked_def)
  next
    case (Inr n)
    note n = num_elements_prod [OF Inr]
    then have "u64_try_from n = Some (word_of_nat (prod_list sh))" by simp
    with True Inr n(1) show ?thesis
      by (simp add: from_shape_def max_rank traverse_dims shape_encodable_def layout_of_def
          del: u64_try_from_Some)
  qed
qed

lemma layout_elements_of_shape:
  assumes "\<forall>d \<in> set sh. d < 2 ^ 64" and "checked_num_elements sh = Inr n"
  shows "layout_elements (map word_of_nat sh) = Inr (word_of_nat n)"
proof -
  have "try_fold (\<lambda>total dim. ok_or ElementCountOverflow (u64_checked_mul total dim)) (word_of_nat m)
      (map word_of_nat sh) = Inr (word_of_nat n)"
    if "try_fold (\<lambda>total dim. ok_or ShapeOverflow (checked_mul total dim)) m sh = Inr n" "m \<le> usize_max" for m
    using that assms(1)
  proof (induction sh arbitrary: m)
    case (Cons d sh)
    from Cons.prems have md: "m * d \<le> usize_max"
      "try_fold (\<lambda>total dim. ok_or ShapeOverflow (checked_mul total dim)) (m * d) sh = Inr n"
      by (auto simp: outcome_simps)
    have "unat (word_of_nat m :: u64) = m" "unat (word_of_nat d :: u64) = d"
      using Cons.prems(2,3) by (simp_all add: unat_of_nat)
    then have "u64_checked_mul (word_of_nat m) (word_of_nat d) = Some (word_of_nat (m * d))"
      using md(1) by (simp add: u64_checked_mul_def)
    with Cons.IH [OF md(2,1)] Cons.prems(3) show ?case by (simp del: u64_checked_mul_Some)
  qed simp
  from this [of 1] assms(2) show ?thesis by (simp add: layout_elements_def checked_num_elements_def)
qed

lemma layout_of_ok: "shape_encodable sh \<Longrightarrow> layout_ok (layout_of sh)"
  using layout_elements_of_shape num_elements_prod
  by (fastforce simp: layout_ok_def layout_of_def shape_encodable_def)

section \<open>Artefacts of kernels\<close>

fun attributes_of :: "kernel_family \<Rightarrow> attributes" where
  "attributes_of (ElementwiseUnary (ScaleKernel factor)) = ScaleAttributes (ucast (sc_bits factor))"
| "attributes_of (Permute permutation) = PermuteAttributes (map word_of_nat permutation)"
| "attributes_of _ = NoAttributes"

fun opcode_of :: "kernel_family \<Rightarrow> opcode" where
  "opcode_of (ElementwiseUnary ReluKernel) = OpRelu"
| "opcode_of (ElementwiseUnary ExpKernel) = OpExp"
| "opcode_of (ElementwiseUnary LogKernel) = OpLog"
| "opcode_of (ElementwiseUnary ZerosLikeKernel) = OpZerosLike"
| "opcode_of (ElementwiseUnary OnesLikeKernel) = OpOnesLike"
| "opcode_of (ElementwiseUnary (ScaleKernel _)) = OpScale"
| "opcode_of (ElementwiseBinary AddKernel) = OpAdd"
| "opcode_of (ElementwiseBinary SubKernel) = OpSub"
| "opcode_of (ElementwiseBinary MulKernel) = OpMul"
| "opcode_of (ElementwiseBinary DivKernel) = OpDiv"
| "opcode_of MatMulKernel = OpMatMul"
| "opcode_of BatchMatMulKernel = OpBatchMatMul"
| "opcode_of ShapeCopy = OpShapeCopy"
| "opcode_of (Permute _) = OpPermute"

definition artifact_of :: "logical_kernel \<Rightarrow> artifact" where
  "artifact_of k =
     \<lparr>ra_kernel = word_of_nat (lk_id k), ra_version = reference_format_version,
      ra_opcode = opcode_of (lk_family k), ra_dtype = F32,
      ra_operands = map (\<lambda>t. layout_of (ty_shape t)) (lk_operands k),
      ra_result = layout_of (ty_shape (lk_result k)), ra_attributes = attributes_of (lk_family k)\<rparr>"

text \<open>What the format can express, and the reasons it cannot.\<close>

fun factor_fits :: "kernel_family \<Rightarrow> bool" where
  "factor_fits (ElementwiseUnary (ScaleKernel factor)) \<longleftrightarrow> unat (sc_bits factor) < u32_range"
| "factor_fits _ \<longleftrightarrow> True"

definition generatable :: "logical_kernel \<Rightarrow> bool" where
  "generatable k \<longleftrightarrow> ty_dtype (lk_result k) = F32 \<and>
     (\<forall>t \<in> set (lk_operands k). shape_encodable (ty_shape t)) \<and>
     shape_encodable (ty_shape (lk_result k)) \<and> factor_fits (lk_family k)"

definition generation_blocked :: "logical_kernel \<Rightarrow> generation_error failure \<Rightarrow> bool" where
  "generation_blocked k f \<longleftrightarrow>
     f = Err (GenerationUnsupportedDType (word_of_nat (lk_id k)) (ty_dtype (lk_result k))) \<and>
       ty_dtype (lk_result k) \<noteq> F32 \<or>
     (\<exists>t \<in> set (lk_operands k @ [lk_result k]). shape_blocked (word_of_nat (lk_id k)) (ty_shape t) f) \<or>
     f = Err (ScaleFactorBitsOverflow (word_of_nat (lk_id k))) \<and> \<not> factor_fits (lk_family k)"

lemma family_of_eq:
  "family_of oper = Some (ElementwiseUnary ReluKernel) \<longleftrightarrow> oper = Relu"
  "family_of oper = Some (ElementwiseUnary ExpKernel) \<longleftrightarrow> oper = Exp"
  "family_of oper = Some (ElementwiseUnary LogKernel) \<longleftrightarrow> oper = Log"
  "family_of oper = Some (ElementwiseUnary ZerosLikeKernel) \<longleftrightarrow> oper = ZerosLike"
  "family_of oper = Some (ElementwiseUnary OnesLikeKernel) \<longleftrightarrow> oper = OnesLike"
  "family_of oper = Some (ElementwiseUnary (ScaleKernel s)) \<longleftrightarrow> oper = Scale s"
  "family_of oper = Some (ElementwiseBinary AddKernel) \<longleftrightarrow> oper = Add"
  "family_of oper = Some (ElementwiseBinary SubKernel) \<longleftrightarrow> oper = Sub"
  "family_of oper = Some (ElementwiseBinary MulKernel) \<longleftrightarrow> oper = Mul"
  "family_of oper = Some (ElementwiseBinary DivKernel) \<longleftrightarrow> oper = Div"
  "family_of oper = Some MatMulKernel \<longleftrightarrow> oper = MatMul"
  "family_of oper = Some BatchMatMulKernel \<longleftrightarrow> oper = BatchMatMul"
  "family_of oper = Some ShapeCopy \<longleftrightarrow> (\<exists>sh. oper = Reshape sh)"
  "family_of oper = Some (Permute p) \<longleftrightarrow> oper = Transpose p"
  by (cases oper; auto)+

text \<open>The typing rule of each family, from that of its operation.\<close>

fun family_typed :: "kernel_family \<Rightarrow> tensor_type list \<Rightarrow> tensor_type \<Rightarrow> bool" where
  "family_typed (ElementwiseUnary (ScaleKernel factor)) tys out \<longleftrightarrow> tys = [out] \<and> sc_dtype factor = ty_dtype out"
| "family_typed (ElementwiseUnary _) tys out \<longleftrightarrow> tys = [out]"
| "family_typed (ElementwiseBinary _) tys out \<longleftrightarrow> tys = [out, out]"
| "family_typed MatMulKernel tys out \<longleftrightarrow> op_typed MatMul tys out"
| "family_typed BatchMatMulKernel tys out \<longleftrightarrow> op_typed BatchMatMul tys out"
| "family_typed ShapeCopy tys out \<longleftrightarrow> op_typed (Reshape (ty_shape out)) tys out"
| "family_typed (Permute p) tys out \<longleftrightarrow> op_typed (Transpose p) tys out"

lemma kernel_typed_family: "kernel_typed k \<longleftrightarrow> family_typed (lk_family k) (lk_operands k) (lk_result k)"
proof (cases "lk_family k")
  case (ElementwiseUnary u)
  then show ?thesis by (cases u) (auto simp: kernel_typed_def family_of_eq)
next
  case (ElementwiseBinary b)
  then show ?thesis by (cases b) (auto simp: kernel_typed_def family_of_eq)
qed (auto simp: kernel_typed_def family_of_eq)

section \<open>One kernel\<close>

lemma operand_count_code: "unat (operand_count oper) = (if oper \<in> {OpAdd, OpSub, OpMul, OpDiv, OpReluGrad, OpMatMul, OpBatchMatMul} then 2 else 1)"
  by (cases oper) auto

lemma kernel_typed_operands:
  assumes "kernel_typed k"
  shows "\<forall>t \<in> set (lk_operands k). ty_dtype t = ty_dtype (lk_result k)"
    and "length (lk_operands k) = unat (operand_count (opcode_of (lk_family k)))"
  using assms unfolding kernel_typed_family
  by (cases "lk_family k" rule: opcode_of.cases; auto)+

lemma opcode_for_family_eq:
  "\<exists>source. opcode_for_family fam k = Inr (opcode_of fam, source) \<and>
     (source = (case fam of
        ElementwiseUnary (ScaleKernel factor) \<Rightarrow> ScaleSource (sc_dtype factor) (sc_bits factor)
      | Permute p \<Rightarrow> PermuteSource p
      | _ \<Rightarrow> NoSource))"
  by (cases fam rule: opcode_of.cases) auto

lemma traverse_axes:
  "\<forall>a \<in> set p. a < 65536 \<Longrightarrow>
     traverse (\<lambda>axis. ok_or e (u16_try_from axis)) p = Inr (map word_of_nat p)"
  by (rule traverse_map) (simp add: u16_try_from_def)

lemma resolve_attributes_typed:
  assumes "kernel_typed kern" and "opcode_for_family (lk_family kern) k = Inr (oper, source)"
    and "length (ty_shape (lk_result kern)) \<le> 32"
  shows "resolve_attributes k (ty_dtype (lk_result kern)) source =
    (if factor_fits (lk_family kern) then Inr (attributes_of (lk_family kern))
     else fail (ScaleFactorBitsOverflow k))"
proof (cases "lk_family kern" rule: opcode_of.cases)
  case (6 factor)
  with assms show ?thesis
    by (auto simp: kernel_typed_family resolve_attributes_def require_def u64_as_u32_try_def)
next
  case (14 p)
  with assms(1) have "is_permutation p" "length p = length (ty_shape (lk_result kern))"
    by (auto simp: kernel_typed_family)
  with assms(3) have "\<forall>a \<in> set p. a < 65536" by (auto simp: is_permutation_def)
  note axes = traverse_axes [OF this, of "AxisIndexOverflow k"]
  with 14 assms(2) show ?thesis by (auto simp: resolve_attributes_def axes)
qed (use assms(2) in \<open>auto simp: resolve_attributes_def\<close>)

lemma traverse_layouts:
  "case traverse (\<lambda>t. from_shape (ty_shape t) k) ts of
     Inr ls \<Rightarrow> (\<forall>t \<in> set ts. shape_encodable (ty_shape t)) \<and> ls = map (\<lambda>t. layout_of (ty_shape t)) ts
   | Inl f \<Rightarrow> \<exists>t \<in> set ts. \<not> shape_encodable (ty_shape t) \<and> shape_blocked k (ty_shape t) f"
proof (induction ts)
  case (Cons t ts)
  with from_shape_eq [where k = k and sh = "ty_shape t"] show ?case
    by (cases "from_shape (ty_shape t) k"; cases "traverse (\<lambda>t. from_shape (ty_shape t) k) ts") auto
qed simp

lemma generate_kernel_typed:
  assumes typed: "kernel_typed kern"
  shows "case generate_kernel kern of
      Inr a \<Rightarrow> generatable kern \<and> a = artifact_of kern
    | Inl f \<Rightarrow> \<not> generatable kern \<and> generation_blocked kern f"
proof (cases "ty_dtype (lk_result kern) = F32")
  case False
  from opcode_for_family_eq [of "lk_family kern" "word_of_nat (lk_id kern)"] obtain source where
    "opcode_for_family (lk_family kern) (word_of_nat (lk_id kern)) = Inr (opcode_of (lk_family kern), source)" by blast
  with False show ?thesis
    by (simp add: generate_kernel_def generatable_def generation_blocked_def require_def Let_def)
next
  case f32: True
  let ?k = "word_of_nat (lk_id kern) :: u32"
  from opcode_for_family_eq [of "lk_family kern" ?k] obtain source where
    oper: "opcode_for_family (lk_family kern) ?k = Inr (opcode_of (lk_family kern), source)" by blast
  have dtypes: "for_each (\<lambda>operand. require (\<not> ty_dtype operand \<noteq> F32) (MixedDTypes ?k)) (lk_operands kern) = Inr ()"
    using kernel_typed_operands(1) [OF typed] f32 by (simp add: for_each_Inr)
  note pre = generate_kernel_def oper f32 dtypes [unfolded require_def not_not] kernel_typed_operands(2) [OF typed] require_def
  show ?thesis
  proof (cases "traverse (\<lambda>t. from_shape (ty_shape t) ?k) (lk_operands kern)")
    case (Inl f)
    with traverse_layouts [where k = ?k and ts = "lk_operands kern"] show ?thesis
      by (auto simp: pre generatable_def generation_blocked_def)
  next
    case (Inr ls)
    note ls = Inr traverse_layouts [where k = ?k and ts = "lk_operands kern"]
    show ?thesis
    proof (cases "from_shape (ty_shape (lk_result kern)) ?k")
      case (Inl f)
      with ls from_shape_eq [where k = ?k and sh = "ty_shape (lk_result kern)"] show ?thesis
        by (auto simp: pre generatable_def generation_blocked_def)
    next
      case (Inr l)
      with from_shape_eq [where k = ?k and sh = "ty_shape (lk_result kern)"] have
        l: "shape_encodable (ty_shape (lk_result kern))" "l = layout_of (ty_shape (lk_result kern))" by simp_all
      then have "length (ty_shape (lk_result kern)) \<le> 32" by (simp add: shape_encodable_def)
      from resolve_attributes_typed [OF typed oper this] l Inr ls f32 show ?thesis
        by (auto simp: pre generatable_def generation_blocked_def artifact_of_def Let_def)
    qed
  qed
qed

section \<open>Valid artefacts\<close>

lemma nat_of_dims [simp]: "\<forall>d \<in> set sh. d < 2 ^ 64 \<Longrightarrow> map unat (map word_of_nat sh :: u64 list) = sh"
  by (induction sh) (simp_all add: unat_of_nat)

lemma typed_shapes:
  assumes typed: "kernel_typed k" and gen: "generatable k"
  shows "shapes_typed (opcode_of (lk_family k)) (map (\<lambda>t. layout_of (ty_shape t)) (lk_operands k))
    (layout_of (ty_shape (lk_result k))) (attributes_of (lk_family k))"
proof (cases "lk_family k" rule: opcode_of.cases)
  case 11
  with typed show ?thesis by (auto simp: kernel_typed_family layout_of_def)
next
  case 12
  with typed show ?thesis
    by (auto simp: kernel_typed_family layout_of_def batch_matmul_dims_def Let_def Suc_le_eq)
next
  case 13
  with typed obtain a n where "lk_operands k = [a]" "checked_num_elements (ty_shape a) = Inr n"
    "checked_num_elements (ty_shape (lk_result k)) = Inr n" by (auto simp: kernel_typed_family)
  with 13 num_elements_prod(1) show ?thesis by (fastforce simp: layout_of_def)
next
  case (14 p)
  with typed obtain a where a: "lk_operands k = [a]" "length p = length (ty_shape a)" "is_permutation p"
    "ty_shape (lk_result k) = map ((!) (ty_shape a)) p" by (auto simp: kernel_typed_family)
  with gen have rank: "length (ty_shape a) \<le> 32" by (simp add: generatable_def shape_encodable_def)
  have axis: "unat (word_of_nat i :: u16) = i \<and> i < length (ty_shape a)" if "i \<in> set p" for i
  proof -
    have "i < length p" using a(3) that by (simp add: is_permutation_def)
    with a(2) rank show ?thesis by (simp add: unat_of_nat)
  qed
  have "distinct (map (word_of_nat :: nat \<Rightarrow> u16) p)"
  proof -
    have "inj_on (word_of_nat :: nat \<Rightarrow> u16) (set p)" by (rule inj_onI) (metis axis)
    with a(3) show ?thesis by (simp add: distinct_map is_permutation_def)
  qed
  with 14 a axis show ?thesis by (simp add: layout_of_def permuted_dims_def list_all_iff)
qed (use typed in \<open>simp_all add: kernel_typed_family\<close>)

lemma attributes_of_ok:
  assumes "kernel_typed k"
  shows "attributes_ok (opcode_of (lk_family k)) (length (ty_shape (lk_result k))) (attributes_of (lk_family k))"
  using assms by (cases "lk_family k" rule: opcode_of.cases) (auto simp: kernel_typed_family)

lemma artifact_of_ok:
  assumes "kernel_typed k" and "generatable k"
  shows "artifact_ok (artifact_of k)"
  using assms typed_shapes [OF assms] attributes_of_ok [OF assms(1)] kernel_typed_operands(2) [OF assms(1)]
  by (simp add: artifact_ok_def artifact_of_def list_all_iff generatable_def layout_of_ok)
    (simp add: layout_of_def)

section \<open>A whole plan\<close>

lemma generate_kernels:
  assumes ids: "\<And>i. i < length ks \<Longrightarrow> lk_id (ks ! i) = i" and small: "length ks \<le> u32_range"
    and typed: "list_all kernel_typed ks"
  shows "case try_fold (generate_step (length ks)) (replicate (length ks) False, []) (enumerate 0 ks) of
      Inr st \<Rightarrow> st = (replicate (length ks) True, map artifact_of ks) \<and> list_all generatable ks
    | Inl f \<Rightarrow> \<exists>k \<in> set ks. \<not> generatable k \<and> generation_blocked k f"
proof -
  let ?n = "length ks" and ?ks = "enumerate 0 ks"
  let ?P = "\<lambda>i st. i \<le> ?n \<and> st = (replicate i True @ replicate (?n - i) False, map artifact_of (take i ks)) \<and>
      list_all generatable (take i ks)"
  have step: "case generate_step ?n st (?ks ! i) of
      Inr st' \<Rightarrow> ?P (Suc i) st' | Inl f \<Rightarrow> \<not> generatable (ks ! i) \<and> generation_blocked (ks ! i) f"
    if i: "i < ?n" and st: "?P i st" for i st
  proof -
    have "kernel_typed (ks ! i)" using typed i by (simp add: list_all_length)
    note kern = generate_kernel_typed [OF this]
    have seen: "idx (replicate i True @ replicate (?n - i) False) i = (Inr False :: (generation_error, bool) outcome)"
      using i by (simp add: idx_def nth_append)
    have upd: "(replicate i True @ replicate (?n - i) False)[i := True] = replicate (Suc i) True @ replicate (?n - Suc i) False"
      using i by (intro nth_equalityI) (auto simp: nth_append nth_list_update simp del: replicate_Suc)
    have "generate_step ?n st (?ks ! i) = try_bind (generate_kernel (ks ! i)) (\<lambda>a.
        Inr (replicate (Suc i) True @ replicate (?n - Suc i) False, map artifact_of (take i ks) @ [a]))"
      using i st small ids [OF i] by (simp add: generate_step_def seen upd del: replicate_Suc)
    with kern i st show ?thesis
      by (auto simp: take_Suc_conv_app_nth simp del: replicate_Suc split: sum.splits)
  qed
  show ?thesis
  proof (cases "try_fold (generate_step ?n) (replicate ?n False, []) ?ks")
    case (Inr st)
    have "?P (length ?ks) st"
      using Inr
    proof (rule try_fold_invariant)
      fix i u v assume "i < length ?ks" "?P i u" "generate_step ?n u (?ks ! i) = Inr v"
      with step [of i u] show "?P (Suc i) v" by simp
    qed simp
    with Inr show ?thesis by simp
  next
    case (Inl f)
    then have "\<exists>i u. i < length ?ks \<and> ?P i u \<and> generate_step ?n u (?ks ! i) = Inl f"
    proof (rule try_fold_Inl)
      fix i u v assume "i < length ?ks" "?P i u" "generate_step ?n u (?ks ! i) = Inr v"
      with step [of i u] show "?P (Suc i) v" by simp
    qed simp
    then obtain i u where i: "i < length ?ks" "?P i u" "generate_step ?n u (?ks ! i) = Inl f" by blast
    with step [of i u] have "\<not> generatable (ks ! i) \<and> generation_blocked (ks ! i) f" by simp
    with i(1) Inl show ?thesis by auto
  qed
qed

lemma generate_typed:
  assumes "\<And>i. i < length (lp_kernels lp) \<Longrightarrow> lk_id (lp_kernels lp ! i) = i"
    and "length (lp_kernels lp) \<le> u32_range" and "list_all kernel_typed (lp_kernels lp)"
  shows "case generate lp of
      Inr artifacts \<Rightarrow> artifacts = map artifact_of (lp_kernels lp) \<and> list_all generatable (lp_kernels lp)
    | Inl f \<Rightarrow> \<exists>k \<in> set (lp_kernels lp). \<not> generatable k \<and> generation_blocked k f"
proof -
  note run = generate_kernels [OF assms]
  show ?thesis
  proof (cases "try_fold (generate_step (length (lp_kernels lp))) (replicate (length (lp_kernels lp)) False, [])
      (enumerate 0 (lp_kernels lp))")
    case (Inl f)
    with run show ?thesis by (simp add: generate_def)
  next
    case (Inr st)
    with run have "st = (replicate (length (lp_kernels lp)) True, map artifact_of (lp_kernels lp))"
      "list_all generatable (lp_kernels lp)" by simp_all
    moreover have "List.find (\<lambda>(position, present). \<not> present) (enumerate 0 (replicate n True)) = None" for n
      by (auto simp: find_None_iff set_enumerate0)
    ultimately show ?thesis using Inr by (simp add: generate_def)
  qed
qed

lemma generate_lowered:
  assumes "compile g = Inr plan" and "length (graph_nodes g) \<le> u32_range"
    and "validate_semantics g = Inr ()" and "lower_plan plan bindings = Inr lp"
  shows "case generate lp of
      Inr artifacts \<Rightarrow> artifacts = map artifact_of (lp_kernels lp) \<and> list_all generatable (lp_kernels lp)
    | Inl f \<Rightarrow> \<exists>k \<in> set (lp_kernels lp). \<not> generatable k \<and> generation_blocked k f"
  by (rule generate_typed [OF lowered_kernel_ids(2,1) [OF assms(4)] lowered_kernels_typed [OF assms]])

section \<open>Kernel modules\<close>

text \<open>Reading the digits back.\<close>

definition undecimal :: "string \<Rightarrow> nat" where
  "undecimal s = foldl (\<lambda>n c. 10 * n + (of_char c - 48)) 0 s"

lemma digit_value: "d < 10 \<Longrightarrow> (of_char (char_of (48 + d) :: char) :: nat) - 48 = d"
  by (simp add: of_char_of)

lemma undecimal_decimal [simp]: "undecimal (decimal n) = n"
proof (induction n rule: decimal.induct)
  case (1 n)
  show ?case
  proof (cases "n < 10")
    case True
    then show ?thesis using digit_value [OF True] by (subst decimal.simps) (simp add: undecimal_def)
  next
    case False
    have "undecimal (decimal n) = 10 * undecimal (decimal (n div 10)) + n mod 10"
      using False digit_value [of "n mod 10"] by (subst decimal.simps) (simp add: undecimal_def)
    with 1 [OF False] show ?thesis by simp
  qed
qed

lemma entry_point_inj:
  "artifact_entry_point a = artifact_entry_point b \<longleftrightarrow> ra_kernel a = ra_kernel b"
proof
  assume "artifact_entry_point a = artifact_entry_point b"
  then have "decimal (unat (ra_kernel a)) = decimal (unat (ra_kernel b))" by (simp add: artifact_entry_point_def)
  then have "unat (ra_kernel a) = unat (ra_kernel b)" by (metis undecimal_decimal)
  then show "ra_kernel a = ra_kernel b" by (simp only: word_unat_eq_iff)
qed (simp add: artifact_entry_point_def)

definition module_of :: "artifact \<Rightarrow> kernel_module" where
  "module_of a = \<lparr>km_format = ReferenceFormat, entry_point = artifact_entry_point a, code = encode a\<rparr>"

lemma to_kernel_module_eq [simp]: "to_kernel_module a = Inr (module_of a)"
  by (simp add: to_kernel_module_def kernel_module_new_def module_of_def artifact_entry_point_def encode_eq
      reference_magic_def)

lemma to_kernel_modules_eq [simp]: "to_kernel_modules artifacts = Inr (map module_of artifacts)"
  unfolding to_kernel_modules_def by (rule traverse_map) simp

lemma generated_ids_distinct:
  assumes "lower_plan plan bindings = Inr lp"
  shows "distinct (map (\<lambda>k. word_of_nat (lk_id k) :: u32) (lp_kernels lp))"
proof -
  have "unat (word_of_nat (lk_id (lp_kernels lp ! i)) :: u32) = i" if "i < length (lp_kernels lp)" for i
    using lowered_kernel_ids(1) [OF assms] lowered_kernel_ids(2) [OF assms that] that by (simp add: unat_of_nat)
  then have "(word_of_nat (lk_id (lp_kernels lp ! i)) :: u32) \<noteq> word_of_nat (lk_id (lp_kernels lp ! j))"
    if "i < length (lp_kernels lp)" "j < length (lp_kernels lp)" "i \<noteq> j" for i j
    using that by metis
  then show ?thesis by (simp add: distinct_conv_nth)
qed

text \<open>
  C34: generating Reference artefacts from the lowered plan of a compiled, well-typed graph
  either yields the artefact of every kernel, in order, or fails because of one kernel that the
  format cannot express (element type, rank, dimension, element count or scale bits), which the
  error names. The identifier, arity, mixed-type and axis errors of the generator are unreachable.
\<close>

theorem generation_decides:
  assumes "compile g = Inr plan" and "length (graph_nodes g) \<le> u32_range"
    and "validate_semantics g = Inr ()" and "lower_plan plan bindings = Inr lp"
  shows "case generate lp of
      Inr artifacts \<Rightarrow> artifacts = map artifact_of (lp_kernels lp) \<and> list_all generatable (lp_kernels lp)
    | Inl f \<Rightarrow> \<exists>k \<in> set (lp_kernels lp). \<not> generatable k \<and> generation_blocked k f"
  using assms by (rule generate_lowered)

definition example_kernel :: logical_kernel where
  "example_kernel = \<lparr>lk_id = 0, lk_family = ElementwiseUnary ReluKernel, lk_operands = [matrix_type],
     lk_result = matrix_type\<rparr>"

lemma example_kernel_generatable: "kernel_typed example_kernel" "generatable example_kernel"
  by (simp_all add: example_kernel_def kernel_typed_family matrix_type_def tensor_type_new_def generatable_def
      shape_encodable_def checked_num_elements_def)

lemma example_lowered:
  obtains lp where "lower_plan example_plan (derive_bindings example_plan) = Inr lp"
    "lp_kernels lp = [example_kernel]" "length (graph_nodes example_graph) \<le> u32_range"
  using example_plan_lowered by (simp add: example_kernel_def example_graph_def)

lemma example_generated:
  obtains lp where "lower_plan example_plan (derive_bindings example_plan) = Inr lp"
    "lp_kernels lp = [example_kernel]" "generate lp = Inr [artifact_of example_kernel]"
proof -
  from example_lowered obtain lp where lp: "lower_plan example_plan (derive_bindings example_plan) = Inr lp"
    "lp_kernels lp = [example_kernel]" "length (graph_nodes example_graph) \<le> u32_range" .
  from generate_lowered [OF example_compiled lp(3) example_graph_valid(2) lp(1)]
  have "generate lp = Inr [artifact_of example_kernel]"
    by (cases "generate lp") (simp_all add: lp(2) example_kernel_generatable)
  with lp that show ?thesis by blast
qed

theorem generation_decides_witness:
  "\<exists>lp. lower_plan example_plan (derive_bindings example_plan) = Inr lp \<and>
     generate lp = Inr [artifact_of example_kernel]"
proof -
  from example_lowered obtain lp where lp: "lower_plan example_plan (derive_bindings example_plan) = Inr lp"
    "lp_kernels lp = [example_kernel]" "length (graph_nodes example_graph) \<le> u32_range" .
  from generation_decides [OF example_compiled lp(3) example_graph_valid(2) lp(1)] lp show ?thesis
    by (cases "generate lp") (simp_all add: example_kernel_generatable)
qed

text \<open>
  the modules of a generated plan decode back to the artefacts they were made from, and
  their entry points are pairwise distinct: generation loses nothing and no two kernels collide.
\<close>

theorem generated_modules_roundtrip:
  assumes "compile g = Inr plan" and "length (graph_nodes g) \<le> u32_range"
    and "validate_semantics g = Inr ()" and "lower_plan plan bindings = Inr lp"
    and "generate lp = Inr artifacts" and "to_kernel_modules artifacts = Inr modules"
  shows "traverse (\<lambda>m. decode (code m)) modules = Inr artifacts \<and> distinct (map entry_point modules) \<and>
    length modules = length (lp_kernels lp)"
proof -
  note gen = generate_lowered [OF assms(1-4)]
  have arts: "artifacts = map artifact_of (lp_kernels lp)" and all: "list_all generatable (lp_kernels lp)"
    using gen assms(5) by simp_all
  have ms: "modules = map module_of artifacts" using assms(6) by simp
  have "decode (code (module_of a)) = Inr a" if "a \<in> set artifacts" for a
  proof -
    from that arts obtain k where "k \<in> set (lp_kernels lp)" "a = artifact_of k" by auto
    moreover from this all lowered_kernels_typed [OF assms(1-4)] have "kernel_typed k" "generatable k"
      by (auto simp: list_all_iff)
    ultimately show ?thesis using encode_complete [OF artifact_of_ok] by (simp add: module_of_def)
  qed
  then have "traverse (\<lambda>m. decode (code m)) modules = Inr artifacts"
    by (auto simp: traverse_Inr ms)
  moreover have "distinct (map entry_point modules)"
  proof -
    have "distinct (map ra_kernel artifacts)"
      using generated_ids_distinct [OF assms(4)] by (simp add: arts artifact_of_def comp_def)
    then show ?thesis by (simp add: ms module_of_def comp_def distinct_map inj_on_def entry_point_inj)
  qed
  ultimately show ?thesis by (simp add: ms arts)
qed

theorem generated_modules_roundtrip_witness:
  "decode (code (module_of (artifact_of example_kernel))) = Inr (artifact_of example_kernel) \<and>
     ra_operands (artifact_of example_kernel) = [\<lparr>tl_dims = [2, 2], tl_elements = 4\<rparr>]"
proof -
  from example_generated obtain lp where lp: "lower_plan example_plan (derive_bindings example_plan) = Inr lp"
    "lp_kernels lp = [example_kernel]" "generate lp = Inr [artifact_of example_kernel]" .
  have "length (graph_nodes example_graph) \<le> u32_range" by (simp add: example_graph_def)
  from generated_modules_roundtrip [OF example_compiled this example_graph_valid(2) lp(1,3) to_kernel_modules_eq]
  have "decode (code (module_of (artifact_of example_kernel))) = Inr (artifact_of example_kernel)"
    by (simp add: outcome_simps)
  then show ?thesis
    by (simp add: artifact_of_def example_kernel_def layout_of_def matrix_type_def tensor_type_new_def)
qed

end
