(* ===== verification/Plan_Runtime.thy ===== *)
theory Plan_Runtime
  imports Compute_Backend Generator_Correct
begin

text \<open>
  The runtime of lowered plans (\<open>reference_plan.rs\<close> of \<open>scirust-tensor-runtime\<close>, errors in
  \<open>error.rs\<close>): a plan is validated and compiled once on a backend, then executed over supplied
  external values as often as wanted. The arms for variants that the non-exhaustive enumerations of
  the source do not have yet are not modelled.
\<close>

section \<open>Metadata, prepared plans and errors\<close>

record external_value_spec =
  ev_binding :: binding_id
  ev_node :: node_id
  ev_kind :: external_value_kind
  ev_tensor_type :: tensor_type

record slot_specification =
  sp_slot :: buffer_slot
  sp_tensor_type :: tensor_type

record plan_output_spec =
  os_node :: node_id
  os_tensor_type :: tensor_type

record plan_output_value =
  ov_node :: node_id
  ov_tensor_type :: tensor_type
  ov_values :: "element list"

type_synonym external_entries = "(binding_id \<times> element list) list"

datatype physical_target = SlotTarget usize | ExternalTarget usize

datatype prepared_access = PreparedRead | PreparedWrite

record prepared_argument =
  pa_binding_slot :: nat
  pa_target :: physical_target
  pa_length_bytes :: usize
  pa_access :: prepared_access

record prepared_dispatch =
  pd_node :: node_id
  pd_kernel :: kernel_id
  pd_arguments :: "prepared_argument list"

record prepared_output =
  po_spec :: plan_output_spec
  po_target :: physical_target
  po_length_bytes :: usize

record 'k prepared_plan =
  pr_kernels :: "'k list"
  pr_dispatches :: "prepared_dispatch list"
  pr_slots :: "slot_specification list"
  pr_externals :: "external_value_spec list"
  pr_outputs :: "prepared_output list"
  pr_slot_sizes :: "usize list"
  pr_external_sizes :: "usize list"
  pr_launch_config :: launch_config

datatype 'e prep_error =
    NonDenseKernelId usize kernel_id
  | UnknownKernelId usize kernel_id
  | UnknownBindingId usize binding_id
  | BindingKindMismatch usize binding_id
  | NonDenseBufferSlot buffer_slot
  | ArgumentCountMismatch usize usize usize
  | PlanArgumentIndexMismatch usize usize nat
  | MissingWriteArgument usize
  | MultipleWriteArguments usize
  | WriteArgumentNotLast usize usize
  | WriteToExternalValue usize binding_id
  | ArgumentTypeMismatch usize usize
  | InconsistentSlotType buffer_slot
  | InconsistentExternalType binding_id
  | UndeterminedValueType node_id
  | UnknownExternalTypeNode node_id
  | DuplicateExternalType node_id
  | ExternalTypeContradiction binding_id node_id tensor_type tensor_type
  | PlanUnsupportedDType node_id
  | BackendDTypeUnsupported
  | BackendWorkgroupTooSmall "nat \<times> nat \<times> nat"
  | DispatchExtentMismatch usize usize usize
  | ReadBeforeDefinition usize buffer_slot
  | UnknownOutputSource usize node_id
  | SizeOverflow usize
  | BufferExceedsBackendLimit usize usize
  | PlanMathUnavailable kernel_id opcode
  | KernelGeneration generation_error
  | KernelArtifactMismatch usize usize
  | KernelModuleRejected kernel_id generation_error
  | KernelCompilation kernel_id 'e

datatype 'e exec_error =
    MissingExternalValue binding_id
  | UnexpectedExternalValue binding_id
  | DuplicateExternalValue binding_id
  | ExternalValueLengthMismatch binding_id usize usize
  | MissingPhysicalBuffer usize
  | MissingCompiledKernel usize kernel_id
  | BufferAllocation usize 'e
  | BufferWrite binding_id 'e
  | BufferRead usize node_id 'e
  | StreamCreation 'e
  | KernelLaunch usize node_id kernel_id 'e
  | EventWait usize node_id kernel_id 'e
  | SynchronizationFailed 'e
  | MalformedOutputBytes usize usize

section \<open>Shared helpers\<close>

definition plan_element_count :: "tensor_type \<Rightarrow> ('e prep_error, usize) outcome" where
  "plan_element_count ty = map_err (\<lambda>_. SizeOverflow 0) (checked_num_elements (ty_shape ty))"

definition byte_size :: "usize \<Rightarrow> ('e prep_error, usize) outcome" where
  "byte_size elements = ok_or (SizeOverflow elements) (checked_mul elements 4)"

definition check_backend_limit :: "usize \<Rightarrow> usize option \<Rightarrow> ('e prep_error, unit) outcome" where
  "check_backend_limit bytes max_buffer_bytes =
     (case max_buffer_bytes of
        Some limit \<Rightarrow> if bytes > limit then fail (BufferExceedsBackendLimit bytes limit) else Inr ()
      | None \<Rightarrow> Inr ())"

definition index_as_u32 :: "usize \<Rightarrow> nat" where
  "index_as_u32 i = (case u32_try_from i of Some w \<Rightarrow> w | None \<Rightarrow> u32_range - 1)"

definition saturating_add :: "usize \<Rightarrow> usize \<Rightarrow> usize" where
  "saturating_add a b = min (a + b) usize_max"

section \<open>Types of slots and external values\<close>

record value_types =
  vt_slots :: "tensor_type option list"
  vt_externals :: "tensor_type option list"

definition note_slot :: "usize option \<Rightarrow> kernel_argument \<Rightarrow> usize option" where
  "note_slot highest a =
     (case ka_source a of
        FromBuffer slot \<Rightarrow>
          Some (case highest of None \<Rightarrow> slot | Some current \<Rightarrow> if slot > current then slot else current)
      | _ \<Rightarrow> highest)"

definition highest_slot :: "lowered_plan \<Rightarrow> usize option" where
  "highest_slot plan = foldl (\<lambda>highest i. foldl note_slot highest (li_arguments i)) None (lp_instructions plan)"

definition find_position :: "('a \<Rightarrow> bool) \<Rightarrow> 'a list \<Rightarrow> nat option" where
  "find_position P xs = List.find (\<lambda>i. P (xs ! i)) [0..<length xs]"

definition seed_type ::
  "external_bindings \<Rightarrow> tensor_type option list \<times> bool list \<Rightarrow> node_id \<times> tensor_type
     \<Rightarrow> ('e prep_error, tensor_type option list \<times> bool list) outcome" where
  "seed_type bindings st hint = (case (st, hint) of ((externals, seeded), (n, ty)) \<Rightarrow>
     try_bind (ok_or (UnknownExternalTypeNode n) (find_position (\<lambda>entry. eb_node entry = n) bindings)) (\<lambda>index.
     if ty_dtype ty \<noteq> F32 then fail (PlanUnsupportedDType n)
     else
       try_bind (ok_or (UnknownExternalTypeNode n) (get seeded index)) (\<lambda>marker.
       if marker then fail (DuplicateExternalType n)
       else
         try_bind (ok_or (UnknownExternalTypeNode n) (get externals index)) (\<lambda>_.
         Inr (externals[index := Some ty], seeded[index := True])))))"

definition record_type :: "tensor_type option \<Rightarrow> tensor_type \<Rightarrow> tensor_type option option" where
  "record_type entry observed =
     (case entry of
        Some existing \<Rightarrow> if existing = observed then Some (Some existing) else None
      | None \<Rightarrow> Some (Some observed))"

definition record_external ::
  "lowered_plan \<Rightarrow> bool list \<Rightarrow> usize \<Rightarrow> value_types \<Rightarrow> binding_id \<Rightarrow> external_value_kind \<Rightarrow> tensor_type
     \<Rightarrow> ('e prep_error, value_types) outcome" where
  "record_external plan seeded dispatch_index types binding expected_kind ty =
     try_bind (ok_or (UnknownBindingId dispatch_index binding) (lowered_binding plan binding)) (\<lambda>declared.
     if eb_kind declared \<noteq> expected_kind then fail (BindingKindMismatch dispatch_index binding)
     else
       try_bind (ok_or (UnknownBindingId dispatch_index binding) (get (vt_externals types) binding)) (\<lambda>entry.
       case entry of
         Some existing \<Rightarrow>
           if existing = ty then Inr types
           else if get seeded binding = Some True
           then fail (ExternalTypeContradiction binding (eb_node declared) existing ty)
           else fail (InconsistentExternalType binding)
       | None \<Rightarrow> Inr (types\<lparr>vt_externals := (vt_externals types)[binding := Some ty]\<rparr>)))"

definition record_argument ::
  "lowered_plan \<Rightarrow> bool list \<Rightarrow> usize \<Rightarrow> value_types \<Rightarrow> kernel_argument \<Rightarrow> ('e prep_error, value_types) outcome" where
  "record_argument plan seeded dispatch_index types a =
     (case ka_source a of
        FromBuffer slot \<Rightarrow>
          try_bind (ok_or (NonDenseBufferSlot slot) (get (vt_slots types) slot)) (\<lambda>entry.
          try_bind (ok_or (InconsistentSlotType slot) (record_type entry (ka_tensor_type a))) (\<lambda>entry.
          Inr (types\<lparr>vt_slots := (vt_slots types)[slot := entry]\<rparr>)))
      | FromInput binding \<Rightarrow> record_external plan seeded dispatch_index types binding InputKind (ka_tensor_type a)
      | FromConstant binding \<Rightarrow>
          record_external plan seeded dispatch_index types binding ConstantKind (ka_tensor_type a))"

definition collect_value_types ::
  "lowered_plan \<Rightarrow> (node_id \<times> tensor_type) list \<Rightarrow> ('e prep_error, value_types) outcome" where
  "collect_value_types plan external_types =
     (let slot_count = (case highest_slot plan of None \<Rightarrow> 0 | Some highest \<Rightarrow> saturating_add highest 1);
          slots = replicate slot_count None;
          externals = replicate (length (lp_bindings plan)) None;
          seeded = replicate (length (lp_bindings plan)) False in
      try_bind (try_fold (seed_type (lp_bindings plan)) (externals, seeded) external_types) (\<lambda>(externals, seeded).
      try_fold (\<lambda>types (dispatch_index, i). try_fold (record_argument plan seeded dispatch_index) types (li_arguments i))
        \<lparr>vt_slots = slots, vt_externals = externals\<rparr> (enumerate 0 (lp_instructions plan))))"

section \<open>Dispatches\<close>

definition check_kernel_id :: "usize \<times> logical_kernel \<Rightarrow> ('e prep_error, unit) outcome" where
  "check_kernel_id p = (case p of (position, kern) \<Rightarrow>
     require (\<not> lk_id kern \<noteq> position) (NonDenseKernelId position (lk_id kern)))"

text \<open>One argument; the state is the number of writes so far and the resolved arguments.\<close>

definition resolve_argument ::
  "lowered_instruction \<Rightarrow> logical_kernel \<Rightarrow> usize \<Rightarrow> bool list \<Rightarrow> usize \<times> prepared_argument list \<Rightarrow> usize \<times> kernel_argument
     \<Rightarrow> ('e prep_error, usize \<times> prepared_argument list) outcome" where
  "resolve_argument i kern dispatch_index defined_slots st p = (case (st, p) of ((writes, arguments), (position, a)) \<Rightarrow>
     try_bind (require (\<not> ka_index a \<noteq> index_as_u32 position)
                 (PlanArgumentIndexMismatch dispatch_index position (ka_index a))) (\<lambda>_.
     try_bind (require (\<not> ty_dtype (ka_tensor_type a) \<noteq> F32) (PlanUnsupportedDType (li_node i))) (\<lambda>_.
     let access = (case ka_access a of ReadAccess \<Rightarrow> PreparedRead | WriteAccess \<Rightarrow> PreparedWrite);
         declared = (case access of
            PreparedRead \<Rightarrow> get (lk_operands kern) position
          | PreparedWrite \<Rightarrow> Some (lk_result kern)) in
     try_bind (require (\<not> declared \<noteq> Some (ka_tensor_type a)) (ArgumentTypeMismatch dispatch_index position)) (\<lambda>_.
     try_bind
       (case ka_source a of
          FromBuffer slot \<Rightarrow> Inr (SlotTarget slot)
        | FromInput binding \<Rightarrow>
            if access = PreparedWrite then fail (WriteToExternalValue dispatch_index binding)
            else Inr (ExternalTarget binding)
        | FromConstant binding \<Rightarrow>
            if access = PreparedWrite then fail (WriteToExternalValue dispatch_index binding)
            else Inr (ExternalTarget binding)) (\<lambda>target.
     try_bind
       (case access of
          PreparedRead \<Rightarrow>
            (case ka_source a of
               FromBuffer slot \<Rightarrow>
                 try_bind (ok_or (NonDenseBufferSlot slot) (get defined_slots slot)) (\<lambda>defined.
                 if \<not> defined then fail (ReadBeforeDefinition dispatch_index slot) else Inr writes)
             | _ \<Rightarrow> Inr writes)
        | PreparedWrite \<Rightarrow>
            (let writes = saturating_add writes 1 in
             if writes > 1 then fail (MultipleWriteArguments dispatch_index)
             else if position + 1 \<noteq> length (li_arguments i) then fail (WriteArgumentNotLast dispatch_index position)
             else Inr writes)) (\<lambda>writes.
     try_bind (plan_element_count (ka_tensor_type a)) (\<lambda>elements.
     try_bind (byte_size elements) (\<lambda>bytes.
     Inr (writes, arguments @ [\<lparr>pa_binding_slot = ka_index a, pa_target = target, pa_length_bytes = bytes,
                                pa_access = access\<rparr>])))))))))"

text \<open>One dispatch; the state is the definedness of the slots and the resolved dispatches.\<close>

definition resolve_dispatch ::
  "lowered_plan \<Rightarrow> bool list \<times> prepared_dispatch list \<Rightarrow> usize \<times> lowered_instruction
     \<Rightarrow> ('e prep_error, bool list \<times> prepared_dispatch list) outcome" where
  "resolve_dispatch plan st p = (case (st, p) of ((defined_slots, dispatches), (dispatch_index, i)) \<Rightarrow>
     try_bind (ok_or (UnknownKernelId dispatch_index (li_kernel i)) (lowered_kernel plan (li_kernel i))) (\<lambda>kern.
     let expected_arguments = saturating_add (length (lk_operands kern)) 1 in
     if length (li_arguments i) \<noteq> expected_arguments
     then fail (ArgumentCountMismatch dispatch_index expected_arguments (length (li_arguments i)))
     else
       try_bind (try_fold (resolve_argument i kern dispatch_index defined_slots) (0, []) (enumerate 0 (li_arguments i)))
         (\<lambda>(writes, arguments).
       if writes = 0 then fail (MissingWriteArgument dispatch_index)
       else
         try_bind (plan_element_count (lk_result kern)) (\<lambda>result_elements.
         if ld_elements (li_dispatch i) \<noteq> result_elements
         then fail (DispatchExtentMismatch dispatch_index result_elements (ld_elements (li_dispatch i)))
         else
           (let defined_slots = (if li_arguments i = [] then defined_slots
                  else case ka_source (last (li_arguments i)) of
                    FromBuffer slot \<Rightarrow> defined_slots[slot := True]
                  | _ \<Rightarrow> defined_slots) in
            Inr (defined_slots,
                 dispatches @ [\<lparr>pd_node = li_node i, pd_kernel = li_kernel i, pd_arguments = arguments\<rparr>]))))))"

definition resolve_dispatches ::
  "lowered_plan \<Rightarrow> value_types \<Rightarrow> ('e prep_error, prepared_dispatch list) outcome" where
  "resolve_dispatches plan types =
     try_bind (for_each check_kernel_id (enumerate 0 (lp_kernels plan))) (\<lambda>_.
     try_bind (try_fold (resolve_dispatch plan) (replicate (length (vt_slots types)) False, [])
                 (enumerate 0 (lp_instructions plan))) (\<lambda>(_, dispatches).
     Inr dispatches))"

section \<open>Buffers and outputs\<close>

definition slot_specification_of ::
  "usize option \<Rightarrow> usize \<times> tensor_type option \<Rightarrow> ('e prep_error, slot_specification \<times> usize) outcome" where
  "slot_specification_of max_buffer_bytes p = (case p of (index, entry) \<Rightarrow>
     try_bind (ok_or (NonDenseBufferSlot index) entry) (\<lambda>ty.
     try_bind (plan_element_count ty) (\<lambda>elements.
     try_bind (byte_size elements) (\<lambda>bytes.
     try_bind (check_backend_limit bytes max_buffer_bytes) (\<lambda>_.
     Inr (\<lparr>sp_slot = index, sp_tensor_type = ty\<rparr>, bytes))))))"

definition build_slot_specifications ::
  "value_types \<Rightarrow> usize option \<Rightarrow> ('e prep_error, slot_specification list \<times> usize list) outcome" where
  "build_slot_specifications types max_buffer_bytes =
     try_bind (traverse (slot_specification_of max_buffer_bytes) (enumerate 0 (vt_slots types))) (\<lambda>rs.
     Inr (map fst rs, map snd rs))"

definition external_specification_of ::
  "value_types \<Rightarrow> usize option \<Rightarrow> usize \<times> external_binding
     \<Rightarrow> ('e prep_error, external_value_spec \<times> usize) outcome" where
  "external_specification_of types max_buffer_bytes p = (case p of (index, declared) \<Rightarrow>
     try_bind (ok_or (UndeterminedValueType (eb_node declared)) (Option.bind (get (vt_externals types) index) id)) (\<lambda>ty.
     try_bind (plan_element_count ty) (\<lambda>elements.
     try_bind (byte_size elements) (\<lambda>bytes.
     try_bind (check_backend_limit bytes max_buffer_bytes) (\<lambda>_.
     Inr (\<lparr>ev_binding = index_as_u32 index, ev_node = eb_node declared, ev_kind = eb_kind declared,
           ev_tensor_type = ty\<rparr>, bytes))))))"

definition build_external_specifications ::
  "lowered_plan \<Rightarrow> value_types \<Rightarrow> usize option
     \<Rightarrow> ('e prep_error, external_value_spec list \<times> usize list) outcome" where
  "build_external_specifications plan types max_buffer_bytes =
     try_bind (traverse (external_specification_of types max_buffer_bytes) (enumerate 0 (lp_bindings plan))) (\<lambda>rs.
     Inr (map fst rs, map snd rs))"

definition resolve_output ::
  "lowered_plan \<Rightarrow> value_types \<Rightarrow> usize \<times> lowered_output \<Rightarrow> ('e prep_error, prepared_output) outcome" where
  "resolve_output plan types p = (case p of (output_index, out) \<Rightarrow>
     (let external = (\<lambda>index.
        if index \<ge> length (lp_bindings plan) then fail (UnknownOutputSource output_index (lo_node out))
        else
          try_bind (ok_or (UndeterminedValueType (lo_node out)) (Option.bind (get (vt_externals types) index) id)) (\<lambda>ty.
          Inr (ExternalTarget index, ty))) in
      try_bind
        (case lo_source out of
           FromBuffer slot \<Rightarrow>
             try_bind (ok_or (UnknownOutputSource output_index (lo_node out))
                         (Option.bind (get (vt_slots types) slot) id)) (\<lambda>ty.
             Inr (SlotTarget slot, ty))
         | FromInput binding \<Rightarrow> external binding
         | FromConstant binding \<Rightarrow> external binding) (\<lambda>(target, ty).
      try_bind (plan_element_count ty) (\<lambda>elements.
      try_bind (byte_size elements) (\<lambda>bytes.
      Inr \<lparr>po_spec = \<lparr>os_node = lo_node out, os_tensor_type = ty\<rparr>, po_target = target, po_length_bytes = bytes\<rparr>)))))"

definition resolve_outputs ::
  "lowered_plan \<Rightarrow> value_types \<Rightarrow> ('e prep_error, prepared_output list) outcome" where
  "resolve_outputs plan types = traverse (resolve_output plan types) (enumerate 0 (lp_outputs plan))"

section \<open>Kernels\<close>

definition compile_kernel ::
  "('s, 'b, 'k, 't, 'v, 'e) backend \<Rightarrow> usize \<times> artifact \<Rightarrow> ('s, 'e prep_error, 'k) action" where
  "compile_kernel B p = (case p of (position, a) \<Rightarrow>
     (let kern = unat (ra_kernel a) in
      act_bind (act_lift (require (\<not> kern \<noteq> position) (NonDenseKernelId position kern))) (\<lambda>_.
      act_bind (act_lift (require (ra_opcode a \<notin> {OpExp, OpLog}) (PlanMathUnavailable kern (ra_opcode a)))) (\<lambda>_.
      act_bind (act_lift (map_err (KernelModuleRejected kern) (to_kernel_module a))) (\<lambda>m.
      act_map_err (KernelCompilation kern) (be_compile B m))))))"

definition compile_kernels ::
  "('s, 'b, 'k, 't, 'v, 'e) backend \<Rightarrow> lowered_plan \<Rightarrow> ('s, 'e prep_error, 'k list) action" where
  "compile_kernels B plan =
     act_bind (act_lift (map_err KernelGeneration (generate plan))) (\<lambda>artifacts.
     act_bind (act_lift (require (\<not> length artifacts \<noteq> length (lp_kernels plan))
                 (KernelArtifactMismatch (length (lp_kernels plan)) (length artifacts)))) (\<lambda>_.
     act_traverse (compile_kernel B) (enumerate 0 artifacts)))"

section \<open>Preparation\<close>

fun any_below_one :: "nat \<times> nat \<times> nat \<Rightarrow> bool" where
  "any_below_one (x, y, z) \<longleftrightarrow> x < 1 \<or> y < 1 \<or> z < 1"

definition prepare_with_external_types ::
  "('s, 'b, 'k, 't, 'v, 'e) backend \<Rightarrow> lowered_plan \<Rightarrow> (node_id \<times> tensor_type) list
     \<Rightarrow> ('s, 'e prep_error, 'k prepared_plan) action" where
  "prepare_with_external_types B plan external_types =
     (let capabilities = be_capabilities B; max_buffer_bytes = dc_max_buffer_bytes capabilities in
      act_bind (act_lift (
        try_bind (require (supports_dtype capabilities F32) BackendDTypeUnsupported) (\<lambda>_.
        try_bind (require (\<not> any_below_one (dc_max_workgroup_size capabilities))
                    (BackendWorkgroupTooSmall (dc_max_workgroup_size capabilities))) (\<lambda>_.
        try_bind (collect_value_types plan external_types) (\<lambda>types.
        try_bind (resolve_dispatches plan types) (\<lambda>dispatches.
        try_bind (build_slot_specifications types max_buffer_bytes) (\<lambda>(slots, slot_sizes).
        try_bind (build_external_specifications plan types max_buffer_bytes) (\<lambda>(externals, external_sizes).
        try_bind (resolve_outputs plan types) (\<lambda>outputs.
        Inr (dispatches, slots, slot_sizes, externals, external_sizes, outputs))))))))))
        (\<lambda>(dispatches, slots, slot_sizes, externals, external_sizes, outputs).
      act_bind (compile_kernels B plan) (\<lambda>kernels.
      act_return
        \<lparr>pr_kernels = kernels, pr_dispatches = dispatches, pr_slots = slots, pr_externals = externals,
         pr_outputs = outputs, pr_slot_sizes = slot_sizes, pr_external_sizes = external_sizes,
         pr_launch_config = canonical_launch_config\<rparr>)))"

definition runtime_prepare ::
  "('s, 'b, 'k, 't, 'v, 'e) backend \<Rightarrow> lowered_plan \<Rightarrow> ('s, 'e prep_error, 'k prepared_plan) action" where
  "runtime_prepare B plan = prepare_with_external_types B plan []"

section \<open>Execution\<close>

definition supply_value ::
  "element list option list \<Rightarrow> binding_id \<times> element list \<Rightarrow> ('e exec_error, element list option list) outcome" where
  "supply_value supplied p = (case p of (binding, v) \<Rightarrow>
     try_bind (ok_or (UnexpectedExternalValue binding) (get supplied binding)) (\<lambda>entry.
     if entry \<noteq> None then fail (DuplicateExternalValue binding)
     else Inr (supplied[binding := Some v])))"

definition resolve_supplied ::
  "'k prepared_plan \<Rightarrow> usize \<times> element list option \<Rightarrow> ('e exec_error, element list) outcome" where
  "resolve_supplied prepared p = (case p of (index, entry) \<Rightarrow>
     (let binding = index_as_u32 index in
      try_bind (ok_or (MissingExternalValue binding) entry) (\<lambda>v.
      let expected = (case get (pr_external_sizes prepared) index of Some bytes \<Rightarrow> bytes | None \<Rightarrow> 0) div 4 in
      if length v \<noteq> expected then fail (ExternalValueLengthMismatch binding expected (length v))
      else Inr v)))"

definition resolve_external_values ::
  "'k prepared_plan \<Rightarrow> external_entries \<Rightarrow> ('e exec_error, element list list) outcome" where
  "resolve_external_values prepared entries =
     try_bind (try_fold supply_value (replicate (length (pr_externals prepared)) None) entries) (\<lambda>supplied.
     traverse (resolve_supplied prepared) (enumerate 0 supplied))"

definition decode_le :: "u8 list \<Rightarrow> usize \<Rightarrow> ('e exec_error, element list) outcome" where
  "decode_le bytes output_index =
     (case as_chunks4 bytes of (groups, remainder) \<Rightarrow>
        if remainder \<noteq> [] then fail (MalformedOutputBytes output_index (length bytes))
        else Inr (map u32_from_le groups))"

definition runtime_allocate ::
  "('s, 'b, 'k, 't, 'v, 'e) backend \<Rightarrow> usize \<Rightarrow> ('s, 'e exec_error, 'b) action" where
  "runtime_allocate B bytes = act_map_err (BufferAllocation bytes) (be_allocate B bytes 1 HostMemory)"

definition import_value ::
  "('s, 'b, 'k, 't, 'v, 'e) backend \<Rightarrow> 'b list \<Rightarrow> usize \<times> element list \<Rightarrow> ('s, 'e exec_error, unit) action" where
  "import_value B external_buffers p = (case p of (index, v) \<Rightarrow>
     act_bind (act_lift (ok_or (MissingPhysicalBuffer 0) (get external_buffers index))) (\<lambda>buffer.
     act_map_err (BufferWrite (index_as_u32 index)) (be_write B buffer 0 (element_bytes v))))"

definition target_buffer :: "'b list \<Rightarrow> 'b list \<Rightarrow> physical_target \<Rightarrow> 'b option" where
  "target_buffer slot_buffers external_buffers target =
     (case target of SlotTarget index \<Rightarrow> get slot_buffers index | ExternalTarget index \<Rightarrow> get external_buffers index)"

definition bind_argument ::
  "'b list \<Rightarrow> 'b list \<Rightarrow> usize \<Rightarrow> prepared_argument \<Rightarrow> ('e exec_error, 'b buffer_binding) outcome" where
  "bind_argument slot_buffers external_buffers dispatch_index a =
     try_bind (ok_or (MissingPhysicalBuffer dispatch_index)
                 (target_buffer slot_buffers external_buffers (pa_target a))) (\<lambda>buffer.
     Inr \<lparr>bb_slot = pa_binding_slot a, bb_buffer = buffer, bb_offset_bytes = 0,
          bb_length_bytes = pa_length_bytes a,
          bb_access = (case pa_access a of PreparedRead \<Rightarrow> ReadOnly | PreparedWrite \<Rightarrow> WriteOnly)\<rparr>)"

definition execute_dispatch ::
  "('s, 'b, 'k, 't, 'v, 'e) backend \<Rightarrow> 'k prepared_plan \<Rightarrow> 'b list \<Rightarrow> 'b list \<Rightarrow> 't
     \<Rightarrow> usize \<times> prepared_dispatch \<Rightarrow> ('s, 'e exec_error, unit) action" where
  "execute_dispatch B prepared slot_buffers external_buffers stream p = (case p of (dispatch_index, d) \<Rightarrow>
     act_bind (act_lift (ok_or (MissingCompiledKernel dispatch_index (pd_kernel d))
                 (get (pr_kernels prepared) (pd_kernel d)))) (\<lambda>kern.
     act_bind (act_lift (traverse (bind_argument slot_buffers external_buffers dispatch_index) (pd_arguments d)))
       (\<lambda>bindings.
     act_bind (act_map_err (KernelLaunch dispatch_index (pd_node d) (pd_kernel d))
                 (be_launch B kern stream (pr_launch_config prepared) bindings)) (\<lambda>event.
     act_map_err (EventWait dispatch_index (pd_node d) (pd_kernel d)) (be_wait B event)))))"

definition read_output ::
  "('s, 'b, 'k, 't, 'v, 'e) backend \<Rightarrow> 'b list \<Rightarrow> 'b list \<Rightarrow> usize \<times> prepared_output
     \<Rightarrow> ('s, 'e exec_error, plan_output_value) action" where
  "read_output B slot_buffers external_buffers p = (case p of (output_index, out) \<Rightarrow>
     act_bind (act_lift (ok_or (MissingPhysicalBuffer output_index)
                 (target_buffer slot_buffers external_buffers (po_target out)))) (\<lambda>buffer.
     act_bind (act_map_err (BufferRead output_index (os_node (po_spec out)))
                 (be_read B buffer 0 (po_length_bytes out))) (\<lambda>bytes.
     act_bind (act_lift (decode_le bytes output_index)) (\<lambda>vs.
     act_return \<lparr>ov_node = os_node (po_spec out), ov_tensor_type = os_tensor_type (po_spec out), ov_values = vs\<rparr>))))"

definition runtime_execute ::
  "('s, 'b, 'k, 't, 'v, 'e) backend \<Rightarrow> 'k prepared_plan \<Rightarrow> external_entries
     \<Rightarrow> ('s, 'e exec_error, plan_output_value list) action" where
  "runtime_execute B prepared entries =
     act_bind (act_lift (resolve_external_values prepared entries)) (\<lambda>supplied.
     act_bind (act_traverse (runtime_allocate B) (pr_slot_sizes prepared)) (\<lambda>slot_buffers.
     act_bind (act_traverse (runtime_allocate B) (pr_external_sizes prepared)) (\<lambda>external_buffers.
     act_bind (act_for_each (import_value B external_buffers) (enumerate 0 supplied)) (\<lambda>_.
     act_bind (act_map_err StreamCreation (be_create_stream B)) (\<lambda>stream.
     act_bind (act_for_each (execute_dispatch B prepared slot_buffers external_buffers stream)
                 (enumerate 0 (pr_dispatches prepared))) (\<lambda>_.
     act_bind (act_map_err SynchronizationFailed (be_synchronize B stream)) (\<lambda>_.
     act_traverse (read_output B slot_buffers external_buffers) (enumerate 0 (pr_outputs prepared)))))))))"

end
