(* ===== verification/Plan_Preparation.thy ===== *)
theory Plan_Preparation
  imports Plan_Runtime
begin

text \<open>
  Preparation of a consistent plan. Lowering produces plans whose kernel identifiers are positions,
  whose slots are dense and written before they are read, and whose every occurrence of a slot or
  binding has one type. For such plans the defensive errors of the runtime are unreachable: each
  stage of preparation returns what the plan says, or fails for a reason that lies in the hints, the
  element types, the sizes, or the capabilities of the device.
\<close>

section \<open>Outcomes that succeed or fail for a reason\<close>

definition decided :: "('x \<Rightarrow> bool) \<Rightarrow> ('a \<Rightarrow> bool) \<Rightarrow> 'x + 'a \<Rightarrow> bool" where
  "decided Q P r \<longleftrightarrow> (case r of Inl f \<Rightarrow> Q f | Inr x \<Rightarrow> P x)"

lemma decided_sum [simp]: "decided Q P (Inl f) \<longleftrightarrow> Q f" "decided Q P (Inr x) \<longleftrightarrow> P x"
  by (simp_all add: decided_def)

lemma decided_bind [simp]: "decided Q P (try_bind m g) \<longleftrightarrow> decided Q (\<lambda>x. decided Q P (g x)) m"
  by (cases m) simp_all

lemma decided_ok_or [simp]: "decided Q P (ok_or e v) \<longleftrightarrow> (case v of None \<Rightarrow> Q (Err e) | Some x \<Rightarrow> P x)"
  by (cases v) simp_all

lemma decided_require [simp]: "decided Q P (require c e) \<longleftrightarrow> (if c then P () else Q (Err e))"
  by (simp add: require_def)

lemma get_in [simp]: "i < length xs \<Longrightarrow> get xs i = Some (xs ! i)"
  by simp

lemma decided_mono: "decided Q P r \<Longrightarrow> (\<And>x. P x \<Longrightarrow> P' x) \<Longrightarrow> decided Q P' r"
  by (cases r) simp_all

lemma decided_InrD: "decided Q P r \<Longrightarrow> r = Inr x \<Longrightarrow> P x"
  by simp

lemma decided_try_fold:
  assumes "P 0 s" and "\<And>i s. i < length xs \<Longrightarrow> P i s \<Longrightarrow> decided Q (P (Suc i)) (f s (xs ! i))"
  shows "decided Q (P (length xs)) (try_fold f s xs)"
  using assms
proof (induction xs rule: rev_induct)
  case Nil
  then show ?case by simp
next
  case (snoc x xs)
  have "decided Q (P (length xs)) (try_fold f s xs)"
  proof (rule snoc.IH [OF snoc.prems(1)])
    fix i t assume "i < length xs" "P i t"
    with snoc.prems(2) [of i t] show "decided Q (P (Suc i)) (f t (xs ! i))" by (simp add: nth_append)
  qed
  with snoc.prems(2) [of "length xs"] show ?case by (auto intro: decided_mono)
qed

lemma decided_traverse:
  assumes "\<And>i. i < length xs \<Longrightarrow> decided Q (\<lambda>y. y = g i \<and> R i) (f (xs ! i))"
  shows "decided Q (\<lambda>ys. ys = map g [0..<length xs] \<and> (\<forall>i < length xs. R i)) (traverse f xs)"
  using assms
proof (induction xs arbitrary: g R)
  case Nil
  show ?case by simp
next
  case (Cons x xs)
  have "decided Q (\<lambda>ys. ys = map (\<lambda>i. g (Suc i)) [0..<length xs] \<and> (\<forall>i < length xs. R (Suc i))) (traverse f xs)"
    by (rule Cons.IH) (use Cons.prems [of "Suc _"] in simp)
  moreover have "decided Q (\<lambda>y. y = g 0 \<and> R 0) (f x)" using Cons.prems [of 0] by simp
  moreover have "[0..<Suc (length xs)] = 0 # map Suc [0..<length xs]" by (simp add: map_Suc_upt upt_conv_Cons del: upt_Suc)
  ultimately show ?case by (cases "f x"; cases "traverse f xs") (auto simp: less_Suc_eq_0_disj simp del: upt_Suc)
qed

section \<open>Consistent plans\<close>

text \<open>The bytes of a value, and whether they are representable.\<close>

definition value_bytes :: "tensor_type \<Rightarrow> nat" where
  "value_bytes ty = 4 * prod_list (ty_shape ty)"

definition type_fits :: "tensor_type \<Rightarrow> bool" where
  "type_fits ty \<longleftrightarrow> (\<exists>n. checked_num_elements (ty_shape ty) = Inr n \<and> 4 * n \<le> usize_max)"

lemma type_fits_bytes: "type_fits ty \<Longrightarrow> value_bytes ty \<le> usize_max"
  by (auto simp: type_fits_def value_bytes_def dest: checked_num_elements_Inr)

definition referenced :: "lowered_plan \<Rightarrow> argument_source \<Rightarrow> bool" where
  "referenced lp source \<longleftrightarrow> (\<exists>i \<in> set (lp_instructions lp). \<exists>a \<in> set (li_arguments i). ka_source a = source)"

text \<open>A type for every slot and every binding.\<close>

record plan_typing =
  pt_slot :: "buffer_slot \<Rightarrow> tensor_type"
  pt_binding :: "binding_id \<Rightarrow> tensor_type"

definition source_typed :: "lowered_plan \<Rightarrow> plan_typing \<Rightarrow> argument_source \<Rightarrow> tensor_type \<Rightarrow> bool" where
  "source_typed lp T source ty \<longleftrightarrow>
     (case source of
        FromBuffer s \<Rightarrow> ty = pt_slot T s
      | FromInput b \<Rightarrow> ty = pt_binding T b \<and> b < length (lp_bindings lp) \<and> eb_kind (lp_bindings lp ! b) = InputKind
      | FromConstant b \<Rightarrow>
          ty = pt_binding T b \<and> b < length (lp_bindings lp) \<and> eb_kind (lp_bindings lp ! b) = ConstantKind)"

definition written_slot :: "lowered_instruction \<Rightarrow> buffer_slot \<Rightarrow> bool" where
  "written_slot i s \<longleftrightarrow> li_arguments i \<noteq> [] \<and> ka_source (last (li_arguments i)) = FromBuffer s"

definition instruction_consistent :: "lowered_plan \<Rightarrow> plan_typing \<Rightarrow> lowered_instruction \<Rightarrow> bool" where
  "instruction_consistent lp T i \<longleftrightarrow>
     li_kernel i < length (lp_kernels lp) \<and>
     (let k = lp_kernels lp ! li_kernel i; n = length (lk_operands k) in
      n \<le> 2 \<and> length (li_arguments i) = Suc n \<and>
      (\<forall>p < Suc n. ka_index (li_arguments i ! p) = p \<and>
         source_typed lp T (ka_source (li_arguments i ! p)) (ka_tensor_type (li_arguments i ! p))) \<and>
      (\<forall>p < n. ka_access (li_arguments i ! p) = ReadAccess \<and> ka_tensor_type (li_arguments i ! p) = lk_operands k ! p) \<and>
      ka_access (li_arguments i ! n) = WriteAccess \<and> ka_tensor_type (li_arguments i ! n) = lk_result k \<and>
      (\<exists>s. ka_source (li_arguments i ! n) = FromBuffer s) \<and>
      checked_num_elements (ty_shape (lk_result k)) = Inr (ld_elements (li_dispatch i)))"

definition plan_consistent :: "lowered_plan \<Rightarrow> plan_typing \<Rightarrow> bool" where
  "plan_consistent lp T \<longleftrightarrow>
     (\<forall>k < length (lp_kernels lp). lk_id (lp_kernels lp ! k) = k) \<and>
     (\<forall>i \<in> set (lp_instructions lp). instruction_consistent lp T i) \<and>
     (\<forall>j < length (lp_instructions lp). \<forall>a \<in> set (li_arguments (lp_instructions lp ! j)). \<forall>s.
        ka_access a = ReadAccess \<longrightarrow> ka_source a = FromBuffer s \<longrightarrow>
        (\<exists>i < j. written_slot (lp_instructions lp ! i) s)) \<and>
     (\<forall>s s'. referenced lp (FromBuffer s) \<longrightarrow> s' < s \<longrightarrow> referenced lp (FromBuffer s')) \<and>
     (\<forall>s. referenced lp (FromBuffer s) \<longrightarrow> s < usize_max) \<and>
     (\<forall>out \<in> set (lp_outputs lp). case lo_source out of
        FromBuffer s \<Rightarrow> referenced lp (FromBuffer s)
      | FromInput b \<Rightarrow> b < length (lp_bindings lp)
      | FromConstant b \<Rightarrow> b < length (lp_bindings lp)) \<and>
     distinct (map eb_node (lp_bindings lp)) \<and> length (lp_bindings lp) \<le> u32_range"

definition hint_for :: "(node_id \<times> tensor_type) list \<Rightarrow> node_id \<Rightarrow> tensor_type option" where
  "hint_for hints = map_of hints"

text \<open>A binding is consumed when a dispatch reads it.\<close>

definition consumed :: "lowered_plan \<Rightarrow> binding_id \<Rightarrow> bool" where
  "consumed lp b \<longleftrightarrow> referenced lp (FromInput b) \<or> referenced lp (FromConstant b)"

text \<open>The type a binding has after preparation, if it has one.\<close>

definition external_type :: "lowered_plan \<Rightarrow> plan_typing \<Rightarrow> (node_id \<times> tensor_type) list \<Rightarrow> binding_id \<Rightarrow> tensor_type option" where
  "external_type lp T hints b =
     (if consumed lp b then Some (pt_binding T b) else hint_for hints (eb_node (lp_bindings lp ! b)))"

definition slot_count :: "lowered_plan \<Rightarrow> nat" where
  "slot_count lp = (case highest_slot lp of None \<Rightarrow> 0 | Some highest \<Rightarrow> Suc highest)"

definition plan_types :: "lowered_plan \<Rightarrow> plan_typing \<Rightarrow> (node_id \<times> tensor_type) list \<Rightarrow> tensor_type set" where
  "plan_types lp T hints =
     {ka_tensor_type a | a i. i \<in> set (lp_instructions lp) \<and> a \<in> set (li_arguments i)} \<union>
     {ty. \<exists>b < length (lp_bindings lp). external_type lp T hints b = Some ty}"

text \<open>Every reason for which the checks of preparation refuse a consistent plan.\<close>

inductive prep_blocked ::
  "device_capabilities \<Rightarrow> lowered_plan \<Rightarrow> plan_typing \<Rightarrow> (node_id \<times> tensor_type) list \<Rightarrow> 'e prep_error \<Rightarrow> bool"
  for caps lp T hints where
  no_f32: "\<not> supports_dtype caps F32 \<Longrightarrow> prep_blocked caps lp T hints BackendDTypeUnsupported"
| workgroup: "any_below_one (dc_max_workgroup_size caps) \<Longrightarrow>
    prep_blocked caps lp T hints (BackendWorkgroupTooSmall (dc_max_workgroup_size caps))"
| unknown_hint: "(n, ty) \<in> set hints \<Longrightarrow> n \<notin> eb_node ` set (lp_bindings lp) \<Longrightarrow>
    prep_blocked caps lp T hints (UnknownExternalTypeNode n)"
| hint_dtype: "(n, ty) \<in> set hints \<Longrightarrow> ty_dtype ty \<noteq> F32 \<Longrightarrow> prep_blocked caps lp T hints (PlanUnsupportedDType n)"
| duplicate_hint: "(n, ty) \<in> set hints \<Longrightarrow> \<not> distinct (map fst hints) \<Longrightarrow>
    prep_blocked caps lp T hints (DuplicateExternalType n)"
| contradiction: "b < length (lp_bindings lp) \<Longrightarrow> consumed lp b \<Longrightarrow> (eb_node (lp_bindings lp ! b), ty) \<in> set hints \<Longrightarrow>
    ty \<noteq> pt_binding T b \<Longrightarrow>
    prep_blocked caps lp T hints (ExternalTypeContradiction b (eb_node (lp_bindings lp ! b)) ty (pt_binding T b))"
| argument_dtype: "i \<in> set (lp_instructions lp) \<Longrightarrow> a \<in> set (li_arguments i) \<Longrightarrow> ty_dtype (ka_tensor_type a) \<noteq> F32 \<Longrightarrow>
    prep_blocked caps lp T hints (PlanUnsupportedDType (li_node i))"
| oversized: "ty \<in> plan_types lp T hints \<Longrightarrow> \<not> type_fits ty \<Longrightarrow> prep_blocked caps lp T hints (SizeOverflow n)"
| limited: "ty \<in> plan_types lp T hints \<Longrightarrow> dc_max_buffer_bytes caps = Some limit \<Longrightarrow> limit < value_bytes ty \<Longrightarrow>
    prep_blocked caps lp T hints (BufferExceedsBackendLimit (value_bytes ty) limit)"
| undetermined: "b < length (lp_bindings lp) \<Longrightarrow> external_type lp T hints b = None \<Longrightarrow>
    prep_blocked caps lp T hints (UndeterminedValueType (eb_node (lp_bindings lp ! b)))"

abbreviation blocked ::
  "device_capabilities \<Rightarrow> lowered_plan \<Rightarrow> plan_typing \<Rightarrow> (node_id \<times> tensor_type) list \<Rightarrow> 'e prep_error failure \<Rightarrow> bool" where
  "blocked caps lp T hints f \<equiv> \<exists>e. f = Err e \<and> prep_blocked caps lp T hints e"

section \<open>Sizes\<close>

lemma sized_decided:
  assumes "\<not> type_fits ty \<Longrightarrow> \<forall>m. Q (Err (SizeOverflow m))"
    and "type_fits ty \<Longrightarrow> P (value_bytes ty)"
  shows "decided Q (\<lambda>n. decided Q P (byte_size n)) (plan_element_count ty)"
proof (cases "checked_num_elements (ty_shape ty)")
  case (Inl e)
  then have "\<not> type_fits ty" by (simp add: type_fits_def)
  moreover have "e \<noteq> Panic" using Inl num_elements_no_panic by metis
  ultimately show ?thesis using Inl assms(1) by (cases e) (simp_all add: plan_element_count_def)
next
  case (Inr n)
  then have "n = prod_list (ty_shape ty)" by (rule checked_num_elements_Inr)
  with Inr assms show ?thesis
    by (auto simp: plan_element_count_def byte_size_def type_fits_def value_bytes_def mult.commute checked_mul_def)
qed

section \<open>Collecting the types\<close>

lemma find_position_Some: "find_position P xs = Some i \<Longrightarrow> i < length xs \<and> P (xs ! i)"
  by (auto simp: find_position_def find_Some_iff)

lemma find_position_None: "find_position P xs = None \<Longrightarrow> x \<in> set xs \<Longrightarrow> \<not> P x"
  by (auto simp: find_position_def find_None_iff in_set_conv_nth)

definition seeds_ok ::
  "external_bindings \<Rightarrow> (node_id \<times> tensor_type) list \<Rightarrow> tensor_type option list \<times> bool list \<Rightarrow> bool" where
  "seeds_ok bindings hints st \<longleftrightarrow>
     length (fst st) = length bindings \<and> length (snd st) = length bindings \<and> distinct (map fst hints) \<and>
     (\<forall>b < length bindings. fst st ! b = map_of hints (eb_node (bindings ! b)) \<and>
        (snd st ! b \<longleftrightarrow> fst st ! b \<noteq> None))"

lemma seed_type_step:
  assumes inv: "seeds_ok bindings (take j hints) st" and j: "j < length hints"
    and dist: "distinct (map eb_node bindings)" and lp: "lp_bindings lp = bindings"
  shows "decided (blocked caps lp T hints) (seeds_ok bindings (take (Suc j) hints)) (seed_type bindings st (hints ! j))"
proof -
  obtain externals seeded where st: "st = (externals, seeded)" by (cases st)
  obtain n ty where hint: "hints ! j = (n, ty)" by (cases "hints ! j")
  then have mem: "(n, ty) \<in> set hints" using j nth_mem by metis
  show ?thesis
  proof (cases "find_position (\<lambda>entry. eb_node entry = n) bindings")
    case None
    then have "n \<notin> eb_node ` set (lp_bindings lp)" using lp by (auto dest: find_position_None)
    with mem have "prep_blocked caps lp T hints (UnknownExternalTypeNode n)" by (rule prep_blocked.unknown_hint)
    with None show ?thesis by (simp add: st hint seed_type_def)
  next
    case (Some index)
    then have index: "index < length bindings" "eb_node (bindings ! index) = n" by (auto dest: find_position_Some)
    consider "ty_dtype ty \<noteq> F32" | "ty_dtype ty = F32" "seeded ! index" | "ty_dtype ty = F32" "\<not> seeded ! index" by blast
    then show ?thesis
    proof cases
      case 1
      with mem have "prep_blocked caps lp T hints (PlanUnsupportedDType n)" by (rule prep_blocked.hint_dtype)
      with 1 Some show ?thesis by (simp add: st hint seed_type_def)
    next
      case 2
      have "n \<in> fst ` set (take j hints)"
        using inv 2(2) index by (auto simp: seeds_ok_def st dest!: map_of_SomeD intro: rev_image_eqI)
      then obtain i where "i < j" "fst (hints ! i) = n" using j by (auto simp: in_set_conv_nth)
      then have "\<not> distinct (map fst hints)"
        using j hint by (auto dest!: nth_eq_iff_index_eq [of "map fst hints" i j])
      with mem have "prep_blocked caps lp T hints (DuplicateExternalType n)" by (rule prep_blocked.duplicate_hint)
      with 2 Some index inv show ?thesis by (simp add: st hint seed_type_def seeds_ok_def)
    next
      case 3
      have new: "n \<notin> fst ` set (take j hints)"
        using inv 3(2) index by (auto simp: seeds_ok_def st map_of_eq_None_iff)
      have "eb_node (bindings ! b) = n \<longleftrightarrow> b = index" if "b < length bindings" for b
        using dist index that by (auto simp: distinct_conv_nth)
      moreover have "map_of (take (Suc j) hints) m = (if m = n then Some ty else map_of (take j hints) m)" for m
        using j hint map_of_eq_None_iff [THEN iffD2, OF new]
        by (auto simp: take_Suc_conv_app_nth map_of_append map_add_def split: option.split)
      moreover have "distinct (map fst (take (Suc j) hints))"
        using inv new j hint by (auto simp: seeds_ok_def take_Suc_conv_app_nth)
      ultimately have "seeds_ok bindings (take (Suc j) hints) (externals[index := Some ty], seeded[index := True])"
        using inv index by (auto simp: seeds_ok_def st nth_list_update)
      with 3 Some index inv show ?thesis by (simp add: st hint seed_type_def seeds_ok_def)
    qed
  qed
qed

lemma seeds_collected:
  assumes dist: "distinct (map eb_node (lp_bindings lp))"
  shows "decided (blocked caps lp T hints) (seeds_ok (lp_bindings lp) hints)
    (try_fold (seed_type (lp_bindings lp))
       (replicate (length (lp_bindings lp)) None, replicate (length (lp_bindings lp)) False) hints)"
proof -
  let ?s = "(replicate (length (lp_bindings lp)) None, replicate (length (lp_bindings lp)) False)"
  have "decided (blocked caps lp T hints) (seeds_ok (lp_bindings lp) (take (length hints) hints))
      (try_fold (seed_type (lp_bindings lp)) ?s hints)"
  proof (rule decided_try_fold [where P = "\<lambda>j. seeds_ok (lp_bindings lp) (take j hints)"])
    show "seeds_ok (lp_bindings lp) (take 0 hints) ?s" by (simp add: seeds_ok_def)
  qed (rule seed_type_step [OF _ _ dist refl])
  then show ?thesis by simp
qed

text \<open>The highest slot.\<close>

definition argument_list :: "lowered_plan \<Rightarrow> kernel_argument list" where
  "argument_list lp = concat (map li_arguments (lp_instructions lp))"

lemma referenced_list: "referenced lp source \<longleftrightarrow> source \<in> ka_source ` set (argument_list lp)"
  by (auto simp: referenced_def argument_list_def)

lemma highest_slot_list: "highest_slot lp = foldl note_slot None (argument_list lp)"
proof -
  have "foldl (\<lambda>h i. foldl note_slot h (li_arguments i)) h is = foldl note_slot h (concat (map li_arguments is))" for h "is"
    by (induction "is" arbitrary: h) simp_all
  then show ?thesis by (simp add: highest_slot_def argument_list_def)
qed

lemma note_slots:
  "case foldl note_slot None xs of
     None \<Rightarrow> \<forall>s. FromBuffer s \<notin> ka_source ` set xs
   | Some h \<Rightarrow> FromBuffer h \<in> ka_source ` set xs \<and> (\<forall>s. FromBuffer s \<in> ka_source ` set xs \<longrightarrow> s \<le> h)"
proof (induction xs rule: rev_induct)
  case Nil
  show ?case by simp
next
  case (snoc a xs)
  show ?case
  proof (cases "foldl note_slot None xs")
    case None
    with snoc.IH show ?thesis by (cases "ka_source a") (auto simp: note_slot_def [of _ a] image_iff)
  next
    case (Some h)
    with snoc.IH show ?thesis
      by (cases "ka_source a") (auto simp: note_slot_def [of _ a] image_iff not_less dest: order_trans less_imp_le)
  qed
qed

lemma referenced_slots:
  assumes "plan_consistent lp T"
  shows "referenced lp (FromBuffer s) \<longleftrightarrow> s < slot_count lp"
    and "(case highest_slot lp of None \<Rightarrow> 0 | Some highest \<Rightarrow> saturating_add highest 1) = slot_count lp"
proof -
  note highest = note_slots [of "argument_list lp", folded highest_slot_list referenced_list]
  show "referenced lp (FromBuffer s) \<longleftrightarrow> s < slot_count lp"
  proof (cases "highest_slot lp")
    case None
    with highest show ?thesis by (simp add: slot_count_def)
  next
    case (Some h)
    with highest have h: "referenced lp (FromBuffer h)" "\<forall>s. referenced lp (FromBuffer s) \<longrightarrow> s \<le> h" by simp_all
    from assms have "\<forall>s s'. referenced lp (FromBuffer s) \<longrightarrow> s' < s \<longrightarrow> referenced lp (FromBuffer s')"
      unfolding plan_consistent_def by blast
    with h Some show ?thesis by (auto simp: slot_count_def less_Suc_eq_le le_less)
  qed
  from assms have "\<forall>s. referenced lp (FromBuffer s) \<longrightarrow> s < usize_max" unfolding plan_consistent_def by blast
  with highest show "(case highest_slot lp of None \<Rightarrow> 0 | Some highest \<Rightarrow> saturating_add highest 1) = slot_count lp"
    by (auto simp: slot_count_def saturating_add_def min_def Suc_le_eq split: option.splits)
qed

text \<open>The types recorded from the sources \<open>S\<close> seen so far, over the hints.\<close>

definition types_after ::
  "lowered_plan \<Rightarrow> plan_typing \<Rightarrow> (node_id \<times> tensor_type) list \<Rightarrow> argument_source set \<Rightarrow> value_types \<Rightarrow> bool" where
  "types_after lp T hints S types \<longleftrightarrow>
     length (vt_slots types) = slot_count lp \<and> length (vt_externals types) = length (lp_bindings lp) \<and>
     (\<forall>s < slot_count lp. vt_slots types ! s = (if FromBuffer s \<in> S then Some (pt_slot T s) else None)) \<and>
     (\<forall>b < length (lp_bindings lp). vt_externals types ! b =
        (if FromInput b \<in> S \<or> FromConstant b \<in> S then Some (pt_binding T b)
         else hint_for hints (eb_node (lp_bindings lp ! b))))"

lemma record_external_step:
  assumes inv: "types_after lp T hints S types" and b: "b < length (lp_bindings lp)" "consumed lp b"
    and kind: "eb_kind (lp_bindings lp ! b) = kind" and source: "source = FromInput b \<or> source = FromConstant b"
    and seeds: "seeds_ok (lp_bindings lp) hints (externals, seeded)"
  shows "decided (blocked caps lp T hints) (types_after lp T hints (insert source S))
    (record_external lp seeded i types b kind (pt_binding T b))"
proof (cases "vt_externals types ! b")
  case None
  with inv b source have "types_after lp T hints (insert source S)
      (types\<lparr>vt_externals := (vt_externals types)[b := Some (pt_binding T b)]\<rparr>)"
    by (auto simp: types_after_def nth_list_update)
  with None inv b kind show ?thesis by (simp add: record_external_def lowered_binding_def types_after_def)
next
  case (Some existing)
  show ?thesis
  proof (cases "existing = pt_binding T b")
    case True
    with inv b source Some have "types_after lp T hints (insert source S) types"
      by (auto simp: types_after_def split: if_splits)
    with True Some inv b kind show ?thesis by (simp add: record_external_def lowered_binding_def types_after_def)
  next
    case False
    with inv b(1) Some have hint: "hint_for hints (eb_node (lp_bindings lp ! b)) = Some existing"
      by (auto simp: types_after_def split: if_splits)
    then have "seeded ! b" "length seeded = length (lp_bindings lp)" using seeds b(1) by (simp_all add: seeds_ok_def hint_for_def)
    moreover have "prep_blocked caps lp T hints (ExternalTypeContradiction b (eb_node (lp_bindings lp ! b)) existing (pt_binding T b))"
      using hint b False by (auto simp: hint_for_def intro: prep_blocked.contradiction dest: map_of_SomeD)
    ultimately show ?thesis
      using False Some inv b kind by (simp add: record_external_def lowered_binding_def types_after_def)
  qed
qed

lemma record_argument_step:
  assumes cons: "plan_consistent lp T" and inv: "types_after lp T hints S types"
    and typed: "source_typed lp T (ka_source a) (ka_tensor_type a)" and ref: "referenced lp (ka_source a)"
    and seeds: "seeds_ok (lp_bindings lp) hints (externals, seeded)"
  shows "decided (blocked caps lp T hints) (types_after lp T hints (insert (ka_source a) S))
    (record_argument lp seeded i types a)"
proof (cases "ka_source a")
  case (FromBuffer s)
  then have s: "s < slot_count lp" using ref referenced_slots(1) [OF cons] by simp
  have "types_after lp T hints (insert (FromBuffer s) S) (types\<lparr>vt_slots := (vt_slots types)[s := Some (pt_slot T s)]\<rparr>)"
    using inv s by (auto simp: types_after_def nth_list_update)
  with s inv typed FromBuffer show ?thesis
    by (auto simp: record_argument_def record_type_def types_after_def source_typed_def)
next
  case (FromInput b)
  then have b: "b < length (lp_bindings lp)" "consumed lp b" "eb_kind (lp_bindings lp ! b) = InputKind"
    using typed ref by (simp_all add: source_typed_def consumed_def)
  from record_external_step [OF inv b disjI1 [OF refl] seeds] typed FromInput show ?thesis
    by (simp add: record_argument_def source_typed_def)
next
  case (FromConstant b)
  then have b: "b < length (lp_bindings lp)" "consumed lp b" "eb_kind (lp_bindings lp ! b) = ConstantKind"
    using typed ref by (simp_all add: source_typed_def consumed_def)
  from record_external_step [OF inv b disjI2 [OF refl] seeds] typed FromConstant show ?thesis
    by (simp add: record_argument_def source_typed_def)
qed

definition final_types :: "lowered_plan \<Rightarrow> plan_typing \<Rightarrow> (node_id \<times> tensor_type) list \<Rightarrow> value_types" where
  "final_types lp T hints =
     \<lparr>vt_slots = map (\<lambda>s. Some (pt_slot T s)) [0..<slot_count lp],
      vt_externals = map (external_type lp T hints) [0..<length (lp_bindings lp)]\<rparr>"

lemma types_after_all:
  assumes cons: "plan_consistent lp T" and after: "types_after lp T hints {source. referenced lp source} types"
  shows "types = final_types lp T hints"
proof -
  have "vt_slots types = map (\<lambda>s. Some (pt_slot T s)) [0..<slot_count lp]"
    using after referenced_slots(1) [OF cons] by (intro nth_equalityI) (simp_all add: types_after_def)
  moreover have "vt_externals types = map (external_type lp T hints) [0..<length (lp_bindings lp)]"
    using after by (intro nth_equalityI) (simp_all add: types_after_def external_type_def consumed_def)
  ultimately show ?thesis by (simp add: final_types_def)
qed

lemma instruction_sources:
  assumes "instruction_consistent lp T i" and "a \<in> set (li_arguments i)"
  shows "source_typed lp T (ka_source a) (ka_tensor_type a)"
  using assms by (auto simp: instruction_consistent_def Let_def in_set_conv_nth)

lemma collect_value_types_decided:
  assumes cons: "plan_consistent lp T"
  shows "decided (blocked caps lp T hints) (\<lambda>types. types = final_types lp T hints) (collect_value_types lp hints)"
proof -
  let ?is = "lp_instructions lp"
  let ?sources = "\<lambda>k. {source. \<exists>i \<in> set (take k ?is). source \<in> ka_source ` set (li_arguments i)}"
  have dist: "distinct (map eb_node (lp_bindings lp))" using cons unfolding plan_consistent_def by blast
  have step: "decided (blocked caps lp T hints) (types_after lp T hints (?sources (Suc j)))
      (try_fold (record_argument lp seeded j) types (li_arguments (?is ! j)))"
    if j: "j < length ?is" and inv: "types_after lp T hints (?sources j) types"
      and seeds: "seeds_ok (lp_bindings lp) hints (externals, seeded)" for j types externals seeded
  proof -
    let ?as = "li_arguments (?is ! j)"
    let ?S = "\<lambda>p. ka_source ` set (take p ?as) \<union> ?sources j"
    have mem: "?is ! j \<in> set ?is" using j by simp
    then have ic: "instruction_consistent lp T (?is ! j)" using cons unfolding plan_consistent_def by blast
    have "decided (blocked caps lp T hints) (types_after lp T hints (?S (length ?as))) (try_fold (record_argument lp seeded j) types ?as)"
    proof (rule decided_try_fold [where P = "\<lambda>p. types_after lp T hints (?S p)"])
      show "types_after lp T hints (?S 0) types" using inv by simp
      fix p types' assume p: "p < length ?as" "types_after lp T hints (?S p) types'"
      have "referenced lp (ka_source (?as ! p))" unfolding referenced_def using mem nth_mem [OF p(1)] by blast
      from record_argument_step [OF cons p(2) instruction_sources [OF ic nth_mem [OF p(1)]] this seeds]
      show "decided (blocked caps lp T hints) (types_after lp T hints (?S (Suc p))) (record_argument lp seeded j types' (?as ! p))"
        using p(1) by (simp add: take_Suc_conv_app_nth)
    qed
    moreover have "?S (length ?as) = ?sources (Suc j)" using j by (auto simp: take_Suc_conv_app_nth)
    ultimately show ?thesis by simp
  qed
  have all: "?sources (length ?is) = {source. referenced lp source}" by (auto simp: referenced_def)
  have "decided (blocked caps lp T hints) (\<lambda>types. types = final_types lp T hints)
      (try_fold (\<lambda>types (j, i). try_fold (record_argument lp seeded j) types (li_arguments i))
        \<lparr>vt_slots = replicate (slot_count lp) None, vt_externals = externals\<rparr> (enumerate 0 ?is))"
    if seeds: "seeds_ok (lp_bindings lp) hints (externals, seeded)" for externals seeded
  proof -
    have "decided (blocked caps lp T hints) (types_after lp T hints (?sources (length (enumerate 0 ?is))))
      (try_fold (\<lambda>types (j, i). try_fold (record_argument lp seeded j) types (li_arguments i))
        \<lparr>vt_slots = replicate (slot_count lp) None, vt_externals = externals\<rparr> (enumerate 0 ?is))"
    proof (rule decided_try_fold [where P = "\<lambda>k. types_after lp T hints (?sources k)"])
      show "types_after lp T hints (?sources 0) \<lparr>vt_slots = replicate (slot_count lp) None, vt_externals = externals\<rparr>"
        using seeds by (simp add: types_after_def seeds_ok_def hint_for_def)
    qed (use step [OF _ _ seeds] in simp)
    then show ?thesis by (rule decided_mono) (use all types_after_all [OF cons] in simp)
  qed
  then show ?thesis
    unfolding collect_value_types_def Let_def referenced_slots(2) [OF cons] decided_bind
    by (intro decided_mono [OF seeds_collected [OF dist]]) auto
qed

section \<open>Resolving the dispatches\<close>

definition source_target :: "argument_source \<Rightarrow> physical_target" where
  "source_target source =
     (case source of FromBuffer s \<Rightarrow> SlotTarget s | FromInput b \<Rightarrow> ExternalTarget b | FromConstant b \<Rightarrow> ExternalTarget b)"

definition prepared_argument_of :: "kernel_argument \<Rightarrow> prepared_argument" where
  "prepared_argument_of a =
     \<lparr>pa_binding_slot = ka_index a, pa_target = source_target (ka_source a),
      pa_length_bytes = value_bytes (ka_tensor_type a),
      pa_access = (case ka_access a of ReadAccess \<Rightarrow> PreparedRead | WriteAccess \<Rightarrow> PreparedWrite)\<rparr>"

definition prepared_dispatch_of :: "lowered_instruction \<Rightarrow> prepared_dispatch" where
  "prepared_dispatch_of i =
     \<lparr>pd_node = li_node i, pd_kernel = li_kernel i, pd_arguments = map prepared_argument_of (li_arguments i)\<rparr>"

lemma sized_blocked:
  assumes "ty \<in> plan_types lp T hints" and "type_fits ty \<Longrightarrow> P (value_bytes ty)"
  shows "decided (blocked caps lp T hints) P (try_bind (plan_element_count ty) byte_size)"
  using assms unfolding decided_bind by (intro sized_decided) (auto intro: prep_blocked.oversized)

lemma argument_plan_type: "i \<in> set (lp_instructions lp) \<Longrightarrow> a \<in> set (li_arguments i) \<Longrightarrow> ka_tensor_type a \<in> plan_types lp T hints"
  by (auto simp: plan_types_def)

lemma resolve_argument_step:
  assumes mem: "i \<in> set (lp_instructions lp)" and ic: "instruction_consistent lp T i"
    and kern: "kern = lp_kernels lp ! li_kernel i" and p: "p < Suc (length (lk_operands kern))"
    and reads: "\<And>s. ka_access (li_arguments i ! p) = ReadAccess \<Longrightarrow> ka_source (li_arguments i ! p) = FromBuffer s \<Longrightarrow>
      s < length defined_slots \<and> defined_slots ! s"
  shows "decided (blocked caps lp T hints)
      (\<lambda>st. st = (if Suc p = Suc (length (lk_operands kern)) then 1 else 0, ps @ [prepared_argument_of (li_arguments i ! p)]))
      (resolve_argument i kern j defined_slots (0, ps) (p, li_arguments i ! p))"
proof -
  let ?a = "li_arguments i ! p" and ?n = "length (lk_operands kern)"
  note ic' = ic [unfolded instruction_consistent_def Let_def, folded kern]
  have len: "length (li_arguments i) = Suc ?n" and p32: "p < u32_range" using ic' p by auto
  have a: "?a \<in> set (li_arguments i)" using len p by simp
  have index: "ka_index ?a = index_as_u32 p" using ic' p p32 by (simp add: index_as_u32_def)
  have "blocked caps lp T hints (Err (PlanUnsupportedDType (li_node i)))" if "ty_dtype (ka_tensor_type ?a) \<noteq> F32"
    using prep_blocked.argument_dtype [OF mem a that] by simp
  moreover have "decided (blocked caps lp T hints) (\<lambda>bytes.
      (w, ps @ [\<lparr>pa_binding_slot = ka_index ?a, pa_target = t, pa_length_bytes = bytes, pa_access = acc\<rparr>]) = (w', ps @ [prepared_argument_of ?a]))
      (try_bind (plan_element_count (ka_tensor_type ?a)) byte_size)"
    if "w = w'" "t = source_target (ka_source ?a)" "acc = pa_access (prepared_argument_of ?a)" for w w' :: nat and t acc
    using argument_plan_type [OF mem a] that by (intro sized_blocked) (simp_all add: prepared_argument_of_def)
  moreover have "ka_access ?a = (if p < ?n then ReadAccess else WriteAccess)"
    "ka_tensor_type ?a = (if p < ?n then lk_operands kern ! p else lk_result kern)"
    "\<not> p < ?n \<Longrightarrow> \<exists>s. ka_source ?a = FromBuffer s"
    using ic' p by (auto simp: less_Suc_eq)
  ultimately show ?thesis
    using index reads len p
    by (cases "p < ?n"; cases "ka_source ?a")
      (auto simp: resolve_argument_def Let_def saturating_add_def source_target_def prepared_argument_of_def less_Suc_eq)
qed

lemma resolve_arguments_decided:
  assumes mem: "i \<in> set (lp_instructions lp)" and ic: "instruction_consistent lp T i"
    and kern: "kern = lp_kernels lp ! li_kernel i"
    and reads: "\<And>a s. a \<in> set (li_arguments i) \<Longrightarrow> ka_access a = ReadAccess \<Longrightarrow> ka_source a = FromBuffer s \<Longrightarrow>
      s < length defined_slots \<and> defined_slots ! s"
  shows "decided (blocked caps lp T hints) (\<lambda>st. st = (1, map prepared_argument_of (li_arguments i)))
    (try_fold (resolve_argument i kern j defined_slots) (0, []) (enumerate 0 (li_arguments i)))"
proof -
  let ?as = "li_arguments i" and ?n = "length (lk_operands kern)"
  have len: "length ?as = Suc ?n" using ic by (simp add: instruction_consistent_def Let_def kern)
  have "decided (blocked caps lp T hints)
      (\<lambda>st. st = (if length (enumerate 0 ?as) = Suc ?n then 1 else 0, map prepared_argument_of (take (length (enumerate 0 ?as)) ?as)))
      (try_fold (resolve_argument i kern j defined_slots) (0, []) (enumerate 0 ?as))"
  proof (rule decided_try_fold [where P = "\<lambda>p st. st = (if p = Suc ?n then 1 else 0, map prepared_argument_of (take p ?as))"])
    fix p and st :: "usize \<times> prepared_argument list"
    assume p: "p < length (enumerate 0 ?as)" and st: "st = (if p = Suc ?n then 1 else 0, map prepared_argument_of (take p ?as))"
    have p': "p < Suc ?n" using p len by simp
    then have "?as ! p \<in> set ?as" by (simp add: len)
    then have "decided (blocked caps lp T hints)
        (\<lambda>st. st = (if Suc p = Suc ?n then 1 else 0, map prepared_argument_of (take p ?as) @ [prepared_argument_of (?as ! p)]))
        (resolve_argument i kern j defined_slots (0, map prepared_argument_of (take p ?as)) (p, ?as ! p))"
      by (intro resolve_argument_step [OF mem ic kern p'] reads)
    moreover have "st = (0, map prepared_argument_of (take p ?as))" using st p' by simp
    moreover have "map prepared_argument_of (take (Suc p) ?as) = map prepared_argument_of (take p ?as) @ [prepared_argument_of (?as ! p)]"
      using p by (simp add: take_Suc_conv_app_nth)
    ultimately show "decided (blocked caps lp T hints) (\<lambda>st'. st' = (if Suc p = Suc ?n then 1 else 0, map prepared_argument_of (take (Suc p) ?as)))
        (resolve_argument i kern j defined_slots st (enumerate 0 ?as ! p))"
      using p by simp
  qed simp
  then show ?thesis by (simp add: len)
qed

definition slots_defined :: "lowered_plan \<Rightarrow> nat \<Rightarrow> bool list \<Rightarrow> bool" where
  "slots_defined lp j defined_slots \<longleftrightarrow> length defined_slots = slot_count lp \<and>
     (\<forall>i < j. \<forall>s. written_slot (lp_instructions lp ! i) s \<longrightarrow> defined_slots ! s)"

lemma written_referenced: "i \<in> set (lp_instructions lp) \<Longrightarrow> written_slot i s \<Longrightarrow> referenced lp (FromBuffer s)"
  unfolding written_slot_def referenced_def by (metis last_in_set)

lemma resolve_dispatch_step:
  assumes cons: "plan_consistent lp T" and j: "j < length (lp_instructions lp)" and defd: "slots_defined lp j defined_slots"
  shows "decided (blocked caps lp T hints)
      (\<lambda>st. slots_defined lp (Suc j) (fst st) \<and> snd st = ds @ [prepared_dispatch_of (lp_instructions lp ! j)])
      (resolve_dispatch lp (defined_slots, ds) (j, lp_instructions lp ! j))"
proof -
  let ?i = "lp_instructions lp ! j" and ?kern = "lp_kernels lp ! li_kernel (lp_instructions lp ! j)"
  have mem: "?i \<in> set (lp_instructions lp)" using j by simp
  then have ic: "instruction_consistent lp T ?i" using cons unfolding plan_consistent_def by blast
  note ic' = ic [unfolded instruction_consistent_def Let_def]
  have reads: "s < length defined_slots \<and> defined_slots ! s"
    if a: "a \<in> set (li_arguments ?i)" "ka_access a = ReadAccess" "ka_source a = FromBuffer s" for a s
  proof -
    from cons j a obtain i where i: "i < j" "written_slot (lp_instructions lp ! i) s"
      unfolding plan_consistent_def by blast
    with j have "referenced lp (FromBuffer s)" by (intro written_referenced [of "lp_instructions lp ! i"]) simp_all
    with referenced_slots(1) [OF cons] i defd show ?thesis by (auto simp: slots_defined_def)
  qed
  from ic' obtain s where s: "ka_source (li_arguments ?i ! length (lk_operands ?kern)) = FromBuffer s" by blast
  have "length (li_arguments ?i) = Suc (length (lk_operands ?kern))" using ic' by blast
  then have last: "li_arguments ?i \<noteq> []" "last (li_arguments ?i) = li_arguments ?i ! length (lk_operands ?kern)"
    using last_conv_nth [of "li_arguments ?i"] by (fastforce, fastforce)
  have w: "written_slot ?i t \<longleftrightarrow> t = s" for t using last s by (auto simp: written_slot_def)
  then have "s < slot_count lp" using written_referenced [OF mem] referenced_slots(1) [OF cons] by blast
  then have after: "slots_defined lp (Suc j) (defined_slots[s := True])"
    using defd w by (auto simp: slots_defined_def less_Suc_eq nth_list_update)
  have extent: "checked_num_elements (ty_shape (lk_result ?kern)) = Inr (ld_elements (li_dispatch ?i))"
    using ic' by blast
  have "saturating_add (length (lk_operands ?kern)) 1 = Suc (length (lk_operands ?kern))"
    using ic' by (simp add: saturating_add_def)
  moreover have "get (lp_kernels lp) (li_kernel ?i) = Some ?kern" "length (li_arguments ?i) = Suc (length (lk_operands ?kern))"
    using ic' by simp_all
  ultimately show ?thesis
    using last s extent after
    by (simp add: resolve_dispatch_def Let_def lowered_kernel_def)
      (rule decided_mono [OF resolve_arguments_decided [OF mem ic refl reads]];
        simp add: prepared_dispatch_of_def plan_element_count_def)
qed

lemma resolve_dispatches_decided:
  assumes cons: "plan_consistent lp T" and types: "types = final_types lp T hints'"
  shows "decided (blocked caps lp T hints) (\<lambda>ds. ds = map prepared_dispatch_of (lp_instructions lp))
    (resolve_dispatches lp types)"
proof -
  let ?is = "lp_instructions lp"
  have ids: "for_each check_kernel_id (enumerate 0 (lp_kernels lp)) = Inr ()"
    using cons by (auto simp: outcome_simps ball_enumerate0 check_kernel_id_def plan_consistent_def)
  have len: "length (vt_slots types) = slot_count lp" by (simp add: types final_types_def)
  have "decided (blocked caps lp T hints)
      (\<lambda>st. slots_defined lp (length (enumerate 0 ?is)) (fst st) \<and>
         snd st = map prepared_dispatch_of (take (length (enumerate 0 ?is)) ?is))
      (try_fold (resolve_dispatch lp) (replicate (length (vt_slots types)) False, []) (enumerate 0 ?is))"
  proof (rule decided_try_fold [where P = "\<lambda>j st. slots_defined lp j (fst st) \<and> snd st = map prepared_dispatch_of (take j ?is)"])
    fix j st assume st: "j < length (enumerate 0 ?is)" "slots_defined lp j (fst st) \<and> snd st = map prepared_dispatch_of (take j ?is)"
    then have "st = (fst st, map prepared_dispatch_of (take j ?is))" by (cases st) simp
    with resolve_dispatch_step [OF cons, of j "fst st" caps hints "snd st"] st
    show "decided (blocked caps lp T hints)
        (\<lambda>st. slots_defined lp (Suc j) (fst st) \<and> snd st = map prepared_dispatch_of (take (Suc j) ?is))
        (resolve_dispatch lp st (enumerate 0 ?is ! j))"
      by (cases st) (simp add: take_Suc_conv_app_nth)
  qed (simp add: slots_defined_def len)
  then show ?thesis by (auto simp: resolve_dispatches_def ids elim!: decided_mono)
qed

section \<open>Buffers and outputs\<close>

lemma limit_blocked:
  assumes "ty \<in> plan_types lp T hints" and "value_bytes ty = n" and "P ()"
  shows "decided (blocked caps lp T hints) P (check_backend_limit n (dc_max_buffer_bytes caps))"
  using assms prep_blocked.limited [of ty lp T hints caps]
  by (auto simp: check_backend_limit_def split: option.split)

lemma slot_plan_type:
  assumes "plan_consistent lp T" and "s < slot_count lp"
  shows "pt_slot T s \<in> plan_types lp T hints"
proof -
  have "referenced lp (FromBuffer s)" using referenced_slots(1) [OF assms(1)] assms(2) by simp
  then obtain i a where a: "i \<in> set (lp_instructions lp)" "a \<in> set (li_arguments i)" "ka_source a = FromBuffer s"
    by (auto simp: referenced_def)
  with assms(1) have "source_typed lp T (FromBuffer s) (ka_tensor_type a)"
    using instruction_sources unfolding plan_consistent_def by metis
  with argument_plan_type [OF a(1,2)] show ?thesis by (simp add: source_typed_def)
qed

text \<open>What the buffers and outputs of a prepared plan are.\<close>

definition slot_sizes_of :: "lowered_plan \<Rightarrow> plan_typing \<Rightarrow> usize list" where
  "slot_sizes_of lp T = map (\<lambda>s. value_bytes (pt_slot T s)) [0..<slot_count lp]"

definition binding_type :: "lowered_plan \<Rightarrow> plan_typing \<Rightarrow> (node_id \<times> tensor_type) list \<Rightarrow> binding_id \<Rightarrow> tensor_type" where
  "binding_type lp T hints b = the (external_type lp T hints b)"

definition external_sizes_of ::
  "lowered_plan \<Rightarrow> plan_typing \<Rightarrow> (node_id \<times> tensor_type) list \<Rightarrow> usize list" where
  "external_sizes_of lp T hints = map (\<lambda>b. value_bytes (binding_type lp T hints b)) [0..<length (lp_bindings lp)]"

definition source_type ::
  "lowered_plan \<Rightarrow> plan_typing \<Rightarrow> (node_id \<times> tensor_type) list \<Rightarrow> argument_source \<Rightarrow> tensor_type" where
  "source_type lp T hints source =
     (case source of
        FromBuffer s \<Rightarrow> pt_slot T s
      | FromInput b \<Rightarrow> binding_type lp T hints b
      | FromConstant b \<Rightarrow> binding_type lp T hints b)"

definition prepared_output_of ::
  "lowered_plan \<Rightarrow> plan_typing \<Rightarrow> (node_id \<times> tensor_type) list \<Rightarrow> lowered_output \<Rightarrow> prepared_output" where
  "prepared_output_of lp T hints out =
     (let ty = source_type lp T hints (lo_source out) in
      \<lparr>po_spec = \<lparr>os_node = lo_node out, os_tensor_type = ty\<rparr>, po_target = source_target (lo_source out),
       po_length_bytes = value_bytes ty\<rparr>)"

lemma slots_decided:
  assumes cons: "plan_consistent lp T"
  shows "decided (blocked caps lp T hints)
    (\<lambda>r. r = (map (\<lambda>s. \<lparr>sp_slot = s, sp_tensor_type = pt_slot T s\<rparr>) [0..<slot_count lp], slot_sizes_of lp T) \<and>
       (\<forall>s < slot_count lp. type_fits (pt_slot T s)))
    (build_slot_specifications (final_types lp T hints) (dc_max_buffer_bytes caps))"
proof -
  let ?slots = "vt_slots (final_types lp T hints)" and ?g = "\<lambda>s. (\<lparr>sp_slot = s, sp_tensor_type = pt_slot T s\<rparr>, value_bytes (pt_slot T s))"
  have len: "length ?slots = slot_count lp" by (simp add: final_types_def)
  have "decided (blocked caps lp T hints) (\<lambda>rs. rs = map ?g [0..<length (enumerate 0 ?slots)] \<and>
        (\<forall>s < length (enumerate 0 ?slots). type_fits (pt_slot T s)))
      (traverse (slot_specification_of (dc_max_buffer_bytes caps)) (enumerate 0 ?slots))"
  proof (rule decided_traverse)
    fix s assume "s < length (enumerate 0 ?slots)"
    then have s: "s < slot_count lp" by (simp add: len)
    note ty = slot_plan_type [OF cons s, of hints]
    have "decided (blocked caps lp T hints) (\<lambda>n. decided (blocked caps lp T hints) (\<lambda>u. (\<lparr>sp_slot = s, sp_tensor_type = pt_slot T s\<rparr>, n) = ?g s \<and> type_fits (pt_slot T s))
        (check_backend_limit n (dc_max_buffer_bytes caps))) (try_bind (plan_element_count (pt_slot T s)) byte_size)"
      by (rule sized_blocked [OF ty]) (simp add: limit_blocked [OF ty refl])
    then show "decided (blocked caps lp T hints) (\<lambda>y. y = ?g s \<and> type_fits (pt_slot T s))
        (slot_specification_of (dc_max_buffer_bytes caps) (enumerate 0 ?slots ! s))"
      using s by (simp add: slot_specification_of_def final_types_def)
  qed
  then show ?thesis
    by (auto simp: build_slot_specifications_def slot_sizes_of_def len comp_def elim!: decided_mono)
qed

definition external_specs_of ::
  "lowered_plan \<Rightarrow> plan_typing \<Rightarrow> (node_id \<times> tensor_type) list \<Rightarrow> external_value_spec list" where
  "external_specs_of lp T hints =
     map (\<lambda>b. \<lparr>ev_binding = b, ev_node = eb_node (lp_bindings lp ! b), ev_kind = eb_kind (lp_bindings lp ! b),
               ev_tensor_type = binding_type lp T hints b\<rparr>) [0..<length (lp_bindings lp)]"

lemma externals_decided:
  assumes cons: "plan_consistent lp T"
  shows "decided (blocked caps lp T hints)
    (\<lambda>r. r = (external_specs_of lp T hints, external_sizes_of lp T hints) \<and>
       (\<forall>b < length (lp_bindings lp). external_type lp T hints b \<noteq> None \<and> type_fits (binding_type lp T hints b)))
    (build_external_specifications lp (final_types lp T hints) (dc_max_buffer_bytes caps))"
proof -
  let ?bs = "lp_bindings lp"
  let ?g = "\<lambda>b. (\<lparr>ev_binding = b, ev_node = eb_node (?bs ! b), ev_kind = eb_kind (?bs ! b),
      ev_tensor_type = binding_type lp T hints b\<rparr>, value_bytes (binding_type lp T hints b))"
  let ?R = "\<lambda>b. external_type lp T hints b \<noteq> None \<and> type_fits (binding_type lp T hints b)"
  have small: "length ?bs \<le> u32_range" using cons unfolding plan_consistent_def by blast
  have "decided (blocked caps lp T hints) (\<lambda>rs. rs = map ?g [0..<length (enumerate 0 ?bs)] \<and>
        (\<forall>b < length (enumerate 0 ?bs). ?R b))
      (traverse (external_specification_of (final_types lp T hints) (dc_max_buffer_bytes caps)) (enumerate 0 ?bs))"
  proof (rule decided_traverse)
    fix b assume "b < length (enumerate 0 ?bs)"
    then have b: "b < length ?bs" by simp
    then have index: "index_as_u32 b = b" using small by (simp add: index_as_u32_def)
    show "decided (blocked caps lp T hints) (\<lambda>y. y = ?g b \<and> ?R b)
        (external_specification_of (final_types lp T hints) (dc_max_buffer_bytes caps) (enumerate 0 ?bs ! b))"
    proof (cases "external_type lp T hints b")
      case None
      with b prep_blocked.undetermined [OF b None] show ?thesis
        by (simp add: external_specification_of_def final_types_def)
    next
      case (Some ty)
      then have ty: "ty \<in> plan_types lp T hints" using b by (auto simp: plan_types_def)
      have "decided (blocked caps lp T hints) (\<lambda>n. decided (blocked caps lp T hints)
          (\<lambda>u. n = value_bytes ty \<and> type_fits ty) (check_backend_limit n (dc_max_buffer_bytes caps)))
          (try_bind (plan_element_count ty) byte_size)"
        by (rule sized_blocked [OF ty]) (simp add: limit_blocked [OF ty refl])
      with Some b index show ?thesis
        by (simp add: external_specification_of_def final_types_def binding_type_def conj_commute)
    qed
  qed
  then show ?thesis
    by (auto simp: build_external_specifications_def external_sizes_of_def external_specs_of_def comp_def elim!: decided_mono)
qed

lemma output_plan_type:
  assumes cons: "plan_consistent lp T" and out: "out \<in> set (lp_outputs lp)"
    and known: "\<forall>b < length (lp_bindings lp). external_type lp T hints b \<noteq> None"
  shows "source_type lp T hints (lo_source out) \<in> plan_types lp T hints"
    and "\<And>s. lo_source out = FromBuffer s \<Longrightarrow> s < slot_count lp"
    and "\<And>b. lo_source out = FromInput b \<or> lo_source out = FromConstant b \<Longrightarrow> b < length (lp_bindings lp)"
proof -
  have ok: "case lo_source out of FromBuffer s \<Rightarrow> referenced lp (FromBuffer s)
      | FromInput b \<Rightarrow> b < length (lp_bindings lp) | FromConstant b \<Rightarrow> b < length (lp_bindings lp)"
    using cons out unfolding plan_consistent_def by blast
  then show slot: "s < slot_count lp" if "lo_source out = FromBuffer s" for s
    using that referenced_slots(1) [OF cons] by simp
  from ok show ext: "b < length (lp_bindings lp)" if "lo_source out = FromInput b \<or> lo_source out = FromConstant b" for b
    using that by auto
  have "binding_type lp T hints b \<in> plan_types lp T hints" if b: "b < length (lp_bindings lp)" for b
    using known that by (auto simp: plan_types_def binding_type_def)
  with slot slot_plan_type [OF cons] ext show "source_type lp T hints (lo_source out) \<in> plan_types lp T hints"
    by (cases "lo_source out") (simp_all add: source_type_def)
qed

lemma outputs_decided:
  assumes cons: "plan_consistent lp T"
    and known: "\<forall>b < length (lp_bindings lp). external_type lp T hints b \<noteq> None"
  shows "decided (blocked caps lp T hints) (\<lambda>r. r = map (prepared_output_of lp T hints) (lp_outputs lp))
    (resolve_outputs lp (final_types lp T hints))"
proof -
  let ?os = "lp_outputs lp"
  have "decided (blocked caps lp T hints)
      (\<lambda>rs. rs = map (\<lambda>k. prepared_output_of lp T hints (?os ! k)) [0..<length (enumerate 0 ?os)] \<and>
        (\<forall>k < length (enumerate 0 ?os). True))
      (resolve_outputs lp (final_types lp T hints))"
    unfolding resolve_outputs_def
  proof (rule decided_traverse)
    fix k assume "k < length (enumerate 0 ?os)"
    then have k: "k < length ?os" by simp
    let ?out = "?os ! k"
    note out = output_plan_type [OF cons nth_mem [OF k] known]
    have "decided (blocked caps lp T hints) (\<lambda>n. n = value_bytes (source_type lp T hints (lo_source ?out)))
        (try_bind (plan_element_count (source_type lp T hints (lo_source ?out))) byte_size)"
      by (rule sized_blocked [OF out(1)]) simp
    moreover have "\<exists>ty. external_type lp T hints b = Some ty \<and> binding_type lp T hints b = ty"
      if "b < length (lp_bindings lp)" for b using known that by (auto simp: binding_type_def)
    ultimately show "decided (blocked caps lp T hints) (\<lambda>y. y = prepared_output_of lp T hints ?out \<and> True)
        (resolve_output lp (final_types lp T hints) (enumerate 0 ?os ! k))"
      using k out(2,3)
      by (cases "lo_source ?out")
        (fastforce simp: resolve_output_def Let_def final_types_def prepared_output_of_def source_type_def
          source_target_def)+
  qed
  then show ?thesis by (rule decided_mono) (auto intro: nth_equalityI)
qed

end
