(* ===== verification/Tensor_Nd.thy ===== *)
theory Tensor_Nd
  imports Tensor_View_Theorems Plan_Preparation
begin

text \<open>
  The dense tensors of \<open>scirust-tensor-core\<close> (\<open>TensorND\<close> of \<open>lib.rs\<close>), which the canonical front end takes
  and returns, and the promotion of element types (\<open>promotion.rs\<close>). The fields of a dense tensor are
  public, so a lookup checks that they agree. The messages of the source are constructors here.
\<close>

section \<open>Dense tensors\<close>

record tensor_nd =
  nd_data :: "u32 list"
  nd_shape :: "usize list"
  nd_strides :: "usize list"

datatype nd_error =
    NdShapeOverflow "usize list"
  | NdLengthMismatch usize "usize list"
  | NdStrideOverflow "usize list"
  | NdRankMismatch usize usize
  | NdInconsistentFields
  | NdCoordinateOutOfBounds usize usize usize
  | NdOffsetMulOverflow usize
  | NdOffsetAddOverflow usize

definition multiply_dimension :: "usize option \<Rightarrow> usize \<Rightarrow> usize option" where
  "multiply_dimension count d = Option.bind count (\<lambda>n. checked_mul n d)"

definition shape_product :: "usize list \<Rightarrow> usize option" where
  "shape_product sh = foldl multiply_dimension (Some 1) sh"

definition nd_stride_step :: "usize list \<Rightarrow> usize list \<Rightarrow> nat \<Rightarrow> (unit, usize list) outcome" where
  "nd_stride_step sh strides i =
     try_bind (idx strides (i + 1)) (\<lambda>stride.
     try_bind (idx sh (i + 1)) (\<lambda>dim.
     try_bind (ok_or () (checked_mul stride dim)) (\<lambda>v.
     if i < length strides then Inr (strides[i := v]) else Inl Panic)))"

definition compute_strides :: "usize list \<Rightarrow> (unit, usize list) outcome" where
  "compute_strides sh =
     (let ndim = length sh; strides = replicate ndim 1 in
      if ndim \<le> 1 then Inr strides
      else try_fold (nd_stride_step sh) strides (rev [0..<ndim - 1]))"

definition nd_try_new :: "u32 list \<Rightarrow> usize list \<Rightarrow> (nd_error, tensor_nd) outcome" where
  "nd_try_new data sh =
     try_bind (ok_or (NdShapeOverflow sh) (shape_product sh)) (\<lambda>expected.
     if length data \<noteq> expected then fail (NdLengthMismatch (length data) sh)
     else
       try_bind (map_err (\<lambda>_. NdStrideOverflow sh) (compute_strides sh)) (\<lambda>strides.
       Inr \<lparr>nd_data = data, nd_shape = sh, nd_strides = strides\<rparr>))"

text \<open>\<open>expect\<close>\<close>

definition expect_value :: "('x, 'a) outcome \<Rightarrow> ('e, 'a) outcome" where
  "expect_value r = (case r of Inl _ \<Rightarrow> Inl Panic | Inr x \<Rightarrow> Inr x)"

definition nd_new :: "u32 list \<Rightarrow> usize list \<Rightarrow> ('e, tensor_nd) outcome" where
  "nd_new data sh = expect_value (nd_try_new data sh)"

definition nd_zeros :: "usize list \<Rightarrow> ('e, tensor_nd) outcome" where
  "nd_zeros sh =
     try_bind (case shape_product sh of Some n \<Rightarrow> Inr n | None \<Rightarrow> Inl Panic) (\<lambda>n.
     nd_new (replicate n 0) sh)"

definition nd_scalar :: "u32 \<Rightarrow> ('e, tensor_nd) outcome" where
  "nd_scalar v = nd_new [v] []"

definition nd_ndim :: "tensor_nd \<Rightarrow> usize" where
  "nd_ndim t = length (nd_shape t)"

definition nd_size :: "tensor_nd \<Rightarrow> usize" where
  "nd_size t = length (nd_data t)"

definition nd_is_empty :: "tensor_nd \<Rightarrow> bool" where
  "nd_is_empty t \<longleftrightarrow> nd_data t = []"

definition nd_offset_step :: "usize \<Rightarrow> usize \<times> ((usize \<times> usize) \<times> usize) \<Rightarrow> (nd_error, usize) outcome" where
  "nd_offset_step offset p = (case p of (axis, ((coordinate, dimension), stride)) \<Rightarrow>
     if coordinate \<ge> dimension then fail (NdCoordinateOutOfBounds coordinate axis dimension)
     else
       try_bind (ok_or (NdOffsetMulOverflow axis) (checked_mul coordinate stride)) (\<lambda>term.
       ok_or (NdOffsetAddOverflow axis) (checked_add offset term)))"

definition nd_try_offset :: "tensor_nd \<Rightarrow> usize list \<Rightarrow> (nd_error, usize) outcome" where
  "nd_try_offset t index =
     (if length index \<noteq> length (nd_shape t) then fail (NdRankMismatch (length index) (length (nd_shape t)))
      else
        try_bind (ok_or (NdShapeOverflow (nd_shape t)) (shape_product (nd_shape t))) (\<lambda>expected_len.
        try_bind (map_err (\<lambda>_. NdStrideOverflow (nd_shape t)) (compute_strides (nd_shape t))) (\<lambda>expected_strides.
        if expected_len \<noteq> length (nd_data t) \<or> nd_strides t \<noteq> expected_strides then fail NdInconsistentFields
        else try_fold nd_offset_step 0 (enumerate 0 (zip (zip index (nd_shape t)) (nd_strides t))))))"

definition nd_offset :: "tensor_nd \<Rightarrow> usize list \<Rightarrow> ('e, usize) outcome" where
  "nd_offset t index = expect_value (nd_try_offset t index)"

definition nd_try_get :: "tensor_nd \<Rightarrow> usize list \<Rightarrow> (nd_error, u32) outcome" where
  "nd_try_get t index = try_bind (nd_try_offset t index) (\<lambda>offset. idx (nd_data t) offset)"

definition nd_get :: "tensor_nd \<Rightarrow> usize list \<Rightarrow> ('e, u32) outcome" where
  "nd_get t index = expect_value (nd_try_get t index)"

definition nd_reshape :: "tensor_nd \<Rightarrow> usize list \<Rightarrow> (nd_error, tensor_nd) outcome" where
  "nd_reshape t new_shape =
     try_bind (ok_or (NdShapeOverflow new_shape) (shape_product new_shape)) (\<lambda>n.
     if n \<noteq> length (nd_data t) then fail (NdLengthMismatch (length (nd_data t)) new_shape)
     else nd_new (nd_data t) new_shape)"

definition nd_to_core2 :: "tensor_nd \<Rightarrow> (tensor_error, tensor) outcome" where
  "nd_to_core2 t = tensor_from_f32 (nd_data t) (nd_shape t)"

definition core2_from_nd :: "tensor_nd \<Rightarrow> (tensor_error, tensor) outcome" where
  "core2_from_nd t = tensor_from_f32 (nd_data t) (nd_shape t)"

definition nd_from_core2 :: "tensor \<Rightarrow> (tensor_error, tensor_nd) outcome" where
  "nd_from_core2 t = try_bind (to_f32_vec t) (\<lambda>data. nd_new data (tn_shape t))"

section \<open>Sizes and strides\<close>

lemma foldl_dimension_None: "foldl multiply_dimension None sh = None"
  by (induction sh) (simp_all add: multiply_dimension_def)

lemma shape_product_checked: "shape_product sh = Some n \<longleftrightarrow> checked_num_elements sh = Inr n"
proof -
  have "foldl multiply_dimension (Some a) sh = Some n \<longleftrightarrow>
      try_fold (\<lambda>total dim. ok_or ShapeOverflow (checked_mul total dim)) a sh = Inr n" for a
  proof (induction sh arbitrary: a)
    case (Cons d sh)
    show ?case
    proof (cases "checked_mul a d")
      case None
      then have "multiply_dimension (Some a) d = None" by (simp add: multiply_dimension_def)
      with None show ?thesis by (simp add: foldl_dimension_None checked_mul_def)
    next
      case (Some m)
      then have "multiply_dimension (Some a) d = Some m" by (simp add: multiply_dimension_def)
      with Some Cons.IH [of m] show ?thesis by simp
    qed
  qed simp
  then show ?thesis by (simp add: shape_product_def checked_num_elements_def)
qed

lemma shape_product_None: "shape_product sh = None \<longleftrightarrow> (\<forall>n. checked_num_elements sh \<noteq> Inr n)"
  using shape_product_checked [of sh] by (cases "shape_product sh") auto

text \<open>The loop that fills strides from the last axis computes \<open>contiguous\<close>.\<close>

lemma replicate_snoc: "replicate (Suc i) x @ ys = replicate i x @ x # ys"
  by (simp add: replicate_app_Cons_same)

lemma nd_stride_loop:
  assumes "k \<le> n" and "length sh = Suc n"
    and step: "\<And>i strides. i < n \<Longrightarrow> length strides = Suc n \<Longrightarrow>
      step strides i = (case checked_mul (strides ! Suc i) (sh ! Suc i) of Some v \<Rightarrow> Inr (strides[i := v]) | None \<Rightarrow> fail e)"
  shows "try_fold step (replicate (Suc n) 1) (rev [k..<n]) =
    (case contiguous (drop k sh) of Inr s \<Rightarrow> Inr (replicate k 1 @ s) | Inl _ \<Rightarrow> fail e)"
  using assms(1)
proof (induction rule: inc_induct)
  case base
  have "drop n sh = [sh ! n]" using assms(2) by (simp flip: Cons_nth_drop_Suc)
  then show ?case by (simp add: replicate_append_same)
next
  case (step i)
  have up: "rev [i..<n] = rev [Suc i..<n] @ [i]" using step.hyps by (simp add: upt_conv_Cons)
  have drop: "drop i sh = sh ! i # sh ! Suc i # drop (Suc (Suc i)) sh" "drop (Suc i) sh = sh ! Suc i # drop (Suc (Suc i)) sh"
    using step.hyps assms(2) by (simp_all flip: Cons_nth_drop_Suc)
  show ?case
  proof (cases "contiguous (drop (Suc i) sh)")
    case (Inl f)
    with step.IH have "try_fold step (replicate (Suc n) 1) (rev [Suc i..<n]) = fail e" by simp
    with Inl show ?thesis unfolding up by (simp add: drop)
  next
    case (Inr s)
    have len: "length s = n - i" using contiguous_length [OF Inr] assms(2) by simp
    then obtain x xs where s: "s = x # xs" using step.hyps by (cases s) auto
    let ?st = "replicate (Suc i) 1 @ s"
    have st: "length ?st = Suc n" "?st ! Suc i = x" "?st[i := v] = replicate i 1 @ v # s" for v
      using len step.hyps unfolding replicate_snoc by (simp_all add: s nth_append list_update_append)
    from step.IH Inr have "try_fold step (replicate (Suc n) 1) (rev [Suc i..<n]) = Inr ?st" by simp
    moreover have "contiguous (drop i sh) = try_bind (ok_or ShapeOverflow (checked_mul x (sh ! Suc i))) (\<lambda>v. Inr (v # s))"
      using Inr by (simp add: drop s)
    moreover note assms(3) [OF step.hyps(2) st(1)] st(2,3)
    ultimately show ?thesis unfolding up by (cases "x * sh ! Suc i \<le> usize_max") (simp_all add: checked_mul_def del: replicate_Suc)
  qed
qed

lemma compute_strides_eq:
  "compute_strides sh = (case contiguous sh of Inr s \<Rightarrow> Inr s | Inl _ \<Rightarrow> fail ())"
proof (cases "length sh \<le> 1")
  case True
  then consider "sh = []" | d where "sh = [d]" by (cases sh) (auto simp: le_Suc_eq length_Suc_conv)
  then show ?thesis by cases (simp_all add: compute_strides_def)
next
  case False
  then obtain n where n: "length sh = Suc n" "0 < n" by (cases "length sh") auto
  have step: "nd_stride_step sh strides i =
      (case checked_mul (strides ! Suc i) (sh ! Suc i) of Some v \<Rightarrow> Inr (strides[i := v]) | None \<Rightarrow> fail ())"
    if "i < n" "length strides = Suc n" for i strides
    using that n by (simp add: nd_stride_step_def checked_mul_def)
  have "compute_strides sh = try_fold (nd_stride_step sh) (replicate (Suc n) 1) (rev [0..<n])"
    using n by (simp add: compute_strides_def Let_def del: replicate_Suc)
  also have "\<dots> = (case contiguous (drop 0 sh) of Inr s \<Rightarrow> Inr (replicate 0 1 @ s) | Inl _ \<Rightarrow> fail ())"
    by (rule nd_stride_loop [OF _ n(1) step]) simp
  finally show ?thesis by (simp only: drop_0 replicate_0 append_Nil)
qed

text \<open>A dense tensor whose fields agree.\<close>

definition nd_ok :: "tensor_nd \<Rightarrow> bool" where
  "nd_ok t \<longleftrightarrow> checked_num_elements (nd_shape t) = Inr (length (nd_data t)) \<and> contiguous (nd_shape t) = Inr (nd_strides t)"

lemma nd_try_new_eq:
  "nd_try_new data sh =
     (if \<forall>n. checked_num_elements sh \<noteq> Inr n then fail (NdShapeOverflow sh)
      else if checked_num_elements sh \<noteq> Inr (length data) then fail (NdLengthMismatch (length data) sh)
      else case contiguous sh of Inl _ \<Rightarrow> fail (NdStrideOverflow sh)
        | Inr s \<Rightarrow> Inr \<lparr>nd_data = data, nd_shape = sh, nd_strides = s\<rparr>)"
proof (cases "shape_product sh")
  case None
  then have "\<forall>n. checked_num_elements sh \<noteq> Inr n" using shape_product_None by blast
  with None show ?thesis by (simp add: nd_try_new_def)
next
  case (Some n)
  then have "checked_num_elements sh = Inr n" by (simp add: shape_product_checked)
  with Some show ?thesis by (auto simp: nd_try_new_def compute_strides_eq split: sum.split)
qed

lemma nd_try_new_ok: "nd_try_new data sh = Inr t \<Longrightarrow> nd_ok t \<and> nd_data t = data \<and> nd_shape t = sh"
  by (auto simp: nd_try_new_eq nd_ok_def split: if_splits sum.splits)

lemma nd_ok_new: "nd_ok t \<Longrightarrow> nd_try_new (nd_data t) (nd_shape t) = Inr t"
  by (auto simp: nd_try_new_eq nd_ok_def)

section \<open>Lookups\<close>

text \<open>Why an index is refused: an axis whose coordinate is out of range, the first one.\<close>

definition coordinate_refused :: "usize list \<Rightarrow> usize list \<Rightarrow> nd_error failure \<Rightarrow> bool" where
  "coordinate_refused sh index f \<longleftrightarrow> (\<exists>axis < length sh. sh ! axis \<le> index ! axis \<and> in_range (take axis index) (take axis sh) \<and>
     f = Err (NdCoordinateOutOfBounds (index ! axis) axis (sh ! axis)))"

lemma in_range_snoc: "length c = length ds \<Longrightarrow> in_range (c @ [x]) (ds @ [d]) \<longleftrightarrow> in_range c ds \<and> x < d"
  by (auto simp: in_range_def list_all2_append)

lemma nd_offset_loop:
  assumes len: "length index = length sh" and size: "prod_list sh \<le> usize_max"
  shows "decided (coordinate_refused sh index) (\<lambda>offset. in_range index sh \<and> offset = ravel sh index)
    (try_fold nd_offset_step 0 (enumerate 0 (zip (zip index sh) (row_major sh))))"
proof -
  let ?xs = "enumerate 0 (zip (zip index sh) (row_major sh))" and ?n = "length sh"
  let ?P = "\<lambda>i offset. in_range (take i index) (take i sh) \<and> offset = ravel (take i sh) (take i index) * prod_list (drop i sh)"
  have n: "length ?xs = ?n" using len by simp
  have "decided (coordinate_refused sh index) (?P (length ?xs)) (try_fold nd_offset_step 0 ?xs)"
  proof (rule decided_try_fold [where P = ?P])
    show "?P 0 0" by (simp add: in_range_def)
  next
    fix i offset assume i: "i < length ?xs" and P: "?P i offset"
    then have i': "i < ?n" using len by simp
    have x: "?xs ! i = (i, ((index ! i, sh ! i), row_major sh ! i))" using i' len by simp
    have split: "take (Suc i) index = take i index @ [index ! i]" "take (Suc i) sh = take i sh @ [sh ! i]"
      using i' len by (simp_all add: take_Suc_conv_app_nth)
    have sub: "length (take i index) = length (take i sh)" using len by simp
    show "decided (coordinate_refused sh index) (?P (Suc i)) (nd_offset_step offset (?xs ! i))"
    proof (cases "index ! i < sh ! i")
      case False
      with P i' show ?thesis by (auto simp: x nd_offset_step_def coordinate_refused_def)
    next
      case True
      let ?D = "prod_list (drop (Suc i) sh)" and ?R = "ravel (take i sh) (take i index)"
      have stride: "row_major sh ! i = ?D" using i' by (rule row_major_nth)
      have drop: "prod_list (drop i sh) = sh ! i * ?D" using i' by (simp flip: Cons_nth_drop_Suc)
      have range: "in_range (take (Suc i) index) (take (Suc i) sh)" using P True unfolding split in_range_snoc [OF sub] by simp
      have new: "ravel (take (Suc i) sh) (take (Suc i) index) * ?D = offset + index ! i * ?D"
        using P unfolding split ravel_snoc [OF sub] drop by (simp add: algebra_simps)
      have "ravel (take (Suc i) sh) (take (Suc i) index) * ?D \<le> prod_list (take (Suc i) sh) * ?D"
        using ravel_less [OF range] by simp
      also have "\<dots> = prod_list sh" by (metis append_take_drop_id prod_list.append)
      finally have "offset + index ! i * ?D \<le> usize_max" using new size by simp
      with True range new show ?thesis by (simp add: x nd_offset_step_def stride)
    qed
  qed
  with n len show ?thesis by simp
qed

lemma nd_try_offset_cases:
  "decided
     (\<lambda>f. length index \<noteq> length (nd_shape t) \<and> f = Err (NdRankMismatch (length index) (length (nd_shape t))) \<or>
        (\<forall>n. checked_num_elements (nd_shape t) \<noteq> Inr n) \<and> f = Err (NdShapeOverflow (nd_shape t)) \<or>
        (\<forall>s. contiguous (nd_shape t) \<noteq> Inr s) \<and> f = Err (NdStrideOverflow (nd_shape t)) \<or>
        \<not> nd_ok t \<and> f = Err NdInconsistentFields \<or> nd_ok t \<and> coordinate_refused (nd_shape t) index f)
     (\<lambda>offset. nd_ok t \<and> in_range index (nd_shape t) \<and> offset = ravel (nd_shape t) index \<and> offset < length (nd_data t))
     (nd_try_offset t index)"
proof (cases "length index = length (nd_shape t)")
  case len: True
  show ?thesis
  proof (cases "shape_product (nd_shape t)")
    case None
    then have "\<forall>n. checked_num_elements (nd_shape t) \<noteq> Inr n" using shape_product_None by blast
    with None len show ?thesis by (simp add: nd_try_offset_def)
  next
    case (Some n)
    then have n: "checked_num_elements (nd_shape t) = Inr n" by (simp add: shape_product_checked)
    show ?thesis
    proof (cases "contiguous (nd_shape t)")
      case (Inl f)
      with Some len show ?thesis by (simp add: nd_try_offset_def compute_strides_eq)
    next
      case (Inr s)
      show ?thesis
      proof (cases "n = length (nd_data t) \<and> nd_strides t = s")
        case True
        then have ok: "nd_ok t" using n Inr by (simp add: nd_ok_def)
        have prod: "length (nd_data t) = prod_list (nd_shape t)" "prod_list (nd_shape t) \<le> usize_max"
          using n True checked_num_elements_Inr checked_num_elements_le by simp_all
        have "s = row_major (nd_shape t)" by (rule contiguous_Inr [OF Inr])
        with True Some Inr len have run: "nd_try_offset t index =
            try_fold nd_offset_step 0 (enumerate 0 (zip (zip index (nd_shape t)) (row_major (nd_shape t))))"
          by (simp add: nd_try_offset_def compute_strides_eq)
        show ?thesis unfolding run using nd_offset_loop [OF len prod(2)] ok prod(1) ravel_less [of index "nd_shape t"]
          by (simp add: decided_def split: sum.splits)
      next
        case False
        then have "\<not> nd_ok t" using n Inr by (auto simp: nd_ok_def)
        with False Some Inr len show ?thesis by (auto simp: nd_try_offset_def compute_strides_eq)
      qed
    qed
  qed
next
  case False
  then show ?thesis by (simp add: nd_try_offset_def)
qed

lemma ravel_inj:
  assumes "in_range c ds" and "in_range d ds" and "ravel ds c = ravel ds d"
  shows "c = d"
proof (rule nth_equalityI)
  show len: "length c = length d" using assms(1,2) by (simp add: in_range_def list_all2_lengthD)
  fix j assume "j < length c"
  then have "j < length ds" using assms(1) by (simp add: in_range_def list_all2_lengthD)
  with ravel_coordinate [OF assms(1)] ravel_coordinate [OF assms(2)] assms(3) show "c ! j = d ! j" by metis
qed

text \<open>
  C35: a lookup in a dense tensor, whatever its public fields: it succeeds exactly when shape, strides and
  data agree and the coordinates are in range, then its offset is the row-major position, inside the
  data, and no two indices share one; otherwise it reports the first violated condition. The
  overflow errors of the loop are unreachable and nothing panics.
\<close>

theorem nd_offset_decides:
  "(case nd_try_offset t index of
      Inr offset \<Rightarrow> nd_ok t \<and> in_range index (nd_shape t) \<and> offset = ravel (nd_shape t) index \<and>
        nd_try_get t index = Inr (nd_data t ! offset) \<and> offset < length (nd_data t) \<and>
        (\<forall>index'. nd_try_offset t index' = Inr offset \<longrightarrow> index' = index)
    | Inl f \<Rightarrow> nd_try_get t index = Inl f \<and>
        (length index \<noteq> length (nd_shape t) \<and> f = Err (NdRankMismatch (length index) (length (nd_shape t))) \<or>
         (\<forall>n. checked_num_elements (nd_shape t) \<noteq> Inr n) \<and> f = Err (NdShapeOverflow (nd_shape t)) \<or>
         (\<forall>s. contiguous (nd_shape t) \<noteq> Inr s) \<and> f = Err (NdStrideOverflow (nd_shape t)) \<or>
         \<not> nd_ok t \<and> f = Err NdInconsistentFields \<or>
         nd_ok t \<and> coordinate_refused (nd_shape t) index f))"
proof (cases "nd_try_offset t index")
  case (Inl f)
  with nd_try_offset_cases [of index t] show ?thesis by (simp add: nd_try_get_def)
next
  case (Inr offset)
  with nd_try_offset_cases [of index t] have here: "nd_ok t" "in_range index (nd_shape t)" "offset = ravel (nd_shape t) index"
    "offset < length (nd_data t)" by simp_all
  have "index' = index" if "nd_try_offset t index' = Inr offset" for index'
  proof -
    from nd_try_offset_cases [of index' t] that have "in_range index' (nd_shape t)" "offset = ravel (nd_shape t) index'" by simp_all
    with here show ?thesis using ravel_inj by metis
  qed
  then have "\<forall>index'. nd_try_offset t index' = Inr offset \<longrightarrow> index' = index" by blast
  moreover have "nd_try_get t index = Inr (nd_data t ! offset)" using Inr here(4) by (simp add: nd_try_get_def)
  ultimately show ?thesis unfolding Inr sum.case using here by blast
qed

theorem nd_offset_decides_witness:
  "\<exists>t. nd_try_new [1, 2, 3, 4, 5, 6] [2, 3] = Inr t \<and> nd_try_get t [1, 2] = Inr 6 \<and>
     nd_try_get t [0, 3] = fail (NdCoordinateOutOfBounds 3 1 3)"
proof -
  have "checked_num_elements [2, 3] = Inr 6" "contiguous [2, 3] = Inr [3, 1]"
    by (simp_all add: checked_num_elements_def checked_mul_def)
  note counts = this
  then have new: "nd_try_new [1, 2, 3, 4, 5, 6] [2, 3] = Inr \<lparr>nd_data = [1, 2, 3, 4, 5, 6], nd_shape = [2, 3], nd_strides = [3, 1]\<rparr>"
    by (simp add: nd_try_new_eq)
  let ?t = "\<lparr>nd_data = [1, 2, 3, 4, 5, 6], nd_shape = [2, 3], nd_strides = [3, 1]\<rparr> :: tensor_nd"
  have ok: "nd_ok ?t" using nd_try_new_ok [OF new] by blast
  have sizes: "shape_product [2, 3] = Some 6" "compute_strides [2, 3] = Inr [3, 1]"
    using counts by (simp_all only: shape_product_checked compute_strides_eq sum.case)
  have loops: "try_fold nd_offset_step 0 [(0, ((1, 2), 3)), (1, ((2, 3), 1))] = Inr 5"
      "try_fold nd_offset_step 0 [(0, ((0, 2), 3)), (1, ((3, 3), 1))] = fail (NdCoordinateOutOfBounds 3 1 3)"
    by (simp_all add: nd_offset_step_def checked_mul_def checked_add_def)
  have lists: "enumerate 0 (zip (zip [1, 2] [2, 3]) [3, 1]) = [(0, ((1, 2), 3)), (1, ((2, 3), 1))]"
      "enumerate 0 (zip (zip [0, 3] [2, 3]) [3, 1]) = [(0, ((0, 2), 3)), (1, ((3, 3), 1))]" by simp_all
  have lookups: "nd_try_offset ?t [1, 2] = Inr 5" "nd_try_offset ?t [0, 3] = fail (NdCoordinateOutOfBounds 3 1 3)"
    by (simp_all add: nd_try_offset_def sizes lists loops del: enumerate_simps zip_Cons_Cons One_nat_def try_fold.simps)
  from nd_offset_decides [of ?t "[1, 2]"] have "nd_try_get ?t [1, 2] = Inr (nd_data ?t ! 5)" unfolding lookups sum.case by blast
  moreover from nd_offset_decides [of ?t "[0, 3]"] have "nd_try_get ?t [0, 3] = fail (NdCoordinateOutOfBounds 3 1 3)"
    unfolding lookups sum.case by blast
  ultimately show ?thesis using new by (intro exI [of _ ?t] conjI) simp_all
qed

section \<open>Conversion to strided tensors\<close>

text \<open>
  converting a dense tensor to a strided one and back gives the same tensor, and the strided tensor's
  elements are the dense tensor's data, in its shape; the conversion fails exactly when the byte length
  of the data is not a 64-bit number.
\<close>

theorem nd_core2_round_trip:
  assumes "nd_try_new data sh = Inr t"
  shows "case nd_to_core2 t of
      Inr u \<Rightarrow> nd_from_core2 u = Inr t \<and> core2_from_nd t = Inr u \<and> to_f32_vec u = Inr data \<and> tn_shape u = sh
    | Inl f \<Rightarrow> usize_max < 4 * length data"
proof (cases "nd_to_core2 t")
  case (Inr u)
  note t = nd_try_new_ok [OF assms(1)]
  have u: "tensor_from_f32 data sh = Inr u" using Inr t by (simp add: nd_to_core2_def)
  have payload: "to_f32_vec u = Inr data" using u by (rule from_f32_payload)
  have "tn_shape u = sh"
    using tensor_from_bytes_ok(2) [OF u [unfolded tensor_from_f32_def]] by simp
  with Inr show ?thesis
    using payload u t assms by (simp add: nd_from_core2_def nd_new_def expect_value_def core2_from_nd_def)
next
  case (Inl f)
  note t = nd_try_new_ok [OF assms(1)]
  have "usize_max < 4 * length data"
  proof (rule ccontr)
    assume "\<not> ?thesis"
    then have "\<exists>u. tensor_from_f32 data sh = Inr u" using t
      by (auto simp: nd_ok_def tensor_from_f32_def tensor_from_bytes_eq length_concat_u32
          dest: checked_num_elements_Inr contiguous_Inr)
    with Inl t show False by (simp add: nd_to_core2_def)
  qed
  with Inl show ?thesis by simp
qed

theorem nd_core2_round_trip_witness:
  "\<exists>t u. nd_try_new [7, 8] [2] = Inr t \<and> nd_to_core2 t = Inr u \<and> nd_from_core2 u = Inr t"
proof -
  have new: "nd_try_new [7, 8] [2] = Inr \<lparr>nd_data = [7, 8], nd_shape = [2], nd_strides = [1]\<rparr>"
    by (simp add: nd_try_new_eq checked_num_elements_def checked_mul_def)
  from nd_core2_round_trip [OF new] new show ?thesis by (auto split: sum.splits)
qed

section \<open>Promotion of element types\<close>

datatype promotion_error = NoPromotion dtype dtype

text \<open>The alternatives \<open>(a, other) | (other, a) if guard(other)\<close> and \<open>(a, b) | (b, a)\<close> of the match.\<close>

definition either_with :: "dtype \<Rightarrow> dtype set \<Rightarrow> dtype \<Rightarrow> dtype \<Rightarrow> bool" where
  "either_with a others lhs rhs \<longleftrightarrow> lhs = a \<and> rhs \<in> others \<or> rhs = a \<and> lhs \<in> others"

definition promote_types :: "dtype \<Rightarrow> dtype \<Rightarrow> (promotion_error, dtype) outcome" where
  "promote_types lhs rhs =
     (if lhs = rhs then Inr lhs
      else if lhs = Bool \<or> rhs = Bool then fail (NoPromotion lhs rhs)
      else if lhs = F64 \<and> rhs = F64 then Inr F64
      else if either_with F64 (- {U64, I64}) lhs rhs then Inr F64
      else if either_with F32 {F16, Bf16, U8, I8, U16, I16, U32, I32} lhs rhs then Inr F32
      else if either_with F16 {Bf16} lhs rhs then Inr F32
      else if either_with F16 {U8, I8, U16, I16} lhs rhs then Inr F16
      else if either_with Bf16 {U8, I8} lhs rhs then Inr Bf16
      else if either_with U8 {U16} lhs rhs then Inr U16
      else if either_with U32 {U8, U16} lhs rhs then Inr U32
      else if either_with U64 {U8, U16, U32} lhs rhs then Inr U64
      else if either_with I8 {I16} lhs rhs then Inr I16
      else if either_with I32 {I8, I16} lhs rhs then Inr I32
      else if either_with I64 {I8, I16, I32} lhs rhs then Inr I64
      else if either_with U8 {I8} lhs rhs then Inr I16
      else if either_with U8 {I16} lhs rhs then Inr I16
      else if either_with U16 {I8, I16} lhs rhs then Inr I32
      else if either_with I32 {U8, U16} lhs rhs then Inr I32
      else if either_with U32 {I8, I16, I32} lhs rhs then Inr I64
      else if either_with I64 {U8, U16, U32} lhs rhs then Inr I64
      else fail (NoPromotion lhs rhs))"

text \<open>
  The values of a type: an interval of integers, or a binary floating-point format with a significand of
  \<open>p\<close> bits and an exponent of \<open>e\<close> bits, which holds the integers up to \<open>2 ^ p\<close> and misses the next one.
\<close>

datatype value_set = Truth | Integers int int | Floats nat nat

fun values_of :: "dtype \<Rightarrow> value_set" where
  "values_of Bool = Truth"
| "values_of U8 = Integers 0 (2 ^ 8 - 1)"
| "values_of I8 = Integers (- (2 ^ 7)) (2 ^ 7 - 1)"
| "values_of U16 = Integers 0 (2 ^ 16 - 1)"
| "values_of I16 = Integers (- (2 ^ 15)) (2 ^ 15 - 1)"
| "values_of U32 = Integers 0 (2 ^ 32 - 1)"
| "values_of I32 = Integers (- (2 ^ 31)) (2 ^ 31 - 1)"
| "values_of U64 = Integers 0 (2 ^ 64 - 1)"
| "values_of I64 = Integers (- (2 ^ 63)) (2 ^ 63 - 1)"
| "values_of F16 = Floats 11 5"
| "values_of Bf16 = Floats 8 8"
| "values_of F32 = Floats 24 8"
| "values_of F64 = Floats 53 11"

fun keeps_values :: "value_set \<Rightarrow> value_set \<Rightarrow> bool" where
  "keeps_values Truth Truth = True"
| "keeps_values (Integers a b) (Integers c d) \<longleftrightarrow> a \<le> c \<and> d \<le> b"
| "keeps_values (Floats p e) (Integers c d) \<longleftrightarrow> - (2 ^ p) \<le> c \<and> d \<le> 2 ^ p"
| "keeps_values (Floats p e) (Floats q f) \<longleftrightarrow> q \<le> p \<and> f \<le> e"
| "keeps_values _ _ = False"

definition keeps :: "dtype \<Rightarrow> dtype \<Rightarrow> bool" where
  "keeps t u = keeps_values (values_of t) (values_of u)"

definition integer_type :: "dtype \<Rightarrow> bool" where
  "integer_type t \<longleftrightarrow> t \<in> {U8, I8, U16, I16, U32, I32, U64, I64}"

text \<open>The order of inclusion, as a table.\<close>

lemma keeps_table:
  "keeps t u \<longleftrightarrow> u \<in> (case t of Bool \<Rightarrow> {Bool} | U8 \<Rightarrow> {U8} | I8 \<Rightarrow> {I8} | U16 \<Rightarrow> {U8, U16} | I16 \<Rightarrow> {U8, I8, I16}
     | U32 \<Rightarrow> {U8, U16, U32} | I32 \<Rightarrow> {U8, I8, U16, I16, I32} | U64 \<Rightarrow> {U8, U16, U32, U64}
     | I64 \<Rightarrow> {U8, I8, U16, I16, U32, I32, I64} | F16 \<Rightarrow> {U8, I8, F16} | Bf16 \<Rightarrow> {U8, I8, Bf16}
     | F32 \<Rightarrow> {U8, I8, U16, I16, F16, Bf16, F32} | F64 \<Rightarrow> {U8, I8, U16, I16, U32, I32, F16, Bf16, F32, F64})"
  unfolding keeps_def by (cases t; cases u; simp)

lemma all_dtype:
  "(\<forall>t. P t) \<longleftrightarrow> P Bool \<and> P U8 \<and> P I8 \<and> P U16 \<and> P I16 \<and> P U32 \<and> P I32 \<and> P U64 \<and> P I64 \<and> P F16 \<and> P Bf16 \<and> P F32 \<and> P F64"
  using dtype.exhaust by (smt (verit))

definition lossy_promotions :: "(dtype \<times> dtype) set" where
  "lossy_promotions = {(F16, U16), (F16, I16), (F32, U32), (F32, I32)}"

text \<open>
  C36: promotion of element types. It does not depend on the order; a pair that is refused mixes truth
  values or has, when both are integer types, no type that holds both; a promotion of two types gives
  the least type that holds the values of both (among the integer types, for integers), except for the mixes of F16 with 16-bit integers and
  of F32 with 32-bit integers, whose result cannot represent every integer of its operand.
\<close>

theorem promotion_decides:
  "case promote_types a b of
     Inr t \<Rightarrow> promote_types b a = Inr t \<and>
       (if (a, b) \<in> lossy_promotions \<or> (b, a) \<in> lossy_promotions then \<not> (keeps t a \<and> keeps t b)
        else keeps t a \<and> keeps t b \<and> (\<forall>u. (integer_type t \<longrightarrow> integer_type u) \<and> keeps u a \<and> keeps u b \<longrightarrow> keeps u t))
   | Inl f \<Rightarrow> f = Err (NoPromotion a b) \<and> promote_types b a = fail (NoPromotion b a) \<and> a \<noteq> b \<and>
       (integer_type a \<and> integer_type b \<longrightarrow> (\<forall>u. \<not> (keeps u a \<and> keeps u b)))"
  unfolding keeps_table all_dtype
  by (cases a; cases b; simp add: promote_types_def either_with_def integer_type_def lossy_promotions_def)

theorem promotion_decides_witness:
  "promote_types U16 I16 = Inr I32 \<and> keeps I32 U16 \<and> keeps I64 I32 \<and>
   promote_types F16 U16 = Inr F16 \<and> \<not> keeps F16 U16 \<and> promote_types U64 I8 = fail (NoPromotion U64 I8) \<and> \<not> (keeps I64 U64 \<and> keeps I64 I8)"
proof -
  have p: "promote_types U16 I16 = Inr I32" "promote_types F16 U16 = Inr F16" "promote_types U64 I8 = fail (NoPromotion U64 I8)"
    "keeps F16 F16" "keeps I64 U16" "keeps I64 I16"
    by (simp_all add: promote_types_def either_with_def keeps_def)
  from promotion_decides [of U16 I16] p(5,6) have "keeps I32 U16 \<and> keeps I64 I32"
    unfolding p by (simp add: lossy_promotions_def integer_type_def)
  moreover from promotion_decides [of F16 U16] have "\<not> keeps F16 U16" unfolding p using p(4) by (simp add: lossy_promotions_def)
  moreover from promotion_decides [of U64 I8] have "\<not> (keeps I64 U64 \<and> keeps I64 I8)"
    unfolding p by (simp add: integer_type_def)
  ultimately show ?thesis using p by blast
qed

end
