(* ===== verification/Compiler_Pipeline.thy ===== *)
theory Compiler_Pipeline
  imports Lowering_Total
begin

text \<open>
  The compiler-IR path (\<open>compiler_lowering.rs\<close>, \<open>compiler_pipeline.rs\<close>): an execution plan becomes
  an SSA program, passes rewrite it, buffers are planned from its liveness, and the rewritten
  program is lowered. The theorems relate the path to the canonical one and to the values of
  the graph.
\<close>

section \<open>Lowering a program\<close>

datatype ir_lowering_error =
    InvalidCompilerIr ir_error
  | IncompatibleMemoryPlan
  | IrLowering lowering_error

definition projected_plan :: "compiler_ir \<Rightarrow> memory_plan \<Rightarrow> (ir_lowering_error, execution_plan) outcome" where
  "projected_plan ir memory =
     try_bind (map_err InvalidCompilerIr (memory_from_compiler_ir ir)) (\<lambda>expected.
     if expected \<noteq> memory then fail IncompatibleMemoryPlan
     else map_err InvalidCompilerIr (project_compiler_ir ir memory))"

definition ir_derive_bindings ::
  "compiler_ir \<Rightarrow> memory_plan \<Rightarrow> (ir_lowering_error, external_bindings) outcome" where
  "ir_derive_bindings ir memory =
     try_bind (projected_plan ir memory) (\<lambda>plan. Inr (derive_bindings plan))"

definition ir_lower ::
  "compiler_ir \<Rightarrow> memory_plan \<Rightarrow> external_bindings \<Rightarrow> (ir_lowering_error, lowered_plan) outcome" where
  "ir_lower ir memory bindings =
     try_bind (projected_plan ir memory) (\<lambda>plan. map_err IrLowering (lower_plan plan bindings))"

definition lower_with_derived_bindings ::
  "compiler_ir \<Rightarrow> memory_plan \<Rightarrow> (ir_lowering_error, lowered_plan) outcome" where
  "lower_with_derived_bindings ir memory =
     try_bind (projected_plan ir memory) (\<lambda>plan.
     let bindings = derive_bindings plan in map_err IrLowering (lower_plan plan bindings))"

section \<open>The pipeline\<close>

datatype pipeline_error = PipelineCompilerIr ir_error | PipelineLowering ir_lowering_error

record compiled_tensor_program =
  ct_compiler_ir :: compiler_ir
  ct_pass_stats :: pass_manager_stats
  ct_memory :: memory_plan
  ct_lowered :: lowered_plan

definition compile_execution_plan ::
  "compiler_pass list \<Rightarrow> execution_plan \<Rightarrow> (pipeline_error, compiled_tensor_program) outcome" where
  "compile_execution_plan passes execution =
     try_bind (map_err PipelineCompilerIr (from_execution_plan execution)) (\<lambda>ir.
     case run_passes_and_plan_memory passes ir of
       (ir, planned) \<Rightarrow>
         try_bind (map_err PipelineCompilerIr planned) (\<lambda>(pass_stats, memory).
         try_bind (map_err PipelineLowering (lower_with_derived_bindings ir memory)) (\<lambda>lowered.
         Inr \<lparr>ct_compiler_ir = ir, ct_pass_stats = pass_stats, ct_memory = memory,
              ct_lowered = lowered\<rparr>)))"

section \<open>The plan of a rewritten program\<close>

text \<open>The instructions of a plan with the operations of a rewritten program.\<close>

definition retype :: "instruction list \<Rightarrow> compiler_ir \<Rightarrow> instruction list" where
  "retype xs ir = map (\<lambda>i. (xs ! i)\<lparr>ins_operation := io_operation (ci_operations ir ! i)\<rparr>) [0..<length xs]"

lemma retype_nth [simp]:
  "length (retype xs ir) = length xs"
  "i < length xs \<Longrightarrow> retype xs ir ! i = (xs ! i)\<lparr>ins_operation := io_operation (ci_operations ir ! i)\<rparr>"
  by (simp_all add: retype_def)

lemma retype_ids [simp]: "map ins_id (retype xs ir) = map ins_id xs"
  by (intro nth_equalityI) simp_all

lemma built_retyped:
  assumes built: "built_program xs outs ir" and rew: "rewritten ir ir'"
  shows "built_program (retype xs ir') outs ir'"
proof -
  note oper = rewritten_operation [OF rew] and prog = rewritten_program [OF rew]
  have len: "length (ci_operations ir) = length xs" using built by (simp add: built_program_def)
  have eq: "ir' = ir\<lparr>ci_operations := ci_operations ir'\<rparr>" using rew by (simp add: rewritten_def)
  have rest: "ci_blocks ir' = ci_blocks ir" "ci_regions ir' = ci_regions ir" "ci_entry_region ir' = ci_entry_region ir"
    by (subst eq, simp)+
  have "value_of (retype xs ir') i = value_of xs i" if "i < length xs" for i
    using that by (simp add: value_of_def)
  then have vals: "map (value_of (retype xs ir')) [0..<length xs] = map (value_of xs) [0..<length xs]" by simp
  have "imported (retype xs ir') i (ci_operations ir' ! i)" if i: "i < length xs" for i
  proof -
    have imp: "imported xs i (ci_operations ir ! i)" using built i by (simp add: built_program_def)
    then have "\<forall>v \<in> set (io_operands (ci_operations ir ! i)). v < i" by (simp add: imported_def)
    then have "map (\<lambda>v. ins_id (retype xs ir' ! v)) (io_operands (ci_operations ir ! i)) =
        map (\<lambda>v. ins_id (xs ! v)) (io_operands (ci_operations ir ! i))"
      using i by (intro map_cong refl) fastforce
    with imp oper [of i] i len show ?thesis unfolding imported_def by simp
  qed
  moreover have "map (\<lambda>v. ins_id (retype xs ir' ! v)) (ci_outputs ir) = outs"
    using built by (auto simp: built_program_def intro: map_cong)
  ultimately show ?thesis using built prog rest vals len by (simp add: built_program_def)
qed

lemma retype_same:
  assumes "built_program xs outs ir"
  shows "retype xs ir = xs"
proof (intro nth_equalityI)
  fix i assume "i < length (retype xs ir)"
  then have "i < length xs" by simp
  with assms have "io_operation (ci_operations ir ! i) = ins_operation (xs ! i)"
    by (simp add: built_program_def imported_def)
  with \<open>i < length xs\<close> show "retype xs ir ! i = xs ! i" by simp
qed simp

lemma compiled_projection:
  assumes "compile g = Inr plan" and "length (graph_nodes g) \<le> u32_range"
    and "from_execution_plan plan = Inr ir" and "retyped ir ir'" and "wf_ir ir'"
    and "memory_from_compiler_ir ir' = Inr (ep_memory plan)"
  obtains p where "\<And>memory. projected_plan ir' memory =
      (if memory = ep_memory plan then Inr p else fail IncompatibleMemoryPlan)"
    "ep_instructions p = retype (ep_instructions plan) ir'" "ep_outputs p = ep_outputs plan"
    "ep_memory p = ep_memory plan"
proof -
  have "rewritten ir ir'" using assms(4) by (simp add: retyped_def)
  with built_retyped from_execution_plan_Inr [OF assms(3)] have
    built: "built_program (retype (ep_instructions plan) ir') (ep_outputs plan) ir'" by blast
  note project = project_built [OF built assms(5), of "ep_memory plan"]
  obtain p where p: "project_compiler_ir ir' (ep_memory plan) = Inr p"
    "ep_instructions p = retype (ep_instructions plan) ir'" "ep_outputs p = ep_outputs plan"
    "ep_memory p = ep_memory plan"
    using project by simp
  then have "projected_plan ir' memory = (if memory = ep_memory plan then Inr p else fail IncompatibleMemoryPlan)"
    for memory using assms(6) by (auto simp: projected_plan_def)
  with p that show ?thesis by blast
qed

text \<open>Lowering reads the instructions, the outputs and the memory plan, and nothing else.\<close>

lemma lower_plan_cong:
  assumes "ep_instructions p = ep_instructions q" and "ep_outputs p = ep_outputs q" and "ep_memory p = ep_memory q"
  shows "lower_plan p bindings = lower_plan q bindings" "derive_bindings p = derive_bindings q"
  using assms by (simp_all add: lower_plan_def collect_values_def derive_bindings_def)

section \<open>Agreement with the canonical path\<close>

text \<open>
  lowering the SSA program of a compiled plan is lowering the plan: the same kernels, the same
  dispatches in the same order over the same node identifiers, or the same error; a memory plan
  that is not the one planned from the program is refused, whatever it contains.
\<close>

theorem ir_lower_agrees:
  assumes "compile g = Inr plan" and "length (graph_nodes g) \<le> u32_range"
    and "from_execution_plan plan = Inr ir"
  shows "ir_lower ir memory bindings =
      (if memory = ep_memory plan then map_err IrLowering (lower_plan plan bindings)
       else fail IncompatibleMemoryPlan) \<and>
    ir_derive_bindings ir (ep_memory plan) = Inr (derive_bindings plan)"
proof -
  from compiled_program [OF assms(1,2), of "[]"] assms(3) obtain ir' where wf: "wf_ir ir"
    and ir': "retyped ir ir'" "wf_ir ir'" "memory_from_compiler_ir ir' = Inr (ep_memory plan)" by auto
  then have memory: "memory_from_compiler_ir ir = Inr (ep_memory plan)" using memory_retyped by metis
  from compiled_projection [OF assms retyped_refl wf memory] obtain p where
    p: "\<And>memory. projected_plan ir memory = (if memory = ep_memory plan then Inr p else fail IncompatibleMemoryPlan)"
    "ep_instructions p = retype (ep_instructions plan) ir" "ep_outputs p = ep_outputs plan"
    "ep_memory p = ep_memory plan" by blast
  have "ep_instructions p = ep_instructions plan"
    using p(2) retype_same from_execution_plan_Inr [OF assms(3)] by metis
  note same = lower_plan_cong [OF this p(3,4)]
  then show ?thesis
    by (simp add: ir_lower_def ir_derive_bindings_def p(1))
qed

theorem ir_lower_agrees_witness:
  "\<exists>ir lp. from_execution_plan example_plan = Inr ir \<and>
     ir_lower ir (ep_memory example_plan) (derive_bindings example_plan) = Inr lp \<and>
     map li_node (lp_instructions lp) = [1]"
proof -
  have small: "length (graph_nodes example_graph) \<le> u32_range" by (simp add: example_graph_def)
  from compiled_program [OF example_compiled small, of "[]"] obtain ir where
    ir: "from_execution_plan example_plan = Inr ir" by auto
  from ir_lower_agrees [OF example_compiled small ir] ir example_plan_lowered show ?thesis by auto
qed

section \<open>Passes that preserve values\<close>

definition preserves :: "'v operation_semantics \<Rightarrow> compiler_pass \<Rightarrow> bool" where
  "preserves opsem pass \<longleftrightarrow> (\<forall>ir ir' changed. wf_ir ir \<longrightarrow> pass ir = (ir', Inr changed) \<longrightarrow>
     (\<forall>i < length (ci_operations ir).
        opsem (io_operation (ci_operations ir' ! i)) = opsem (io_operation (ci_operations ir ! i))))"

lemma run_passes_preserve:
  assumes "list_all pass_ok passes" and "list_all (preserves opsem) passes" and "wf_ir ir"
    and "run_passes passes stats ir = (ir', Inr stats')" and "i < length (ci_operations ir)"
  shows "opsem (io_operation (ci_operations ir' ! i)) = opsem (io_operation (ci_operations ir ! i))"
  using assms
proof (induction passes arbitrary: stats ir)
  case Nil
  then show ?case by simp
next
  case (Cons pass passes)
  from Cons.prems(1,3) obtain ir1 changed where
    ir1: "pass ir = (ir1, Inr changed)" "wf_ir ir1" "retyped ir ir1"
    unfolding list_all_iff pass_ok_def by (metis list.set_intros(1))
  then have len: "length (ci_operations ir1) = length (ci_operations ir)"
    by (simp add: retyped_def rewritten_def)
  obtain stats1 where "run_passes passes stats1 ir1 = (ir', Inr stats')"
    using Cons.prems(4) ir1(1,2) by (simp add: Let_def verify_iff_wf)
  with Cons.IH [of ir1 stats1] Cons.prems ir1(2) len have
    "opsem (io_operation (ci_operations ir' ! i)) = opsem (io_operation (ci_operations ir1 ! i))" by simp
  moreover have "opsem (io_operation (ci_operations ir1 ! i)) = opsem (io_operation (ci_operations ir ! i))"
    using Cons.prems ir1(1) by (simp add: preserves_def)
  ultimately show ?case by simp
qed

lemma scale_zero_operation:
  assumes wf: "wf_ir ir" and run: "scale_zero_pass ir = (ir', Inr changed)" and i: "i < length (ci_operations ir)"
  shows "io_operation (ci_operations ir' ! i) =
    (if is_scale_zero (io_operation (ci_operations ir ! i)) then ZerosLike
     else io_operation (ci_operations ir ! i))"
proof -
  from scale_zero.apply_total [OF wf, of "()"] obtain ir2 stats r2 where
    run2: "apply_rewrite scale_zero_rewrite () ir = (ir2, Inr (stats, r2))"
    and prod: "\<forall>i < length (ci_operations ir).
       produced scale_zero_rewrite (ci_operations ir ! i) (io_operation (ci_operations ir2 ! i))"
    by metis
  then have "ir2 = ir'"
    using run wf by (simp add: scale_zero_pass_def rewrite_pass_def verify_iff_wf)
  with prod i show ?thesis by (simp add: produced_scale_zero)
qed

lemma scale_zero_preserves:
  assumes "\<And>factor. as_f32_is factor f32_zero \<Longrightarrow> opsem (Scale factor) = opsem ZerosLike"
  shows "preserves opsem scale_zero_pass"
  using assms scale_zero_operation
  by (auto simp: preserves_def is_scale_zero_def split: operation.splits)

text \<open>Rewriting keeps the schedule, the memory plan, and the values.\<close>

lemma schedule_retype: "schedule_ok xs outs \<Longrightarrow> schedule_ok (retype xs ir) outs"
proof -
  have at: "ins_inputs (retype xs ir ! i) = ins_inputs (xs ! i)" "ins_id (retype xs ir ! i) = ins_id (xs ! i)"
    if "i < length xs" for i using that by simp_all
  assume "schedule_ok xs outs"
  then show "schedule_ok (retype xs ir) outs"
    unfolding schedule_ok_def by (simp add: at) (metis at(2) less_trans)
qed

lemma safe_retype:
  assumes safe: "plan_safe xs outs memory" and same: "\<forall>i < length xs.
      same_storage (io_operation (ci_operations ir ! i)) (ins_operation (xs ! i))"
  shows "plan_safe (retype xs ir) outs memory"
proof -
  let ?al = "mp_allocations memory"
  have len: "length ?al = length xs"
    using safe unfolding plan_safe_def Let_def by (metis length_map)
  have at: "i < length xs" if "slot_at ?al i s" for i s using that len by (simp add: slot_at_def)
  show ?thesis
    using safe same at unfolding plan_safe_def Let_def same_storage_def
    by (simp add: len)
qed

lemma valued_retype:
  assumes "valued opsem ext ty val xs"
    and "\<forall>i < length xs. opsem (io_operation (ci_operations ir ! i)) = opsem (ins_operation (xs ! i)) \<and>
      same_storage (io_operation (ci_operations ir ! i)) (ins_operation (xs ! i))"
  shows "valued opsem ext ty val (retype xs ir)"
  unfolding valued_def
proof (intro allI impI)
  fix i assume "i < length (retype xs ir)"
  then have i: "i < length xs" by simp
  with assms(2) have same: "same_storage (io_operation (ci_operations ir ! i)) (ins_operation (xs ! i))"
    and eq: "opsem (io_operation (ci_operations ir ! i)) = opsem (ins_operation (xs ! i))" by simp_all
  have "computed (io_operation (ci_operations ir ! i)) = computed (ins_operation (xs ! i))"
    unfolding computed_def by (rule same_storage_cases [OF same])
  with assms(1) eq i show "ins_output (retype xs ir ! i) = ty (ins_id (retype xs ir ! i)) \<and>
      val (ins_id (retype xs ir ! i)) =
       (if computed (ins_operation (retype xs ir ! i))
        then opsem (ins_operation (retype xs ir ! i)) (map ty (ins_inputs (retype xs ir ! i)))
               (ins_output (retype xs ir ! i)) (map val (ins_inputs (retype xs ir ! i)))
        else ext (ins_id (retype xs ir ! i)))"
    by (simp add: valued_def)
qed

section \<open>The whole pipeline\<close>

lemma map_err_comp: "map_err f (map_err g m) = map_err (\<lambda>e. f (g e)) m"
  by (cases "(g, m)" rule: map_err.cases) simp_all

lemma map_err_return: "try_bind (map_err f m) (\<lambda>x. Inr (h x)) = map_err f (try_bind m (\<lambda>x. Inr (h x)))"
  by (cases "(f, m)" rule: map_err.cases) simp_all

lemma compile_execution_plan_cases:
  assumes "compile g = Inr plan" and "length (graph_nodes g) \<le> u32_range" and "list_all pass_ok passes"
  obtains ir ir' stats p where "from_execution_plan plan = Inr ir" "wf_ir ir" "retyped ir ir'"
    "pass_manager_run passes ir = (ir', Inr stats)" "pm_passes_run stats = length passes"
    "ep_instructions p = retype (ep_instructions plan) ir'" "ep_outputs p = ep_outputs plan"
    "ep_memory p = ep_memory plan"
    "compile_execution_plan passes plan =
       map_err (\<lambda>e. PipelineLowering (IrLowering e))
         (try_bind (lower_plan p (derive_bindings p)) (\<lambda>lowered.
            Inr \<lparr>ct_compiler_ir = ir', ct_pass_stats = stats, ct_memory = ep_memory plan,
                 ct_lowered = lowered\<rparr>))"
proof -
  from compiled_program [OF assms] obtain ir ir' stats where ir: "from_execution_plan plan = Inr ir"
    "wf_ir ir" "wf_ir ir'" "retyped ir ir'"
    "run_passes_and_plan_memory passes ir = (ir', Inr (stats, ep_memory plan))"
    "pm_passes_run stats = length passes" "memory_from_compiler_ir ir' = Inr (ep_memory plan)" .
  from compiled_projection [OF assms(1,2) ir(1,4,3,7)] obtain p where
    p: "\<And>memory. projected_plan ir' memory = (if memory = ep_memory plan then Inr p else fail IncompatibleMemoryPlan)"
    "ep_instructions p = retype (ep_instructions plan) ir'" "ep_outputs p = ep_outputs plan"
    "ep_memory p = ep_memory plan" by blast
  have "lower_with_derived_bindings ir' (ep_memory plan) =
      map_err IrLowering (lower_plan p (derive_bindings p))"
    by (simp add: lower_with_derived_bindings_def p(1))
  then have "compile_execution_plan passes plan =
       map_err (\<lambda>e. PipelineLowering (IrLowering e))
         (try_bind (lower_plan p (derive_bindings p)) (\<lambda>lowered.
            Inr \<lparr>ct_compiler_ir = ir', ct_pass_stats = stats, ct_memory = ep_memory plan,
                 ct_lowered = lowered\<rparr>))"
    using ir by (simp add: compile_execution_plan_def map_err_comp map_err_return)
  moreover have "pass_manager_run passes ir = (ir', Inr stats)"
    using ir(5) by (auto simp: run_passes_and_plan_memory_def outcome_simps split: prod.splits sum.splits)
  ultimately show ?thesis using that ir p by blast
qed

text \<open>
  C9: the pipeline is correct end to end. For every graph the canonical compiler accepts and every
  list of structural passes that preserve the meaning of operations, the program the pipeline
  returns keeps the memory plan of the execution plan, and running it on any kernels that
  implement the operations yields the values of the graph.
\<close>

theorem pipeline_refines_graph:
  assumes "compile g = Inr plan" and "length (graph_nodes g) \<le> u32_range"
    and "list_all pass_ok passes" and "list_all (preserves opsem) passes" and "implements ksem opsem"
    and "compile_execution_plan passes plan = Inr prog"
  shows "ct_memory prog = ep_memory plan \<and> pm_passes_run (ct_pass_stats prog) = length passes \<and>
    run_lowered ksem (\<lambda>b. ext (eb_node (lp_bindings (ct_lowered prog) ! b))) (ct_lowered prog) =
      Some (map (\<lambda>n. Some (node_value opsem ext (graph_nodes g) n)) (graph_outputs g))"
proof -
  let ?xs = "ep_instructions plan" and ?ty = "type_of (graph_nodes g)" and ?val = "node_value opsem ext (graph_nodes g)"
  from compile_execution_plan_cases [OF assms(1-3)] obtain ir ir' stats p where
    ir: "from_execution_plan plan = Inr ir" "wf_ir ir" "retyped ir ir'"
      "pass_manager_run passes ir = (ir', Inr stats)" "pm_passes_run stats = length passes"
    and p: "ep_instructions p = retype ?xs ir'" "ep_outputs p = ep_outputs plan" "ep_memory p = ep_memory plan"
    and run: "compile_execution_plan passes plan =
       map_err (\<lambda>e. PipelineLowering (IrLowering e))
         (try_bind (lower_plan p (derive_bindings p)) (\<lambda>lowered.
            Inr \<lparr>ct_compiler_ir = ir', ct_pass_stats = stats, ct_memory = ep_memory plan,
                 ct_lowered = lowered\<rparr>))" .
  from assms(6) run obtain lp where lp: "lower_plan p (derive_bindings p) = Inr lp"
    and prog: "ct_memory prog = ep_memory plan" "ct_pass_stats prog = stats" "ct_lowered prog = lp"
    by (auto simp: outcome_simps)
  note built = conjunct1 [OF from_execution_plan_Inr [OF ir(1)]]
  then have oper: "io_operation (ci_operations ir ! i) = ins_operation (?xs ! i)" if "i < length ?xs" for i
    using that by (simp add: built_program_def imported_def)
  have len: "length (ci_operations ir) = length ?xs" using built by (simp add: built_program_def)
  have same: "\<forall>i < length ?xs. opsem (io_operation (ci_operations ir' ! i)) = opsem (ins_operation (?xs ! i)) \<and>
      same_storage (io_operation (ci_operations ir' ! i)) (ins_operation (?xs ! i))"
  proof (intro allI impI)
    fix i assume i: "i < length ?xs"
    have "run_passes passes \<lparr>pm_passes_run = 0, pm_passes_changed = 0\<rparr> ir = (ir', Inr stats)"
      using ir(2,4) by (simp add: pass_manager_run_def verify_iff_wf)
    from run_passes_preserve [OF assms(3,4) ir(2) this] i len oper ir(3)
    show "opsem (io_operation (ci_operations ir' ! i)) = opsem (ins_operation (?xs ! i)) \<and>
      same_storage (io_operation (ci_operations ir' ! i)) (ins_operation (?xs ! i))"
      by (simp add: retyped_def)
  qed
  note safe = compiled_safe [OF assms(1,2)]
  from lp obtain vals ids where vals: "collect_values p = Inr vals"
    "validate_bindings vals (derive_bindings p) = Inr ids"
    and ok: "lowered_ok vals ids (ep_instructions p) (lp_kernels lp, lp_instructions lp)"
    and outs: "traverse (lower_output vals ids) (ep_outputs p) = Inr (lp_outputs lp)"
    and binds: "lp_bindings lp = derive_bindings p"
    by (rule lower_plan_Inr)
  have "runnable (ep_instructions p) (ep_outputs p) (ep_memory p) (derive_bindings p) vals ids"
    using vals schedule_retype [OF safe(1)] safe_retype [OF safe(2)] same
    by (intro runnable_plan) (simp_all add: p)
  moreover have "valued opsem ext ?ty ?val (ep_instructions p)"
  proof -
    have "valued opsem ext ?ty ?val ?xs"
      using compiled_valued [OF _ assms(2)] compile_plan_schedule [OF assms(1,2)] by metis
    from valued_retype [OF this same] show ?thesis by (simp only: p(1))
  qed
  ultimately have "run_lowered ksem (\<lambda>b. ext (eb_node (derive_bindings p ! b))) lp =
      Some (map (\<lambda>n. Some (?val n)) (ep_outputs p))"
    using kernel_generator.run_lowered_values [OF implements_generator [OF assms(5)]] ok outs by blast
  with prog ir(5) binds p(2) safe(4) show ?thesis by simp
qed

text \<open>A concrete interpretation in which multiplying by a zero scalar gives zeros.\<close>

definition zero_kernels :: "string kernel_semantics" where
  "zero_kernels family tys out vs =
     (case family of
        ElementwiseUnary (ScaleKernel factor) \<Rightarrow> if as_f32_is factor f32_zero then ''0'' else ''scale '' @ concat vs
      | ElementwiseUnary ZerosLikeKernel \<Rightarrow> ''0''
      | ElementwiseUnary ReluKernel \<Rightarrow> ''relu '' @ concat vs
      | _ \<Rightarrow> concat vs)"

lemma zero_kernels_laws:
  "implements zero_kernels (direct_semantics zero_kernels)"
  "list_all (preserves (direct_semantics zero_kernels)) [scale_zero_pass]"
  using scale_zero_preserves [of "direct_semantics zero_kernels"]
  by (simp_all add: implements_def direct_semantics_def zero_kernels_def fun_eq_iff)

lemma scale_zero_structural: "list_all pass_ok [scale_zero_pass]"
  using scale_zero_step.keeps by simp

section \<open>When the pipeline succeeds\<close>

text \<open>
  an empty pipeline is the canonical path: it returns the execution plan's own memory plan and
  the lowering of the plan itself, or the error of that lowering.
\<close>

theorem empty_pipeline_agrees:
  assumes "compile g = Inr plan" and "length (graph_nodes g) \<le> u32_range"
  shows "\<exists>ir. from_execution_plan plan = Inr ir \<and>
    compile_execution_plan [] plan =
      map_err (\<lambda>e. PipelineLowering (IrLowering e))
        (try_bind (lower_plan plan (derive_bindings plan)) (\<lambda>lowered.
           Inr \<lparr>ct_compiler_ir = ir, ct_pass_stats = \<lparr>pm_passes_run = 0, pm_passes_changed = 0\<rparr>,
                ct_memory = ep_memory plan, ct_lowered = lowered\<rparr>))"
proof -
  have "list_all pass_ok []" by simp
  from compile_execution_plan_cases [OF assms this] obtain ir ir' stats p where
    ir: "from_execution_plan plan = Inr ir" "wf_ir ir" "retyped ir ir'"
      "pass_manager_run [] ir = (ir', Inr stats)" "pm_passes_run stats = length ([] :: compiler_pass list)"
    and p: "ep_instructions p = retype (ep_instructions plan) ir'" "ep_outputs p = ep_outputs plan"
      "ep_memory p = ep_memory plan"
    and run: "compile_execution_plan [] plan =
       map_err (\<lambda>e. PipelineLowering (IrLowering e))
         (try_bind (lower_plan p (derive_bindings p)) (\<lambda>lowered.
            Inr \<lparr>ct_compiler_ir = ir', ct_pass_stats = stats, ct_memory = ep_memory plan,
                 ct_lowered = lowered\<rparr>))" .
  have same: "ir' = ir" "stats = \<lparr>pm_passes_run = 0, pm_passes_changed = 0\<rparr>"
    using ir(2,4) by (simp_all add: pass_manager_run_def verify_iff_wf)
  then have "ep_instructions p = ep_instructions plan"
    using p(1) retype_same from_execution_plan_Inr [OF ir(1)] by metis
  from lower_plan_cong [OF this p(2,3)] run same ir(1) show ?thesis by simp
qed

theorem empty_pipeline_agrees_witness:
  "\<exists>prog. compile_execution_plan [] example_plan = Inr prog \<and> ct_memory prog = ep_memory example_plan \<and>
     map li_node (lp_instructions (ct_lowered prog)) = [1]"
proof -
  have "length (graph_nodes example_graph) \<le> u32_range" by (simp add: example_graph_def)
  from empty_pipeline_agrees [OF example_compiled this] example_plan_lowered show ?thesis by auto
qed

lemma op_typed_zeros:
  "is_scale_zero oper \<Longrightarrow> op_typed oper tys out \<Longrightarrow> op_typed ZerosLike tys out"
  "is_scale_zero oper \<Longrightarrow> expected_arity oper = expected_arity ZerosLike"
  "is_scale_zero oper \<Longrightarrow> family_of oper \<noteq> None \<and> computed oper"
  by (auto simp: is_scale_zero_def computed_def split: operation.splits)

lemma scale_zero_pipeline:
  assumes "compile g = Inr plan" and "length (graph_nodes g) \<le> u32_range"
    and "validate_semantics g = Inr ()"
  shows "case compile_execution_plan [scale_zero_pass] plan of
      Inr prog \<Rightarrow> (\<forall>x \<in> set (ep_instructions plan). computed (ins_operation x) \<longrightarrow> lowerable x) \<and>
        (\<forall>oper \<in> set (ci_operations (ct_compiler_ir prog)). \<not> is_scale_zero (io_operation oper))
    | Inl f \<Rightarrow> \<exists>x \<in> set (ep_instructions plan). computed (ins_operation x) \<and>
        (\<exists>e. f = Err (PipelineLowering (IrLowering e)) \<and> lowering_blocked x (Err e))"
proof -
  let ?xs = "ep_instructions plan" and ?ty = "type_of (graph_nodes g)"
  from compile_execution_plan_cases [OF assms(1,2) scale_zero_structural] obtain ir ir' stats p where
    ir: "from_execution_plan plan = Inr ir" "wf_ir ir" "retyped ir ir'"
      "pass_manager_run [scale_zero_pass] ir = (ir', Inr stats)"
      "pm_passes_run stats = length [scale_zero_pass]"
    and p: "ep_instructions p = retype ?xs ir'" "ep_outputs p = ep_outputs plan" "ep_memory p = ep_memory plan"
    and run: "compile_execution_plan [scale_zero_pass] plan =
       map_err (\<lambda>e. PipelineLowering (IrLowering e))
         (try_bind (lower_plan p (derive_bindings p)) (\<lambda>lowered.
            Inr \<lparr>ct_compiler_ir = ir', ct_pass_stats = stats, ct_memory = ep_memory plan,
                 ct_lowered = lowered\<rparr>))" .
  obtain changed where pass: "scale_zero_pass ir = (ir', Inr changed)"
    using ir(2,4) by (auto simp: pass_manager_run_def verify_iff_wf Let_def split: prod.splits sum.splits)
  note built = conjunct1 [OF from_execution_plan_Inr [OF ir(1)]]
  then have len: "length (ci_operations ir) = length ?xs" by (simp add: built_program_def)
  have new: "io_operation (ci_operations ir' ! i) =
      (if is_scale_zero (ins_operation (?xs ! i)) then ZerosLike else ins_operation (?xs ! i))"
    if "i < length ?xs" for i
  proof -
    have "io_operation (ci_operations ir ! i) = ins_operation (?xs ! i)"
      using built that by (simp add: built_program_def imported_def)
    with scale_zero_operation [OF ir(2) pass] that len show ?thesis by simp
  qed
  have len': "length (ci_operations ir') = length ?xs" using ir(3) len by (simp add: retyped_def rewritten_def)
  have none: "\<forall>oper \<in> set (ci_operations ir'). \<not> is_scale_zero (io_operation oper)"
  proof
    fix oper assume "oper \<in> set (ci_operations ir')"
    then obtain i where "i < length ?xs" "oper = ci_operations ir' ! i" using len' by (metis in_set_conv_nth)
    moreover have "\<not> is_scale_zero ZerosLike" by (simp add: is_scale_zero_def)
    ultimately show "\<not> is_scale_zero (io_operation oper)" using new by (simp split: if_split)
  qed
  note safe = compiled_safe [OF assms(1,2)]
  have same: "\<forall>i < length ?xs. same_storage (io_operation (ci_operations ir' ! i)) (ins_operation (?xs ! i))"
    using ir(3) built len by (simp add: retyped_def built_program_def imported_def)
  have sched: "schedule_ok (ep_instructions p) (ep_outputs p)" using schedule_retype [OF safe(1)] by (simp add: p)
  have plan: "plan_safe (ep_instructions p) (ep_outputs p) (ep_memory p)"
    using safe_retype [OF safe(2) same] by (simp add: p)
  have small: "length (ep_instructions p) \<le> u32_range" using safe(3) by (simp add: p)
  have "instruction_typed ?ty (retype ?xs ir' ! i)" if "i < length ?xs" for i
    using compiled_typed [OF assms nth_mem [OF that]] that op_typed_zeros
    by (auto simp: instruction_typed_def new)
  then have "\<forall>x \<in> set (ep_instructions p). instruction_typed ?ty x"
    by (metis (no_types, lifting) in_set_conv_nth p(1) retype_nth(1))
  note low = lower_typed_plan [OF sched plan small this]
  have blocked: "computed (ins_operation (?xs ! i)) \<and> lowering_blocked (?xs ! i) f \<longleftrightarrow>
      computed (ins_operation (retype ?xs ir' ! i)) \<and> lowering_blocked (retype ?xs ir' ! i) f"
    "computed (ins_operation (?xs ! i)) \<longrightarrow> lowerable (?xs ! i) \<longleftrightarrow>
      computed (ins_operation (retype ?xs ir' ! i)) \<longrightarrow> lowerable (retype ?xs ir' ! i)"
    if "i < length ?xs" for i f
    using that op_typed_zeros(3) [of "ins_operation (?xs ! i)"]
    by (auto simp: new lowering_blocked_def lowerable_def computed_def)
  show ?thesis
  proof (cases "lower_plan p (derive_bindings p)")
    case (Inr lp)
    with low have "\<forall>x \<in> set (retype ?xs ir'). computed (ins_operation x) \<longrightarrow> lowerable x" by (simp add: p)
    then have "\<forall>x \<in> set ?xs. computed (ins_operation x) \<longrightarrow> lowerable x"
      using blocked(2) by (metis (no_types, lifting) in_set_conv_nth retype_nth(1))
    with Inr none run show ?thesis by simp
  next
    case (Inl f)
    with low obtain x where "x \<in> set (retype ?xs ir')" "computed (ins_operation x)" "lowering_blocked x f"
      by (auto simp: p)
    then have "\<exists>x \<in> set ?xs. computed (ins_operation x) \<and> lowering_blocked x f"
      using blocked(1) by (metis (no_types, lifting) in_set_conv_nth retype_nth(1))
    moreover from this obtain e where "f = Err e" by (auto simp: lowering_blocked_def)
    ultimately show ?thesis using Inl run by auto
  qed
qed

text \<open>
  C16: on a compiled, well-typed graph the pipeline with the zero-scaling pass terminates with a
  program exactly when every computed instruction has a kernel family and a representable
  iteration space; then no multiplication by a zero scalar is left in the program. Otherwise
  it reports the lowering error of such an instruction, and no other error.
\<close>

theorem scale_zero_pipeline_decides:
  assumes "compile g = Inr plan" and "length (graph_nodes g) \<le> u32_range"
    and "validate_semantics g = Inr ()"
  shows "case compile_execution_plan [scale_zero_pass] plan of
      Inr prog \<Rightarrow> (\<forall>x \<in> set (ep_instructions plan). computed (ins_operation x) \<longrightarrow> lowerable x) \<and>
        (\<forall>oper \<in> set (ci_operations (ct_compiler_ir prog)). \<not> is_scale_zero (io_operation oper))
    | Inl f \<Rightarrow> \<exists>x \<in> set (ep_instructions plan). computed (ins_operation x) \<and>
        (\<exists>e. f = Err (PipelineLowering (IrLowering e)) \<and> lowering_blocked x (Err e))"
  by (rule scale_zero_pipeline [OF assms])

text \<open>A scaled input, compiled: the multiplication by zero becomes a zero kernel.\<close>

definition example_zero :: graph where
  "example_zero =
     \<lparr>graph_nodes = [mk_node (Input ''x'') [], mk_node (Scale (scalar_f32 f32_zero)) [0]], graph_outputs = [1]\<rparr>"

lemma example_zero_valid: "validate example_zero = Inr ()" "validate_semantics example_zero = Inr ()"
  "length (graph_nodes example_zero) \<le> u32_range"
proof -
  have "wf_graph example_zero"
    by (simp add: example_zero_def wf_graph_def nodes_ok_def node_ok_def mk_node_def all_less_Suc)
  moreover have "typed_graph example_zero"
    by (simp add: example_zero_def typed_graph_def node_typed_def mk_node_def type_of_def
        scalar_f32_def matrix_type_def tensor_type_new_def)
  ultimately show "validate example_zero = Inr ()" "validate_semantics example_zero = Inr ()"
    "length (graph_nodes example_zero) \<le> u32_range"
    by (simp_all add: validate_iff_wf validate_semantics_iff_typed) (simp add: example_zero_def)
qed

lemma example_zero_low:
  obtains plan where "compile example_zero = Inr plan"
    "\<forall>x \<in> set (ep_instructions plan). computed (ins_operation x) \<longrightarrow> lowerable x"
proof -
  have wf: "wf_graph example_zero" using example_zero_valid(1) by (simp add: validate_iff_wf)
  have "graph_outputs example_zero \<noteq> []" by (simp add: example_zero_def)
  from compile_run [OF wf this example_zero_valid(3)] obtain plan where plan: "compile example_zero = Inr plan"
    and xs: "ep_instructions plan = map (instruction_of (graph_nodes example_zero)) (needed_list example_zero)"
    by blast
  have elements: "checked_num_elements [2, 2] = Inr 4" by (simp add: checked_num_elements_def)
  have "lowerable (instruction_of (graph_nodes example_zero) k)"
    if "k < 2" "computed (ins_operation (instruction_of (graph_nodes example_zero) k))" for k
    using that elements
    by (cases k) (auto simp: example_zero_def mk_node_def instruction_of_def to_instruction_def computed_def
        lowerable_def matrix_type_def tensor_type_new_def)
  then have "\<forall>x \<in> set (ep_instructions plan). computed (ins_operation x) \<longrightarrow> lowerable x"
    by (auto simp: xs needed_list_def example_zero_def)
  with plan that show ?thesis by blast
qed

lemma lowerable_not_blocked: "lowerable x \<Longrightarrow> \<not> lowering_blocked x f"
  by (auto simp: lowerable_def lowering_blocked_def)

theorem scale_zero_pipeline_decides_witness:
  "\<exists>plan prog. compile example_zero = Inr plan \<and>
     compile_execution_plan [scale_zero_pass] plan = Inr prog \<and>
     (\<forall>oper \<in> set (ci_operations (ct_compiler_ir prog)). \<not> is_scale_zero (io_operation oper))"
proof -
  obtain plan where plan: "compile example_zero = Inr plan"
    and low: "\<forall>x \<in> set (ep_instructions plan). computed (ins_operation x) \<longrightarrow> lowerable x"
    by (rule example_zero_low)
  note decides = scale_zero_pipeline_decides [OF plan example_zero_valid(3,2)]
  then obtain prog where "compile_execution_plan [scale_zero_pass] plan = Inr prog"
    using low lowerable_not_blocked by (cases "compile_execution_plan [scale_zero_pass] plan") auto
  with plan decides show ?thesis by auto
qed

theorem pipeline_refines_graph_witness:
  "\<exists>plan prog. compile example_zero = Inr plan \<and>
     compile_execution_plan [scale_zero_pass] plan = Inr prog \<and>
     run_lowered zero_kernels (\<lambda>b. ''x'') (ct_lowered prog) = Some [Some ''0'']"
proof -
  obtain plan where plan: "compile example_zero = Inr plan"
    and low: "\<forall>x \<in> set (ep_instructions plan). computed (ins_operation x) \<longrightarrow> lowerable x"
    by (rule example_zero_low)
  then obtain prog where prog: "compile_execution_plan [scale_zero_pass] plan = Inr prog"
    using scale_zero_pipeline [OF plan example_zero_valid(3,2)] lowerable_not_blocked
    by (cases "compile_execution_plan [scale_zero_pass] plan") auto
  have "node_value (direct_semantics zero_kernels) (\<lambda>_. ''x'') (graph_nodes example_zero) 1 = ''0''"
    by (simp add: node_value.simps example_zero_def mk_node_def computed_def direct_semantics_def
        zero_kernels_def as_f32_is_def f32_eq_def f32_is_nan_def)
  moreover have "graph_outputs example_zero = [1]" by (simp add: example_zero_def)
  ultimately show ?thesis
    using pipeline_refines_graph [OF plan example_zero_valid(3) scale_zero_structural zero_kernels_laws(2,1) prog,
        of "\<lambda>_. ''x''"] plan prog by simp
qed

end
