(* ===== verification/Graph_Session.thy ===== *)
theory Graph_Session
  imports Plan_Runtime Compiler_Pipeline
begin

text \<open>
  Graph sessions (\<open>graph_session.rs\<close> of \<open>scirust-tensor-runtime\<close>, errors in \<open>error.rs\<close>): a graph is
  compiled, lowered and prepared once, its constants are validated and kept, and it is executed over
  inputs named by node as often as wanted. The arms for external kinds that the non-exhaustive
  enumeration does not have yet are not modelled.
\<close>

section \<open>Metadata and errors\<close>

record graph_input_spec =
  gi_node :: node_id
  gi_tensor_type :: tensor_type

record graph_constant_spec =
  gc_node :: node_id
  gc_constant :: constant_id
  gc_tensor_type :: tensor_type

record graph_output_spec =
  go_node :: node_id
  go_tensor_type :: tensor_type

type_synonym graph_inputs = "(node_id \<times> element list) list"
type_synonym graph_constants = "(constant_id \<times> element list) list"

datatype 'e session_prep_error =
    GraphCompilation compile_error
  | SessionKernelLowering lowering_error
  | SessionCompilerPipeline pipeline_error
  | PlanPreparation "'e prep_error"
  | UnknownExternalNode node_id
  | SessionKindMismatch node_id external_value_kind external_value_kind
  | UnsupportedInputDType node_id dtype
  | UnsupportedConstantDType node_id dtype
  | InputSizeOverflow node_id
  | ConstantSizeOverflow node_id
  | MissingConstantPayload node_id constant_id
  | UnexpectedConstantPayload constant_id
  | DuplicateConstantPayload constant_id
  | ConstantLengthMismatch node_id constant_id usize usize
  | PreparedExternalCountMismatch usize usize
  | PreparedExternalMismatch binding_id node_id
  | UnknownOutputNode node_id
  | SessionOutputCountMismatch usize usize
  | OutputNodeMismatch usize node_id node_id
  | OutputTypeMismatch usize node_id tensor_type tensor_type

datatype 'e session_exec_error =
    SessionMissingInput node_id
  | SessionUnexpectedInput node_id
  | SessionDuplicateInput node_id
  | InputLengthMismatch node_id usize usize
  | UnresolvedConstantPayload binding_id
  | PlanExecution "'e exec_error"

section \<open>The session\<close>

record constant_payload =
  cp_constant :: constant_id
  cp_values :: "element list"

record prepared_constant_binding =
  pc_binding :: binding_id
  pc_payload_index :: usize

record ('s, 'b, 'k, 't, 'v, 'e) graph_session =
  gs_runtime :: "('s, 'b, 'k, 't, 'v, 'e) backend"
  gs_prepared :: "'k prepared_plan"
  gs_inputs :: "graph_input_spec list"
  gs_input_bindings :: "binding_id list"
  gs_input_lengths :: "usize list"
  gs_constants :: "graph_constant_spec list"
  gs_constant_bindings :: "prepared_constant_binding list"
  gs_payloads :: "constant_payload list"
  gs_outputs :: "graph_output_spec list"

section \<open>Resolving the binding table\<close>

record constant_binding =
  cb_binding :: binding_id
  cb_node :: node_id
  cb_constant :: constant_id
  cb_elements :: usize

record resolved_bindings =
  rb_external_types :: "(node_id \<times> tensor_type) list"
  rb_kinds :: "external_value_kind list"
  rb_inputs :: "graph_input_spec list"
  rb_input_bindings :: "binding_id list"
  rb_input_lengths :: "usize list"
  rb_constants :: "graph_constant_spec list"
  rb_constant_bindings :: "constant_binding list"

definition resolve_binding ::
  "graph \<Rightarrow> resolved_bindings \<Rightarrow> usize \<times> external_binding \<Rightarrow> ('e session_prep_error, resolved_bindings) outcome" where
  "resolve_binding g resolved p = (case p of (index, entry) \<Rightarrow>
     (let n = eb_node entry; binding = index_as_u32 index in
      try_bind (ok_or (UnknownExternalNode n) (get (graph_nodes g) n)) (\<lambda>graph_node.
      let ty = node_output graph_node;
          resolved = resolved\<lparr>rb_external_types := rb_external_types resolved @ [(n, ty)],
                              rb_kinds := rb_kinds resolved @ [eb_kind entry]\<rparr> in
      case node_operation graph_node of
        Input name \<Rightarrow>
          if eb_kind entry \<noteq> InputKind then fail (SessionKindMismatch n InputKind (eb_kind entry))
          else if ty_dtype ty \<noteq> F32 then fail (UnsupportedInputDType n (ty_dtype ty))
          else
            try_bind (map_err (\<lambda>_. InputSizeOverflow n) (checked_num_elements (ty_shape ty))) (\<lambda>elements.
            Inr (resolved\<lparr>rb_inputs := rb_inputs resolved @ [\<lparr>gi_node = n, gi_tensor_type = ty\<rparr>],
                          rb_input_bindings := rb_input_bindings resolved @ [binding],
                          rb_input_lengths := rb_input_lengths resolved @ [elements]\<rparr>))
      | Constant c \<Rightarrow>
          if eb_kind entry \<noteq> ConstantKind then fail (SessionKindMismatch n ConstantKind (eb_kind entry))
          else if ty_dtype ty \<noteq> F32 then fail (UnsupportedConstantDType n (ty_dtype ty))
          else
            try_bind (map_err (\<lambda>_. ConstantSizeOverflow n) (checked_num_elements (ty_shape ty))) (\<lambda>elements.
            Inr (resolved\<lparr>rb_constants := rb_constants resolved @ [\<lparr>gc_node = n, gc_constant = c, gc_tensor_type = ty\<rparr>],
                          rb_constant_bindings := rb_constant_bindings resolved @
                            [\<lparr>cb_binding = binding, cb_node = n, cb_constant = c, cb_elements = elements\<rparr>]\<rparr>))
      | _ \<Rightarrow> fail (UnknownExternalNode n))))"

definition session_resolve_bindings ::
  "graph \<Rightarrow> lowered_plan \<Rightarrow> ('e session_prep_error, resolved_bindings) outcome" where
  "session_resolve_bindings g lowered =
     try_fold (resolve_binding g)
       \<lparr>rb_external_types = [], rb_kinds = [], rb_inputs = [], rb_input_bindings = [], rb_input_lengths = [],
        rb_constants = [], rb_constant_bindings = []\<rparr>
       (enumerate 0 (lp_bindings lowered))"

section \<open>Constants\<close>

definition note_constant :: "constant_id list \<Rightarrow> node \<Rightarrow> constant_id list" where
  "note_constant referenced n =
     (case node_operation n of
        Constant c \<Rightarrow> if c \<in> set referenced then referenced else referenced @ [c]
      | _ \<Rightarrow> referenced)"

definition referenced_constants :: "graph \<Rightarrow> constant_id list" where
  "referenced_constants g = foldl note_constant [] (graph_nodes g)"

definition note_unexpected ::
  "constant_id list \<Rightarrow> constant_id option \<Rightarrow> constant_id \<times> element list \<Rightarrow> constant_id option" where
  "note_unexpected referenced unexpected p = (case p of (constant, _) \<Rightarrow>
     if constant \<notin> set referenced then
       Some (case unexpected of
               Some smallest \<Rightarrow> if smallest \<le> constant then smallest else constant
             | None \<Rightarrow> constant)
     else unexpected)"

definition check_duplicate :: "graph_constants \<Rightarrow> constant_id \<Rightarrow> ('e session_prep_error, unit) outcome" where
  "check_duplicate constants constant =
     (let supplied = length (filter (\<lambda>(id, _). id = constant) constants) in
      if supplied > 1 then fail (DuplicateConstantPayload constant) else Inr ())"

definition resolve_constant ::
  "graph_constants \<Rightarrow> constant_payload list \<times> prepared_constant_binding list \<Rightarrow> constant_binding
     \<Rightarrow> ('e session_prep_error, constant_payload list \<times> prepared_constant_binding list) outcome" where
  "resolve_constant constants st entry = (case st of (payloads, prepared) \<Rightarrow>
     try_bind (ok_or (MissingConstantPayload (cb_node entry) (cb_constant entry))
                 (map_option snd (List.find (\<lambda>(id, _). id = cb_constant entry) constants))) (\<lambda>vs.
     if length vs \<noteq> cb_elements entry
     then fail (ConstantLengthMismatch (cb_node entry) (cb_constant entry) (cb_elements entry) (length vs))
     else
       (let (payload_index, payloads) =
          (case find_position (\<lambda>payload. cp_constant payload = cb_constant entry) payloads of
             Some index \<Rightarrow> (index, payloads)
           | None \<Rightarrow>
               (let payloads = payloads @ [\<lparr>cp_constant = cb_constant entry, cp_values = vs\<rparr>] in
                (length payloads - 1, payloads))) in
        Inr (payloads, prepared @ [\<lparr>pc_binding = cb_binding entry, pc_payload_index = payload_index\<rparr>]))))"

definition resolve_constants ::
  "graph \<Rightarrow> resolved_bindings \<Rightarrow> graph_constants
     \<Rightarrow> ('e session_prep_error, constant_payload list \<times> prepared_constant_binding list) outcome" where
  "resolve_constants g resolved constants =
     (let referenced = referenced_constants g in
      case foldl (note_unexpected referenced) None constants of
        Some constant \<Rightarrow> fail (UnexpectedConstantPayload constant)
      | None \<Rightarrow>
          try_bind (for_each (check_duplicate constants) referenced) (\<lambda>_.
          try_fold (resolve_constant constants) ([], []) (rb_constant_bindings resolved)))"

section \<open>Confronting the prepared plan with the graph\<close>

definition check_prepared_external ::
  "usize \<times> ((external_value_spec \<times> node_id \<times> tensor_type) \<times> external_value_kind)
     \<Rightarrow> ('e session_prep_error, unit) outcome" where
  "check_prepared_external p = (case p of (index, ((specification, n, ty), kind)) \<Rightarrow>
     (let binding = index_as_u32 index in
      if ev_binding specification \<noteq> binding \<or> ev_node specification \<noteq> n \<or>
         ev_kind specification \<noteq> kind \<or> ev_tensor_type specification \<noteq> ty
      then fail (PreparedExternalMismatch binding n)
      else Inr ()))"

definition check_prepared_externals ::
  "'k prepared_plan \<Rightarrow> resolved_bindings \<Rightarrow> ('e session_prep_error, unit) outcome" where
  "check_prepared_externals prepared resolved =
     (let specifications = pr_externals prepared in
      if length specifications \<noteq> length (rb_external_types resolved)
      then fail (PreparedExternalCountMismatch (length (rb_external_types resolved)) (length specifications))
      else for_each check_prepared_external
             (enumerate 0 (zip (zip specifications (rb_external_types resolved)) (rb_kinds resolved))))"

definition session_output ::
  "graph \<Rightarrow> usize \<times> (node_id \<times> prepared_output) \<Rightarrow> ('e session_prep_error, graph_output_spec) outcome" where
  "session_output g p = (case p of (index, (n, out)) \<Rightarrow>
     (let specification = po_spec out in
      if os_node specification \<noteq> n then fail (OutputNodeMismatch index n (os_node specification))
      else
        try_bind (ok_or (UnknownOutputNode n) (map_option node_output (get (graph_nodes g) n))) (\<lambda>ty.
        if ty \<noteq> os_tensor_type specification
        then fail (OutputTypeMismatch index n ty (os_tensor_type specification))
        else Inr \<lparr>go_node = n, go_tensor_type = ty\<rparr>)))"

definition session_resolve_outputs ::
  "graph \<Rightarrow> 'k prepared_plan \<Rightarrow> ('e session_prep_error, graph_output_spec list) outcome" where
  "session_resolve_outputs g prepared =
     (let declared = graph_outputs g; produced = pr_outputs prepared in
      if length declared \<noteq> length produced
      then fail (SessionOutputCountMismatch (length declared) (length produced))
      else traverse (session_output g) (enumerate 0 (zip declared produced)))"

section \<open>Preparation\<close>

definition session_prepare_with_pipeline ::
  "('s, 'b, 'k, 't, 'v, 'e) backend \<Rightarrow> graph \<Rightarrow> graph_constants \<Rightarrow> compiler_pass list
     \<Rightarrow> ('s, 'e session_prep_error, ('s, 'b, 'k, 't, 'v, 'e) graph_session) action" where
  "session_prepare_with_pipeline B g constants passes =
     act_bind (act_lift (map_err GraphCompilation (compile g))) (\<lambda>execution_plan.
     act_bind (act_lift (map_err SessionCompilerPipeline (compile_execution_plan passes execution_plan))) (\<lambda>compiled.
     let lowered = ct_lowered compiled in
     act_bind (act_lift (session_resolve_bindings g lowered)) (\<lambda>resolved.
     act_bind (act_lift (resolve_constants g resolved constants)) (\<lambda>(payloads, constant_bindings).
     act_bind (act_map_err PlanPreparation (prepare_with_external_types B lowered (rb_external_types resolved))) (\<lambda>prepared.
     act_bind (act_lift (check_prepared_externals prepared resolved)) (\<lambda>_.
     act_bind (act_lift (session_resolve_outputs g prepared)) (\<lambda>outputs.
     act_return
       \<lparr>gs_runtime = B, gs_prepared = prepared, gs_inputs = rb_inputs resolved,
        gs_input_bindings = rb_input_bindings resolved, gs_input_lengths = rb_input_lengths resolved,
        gs_constants = rb_constants resolved, gs_constant_bindings = constant_bindings, gs_payloads = payloads,
        gs_outputs = outputs\<rparr>)))))))"

definition session_prepare ::
  "('s, 'b, 'k, 't, 'v, 'e) backend \<Rightarrow> graph \<Rightarrow> graph_constants
     \<Rightarrow> ('s, 'e session_prep_error, ('s, 'b, 'k, 't, 'v, 'e) graph_session) action" where
  "session_prepare B g constants = session_prepare_with_pipeline B g constants []"

section \<open>Execution\<close>

definition place_input ::
  "graph_input_spec list \<Rightarrow> element list option list \<Rightarrow> node_id \<times> element list
     \<Rightarrow> ('e session_exec_error, element list option list) outcome" where
  "place_input specs slots p = (case p of (n, v) \<Rightarrow>
     try_bind (ok_or (SessionUnexpectedInput n) (find_position (\<lambda>spec. gi_node spec = n) specs)) (\<lambda>position.
     case get slots position of
       Some entry \<Rightarrow> if entry \<noteq> None then fail (SessionDuplicateInput n) else Inr (slots[position := Some v])
     | None \<Rightarrow> fail (SessionUnexpectedInput n)))"

definition resolve_input ::
  "(graph_input_spec \<times> usize) \<times> element list option \<Rightarrow> ('e session_exec_error, element list) outcome" where
  "resolve_input p = (case p of ((spec, expected), entry) \<Rightarrow>
     try_bind (ok_or (SessionMissingInput (gi_node spec)) entry) (\<lambda>v.
     if length v \<noteq> expected then fail (InputLengthMismatch (gi_node spec) expected (length v)) else Inr v))"

definition session_resolve_inputs ::
  "('s, 'b, 'k, 't, 'v, 'e) graph_session \<Rightarrow> graph_inputs \<Rightarrow> ('e session_exec_error, element list list) outcome" where
  "session_resolve_inputs ses inputs =
     try_bind (try_fold (place_input (gs_inputs ses)) (replicate (length (gs_inputs ses)) None) inputs) (\<lambda>slots.
     traverse resolve_input (zip (zip (gs_inputs ses) (gs_input_lengths ses)) slots))"

definition inject_constant ::
  "constant_payload list \<Rightarrow> external_entries \<Rightarrow> prepared_constant_binding
     \<Rightarrow> ('e session_exec_error, external_entries) outcome" where
  "inject_constant payloads entries entry =
     try_bind (ok_or (UnresolvedConstantPayload (pc_binding entry)) (get payloads (pc_payload_index entry))) (\<lambda>payload.
     Inr (entries @ [(pc_binding entry, cp_values payload)]))"

definition session_execute ::
  "('s, 'b, 'k, 't, 'v, 'e) graph_session \<Rightarrow> graph_inputs
     \<Rightarrow> ('s, 'e session_exec_error, plan_output_value list) action" where
  "session_execute ses inputs =
     act_bind (act_lift (session_resolve_inputs ses inputs)) (\<lambda>supplied.
     act_bind (act_lift
        (let entries = map (\<lambda>((binding, v), _). (binding, v))
               (zip (zip (gs_input_bindings ses) supplied) (gs_input_lengths ses)) in
         try_fold (inject_constant (gs_payloads ses)) entries (gs_constant_bindings ses))) (\<lambda>entries.
     act_map_err PlanExecution (runtime_execute (gs_runtime ses) (gs_prepared ses) entries)))"

end
