(* ===== verification/Canonical_Program.thy ===== *)
theory Canonical_Program
  imports Tensor_Nd Graph_Session
begin

text \<open>
  The canonical front end (\<open>canonical.rs\<close> of \<open>scirust-tensor-runtime\<close>, errors in \<open>error.rs\<close>): a program is
  built with opaque handles, prepared once on a backend, and executed over dense tensors. Methods on
  \<open>&mut self\<close> are actions on the program, written statement by statement; on a 64-bit target the
  conversions from \<open>usize\<close> to \<open>u64\<close> cannot fail.
\<close>

section \<open>Handles and errors\<close>

datatype canonical_value = CanonicalValue (value_node: node_id)

datatype canonical_input = CanonicalInput (input_node: node_id)

definition input_value :: "canonical_input \<Rightarrow> canonical_value" where
  "input_value input = CanonicalValue (input_node input)"

datatype build_error =
    ForeignValue canonical_value
  | DuplicateInputName string
  | BuildShapeOverflow shape
  | BuildShapeMismatch shape shape
  | ElementCountMismatch usize usize
  | BuildInvalidPermutation "usize list" usize
  | NonContiguousTensor shape usize
  | BuildNoOutputs
  | GraphConstruction graph_error

datatype 'e canonical_prep_error =
    CanonicalNoOutputs
  | GraphOutputs graph_error
  | UnknownSessionInput canonical_input
  | CanonicalOutputCountMismatch usize usize
  | GraphSessionPreparation "'e session_prep_error"

datatype 'e canonical_exec_error =
    CanonicalMissingInput canonical_input string
  | CanonicalUnexpectedInput canonical_input
  | CanonicalDuplicateInput canonical_input
  | InputShapeMismatch canonical_input string shape shape
  | NonContiguousInput canonical_input string shape usize
  | OutputConstruction shape usize
  | GraphSessionExecution "'e session_exec_error"

record canonical_input_spec =
  ci_input :: canonical_input
  ci_name :: string
  ci_shape :: shape

record canonical_output_spec =
  co_value :: canonical_value
  co_shape :: shape

type_synonym canonical_inputs = "(canonical_input \<times> tensor_nd) list"

definition canonical_bind :: "canonical_inputs \<Rightarrow> canonical_input \<Rightarrow> tensor_nd \<Rightarrow> canonical_inputs" where
  "canonical_bind inputs input t = inputs @ [(input, t)]"

section \<open>Shared helpers\<close>

definition f32_tensor :: "shape \<Rightarrow> tensor_type" where
  "f32_tensor sh = tensor_type_new F32 sh"

definition canonical_elements :: "shape \<Rightarrow> usize option" where
  "canonical_elements sh = foldl multiply_dimension (Some 1) sh"

definition canonical_stride_step :: "shape \<Rightarrow> usize list \<Rightarrow> nat \<Rightarrow> (unit, usize list) outcome" where
  "canonical_stride_step sh strides axis =
     try_bind (ok_or () (get strides (axis + 1))) (\<lambda>nxt.
     try_bind (ok_or () (get sh (axis + 1))) (\<lambda>dimension.
     try_bind (ok_or () (checked_mul nxt dimension)) (\<lambda>stride.
     if axis < length strides then Inr (strides[axis := stride]) else fail ())))"

text \<open>\<open>row_major_strides\<close>, with \<open>None\<close> as the error \<open>()\<close>\<close>

definition canonical_strides :: "shape \<Rightarrow> (unit, usize list) outcome" where
  "canonical_strides sh =
     (let rank = length sh; strides = replicate rank 1 in
      if rank \<le> 1 then Inr strides
      else try_fold (canonical_stride_step sh) strides (rev [0..<rank - 1]))"

datatype layout_fault = LayoutOverflow | NotDense

definition dense_layout :: "tensor_nd \<Rightarrow> (layout_fault, unit) outcome" where
  "dense_layout t =
     try_bind (ok_or LayoutOverflow (canonical_elements (nd_shape t))) (\<lambda>elements.
     try_bind (map_err (\<lambda>_. LayoutOverflow) (canonical_strides (nd_shape t))) (\<lambda>strides.
     if length (nd_data t) \<noteq> elements \<or> nd_strides t \<noteq> strides then fail NotDense else Inr ()))"

section \<open>Programs\<close>

record declared_input =
  di_input :: canonical_input
  di_name :: string

record canonical_program =
  pg_graph :: graph
  pg_shapes :: "shape list"
  pg_inputs :: "declared_input list"
  pg_constants :: "tensor_nd list"
  pg_outputs :: "canonical_value list"

definition program_new :: canonical_program where
  "program_new = \<lparr>pg_graph = graph_new, pg_shapes = [], pg_inputs = [], pg_constants = [], pg_outputs = []\<rparr>"

type_synonym 'a build = "(canonical_program, build_error, 'a) action"

text \<open>Reading the program, calling a method of its graph, and pushing on its vectors.\<close>

definition program_read :: "(canonical_program \<Rightarrow> (build_error, 'a) outcome) \<Rightarrow> 'a build" where
  "program_read f p = (p, f p)"

definition graph_call :: "(graph \<Rightarrow> (graph_error, graph \<times> node_id) outcome) \<Rightarrow> node_id build" where
  "graph_call f p =
     (case f (pg_graph p) of
        Inl e \<Rightarrow> (p, map_err GraphConstruction (Inl e))
      | Inr (g, n) \<Rightarrow> (p\<lparr>pg_graph := g\<rparr>, Inr n))"

definition program_modify :: "(canonical_program \<Rightarrow> canonical_program) \<Rightarrow> unit build" where
  "program_modify f p = (f p, Inr ())"

definition push_shape :: "shape \<Rightarrow> unit build" where
  "push_shape sh = program_modify (\<lambda>p. p\<lparr>pg_shapes := pg_shapes p @ [sh]\<rparr>)"

definition program_input :: "string \<Rightarrow> shape \<Rightarrow> canonical_input build" where
  "program_input name sh =
     act_bind (program_read (\<lambda>p. require (\<not> (\<exists>declared \<in> set (pg_inputs p). di_name declared = name)) (DuplicateInputName name))) (\<lambda>_.
     act_bind (act_lift (ok_or (BuildShapeOverflow sh) (canonical_elements sh))) (\<lambda>_.
     act_bind (graph_call (\<lambda>g. add_input g name (f32_tensor sh))) (\<lambda>n.
     let input = CanonicalInput n in
     act_bind (push_shape sh) (\<lambda>_.
     act_bind (program_modify (\<lambda>p. p\<lparr>pg_inputs := pg_inputs p @ [\<lparr>di_input = input, di_name = name\<rparr>]\<rparr>)) (\<lambda>_.
     act_return input)))))"

fun constant_fault :: "tensor_nd \<Rightarrow> layout_fault \<Rightarrow> build_error" where
  "constant_fault t LayoutOverflow = BuildShapeOverflow (nd_shape t)"
| "constant_fault t NotDense = NonContiguousTensor (nd_shape t) (length (nd_data t))"

definition program_constant :: "tensor_nd \<Rightarrow> canonical_value build" where
  "program_constant t =
     act_bind (act_lift (map_err (constant_fault t) (dense_layout t))) (\<lambda>_.
     act_bind (program_read (\<lambda>p. Inr (length (pg_constants p)))) (\<lambda>raw.
     let sh = nd_shape t in
     act_bind (graph_call (\<lambda>g. add_constant g raw (f32_tensor sh))) (\<lambda>n.
     act_bind (push_shape sh) (\<lambda>_.
     act_bind (program_modify (\<lambda>p. p\<lparr>pg_constants := pg_constants p @ [t]\<rparr>)) (\<lambda>_.
     act_return (CanonicalValue n))))))"

definition shape_of :: "canonical_program \<Rightarrow> canonical_value \<Rightarrow> (build_error, shape) outcome" where
  "shape_of p v = ok_or (ForeignValue v) (get (pg_shapes p) (value_node v))"

definition program_push :: "operation \<Rightarrow> node_id list \<Rightarrow> shape \<Rightarrow> canonical_value build" where
  "program_push oper ins sh =
     act_bind (graph_call (\<lambda>g. add_node g oper ins (f32_tensor sh))) (\<lambda>n.
     act_bind (push_shape sh) (\<lambda>_.
     act_return (CanonicalValue n)))"

definition program_binary :: "operation \<Rightarrow> canonical_value \<Rightarrow> canonical_value \<Rightarrow> canonical_value build" where
  "program_binary oper lhs rhs =
     act_bind (program_read (\<lambda>p. shape_of p lhs)) (\<lambda>left.
     act_bind (program_read (\<lambda>p. shape_of p rhs)) (\<lambda>right.
     if left \<noteq> right then act_lift (fail (BuildShapeMismatch left right))
     else program_push oper [value_node lhs, value_node rhs] left))"

definition program_add :: "canonical_value \<Rightarrow> canonical_value \<Rightarrow> canonical_value build" where
  "program_add lhs rhs = program_binary Add lhs rhs"

definition program_sub :: "canonical_value \<Rightarrow> canonical_value \<Rightarrow> canonical_value build" where
  "program_sub lhs rhs = program_binary Sub lhs rhs"

definition program_mul :: "canonical_value \<Rightarrow> canonical_value \<Rightarrow> canonical_value build" where
  "program_mul lhs rhs = program_binary Mul lhs rhs"

definition program_div :: "canonical_value \<Rightarrow> canonical_value \<Rightarrow> canonical_value build" where
  "program_div lhs rhs = program_binary Div lhs rhs"

definition program_relu :: "canonical_value \<Rightarrow> canonical_value build" where
  "program_relu v =
     act_bind (program_read (\<lambda>p. shape_of p v)) (\<lambda>sh.
     program_push Relu [value_node v] sh)"

definition program_scale :: "canonical_value \<Rightarrow> f32 \<Rightarrow> canonical_value build" where
  "program_scale v factor =
     act_bind (program_read (\<lambda>p. shape_of p v)) (\<lambda>sh.
     program_push (Scale (scalar_f32 factor)) [value_node v] sh)"

definition program_reshape :: "canonical_value \<Rightarrow> shape \<Rightarrow> canonical_value build" where
  "program_reshape v target =
     act_bind (program_read (\<lambda>p. shape_of p v)) (\<lambda>source.
     act_bind (act_lift (ok_or (BuildShapeOverflow source) (canonical_elements source))) (\<lambda>source_elements.
     act_bind (act_lift (ok_or (BuildShapeOverflow target) (canonical_elements target))) (\<lambda>target_elements.
     if source_elements \<noteq> target_elements then act_lift (fail (ElementCountMismatch source_elements target_elements))
     else program_push (Reshape target) [value_node v] target)))"

definition program_permute :: "canonical_value \<Rightarrow> usize list \<Rightarrow> canonical_value build" where
  "program_permute v permutation =
     act_bind (program_read (\<lambda>p. shape_of p v)) (\<lambda>source.
     let rank = length source in
     if length permutation \<noteq> rank then act_lift (fail (BuildInvalidPermutation permutation rank))
     else if \<exists>(axis, value) \<in> set (enumerate 0 (sort permutation)). value \<noteq> axis
     then act_lift (fail (BuildInvalidPermutation permutation rank))
     else
       act_bind (act_lift (traverse (\<lambda>axis. ok_or (BuildInvalidPermutation permutation rank) (get source axis)) permutation)) (\<lambda>target.
       program_push (Transpose permutation) [value_node v] target))"

definition declared_inputs :: "canonical_program \<Rightarrow> canonical_input list" where
  "declared_inputs p = map di_input (pg_inputs p)"

definition program_set_outputs :: "canonical_value list \<Rightarrow> unit build" where
  "program_set_outputs outputs =
     (if outputs = [] then act_lift (fail BuildNoOutputs)
      else
        act_bind (program_read (\<lambda>p. for_each (\<lambda>v. try_bind (shape_of p v) (\<lambda>_. Inr ())) outputs)) (\<lambda>_.
        program_modify (\<lambda>p. p\<lparr>pg_outputs := outputs\<rparr>)))"

section \<open>Sessions\<close>

record ('s, 'b, 'k, 't, 'v, 'e) canonical_session =
  cs_session :: "('s, 'b, 'k, 't, 'v, 'e) graph_session"
  cs_inputs :: "canonical_input_spec list"
  cs_outputs :: "canonical_output_spec list"

definition session_input_spec ::
  "canonical_program \<Rightarrow> graph_input_spec \<Rightarrow> ('e canonical_prep_error, canonical_input_spec) outcome" where
  "session_input_spec p specification =
     (let input = CanonicalInput (gi_node specification) in
      try_bind (ok_or (UnknownSessionInput input) (List.find (\<lambda>declared. di_input declared = input) (pg_inputs p))) (\<lambda>declared.
      Inr \<lparr>ci_input = input, ci_name = di_name declared, ci_shape = ty_shape (gi_tensor_type specification)\<rparr>))"

definition program_prepare ::
  "('s, 'b, 'k, 't, 'v, 'e) backend \<Rightarrow> canonical_program
     \<Rightarrow> ('s, 'e canonical_prep_error, ('s, 'b, 'k, 't, 'v, 'e) canonical_session) action" where
  "program_prepare B p =
     (if pg_outputs p = [] then act_lift (fail CanonicalNoOutputs)
      else
        (let declared_outputs = pg_outputs p; output_nodes = map value_node declared_outputs in
         act_bind (act_lift (map_err GraphOutputs (set_outputs (pg_graph p) output_nodes))) (\<lambda>g.
         let constants = map (\<lambda>(index, t). (index, nd_data t)) (enumerate 0 (pg_constants p)) in
         act_bind (act_map_err GraphSessionPreparation (session_prepare B g constants)) (\<lambda>session.
         act_bind (act_lift (traverse (session_input_spec p) (gs_inputs session))) (\<lambda>inputs.
         if length (gs_outputs session) \<noteq> length declared_outputs
         then act_lift (fail (CanonicalOutputCountMismatch (length declared_outputs) (length (gs_outputs session))))
         else
           act_return
             \<lparr>cs_session = session, cs_inputs = inputs,
              cs_outputs = map (\<lambda>(specification, v). \<lparr>co_value = v, co_shape = ty_shape (go_tensor_type specification)\<rparr>)
                (zip (gs_outputs session) declared_outputs)\<rparr>)))))"

definition place_tensor ::
  "canonical_input_spec list \<Rightarrow> tensor_nd option list \<Rightarrow> canonical_input \<times> tensor_nd
     \<Rightarrow> ('e canonical_exec_error, tensor_nd option list) outcome" where
  "place_tensor specs slots p = (case p of (input, t) \<Rightarrow>
     try_bind (ok_or (CanonicalUnexpectedInput input) (find_position (\<lambda>spec. ci_input spec = input) specs)) (\<lambda>position.
     case get slots position of
       Some place \<Rightarrow> if place \<noteq> None then fail (CanonicalDuplicateInput input) else Inr (slots[position := Some t])
     | None \<Rightarrow> fail (CanonicalUnexpectedInput input)))"

definition bind_tensor ::
  "canonical_input_spec \<times> tensor_nd option \<Rightarrow> ('e canonical_exec_error, node_id \<times> element list) outcome" where
  "bind_tensor p = (case p of (spec, place) \<Rightarrow>
     try_bind (ok_or (CanonicalMissingInput (ci_input spec) (ci_name spec)) place) (\<lambda>t.
     if nd_shape t \<noteq> ci_shape spec
     then fail (InputShapeMismatch (ci_input spec) (ci_name spec) (ci_shape spec) (nd_shape t))
     else
       try_bind (map_err (\<lambda>_. NonContiguousInput (ci_input spec) (ci_name spec) (nd_shape t) (length (nd_data t)))
           (dense_layout t)) (\<lambda>_.
       Inr (input_node (ci_input spec), nd_data t))))"

definition canonical_bound ::
  "canonical_input_spec list \<Rightarrow> canonical_inputs \<Rightarrow> ('e canonical_exec_error, graph_inputs) outcome" where
  "canonical_bound specs inputs =
     try_bind (try_fold (place_tensor specs) (replicate (length specs) None) inputs) (\<lambda>slots.
     traverse bind_tensor (zip specs slots))"

definition output_tensor :: "plan_output_value \<Rightarrow> ('e canonical_exec_error, tensor_nd) outcome" where
  "output_tensor v =
     (let sh = ty_shape (ov_tensor_type v); elements = length (ov_values v) in
      map_err (\<lambda>_. OutputConstruction sh elements) (nd_try_new (ov_values v) sh))"

definition canonical_execute ::
  "('s, 'b, 'k, 't, 'v, 'e) canonical_session \<Rightarrow> canonical_inputs
     \<Rightarrow> ('s, 'e canonical_exec_error, tensor_nd list) action" where
  "canonical_execute ses inputs =
     act_bind (act_lift (canonical_bound (cs_inputs ses) inputs)) (\<lambda>bound.
     act_bind (act_map_err GraphSessionExecution (session_execute (cs_session ses) bound)) (\<lambda>produced.
     act_lift (traverse output_tensor produced)))"

end
