(* ===== verification/Plan_Consistent.thy ===== *)
theory Plan_Consistent
  imports Plan_Preparation Lowering_Total
begin

text \<open>
  Lowering produces consistent plans: the slots of the memory plan are all used, so the slots the
  dispatches name are dense; a slot has the type of the memory plan and a binding the type of its
  node; and a dispatch reads a slot only after an earlier dispatch has written it.
\<close>

section \<open>Every slot of the memory plan is used\<close>

definition slots_used :: "value_allocation list \<Rightarrow> buffer_slot_spec list \<Rightarrow> bool" where
  "slots_used al slots \<longleftrightarrow> (\<forall>s < length slots. \<exists>i. slot_at al i s)"

lemma retire_keeps [simp]:
  "ps_slots (retire lu step st) = ps_slots st" "ps_allocations (retire lu step st) = ps_allocations st"
proof -
  have release: "ps_slots (release st n) = ps_slots st \<and> ps_allocations (release st n) = ps_allocations st" for st n
    by (simp add: release_def split: option.split)
  have "ps_slots (foldl release st ns) = ps_slots st \<and> ps_allocations (foldl release st ns) = ps_allocations st" for ns
    by (induction ns arbitrary: st) (simp_all add: release)
  then show "ps_slots (retire lu step st) = ps_slots st" "ps_allocations (retire lu step st) = ps_allocations st"
    by (simp_all add: retire_def Let_def)
qed

lemma take_slot_grows:
  "take_slot st ty = Inr (st', slot) \<Longrightarrow> ps_allocations st' = ps_allocations st \<and>
     (ps_slots st' = ps_slots st \<or> (\<exists>spec. ps_slots st' = ps_slots st @ [spec] \<and> slot = length (ps_slots st)))"
  by (auto simp: take_slot_def outcome_simps Let_def split: option.splits)

lemma assign_storage_grows:
  assumes "assign_storage st i = Inr (st', storage)"
  shows "ps_allocations st' = ps_allocations st \<and>
    (ps_slots st' = ps_slots st \<or> (\<exists>spec. ps_slots st' = ps_slots st @ [spec] \<and> storage = Buffer (length (ps_slots st))))"
  using assms take_slot_grows [of st "ins_output i"]
  by (cases "ins_operation i") (fastforce simp: assign_storage_def outcome_simps Let_def)+

lemma plan_step_used:
  fixes st' :: plan_state
  assumes "plan_step lu st (k, i) = (Inr st' :: ('e, plan_state) outcome)" and used: "slots_used (ps_allocations st) (ps_slots st)"
  shows "slots_used (ps_allocations st') (ps_slots st')"
proof -
  from assms(1) obtain u storage where u: "assign_storage (retire lu k st) i = (Inr (u, storage) :: ('e, _) outcome)"
    and st': "ps_allocations st' = ps_allocations u @ [\<lparr>va_node = ins_id i, va_storage = storage\<rparr>]" "ps_slots st' = ps_slots u"
    by (force simp: plan_step_def outcome_simps)
  have keep: "slot_at al j s \<Longrightarrow> slot_at (al @ [a]) j s" for al j s and a :: value_allocation
    by (auto simp: slot_at_def nth_append)
  have new: "slot_at (al @ [\<lparr>va_node = n, va_storage = Buffer s\<rparr>]) (length al) s" for al n s
    by (simp add: slot_at_def)
  from assign_storage_grows [OF u] used st' keep new show ?thesis
    unfolding slots_used_def by (fastforce simp: less_Suc_eq)
qed

lemma memory_plan_used:
  assumes "memory_plan_build xs outs = (Inr plan :: ('e, memory_plan) outcome)"
  shows "slots_used (mp_allocations plan) (mp_slots plan)"
proof -
  from assms obtain st where st: "try_fold (plan_step (last_uses xs outs)) plan_start (enumerate 0 xs) = (Inr st :: ('e, _) outcome)"
    "mp_allocations plan = ps_allocations st" "mp_slots plan = ps_slots st"
    by (force simp: memory_plan_build_def outcome_simps)
  have "slots_used (ps_allocations st) (ps_slots st)"
    using st(1)
  proof (rule try_fold_invariant [where P = "\<lambda>_ st. slots_used (ps_allocations st) (ps_slots st)"])
    show "slots_used (ps_allocations plan_start) (ps_slots plan_start)" by (simp add: slots_used_def plan_start_def)
  qed (metis nth_enumerate0 length_enumerate plan_step_used)
  with st(2,3) show ?thesis by simp
qed

section \<open>The dispatch of an instruction\<close>

lemma filter_index:
  assumes "i < length xs" and "P (xs ! i)"
  shows "length (filter P (take i xs)) < length (filter P xs) \<and> filter P xs ! length (filter P (take i xs)) = xs ! i"
proof -
  have "xs = take i xs @ xs ! i # drop (Suc i) xs" using assms(1) by (simp add: id_take_nth_drop)
  then have "filter P xs = filter P (take i xs) @ xs ! i # filter P (drop (Suc i) xs)"
    using assms(2) by (metis filter.simps(2) filter_append)
  then show ?thesis by simp
qed

lemma filter_nth:
  assumes "j < length (filter P xs)"
  shows "\<exists>i < length xs. P (xs ! i) \<and> filter P xs ! j = xs ! i \<and> j = length (filter P (take i xs))"
  using assms
proof (induction xs rule: rev_induct)
  case Nil
  then show ?case by simp
next
  case (snoc x xs)
  show ?case
  proof (cases "j < length (filter P xs)")
    case True
    from snoc.IH [OF this] obtain i where "i < length xs" "P (xs ! i)" "filter P xs ! j = xs ! i"
      "j = length (filter P (take i xs))" by blast
    with True show ?thesis by (intro exI [of _ i]) (simp add: nth_append)
  next
    case False
    with snoc.prems have "P x" "j = length (filter P xs)" by (auto split: if_splits)
    then show ?thesis by (intro exI [of _ "length xs"]) simp
  qed
qed

lemma filter_take_less: "i < k \<Longrightarrow> i < length xs \<Longrightarrow> P (xs ! i) \<Longrightarrow> length (filter P (take i xs)) < length (filter P (take k xs))"
  using filter_index [of i "take k xs" P] by (simp add: min_def)

abbreviation calculated :: "instruction \<Rightarrow> bool" where
  "calculated i \<equiv> computed (ins_operation i)"

definition dispatch_index_of :: "instruction list \<Rightarrow> nat \<Rightarrow> nat" where
  "dispatch_index_of xs i = length (filter calculated (take i xs))"

lemma dispatch_of_instruction:
  assumes "lowered_ok vals ids xs (ks, ds)" and "i < length xs" and "calculated (xs ! i)"
  shows "dispatch_index_of xs i < length ds \<and> dispatch_ok vals ids ks (xs ! i) (ds ! dispatch_index_of xs i)"
  using assms filter_index [of i xs calculated]
  by (fastforce simp: lowered_ok_def dispatch_index_of_def list_all2_conv_all_nth)

lemma instruction_of_dispatch:
  assumes "lowered_ok vals ids xs (ks, ds)" and "j < length ds"
  shows "\<exists>i < length xs. calculated (xs ! i) \<and> j = dispatch_index_of xs i \<and> dispatch_ok vals ids ks (xs ! i) (ds ! j)"
proof -
  have all: "length (filter calculated xs) = length ds"
    "\<forall>j < length ds. dispatch_ok vals ids ks (filter calculated xs ! j) (ds ! j)"
    using assms(1) by (simp_all add: lowered_ok_def list_all2_conv_all_nth)
  then have j: "j < length (filter calculated xs)" "dispatch_ok vals ids ks (filter calculated xs ! j) (ds ! j)"
    using assms(2) by simp_all
  from filter_nth [OF j(1)] obtain i where "i < length xs" "calculated (xs ! i)" "filter calculated xs ! j = xs ! i"
    "j = dispatch_index_of xs i" by (auto simp: dispatch_index_of_def)
  with j(2) show ?thesis by metis
qed

section \<open>Sources of a dispatch\<close>

definition typing_of ::
  "execution_plan \<Rightarrow> (node_id \<Rightarrow> tensor_type) \<Rightarrow> external_bindings \<Rightarrow> plan_typing" where
  "typing_of plan ty bindings =
     \<lparr>pt_slot = \<lambda>s. bs_tensor_type (mp_slots (ep_memory plan) ! s), pt_binding = \<lambda>b. ty (eb_node (bindings ! b))\<rparr>"

lemma info_source_typed:
  assumes run: "runnable (ep_instructions plan) outs (ep_memory plan) (lp_bindings lp) vals ids"
    and table: "table_ok vals (lp_bindings lp)" and i: "i < length (ep_instructions plan)"
    and ty: "\<forall>x \<in> set (ep_instructions plan). ins_output x = ty (ins_id x)"
    and info: "bt_get vals (ins_id (ep_instructions plan ! i)) = Some info"
    and source: "source_ok (vi_storage info) ids (ins_id (ep_instructions plan ! i)) source"
  shows "source_typed lp (typing_of plan ty (lp_bindings lp)) source (vi_tensor_type info)"
proof -
  let ?xs = "ep_instructions plan" and ?al = "mp_allocations (ep_memory plan)"
  note info' = runnable_info [OF run i info]
  have out: "ins_output (?xs ! i) = ty (ins_id (?xs ! i))" using ty i by simp
  have ext: "b < length (lp_bindings lp) \<and> eb_node (lp_bindings lp ! b) = ins_id (?xs ! i) \<and>
      external_kind (vi_storage info) = Some (eb_kind (lp_bindings lp ! b))"
    if "bt_get ids (ins_id (?xs ! i)) = Some b" for b
  proof -
    from that run have b: "b < length (lp_bindings lp)" "eb_node (lp_bindings lp ! b) = ins_id (?xs ! i)"
      by (simp_all add: runnable_def ids_ok_def)
    then have "entry_ok vals (lp_bindings lp ! b)" using table by (simp add: table_ok_def)
    with b info show ?thesis by (auto simp: entry_ok_def)
  qed
  show ?thesis
  proof (cases "vi_storage info")
    case (Buffer s)
    with info' have "slot_at ?al i s" using runnable_allocation(1) [OF run i] i by (simp add: slot_at_def info_of_def)
    from slot_typed [OF run this] source Buffer info' show ?thesis
      by (simp add: source_ok_def source_typed_def typing_of_def info_of_def)
  next
    case ExternalInput
    with source obtain b where "bt_get ids (ins_id (?xs ! i)) = Some b" "source = FromInput b"
      by (auto simp: source_ok_def)
    with ext [of b] ExternalInput info' out show ?thesis
      by (simp add: source_typed_def typing_of_def info_of_def external_kind_def)
  next
    case ExternalConstant
    with source obtain b where "bt_get ids (ins_id (?xs ! i)) = Some b" "source = FromConstant b"
      by (auto simp: source_ok_def)
    with ext [of b] ExternalConstant info' out show ?thesis
      by (simp add: source_typed_def typing_of_def info_of_def external_kind_def)
  qed
qed

lemma dispatch_writes:
  assumes run: "runnable xs outs memory bindings vals ids" and i: "i < length xs"
    and d: "dispatch_ok vals ids ks (xs ! i) d" and slot: "slot_at (mp_allocations memory) i s"
  shows "written_slot d s"
proof -
  note d' = d [unfolded dispatch_ok_def Let_def]
  then obtain info where info: "bt_get vals (ins_id (xs ! i)) = Some info"
    "source_ok (vi_storage info) ids (ins_id (xs ! i)) (ka_source (li_arguments d ! length (ins_inputs (xs ! i))))" by blast
  from runnable_info [OF run i info(1)] slot have "vi_storage info = Buffer s" by (simp add: info_of_def slot_at_def)
  with info(2) have "ka_source (li_arguments d ! length (ins_inputs (xs ! i))) = FromBuffer s" by (simp add: source_ok_def)
  moreover have len: "length (li_arguments d) = Suc (length (ins_inputs (xs ! i)))" using d' by blast
  then have "li_arguments d \<noteq> []" by auto
  moreover from this have "last (li_arguments d) = li_arguments d ! length (ins_inputs (xs ! i))"
    using last_conv_nth [of "li_arguments d"] len by simp
  ultimately show ?thesis by (simp add: written_slot_def)
qed

lemma computed_buffer:
  assumes run: "runnable xs outs memory bindings vals ids" and i: "i < length xs" and "calculated (xs ! i)"
  shows "\<exists>s. slot_at (mp_allocations memory) i s"
proof -
  have "is_buffer (va_storage (mp_allocations memory ! i))"
    using runnable_allocation(2) [OF run i] assms(3) computed_assign(2) by blast
  then show ?thesis
    using runnable_allocation(1) [OF run i] i by (auto simp: is_buffer_def slot_at_def split: value_storage.splits)
qed

lemma buffer_computed:
  assumes run: "runnable xs outs memory bindings vals ids" and slot: "slot_at (mp_allocations memory) i s"
  shows "i < length xs \<and> calculated (xs ! i)"
proof -
  have "length (mp_allocations memory) = length xs"
    using run unfolding runnable_def plan_safe_def Let_def by (metis length_map)
  with slot have i: "i < length xs" by (simp add: slot_at_def)
  with runnable_allocation(2) [OF run i] slot show ?thesis
    by (cases "ins_operation (xs ! i)") (simp_all add: slot_at_def storage_matches_def computed_def)
qed

section \<open>Lowered plans are consistent\<close>

lemma written_read:
  assumes "written_slot d s" and "d \<in> set (lp_instructions lp)"
  shows "referenced lp (FromBuffer s)"
  using assms unfolding written_slot_def referenced_def by (metis last_in_set)

lemma small_arity: "expected_arity oper \<le> 2"
  by (cases oper) simp_all

lemma lowered_instruction_consistent:
  assumes run: "runnable (ep_instructions plan) outs (ep_memory plan) (lp_bindings lp) vals ids"
    and table: "table_ok vals (lp_bindings lp)"
    and typed: "\<forall>x \<in> set (ep_instructions plan). instruction_typed ty x"
    and i: "i < length (ep_instructions plan)" "calculated (ep_instructions plan ! i)"
    and d: "dispatch_ok vals ids (lp_kernels lp) (ep_instructions plan ! i) d"
  shows "instruction_consistent lp (typing_of plan ty (lp_bindings lp)) d"
proof -
  let ?xs = "ep_instructions plan" and ?as = "li_arguments d" and ?T = "typing_of plan ty (lp_bindings lp)"
  let ?x = "ep_instructions plan ! i" let ?n = "length (ins_inputs ?x)" and ?k = "lp_kernels lp ! li_kernel d"
  note d' = d [unfolded dispatch_ok_def Let_def]
  have ty: "\<forall>x \<in> set ?xs. ins_output x = ty (ins_id x)" using typed by (simp add: instruction_typed_def)
  have n: "length (lk_operands ?k) = ?n" using d' by blast
  have "?n \<le> 2" using typed i(1) small_arity [of "ins_operation ?x"] by (simp add: instruction_typed_def)
  moreover have reads: "ka_access (?as ! p) = ReadAccess \<and> ka_tensor_type (?as ! p) = lk_operands ?k ! p \<and>
      source_typed lp ?T (ka_source (?as ! p)) (lk_operands ?k ! p)" if p: "p < ?n" for p
  proof -
    from d' p obtain info where info: "bt_get vals (ins_inputs ?x ! p) = Some info"
      "vi_tensor_type info = lk_operands ?k ! p" "source_ok (vi_storage info) ids (ins_inputs ?x ! p) (ka_source (?as ! p))"
      by metis
    from run p obtain j where j: "j < i" "ins_id (?xs ! j) = ins_inputs ?x ! p"
      using i(1) unfolding runnable_def schedule_ok_def by (metis nth_mem)
    have "j < length ?xs" using j(1) i(1) by simp
    from info_source_typed [OF run table this ty, of info "ka_source (?as ! p)"] info(1,3) j(2)
    have "source_typed lp ?T (ka_source (?as ! p)) (vi_tensor_type info)" by simp
    with info(2) d' p show ?thesis by simp
  qed
  moreover have out: "ka_access (?as ! ?n) = WriteAccess" "ka_tensor_type (?as ! ?n) = lk_result ?k"
    "lk_result ?k = ins_output ?x" using d' by simp_all
  moreover have wout: "(\<exists>s. ka_source (?as ! ?n) = FromBuffer s) \<and>
      source_typed lp ?T (ka_source (?as ! ?n)) (ka_tensor_type (?as ! ?n))"
  proof -
    from d' obtain info where info: "bt_get vals (ins_id ?x) = Some info"
      "source_ok (vi_storage info) ids (ins_id ?x) (ka_source (?as ! ?n))" by blast
    from computed_buffer [OF run i] obtain s where "slot_at (mp_allocations (ep_memory plan)) i s" ..
    with runnable_info [OF run i(1) info(1)] info(2) have "ka_source (?as ! ?n) = FromBuffer s"
      by (simp add: info_of_def slot_at_def source_ok_def)
    moreover have "vi_tensor_type info = ins_output ?x" using runnable_info [OF run i(1) info(1)] by (simp add: info_of_def)
    ultimately show ?thesis using info_source_typed [OF run table i(1) ty info] out by simp
  qed
  moreover have "length ?as = Suc ?n" "\<forall>p < length ?as. ka_index (?as ! p) = p" "li_kernel d < length (lp_kernels lp)"
    "checked_num_elements (ty_shape (lk_result ?k)) = Inr (ld_elements (li_dispatch d))"
    using d' by auto
  ultimately show ?thesis unfolding instruction_consistent_def Let_def n by (auto simp: less_Suc_eq)
qed

lemma output_typed:
  assumes run: "runnable (ep_instructions plan) (ep_outputs plan) (ep_memory plan) (lp_bindings lp) vals ids"
    and table: "table_ok vals (lp_bindings lp)"
    and ty: "\<forall>x \<in> set (ep_instructions plan). ins_output x = ty (ins_id x)"
    and outs: "traverse (lower_output vals ids) (ep_outputs plan) = Inr (lp_outputs lp)"
    and out: "out \<in> set (lp_outputs lp)"
  obtains i where "source_typed lp (typing_of plan ty (lp_bindings lp)) (lo_source out) (ty (lo_node out))"
    "\<And>s. lo_source out = FromBuffer s \<Longrightarrow> slot_at (mp_allocations (ep_memory plan)) i s"
proof -
  from outs out obtain n where n: "n \<in> set (ep_outputs plan)" "lower_output vals ids n = Inr out"
    by (auto simp: traverse_Inr in_set_conv_nth)
  from n(2) obtain info where info: "bt_get vals n = Some info" "source_ok (vi_storage info) ids n (lo_source out)" "lo_node out = n"
    by (auto simp: lower_output_def outcome_simps)
  from n(1) run obtain i where i: "i < length (ep_instructions plan)" "ins_id (ep_instructions plan ! i) = n"
    unfolding runnable_def schedule_ok_def by blast
  have "vi_tensor_type info = ty n"
    using runnable_info [OF run i(1)] info(1) i ty by (simp add: info_of_def)
  with info_source_typed [OF run table i(1) ty] info i(2)
  have "source_typed lp (typing_of plan ty (lp_bindings lp)) (lo_source out) (ty (lo_node out))" by metis
  moreover have "slot_at (mp_allocations (ep_memory plan)) i s" if "lo_source out = FromBuffer s" for s
    using buffer_source [OF run i(1)] info i(2) that by metis
  ultimately show ?thesis using that by blast
qed

lemma lowered_plan_consistent:
  assumes compiled: "compile g = Inr plan" and small: "length (graph_nodes g) \<le> u32_range"
    and valid: "validate_semantics g = Inr ()" and lower: "lower_plan plan bindings = Inr lp"
  shows "plan_consistent lp (typing_of plan (type_of (graph_nodes g)) bindings)"
proof -
  let ?xs = "ep_instructions plan" and ?al = "mp_allocations (ep_memory plan)" and ?slots = "mp_slots (ep_memory plan)"
  let ?T = "typing_of plan (type_of (graph_nodes g)) bindings" and ?ds = "lp_instructions lp"
  from lower obtain vals ids where vals: "collect_values plan = Inr vals" "validate_bindings vals bindings = Inr ids"
    and low: "lowered_ok vals ids ?xs (lp_kernels lp, ?ds)"
    and outs: "traverse (lower_output vals ids) (ep_outputs plan) = Inr (lp_outputs lp)"
    and bindings: "lp_bindings lp = bindings" by (rule lower_plan_Inr)
  have run: "runnable ?xs (ep_outputs plan) (ep_memory plan) (lp_bindings lp) vals ids"
    using lowered_runnable [OF compiled small vals] bindings by simp
  then have "bt_ok vals" by (simp add: runnable_def values_ok_def)
  with validate_bindings_Inr vals(2) bindings have table: "table_ok vals (lp_bindings lp)" by blast
  have typed: "\<forall>x \<in> set ?xs. instruction_typed (type_of (graph_nodes g)) x"
    using compiled_typed [OF compiled small valid] by blast
  have ty: "\<forall>x \<in> set ?xs. ins_output x = type_of (graph_nodes g) (ins_id x)"
    using typed by (simp add: instruction_typed_def)
  have used: "slots_used ?al ?slots"
    using compile_plan_schedule [OF compiled small] memory_plan_used by blast
  have written: "referenced lp (FromBuffer s)" if "slot_at ?al i s" for i s
  proof -
    from buffer_computed [OF run that] have i: "i < length ?xs" "calculated (?xs ! i)" by simp_all
    note d = dispatch_of_instruction [OF low i]
    from dispatch_writes [OF run i(1) conjunct2 [OF d] that] d show ?thesis by (blast intro: written_read nth_mem)
  qed
  have consistent: "\<forall>d \<in> set ?ds. instruction_consistent lp ?T d"
    using lowered_instruction_consistent [OF run table typed] instruction_of_dispatch [OF low] bindings
    by (metis in_set_conv_nth)
  have in_range: "s < length ?slots" if "referenced lp (FromBuffer s)" for s
  proof -
    from that obtain d a where "d \<in> set ?ds" "a \<in> set (li_arguments d)" "ka_source a = FromBuffer s"
      unfolding referenced_def by blast
    moreover from this obtain k where "k < length ?xs" "dispatch_ok vals ids (lp_kernels lp) (?xs ! k) d"
      using instruction_of_dispatch [OF low] by (metis in_set_conv_nth)
    ultimately show ?thesis using dispatch_safe [OF run] by blast
  qed
  have "length ?slots \<le> length (filter (\<lambda>a. is_buffer (va_storage a)) ?al)"
    using run unfolding runnable_def plan_safe_def Let_def by blast
  also have "\<dots> \<le> length ?al" by simp
  also have "length ?al = length ?xs"
    using run unfolding runnable_def plan_safe_def Let_def by (metis length_map)
  finally have few: "length ?slots \<le> u32_range" using compiled_safe(3) [OF compiled small] by simp
  show ?thesis
    unfolding plan_consistent_def
  proof (intro conjI)
    show "\<forall>k < length (lp_kernels lp). lk_id (lp_kernels lp ! k) = k" using lowered_kernel_ids [OF lower] by blast
    show "\<forall>i \<in> set ?ds. instruction_consistent lp ?T i" by (rule consistent)
    show "\<forall>s s'. referenced lp (FromBuffer s) \<longrightarrow> s' < s \<longrightarrow> referenced lp (FromBuffer s')"
      using in_range used written unfolding slots_used_def by (meson less_trans)
    show "\<forall>s. referenced lp (FromBuffer s) \<longrightarrow> s < usize_max"
    proof (intro allI impI)
      fix s assume "referenced lp (FromBuffer s)"
      with in_range few have "s < u32_range" by fastforce
      then show "s < usize_max" by simp
    qed
    show "distinct (map eb_node (lp_bindings lp))" "length (lp_bindings lp) \<le> u32_range"
      using table by (simp_all add: table_ok_def)
    show "\<forall>j < length ?ds. \<forall>a \<in> set (li_arguments (?ds ! j)). \<forall>s. ka_access a = ReadAccess \<longrightarrow>
        ka_source a = FromBuffer s \<longrightarrow> (\<exists>i < j. written_slot (?ds ! i) s)"
    proof (intro allI impI ballI)
      fix j a s assume j: "j < length ?ds" and a: "a \<in> set (li_arguments (?ds ! j))" "ka_access a = ReadAccess" "ka_source a = FromBuffer s"
      from instruction_of_dispatch [OF low j] obtain k where k: "k < length ?xs" "j = dispatch_index_of ?xs k"
        "dispatch_ok vals ids (lp_kernels lp) (?xs ! k) (?ds ! j)" by blast
      note d' = k(3) [unfolded dispatch_ok_def Let_def]
      have "a \<in> set (filter (\<lambda>a. ka_access a = ReadAccess) (li_arguments (?ds ! j)))" using a by simp
      then obtain p where p: "p < length (ins_inputs (?xs ! k))" "a = li_arguments (?ds ! j) ! p"
        by (auto simp: dispatch_arguments(1) [OF k(3)])
      with d' a(3) obtain info where info: "bt_get vals (ins_inputs (?xs ! k) ! p) = Some info"
        "source_ok (vi_storage info) ids (ins_inputs (?xs ! k) ! p) (FromBuffer s)" by metis
      from run p(1) k(1) obtain i where i: "i < k" "ins_id (?xs ! i) = ins_inputs (?xs ! k) ! p"
        unfolding runnable_def schedule_ok_def by (metis nth_mem)
      then have il: "i < length ?xs" using k(1) by simp
      from buffer_source [OF run il _ info(2)] info(1) i(2) have slot: "slot_at ?al i s" by simp
      from buffer_computed [OF run slot] have comp: "calculated (?xs ! i)" by simp
      from dispatch_writes [OF run il conjunct2 [OF dispatch_of_instruction [OF low il comp]] slot]
      have "written_slot (?ds ! dispatch_index_of ?xs i) s" .
      moreover have "dispatch_index_of ?xs i < j"
        unfolding k(2) dispatch_index_of_def by (rule filter_take_less [where P = calculated, OF i(1) il comp])
      ultimately show "\<exists>i < j. written_slot (?ds ! i) s" by blast
    qed
    show "\<forall>out \<in> set (lp_outputs lp). case lo_source out of
        FromBuffer s \<Rightarrow> referenced lp (FromBuffer s)
      | FromInput b \<Rightarrow> b < length (lp_bindings lp) | FromConstant b \<Rightarrow> b < length (lp_bindings lp)"
    proof
      fix out assume "out \<in> set (lp_outputs lp)"
      from output_typed [OF run table ty outs this] obtain i where
        "source_typed lp (typing_of plan (type_of (graph_nodes g)) (lp_bindings lp)) (lo_source out) (type_of (graph_nodes g) (lo_node out))"
        "\<And>s. lo_source out = FromBuffer s \<Longrightarrow> slot_at ?al i s" by metis
      then show "case lo_source out of FromBuffer s \<Rightarrow> referenced lp (FromBuffer s)
        | FromInput b \<Rightarrow> b < length (lp_bindings lp) | FromConstant b \<Rightarrow> b < length (lp_bindings lp)"
        using written by (cases "lo_source out") (simp_all add: source_typed_def)
    qed
  qed
qed

lemma lowered_outputs_typed:
  assumes compiled: "compile g = Inr plan" and small: "length (graph_nodes g) \<le> u32_range"
    and valid: "validate_semantics g = Inr ()" and lower: "lower_plan plan bindings = Inr lp"
    and out: "out \<in> set (lp_outputs lp)"
  shows "source_typed lp (typing_of plan (type_of (graph_nodes g)) bindings) (lo_source out) (type_of (graph_nodes g) (lo_node out))"
proof -
  from lower obtain vals ids where vals: "collect_values plan = Inr vals" "validate_bindings vals bindings = Inr ids"
    and outs: "traverse (lower_output vals ids) (ep_outputs plan) = Inr (lp_outputs lp)"
    and bindings: "lp_bindings lp = bindings" by (rule lower_plan_Inr)
  have run: "runnable (ep_instructions plan) (ep_outputs plan) (ep_memory plan) (lp_bindings lp) vals ids"
    using lowered_runnable [OF compiled small vals] bindings by simp
  then have "bt_ok vals" by (simp add: runnable_def values_ok_def)
  with validate_bindings_Inr vals(2) bindings have table: "table_ok vals (lp_bindings lp)" by blast
  have "\<forall>x \<in> set (ep_instructions plan). ins_output x = type_of (graph_nodes g) (ins_id x)"
    using compiled_typed [OF compiled small valid] by (simp add: instruction_typed_def)
  from output_typed [OF run table this outs out] bindings show ?thesis by metis
qed

end
