(* ===== verification/Plan_Prepared.thy ===== *)
theory Plan_Prepared
  imports Plan_Consistent Generator_Correct Cpu_Correct
begin

text \<open>
  Preparation as a whole. A consistent plan of typed kernels is either refused, with the state of the
  backend untouched by the checks and an error that names the reason, or becomes the prepared plan
  that the lowered plan describes, with one compiled kernel per logical kernel.
\<close>

section \<open>Well-formed plans\<close>

definition plan_well_formed :: "lowered_plan \<Rightarrow> plan_typing \<Rightarrow> bool" where
  "plan_well_formed lp T \<longleftrightarrow> plan_consistent lp T \<and> list_all kernel_typed (lp_kernels lp) \<and> length (lp_kernels lp) \<le> u32_range"

lemma well_formed_ids: "plan_well_formed lp T \<Longrightarrow> i < length (lp_kernels lp) \<Longrightarrow> lk_id (lp_kernels lp ! i) = i"
  by (simp add: plan_well_formed_def plan_consistent_def)

lemma lowered_plan_well_formed:
  assumes "compile g = Inr plan" and "length (graph_nodes g) \<le> u32_range"
    and "validate_semantics g = Inr ()" and "lower_plan plan bindings = Inr lp"
  shows "plan_well_formed lp (typing_of plan (type_of (graph_nodes g)) bindings)"
  using lowered_plan_consistent [OF assms] lowered_kernels_typed [OF assms] lowered_kernel_ids(1) [OF assms(4)]
  by (simp add: plan_well_formed_def)

text \<open>Every value has a type and a size in bytes.\<close>

definition plan_sized :: "lowered_plan \<Rightarrow> plan_typing \<Rightarrow> (node_id \<times> tensor_type) list \<Rightarrow> bool" where
  "plan_sized lp T hints \<longleftrightarrow>
     (\<forall>b < length (lp_bindings lp). external_type lp T hints b \<noteq> None) \<and> (\<forall>ty \<in> plan_types lp T hints. type_fits ty)"

definition prepared_plan_of ::
  "lowered_plan \<Rightarrow> plan_typing \<Rightarrow> (node_id \<times> tensor_type) list \<Rightarrow> 'k list \<Rightarrow> 'k prepared_plan" where
  "prepared_plan_of lp T hints kernels =
     \<lparr>pr_kernels = kernels, pr_dispatches = map prepared_dispatch_of (lp_instructions lp),
      pr_slots = map (\<lambda>s. \<lparr>sp_slot = s, sp_tensor_type = pt_slot T s\<rparr>) [0..<slot_count lp],
      pr_externals = external_specs_of lp T hints, pr_outputs = map (prepared_output_of lp T hints) (lp_outputs lp),
      pr_slot_sizes = slot_sizes_of lp T, pr_external_sizes = external_sizes_of lp T hints,
      pr_launch_config = canonical_launch_config\<rparr>"

section \<open>The checks\<close>

lemma plan_sized_intro:
  assumes cons: "plan_consistent lp T" and slots: "\<forall>s < slot_count lp. type_fits (pt_slot T s)"
    and externals: "\<forall>b < length (lp_bindings lp). external_type lp T hints b \<noteq> None \<and> type_fits (binding_type lp T hints b)"
  shows "plan_sized lp T hints"
proof -
  have "type_fits ty" if "ty \<in> plan_types lp T hints" for ty
  proof -
    from that consider (argument) i a where "i \<in> set (lp_instructions lp)" "a \<in> set (li_arguments i)" "ty = ka_tensor_type a"
      | (external) b where "b < length (lp_bindings lp)" "external_type lp T hints b = Some ty"
      by (auto simp: plan_types_def)
    then show ?thesis
    proof cases
      case argument
      have ref: "referenced lp (ka_source a)" using argument unfolding referenced_def by blast
      have "source_typed lp T (ka_source a) ty"
        using cons argument instruction_sources unfolding plan_consistent_def by metis
      moreover have "type_fits (pt_binding T b)" if "consumed lp b" "b < length (lp_bindings lp)" for b
        using that externals by (auto simp: binding_type_def external_type_def)
      moreover note ref slots referenced_slots(1) [OF cons]
      ultimately show ?thesis
        by (cases "ka_source a") (simp_all add: source_typed_def consumed_def)
    next
      case external
      with externals show ?thesis by (auto simp: binding_type_def)
    qed
  qed
  with externals show ?thesis by (auto simp: plan_sized_def)
qed

text \<open>The checks, before any kernel is generated.\<close>

definition plan_checks ::
  "device_capabilities \<Rightarrow> lowered_plan \<Rightarrow> (node_id \<times> tensor_type) list \<Rightarrow>
     ('e prep_error, prepared_dispatch list \<times> slot_specification list \<times> usize list \<times> external_value_spec list \<times>
        usize list \<times> prepared_output list) outcome" where
  "plan_checks caps lp hints =
     try_bind (require (supports_dtype caps F32) BackendDTypeUnsupported) (\<lambda>_.
       try_bind (require (\<not> any_below_one (dc_max_workgroup_size caps))
                   (BackendWorkgroupTooSmall (dc_max_workgroup_size caps))) (\<lambda>_.
       try_bind (collect_value_types lp hints) (\<lambda>types.
       try_bind (resolve_dispatches lp types) (\<lambda>dispatches.
       try_bind (build_slot_specifications types (dc_max_buffer_bytes caps)) (\<lambda>(slots, slot_sizes).
       try_bind (build_external_specifications lp types (dc_max_buffer_bytes caps)) (\<lambda>(externals, external_sizes).
       try_bind (resolve_outputs lp types) (\<lambda>outputs.
       Inr (dispatches, slots, slot_sizes, externals, external_sizes, outputs))))))))"

lemma prepare_eq:
  "prepare_with_external_types B lp hints =
     act_bind (act_lift (plan_checks (be_capabilities B) lp hints))
       (\<lambda>(dispatches, slots, slot_sizes, externals, external_sizes, outputs).
     act_bind (compile_kernels B lp) (\<lambda>kernels.
     act_return
       \<lparr>pr_kernels = kernels, pr_dispatches = dispatches, pr_slots = slots, pr_externals = externals,
        pr_outputs = outputs, pr_slot_sizes = slot_sizes, pr_external_sizes = external_sizes,
        pr_launch_config = canonical_launch_config\<rparr>))"
  by (simp add: prepare_with_external_types_def plan_checks_def Let_def)

lemma prepare_checks:
  assumes cons: "plan_consistent lp T"
  shows "decided (blocked caps lp T hints)
    (\<lambda>r. r = (map prepared_dispatch_of (lp_instructions lp),
              map (\<lambda>s. \<lparr>sp_slot = s, sp_tensor_type = pt_slot T s\<rparr>) [0..<slot_count lp], slot_sizes_of lp T,
              external_specs_of lp T hints, external_sizes_of lp T hints,
              map (prepared_output_of lp T hints) (lp_outputs lp)) \<and> plan_sized lp T hints)
    (plan_checks caps lp hints :: ('e prep_error, _) outcome)"
proof -
  have sized: "plan_sized lp T hints"
    if "\<forall>s < slot_count lp. type_fits (pt_slot T s)"
      "\<forall>b < length (lp_bindings lp). external_type lp T hints b \<noteq> None \<and> type_fits (binding_type lp T hints b)"
    using plan_sized_intro [OF cons that] .
  show ?thesis
    unfolding plan_checks_def decided_bind
    apply (rule decided_mono [where P = "\<lambda>_. True"])
     apply (use prep_blocked.no_f32 in auto)[1]
    apply (rule decided_mono [where P = "\<lambda>_. True"])
     apply (use prep_blocked.workgroup in auto)[1]
    apply (rule decided_mono [OF collect_value_types_decided [OF cons]])
    apply (rule decided_mono [OF resolve_dispatches_decided [OF cons]], assumption)
    apply clarsimp
    apply (rule decided_mono [OF slots_decided [OF cons]])
    apply clarsimp
    apply (rule decided_mono [OF externals_decided [OF cons]])
    apply clarsimp
    apply (rule decided_mono [OF outputs_decided [OF cons]])
     apply simp
    apply (simp add: sized)
    done
qed

section \<open>The kernels\<close>

text \<open>A traversal that fails does so at one of its elements.\<close>

lemma act_traverse_Inl:
  "act_traverse f xs s = (s', Inl g) \<Longrightarrow> \<exists>i < length xs. \<exists>u. f (xs ! i) u = (s', Inl g)"
proof (induction xs arbitrary: s)
  case Nil
  then show ?case by (simp add: act_return_def)
next
  case (Cons x xs)
  show ?case
  proof (cases "f x s")
    case (Pair u r)
    show ?thesis
    proof (cases r)
      case (Inl g')
      with Cons.prems Pair have "f ((x # xs) ! 0) s = (s', Inl g)" by (simp add: act_bind_def)
      then show ?thesis by blast
    next
      case (Inr y)
      with Cons.prems Pair have "act_traverse f xs u = (s', Inl g)"
        by (auto simp: act_bind_def act_return_def split: prod.splits sum.splits)
      from Cons.IH [OF this] obtain i v where "i < length xs" "f ((x # xs) ! Suc i) v = (s', Inl g)" by auto
      then show ?thesis by (metis Suc_less_eq length_Cons)
    qed
  qed
qed

lemma act_traverse_Inr:
  assumes "act_traverse f xs s = (t, Inr ys)" and "i < length xs"
  shows "\<exists>u v y. f (xs ! i) u = (v, Inr y)"
proof -
  have "length ys = length xs \<and> (\<forall>j < length xs. \<exists>u v y. f (xs ! j) u = (v, Inr y))"
    by (rule act_traverse_invariant [where P = "\<lambda>i _ _. \<forall>j < i. \<exists>u v y. f (xs ! j) u = (v, Inr y)", OF assms(1)])
      (auto simp: less_Suc_eq)
  with assms(2) show ?thesis by blast
qed

lemma act_traverse_cong:
  "length xs = length ys \<Longrightarrow> (\<And>i. i < length xs \<Longrightarrow> f (xs ! i) = g (ys ! i)) \<Longrightarrow> act_traverse f xs = act_traverse g ys"
proof (induction xs ys rule: list_induct2)
  case (Cons x xs y ys)
  have "act_traverse f xs = act_traverse g ys" by (rule Cons.IH) (use Cons.prems [of "Suc _"] in simp)
  with Cons.prems [of 0] show ?case by simp
qed simp

text \<open>The kernels the runtime has no deterministic arithmetic for.\<close>

definition transcendental :: "logical_kernel \<Rightarrow> bool" where
  "transcendental k \<longleftrightarrow> lk_family k = ElementwiseUnary ExpKernel \<or> lk_family k = ElementwiseUnary LogKernel"

lemma transcendental_opcode: "opcode_of (lk_family k) \<in> {OpExp, OpLog} \<longleftrightarrow> transcendental k"
  unfolding transcendental_def by (cases "lk_family k" rule: opcode_of.cases) simp_all

lemma compile_kernel_eq:
  assumes "lk_id k = i" and "i < u32_range"
  shows "compile_kernel B (i, artifact_of k) =
    (if transcendental k then (\<lambda>s. (s, fail (PlanMathUnavailable i (opcode_of (lk_family k)))))
     else act_map_err (KernelCompilation i) (be_compile B (module_of (artifact_of k))))"
proof -
  have "unat (word_of_nat i :: u32) = i" using assms(2) by (simp add: unat_of_nat)
  moreover have "ra_kernel (artifact_of k) = word_of_nat i" "ra_opcode (artifact_of k) = opcode_of (lk_family k)"
    by (simp_all add: artifact_of_def assms(1))
  ultimately show ?thesis
    using transcendental_opcode [of k]
    by (intro ext) (auto simp: compile_kernel_def Let_def act_bind_lift require_def)
qed

text \<open>Why the kernels of a plan are not compiled.\<close>

definition kernels_blocked ::
  "('s, 'b, 'k, 't, 'v, 'e) backend \<Rightarrow> lowered_plan \<Rightarrow> 's \<Rightarrow> 'e prep_error failure \<Rightarrow> bool" where
  "kernels_blocked B lp s' f \<longleftrightarrow>
     (\<exists>k \<in> set (lp_kernels lp). \<exists>e. \<not> generatable k \<and> generation_blocked k (Err e) \<and> f = Err (KernelGeneration e)) \<or>
     list_all generatable (lp_kernels lp) \<and> (\<exists>i < length (lp_kernels lp). transcendental (lp_kernels lp ! i) \<and>
        f = Err (PlanMathUnavailable i (opcode_of (lk_family (lp_kernels lp ! i))))) \<or>
     list_all generatable (lp_kernels lp) \<and> (\<exists>i < length (lp_kernels lp). \<not> transcendental (lp_kernels lp ! i) \<and>
        (\<exists>u. act_map_err (KernelCompilation i) (be_compile B (module_of (artifact_of (lp_kernels lp ! i)))) u = (s', Inl f)))"

lemma generation_blocked_Err: "generation_blocked k f \<Longrightarrow> \<exists>e. f = Err e"
  by (auto simp: generation_blocked_def shape_blocked_def)

lemma compile_kernels_eq:
  assumes wf: "plan_well_formed lp T"
  shows "case compile_kernels B lp s of
      (s', Inl f) \<Rightarrow> kernels_blocked B lp s' f
    | (s', Inr ks) \<Rightarrow> list_all generatable (lp_kernels lp) \<and> list_all (\<lambda>k. \<not> transcendental k) (lp_kernels lp) \<and>
        act_traverse (\<lambda>k. act_map_err (KernelCompilation (lk_id k)) (be_compile B (module_of (artifact_of k)))) (lp_kernels lp) s
          = (s', Inr ks)"
proof -
  let ?ks = "lp_kernels lp"
  have ids: "\<And>i. i < length ?ks \<Longrightarrow> lk_id (?ks ! i) = i" and small: "length ?ks \<le> u32_range"
    and typed: "list_all kernel_typed ?ks"
    using well_formed_ids [OF wf] wf by (simp_all add: plan_well_formed_def)
  note gen = generate_typed [OF ids small typed]
  show ?thesis
  proof (cases "generate lp")
    case (Inl f)
    with gen obtain k e where "k \<in> set ?ks" "\<not> generatable k" "generation_blocked k (Err e)" "f = Err e"
      using generation_blocked_Err by fastforce
    with Inl show ?thesis by (auto simp: compile_kernels_def act_bind_lift kernels_blocked_def)
  next
    case (Inr artifacts)
    with gen have arts: "artifacts = map artifact_of ?ks" and gens: "list_all generatable ?ks" by simp_all
    let ?step = "\<lambda>k. act_map_err (KernelCompilation (lk_id k)) (be_compile B (module_of (artifact_of k)))"
    have run: "compile_kernels B lp s = act_traverse (compile_kernel B) (enumerate 0 (map artifact_of ?ks)) s"
      using Inr arts by (simp add: compile_kernels_def act_bind_lift require_def)
    have step: "compile_kernel B (i, artifact_of (?ks ! i)) = (if transcendental (?ks ! i)
        then (\<lambda>s. (s, fail (PlanMathUnavailable i (opcode_of (lk_family (?ks ! i)))))) else ?step (?ks ! i))"
      if "i < length ?ks" for i using compile_kernel_eq [OF ids [OF that], of B] ids [OF that] that small by simp
    show ?thesis
    proof (cases "compile_kernels B lp s")
      case (Pair s' r)
      show ?thesis
      proof (cases r)
        case (Inl f)
        with Pair run act_traverse_Inl [of "compile_kernel B" "enumerate 0 (map artifact_of ?ks)" s s' f]
        obtain i u where i: "i < length ?ks" "compile_kernel B (i, artifact_of (?ks ! i)) u = (s', Inl f)" by auto
        with step [OF i(1)] ids [OF i(1)] gens have "kernels_blocked B lp s' f"
          by (auto simp: kernels_blocked_def split: if_splits)
        with Pair Inl show ?thesis by simp
      next
        case (Inr ks)
        note run' = Pair [unfolded run Inr]
        have none: "\<not> transcendental (?ks ! i)" if i: "i < length ?ks" for i
          using act_traverse_Inr [OF run', of i] step [OF i] i by (auto split: if_splits)
        with step ids have "act_traverse (compile_kernel B) (enumerate 0 (map artifact_of ?ks)) = act_traverse ?step ?ks"
          by (intro act_traverse_cong) simp_all
        with Pair Inr run gens none show ?thesis by (simp add: list_all_length)
      qed
    qed
  qed
qed

section \<open>Preparation\<close>

lemma prepare_decided:
  fixes B :: "('s, 'b, 'k, 't, 'v, 'e) backend"
  assumes wf: "plan_well_formed lp T"
  shows "case prepare_with_external_types B lp hints s of
      (s', Inl f) \<Rightarrow> s' = s \<and> blocked (be_capabilities B) lp T hints f \<or> compile_kernels B lp s = (s', Inl f)
    | (s', Inr p) \<Rightarrow> plan_sized lp T hints \<and>
        (\<exists>ks. p = prepared_plan_of lp T hints ks \<and> compile_kernels B lp s = (s', Inr ks))"
proof -
  have cons: "plan_consistent lp T" using wf by (simp add: plan_well_formed_def)
  note checks = prepare_checks [where ?'e = 'e, OF cons, of "be_capabilities B" hints]
  show ?thesis
  proof (cases "plan_checks (be_capabilities B) lp hints :: ('e prep_error, _) outcome")
    case (Inl f)
    with checks have "blocked (be_capabilities B) lp T hints f" by simp
    with Inl show ?thesis by (simp add: prepare_eq act_bind_lift)
  next
    case (Inr r)
    with checks have r: "r = (map prepared_dispatch_of (lp_instructions lp),
              map (\<lambda>s. \<lparr>sp_slot = s, sp_tensor_type = pt_slot T s\<rparr>) [0..<slot_count lp], slot_sizes_of lp T,
              external_specs_of lp T hints, external_sizes_of lp T hints,
              map (prepared_output_of lp T hints) (lp_outputs lp))" and sized: "plan_sized lp T hints" by simp_all
    have "prepare_with_external_types B lp hints s =
        act_bind (compile_kernels B lp) (\<lambda>ks. act_return (prepared_plan_of lp T hints ks)) s"
      using Inr unfolding r by (simp add: prepare_eq act_bind_lift prepared_plan_of_def)
    with sized show ?thesis
      by (auto simp: act_bind_def act_return_def split: prod.split sum.split)
  qed
qed

end
