(* ===== verification/Plan_Simulation.thy ===== *)
theory Plan_Simulation
  imports Plan_Prepared
begin

text \<open>
  Execution of a prepared plan on any backend that keeps the contract simulates the abstract machine
  of lowered plans: a slot buffer holds the bytes of the cell of its slot, an external buffer holds
  the bytes of the supplied value, and all buffers are distinct because every allocation is fresh.
\<close>

section \<open>What the Reference kernels compute\<close>

definition reference_kernels :: "arithmetic \<Rightarrow> element list kernel_semantics" where
  "reference_kernels A family tys out vs =
     kernel_spec A (artifact_of \<lparr>lk_id = 0, lk_family = family, lk_operands = tys, lk_result = out\<rparr>) vs"

abbreviation reference_operations :: "arithmetic \<Rightarrow> element list operation_semantics" where
  "reference_operations A \<equiv> direct_semantics (reference_kernels A)"

lemma reference_implements: "implements (reference_kernels A) (reference_operations A)"
  by (simp add: implements_def direct_semantics_def)

lemma kernel_spec_identifier: "kernel_spec A (a\<lparr>ra_kernel := i\<rparr>) vs = kernel_spec A a vs"
  by (simp add: kernel_spec_def matrix_plan_of_def cong: opcode.case_cong attributes.case_cong)

lemma kernel_spec_artifact:
  "kernel_spec A (artifact_of k) vs = reference_kernels A (lk_family k) (lk_operands k) (lk_result k) vs"
  using kernel_spec_identifier [of A 0 "artifact_of k" vs] by (simp add: reference_kernels_def artifact_of_def)

section \<open>The supplied values\<close>

definition supplied_of :: "external_entries \<Rightarrow> binding_id \<Rightarrow> element list" where
  "supplied_of entries b = the (map_of entries b)"

definition supply_accepted :: "nat \<Rightarrow> (nat \<Rightarrow> usize) \<Rightarrow> external_entries \<Rightarrow> bool" where
  "supply_accepted n bytes entries \<longleftrightarrow> distinct (map fst entries) \<and> fst ` set entries = {..<n} \<and>
     (\<forall>(b, v) \<in> set entries. length v = bytes b div 4)"

inductive supply_rejected :: "nat \<Rightarrow> (nat \<Rightarrow> usize) \<Rightarrow> external_entries \<Rightarrow> 'e exec_error \<Rightarrow> bool"
  for n bytes entries where
  unexpected: "(b, v) \<in> set entries \<Longrightarrow> n \<le> b \<Longrightarrow> supply_rejected n bytes entries (UnexpectedExternalValue b)"
| duplicate: "(b, v) \<in> set entries \<Longrightarrow> \<not> distinct (map fst entries) \<Longrightarrow> supply_rejected n bytes entries (DuplicateExternalValue b)"
| missing: "b < n \<Longrightarrow> b \<notin> fst ` set entries \<Longrightarrow> supply_rejected n bytes entries (MissingExternalValue b)"
| wrong_length: "(b, v) \<in> set entries \<Longrightarrow> b < n \<Longrightarrow> length v \<noteq> bytes b div 4 \<Longrightarrow>
    supply_rejected n bytes entries (ExternalValueLengthMismatch b (bytes b div 4) (length v))"

lemma decided_weaken: "decided Q P r \<Longrightarrow> (\<And>f. Q f \<Longrightarrow> Q' f) \<Longrightarrow> decided Q' P r"
  by (cases r) simp_all

lemma supply_step:
  assumes j: "j < length entries" and len: "length supplied = n"
    and inv: "distinct (map fst (take j entries)) \<and> (\<forall>b < n. supplied ! b = map_of (take j entries) b) \<and>
      fst ` set (take j entries) \<subseteq> {..<n}"
  shows "decided (\<lambda>f. \<exists>e. f = Err e \<and> supply_rejected n bytes entries e)
    (\<lambda>supplied'. length supplied' = n \<and> distinct (map fst (take (Suc j) entries)) \<and>
       (\<forall>b < n. supplied' ! b = map_of (take (Suc j) entries) b) \<and> fst ` set (take (Suc j) entries) \<subseteq> {..<n})
    (supply_value supplied (entries ! j) :: ('e exec_error, _) outcome)"
proof -
  obtain b v where entry: "entries ! j = (b, v)" by (cases "entries ! j")
  then have mem: "(b, v) \<in> set entries" using j nth_mem by metis
  have snoc: "take (Suc j) entries = take j entries @ [(b, v)]" using j entry by (simp add: take_Suc_conv_app_nth)
  consider "n \<le> b" | "b < n" "supplied ! b = None" | "b < n" "supplied ! b \<noteq> None" by fastforce
  then show ?thesis
  proof cases
    case 1
    with mem len supply_rejected.unexpected [OF mem 1] show ?thesis by (simp add: entry supply_value_def get_def)
  next
    case 2
    then have new: "b \<notin> fst ` set (take j entries)" using inv by (simp add: map_of_eq_None_iff)
    have "supply_value supplied (entries ! j) = (Inr (supplied[b := Some v]) :: ('e exec_error, _) outcome)"
      using 2 len by (simp add: entry supply_value_def)
    moreover have "map_of (take (Suc j) entries) c = (if c = b then Some v else map_of (take j entries) c)" for c
      using map_of_eq_None_iff [THEN iffD2, OF new] by (simp add: snoc map_add_def split: option.split)
    ultimately show ?thesis
      using 2(1) len inv new by (auto simp: snoc nth_list_update)
  next
    case 3
    then have "b \<in> fst ` set (take j entries)" using inv by (auto simp: map_of_eq_None_iff)
    then obtain i where "i < j" "fst (entries ! i) = b" using j by (auto simp: in_set_conv_nth)
    then have "\<not> distinct (map fst entries)"
      using j entry by (auto dest!: nth_eq_iff_index_eq [of "map fst entries" i j])
    with 3 len supply_rejected.duplicate [OF mem] show ?thesis by (simp add: entry supply_value_def get_def)
  qed
qed

lemma resolve_external_values_decided:
  assumes small: "length (pr_externals p) \<le> u32_range" and sizes: "length (pr_external_sizes p) = length (pr_externals p)"
  shows "decided (\<lambda>f. \<exists>e. f = Err e \<and> supply_rejected (length (pr_externals p)) ((!) (pr_external_sizes p)) entries e)
    (\<lambda>vs. supply_accepted (length (pr_externals p)) ((!) (pr_external_sizes p)) entries \<and>
       vs = map (supplied_of entries) [0..<length (pr_externals p)])
    (resolve_external_values p entries)"
proof -
  let ?n = "length (pr_externals p)" and ?size = "(!) (pr_external_sizes p)"
  let ?Q = "\<lambda>f. \<exists>e. f = Err e \<and> supply_rejected ?n ?size entries e"
  have fold: "decided ?Q (\<lambda>supplied. length supplied = ?n \<and> distinct (map fst (take (length entries) entries)) \<and>
       (\<forall>b < ?n. supplied ! b = map_of (take (length entries) entries) b) \<and>
       fst ` set (take (length entries) entries) \<subseteq> {..<?n})
    (try_fold supply_value (replicate ?n None) entries)"
    by (rule decided_try_fold [where P = "\<lambda>j supplied. length supplied = ?n \<and> distinct (map fst (take j entries)) \<and>
       (\<forall>b < ?n. supplied ! b = map_of (take j entries) b) \<and> fst ` set (take j entries) \<subseteq> {..<?n}"])
      (auto intro!: supply_step)
  show ?thesis
    unfolding resolve_external_values_def decided_bind
  proof (rule decided_mono [OF fold])
    fix supplied assume sup: "length supplied = ?n \<and> distinct (map fst (take (length entries) entries)) \<and>
       (\<forall>b < ?n. supplied ! b = map_of (take (length entries) entries) b) \<and>
       fst ` set (take (length entries) entries) \<subseteq> {..<?n}"
    have "decided ?Q (\<lambda>vs. vs = map (supplied_of entries) [0..<length (enumerate 0 supplied)] \<and>
        (\<forall>b < length (enumerate 0 supplied). \<exists>v. map_of entries b = Some v \<and> length v = ?size b div 4))
      (traverse (resolve_supplied p) (enumerate 0 supplied))"
    proof (rule decided_traverse)
      fix b assume "b < length (enumerate 0 supplied)"
      then have b: "b < ?n" using sup by simp
      then have index: "index_as_u32 b = b" using small by (simp add: index_as_u32_def)
      show "decided ?Q (\<lambda>v. v = supplied_of entries b \<and> (\<exists>v. map_of entries b = Some v \<and> length v = ?size b div 4))
        (resolve_supplied p (enumerate 0 supplied ! b))"
      proof (cases "map_of entries b")
        case None
        with supply_rejected.missing [OF b] have "supply_rejected ?n ?size entries (MissingExternalValue b)"
          by (simp add: map_of_eq_None_iff)
        with None b sup index show ?thesis by (simp add: resolve_supplied_def Let_def)
      next
        case (Some v)
        then have "(b, v) \<in> set entries" by (rule map_of_SomeD)
        with Some b sup index sizes show ?thesis
          by (auto simp: resolve_supplied_def Let_def supplied_of_def intro: supply_rejected.wrong_length)
      qed
    qed
    then show "decided ?Q (\<lambda>vs. supply_accepted ?n ?size entries \<and> vs = map (supplied_of entries) [0..<?n])
        (traverse (resolve_supplied p) (enumerate 0 supplied))"
    proof (rule decided_mono)
      fix vs assume vs: "vs = map (supplied_of entries) [0..<length (enumerate 0 supplied)] \<and>
        (\<forall>b < length (enumerate 0 supplied). \<exists>v. map_of entries b = Some v \<and> length v = ?size b div 4)"
      have total: "\<exists>v. map_of entries b = Some v \<and> length v = ?size b div 4" if "b < ?n" for b using vs sup that by simp
      have keys: "fst ` set entries \<subseteq> {..<?n}" and dist: "distinct (map fst entries)" using sup by simp_all
      have "b \<in> fst ` set entries" if "b < ?n" for b using total [OF that] by (force dest: map_of_SomeD)
      with keys have "fst ` set entries = {..<?n}" by auto
      moreover have "length v = ?size b div 4" if "(b, v) \<in> set entries" for b v
      proof -
        have "b < ?n" using keys that by force
        with total map_of_is_SomeI [OF dist that] show ?thesis by fastforce
      qed
      ultimately show "supply_accepted ?n ?size entries \<and> vs = map (supplied_of entries) [0..<?n]"
        using vs sup by (auto simp: supply_accepted_def)
    qed
  qed
qed

section \<open>The memory of a run\<close>

definition memory_ok ::
  "('b \<rightharpoonup> u8 list) \<Rightarrow> lowered_plan \<Rightarrow> plan_typing \<Rightarrow> (node_id \<times> tensor_type) list \<Rightarrow> (binding_id \<Rightarrow> element list) \<Rightarrow>
     'b list \<Rightarrow> 'b list \<Rightarrow> element list cells \<Rightarrow> bool" where
  "memory_ok bytes lp T hints ext sb eb cells \<longleftrightarrow>
     length sb = slot_count lp \<and> length eb = length (lp_bindings lp) \<and> distinct (sb @ eb) \<and>
     (\<forall>s < slot_count lp. \<exists>bs. bytes (sb ! s) = Some bs \<and> length bs = value_bytes (pt_slot T s) \<and>
        (\<forall>v. cells s = Some v \<longrightarrow> bs = element_bytes v)) \<and>
     (\<forall>b < length (lp_bindings lp). bytes (eb ! b) = Some (element_bytes (ext b)) \<and>
        4 * length (ext b) = value_bytes (binding_type lp T hints b))"

lemma memory_write:
  assumes mem: "memory_ok bytes lp T hints ext sb eb cells" and s: "s < slot_count lp"
    and len: "4 * length v = value_bytes (pt_slot T s)"
  shows "memory_ok (bytes(sb ! s \<mapsto> element_bytes v)) lp T hints ext sb eb (cells(s \<mapsto> v))"
proof -
  have dist: "sb ! t = sb ! s \<longleftrightarrow> t = s" if "t < slot_count lp" for t
    using mem s that by (auto simp: memory_ok_def nth_eq_iff_index_eq)
  have other: "eb ! b \<noteq> sb ! s" if "b < length (lp_bindings lp)" for b
  proof -
    have "eb ! b \<in> set eb" "sb ! s \<in> set sb" using mem s that by (simp_all add: memory_ok_def)
    with mem show ?thesis by (auto simp: memory_ok_def)
  qed
  from mem len dist other show ?thesis by (auto simp: memory_ok_def)
qed

text \<open>The sources a plan may read.\<close>

definition source_in_range :: "lowered_plan \<Rightarrow> argument_source \<Rightarrow> bool" where
  "source_in_range lp source \<longleftrightarrow>
     (case source of FromBuffer s \<Rightarrow> s < slot_count lp
      | FromInput b \<Rightarrow> b < length (lp_bindings lp) | FromConstant b \<Rightarrow> b < length (lp_bindings lp))"

definition source_buffer :: "'b list \<Rightarrow> 'b list \<Rightarrow> argument_source \<Rightarrow> 'b" where
  "source_buffer sb eb source = (case source of FromBuffer s \<Rightarrow> sb ! s | FromInput b \<Rightarrow> eb ! b | FromConstant b \<Rightarrow> eb ! b)"

lemma memory_read:
  assumes mem: "memory_ok bytes lp T hints ext sb eb cells" and range: "source_in_range lp source"
  shows "target_buffer sb eb (source_target source) = Some (source_buffer sb eb source) \<and>
    (\<exists>bs. bytes (source_buffer sb eb source) = Some bs \<and> length bs = value_bytes (source_type lp T hints source) \<and>
      (\<forall>v. read_source ext cells source = Some v \<longrightarrow> bs = element_bytes v))"
  using assms
  by (cases source)
    (auto simp: source_in_range_def memory_ok_def target_buffer_def source_target_def source_buffer_def source_type_def
      read_source_def get_def)

section \<open>The arguments of a dispatch\<close>

lemma consistent_arguments:
  assumes ic: "instruction_consistent lp T d"
  defines "n \<equiv> length (lk_operands (lp_kernels lp ! li_kernel d))"
  shows "filter (\<lambda>a. ka_access a = ReadAccess) (li_arguments d) = take n (li_arguments d)"
    and "filter (\<lambda>a. ka_access a = WriteAccess) (li_arguments d) = [li_arguments d ! n]"
    and "length (li_arguments d) = Suc n"
proof -
  let ?as = "li_arguments d"
  have len: "length ?as = Suc n" and reads: "\<forall>p < n. ka_access (?as ! p) = ReadAccess" and out: "ka_access (?as ! n) = WriteAccess"
    using ic by (auto simp: instruction_consistent_def Let_def n_def)
  have split: "?as = take n ?as @ [?as ! n]" using len by (metis lessI take_Suc_conv_app_nth take_all_iff order_refl)
  have read: "\<forall>a \<in> set (take n ?as). ka_access a = ReadAccess" using reads len by (auto simp: in_set_conv_nth)
  then have "filter (\<lambda>a. ka_access a = ReadAccess) (take n ?as) = take n ?as"
    "filter (\<lambda>a. ka_access a = WriteAccess) (take n ?as) = []"
    by (simp_all only: filter_id_conv filter_empty_conv) simp
  with out show "filter (\<lambda>a. ka_access a = ReadAccess) ?as = take n ?as"
    "filter (\<lambda>a. ka_access a = WriteAccess) ?as = [?as ! n]"
    using arg_cong [OF split, of "filter (\<lambda>a. ka_access a = ReadAccess)"] arg_cong [OF split, of "filter (\<lambda>a. ka_access a = WriteAccess)"]
    by simp_all
  show "length ?as = Suc n" by (rule len)
qed

lemma those_Some: "those xs = Some ys \<Longrightarrow> length ys = length xs \<and> (\<forall>i < length xs. xs ! i = Some (ys ! i))"
proof (induction xs arbitrary: ys)
  case (Cons x xs)
  then show ?case by (cases x) (auto simp: less_Suc_eq_0_disj)
qed simp

lemma run_dispatch_Some:
  assumes ic: "instruction_consistent lp T d" and run: "run_dispatch ksem ext (lp_kernels lp) cells d = Some cells'"
  defines "kern \<equiv> lp_kernels lp ! li_kernel d"
  obtains vs s where "length vs = length (lk_operands kern)"
    "\<forall>p < length (lk_operands kern). read_source ext cells (ka_source (li_arguments d ! p)) = Some (vs ! p)"
    "ka_source (li_arguments d ! length (lk_operands kern)) = FromBuffer s"
    "cells' = cells(s \<mapsto> ksem (lk_family kern) (lk_operands kern) (lk_result kern) vs)"
proof -
  note args = consistent_arguments [OF ic, folded kern_def]
  have k: "get (lp_kernels lp) (li_kernel d) = Some kern"
    using ic by (simp add: instruction_consistent_def Let_def kern_def)
  from ic obtain s where s: "ka_source (li_arguments d ! length (lk_operands kern)) = FromBuffer s"
    by (auto simp: instruction_consistent_def Let_def kern_def)
  from run k args s obtain vs where vs: "those (map (\<lambda>a. read_source ext cells (ka_source a)) (take (length (lk_operands kern)) (li_arguments d))) = Some vs"
    "cells' = cells(s \<mapsto> ksem (lk_family kern) (lk_operands kern) (lk_result kern) vs)"
    by (auto simp: run_dispatch_def bind_eq_Some_conv)
  show ?thesis by (rule that [OF _ _ s vs(2)]) (use those_Some [OF vs(1)] args(3) in simp_all)
qed

text \<open>The ranges of a dispatch on the buffers of a run.\<close>

definition dispatch_range :: "'b list \<Rightarrow> 'b list \<Rightarrow> kernel_argument \<Rightarrow> 'b \<times> usize" where
  "dispatch_range sb eb a = (source_buffer sb eb (ka_source a), value_bytes (ka_tensor_type a))"

definition dispatch_bindings ::
  "'b list \<Rightarrow> 'b list \<Rightarrow> nat \<Rightarrow> kernel_argument list \<Rightarrow> 'b buffer_binding list" where
  "dispatch_bindings sb eb n as = abi_bindings (map (dispatch_range sb eb) (take n as)) (dispatch_range sb eb (as ! n))"

lemma argument_in_range:
  assumes cons: "plan_consistent lp T" and d: "d \<in> set (lp_instructions lp)" and a: "a \<in> set (li_arguments d)"
  shows "source_in_range lp (ka_source a) \<and>
    (ka_tensor_type a = source_type lp T hints (ka_source a))"
proof -
  have "instruction_consistent lp T d" using cons d unfolding plan_consistent_def by blast
  then have typed: "source_typed lp T (ka_source a) (ka_tensor_type a)" using a by (rule instruction_sources)
  have ref: "referenced lp (ka_source a)" using d a unfolding referenced_def by blast
  from typed ref referenced_slots(1) [OF cons] show ?thesis
    by (cases "ka_source a")
      (simp_all add: source_typed_def source_in_range_def source_type_def binding_type_def external_type_def consumed_def)
qed

lemma bind_arguments:
  assumes cons: "plan_consistent lp T" and d: "d \<in> set (lp_instructions lp)"
    and mem: "memory_ok bytes lp T hints ext sb eb cells"
  shows "(traverse (bind_argument sb eb j) (map prepared_argument_of (li_arguments d)) :: ('e exec_error, _) outcome) =
    Inr (dispatch_bindings sb eb (length (lk_operands (lp_kernels lp ! li_kernel d))) (li_arguments d))"
proof -
  let ?n = "length (lk_operands (lp_kernels lp ! li_kernel d))" and ?as = "li_arguments d"
  have ic: "instruction_consistent lp T d" using cons d unfolding plan_consistent_def by blast
  note len = consistent_arguments(3) [OF ic]
  have "(bind_argument sb eb j (prepared_argument_of (?as ! p)) :: ('e exec_error, _) outcome) = Inr (dispatch_bindings sb eb ?n ?as ! p)"
    if p: "p < Suc ?n" for p
  proof -
    have "?as ! p \<in> set ?as" using p len by simp
    with argument_in_range [OF cons d] have "source_in_range lp (ka_source (?as ! p))" by blast
    from memory_read [OF mem this] have "target_buffer sb eb (source_target (ka_source (?as ! p))) =
        Some (source_buffer sb eb (ka_source (?as ! p)))" by blast
    moreover have "ka_index (?as ! p) = p" using ic p by (simp add: instruction_consistent_def Let_def)
    moreover have "ka_access (?as ! p) = (if p < ?n then ReadAccess else WriteAccess)"
      using ic p by (auto simp: instruction_consistent_def Let_def less_Suc_eq)
    ultimately show ?thesis
      using p len abi_bindings_nth(2) [of p "map (dispatch_range sb eb) (take ?n ?as)" "dispatch_range sb eb (?as ! ?n)"]
        abi_bindings_nth(3) [of "map (dispatch_range sb eb) (take ?n ?as)" "dispatch_range sb eb (?as ! ?n)"]
      by (auto simp: bind_argument_def prepared_argument_of_def dispatch_bindings_def dispatch_range_def less_Suc_eq)
  qed
  then show ?thesis using len by (simp add: traverse_Inr dispatch_bindings_def abi_bindings_nth(1))
qed

lemma dispatch_bound:
  assumes cons: "plan_consistent lp T" and d: "d \<in> set (lp_instructions lp)"
    and mem: "memory_ok bytes lp T hints ext sb eb cells" and a: "a \<in> set (li_arguments d)"
  shows "bound bytes (dispatch_range sb eb a) \<and>
    (\<forall>v. read_source ext cells (ka_source a) = Some v \<longrightarrow> bound_elements bytes (dispatch_range sb eb a) = v)"
  using memory_read [OF mem conjunct1 [OF argument_in_range [OF cons d a, of hints]]]
    argument_in_range [OF cons d a, of hints]
  by (auto simp: bound_def bound_elements_def dispatch_range_def)

text \<open>A batch of allocations: fresh, distinct, of the requested sizes; nothing else changes.\<close>

definition allocated_batch :: "('b \<rightharpoonup> u8 list) \<Rightarrow> ('b \<rightharpoonup> u8 list) \<Rightarrow> usize list \<Rightarrow> 'b list \<Rightarrow> bool" where
  "allocated_batch bytes bytes' sizes bs \<longleftrightarrow>
     distinct bs \<and> (\<forall>b \<in> set bs. bytes b = None) \<and> (\<forall>b. b \<notin> set bs \<longrightarrow> bytes' b = bytes b) \<and>
     (\<forall>i < length bs. \<exists>data. bytes' (bs ! i) = Some data \<and> length data = sizes ! i)"

lemma decode_element_bytes [simp]: "decode_le (element_bytes v) k = Inr v"
  by (simp add: decode_le_def as_chunks4_bytes comp_def u32.dec_enc)

lemma run_dispatches_prefix:
  assumes "run_dispatches ksem ext kernels ds = Some cells"
  shows "\<exists>c. run_dispatches ksem ext kernels (take j ds) = Some c"
proof -
  have none: "foldl (\<lambda>cells d. Option.bind cells (\<lambda>cells. run_dispatch ksem ext kernels cells d)) None xs = None" for xs
    by (induction xs) simp_all
  let ?step = "\<lambda>cells d. Option.bind cells (\<lambda>cells. run_dispatch ksem ext kernels cells d)"
  have "foldl ?step (foldl ?step (Some Map.empty) (take j ds)) (drop j ds) = Some cells"
    using assms by (simp add: run_dispatches_def flip: List.foldl_append)
  with none show ?thesis
    by (cases "foldl ?step (Some Map.empty) (take j ds)") (simp_all add: run_dispatches_def)
qed

definition output_value_of ::
  "lowered_plan \<Rightarrow> plan_typing \<Rightarrow> (node_id \<times> tensor_type) list \<Rightarrow> lowered_output \<Rightarrow> element list \<Rightarrow> plan_output_value" where
  "output_value_of lp T hints out v =
     \<lparr>ov_node = lo_node out, ov_tensor_type = source_type lp T hints (lo_source out), ov_values = v\<rparr>"

text \<open>Hints that tell the type of the graph.\<close>

lemma honest_binding:
  assumes sized: "plan_sized lp T hints" and T: "pt_binding T b = ty (eb_node (lp_bindings lp ! b))"
    and hints: "\<forall>(n, t) \<in> set hints. t = ty n" and b: "b < length (lp_bindings lp)"
  shows "binding_type lp T hints b = ty (eb_node (lp_bindings lp ! b))"
proof -
  from sized b obtain t where "external_type lp T hints b = Some t" by (auto simp: plan_sized_def)
  with T hints show ?thesis
    by (auto simp: binding_type_def external_type_def hint_for_def split: if_splits dest!: map_of_SomeD)
qed

lemma lower_plan_outputs:
  assumes "lower_plan plan bindings = Inr lp"
  shows "map lo_node (lp_outputs lp) = ep_outputs plan" "lp_bindings lp = bindings"
proof -
  from assms obtain vals ids where outs: "traverse (lower_output vals ids) (ep_outputs plan) = Inr (lp_outputs lp)"
    and b: "lp_bindings lp = bindings" by (rule lower_plan_Inr)
  have "lower_output vals ids n = Inr out \<Longrightarrow> lo_node out = n" for n out
    by (auto simp: lower_output_def outcome_simps)
  with outs show "map lo_node (lp_outputs lp) = ep_outputs plan"
    by (intro nth_equalityI) (auto simp: traverse_Inr)
  show "lp_bindings lp = bindings" by (rule b)
qed

lemma reference_run:
  assumes "compile g = Inr plan" and "length (graph_nodes g) \<le> u32_range" and "lower_plan plan bindings = Inr lp"
  shows "run_lowered (reference_kernels A) (\<lambda>b. ext (eb_node (bindings ! b))) lp =
    Some (map (\<lambda>out. Some (node_value (reference_operations A) ext (graph_nodes g) (lo_node out))) (lp_outputs lp))"
proof -
  have nodes: "map lo_node (lp_outputs lp) = graph_outputs g"
    using lower_plan_outputs(1) [OF assms(3)] compiled_safe(4) [OF assms(1,2)] by simp
  show ?thesis
    using lowered_values [OF assms reference_implements, of A ext] by (simp add: comp_def flip: nodes)
qed

text \<open>The supply of a prepared plan.\<close>

lemma supply_accepted_cong:
  assumes "\<And>b. b < n \<Longrightarrow> f b = g b"
  shows "supply_accepted n f entries = supply_accepted n g entries"
proof -
  have "b < n" if "fst ` set entries = {..<n}" "(b, v) \<in> set entries" for b v using that by (force simp: image_iff)
  then have "(\<forall>(b, v) \<in> set entries. length v = f b div 4) = (\<forall>(b, v) \<in> set entries. length v = g b div 4)"
    if "fst ` set entries = {..<n}" using assms that by (intro ball_cong refl) (auto split: prod.splits)
  then show ?thesis unfolding supply_accepted_def by blast
qed

lemma supply_rejected_cong:
  "supply_rejected n f entries e \<Longrightarrow> (\<And>b. b < n \<Longrightarrow> f b = g b) \<Longrightarrow> supply_rejected n g entries e"
  by (erule supply_rejected.cases) (auto intro: supply_rejected.intros)

lemma supplied_decided:
  fixes ks :: "'k list"
  assumes cons: "plan_consistent lp T"
  shows "decided (\<lambda>f. \<exists>e. f = Err e \<and> supply_rejected (length (lp_bindings lp)) (\<lambda>b. value_bytes (binding_type lp T hints b)) entries e)
    (\<lambda>vs. supply_accepted (length (lp_bindings lp)) (\<lambda>b. value_bytes (binding_type lp T hints b)) entries \<and>
       vs = map (supplied_of entries) [0..<length (lp_bindings lp)])
    (resolve_external_values (prepared_plan_of lp T hints ks) entries :: ('e exec_error, _) outcome)"
proof -
  let ?p = "prepared_plan_of lp T hints ks" and ?n = "length (lp_bindings lp)"
  have n: "length (pr_externals ?p) = ?n" "length (pr_external_sizes ?p) = ?n" "length (lp_bindings lp) \<le> u32_range"
    using cons by (simp_all add: prepared_plan_of_def external_specs_of_def external_sizes_of_def plan_consistent_def)
  have size: "pr_external_sizes ?p ! b = value_bytes (binding_type lp T hints b)" if "b < ?n" for b
    using that by (simp add: prepared_plan_of_def external_sizes_of_def)
  have "decided (\<lambda>f. \<exists>e. f = Err e \<and> supply_rejected ?n ((!) (pr_external_sizes ?p)) entries e)
      (\<lambda>vs. supply_accepted ?n ((!) (pr_external_sizes ?p)) entries \<and> vs = map (supplied_of entries) [0..<?n])
      (resolve_external_values ?p entries :: ('e exec_error, _) outcome)"
    using resolve_external_values_decided [of ?p entries] n by simp
  then show ?thesis
    using supply_accepted_cong [OF size, where entries = entries] by (auto elim!: decided_weaken intro: supply_rejected_cong [OF _ size])
qed

lemma supplied_length:
  assumes "supply_accepted n (\<lambda>b. value_bytes (ty b)) entries"
  shows "\<forall>b < n. 4 * length (supplied_of entries b) = value_bytes (ty b)"
proof (intro allI impI)
  fix b assume "b < n"
  then have "b \<in> fst ` set entries" using assms by (simp add: supply_accepted_def)
  then obtain v where v: "map_of entries b = Some v" by (metis (no_types, lifting) imageE map_of_eq_None_iff not_None_eq prod.collapse)
  then have "length v = value_bytes (ty b) div 4" using assms by (fastforce simp: supply_accepted_def dest: map_of_SomeD)
  with v show "4 * length (supplied_of entries b) = value_bytes (ty b)" by (simp add: supplied_of_def value_bytes_def)
qed

lemma supplied_agree:
  assumes "supply_accepted n f entries" and "\<forall>(b, v) \<in> set entries. ext b = v" and "b < n"
  shows "supplied_of entries b = ext b"
proof -
  have "b \<in> fst ` set entries" using assms(1,3) by (simp add: supply_accepted_def)
  then obtain v where "map_of entries b = Some v" by (metis map_of_eq_None_iff not_None_eq)
  with assms(2) show ?thesis by (auto simp: supplied_of_def dest!: map_of_SomeD)
qed

lemma output_in_range:
  assumes cons: "plan_consistent lp T"
  shows "\<forall>out \<in> set (lp_outputs lp). source_in_range lp (lo_source out)"
proof
  fix out assume "out \<in> set (lp_outputs lp)"
  with cons have "case lo_source out of FromBuffer s \<Rightarrow> referenced lp (FromBuffer s)
      | FromInput b \<Rightarrow> b < length (lp_bindings lp) | FromConstant b \<Rightarrow> b < length (lp_bindings lp)"
    unfolding plan_consistent_def by blast
  then show "source_in_range lp (lo_source out)"
    using referenced_slots(1) [OF cons] by (simp add: source_in_range_def split: argument_source.splits)
qed

context reference_backend
begin

lemma dispatch_simulated:
  assumes cons: "plan_consistent lp T" and d: "d \<in> set (lp_instructions lp)"
    and mem: "memory_ok (bytes_of s) lp T hints ext sb eb cells"
    and kernels: "length ks = length (lp_kernels lp)" "\<forall>i < length ks. compiled (ks ! i) (artifact_of (lp_kernels lp ! i))"
    and cells: "run_dispatch (reference_kernels A) ext (lp_kernels lp) cells d = Some cells'"
    and run: "execute_dispatch B (prepared_plan_of lp T hints ks) sb eb st (j, prepared_dispatch_of d) s = (s', Inr ())"
  shows "memory_ok (bytes_of s') lp T hints ext sb eb cells'"
proof -
  let ?kern = "lp_kernels lp ! li_kernel d"
  let ?n = "length (lk_operands ?kern)" and ?as = "li_arguments d" and ?range = "dispatch_range sb eb"
  have ic: "instruction_consistent lp T d" using cons d unfolding plan_consistent_def by blast
  have k: "li_kernel d < length ks" using ic kernels(1) by (simp add: instruction_consistent_def Let_def)
  note len = consistent_arguments(3) [OF ic]
  from run k obtain u ev where launch: "be_launch B (ks ! li_kernel d) st canonical_launch_config
      (abi_bindings (map ?range (take ?n ?as)) (?range (?as ! ?n))) s = (u, Inr ev)" and wait: "be_wait B ev u = (s', Inr ())"
    by (auto simp: execute_dispatch_def prepared_plan_of_def prepared_dispatch_of_def act_simps bind_arguments [OF cons d mem]
        dispatch_bindings_def)
  from run_dispatch_Some [OF ic cells] obtain vs t where vs: "length vs = ?n"
    "\<forall>p < ?n. read_source ext cells (ka_source (?as ! p)) = Some (vs ! p)"
    and t: "ka_source (?as ! ?n) = FromBuffer t"
    and cells': "cells' = cells(t \<mapsto> reference_kernels A (lk_family ?kern) (lk_operands ?kern) (lk_result ?kern) vs)" .
  have inputs: "map (bound_elements (bytes_of s)) (map ?range (take ?n ?as)) = vs"
    using vs len dispatch_bound [OF cons d mem] by (intro nth_equalityI) simp_all
  have bnd: "\<forall>p \<in> set (?range (?as ! ?n) # map ?range (take ?n ?as)). bound (bytes_of s) p"
    using dispatch_bound [OF cons d mem] len by (auto dest: in_set_takeD)
  from launch_law [OF _ launch bnd, of "artifact_of ?kern"] kernels k
  have launched: "4 * length (kernel_spec A (artifact_of ?kern) vs) = snd (?range (?as ! ?n))"
    "bytes_of u = (bytes_of s)(fst (?range (?as ! ?n)) \<mapsto> element_bytes (kernel_spec A (artifact_of ?kern) vs))"
    unfolding inputs by simp_all
  have last: "?as ! ?n \<in> set ?as" using len by simp
  note range = argument_in_range [OF cons d last, of hints]
  then have slot: "t < slot_count lp" "snd (?range (?as ! ?n)) = value_bytes (pt_slot T t)" "fst (?range (?as ! ?n)) = sb ! t"
    using t by (simp_all add: source_in_range_def dispatch_range_def source_type_def source_buffer_def)
  have "memory_ok ((bytes_of s)(sb ! t \<mapsto> element_bytes (kernel_spec A (artifact_of ?kern) vs))) lp T hints ext sb eb cells'"
    unfolding cells' kernel_spec_artifact by (rule memory_write [OF mem slot(1)]) (use launched(1) slot(2) in \<open>simp add: kernel_spec_artifact\<close>)
  then show ?thesis using launched(2) slot(3) wait_law [OF wait] by simp
qed

lemma allocate_step:
  assumes "runtime_allocate B n s = (s', Inr b)" and "allocated_batch bytes (bytes_of s) sizes bs"
    and "n = sizes ! length bs"
  shows "allocated_batch bytes (bytes_of s') sizes (bs @ [b])"
proof -
  from assms(1) have "be_allocate B n 1 HostMemory s = (s', Inr b)" by (simp add: runtime_allocate_def act_simps)
  from allocate_law [OF this] obtain data where new: "bytes_of s b = None" "length data = n"
    "bytes_of s' = (bytes_of s)(b \<mapsto> data)" by blast
  have "b \<notin> set bs"
  proof
    assume "b \<in> set bs"
    then obtain i where "i < length bs" "b = bs ! i" by (auto simp: in_set_conv_nth)
    with assms(2) new(1) show False by (auto simp: allocated_batch_def)
  qed
  moreover from this have "bytes b = None" using assms(2) new(1) by (simp add: allocated_batch_def)
  ultimately show ?thesis using assms(2,3) new by (auto simp: allocated_batch_def nth_append less_Suc_eq)
qed

lemma allocate_batch:
  assumes "act_traverse (runtime_allocate B) sizes s = (s', Inr bs)"
  shows "length bs = length sizes \<and> allocated_batch (bytes_of s) (bytes_of s') sizes bs"
  using assms
proof (rule act_traverse_invariant)
  show "allocated_batch (bytes_of s) (bytes_of s) sizes []" by (simp add: allocated_batch_def)
qed (auto intro: allocate_step)

text \<open>Importing the supplied values into the external buffers.\<close>

lemma import_step:
  assumes run: "import_value B eb (i, v) s = (s', Inr ())" and i: "i < length eb"
    and old: "bytes_of s (eb ! i) = Some data" "length data = 4 * length v"
  shows "bytes_of s' = (bytes_of s)(eb ! i \<mapsto> element_bytes v)"
proof -
  from run i have "be_write B (eb ! i) 0 (element_bytes v) s = (s', Inr ())" by (simp add: import_value_def act_simps)
  from write_law [OF this old(1)] old(2) show ?thesis by simp
qed

lemma import_values:
  assumes run: "act_for_each (import_value B eb) (enumerate 0 vs) s = (s', Inr u)"
    and len: "length vs = length eb" and dist: "distinct eb"
    and sized: "\<forall>i < length eb. \<exists>data. bytes_of s (eb ! i) = Some data \<and> length data = 4 * length (vs ! i)"
  shows "(\<forall>i < length eb. bytes_of s' (eb ! i) = Some (element_bytes (vs ! i))) \<and>
    (\<forall>b. b \<notin> set eb \<longrightarrow> bytes_of s' b = bytes_of s b)"
proof -
  let ?P = "\<lambda>k t. (\<forall>i < length eb. if i < k then bytes_of t (eb ! i) = Some (element_bytes (vs ! i))
      else bytes_of t (eb ! i) = bytes_of s (eb ! i)) \<and> (\<forall>b. b \<notin> set eb \<longrightarrow> bytes_of t b = bytes_of s b)"
  have "?P (length (enumerate 0 vs)) s'"
    using run
  proof (rule act_for_each_invariant)
    fix i t t' assume i: "i < length (enumerate 0 vs)" and inv: "?P i t" and step: "import_value B eb (enumerate 0 vs ! i) t = (t', Inr ())"
    then have il: "i < length eb" using len by simp
    with sized obtain data where "bytes_of s (eb ! i) = Some data" "length data = 4 * length (vs ! i)" by blast
    moreover have "bytes_of t (eb ! i) = bytes_of s (eb ! i)" using inv il by (metis less_irrefl)
    ultimately have "bytes_of t' = (bytes_of t)(eb ! i \<mapsto> element_bytes (vs ! i))"
      using import_step [of eb i "vs ! i" t t' data] step il len by simp
    with inv il dist show "?P (Suc i) t'" by (auto simp: less_Suc_eq nth_eq_iff_index_eq)
  qed simp
  with len show ?thesis by simp
qed

text \<open>The memory before the first dispatch.\<close>

lemma initial_memory:
  assumes slots: "act_traverse (runtime_allocate B) (slot_sizes_of lp T) s0 = (s1, Inr sb)"
    and externals: "act_traverse (runtime_allocate B) (external_sizes_of lp T hints) s1 = (s2, Inr eb)"
    and import: "act_for_each (import_value B eb) (enumerate 0 (map ext [0..<length (lp_bindings lp)])) s2 = (s3, Inr u)"
    and sizes: "\<forall>b < length (lp_bindings lp). 4 * length (ext b) = value_bytes (binding_type lp T hints b)"
  shows "memory_ok (bytes_of s3) lp T hints ext sb eb Map.empty"
proof -
  note s = allocate_batch [OF slots] and e = allocate_batch [OF externals]
  have len: "length sb = slot_count lp" "length eb = length (lp_bindings lp)"
    using s e by (simp_all add: slot_sizes_of_def external_sizes_of_def)
  have disj: "set sb \<inter> set eb = {}"
  proof (rule ccontr)
    assume "set sb \<inter> set eb \<noteq> {}"
    then obtain b where b: "b \<in> set sb" "b \<in> set eb" by blast
    then obtain i where "i < length sb" "sb ! i = b" by (auto simp: in_set_conv_nth)
    with s have "bytes_of s1 b \<noteq> None" by (auto simp: allocated_batch_def)
    with e b(2) show False by (simp add: allocated_batch_def)
  qed
  have "\<forall>i < length eb. \<exists>data. bytes_of s2 (eb ! i) = Some data \<and> length data = 4 * length (map ext [0..<length (lp_bindings lp)] ! i)"
    using e len sizes by (simp add: allocated_batch_def external_sizes_of_def)
  moreover have "distinct eb" using e by (simp add: allocated_batch_def)
  ultimately have imported:
    "\<forall>i < length eb. bytes_of s3 (eb ! i) = Some (element_bytes (ext i))" "\<forall>b. b \<notin> set eb \<longrightarrow> bytes_of s3 b = bytes_of s2 b"
    using import_values [OF import] len by simp_all
  have "\<exists>data. bytes_of s3 (sb ! i) = Some data \<and> length data = value_bytes (pt_slot T i)" if i: "i < slot_count lp" for i
  proof -
    have "sb ! i \<in> set sb" using i len(1) by simp
    then have "sb ! i \<notin> set eb" using disj by (simp add: disjoint_iff)
    then have "bytes_of s3 (sb ! i) = bytes_of s2 (sb ! i)" "bytes_of s2 (sb ! i) = bytes_of s1 (sb ! i)"
      using imported(2) conjunct2 [OF e, unfolded allocated_batch_def] by blast+
    moreover have "\<exists>data. bytes_of s1 (sb ! i) = Some data \<and> length data = slot_sizes_of lp T ! i"
      using conjunct2 [OF s, unfolded allocated_batch_def] i len(1) by simp
    ultimately show ?thesis using i by (simp add: slot_sizes_of_def)
  qed
  moreover have "distinct (sb @ eb)" using s e disj by (simp add: allocated_batch_def)
  ultimately show ?thesis using imported(1) len sizes by (simp add: memory_ok_def)
qed

text \<open>The dispatches.\<close>

lemma dispatches_simulated:
  assumes cons: "plan_consistent lp T" and mem: "memory_ok (bytes_of s) lp T hints ext sb eb Map.empty"
    and kernels: "length ks = length (lp_kernels lp)" "\<forall>i < length ks. compiled (ks ! i) (artifact_of (lp_kernels lp ! i))"
    and cells: "run_dispatches (reference_kernels A) ext (lp_kernels lp) (lp_instructions lp) = Some cells"
    and run: "act_for_each (execute_dispatch B (prepared_plan_of lp T hints ks) sb eb st)
      (enumerate 0 (map prepared_dispatch_of (lp_instructions lp))) s = (s', Inr u)"
  shows "memory_ok (bytes_of s') lp T hints ext sb eb cells"
proof -
  let ?ds = "lp_instructions lp"
  let ?upto = "\<lambda>j. run_dispatches (reference_kernels A) ext (lp_kernels lp) (take j ?ds)"
  let ?P = "\<lambda>j t. \<exists>c. ?upto j = Some c \<and> memory_ok (bytes_of t) lp T hints ext sb eb c"
  have "?P (length (enumerate 0 (map prepared_dispatch_of ?ds))) s'"
    using run
  proof (rule act_for_each_invariant)
    show "?P 0 s" using mem by (simp add: run_dispatches_def)
  next
    fix j t t' assume j: "j < length (enumerate 0 (map prepared_dispatch_of ?ds))" and inv: "?P j t"
      and step: "execute_dispatch B (prepared_plan_of lp T hints ks) sb eb st (enumerate 0 (map prepared_dispatch_of ?ds) ! j) t = (t', Inr ())"
    then have jl: "j < length ?ds" by simp
    from inv obtain c where c: "?upto j = Some c" "memory_ok (bytes_of t) lp T hints ext sb eb c" by blast
    from run_dispatches_prefix [OF cells, of "Suc j"] obtain c' where c': "?upto (Suc j) = Some c'" by blast
    with c(1) jl have "run_dispatch (reference_kernels A) ext (lp_kernels lp) c (?ds ! j) = Some c'"
      by (simp add: run_dispatches_def take_Suc_conv_app_nth)
    from dispatch_simulated [OF cons nth_mem [OF jl] c(2) kernels this] step jl c'
    show "?P (Suc j) t'" by simp
  qed
  with cells show ?thesis by simp
qed

text \<open>The outputs.\<close>

lemma read_output_value:
  assumes mem: "memory_ok (bytes_of s) lp T hints ext sb eb cells" and range: "source_in_range lp (lo_source out)"
    and v: "read_source ext cells (lo_source out) = Some v"
    and run: "read_output B sb eb (k, prepared_output_of lp T hints out) s = (s', Inr y)"
  shows "y = output_value_of lp T hints out v \<and> bytes_of s' = bytes_of s"
proof -
  from memory_read [OF mem range] v have buf: "target_buffer sb eb (source_target (lo_source out)) = Some (source_buffer sb eb (lo_source out))"
    "bytes_of s (source_buffer sb eb (lo_source out)) = Some (element_bytes v)"
    "length (element_bytes v) = value_bytes (source_type lp T hints (lo_source out))" by auto
  from run buf(1) obtain data where read: "be_read B (source_buffer sb eb (lo_source out)) 0
      (value_bytes (source_type lp T hints (lo_source out))) s = (s', Inr data)"
    and y: "\<exists>w. (decode_le data k :: ('e exec_error, _) outcome) = Inr w \<and> y = output_value_of lp T hints out w"
    by (auto simp: read_output_def prepared_output_of_def Let_def act_simps output_value_of_def)
  from read_law [OF read buf(2)] buf(3) have "data = element_bytes v" "bytes_of s' = bytes_of s" by simp_all
  with y show ?thesis by simp
qed

lemma outputs_simulated:
  assumes mem: "memory_ok (bytes_of s) lp T hints ext sb eb cells"
    and outs: "\<forall>out \<in> set (lp_outputs lp). source_in_range lp (lo_source out) \<and> read_source ext cells (lo_source out) = Some (val out)"
    and run: "act_traverse (read_output B sb eb) (enumerate 0 (map (prepared_output_of lp T hints) (lp_outputs lp))) s = (s', Inr ys)"
  shows "ys = map (\<lambda>out. output_value_of lp T hints out (val out)) (lp_outputs lp)"
proof -
  let ?outs = "lp_outputs lp" and ?xs = "enumerate 0 (map (prepared_output_of lp T hints) (lp_outputs lp))"
  let ?P = "\<lambda>k t ys. bytes_of t = bytes_of s \<and> (\<forall>i < k. ys ! i = output_value_of lp T hints (?outs ! i) (val (?outs ! i)))"
  have "length ys = length ?xs \<and> ?P (length ?xs) s' ys"
    using run
  proof (rule act_traverse_invariant)
    fix k t t' zs y assume k: "k < length ?xs" "length zs = k" "?P k t zs" and step: "read_output B sb eb (?xs ! k) t = (t', Inr y)"
    then have out: "?outs ! k \<in> set ?outs" and mem': "memory_ok (bytes_of t) lp T hints ext sb eb cells" using mem by simp_all
    from read_output_value [OF mem' _ _, of "?outs ! k" "val (?outs ! k)" k t' y] step outs out k(1)
    have "y = output_value_of lp T hints (?outs ! k) (val (?outs ! k)) \<and> bytes_of t' = bytes_of t" by simp
    with k show "?P (Suc k) t' (zs @ [y])" by (auto simp: nth_append less_Suc_eq)
  qed simp
  then show ?thesis by (intro nth_equalityI) simp_all
qed

text \<open>A whole run.\<close>

lemma execution_simulated:
  assumes wf: "plan_well_formed lp T" and sized: "plan_sized lp T hints"
    and kernels: "length ks = length (lp_kernels lp)" "\<forall>i < length ks. compiled (ks ! i) (artifact_of (lp_kernels lp ! i))"
    and agree: "\<forall>(b, v) \<in> set entries. ext b = v"
    and model: "run_lowered (reference_kernels A) ext lp = Some (map (\<lambda>out. Some (val out)) (lp_outputs lp))"
    and run: "runtime_execute B (prepared_plan_of lp T hints ks) entries s = (s', Inr ys)"
  shows "supply_accepted (length (lp_bindings lp)) (\<lambda>b. value_bytes (binding_type lp T hints b)) entries \<and>
    ys = map (\<lambda>out. output_value_of lp T hints out (val out)) (lp_outputs lp)"
proof -
  have cons: "plan_consistent lp T" using wf by (simp add: plan_well_formed_def)
  let ?p = "prepared_plan_of lp T hints ks" and ?n = "length (lp_bindings lp)"
  from run obtain vs s1 sb s2 eb s3 s4 st s5 s6 where
    vs: "(resolve_external_values ?p entries :: ('e exec_error, _) outcome) = Inr vs"
    and slots: "act_traverse (runtime_allocate B) (slot_sizes_of lp T) s = (s1, Inr sb)"
    and externals: "act_traverse (runtime_allocate B) (external_sizes_of lp T hints) s1 = (s2, Inr eb)"
    and import: "act_for_each (import_value B eb) (enumerate 0 vs) s2 = (s3, Inr ())"
    and stream: "be_create_stream B s3 = (s4, Inr st)"
    and dispatches: "act_for_each (execute_dispatch B ?p sb eb st) (enumerate 0 (map prepared_dispatch_of (lp_instructions lp))) s4 = (s5, Inr ())"
    and sync: "be_synchronize B st s5 = (s6, Inr ())"
    and outs: "act_traverse (read_output B sb eb) (enumerate 0 (map (prepared_output_of lp T hints) (lp_outputs lp))) s6 = (s', Inr ys)"
    by (auto simp: runtime_execute_def prepared_plan_of_def act_simps)
  from decided_InrD [OF supplied_decided [OF cons] vs] have supplied:
    "supply_accepted ?n (\<lambda>b. value_bytes (binding_type lp T hints b)) entries" "vs = map (supplied_of entries) [0..<?n]" by simp_all
  have ext: "supplied_of entries b = ext b" if "b < ?n" for b using supplied_agree [OF supplied(1) agree that] .
  then have vs: "vs = map ext [0..<?n]" using supplied(2) by simp
  have sizes: "\<forall>b < ?n. 4 * length (ext b) = value_bytes (binding_type lp T hints b)"
    using supplied_length [OF supplied(1)] ext by simp
  from model obtain cells where cells: "run_dispatches (reference_kernels A) ext (lp_kernels lp) (lp_instructions lp) = Some cells"
    "\<forall>out \<in> set (lp_outputs lp). read_source ext cells (lo_source out) = Some (val out)"
    by (auto simp: run_lowered_def)
  have "memory_ok (bytes_of s3) lp T hints ext sb eb Map.empty"
    using initial_memory [OF slots externals] import vs sizes by simp
  then have "memory_ok (bytes_of s4) lp T hints ext sb eb Map.empty" using stream_law [OF stream] by simp
  from dispatches_simulated [OF cons this kernels cells(1) dispatches]
  have "memory_ok (bytes_of s6) lp T hints ext sb eb cells" using synchronize_law [OF sync] by simp
  from outputs_simulated [OF this _ outs] cells(2) output_in_range [OF cons] supplied(1) show ?thesis by simp
qed

text \<open>The kernels of a prepared plan compute what their artefacts say.\<close>

lemma kernels_compiled:
  assumes typed: "list_all kernel_typed (lp_kernels lp)" and gen: "list_all generatable (lp_kernels lp)"
    and run: "act_traverse (\<lambda>k. act_map_err (KernelCompilation (lk_id k)) (be_compile B (module_of (artifact_of k)))) (lp_kernels lp) s
      = (s', Inr ks)"
  shows "length ks = length (lp_kernels lp) \<and> bytes_of s' = bytes_of s \<and>
    (\<forall>i < length ks. compiled (ks ! i) (artifact_of (lp_kernels lp ! i)))"
proof -
  let ?ks = "lp_kernels lp"
  have "length ks = length ?ks \<and> (bytes_of s' = bytes_of s \<and> (\<forall>i < length ?ks. compiled (ks ! i) (artifact_of (?ks ! i))))"
    using run
  proof (rule act_traverse_invariant)
    fix i t t' ys y assume i: "i < length ?ks" "length ys = i"
      "bytes_of t = bytes_of s \<and> (\<forall>j < i. compiled (ys ! j) (artifact_of (?ks ! j)))"
      and step: "act_map_err (KernelCompilation (lk_id (?ks ! i))) (be_compile B (module_of (artifact_of (?ks ! i)))) t = (t', Inr y)"
    have "artifact_ok (artifact_of (?ks ! i))" using artifact_of_ok typed gen i(1) by (simp add: list_all_length)
    then have "decode (code (module_of (artifact_of (?ks ! i)))) = Inr (artifact_of (?ks ! i))"
      by (simp add: decode_iff module_of_def)
    with compile_law step have "bytes_of t' = bytes_of t \<and> compiled y (artifact_of (?ks ! i))" by (simp add: act_simps)
    with i show "bytes_of t' = bytes_of s \<and> (\<forall>j < Suc i. compiled ((ys @ [y]) ! j) (artifact_of (?ks ! j)))"
      by (auto simp: nth_append less_Suc_eq)
  qed simp
  then show ?thesis by simp
qed

lemma prepared_compiled:
  assumes wf: "plan_well_formed lp T" and prep: "prepare_with_external_types B lp hints s = (s', Inr p)"
  obtains ks where "p = prepared_plan_of lp T hints ks" "length ks = length (lp_kernels lp)"
    "\<forall>i < length ks. compiled (ks ! i) (artifact_of (lp_kernels lp ! i))" "bytes_of s' = bytes_of s" "plan_sized lp T hints"
    "list_all generatable (lp_kernels lp)"
proof -
  from prepare_decided [OF wf, where B = B and hints = hints and s = s] prep obtain ks where ks: "p = prepared_plan_of lp T hints ks"
    "compile_kernels B lp s = (s', Inr ks)" "plan_sized lp T hints" by auto
  from compile_kernels_eq [OF wf, where B = B and s = s] ks(2) have gen: "list_all generatable (lp_kernels lp)"
    and run: "act_traverse (\<lambda>k. act_map_err (KernelCompilation (lk_id k)) (be_compile B (module_of (artifact_of k)))) (lp_kernels lp) s
      = (s', Inr ks)" by simp_all
  have "list_all kernel_typed (lp_kernels lp)" using wf by (simp add: plan_well_formed_def)
  from kernels_compiled [OF this gen run] ks gen that show ?thesis by blast
qed

text \<open>A run of the prepared plan computes the graph.\<close>

lemma run_refines_graph:
  assumes graph: "compile g = Inr plan" "length (graph_nodes g) \<le> u32_range" "validate_semantics g = Inr ()"
    "lower_plan plan bindings = Inr lp"
    and hints: "\<forall>(n, ty) \<in> set hints. ty = type_of (graph_nodes g) n"
    and prep: "prepare_with_external_types B lp hints s0 = (s1, Inr p)"
    and run: "runtime_execute B p entries s2 = (s3, Inr ys)"
    and ext: "\<forall>(b, v) \<in> set entries. ext (eb_node (bindings ! b)) = v"
  shows "ys = map (\<lambda>n. \<lparr>ov_node = n, ov_tensor_type = type_of (graph_nodes g) n,
      ov_values = node_value (reference_operations A) ext (graph_nodes g) n\<rparr>) (graph_outputs g)"
proof -
  let ?T = "typing_of plan (type_of (graph_nodes g)) bindings" and ?val = "node_value (reference_operations A) ext (graph_nodes g)"
  note wf = lowered_plan_well_formed [OF graph]
  from prepared_compiled [OF wf prep] obtain ks where ks: "p = prepared_plan_of lp ?T hints ks" "length ks = length (lp_kernels lp)"
    "\<forall>i < length ks. compiled (ks ! i) (artifact_of (lp_kernels lp ! i))" and sized: "plan_sized lp ?T hints" by metis
  have nodes: "map lo_node (lp_outputs lp) = graph_outputs g"
    using lower_plan_outputs(1) [OF graph(4)] compiled_safe(4) [OF graph(1,2)] by simp
  note model = reference_run [OF graph(1,2,4), of A ext]
  have "ys = map (\<lambda>out. output_value_of lp ?T hints out (?val (lo_node out))) (lp_outputs lp)"
    using execution_simulated [OF wf sized ks(2,3) _ model, of entries s2 s3 ys] run ext ks(1) by simp
  moreover have binding: "binding_type lp ?T hints b = pt_binding ?T b" if "b < length (lp_bindings lp)" for b
    using honest_binding [OF sized _ hints that] lower_plan_outputs(2) [OF graph(4)] by (simp add: typing_of_def)
  have "source_type lp ?T hints (lo_source out) = type_of (graph_nodes g) (lo_node out)" if out: "out \<in> set (lp_outputs lp)" for out
    using lowered_outputs_typed [OF graph out] binding
    by (cases "lo_source out") (simp_all add: source_typed_def source_type_def)
  ultimately show ?thesis unfolding nodes [symmetric] by (simp add: output_value_of_def)
qed

end

section \<open>Progress\<close>

lemma supply_exclusive: "supply_rejected n bytes entries e \<Longrightarrow> \<not> supply_accepted n bytes entries"
proof (induction rule: supply_rejected.induct)
  case (unexpected b v)
  then have "b \<in> fst ` set entries" by force
  with unexpected(2) show ?case by (metis lessThan_iff not_le supply_accepted_def)
qed (auto simp: supply_accepted_def)

lemma plan_sizes:
  assumes cons: "plan_consistent lp T" and sized: "plan_sized lp T hints"
  shows "s < slot_count lp \<Longrightarrow> value_bytes (pt_slot T s) \<le> usize_max"
    and "b < length (lp_bindings lp) \<Longrightarrow> value_bytes (binding_type lp T hints b) \<le> usize_max"
    and "source_in_range lp source \<Longrightarrow> value_bytes (source_type lp T hints source) \<le> usize_max"
proof -
  show slot: "s < slot_count lp \<Longrightarrow> value_bytes (pt_slot T s) \<le> usize_max" for s
    using slot_plan_type [OF cons] sized type_fits_bytes unfolding plan_sized_def by blast
  show binding: "b < length (lp_bindings lp) \<Longrightarrow> value_bytes (binding_type lp T hints b) \<le> usize_max" for b
  proof -
    assume b: "b < length (lp_bindings lp)"
    with sized obtain t where "external_type lp T hints b = Some t" unfolding plan_sized_def by blast
    with b have "binding_type lp T hints b \<in> plan_types lp T hints" by (auto simp: binding_type_def plan_types_def)
    with sized show ?thesis using type_fits_bytes unfolding plan_sized_def by blast
  qed
  show "source_in_range lp source \<Longrightarrow> value_bytes (source_type lp T hints source) \<le> usize_max"
    using slot binding by (cases source) (simp_all add: source_in_range_def source_type_def)
qed

lemma layout_bytes_count: "shape_encodable (ty_shape t) \<Longrightarrow> 4 * element_count (layout_of (ty_shape t)) = value_bytes t"
proof -
  assume enc: "shape_encodable (ty_shape t)"
  then have "nat_dims (layout_of (ty_shape t)) = ty_shape t"
    by (intro nth_equalityI) (auto simp: nat_dims_def layout_of_def shape_encodable_def unat_of_nat)
  with element_count_dims [OF layout_of_ok [OF enc]] show ?thesis by (simp add: value_bytes_def)
qed

lemma decided_supplied:
  fixes ks :: "'k list"
  assumes cons: "plan_consistent lp T"
    and "supply_accepted (length (lp_bindings lp)) (\<lambda>b. value_bytes (binding_type lp T hints b)) entries"
  shows "resolve_external_values (prepared_plan_of lp T hints ks) entries = (Inr (map (supplied_of entries) [0..<length (lp_bindings lp)]) :: ('e exec_error, _) outcome)"
proof (cases "resolve_external_values (prepared_plan_of lp T hints ks) entries :: ('e exec_error, _) outcome")
  case (Inl f)
  with supplied_decided [where ?'e = 'e and ?'k = 'k, OF cons, of hints entries ks] assms(2) supply_exclusive show ?thesis by fastforce
next
  case (Inr vs)
  with decided_InrD [OF supplied_decided [OF cons] Inr] show ?thesis by simp
qed

context progressing_backend
begin

lemma allocate_batch_total:
  assumes "ready s" and "\<forall>n \<in> set sizes. grants n"
  shows "\<exists>s' bs. act_traverse (runtime_allocate B) sizes s = (s', Inr bs) \<and> ready s'"
proof -
  have "\<exists>t ys. act_traverse (runtime_allocate B) sizes s = (t, Inr ys) \<and> length ys = length sizes \<and> ready t"
  proof (rule act_traverse_total [where P = "\<lambda>_ t _. ready t"])
    fix i t ys assume "i < length sizes" "ready t"
    with assms(2) allocate_ok [of t "sizes ! i"] show "\<exists>t' y. runtime_allocate B (sizes ! i) t = (t', Inr y) \<and> ready t'"
      by (simp add: runtime_allocate_def act_simps)
  qed (rule assms(1))
  then show ?thesis by blast
qed

lemma import_values_total:
  assumes "ready s" and len: "length vs = length eb" and dist: "distinct eb"
    and sized: "\<forall>i < length eb. \<exists>data. bytes_of s (eb ! i) = Some data \<and> length data = 4 * length (vs ! i) \<and> length data \<le> usize_max"
  shows "\<exists>s'. act_for_each (import_value B eb) (enumerate 0 vs) s = (s', Inr ()) \<and> ready s'"
proof -
  let ?P = "\<lambda>k t. ready t \<and> (\<forall>i < length eb. k \<le> i \<longrightarrow> bytes_of t (eb ! i) = bytes_of s (eb ! i))"
  have "\<exists>t. act_for_each (import_value B eb) (enumerate 0 vs) s = (t, Inr ()) \<and> ?P (length (enumerate 0 vs)) t"
  proof (rule act_for_each_total)
    fix i t assume i: "i < length (enumerate 0 vs)" and inv: "?P i t"
    then have il: "i < length eb" using len by simp
    with sized inv obtain data where data: "bytes_of t (eb ! i) = Some data" "length data = 4 * length (vs ! i)"
      "length data \<le> usize_max" by auto
    with write_ok [of t "eb ! i" data 0 "element_bytes (vs ! i)"] inv il obtain t' where
      t': "import_value B eb (i, vs ! i) t = (t', Inr ())" "ready t'" by (auto simp: import_value_def act_simps)
    from import_step [OF t'(1) il data(1,2)] have "bytes_of t' = (bytes_of t)(eb ! i \<mapsto> element_bytes (vs ! i))" .
    with t' inv il dist i len show "\<exists>t'. import_value B eb (enumerate 0 vs ! i) t = (t', Inr ()) \<and> ?P (Suc i) t'"
      by (auto simp: nth_eq_iff_index_eq)
  qed (use assms(1) in simp)
  then show ?thesis by blast
qed

lemma dispatch_progress:
  assumes cons: "plan_consistent lp T" and sized: "plan_sized lp T hints" and d: "d \<in> set (lp_instructions lp)"
    and mem: "memory_ok (bytes_of s) lp T hints ext sb eb cells" and ready: "ready s"
    and kernels: "length ks = length (lp_kernels lp)" "\<forall>i < length ks. compiled (ks ! i) (artifact_of (lp_kernels lp ! i))"
    and gen: "\<forall>k \<in> set (lp_kernels lp). generatable k \<and> batch_fits (artifact_of k)"
  shows "\<exists>s'. execute_dispatch B (prepared_plan_of lp T hints ks) sb eb st (j, prepared_dispatch_of d) s = (s', Inr ()) \<and> ready s'"
proof -
  let ?kern = "lp_kernels lp ! li_kernel d"
  let ?n = "length (lk_operands ?kern)" and ?as = "li_arguments d" and ?range = "dispatch_range sb eb"
  have ic: "instruction_consistent lp T d" using cons d unfolding plan_consistent_def by blast
  note ic' = ic [unfolded instruction_consistent_def Let_def]
  note len = consistent_arguments(3) [OF ic]
  have k: "li_kernel d < length ks" "?kern \<in> set (lp_kernels lp)" using ic' kernels(1) by simp_all
  have fits: "generatable ?kern" "batch_fits (artifact_of ?kern)" using gen k(2) by blast+
  have bnd: "bound (bytes_of s) (?range a) \<and> snd (?range a) \<le> usize_max" if "a \<in> set ?as" for a
    using dispatch_bound [OF cons d mem that] argument_in_range [OF cons d that, of hints] plan_sizes(3) [OF cons sized]
    by (simp add: dispatch_range_def)
  have "\<exists>u ev. be_launch B (ks ! li_kernel d) st canonical_launch_config
      (abi_bindings (map ?range (take ?n ?as)) (?range (?as ! ?n))) s = (u, Inr ev) \<and> ready u"
  proof (rule launch_ok [OF ready])
    show "compiled (ks ! li_kernel d) (artifact_of ?kern)" using kernels k by simp
    show "batch_fits (artifact_of ?kern)" by (rule fits)
    show "\<forall>p \<in> set (?range (?as ! ?n) # map ?range (take ?n ?as)). bound (bytes_of s) p \<and> snd p \<le> usize_max"
      using bnd len by (auto dest: in_set_takeD)
    show "map snd (map ?range (take ?n ?as)) = map (\<lambda>l. 4 * element_count l) (ra_operands (artifact_of ?kern))"
      using ic' len fits(1) by (intro nth_equalityI)
        (auto simp: artifact_of_def dispatch_range_def generatable_def layout_bytes_count)
    show "snd (?range (?as ! ?n)) = 4 * element_count (ra_result (artifact_of ?kern))"
      using ic' fits(1) by (simp add: artifact_of_def dispatch_range_def generatable_def layout_bytes_count)
  qed
  then obtain u ev where launch: "be_launch B (ks ! li_kernel d) st canonical_launch_config
      (abi_bindings (map ?range (take ?n ?as)) (?range (?as ! ?n))) s = (u, Inr ev)" and u: "ready u" by blast
  from wait_ok [OF u, of ev] obtain s' where "be_wait B ev u = (s', Inr ())" "ready s'" by blast
  with launch k show ?thesis
    by (auto simp: execute_dispatch_def prepared_plan_of_def prepared_dispatch_of_def act_simps bind_arguments [OF cons d mem]
        dispatch_bindings_def)
qed

lemma dispatches_progress:
  assumes cons: "plan_consistent lp T" and sized: "plan_sized lp T hints"
    and mem: "memory_ok (bytes_of s) lp T hints ext sb eb Map.empty" and ready: "ready s"
    and kernels: "length ks = length (lp_kernels lp)" "\<forall>i < length ks. compiled (ks ! i) (artifact_of (lp_kernels lp ! i))"
    and gen: "\<forall>k \<in> set (lp_kernels lp). generatable k \<and> batch_fits (artifact_of k)"
    and cells: "run_dispatches (reference_kernels A) ext (lp_kernels lp) (lp_instructions lp) = Some cells"
  shows "\<exists>s'. act_for_each (execute_dispatch B (prepared_plan_of lp T hints ks) sb eb st)
      (enumerate 0 (map prepared_dispatch_of (lp_instructions lp))) s = (s', Inr ()) \<and> ready s'"
proof -
  let ?ds = "lp_instructions lp" and ?p = "prepared_plan_of lp T hints ks"
  let ?upto = "\<lambda>j. run_dispatches (reference_kernels A) ext (lp_kernels lp) (take j ?ds)"
  let ?P = "\<lambda>j t. ready t \<and> (\<exists>c. ?upto j = Some c \<and> memory_ok (bytes_of t) lp T hints ext sb eb c)"
  have "\<exists>t. act_for_each (execute_dispatch B ?p sb eb st) (enumerate 0 (map prepared_dispatch_of ?ds)) s = (t, Inr ()) \<and>
      ?P (length (enumerate 0 (map prepared_dispatch_of ?ds))) t"
  proof (rule act_for_each_total)
    show "?P 0 s" using mem ready by (simp add: run_dispatches_def)
  next
    fix j t assume j: "j < length (enumerate 0 (map prepared_dispatch_of ?ds))" and inv: "?P j t"
    then have jl: "j < length ?ds" by simp
    from inv obtain c where c: "?upto j = Some c" "memory_ok (bytes_of t) lp T hints ext sb eb c" by blast
    from run_dispatches_prefix [OF cells, of "Suc j"] obtain c' where c': "?upto (Suc j) = Some c'" by blast
    with c(1) jl have one: "run_dispatch (reference_kernels A) ext (lp_kernels lp) c (?ds ! j) = Some c'"
      by (simp add: run_dispatches_def take_Suc_conv_app_nth)
    from dispatch_progress [OF cons sized nth_mem [OF jl] c(2) conjunct1 [OF inv] kernels gen] obtain t' where
      t': "execute_dispatch B ?p sb eb st (j, prepared_dispatch_of (?ds ! j)) t = (t', Inr ())" "ready t'" by blast
    from dispatch_simulated [OF cons nth_mem [OF jl] c(2) kernels one t'(1)] t' jl c'
    show "\<exists>t'. execute_dispatch B ?p sb eb st (enumerate 0 (map prepared_dispatch_of ?ds) ! j) t = (t', Inr ()) \<and> ?P (Suc j) t'"
      by auto
  qed
  then show ?thesis by blast
qed

lemma outputs_progress:
  assumes cons: "plan_consistent lp T" and sized: "plan_sized lp T hints"
    and mem: "memory_ok (bytes_of s) lp T hints ext sb eb cells" and ready: "ready s"
    and outs: "\<forall>out \<in> set (lp_outputs lp). source_in_range lp (lo_source out) \<and> read_source ext cells (lo_source out) = Some (val out)"
  shows "\<exists>s' ys. act_traverse (read_output B sb eb) (enumerate 0 (map (prepared_output_of lp T hints) (lp_outputs lp))) s = (s', Inr ys)"
proof -
  let ?outs = "lp_outputs lp" and ?xs = "enumerate 0 (map (prepared_output_of lp T hints) (lp_outputs lp))"
  let ?P = "\<lambda>k t ys. ready t \<and> bytes_of t = bytes_of s"
  have "\<exists>t ys. act_traverse (read_output B sb eb) ?xs s = (t, Inr ys) \<and> length ys = length ?xs \<and> ?P (length ?xs) t ys"
  proof (rule act_traverse_total)
    show "?P 0 s []" using ready by simp
  next
    fix k t zs assume k: "k < length ?xs" and inv: "?P k t zs"
    then have out: "?outs ! k \<in> set ?outs" and mem': "memory_ok (bytes_of t) lp T hints ext sb eb cells" using mem by simp_all
    then have range: "source_in_range lp (lo_source (?outs ! k))" and v: "read_source ext cells (lo_source (?outs ! k)) = Some (val (?outs ! k))"
      using outs by blast+
    let ?b = "source_buffer sb eb (lo_source (?outs ! k))" and ?n = "value_bytes (source_type lp T hints (lo_source (?outs ! k)))"
    from memory_read [OF mem' range] v have buf: "target_buffer sb eb (source_target (lo_source (?outs ! k))) = Some ?b"
      "bytes_of t ?b = Some (element_bytes (val (?outs ! k)))" "length (element_bytes (val (?outs ! k))) = ?n" by auto
    from read_ok [of t ?b "element_bytes (val (?outs ! k))" 0 ?n] inv buf plan_sizes(3) [OF cons sized range]
    obtain t' data where t': "be_read B ?b 0 ?n t = (t', Inr data)" "ready t'" by auto
    from read_law [OF t'(1) buf(2)] buf(3) have "data = element_bytes (val (?outs ! k))" "bytes_of t' = bytes_of t" by simp_all
    with t' inv k buf(1) show "\<exists>t' y. read_output B sb eb (?xs ! k) t = (t', Inr y) \<and> ?P (Suc k) t' (zs @ [y])"
      by (auto simp: read_output_def prepared_output_of_def Let_def act_simps)
  qed
  then show ?thesis by blast
qed

lemma execution_progress:
  assumes wf: "plan_well_formed lp T" and sized: "plan_sized lp T hints" and ready: "ready s"
    and kernels: "length ks = length (lp_kernels lp)" "\<forall>i < length ks. compiled (ks ! i) (artifact_of (lp_kernels lp ! i))"
    and gen: "\<forall>k \<in> set (lp_kernels lp). generatable k \<and> batch_fits (artifact_of k)"
    and memory: "\<forall>n \<in> set (slot_sizes_of lp T) \<union> set (external_sizes_of lp T hints). grants n"
    and supplied: "supply_accepted (length (lp_bindings lp)) (\<lambda>b. value_bytes (binding_type lp T hints b)) entries"
    and agree: "\<forall>(b, v) \<in> set entries. ext b = v"
    and model: "run_lowered (reference_kernels A) ext lp = Some (map (\<lambda>out. Some (val out)) (lp_outputs lp))"
  shows "\<exists>s' ys. runtime_execute B (prepared_plan_of lp T hints ks) entries s = (s', Inr ys)"
proof -
  have cons: "plan_consistent lp T" using wf by (simp add: plan_well_formed_def)
  let ?p = "prepared_plan_of lp T hints ks" and ?n = "length (lp_bindings lp)"
  let ?vs = "map ext [0..<?n]"
  have ext: "supplied_of entries b = ext b" if "b < ?n" for b using supplied_agree [OF supplied agree that] .
  then have sizes: "\<forall>b < ?n. 4 * length (ext b) = value_bytes (binding_type lp T hints b)"
    using supplied_length [OF supplied] by simp
  have vs: "(resolve_external_values ?p entries :: ('e exec_error, _) outcome) = Inr ?vs"
  proof -
    have "?vs = map (supplied_of entries) [0..<?n]" using ext by simp
    then show ?thesis by (simp only: decided_supplied [OF cons supplied])
  qed
  from model obtain cells where cells: "run_dispatches (reference_kernels A) ext (lp_kernels lp) (lp_instructions lp) = Some cells"
    "\<forall>out \<in> set (lp_outputs lp). read_source ext cells (lo_source out) = Some (val out)"
    by (auto simp: run_lowered_def)
  from allocate_batch_total [OF ready, of "slot_sizes_of lp T"] memory obtain s1 sb where
    slots: "act_traverse (runtime_allocate B) (slot_sizes_of lp T) s = (s1, Inr sb)" "ready s1" by auto
  from allocate_batch_total [OF slots(2), of "external_sizes_of lp T hints"] memory obtain s2 eb where
    externals: "act_traverse (runtime_allocate B) (external_sizes_of lp T hints) s1 = (s2, Inr eb)" "ready s2" by auto
  note e = allocate_batch [OF externals(1)]
  then have len: "length ?vs = length eb" "distinct eb" by (simp_all add: external_sizes_of_def allocated_batch_def)
  have "\<forall>i < length eb. \<exists>data. bytes_of s2 (eb ! i) = Some data \<and> length data = 4 * length (?vs ! i) \<and> length data \<le> usize_max"
    using e len(1) sizes plan_sizes(2) [OF cons sized] by (fastforce simp: allocated_batch_def external_sizes_of_def)
  from import_values_total [OF externals(2) len this] obtain s3 where
    import: "act_for_each (import_value B eb) (enumerate 0 ?vs) s2 = (s3, Inr ())" "ready s3" by blast
  from stream_ok [OF import(2)] obtain s4 st where stream: "be_create_stream B s3 = (s4, Inr st)" "ready s4" by blast
  from initial_memory [OF slots(1) externals(1) import(1) sizes]
  have "memory_ok (bytes_of s4) lp T hints ext sb eb Map.empty" using stream_law [OF stream(1)] by simp
  note mem = this
  from dispatches_progress [OF cons sized mem stream(2) kernels gen cells(1)] obtain s5 where
    dispatches: "act_for_each (execute_dispatch B ?p sb eb st) (enumerate 0 (map prepared_dispatch_of (lp_instructions lp))) s4 = (s5, Inr ())"
    "ready s5" by blast
  from synchronize_ok [OF dispatches(2), of st] obtain s6 where sync: "be_synchronize B st s5 = (s6, Inr ())" "ready s6" by blast
  from dispatches_simulated [OF cons mem kernels cells(1) dispatches(1)]
  have "memory_ok (bytes_of s6) lp T hints ext sb eb cells" using synchronize_law [OF sync(1)] by simp
  from outputs_progress [OF cons sized this sync(2), of val] cells(2) output_in_range [OF cons] obtain s' ys where
    "act_traverse (read_output B sb eb) (enumerate 0 (map (prepared_output_of lp T hints) (lp_outputs lp))) s6 = (s', Inr ys)" by auto
  with vs slots(1) externals(1) import(1) stream(1) dispatches(1) sync(1) show ?thesis
    by (auto simp: runtime_execute_def act_simps prepared_plan_of_def)
qed

end

end
