(* ===== verification/Oracle_Runtime.thy ===== *)
theory Oracle_Runtime
  imports Tensor_View_Theorems Reference_Interpreter Graph_Verify
begin

text \<open>
  The deterministic CPU oracle of the runtime (\<open>core2_reference.rs\<close> of \<open>scirust-tensor-runtime\<close>): a
  session holds a checked graph and its constants, and executes the nodes in order on tensors.
  The operators of \<open>f32\<close> that depend on the target (\<open>+ - * /\<close>, \<open>max\<close>, \<open>exp\<close>, \<open>ln\<close>) are a parameter;
  comparison with zero is computed on the bit pattern. Unchecked \<open>usize\<close> arithmetic and indexing
  panic, as in a debug build.
\<close>

section \<open>Values and errors\<close>

record float_library = arithmetic +
  fmax :: "element \<Rightarrow> element \<Rightarrow> element"
  fexp :: "element \<Rightarrow> element"
  fln :: "element \<Rightarrow> element"

datatype oracle_error =
    OracleInvalidGraph graph_error
  | OracleInvalidSemantics semantic_error
  | MissingInput node_id
  | DuplicateInput node_id
  | MissingConstant constant_id
  | DuplicateConstant constant_id
  | OracleTypeMismatch node_id
  | HostReferenceRequired node_id
  | OracleUnsupportedDType node_id dtype
  | InvalidScale node_id
  | OracleUnsupportedOperation node_id operation
  | OracleTensor tensor_error

type_synonym core2_inputs = "(node_id \<times> tensor) list"
type_synonym core2_constants = "(constant_id \<times> tensor) list"
type_synonym core2_outputs = "(node_id \<times> tensor) list"

definition inputs_insert :: "core2_inputs \<Rightarrow> node_id \<Rightarrow> tensor \<Rightarrow> (oracle_error, core2_inputs) outcome" where
  "inputs_insert ins n t =
     (if list_ex (\<lambda>(existing, _). existing = n) ins then fail (DuplicateInput n) else Inr (ins @ [(n, t)]))"

definition constants_insert ::
  "core2_constants \<Rightarrow> constant_id \<Rightarrow> tensor \<Rightarrow> (oracle_error, core2_constants) outcome" where
  "constants_insert cs c t =
     (if list_ex (\<lambda>(existing, _). existing = c) cs then fail (DuplicateConstant c) else Inr (cs @ [(c, t)]))"

definition lookup :: "(nat \<times> tensor) list \<Rightarrow> nat \<Rightarrow> tensor option" where
  "lookup entries k = map_option snd (List.find (\<lambda>(candidate, _). candidate = k) entries)"

definition require_f32 :: "node_id \<Rightarrow> tensor_type \<Rightarrow> (oracle_error, unit) outcome" where
  "require_f32 n ty = require (ty_dtype ty = F32) (OracleUnsupportedDType n (ty_dtype ty))"

definition validate_value :: "node_id \<Rightarrow> tensor \<Rightarrow> tensor_type \<Rightarrow> (oracle_error, unit) outcome" where
  "validate_value n t ty =
     try_bind (require (\<not> (tn_dtype t \<noteq> ty_dtype ty \<or> tn_shape t \<noteq> ty_shape ty)) (OracleTypeMismatch n)) (\<lambda>_.
     require (\<not> tn_device t \<noteq> HostDevice) (HostReferenceRequired n))"

section \<open>Sessions\<close>

record oracle_session =
  ses_graph :: graph
  ses_constants :: core2_constants

definition prepare_node :: "core2_constants \<Rightarrow> usize \<times> node \<Rightarrow> (oracle_error, unit) outcome" where
  "prepare_node constants p = (case p of (index, n) \<Rightarrow>
     let n_id = as_u32 index in
     try_bind (require_f32 n_id (node_output n)) (\<lambda>_.
     case node_operation n of
       Constant c \<Rightarrow>
         try_bind (ok_or (MissingConstant c) (lookup constants c)) (\<lambda>t. validate_value n_id t (node_output n))
     | _ \<Rightarrow> Inr ()))"

definition oracle_prepare :: "graph \<Rightarrow> core2_constants \<Rightarrow> (oracle_error, oracle_session) outcome" where
  "oracle_prepare g constants =
     try_bind (map_err OracleInvalidGraph (validate g)) (\<lambda>_.
     try_bind (map_err OracleInvalidSemantics (validate_semantics g)) (\<lambda>_.
     try_bind (for_each (prepare_node constants) (enumerate 0 (graph_nodes g))) (\<lambda>_.
     Inr \<lparr>ses_graph = g, ses_constants = constants\<rparr>)))"

section \<open>Operations on values\<close>

type_synonym value_table = "tensor option list"

definition value_at :: "value_table \<Rightarrow> node_id \<Rightarrow> (oracle_error, tensor) outcome" where
  "value_at vals k = ok_or (MissingInput k) (Option.bind (get vals k) id)"

abbreviation on_tensor :: "(tensor_error, 'a) outcome \<Rightarrow> (oracle_error, 'a) outcome" where
  "on_tensor r \<equiv> map_err OracleTensor r"

text \<open>\<open>values[node.inputs[i]]\<close>\<close>

definition operand :: "value_table \<Rightarrow> node \<Rightarrow> nat \<Rightarrow> (oracle_error, tensor) outcome" where
  "operand vals n i = try_bind (idx (node_inputs n) i) (value_at vals)"

definition unary_f32 :: "value_table \<Rightarrow> node \<Rightarrow> (element \<Rightarrow> element) \<Rightarrow> (oracle_error, tensor) outcome" where
  "unary_f32 vals n f =
     try_bind (operand vals n 0) (\<lambda>t.
     try_bind (on_tensor (to_f32_vec t)) (\<lambda>data.
     on_tensor (tensor_from_f32 (map f data) (ty_shape (node_output n)))))"

definition binary_f32 ::
  "value_table \<Rightarrow> node \<Rightarrow> (element \<Rightarrow> element \<Rightarrow> element) \<Rightarrow> (oracle_error, tensor) outcome" where
  "binary_f32 vals n f =
     try_bind (operand vals n 0) (\<lambda>lt.
     try_bind (on_tensor (to_f32_vec lt)) (\<lambda>lhs.
     try_bind (operand vals n 1) (\<lambda>rt.
     try_bind (on_tensor (to_f32_vec rt)) (\<lambda>rhs.
     on_tensor (tensor_from_f32 (map2 f lhs rhs) (ty_shape (node_output n)))))))"

definition checked_elements_or_panic :: "tensor_type \<Rightarrow> (oracle_error, usize) outcome" where
  "checked_elements_or_panic ty =
     (case checked_num_elements (ty_shape ty) of Inr n \<Rightarrow> Inr n | Inl _ \<Rightarrow> Inl Panic)"

text \<open>\<open>iter().product()\<close>\<close>

definition usize_product :: "usize list \<Rightarrow> ('e, usize) outcome" where
  "usize_product dims = try_fold (\<lambda>p d. usize_op (p * d)) 1 dims"

text \<open>\<open>base + row * width + column\<close>\<close>

definition flat_offset :: "usize \<Rightarrow> usize \<Rightarrow> usize \<Rightarrow> usize \<Rightarrow> ('e, usize) outcome" where
  "flat_offset base row width column =
     try_bind (usize_op (row * width)) (\<lambda>r.
     try_bind (usize_op (base + r)) (\<lambda>s. usize_op (s + column)))"

definition sum_term ::
  "float_library \<Rightarrow> element list \<Rightarrow> element list \<Rightarrow> usize \<Rightarrow> usize \<Rightarrow> usize \<Rightarrow> usize \<Rightarrow> usize \<Rightarrow> usize
     \<Rightarrow> element \<Rightarrow> nat \<Rightarrow> (oracle_error, element) outcome" where
  "sum_term F lhs rhs lhs_base rhs_base k n row col acc inner =
     try_bind (flat_offset lhs_base row k inner) (\<lambda>i.
     try_bind (idx lhs i) (\<lambda>x.
     try_bind (flat_offset rhs_base inner n col) (\<lambda>j.
     try_bind (idx rhs j) (\<lambda>y.
     Inr (fadd F acc (fmul F x y))))))"

definition oracle_cell ::
  "float_library \<Rightarrow> element list \<Rightarrow> element list \<Rightarrow> usize \<Rightarrow> usize \<Rightarrow> usize \<Rightarrow> usize \<Rightarrow> usize \<Rightarrow> usize
     \<Rightarrow> element list \<Rightarrow> nat \<Rightarrow> (oracle_error, element list) outcome" where
  "oracle_cell F lhs rhs lhs_base rhs_base out_base k n row out col =
     try_bind (try_fold (sum_term F lhs rhs lhs_base rhs_base k n row col) 0 [0..<k]) (\<lambda>s.
     try_bind (flat_offset out_base row n col) (\<lambda>i.
     if i < length out then Inr (out[i := s]) else Inl Panic))"

definition oracle_batch ::
  "float_library \<Rightarrow> element list \<Rightarrow> element list \<Rightarrow> usize \<Rightarrow> usize \<Rightarrow> usize
     \<Rightarrow> element list \<Rightarrow> nat \<Rightarrow> (oracle_error, element list) outcome" where
  "oracle_batch F lhs rhs m k n out batch =
     try_bind (usize_op (batch * m)) (\<lambda>bm. try_bind (usize_op (bm * k)) (\<lambda>lhs_base.
     try_bind (usize_op (batch * k)) (\<lambda>bk. try_bind (usize_op (bk * n)) (\<lambda>rhs_base.
     try_bind (usize_op (bm * n)) (\<lambda>out_base.
     try_fold (\<lambda>out row. try_fold (oracle_cell F lhs rhs lhs_base rhs_base out_base k n row) out [0..<n])
       out [0..<m])))))"

definition matmul_f32 :: "float_library \<Rightarrow> value_table \<Rightarrow> node \<Rightarrow> bool \<Rightarrow> (oracle_error, tensor) outcome" where
  "matmul_f32 F vals n batched =
     try_bind (operand vals n 0) (\<lambda>lhs_tensor.
     try_bind (operand vals n 1) (\<lambda>rhs_tensor.
     try_bind (on_tensor (to_f32_vec lhs_tensor)) (\<lambda>lhs.
     try_bind (on_tensor (to_f32_vec rhs_tensor)) (\<lambda>rhs.
     let lhs_dims = tn_shape lhs_tensor; rhs_dims = tn_shape rhs_tensor; rank = length lhs_dims in
     if rank < 2 then Inl Panic
     else
       try_bind (idx lhs_dims (rank - 2)) (\<lambda>m.
       try_bind (idx lhs_dims (rank - 1)) (\<lambda>k.
       try_bind (idx rhs_dims (rank - 1)) (\<lambda>cols.
       try_bind (if batched then usize_product (take (rank - 2) lhs_dims) else Inr 1) (\<lambda>batches.
       try_bind (usize_op (batches * m)) (\<lambda>bm. try_bind (usize_op (bm * cols)) (\<lambda>total_elements.
       try_bind (try_fold (oracle_batch F lhs rhs m k cols) (replicate total_elements 0) [0..<batches]) (\<lambda>out.
       on_tensor (tensor_from_f32 out (ty_shape (node_output n))))))))))))))"

section \<open>Reduction\<close>

definition oracle_stride_step :: "shape \<Rightarrow> usize list \<Rightarrow> nat \<Rightarrow> (oracle_error, usize list) outcome" where
  "oracle_stride_step sh strides axis =
     try_bind (idx strides (axis + 1)) (\<lambda>stride.
     try_bind (idx sh (axis + 1)) (\<lambda>dim.
     try_bind (usize_op (stride * dim)) (\<lambda>v. Inr (strides[axis := v]))))"

definition contiguous_strides :: "shape \<Rightarrow> (oracle_error, usize list) outcome" where
  "contiguous_strides sh =
     (let strides = replicate (length sh) 1 in
      if length sh > 1 then try_fold (oracle_stride_step sh) strides (rev [0..<length sh - 1]) else Inr strides)"

definition target_axis_step ::
  "shape \<Rightarrow> shape \<Rightarrow> usize list \<Rightarrow> usize \<Rightarrow> usize \<times> usize \<Rightarrow> nat \<Rightarrow> (oracle_error, usize \<times> usize) outcome" where
  "target_axis_step source_dims target_dims target_strides rank_delta st source_axis =
     (case st of (remainder, target_offset) \<Rightarrow>
      try_bind (idx source_dims source_axis) (\<lambda>dimension.
      if dimension = 0 then Inl Panic
      else
        (let coordinate = remainder mod dimension; remainder = remainder div dimension in
         if source_axis \<ge> rank_delta then
           (let target_axis = source_axis - rank_delta in
            try_bind (idx target_dims target_axis) (\<lambda>target_dim.
            let target_coordinate = (if target_dim = 1 then 0 else coordinate) in
            try_bind (idx target_strides target_axis) (\<lambda>stride.
            try_bind (usize_op (target_coordinate * stride)) (\<lambda>summand.
            try_bind (usize_op (target_offset + summand)) (\<lambda>target_offset. Inr (remainder, target_offset))))))
         else Inr (remainder, target_offset))))"

definition reduce_step ::
  "float_library \<Rightarrow> shape \<Rightarrow> shape \<Rightarrow> usize list \<Rightarrow> usize \<Rightarrow> element list \<Rightarrow> nat \<times> element
     \<Rightarrow> (oracle_error, element list) outcome" where
  "reduce_step F source_dims target_dims target_strides rank_delta out p = (case p of (linear, v) \<Rightarrow>
     try_bind (try_fold (target_axis_step source_dims target_dims target_strides rank_delta) (linear, 0)
                (rev [0..<length source_dims])) (\<lambda>(_, target_offset).
     try_bind (idx out target_offset) (\<lambda>old. Inr (out[target_offset := fadd F old v]))))"

definition reduce_sum_to_f32 :: "float_library \<Rightarrow> tensor \<Rightarrow> shape \<Rightarrow> (oracle_error, tensor) outcome" where
  "reduce_sum_to_f32 F t target_dims =
     (let source_dims = tn_shape t in
      try_bind (on_tensor (to_f32_vec t)) (\<lambda>source.
      try_bind (usize_product target_dims) (\<lambda>target_elements.
      try_bind (contiguous_strides target_dims) (\<lambda>target_strides.
      if length source_dims < length target_dims then Inl Panic
      else
        (let rank_delta = length source_dims - length target_dims in
         try_bind (try_fold (reduce_step F source_dims target_dims target_strides rank_delta)
                    (replicate target_elements 0) (enumerate 0 source)) (\<lambda>out.
         on_tensor (tensor_from_f32 out target_dims)))))))"

section \<open>Execution\<close>

definition relu_grad :: "element \<Rightarrow> element \<Rightarrow> element" where
  "relu_grad primal tangent = (if is_positive primal then tangent else 0)"

definition execute_node ::
  "float_library \<Rightarrow> oracle_session \<Rightarrow> core2_inputs \<Rightarrow> value_table \<Rightarrow> node_id \<Rightarrow> node
     \<Rightarrow> (oracle_error, tensor) outcome" where
  "execute_node F s inputs vals n_id n =
     (case node_operation n of
        Input _ \<Rightarrow>
          try_bind (ok_or (MissingInput n_id) (lookup inputs n_id)) (\<lambda>t.
          try_bind (validate_value n_id t (node_output n)) (\<lambda>_. Inr t))
      | Constant c \<Rightarrow> ok_or (MissingConstant c) (lookup (ses_constants s) c)
      | Add \<Rightarrow> binary_f32 vals n (fadd F)
      | Sub \<Rightarrow> binary_f32 vals n (fsub F)
      | Mul \<Rightarrow> binary_f32 vals n (fmul F)
      | Div \<Rightarrow> binary_f32 vals n (fdiv F)
      | Scale factor \<Rightarrow>
          try_bind (ok_or (InvalidScale n_id) (as_f32 factor)) (\<lambda>factor.
          unary_f32 vals n (\<lambda>x. fmul F x factor))
      | Relu \<Rightarrow> unary_f32 vals n (\<lambda>x. fmax F x 0)
      | Exp \<Rightarrow> unary_f32 vals n (fexp F)
      | Log \<Rightarrow> unary_f32 vals n (fln F)
      | ReluGrad \<Rightarrow> binary_f32 vals n relu_grad
      | ZerosLike \<Rightarrow> on_tensor (tensor_zeros F32 (ty_shape (node_output n)) HostDevice)
      | OnesLike \<Rightarrow>
          try_bind (checked_elements_or_panic (node_output n)) (\<lambda>elements.
          on_tensor (tensor_from_f32 (replicate elements one_element) (ty_shape (node_output n))))
      | MatMul \<Rightarrow> matmul_f32 F vals n False
      | BatchMatMul \<Rightarrow> matmul_f32 F vals n True
      | Reshape sh \<Rightarrow>
          try_bind (operand vals n 0) (\<lambda>t.
          if is_contiguous t then on_tensor (tensor_reshape t sh)
          else try_bind (on_tensor (tensor_contiguous t)) (\<lambda>c. on_tensor (tensor_reshape c sh)))
      | Transpose permutation \<Rightarrow>
          try_bind (operand vals n 0) (\<lambda>t. on_tensor (tensor_permute t permutation))
      | BroadcastTo sh \<Rightarrow> try_bind (operand vals n 0) (\<lambda>t. on_tensor (tensor_broadcast_to t sh))
      | ReduceSumTo sh \<Rightarrow> try_bind (operand vals n 0) (\<lambda>t. reduce_sum_to_f32 F t sh)
      | StopGradient \<Rightarrow> operand vals n 0
      | Checkpoint \<Rightarrow> operand vals n 0)"

definition oracle_step ::
  "float_library \<Rightarrow> oracle_session \<Rightarrow> core2_inputs \<Rightarrow> value_table \<Rightarrow> usize \<times> node
     \<Rightarrow> (oracle_error, value_table) outcome" where
  "oracle_step F s inputs vals p = (case p of (index, n) \<Rightarrow>
     let n_id = as_u32 index in
     try_bind (execute_node F s inputs vals n_id n) (\<lambda>t.
     try_bind (validate_value n_id t (node_output n)) (\<lambda>_. Inr (vals[index := Some t]))))"

definition oracle_execute ::
  "float_library \<Rightarrow> oracle_session \<Rightarrow> core2_inputs \<Rightarrow> (oracle_error, core2_outputs) outcome" where
  "oracle_execute F s inputs =
     try_bind (try_fold (oracle_step F s inputs) (replicate (length (graph_nodes (ses_graph s))) None)
                (enumerate 0 (graph_nodes (ses_graph s)))) (\<lambda>vals.
     traverse (\<lambda>out. try_bind (value_at vals out) (\<lambda>t. Inr (out, t))) (graph_outputs (ses_graph s)))"

end
