(* ===== verification/Oracle_Correct.thy ===== *)
theory Oracle_Correct
  imports Oracle_Runtime Plan_Execution Interpreter_Bodies
begin

text \<open>
  Correctness of the oracle: every node of a prepared graph gets a well-formed host tensor of its type
  whose floats, in row-major order, are the value that the meaning of the graph gives the node. The
  meaning \<open>flat_operation\<close> is on flat vectors, without strides: views are gathers, a reduction sums the
  elements that a broadcast of the target would read.
\<close>

section \<open>Multi-indices and flat vectors\<close>

lemma ravel_inject:
  assumes "in_range c ds" "in_range d ds" "ravel ds c = ravel ds d"
  shows "c = d"
proof (rule nth_equalityI)
  show "length c = length d" using assms by (simp add: in_range_length)
  fix j assume "j < length c"
  then have "j < length ds" using assms(1) by (simp add: in_range_length)
  with assms ravel_coordinate show "c ! j = d ! j" by metis
qed

lemma nth_indices:
  assumes "in_range c ds"
  shows "indices ds ! ravel ds c = c"
proof -
  let ?i = "ravel ds c"
  have i: "?i < length (indices ds)" using ravel_less [OF assms] by simp
  then have "ravel ds (indices ds ! ?i) = map (ravel ds) (indices ds) ! ?i" by simp
  also have "\<dots> = ?i" using i by (simp add: ravel_indices)
  finally have "ravel ds (indices ds ! ?i) = ravel ds c" .
  moreover have "in_range (indices ds ! ?i) ds" using nth_mem [OF i] by (simp add: set_indices)
  ultimately show ?thesis using ravel_inject assms by blast
qed

definition gather :: "shape \<Rightarrow> (nat list \<Rightarrow> nat list) \<Rightarrow> shape \<Rightarrow> element list \<Rightarrow> element list" where
  "gather sh source out x = map (\<lambda>c. x ! ravel sh (source c)) (indices out)"

text \<open>The position in the target that the element of the source at \<open>c\<close> is added to.\<close>

definition reduce_index :: "shape \<Rightarrow> shape \<Rightarrow> nat list \<Rightarrow> nat" where
  "reduce_index sh target c = ravel target (view_source target (BroadcastView sh) c)"

definition reduce_spec :: "float_library \<Rightarrow> shape \<Rightarrow> shape \<Rightarrow> element list \<Rightarrow> element list" where
  "reduce_spec F sh target x =
     map (\<lambda>j. foldl (\<lambda>acc c. fadd F acc (x ! ravel sh c)) 0
                (filter (\<lambda>c. reduce_index sh target c = j) (indices sh)))
       [0..<prod_list target]"

definition matrix_shape :: "shape \<Rightarrow> shape \<Rightarrow> bool \<Rightarrow> matrix_plan" where
  "matrix_shape lhs rhs batched =
     (let axis = length lhs - 2 in
      \<lparr>mx_batches = (if batched then prod_list (take axis lhs) else 1), mx_m = lhs ! axis,
       mx_k = lhs ! (axis + 1), mx_n = rhs ! (axis + 1)\<rparr>)"

definition flat_operation :: "float_library \<Rightarrow> element list operation_semantics" where
  "flat_operation F oper tys out vs =
     (let x = vs ! 0; y = vs ! 1; sh = ty_shape (tys ! 0); result = ty_shape out in
      case oper of
        Add \<Rightarrow> map2 (fadd F) x y
      | Sub \<Rightarrow> map2 (fsub F) x y
      | Mul \<Rightarrow> map2 (fmul F) x y
      | Div \<Rightarrow> map2 (fdiv F) x y
      | Scale s \<Rightarrow> map (\<lambda>v. fmul F v (the (as_f32 s))) x
      | Relu \<Rightarrow> map (\<lambda>v. fmax F v 0) x
      | Exp \<Rightarrow> map (fexp F) x
      | Log \<Rightarrow> map (fln F) x
      | ReluGrad \<Rightarrow> map2 relu_grad x y
      | ZerosLike \<Rightarrow> replicate (prod_list result) 0
      | OnesLike \<Rightarrow> replicate (prod_list result) one_element
      | MatMul \<Rightarrow> matrix_spec (arithmetic.truncate F) (matrix_shape sh (ty_shape (tys ! 1)) False) x y
      | BatchMatMul \<Rightarrow> matrix_spec (arithmetic.truncate F) (matrix_shape sh (ty_shape (tys ! 1)) True) x y
      | Reshape target \<Rightarrow> x
      | Transpose p \<Rightarrow> gather sh (view_source sh (PermuteView p)) result x
      | BroadcastTo target \<Rightarrow> gather sh (view_source sh (BroadcastView target)) result x
      | ReduceSumTo target \<Rightarrow> reduce_spec F sh target x
      | StopGradient \<Rightarrow> x
      | Checkpoint \<Rightarrow> x
      | _ \<Rightarrow> [])"

section \<open>Tensors that hold a value\<close>

definition holds :: "tensor \<Rightarrow> tensor_type \<Rightarrow> element list \<Rightarrow> bool" where
  "holds t ty x \<longleftrightarrow> tensor_ok t \<and> tn_dtype t = F32 \<and> tn_dtype t = ty_dtype ty \<and> tn_shape t = ty_shape ty \<and>
     tn_device t = HostDevice \<and> to_f32_vec t = Inr x"

text \<open>Shapes whose tensors can be materialised.\<close>

definition shape_fits :: "shape \<Rightarrow> bool" where
  "shape_fits sh \<longleftrightarrow> checked_num_elements sh = Inr (prod_list sh) \<and> prod_list sh * 4 \<le> usize_max \<and>
     contiguous sh = Inr (row_major sh)"

lemma holds_length: "holds t ty x \<Longrightarrow> length x = prod_list (ty_shape ty)"
  using to_f32_vec_ok [of t] by (auto simp: holds_def)

lemma holds_nth:
  assumes "holds t ty x" and "in_range c (ty_shape ty)"
  shows "x ! ravel (ty_shape ty) c = u32_from_le (tensor_at t c)"
proof -
  have "x = map (\<lambda>c. u32_from_le (tensor_at t c)) (indices (ty_shape ty))"
    using assms(1) to_f32_vec_ok [of t] by (simp add: holds_def)
  with nth_indices [OF assms(2)] ravel_less [OF assms(2)] show ?thesis by simp
qed

lemma from_f32_holds:
  assumes "shape_fits sh" and "length data = prod_list sh"
  shows "\<exists>t. tensor_from_f32 data sh = Inr t \<and> holds t \<lparr>ty_dtype = F32, ty_shape = sh\<rparr> data"
proof -
  let ?t = "mk_tensor (concat (map u32_le data)) F32 sh (row_major sh) 0 HostDevice"
  have t: "tensor_from_f32 data sh = Inr ?t"
    using assms by (simp add: tensor_from_f32_def tensor_from_bytes_eq shape_fits_def length_concat_u32 mult.commute)
  then have "tensor_ok ?t" using tensor_from_bytes_ok(1) unfolding tensor_from_f32_def by blast
  with t from_f32_payload [OF t] show ?thesis by (simp add: holds_def)
qed

lemma view_holds:
  assumes x: "holds t ty x" and v: "reads_as v t sh source" and sh: "ty_shape out = sh" "ty_dtype out = ty_dtype ty"
  shows "holds v out (gather (ty_shape ty) source sh x)"
proof -
  have ok: "tensor_ok v" and v': "tn_dtype v = F32" "tn_shape v = sh" "tn_device v = HostDevice"
    using v x by (simp_all add: reads_as_def holds_def)
  have "u32_from_le (tensor_at v c) = x ! ravel (ty_shape ty) (source c)" if "c \<in> set (indices sh)" for c
  proof -
    have "in_range (source c) (ty_shape ty)" "tensor_at v c = tensor_at t (source c)"
      using that v x by (simp_all add: set_indices reads_as_def holds_def)
    with holds_nth [OF x] show ?thesis by simp
  qed
  then have "map (\<lambda>c. u32_from_le (tensor_at v c)) (indices sh) = gather (ty_shape ty) source sh x"
    by (simp add: gather_def)
  moreover have "ty_dtype ty = F32" using x by (auto simp: holds_def)
  ultimately show ?thesis using to_f32_vec_ok [OF ok v'(1)] ok v' sh by (simp add: holds_def)
qed

section \<open>Element-wise operations and constants\<close>

abbreviation f32_type :: "shape \<Rightarrow> tensor_type" where
  "f32_type sh \<equiv> \<lparr>ty_dtype = F32, ty_shape = sh\<rparr>"

lemma map_err_from_f32:
  assumes "shape_fits sh" and "length data = prod_list sh"
  shows "\<exists>t. on_tensor (tensor_from_f32 data sh) = Inr t \<and> holds t (f32_type sh) data"
  using from_f32_holds [OF assms] by auto

lemma unary_holds:
  assumes "operand vals n 0 = Inr t" and "holds t (node_output n) x" and "shape_fits (ty_shape (node_output n))"
    and "ty_dtype (node_output n) = F32"
  shows "\<exists>r. unary_f32 vals n f = Inr r \<and> holds r (node_output n) (map f x)"
proof -
  have "length (map f x) = prod_list (ty_shape (node_output n))" using holds_length [OF assms(2)] by simp
  from map_err_from_f32 [OF assms(3) this] assms(1,2,4) show ?thesis
    by (auto simp: unary_f32_def holds_def)
qed

lemma binary_holds:
  assumes "operand vals n 0 = Inr t" "operand vals n 1 = Inr u"
    and "holds t (node_output n) x" "holds u (node_output n) y" and "shape_fits (ty_shape (node_output n))"
    and "ty_dtype (node_output n) = F32"
  shows "\<exists>r. binary_f32 vals n f = Inr r \<and> holds r (node_output n) (map2 f x y)"
proof -
  have "length (map2 f x y) = prod_list (ty_shape (node_output n))"
    using holds_length [OF assms(3)] holds_length [OF assms(4)] by simp
  from map_err_from_f32 [OF assms(5) this] assms(1-4,6) show ?thesis
    by (auto simp: binary_f32_def holds_def)
qed

lemma zeros_bytes: "concat (replicate n (u32_le 0)) = replicate (n * 4) 0"
proof (induction n)
  case (Suc n)
  have "u32_le 0 = replicate 4 0"
    by (intro nth_equalityI) (simp_all add: u32_le_def le_bytes_def)
  moreover have "replicate (Suc n * 4) (0 :: u8) = replicate 4 0 @ replicate (n * 4) 0"
    by (simp only: mult_Suc replicate_add)
  ultimately show ?case using Suc by (simp only: replicate_Suc concat.simps)
qed simp

lemma zeros_holds:
  assumes "shape_fits sh"
  shows "\<exists>t. on_tensor (tensor_zeros F32 sh HostDevice) = Inr t \<and> holds t (f32_type sh) (replicate (prod_list sh) 0)"
proof -
  have "tensor_zeros F32 sh HostDevice = tensor_from_f32 (replicate (prod_list sh) 0) sh"
    using assms
    by (simp add: tensor_zeros_def tensor_from_f32_def zeros_bytes shape_fits_def checked_numel_def checked_mul_def)
  with map_err_from_f32 [OF assms, of "replicate (prod_list sh) 0"] show ?thesis by simp
qed

section \<open>Views\<close>

lemma transpose_holds:
  assumes x: "holds t ty x" and p: "axes_ok p (ty_shape ty)" and fits: "shape_fits (permuted p (ty_shape ty))"
    and out: "ty_shape out = permuted p (ty_shape ty)" "ty_dtype out = ty_dtype ty"
  shows "\<exists>r. tensor_permute t p = Inr r \<and>
    holds r out (gather (ty_shape ty) (view_source (ty_shape ty) (PermuteView p)) (ty_shape out) x)"
proof -
  have ok: "tensor_ok t" and sh: "tn_shape t = ty_shape ty" using x by (simp_all add: holds_def)
  have len: "length (tn_strides t) = length (tn_shape t)" using ok by (simp add: tensor_ok_def)
  have p': "axes_ok p (tn_shape t)" using p sh by simp
  have "checked_num_elements (permuted p (tn_shape t)) = Inr (prod_list (permuted p (tn_shape t)))"
    using fits by (simp add: shape_fits_def sh)
  from parts_total [OF ok tensor_offset_elements [OF ok] _ this permute_source [OF p' len]]
  obtain r where r: "tensor_permute t p = Inr r"
    using p' by (auto simp: tensor_permute_eq [OF ok] permuted_def)
  from view_holds [OF x permute_reads [OF ok r]] r out sh show ?thesis by simp
qed

lemma broadcast_holds:
  assumes x: "holds t ty x" and b: "broadcasts (ty_shape ty) target" and fits: "shape_fits target"
    and out: "ty_shape out = target" "ty_dtype out = ty_dtype ty"
  shows "\<exists>r. tensor_broadcast_to t target = Inr r \<and>
    holds r out (gather (ty_shape ty) (view_source (ty_shape ty) (BroadcastView target)) (ty_shape out) x)"
proof -
  have ok: "tensor_ok t" and sh: "tn_shape t = ty_shape ty" using x by (simp_all add: holds_def)
  from broadcast_decides [OF ok, of target] b fits sh obtain r where r: "tensor_broadcast_to t target = Inr r"
    by (auto simp: decided_by_def shape_fits_def)
  from view_holds [OF x broadcast_reads [OF ok r]] r out sh show ?thesis by simp
qed

lemma gather_reshape:
  assumes "prod_list sh' = prod_list sh" and "length x = prod_list sh"
  shows "gather sh (view_source sh (ReshapeView sh')) sh' x = x"
proof -
  have "gather sh (view_source sh (ReshapeView sh')) sh' x = map (\<lambda>i. x ! i) (map (ravel sh') (indices sh'))"
    unfolding gather_def map_map
  proof (rule map_cong [OF refl])
    fix c assume "c \<in> set (indices sh')"
    then have "ravel sh' c < prod_list sh" using ravel_less [of c sh'] assms(1) by (simp add: set_indices)
    then show "x ! ravel sh (view_source sh (ReshapeView sh') c) = ((!) x \<circ> ravel sh') c"
      by (simp add: ravel_unravel)
  qed
  moreover have "prod_list sh' = length x" using assms by simp
  ultimately show ?thesis by (simp only: ravel_indices map_nth)
qed

lemma reshape_contiguous_holds:
  assumes x: "holds t ty x" and cont: "is_contiguous t" and fits: "shape_fits target"
    and n: "prod_list target = prod_list (ty_shape ty)" and out: "ty_shape out = target" "ty_dtype out = ty_dtype ty"
  shows "\<exists>r. tensor_reshape t target = Inr r \<and> holds r out x"
proof -
  have ok: "tensor_ok t" and sh: "tn_shape t = ty_shape ty" using x by (simp_all add: holds_def)
  have n': "prod_list target = prod_list (tn_shape t)" using n sh by simp
  have len: "length (row_major target) = length target" by simp
  have count: "checked_num_elements target = Inr (prod_list target)" using fits by (simp add: shape_fits_def)
  have "\<exists>v. from_shared_parts (tn_storage t) (tn_dtype t) target (row_major target)
      (tn_offset_elements t) (tn_device t) = Inr v"
    using parts_total [OF ok tensor_offset_elements [OF ok] len count, where source = "view_source (tn_shape t) (ReshapeView target)"]
      reshape_source [OF n', where off = "tn_offset_elements t"] is_contiguous_strides [OF cont] by simp
  then obtain r where r: "tensor_reshape t target = Inr r"
    using fits n' cont by (auto simp: tensor_reshape_eq [OF ok] shape_fits_def)
  from view_holds [OF x reshape_reads [OF ok r]] r out sh gather_reshape [OF n holds_length [OF x]]
  show ?thesis by simp
qed

lemma contiguous_holds:
  assumes x: "holds t ty x" and fits: "shape_fits (ty_shape ty)"
  shows "\<exists>r. tensor_contiguous t = Inr r \<and> holds r ty x \<and> is_contiguous r"
proof -
  have ok: "tensor_ok t" and t: "tn_shape t = ty_shape ty" "tn_dtype t = F32" "tn_device t = HostDevice"
    using x by (simp_all add: holds_def)
  let ?bytes = "concat (map (tensor_at t) (indices (tn_shape t)))"
  have bytes: "to_contiguous_bytes t = Inr ?bytes" by (rule to_contiguous_bytes_ok [OF ok])
  have "length (tensor_at t c) = 4" if "c \<in> set (indices (tn_shape t))" for c
    using length_tensor_at [OF ok] that t by (simp add: set_indices)
  then have len: "length ?bytes = prod_list (tn_shape t) * 4"
    by (simp add: length_concat comp_def sum_list_triv cong: map_cong)
  let ?r = "mk_tensor ?bytes F32 (tn_shape t) (row_major (tn_shape t)) 0 HostDevice"
  have r: "tensor_from_bytes ?bytes F32 (tn_shape t) HostDevice = Inr ?r"
    using fits len t by (simp add: tensor_from_bytes_eq shape_fits_def)
  have "to_contiguous_bytes ?r = to_contiguous_bytes t" using from_bytes_payload [OF r] bytes by simp
  then have "to_f32_vec ?r = to_f32_vec t" using t by (simp add: to_f32_vec_def)
  moreover have "is_contiguous ?r" using fits t by (simp add: is_contiguous_def shape_fits_def)
  moreover have "tensor_contiguous t = Inr ?r" using r bytes t by (simp add: tensor_contiguous_def)
  ultimately show ?thesis
    using x t tensor_from_bytes_ok(1) [OF r] by (intro exI [of _ ?r]) (simp add: holds_def)
qed

section \<open>Matrix products\<close>

abbreviation arith_of :: "float_library \<Rightarrow> arithmetic" where
  "arith_of F \<equiv> arithmetic.truncate F"

lemma arith_of_simps [simp]: "fadd (arith_of F) = fadd F" "fmul (arith_of F) = fmul F"
  by (simp_all add: arithmetic.truncate_def)

lemma usize_op_in [simp]: "n \<le> usize_max \<Longrightarrow> usize_op n = Inr n"
  by (simp add: usize_op_def)

lemma flat_offset_in: "base + row * width + column \<le> usize_max \<Longrightarrow>
    flat_offset base row width column = Inr (base + row * width + column)"
  by (simp add: flat_offset_def)

lemma sum_loop:
  assumes "\<And>i. i < k \<Longrightarrow> lhs_base + row * k' + i < length lhs" "\<And>i. i < k \<Longrightarrow> rhs_base + i * n + col < length rhs"
    and "length lhs \<le> usize_max" "length rhs \<le> usize_max"
  shows "try_fold (sum_term F lhs rhs lhs_base rhs_base k' n row col) 0 [0..<k] =
    Inr (dot (arith_of F) (\<lambda>i. lhs ! (lhs_base + row * k' + i)) (\<lambda>i. rhs ! (rhs_base + i * n + col)) k)"
  using assms(1,2)
proof (induction k)
  case 0
  then show ?case by (simp add: dot_def)
next
  case (Suc k)
  have l: "lhs_base + row * k' + k < length lhs" and r: "rhs_base + k * n + col < length rhs"
    using Suc.prems by auto
  then have "lhs_base + row * k' + k \<le> usize_max" "rhs_base + k * n + col \<le> usize_max"
    using assms(3,4) by linarith+
  with l r have "sum_term F lhs rhs lhs_base rhs_base k' n row col acc k =
      Inr (fadd F acc (fmul F (lhs ! (lhs_base + row * k' + k)) (rhs ! (rhs_base + k * n + col))))" for acc
    by (simp add: sum_term_def flat_offset_in)
  with Suc show ?case by (simp add: dot_def)
qed

lemma filled_update: "filled g len t out \<Longrightarrow> t < len \<Longrightarrow> filled g len (Suc t) (out[t := g t])"
  by (auto simp: filled_def nth_list_update less_Suc_eq)

lemma oracle_cell_step:
  assumes sized: "matrices_sized plan lhs rhs out" and b: "b < mx_batches plan" and r: "r < mx_m plan"
    and c: "c < mx_n plan"
    and out: "filled (entry_at (arith_of F) plan lhs rhs) (length out) (b * (mx_m plan * mx_n plan) + r * mx_n plan + c) u"
  shows "\<exists>v. oracle_cell F lhs rhs (b * (mx_m plan * mx_k plan)) (b * (mx_k plan * mx_n plan))
      (b * (mx_m plan * mx_n plan)) (mx_k plan) (mx_n plan) r u c = Inr v \<and>
    filled (entry_at (arith_of F) plan lhs rhs) (length out) (b * (mx_m plan * mx_n plan) + r * mx_n plan + Suc c) v"
proof -
  let ?t = "b * (mx_m plan * mx_n plan) + r * mx_n plan + c"
  note lens = sized [unfolded matrices_sized_def]
  have t: "?t < length out" using flat_index_less [OF b r c] lens by simp
  then have small: "?t \<le> usize_max" using lens by linarith
  have "try_fold (sum_term F lhs rhs (b * (mx_m plan * mx_k plan)) (b * (mx_k plan * mx_n plan))
      (mx_k plan) (mx_n plan) r c) 0 [0..<mx_k plan] = Inr (product_entry (arith_of F) plan lhs rhs b r c)"
    unfolding product_entry_def
  proof (rule sum_loop)
    show "b * (mx_m plan * mx_k plan) + r * mx_k plan + i < length lhs" if "i < mx_k plan" for i
      using flat_index_less [OF b r that] lens by simp
    show "b * (mx_k plan * mx_n plan) + i * mx_n plan + c < length rhs" if "i < mx_k plan" for i
      using flat_index_less [OF b that c] lens by simp
  qed (use lens in simp_all)
  moreover have "product_entry (arith_of F) plan lhs rhs b r c = entry_at (arith_of F) plan lhs rhs ?t"
    unfolding entry_at_def by (simp only: flat_index_parts [OF r c])
  moreover have "length u = length out" using out by (simp add: filled_def)
  moreover have "flat_offset (b * (mx_m plan * mx_n plan)) r (mx_n plan) c = (Inr ?t :: (oracle_error, _) outcome)"
    by (rule flat_offset_in [OF small])
  ultimately show ?thesis using filled_update [OF out t] t by (simp add: oracle_cell_def)
qed

lemma oracle_row_step:
  assumes sized: "matrices_sized plan lhs rhs out" and b: "b < mx_batches plan" and r: "r < mx_m plan"
    and out: "filled (entry_at (arith_of F) plan lhs rhs) (length out) (b * (mx_m plan * mx_n plan) + r * mx_n plan) u"
  shows "\<exists>v. try_fold (oracle_cell F lhs rhs (b * (mx_m plan * mx_k plan)) (b * (mx_k plan * mx_n plan))
      (b * (mx_m plan * mx_n plan)) (mx_k plan) (mx_n plan) r) u [0..<mx_n plan] = Inr v \<and>
    filled (entry_at (arith_of F) plan lhs rhs) (length out) (b * (mx_m plan * mx_n plan) + Suc r * mx_n plan) v"
proof -
  let ?P = "\<lambda>c. filled (entry_at (arith_of F) plan lhs rhs) (length out) (b * (mx_m plan * mx_n plan) + r * mx_n plan + c)"
  let ?f = "oracle_cell F lhs rhs (b * (mx_m plan * mx_k plan)) (b * (mx_k plan * mx_n plan))
      (b * (mx_m plan * mx_n plan)) (mx_k plan) (mx_n plan) r"
  have "\<exists>v. try_fold ?f u [0..<mx_n plan] = Inr v \<and> ?P (length [0..<mx_n plan]) v"
  proof (rule try_fold_total [where P = ?P])
    show "?P 0 u" using out by simp
    fix c s assume "c < length [0..<mx_n plan]" "?P c s"
    then show "\<exists>v. ?f s ([0..<mx_n plan] ! c) = Inr v \<and> ?P (Suc c) v"
      using oracle_cell_step [OF sized b r] by simp
  qed
  then show ?thesis by (simp add: add.assoc add.commute [of "mx_n plan"])
qed

lemma oracle_batch_step:
  assumes sized: "matrices_sized plan lhs rhs out" and b: "b < mx_batches plan"
    and prefix: "mx_batches plan * mx_m plan \<le> usize_max" "mx_batches plan * mx_k plan \<le> usize_max"
    and out: "filled (entry_at (arith_of F) plan lhs rhs) (length out) (b * (mx_m plan * mx_n plan)) u"
  shows "\<exists>v. oracle_batch F lhs rhs (mx_m plan) (mx_k plan) (mx_n plan) u b = Inr v \<and>
    filled (entry_at (arith_of F) plan lhs rhs) (length out) (Suc b * (mx_m plan * mx_n plan)) v"
proof -
  note lens = sized [unfolded matrices_sized_def]
  let ?P = "\<lambda>r. filled (entry_at (arith_of F) plan lhs rhs) (length out) (b * (mx_m plan * mx_n plan) + r * mx_n plan)"
  let ?f = "\<lambda>out row. try_fold (oracle_cell F lhs rhs (b * (mx_m plan * mx_k plan)) (b * (mx_k plan * mx_n plan))
      (b * (mx_m plan * mx_n plan)) (mx_k plan) (mx_n plan) row) out [0..<mx_n plan]"
  have le: "b * D \<le> usize_max" if "mx_batches plan * D \<le> usize_max" for D
    using mult_le_mono1 [of b "mx_batches plan" D] b that by linarith
  have "\<exists>v. try_fold ?f u [0..<mx_m plan] = Inr v \<and> ?P (length [0..<mx_m plan]) v"
  proof (rule try_fold_total [where P = ?P])
    show "?P 0 u" using out by simp
    fix r s assume "r < length [0..<mx_m plan]" "?P r s"
    then show "\<exists>v. ?f s ([0..<mx_m plan] ! r) = Inr v \<and> ?P (Suc r) v"
      using oracle_row_step [OF sized b] by simp
  qed
  moreover have "usize_op (b * mx_m plan) = (Inr (b * mx_m plan) :: (oracle_error, _) outcome)"
    "usize_op (b * mx_m plan * mx_k plan) = (Inr (b * (mx_m plan * mx_k plan)) :: (oracle_error, _) outcome)"
    "usize_op (b * mx_k plan) = (Inr (b * mx_k plan) :: (oracle_error, _) outcome)"
    "usize_op (b * mx_k plan * mx_n plan) = (Inr (b * (mx_k plan * mx_n plan)) :: (oracle_error, _) outcome)"
    "usize_op (b * mx_m plan * mx_n plan) = (Inr (b * (mx_m plan * mx_n plan)) :: (oracle_error, _) outcome)"
    using le prefix lens by (simp_all add: mult.assoc)
  ultimately show ?thesis
    by (simp add: oracle_batch_def add.commute [of "mx_m plan * mx_n plan"])
qed

lemma oracle_product:
  assumes lens: "length lhs = mx_batches plan * (mx_m plan * mx_k plan)"
      "length rhs = mx_batches plan * (mx_k plan * mx_n plan)"
    and small: "length lhs \<le> usize_max" "length rhs \<le> usize_max"
      "mx_batches plan * (mx_m plan * mx_n plan) \<le> usize_max"
    and prefix: "mx_batches plan * mx_m plan \<le> usize_max" "mx_batches plan * mx_k plan \<le> usize_max"
  shows "try_fold (oracle_batch F lhs rhs (mx_m plan) (mx_k plan) (mx_n plan))
      (replicate (mx_batches plan * mx_m plan * mx_n plan) 0) [0..<mx_batches plan] =
    Inr (matrix_spec (arith_of F) plan lhs rhs)"
proof -
  let ?out = "replicate (mx_batches plan * mx_m plan * mx_n plan) (0 :: element)"
  have sized: "matrices_sized plan lhs rhs ?out"
    using lens small by (simp add: matrices_sized_def mult.assoc)
  let ?P = "\<lambda>b. filled (entry_at (arith_of F) plan lhs rhs) (length ?out) (b * (mx_m plan * mx_n plan))"
  have "\<exists>v. try_fold (oracle_batch F lhs rhs (mx_m plan) (mx_k plan) (mx_n plan)) ?out [0..<mx_batches plan] = Inr v \<and>
      ?P (length [0..<mx_batches plan]) v"
  proof (rule try_fold_total [where P = ?P])
    show "?P 0 ?out" by (simp add: filled_0)
    fix b s assume "b < length [0..<mx_batches plan]" "?P b s"
    then show "\<exists>v. oracle_batch F lhs rhs (mx_m plan) (mx_k plan) (mx_n plan) s ([0..<mx_batches plan] ! b) = Inr v \<and>
        ?P (Suc b) v"
      using oracle_batch_step [OF sized _ prefix] by simp
  qed
  then show ?thesis
    by (auto simp: mult.assoc filled_all matrix_spec_def entry_at_def)
qed

lemma checked_take:
  assumes "checked_num_elements sh = Inr n"
  shows "checked_num_elements (take j sh) = Inr (prod_list (take j sh))"
    and "prod_list (take j sh) \<le> usize_max"
proof -
  have "checked_num_elements (take j sh @ drop j sh) = Inr n" using assms by simp
  then obtain p where p: "checked_num_elements (take j sh) = Inr p"
    unfolding checked_num_elements_def try_fold_append by (auto simp: outcome_simps)
  then have "p = prod_list (take j sh)" by (rule checked_num_elements_Inr)
  with p show "checked_num_elements (take j sh) = Inr (prod_list (take j sh))" by simp
  then show "prod_list (take j sh) \<le> usize_max" by (rule checked_num_elements_le)
qed

lemma usize_product_checked:
  assumes "checked_num_elements dims = Inr n"
  shows "usize_product dims = Inr (prod_list dims)"
proof -
  have "try_fold (\<lambda>p d. ok_or ShapeOverflow (checked_mul p d)) a dims = Inr n \<Longrightarrow>
      try_fold (\<lambda>p d. usize_op (p * d)) a dims = Inr n" for a
    by (induction dims arbitrary: a) (auto simp: outcome_simps)
  with assms checked_num_elements_Inr [OF assms] show ?thesis
    by (simp add: usize_product_def checked_num_elements_def)
qed

lemma matmul_f32_eq:
  assumes "operand vals n 0 = Inr t" "operand vals n 1 = Inr u" "to_f32_vec t = Inr x" "to_f32_vec u = Inr y"
    and "tn_shape t = bs @ [m, k]" "tn_shape u = bs @ [k, c]"
    and "batched \<Longrightarrow> usize_product bs = (Inr B :: (oracle_error, usize) outcome)" "\<not> batched \<Longrightarrow> B = 1"
    and "B * m \<le> usize_max" "B * m * c \<le> usize_max"
    and "try_fold (oracle_batch F x y m k c) (replicate (B * m * c) 0) [0..<B] = Inr out"
  shows "matmul_f32 F vals n batched = on_tensor (tensor_from_f32 out (ty_shape (node_output n)))"
  using assms by (cases batched) (simp_all add: matmul_f32_def nth_append Let_def del: One_nat_def)

lemma matmul_holds:
  assumes t: "operand vals n 0 = Inr t" "holds t (f32_type (bs @ [m, k])) x"
    and u: "operand vals n 1 = Inr u" "holds u (f32_type (bs @ [k, c])) y"
    and out: "node_output n = f32_type (bs @ [m, c])" and fits: "shape_fits (bs @ [m, c])"
    and batched: "batched \<or> bs = []"
  shows "\<exists>r. matmul_f32 F vals n batched = Inr r \<and> holds r (node_output n)
    (matrix_spec (arith_of F) (matrix_shape (bs @ [m, k]) (bs @ [k, c]) batched) x y)"
proof -
  let ?plan = "matrix_shape (bs @ [m, k]) (bs @ [k, c]) batched"
  have plan: "mx_batches ?plan = prod_list bs" "mx_m ?plan = m" "mx_k ?plan = k" "mx_n ?plan = c"
    using batched by (auto simp: matrix_shape_def Let_def nth_append)
  have shapes: "tn_shape t = bs @ [m, k]" "tn_shape u = bs @ [k, c]" using t u by (simp_all add: holds_def)
  have numel: "checked_num_elements (bs @ [m, k]) = Inr (prod_list (bs @ [m, k]))"
    "checked_num_elements (bs @ [k, c]) = Inr (prod_list (bs @ [k, c]))"
    "checked_num_elements (bs @ [m, c]) = Inr (prod_list (bs @ [m, c]))"
    using t(2) u(2) fits shapes by (simp_all add: holds_def tensor_ok_def shape_fits_def)
  have prefix: "prod_list bs * m \<le> usize_max" "prod_list bs * k \<le> usize_max"
    using checked_take(2) [OF numel(1), of "Suc (length bs)"] checked_take(2) [OF numel(2), of "Suc (length bs)"]
    by simp_all
  have small: "prod_list bs * (m * k) \<le> usize_max" "prod_list bs * (k * c) \<le> usize_max"
    "prod_list bs * (m * c) \<le> usize_max"
    using checked_num_elements_le [OF numel(1)] checked_num_elements_le [OF numel(2)]
      checked_num_elements_le [OF numel(3)] by simp_all
  have lens: "length x = prod_list bs * (m * k)" "length y = prod_list bs * (k * c)"
    using holds_length [OF t(2)] holds_length [OF u(2)] by simp_all
  let ?r = "matrix_spec (arith_of F) ?plan x y"
  have loop: "try_fold (oracle_batch F x y m k c) (replicate (prod_list bs * m * c) 0) [0..<prod_list bs] = Inr ?r"
    using oracle_product [where plan = ?plan and lhs = x and rhs = y and F = F] lens small prefix by (simp add: plan)
  have "length ?r = prod_list (bs @ [m, c])" by (simp add: matrix_spec_def plan)
  from map_err_from_f32 [OF fits this] obtain r where
    r: "on_tensor (tensor_from_f32 ?r (bs @ [m, c])) = Inr r" "holds r (f32_type (bs @ [m, c])) ?r" by blast
  have vec: "to_f32_vec t = Inr x" "to_f32_vec u = Inr y" using t(2) u(2) by (simp_all add: holds_def)
  have batches: "usize_product bs = (Inr (prod_list bs) :: (oracle_error, usize) outcome)"
    using usize_product_checked [OF checked_take(1) [OF numel(1), of "length bs"]] by simp
  have one: "prod_list bs = 1" if "\<not> batched" using that batched by simp
  have "matmul_f32 F vals n batched = on_tensor (tensor_from_f32 ?r (ty_shape (node_output n)))"
    by (rule matmul_f32_eq [OF t(1) u(1) vec shapes batches one prefix(1) _ loop]) (use small in \<open>simp_all add: mult.assoc\<close>)
  with r out show ?thesis by simp
qed

section \<open>Reductions\<close>

lemma contiguous_suffix: "contiguous dims = Inr s \<Longrightarrow> 0 < j \<Longrightarrow> prod_list (drop j dims) \<le> usize_max"
proof (induction dims arbitrary: s j rule: contiguous.induct)
  case (3 d d' ds)
  then obtain vs where vs: "contiguous (d' # ds) = Inr vs" "hd vs * d' \<le> usize_max"
    by (auto simp: outcome_simps)
  then have "prod_list (d' # ds) \<le> usize_max" using contiguous_Inr [OF vs(1)] by (simp add: mult.commute)
  moreover have "prod_list (drop i ds) \<le> usize_max" for i
    using "3.IH" [OF vs(1), of "Suc i"] by simp
  ultimately show ?case using "3.prems"(2) by (cases j; cases "j - 1") auto
qed (auto simp: gr0_conv_Suc)

lemma oracle_stride_loop:
  assumes "length st = length sh" and "m < length sh" and "drop m st = drop m (row_major sh)"
    and suffix: "\<And>j. 0 < j \<Longrightarrow> prod_list (drop j sh) \<le> usize_max"
  shows "try_fold (oracle_stride_step sh) st (rev [0..<m]) = Inr (row_major sh)"
  using assms(1-3)
proof (induction m arbitrary: st)
  case (Suc m)
  let ?R = "row_major sh"
  have m: "Suc m < length sh" using Suc.prems(2) .
  have "st ! Suc m = ?R ! Suc m"
    using arg_cong [OF Suc.prems(3), of hd] m Suc.prems(1) by (simp add: hd_drop_conv_nth)
  then have at: "st ! Suc m * sh ! Suc m = ?R ! m"
    using m by (simp add: row_major_nth Cons_nth_drop_Suc [symmetric] mult.commute)
  have "?R ! m \<le> usize_max" using suffix [of "Suc m"] m by (simp add: row_major_nth)
  then have step: "oracle_stride_step sh st m = Inr (st[m := ?R ! m])"
    using m Suc.prems(1) at by (simp add: oracle_stride_step_def)
  have "drop m (st[m := ?R ! m]) = drop m ?R"
    using Suc.prems m by (simp add: Cons_nth_drop_Suc [symmetric])
  with Suc.IH [of "st[m := ?R ! m]"] Suc.prems step m show ?case by simp
qed simp

lemma contiguous_strides_eq:
  assumes "contiguous sh = Inr (row_major sh)"
  shows "contiguous_strides sh = Inr (row_major sh)"
proof (cases "length sh > 1")
  case True
  have "drop (length sh - 1) (row_major sh) = [row_major sh ! (length sh - 1)]"
    using True by (intro nth_equalityI) auto
  also have "\<dots> = [1]" using True by (simp add: row_major_nth)
  finally have "drop (length sh - 1) (replicate (length sh) 1) = drop (length sh - 1) (row_major sh)"
    using True by (simp add: drop_replicate)
  then show ?thesis
    using oracle_stride_loop [of "replicate (length sh) 1" sh "length sh - 1"] contiguous_suffix [OF assms] True
    by (simp add: contiguous_strides_def)
next
  case False
  then have "sh = [] \<or> (\<exists>d. sh = [d])" by (cases sh) auto
  then show ?thesis by (auto simp: contiguous_strides_def)
qed

definition reduce_strides :: "shape \<Rightarrow> shape \<Rightarrow> strides" where
  "reduce_strides sh target =
     replicate (length sh - length target) 0 @ map2 (\<lambda>d s. if d = 1 then 0 else s) target (row_major target)"

lemma stride_dot_reduced:
  "length y = length target \<Longrightarrow> stride_dot (map2 (\<lambda>d s. if d = 1 then 0 else s) target (row_major target)) y =
    ravel target (map2 (\<lambda>d x. if d = 1 then 0 else x) target y)"
proof (induction target arbitrary: y)
  case (Cons d target)
  then show ?case by (cases y) auto
qed simp

lemma reduce_strides_dot:
  assumes "length target \<le> length sh" and "length c = length sh"
  shows "stride_dot (reduce_strides sh target) c = reduce_index sh target c"
  using assms stride_dot_reduced [of "drop (length sh - length target) c" target]
  by (simp add: reduce_strides_def stride_dot_drop reduce_index_def)

lemma reduce_index_less:
  assumes "broadcasts target sh" and "in_range c sh"
  shows "reduce_index sh target c < prod_list target"
  unfolding reduce_index_def
  using broadcast_source [OF assms(1) length_row_major assms(2)] by (intro ravel_less) simp

lemma target_axis_loop:
  assumes c: "in_range c sh" and le: "length target \<le> length sh" and k: "k \<le> length sh"
    and "off + stride_dot (take k (reduce_strides sh target)) (take k c) \<le> usize_max"
  shows "try_fold (target_axis_step sh target (row_major target) (length sh - length target))
      (ravel (take k sh) (take k c), off) (rev [0..<k]) =
    Inr (0, off + stride_dot (take k (reduce_strides sh target)) (take k c))"
  using assms(3,4)
proof (induction k arbitrary: off)
  case (Suc k)
  let ?ss = "reduce_strides sh target" and ?d = "length sh - length target"
  have len: "length c = length sh" "length ?ss = length sh"
    using c le by (simp_all add: in_range_length reduce_strides_def)
  have k: "k < length sh" "k < length c" "k < length ?ss" using Suc.prems(1) len by simp_all
  have ck: "c ! k < sh ! k" using c k by (simp add: in_range_def list_all2_conv_all_nth)
  have takes: "take (Suc k) sh = take k sh @ [sh ! k]" "take (Suc k) c = take k c @ [c ! k]"
    "take (Suc k) ?ss = take k ?ss @ [?ss ! k]"
    using k by (simp_all add: take_Suc_conv_app_nth)
  let ?R = "ravel (take k sh) (take k c)" and ?D = "stride_dot (take k ?ss) (take k c)"
  have R: "ravel (take (Suc k) sh) (take (Suc k) c) = ?R * sh ! k + c ! k"
    using k by (simp add: takes ravel_snoc)
  have D: "stride_dot (take (Suc k) ?ss) (take (Suc k) c) = ?D + c ! k * ?ss ! k"
    using k by (simp add: takes stride_dot_snoc)
  have bound: "off + c ! k * ?ss ! k + ?D \<le> usize_max" using Suc.prems(2) by (simp add: D)
  have stride: "?ss ! k = (if k < ?d then 0 else if target ! (k - ?d) = 1 then 0 else row_major target ! (k - ?d))"
    using k le by (simp add: reduce_strides_def nth_append)
  have "target_axis_step sh target (row_major target) ?d (?R * sh ! k + c ! k, off) k = Inr (?R, off + c ! k * ?ss ! k)"
    using ck k le bound
    by (cases "k < ?d"; cases "target ! (k - ?d) = 1")
      (simp_all add: target_axis_step_def div_flat stride Let_def del: One_nat_def)
  with Suc.IH [of "off + c ! k * ?ss ! k"] bound k(1) show ?case by (simp add: R D)
qed simp

lemma reduce_target:
  assumes c: "in_range c sh" and b: "broadcasts target sh" and small: "prod_list target \<le> usize_max"
  shows "try_fold (target_axis_step sh target (row_major target) (length sh - length target))
    (ravel sh c, 0) (rev [0..<length sh]) = Inr (0, reduce_index sh target c)"
proof -
  have le: "length target \<le> length sh" using b by (simp add: broadcasts_iff)
  have len: "length c = length sh" "length (reduce_strides sh target) = length sh"
    using c le by (simp_all add: in_range_length reduce_strides_def)
  have "stride_dot (reduce_strides sh target) c \<le> usize_max"
    using reduce_index_less [OF b c] small by (simp add: reduce_strides_dot [OF le len(1)])
  with target_axis_loop [OF c le order_refl, of 0] len show ?thesis
    by (simp add: reduce_strides_dot [OF le len(1)])
qed

lemma reduce_loop:
  assumes b: "broadcasts target sh" and small: "prod_list target \<le> usize_max" and x: "length x = prod_list sh"
  shows "try_fold (reduce_step F sh target (row_major target) (length sh - length target))
    (replicate (prod_list target) 0) (enumerate 0 x) = Inr (reduce_spec F sh target x)"
proof -
  let ?sum = "\<lambda>t j. foldl (\<lambda>acc c. fadd F acc (x ! ravel sh c)) 0
    (filter (\<lambda>c. reduce_index sh target c = j) (take t (indices sh)))"
  let ?P = "\<lambda>t out. out = map (?sum t) [0..<prod_list target]"
  let ?f = "reduce_step F sh target (row_major target) (length sh - length target)"
  have "\<exists>out. try_fold ?f (replicate (prod_list target) 0) (enumerate 0 x) = Inr out \<and> ?P (length (enumerate 0 x)) out"
  proof (rule try_fold_total [where P = ?P])
    show "?P 0 (replicate (prod_list target) 0)" by (simp add: map_replicate_const)
    fix t out assume "t < length (enumerate 0 x)" and out: "?P t out"
    then have t: "t < length x" "t < length (indices sh)" using x by simp_all
    let ?c = "indices sh ! t"
    have c: "in_range ?c sh" using nth_mem [OF t(2)] by (simp add: set_indices)
    have r: "ravel sh ?c = t" using arg_cong [OF ravel_indices [of sh], of "\<lambda>l. l ! t"] t x by simp
    let ?j = "reduce_index sh target ?c"
    have j: "?j < prod_list target" by (rule reduce_index_less [OF b c])
    have "?f out (t, x ! t) = Inr (out[?j := fadd F (out ! ?j) (x ! t)])"
      using reduce_target [OF c b small] r j out by (simp add: reduce_step_def)
    moreover have "out[?j := fadd F (out ! ?j) (x ! t)] = map (?sum (Suc t)) [0..<prod_list target]"
      using j t r by (intro nth_equalityI) (auto simp: out take_Suc_conv_app_nth nth_list_update)
    ultimately show "\<exists>out'. ?f out (enumerate 0 x ! t) = Inr out' \<and> ?P (Suc t) out'"
      using t by simp
  qed
  then show ?thesis using x by (simp add: reduce_spec_def)
qed

lemma reduce_holds:
  assumes x: "holds t ty x" and b: "broadcasts target (ty_shape ty)" and fits: "shape_fits target"
  shows "\<exists>r. reduce_sum_to_f32 F t target = Inr r \<and>
    holds r (f32_type target) (reduce_spec F (ty_shape ty) target x)"
proof -
  have count: "checked_num_elements target = Inr (prod_list target)" and cont: "contiguous target = Inr (row_major target)"
    using fits by (simp_all add: shape_fits_def)
  have le: "length target \<le> length (ty_shape ty)" using b by (simp add: broadcasts_iff)
  have t: "tn_shape t = ty_shape ty" "to_f32_vec t = Inr x" using x by (simp_all add: holds_def)
  have "length (reduce_spec F (ty_shape ty) target x) = prod_list target" by (simp add: reduce_spec_def)
  from map_err_from_f32 [OF fits this] obtain r where
    r: "on_tensor (tensor_from_f32 (reduce_spec F (ty_shape ty) target x) target) = Inr r"
    "holds r (f32_type target) (reduce_spec F (ty_shape ty) target x)" by blast
  have product: "usize_product target = (Inr (prod_list target) :: (oracle_error, _) outcome)"
    by (rule usize_product_checked [OF count])
  have "reduce_sum_to_f32 F t target = on_tensor (tensor_from_f32 (reduce_spec F (ty_shape ty) target x) target)"
    using reduce_loop [OF b checked_num_elements_le [OF count] holds_length [OF x], of F] le
    by (simp add: reduce_sum_to_f32_def t product contiguous_strides_eq [OF cont] Let_def)
  with r show ?thesis by simp
qed

end
