(* ===== verification/Oracle_Execution.thy ===== *)
theory Oracle_Execution
  imports Oracle_Correct
begin

text \<open>
  The oracle runs a whole graph: preparation decides, every node refines its meaning on flat vectors,
  and execution either names the first unusable input or returns the values of the graph.
\<close>

section \<open>One node\<close>

lemma broadcastable_broadcasts: "broadcastable s t \<longleftrightarrow> broadcasts s t"
  by (auto simp: broadcastable_def broadcasts_iff add.commute)

text \<open>The values computed so far.\<close>

definition table_holds :: "node list \<Rightarrow> (node_id \<Rightarrow> element list) \<Rightarrow> nat \<Rightarrow> value_table \<Rightarrow> bool" where
  "table_holds ns val k vals \<longleftrightarrow> length vals = length ns \<and>
     (\<forall>i < k. \<exists>t. vals ! i = Some t \<and> holds t (type_of ns i) (val i))"

definition all_fit :: "node list \<Rightarrow> bool" where
  "all_fit ns \<longleftrightarrow> (\<forall>n \<in> set ns. ty_dtype (node_output n) = F32 \<and> shape_fits (ty_shape (node_output n)))"

lemma operand_holds:
  assumes "table_holds ns val k vals" and "node_ok k n" and "k \<le> length ns" and "i < length (node_inputs n)"
  shows "\<exists>t. operand vals n i = Inr t \<and> holds t (type_of ns (node_inputs n ! i)) (val (node_inputs n ! i))"
proof -
  let ?j = "node_inputs n ! i"
  have "?j < k" using assms(2,4) by (simp add: node_ok_def)
  with assms(1,3,4) show ?thesis
    by (fastforce simp: table_holds_def operand_def value_at_def get_def)
qed

lemma f32_type_eta: "ty_dtype ty = F32 \<Longrightarrow> f32_type (ty_shape ty) = ty"
  by simp

lemma flat_names:
  assumes "map (type_of ns) (node_inputs n) = [a]"
  shows "\<exists>i. node_inputs n = [i] \<and> type_of ns i = a"
  using assms by (cases "node_inputs n") auto

lemma flat_names2:
  assumes "map (type_of ns) (node_inputs n) = [a, b]"
  shows "\<exists>i j. node_inputs n = [i, j] \<and> type_of ns i = a \<and> type_of ns j = b"
  using assms by (cases "node_inputs n"; cases "tl (node_inputs n)") auto

definition node_refines ::
  "float_library \<Rightarrow> node list \<Rightarrow> (node_id \<Rightarrow> element list) \<Rightarrow> (oracle_error, tensor) outcome \<Rightarrow> node \<Rightarrow> bool" where
  "node_refines F ns val res n \<longleftrightarrow> (\<exists>r. res = Inr r \<and> holds r (node_output n)
     (flat_operation F (node_operation n) (map (type_of ns) (node_inputs n)) (node_output n) (map val (node_inputs n))))"

lemma node_refines_unary:
  assumes tab: "table_holds ns val k vals" "node_ok k n" "k \<le> length ns" and all: "all_fit ns"
    and out: "ty_dtype (node_output n) = F32" "shape_fits (ty_shape (node_output n))"
    and tys: "map (type_of ns) (node_inputs n) = [node_output n]"
    and typed: "op_typed (node_operation n) (map (type_of ns) (node_inputs n)) (node_output n)"
    and oper: "(\<exists>f. node_operation n = Scale f) \<or>
      node_operation n \<in> {Relu, Exp, Log, ZerosLike, OnesLike, StopGradient, Checkpoint}"
  shows "node_refines F ns val (execute_node F s inputs vals i n) n"
proof -
  obtain j where j: "node_inputs n = [j]" "type_of ns j = node_output n" using flat_names [OF tys] by blast
  obtain t where t: "operand vals n 0 = Inr t" "holds t (node_output n) (val j)"
    using operand_holds [OF tab, of 0] j by auto
  note unary = unary_holds [OF t out(2,1)]
  have zeros: "\<exists>r. on_tensor (tensor_zeros F32 (ty_shape (node_output n)) HostDevice) = Inr r \<and>
      holds r (node_output n) (replicate (prod_list (ty_shape (node_output n))) 0)"
    using zeros_holds [OF out(2)] f32_type_eta [OF out(1)] by simp
  have ones: "\<exists>r. on_tensor (tensor_from_f32 (replicate (prod_list (ty_shape (node_output n))) one_element)
      (ty_shape (node_output n))) = Inr r \<and>
      holds r (node_output n) (replicate (prod_list (ty_shape (node_output n))) one_element)"
    using map_err_from_f32 [OF out(2), of "replicate (prod_list (ty_shape (node_output n))) one_element"]
      f32_type_eta [OF out(1)] by simp
  from oper consider f where "node_operation n = Scale f" | "node_operation n = Relu" | "node_operation n = Exp"
    | "node_operation n = Log" | "node_operation n = ZerosLike" | "node_operation n = OnesLike"
    | "node_operation n = StopGradient" | "node_operation n = Checkpoint" by auto
  then show ?thesis
  proof cases
    case (1 f)
    with typed out(1) obtain g where "as_f32 f = Some g" by (auto simp: as_f32_def)
    then show ?thesis
      using unary [of "\<lambda>v. fmul F v g"] 1 j
      by (simp add: node_refines_def execute_node_def flat_operation_def)
  next
    case 6
    have "checked_elements_or_panic (node_output n) = Inr (prod_list (ty_shape (node_output n)))"
      using out(2) by (simp add: checked_elements_or_panic_def shape_fits_def)
    with ones 6 show ?thesis by (simp add: node_refines_def execute_node_def flat_operation_def)
  qed (use unary zeros t j in \<open>simp_all add: node_refines_def execute_node_def flat_operation_def\<close>)
qed

lemma node_refines_binary:
  assumes tab: "table_holds ns val k vals" "node_ok k n" "k \<le> length ns"
    and out: "ty_dtype (node_output n) = F32" "shape_fits (ty_shape (node_output n))"
    and tys: "map (type_of ns) (node_inputs n) = [node_output n, node_output n]"
    and oper: "node_operation n \<in> {Add, Sub, Mul, Div, ReluGrad}"
  shows "node_refines F ns val (execute_node F s inputs vals i n) n"
proof -
  obtain j j' where j: "node_inputs n = [j, j']" "type_of ns j = node_output n" "type_of ns j' = node_output n"
    using flat_names2 [OF tys] by blast
  obtain t where t: "operand vals n 0 = Inr t" "holds t (node_output n) (val j)"
    using operand_holds [OF tab, of 0] j by auto
  obtain u where u: "operand vals n 1 = Inr u" "holds u (node_output n) (val j')"
    using operand_holds [OF tab, of 1] j by auto
  note binary = binary_holds [OF t(1) u(1) t(2) u(2) out(2,1)]
  show ?thesis
    using oper binary j by (auto simp: node_refines_def execute_node_def flat_operation_def)
qed

lemma node_refines_matmul:
  assumes tab: "table_holds ns val k vals" "node_ok k n" "k \<le> length ns"
    and out: "ty_dtype (node_output n) = F32" "shape_fits (ty_shape (node_output n))"
    and typed: "op_typed (node_operation n) (map (type_of ns) (node_inputs n)) (node_output n)"
    and oper: "node_operation n \<in> {MatMul, BatchMatMul}"
  shows "node_refines F ns val (execute_node F s inputs vals i n) n"
proof -
  obtain bs m k' c where tys: "map (type_of ns) (node_inputs n) =
      [tensor_type_new F32 (bs @ [m, k']), tensor_type_new F32 (bs @ [k', c])]"
    and res: "node_output n = tensor_type_new F32 (bs @ [m, c])" and bs: "node_operation n = BatchMatMul \<or> bs = []"
    using typed oper out(1) by (auto simp: tensor_type_new_def)
  obtain j j' where j: "node_inputs n = [j, j']" "type_of ns j = tensor_type_new F32 (bs @ [m, k'])"
      "type_of ns j' = tensor_type_new F32 (bs @ [k', c])"
    using flat_names2 [OF tys] by blast
  obtain t where t: "operand vals n 0 = Inr t" "holds t (f32_type (bs @ [m, k'])) (val j)"
    using operand_holds [OF tab, of 0] j by (auto simp: tensor_type_new_def)
  obtain u where u: "operand vals n 1 = Inr u" "holds u (f32_type (bs @ [k', c])) (val j')"
    using operand_holds [OF tab, of 1] j by (auto simp: tensor_type_new_def)
  have result: "node_output n = f32_type (bs @ [m, c])" and fits: "shape_fits (bs @ [m, c])"
    using res out(2) by (simp_all add: tensor_type_new_def)
  have "\<exists>r. matmul_f32 F vals n b = Inr r \<and> holds r (node_output n)
      (matrix_spec (arith_of F) (matrix_shape (bs @ [m, k']) (bs @ [k', c]) b) (val j) (val j'))"
    if "b \<or> bs = []" for b
    by (rule matmul_holds [OF t u result fits that])
  with oper bs j show ?thesis
    by (auto simp: node_refines_def execute_node_def flat_operation_def Let_def)
qed

lemma node_refines_view:
  assumes tab: "table_holds ns val k vals" "node_ok k n" "k \<le> length ns" and all: "all_fit ns"
    and out: "ty_dtype (node_output n) = F32" "shape_fits (ty_shape (node_output n))"
    and typed: "op_typed (node_operation n) (map (type_of ns) (node_inputs n)) (node_output n)"
    and oper: "node_operation n = Reshape sh \<or> node_operation n = Transpose p \<or>
      node_operation n = BroadcastTo sh \<or> node_operation n = ReduceSumTo sh"
  shows "node_refines F ns val (execute_node F s inputs vals i n) n"
proof -
  obtain a where tys: "map (type_of ns) (node_inputs n) = [a]" and dt: "ty_dtype a = ty_dtype (node_output n)"
    using typed oper by auto
  then obtain j where j: "node_inputs n = [j]" "type_of ns j = a" using flat_names by blast
  obtain t where t: "operand vals n 0 = Inr t" "holds t a (val j)"
    using operand_holds [OF tab, of 0] j by auto
  have "j < length ns" using tab(2,3) j by (auto simp: node_ok_def)
  then have fits_a: "shape_fits (ty_shape a)" using all j by (auto simp: all_fit_def type_of_def)
  note dtn = dt [symmetric]
  from oper consider "node_operation n = Reshape sh" | "node_operation n = Transpose p"
    | "node_operation n = BroadcastTo sh" | "node_operation n = ReduceSumTo sh" by blast
  then show ?thesis
  proof cases
    case 1
    have osh: "ty_shape (node_output n) = sh" and "prod_list sh = prod_list (ty_shape a)"
      using typed 1 tys by (auto dest!: checked_num_elements_Inr)
    note reshape = reshape_contiguous_holds [OF _ _ _ this(2) this(1) dtn]
    have fits: "shape_fits sh" using out(2) osh by simp
    have "\<exists>r. execute_node F s inputs vals i n = Inr r \<and> holds r (node_output n) (val j)"
    proof (cases "is_contiguous t")
      case True
      from reshape [OF t(2) True fits] True t(1) 1 show ?thesis by (auto simp: execute_node_def)
    next
      case False
      from contiguous_holds [OF t(2) fits_a] obtain c where
        c: "tensor_contiguous t = Inr c" "holds c a (val j)" "is_contiguous c" by blast
      from reshape [OF c(2,3) fits] c(1) False t(1) 1 show ?thesis by (auto simp: execute_node_def)
    qed
    then show ?thesis using 1 j by (simp add: node_refines_def flat_operation_def)
  next
    case 2
    have p: "axes_ok p (ty_shape a)" and osh: "ty_shape (node_output n) = permuted p (ty_shape a)"
      using typed 2 tys by (auto simp: is_permutation_def axes_ok_def permuted_def)
    from transpose_holds [OF t(2) p _ osh dtn] out(2) osh t(1) 2 j show ?thesis
      by (auto simp: node_refines_def execute_node_def flat_operation_def Let_def)
  next
    case 3
    have b: "broadcasts (ty_shape a) sh" and osh: "ty_shape (node_output n) = sh"
      using typed 3 tys by (auto simp: broadcastable_broadcasts)
    from broadcast_holds [OF t(2) b _ osh dtn] out(2) osh t(1) 3 j show ?thesis
      by (auto simp: node_refines_def execute_node_def flat_operation_def Let_def)
  next
    case 4
    have b: "broadcasts sh (ty_shape a)" and osh: "ty_shape (node_output n) = sh"
      using typed 4 tys by (auto simp: broadcastable_broadcasts)
    from reduce_holds [OF t(2) b, of F] out osh obtain r where
      "reduce_sum_to_f32 F t sh = Inr r" "holds r (f32_type sh) (reduce_spec F (ty_shape a) sh (val j))" by auto
    moreover have "f32_type sh = node_output n" using out(1) osh by auto
    ultimately show ?thesis
      using t(1) 4 j by (simp add: node_refines_def execute_node_def flat_operation_def Let_def)
  qed
qed

lemma execute_node_refines:
  assumes tab: "table_holds ns val k vals" "node_ok k n" "k \<le> length ns" and all: "all_fit ns" and n: "n \<in> set ns"
    and typed: "node_typed ns n" and computed: "computed (node_operation n)"
  shows "node_refines F ns val (execute_node F s inputs vals i n) n"
proof -
  have out: "ty_dtype (node_output n) = F32" "shape_fits (ty_shape (node_output n))"
    using all n by (simp_all add: all_fit_def)
  have typed': "op_typed (node_operation n) (map (type_of ns) (node_inputs n)) (node_output n)"
    using typed by (simp add: node_typed_def)
  show ?thesis
  proof (cases "node_operation n")
    case (Reshape sh)
    show ?thesis by (rule node_refines_view [OF tab all out typed', where sh = sh]) (simp add: Reshape)
  next
    case (Transpose p)
    show ?thesis by (rule node_refines_view [OF tab all out typed', where p = p]) (simp add: Transpose)
  next
    case (BroadcastTo sh)
    show ?thesis by (rule node_refines_view [OF tab all out typed', where sh = sh]) (simp add: BroadcastTo)
  next
    case (ReduceSumTo sh)
    show ?thesis by (rule node_refines_view [OF tab all out typed', where sh = sh]) (simp add: ReduceSumTo)
  qed (use computed typed' node_refines_unary [OF tab all out _ typed'] node_refines_binary [OF tab out]
      node_refines_matmul [OF tab out typed'] in \<open>simp_all add: computed_def\<close>)
qed

section \<open>Preparation\<close>

definition value_problem :: "node_id \<Rightarrow> tensor \<Rightarrow> tensor_type \<Rightarrow> oracle_error option" where
  "value_problem i t ty =
     (if tn_dtype t \<noteq> ty_dtype ty \<or> tn_shape t \<noteq> ty_shape ty then Some (OracleTypeMismatch i)
      else if tn_device t \<noteq> HostDevice then Some (HostReferenceRequired i) else None)"

lemma validate_value_eq:
  "validate_value i t ty = (case value_problem i t ty of None \<Rightarrow> Inr () | Some e \<Rightarrow> fail e)"
  by (simp add: validate_value_def value_problem_def require_def)

text \<open>What preparation checks of a node, beyond the verifier.\<close>

definition node_problem :: "core2_constants \<Rightarrow> node_id \<Rightarrow> node \<Rightarrow> oracle_error option" where
  "node_problem constants i n =
     (if ty_dtype (node_output n) \<noteq> F32 then Some (OracleUnsupportedDType i (ty_dtype (node_output n)))
      else case node_operation n of
        Constant c \<Rightarrow> (case lookup constants c of None \<Rightarrow> Some (MissingConstant c)
                        | Some t \<Rightarrow> value_problem i t (node_output n))
      | _ \<Rightarrow> None)"

lemma prepare_node_eq:
  "i < u32_range \<Longrightarrow> prepare_node constants (i, n) =
    (case node_problem constants i n of None \<Rightarrow> Inr () | Some e \<Rightarrow> fail e)"
  by (auto simp: prepare_node_def node_problem_def require_f32_def require_def validate_value_eq ok_or_def Let_def
      split: operation.splits option.splits)

lemma oracle_prepare_Inr:
  assumes "length (graph_nodes g) \<le> u32_range"
  shows "oracle_prepare g constants = Inr s \<longleftrightarrow> wf_graph g \<and> typed_graph g \<and>
    (\<forall>i < length (graph_nodes g). node_problem constants i (graph_nodes g ! i) = None) \<and>
    s = \<lparr>ses_graph = g, ses_constants = constants\<rparr>"
proof -
  have "for_each (prepare_node constants) (enumerate 0 (graph_nodes g)) = Inr () \<longleftrightarrow>
      (\<forall>i < length (graph_nodes g). node_problem constants i (graph_nodes g ! i) = None)"
    using assms by (auto simp: outcome_simps ball_enumerate0 prepare_node_eq split: option.splits)
  then show ?thesis
    by (auto simp: oracle_prepare_def outcome_simps validate_iff_wf validate_semantics_iff_typed)
qed

section \<open>Execution\<close>

definition floats :: "tensor option \<Rightarrow> element list" where
  "floats t = (case t of None \<Rightarrow> [] | Some t \<Rightarrow> (case to_f32_vec t of Inr x \<Rightarrow> x | Inl _ \<Rightarrow> []))"

text \<open>The external values of a run.\<close>

definition oracle_externals :: "oracle_session \<Rightarrow> core2_inputs \<Rightarrow> node_id \<Rightarrow> element list" where
  "oracle_externals s inputs i =
     (case node_operation (graph_nodes (ses_graph s) ! i) of
        Constant c \<Rightarrow> floats (lookup (ses_constants s) c)
      | _ \<Rightarrow> floats (lookup inputs i))"

definition input_problem :: "core2_inputs \<Rightarrow> node_id \<Rightarrow> node \<Rightarrow> oracle_error option" where
  "input_problem inputs i n =
     (case node_operation n of
        Input _ \<Rightarrow> (case lookup inputs i of None \<Rightarrow> Some (MissingInput i)
                     | Some t \<Rightarrow> value_problem i t (node_output n))
      | _ \<Rightarrow> None)"

abbreviation oracle_value :: "float_library \<Rightarrow> oracle_session \<Rightarrow> core2_inputs \<Rightarrow> node_id \<Rightarrow> element list" where
  "oracle_value F s inputs \<equiv>
     node_value (flat_operation F) (oracle_externals s inputs) (graph_nodes (ses_graph s))"

definition all_built :: "(nat \<times> tensor) list \<Rightarrow> bool" where
  "all_built entries \<longleftrightarrow> (\<forall>(k, t) \<in> set entries. built_tensor t)"

lemma lookup_built: "all_built entries \<Longrightarrow> lookup entries k = Some t \<Longrightarrow> built_tensor t"
proof -
  assume built: "all_built entries" and "lookup entries k = Some t"
  then obtain i where i: "i < length entries" "entries ! i = (k, t)"
    by (auto simp: lookup_def find_Some_iff)
  then have "(k, t) \<in> set entries" using nth_mem [OF i(1)] by simp
  with built show "built_tensor t" by (auto simp: all_built_def)
qed

lemma external_holds:
  assumes "built_tensor t" and "value_problem i t ty = None" and "ty_dtype ty = F32"
  shows "holds t ty (floats (Some t))"
  using assms(2,3) to_f32_vec_ok [OF built_tensor_ok [OF assms(1)]] built_tensor_ok [OF assms(1)]
  by (auto simp: holds_def floats_def value_problem_def split: if_splits)

text \<open>What a run relies on.\<close>

definition session_ok :: "oracle_session \<Rightarrow> core2_inputs \<Rightarrow> bool" where
  "session_ok s inputs \<longleftrightarrow> wf_graph (ses_graph s) \<and> typed_graph (ses_graph s) \<and>
     length (graph_nodes (ses_graph s)) \<le> u32_range \<and> all_fit (graph_nodes (ses_graph s)) \<and>
     (\<forall>i < length (graph_nodes (ses_graph s)). node_problem (ses_constants s) i (graph_nodes (ses_graph s) ! i) = None) \<and>
     all_built (ses_constants s) \<and> all_built inputs"

lemma holds_valid: "holds t ty x \<Longrightarrow> value_problem i t ty = None"
  by (auto simp: holds_def value_problem_def)

lemma oracle_node:
  assumes s: "session_ok s inputs" and i: "i < length (graph_nodes (ses_graph s))"
    and tab: "table_holds (graph_nodes (ses_graph s)) (oracle_value F s inputs) i vals"
  shows "case input_problem inputs i (graph_nodes (ses_graph s) ! i) of
      Some e \<Rightarrow> execute_node F s inputs vals i (graph_nodes (ses_graph s) ! i) = fail e
    | None \<Rightarrow> \<exists>t. execute_node F s inputs vals i (graph_nodes (ses_graph s) ! i) = Inr t \<and>
        holds t (type_of (graph_nodes (ses_graph s)) i) (oracle_value F s inputs i)"
proof -
  let ?ns = "graph_nodes (ses_graph s)" and ?n = "graph_nodes (ses_graph s) ! i"
  have n: "?n \<in> set ?ns" using i by simp
  have ok: "node_ok i ?n" using s i by (simp add: session_ok_def wf_graph_def nodes_ok_def)
  have all: "all_fit ?ns" and f32: "ty_dtype (node_output ?n) = F32"
    using s n by (simp_all add: session_ok_def all_fit_def)
  have prob: "node_problem (ses_constants s) i ?n = None" using s i by (simp add: session_ok_def)
  have ty: "type_of ?ns i = node_output ?n" by (simp add: type_of_def)
  show ?thesis
  proof (cases "computed (node_operation ?n)")
    case True
    then have none: "input_problem inputs i ?n = None"
      by (auto simp: computed_def input_problem_def split: operation.splits)
    have typed: "node_typed ?ns ?n" using s n by (simp add: session_ok_def typed_graph_def)
    have args: "map (\<lambda>k. if k < i then oracle_value F s inputs k else oracle_externals s inputs k) (node_inputs ?n) =
        map (oracle_value F s inputs) (node_inputs ?n)"
      using ok by (auto simp: node_ok_def)
    have v: "oracle_value F s inputs i = flat_operation F (node_operation ?n) (map (type_of ?ns) (node_inputs ?n))
        (node_output ?n) (map (oracle_value F s inputs) (node_inputs ?n))"
      using True by (subst node_value.simps) (simp only: if_True args)
    from execute_node_refines [OF tab ok less_imp_le [OF i] all n typed True] none show ?thesis
      unfolding ty v by (simp add: node_refines_def)
  next
    case False
    then have v: "oracle_value F s inputs i = oracle_externals s inputs i"
      by (subst node_value.simps) simp
    from False consider (inp) name where "node_operation ?n = Input name" | (const) c where "node_operation ?n = Constant c"
      by (auto simp: computed_def split: operation.splits)
    then show ?thesis
    proof cases
      case inp
      have built: "all_built inputs" using s by (simp add: session_ok_def)
      show ?thesis
        using inp external_holds [OF lookup_built [OF built] _ f32]
        by (auto simp: input_problem_def execute_node_def ok_or_def validate_value_eq v oracle_externals_def ty
            split: option.splits)
    next
      case const
      have built: "all_built (ses_constants s)" using s by (simp add: session_ok_def)
      from prob const f32 obtain t where t: "lookup (ses_constants s) c = Some t" "value_problem i t (node_output ?n) = None"
        by (auto simp: node_problem_def split: option.splits)
      show ?thesis
        using const t external_holds [OF lookup_built [OF built t(1)] t(2) f32]
        by (simp add: input_problem_def execute_node_def v oracle_externals_def ty)
    qed
  qed
qed

lemma oracle_step_eq:
  assumes s: "session_ok s inputs" and i: "i < length (graph_nodes (ses_graph s))"
    and tab: "table_holds (graph_nodes (ses_graph s)) (oracle_value F s inputs) i vals"
  shows "case input_problem inputs i (graph_nodes (ses_graph s) ! i) of
      Some e \<Rightarrow> oracle_step F s inputs vals (i, graph_nodes (ses_graph s) ! i) = fail e
    | None \<Rightarrow> \<exists>vals'. oracle_step F s inputs vals (i, graph_nodes (ses_graph s) ! i) = Inr vals' \<and>
        table_holds (graph_nodes (ses_graph s)) (oracle_value F s inputs) (Suc i) vals'"
proof -
  let ?ns = "graph_nodes (ses_graph s)" and ?n = "graph_nodes (ses_graph s) ! i"
  have id: "as_u32 i = i" using s i by (simp add: session_ok_def)
  show ?thesis
  proof (cases "input_problem inputs i ?n")
    case None
    with oracle_node [OF s i tab] obtain t where
      t: "execute_node F s inputs vals i ?n = Inr t" "holds t (type_of ?ns i) (oracle_value F s inputs i)" by auto
    have "validate_value i t (node_output ?n) = Inr ()"
      using holds_valid [OF t(2), of i] by (simp add: validate_value_eq type_of_def)
    with t(1) have "oracle_step F s inputs vals (i, ?n) = Inr (vals[i := Some t])"
      by (simp add: oracle_step_def id)
    moreover have "table_holds ?ns (oracle_value F s inputs) (Suc i) (vals[i := Some t])"
      using tab t(2) i by (auto simp: table_holds_def nth_list_update less_Suc_eq)
    ultimately show ?thesis using None by simp
  next
    case (Some e)
    with oracle_node [OF s i tab] show ?thesis by (simp add: oracle_step_def id)
  qed
qed

lemma oracle_prefix:
  assumes s: "session_ok s inputs" and k: "k \<le> length (graph_nodes (ses_graph s))"
    and good: "\<And>i. i < k \<Longrightarrow> input_problem inputs i (graph_nodes (ses_graph s) ! i) = None"
  shows "\<exists>vals. try_fold (oracle_step F s inputs) (replicate (length (graph_nodes (ses_graph s))) None)
      (take k (enumerate 0 (graph_nodes (ses_graph s)))) = Inr vals \<and>
    table_holds (graph_nodes (ses_graph s)) (oracle_value F s inputs) k vals"
proof -
  let ?ns = "graph_nodes (ses_graph s)"
  let ?xs = "take k (enumerate 0 ?ns)"
  have len: "length ?xs = k" using k by simp
  have "\<exists>vals. try_fold (oracle_step F s inputs) (replicate (length ?ns) None) ?xs = Inr vals \<and>
      table_holds ?ns (oracle_value F s inputs) (length ?xs) vals"
  proof (rule try_fold_total [where P = "table_holds ?ns (oracle_value F s inputs)"])
    show "table_holds ?ns (oracle_value F s inputs) 0 (replicate (length ?ns) None)" by (simp add: table_holds_def)
    fix i vals assume "i < length ?xs" and tab: "table_holds ?ns (oracle_value F s inputs) i vals"
    then have i: "i < k" "i < length ?ns" using k len by simp_all
    from oracle_step_eq [OF s i(2) tab] good [OF i(1)]
    show "\<exists>vals'. oracle_step F s inputs vals (?xs ! i) = Inr vals' \<and> table_holds ?ns (oracle_value F s inputs) (Suc i) vals'"
      using i by simp
  qed
  then show ?thesis unfolding len .
qed

definition first_problem :: "core2_inputs \<Rightarrow> node list \<Rightarrow> oracle_error option" where
  "first_problem inputs ns =
     (case List.find (\<lambda>(i, n). input_problem inputs i n \<noteq> None) (enumerate 0 ns) of
        None \<Rightarrow> None | Some (i, n) \<Rightarrow> input_problem inputs i n)"

lemma first_problem_None:
  "first_problem inputs ns = None \<longleftrightarrow> (\<forall>i < length ns. input_problem inputs i (ns ! i) = None)"
proof (cases "List.find (\<lambda>(i, n). input_problem inputs i n \<noteq> None) (enumerate 0 ns)")
  case None
  then have "first_problem inputs ns = None" by (simp only: first_problem_def option.case)
  moreover have "\<forall>i < length ns. input_problem inputs i (ns ! i) = None"
    using None by (auto simp: find_None_iff set_enumerate0)
  ultimately show ?thesis by blast
next
  case (Some p)
  then obtain k where k: "k < length ns" "p = (k, ns ! k)" "input_problem inputs k (ns ! k) \<noteq> None"
    by (auto simp: find_Some_iff)
  have "first_problem inputs ns = input_problem inputs k (ns ! k)"
    by (simp only: first_problem_def Some k(2) option.case prod.case)
  with k show ?thesis by auto
qed

lemma first_problem_Some:
  assumes "first_problem inputs ns = Some e"
  shows "\<exists>k < length ns. input_problem inputs k (ns ! k) = Some e \<and> (\<forall>i < k. input_problem inputs i (ns ! i) = None)"
proof -
  obtain i n where "List.find (\<lambda>(i, n). input_problem inputs i n \<noteq> None) (enumerate 0 ns) = Some (i, n)"
    and e: "input_problem inputs i n = Some e"
    using assms by (auto simp: first_problem_def split: option.splits)
  then obtain k where k: "k < length ns" "(k, ns ! k) = (i, n)"
    "\<forall>j < k. input_problem inputs j (ns ! j) = None"
    by (auto simp: find_Some_iff)
  with e show ?thesis by auto
qed

lemma oracle_run:
  assumes s: "session_ok s inputs"
  shows "case first_problem inputs (graph_nodes (ses_graph s)) of
      Some e \<Rightarrow> oracle_execute F s inputs = fail e
    | None \<Rightarrow> \<exists>outs. oracle_execute F s inputs = Inr outs \<and> map fst outs = graph_outputs (ses_graph s) \<and>
        (\<forall>(k, t) \<in> set outs. holds t (type_of (graph_nodes (ses_graph s)) k) (oracle_value F s inputs k))"
proof -
  let ?ns = "graph_nodes (ses_graph s)" and ?outs = "graph_outputs (ses_graph s)"
  let ?run = "\<lambda>xs. try_fold (oracle_step F s inputs) (replicate (length ?ns) None) xs"
  show ?thesis
  proof (cases "first_problem inputs ?ns")
    case None
    with oracle_prefix [OF s order_refl, of F] obtain vals where
      vals: "?run (enumerate 0 ?ns) = Inr vals" "table_holds ?ns (oracle_value F s inputs) (length ?ns) vals"
      by (auto simp: first_problem_None)
    have bound: "\<forall>k \<in> set ?outs. k < length ?ns" using s by (simp add: session_ok_def wf_graph_def)
    let ?t = "\<lambda>k. the (vals ! k)"
    have at: "vals ! k = Some (?t k)" "holds (?t k) (type_of ?ns k) (oracle_value F s inputs k)" if "k \<in> set ?outs" for k
      using vals(2) bound that by (auto simp: table_holds_def)
    have "traverse (\<lambda>out. try_bind (value_at vals out) (\<lambda>t. Inr (out, t))) ?outs = Inr (map (\<lambda>k. (k, ?t k)) ?outs)"
    proof (rule traverse_map, rule ballI)
      fix k assume k: "k \<in> set ?outs"
      with at(1) bound vals(2) have "value_at vals k = Inr (?t k)"
        by (simp add: value_at_def get_def table_holds_def)
      then show "try_bind (value_at vals k) (\<lambda>t. Inr (k, t)) = Inr (k, ?t k)" by simp
    qed
    with vals(1) have "oracle_execute F s inputs = Inr (map (\<lambda>k. (k, ?t k)) ?outs)"
      by (simp add: oracle_execute_def)
    with at None show ?thesis by (auto simp: comp_def)
  next
    case (Some e)
    from first_problem_Some [OF this] obtain k where
      k: "k < length ?ns" "input_problem inputs k (?ns ! k) = Some e" "\<forall>i < k. input_problem inputs i (?ns ! i) = None"
      by blast
    from oracle_prefix [OF s less_imp_le [OF k(1)], of F] k(3) obtain vals where
      vals: "?run (take k (enumerate 0 ?ns)) = Inr vals" "table_holds ?ns (oracle_value F s inputs) k vals" by blast
    have "oracle_step F s inputs vals (k, ?ns ! k) = fail e" using oracle_step_eq [OF s k(1) vals(2)] k(2) by simp
    moreover have "enumerate 0 ?ns = take k (enumerate 0 ?ns) @ (k, ?ns ! k) # drop (Suc k) (enumerate 0 ?ns)"
      using id_take_nth_drop [of k "enumerate 0 ?ns"] k(1) by simp
    ultimately have "?run (enumerate 0 ?ns) = fail e"
      using vals(1) try_fold_append by (metis try_bind_Inl try_bind_Inr try_fold.simps(2))
    with Some show ?thesis by (simp add: oracle_execute_def)
  qed
qed

end
