(* ===== verification/Oracle_Theorems.thy ===== *)
theory Oracle_Theorems
  imports Oracle_Execution Generator_Correct Interpreter_Correct
begin

text \<open>
  The oracle against its specification and against the compiled path: preparation and execution are
  decided, execution returns the values of the graph, the lowered plan on kernels of the same meaning
  returns the same values, and the Reference kernels have that meaning. The one difference, \<open>relu\<close> of
  a NaN, is stated.
\<close>

section \<open>Kernels with the meaning of the oracle\<close>

fun family_operation :: "kernel_family \<Rightarrow> operation" where
  "family_operation (ElementwiseUnary ReluKernel) = Relu"
| "family_operation (ElementwiseUnary ExpKernel) = Exp"
| "family_operation (ElementwiseUnary LogKernel) = Log"
| "family_operation (ElementwiseUnary ZerosLikeKernel) = ZerosLike"
| "family_operation (ElementwiseUnary OnesLikeKernel) = OnesLike"
| "family_operation (ElementwiseUnary (ScaleKernel factor)) = Scale factor"
| "family_operation (ElementwiseBinary AddKernel) = Add"
| "family_operation (ElementwiseBinary SubKernel) = Sub"
| "family_operation (ElementwiseBinary MulKernel) = Mul"
| "family_operation (ElementwiseBinary DivKernel) = Div"
| "family_operation MatMulKernel = MatMul"
| "family_operation BatchMatMulKernel = BatchMatMul"
| "family_operation ShapeCopy = Reshape []"
| "family_operation (Permute p) = Transpose p"

definition flat_kernel :: "float_library \<Rightarrow> element list kernel_semantics" where
  "flat_kernel F family = flat_operation F (family_operation family)"

lemma flat_kernel_implements: "implements (flat_kernel F) (flat_operation F)"
  unfolding implements_def
proof (intro allI impI)
  fix oper family tys out vs
  assume "family_of oper = Some family"
  then show "flat_kernel F family tys out vs = flat_operation F oper tys out vs"
    by (cases oper) (auto simp: flat_kernel_def flat_operation_def Let_def)
qed

text \<open>
  What the documentation of \<open>f32::max\<close> promises for a maximum with zero: the other argument of a NaN,
  otherwise the larger one; of two zeros, either.
\<close>

definition minus_zero :: element where
  "minus_zero = 0x80000000"

definition max_lawful :: "float_library \<Rightarrow> bool" where
  "max_lawful F \<longleftrightarrow> (\<forall>v. if v = minus_zero then fmax F v 0 \<in> {0, minus_zero}
     else fmax F v 0 = (if is_nan v then 0 else if is_positive v then v else 0))"

text \<open>
  How the oracle's \<open>relu\<close> of an element compares with the interpreter's: they are equal, except that the
  interpreter keeps a NaN where the oracle gives zero, and on a negative zero the oracle gives a zero of
  either sign.
\<close>

definition relu_compared :: "element \<Rightarrow> element \<Rightarrow> bool" where
  "relu_compared v y \<longleftrightarrow>
     (if is_nan v then relu v = v \<and> y = 0
      else if v = minus_zero then relu v = 0 \<and> y \<in> {0, minus_zero}
      else relu v = y)"

lemma minus_zero_plain: "\<not> is_nan minus_zero" "\<not> is_positive minus_zero"
  by (simp_all add: minus_zero_def is_nan_def is_positive_def)

lemma max_compared:
  assumes "max_lawful F"
  shows "relu_compared v (fmax F v 0)"
proof (cases "v = minus_zero")
  case True
  with assms show ?thesis
    using minus_zero_plain by (auto simp: max_lawful_def relu_compared_def relu_def dest: spec [of _ minus_zero])
next
  case False
  then have "fmax F v 0 = (if is_nan v then 0 else if is_positive v then v else 0)"
    using assms [unfolded max_lawful_def, rule_format, of v] by presburger
  with False show ?thesis by (simp add: relu_compared_def relu_def)
qed

section \<open>The Reference kernels\<close>

lemma layout_nat_dims: "shape_encodable sh \<Longrightarrow> nat_dims (layout_of sh) = sh"
  by (simp add: nat_dims_def layout_of_def shape_encodable_def del: map_map)

lemma layout_count: "shape_encodable sh \<Longrightarrow> element_count (layout_of sh) = prod_list sh"
proof -
  assume "shape_encodable sh"
  then obtain n where "checked_num_elements sh = Inr n" by (auto simp: shape_encodable_def)
  from checked_num_elements_le [OF this] checked_num_elements_Inr [OF this] show ?thesis
    by (simp add: element_count_def layout_of_def unat_of_nat)
qed

lemma permute_gather:
  assumes p: "axes_ok p ds"
  shows "permute_spec ds p x = gather ds (view_source ds (PermuteView p)) (permuted p ds) x"
proof -
  have "x ! ravel ds (view_source ds (PermuteView p) c) = x ! source_index ds p (ravel (permuted p ds) c)"
    if c: "c \<in> set (indices (permuted p ds))" for c
  proof -
    have r: "in_range c (permuted p ds)" using c by (simp add: set_indices)
    from permute_source [OF p refl this] have "in_range (view_source ds (PermuteView p) c) ds" by simp
    from source_index_ravel [OF p this] permuted_position [OF p, of c] in_range_length [OF r]
      axes_ok_nth(1) [OF p] show ?thesis by (simp add: permuted_def)
  qed
  then have "gather ds (view_source ds (PermuteView p)) (permuted p ds) x =
      map (\<lambda>i. x ! source_index ds p i) (map (ravel (permuted p ds)) (indices (permuted p ds)))"
    by (simp add: gather_def)
  then show ?thesis by (simp add: permute_spec_def ravel_indices prod_permuted [OF p])
qed

lemma kernel_spec_flat:
  assumes typed: "kernel_typed k" and gen: "generatable k"
    and math: "lk_family k \<notin> {ElementwiseUnary ReluKernel, ElementwiseUnary ExpKernel, ElementwiseUnary LogKernel}"
  shows "kernel_spec (arith_of F) (artifact_of k) operands =
    flat_kernel F (lk_family k) (lk_operands k) (lk_result k) operands"
proof -
  have dims: "nat_dims (layout_of (ty_shape t)) = ty_shape t" if "t \<in> set (lk_operands k)" for t
    using gen that by (intro layout_nat_dims) (simp add: generatable_def)
  have count: "element_count (layout_of (ty_shape (lk_result k))) = prod_list (ty_shape (lk_result k))"
    using gen by (intro layout_count) (simp add: generatable_def)
  note spec = kernel_spec_def artifact_of_def flat_kernel_def flat_operation_def Let_def
  show ?thesis
  proof (cases "lk_family k" rule: opcode_of.cases)
    case 1
    with math show ?thesis by simp
  next
    case (6 factor)
    with typed gen have "as_f32 factor = Some (ucast (sc_bits factor))"
      by (auto simp: kernel_typed_family generatable_def as_f32_def)
    with 6 show ?thesis by (simp add: spec arithmetic.truncate_def)
  next
    case 11
    with typed obtain a b where ab: "lk_operands k = [a, b]" by (auto simp: kernel_typed_family)
    then have "matrix_plan_of (artifact_of k) = matrix_shape (ty_shape a) (ty_shape b) False"
      using dims 11 by (simp add: matrix_plan_of_def matrix_shape_def artifact_of_def Let_def)
    with 11 ab show ?thesis by (simp add: spec)
  next
    case 12
    with typed obtain a b where ab: "lk_operands k = [a, b]" by (auto simp: kernel_typed_family)
    then have "matrix_plan_of (artifact_of k) = matrix_shape (ty_shape a) (ty_shape b) True"
      using dims 12 by (simp add: matrix_plan_of_def matrix_shape_def artifact_of_def Let_def)
    with 12 ab show ?thesis by (simp add: spec)
  next
    case (14 p)
    with typed obtain a where a: "lk_operands k = [a]" "length p = length (ty_shape a)" "is_permutation p"
      "ty_shape (lk_result k) = permuted p (ty_shape a)" by (auto simp: kernel_typed_family permuted_def)
    then have p: "axes_ok p (ty_shape a)" by (simp add: is_permutation_def axes_ok_def)
    have rank: "length (ty_shape a) \<le> 32" using gen a(1) by (simp add: generatable_def shape_encodable_def)
    have "unat (word_of_nat i :: u16) = i" if "i \<in> set p" for i
    proof -
      have "i < length (ty_shape a)" using p that by (simp add: axes_ok_def)
      with rank show ?thesis by (simp add: unat_of_nat)
    qed
    then have "map (\<lambda>i. unat (word_of_nat i :: u16)) p = p" by (simp add: map_idI)
    with 14 a dims permute_gather [OF p] show ?thesis by (simp add: spec comp_def)
  qed (use math count in \<open>simp_all add: spec arithmetic.truncate_def\<close>)
qed

section \<open>Properties\<close>

text \<open>preparation accepts exactly the valid, well-typed graphs whose values are all \<open>F32\<close> and whose
  constants are supplied as host tensors of the right type, and never panics.\<close>

theorem oracle_prepare_decides:
  assumes "length (graph_nodes g) \<le> u32_range"
  shows "(oracle_prepare g constants = Inr s \<longleftrightarrow> wf_graph g \<and> typed_graph g \<and>
      (\<forall>i < length (graph_nodes g). node_problem constants i (graph_nodes g ! i) = None) \<and>
      s = \<lparr>ses_graph = g, ses_constants = constants\<rparr>) \<and>
    (wf_graph g \<longrightarrow> oracle_prepare g constants \<noteq> Inl Panic)"
proof (intro conjI impI)
  show "oracle_prepare g constants = Inr s \<longleftrightarrow> wf_graph g \<and> typed_graph g \<and>
      (\<forall>i < length (graph_nodes g). node_problem constants i (graph_nodes g ! i) = None) \<and>
      s = \<lparr>ses_graph = g, ses_constants = constants\<rparr>"
    by (rule oracle_prepare_Inr [OF assms])
  assume wf: "wf_graph g"
  then have "validate g = Inr ()" by (simp add: validate_iff_wf)
  moreover have "validate_semantics g \<noteq> Inl Panic" by (rule semantics_no_panic [OF wf])
  moreover have "for_each (prepare_node constants) (enumerate 0 (graph_nodes g)) \<noteq> Inl Panic"
  proof
    assume "for_each (prepare_node constants) (enumerate 0 (graph_nodes g)) = Inl Panic"
    then obtain i where i: "i < length (graph_nodes g)" "prepare_node constants (i, graph_nodes g ! i) = Inl Panic"
      by (auto simp: set_enumerate0 dest!: for_each_InlD)
    moreover have "i < u32_range" using i(1) assms by simp
    ultimately show False by (simp add: prepare_node_eq split: option.splits)
  qed
  ultimately show "oracle_prepare g constants \<noteq> Inl Panic"
    by (auto simp: oracle_prepare_def outcome_simps)
qed

lemma prepared_session_ok:
  assumes "oracle_prepare g constants = Inr s" and "length (graph_nodes g) \<le> u32_range"
    and "\<forall>n \<in> set (graph_nodes g). shape_fits (ty_shape (node_output n))"
    and "all_built constants" "all_built inputs"
  shows "session_ok s inputs" and "ses_graph s = g" and "ses_constants s = constants"
proof -
  have p: "wf_graph g" "typed_graph g" "s = \<lparr>ses_graph = g, ses_constants = constants\<rparr>"
    "\<forall>i < length (graph_nodes g). node_problem constants i (graph_nodes g ! i) = None"
    using assms(1) oracle_prepare_Inr [OF assms(2)] by auto
  then show "ses_graph s = g" "ses_constants s = constants" by simp_all
  have "ty_dtype (node_output n) = F32" if "n \<in> set (graph_nodes g)" for n
    using p(4) that by (auto simp: in_set_conv_nth node_problem_def split: if_splits)
  with p assms(2-5) show "session_ok s inputs" by (simp add: session_ok_def all_fit_def)
qed

text \<open>C28: executing a prepared graph of at most \<open>2^32\<close> nodes, all of whose shapes can be materialised
  (\<open>shape_fits\<close>: the element count, every stride and the byte count are 64-bit numbers), on tensors built by the
  tensor interface. It does not panic: it reports the first missing or unusable input in node order, and
  otherwise returns for every output a well-formed host tensor of its type whose floats are the value of
  the graph, strides and views being invisible. The condition on the shapes is needed: an empty
  shape can have strides that overflow, and then a reduction panics
  (\<open>reduction_to_large_empty_shape_panics\<close>).\<close>

theorem oracle_execute_decides:
  assumes "oracle_prepare g constants = Inr s" and "length (graph_nodes g) \<le> u32_range"
    and "\<forall>n \<in> set (graph_nodes g). shape_fits (ty_shape (node_output n))"
    and "all_built constants" "all_built inputs"
  shows "case first_problem inputs (graph_nodes g) of
      Some e \<Rightarrow> oracle_execute F s inputs = fail e
    | None \<Rightarrow> \<exists>outs. oracle_execute F s inputs = Inr outs \<and> map fst outs = graph_outputs g \<and>
        (\<forall>(k, t) \<in> set outs. tensor_ok t \<and> tn_shape t = ty_shape (type_of (graph_nodes g) k) \<and>
          to_f32_vec t = Inr (node_value (flat_operation F) (oracle_externals s inputs) (graph_nodes g) k))"
proof -
  note s = prepared_session_ok [OF assms]
  from oracle_run [OF s(1), of F] show ?thesis
    by (auto simp: s(2) holds_def split: option.splits)
qed

lemma oracle_plan_values:
  assumes "oracle_prepare g constants = Inr s" and "length (graph_nodes g) \<le> u32_range"
    and "\<forall>n \<in> set (graph_nodes g). shape_fits (ty_shape (node_output n))"
    and "all_built constants" "all_built inputs"
    and "oracle_execute F s inputs = Inr outs"
    and "compile g = Inr plan" "lower_plan plan bindings = Inr lp"
  shows "run_lowered (flat_kernel F) (\<lambda>b. oracle_externals s inputs (eb_node (bindings ! b))) lp =
    Some (map (\<lambda>(k, t). Some (floats (Some t))) outs) \<and> map fst outs = graph_outputs g"
proof -
  note s = prepared_session_ok [OF assms(1-5)]
  have outs: "map fst outs = graph_outputs g"
    "\<forall>(k, t) \<in> set outs. to_f32_vec t = Inr (node_value (flat_operation F) (oracle_externals s inputs) (graph_nodes g) k)"
    using oracle_run [OF s(1), of F] assms(6) by (auto simp: s(2) holds_def split: option.splits)
  then have "map (\<lambda>(k, t). Some (floats (Some t))) outs =
      map (\<lambda>k. Some (node_value (flat_operation F) (oracle_externals s inputs) (graph_nodes g) k)) (map fst outs)"
    unfolding map_map comp_def by (intro map_cong refl) (auto simp: floats_def)
  with lowered_values [OF assms(7,2,8) flat_kernel_implements, where ext = "oracle_externals s inputs"] outs(1)
  show ?thesis by simp
qed

text \<open>the oracle and the compiled path agree: on kernels that mean what the oracle computes, running the
  dispatches of the lowered plan returns exactly the floats of the tensors that the oracle returns.\<close>

theorem oracle_agrees_with_plan:
  assumes "oracle_prepare g constants = Inr s" and "length (graph_nodes g) \<le> u32_range"
    and "\<forall>n \<in> set (graph_nodes g). shape_fits (ty_shape (node_output n))"
    and "all_built constants" "all_built inputs"
    and "oracle_execute F s inputs = Inr outs"
    and "compile g = Inr plan" "lower_plan plan bindings = Inr lp"
  shows "run_lowered (flat_kernel F) (\<lambda>b. oracle_externals s inputs (eb_node (bindings ! b))) lp =
    Some (map (\<lambda>(k, t). Some (floats (Some t))) outs)"
  using oracle_plan_values [OF assms] by blast

text \<open>C31: every artefact that is generated for a typed kernel and can be prepared (the interpreter refuses
  \<open>exp\<close> and \<open>log\<close>) runs without failing on flat operands of the right lengths, provided the matrices of an
  empty batch are addressable (\<open>batch_fits\<close>). Except for \<open>relu\<close>, its result is, bit for bit, what the oracle
  computes for the operation of the kernel, for any arithmetic of the target. For \<open>relu\<close> the result keeps
  NaN and positive elements and replaces every other one by zero; under the documented behaviour of
  \<open>f32::max\<close> the oracle's result agrees with that on every element but two kinds: it gives zero for a NaN,
  which the kernel keeps, and a zero of either sign for a negative zero.\<close>

theorem reference_kernel_computes_operation:
  assumes "kernel_typed k" and "generate_kernel k = Inr a" and "from_artifact a = Inr p"
    and "invocation_sized a operands out" and "batch_fits a"
  shows "if lk_family k = ElementwiseUnary ReluKernel
    then execute_kernel (arith_of F) p operands out =
        (map (\<lambda>v. if is_nan v \<or> is_positive v then v else 0) (operands ! 0), Inr ()) \<and>
      (max_lawful F \<longrightarrow>
        list_all2 relu_compared (operands ! 0) (flat_kernel F (lk_family k) (lk_operands k) (lk_result k) operands))
    else execute_kernel (arith_of F) p operands out =
      (flat_kernel F (lk_family k) (lk_operands k) (lk_result k) operands, Inr ())"
proof -
  have gen: "generatable k" "a = artifact_of k"
    using generate_kernel_typed [OF assms(1)] assms(2) by simp_all
  then have ok: "artifact_ok a" using artifact_of_ok [OF assms(1)] by simp
  from assms(3) from_artifact_eq [OF ok] have prep: "preparation_error a = None" "p = prepared_of a"
    by (auto split: option.splits)
  then have math: "lk_family k \<notin> {ElementwiseUnary ExpKernel, ElementwiseUnary LogKernel}"
    by (auto simp: preparation_error_def gen(2) artifact_of_def)
  have run: "execute_kernel (arith_of F) p operands out = (kernel_spec (arith_of F) a operands, Inr ())"
    using execute_kernel_eq [OF ok prep(1), of operands out "arith_of F"] assms(4,5) prep(2) by simp
  show ?thesis
  proof (cases "lk_family k = ElementwiseUnary ReluKernel")
    case True
    have "kernel_spec (arith_of F) a operands = map relu (operands ! 0)"
      by (simp add: gen(2) kernel_spec_def artifact_of_def True)
    moreover have "flat_kernel F (lk_family k) (lk_operands k) (lk_result k) operands =
        map (\<lambda>v. fmax F v 0) (operands ! 0)"
      by (simp add: True flat_kernel_def flat_operation_def)
    ultimately show ?thesis
      using run True max_compared [of F] by (simp add: relu_def [abs_def] list_all2_conv_all_nth)
  next
    case False
    with math have "kernel_spec (arith_of F) a operands =
        flat_kernel F (lk_family k) (lk_operands k) (lk_result k) operands"
      unfolding gen(2) by (intro kernel_spec_flat [OF assms(1) gen(1)]) simp
    with run False show ?thesis by simp
  qed
qed

section \<open>A concrete run\<close>

definition sample_library :: float_library where
  "sample_library = \<lparr>fadd = (+), fsub = (-), fmul = (*), fdiv = (div), fmax = (\<lambda>x y. relu x), fexp = id, fln = id\<rparr>"

definition square_tensor :: tensor where
  "square_tensor = mk_tensor (concat (map u32_le [1, 2, 3, 4])) F32 [2, 2] [2, 1] 0 HostDevice"

abbreviation sample_session :: oracle_session where
  "sample_session \<equiv> \<lparr>ses_graph = example_graph, ses_constants = []\<rparr>"

lemma square_from_f32: "tensor_from_f32 [1, 2, 3, 4] [2, 2] = Inr square_tensor"
proof -
  have "checked_num_elements [2, 2] = Inr 4" "contiguous [2, 2] = Inr [2, 1]"
    by (simp_all add: checked_num_elements_def checked_mul_def)
  moreover have "length (concat (map u32_le [1, 2, 3, 4])) = 16" by (simp add: length_u32_le)
  ultimately show ?thesis by (simp add: tensor_from_f32_def tensor_from_bytes_eq square_tensor_def)
qed

lemma square_built: "built_tensor square_tensor"
  using square_from_f32 unfolding tensor_from_f32_def by (rule built_tensor.from_bytes)

lemma square_fits: "shape_fits [2, 2]"
  by (simp add: shape_fits_def checked_num_elements_def checked_mul_def)

lemma sample_graph:
  "length (graph_nodes example_graph) \<le> u32_range" "graph_outputs example_graph = [1]"
  "\<forall>n \<in> set (graph_nodes example_graph). shape_fits (ty_shape (node_output n))"
  "oracle_prepare example_graph [] = Inr sample_session"
proof -
  show small: "length (graph_nodes example_graph) \<le> u32_range" "graph_outputs example_graph = [1]"
    by (simp_all add: example_graph_def)
  show "\<forall>n \<in> set (graph_nodes example_graph). shape_fits (ty_shape (node_output n))"
    using square_fits by (simp add: example_graph_def mk_node_def matrix_type_def tensor_type_new_def)
  have wf: "wf_graph example_graph" using example_graph_valid(1) by (simp add: validate_iff_wf)
  moreover from this have "typed_graph example_graph"
    using example_graph_valid(2) by (simp add: validate_semantics_iff_typed)
  moreover have "\<forall>i < length (graph_nodes example_graph). node_problem [] i (graph_nodes example_graph ! i) = None"
    by (simp add: example_graph_def mk_node_def matrix_type_def tensor_type_new_def node_problem_def all_less_Suc)
  ultimately show "oracle_prepare example_graph [] = Inr sample_session"
    using oracle_prepare_Inr [OF small(1)] by blast
qed

lemma sample_problems:
  "first_problem [(0, square_tensor)] (graph_nodes example_graph) = None"
  "first_problem [] (graph_nodes example_graph) = Some (MissingInput 0)"
  by (simp_all add: first_problem_def example_graph_def mk_node_def input_problem_def lookup_def value_problem_def
      square_tensor_def matrix_type_def tensor_type_new_def)

lemma sample_built_inputs: "all_built []" "all_built [(0, square_tensor)]"
  using square_built by (simp_all add: all_built_def)

theorem oracle_prepare_decides_witness:
  "oracle_prepare example_graph [] = Inr sample_session \<and> typed_graph example_graph"
  using oracle_prepare_decides [OF sample_graph(1), of "[]" sample_session] sample_graph(4) by blast

lemma sample_executed:
  obtains outs where "oracle_execute F sample_session [(0, square_tensor)] = Inr outs"
  using oracle_run [OF prepared_session_ok(1) [OF sample_graph(4,1,3) sample_built_inputs], of F] sample_problems(1)
  by auto

theorem oracle_execute_decides_witness:
  "oracle_execute sample_library sample_session [] = fail (MissingInput 0) \<and>
   (\<exists>outs. oracle_execute sample_library sample_session [(0, square_tensor)] = Inr outs \<and> map fst outs = [1])"
proof
  note run = oracle_execute_decides [OF sample_graph(4,1,3) sample_built_inputs(1), where F = sample_library]
  show "oracle_execute sample_library sample_session [] = fail (MissingInput 0)"
    using run [OF sample_built_inputs(1)] by (simp add: sample_problems(2))
  show "\<exists>outs. oracle_execute sample_library sample_session [(0, square_tensor)] = Inr outs \<and> map fst outs = [1]"
    using run [OF sample_built_inputs(2)] by (auto simp: sample_problems(1) sample_graph(2))
qed

theorem oracle_agrees_with_plan_witness:
  "\<exists>lp outs. lower_plan example_plan (derive_bindings example_plan) = Inr lp \<and>
     oracle_execute sample_library sample_session [(0, square_tensor)] = Inr outs \<and>
     run_lowered (flat_kernel sample_library)
       (\<lambda>b. oracle_externals sample_session [(0, square_tensor)] (eb_node (derive_bindings example_plan ! b))) lp =
     Some (map (\<lambda>(k, t). Some (floats (Some t))) outs)"
proof -
  from example_lowered obtain lp where lp: "lower_plan example_plan (derive_bindings example_plan) = Inr lp" .
  from sample_executed obtain outs where
    outs: "oracle_execute sample_library sample_session [(0, square_tensor)] = Inr outs" .
  from oracle_agrees_with_plan [OF sample_graph(4,1,3) sample_built_inputs outs example_compiled lp] lp outs
  show ?thesis by blast
qed

lemma example_kernel_artifact:
  "generate_kernel example_kernel = Inr (artifact_of example_kernel)"
  "from_artifact (artifact_of example_kernel) = Inr (prepared_of (artifact_of example_kernel))"
proof -
  show "generate_kernel example_kernel = Inr (artifact_of example_kernel)"
    using generate_kernel_typed [OF example_kernel_generatable(1)] example_kernel_generatable(2)
    by (simp split: sum.splits)
  have "preparation_error (artifact_of example_kernel) = None"
    by (simp add: preparation_error_def artifact_of_def example_kernel_def)
  then show "from_artifact (artifact_of example_kernel) = Inr (prepared_of (artifact_of example_kernel))"
    using from_artifact_eq [OF artifact_of_ok [OF example_kernel_generatable]] by simp
qed

theorem reference_kernel_computes_operation_witness:
  "execute_kernel (arith_of sample_library) (prepared_of (artifact_of example_kernel)) [[1, 2, 0x7FC00000, 0x80000004]] [0, 0, 0, 0] =
     ([1, 2, 0x7FC00000, 0], Inr ())"
proof -
  have sized: "invocation_sized (artifact_of example_kernel) [[1, 2, 0x7FC00000, 0x80000004]] [0, 0, 0, 0]"
    by (simp add: invocation_sized_def artifact_of_def example_kernel_def matrix_type_def tensor_type_new_def
        element_count_def layout_of_def)
  have fits: "batch_fits (artifact_of example_kernel)"
    by (simp add: batch_fits_def artifact_of_def example_kernel_def)
  from reference_kernel_computes_operation [OF example_kernel_generatable(1) example_kernel_artifact sized fits,
      of sample_library]
  show ?thesis
    by (simp add: example_kernel_def is_nan_def is_positive_def)
qed

text \<open>
  The difference: on a NaN, \<open>f32::max\<close> with zero gives zero, while the interpreter keeps the NaN.
\<close>

lemma relu_of_nan:
  assumes "max_lawful F" and "is_nan v"
  shows "flat_operation F Relu tys out [[v]] = [0]" and "relu v = v" and "v \<noteq> 0"
  using max_compared [OF assms(1), of v] assms(2)
  by (auto simp: relu_compared_def flat_operation_def is_nan_def)

text \<open>
  A reduction multiplies the dimensions of its target into strides without a check. A target with a
  zero dimension has no elements, so it can be reached from a small input by a broadcast, and its strides can
  still overflow.
\<close>

lemma reduction_to_large_empty_shape_panics:
  assumes "to_f32_vec t = Inr x"
  shows "reduce_sum_to_f32 F t [0, 2 ^ 40, 2 ^ 40] = Inl Panic"
    and "checked_num_elements [0, 2 ^ 40, 2 ^ 40] = Inr 0"
proof -
  have steps: "rev [0..<length [0, 2 ^ 40, 2 ^ 40 :: nat] - 1] = [1, 0]" by (simp add: upt_rec)
  have "contiguous_strides [0, 2 ^ 40, 2 ^ 40] = Inl Panic"
    unfolding contiguous_strides_def steps by (simp add: oracle_stride_step_def usize_op_def numeral_3_eq_3)
  then show "reduce_sum_to_f32 F t [0, 2 ^ 40, 2 ^ 40] = Inl Panic"
    using assms by (simp add: reduce_sum_to_f32_def usize_product_def usize_op_def)
  show "checked_num_elements [0, 2 ^ 40, 2 ^ 40] = Inr 0"
    by (simp add: checked_num_elements_def checked_mul_def)
qed

end
