(* ===== verification/Runtime_Theorems.thy ===== *)
theory Runtime_Theorems
  imports Plan_Simulation Oracle_Theorems
begin

text \<open>
  The properties of the tensor runtime on the CPU backend: what preparation decides, that an execution
  that returns has computed the graph, that it does return when the values fit and the memory is
  granted, and that it agrees with the oracle.
\<close>

section \<open>Preparation on the CPU backend\<close>

lemma module_prepared:
  assumes "kernel_typed k" and "generatable k"
  shows "from_kernel_module (module_of (artifact_of k)) =
    (case preparation_error (artifact_of k) of None \<Rightarrow> Inr (prepared_of (artifact_of k)) | Some e \<Rightarrow> fail e)"
proof -
  have ok: "artifact_ok (artifact_of k)" using assms by (rule artifact_of_ok)
  with from_kernel_module_eq [OF ok] from_artifact_eq [OF ok] show ?thesis by (simp add: module_of_def split: option.split)
qed

definition cpu_kernel_of :: "logical_kernel \<Rightarrow> cpu_kernel" where
  "cpu_kernel_of k = \<lparr>ck_module = module_of (artifact_of k), ck_prepared = prepared_of (artifact_of k)\<rparr>"

lemma cpu_compile_module:
  assumes "kernel_typed k" and "generatable k"
  shows "cpu_compile (module_of (artifact_of k)) heap = (heap,
    (case preparation_error (artifact_of k) of None \<Rightarrow> Inr (cpu_kernel_of k) | Some e \<Rightarrow> fail (CpuCompilation e)))"
  using module_prepared [OF assms]
  by (simp add: cpu_compile_def module_of_def cpu_kernel_of_def act_lift_def split: option.split)

text \<open>Why the CPU backend refuses a kernel of a plan.\<close>

definition cpu_refuses :: "logical_kernel \<Rightarrow> cpu_error prep_error \<Rightarrow> bool" where
  "cpu_refuses k e \<longleftrightarrow>
     (\<exists>x. \<not> generatable k \<and> generation_blocked k (Err x) \<and> e = KernelGeneration x) \<or>
     transcendental k \<and> e = PlanMathUnavailable (lk_id k) (opcode_of (lk_family k)) \<or>
     (\<exists>x. \<not> transcendental k \<and> preparation_error (artifact_of k) = Some x \<and> e = KernelCompilation (lk_id k) (CpuCompilation x))"

lemma act_traverse_pure:
  assumes "\<And>x s. x \<in> set xs \<Longrightarrow> f x s = (s, Inr (g x))"
  shows "act_traverse f xs s = (s, Inr (map g xs))"
  using assms by (induction xs) (simp_all add: act_return_def act_bind_def)

lemma act_traverse_still:
  assumes "\<And>x s. fst (f x s) = s"
  shows "fst (act_traverse f xs s) = s"
proof (induction xs arbitrary: s)
  case (Cons x xs)
  show ?case
  proof (cases "f x s")
    case (Pair u r)
    with assms [of x s] have "u = s" by simp
    with Pair Cons.IH [of s] show ?thesis
      by (cases "act_traverse f xs s") (auto simp: act_bind_def act_return_def split: sum.split)
  qed
qed (simp add: act_return_def)

lemma cpu_kernels:
  assumes wf: "plan_well_formed lp T"
  shows "case compile_kernels (cpu_backend reserve A) lp heap of
      (heap', Inl f) \<Rightarrow> heap' = heap \<and> (\<exists>e. f = Err e \<and> (\<exists>k \<in> set (lp_kernels lp). cpu_refuses k e))
    | (heap', Inr ks) \<Rightarrow> heap' = heap \<and> ks = map cpu_kernel_of (lp_kernels lp) \<and>
        (\<forall>k \<in> set (lp_kernels lp). generatable k \<and> preparation_error (artifact_of k) = None)"
proof -
  let ?B = "cpu_backend reserve A" and ?ks = "lp_kernels lp"
  have typed: "kernel_typed k" if "k \<in> set ?ks" for k using wf that by (simp add: plan_well_formed_def list_all_iff)
  have compile: "be_compile ?B (module_of (artifact_of k)) s = (s,
      (case preparation_error (artifact_of k) of None \<Rightarrow> Inr (cpu_kernel_of k) | Some e \<Rightarrow> fail (CpuCompilation e)))"
    if "k \<in> set ?ks" "generatable k" for k s
    using cpu_compile_module [OF typed [OF that(1)] that(2)] by (simp add: cpu_backend_def)
  have one: "fst (compile_kernel ?B p s) = s" for p s
    by (cases p) (simp add: compile_kernel_def Let_def act_bind_lift act_map_err_def cpu_backend_def cpu_compile_def
        act_lift_def split: sum.split)
  have still: "fst (compile_kernels ?B lp heap) = heap"
    using act_traverse_still [where f = "compile_kernel ?B", OF one] by (simp add: compile_kernels_def act_bind_lift split: sum.split)
  show ?thesis
  proof (cases "compile_kernels ?B lp heap")
    case (Pair heap' r)
    with still have heap: "heap' = heap" by simp
    note blocked = compile_kernels_eq [OF wf, where B = ?B and s = heap]
    show ?thesis
    proof (cases r)
      case (Inl f)
      with blocked Pair have "kernels_blocked ?B lp heap' f" by simp
      then have "\<exists>e. f = Err e \<and> (\<exists>k \<in> set ?ks. cpu_refuses k e)"
        unfolding kernels_blocked_def
      proof (elim disjE)
        assume "\<exists>k \<in> set ?ks. \<exists>e. \<not> generatable k \<and> generation_blocked k (Err e) \<and> f = Err (KernelGeneration e)"
        then show ?thesis by (auto simp: cpu_refuses_def)
      next
        assume "list_all generatable ?ks \<and> (\<exists>i < length ?ks. transcendental (?ks ! i) \<and>
            f = Err (PlanMathUnavailable i (opcode_of (lk_family (?ks ! i)))))"
        then obtain i where "i < length ?ks" "transcendental (?ks ! i)" "f = Err (PlanMathUnavailable i (opcode_of (lk_family (?ks ! i))))" by blast
        with well_formed_ids [OF wf] show ?thesis by (auto simp: cpu_refuses_def intro!: bexI [of _ "?ks ! i"])
      next
        assume "list_all generatable ?ks \<and> (\<exists>i < length ?ks. \<not> transcendental (?ks ! i) \<and>
          (\<exists>u. act_map_err (KernelCompilation i) (be_compile ?B (module_of (artifact_of (?ks ! i)))) u = (heap', Inl f)))"
        then obtain i u where i: "i < length ?ks" "\<not> transcendental (?ks ! i)" "generatable (?ks ! i)"
          "act_map_err (KernelCompilation i) (be_compile ?B (module_of (artifact_of (?ks ! i)))) u = (heap', Inl f)"
          by (auto simp: list_all_length)
        with compile [OF nth_mem [OF i(1)] i(3)] obtain x where
          "preparation_error (artifact_of (?ks ! i)) = Some x" "f = Err (KernelCompilation i (CpuCompilation x))"
          by (auto simp: act_map_err_def split: option.splits)
        with i well_formed_ids [OF wf i(1)] show ?thesis by (auto simp: cpu_refuses_def intro!: bexI [of _ "?ks ! i"])
      qed
      with Pair Inl heap show ?thesis by simp
    next
      case (Inr ks)
      with blocked Pair have gen: "list_all generatable ?ks" and
        run: "act_traverse (\<lambda>k. act_map_err (KernelCompilation (lk_id k)) (be_compile ?B (module_of (artifact_of k)))) ?ks heap = (heap', Inr ks)"
        by simp_all
      have none: "preparation_error (artifact_of k) = None" if "k \<in> set ?ks" for k
      proof -
        from that obtain i where i: "i < length ?ks" "k = ?ks ! i" by (auto simp: in_set_conv_nth)
        from act_traverse_Inr [OF run i(1)] compile [OF that] gen that i(2) show ?thesis
          by (auto simp: act_simps list_all_iff split: option.splits)
      qed
      have "act_traverse (\<lambda>k. act_map_err (KernelCompilation (lk_id k)) (be_compile ?B (module_of (artifact_of k)))) ?ks heap =
          (heap, Inr (map cpu_kernel_of ?ks))"
        by (rule act_traverse_pure) (use compile none gen in \<open>simp add: act_map_err_def list_all_iff\<close>)
      with run Pair Inr none gen show ?thesis by (simp add: list_all_iff)
    qed
  qed
qed

lemma cpu_prepared_kernels:
  assumes wf: "plan_well_formed lp T" and prep: "prepare_with_external_types (cpu_backend reserve A) lp hints heap = (heap', Inr p)"
    and k: "k \<in> set (lp_kernels lp)"
  shows "generatable k" "preparation_error (artifact_of k) = None" "artifact_ok (artifact_of k)"
proof -
  from prepare_decided [OF wf, where B = "cpu_backend reserve A" and hints = hints and s = heap] prep obtain ks where
    "compile_kernels (cpu_backend reserve A) lp heap = (heap', Inr ks)" by auto
  with cpu_kernels [OF wf, where reserve = reserve and A = A and heap = heap] k
  show gen: "generatable k" "preparation_error (artifact_of k) = None" by auto
  have "kernel_typed k" using wf k by (simp add: plan_well_formed_def list_all_iff)
  then show "artifact_ok (artifact_of k)" by (rule artifact_of_ok [OF _ gen(1)])
qed

text \<open>
  preparing the lowered plan of a compiled, well-typed graph on the CPU backend never touches a buffer.
  It succeeds with the prepared plan that the lowered plan describes, one compiled kernel per logical
  kernel and every size representable, or it fails with an error whose reason holds: a hint that names no
  external, repeats, is not F32 or contradicts the plan, an element type other than F32, a size that
  overflows, an external without a type, or a kernel the format cannot express, \<open>exp\<close>, \<open>log\<close>, or
  one the backend cannot index. The structural errors of the runtime are unreachable.
\<close>

theorem cpu_preparation_decides:
  assumes "compile g = Inr plan" and "length (graph_nodes g) \<le> u32_range"
    and "validate_semantics g = Inr ()" and "lower_plan plan bindings = Inr lp"
  defines "T \<equiv> typing_of plan (type_of (graph_nodes g)) bindings"
  shows "case prepare_with_external_types (cpu_backend reserve A) lp hints heap of
      (heap', Inl f) \<Rightarrow> heap' = heap \<and> (\<exists>e. f = Err e \<and>
        (prep_blocked cpu_capabilities lp T hints e \<or> (\<exists>k \<in> set (lp_kernels lp). cpu_refuses k e)))
    | (heap', Inr p) \<Rightarrow> heap' = heap \<and> p = prepared_plan_of lp T hints (map cpu_kernel_of (lp_kernels lp)) \<and>
        plan_sized lp T hints \<and> (\<forall>k \<in> set (lp_kernels lp). generatable k \<and> preparation_error (artifact_of k) = None)"
proof -
  note wf = lowered_plan_well_formed [OF assms(1-4), folded T_def]
  let ?B = "cpu_backend reserve A"
  have caps: "be_capabilities ?B = cpu_capabilities" by (simp add: cpu_backend_def)
  note kernels = cpu_kernels [OF wf, where reserve = reserve and A = A and heap = heap]
  show ?thesis
  proof (cases "prepare_with_external_types ?B lp hints heap")
    case (Pair heap' r)
    with prepare_decided [OF wf, where B = ?B and hints = hints and s = heap, unfolded caps] kernels show ?thesis
      by (cases r) auto
  qed
qed

section \<open>Execution on the CPU backend\<close>

lemma prepared_plan_accepted:
  "supply_accepted (length (pr_externals (prepared_plan_of lp T hints ks))) ((!) (pr_external_sizes (prepared_plan_of lp T hints ks))) entries =
   supply_accepted (length (lp_bindings lp)) (\<lambda>b. value_bytes (binding_type lp T hints b)) entries"
  using supply_accepted_cong [of "length (lp_bindings lp)" "(!) (pr_external_sizes (prepared_plan_of lp T hints ks))"
      "\<lambda>b. value_bytes (binding_type lp T hints b)" entries]
  by (simp add: prepared_plan_of_def external_specs_of_def external_sizes_of_def)

text \<open>
  C8: whatever the graph, the bindings, the hints and the state of the heap: if preparation and then
  execution on the CPU backend return, the outputs are the graph's outputs, in order, each with its
  type and with the value the graph gives it when its operations are the Reference kernels and its
  externals the supplied values. Buffer reuse, kernel sharing, transfers and launches change nothing.
\<close>

theorem cpu_run_refines_graph:
  assumes "compile g = Inr plan" "length (graph_nodes g) \<le> u32_range" "validate_semantics g = Inr ()"
    "lower_plan plan bindings = Inr lp"
    and "\<forall>(n, ty) \<in> set hints. ty = type_of (graph_nodes g) n"
    and "prepare_with_external_types (cpu_backend reserve A) lp hints h0 = (h1, Inr p)"
    and "runtime_execute (cpu_backend reserve A) p entries h2 = (h3, Inr ys)"
    and "\<forall>(b, v) \<in> set entries. ext (eb_node (bindings ! b)) = v"
  shows "ys = map (\<lambda>n. \<lparr>ov_node = n, ov_tensor_type = type_of (graph_nodes g) n,
      ov_values = node_value (reference_operations A) ext (graph_nodes g) n\<rparr>) (graph_outputs g)"
  using assms by (rule cpu.run_refines_graph)

lemma cpu_execution_completes:
  assumes "compile g = Inr plan" "length (graph_nodes g) \<le> u32_range" "validate_semantics g = Inr ()"
    "lower_plan plan bindings = Inr lp"
    and "\<forall>(n, ty) \<in> set hints. ty = type_of (graph_nodes g) n"
    and "prepare_with_external_types (cpu_backend reserve A) lp hints h0 = (h1, Inr p)"
    and "cpu_ready h2" and "\<forall>n \<in> set (pr_slot_sizes p @ pr_external_sizes p). cpu_grants reserve n"
    and "supply_accepted (length (pr_externals p)) ((!) (pr_external_sizes p)) entries"
    and "\<forall>k \<in> set (lp_kernels lp). batch_fits (artifact_of k)"
    and "\<forall>(b, v) \<in> set entries. ext (eb_node (bindings ! b)) = v"
  shows "\<exists>h3. runtime_execute (cpu_backend reserve A) p entries h2 =
    (h3, Inr (map (\<lambda>n. \<lparr>ov_node = n, ov_tensor_type = type_of (graph_nodes g) n,
      ov_values = node_value (reference_operations A) ext (graph_nodes g) n\<rparr>) (graph_outputs g)))"
proof -
  let ?T = "typing_of plan (type_of (graph_nodes g)) bindings"
  note wf = lowered_plan_well_formed [OF assms(1-4)]
  from cpu.prepared_compiled [OF wf assms(6)] obtain ks where p: "p = prepared_plan_of lp ?T hints ks"
    and ks: "length ks = length (lp_kernels lp)" "\<forall>i < length ks. cpu_compiled (ks ! i) (artifact_of (lp_kernels lp ! i))"
    and sized: "plan_sized lp ?T hints" and gen: "list_all generatable (lp_kernels lp)" by metis
  have memory: "\<forall>n \<in> set (slot_sizes_of lp ?T) \<union> set (external_sizes_of lp ?T hints). cpu_grants reserve n"
    using assms(8) by (simp add: p prepared_plan_of_def)
  have accepted: "supply_accepted (length (lp_bindings lp)) (\<lambda>b. value_bytes (binding_type lp ?T hints b)) entries"
    using assms(9) unfolding p prepared_plan_accepted .
  have kernels: "\<forall>k \<in> set (lp_kernels lp). generatable k \<and> batch_fits (artifact_of k)"
    using gen assms(10) by (simp add: list_all_iff)
  from cpu.execution_progress [OF wf sized assms(7) ks kernels memory accepted assms(11) reference_run [OF assms(1,2,4)]]
  obtain h3 ys where run: "runtime_execute (cpu_backend reserve A) p entries h2 = (h3, Inr ys)" unfolding p by metis
  from cpu.run_refines_graph [OF assms(1-6) run assms(11)] run show ?thesis by blast
qed

text \<open>
  an execution of a prepared plan on the CPU backend always completes with those outputs, when no
  buffer is borrowed, the allocator grants the slot and external buffers, every external is supplied
  once with its length, and the matrices of batched products are addressable.
\<close>

theorem cpu_run_completes:
  assumes "compile g = Inr plan" "length (graph_nodes g) \<le> u32_range" "validate_semantics g = Inr ()"
    "lower_plan plan bindings = Inr lp"
    and "\<forall>(n, ty) \<in> set hints. ty = type_of (graph_nodes g) n"
    and "prepare_with_external_types (cpu_backend reserve A) lp hints h0 = (h1, Inr p)"
    and "cpu_ready h2" and "\<forall>n \<in> set (pr_slot_sizes p @ pr_external_sizes p). cpu_grants reserve n"
    and "supply_accepted (length (pr_externals p)) ((!) (pr_external_sizes p)) entries"
    and "\<forall>k \<in> set (lp_kernels lp). batch_fits (artifact_of k)"
    and "\<forall>(b, v) \<in> set entries. ext (eb_node (bindings ! b)) = v"
  shows "\<exists>h3. runtime_execute (cpu_backend reserve A) p entries h2 =
    (h3, Inr (map (\<lambda>n. \<lparr>ov_node = n, ov_tensor_type = type_of (graph_nodes g) n,
      ov_values = node_value (reference_operations A) ext (graph_nodes g) n\<rparr>) (graph_outputs g)))"
  using assms by (rule cpu_execution_completes)

text \<open>
  C19: on any backend, supplied values are checked before anything else: an execution whose values are not one
  per external with the right length fails with an error that names an offending binding, and makes no
  call to the backend at all.
\<close>

theorem external_values_checked_first:
  fixes B :: "('s, 'b, 'k, 't, 'v, 'e) backend"
  assumes "compile g = Inr plan" "length (graph_nodes g) \<le> u32_range" "validate_semantics g = Inr ()"
    "lower_plan plan bindings = Inr lp"
    and "prepare_with_external_types B lp hints s0 = (s1, Inr p)"
    and "\<not> supply_accepted (length (pr_externals p)) ((!) (pr_external_sizes p)) entries"
  shows "\<exists>e. runtime_execute B p entries s = (s, fail e) \<and>
    supply_rejected (length (pr_externals p)) ((!) (pr_external_sizes p)) entries e"
proof -
  let ?T = "typing_of plan (type_of (graph_nodes g)) bindings"
  note wf = lowered_plan_well_formed [OF assms(1-4)]
  then have small: "length (lp_bindings lp) \<le> u32_range" by (simp add: plan_well_formed_def plan_consistent_def)
  from prepare_decided [OF wf, where B = B and hints = hints and s = s0] assms(5)
  obtain ks where p: "p = prepared_plan_of lp ?T hints ks" by auto
  have n: "length (pr_externals p) \<le> u32_range" "length (pr_external_sizes p) = length (pr_externals p)"
    using small by (simp_all add: p prepared_plan_of_def external_specs_of_def external_sizes_of_def)
  have decided: "decided (\<lambda>f. \<exists>e. f = Err e \<and> supply_rejected (length (pr_externals p)) ((!) (pr_external_sizes p)) entries e)
      (\<lambda>vs. supply_accepted (length (pr_externals p)) ((!) (pr_external_sizes p)) entries \<and>
         vs = map (supplied_of entries) [0..<length (pr_externals p)])
      (resolve_external_values p entries :: ('e exec_error, _) outcome)"
    by (rule resolve_external_values_decided [OF n])
  show ?thesis
  proof (cases "resolve_external_values p entries :: ('e exec_error, _) outcome")
    case (Inl f)
    with decided obtain e where "f = Err e" "supply_rejected (length (pr_externals p)) ((!) (pr_external_sizes p)) entries e"
      by (auto simp: decided_def)
    with Inl show ?thesis by (simp add: runtime_execute_def act_bind_lift)
  next
    case (Inr vs)
    with decided assms(6) show ?thesis by (simp add: decided_def)
  qed
qed

section \<open>The runtime and the oracle\<close>

lemma run_lowered_cong:
  assumes "\<forall>k \<in> set (lp_kernels lp). \<forall>vs. ksem (lk_family k) (lk_operands k) (lk_result k) vs =
    ksem' (lk_family k) (lk_operands k) (lk_result k) vs"
  shows "run_lowered ksem ext lp = run_lowered ksem' ext lp"
proof -
  have "run_dispatch ksem ext (lp_kernels lp) cells d = run_dispatch ksem' ext (lp_kernels lp) cells d" for cells d
  proof (cases "get (lp_kernels lp) (li_kernel d)")
    case (Some k)
    then have "k \<in> set (lp_kernels lp)" by (auto simp: get_def split: if_splits)
    with assms have eq: "ksem (lk_family k) (lk_operands k) (lk_result k) = ksem' (lk_family k) (lk_operands k) (lk_result k)"
      by blast
    show ?thesis unfolding run_dispatch_def Some Option.bind.bind_lunit eq by (rule refl)
  next
    case None
    show ?thesis unfolding run_dispatch_def None Option.bind.bind_lzero by (rule refl)
  qed
  then show ?thesis by (simp add: run_lowered_def run_dispatches_def)
qed

lemma lowered_kernel_node:
  assumes "compile g = Inr plan" "length (graph_nodes g) \<le> u32_range" "lower_plan plan bindings = Inr lp"
    and k: "k \<in> set (lp_kernels lp)"
  shows "\<exists>n \<in> set (graph_nodes g). family_of (node_operation n) = Some (lk_family k)"
proof -
  from assms(3) obtain vals ids where
    ok: "lowered_ok vals ids (ep_instructions plan) (lp_kernels lp, lp_instructions lp)" by (rule lower_plan_Inr)
  from k obtain i where i: "i < length (lp_kernels lp)" "lp_kernels lp ! i = k" by (auto simp: in_set_conv_nth)
  then have "i \<in> li_kernel ` set (lp_instructions lp)" using lower_plan_used [OF assms(3)] by (auto simp: kernels_used_def)
  then obtain d where d: "d \<in> set (lp_instructions lp)" "lp_kernels lp ! li_kernel d = k" using i(2) by auto
  from list_all2_right [OF _ d(1)] ok obtain x where
    "x \<in> set (filter (\<lambda>i. computed (ins_operation i)) (ep_instructions plan))" "dispatch_ok vals ids (lp_kernels lp) x d"
    unfolding lowered_ok_def by fastforce
  then have x: "x \<in> set (ep_instructions plan)" "family_of (ins_operation x) = Some (lk_family k)"
    using d(2) kernel_family_family_of by (auto simp: dispatch_ok_def)
  then obtain i where "i \<in> set (needed_list g)" "x = instruction_of (graph_nodes g) i"
    using compile_plan_schedule [OF assms(1,2)] by auto
  with x(2) show ?thesis
    by (auto simp: needed_list_def instruction_of_def to_instruction_def intro!: bexI [of _ "graph_nodes g ! i"])
qed

text \<open>
  C20: the runtime and the oracle agree. On a graph without \<open>relu\<close> (whose treatment of NaN differs), when the
  oracle and the CPU backend both return on the same values, they return the same floats, bit for bit.
\<close>

theorem cpu_run_agrees_with_oracle:
  assumes "oracle_prepare g constants = Inr s" and "length (graph_nodes g) \<le> u32_range"
    and "\<forall>n \<in> set (graph_nodes g). shape_fits (ty_shape (node_output n)) \<and> node_operation n \<noteq> Relu"
    and "all_built constants" "all_built inputs" "oracle_execute F s inputs = Inr outs"
    and "compile g = Inr plan" "lower_plan plan bindings = Inr lp"
    and "\<forall>(n, ty) \<in> set hints. ty = type_of (graph_nodes g) n"
    and "prepare_with_external_types (cpu_backend reserve (arith_of F)) lp hints h0 = (h1, Inr p)"
    and "runtime_execute (cpu_backend reserve (arith_of F)) p entries h2 = (h3, Inr ys)"
    and "\<forall>(b, v) \<in> set entries. oracle_externals s inputs (eb_node (bindings ! b)) = v"
  shows "map (\<lambda>y. (ov_node y, ov_values y)) ys = map (\<lambda>(k, t). (k, floats (Some t))) outs"
proof -
  let ?A = "arith_of F" and ?ext = "oracle_externals s inputs"
  let ?T = "typing_of plan (type_of (graph_nodes g)) bindings" and ?val = "node_value (reference_operations (arith_of F)) (oracle_externals s inputs) (graph_nodes g)"
  have fits: "\<forall>n \<in> set (graph_nodes g). shape_fits (ty_shape (node_output n))" using assms(3) by blast
  note session = prepared_session_ok [OF assms(1,2) fits assms(4,5)]
  have "typed_graph g" using session by (simp add: session_ok_def)
  moreover have "wf_graph g" using session by (simp add: session_ok_def)
  ultimately have valid: "validate_semantics g = Inr ()" using validate_semantics_iff_typed by blast
  note wf = lowered_plan_well_formed [OF assms(7,2) valid assms(8)]
  from cpu.prepared_compiled [OF wf assms(10)] have gen: "list_all generatable (lp_kernels lp)" by blast
  have run: "ys = map (\<lambda>n. \<lparr>ov_node = n, ov_tensor_type = type_of (graph_nodes g) n, ov_values = ?val n\<rparr>) (graph_outputs g)"
    using cpu.run_refines_graph [OF assms(7,2) valid assms(8-12)] .
  have kernels: "reference_kernels ?A (lk_family k) (lk_operands k) (lk_result k) vs =
      flat_kernel F (lk_family k) (lk_operands k) (lk_result k) vs" if k: "k \<in> set (lp_kernels lp)" for k vs
  proof -
    have "kernel_typed k" "generatable k" using wf gen k by (simp_all add: plan_well_formed_def list_all_iff)
    moreover from lowered_kernel_node [OF assms(7,2,8) k] assms(3) have "lk_family k \<noteq> ElementwiseUnary ReluKernel"
      by (auto simp: family_of_eq)
    moreover have "lk_family k \<notin> {ElementwiseUnary ExpKernel, ElementwiseUnary LogKernel}"
      using cpu_prepared_kernels(2) [OF wf assms(10) k] by (auto simp: preparation_error_def artifact_of_def)
    ultimately show ?thesis using kernel_spec_flat [of k F vs] by (simp add: kernel_spec_artifact)
  qed
  have "run_lowered (reference_kernels ?A) (\<lambda>b. ?ext (eb_node (bindings ! b))) lp =
      run_lowered (flat_kernel F) (\<lambda>b. ?ext (eb_node (bindings ! b))) lp"
    using kernels by (intro run_lowered_cong) blast
  with reference_run [OF assms(7,2,8), of ?A ?ext] oracle_plan_values [OF assms(1,2) fits assms(4-8)]
  have "map (\<lambda>out. Some (?val (lo_node out))) (lp_outputs lp) = map (\<lambda>(k, t). Some (floats (Some t))) outs"
    and nodes: "map fst outs = graph_outputs g" by simp_all
  moreover have "map lo_node (lp_outputs lp) = graph_outputs g"
    using lower_plan_outputs(1) [OF assms(8)] compiled_safe(4) [OF assms(7,2)] by simp
  moreover have "map (\<lambda>out. Some (?val (lo_node out))) (lp_outputs lp) = map (\<lambda>n. Some (?val n)) (map lo_node (lp_outputs lp))"
    by simp
  ultimately have "map (\<lambda>n. Some (?val n)) (map fst outs) = map (\<lambda>(k, t). Some (floats (Some t))) outs"
    using nodes by metis
  then have "\<forall>(k, t) \<in> set outs. ?val k = floats (Some t)" by auto
  then show ?thesis unfolding run nodes [symmetric] by (auto simp: comp_def)
qed

end
