(* ===== verification/Session_Correct.thy ===== *)
theory Session_Correct
  imports Graph_Session Runtime_Theorems
begin

text \<open>
  What a graph session keeps. The binding table of a compiled graph is its surviving inputs and
  constants in node order; the session resolves it against the graph, keeps one payload per
  surviving constant, and hands every execution one value per external.
\<close>

section \<open>The binding table of a compiled graph\<close>

definition kind_of :: "operation \<Rightarrow> external_value_kind option" where
  "kind_of oper = (case oper of Input _ \<Rightarrow> Some InputKind | Constant _ \<Rightarrow> Some ConstantKind | _ \<Rightarrow> None)"

definition constant_of :: "operation \<Rightarrow> constant_id" where
  "constant_of oper = (case oper of Constant c \<Rightarrow> c | _ \<Rightarrow> 0)"

abbreviation survives :: "graph \<Rightarrow> node_id \<Rightarrow> bool" where
  "survives g n \<equiv> n \<in> needed (graph_nodes g) (graph_outputs g)"

definition external_table :: "graph \<Rightarrow> external_bindings" where
  "external_table g =
     List.map_filter (\<lambda>n. map_option (\<lambda>kind. \<lparr>eb_node = n, eb_kind = kind\<rparr>) (kind_of (node_operation (graph_nodes g ! n))))
       (needed_list g)"

lemma kind_of_cases:
  "kind_of oper = Some InputKind \<longleftrightarrow> (\<exists>name. oper = Input name)"
  "kind_of oper = Some ConstantKind \<longleftrightarrow> (\<exists>c. oper = Constant c)"
  "kind_of oper = None \<longleftrightarrow> computed oper"
  by (auto simp: kind_of_def computed_def split: operation.splits)

lemma map_filter_via: "List.map_filter f xs = map the (filter (\<lambda>y. y \<noteq> None) (map f xs))"
  by (induction xs) (auto simp: List.map_filter_simps)

lemma map_filter_pointwise: "map f xs = map h ys \<Longrightarrow> List.map_filter f xs = List.map_filter h ys"
  by (simp only: map_filter_via)

lemma kind_matches: "storage_matches oper storage \<Longrightarrow> external_kind storage = kind_of oper"
  by (cases oper; cases storage) (simp_all add: storage_matches_def external_kind_def kind_of_def is_buffer_def)

lemma derived_table:
  assumes "compile g = Inr plan" and "length (graph_nodes g) \<le> u32_range"
  shows "derive_bindings plan = external_table g"
proof -
  let ?al = "mp_allocations (ep_memory plan)" and ?xs = "ep_instructions plan" and ?ns = "graph_nodes g"
  note safe = compiled_safe [OF assms]
  have xs: "?xs = map (instruction_of ?ns) (needed_list g)" using compile_plan_schedule [OF assms] by blast
  have al: "map va_node ?al = map ins_id ?xs"
    and match: "\<forall>i < length ?xs. storage_matches (ins_operation (?xs ! i)) (va_storage (?al ! i))"
    using safe(2) unfolding plan_safe_def Let_def by blast+
  have len: "length ?al = length (needed_list g)" using al xs by (metis length_map)
  have "map_option (\<lambda>kind. \<lparr>eb_node = va_node (?al ! i), eb_kind = kind\<rparr>) (external_kind (va_storage (?al ! i))) =
      map_option (\<lambda>kind. \<lparr>eb_node = needed_list g ! i, eb_kind = kind\<rparr>) (kind_of (node_operation (?ns ! (needed_list g ! i))))"
    if i: "i < length (needed_list g)" for i
  proof -
    let ?n = "needed_list g ! i"
    have "?n \<in> set (needed_list g)" using i by simp
    then have "?n < length ?ns" by (auto simp: needed_list_def)
    then have x: "ins_id (?xs ! i) = ?n" "ins_operation (?xs ! i) = node_operation (?ns ! ?n)"
      using i assms(2) by (simp_all add: xs instruction_of_def to_instruction_def)
    moreover have "va_node (?al ! i) = ins_id (?xs ! i)" using al i len xs by (metis length_map nth_map)
    moreover have "external_kind (va_storage (?al ! i)) = kind_of (ins_operation (?xs ! i))"
      using match i xs kind_matches by (metis length_map)
    ultimately show ?thesis by simp
  qed
  then have "map (\<lambda>a. map_option (\<lambda>kind. \<lparr>eb_node = va_node a, eb_kind = kind\<rparr>) (external_kind (va_storage a))) ?al =
      map (\<lambda>n. map_option (\<lambda>kind. \<lparr>eb_node = n, eb_kind = kind\<rparr>) (kind_of (node_operation (?ns ! n)))) (needed_list g)"
    using len by (intro nth_equalityI) simp_all
  then show ?thesis unfolding derive_bindings_def external_table_def by (rule map_filter_pointwise)
qed

text \<open>A table that tells the truth about a graph.\<close>

definition table_honest :: "graph \<Rightarrow> external_bindings \<Rightarrow> bool" where
  "table_honest g bs \<longleftrightarrow> (\<forall>e \<in> set bs. eb_node e < length (graph_nodes g) \<and> survives g (eb_node e) \<and>
       kind_of (node_operation (graph_nodes g ! eb_node e)) = Some (eb_kind e)) \<and>
     distinct (map eb_node bs) \<and> length bs \<le> u32_range"

lemma honest_entry:
  assumes "table_honest g bs" and "b < length bs"
  shows "eb_node (bs ! b) < length (graph_nodes g)" "survives g (eb_node (bs ! b))"
    "kind_of (node_operation (graph_nodes g ! eb_node (bs ! b))) = Some (eb_kind (bs ! b))"
  using assms by (simp_all add: table_honest_def)

lemma map_filter_map_option:
  "map eb_node (List.map_filter (\<lambda>n. map_option (\<lambda>kind. \<lparr>eb_node = n, eb_kind = kind\<rparr>) (f n)) xs) = filter (\<lambda>n. f n \<noteq> None) xs"
  by (induction xs) (auto simp: List.map_filter_simps)

lemma external_table_nodes:
  "map eb_node (external_table g) = filter (\<lambda>n. \<not> computed (node_operation (graph_nodes g ! n))) (needed_list g)"
proof -
  have "(\<lambda>n. kind_of (node_operation (graph_nodes g ! n)) \<noteq> None) = (\<lambda>n. \<not> computed (node_operation (graph_nodes g ! n)))"
    by (simp add: kind_of_cases)
  then show ?thesis unfolding external_table_def map_filter_map_option by simp
qed

lemma external_table_honest:
  assumes small: "length (graph_nodes g) \<le> u32_range"
  shows "table_honest g (external_table g)"
proof -
  have "e \<in> set (external_table g) \<Longrightarrow> eb_node e \<in> set (needed_list g) \<and>
      kind_of (node_operation (graph_nodes g ! eb_node e)) = Some (eb_kind e)" for e
    by (auto simp: external_table_def List.map_filter_def)
  moreover have "distinct (map eb_node (external_table g))"
    unfolding external_table_nodes by (simp add: needed_list_def)
  moreover have "length (external_table g) \<le> u32_range"
  proof -
    have "length (external_table g) = length (map eb_node (external_table g))" by simp
    also have "\<dots> \<le> length (needed_list g)" unfolding external_table_nodes by (rule length_filter_le)
    also have "\<dots> \<le> length [0..<length (graph_nodes g)]" unfolding needed_list_def by (rule length_filter_le)
    finally show ?thesis using small by simp
  qed
  ultimately show ?thesis by (auto simp: table_honest_def needed_list_def)
qed

section \<open>Resolving the table\<close>

definition entries_of :: "external_value_kind \<Rightarrow> external_bindings \<Rightarrow> binding_id list" where
  "entries_of kind bs = filter (\<lambda>b. eb_kind (bs ! b) = kind) [0..<length bs]"

lemma entries_of_snoc:
  "entries_of kind (bs @ [e]) = entries_of kind bs @ (if eb_kind e = kind then [length bs] else [])"
proof -
  have "filter (\<lambda>b. eb_kind ((bs @ [e]) ! b) = kind) [0..<length bs] = entries_of kind bs"
    unfolding entries_of_def by (rule filter_cong) (simp_all add: nth_append)
  then show ?thesis by (simp add: entries_of_def)
qed

lemma entries_of_set: "b \<in> set (entries_of kind bs) \<longleftrightarrow> b < length bs \<and> eb_kind (bs ! b) = kind"
  by (auto simp: entries_of_def)

lemma entries_of_distinct [simp]: "distinct (entries_of kind bs)"
  by (simp add: entries_of_def)

lemma entries_of_nil [simp]: "entries_of kind [] = []"
  by (simp add: entries_of_def)

abbreviation binding_node :: "external_bindings \<Rightarrow> binding_id \<Rightarrow> node_id" where
  "binding_node bs b \<equiv> eb_node (bs ! b)"

definition node_elements :: "graph \<Rightarrow> node_id \<Rightarrow> nat" where
  "node_elements g n = prod_list (ty_shape (type_of (graph_nodes g) n))"

definition input_spec_of :: "graph \<Rightarrow> external_bindings \<Rightarrow> binding_id \<Rightarrow> graph_input_spec" where
  "input_spec_of g bs b = \<lparr>gi_node = binding_node bs b, gi_tensor_type = type_of (graph_nodes g) (binding_node bs b)\<rparr>"

definition constant_spec_of :: "graph \<Rightarrow> external_bindings \<Rightarrow> binding_id \<Rightarrow> graph_constant_spec" where
  "constant_spec_of g bs b =
     \<lparr>gc_node = binding_node bs b, gc_constant = constant_of (node_operation (graph_nodes g ! binding_node bs b)),
      gc_tensor_type = type_of (graph_nodes g) (binding_node bs b)\<rparr>"

definition constant_binding_of :: "graph \<Rightarrow> external_bindings \<Rightarrow> binding_id \<Rightarrow> constant_binding" where
  "constant_binding_of g bs b =
     \<lparr>cb_binding = b, cb_node = binding_node bs b,
      cb_constant = constant_of (node_operation (graph_nodes g ! binding_node bs b)),
      cb_elements = node_elements g (binding_node bs b)\<rparr>"

definition resolved_of :: "graph \<Rightarrow> external_bindings \<Rightarrow> resolved_bindings" where
  "resolved_of g bs =
     \<lparr>rb_external_types = map (\<lambda>e. (eb_node e, type_of (graph_nodes g) (eb_node e))) bs, rb_kinds = map eb_kind bs,
      rb_inputs = map (input_spec_of g bs) (entries_of InputKind bs), rb_input_bindings = entries_of InputKind bs,
      rb_input_lengths = map (\<lambda>b. node_elements g (binding_node bs b)) (entries_of InputKind bs),
      rb_constants = map (constant_spec_of g bs) (entries_of ConstantKind bs),
      rb_constant_bindings = map (constant_binding_of g bs) (entries_of ConstantKind bs)\<rparr>"

text \<open>Why a graph with its constants cannot become a session.\<close>

inductive session_blocked :: "graph \<Rightarrow> graph_constants \<Rightarrow> 'e session_prep_error \<Rightarrow> bool" for g constants where
  compilation: "compile g = fail e \<Longrightarrow> session_blocked g constants (GraphCompilation e)"
| lowering: "compile g = Inr plan \<Longrightarrow> x \<in> set (ep_instructions plan) \<Longrightarrow> computed (ins_operation x) \<Longrightarrow>
    lowering_blocked x (Err e) \<Longrightarrow> session_blocked g constants (SessionCompilerPipeline (PipelineLowering (IrLowering e)))"
| input_dtype: "survives g n \<Longrightarrow> node_operation (graph_nodes g ! n) = Input name \<Longrightarrow>
    ty_dtype (type_of (graph_nodes g) n) \<noteq> F32 \<Longrightarrow>
    session_blocked g constants (UnsupportedInputDType n (ty_dtype (type_of (graph_nodes g) n)))"
| input_size: "survives g n \<Longrightarrow> node_operation (graph_nodes g ! n) = Input name \<Longrightarrow>
    \<forall>k. checked_num_elements (ty_shape (type_of (graph_nodes g) n)) \<noteq> Inr k \<Longrightarrow>
    session_blocked g constants (InputSizeOverflow n)"
| constant_dtype: "survives g n \<Longrightarrow> node_operation (graph_nodes g ! n) = Constant c \<Longrightarrow>
    ty_dtype (type_of (graph_nodes g) n) \<noteq> F32 \<Longrightarrow>
    session_blocked g constants (UnsupportedConstantDType n (ty_dtype (type_of (graph_nodes g) n)))"
| constant_size: "survives g n \<Longrightarrow> node_operation (graph_nodes g ! n) = Constant c \<Longrightarrow>
    \<forall>k. checked_num_elements (ty_shape (type_of (graph_nodes g) n)) \<noteq> Inr k \<Longrightarrow>
    session_blocked g constants (ConstantSizeOverflow n)"
| unexpected: "c \<in> fst ` set constants \<Longrightarrow> c \<notin> set (referenced_constants g) \<Longrightarrow>
    \<forall>c' \<in> fst ` set constants. c' \<notin> set (referenced_constants g) \<longrightarrow> c \<le> c' \<Longrightarrow>
    session_blocked g constants (UnexpectedConstantPayload c)"
| duplicate: "c \<in> set (referenced_constants g) \<Longrightarrow> 1 < length (filter (\<lambda>(i, _). i = c) constants) \<Longrightarrow>
    session_blocked g constants (DuplicateConstantPayload c)"
| missing: "survives g n \<Longrightarrow> node_operation (graph_nodes g ! n) = Constant c \<Longrightarrow> c \<notin> fst ` set constants \<Longrightarrow>
    session_blocked g constants (MissingConstantPayload n c)"
| wrong_length: "survives g n \<Longrightarrow> node_operation (graph_nodes g ! n) = Constant c \<Longrightarrow> (c, v) \<in> set constants \<Longrightarrow>
    length v \<noteq> node_elements g n \<Longrightarrow>
    session_blocked g constants (ConstantLengthMismatch n c (node_elements g n) (length v))"

abbreviation session_stops :: "graph \<Rightarrow> graph_constants \<Rightarrow> 'e session_prep_error failure \<Rightarrow> bool" where
  "session_stops g constants f \<equiv> \<exists>e. f = Err e \<and> session_blocked g constants e"

text \<open>Every external is F32 and countable.\<close>

definition externals_ok :: "graph \<Rightarrow> external_bindings \<Rightarrow> bool" where
  "externals_ok g bs \<longleftrightarrow> (\<forall>e \<in> set bs. ty_dtype (type_of (graph_nodes g) (eb_node e)) = F32 \<and>
     checked_num_elements (ty_shape (type_of (graph_nodes g) (eb_node e))) = Inr (node_elements g (eb_node e)))"

lemma checked_num_elements_decided:
  "decided (\<lambda>x. (\<forall>k. checked_num_elements sh \<noteq> Inr k) \<and> (\<exists>e. x = Err e)) (\<lambda>n. checked_num_elements sh = Inr n \<and> n = prod_list sh)
     (checked_num_elements sh)"
proof (cases "checked_num_elements sh")
  case (Inl f)
  have "try_fold (\<lambda>total dim. ok_or ShapeOverflow (checked_mul total dim)) a sh \<noteq> Inl Panic" for a
    by (induction sh arbitrary: a) (auto simp: outcome_simps)
  with Inl show ?thesis by (cases f) (auto simp: checked_num_elements_def)
qed (simp add: checked_num_elements_Inr)

lemma resolved_of_snoc:
  "resolved_of g (bs @ [e]) =
     (let r = resolved_of g bs; b = length bs; n = eb_node e; ty = type_of (graph_nodes g) n in
      r\<lparr>rb_external_types := rb_external_types r @ [(n, ty)], rb_kinds := rb_kinds r @ [eb_kind e],
        rb_inputs := rb_inputs r @ (if eb_kind e = InputKind then [\<lparr>gi_node = n, gi_tensor_type = ty\<rparr>] else []),
        rb_input_bindings := rb_input_bindings r @ (if eb_kind e = InputKind then [b] else []),
        rb_input_lengths := rb_input_lengths r @ (if eb_kind e = InputKind then [node_elements g n] else []),
        rb_constants := rb_constants r @ (if eb_kind e = ConstantKind
          then [\<lparr>gc_node = n, gc_constant = constant_of (node_operation (graph_nodes g ! n)), gc_tensor_type = ty\<rparr>] else []),
        rb_constant_bindings := rb_constant_bindings r @ (if eb_kind e = ConstantKind
          then [\<lparr>cb_binding = b, cb_node = n, cb_constant = constant_of (node_operation (graph_nodes g ! n)),
                 cb_elements = node_elements g n\<rparr>] else [])\<rparr>)"
proof -
  have "map (F (bs @ [e])) (entries_of kind bs) = map (F bs) (entries_of kind bs)"
    if "\<And>b. b < length bs \<Longrightarrow> F (bs @ [e]) b = F bs b" for F :: "external_bindings \<Rightarrow> binding_id \<Rightarrow> 'c" and kind
    using that by (auto simp: entries_of_set)
  moreover have "input_spec_of g (bs @ [e]) b = input_spec_of g bs b" "constant_spec_of g (bs @ [e]) b = constant_spec_of g bs b"
    "constant_binding_of g (bs @ [e]) b = constant_binding_of g bs b" "binding_node (bs @ [e]) b = binding_node bs b"
    if "b < length bs" for b
    using that by (simp_all add: input_spec_of_def constant_spec_of_def constant_binding_of_def nth_append)
  ultimately show ?thesis
    by (simp add: resolved_of_def Let_def entries_of_snoc input_spec_of_def constant_spec_of_def constant_binding_of_def nth_append
        entries_of_set)
qed

lemma session_resolve_decided:
  assumes honest: "table_honest g bs"
  shows "decided (session_stops g constants) (\<lambda>r. r = resolved_of g bs \<and> externals_ok g bs)
    (try_fold (resolve_binding g) (resolved_of g []) (enumerate 0 bs) :: ('e session_prep_error, _) outcome)"
proof -
  let ?P = "\<lambda>i r. r = resolved_of g (take i bs) \<and> externals_ok g (take i bs)"
  have "decided (session_stops g constants) (?P (length (enumerate 0 bs)))
    (try_fold (resolve_binding g) (resolved_of g []) (enumerate 0 bs) :: ('e session_prep_error, _) outcome)"
  proof (rule decided_try_fold [where P = ?P])
    show "?P 0 (resolved_of g [])" by (simp add: externals_ok_def)
  next
    fix i r assume "i < length (enumerate 0 bs)" and P: "?P i r"
    then have i: "i < length bs" by simp
    let ?e = "bs ! i" and ?n = "eb_node (bs ! i)"
    let ?ty = "type_of (graph_nodes g) ?n"
    have e: "?n < length (graph_nodes g)" "survives g ?n" "kind_of (node_operation (graph_nodes g ! ?n)) = Some (eb_kind ?e)"
      and small: "length bs \<le> u32_range"
      using honest nth_mem [OF i] by (auto simp: table_honest_def)
    have index: "index_as_u32 i = i" using i small by (simp add: index_as_u32_def)
    have next_r: "take (Suc i) bs = take i bs @ [?e]" using i by (simp add: take_Suc_conv_app_nth)
    have len: "length (take i bs) = i" using i by simp
    note step = resolved_of_snoc [of g "take i bs" ?e, unfolded len]
    have elements: "node_elements g ?n = prod_list (ty_shape ?ty)" by (simp add: node_elements_def)
    consider (inp) name where "node_operation (graph_nodes g ! ?n) = Input name" "eb_kind ?e = InputKind"
      | (cst) c where "node_operation (graph_nodes g ! ?n) = Constant c" "eb_kind ?e = ConstantKind"
      using e(3) by (cases "eb_kind ?e") (auto simp: kind_of_cases)
    then show "decided (session_stops g constants) (?P (Suc i)) (resolve_binding g r (enumerate 0 bs ! i) :: ('e session_prep_error, _) outcome)"
    proof cases
      case inp
      note stops = session_blocked.input_dtype [OF e(2) inp(1)] session_blocked.input_size [OF e(2) inp(1)]
      show ?thesis
      proof (cases "checked_num_elements (ty_shape ?ty)")
        case (Inl f)
        with checked_num_elements_decided [of "ty_shape ?ty"] obtain x where "f = Err x" by auto
        with Inl P i e inp stops show ?thesis by (auto simp: resolve_binding_def Let_def type_of_def)
      next
        case (Inr k)
        then have "k = node_elements g ?n" using elements checked_num_elements_Inr by simp
        with Inr P i e inp stops(1) index next_r step show ?thesis
          by (auto simp: resolve_binding_def Let_def type_of_def externals_ok_def)
      qed
    next
      case cst
      note stops = session_blocked.constant_dtype [OF e(2) cst(1)] session_blocked.constant_size [OF e(2) cst(1)]
      show ?thesis
      proof (cases "checked_num_elements (ty_shape ?ty)")
        case (Inl f)
        with checked_num_elements_decided [of "ty_shape ?ty"] obtain x where "f = Err x" by auto
        with Inl P i e cst stops show ?thesis by (auto simp: resolve_binding_def Let_def type_of_def)
      next
        case (Inr k)
        then have "k = node_elements g ?n" using elements checked_num_elements_Inr by simp
        with Inr P i e cst stops(1) index next_r step show ?thesis
          by (auto simp: resolve_binding_def Let_def type_of_def externals_ok_def constant_of_def)
      qed
    qed
  qed
  then show ?thesis by simp
qed

section \<open>The constants\<close>

lemma referenced_constants_set:
  "set (referenced_constants g) = {c. \<exists>n \<in> set (graph_nodes g). node_operation n = Constant c}"
proof -
  have "set (foldl note_constant acc ns) = set acc \<union> {c. \<exists>n \<in> set ns. node_operation n = Constant c}" for acc ns
  proof (induction ns arbitrary: acc)
    case (Cons n ns)
    have "set (note_constant acc n) = set acc \<union> {c. node_operation n = Constant c}"
      by (auto simp: note_constant_def split: operation.splits)
    with Cons.IH show ?case by auto
  qed simp
  then show ?thesis by (simp add: referenced_constants_def)
qed

lemma min_insert:
  fixes a c :: "'a :: linorder"
  assumes "finite U"
  shows "Min (insert a (insert c U)) = Min (insert (min a c) U)"
  using assms by (cases "U = {}") (simp_all add: min.assoc)

lemma note_unexpected_min:
  "foldl (note_unexpected R) acc cs =
     (let U = {c \<in> fst ` set cs. c \<notin> set R} \<union> set_option acc in if U = {} then None else Some (Min U))"
proof (induction cs arbitrary: acc)
  case Nil
  show ?case by (cases acc) (simp_all add: Let_def)
next
  case (Cons p cs)
  obtain c v where p: "p = (c, v)" by (cases p)
  let ?U = "{c \<in> fst ` set cs. c \<notin> set R}"
  show ?case
  proof (cases "c \<in> set R")
    case True
    then have "{c \<in> fst ` set (p # cs). c \<notin> set R} = ?U" by (auto simp: p)
    with True Cons.IH [of acc] show ?thesis by (simp add: note_unexpected_def p)
  next
    case False
    let ?m = "case acc of Some smallest \<Rightarrow> if smallest \<le> c then smallest else c | None \<Rightarrow> c"
    have "note_unexpected R acc p = Some ?m" using False by (simp add: note_unexpected_def p)
    moreover have "{c \<in> fst ` set (p # cs). c \<notin> set R} \<union> set_option acc = insert c ?U \<union> set_option acc" using False by (auto simp: p)
    moreover have "Min (insert ?m ?U) = Min (insert c ?U \<union> set_option acc)"
    proof (cases acc)
      case (Some a)
      then have "?m = min a c" by simp
      moreover have "Min (insert c ?U \<union> set_option acc) = Min (insert a (insert c ?U))" using Some by (simp add: insert_commute)
      moreover have "Min (insert a (insert c ?U)) = Min (insert (min a c) ?U)" by (rule min_insert) simp
      ultimately show ?thesis by simp
    qed simp
    ultimately show ?thesis using Cons.IH [of "Some ?m"] by (simp add: Let_def)
  qed
qed

lemma first_unexpected:
  "foldl (note_unexpected R) None cs = None \<longleftrightarrow> fst ` set cs \<subseteq> set R"
  "foldl (note_unexpected R) None cs = Some c \<Longrightarrow> c \<in> fst ` set cs \<and> c \<notin> set R \<and>
     (\<forall>c' \<in> fst ` set cs. c' \<notin> set R \<longrightarrow> c \<le> c')"
proof -
  let ?U = "{c \<in> fst ` set cs. c \<notin> set R}"
  show "foldl (note_unexpected R) None cs = None \<longleftrightarrow> fst ` set cs \<subseteq> set R"
    by (auto simp: note_unexpected_min Let_def)
  assume "foldl (note_unexpected R) None cs = Some c"
  then have "?U \<noteq> {}" "c = Min ?U" by (simp_all add: note_unexpected_min Let_def split: if_splits)
  moreover have "finite ?U" by simp
  ultimately show "c \<in> fst ` set cs \<and> c \<notin> set R \<and> (\<forall>c' \<in> fst ` set cs. c' \<notin> set R \<longrightarrow> c \<le> c')"
    using Min_in [of ?U] Min_le [of ?U] by auto
qed

lemma find_payload: "map_option snd (List.find (\<lambda>(i, _). i = c) cs) = map_of cs c"
  by (induction cs) auto

lemma supplied_once:
  "(\<forall>c \<in> fst ` set cs. length (filter (\<lambda>(i, _). i = c) cs) \<le> 1) \<longleftrightarrow> distinct (map fst cs)"
proof (induction cs)
  case (Cons p cs)
  obtain c v where p: "p = (c, v)" by (cases p)
  have none: "length (filter (\<lambda>(i, _). i = c) cs) = 0 \<longleftrightarrow> c \<notin> fst ` set cs" for c by (force simp: filter_empty_conv)
  have "(\<forall>x \<in> fst ` set (p # cs). length (filter (\<lambda>(i, _). i = x) (p # cs)) \<le> 1) \<longleftrightarrow>
      c \<notin> fst ` set cs \<and> (\<forall>x \<in> fst ` set cs. length (filter (\<lambda>(i, _). i = x) cs) \<le> 1)"
    using none [of c] by (auto simp: p)
  with Cons.IH show ?case by (simp add: p)
qed simp

lemma at_most_once: "distinct (map fst cs) \<Longrightarrow> length (filter (\<lambda>(i, _). i = c) cs) \<le> 1"
  by (induction cs) (auto simp: filter_empty_conv image_iff)

text \<open>The payloads and the constant bindings of a session.\<close>

definition payloads_ok ::
  "graph_constants \<Rightarrow> constant_binding list \<Rightarrow> constant_payload list \<times> prepared_constant_binding list \<Rightarrow> bool" where
  "payloads_ok constants cbs st \<longleftrightarrow> (case st of (payloads, prepared) \<Rightarrow>
     length prepared = length cbs \<and> distinct (map cp_constant payloads) \<and>
     cp_constant ` set payloads = cb_constant ` set cbs \<and>
     (\<forall>p \<in> set payloads. map_of constants (cp_constant p) = Some (cp_values p)) \<and>
     (\<forall>j < length cbs. pc_binding (prepared ! j) = cb_binding (cbs ! j) \<and> pc_payload_index (prepared ! j) < length payloads \<and>
        cp_constant (payloads ! pc_payload_index (prepared ! j)) = cb_constant (cbs ! j)))"

definition constants_accepted :: "graph \<Rightarrow> external_bindings \<Rightarrow> graph_constants \<Rightarrow> bool" where
  "constants_accepted g bs constants \<longleftrightarrow> distinct (map fst constants) \<and> fst ` set constants \<subseteq> set (referenced_constants g) \<and>
     (\<forall>b \<in> set (entries_of ConstantKind bs). \<exists>v.
        map_of constants (constant_of (node_operation (graph_nodes g ! binding_node bs b))) = Some v \<and>
        length v = node_elements g (binding_node bs b))"

lemma resolve_constant_step:
  assumes ok: "payloads_ok constants cbs st" and v: "map_of constants (cb_constant cb) = Some v" "length v = cb_elements cb"
  shows "\<exists>st'. resolve_constant constants st cb = (Inr st' :: ('e session_prep_error, _) outcome) \<and> payloads_ok constants (cbs @ [cb]) st'"
proof -
  obtain payloads prepared where st: "st = (payloads, prepared)" by (cases st)
  note inv = ok [unfolded st payloads_ok_def prod.case]
  show ?thesis
  proof (cases "find_position (\<lambda>p. cp_constant p = cb_constant cb) payloads")
    case (Some k)
    then have k: "k < length payloads" "cp_constant (payloads ! k) = cb_constant cb" using find_position_Some by blast+
    then have "cb_constant cb \<in> cp_constant ` set payloads" by (metis imageI nth_mem)
    then have "cb_constant cb \<in> cb_constant ` set cbs" using inv by blast
    with Some k inv v show ?thesis
      by (auto simp: resolve_constant_def st find_payload payloads_ok_def nth_append less_Suc_eq)
  next
    case None
    then have "cb_constant cb \<notin> cp_constant ` set payloads" using find_position_None [OF None] by fastforce
    with None inv v show ?thesis
      by (auto simp: resolve_constant_def st find_payload payloads_ok_def nth_append less_Suc_eq Let_def)
  qed
qed

lemma resolve_constants_decided:
  assumes honest: "table_honest g bs"
  shows "decided (session_stops g constants)
    (\<lambda>st. payloads_ok constants (rb_constant_bindings (resolved_of g bs)) st \<and> constants_accepted g bs constants)
    (resolve_constants g (resolved_of g bs) constants :: ('e session_prep_error, _) outcome)"
proof -
  let ?cbs = "rb_constant_bindings (resolved_of g bs)" and ?R = "referenced_constants g"
  have cbs: "?cbs = map (constant_binding_of g bs) (entries_of ConstantKind bs)" by (simp add: resolved_of_def)
  have loop: "decided (session_stops g constants) (\<lambda>st. payloads_ok constants (take (length ?cbs) ?cbs) st \<and>
      (\<forall>cb \<in> set (take (length ?cbs) ?cbs). \<exists>v. map_of constants (cb_constant cb) = Some v \<and> length v = cb_elements cb))
    (try_fold (resolve_constant constants) ([], []) ?cbs :: ('e session_prep_error, _) outcome)"
  proof (rule decided_try_fold [where P = "\<lambda>i st. payloads_ok constants (take i ?cbs) st \<and>
      (\<forall>cb \<in> set (take i ?cbs). \<exists>v. map_of constants (cb_constant cb) = Some v \<and> length v = cb_elements cb)"])
    show "payloads_ok constants (take 0 ?cbs) ([], []) \<and>
      (\<forall>cb \<in> set (take 0 ?cbs). \<exists>v. map_of constants (cb_constant cb) = Some v \<and> length v = cb_elements cb)"
      by (simp add: payloads_ok_def)
  next
    fix i st assume i: "i < length ?cbs" and P: "payloads_ok constants (take i ?cbs) st \<and>
      (\<forall>cb \<in> set (take i ?cbs). \<exists>v. map_of constants (cb_constant cb) = Some v \<and> length v = cb_elements cb)"
    let ?cb = "?cbs ! i"
    from i obtain b where b: "b \<in> set (entries_of ConstantKind bs)" "?cb = constant_binding_of g bs b"
      by (metis cbs length_map nth_map nth_mem)
    then have "b < length bs" "eb_kind (bs ! b) = ConstantKind" by (simp_all add: entries_of_set)
    with honest obtain c where n: "survives g (binding_node bs b)" "node_operation (graph_nodes g ! binding_node bs b) = Constant c"
      using honest_entry [of g bs b] by (auto simp: kind_of_cases)
    have cb: "cb_node ?cb = binding_node bs b" "cb_constant ?cb = c" "cb_elements ?cb = node_elements g (binding_node bs b)"
      using b(2) n(2) by (simp_all add: constant_binding_of_def constant_of_def)
    have snoc: "take (Suc i) ?cbs = take i ?cbs @ [?cb]" using i by (simp add: take_Suc_conv_app_nth)
    show "decided (session_stops g constants) (\<lambda>st. payloads_ok constants (take (Suc i) ?cbs) st \<and>
      (\<forall>cb \<in> set (take (Suc i) ?cbs). \<exists>v. map_of constants (cb_constant cb) = Some v \<and> length v = cb_elements cb))
      (resolve_constant constants st ?cb :: ('e session_prep_error, _) outcome)"
    proof (cases "map_of constants c")
      case None
      then have "c \<notin> fst ` set constants" by (simp add: map_of_eq_None_iff)
      from session_blocked.missing [OF n this] None cb show ?thesis
        by (cases st) (simp add: resolve_constant_def find_payload)
    next
      case (Some v)
      show ?thesis
      proof (cases "length v = cb_elements ?cb")
        case True
        with resolve_constant_step [of constants "take i ?cbs" st ?cb v, where ?'e = 'e] P Some cb(2) obtain st' where
          "resolve_constant constants st ?cb = (Inr st' :: ('e session_prep_error, _) outcome)" "payloads_ok constants (take i ?cbs @ [?cb]) st'"
          by auto
        with P Some cb(2) True show ?thesis by (auto simp: snoc)
      next
        case False
        with session_blocked.wrong_length [OF n map_of_SomeD [OF Some]] Some cb show ?thesis
          by (cases st) (simp add: resolve_constant_def find_payload)
      qed
    qed
  qed
  show ?thesis
  proof (cases "foldl (note_unexpected ?R) None constants")
    case (Some c)
    with first_unexpected(2) [OF Some] show ?thesis by (auto simp: resolve_constants_def Let_def intro: session_blocked.unexpected)
  next
    case None
    then have sub: "fst ` set constants \<subseteq> set ?R" by (simp add: first_unexpected)
    have check: "check_duplicate constants c = (if 1 < length (filter (\<lambda>(i, _). i = c) constants)
        then fail (DuplicateConstantPayload c) else (Inr () :: ('e session_prep_error, _) outcome))" for c
      by (simp add: check_duplicate_def)
    show ?thesis
    proof (cases "for_each (check_duplicate constants) ?R :: ('e session_prep_error, _) outcome")
      case (Inl f)
      then obtain c where "c \<in> set ?R" "check_duplicate constants c = (Inl f :: ('e session_prep_error, _) outcome)" by (blast dest: for_each_InlD)
      with Inl None show ?thesis
        by (auto simp: resolve_constants_def Let_def check intro!: session_blocked.duplicate [unfolded One_nat_def] split: if_splits)
    next
      case (Inr u)
      then have "\<forall>c \<in> set ?R. length (filter (\<lambda>(i, _). i = c) constants) \<le> 1"
        by (auto simp: for_each_Inr check not_less split: if_splits)
      with sub supplied_once have "distinct (map fst constants)" by blast
      with sub have "constants_accepted g bs constants"
        if "\<forall>cb \<in> set ?cbs. \<exists>v. map_of constants (cb_constant cb) = Some v \<and> length v = cb_elements cb"
        using that by (auto simp: constants_accepted_def cbs constant_binding_of_def)
      with Inr None loop show ?thesis
        by (auto simp: resolve_constants_def Let_def elim!: decided_mono)
    qed
  qed
qed

section \<open>The prepared plan describes the graph\<close>

lemma honest_externals_checked:
  assumes honest: "table_honest g bs" and specs: "pr_externals p =
      map (\<lambda>b. \<lparr>ev_binding = b, ev_node = binding_node bs b, ev_kind = eb_kind (bs ! b),
        ev_tensor_type = type_of (graph_nodes g) (binding_node bs b)\<rparr>) [0..<length bs]"
  shows "check_prepared_externals p (resolved_of g bs) = Inr ()"
proof -
  have small: "length bs \<le> u32_range" using honest by (simp add: table_honest_def)
  have "for_each check_prepared_external
      (enumerate 0 (zip (zip (pr_externals p) (rb_external_types (resolved_of g bs))) (rb_kinds (resolved_of g bs)))) = Inr ()"
    unfolding for_each_Inr ball_enumerate0 using small
    by (simp add: specs resolved_of_def check_prepared_external_def index_as_u32_def)
  then show ?thesis by (simp add: check_prepared_externals_def Let_def specs resolved_of_def)
qed

lemma typed_outputs_resolved:
  assumes outs: "pr_outputs p = map out_of lows" and nodes: "map lo_node lows = graph_outputs g"
    and wf: "wf_graph g"
    and typed: "\<forall>out \<in> set lows. po_spec (out_of out) = \<lparr>os_node = lo_node out, os_tensor_type = type_of (graph_nodes g) (lo_node out)\<rparr>"
  shows "session_resolve_outputs g p =
    (Inr (map (\<lambda>n. \<lparr>go_node = n, go_tensor_type = type_of (graph_nodes g) n\<rparr>) (graph_outputs g)) :: ('e session_prep_error, _) outcome)"
proof -
  have len: "length (graph_outputs g) = length lows" by (simp flip: nodes)
  have at: "graph_outputs g ! i = lo_node (lows ! i)" if "i < length lows" for i using that by (simp flip: nodes)
  have "session_output g (i, graph_outputs g ! i, out_of (lows ! i)) =
      (Inr \<lparr>go_node = graph_outputs g ! i, go_tensor_type = type_of (graph_nodes g) (graph_outputs g ! i)\<rparr> :: ('e session_prep_error, _) outcome)"
    if i: "i < length lows" for i
  proof -
    have "graph_outputs g ! i < length (graph_nodes g)" using wf i len by (simp add: wf_graph_def)
    with typed at [OF i] i show ?thesis by (simp add: session_output_def Let_def type_of_def)
  qed
  then have "traverse (session_output g) (enumerate 0 (zip (graph_outputs g) (pr_outputs p))) =
      (Inr (map (\<lambda>n. \<lparr>go_node = n, go_tensor_type = type_of (graph_nodes g) n\<rparr>) (graph_outputs g)) :: ('e session_prep_error, _) outcome)"
    unfolding traverse_Inr by (simp add: outs len)
  then show ?thesis by (simp add: session_resolve_outputs_def outs len)
qed

text \<open>The session that a graph, its table, its prepared plan and its constants make.\<close>

definition session_of ::
  "('s, 'b, 'k, 't, 'v, 'e) backend \<Rightarrow> graph \<Rightarrow> 'k prepared_plan \<Rightarrow> constant_payload list \<times> prepared_constant_binding list
     \<Rightarrow> ('s, 'b, 'k, 't, 'v, 'e) graph_session" where
  "session_of B g p st =
     (let r = resolved_of g (external_table g) in
      \<lparr>gs_runtime = B, gs_prepared = p, gs_inputs = rb_inputs r, gs_input_bindings = rb_input_bindings r,
       gs_input_lengths = rb_input_lengths r, gs_constants = rb_constants r, gs_constant_bindings = snd st,
       gs_payloads = fst st,
       gs_outputs = map (\<lambda>n. \<lparr>go_node = n, go_tensor_type = type_of (graph_nodes g) n\<rparr>) (graph_outputs g)\<rparr>)"

definition table_types :: "graph \<Rightarrow> (node_id \<times> tensor_type) list" where
  "table_types g = map (\<lambda>e. (eb_node e, type_of (graph_nodes g) (eb_node e))) (external_table g)"

definition prepared_constants :: "graph \<Rightarrow> graph_constants \<Rightarrow> constant_payload list \<times> prepared_constant_binding list \<Rightarrow> bool" where
  "prepared_constants g constants st \<longleftrightarrow> externals_ok g (external_table g) \<and> constants_accepted g (external_table g) constants \<and>
     payloads_ok constants (rb_constant_bindings (resolved_of g (external_table g))) st"

lemma session_resolve_table:
  assumes "lp_bindings lp = external_table g"
  shows "session_resolve_bindings g lp = try_fold (resolve_binding g) (resolved_of g []) (enumerate 0 (external_table g))"
  using assms by (simp add: session_resolve_bindings_def resolved_of_def)

lemma prepared_session:
  fixes B :: "('s, 'b, 'k, 't, 'v, 'e) backend"
  assumes graph: "compile g = Inr plan" "length (graph_nodes g) \<le> u32_range" "validate_semantics g = Inr ()"
    "lower_plan plan (external_table g) = Inr lp"
    and prep: "prepare_with_external_types B lp (table_types g) s = (s', Inr p)"
  shows "check_prepared_externals p (resolved_of g (external_table g)) = Inr ()"
    "session_resolve_outputs g p =
      Inr (map (\<lambda>n. \<lparr>go_node = n, go_tensor_type = type_of (graph_nodes g) n\<rparr>) (graph_outputs g))"
proof -
  let ?bs = "external_table g" and ?ty = "type_of (graph_nodes g)" and ?hints = "table_types g"
  let ?T = "typing_of plan ?ty ?bs"
  note wf = lowered_plan_well_formed [OF graph]
  from prepare_decided [OF wf, where B = B and hints = ?hints and s = s] prep obtain ks where
    p: "p = prepared_plan_of lp ?T ?hints ks" and sized: "plan_sized lp ?T ?hints" by auto
  note low = lower_plan_outputs [OF graph(4)]
  have binding: "binding_type lp ?T ?hints b = ?ty (binding_node ?bs b)" if "b < length ?bs" for b
    using honest_binding [OF sized, of b ?ty] low(2) that by (simp add: typing_of_def table_types_def)
  have "pr_externals p = map (\<lambda>b. \<lparr>ev_binding = b, ev_node = binding_node ?bs b, ev_kind = eb_kind (?bs ! b),
      ev_tensor_type = ?ty (binding_node ?bs b)\<rparr>) [0..<length ?bs]"
    using binding by (simp add: p prepared_plan_of_def external_specs_of_def low(2))
  from honest_externals_checked [OF external_table_honest [OF graph(2)] this]
  show "check_prepared_externals p (resolved_of g ?bs) = Inr ()" .
  have typed: "source_type lp ?T ?hints (lo_source out) = ?ty (lo_node out)" if out: "out \<in> set (lp_outputs lp)" for out
    using lowered_outputs_typed [OF graph out] binding low(2)
    by (cases "lo_source out") (simp_all add: source_typed_def source_type_def typing_of_def)
  have wfg: "wf_graph g" using compile_plan_schedule [OF graph(1,2)] by blast
  have nodes: "map lo_node (lp_outputs lp) = graph_outputs g" using low(1) compiled_safe(4) [OF graph(1,2)] by simp
  have outs: "pr_outputs p = map (prepared_output_of lp ?T ?hints) (lp_outputs lp)" by (simp add: p prepared_plan_of_def)
  show "session_resolve_outputs g p = Inr (map (\<lambda>n. \<lparr>go_node = n, go_tensor_type = ?ty n\<rparr>) (graph_outputs g))"
    by (rule typed_outputs_resolved [OF outs nodes wfg]) (simp add: prepared_output_of_def Let_def typed)
qed

lemma compile_no_panic:
  assumes "length (graph_nodes g) \<le> u32_range" and "compile g = Inl f"
  shows "\<exists>e. f = Err e"
proof (cases "validate g")
  case (Inl e)
  with validate_no_panic [of g] assms(2) show ?thesis by (cases e) (auto simp: compile_def)
next
  case (Inr u)
  then have "wf_graph g" by (simp add: validate_iff_wf)
  with compile_run [OF _ _ assms(1)] assms(2) have "graph_outputs g = []" by auto
  with Inr assms(2) show ?thesis by (auto simp: compile_def)
qed

lemma lowered_table:
  assumes "compile g = Inr plan" "length (graph_nodes g) \<le> u32_range" "validate_semantics g = Inr ()"
  shows "case lower_plan plan (external_table g) of
      Inr lp \<Rightarrow> True
    | Inl f \<Rightarrow> \<exists>e. f = Err e \<and> session_blocked g constants (SessionCompilerPipeline (PipelineLowering (IrLowering e)) :: 'e session_prep_error)"
proof (cases "lower_plan plan (external_table g)")
  case (Inl f)
  with lower_typed_plan [OF compiled_safe(1-3) [OF assms(1,2)]] compiled_typed [OF assms] derived_table [OF assms(1,2)]
  obtain x where x: "x \<in> set (ep_instructions plan)" "computed (ins_operation x)" "lowering_blocked x f" by fastforce
  then obtain e where "f = Err e" by (auto simp: lowering_blocked_def)
  with x Inl session_blocked.lowering [OF assms(1) x(1,2)] show ?thesis by auto
qed simp

text \<open>With an empty pipeline the session lowers the execution plan itself.\<close>

lemma session_pipeline:
  assumes "compile g = Inr plan" and "length (graph_nodes g) \<le> u32_range"
  shows "lower_plan plan (external_table g) = fail e \<Longrightarrow>
      compile_execution_plan [] plan = fail (PipelineLowering (IrLowering e))"
  and "lower_plan plan (external_table g) = Inr lp \<Longrightarrow> \<exists>prog. compile_execution_plan [] plan = Inr prog \<and> ct_lowered prog = lp"
proof -
  from empty_pipeline_agrees [OF assms] derived_table [OF assms] obtain ir where
    pipe: "compile_execution_plan [] plan = map_err (\<lambda>e. PipelineLowering (IrLowering e))
        (try_bind (lower_plan plan (external_table g)) (\<lambda>lowered.
           Inr \<lparr>ct_compiler_ir = ir, ct_pass_stats = \<lparr>pm_passes_run = 0, pm_passes_changed = 0\<rparr>,
                ct_memory = ep_memory plan, ct_lowered = lowered\<rparr>))" by auto
  show "lower_plan plan (external_table g) = fail e \<Longrightarrow>
      compile_execution_plan [] plan = fail (PipelineLowering (IrLowering e))"
    by (simp add: pipe)
  show "lower_plan plan (external_table g) = Inr lp \<Longrightarrow> \<exists>prog. compile_execution_plan [] plan = Inr prog \<and> ct_lowered prog = lp"
    by (simp add: pipe)
qed

lemma session_prepare_lowered:
  assumes "compile g = Inr plan" and "length (graph_nodes g) \<le> u32_range" and "lower_plan plan (external_table g) = Inr lp"
  shows "session_prepare B g constants s =
        act_bind (act_lift (session_resolve_bindings g lp)) (\<lambda>resolved.
        act_bind (act_lift (resolve_constants g resolved constants)) (\<lambda>(payloads, constant_bindings).
        act_bind (act_map_err PlanPreparation (prepare_with_external_types B lp (rb_external_types resolved))) (\<lambda>prepared.
        act_bind (act_lift (check_prepared_externals prepared resolved)) (\<lambda>_.
        act_bind (act_lift (session_resolve_outputs g prepared)) (\<lambda>outputs.
        act_return
          \<lparr>gs_runtime = B, gs_prepared = prepared, gs_inputs = rb_inputs resolved,
           gs_input_bindings = rb_input_bindings resolved, gs_input_lengths = rb_input_lengths resolved,
           gs_constants = rb_constants resolved, gs_constant_bindings = constant_bindings, gs_payloads = payloads,
           gs_outputs = outputs\<rparr>))))) s"
  using session_pipeline(2) [OF assms] assms(1)
  by (auto simp: session_prepare_def session_prepare_with_pipeline_def act_bind_lift Let_def)

lemma session_prepare_decided:
  fixes B :: "('s, 'b, 'k, 't, 'v, 'e) backend"
  assumes small: "length (graph_nodes g) \<le> u32_range" and valid: "validate_semantics g = Inr ()"
  shows "case session_prepare B g constants s of
      (s', Inl f) \<Rightarrow> s' = s \<and> session_stops g constants f \<or>
        (\<exists>plan lp. compile g = Inr plan \<and> lower_plan plan (external_table g) = Inr lp \<and>
          act_map_err PlanPreparation (prepare_with_external_types B lp (table_types g)) s = (s', Inl f))
    | (s', Inr ses) \<Rightarrow> \<exists>plan lp p st. compile g = Inr plan \<and> lower_plan plan (external_table g) = Inr lp \<and>
          prepare_with_external_types B lp (table_types g) s = (s', Inr p) \<and> prepared_constants g constants st \<and>
          ses = session_of B g p st"
proof (cases "compile g")
  case (Inl f)
  with compile_no_panic [OF small Inl] show ?thesis
    by (auto simp: session_prepare_def session_prepare_with_pipeline_def act_bind_lift intro: session_blocked.compilation)
next
  case (Inr plan)
  let ?bs = "external_table g"
  note pipe = session_pipeline [OF Inr small]
  show ?thesis
  proof (cases "lower_plan plan ?bs")
    case (Inl f)
    with lowered_table [OF Inr small valid, where ?'e = 'e and constants = constants] \<open>compile g = Inr plan\<close> show ?thesis
      by (auto simp: session_prepare_def session_prepare_with_pipeline_def act_bind_lift dest!: pipe(1))
  next
    case lower: (Inr lp)
    have table: "(session_resolve_bindings g lp :: ('e session_prep_error, _) outcome) =
        try_fold (resolve_binding g) (resolved_of g []) (enumerate 0 ?bs)"
      by (rule session_resolve_table [OF lower_plan_outputs(2) [OF lower]])
    note resolved = session_resolve_decided [OF external_table_honest [OF small], where ?'e = 'e and constants = constants]
    note constants = resolve_constants_decided [OF external_table_honest [OF small], where ?'e = 'e and constants = constants]
    have types: "rb_external_types (resolved_of g ?bs) = table_types g" by (simp add: resolved_of_def table_types_def)
    note unfolded = session_prepare_lowered [OF Inr small lower, where B = B and constants = constants and s = s]
    show ?thesis
    proof (cases "session_resolve_bindings g lp :: ('e session_prep_error, _) outcome")
      case (Inl f)
      then have "session_stops g constants f" using resolved unfolding table [symmetric] by simp
      with Inl show ?thesis by (simp add: unfolded act_bind_lift)
    next
      case r: (Inr r)
      then have r': "r = resolved_of g ?bs" "externals_ok g ?bs" using resolved unfolding table [symmetric] by simp_all
      show ?thesis
      proof (cases "resolve_constants g (resolved_of g ?bs) constants :: ('e session_prep_error, _) outcome")
        case (Inl f)
        with constants r r' show ?thesis by (simp add: unfolded act_bind_lift)
      next
        case c: (Inr st)
        with constants r'(2) have st: "prepared_constants g constants st" by (simp add: prepared_constants_def)
        obtain payloads prepared where pair: "st = (payloads, prepared)" by (cases st)
        obtain s1 q where q: "prepare_with_external_types B lp (table_types g) s = (s1, q)" by (cases "prepare_with_external_types B lp (table_types g) s")
        show ?thesis
        proof (cases q)
          case (Inl f)
          obtain f' where f': "map_err PlanPreparation (Inl f :: ('e prep_error, 'k prepared_plan) outcome) = Inl f'" by (cases f) simp_all
          with q Inl have failed: "act_map_err PlanPreparation (prepare_with_external_types B lp (table_types g)) s = (s1, Inl f')"
            by (simp add: act_map_err_def)
          then have "session_prepare B g constants s = (s1, Inl f')"
            using r r' c pair types by (simp add: unfolded act_bind_lift) (simp add: act_bind_def)
          with failed Inr lower show ?thesis by auto
        next
          case p: (Inr p)
          with q have prep: "prepare_with_external_types B lp (table_types g) s = (s1, Inr p)" by simp
          have plan: "(check_prepared_externals p (resolved_of g ?bs) :: ('e session_prep_error, _) outcome) = Inr ()"
            "(session_resolve_outputs g p :: ('e session_prep_error, _) outcome) =
              Inr (map (\<lambda>n. \<lparr>go_node = n, go_tensor_type = type_of (graph_nodes g) n\<rparr>) (graph_outputs g))"
            by (rule prepared_session [OF Inr small valid lower prep])+
          have "session_prepare B g constants s = (s1, Inr (session_of B g p st))"
            using r r' c q pair p types plan
            by (simp add: unfolded act_bind_lift act_bind_def act_lift_def act_map_err_def act_return_def session_of_def Let_def)
          with q p st lower Inr pair show ?thesis by auto
        qed
      qed
    qed
  qed
qed

section \<open>The inputs of an execution\<close>

definition required_inputs :: "graph \<Rightarrow> node_id set" where
  "required_inputs g = {n. survives g n \<and> (\<exists>name. node_operation (graph_nodes g ! n) = Input name)}"

definition inputs_fit :: "graph \<Rightarrow> graph_inputs \<Rightarrow> bool" where
  "inputs_fit g inputs \<longleftrightarrow> distinct (map fst inputs) \<and> fst ` set inputs = required_inputs g \<and>
     (\<forall>(n, v) \<in> set inputs. length v = node_elements g n)"

inductive inputs_refused :: "graph \<Rightarrow> graph_inputs \<Rightarrow> 'e session_exec_error \<Rightarrow> bool" for g inputs where
  unexpected: "n \<in> fst ` set inputs \<Longrightarrow> n \<notin> required_inputs g \<Longrightarrow> inputs_refused g inputs (SessionUnexpectedInput n)"
| duplicate: "1 < length (filter (\<lambda>(m, _). m = n) inputs) \<Longrightarrow> inputs_refused g inputs (SessionDuplicateInput n)"
| missing: "n \<in> required_inputs g \<Longrightarrow> n \<notin> fst ` set inputs \<Longrightarrow> inputs_refused g inputs (SessionMissingInput n)"
| wrong_length: "(n, v) \<in> set inputs \<Longrightarrow> length v \<noteq> node_elements g n \<Longrightarrow>
    inputs_refused g inputs (InputLengthMismatch n (node_elements g n) (length v))"

abbreviation inputs_stop :: "graph \<Rightarrow> graph_inputs \<Rightarrow> 'e session_exec_error failure \<Rightarrow> bool" where
  "inputs_stop g inputs f \<equiv> \<exists>e. f = Err e \<and> inputs_refused g inputs e"

lemma table_entries_nodes:
  "map (binding_node (external_table g)) (entries_of kind (external_table g)) =
     filter (\<lambda>n. kind_of (node_operation (graph_nodes g ! n)) = Some kind) (needed_list g)"
proof -
  have "map (binding_node bs) (entries_of kind bs) = map eb_node (filter (\<lambda>e. eb_kind e = kind) bs)" for bs
  proof (induction bs rule: rev_induct)
    case (snoc e bs)
    have "map (binding_node (bs @ [e])) (entries_of kind bs) = map (binding_node bs) (entries_of kind bs)"
      by (rule map_cong) (auto simp: entries_of_set nth_append)
    then show ?case by (simp add: entries_of_snoc snoc.IH)
  qed simp
  moreover have "map eb_node (filter (\<lambda>e. eb_kind e = kind)
      (List.map_filter (\<lambda>n. map_option (\<lambda>kind. \<lparr>eb_node = n, eb_kind = kind\<rparr>) (f n)) ns)) = filter (\<lambda>n. f n = Some kind) ns" for f ns
    by (induction ns) (auto simp: List.map_filter_simps split: option.split)
  ultimately show ?thesis unfolding external_table_def by simp
qed

lemma table_externals:
  assumes "wf_graph g"
  shows "(\<exists>b \<in> set (entries_of kind (external_table g)). binding_node (external_table g) b = n) \<longleftrightarrow>
    survives g n \<and> kind_of (node_operation (graph_nodes g ! n)) = Some kind"
proof
  let ?bs = "external_table g"
  assume "\<exists>b \<in> set (entries_of kind ?bs). binding_node ?bs b = n"
  then obtain b where b: "b < length ?bs" "eb_kind (?bs ! b) = kind" "binding_node ?bs b = n" by (auto simp: entries_of_set)
  then have "?bs ! b \<in> set ?bs" by simp
  then have "binding_node ?bs b \<in> set (needed_list g)" "kind_of (node_operation (graph_nodes g ! binding_node ?bs b)) = Some kind"
    using b(2) by (auto simp: external_table_def List.map_filter_def)
  with b(3) show "survives g n \<and> kind_of (node_operation (graph_nodes g ! n)) = Some kind" by (auto simp: needed_list_def)
next
  let ?bs = "external_table g"
  assume n: "survives g n \<and> kind_of (node_operation (graph_nodes g ! n)) = Some kind"
  then have "n \<in> set (needed_list g)" using needed_less [OF assms] by (simp add: needed_list_def)
  with n have "\<lparr>eb_node = n, eb_kind = kind\<rparr> \<in> set ?bs" unfolding external_table_def List.map_filter_def by force
  then obtain b where "b < length ?bs" "?bs ! b = \<lparr>eb_node = n, eb_kind = kind\<rparr>" by (auto simp: in_set_conv_nth)
  then show "\<exists>b \<in> set (entries_of kind ?bs). binding_node ?bs b = n" by (auto simp: entries_of_set intro!: bexI [of _ b])
qed

lemma required_nodes:
  "wf_graph g \<Longrightarrow> required_inputs g = binding_node (external_table g) ` set (entries_of InputKind (external_table g))"
proof -
  assume wf: "wf_graph g"
  have "n \<in> required_inputs g \<longleftrightarrow> (\<exists>b \<in> set (entries_of InputKind (external_table g)). binding_node (external_table g) b = n)" for n
    unfolding table_externals [OF wf] by (simp add: required_inputs_def kind_of_cases)
  then show ?thesis by (auto simp: image_iff)
qed

lemma honest_distinct:
  assumes "table_honest g bs"
  shows "inj_on (binding_node bs) (set (entries_of kind bs))"
proof (rule inj_onI)
  fix a b assume "a \<in> set (entries_of kind bs)" "b \<in> set (entries_of kind bs)" "binding_node bs a = binding_node bs b"
  then have "map eb_node bs ! a = map eb_node bs ! b" "a < length bs" "b < length bs" by (simp_all add: entries_of_set)
  then show "a = b" using assms by (simp add: table_honest_def distinct_conv_nth) metis
qed

text \<open>Values placed in one slot per specification, by key: the order of the values does not matter.\<close>

lemma slots_filled:
  fixes step :: "'v option list \<Rightarrow> 'k \<times> 'v \<Rightarrow> ('e, 'v option list) outcome" and key :: "'s \<Rightarrow> 'k"
  assumes distinct: "distinct (map key specs)"
    and step: "\<And>slots n v. length slots = length specs \<Longrightarrow> step slots (n, v) =
      (case find_position (\<lambda>spec. key spec = n) specs of
         None \<Rightarrow> fail (unexpected n)
       | Some k \<Rightarrow> if slots ! k \<noteq> None then fail (duplicate n) else Inr (slots[k := Some v]))"
  shows "decided
    (\<lambda>f. (\<exists>n \<in> fst ` set inputs. n \<notin> key ` set specs \<and> f = Err (unexpected n)) \<or>
       (\<exists>n. 1 < length (filter (\<lambda>(m, _). m = n) inputs) \<and> f = Err (duplicate n)))
    (\<lambda>slots. slots = map (\<lambda>spec. map_of inputs (key spec)) specs \<and> distinct (map fst inputs) \<and>
       fst ` set inputs \<subseteq> key ` set specs)
    (try_fold step (replicate (length specs) None) inputs)" (is "decided ?stop _ _")
proof -
  let ?P = "\<lambda>i slots. slots = map (\<lambda>spec. map_of (take i inputs) (key spec)) specs \<and>
      distinct (map fst (take i inputs)) \<and> fst ` set (take i inputs) \<subseteq> key ` set specs"
  have "decided ?stop (?P (length inputs)) (try_fold step (replicate (length specs) None) inputs)"
  proof (rule decided_try_fold [where P = ?P])
    show "?P 0 (replicate (length specs) None)" by (simp add: map_replicate_const)
  next
    fix i slots assume i: "i < length inputs" and P: "?P i slots"
    obtain n v where nv: "inputs ! i = (n, v)" by (cases "inputs ! i")
    have mem: "n \<in> fst ` set inputs" using i nv by (metis fst_conv image_eqI nth_mem)
    have snoc: "take (Suc i) inputs = take i inputs @ [(n, v)]" using i nv by (simp add: take_Suc_conv_app_nth)
    have "length slots = length specs" using P by simp
    note run = step [OF this, of n v, folded nv]
    show "decided ?stop (?P (Suc i)) (step slots (inputs ! i))"
    proof (cases "find_position (\<lambda>spec. key spec = n) specs")
      case None
      then have "n \<notin> key ` set specs" using find_position_None [OF None] by auto
      with None mem show ?thesis by (auto simp: run)
    next
      case (Some k)
      then have k: "k < length specs" "key (specs ! k) = n" using find_position_Some by blast+
      then have req: "n \<in> key ` set specs" by (metis imageI nth_mem)
      have slot: "slots ! k = map_of (take i inputs) n" using P k by simp
      show ?thesis
      proof (cases "n \<in> fst ` set (take i inputs)")
        case True
        then obtain w where w: "(n, w) \<in> set (take i inputs)" by auto
        then have "filter (\<lambda>(m, _). m = n) (take i inputs) \<noteq> []" by (auto simp: filter_empty_conv)
        then have "0 < length (filter (\<lambda>(m, _). m = n) (take i inputs))" by simp
        moreover have "inputs = take i inputs @ (n, v) # drop (Suc i) inputs" using i nv by (metis id_take_nth_drop)
        then have "filter (\<lambda>(m, _). m = n) inputs = filter (\<lambda>(m, _). m = n) (take i inputs) @ (n, v) # filter (\<lambda>(m, _). m = n) (drop (Suc i) inputs)"
          by (metis (mono_tags, lifting) case_prod_conv filter.simps(2) filter_append)
        ultimately have "1 < length (filter (\<lambda>(m, _). m = n) inputs)" by simp
        moreover have "map_of (take i inputs) n \<noteq> None" using True by (simp add: map_of_eq_None_iff)
        ultimately show ?thesis using Some slot by (auto simp: run)
      next
        case False
        then have free: "map_of (take i inputs) n = None" by (simp add: map_of_eq_None_iff)
        have "slots[k := Some v] = map (\<lambda>spec. map_of (take (Suc i) inputs) (key spec)) specs"
        proof (rule nth_equalityI)
          fix j assume "j < length (slots[k := Some v])"
          then have j: "j < length specs" using P by simp
          then have "key (specs ! j) = n \<longleftrightarrow> j = k"
            using k distinct by (auto simp: distinct_conv_nth)
          with j k free P show "slots[k := Some v] ! j = map (\<lambda>spec. map_of (take (Suc i) inputs) (key spec)) specs ! j"
            by (cases "j = k") (auto simp: snoc map_add_def split: option.split)
        qed (use P in simp)
        moreover have "step slots (inputs ! i) = Inr (slots[k := Some v])" using Some slot free by (simp add: run)
        ultimately show ?thesis using False P req by (simp add: snoc)
      qed
    qed
  qed
  then show ?thesis by simp
qed

lemma place_inputs_decided:
  assumes distinct: "distinct (map gi_node specs)" and nodes: "gi_node ` set specs = required_inputs g"
  shows "decided (inputs_stop g inputs) (\<lambda>slots. slots = map (\<lambda>spec. map_of inputs (gi_node spec)) specs \<and>
      distinct (map fst inputs) \<and> fst ` set inputs \<subseteq> required_inputs g)
    (try_fold (place_input specs) (replicate (length specs) None) inputs :: ('e session_exec_error, _) outcome)"
proof -
  have step: "place_input specs slots (n, v) =
      (case find_position (\<lambda>spec. gi_node spec = n) specs of
         None \<Rightarrow> (fail (SessionUnexpectedInput n) :: ('e session_exec_error, _) outcome)
       | Some k \<Rightarrow> if slots ! k \<noteq> None then fail (SessionDuplicateInput n) else Inr (slots[k := Some v]))"
    if "length slots = length specs" for slots n v
    using that find_position_Some [of "\<lambda>spec. gi_node spec = n" specs]
    by (auto simp: place_input_def get_def split: option.splits)
  show ?thesis
    by (rule decided_weaken [OF slots_filled [OF distinct step, unfolded nodes]]) (auto intro: inputs_refused.intros inputs_refused.duplicate [unfolded One_nat_def])
qed

definition supplied_input :: "graph \<Rightarrow> graph_inputs \<Rightarrow> binding_id \<Rightarrow> element list" where
  "supplied_input g inputs b = the (map_of inputs (binding_node (external_table g) b))"

definition supplied_constant :: "graph \<Rightarrow> graph_constants \<Rightarrow> binding_id \<Rightarrow> element list" where
  "supplied_constant g constants b =
     the (map_of constants (constant_of (node_operation (graph_nodes g ! binding_node (external_table g) b))))"

lemma session_inputs_decided:
  assumes wf: "wf_graph g" and small: "length (graph_nodes g) \<le> u32_range"
  shows "decided (inputs_stop g inputs)
    (\<lambda>vs. inputs_fit g inputs \<and> vs = map (supplied_input g inputs) (entries_of InputKind (external_table g)))
    (session_resolve_inputs (session_of B g p st) inputs :: ('e session_exec_error, _) outcome)"
proof -
  let ?bs = "external_table g" and ?es = "entries_of InputKind (external_table g)"
  let ?specs = "map (input_spec_of g ?bs) ?es"
  have specs: "gs_inputs (session_of B g p st) = ?specs" "gs_input_lengths (session_of B g p st) = map (\<lambda>b. node_elements g (binding_node ?bs b)) ?es"
    by (simp_all add: session_of_def resolved_of_def Let_def)
  have node: "gi_node (input_spec_of g ?bs b) = binding_node ?bs b" for b by (simp add: input_spec_of_def)
  have nodes: "gi_node ` set ?specs = required_inputs g" using required_nodes [OF wf] by (simp add: image_image node)
  have distinct: "distinct (map gi_node ?specs)"
    using honest_distinct [OF external_table_honest [OF small]] by (simp add: comp_def node distinct_map)
  note placed = place_inputs_decided [OF distinct nodes, where inputs = inputs and ?'e = 'e]
  have "decided (inputs_stop g inputs)
      (\<lambda>vs. inputs_fit g inputs \<and> vs = map (supplied_input g inputs) ?es)
      (traverse resolve_input (zip (zip ?specs (map (\<lambda>b. node_elements g (binding_node ?bs b)) ?es)) slots) :: ('e session_exec_error, _) outcome)"
    if slots: "slots = map (\<lambda>spec. map_of inputs (gi_node spec)) ?specs" and dist: "distinct (map fst inputs)"
      and sub: "fst ` set inputs \<subseteq> required_inputs g" for slots
  proof -
    let ?zip = "zip (zip ?specs (map (\<lambda>b. node_elements g (binding_node ?bs b)) ?es)) slots"
    have len: "length ?zip = length ?es" by (simp add: slots)
    have "decided (inputs_stop g inputs) (\<lambda>v. v = supplied_input g inputs (?es ! i) \<and>
        map_of inputs (binding_node ?bs (?es ! i)) = Some (supplied_input g inputs (?es ! i)) \<and>
        length (supplied_input g inputs (?es ! i)) = node_elements g (binding_node ?bs (?es ! i)))
      (resolve_input (?zip ! i) :: ('e session_exec_error, _) outcome)" if i: "i < length ?zip" for i
    proof -
      let ?n = "binding_node ?bs (?es ! i)"
      have at: "?zip ! i = ((input_spec_of g ?bs (?es ! i), node_elements g ?n), map_of inputs ?n)"
        using i len by (simp add: slots node)
      have "?es ! i \<in> set ?es" using i len by simp
      then have req: "?n \<in> required_inputs g" using required_nodes [OF wf] by blast
      show ?thesis
      proof (cases "map_of inputs ?n")
        case None
        then have "?n \<notin> fst ` set inputs" by (simp add: map_of_eq_None_iff)
        with req None show ?thesis by (auto simp: at resolve_input_def node intro: inputs_refused.missing)
      next
        case (Some v)
        with inputs_refused.wrong_length [OF map_of_SomeD [OF Some]] show ?thesis
          by (auto simp: at resolve_input_def node supplied_input_def)
      qed
    qed
    from decided_traverse [where g = "\<lambda>i. supplied_input g inputs (?es ! i)" and
        R = "\<lambda>i. map_of inputs (binding_node ?bs (?es ! i)) = Some (supplied_input g inputs (?es ! i)) \<and>
          length (supplied_input g inputs (?es ! i)) = node_elements g (binding_node ?bs (?es ! i))",
        OF this]
    have "decided (inputs_stop g inputs) (\<lambda>vs. vs = map (\<lambda>i. supplied_input g inputs (?es ! i)) [0..<length ?es] \<and>
        (\<forall>i < length ?es. map_of inputs (binding_node ?bs (?es ! i)) = Some (supplied_input g inputs (?es ! i)) \<and>
          length (supplied_input g inputs (?es ! i)) = node_elements g (binding_node ?bs (?es ! i))))
      (traverse resolve_input ?zip :: ('e session_exec_error, _) outcome)"
      unfolding len by simp
    then show ?thesis
    proof (rule decided_mono)
      fix vs assume vs: "vs = map (\<lambda>i. supplied_input g inputs (?es ! i)) [0..<length ?es] \<and>
        (\<forall>i < length ?es. map_of inputs (binding_node ?bs (?es ! i)) = Some (supplied_input g inputs (?es ! i)) \<and>
          length (supplied_input g inputs (?es ! i)) = node_elements g (binding_node ?bs (?es ! i)))"
      then have all: "map_of inputs (binding_node ?bs b) = Some (supplied_input g inputs b)"
          "length (supplied_input g inputs b) = node_elements g (binding_node ?bs b)" if "b \<in> set ?es" for b
        using that by (auto simp: in_set_conv_nth)
      have "required_inputs g \<subseteq> fst ` set inputs"
        using all(1) required_nodes [OF wf] by (force dest: map_of_SomeD)
      moreover have "length v = node_elements g n" if nv: "(n, v) \<in> set inputs" for n v
      proof -
        have "n \<in> required_inputs g" using nv sub by force
        then obtain b where b: "b \<in> set ?es" "n = binding_node ?bs b" using required_nodes [OF wf] by auto
        moreover have "map_of inputs n = Some v" using nv dist by simp
        ultimately show ?thesis using all by fastforce
      qed
      ultimately have "inputs_fit g inputs" using dist sub by (auto simp: inputs_fit_def)
      moreover have "map (\<lambda>i. supplied_input g inputs (?es ! i)) [0..<length ?es] = map (supplied_input g inputs) ?es"
        by (intro nth_equalityI) simp_all
      ultimately show "inputs_fit g inputs \<and> vs = map (supplied_input g inputs) ?es" using vs by simp
    qed
  qed
  with placed show ?thesis
    by (auto simp: session_resolve_inputs_def specs elim!: decided_mono)
qed

section \<open>The values of an execution\<close>

definition session_entries :: "graph \<Rightarrow> graph_constants \<Rightarrow> graph_inputs \<Rightarrow> external_entries" where
  "session_entries g constants inputs =
     map (\<lambda>b. (b, supplied_input g inputs b)) (entries_of InputKind (external_table g)) @
     map (\<lambda>b. (b, supplied_constant g constants b)) (entries_of ConstantKind (external_table g))"

text \<open>The value of an external node: the payload of its identifier, or the input supplied for it.\<close>

definition session_values :: "graph \<Rightarrow> graph_constants \<Rightarrow> graph_inputs \<Rightarrow> node_id \<Rightarrow> element list" where
  "session_values g constants inputs n =
     (case node_operation (graph_nodes g ! n) of
        Constant c \<Rightarrow> the (map_of constants c)
      | _ \<Rightarrow> the (map_of inputs n))"

lemma try_fold_appends:
  "(\<And>x acc. x \<in> set xs \<Longrightarrow> f acc x = Inr (acc @ [h x])) \<Longrightarrow> try_fold f acc xs = Inr (acc @ map h xs)"
  by (induction xs arbitrary: acc) simp_all

lemma injected_constants:
  assumes "payloads_ok constants cbs (payloads, prepared)"
  shows "try_fold (inject_constant payloads) entries prepared =
    Inr (entries @ map (\<lambda>cb. (cb_binding cb, the (map_of constants (cb_constant cb)))) cbs)"
proof -
  note ok = assms [unfolded payloads_ok_def prod.case]
  let ?h = "\<lambda>entry. (pc_binding entry, cp_values (payloads ! pc_payload_index entry))"
  have "inject_constant payloads acc entry = Inr (acc @ [?h entry])" if "entry \<in> set prepared" for acc entry
    using that ok by (auto simp: in_set_conv_nth inject_constant_def)
  then have "try_fold (inject_constant payloads) entries prepared = Inr (entries @ map ?h prepared)"
    by (rule try_fold_appends)
  moreover have "map ?h prepared = map (\<lambda>cb. (cb_binding cb, the (map_of constants (cb_constant cb)))) cbs"
  proof (rule nth_equalityI)
    fix j assume "j < length (map ?h prepared)"
    then have j: "j < length cbs" "j < length prepared" using ok by simp_all
    let ?p = "payloads ! pc_payload_index (prepared ! j)"
    have "?p \<in> set payloads" using ok j by simp
    then have "map_of constants (cp_constant ?p) = Some (cp_values ?p)" using ok by blast
    with ok j show "map ?h prepared ! j = map (\<lambda>cb. (cb_binding cb, the (map_of constants (cb_constant cb)))) cbs ! j" by simp
  qed (use ok in simp)
  ultimately show ?thesis by simp
qed

lemma session_entries_agree:
  assumes "length (graph_nodes g) \<le> u32_range"
  shows "\<forall>(b, v) \<in> set (session_entries g constants inputs).
    session_values g constants inputs (binding_node (external_table g) b) = v"
proof -
  note honest = honest_entry(3) [OF external_table_honest [OF assms]]
  have "session_values g constants inputs (binding_node (external_table g) b) = supplied_input g inputs b"
    if "b \<in> set (entries_of InputKind (external_table g))" for b
    using honest [of b] that by (auto simp: entries_of_set kind_of_cases session_values_def supplied_input_def)
  moreover have "session_values g constants inputs (binding_node (external_table g) b) = supplied_constant g constants b"
    if "b \<in> set (entries_of ConstantKind (external_table g))" for b
    using honest [of b] that by (auto simp: entries_of_set kind_of_cases session_values_def supplied_constant_def constant_of_def)
  ultimately show ?thesis by (auto simp: session_entries_def)
qed

lemma session_entries_accepted:
  assumes fit: "inputs_fit g inputs" and constants: "constants_accepted g (external_table g) constants"
    and wf: "wf_graph g" and bytes: "\<And>b. b < length (external_table g) \<Longrightarrow> bytes b = 4 * node_elements g (binding_node (external_table g) b)"
  shows "supply_accepted (length (external_table g)) bytes (session_entries g constants inputs)"
proof -
  let ?bs = "external_table g"
  have nodes: "map fst (session_entries g constants inputs) = entries_of InputKind ?bs @ entries_of ConstantKind ?bs"
    by (simp add: session_entries_def comp_def)
  have kinds: "kind \<noteq> ConstantKind \<longleftrightarrow> kind = InputKind" for kind
    by (cases kind) simp_all
  have keys: "distinct (entries_of InputKind ?bs @ entries_of ConstantKind ?bs)"
    "set (entries_of InputKind ?bs @ entries_of ConstantKind ?bs) = {..<length ?bs}"
    by (auto simp: entries_of_set kinds)
  have "length (supplied_input g inputs b) = node_elements g (binding_node ?bs b)" if b: "b \<in> set (entries_of InputKind ?bs)" for b
  proof -
    have "binding_node ?bs b \<in> required_inputs g" using b required_nodes [OF wf] by blast
    then have "binding_node ?bs b \<in> fst ` set inputs" using fit by (simp add: inputs_fit_def)
    then obtain v where v: "(binding_node ?bs b, v) \<in> set inputs" by auto
    moreover have "map_of inputs (binding_node ?bs b) = Some v" using v fit by (simp add: inputs_fit_def)
    ultimately show ?thesis using fit by (auto simp: inputs_fit_def supplied_input_def)
  qed
  moreover have "length (supplied_constant g constants b) = node_elements g (binding_node ?bs b)" if "b \<in> set (entries_of ConstantKind ?bs)" for b
    using that constants by (fastforce simp: constants_accepted_def supplied_constant_def)
  ultimately have "\<forall>(b, v) \<in> set (session_entries g constants inputs). b < length ?bs \<and> length v = node_elements g (binding_node ?bs b)"
    by (auto simp: session_entries_def entries_of_set)
  then have "\<forall>(b, v) \<in> set (session_entries g constants inputs). length v = bytes b div 4" using bytes by fastforce
  with keys show ?thesis unfolding supply_accepted_def nodes by (simp flip: nodes set_map)
qed

lemma session_execute_decided:
  fixes B :: "('s, 'b, 'k, 't, 'v, 'e) backend"
  assumes wf: "wf_graph g" and small: "length (graph_nodes g) \<le> u32_range" and constants: "prepared_constants g constants st"
  shows "if inputs_fit g inputs
    then session_execute (session_of B g p st) inputs s =
      act_map_err PlanExecution (runtime_execute B p (session_entries g constants inputs)) s
    else \<exists>e. session_execute (session_of B g p st) inputs s = (s, fail e) \<and> inputs_refused g inputs e"
proof -
  let ?bs = "external_table g" and ?ses = "session_of B g p st"
  have decided: "decided (inputs_stop g inputs)
    (\<lambda>vs. inputs_fit g inputs \<and> vs = map (supplied_input g inputs) (entries_of InputKind ?bs))
    (session_resolve_inputs ?ses inputs :: ('e session_exec_error, _) outcome)"
    by (rule session_inputs_decided [OF wf small])
  obtain payloads prepared where st: "st = (payloads, prepared)" by (cases st)
  have cbs: "rb_constant_bindings (resolved_of g ?bs) = map (constant_binding_of g ?bs) (entries_of ConstantKind ?bs)"
    by (simp add: resolved_of_def)
  have session: "gs_input_bindings ?ses = entries_of InputKind ?bs" "gs_payloads ?ses = payloads" "gs_constant_bindings ?ses = prepared"
    "gs_input_lengths ?ses = map (\<lambda>b. node_elements g (binding_node ?bs b)) (entries_of InputKind ?bs)"
    "gs_runtime ?ses = B" "gs_prepared ?ses = p"
    by (simp_all add: session_of_def Let_def resolved_of_def st)
  have entries: "map (\<lambda>((binding, v), _). (binding, v)) (zip (zip es (map F es)) (map G es)) = map (\<lambda>b. (b, F b)) es"
    for es :: "binding_id list" and F :: "binding_id \<Rightarrow> element list" and G :: "binding_id \<Rightarrow> usize"
    by (induction es) simp_all
  have inject: "(try_fold (inject_constant payloads) acc prepared :: ('e session_exec_error, _) outcome) =
      Inr (acc @ map (\<lambda>b. (b, supplied_constant g constants b)) (entries_of ConstantKind ?bs))" for acc
  proof -
    have "payloads_ok constants (rb_constant_bindings (resolved_of g ?bs)) (payloads, prepared)"
      using constants by (simp add: prepared_constants_def st)
    from injected_constants [OF this, of acc] show ?thesis
      unfolding cbs by (simp add: comp_def constant_binding_of_def supplied_constant_def)
  qed
  show ?thesis
  proof (cases "session_resolve_inputs ?ses inputs :: ('e session_exec_error, _) outcome")
    case (Inl f)
    with decided obtain e where f: "f = Err e" "inputs_refused g inputs e" by auto
    have "\<not> inputs_fit g inputs"
    proof
      assume fit: "inputs_fit g inputs"
      from f(2) show False
      proof cases
        case (duplicate n)
        have "length (filter (\<lambda>(m, _). m = n) inputs) \<le> 1"
          using fit at_most_once [of inputs n] by (simp add: inputs_fit_def)
        with duplicate show False by simp
      qed (use fit in \<open>auto simp: inputs_fit_def\<close>)
    qed
    with Inl f show ?thesis by (auto simp: session_execute_def act_bind_lift)
  next
    case (Inr vs)
    with decided have "inputs_fit g inputs" "vs = map (supplied_input g inputs) (entries_of InputKind ?bs)" by simp_all
    with Inr show ?thesis
      by (simp add: session_execute_def act_bind_lift session entries inject session_entries_def)
  qed
qed

end
