(* ===== verification/Graph_Builder.thy ===== *)
theory Graph_Builder
  imports Graph_Verify
begin

text \<open>
  Functions that build a graph through \<open>&mut Graph\<close>: \<open>vmap.rs\<close> and \<open>autodiff.rs\<close> share this
  state-passing style. A builder takes the graph under construction and returns a value with
  the graph it left, or a failure. The second half is a small program logic for builders: a
  builder only appends nodes, keeps the graph valid and well-typed, stays within a node
  budget, and fails only when the 32-bit identifier space is exhausted. The logic is stated for any
  invariant of the graph (\<open>runs\<close>); \<open>builds\<close> is its instance for well-typed graphs, \<open>sound\<close> that for
  structurally valid ones.
\<close>

type_synonym ('e, 'a) builder = "graph \<Rightarrow> ('e, 'a \<times> graph) outcome"

definition gb_return :: "'a \<Rightarrow> ('e, 'a) builder" where
  "gb_return x = (\<lambda>g. Inr (x, g))"

definition gb_bind :: "('e, 'a) builder \<Rightarrow> ('a \<Rightarrow> ('e, 'b) builder) \<Rightarrow> ('e, 'b) builder" where
  "gb_bind m f = (\<lambda>g. try_bind (m g) (\<lambda>(x, g'). f x g'))"

text \<open>A fallible expression that does not touch the graph.\<close>

definition gb_try :: "('e, 'a) outcome \<Rightarrow> ('a \<Rightarrow> ('e, 'b) builder) \<Rightarrow> ('e, 'b) builder" where
  "gb_try r f = (\<lambda>g. try_bind r (\<lambda>x. f x g))"

text \<open>\<open>graph.add_node(operation, inputs, output)?\<close>, with the error converted by \<open>From\<close>.\<close>

definition emit ::
  "(graph_error \<Rightarrow> 'e) \<Rightarrow> operation \<Rightarrow> node_id list \<Rightarrow> tensor_type \<Rightarrow> ('e, node_id) builder" where
  "emit wrap oper ins out =
     (\<lambda>g. try_bind (map_err wrap (add_node g oper ins out)) (\<lambda>(g', i). Inr (i, g')))"

text \<open>A loop whose body is a builder.\<close>

fun gb_fold :: "('s \<Rightarrow> 'a \<Rightarrow> ('e, 's) builder) \<Rightarrow> 's \<Rightarrow> 'a list \<Rightarrow> ('e, 's) builder" where
  "gb_fold f s [] = gb_return s"
| "gb_fold f s (x # xs) = gb_bind (f s x) (\<lambda>s'. gb_fold f s' xs)"

section \<open>What a builder may assume and must keep\<close>

definition good :: "graph \<Rightarrow> bool" where
  "good g \<longleftrightarrow> nodes_ok (graph_nodes g) \<and> typed_graph g \<and> length (graph_nodes g) \<le> u32_range"

text \<open>The same without the types: the graph is valid, its nodes may be ill-typed.\<close>

definition sound :: "graph \<Rightarrow> bool" where
  "sound g \<longleftrightarrow> nodes_ok (graph_nodes g) \<and> length (graph_nodes g) \<le> u32_range"

definition extends :: "graph \<Rightarrow> graph \<Rightarrow> bool" where
  "extends g g' \<longleftrightarrow> (\<exists>xs. graph_nodes g' = graph_nodes g @ xs)"

definition has_type :: "graph \<Rightarrow> node_id \<Rightarrow> tensor_type \<Rightarrow> bool" where
  "has_type g i ty \<longleftrightarrow> i < length (graph_nodes g) \<and> type_of (graph_nodes g) i = ty"

lemma extends_refl [simp, intro]: "extends g g"
  by (simp add: extends_def)

lemma extends_trans [trans]: "extends g g' \<Longrightarrow> extends g' g'' \<Longrightarrow> extends g g''"
  by (auto simp: extends_def)

lemma extends_length: "extends g g' \<Longrightarrow> length (graph_nodes g) \<le> length (graph_nodes g')"
  by (auto simp: extends_def)

lemma extends_nth:
  "extends g g' \<Longrightarrow> i < length (graph_nodes g) \<Longrightarrow> graph_nodes g' ! i = graph_nodes g ! i"
  by (auto simp: extends_def nth_append)

lemma has_type_extends: "has_type g i ty \<Longrightarrow> extends g g' \<Longrightarrow> has_type g' i ty"
  using extends_length [of g g'] by (auto simp: has_type_def type_of_def extends_nth)

text \<open>
  Total correctness with a budget, for an invariant of graphs: from a graph of the invariant, \<open>m\<close>
  appends at most \<open>n\<close> nodes, keeps the invariant and establishes \<open>Q\<close>; it fails only with \<open>cap\<close> and
  only when the budget does not fit. \<open>builds\<close> is the contract for well-typed graphs.
\<close>

definition runs ::
  "(graph \<Rightarrow> bool) \<Rightarrow> 'e failure \<Rightarrow> nat \<Rightarrow> graph \<Rightarrow> ('e, 'a) builder \<Rightarrow> ('a \<Rightarrow> graph \<Rightarrow> bool) \<Rightarrow> bool"
where
  "runs I cap n g m Q \<longleftrightarrow> (I g \<longrightarrow>
     (case m g of
        Inl f \<Rightarrow> f = cap \<and> u32_range < length (graph_nodes g) + n
      | Inr (x, g') \<Rightarrow> I g' \<and> extends g g' \<and>
          length (graph_nodes g') \<le> length (graph_nodes g) + n \<and> Q x g'))"

abbreviation builds ::
  "'e failure \<Rightarrow> nat \<Rightarrow> graph \<Rightarrow> ('e, 'a) builder \<Rightarrow> ('a \<Rightarrow> graph \<Rightarrow> bool) \<Rightarrow> bool" where
  "builds \<equiv> runs good"

lemmas builds_def = runs_def [of good]

lemma builds_return: "Q x g \<Longrightarrow> runs I cap n g (gb_return x) Q"
  by (simp add: runs_def gb_return_def)

lemma builds_bind:
  assumes "runs I cap n g m R"
    and "\<And>x g'. extends g g' \<Longrightarrow> R x g' \<Longrightarrow> runs I cap k g' (f x) Q"
  shows "runs I cap (n + k) g (gb_bind m f) Q"
proof (cases "I g")
  case True
  show ?thesis
  proof (cases "m g")
    case (Inl e)
    with assms(1) True show ?thesis by (simp add: runs_def gb_bind_def)
  next
    case (Inr r)
    then obtain x g' where mg: "m g = Inr (x, g')" by (cases r) simp
    with assms(1) True have g': "I g'" "extends g g'" "R x g'"
      "length (graph_nodes g') \<le> length (graph_nodes g) + n"
      by (auto simp: runs_def)
    with assms(2) have next_ok: "runs I cap k g' (f x) Q" by blast
    show ?thesis
    proof (cases "f x g'")
      case (Inl e)
      with next_ok g' mg show ?thesis by (simp add: runs_def gb_bind_def)
    next
      case (Inr r')
      then obtain y g'' where "f x g' = Inr (y, g'')" by (cases r') simp
      with next_ok g' mg show ?thesis
        by (auto simp: runs_def gb_bind_def intro: extends_trans)
    qed
  qed
qed (simp add: runs_def)

lemma builds_try:
  "r = Inr x \<Longrightarrow> runs I cap n g (f x) Q \<Longrightarrow> runs I cap n g (gb_try r f) Q"
  by (simp add: runs_def gb_try_def)

lemma builds_weaken:
  "runs I cap n g m Q \<Longrightarrow> n \<le> k \<Longrightarrow> (\<And>x g'. extends g g' \<Longrightarrow> Q x g' \<Longrightarrow> R x g') \<Longrightarrow> runs I cap k g m R"
  by (auto simp: runs_def split: sum.splits)

lemma op_typed_arity: "op_typed oper tys out \<Longrightarrow> length tys = expected_arity oper"
  by (cases oper) auto

lemma builds_emit_node:
  assumes ins: "list_all2 (has_type g) ins tys" and ty: "op_typed oper tys out"
    and Q: "\<And>g'. extends g g' \<Longrightarrow> has_type g' (length (graph_nodes g)) out \<Longrightarrow>
        graph_nodes g' = graph_nodes g @ [\<lparr>node_operation = oper, node_inputs = ins, node_output = out\<rparr>] \<Longrightarrow>
        Q (length (graph_nodes g)) g'"
    and n: "1 \<le> n"
  shows "builds (Err (wrap TooManyNodes)) n g (emit wrap oper ins out) Q"
proof (cases "good g")
  case True
  let ?n = "\<lparr>node_operation = oper, node_inputs = ins, node_output = out\<rparr>"
  let ?g' = "g\<lparr>graph_nodes := graph_nodes g @ [?n]\<rparr>"
  have ok: "node_ok (length (graph_nodes g)) ?n"
    using ins ty by (fastforce simp: node_ok_def op_typed_arity list_all2_conv_all_nth
        in_set_conv_nth has_type_def)
  have arity: "length ins = expected_arity oper" and lt: "\<forall>k \<in> set ins. k < length (graph_nodes g)"
    using ok by (auto simp: node_ok_def)
  have "map (type_of (graph_nodes g)) ins = tys"
    using ins by (intro nth_equalityI) (auto simp: list_all2_conv_all_nth has_type_def)
  then have typed: "node_typed (graph_nodes g) ?n" using ty by (simp add: node_typed_def)
  show ?thesis
  proof (cases "length (graph_nodes g) < u32_range")
    case small: True
    then have add: "add_node g oper ins out = Inr (?g', length (graph_nodes g))"
      using arity lt by (simp add: add_node_Inr)
    have "good ?g'"
      using True ok small typed_graph_snoc [OF _ _ ok typed] by (simp add: good_def nodes_ok_snoc)
    moreover have "extends g ?g'" by (simp add: extends_def)
    moreover have "has_type ?g' (length (graph_nodes g)) out"
      by (simp add: has_type_def type_of_def)
    ultimately show ?thesis using Q n by (simp add: builds_def emit_def add)
  next
    case False
    have "check_inputs (length (graph_nodes g)) ins = Inr ()" using lt by simp
    with False arity have "add_node g oper ins out = fail TooManyNodes"
      by (simp add: add_node_def u32_try_from_def del: check_inputs_Inr)
    then show ?thesis using False n True by (simp add: builds_def emit_def)
  qed
qed (simp add: builds_def)

lemma builds_emit:
  assumes "list_all2 (has_type g) ins tys" and "op_typed oper tys out"
    and "\<And>g'. extends g g' \<Longrightarrow> has_type g' (length (graph_nodes g)) out \<Longrightarrow> Q (length (graph_nodes g)) g'"
    and "1 \<le> n"
  shows "builds (Err (wrap TooManyNodes)) n g (emit wrap oper ins out) Q"
  by (rule builds_emit_node [OF assms(1,2) _ assms(4)]) (rule assms(3))

text \<open>On graphs whose nodes may be ill-typed, an emission only needs existing operands and the arity.\<close>

lemma runs_emit:
  assumes ins: "\<forall>k \<in> set ins. k < length (graph_nodes g)" and arity: "length ins = expected_arity oper"
    and Q: "Q (length (graph_nodes g)) (g\<lparr>graph_nodes := graph_nodes g @
          [\<lparr>node_operation = oper, node_inputs = ins, node_output = out\<rparr>]\<rparr>)"
  shows "runs sound (Err (wrap TooManyNodes)) 1 g (emit wrap oper ins out) Q"
proof -
  let ?n = "\<lparr>node_operation = oper, node_inputs = ins, node_output = out\<rparr>"
  have ok: "node_ok (length (graph_nodes g)) ?n" using ins arity by (simp add: node_ok_def)
  show ?thesis
  proof (cases "length (graph_nodes g) < u32_range")
    case True
    then have "add_node g oper ins out =
        Inr (g\<lparr>graph_nodes := graph_nodes g @ [?n]\<rparr>, length (graph_nodes g))"
      using arity ins by (simp add: add_node_Inr)
    with Q True ok show ?thesis
      by (simp add: runs_def emit_def sound_def nodes_ok_snoc extends_def)
  next
    case False
    have "check_inputs (length (graph_nodes g)) ins = Inr ()" using ins by simp
    with False arity have "add_node g oper ins out = fail TooManyNodes"
      by (simp add: add_node_def u32_try_from_def del: check_inputs_Inr)
    then show ?thesis using False by (simp add: runs_def emit_def)
  qed
qed

text \<open>A loop: an invariant over the elements consumed, with a budget per iteration.\<close>

lemma builds_fold:
  assumes "P 0 s g"
    and "\<And>i s g'. i < length xs \<Longrightarrow> extends g g' \<Longrightarrow> P i s g' \<Longrightarrow>
           runs I cap n g' (f s (xs ! i)) (\<lambda>s' g''. P (Suc i) s' g'')"
  shows "runs I cap (n * length xs) g (gb_fold f s xs) (P (length xs))"
proof -
  have "runs I cap (n * length ys) g' (gb_fold f s ys) (P (length xs))"
    if "xs = zs @ ys" "extends g g'" "P (length zs) s g'" for zs ys s g'
    using that
  proof (induction ys arbitrary: zs s g')
    case Nil
    then show ?case by (simp add: builds_return)
  next
    case (Cons y ys)
    have "runs I cap n g' (f s y) (\<lambda>s' g''. P (Suc (length zs)) s' g'')"
      using assms(2) [of "length zs" g' s] Cons.prems by (simp add: nth_append)
    moreover have "runs I cap (n * length ys) g'' (gb_fold f s' ys) (P (length xs))"
      if "extends g' g''" "P (Suc (length zs)) s' g''" for s' g''
      using Cons.IH [of "zs @ [y]" g'' s'] Cons.prems(1,2) that by (auto intro: extends_trans)
    ultimately have "runs I cap (n + n * length ys) g'
        (gb_bind (f s y) (\<lambda>s'. gb_fold f s' ys)) (P (length xs))"
      by (rule builds_bind)
    then show ?case by (simp add: algebra_simps)
  qed
  from this [of "[]" xs g s] assms(1) show ?thesis by simp
qed

text \<open>Normal form of a builder: a straight line of \<open>emit\<close>s.\<close>

lemma gb_try_Inr [simp]: "gb_try (Inr x) f = f x"
  by (simp add: gb_try_def)

lemma gb_bind_return [simp]: "gb_bind (gb_return x) f = f x"
  by (simp add: gb_bind_def gb_return_def)

lemma gb_bind_try [simp]: "gb_bind (gb_try r f) h = gb_try r (\<lambda>x. gb_bind (f x) h)"
  by (cases r) (auto simp: gb_bind_def gb_try_def)

lemma gb_bind_assoc [simp]: "gb_bind (gb_bind m f) h = gb_bind m (\<lambda>x. gb_bind (f x) h)"
  by (auto simp: gb_bind_def try_bind_def fun_eq_iff split: sum.split)

end
