(* ===== verification/Canonical_Build.thy ===== *)
theory Canonical_Build
  imports Canonical_Program Session_Correct Graph_Builder "HOL-Library.Multiset"
begin

text \<open>
  Building a canonical program. Every sequence of calls of the builder leaves a program whose graph is
  valid and typed, whose shapes are the shapes of its nodes, and whose inputs and constants are the
  external nodes of its graph; a refused call leaves the program as it was.
\<close>

section \<open>The layout helpers\<close>

lemma canonical_elements_eq: "canonical_elements sh = shape_product sh"
  by (simp add: canonical_elements_def shape_product_def)

lemma canonical_elements_Some: "canonical_elements sh = Some n \<longleftrightarrow> checked_num_elements sh = Inr n"
  by (simp add: canonical_elements_eq shape_product_checked)

lemma canonical_elements_None: "canonical_elements sh = None \<longleftrightarrow> (\<forall>n. checked_num_elements sh \<noteq> Inr n)"
  by (simp add: canonical_elements_eq shape_product_None)

lemma canonical_strides_eq: "canonical_strides sh = compute_strides sh"
proof (cases "length sh \<le> 1")
  case True
  then show ?thesis by (simp add: canonical_strides_def compute_strides_def Let_def)
next
  case False
  then obtain n where n: "length sh = Suc n" "0 < n" by (cases "length sh") auto
  have step: "canonical_stride_step sh strides i =
      (case checked_mul (strides ! Suc i) (sh ! Suc i) of Some v \<Rightarrow> Inr (strides[i := v]) | None \<Rightarrow> fail ())"
    if "i < n" "length strides = Suc n" for i strides
    using that n by (simp add: canonical_stride_step_def checked_mul_def)
  have "canonical_strides sh = try_fold (canonical_stride_step sh) (replicate (Suc n) 1) (rev [0..<n])"
    using n by (simp add: canonical_strides_def Let_def del: replicate_Suc)
  also have "\<dots> = (case contiguous (drop 0 sh) of Inr s \<Rightarrow> Inr (replicate 0 1 @ s) | Inl _ \<Rightarrow> fail ())"
    by (rule nd_stride_loop [OF _ n(1) step]) simp
  finally show ?thesis by (simp only: drop_0 replicate_0 append_Nil compute_strides_eq)
qed

lemma dense_layout_decided:
  "decided (\<lambda>f. \<not> nd_ok t \<and>
      f = Err (if (\<exists>n. checked_num_elements (nd_shape t) = Inr n) \<and> (\<exists>s. contiguous (nd_shape t) = Inr s) then NotDense else LayoutOverflow))
    (\<lambda>_. nd_ok t) (dense_layout t)"
proof (cases "canonical_elements (nd_shape t)")
  case None
  then have "\<not> nd_ok t" "\<nexists>n. checked_num_elements (nd_shape t) = Inr n" by (auto simp: nd_ok_def canonical_elements_None)
  with None show ?thesis by (simp add: dense_layout_def)
next
  case (Some n)
  then have n: "checked_num_elements (nd_shape t) = Inr n" by (simp add: canonical_elements_Some)
  show ?thesis
  proof (cases "contiguous (nd_shape t)")
    case (Inl f)
    then have "\<not> nd_ok t" by (simp add: nd_ok_def)
    with Some Inl n show ?thesis by (simp add: dense_layout_def canonical_strides_eq compute_strides_eq)
  next
    case (Inr s)
    with Some n show ?thesis by (auto simp: dense_layout_def canonical_strides_eq compute_strides_eq nd_ok_def)
  qed
qed

lemma dense_layout_Inr: "dense_layout t = Inr u \<longleftrightarrow> nd_ok t"
  using dense_layout_decided [of t] by (cases "dense_layout t") auto

section \<open>Calls\<close>

datatype canonical_call =
    CallInput string shape
  | CallConstant tensor_nd
  | CallAdd canonical_value canonical_value
  | CallSub canonical_value canonical_value
  | CallMul canonical_value canonical_value
  | CallDiv canonical_value canonical_value
  | CallRelu canonical_value
  | CallScale canonical_value f32
  | CallReshape canonical_value shape
  | CallPermute canonical_value "usize list"
  | CallOutputs "canonical_value list"

fun perform :: "canonical_call \<Rightarrow> canonical_value option build" where
  "perform (CallInput name sh) = act_bind (program_input name sh) (\<lambda>input. act_return (Some (input_value input)))"
| "perform (CallConstant t) = act_bind (program_constant t) (\<lambda>v. act_return (Some v))"
| "perform (CallAdd lhs rhs) = act_bind (program_add lhs rhs) (\<lambda>v. act_return (Some v))"
| "perform (CallSub lhs rhs) = act_bind (program_sub lhs rhs) (\<lambda>v. act_return (Some v))"
| "perform (CallMul lhs rhs) = act_bind (program_mul lhs rhs) (\<lambda>v. act_return (Some v))"
| "perform (CallDiv lhs rhs) = act_bind (program_div lhs rhs) (\<lambda>v. act_return (Some v))"
| "perform (CallRelu v) = act_bind (program_relu v) (\<lambda>v. act_return (Some v))"
| "perform (CallScale v factor) = act_bind (program_scale v factor) (\<lambda>v. act_return (Some v))"
| "perform (CallReshape v target) = act_bind (program_reshape v target) (\<lambda>v. act_return (Some v))"
| "perform (CallPermute v permutation) = act_bind (program_permute v permutation) (\<lambda>v. act_return (Some v))"
| "perform (CallOutputs vs) = act_bind (program_set_outputs vs) (\<lambda>_. act_return None)"

text \<open>The programs a caller can reach, refused calls included.\<close>

inductive built :: "canonical_program \<Rightarrow> bool" where
  new: "built program_new"
| step: "built p \<Longrightarrow> built (fst (perform c p))"

section \<open>What a call does\<close>

abbreviation program_nodes :: "canonical_program \<Rightarrow> node list" where
  "program_nodes p \<equiv> graph_nodes (pg_graph p)"

abbreviation program_size :: "canonical_program \<Rightarrow> nat" where
  "program_size p \<equiv> length (program_nodes p)"

definition extend :: "canonical_program \<Rightarrow> operation \<Rightarrow> node_id list \<Rightarrow> shape \<Rightarrow> canonical_program" where
  "extend p oper ins sh =
     p\<lparr>pg_graph := (pg_graph p)\<lparr>graph_nodes := program_nodes p @
          [\<lparr>node_operation = oper, node_inputs = ins, node_output = f32_tensor sh\<rparr>]\<rparr>,
       pg_shapes := pg_shapes p @ [sh]\<rparr>"

lemma extend_simps [simp]:
  "program_nodes (extend p oper ins sh) =
    program_nodes p @ [\<lparr>node_operation = oper, node_inputs = ins, node_output = f32_tensor sh\<rparr>]"
  "graph_outputs (pg_graph (extend p oper ins sh)) = graph_outputs (pg_graph p)"
  "pg_shapes (extend p oper ins sh) = pg_shapes p @ [sh]"
  "pg_inputs (extend p oper ins sh) = pg_inputs p"
  "pg_constants (extend p oper ins sh) = pg_constants p"
  "pg_outputs (extend p oper ins sh) = pg_outputs p"
  by (simp_all add: extend_def)

abbreviation value_shape :: "canonical_program \<Rightarrow> canonical_value \<Rightarrow> shape" where
  "value_shape p v \<equiv> pg_shapes p ! value_node v"

fun call_operands :: "canonical_call \<Rightarrow> canonical_value list" where
  "call_operands (CallInput name sh) = []"
| "call_operands (CallConstant t) = []"
| "call_operands (CallAdd lhs rhs) = [lhs, rhs]"
| "call_operands (CallSub lhs rhs) = [lhs, rhs]"
| "call_operands (CallMul lhs rhs) = [lhs, rhs]"
| "call_operands (CallDiv lhs rhs) = [lhs, rhs]"
| "call_operands (CallRelu v) = [v]"
| "call_operands (CallScale v factor) = [v]"
| "call_operands (CallReshape v target) = [v]"
| "call_operands (CallPermute v permutation) = [v]"
| "call_operands (CallOutputs vs) = vs"

fun call_effect :: "canonical_call \<Rightarrow> canonical_program \<Rightarrow> canonical_program" where
  "call_effect (CallInput name sh) p =
     (extend p (Input name) [] sh)\<lparr>pg_inputs := pg_inputs p @ [\<lparr>di_input = CanonicalInput (program_size p), di_name = name\<rparr>]\<rparr>"
| "call_effect (CallConstant t) p =
     (extend p (Constant (length (pg_constants p))) [] (nd_shape t))\<lparr>pg_constants := pg_constants p @ [t]\<rparr>"
| "call_effect (CallAdd lhs rhs) p = extend p Add [value_node lhs, value_node rhs] (value_shape p lhs)"
| "call_effect (CallSub lhs rhs) p = extend p Sub [value_node lhs, value_node rhs] (value_shape p lhs)"
| "call_effect (CallMul lhs rhs) p = extend p Mul [value_node lhs, value_node rhs] (value_shape p lhs)"
| "call_effect (CallDiv lhs rhs) p = extend p Div [value_node lhs, value_node rhs] (value_shape p lhs)"
| "call_effect (CallRelu v) p = extend p Relu [value_node v] (value_shape p v)"
| "call_effect (CallScale v factor) p = extend p (Scale (scalar_f32 factor)) [value_node v] (value_shape p v)"
| "call_effect (CallReshape v target) p = extend p (Reshape target) [value_node v] target"
| "call_effect (CallPermute v permutation) p =
     extend p (Transpose permutation) [value_node v] (map ((!) (value_shape p v)) permutation)"
| "call_effect (CallOutputs vs) p = p\<lparr>pg_outputs := vs\<rparr>"

definition call_value :: "canonical_call \<Rightarrow> canonical_program \<Rightarrow> canonical_value option" where
  "call_value c p = (case c of CallOutputs vs \<Rightarrow> None | _ \<Rightarrow> Some (CanonicalValue (program_size p)))"

abbreviation countable :: "shape \<Rightarrow> bool" where
  "countable sh \<equiv> \<exists>n. checked_num_elements sh = Inr n"

inductive call_refused :: "canonical_program \<Rightarrow> canonical_call \<Rightarrow> build_error \<Rightarrow> bool" for p where
  foreign: "v \<in> set (call_operands c) \<Longrightarrow> program_size p \<le> value_node v \<Longrightarrow> call_refused p c (ForeignValue v)"
| name: "name \<in> di_name ` set (pg_inputs p) \<Longrightarrow> call_refused p (CallInput name sh) (DuplicateInputName name)"
| input_size: "\<not> countable sh \<Longrightarrow> call_refused p (CallInput name sh) (BuildShapeOverflow sh)"
| constant_size: "\<not> (countable (nd_shape t) \<and> (\<exists>s. contiguous (nd_shape t) = Inr s)) \<Longrightarrow>
    call_refused p (CallConstant t) (BuildShapeOverflow (nd_shape t))"
| constant_layout: "\<not> nd_ok t \<Longrightarrow> countable (nd_shape t) \<Longrightarrow> contiguous (nd_shape t) = Inr s \<Longrightarrow>
    call_refused p (CallConstant t) (NonContiguousTensor (nd_shape t) (length (nd_data t)))"
| shapes: "c \<in> {CallAdd lhs rhs, CallSub lhs rhs, CallMul lhs rhs, CallDiv lhs rhs} \<Longrightarrow> value_shape p lhs \<noteq> value_shape p rhs \<Longrightarrow>
    call_refused p c (BuildShapeMismatch (value_shape p lhs) (value_shape p rhs))"
| source_size: "\<not> countable (value_shape p v) \<Longrightarrow> call_refused p (CallReshape v target) (BuildShapeOverflow (value_shape p v))"
| target_size: "\<not> countable target \<Longrightarrow> call_refused p (CallReshape v target) (BuildShapeOverflow target)"
| elements: "prod_list (value_shape p v) \<noteq> prod_list target \<Longrightarrow>
    call_refused p (CallReshape v target) (ElementCountMismatch (prod_list (value_shape p v)) (prod_list target))"
| permutation: "\<not> (length permutation = length (value_shape p v) \<and> is_permutation permutation) \<Longrightarrow>
    call_refused p (CallPermute v permutation) (BuildInvalidPermutation permutation (length (value_shape p v)))"
| no_outputs: "call_refused p (CallOutputs []) BuildNoOutputs"
| full: "u32_range \<le> program_size p \<Longrightarrow> (\<forall>vs. c \<noteq> CallOutputs vs) \<Longrightarrow> call_refused p c (GraphConstruction TooManyNodes)"

section \<open>Reachable programs\<close>

fun offered :: "operation \<Rightarrow> bool" where
  "offered (Input _) = True"
| "offered (Constant _) = True"
| "offered Add = True"
| "offered Sub = True"
| "offered Mul = True"
| "offered Div = True"
| "offered Relu = True"
| "offered (Scale factor) \<longleftrightarrow> unat (sc_bits factor) < u32_range"
| "offered (Reshape _) = True"
| "offered (Transpose _) = True"
| "offered _ = False"

definition nodes_offered :: "node list \<Rightarrow> bool" where
  "nodes_offered ns \<longleftrightarrow> (\<forall>n \<in> set ns. offered (node_operation n) \<and> ty_dtype (node_output n) = F32 \<and>
     prod_list (ty_shape (node_output n)) \<le> usize_max \<and>
     (\<not> computed (node_operation n) \<longrightarrow> countable (ty_shape (node_output n))))"

definition inputs_declared :: "node list \<Rightarrow> declared_input list \<Rightarrow> bool" where
  "inputs_declared ns ds \<longleftrightarrow> distinct (map di_name ds) \<and> distinct (map di_input ds) \<and>
     (\<forall>d \<in> set ds. input_node (di_input d) < length ns \<and> node_operation (ns ! input_node (di_input d)) = Input (di_name d)) \<and>
     (\<forall>i < length ns. \<forall>name. node_operation (ns ! i) = Input name \<longrightarrow> \<lparr>di_input = CanonicalInput i, di_name = name\<rparr> \<in> set ds)"

definition constants_kept :: "node list \<Rightarrow> tensor_nd list \<Rightarrow> bool" where
  "constants_kept ns ts \<longleftrightarrow> (\<forall>t \<in> set ts. nd_ok t) \<and>
     (\<forall>c < length ts. \<exists>n \<in> set ns. node_operation n = Constant c) \<and>
     (\<forall>n \<in> set ns. \<forall>c. node_operation n = Constant c \<longrightarrow> c < length ts \<and> ty_shape (node_output n) = nd_shape (ts ! c))"

definition program_ok :: "canonical_program \<Rightarrow> bool" where
  "program_ok p \<longleftrightarrow> good (pg_graph p) \<and> graph_outputs (pg_graph p) = [] \<and>
     pg_shapes p = map (\<lambda>n. ty_shape (node_output n)) (program_nodes p) \<and>
     nodes_offered (program_nodes p) \<and> inputs_declared (program_nodes p) (pg_inputs p) \<and>
     constants_kept (program_nodes p) (pg_constants p) \<and> (\<forall>v \<in> set (pg_outputs p). value_node v < program_size p)"

lemma new_ok: "program_ok program_new"
  by (simp add: program_ok_def program_new_def graph_new_def good_def nodes_ok_def typed_graph_def nodes_offered_def
      inputs_declared_def constants_kept_def)

lemma nodes_offered_snoc:
  "nodes_offered (ns @ [n]) \<longleftrightarrow> nodes_offered ns \<and> nodes_offered [n]"
  by (auto simp: nodes_offered_def)

lemma inputs_declared_computed:
  assumes "inputs_declared ns ds" and "\<forall>name. node_operation n \<noteq> Input name"
  shows "inputs_declared (ns @ [n]) ds"
  using assms by (auto simp: inputs_declared_def nth_append less_Suc_eq)

lemma inputs_declared_input:
  assumes "inputs_declared ns ds" and "node_operation n = Input name" and "name \<notin> di_name ` set ds"
  shows "inputs_declared (ns @ [n]) (ds @ [\<lparr>di_input = CanonicalInput (length ns), di_name = name\<rparr>])"
proof -
  have "di_input d \<noteq> CanonicalInput (length ns)" if "d \<in> set ds" for d
    using assms(1) that by (auto simp: inputs_declared_def)
  with assms show ?thesis by (fastforce simp: inputs_declared_def nth_append less_Suc_eq)
qed

lemma constants_kept_other:
  assumes "constants_kept ns ts" and "\<forall>c. node_operation n \<noteq> Constant c"
  shows "constants_kept (ns @ [n]) ts"
  using assms by (auto simp: constants_kept_def)

lemma constants_kept_constant:
  assumes "constants_kept ns ts" and "node_operation n = Constant (length ts)" and "ty_shape (node_output n) = nd_shape t" and "nd_ok t"
  shows "constants_kept (ns @ [n]) (ts @ [t])"
  using assms by (fastforce simp: constants_kept_def nth_append less_Suc_eq)

section \<open>Each call preserves the invariant\<close>

lemma good_snoc:
  assumes "good g" and "node_ok (length (graph_nodes g)) n" and "node_typed (graph_nodes g) n" and "length (graph_nodes g) < u32_range"
  shows "good (g\<lparr>graph_nodes := graph_nodes g @ [n]\<rparr>)"
  using assms typed_graph_snoc [of g n] by (simp add: good_def nodes_ok_snoc)

text \<open>A node that fits the graph: what \<open>extend\<close> needs.\<close>

definition node_fits :: "canonical_program \<Rightarrow> operation \<Rightarrow> node_id list \<Rightarrow> shape \<Rightarrow> bool" where
  "node_fits p oper ins sh \<longleftrightarrow> (\<forall>k \<in> set ins. k < program_size p) \<and>
     op_typed oper (map (\<lambda>k. f32_tensor (pg_shapes p ! k)) ins) (f32_tensor sh) \<and> offered oper \<and> prod_list sh \<le> usize_max \<and>
     (\<not> computed oper \<longrightarrow> countable sh)"

lemma node_shape:
  assumes "program_ok p" and "k < program_size p"
  shows "type_of (program_nodes p) k = f32_tensor (pg_shapes p ! k)"
proof -
  have "ty_dtype (node_output (program_nodes p ! k)) = F32"
    using assms by (simp add: program_ok_def nodes_offered_def)
  with assms show ?thesis by (simp add: program_ok_def type_of_def f32_tensor_def tensor_type_new_def)
qed

lemma extend_parts:
  assumes ok: "program_ok p" and fits: "node_fits p oper ins sh" and small: "program_size p < u32_range"
  defines "q \<equiv> extend p oper ins sh"
  shows "good (pg_graph q)" "graph_outputs (pg_graph q) = []"
    "pg_shapes q = map (\<lambda>n. ty_shape (node_output n)) (program_nodes q)" "nodes_offered (program_nodes q)"
    "\<forall>v \<in> set (pg_outputs q). value_node v < program_size q"
proof -
  let ?n = "\<lparr>node_operation = oper, node_inputs = ins, node_output = f32_tensor sh\<rparr>"
  have types: "map (type_of (program_nodes p)) ins = map (\<lambda>k. f32_tensor (pg_shapes p ! k)) ins"
    using fits node_shape [OF ok] by (simp add: node_fits_def)
  have typed: "node_typed (program_nodes p) ?n"
    using fits by (simp add: node_typed_def types node_fits_def)
  have "length ins = expected_arity oper" using fits op_typed_arity by (fastforce simp: node_fits_def)
  then have "node_ok (program_size p) ?n" using fits by (simp add: node_ok_def node_fits_def)
  with good_snoc [OF _ this typed small] ok show "good (pg_graph q)" by (simp add: q_def extend_def program_ok_def)
  show "graph_outputs (pg_graph q) = []"
    "pg_shapes q = map (\<lambda>n. ty_shape (node_output n)) (program_nodes q)"
    "\<forall>v \<in> set (pg_outputs q). value_node v < program_size q"
    using ok by (auto simp: q_def program_ok_def f32_tensor_def tensor_type_new_def)
  show "nodes_offered (program_nodes q)"
    using ok fits by (auto simp: q_def program_ok_def nodes_offered_snoc nodes_offered_def node_fits_def f32_tensor_def tensor_type_new_def)
qed

lemma extend_ok:
  assumes "program_ok p" and "node_fits p oper ins sh" and "program_size p < u32_range" and "computed oper"
  shows "program_ok (extend p oper ins sh)"
proof -
  have other: "\<forall>name. oper \<noteq> Input name" "\<forall>c. oper \<noteq> Constant c" using assms(4) by (auto simp: computed_def)
  have "inputs_declared (program_nodes (extend p oper ins sh)) (pg_inputs p)"
    "constants_kept (program_nodes (extend p oper ins sh)) (pg_constants p)"
    using assms(1) other by (simp_all add: program_ok_def inputs_declared_computed constants_kept_other)
  with extend_parts [OF assms(1-3)] show ?thesis by (simp add: program_ok_def)
qed

lemma push_run:
  assumes "program_ok p" and "node_fits p oper ins sh"
  shows "program_push oper ins sh p =
    (if program_size p < u32_range then (extend p oper ins sh, Inr (CanonicalValue (program_size p)))
     else (p, fail (GraphConstruction TooManyNodes)))"
proof -
  have arity: "length ins = expected_arity oper" using assms(2) op_typed_arity by (fastforce simp: node_fits_def)
  have "check_inputs (program_size p) ins = Inr ()" using assms(2) by (simp add: node_fits_def)
  with arity show ?thesis
    by (simp add: program_push_def graph_call_def add_node_def act_bind_def act_return_def push_shape_def program_modify_def
        extend_def u32_try_from_def del: check_inputs_Inr)
qed

lemma shape_of_run: "program_ok p \<Longrightarrow> shape_of p v =
    (if value_node v < program_size p then Inr (value_shape p v) else fail (ForeignValue v))"
  by (simp add: shape_of_def program_ok_def get_def)

lemma act_read: "act_bind (program_read f) k p = (case f p of Inl e \<Rightarrow> (p, Inl e) | Inr x \<Rightarrow> k x p)"
  by (simp add: act_bind_def program_read_def)

lemma read_first:
  "act_bind (act_bind (program_read f) k) h p = (case f p of Inl e \<Rightarrow> (p, Inl e) | Inr x \<Rightarrow> act_bind (k x) h p)"
  by (simp add: act_bind_def program_read_def split: sum.split)

lemma act_lifted: "act_bind (act_lift r) k p = (case r of Inl e \<Rightarrow> (p, Inl e) | Inr x \<Rightarrow> k x p)"
  by (simp add: act_bind_def act_lift_def)

text \<open>The contract of a call at a program, and how the calls that push one node meet it.\<close>

definition call_contract :: "canonical_call \<Rightarrow> canonical_program \<Rightarrow> bool" where
  "call_contract c p \<longleftrightarrow> (case perform c p of
      (p', Inl f) \<Rightarrow> p' = p \<and> (\<exists>e. f = Err e \<and> call_refused p c e)
    | (p', Inr r) \<Rightarrow> p' = call_effect c p \<and> r = call_value c p \<and> (\<nexists>e. call_refused p c e) \<and> program_ok p')"

inductive_cases call_refusedE: "call_refused p c e"

lemma pushed_contract:
  assumes "program_ok p" and "node_fits p oper ins sh" and "computed oper"
    and "perform c p = act_bind (program_push oper ins sh) (\<lambda>v. act_return (Some v)) p"
    and "call_effect c p = extend p oper ins sh" and "\<forall>vs. c \<noteq> CallOutputs vs"
    and "\<And>e. call_refused p c e \<Longrightarrow> u32_range \<le> program_size p"
  shows "call_contract c p"
proof (cases "program_size p < u32_range")
  case True
  have "call_value c p = Some (CanonicalValue (program_size p))" using assms(6) by (simp add: call_value_def split: canonical_call.split)
  with True assms(5) extend_ok [OF assms(1,2) True assms(3)] assms(7) show ?thesis
    by (auto simp: call_contract_def assms(4) push_run [OF assms(1,2)] act_bind_def act_return_def)
next
  case False
  with assms(6) show ?thesis
    by (auto simp: call_contract_def assms(4) push_run [OF assms(1,2)] act_bind_def intro: call_refused.full)
qed

lemma binary_contract:
  assumes ok: "program_ok p" and c: "c \<in> {CallAdd lhs rhs, CallSub lhs rhs, CallMul lhs rhs, CallDiv lhs rhs}"
    and run: "perform c = (\<lambda>p. act_bind (program_binary oper lhs rhs) (\<lambda>v. act_return (Some v)) p)"
    and effect: "call_effect c p = extend p oper [value_node lhs, value_node rhs] (value_shape p lhs)"
    and oper: "oper \<in> {Add, Sub, Mul, Div}"
  shows "call_contract c p"
proof (cases "value_node lhs < program_size p \<and> value_node rhs < program_size p \<and> value_shape p lhs = value_shape p rhs")
  case True
  then have "prod_list (value_shape p lhs) \<le> usize_max" using ok by (simp add: program_ok_def nodes_offered_def)
  then have fits: "node_fits p oper [value_node lhs, value_node rhs] (value_shape p lhs)"
    using True oper by (auto simp: node_fits_def computed_def)
  show ?thesis
  proof (rule pushed_contract [OF ok fits])
    show "perform c p = act_bind (program_push oper [value_node lhs, value_node rhs] (value_shape p lhs)) (\<lambda>v. act_return (Some v)) p"
      using True by (simp add: run program_binary_def read_first shape_of_run [OF ok])
    show "u32_range \<le> program_size p" if "call_refused p c e" for e
      using that True c by cases auto
  qed (use c oper effect in \<open>auto simp: computed_def\<close>)
next
  case False
  have "perform c p = (p, fail (if program_size p \<le> value_node lhs then ForeignValue lhs
      else if program_size p \<le> value_node rhs then ForeignValue rhs else BuildShapeMismatch (value_shape p lhs) (value_shape p rhs)))"
    using False by (auto simp: run program_binary_def act_bind_def program_read_def act_lift_def shape_of_run [OF ok])
  moreover have "lhs \<in> set (call_operands c)" "rhs \<in> set (call_operands c)" using c by auto
  ultimately show ?thesis using False c by (auto simp: call_contract_def intro: call_refused.foreign call_refused.shapes)
qed

text \<open>One operand.\<close>

lemma unary_foreign:
  assumes "program_ok p" and "program_size p \<le> value_node v" and "v \<in> set (call_operands c)"
    and "perform c p = (case shape_of p v of Inl f \<Rightarrow> (p, Inl f) | Inr sh \<Rightarrow> k sh)"
  shows "call_contract c p"
  using assms by (auto simp: call_contract_def shape_of_run intro: call_refused.foreign)

lemma unary_contract:
  assumes ok: "program_ok p" and c: "c = CallRelu v \<or> c = CallScale v factor"
    and run: "perform c p = (case shape_of p v of Inl f \<Rightarrow> (p, Inl f)
        | Inr sh \<Rightarrow> act_bind (program_push oper [value_node v] sh) (\<lambda>v. act_return (Some v)) p)"
    and effect: "call_effect c p = extend p oper [value_node v] (value_shape p v)"
    and oper: "oper = Relu \<or> oper = Scale (scalar_f32 factor)"
  shows "call_contract c p"
proof (cases "value_node v < program_size p")
  case True
  then have "prod_list (value_shape p v) \<le> usize_max" using ok by (simp add: program_ok_def nodes_offered_def)
  moreover have "unat (ucast factor :: 64 word) \<le> unat factor" by (simp add: unsigned_ucast_eq take_bit_nat_less_eq_self)
  then have "unat (ucast factor :: 64 word) < u32_range" using unsigned_less [of factor, where ?'a = nat] by simp
  ultimately have fits: "node_fits p oper [value_node v] (value_shape p v)"
    using True oper by (auto simp: node_fits_def computed_def scalar_f32_def f32_tensor_def tensor_type_new_def)
  show ?thesis
  proof (rule pushed_contract [OF ok fits])
    show "u32_range \<le> program_size p" if "call_refused p c e" for e
      using that True c by cases auto
  qed (use c oper effect run True ok in \<open>auto simp: computed_def shape_of_run\<close>)
next
  case False
  then show ?thesis using c by (intro unary_foreign [OF ok _ _ run]) auto
qed

lemma reshape_contract:
  assumes ok: "program_ok p"
  shows "call_contract (CallReshape v target) p" (is "call_contract ?c p")
proof -
  let ?source = "value_shape p v"
  let ?k = "\<lambda>source. act_bind (act_bind (act_lift (ok_or (BuildShapeOverflow source) (canonical_elements source))) (\<lambda>source_elements.
     act_bind (act_lift (ok_or (BuildShapeOverflow target) (canonical_elements target))) (\<lambda>target_elements.
     if source_elements \<noteq> target_elements then act_lift (fail (ElementCountMismatch source_elements target_elements))
     else program_push (Reshape target) [value_node v] target))) (\<lambda>v. act_return (Some v)) p"
  have run: "perform ?c p = (case shape_of p v of Inl f \<Rightarrow> (p, Inl f) | Inr source \<Rightarrow> ?k source)"
    by (simp only: perform.simps program_reshape_def read_first)
  show ?thesis
  proof (cases "value_node v < program_size p")
    case False
    then show ?thesis by (intro unary_foreign [OF ok _ _ run]) simp_all
  next
    case True
    then have at: "perform ?c p = ?k ?source" by (simp only: run shape_of_run [OF ok] if_True sum.case)
    consider (source) "canonical_elements ?source = None" | (target) m where "canonical_elements ?source = Some m" "canonical_elements target = None"
      | (both) m n where "canonical_elements ?source = Some m" "canonical_elements target = Some n" by (cases "canonical_elements ?source"; cases "canonical_elements target") auto
    then show ?thesis
    proof cases
      case source
      then have "\<not> countable ?source" by (simp add: canonical_elements_None)
      with source show ?thesis unfolding call_contract_def at by (auto simp: act_bind_def act_lift_def intro: call_refused.source_size)
    next
      case target
      then have "\<not> countable target" by (simp add: canonical_elements_None)
      with target show ?thesis unfolding call_contract_def at by (auto simp: act_bind_def act_lift_def intro: call_refused.target_size)
    next
      case both
      then have count: "checked_num_elements ?source = Inr m" "checked_num_elements target = Inr n" by (simp_all add: canonical_elements_Some)
      then have mn: "m = prod_list ?source" "n = prod_list target" by (simp_all add: checked_num_elements_Inr)
      show ?thesis
      proof (cases "m = n")
        case False
        with both mn call_refused.elements [of p v target] show ?thesis unfolding call_contract_def at by (auto simp: act_bind_def act_lift_def)
      next
        case eq: True
        have "prod_list target \<le> usize_max" using checked_num_elements_le [OF count(2)] mn by simp
        then have fits: "node_fits p (Reshape target) [value_node v] target"
          using True count eq by (auto simp: node_fits_def computed_def f32_tensor_def tensor_type_new_def)
        show ?thesis
        proof (rule pushed_contract [OF ok fits])
          show "perform ?c p = act_bind (program_push (Reshape target) [value_node v] target) (\<lambda>v. act_return (Some v)) p"
            unfolding at using both eq by (simp add: act_bind_def act_lift_def)
          show "u32_range \<le> program_size p" if "call_refused p ?c e" for e
            using that True count mn eq by cases auto
        qed (simp_all add: computed_def)
      qed
    qed
  qed
qed

text \<open>The loop of the sorted axes accepts exactly the permutations.\<close>

lemma sorted_axes:
  "(\<exists>(axis, value) \<in> set (enumerate 0 (sort permutation)). value \<noteq> axis) \<longleftrightarrow> \<not> is_permutation permutation"
proof -
  have "(\<forall>(axis, value) \<in> set (enumerate 0 (sort permutation)). value = axis) \<longleftrightarrow> (\<forall>i < length (sort permutation). sort permutation ! i = i)"
    by (simp only: ball_enumerate0 prod.case)
  also have "\<dots> \<longleftrightarrow> sort permutation = [0..<length permutation]"
    using nth_equalityI [of "sort permutation" "[0..<length permutation]"] by (metis add_0 diff_zero length_sort length_upt nth_upt)
  finally have "(\<forall>(axis, value) \<in> set (enumerate 0 (sort permutation)). value = axis) \<longleftrightarrow> sort permutation = [0..<length permutation]" .
  moreover have "sort permutation = [0..<length permutation] \<longleftrightarrow> is_permutation permutation" by (rule sort_permutation)
  ultimately show ?thesis by blast
qed

lemma permuted_product:
  assumes "is_permutation p" and "length p = length sh"
  shows "prod_list (map ((!) sh) p) = prod_list (sh :: nat list)"
proof -
  have "mset p = mset [0..<length sh]"
    using assms sort_permutation [of p] by (metis mset_sort)
  then have "mset (map ((!) sh) p) = mset (map ((!) sh) [0..<length sh])" by (metis mset_map)
  then have "mset (map ((!) sh) p) = mset sh" by (simp only: map_nth)
  then show ?thesis by (metis prod_mset_prod_list)
qed

lemma permute_contract:
  assumes ok: "program_ok p"
  shows "call_contract (CallPermute v permutation) p" (is "call_contract ?c p")
proof -
  let ?source = "value_shape p v"
  let ?k = "\<lambda>source. act_bind (let rank = length source in
     if length permutation \<noteq> rank then act_lift (fail (BuildInvalidPermutation permutation rank))
     else if \<exists>(axis, value) \<in> set (enumerate 0 (sort permutation)). value \<noteq> axis
     then act_lift (fail (BuildInvalidPermutation permutation rank))
     else
       act_bind (act_lift (traverse (\<lambda>axis. ok_or (BuildInvalidPermutation permutation rank) (get source axis)) permutation)) (\<lambda>target.
       program_push (Transpose permutation) [value_node v] target)) (\<lambda>v. act_return (Some v)) p"
  have run: "perform ?c p = (case shape_of p v of Inl f \<Rightarrow> (p, Inl f) | Inr source \<Rightarrow> ?k source)"
    by (simp only: perform.simps program_permute_def read_first)
  show ?thesis
  proof (cases "value_node v < program_size p")
    case False
    then show ?thesis by (intro unary_foreign [OF ok _ _ run]) simp_all
  next
    case True
    then have at: "perform ?c p = ?k ?source" by (simp only: run shape_of_run [OF ok] if_True sum.case)
    show ?thesis
    proof (cases "length permutation = length ?source \<and> is_permutation permutation")
      case False
      then show ?thesis unfolding call_contract_def at sorted_axes
        by (auto simp: act_bind_def act_lift_def Let_def intro: call_refused.permutation)
    next
      case perm: True
      let ?target = "map ((!) ?source) permutation"
      have target: "traverse (\<lambda>axis. ok_or (BuildInvalidPermutation permutation (length ?source)) (get ?source axis)) permutation = Inr ?target"
        using perm by (intro traverse_map) (auto simp: is_permutation_def get_def)
      have "prod_list ?target \<le> usize_max"
        using permuted_product [of permutation ?source] perm True ok by (simp add: program_ok_def nodes_offered_def)
      then have fits: "node_fits p (Transpose permutation) [value_node v] ?target"
        using True perm by (auto simp: node_fits_def computed_def f32_tensor_def tensor_type_new_def)
      show ?thesis
      proof (rule pushed_contract [OF ok fits])
        show "perform ?c p = act_bind (program_push (Transpose permutation) [value_node v] ?target) (\<lambda>v. act_return (Some v)) p"
          unfolding at sorted_axes using perm target by (simp add: act_bind_def act_lift_def)
        show "u32_range \<le> program_size p" if "call_refused p ?c e" for e
          using that True perm by cases auto
      qed (simp_all add: computed_def)
    qed
  qed
qed

lemma graph_call_fresh:
  assumes "expected_arity oper = 0"
  shows "graph_call (\<lambda>g. add_node g oper [] out) p =
    (if program_size p < u32_range
     then (p\<lparr>pg_graph := (pg_graph p)\<lparr>graph_nodes := program_nodes p @ [\<lparr>node_operation = oper, node_inputs = [], node_output = out\<rparr>]\<rparr>\<rparr>,
       Inr (program_size p))
     else (p, fail (GraphConstruction TooManyNodes)))"
  using assms by (simp add: graph_call_def add_node_def u32_try_from_def check_inputs_def)

lemma input_contract:
  assumes ok: "program_ok p"
  shows "call_contract (CallInput name sh) p" (is "call_contract ?c p")
proof -
  consider (name) "name \<in> di_name ` set (pg_inputs p)" | (size) "name \<notin> di_name ` set (pg_inputs p)" "\<not> countable sh"
    | (full) "name \<notin> di_name ` set (pg_inputs p)" "countable sh" "u32_range \<le> program_size p"
    | (fresh) "name \<notin> di_name ` set (pg_inputs p)" "countable sh" "program_size p < u32_range" using not_less by blast
  then show ?thesis
  proof cases
    case name
    then have "perform ?c p = (p, fail (DuplicateInputName name))"
      by (auto simp: program_input_def act_bind_def program_read_def require_def)
    with call_refused.name [OF name, of sh] show ?thesis by (auto simp: call_contract_def)
  next
    case size
    then have "canonical_elements sh = None" by (simp add: canonical_elements_None)
    with size have "perform ?c p = (p, fail (BuildShapeOverflow sh))"
      by (auto simp: program_input_def act_bind_def program_read_def act_lift_def require_def)
    with call_refused.input_size [OF size(2), of p name] show ?thesis by (auto simp: call_contract_def)
  next
    case full
    then obtain n where "canonical_elements sh = Some n" by (auto simp: canonical_elements_Some)
    with full have "perform ?c p = (p, fail (GraphConstruction TooManyNodes))"
      by (auto simp: program_input_def act_bind_def program_read_def act_lift_def require_def add_input_def graph_call_fresh)
    with full call_refused.full [of p ?c] show ?thesis by (auto simp: call_contract_def)
  next
    case fresh
    then obtain n where n: "checked_num_elements sh = Inr n" "canonical_elements sh = Some n" by (auto simp: canonical_elements_Some)
    then have "perform ?c p = (call_effect ?c p, Inr (call_value ?c p))"
      using fresh by (auto simp: program_input_def act_bind_def program_read_def act_lift_def require_def add_input_def graph_call_fresh
          Let_def push_shape_def program_modify_def act_return_def extend_def call_value_def input_value_def)
    moreover have "\<not> call_refused p ?c e" for e using fresh by (auto elim: call_refusedE)
    moreover have "prod_list sh \<le> usize_max" using n checked_num_elements_le checked_num_elements_Inr by simp
    then have "node_fits p (Input name) [] sh" using fresh n by (simp add: node_fits_def)
    from extend_parts [OF ok this fresh(3)] ok fresh(1) have "program_ok (call_effect ?c p)"
      by (auto simp: program_ok_def inputs_declared_input constants_kept_other)
    ultimately show ?thesis by (simp add: call_contract_def)
  qed
qed

lemma constant_contract:
  assumes ok: "program_ok p"
  shows "call_contract (CallConstant t) p" (is "call_contract ?c p")
proof (cases "dense_layout t")
  case (Inl f)
  with dense_layout_decided [of t] have f: "\<not> nd_ok t"
    "f = Err (if countable (nd_shape t) \<and> (\<exists>s. contiguous (nd_shape t) = Inr s) then NotDense else LayoutOverflow)" by simp_all
  then obtain e where "map_err (constant_fault t) (Inl f :: (layout_fault, unit) outcome) = fail e" "call_refused p ?c e"
    using call_refused.constant_size [of t p] call_refused.constant_layout [of t _ p] by (cases "countable (nd_shape t) \<and> (\<exists>s. contiguous (nd_shape t) = Inr s)") auto
  with Inl show ?thesis
    by (auto simp: call_contract_def program_constant_def act_bind_def act_lift_def)
next
  case (Inr u)
  then have dense: "nd_ok t" by (simp add: dense_layout_Inr)
  show ?thesis
  proof (cases "program_size p < u32_range")
    case False
    with Inr have "perform ?c p = (p, fail (GraphConstruction TooManyNodes))"
      by (simp add: program_constant_def act_bind_def act_lift_def program_read_def add_constant_def graph_call_fresh Let_def)
    with False call_refused.full [of p ?c] show ?thesis by (auto simp: call_contract_def)
  next
    case True
    then have "perform ?c p = (call_effect ?c p, Inr (call_value ?c p))"
      using Inr by (simp add: program_constant_def act_bind_def program_read_def act_lift_def add_constant_def graph_call_fresh
          Let_def push_shape_def program_modify_def act_return_def extend_def call_value_def)
    moreover have count: "countable (nd_shape t)" "\<exists>s. contiguous (nd_shape t) = Inr s" using dense by (auto simp: nd_ok_def)
    then have "\<not> call_refused p ?c e" for e using dense True by (auto elim: call_refusedE)
    moreover have "prod_list (nd_shape t) \<le> usize_max" using dense checked_num_elements_le checked_num_elements_Inr by (fastforce simp: nd_ok_def)
    then have "node_fits p (Constant (length (pg_constants p))) [] (nd_shape t)" using count by (simp add: node_fits_def)
    from extend_parts [OF ok this True] ok dense have "program_ok (call_effect ?c p)"
      by (auto simp: program_ok_def inputs_declared_computed constants_kept_constant f32_tensor_def tensor_type_new_def)
    ultimately show ?thesis by (simp add: call_contract_def)
  qed
qed

lemma outputs_contract:
  assumes ok: "program_ok p"
  shows "call_contract (CallOutputs vs) p" (is "call_contract ?c p")
proof (cases "vs = [] \<or> (\<exists>v \<in> set vs. program_size p \<le> value_node v)")
  case False
  then have "\<forall>v \<in> set vs. shape_of p v = Inr (value_shape p v)" using shape_of_run [OF ok] by (simp add: not_le Ball_def)
  then have "for_each (\<lambda>v. try_bind (shape_of p v) (\<lambda>_. Inr ())) vs = Inr ()" by (simp add: for_each_Inr)
  with False have "perform ?c p = (call_effect ?c p, Inr (call_value ?c p))"
    by (simp add: program_set_outputs_def act_bind_def program_read_def program_modify_def act_return_def call_value_def)
  moreover have "\<not> call_refused p ?c e" for e using False by (auto elim: call_refusedE)
  moreover have "program_ok (call_effect ?c p)" using ok False by (auto simp: program_ok_def not_le)
  ultimately show ?thesis by (simp add: call_contract_def)
next
  case True
  show ?thesis
  proof (cases "vs = []")
    case True
    then show ?thesis using call_refused.no_outputs [of p] by (auto simp: call_contract_def program_set_outputs_def act_bind_def act_lift_def)
  next
    case False
    then have "for_each (\<lambda>v. try_bind (shape_of p v) (\<lambda>_. Inr ())) vs \<noteq> Inr u" for u
      using True False by (auto simp: for_each_Inr shape_of_run [OF ok] not_less)
    then obtain f where f: "for_each (\<lambda>v. try_bind (shape_of p v) (\<lambda>_. Inr ())) vs = Inl f"
      by (cases "for_each (\<lambda>v. try_bind (shape_of p v) (\<lambda>_. Inr ())) vs") auto
    from for_each_InlD [OF this] obtain v where "v \<in> set vs" "try_bind (shape_of p v) (\<lambda>_. Inr ()) = Inl f" by blast
    then have "v \<in> set vs" "program_size p \<le> value_node v" "f = Err (ForeignValue v)"
      using shape_of_run [OF ok, of v] by (auto simp: not_less split: if_splits)
    with f False call_refused.foreign [of v ?c p] show ?thesis
      by (auto simp: call_contract_def program_set_outputs_def act_bind_def program_read_def)
  qed
qed

lemma calls_meet_contract:
  assumes ok: "program_ok p"
  shows "call_contract c p"
proof (cases c)
  case (CallAdd lhs rhs)
  then show ?thesis by (intro binary_contract [OF ok, where oper = Add and lhs = lhs and rhs = rhs]) (simp_all add: program_add_def)
next
  case (CallSub lhs rhs)
  then show ?thesis by (intro binary_contract [OF ok, where oper = Sub and lhs = lhs and rhs = rhs]) (simp_all add: program_sub_def)
next
  case (CallMul lhs rhs)
  then show ?thesis by (intro binary_contract [OF ok, where oper = Mul and lhs = lhs and rhs = rhs]) (simp_all add: program_mul_def)
next
  case (CallDiv lhs rhs)
  then show ?thesis by (intro binary_contract [OF ok, where oper = Div and lhs = lhs and rhs = rhs]) (simp_all add: program_div_def)
next
  case (CallRelu v)
  then show ?thesis by (intro unary_contract [OF ok, where oper = Relu and v = v]) (simp_all add: program_relu_def read_first)
next
  case (CallScale v factor)
  then show ?thesis
    by (intro unary_contract [OF ok, where oper = "Scale (scalar_f32 factor)" and v = v and factor = factor])
      (simp_all add: program_scale_def read_first)
qed (simp_all add: input_contract constant_contract reshape_contract permute_contract outputs_contract ok)

lemma built_ok: "built p \<Longrightarrow> program_ok p"
proof (induction rule: built.induct)
  case (step p c)
  with calls_meet_contract [of p c] show ?case by (cases "perform c p") (auto simp: call_contract_def split: sum.splits)
qed (rule new_ok)

end
