(* ===== verification/Runtime_Examples.thy ===== *)
theory Runtime_Examples
  imports Runtime_Theorems
begin

text \<open>A concrete run of the tensor runtime: the graph that doubles a matrix, on the CPU backend.\<close>

definition doubled_graph :: graph where
  "doubled_graph = \<lparr>graph_nodes = [mk_node (Input ''x'') [], mk_node Add [0, 0]], graph_outputs = [1]\<rparr>"

definition doubled_plan :: execution_plan where
  "doubled_plan = \<lparr>ep_instructions =
       [\<lparr>ins_id = 0, ins_operation = Input ''x'', ins_inputs = [], ins_output = matrix_type\<rparr>,
        \<lparr>ins_id = 1, ins_operation = Add, ins_inputs = [0, 0], ins_output = matrix_type\<rparr>],
     ep_outputs = [1],
     ep_memory = \<lparr>mp_allocations = [\<lparr>va_node = 0, va_storage = ExternalInput\<rparr>, \<lparr>va_node = 1, va_storage = Buffer 0\<rparr>],
        mp_slots = [\<lparr>bs_slot = 0, bs_tensor_type = matrix_type\<rparr>], mp_peak_live_buffers = 1\<rparr>,
     ep_stats = \<lparr>cs_original_nodes = 2, cs_retained_nodes = 2, cs_eliminated_nodes = 0, cs_allocated_buffer_slots = 1,
        cs_reused_buffer_values = 0, cs_peak_live_buffers = 1\<rparr>\<rparr>"

definition doubling_kernel :: logical_kernel where
  "doubling_kernel = \<lparr>lk_id = 0, lk_family = ElementwiseBinary AddKernel, lk_operands = [matrix_type, matrix_type],
     lk_result = matrix_type\<rparr>"

definition doubled_lowered :: lowered_plan where
  "doubled_lowered = \<lparr>lp_kernels = [doubling_kernel],
     lp_instructions = [\<lparr>li_node = 1, li_sources = [1], li_kernel = 0,
       li_arguments =
         [\<lparr>ka_index = 0, ka_source = FromInput 0, ka_access = ReadAccess, ka_tensor_type = matrix_type\<rparr>,
          \<lparr>ka_index = 1, ka_source = FromInput 0, ka_access = ReadAccess, ka_tensor_type = matrix_type\<rparr>,
          \<lparr>ka_index = 2, ka_source = FromBuffer 0, ka_access = WriteAccess, ka_tensor_type = matrix_type\<rparr>],
       li_dispatch = \<lparr>ld_extent = [2, 2], ld_elements = 4\<rparr>\<rparr>],
     lp_bindings = [\<lparr>eb_node = 0, eb_kind = InputKind\<rparr>],
     lp_outputs = [\<lparr>lo_node = 1, lo_source = FromBuffer 0\<rparr>]\<rparr>"

lemma doubled_valid:
  "validate doubled_graph = Inr ()" "validate_semantics doubled_graph = Inr ()"
proof -
  have "wf_graph doubled_graph"
    by (simp add: doubled_graph_def wf_graph_def nodes_ok_def node_ok_def mk_node_def all_less_Suc numeral_eq_Suc)
  moreover have "typed_graph doubled_graph"
    by (simp add: doubled_graph_def typed_graph_def node_typed_def mk_node_def type_of_def matrix_type_def tensor_type_new_def
        all_less_Suc numeral_eq_Suc)
  ultimately show "validate doubled_graph = Inr ()" "validate_semantics doubled_graph = Inr ()"
    by (simp_all add: validate_iff_wf validate_semantics_iff_typed)
qed

lemma doubled_small: "length (graph_nodes doubled_graph) \<le> u32_range" "graph_outputs doubled_graph = [1]"
  by (simp_all add: doubled_graph_def)

lemma doubled_compiled: "compile doubled_graph = Inr doubled_plan"
proof -
  have "reachable_nodes doubled_graph = (Inr [True, True] :: (compile_error, bool list) outcome)"
    by (simp add: reachable_nodes_def doubled_graph_def mk_node_def mark_reachable.simps)
  moreover have "memory_plan_build (ep_instructions doubled_plan) [1] =
      (Inr (ep_memory doubled_plan) :: (compile_error, memory_plan) outcome)"
    by (simp add: memory_plan_build_def doubled_plan_def plan_start_def plan_step_def last_uses_def
        note_instruction_def define_value_def note_use_def retire_def assign_storage_def take_slot_def)
  ultimately show ?thesis
    using doubled_valid(1)
    by (simp add: compile_def doubled_graph_def mk_node_def to_instruction_def doubled_plan_def
        sub_usize_def is_buffer_def Let_def)
qed

lemma matrix_elements: "checked_num_elements [2, 2] = Inr 4"
  by (simp add: checked_num_elements_def)

lemma doubled_lower: "lower_plan doubled_plan (derive_bindings doubled_plan) = Inr doubled_lowered"
  using matrix_elements
  by (simp add: lower_plan_def doubled_plan_def doubled_lowered_def doubling_kernel_def derive_bindings_def List.map_filter_simps
      external_kind_def collect_values_def collect_value_def validate_bindings_def bind_entry_def
      lower_step_def lower_instruction_def checked_elements_def matrix_type_def tensor_type_new_def
      kernel_family_def uniform_binary_def require_uniform_operands_def read_argument_def
      argument_index_def source_of_def intern_kernel_def lower_output_def require_def Let_def)

lemma doubling_kernel_ok:
  "kernel_typed doubling_kernel" "generatable doubling_kernel" "preparation_error (artifact_of doubling_kernel) = None"
  "batch_fits (artifact_of doubling_kernel)" "\<not> transcendental doubling_kernel"
  by (simp_all add: doubling_kernel_def kernel_typed_family matrix_type_def tensor_type_new_def generatable_def
      shape_encodable_def checked_num_elements_def preparation_error_def artifact_of_def batch_fits_def transcendental_def)

abbreviation doubled_typing :: plan_typing where
  "doubled_typing \<equiv> typing_of doubled_plan (type_of (graph_nodes doubled_graph)) (derive_bindings doubled_plan)"

lemma doubled_well_formed: "plan_well_formed doubled_lowered doubled_typing"
  using lowered_plan_well_formed [OF doubled_compiled doubled_small(1) doubled_valid(2) doubled_lower] .

lemma doubled_checks:
  "\<exists>r. (plan_checks cpu_capabilities doubled_lowered [] :: (cpu_error prep_error, _) outcome) = Inr r"
  using matrix_elements
  by (simp add: plan_checks_def cpu_capabilities_def supports_dtype_def collect_value_types_def doubled_lowered_def
      doubling_kernel_def highest_slot_def note_slot_def record_argument_def record_external_def record_type_def
      lowered_binding_def resolve_dispatches_def check_kernel_id_def resolve_dispatch_def resolve_argument_def
      lowered_kernel_def plan_element_count_def byte_size_def matrix_type_def tensor_type_new_def index_as_u32_def
      saturating_add_def build_slot_specifications_def slot_specification_of_def check_backend_limit_def
      build_external_specifications_def external_specification_of_def resolve_outputs_def resolve_output_def
      require_def checked_mul_def Let_def)

lemma cpu_backend_capabilities: "be_capabilities (cpu_backend reserve A) = cpu_capabilities"
  by (simp add: cpu_backend_def)

lemma doubled_prepared:
  "prepare_with_external_types (cpu_backend reserve A) doubled_lowered [] heap =
     (heap, Inr (prepared_plan_of doubled_lowered doubled_typing [] [cpu_kernel_of doubling_kernel]))"
proof -
  let ?B = "cpu_backend reserve A"
  have kernels: "compile_kernels ?B doubled_lowered heap = (heap, Inr [cpu_kernel_of doubling_kernel])"
    using cpu_kernels [OF doubled_well_formed, where reserve = reserve and A = A and heap = heap] doubling_kernel_ok
    by (auto simp: doubled_lowered_def cpu_refuses_def split: prod.splits sum.splits)
  from doubled_checks obtain r where "(plan_checks cpu_capabilities doubled_lowered [] :: (cpu_error prep_error, _) outcome) = Inr r" ..
  then have "\<exists>p. prepare_with_external_types ?B doubled_lowered [] heap = (heap, Inr p)"
    using kernels cpu_backend_capabilities [of reserve A]
    by (cases r) (simp add: prepare_eq act_bind_def act_lift_def act_return_def)
  with prepare_decided [OF doubled_well_formed, where B = ?B and hints = "[]" and s = heap] kernels
  show ?thesis by auto
qed

abbreviation doubled_prepared_plan :: "cpu_kernel prepared_plan" where
  "doubled_prepared_plan \<equiv> prepared_plan_of doubled_lowered doubled_typing [] [cpu_kernel_of doubling_kernel]"

lemma doubled_sizes:
  "pr_slot_sizes doubled_prepared_plan = [16]" "pr_external_sizes doubled_prepared_plan = [16]"
  "length (pr_externals doubled_prepared_plan) = 1"
proof -
  have slots: "slot_count doubled_lowered = 1"
    by (simp add: slot_count_def highest_slot_def note_slot_def doubled_lowered_def)
  have slot: "value_bytes (pt_slot doubled_typing 0) = 16"
    by (simp add: typing_of_def doubled_plan_def value_bytes_def matrix_type_def tensor_type_new_def)
  show "pr_slot_sizes doubled_prepared_plan = [16]"
    using slots slot by (simp add: prepared_plan_of_def slot_sizes_of_def)
  have bindings: "length (lp_bindings doubled_lowered) = 1" by (simp add: doubled_lowered_def)
  have "consumed doubled_lowered 0" by (auto simp: consumed_def referenced_def doubled_lowered_def)
  then have binding: "binding_type doubled_lowered doubled_typing [] 0 = matrix_type"
    by (simp add: binding_type_def external_type_def typing_of_def derive_bindings_def List.map_filter_simps external_kind_def
        doubled_plan_def type_of_def doubled_graph_def mk_node_def)
  show "pr_external_sizes doubled_prepared_plan = [16]"
    using bindings binding by (simp add: prepared_plan_of_def external_sizes_of_def value_bytes_def matrix_type_def tensor_type_new_def)
  show "length (pr_externals doubled_prepared_plan) = 1"
    using bindings by (simp add: prepared_plan_of_def external_specs_of_def)
qed

definition granting :: host_allocator where
  "granting heap n = None"

definition text_arithmetic :: arithmetic where
  "text_arithmetic = \<lparr>fadd = (+), fsub = (-), fmul = (*), fdiv = (div)\<rparr>"

lemma doubled_kernels: "lp_kernels doubled_lowered = [doubling_kernel]" "\<forall>k \<in> set (lp_kernels doubled_lowered). batch_fits (artifact_of k)"
  using doubling_kernel_ok by (simp_all add: doubled_lowered_def)

lemma doubled_value:
  "node_value (reference_operations text_arithmetic) (\<lambda>_. [1, 2, 3, 4]) (graph_nodes doubled_graph) 1 = [2, 4, 6, 8]"
  by (simp add: node_value.simps doubled_graph_def mk_node_def computed_def direct_semantics_def reference_kernels_def
        kernel_spec_def artifact_of_def text_arithmetic_def)

theorem cpu_run_completes_witness:
  "\<exists>heap. runtime_execute (cpu_backend granting text_arithmetic) doubled_prepared_plan [(0, [1, 2, 3, 4])] [] =
     (heap, Inr [\<lparr>ov_node = 1, ov_tensor_type = matrix_type, ov_values = [2, 4, 6, 8]\<rparr>])"
proof -
  have "type_of (graph_nodes doubled_graph) 1 = matrix_type" by (simp add: type_of_def doubled_graph_def mk_node_def)
  with doubled_value show ?thesis
    using cpu_run_completes [OF doubled_compiled doubled_small(1) doubled_valid(2) doubled_lower, of "[]" granting text_arithmetic
        "[]" "[]" doubled_prepared_plan "[]" "[(0, [1, 2, 3, 4])]" "\<lambda>_. [1, 2, 3, 4]"]
    by (simp add: doubled_prepared doubled_sizes cpu_ready_def cpu_grants_def granting_def supply_accepted_def
        doubled_kernels doubled_small(2) lessThan_Suc)
qed

lemma doubled_run:
  "\<exists>heap ys. runtime_execute (cpu_backend granting A) doubled_prepared_plan [(0, [1, 2, 3, 4])] [] = (heap, Inr ys)"
  using cpu_execution_completes [OF doubled_compiled doubled_small(1) doubled_valid(2) doubled_lower, of "[]" granting A
      "[]" "[]" doubled_prepared_plan "[]" "[(0, [1, 2, 3, 4])]" "\<lambda>_. [1, 2, 3, 4]"]
  by (fastforce simp: doubled_prepared doubled_sizes cpu_ready_def cpu_grants_def granting_def supply_accepted_def
      doubled_kernels doubled_small(2) lessThan_Suc)

theorem cpu_preparation_decides_witness:
  "\<exists>p. prepare_with_external_types (cpu_backend granting text_arithmetic) doubled_lowered [] [] = ([], Inr p) \<and>
     plan_sized doubled_lowered doubled_typing []"
  using cpu_preparation_decides [OF doubled_compiled doubled_small(1) doubled_valid(2) doubled_lower,
      where reserve = granting and A = text_arithmetic and hints = "[]" and heap = "[]"]
  by (simp add: doubled_prepared)

theorem cpu_run_refines_graph_witness:
  "\<exists>heap ys. runtime_execute (cpu_backend granting text_arithmetic) doubled_prepared_plan [(0, [1, 2, 3, 4])] [] = (heap, Inr ys) \<and>
     map ov_values ys = [[2, 4, 6, 8]]"
proof -
  from doubled_run [of text_arithmetic] obtain heap ys where
    run: "runtime_execute (cpu_backend granting text_arithmetic) doubled_prepared_plan [(0, [1, 2, 3, 4])] [] = (heap, Inr ys)" by blast
  have "node_value (reference_operations text_arithmetic) (\<lambda>_. [1, 2, 3, 4]) (graph_nodes doubled_graph) 1 = [2, 4, 6, 8]"
    by (rule doubled_value)
  with cpu_run_refines_graph [OF doubled_compiled doubled_small(1) doubled_valid(2) doubled_lower _ doubled_prepared run,
      of "\<lambda>_. [1, 2, 3, 4]"] run
  show ?thesis by (simp add: doubled_small(2))
qed

theorem external_values_checked_first_witness:
  "\<exists>e. runtime_execute (cpu_backend granting text_arithmetic) doubled_prepared_plan [(0, [1, 2])] [] = ([], fail e) \<and>
     supply_rejected 1 ((!) [16]) [(0, [1, 2])] e"
  using external_values_checked_first [OF doubled_compiled doubled_small(1) doubled_valid(2) doubled_lower doubled_prepared,
      of "[(0, [1, 2])]" granting text_arithmetic "[]"]
  by (simp add: doubled_sizes supply_accepted_def)

lemma doubled_oracle:
  "\<forall>n \<in> set (graph_nodes doubled_graph). shape_fits (ty_shape (node_output n)) \<and> node_operation n \<noteq> Relu"
  "oracle_prepare doubled_graph [] = Inr \<lparr>ses_graph = doubled_graph, ses_constants = []\<rparr>"
  "first_problem [(0, square_tensor)] (graph_nodes doubled_graph) = None"
proof -
  show "\<forall>n \<in> set (graph_nodes doubled_graph). shape_fits (ty_shape (node_output n)) \<and> node_operation n \<noteq> Relu"
    using square_fits by (simp add: doubled_graph_def mk_node_def matrix_type_def tensor_type_new_def)
  have wf: "wf_graph doubled_graph" using doubled_valid(1) by (simp add: validate_iff_wf)
  moreover from this have "typed_graph doubled_graph"
    using doubled_valid(2) by (simp add: validate_semantics_iff_typed)
  moreover have "\<forall>i < length (graph_nodes doubled_graph). node_problem [] i (graph_nodes doubled_graph ! i) = None"
    by (simp add: doubled_graph_def mk_node_def matrix_type_def tensor_type_new_def node_problem_def all_less_Suc)
  ultimately show "oracle_prepare doubled_graph [] = Inr \<lparr>ses_graph = doubled_graph, ses_constants = []\<rparr>"
    using oracle_prepare_Inr [OF doubled_small(1)] by blast
  show "first_problem [(0, square_tensor)] (graph_nodes doubled_graph) = None"
    by (simp add: first_problem_def doubled_graph_def mk_node_def input_problem_def lookup_def value_problem_def
      square_tensor_def matrix_type_def tensor_type_new_def)
qed

lemma square_floats: "floats (Some square_tensor) = [1, 2, 3, 4]"
proof -
  have "to_f32_vec square_tensor = Inr [1, 2, 3, 4]" using square_from_f32 by (rule from_f32_payload)
  then show ?thesis by (simp add: floats_def)
qed

theorem cpu_run_agrees_with_oracle_witness:
  "\<exists>outs heap ys.
     oracle_execute sample_library \<lparr>ses_graph = doubled_graph, ses_constants = []\<rparr> [(0, square_tensor)] = Inr outs \<and>
     runtime_execute (cpu_backend granting (arith_of sample_library)) doubled_prepared_plan [(0, [1, 2, 3, 4])] [] = (heap, Inr ys) \<and>
     map ov_values ys = map (\<lambda>(k, t). floats (Some t)) outs"
proof -
  let ?s = "\<lparr>ses_graph = doubled_graph, ses_constants = []\<rparr>"
  have fits: "\<forall>n \<in> set (graph_nodes doubled_graph). shape_fits (ty_shape (node_output n))" using doubled_oracle(1) by blast
  from oracle_run [OF prepared_session_ok(1) [OF doubled_oracle(2) doubled_small(1) fits sample_built_inputs], of sample_library]
  obtain outs where outs: "oracle_execute sample_library ?s [(0, square_tensor)] = Inr outs"
    using doubled_oracle(3) by auto
  from doubled_run [of "arith_of sample_library"] obtain heap ys where
    run: "runtime_execute (cpu_backend granting (arith_of sample_library)) doubled_prepared_plan [(0, [1, 2, 3, 4])] [] = (heap, Inr ys)" by blast
  have "\<forall>(b, v) \<in> set [(0, [1, 2, 3, 4])]. oracle_externals ?s [(0, square_tensor)] (eb_node (derive_bindings doubled_plan ! b)) = v"
    using square_floats by (simp add: oracle_externals_def derive_bindings_def List.map_filter_simps external_kind_def doubled_plan_def
        doubled_graph_def mk_node_def lookup_def)
  from cpu_run_agrees_with_oracle [OF doubled_oracle(2) doubled_small(1) doubled_oracle(1) sample_built_inputs outs doubled_compiled
      doubled_lower _ doubled_prepared run this]
  have "map (\<lambda>y. (ov_node y, ov_values y)) ys = map (\<lambda>(k, t). (k, floats (Some t))) outs" by simp
  then have "map snd (map (\<lambda>y. (ov_node y, ov_values y)) ys) = map snd (map (\<lambda>(k, t). (k, floats (Some t))) outs)" by simp
  then have "map ov_values ys = map (\<lambda>(k, t). floats (Some t)) outs" by (simp add: comp_def case_prod_beta)
  with outs run show ?thesis by blast
qed

end
