(* ===== verification/Session_Theorems.thy ===== *)
theory Session_Theorems
  imports Session_Correct Runtime_Examples "HOL-Library.Multiset"
begin

text \<open>
  The properties of graph sessions: what preparation decides, that the order of the constants and of
  the inputs has no effect, that inputs are checked before the backend is called, and that a session
  on the CPU backend computes its graph.
\<close>

section \<open>Preparation\<close>

text \<open>
  C21: on any backend, preparing a session for a graph of at most \<open>2^32\<close> nodes that the semantic verifier
  accepts. It fails before the first call to the backend with one of the errors of \<open>session_stops\<close>, whose
  reason holds, or with the error of plan preparation, or yields the session of the graph: one
  specification per surviving input and constant, one payload per constant identifier, the outputs in the
  order of the graph. For such graphs the other errors of the source are unreachable. Preparation does not
  itself run the semantic verifier: on an ill-typed graph it may stop with other errors, such as
  \<open>InvalidReshape\<close> or \<open>OperandTypeMismatch\<close> of lowering, or prepare a session, and nothing is stated.
\<close>

theorem session_prepare_decides:
  fixes B :: "('s, 'b, 'k, 't, 'v, 'e) backend"
  assumes "length (graph_nodes g) \<le> u32_range" and "validate_semantics g = Inr ()"
  shows "case session_prepare B g constants s of
      (s', Inl f) \<Rightarrow> s' = s \<and> session_stops g constants f \<or>
        (\<exists>plan lp. compile g = Inr plan \<and> lower_plan plan (external_table g) = Inr lp \<and>
          act_map_err PlanPreparation (prepare_with_external_types B lp (table_types g)) s = (s', Inl f))
    | (s', Inr ses) \<Rightarrow> \<exists>plan lp p st. compile g = Inr plan \<and> lower_plan plan (external_table g) = Inr lp \<and>
          prepare_with_external_types B lp (table_types g) s = (s', Inr p) \<and> prepared_constants g constants st \<and>
          ses = session_of B g p st"
  by (rule session_prepare_decided [OF assms])

section \<open>The order of bindings\<close>

lemma map_of_mset:
  assumes "mset xs = mset ys" and "distinct (map fst xs)"
  shows "map_of xs = map_of ys"
proof -
  have "distinct (map fst ys)" using assms by (metis mset_eq_imp_distinct_iff mset_map)
  then show ?thesis using map_of_inject_set [OF assms(2)] mset_eq_setD [OF assms(1)] by blast
qed

lemma resolve_constants_mset:
  assumes same: "mset constants = mset constants'"
  shows "resolve_constants g resolved constants = (resolve_constants g resolved constants' :: ('e session_prep_error, _) outcome)"
proof -
  let ?R = "referenced_constants g"
  have sets: "set constants = set constants'" using same by (rule mset_eq_setD)
  then have unexpected: "foldl (note_unexpected ?R) None constants = foldl (note_unexpected ?R) None constants'"
    by (simp add: note_unexpected_min)
  have "length (filter P constants) = length (filter P constants')" for P :: "constant_id \<times> element list \<Rightarrow> bool"
    using same by (metis mset_filter size_mset)
  then have check: "check_duplicate constants = (check_duplicate constants' :: _ \<Rightarrow> ('e session_prep_error, _) outcome)" by (simp add: check_duplicate_def fun_eq_iff)
  have "try_fold (resolve_constant constants) st cbs = (try_fold (resolve_constant constants') st cbs :: ('e session_prep_error, _) outcome)"
    if "fst ` set constants \<subseteq> set ?R" "for_each (check_duplicate constants) ?R = (Inr u :: ('e session_prep_error, _) outcome)" for st cbs u
  proof -
    have "\<forall>c \<in> set ?R. length (filter (\<lambda>(i, _). i = c) constants) \<le> 1"
      using that(2) by (auto simp: for_each_Inr check_duplicate_def Let_def not_less split: if_splits)
    with that(1) supplied_once have "distinct (map fst constants)" by blast
    with same have "map_of constants = map_of constants'" by (rule map_of_mset)
    then have "resolve_constant constants = (resolve_constant constants' :: _ \<Rightarrow> _ \<Rightarrow> ('e session_prep_error, _) outcome)"
      by (simp add: resolve_constant_def find_payload fun_eq_iff)
    then show ?thesis by simp
  qed
  then show ?thesis
    using first_unexpected(1) [of ?R constants]
    by (cases "for_each (check_duplicate constants) ?R :: ('e session_prep_error, _) outcome")
      (auto simp: resolve_constants_def Let_def check [symmetric] unexpected [symmetric] split: option.split)
qed

text \<open>
  the order in which constants are supplied has no effect on the preparation of a session, whatever the
  graph, the passes and the backend: neither on the session nor on the error that is reported.
\<close>

theorem constant_order_irrelevant:
  assumes "mset constants = mset constants'"
  shows "session_prepare_with_pipeline B g constants passes s = session_prepare_with_pipeline B g constants' passes s"
proof -
  have "resolve_constants g = (\<lambda>resolved cs. resolve_constants g resolved cs)" by simp
  show ?thesis unfolding session_prepare_with_pipeline_def resolve_constants_mset [OF assms] ..
qed

lemma prepared_session_built:
  assumes "length (graph_nodes g) \<le> u32_range" and "validate_semantics g = Inr ()"
    and "session_prepare B g constants s = (s', Inr ses)"
  obtains plan lp p st where "compile g = Inr plan" "lower_plan plan (external_table g) = Inr lp" "wf_graph g"
    "prepare_with_external_types B lp (table_types g) s = (s', Inr p)" "prepared_constants g constants st"
    "ses = session_of B g p st"
proof -
  from session_prepare_decided [OF assms(1,2), where B = B and s = s and constants = constants] assms(3)
  obtain plan lp p st where "compile g = Inr plan" "lower_plan plan (external_table g) = Inr lp"
    "prepare_with_external_types B lp (table_types g) s = (s', Inr p)" "prepared_constants g constants st"
    "ses = session_of B g p st" by auto
  moreover from this(1) have "wf_graph g" using compile_plan_schedule assms(1) by blast
  ultimately show ?thesis using that by blast
qed

lemma inputs_fit_mset:
  assumes "mset inputs = mset inputs'"
  shows "inputs_fit g inputs \<longleftrightarrow> inputs_fit g inputs'"
proof -
  have "distinct (map fst inputs) \<longleftrightarrow> distinct (map fst inputs')" by (rule mset_eq_imp_distinct_iff) (simp add: assms)
  then show ?thesis by (simp add: inputs_fit_def mset_eq_setD [OF assms])
qed

text \<open>
  C22: on any backend, an execution with inputs that are not one per surviving input node with its length
  fails before the first call to the backend with an error whose reason holds; with acceptable
  inputs it is the execution of the prepared plan over the inputs and the payloads of the session,
  and the order in which they were supplied has no effect.
\<close>

theorem session_inputs_decide:
  fixes B :: "('s, 'b, 'k, 't, 'v, 'e) backend"
  assumes "length (graph_nodes g) \<le> u32_range" and "validate_semantics g = Inr ()"
    and "session_prepare B g constants s0 = (s1, Inr ses)"
  shows "if inputs_fit g inputs
    then session_execute ses inputs s =
        act_map_err PlanExecution (runtime_execute B (gs_prepared ses) (session_entries g constants inputs)) s \<and>
      (mset inputs' = mset inputs \<longrightarrow> session_execute ses inputs' s = session_execute ses inputs s)
    else \<exists>e. session_execute ses inputs s = (s, fail e) \<and> inputs_refused g inputs e"
proof -
  from assms obtain p st where wf: "wf_graph g" and st: "prepared_constants g constants st" and ses: "ses = session_of B g p st"
    by (rule prepared_session_built)
  have p: "gs_prepared ses = p" by (simp add: ses session_of_def Let_def)
  note run = session_execute_decided [OF wf assms(1) st, where B = B and p = p and s = s, folded ses]
  have "session_entries g constants inputs' = session_entries g constants inputs" if same: "mset inputs' = mset inputs" and "inputs_fit g inputs"
  proof -
    have "distinct (map fst inputs')" using inputs_fit_mset [OF same, of g] that(2) by (simp add: inputs_fit_def)
    with map_of_mset [OF same] have "map_of inputs' = map_of inputs" .
    then show ?thesis by (simp add: session_entries_def supplied_input_def)
  qed
  with run [of inputs] run [of inputs'] inputs_fit_mset [of inputs' inputs g] p show ?thesis by auto
qed

section \<open>Sessions on the CPU backend\<close>

lemma table_types_honest: "\<forall>(n, ty) \<in> set (table_types g). ty = type_of (graph_nodes g) n"
  by (auto simp: table_types_def)

lemma session_run:
  assumes small: "length (graph_nodes g) \<le> u32_range" and valid: "validate_semantics g = Inr ()"
    and prep: "session_prepare (cpu_backend reserve A) g constants h0 = (h1, Inr ses)"
    and run: "session_execute ses inputs h2 = (h3, Inr ys)"
  shows "inputs_fit g inputs" and "ys = map (\<lambda>n. \<lparr>ov_node = n, ov_tensor_type = type_of (graph_nodes g) n,
      ov_values = node_value (reference_operations A) (session_values g constants inputs) (graph_nodes g) n\<rparr>) (graph_outputs g)"
proof -
  let ?B = "cpu_backend reserve A"
  from small valid prep obtain plan lp p st where s: "compile g = Inr plan" "lower_plan plan (external_table g) = Inr lp" "wf_graph g"
    "prepare_with_external_types ?B lp (table_types g) h0 = (h1, Inr p)" "prepared_constants g constants st"
    "ses = session_of ?B g p st"
    by (rule prepared_session_built)
  note exec = session_execute_decided [OF s(3) small s(5), where B = ?B and p = p and s = h2 and inputs = inputs, folded s(6)]
  then show fit: "inputs_fit g inputs" using run by (auto split: if_splits)
  with exec run have "act_map_err PlanExecution (runtime_execute ?B p (session_entries g constants inputs)) h2 = (h3, Inr ys)"
    by metis
  then have "runtime_execute ?B p (session_entries g constants inputs) h2 = (h3, Inr ys)" by (simp add: act_map_err_Inr)
  from cpu.run_refines_graph [OF s(1) small valid s(2) table_types_honest s(4) this session_entries_agree [OF small]]
  show "ys = map (\<lambda>n. \<lparr>ov_node = n, ov_tensor_type = type_of (graph_nodes g) n,
      ov_values = node_value (reference_operations A) (session_values g constants inputs) (graph_nodes g) n\<rparr>) (graph_outputs g)" .
qed

text \<open>
  C3: end to end from a graph: whenever a session on the CPU backend was prepared and an execution returns,
  the inputs were acceptable and the outputs are the outputs of the graph, in order, with the values
  the graph gives them over the constants of preparation and the inputs of this execution.
\<close>

theorem session_refines_graph:
  assumes "length (graph_nodes g) \<le> u32_range" and "validate_semantics g = Inr ()"
    and "session_prepare (cpu_backend reserve A) g constants h0 = (h1, Inr ses)"
    and "session_execute ses inputs h2 = (h3, Inr ys)"
  shows "inputs_fit g inputs \<and> ys = map (\<lambda>n. \<lparr>ov_node = n, ov_tensor_type = type_of (graph_nodes g) n,
      ov_values = node_value (reference_operations A) (session_values g constants inputs) (graph_nodes g) n\<rparr>) (graph_outputs g)"
  using session_run [OF assms] by blast

lemma session_total:
  assumes small: "length (graph_nodes g) \<le> u32_range" and valid: "validate_semantics g = Inr ()"
    and prep: "session_prepare (cpu_backend reserve A) g constants h0 = (h1, Inr ses)"
    and ready: "cpu_ready h2"
    and memory: "\<forall>n \<in> set (pr_slot_sizes (gs_prepared ses) @ pr_external_sizes (gs_prepared ses)). cpu_grants reserve n"
    and fit: "inputs_fit g inputs"
    and batches: "\<And>plan lp k. compile g = Inr plan \<Longrightarrow> lower_plan plan (external_table g) = Inr lp \<Longrightarrow>
      k \<in> set (lp_kernels lp) \<Longrightarrow> batch_fits (artifact_of k)"
  shows "\<exists>h3 ys. session_execute ses inputs h2 = (h3, Inr ys)"
proof -
  let ?B = "cpu_backend reserve A" and ?bs = "external_table g"
  from small valid prep obtain plan lp p st where s: "compile g = Inr plan" "lower_plan plan ?bs = Inr lp" "wf_graph g"
    "prepare_with_external_types ?B lp (table_types g) h0 = (h1, Inr p)" "prepared_constants g constants st"
    "ses = session_of ?B g p st"
    by (rule prepared_session_built)
  let ?T = "typing_of plan (type_of (graph_nodes g)) ?bs" and ?entries = "session_entries g constants inputs"
  have p: "gs_prepared ses = p" by (simp add: s(6) session_of_def Let_def)
  note wf = lowered_plan_well_formed [OF s(1) small valid s(2)]
  from prepare_decided [OF wf, where B = ?B and hints = "table_types g" and s = h0] s(4) obtain ks where
    ks: "p = prepared_plan_of lp ?T (table_types g) ks" and sized: "plan_sized lp ?T (table_types g)" by auto
  have bindings: "lp_bindings lp = ?bs" using lower_plan_outputs(2) [OF s(2)] .
  have bytes: "pr_external_sizes p ! b = 4 * node_elements g (binding_node ?bs b)" if "b < length ?bs" for b
  proof -
    have "binding_type lp ?T (table_types g) b = type_of (graph_nodes g) (binding_node ?bs b)"
      using honest_binding [OF sized _ table_types_honest, of b] that by (simp add: bindings typing_of_def)
    with that show ?thesis
      by (simp add: ks prepared_plan_of_def external_sizes_of_def bindings value_bytes_def node_elements_def)
  qed
  have "length (pr_externals p) = length ?bs" by (simp add: ks prepared_plan_of_def external_specs_of_def bindings)
  moreover have "constants_accepted g ?bs constants" using s(5) by (simp add: prepared_constants_def)
  ultimately have accepted: "supply_accepted (length (pr_externals p)) ((!) (pr_external_sizes p)) ?entries"
    using session_entries_accepted [OF fit _ s(3) bytes] by simp
  have "\<forall>k \<in> set (lp_kernels lp). batch_fits (artifact_of k)" using batches [OF s(1,2)] by blast
  from cpu_execution_completes [OF s(1) small valid s(2) table_types_honest s(4) ready memory [unfolded p] accepted this
      session_entries_agree [OF small]]
  obtain h3 ys where "runtime_execute ?B p ?entries h2 = (h3, Inr ys)" by blast
  with session_execute_decided [OF s(3) small s(5), where B = ?B and p = p and s = h2 and inputs = inputs, folded s(6)] fit
  show ?thesis by (auto simp: act_map_err_def)
qed

text \<open>
  C4: an execution of a session on the CPU backend completes whenever its inputs are acceptable, no buffer
  is borrowed, the allocator grants the buffers and the matrices of batched products are
  addressable; the errors the session and the runtime reserve for missing constants cannot occur.
\<close>

theorem session_completes:
  assumes "length (graph_nodes g) \<le> u32_range" and "validate_semantics g = Inr ()"
    and "session_prepare (cpu_backend reserve A) g constants h0 = (h1, Inr ses)"
    and "cpu_ready h2"
    and "\<forall>n \<in> set (pr_slot_sizes (gs_prepared ses) @ pr_external_sizes (gs_prepared ses)). cpu_grants reserve n"
    and "inputs_fit g inputs"
    and "\<And>plan lp k. compile g = Inr plan \<Longrightarrow> lower_plan plan (external_table g) = Inr lp \<Longrightarrow>
      k \<in> set (lp_kernels lp) \<Longrightarrow> batch_fits (artifact_of k)"
  shows "\<exists>h3 ys. session_execute ses inputs h2 = (h3, Inr ys)"
  by (rule session_total [OF assms])

end
