(* ===== verification/Canonical_Correct.thy ===== *)
theory Canonical_Correct
  imports Canonical_Build Session_Theorems
begin

text \<open>
  Preparing and executing canonical programs. Of the errors that preparation has, only three can occur:
  no outputs, a value whose element count overflows (which a permutation can make), and a failure of
  the plan preparation. A session asks for the inputs that the outputs depend on, in declaration
  order, and returns its outputs as dense tensors of the declared shapes.
\<close>

section \<open>The graph of a program with its outputs\<close>

definition program_graph :: "canonical_program \<Rightarrow> graph" where
  "program_graph p = (pg_graph p)\<lparr>graph_outputs := map value_node (pg_outputs p)\<rparr>"

definition program_constants :: "canonical_program \<Rightarrow> graph_constants" where
  "program_constants p = map (\<lambda>(index, t). (index, nd_data t)) (enumerate 0 (pg_constants p))"

lemma program_graph_nodes [simp]: "graph_nodes (program_graph p) = program_nodes p"
  and program_graph_outputs [simp]: "graph_outputs (program_graph p) = map value_node (pg_outputs p)"
  by (simp_all add: program_graph_def)

lemma program_wf: "program_ok p \<Longrightarrow> wf_graph (program_graph p)"
  by (simp add: program_ok_def good_def wf_graph_def)

lemma program_small: "program_ok p \<Longrightarrow> length (graph_nodes (program_graph p)) \<le> u32_range"
  by (simp add: program_ok_def good_def)

lemma program_valid:
  assumes "program_ok p"
  shows "validate_semantics (program_graph p) = Inr ()"
proof -
  have "typed_graph (program_graph p)" using assms by (simp add: program_ok_def good_def typed_graph_def)
  then show ?thesis using validate_semantics_iff_typed [OF program_wf [OF assms]] by simp
qed

lemma program_outputs_set:
  assumes "program_ok p"
  shows "set_outputs (pg_graph p) (map value_node (pg_outputs p)) = Inr (program_graph p)"
proof -
  have "check_outputs (pg_graph p) (map value_node (pg_outputs p)) = Inr ()" using assms by (simp add: program_ok_def)
  then show ?thesis by (simp add: set_outputs_def program_graph_def del: check_outputs_Inr)
qed

lemma program_compiles:
  assumes "program_ok p" and "pg_outputs p \<noteq> []"
  obtains plan where "compile (program_graph p) = Inr plan"
  using compile_run [OF program_wf [OF assms(1)] _ program_small [OF assms(1)]] assms(2) by auto

lemma program_constants_keys: "map fst (program_constants p) = [0..<length (pg_constants p)]"
  by (simp add: program_constants_def comp_def case_prod_unfold)

lemma program_constant_at:
  "map_of (program_constants p) c = (if c < length (pg_constants p) then Some (nd_data (pg_constants p ! c)) else None)"
proof -
  note keys = program_constants_keys [of p]
  then have dist: "distinct (map fst (program_constants p))" by simp
  show ?thesis
  proof (cases "c < length (pg_constants p)")
    case True
    then have "(c, nd_data (pg_constants p ! c)) \<in> set (program_constants p)"
      by (force simp: program_constants_def set_enumerate0)
    with True dist show ?thesis by (simp add: map_of_eq_Some_iff)
  next
    case False
    then have "c \<notin> fst ` set (program_constants p)" using keys by (metis atLeastLessThan_iff list.set_map set_upt)
    with False show ?thesis by (simp add: map_of_eq_None_iff)
  qed
qed

text \<open>The only ways in which a program with outputs is no session.\<close>

lemma program_blocked:
  fixes e :: "'e session_prep_error"
  assumes ok: "program_ok p" and outs: "pg_outputs p \<noteq> []"
    and blocked: "session_blocked (program_graph p) (program_constants p) e"
  shows "\<exists>n. survives (program_graph p) n \<and> n < program_size p \<and> computed (node_operation (program_nodes p ! n)) \<and>
    \<not> countable (pg_shapes p ! n) \<and>
    e = SessionCompilerPipeline (PipelineLowering (IrLowering (DispatchExtentOverflow n)))"
proof -
  let ?g = "program_graph p"
  have offered: "offered (node_operation n)" "ty_dtype (node_output n) = F32"
      "\<not> computed (node_operation n) \<Longrightarrow> countable (ty_shape (node_output n))" if "n \<in> set (program_nodes p)" for n
    using ok that by (simp_all add: program_ok_def nodes_offered_def)
  have kept: "c < length (pg_constants p)" "ty_shape (type_of (program_nodes p) n) = nd_shape (pg_constants p ! c)"
      "length (nd_data (pg_constants p ! c)) = node_elements ?g n"
    if "node_operation (program_nodes p ! n) = Constant c" "survives ?g n" for n c
  proof -
    have n: "n < program_size p" using needed_less [OF program_wf [OF ok], of n] that(2) by simp
    then show c: "c < length (pg_constants p)" "ty_shape (type_of (program_nodes p) n) = nd_shape (pg_constants p ! c)"
      using ok that(1) nth_mem [OF n] unfolding program_ok_def constants_kept_def type_of_def by blast+
    have "nd_ok (pg_constants p ! c)" using ok c(1) by (simp add: program_ok_def constants_kept_def)
    then show "length (nd_data (pg_constants p ! c)) = node_elements ?g n"
      using c(2) checked_num_elements_Inr by (simp add: nd_ok_def node_elements_def)
  qed
  have node: "n < program_size p \<and> program_nodes p ! n \<in> set (program_nodes p)" if "survives ?g n" for n
    using needed_less [OF program_wf [OF ok], of n] that by simp
  have keys: "fst ` set (program_constants p) = {..<length (pg_constants p)}"
    using program_constants_keys [of p] by (metis lessThan_atLeast0 list.set_map set_upt)
  from blocked show ?thesis
  proof cases
    case (compilation x)
    with program_compiles [OF ok outs] show ?thesis by auto
  next
    case (lowering plan x err)
    then obtain k where k: "k \<in> set (needed_list ?g)" "x = instruction_of (program_nodes p) k"
      using compile_plan_schedule [OF lowering(2) program_small [OF ok]] by auto
    then have n: "k < program_size p" "survives ?g k" by (simp_all add: needed_list_def)
    then have x: "ins_id x = k" "ins_operation x = node_operation (program_nodes p ! k)" "ins_output x = node_output (program_nodes p ! k)"
      using k(2) program_small [OF ok] by (simp_all add: instruction_of_def to_instruction_def)
    have "family_of (ins_operation x) \<noteq> None"
      using offered(1) [of "program_nodes p ! k"] n(1) lowering(4) x(2) by (cases "node_operation (program_nodes p ! k)") (auto simp: computed_def)
    then have "err = DispatchExtentOverflow k" "\<forall>m. checked_num_elements (ty_shape (ins_output x)) \<noteq> Inr m"
      using lowering(5) x(1) by (auto simp: lowering_blocked_def)
    moreover have "ty_shape (ins_output x) = pg_shapes p ! k" using ok n(1) x(3) by (simp add: program_ok_def)
    ultimately show ?thesis using n lowering(1,4) x(2) by auto
  next
    case (input_dtype n name)
    with offered(2) node [of n] show ?thesis by (auto simp: type_of_def)
  next
    case (input_size n name)
    with offered(3) [of "program_nodes p ! n"] node [of n] show ?thesis by (auto simp: type_of_def computed_def)
  next
    case (constant_dtype n c)
    with offered(2) node [of n] show ?thesis by (auto simp: type_of_def)
  next
    case (constant_size n c)
    with offered(3) [of "program_nodes p ! n"] node [of n] show ?thesis by (auto simp: type_of_def computed_def)
  next
    case (unexpected c)
    then have "c < length (pg_constants p)" using keys by simp
    then obtain n where "n \<in> set (program_nodes p)" "node_operation n = Constant c" using ok by (auto simp: program_ok_def constants_kept_def)
    then have "c \<in> set (referenced_constants ?g)" by (force simp: referenced_constants_set)
    with unexpected show ?thesis by simp
  next
    case (duplicate c)
    have "length (filter (\<lambda>(i, _). i = c) (program_constants p)) = length (filter ((=) c) (map fst (program_constants p)))"
      by (simp add: filter_map comp_def case_prod_unfold eq_commute)
    also have "\<dots> \<le> 1"
    proof -
      have "card ({c} \<inter> X) \<le> 1" for X by (rule order_trans [OF card_mono [OF _ Int_lower1]]) simp_all
      then show ?thesis unfolding program_constants_keys by (simp add: distinct_length_filter del: set_upt)
    qed
    finally show ?thesis using duplicate by simp
  next
    case (missing n c)
    with kept(1) [of n c] keys show ?thesis by simp
  next
    case (wrong_length n c v)
    moreover have "map_of (program_constants p) c = Some v"
      using wrong_length(4) program_constants_keys [of p] by (simp add: map_of_eq_Some_iff)
    ultimately have "v = nd_data (pg_constants p ! c)" by (simp add: program_constant_at split: if_splits)
    with wrong_length kept(3) [of n c] show ?thesis by simp
  qed
qed

section \<open>Preparation\<close>

text \<open>The inputs that the outputs depend on, in declaration order, and how a session lists them.\<close>

definition required_nodes_of :: "canonical_program \<Rightarrow> node_id list" where
  "required_nodes_of p =
     filter (\<lambda>n. kind_of (node_operation (program_nodes p ! n)) = Some InputKind) (needed_list (program_graph p))"

definition input_name_of :: "operation \<Rightarrow> string" where
  "input_name_of oper = (case oper of Input name \<Rightarrow> name | _ \<Rightarrow> [])"

definition required_spec :: "canonical_program \<Rightarrow> node_id \<Rightarrow> canonical_input_spec" where
  "required_spec p n =
     \<lparr>ci_input = CanonicalInput n, ci_name = input_name_of (node_operation (program_nodes p ! n)), ci_shape = pg_shapes p ! n\<rparr>"

definition canonical_session_of ::
  "canonical_program \<Rightarrow> ('s, 'b, 'k, 't, 'v, 'e) graph_session \<Rightarrow> ('s, 'b, 'k, 't, 'v, 'e) canonical_session" where
  "canonical_session_of p session =
     \<lparr>cs_session = session, cs_inputs = map (required_spec p) (required_nodes_of p),
      cs_outputs = map (\<lambda>v. \<lparr>co_value = v, co_shape = value_shape p v\<rparr>) (pg_outputs p)\<rparr>"

lemma required_nodes_set:
  assumes "program_ok p"
  shows "set (required_nodes_of p) = required_inputs (program_graph p)"
  using needed_less [OF program_wf [OF assms]] by (auto simp: required_nodes_of_def needed_list_def required_inputs_def kind_of_cases)

lemma required_declared:
  assumes ok: "program_ok p" and n: "n \<in> set (required_nodes_of p)"
  obtains name where "node_operation (program_nodes p ! n) = Input name" "n < program_size p"
    "List.find (\<lambda>declared. di_input declared = CanonicalInput n) (pg_inputs p) = Some \<lparr>di_input = CanonicalInput n, di_name = name\<rparr>"
proof -
  from n obtain name where name: "node_operation (program_nodes p ! n) = Input name" "n < program_size p"
    by (auto simp: required_nodes_of_def needed_list_def kind_of_cases)
  then have mem: "\<lparr>di_input = CanonicalInput n, di_name = name\<rparr> \<in> set (pg_inputs p)" (is "?d \<in> _")
    using ok by (simp add: program_ok_def inputs_declared_def)
  have dist: "distinct (map di_input (pg_inputs p))" using ok by (simp add: program_ok_def inputs_declared_def)
  obtain d where d: "List.find (\<lambda>declared. di_input declared = CanonicalInput n) (pg_inputs p) = Some d"
    using mem by (cases "List.find (\<lambda>declared. di_input declared = CanonicalInput n) (pg_inputs p)") (auto simp: find_None_iff)
  then have "d \<in> set (pg_inputs p)" "di_input d = CanonicalInput n" by (auto simp: find_Some_iff)
  with mem dist have "d = ?d" by (metis distinct_map inj_onD select_convs(1) declared_input.select_convs(1))
  with d name that show ?thesis by blast
qed

lemma session_lists:
  fixes B :: "('s, 'b, 'k, 't, 'v, 'e) backend"
  assumes ok: "program_ok p" and ses: "ses = session_of B (program_graph p) q st"
  shows "traverse (session_input_spec p) (gs_inputs ses) =
      (Inr (map (required_spec p) (required_nodes_of p)) :: ('e canonical_prep_error, _) outcome)"
    and "gs_outputs ses = map (\<lambda>v. \<lparr>go_node = value_node v, go_tensor_type = type_of (program_nodes p) (value_node v)\<rparr>) (pg_outputs p)"
proof -
  let ?bs = "external_table (program_graph p)"
  have nodes: "map (binding_node ?bs) (entries_of InputKind ?bs) = required_nodes_of p"
    by (simp add: table_entries_nodes required_nodes_of_def)
  have "gs_inputs ses = map (\<lambda>n. \<lparr>gi_node = n, gi_tensor_type = type_of (program_nodes p) n\<rparr>) (map (binding_node ?bs) (entries_of InputKind ?bs))"
    by (simp add: ses session_of_def resolved_of_def Let_def input_spec_of_def)
  then have inputs: "gs_inputs ses = map (\<lambda>n. \<lparr>gi_node = n, gi_tensor_type = type_of (program_nodes p) n\<rparr>) (required_nodes_of p)"
    unfolding nodes .
  have "session_input_spec p \<lparr>gi_node = n, gi_tensor_type = type_of (program_nodes p) n\<rparr> =
      (Inr (required_spec p n) :: ('e canonical_prep_error, _) outcome)" if n: "n \<in> set (required_nodes_of p)" for n
  proof -
    from required_declared [OF ok n] obtain name where d: "node_operation (program_nodes p ! n) = Input name" "n < program_size p"
      "List.find (\<lambda>declared. di_input declared = CanonicalInput n) (pg_inputs p) = Some \<lparr>di_input = CanonicalInput n, di_name = name\<rparr>" .
    then show ?thesis
      by (simp add: session_input_spec_def required_spec_def Let_def input_name_of_def node_shape [OF ok] f32_tensor_def tensor_type_new_def)
  qed
  then show "traverse (session_input_spec p) (gs_inputs ses) =
      (Inr (map (required_spec p) (required_nodes_of p)) :: ('e canonical_prep_error, _) outcome)"
    unfolding inputs traverse_Inr by simp
  show "gs_outputs ses = map (\<lambda>v. \<lparr>go_node = value_node v, go_tensor_type = type_of (program_nodes p) (value_node v)\<rparr>) (pg_outputs p)"
    by (simp add: ses session_of_def Let_def)
qed

lemma prepare_unfolded:
  fixes B :: "('s, 'b, 'k, 't, 'v, 'e) backend"
  assumes "program_ok p" and "pg_outputs p \<noteq> []"
  shows "program_prepare B p s =
    (case session_prepare B (program_graph p) (program_constants p) s of
       (s', Inl f) \<Rightarrow> (s', map_err GraphSessionPreparation (Inl f))
     | (s', Inr session) \<Rightarrow>
         act_bind (act_lift (traverse (session_input_spec p) (gs_inputs session))) (\<lambda>inputs.
         if length (gs_outputs session) \<noteq> length (pg_outputs p)
         then act_lift (fail (CanonicalOutputCountMismatch (length (pg_outputs p)) (length (gs_outputs session))))
         else
           act_return
             \<lparr>cs_session = session, cs_inputs = inputs,
              cs_outputs = map (\<lambda>(specification, v). \<lparr>co_value = v, co_shape = ty_shape (go_tensor_type specification)\<rparr>)
                (zip (gs_outputs session) (pg_outputs p))\<rparr>) s')"
proof -
  have constants: "map (\<lambda>(index, t). (index, nd_data t)) (enumerate 0 (pg_constants p)) = program_constants p"
    by (simp add: program_constants_def)
  have called: "act_bind (act_lift (map_err GraphOutputs (set_outputs (pg_graph p) (map value_node (pg_outputs p))))) k s = k (program_graph p) s"
    for k :: "graph \<Rightarrow> ('s, 'e canonical_prep_error, 'x) action"
    unfolding program_outputs_set [OF assms(1)] map_err.simps act_bind_lift by simp
  show ?thesis
    unfolding program_prepare_def Let_def if_not_P [OF assms(2)] called constants act_bind_map_err ..
qed

lemma program_prepare_decided:
  fixes B :: "('s, 'b, 'k, 't, 'v, 'e) backend"
  assumes ok: "program_ok p"
  shows "case program_prepare B p s of
      (s', Inl f) \<Rightarrow> pg_outputs p = [] \<and> s' = s \<and> f = Err CanonicalNoOutputs \<or>
        pg_outputs p \<noteq> [] \<and>
          ((\<exists>n. survives (program_graph p) n \<and> computed (node_operation (program_nodes p ! n)) \<and> \<not> countable (pg_shapes p ! n) \<and> s' = s \<and>
              f = Err (GraphSessionPreparation (SessionCompilerPipeline (PipelineLowering (IrLowering (DispatchExtentOverflow n)))))) \<or>
           (\<exists>plan lp f'. compile (program_graph p) = Inr plan \<and> lower_plan plan (external_table (program_graph p)) = Inr lp \<and>
              prepare_with_external_types B lp (table_types (program_graph p)) s = (s', Inl f') \<and>
              Inl f = map_err GraphSessionPreparation (map_err PlanPreparation (Inl f' :: ('e prep_error, unit) outcome))))
    | (s', Inr ses) \<Rightarrow> pg_outputs p \<noteq> [] \<and> ses = canonical_session_of p (cs_session ses) \<and>
        session_prepare B (program_graph p) (program_constants p) s = (s', Inr (cs_session ses))"
proof (cases "pg_outputs p = []")
  case True
  then show ?thesis by (simp add: program_prepare_def act_lift_def)
next
  case False
  let ?g = "program_graph p" and ?cs = "program_constants p"
  note unfolded = prepare_unfolded [OF ok False, where B = B and s = s]
  note decided = session_prepare_decided [OF program_small [OF ok] program_valid [OF ok], where B = B and constants = ?cs and s = s]
  obtain s' r where run: "session_prepare B ?g ?cs s = (s', r)" by (cases "session_prepare B ?g ?cs s")
  show ?thesis
  proof (cases r)
    case (Inl f)
    have failed: "\<exists>f'. program_prepare B p s = (s', Inl f') \<and> (Inl f' :: ('e canonical_prep_error, unit) outcome) = map_err GraphSessionPreparation (Inl f)"
      using run Inl by (cases f) (simp_all add: unfolded)
    from decided run Inl consider e where "s' = s" "f = Err e" "session_blocked ?g ?cs e"
      | plan lp where "compile ?g = Inr plan" "lower_plan plan (external_table ?g) = Inr lp"
        "act_map_err PlanPreparation (prepare_with_external_types B lp (table_types ?g)) s = (s', Inl f)" by auto
    then show ?thesis
    proof cases
      case 1
      from program_blocked [OF ok False 1(3)] 1(1,2) failed False show ?thesis by auto
    next
      case 2
      obtain s1 q where q: "prepare_with_external_types B lp (table_types ?g) s = (s1, q)" by (cases "prepare_with_external_types B lp (table_types ?g) s")
      with 2(3) obtain f' where f': "q = Inl f'" "s1 = s'" "(Inl f :: ('e session_prep_error, unit) outcome) = map_err PlanPreparation (Inl f')"
        by (cases q; cases "projl q") (auto simp: act_map_err_def)
      with q 2(1,2) failed False show ?thesis by auto
    qed
  next
    case (Inr session)
    with decided run obtain q st where ses: "session = session_of B ?g q st" by auto
    have shapes: "ty_shape (type_of (program_nodes p) (value_node v)) = value_shape p v" if "v \<in> set (pg_outputs p)" for v
      using ok that node_shape [OF ok, of "value_node v"] by (simp add: program_ok_def f32_tensor_def tensor_type_new_def)
    have "program_prepare B p s = (s', Inr (canonical_session_of p session))"
      using run Inr session_lists [OF ok ses] shapes
      by (simp add: unfolded act_bind_lift act_return_def canonical_session_of_def zip_map1 zip_same_conv_map)
    with run Inr False show ?thesis by (simp add: canonical_session_of_def)
  qed
qed

section \<open>The inputs of an execution\<close>

definition inputs_match :: "canonical_program \<Rightarrow> canonical_inputs \<Rightarrow> bool" where
  "inputs_match p inputs \<longleftrightarrow> distinct (map fst inputs) \<and> fst ` set inputs = CanonicalInput ` set (required_nodes_of p) \<and>
     (\<forall>(i, t) \<in> set inputs. nd_shape t = pg_shapes p ! input_node i \<and> nd_ok t)"

abbreviation declared_name :: "canonical_program \<Rightarrow> node_id \<Rightarrow> string" where
  "declared_name p n \<equiv> input_name_of (node_operation (program_nodes p ! n))"

inductive inputs_rejected :: "canonical_program \<Rightarrow> canonical_inputs \<Rightarrow> 'e canonical_exec_error \<Rightarrow> bool" for p inputs where
  unexpected: "i \<in> fst ` set inputs \<Longrightarrow> i \<notin> CanonicalInput ` set (required_nodes_of p) \<Longrightarrow>
    inputs_rejected p inputs (CanonicalUnexpectedInput i)"
| duplicate: "1 < length (filter (\<lambda>(j, _). j = i) inputs) \<Longrightarrow> inputs_rejected p inputs (CanonicalDuplicateInput i)"
| missing: "n \<in> set (required_nodes_of p) \<Longrightarrow> CanonicalInput n \<notin> fst ` set inputs \<Longrightarrow>
    inputs_rejected p inputs (CanonicalMissingInput (CanonicalInput n) (declared_name p n))"
| wrong_shape: "(CanonicalInput n, t) \<in> set inputs \<Longrightarrow> nd_shape t \<noteq> pg_shapes p ! n \<Longrightarrow>
    inputs_rejected p inputs (InputShapeMismatch (CanonicalInput n) (declared_name p n) (pg_shapes p ! n) (nd_shape t))"
| not_dense: "(CanonicalInput n, t) \<in> set inputs \<Longrightarrow> \<not> nd_ok t \<Longrightarrow>
    inputs_rejected p inputs (NonContiguousInput (CanonicalInput n) (declared_name p n) (nd_shape t) (length (nd_data t)))"

abbreviation inputs_halt :: "canonical_program \<Rightarrow> canonical_inputs \<Rightarrow> 'e canonical_exec_error failure \<Rightarrow> bool" where
  "inputs_halt p inputs f \<equiv> \<exists>e. f = Err e \<and> inputs_rejected p inputs e"

definition bound_inputs :: "canonical_program \<Rightarrow> canonical_inputs \<Rightarrow> graph_inputs" where
  "bound_inputs p inputs = map (\<lambda>n. (n, nd_data (the (map_of inputs (CanonicalInput n))))) (required_nodes_of p)"

lemma required_distinct: "distinct (required_nodes_of p)"
  by (simp add: required_nodes_of_def needed_list_def)

lemma place_tensors_decided:
  "decided (inputs_halt p inputs)
    (\<lambda>slots. slots = map (\<lambda>n. map_of inputs (CanonicalInput n)) (required_nodes_of p) \<and> distinct (map fst inputs) \<and>
       fst ` set inputs \<subseteq> CanonicalInput ` set (required_nodes_of p))
    (try_fold (place_tensor (map (required_spec p) (required_nodes_of p))) (replicate (length (required_nodes_of p)) None) inputs ::
       ('e canonical_exec_error, _) outcome)"
proof -
  let ?specs = "map (required_spec p) (required_nodes_of p)"
  have key: "ci_input (required_spec p n) = CanonicalInput n" for n by (simp add: required_spec_def)
  have distinct: "distinct (map ci_input ?specs)" using required_distinct by (simp add: comp_def key distinct_map inj_on_def)
  have step: "place_tensor ?specs slots (i, t) =
      (case find_position (\<lambda>spec. ci_input spec = i) ?specs of
         None \<Rightarrow> (fail (CanonicalUnexpectedInput i) :: ('e canonical_exec_error, _) outcome)
       | Some k \<Rightarrow> if slots ! k \<noteq> None then fail (CanonicalDuplicateInput i) else Inr (slots[k := Some t]))"
    if "length slots = length ?specs" for slots i t
    using that find_position_Some [of "\<lambda>spec. ci_input spec = i" ?specs]
    by (auto simp: place_tensor_def get_def split: option.splits)
  have keys: "ci_input ` set ?specs = CanonicalInput ` set (required_nodes_of p)" by (simp add: image_image key)
  have "decided (inputs_halt p inputs)
      (\<lambda>slots. slots = map (\<lambda>spec. map_of inputs (ci_input spec)) ?specs \<and> distinct (map fst inputs) \<and>
        fst ` set inputs \<subseteq> CanonicalInput ` set (required_nodes_of p))
      (try_fold (place_tensor ?specs) (replicate (length ?specs) None) inputs :: ('e canonical_exec_error, _) outcome)"
    by (rule decided_weaken [OF slots_filled [OF distinct step, unfolded keys]])
      (auto intro: inputs_rejected.intros inputs_rejected.duplicate [unfolded One_nat_def])
  then show ?thesis by (simp add: comp_def key)
qed

lemma bind_tensor_decided:
  assumes "map_of inputs (CanonicalInput n) = place" and "n \<in> set (required_nodes_of p)"
  shows "decided (inputs_halt p inputs)
    (\<lambda>b. \<exists>t. place = Some t \<and> nd_shape t = pg_shapes p ! n \<and> nd_ok t \<and> b = (n, nd_data t))
    (bind_tensor (required_spec p n, place) :: ('e canonical_exec_error, _) outcome)"
proof (cases place)
  case None
  then have "CanonicalInput n \<notin> fst ` set inputs" using assms(1) by (simp add: map_of_eq_None_iff)
  with None assms(2) show ?thesis by (auto simp: bind_tensor_def required_spec_def intro: inputs_rejected.missing)
next
  case (Some t)
  then have mem: "(CanonicalInput n, t) \<in> set inputs" using assms(1) map_of_SomeD by fastforce
  show ?thesis
  proof (cases "nd_shape t = pg_shapes p ! n")
    case False
    with Some mem show ?thesis by (auto simp: bind_tensor_def required_spec_def intro: inputs_rejected.wrong_shape)
  next
    case True
    show ?thesis
    proof (cases "dense_layout t")
      case (Inl f)
      with dense_layout_decided [of t] obtain x where x: "f = Err x" "\<not> nd_ok t" by auto
      from inputs_rejected.not_dense [OF mem x(2)] x Inl Some True show ?thesis
        by (auto simp: bind_tensor_def required_spec_def)
    next
      case (Inr u)
      then have "nd_ok t" by (simp add: dense_layout_Inr)
      with Inr Some True show ?thesis by (simp add: bind_tensor_def required_spec_def)
    qed
  qed
qed

lemma canonical_bound_decided:
  "decided (inputs_halt p inputs) (\<lambda>bound. inputs_match p inputs \<and> bound = bound_inputs p inputs)
    (canonical_bound (map (required_spec p) (required_nodes_of p)) inputs :: ('e canonical_exec_error, _) outcome)"
proof -
  let ?ns = "required_nodes_of p"
  let ?slots = "map (\<lambda>n. map_of inputs (CanonicalInput n)) ?ns"
  note placed = place_tensors_decided [of p inputs, where ?'e = 'e]
  have "decided (inputs_halt p inputs) (\<lambda>bound. inputs_match p inputs \<and> bound = bound_inputs p inputs)
      (traverse bind_tensor (zip (map (required_spec p) ?ns) ?slots) :: ('e canonical_exec_error, _) outcome)"
    if dist: "distinct (map fst inputs)" and sub: "fst ` set inputs \<subseteq> CanonicalInput ` set ?ns"
  proof -
    let ?xs = "zip (map (required_spec p) ?ns) ?slots"
    show ?thesis
    proof (cases "traverse bind_tensor ?xs :: ('e canonical_exec_error, _) outcome")
      case (Inl f)
      from traverse_InlD [OF Inl] obtain n where n: "n \<in> set ?ns"
        "(bind_tensor (required_spec p n, map_of inputs (CanonicalInput n)) :: ('e canonical_exec_error, _) outcome) = Inl f"
        by (auto simp: set_zip) (use nth_mem in blast)
      with bind_tensor_decided [OF refl n(1), of inputs, where ?'e = 'e] Inl show ?thesis by simp
    next
      case (Inr bound)
      have at: "\<exists>t. map_of inputs (CanonicalInput (?ns ! k)) = Some t \<and> nd_shape t = pg_shapes p ! (?ns ! k) \<and> nd_ok t \<and>
          bound ! k = (?ns ! k, nd_data t)" if k: "k < length ?ns" for k
      proof -
        have "(bind_tensor (?xs ! k) :: ('e canonical_exec_error, _) outcome) = Inr (bound ! k)"
          using Inr k by (simp add: traverse_Inr)
        with bind_tensor_decided [OF refl nth_mem [OF k], of inputs, where ?'e = 'e] k show ?thesis by simp
      qed
      have len: "length bound = length ?ns" using Inr by (simp add: traverse_Inr)
      have "bound = bound_inputs p inputs"
        using len at by (intro nth_equalityI) (fastforce simp: bound_inputs_def)+
      moreover have "CanonicalInput ` set ?ns \<subseteq> fst ` set inputs"
      proof
        fix i assume "i \<in> CanonicalInput ` set ?ns"
        then obtain k where k: "k < length ?ns" "i = CanonicalInput (?ns ! k)" by (auto simp: in_set_conv_nth)
        with at show "i \<in> fst ` set inputs" by (metis fst_conv image_eqI map_of_SomeD)
      qed
      moreover have "nd_shape t = pg_shapes p ! input_node i \<and> nd_ok t" if it: "(i, t) \<in> set inputs" for i t
      proof -
        have "i \<in> CanonicalInput ` set ?ns" using it sub by force
        then obtain k where k: "k < length ?ns" "i = CanonicalInput (?ns ! k)" by (auto simp: in_set_conv_nth)
        moreover have "map_of inputs i = Some t" using it dist by (simp add: map_of_eq_Some_iff)
        ultimately show ?thesis using at [OF k(1)] by auto
      qed
      ultimately show ?thesis using Inr dist sub by (auto simp: inputs_match_def)
    qed
  qed
  then show ?thesis
    using placed by (cases "try_fold (place_tensor (map (required_spec p) ?ns)) (replicate (length ?ns) None) inputs :: ('e canonical_exec_error, _) outcome")
      (auto simp: canonical_bound_def)
qed

lemma bound_fit:
  assumes ok: "program_ok p" and fit: "inputs_match p inputs"
  shows "inputs_fit (program_graph p) (bound_inputs p inputs)"
proof -
  let ?ns = "required_nodes_of p"
  have keys: "map fst (bound_inputs p inputs) = ?ns" by (simp add: bound_inputs_def comp_def)
  have "length (nd_data (the (map_of inputs (CanonicalInput n)))) = node_elements (program_graph p) n" if n: "n \<in> set ?ns" for n
  proof -
    from fit n have "CanonicalInput n \<in> fst ` set inputs" by (simp add: inputs_match_def)
    then obtain t where t: "(CanonicalInput n, t) \<in> set inputs" by auto
    then have "map_of inputs (CanonicalInput n) = Some t" using fit by (simp add: inputs_match_def map_of_eq_Some_iff)
    moreover have "nd_shape t = pg_shapes p ! n" "nd_ok t" using fit t by (auto simp: inputs_match_def)
    then have "checked_num_elements (pg_shapes p ! n) = Inr (length (nd_data t))" by (simp add: nd_ok_def)
    then have "length (nd_data t) = prod_list (pg_shapes p ! n)" by (rule checked_num_elements_Inr)
    moreover have "n < program_size p" using required_declared [OF ok n] by metis
    then have "ty_shape (type_of (program_nodes p) n) = pg_shapes p ! n"
      using node_shape [OF ok] by (simp add: f32_tensor_def tensor_type_new_def)
    ultimately show ?thesis by (simp add: node_elements_def)
  qed
  moreover have "fst ` set (bound_inputs p inputs) = required_inputs (program_graph p)"
    using keys required_nodes_set [OF ok] by (metis list.set_map)
  ultimately show ?thesis using required_distinct by (auto simp: inputs_fit_def keys) (auto simp: bound_inputs_def)
qed

section \<open>The lengths of values\<close>

text \<open>The value of every node has one element per position of its shape.\<close>

lemma dims_kept:
  assumes "prod_list sh \<le> usize_max"
  shows "prod_list (nat_dims (layout_of sh)) = prod_list sh"
proof (cases "0 \<in> set sh")
  case True
  then have "(0 :: nat) \<in> set (nat_dims (layout_of sh))" by (force simp: nat_dims_def layout_of_def)
  with True show ?thesis by (metis prod_list_zero_iff)
next
  case False
  have "d \<le> usize_max" if "d \<in> set sh" for d
  proof -
    have "d dvd prod_list sh" using that by (rule prod_list_dvd)
    moreover have "prod_list sh \<noteq> 0" using False by (simp add: prod_list_zero_iff)
    ultimately show ?thesis using assms by (meson dvd_imp_le le_trans neq0_conv)
  qed
  then have "d mod 18446744073709551616 = d" if "d \<in> set sh" for d using that by (intro mod_less) fastforce
  then have "map (\<lambda>d. unat (word_of_nat d :: u64)) sh = sh" by (intro map_idI) (simp add: unat_of_nat)
  then show ?thesis by (simp add: nat_dims_def layout_of_def comp_def)
qed

lemma reference_length:
  assumes "offered oper" and "computed oper" and "op_typed oper tys out"
    and sizes: "\<forall>t \<in> set tys. prod_list (ty_shape t) \<le> usize_max" and vs: "map length vs = map (\<lambda>t. prod_list (ty_shape t)) tys"
  shows "length (reference_operations A oper tys out vs) = prod_list (ty_shape out)"
proof -
  have two: "\<exists>x y. vs = [x, y] \<and> length x = prod_list (ty_shape out) \<and> length y = prod_list (ty_shape out)" if "tys = [out, out]"
    using vs that by (auto simp: length_Suc_conv map_eq_Cons_conv)
  have one: "\<exists>x. vs = [x] \<and> length x = prod_list (ty_shape a)" if "tys = [a]" for a
    using vs that by (auto simp: map_eq_Cons_conv)
  note unfolded = direct_semantics_def reference_kernels_def kernel_spec_def artifact_of_def
  show ?thesis
  proof (cases oper)
    case (Reshape sh)
    with assms(3) obtain a k where a: "tys = [a]" "ty_shape out = sh" "checked_num_elements (ty_shape a) = Inr k" "checked_num_elements sh = Inr k" by auto
    with one [OF a(1)] Reshape show ?thesis by (auto simp: unfolded checked_num_elements_Inr)
  next
    case (Transpose p)
    with assms(3) obtain a where a: "tys = [a]" "length p = length (ty_shape a)" "is_permutation p" "ty_shape out = map ((!) (ty_shape a)) p" by auto
    have "prod_list (nat_dims (layout_of (ty_shape a))) = prod_list (ty_shape a)" using sizes a(1) by (intro dims_kept) simp
    moreover have "prod_list (ty_shape out) = prod_list (ty_shape a)" unfolding a(4) by (rule permuted_product [OF a(3,2)])
    ultimately show ?thesis using Transpose a(1) by (simp add: unfolded permute_spec_def)
  qed (use assms(1-3) two one in \<open>fastforce simp: unfolded computed_def\<close>)+
qed

lemma node_value_length:
  assumes ok: "program_ok p" and ext: "\<And>n. n \<in> needed (program_nodes p) outs \<Longrightarrow> \<not> computed (node_operation (program_nodes p ! n)) \<Longrightarrow>
      length (ext n) = prod_list (pg_shapes p ! n)"
  shows "n \<in> needed (program_nodes p) outs \<Longrightarrow> n < program_size p \<Longrightarrow>
    length (node_value (reference_operations A) ext (program_nodes p) n) = prod_list (pg_shapes p ! n)"
proof (induction n rule: less_induct)
  case (less n)
  let ?ns = "program_nodes p" and ?x = "program_nodes p ! n"
  show ?case
  proof (cases "computed (node_operation ?x)")
    case False
    with ext [OF less.prems(1)] show ?thesis by (simp add: node_value.simps)
  next
    case True
    have x: "?x \<in> set ?ns" using less.prems(2) by simp
    have ins: "k < n" if "k \<in> set (node_inputs ?x)" for k
      using that ok nodes_ok_inputs [of ?ns n k] less.prems(2) by (simp add: program_ok_def good_def)
    have shape: "type_of ?ns k = f32_tensor (pg_shapes p ! k)" if "k < program_size p" for k by (rule node_shape [OF ok that])
    have typed: "op_typed (node_operation ?x) (map (type_of ?ns) (node_inputs ?x)) (node_output ?x)"
      using ok x by (simp add: program_ok_def good_def typed_graph_def node_typed_def)
    have offered: "offered (node_operation ?x)" using ok x by (simp add: program_ok_def nodes_offered_def)
    have "length (node_value (reference_operations A) ext ?ns k) = prod_list (ty_shape (type_of ?ns k))" if k: "k \<in> set (node_inputs ?x)" for k
    proof -
      have "k \<in> needed ?ns outs" using less.prems k by (rule needed_input)
      with less.IH [OF ins [OF k]] ins [OF k] less.prems(2) show ?thesis by (simp add: shape f32_tensor_def tensor_type_new_def)
    qed
    then have lens: "map length (map (\<lambda>k. if k < n then node_value (reference_operations A) ext ?ns k else ext k) (node_inputs ?x)) =
        map (\<lambda>t. prod_list (ty_shape t)) (map (type_of ?ns) (node_inputs ?x))"
      using ins by simp
    have sizes: "\<forall>t \<in> set (map (type_of ?ns) (node_inputs ?x)). prod_list (ty_shape t) \<le> usize_max"
      using ok ins less.prems(2) by (force simp: program_ok_def nodes_offered_def type_of_def)
    have "ty_shape (node_output ?x) = pg_shapes p ! n" using ok less.prems(2) by (simp add: program_ok_def)
    with reference_length [OF offered True typed sizes lens, of A] True show ?thesis
      by (subst node_value.simps) (simp only: if_True)
  qed
qed

section \<open>Execution on the CPU backend\<close>

text \<open>The value of an external node of a program: the tensor bound to an input, or the constant.\<close>

definition program_values :: "canonical_program \<Rightarrow> canonical_inputs \<Rightarrow> node_id \<Rightarrow> element list" where
  "program_values p inputs n =
     (case node_operation (program_nodes p ! n) of
        Constant c \<Rightarrow> nd_data (pg_constants p ! c)
      | _ \<Rightarrow> nd_data (the (map_of inputs (CanonicalInput n))))"

abbreviation program_value :: "arithmetic \<Rightarrow> canonical_program \<Rightarrow> canonical_inputs \<Rightarrow> canonical_value \<Rightarrow> element list" where
  "program_value A p inputs v \<equiv> node_value (reference_operations A) (program_values p inputs) (program_nodes p) (value_node v)"

definition program_tensor :: "arithmetic \<Rightarrow> canonical_program \<Rightarrow> canonical_inputs \<Rightarrow> canonical_value \<Rightarrow> tensor_nd" where
  "program_tensor A p inputs v =
     \<lparr>nd_data = program_value A p inputs v, nd_shape = value_shape p v, nd_strides = row_major (value_shape p v)\<rparr>"

text \<open>Only the externals of needed nodes matter.\<close>

lemma node_value_needed:
  assumes wf: "nodes_ok ns" and same: "\<And>n. n \<in> needed ns outs \<Longrightarrow> n < length ns \<Longrightarrow> \<not> computed (node_operation (ns ! n)) \<Longrightarrow> ext n = ext' n"
  shows "n \<in> needed ns outs \<Longrightarrow> n < length ns \<Longrightarrow> node_value sem ext ns n = node_value sem ext' ns n"
proof (induction n rule: less_induct)
  case (less n)
  have "node_value sem ext ns k = node_value sem ext' ns k" if k: "k \<in> set (node_inputs (ns ! n))" for k
  proof -
    have "k < n" using wf less.prems(2) k by (rule nodes_ok_inputs)
    moreover have "k \<in> needed ns outs" using less.prems k by (rule needed_input)
    ultimately show ?thesis using less by simp
  qed
  moreover have "k < n" if "k \<in> set (node_inputs (ns ! n))" for k using wf less.prems(2) that by (rule nodes_ok_inputs)
  ultimately have maps: "map (\<lambda>k. if k < n then node_value sem ext ns k else ext k) (node_inputs (ns ! n)) =
      map (\<lambda>k. if k < n then node_value sem ext' ns k else ext' k) (node_inputs (ns ! n))" by simp
  show ?case
    using same [OF less.prems] unfolding node_value.simps [of sem ext ns n] node_value.simps [of sem ext' ns n] maps by simp
qed

lemma program_values_session:
  assumes ok: "program_ok p" and fit: "inputs_match p inputs" and n: "survives (program_graph p) n" "\<not> computed (node_operation (program_nodes p ! n))"
  shows "session_values (program_graph p) (program_constants p) (bound_inputs p inputs) n = program_values p inputs n"
    and "length (program_values p inputs n) = prod_list (pg_shapes p ! n)"
proof -
  have size: "n < program_size p" using needed_less [OF program_wf [OF ok], of n] n(1) by simp
  consider name where "node_operation (program_nodes p ! n) = Input name" | c where "node_operation (program_nodes p ! n) = Constant c"
    using n(2) by (auto simp: computed_def split: operation.splits)
  then have "session_values (program_graph p) (program_constants p) (bound_inputs p inputs) n = program_values p inputs n \<and>
      length (program_values p inputs n) = prod_list (pg_shapes p ! n)"
  proof cases
    case (1 name)
    then have req: "n \<in> set (required_nodes_of p)"
      using n(1) by (auto simp: required_nodes_set [OF ok] required_inputs_def)
    have "map_of (bound_inputs p inputs) n = Some (nd_data (the (map_of inputs (CanonicalInput n))))"
      unfolding bound_inputs_def using req map_of_map_keys [of "required_nodes_of p"] by (simp add: map_of_map_restrict restrict_map_def)
    moreover have "length (nd_data (the (map_of inputs (CanonicalInput n)))) = prod_list (pg_shapes p ! n)"
    proof -
      from bound_fit [OF ok fit] req have "length (nd_data (the (map_of inputs (CanonicalInput n)))) = node_elements (program_graph p) n"
        by (auto simp: inputs_fit_def bound_inputs_def)
      then show ?thesis using node_shape [OF ok size] by (simp add: node_elements_def f32_tensor_def tensor_type_new_def)
    qed
    ultimately show ?thesis using 1 by (simp add: session_values_def program_values_def)
  next
    case (2 c)
    have "c < length (pg_constants p)" "ty_shape (node_output (program_nodes p ! n)) = nd_shape (pg_constants p ! c)"
      using ok 2 nth_mem [OF size] unfolding program_ok_def constants_kept_def by blast+
    moreover from this(1) have "nd_ok (pg_constants p ! c)" using ok by (simp add: program_ok_def constants_kept_def)
    moreover have "ty_shape (node_output (program_nodes p ! n)) = pg_shapes p ! n" using ok size by (simp add: program_ok_def)
    ultimately show ?thesis using 2 checked_num_elements_Inr by (simp add: session_values_def program_values_def program_constant_at nd_ok_def)
  qed
  then show "session_values (program_graph p) (program_constants p) (bound_inputs p inputs) n = program_values p inputs n"
    "length (program_values p inputs n) = prod_list (pg_shapes p ! n)" by blast+
qed

text \<open>Survivors of a lowered program are countable.\<close>

lemma lowered_countable:
  assumes ok: "program_ok p" and plan: "compile (program_graph p) = Inr plan" "lower_plan plan (external_table (program_graph p)) = Inr lp"
    and n: "survives (program_graph p) n"
  shows "countable (pg_shapes p ! n)"
proof -
  let ?g = "program_graph p"
  have size: "n < program_size p" using needed_less [OF program_wf [OF ok], of n] n by simp
  have shape: "ty_shape (node_output (program_nodes p ! n)) = pg_shapes p ! n" using ok size by (simp add: program_ok_def)
  show ?thesis
  proof (cases "computed (node_operation (program_nodes p ! n))")
    case False
    then show ?thesis using ok size shape by (auto simp: program_ok_def nodes_offered_def)
  next
    case True
    let ?x = "instruction_of (program_nodes p) n"
    have "n \<in> set (needed_list ?g)" using n size by (simp add: needed_list_def)
    then have x: "?x \<in> set (ep_instructions plan)" using compile_plan_schedule [OF plan(1) program_small [OF ok]] by auto
    have "lower_plan plan (derive_bindings plan) = Inr lp" using derived_table [OF plan(1) program_small [OF ok]] plan(2) by simp
    with lower_typed_plan [OF compiled_safe(1-3) [OF plan(1) program_small [OF ok]]] compiled_typed [OF plan(1) program_small [OF ok] program_valid [OF ok]] x True
    have "lowerable ?x" by (fastforce simp: instruction_of_def to_instruction_def)
    then show ?thesis using shape by (simp add: lowerable_def instruction_of_def to_instruction_def)
  qed
qed

lemma prepared_countable:
  fixes B :: "('s, 'b, 'k, 't, 'v, 'e) backend"
  assumes ok: "program_ok p" and prep: "session_prepare B (program_graph p) (program_constants p) s = (s', Inr session)"
    and n: "survives (program_graph p) n"
  shows "countable (pg_shapes p ! n)"
  using prepared_session_built [OF program_small [OF ok] program_valid [OF ok] prep] lowered_countable [OF ok _ _ n] by metis

text \<open>
  Whatever an execution does: refuse the inputs before the backend is called, fail in the backend, fail
  on an output whose strides are no 64-bit numbers (then it is empty), or return the outputs.
\<close>

lemma execute_decided:
  assumes ok: "program_ok p" and prep: "program_prepare (cpu_backend reserve A) p h0 = (h1, Inr ses)"
  shows "case canonical_execute ses inputs h2 of
      (h3, Inr ts) \<Rightarrow> inputs_match p inputs \<and> ts = map (program_tensor A p inputs) (pg_outputs p) \<and> (\<forall>t \<in> set ts. nd_ok t)
    | (h3, Inl f) \<Rightarrow> h3 = h2 \<and> inputs_halt p inputs f \<or>
        inputs_match p inputs \<and>
          ((\<exists>f'. session_execute (cs_session ses) (bound_inputs p inputs) h2 = (h3, Inl f') \<and>
              Inl f = map_err GraphSessionExecution (Inl f' :: (cpu_error session_exec_error, unit) outcome)) \<or>
           (\<exists>v \<in> set (pg_outputs p). (\<forall>s. contiguous (value_shape p v) \<noteq> Inr s) \<and> prod_list (value_shape p v) = 0 \<and>
              f = Err (OutputConstruction (value_shape p v) 0)))"
proof -
  let ?g = "program_graph p" and ?cs = "program_constants p"
  from program_prepare_decided [OF ok, where B = "cpu_backend reserve A" and s = h0] prep
  have ses: "ses = canonical_session_of p (cs_session ses)"
    and session: "session_prepare (cpu_backend reserve A) ?g ?cs h0 = (h1, Inr (cs_session ses))" by simp_all
  have inputs_spec: "cs_inputs ses = map (required_spec p) (required_nodes_of p)" by (subst ses) (simp add: canonical_session_of_def)
  have bound: "decided (inputs_halt p inputs) (\<lambda>bound. inputs_match p inputs \<and> bound = bound_inputs p inputs)
    (canonical_bound (cs_inputs ses) inputs :: (cpu_error canonical_exec_error, _) outcome)"
    unfolding inputs_spec by (rule canonical_bound_decided)
  show ?thesis
  proof (cases "canonical_bound (cs_inputs ses) inputs :: (cpu_error canonical_exec_error, _) outcome")
    case (Inl f)
    with bound show ?thesis by (auto simp: canonical_execute_def act_bind_lift)
  next
    case (Inr b)
    with bound have fit: "inputs_match p inputs" and b: "b = bound_inputs p inputs" by simp_all
    have run: "canonical_execute ses inputs h2 =
        act_bind (act_map_err GraphSessionExecution (session_execute (cs_session ses) b)) (\<lambda>produced. act_lift (traverse output_tensor produced)) h2"
      using Inr by (simp add: canonical_execute_def act_bind_lift)
    obtain h3 r where r: "session_execute (cs_session ses) b h2 = (h3, r)" by (cases "session_execute (cs_session ses) b h2")
    show ?thesis
    proof (cases r)
      case (Inl f')
      have "\<exists>f. canonical_execute ses inputs h2 = (h3, Inl f) \<and>
          (Inl f :: (cpu_error canonical_exec_error, unit) outcome) = map_err GraphSessionExecution (Inl f')"
        using r Inl by (cases f') (simp_all add: run act_bind_map_err)
      with r Inl fit b show ?thesis by auto
    next
      case ys: (Inr ys)
      note produced = session_run(2) [OF program_small [OF ok] program_valid [OF ok] session, of b h2 h3 ys]
      have out: "survives ?g (value_node v)" "value_node v < program_size p" if "v \<in> set (pg_outputs p)" for v
        using that ok by (auto simp: program_ok_def intro: needed_output)
      have same: "node_value (reference_operations A) (session_values ?g ?cs b) (program_nodes p) (value_node v) = program_value A p inputs v"
        if "v \<in> set (pg_outputs p)" for v
        unfolding b using program_values_session(1) [OF ok fit] ok out [OF that]
        by (intro node_value_needed) (auto simp: program_ok_def good_def)
      have size: "length (program_value A p inputs v) = prod_list (value_shape p v)" if "v \<in> set (pg_outputs p)" for v
        using program_values_session(2) [OF ok fit] ok out [OF that]
        by (intro node_value_length [where outs = "map value_node (pg_outputs p)"]) auto
      have shape: "ty_shape (type_of (program_nodes p) (value_node v)) = value_shape p v" if "v \<in> set (pg_outputs p)" for v
        using node_shape [OF ok out(2) [OF that]] by (simp add: f32_tensor_def tensor_type_new_def)
      let ?spec = "\<lambda>v. \<lparr>ov_node = value_node v, ov_tensor_type = type_of (program_nodes p) (value_node v),
        ov_values = program_value A p inputs v\<rparr>"
      have ys': "ys = map ?spec (pg_outputs p)" using produced r ys same by (simp add: comp_def)
      have tensor: "output_tensor (?spec v) =
          (case contiguous (value_shape p v) of
             Inr _ \<Rightarrow> Inr (program_tensor A p inputs v) | Inl _ \<Rightarrow> (fail (OutputConstruction (value_shape p v) (prod_list (value_shape p v))) :: (cpu_error canonical_exec_error, _) outcome))"
        if v: "v \<in> set (pg_outputs p)" for v
      proof -
        from prepared_countable [OF ok session out(1) [OF v]] obtain m where "checked_num_elements (value_shape p v) = Inr m" by blast
        moreover from this have "m = prod_list (value_shape p v)" by (rule checked_num_elements_Inr)
        ultimately show ?thesis using v size shape
          by (auto simp: output_tensor_def Let_def nd_try_new_eq program_tensor_def dest: contiguous_Inr split: sum.split)
      qed
      show ?thesis
      proof (cases "traverse output_tensor ys :: (cpu_error canonical_exec_error, _) outcome")
        case (Inl f)
        from traverse_InlD [OF this] obtain v where v: "v \<in> set (pg_outputs p)" "(output_tensor (?spec v) :: (cpu_error canonical_exec_error, _) outcome) = Inl f"
          by (auto simp: ys')
        then obtain e where e: "contiguous (value_shape p v) = Inl e" "f = Err (OutputConstruction (value_shape p v) (prod_list (value_shape p v)))"
          unfolding tensor [OF v(1)] by (auto split: sum.splits)
        have "prod_list (value_shape p v) \<le> usize_max"
          using ok out(2) [OF v(1)] by (simp add: program_ok_def nodes_offered_def)
        then have "prod_list (value_shape p v) = 0" using e(1) contiguous_positive [of "value_shape p v"] by fastforce
        with e v(1) have "\<exists>v \<in> set (pg_outputs p). (\<forall>s. contiguous (value_shape p v) \<noteq> Inr s) \<and> prod_list (value_shape p v) = 0 \<and>
            f = Err (OutputConstruction (value_shape p v) 0)" by (intro bexI [of _ v]) simp_all
        moreover have "canonical_execute ses inputs h2 = (h3, Inl f)" using Inl r ys by (simp add: run act_bind_map_err act_lift_def)
        ultimately show ?thesis using fit by simp
      next
        case (Inr ts)
        have each: "\<exists>s. contiguous (value_shape p v) = Inr s" "(output_tensor (?spec v) :: (cpu_error canonical_exec_error, _) outcome) = Inr (program_tensor A p inputs v)"
          if v: "v \<in> set (pg_outputs p)" for v
        proof -
          have "\<exists>t. (output_tensor (?spec v) :: (cpu_error canonical_exec_error, _) outcome) = Inr t"
            using Inr v unfolding ys' traverse_Inr by (metis (no_types, lifting) in_set_conv_nth length_map nth_map)
          then show "\<exists>s. contiguous (value_shape p v) = Inr s" "(output_tensor (?spec v) :: (cpu_error canonical_exec_error, _) outcome) = Inr (program_tensor A p inputs v)"
            unfolding tensor [OF v] by (auto split: sum.splits)
        qed
        then have "(traverse output_tensor ys :: (cpu_error canonical_exec_error, _) outcome) = Inr (map (program_tensor A p inputs) (pg_outputs p))"
          unfolding ys' traverse_Inr by simp
        moreover have "nd_ok (program_tensor A p inputs v)" if v: "v \<in> set (pg_outputs p)" for v
        proof -
          from prepared_countable [OF ok session out(1) [OF v]] obtain m where "checked_num_elements (value_shape p v) = Inr m" by blast
          moreover from this have "m = prod_list (value_shape p v)" by (rule checked_num_elements_Inr)
          ultimately show ?thesis using each(1) [OF v] size [OF v] by (auto simp: nd_ok_def program_tensor_def dest: contiguous_Inr)
        qed
        ultimately show ?thesis using r ys fit by (auto simp: run act_bind_map_err act_lift_def)
      qed
    qed
  qed
qed

end
