(* ===== verification/Session_Examples.thy ===== *)
theory Session_Examples
  imports Session_Theorems
begin

text \<open>A concrete session: the graph that doubles a matrix, prepared and executed on the CPU backend.\<close>

lemma doubled_table: "external_table doubled_graph = [\<lparr>eb_node = 0, eb_kind = InputKind\<rparr>]"
proof -
  have "derive_bindings doubled_plan = [\<lparr>eb_node = 0, eb_kind = InputKind\<rparr>]"
    by (simp add: doubled_plan_def derive_bindings_def List.map_filter_simps external_kind_def)
  then show ?thesis using derived_table [OF doubled_compiled doubled_small(1)] by simp
qed

lemma doubled_lowers: "lower_plan doubled_plan (external_table doubled_graph) = Inr doubled_lowered"
  using doubled_lower derived_table [OF doubled_compiled doubled_small(1)] by simp

lemma doubled_type: "type_of (graph_nodes doubled_graph) 0 = matrix_type"
  by (simp add: type_of_def doubled_graph_def mk_node_def)

lemma doubled_types: "table_types doubled_graph = [(0, matrix_type)]"
  by (simp add: table_types_def doubled_table doubled_type)

abbreviation hinted_plan :: "cpu_kernel prepared_plan" where
  "hinted_plan \<equiv> prepared_plan_of doubled_lowered doubled_typing [(0, matrix_type)] [cpu_kernel_of doubling_kernel]"

lemma hinted_checks:
  "\<exists>r. (plan_checks cpu_capabilities doubled_lowered [(0, matrix_type)] :: (cpu_error prep_error, _) outcome) = Inr r"
  using matrix_elements
  by (simp add: plan_checks_def cpu_capabilities_def supports_dtype_def collect_value_types_def doubled_lowered_def
      doubling_kernel_def highest_slot_def note_slot_def record_argument_def record_external_def record_type_def
      seed_type_def find_position_def
      lowered_binding_def resolve_dispatches_def check_kernel_id_def resolve_dispatch_def resolve_argument_def
      lowered_kernel_def plan_element_count_def byte_size_def matrix_type_def tensor_type_new_def index_as_u32_def
      saturating_add_def build_slot_specifications_def slot_specification_of_def check_backend_limit_def
      build_external_specifications_def external_specification_of_def resolve_outputs_def resolve_output_def
      require_def checked_mul_def Let_def)

lemma hinted_prepared:
  "prepare_with_external_types (cpu_backend reserve A) doubled_lowered [(0, matrix_type)] heap = (heap, Inr hinted_plan)"
proof -
  let ?B = "cpu_backend reserve A" and ?hints = "[(0, matrix_type)]"
  have kernels: "compile_kernels ?B doubled_lowered heap = (heap, Inr [cpu_kernel_of doubling_kernel])"
    using cpu_kernels [OF doubled_well_formed, where reserve = reserve and A = A and heap = heap] doubling_kernel_ok
    by (auto simp: doubled_lowered_def cpu_refuses_def split: prod.splits sum.splits)
  from hinted_checks obtain r where "(plan_checks cpu_capabilities doubled_lowered ?hints :: (cpu_error prep_error, _) outcome) = Inr r" ..
  then have "\<exists>p. prepare_with_external_types ?B doubled_lowered ?hints heap = (heap, Inr p)"
    using kernels cpu_backend_capabilities [of reserve A]
    by (cases r) (simp add: prepare_eq act_bind_def act_lift_def act_return_def)
  with prepare_decided [OF doubled_well_formed, where B = ?B and hints = ?hints and s = heap] kernels
  show ?thesis by auto
qed

definition doubled_session :: "host_allocator \<Rightarrow> arithmetic \<Rightarrow> (cpu_heap, nat, cpu_kernel, unit, unit, cpu_error) graph_session" where
  "doubled_session reserve A = session_of (cpu_backend reserve A) doubled_graph hinted_plan ([], [])"

lemma doubled_resolved:
  "session_resolve_bindings doubled_graph doubled_lowered = Inr (resolved_of doubled_graph (external_table doubled_graph))"
proof -
  have bindings: "lp_bindings doubled_lowered = external_table doubled_graph" using lower_plan_outputs(2) [OF doubled_lowers] .
  show ?thesis
    unfolding session_resolve_table [OF bindings] doubled_table using matrix_elements
    by (simp add: resolve_binding_def resolved_of_def entries_of_def doubled_graph_def mk_node_def matrix_type_def
        tensor_type_new_def index_as_u32_def Let_def input_spec_of_def type_of_def node_elements_def)
qed

lemma doubled_session_prepared:
  "session_prepare (cpu_backend reserve A) doubled_graph [] heap = (heap, Inr (doubled_session reserve A))"
proof -
  let ?B = "cpu_backend reserve A"
  note resolved = doubled_resolved
  have constants: "(resolve_constants doubled_graph (resolved_of doubled_graph (external_table doubled_graph)) [] ::
      (cpu_error session_prep_error, _) outcome) = Inr ([], [])"
    unfolding doubled_table
    by (simp add: resolve_constants_def referenced_constants_def doubled_graph_def note_constant_def mk_node_def
        resolved_of_def entries_of_def Let_def)
  have types: "rb_external_types (resolved_of doubled_graph (external_table doubled_graph)) = [(0, matrix_type)]"
    using doubled_types by (simp add: resolved_of_def table_types_def)
  have prep: "prepare_with_external_types ?B doubled_lowered (table_types doubled_graph) heap = (heap, Inr hinted_plan)"
    unfolding doubled_types by (rule hinted_prepared)
  have plan: "(check_prepared_externals hinted_plan (resolved_of doubled_graph (external_table doubled_graph)) ::
        (cpu_error session_prep_error, _) outcome) = Inr ()"
    "(session_resolve_outputs doubled_graph hinted_plan :: (cpu_error session_prep_error, _) outcome) =
      Inr (map (\<lambda>n. \<lparr>go_node = n, go_tensor_type = type_of (graph_nodes doubled_graph) n\<rparr>) (graph_outputs doubled_graph))"
    by (rule prepared_session [OF doubled_compiled doubled_small(1) doubled_valid(2) doubled_lowers prep])+
  show ?thesis
    unfolding session_prepare_lowered [OF doubled_compiled doubled_small(1) doubled_lowers]
    by (simp add: act_bind_lift resolved constants types plan hinted_prepared)
      (simp add: act_bind_def act_lift_def act_map_err_def act_return_def types plan hinted_prepared doubled_session_def session_of_def Let_def)
qed

lemma doubled_plan_kept: "gs_prepared (doubled_session reserve A) = hinted_plan"
  by (simp add: doubled_session_def session_of_def Let_def)

lemma doubled_required: "required_inputs doubled_graph = {0}"
proof -
  have "wf_graph doubled_graph" using doubled_valid(1) by (simp add: validate_iff_wf)
  from required_nodes [OF this] show ?thesis by (simp add: doubled_table entries_of_def)
qed

lemma doubled_fit: "inputs_fit doubled_graph [(0, [1, 2, 3, 4])]"
  unfolding inputs_fit_def doubled_required
  by (simp add: node_elements_def doubled_type matrix_type_def tensor_type_new_def)

lemma hinted_sizes: "pr_slot_sizes hinted_plan = [16]" "pr_external_sizes hinted_plan = [16]"
proof -
  show "pr_slot_sizes hinted_plan = [16]" using doubled_sizes(1) by (simp add: prepared_plan_of_def)
  have bindings: "length (lp_bindings doubled_lowered) = 1" by (simp add: doubled_lowered_def)
  have "consumed doubled_lowered 0" by (auto simp: consumed_def referenced_def doubled_lowered_def)
  then have "binding_type doubled_lowered doubled_typing [(0, matrix_type)] 0 = matrix_type"
    by (simp add: binding_type_def external_type_def typing_of_def derive_bindings_def List.map_filter_simps external_kind_def
        doubled_plan_def type_of_def doubled_graph_def mk_node_def)
  then show "pr_external_sizes hinted_plan = [16]"
    using bindings by (simp add: prepared_plan_of_def external_sizes_of_def value_bytes_def matrix_type_def tensor_type_new_def)
qed

lemma doubled_batches:
  assumes "compile doubled_graph = Inr plan" and "lower_plan plan (external_table doubled_graph) = Inr lp" and "k \<in> set (lp_kernels lp)"
  shows "batch_fits (artifact_of k)"
proof -
  have "plan = doubled_plan" using assms(1) doubled_compiled by simp
  then have "lp = doubled_lowered" using assms(2) doubled_lowers by simp
  with assms(3) doubled_kernels show ?thesis by blast
qed

lemma doubled_session_run:
  "\<exists>heap ys. session_execute (doubled_session granting A) [(0, [1, 2, 3, 4])] [] = (heap, Inr ys)"
proof (rule session_total [OF doubled_small(1) doubled_valid(2) doubled_session_prepared])
  show "cpu_ready []" by (simp add: cpu_ready_def)
  show "\<forall>n \<in> set (pr_slot_sizes (gs_prepared (doubled_session granting A)) @ pr_external_sizes (gs_prepared (doubled_session granting A))).
      cpu_grants granting n"
    unfolding doubled_plan_kept hinted_sizes by (simp add: cpu_grants_def granting_def)
qed (fact doubled_fit, fact doubled_batches)

theorem session_prepare_decides_witness:
  "session_prepare (cpu_backend granting text_arithmetic) doubled_graph [] [] = ([], Inr (doubled_session granting text_arithmetic)) \<and>
   (\<exists>p st. doubled_session granting text_arithmetic = session_of (cpu_backend granting text_arithmetic) doubled_graph p st \<and>
      prepared_constants doubled_graph [] st)"
  using session_prepare_decides [OF doubled_small(1) doubled_valid(2),
      where B = "cpu_backend granting text_arithmetic" and s = "[]" and constants = "[]"]
  by (auto simp: doubled_session_prepared)

lemma doubled_unexpected:
  "session_prepare (cpu_backend reserve A) doubled_graph [(5, [1]), (3, [2])] heap = (heap, fail (UnexpectedConstantPayload 3))"
proof -
  note resolved = doubled_resolved
  have "(resolve_constants doubled_graph r [(5, [1]), (3, [2])] :: (cpu_error session_prep_error, _) outcome) =
      fail (UnexpectedConstantPayload 3)" for r
    by (simp add: resolve_constants_def referenced_constants_def doubled_graph_def note_constant_def mk_node_def
        note_unexpected_def Let_def)
  then show ?thesis
    unfolding session_prepare_lowered [OF doubled_compiled doubled_small(1) doubled_lowers]
    by (simp add: act_bind_lift resolved)
qed

theorem constant_order_irrelevant_witness:
  "session_prepare (cpu_backend granting text_arithmetic) doubled_graph [(3, [2]), (5, [1])] [] =
     ([], fail (UnexpectedConstantPayload 3))"
proof -
  have "mset [(3, [2]), (5, [1])] = mset [(5 :: constant_id, [1 :: element]), (3, [2])]" by simp
  from constant_order_irrelevant [OF this, of "cpu_backend granting text_arithmetic" doubled_graph "[]" "[]"]
  show ?thesis using doubled_unexpected [of granting text_arithmetic "[]"] by (simp add: session_prepare_def)
qed

theorem session_inputs_decide_witness:
  "\<exists>e. session_execute (doubled_session granting text_arithmetic) [(1, [1, 2, 3, 4])] [] = ([], fail e) \<and>
     inputs_refused doubled_graph [(1, [1, 2, 3, 4])] e"
proof -
  have "\<not> inputs_fit doubled_graph [(1, [1, 2, 3, 4])]" unfolding inputs_fit_def doubled_required by simp
  with session_inputs_decide [OF doubled_small(1) doubled_valid(2) doubled_session_prepared [of granting text_arithmetic "[]"],
      where inputs = "[(1, [1, 2, 3, 4])]" and s = "[]"]
  show ?thesis by simp
qed

theorem session_refines_graph_witness:
  "\<exists>heap ys. session_execute (doubled_session granting text_arithmetic) [(0, [1, 2, 3, 4])] [] = (heap, Inr ys) \<and>
     map ov_values ys = [[2, 4, 6, 8]]"
proof -
  from doubled_session_run [of text_arithmetic] obtain heap ys where
    run: "session_execute (doubled_session granting text_arithmetic) [(0, [1, 2, 3, 4])] [] = (heap, Inr ys)" by blast
  have "node_value (reference_operations text_arithmetic) (session_values doubled_graph [] [(0, [1, 2, 3, 4])]) (graph_nodes doubled_graph) 1 =
      [2, 4, 6, 8]"
    by (simp add: node_value.simps doubled_graph_def mk_node_def computed_def direct_semantics_def reference_kernels_def
        kernel_spec_def artifact_of_def text_arithmetic_def session_values_def)
  with session_refines_graph [OF doubled_small(1) doubled_valid(2) doubled_session_prepared run] run
  show ?thesis by (simp add: doubled_small(2))
qed

theorem session_completes_witness:
  "\<exists>heap ys. session_execute (doubled_session granting text_arithmetic) [(0, [1, 2, 3, 4])] [] = (heap, Inr ys)"
proof (rule session_completes [OF doubled_small(1) doubled_valid(2) doubled_session_prepared])
  show "cpu_ready []" by (simp add: cpu_ready_def)
  show "\<forall>n \<in> set (pr_slot_sizes (gs_prepared (doubled_session granting text_arithmetic)) @
      pr_external_sizes (gs_prepared (doubled_session granting text_arithmetic))). cpu_grants granting n"
    unfolding doubled_plan_kept hinted_sizes by (simp add: cpu_grants_def granting_def)
qed (fact doubled_fit, fact doubled_batches)

end
