(* ===== verification/Canonical_Progress.thy ===== *)
theory Canonical_Progress
  imports Canonical_Correct Session_Examples
begin

text \<open>
  Canonical programs run: a program whose needed values have encodable shapes and addressable byte sizes
  is prepared by the CPU backend, and executes over every matching set of inputs.
\<close>

section \<open>The kernels and types of a lowered graph are those of its needed nodes\<close>

lemma lowered_result_node:
  assumes "compile g = Inr plan" "length (graph_nodes g) \<le> u32_range" "lower_plan plan bindings = Inr lp"
    and d: "d \<in> set (lp_instructions lp)"
  shows "\<exists>n < length (graph_nodes g). survives g n \<and> family_of (node_operation (graph_nodes g ! n)) = Some (lk_family (lp_kernels lp ! li_kernel d)) \<and>
    lk_result (lp_kernels lp ! li_kernel d) = type_of (graph_nodes g) n"
proof -
  from assms(3) obtain vals ids where
    ok: "lowered_ok vals ids (ep_instructions plan) (lp_kernels lp, lp_instructions lp)" by (rule lower_plan_Inr)
  from list_all2_right [OF _ d] ok obtain x where
    "x \<in> set (filter (\<lambda>i. computed (ins_operation i)) (ep_instructions plan))" "dispatch_ok vals ids (lp_kernels lp) x d"
    unfolding lowered_ok_def by fastforce
  then have x: "x \<in> set (ep_instructions plan)" "family_of (ins_operation x) = Some (lk_family (lp_kernels lp ! li_kernel d))"
    "lk_result (lp_kernels lp ! li_kernel d) = ins_output x"
    using kernel_family_family_of by (auto simp: dispatch_ok_def)
  then obtain i where "i \<in> set (needed_list g)" "x = instruction_of (graph_nodes g) i"
    using compile_plan_schedule [OF assms(1,2)] by auto
  with x show ?thesis
    by (auto simp: needed_list_def instruction_of_def to_instruction_def type_of_def intro!: exI [of _ i])
qed

lemma lowered_argument_type:
  assumes graph: "compile g = Inr plan" "length (graph_nodes g) \<le> u32_range" "validate_semantics g = Inr ()"
      "lower_plan plan (external_table g) = Inr lp"
    and d: "d \<in> set (lp_instructions lp)" and a: "a \<in> set (li_arguments d)"
  shows "\<exists>n. survives g n \<and> ka_tensor_type a = type_of (graph_nodes g) n"
proof -
  let ?T = "typing_of plan (type_of (graph_nodes g)) (external_table g)"
  have cons: "plan_consistent lp ?T" using lowered_plan_well_formed [OF graph] by (simp add: plan_well_formed_def)
  have instr: "instruction_consistent lp ?T i" if "i \<in> set (lp_instructions lp)" for i using cons that by (simp add: plan_consistent_def)
  have written: "\<exists>n. survives g n \<and> ka_tensor_type (last (li_arguments i)) = type_of (graph_nodes g) n \<and> li_arguments i \<noteq> [] \<and>
      (\<forall>s. ka_source (last (li_arguments i)) = FromBuffer s \<longrightarrow> pt_slot ?T s = type_of (graph_nodes g) n)" if i: "i \<in> set (lp_instructions lp)" for i
  proof -
    let ?k = "lp_kernels lp ! li_kernel i"
    have args: "length (li_arguments i) = Suc (length (lk_operands ?k))"
      "ka_tensor_type (li_arguments i ! length (lk_operands ?k)) = lk_result ?k"
      "source_typed lp ?T (ka_source (li_arguments i ! length (lk_operands ?k))) (ka_tensor_type (li_arguments i ! length (lk_operands ?k)))"
      using instr [OF i] lessI [of "length (lk_operands ?k)"] unfolding instruction_consistent_def Let_def by blast+
    then have "last (li_arguments i) = li_arguments i ! length (lk_operands ?k)" by (metis diff_Suc_1 last_conv_nth length_0_conv nat.distinct(1))
    with args lowered_result_node [OF graph(1,2,4) i] show ?thesis by (auto simp: source_typed_def)
  qed
  from a obtain q where q: "q < length (li_arguments d)" "a = li_arguments d ! q" by (auto simp: in_set_conv_nth)
  let ?k = "lp_kernels lp ! li_kernel d"
  have args: "length (li_arguments d) = Suc (length (lk_operands ?k))" "source_typed lp ?T (ka_source a) (ka_tensor_type a)"
    "q < length (lk_operands ?k) \<Longrightarrow> ka_access a = ReadAccess"
    using instr [OF d] q by (auto simp: instruction_consistent_def Let_def)
  show ?thesis
  proof (cases "q < length (lk_operands ?k)")
    case False
    then have "a = last (li_arguments d)" using args(1) q by (metis diff_Suc_1 last_conv_nth length_0_conv less_SucE nat.distinct(1))
    with written [OF d] show ?thesis by auto
  next
    case True
    show ?thesis
    proof (cases "ka_source a")
      case (FromBuffer s)
      from d obtain j where j: "j < length (lp_instructions lp)" "d = lp_instructions lp ! j" by (auto simp: in_set_conv_nth)
      with cons args(3) [OF True] a FromBuffer obtain i where i: "i < j" "written_slot (lp_instructions lp ! i) s"
        unfolding plan_consistent_def by blast
      with j written [of "lp_instructions lp ! i"] have "\<exists>n. survives g n \<and> pt_slot ?T s = type_of (graph_nodes g) n"
        by (auto simp: written_slot_def)
      with args(2) FromBuffer show ?thesis by (auto simp: source_typed_def)
    next
      case (FromInput b)
      with args(2) lower_plan_outputs(2) [OF graph(4)] honest_entry(2) [OF external_table_honest [OF graph(2)], of b]
      show ?thesis by (auto simp: source_typed_def typing_of_def)
    next
      case (FromConstant b)
      with args(2) lower_plan_outputs(2) [OF graph(4)] honest_entry(2) [OF external_table_honest [OF graph(2)], of b]
      show ?thesis by (auto simp: source_typed_def typing_of_def)
    qed
  qed
qed

lemma lowered_kernel_types:
  assumes graph: "compile g = Inr plan" "length (graph_nodes g) \<le> u32_range" "validate_semantics g = Inr ()"
      "lower_plan plan (external_table g) = Inr lp"
    and k: "k \<in> set (lp_kernels lp)"
  shows "\<exists>n. survives g n \<and> n < length (graph_nodes g) \<and> family_of (node_operation (graph_nodes g ! n)) = Some (lk_family k) \<and> lk_result k = type_of (graph_nodes g) n"
    and "\<forall>t \<in> set (lk_operands k). \<exists>n. survives g n \<and> t = type_of (graph_nodes g) n"
proof -
  from k obtain i where i: "i < length (lp_kernels lp)" "lp_kernels lp ! i = k" by (auto simp: in_set_conv_nth)
  then have "i \<in> li_kernel ` set (lp_instructions lp)" using lower_plan_used [OF graph(4)] by (auto simp: kernels_used_def)
  then obtain d where d: "d \<in> set (lp_instructions lp)" "lp_kernels lp ! li_kernel d = k" using i(2) by auto
  show "\<exists>n. survives g n \<and> n < length (graph_nodes g) \<and> family_of (node_operation (graph_nodes g ! n)) = Some (lk_family k) \<and> lk_result k = type_of (graph_nodes g) n"
    using lowered_result_node [OF graph(1,2,4) d(1)] d(2) by auto
  have "instruction_consistent lp (typing_of plan (type_of (graph_nodes g)) (external_table g)) d"
    using lowered_plan_well_formed [OF graph] d(1) by (simp add: plan_well_formed_def plan_consistent_def)
  then have arg: "ka_tensor_type (li_arguments d ! q) = lk_operands k ! q" "q < length (li_arguments d)" if "q < length (lk_operands k)" for q
    using that d(2) by (simp_all add: instruction_consistent_def Let_def)
  show "\<forall>t \<in> set (lk_operands k). \<exists>n. survives g n \<and> t = type_of (graph_nodes g) n"
    using arg lowered_argument_type [OF graph d(1) nth_mem] by (metis in_set_conv_nth)
qed

lemma plan_types_nodes:
  assumes graph: "compile g = Inr plan" "length (graph_nodes g) \<le> u32_range" "validate_semantics g = Inr ()"
      "lower_plan plan (external_table g) = Inr lp"
    and ty: "ty \<in> plan_types lp (typing_of plan (type_of (graph_nodes g)) (external_table g)) (table_types g)"
  shows "\<exists>n. survives g n \<and> ty = type_of (graph_nodes g) n"
proof -
  from ty consider (argument) a d where "d \<in> set (lp_instructions lp)" "a \<in> set (li_arguments d)" "ty = ka_tensor_type a"
    | (external) b where "b < length (lp_bindings lp)"
      "external_type lp (typing_of plan (type_of (graph_nodes g)) (external_table g)) (table_types g) b = Some ty"
    unfolding plan_types_def by blast
  then show ?thesis
  proof cases
    case argument
    with lowered_argument_type [OF graph] show ?thesis by blast
  next
    case external
    have bindings: "lp_bindings lp = external_table g" by (rule lower_plan_outputs(2) [OF graph(4)])
    with external have "ty = type_of (graph_nodes g) (eb_node (external_table g ! b))"
      by (auto simp: external_type_def hint_for_def typing_of_def table_types_def split: if_splits dest!: map_of_SomeD)
    with honest_entry(2) [OF external_table_honest [OF graph(2)], of b] external(1) bindings show ?thesis by auto
  qed
qed

section \<open>Preparation on the CPU backend succeeds\<close>

text \<open>
  What the needed values of a program must satisfy: at most 32 axes, 64-bit dimensions, a 64-bit size in
  bytes and, for the two shapes of a permutation, 64-bit strides.
\<close>

definition runs_on_cpu :: "canonical_program \<Rightarrow> bool" where
  "runs_on_cpu p \<longleftrightarrow> (\<forall>n. survives (program_graph p) n \<longrightarrow>
     shape_encodable (pg_shapes p ! n) \<and> 4 * prod_list (pg_shapes p ! n) \<le> usize_max \<and>
     (\<forall>axes. node_operation (program_nodes p ! n) = Transpose axes \<longrightarrow>
        (\<forall>k \<in> set (n # node_inputs (program_nodes p ! n)). strides_fit (pg_shapes p ! k))))"

lemma encodable_dims:
  "shape_encodable sh \<Longrightarrow> nat_dims (layout_of sh) = sh"
proof -
  assume "shape_encodable sh"
  then have "d mod 18446744073709551616 = d" if "d \<in> set sh" for d using that by (intro mod_less) (auto simp: shape_encodable_def)
  then have "map (\<lambda>d. unat (word_of_nat d :: u64)) sh = sh" by (intro map_idI) (simp add: unat_of_nat)
  then show ?thesis by (simp add: nat_dims_def layout_of_def comp_def)
qed

text \<open>A permutation determines the shape it permutes.\<close>

lemma permutation_source:
  assumes "is_permutation axes" and "length axes = length xs" and "length axes = length ys" and "map ((!) xs) axes = map ((!) ys) axes"
  shows "xs = ys"
proof (rule nth_equalityI)
  fix i assume "i < length xs"
  then have "i \<in> set axes" using assms(1,2) by (simp add: is_permutation_def)
  with assms(4) show "xs ! i = ys ! i" by (auto simp: map_eq_conv)
qed (use assms in simp)

lemma survivor_type:
  assumes "program_ok p" and "survives (program_graph p) n"
  shows "n < program_size p" "type_of (program_nodes p) n = f32_tensor (pg_shapes p ! n)"
  using needed_less [OF program_wf [OF assms(1)], of n] assms node_shape by simp_all

lemma program_kernels_accepted:
  assumes ok: "program_ok p" and runs: "runs_on_cpu p"
    and graph: "compile (program_graph p) = Inr plan" "lower_plan plan (external_table (program_graph p)) = Inr lp"
    and k: "k \<in> set (lp_kernels lp)"
  shows "\<not> cpu_refuses k e"
proof -
  let ?g = "program_graph p"
  note valid = graph(1) program_small [OF ok] program_valid [OF ok] graph(2)
  have f32: "ty_shape (f32_tensor sh) = sh" "ty_dtype (f32_tensor sh) = F32" for sh by (simp_all add: f32_tensor_def tensor_type_new_def)
  from lowered_kernel_types(1) [OF valid k] obtain n where n: "survives ?g n" "n < program_size p"
    "family_of (node_operation (program_nodes p ! n)) = Some (lk_family k)" "lk_result k = f32_tensor (pg_shapes p ! n)"
    using survivor_type(2) [OF ok] by auto
  have operands: "\<exists>m. survives ?g m \<and> t = f32_tensor (pg_shapes p ! m)" if "t \<in> set (lk_operands k)" for t
    using lowered_kernel_types(2) [OF valid k] that survivor_type(2) [OF ok] by fastforce
  have offered: "offered (node_operation (program_nodes p ! n))" using ok n(2) by (simp add: program_ok_def nodes_offered_def)
  have typed: "kernel_typed k" using lowered_kernels_typed [OF valid] k by (simp add: list_all_iff)
  have node_typed: "op_typed (node_operation (program_nodes p ! n)) (map (type_of (program_nodes p)) (node_inputs (program_nodes p ! n)))
      (node_output (program_nodes p ! n))" using ok n(2) by (simp add: program_ok_def good_def typed_graph_def node_typed_def)
  have encodable: "shape_encodable (ty_shape (lk_result k))" "\<forall>t \<in> set (lk_operands k). shape_encodable (ty_shape t)"
    using runs n(1,4) operands by (simp_all add: runs_on_cpu_def f32) (metis f32(1))
  have fam: "lk_family k = the (family_of (node_operation (program_nodes p ! n)))" "family_of (node_operation (program_nodes p ! n)) \<noteq> None"
    using n(3) by simp_all
  have "\<not> transcendental k" using offered n(3) by (cases "node_operation (program_nodes p ! n)") (auto simp: transcendental_def)
  moreover have "factor_fits (lk_family k)"
  proof (cases "node_operation (program_nodes p ! n)")
    case (Scale factor)
    then have "lk_family k = ElementwiseUnary (ScaleKernel factor)" using n(3) by simp
    with Scale offered show ?thesis by simp
  qed (use fam offered in auto)
  then have "generatable k" using encodable n(4) by (simp add: generatable_def f32)
  moreover have "preparation_error (artifact_of k) = None"
  proof (cases "node_operation (program_nodes p ! n)")
    case (Transpose axes)
    with n(3) have family: "lk_family k = Permute axes" by simp
    with typed obtain a where a: "lk_operands k = [a]" "length axes = length (ty_shape a)" "is_permutation axes"
      "ty_shape (lk_result k) = map ((!) (ty_shape a)) axes" by (auto simp: kernel_typed_family)
    from node_typed Transpose obtain b where b: "map (type_of (program_nodes p)) (node_inputs (program_nodes p ! n)) = [b]"
      "length axes = length (ty_shape b)" "ty_shape (node_output (program_nodes p ! n)) = map ((!) (ty_shape b)) axes" by auto
    then obtain m where m: "node_inputs (program_nodes p ! n) = [m]" "b = type_of (program_nodes p) m" by (auto simp: map_eq_Cons_conv)
    have "ty_shape (node_output (program_nodes p ! n)) = ty_shape (lk_result k)" using ok n(2,4) by (simp add: program_ok_def f32)
    then have same: "ty_shape a = ty_shape b" using permutation_source [OF a(3,2) b(2)] a(4) b(3) by simp
    have "m < n" using ok nodes_ok_inputs [of "program_nodes p" n m] n(2) m(1) by (simp add: program_ok_def good_def)
    then have "ty_shape b = pg_shapes p ! m" using node_shape [OF ok, of m] n(2) m(2) by (simp add: f32)
    moreover have "strides_fit (pg_shapes p ! m)" "strides_fit (pg_shapes p ! n)" using runs n(1) Transpose m(1) by (auto simp: runs_on_cpu_def)
    ultimately have "permutation_fits (artifact_of k)"
      using encodable a(1) n(4) same by (simp add: permutation_fits_def artifact_of_def encodable_dims f32)
    then show ?thesis by (simp add: preparation_error_def artifact_of_def family)
  qed (use fam offered in \<open>auto simp: preparation_error_def artifact_of_def\<close>)
  ultimately show ?thesis by (auto simp: cpu_refuses_def)
qed

lemma program_checks_accepted:
  assumes ok: "program_ok p" and runs: "runs_on_cpu p"
    and graph: "compile (program_graph p) = Inr plan" "lower_plan plan (external_table (program_graph p)) = Inr lp"
  shows "\<not> prep_blocked cpu_capabilities lp (typing_of plan (type_of (program_nodes p)) (external_table (program_graph p)))
    (table_types (program_graph p)) e"
proof
  let ?g = "program_graph p"
  let ?bs = "external_table ?g" and ?T = "typing_of plan (type_of (program_nodes p)) (external_table ?g)" and ?hints = "table_types ?g"
  note valid = graph(1) program_small [OF ok] program_valid [OF ok] graph(2)
  have bindings: "lp_bindings lp = ?bs" by (rule lower_plan_outputs(2) [OF graph(2)])
  have hints: "map fst ?hints = map eb_node ?bs" by (simp add: table_types_def comp_def)
  have honest: "table_honest ?g ?bs" by (rule external_table_honest [OF program_small [OF ok]])
  have f32: "ty_shape (f32_tensor sh) = sh" "ty_dtype (f32_tensor sh) = F32" for sh by (simp_all add: f32_tensor_def tensor_type_new_def)
  have hint: "survives ?g n" "ty = type_of (program_nodes p) n" if "(n, ty) \<in> set ?hints" for n ty
    using that honest by (auto simp: table_types_def table_honest_def)
  have fits: "type_fits ty" if ty: "ty \<in> plan_types lp ?T ?hints" for ty
  proof -
    from plan_types_nodes [OF valid] ty obtain n where n: "survives ?g n" "ty = type_of (program_nodes p) n" by auto
    then have "ty_shape ty = pg_shapes p ! n" using survivor_type(2) [OF ok n(1)] by (simp add: f32)
    moreover from runs n(1) have "shape_encodable (pg_shapes p ! n)" "4 * prod_list (pg_shapes p ! n) \<le> usize_max"
      by (simp_all add: runs_on_cpu_def)
    ultimately show ?thesis by (auto simp: type_fits_def shape_encodable_def dest: checked_num_elements_Inr)
  qed
  assume "prep_blocked cpu_capabilities lp ?T ?hints e"
  then show False
  proof cases
    case no_f32
    then show False by (simp add: cpu_capabilities_def supports_dtype_def)
  next
    case workgroup
    then show False by (simp add: cpu_capabilities_def)
  next
    case (unknown_hint n ty)
    then show False using hints bindings by (metis fst_conv image_eqI list.set_map)
  next
    case (hint_dtype n ty)
    with hint survivor_type(2) [OF ok] show False by (metis f32(2))
  next
    case (duplicate_hint n ty)
    with hints honest show False by (simp add: table_honest_def)
  next
    case (contradiction b ty)
    with hint(2) [of "eb_node (?bs ! b)" ty] bindings show False by (simp add: typing_of_def)
  next
    case (argument_dtype i a)
    with lowered_argument_type [OF valid] survivor_type(2) [OF ok] show False by (metis f32(2) program_graph_nodes)
  next
    case (oversized ty)
    with fits show False by blast
  next
    case (limited ty limit)
    then show False by (simp add: cpu_capabilities_def)
  next
    case (undetermined b)
    then have "eb_node (?bs ! b) \<in> fst ` set ?hints" using hints bindings by (metis length_map list.set_map nth_map nth_mem)
    with undetermined bindings show False by (auto simp: external_type_def hint_for_def map_of_eq_None_iff split: if_splits)
  qed
qed

lemma program_prepares:
  assumes ok: "program_ok p" and outs: "pg_outputs p \<noteq> []" and runs: "runs_on_cpu p"
  shows "\<exists>ses. program_prepare (cpu_backend reserve A) p h = (h, Inr ses)"
proof -
  let ?g = "program_graph p" and ?B = "cpu_backend reserve A"
  let ?T = "\<lambda>plan. typing_of plan (type_of (program_nodes p)) (external_table ?g)"
  note decided = program_prepare_decided [OF ok, where B = ?B and s = h]
  have prepared: "h' = h \<and> (\<exists>q. r = Inr q)" if graph: "compile ?g = Inr plan" "lower_plan plan (external_table ?g) = Inr lp"
    and run: "prepare_with_external_types ?B lp (table_types ?g) h = (h', r)" for plan lp h' r
  proof -
    have wf: "plan_well_formed lp (?T plan)"
      using lowered_plan_well_formed [OF graph(1) program_small [OF ok] program_valid [OF ok] graph(2)] by simp
    have caps: "be_capabilities ?B = cpu_capabilities" by (rule cpu_backend_capabilities)
    have kernels: "\<exists>ks. compile_kernels ?B lp h = (h, Inr ks)"
      using cpu_kernels [OF wf, where reserve = reserve and A = A and heap = h] program_kernels_accepted [OF ok runs graph]
      by (cases "compile_kernels ?B lp h") (auto split: sum.splits)
    from prepare_decided [OF wf, where B = ?B and hints = "table_types ?g" and s = h] run kernels
      program_checks_accepted [OF ok runs graph]
    show ?thesis by (cases r) (auto simp: caps)
  qed
  have unblocked: "\<not> (survives ?g n \<and> \<not> countable (pg_shapes p ! n))" for n
    using runs by (auto simp: runs_on_cpu_def shape_encodable_def)
  obtain h' r where run: "program_prepare ?B p h = (h', r)" by (cases "program_prepare ?B p h")
  show ?thesis
  proof (cases r)
    case (Inl f)
    with decided run outs unblocked obtain plan lp f' where "compile ?g = Inr plan" "lower_plan plan (external_table ?g) = Inr lp"
      "prepare_with_external_types ?B lp (table_types ?g) h = (h', Inl f')" by (simp add: Bex_def) metis
    with prepared show ?thesis by blast
  next
    case (Inr ses)
    with decided run have session: "session_prepare ?B ?g (program_constants p) h = (h', Inr (cs_session ses))" by simp
    from prepared_session_built [OF program_small [OF ok] program_valid [OF ok] this] obtain plan lp q where
      "compile ?g = Inr plan" "lower_plan plan (external_table ?g) = Inr lp"
      "prepare_with_external_types ?B lp (table_types ?g) h = (h', Inr q)" by metis
    with prepared run Inr show ?thesis by blast
  qed
qed

section \<open>Execution on the CPU backend completes\<close>

lemma program_batches:
  assumes ok: "program_ok p" and graph: "compile (program_graph p) = Inr plan" "lower_plan plan (external_table (program_graph p)) = Inr lp"
    and k: "k \<in> set (lp_kernels lp)"
  shows "batch_fits (artifact_of k)"
proof -
  from lowered_kernel_types(1) [OF graph(1) program_small [OF ok] program_valid [OF ok] graph(2) k] obtain n where
    n: "n < program_size p" "family_of (node_operation (program_nodes p ! n)) = Some (lk_family k)" by auto
  have "offered (node_operation (program_nodes p ! n))" using ok n(1) by (simp add: program_ok_def nodes_offered_def)
  with n(2) have "lk_family k \<noteq> BatchMatMulKernel" by (cases "node_operation (program_nodes p ! n)") auto
  then have "opcode_of (lk_family k) \<noteq> OpBatchMatMul" by (cases "lk_family k" rule: opcode_of.cases) simp_all
  then show ?thesis by (simp add: batch_fits_def artifact_of_def)
qed

lemma match_not_rejected:
  assumes "inputs_match p inputs"
  shows "\<not> inputs_rejected p inputs e"
proof
  assume "inputs_rejected p inputs e"
  then show False
  proof cases
    case (duplicate i)
    have "length (filter (\<lambda>(j, _). j = i) inputs) = length (filter ((=) i) (map fst inputs))"
      by (simp add: filter_map comp_def case_prod_unfold eq_commute)
    also have "\<dots> = card ({x. i = x} \<inter> set (map fst inputs))"
      using assms by (intro distinct_length_filter) (simp add: inputs_match_def)
    also have "\<dots> \<le> 1" by (rule order_trans [OF card_mono [OF _ Int_lower1]]) simp_all
    finally show False using duplicate by simp
  qed (use assms in \<open>auto simp: inputs_match_def\<close>)
qed

lemma program_completes:
  assumes ok: "program_ok p" and prep: "program_prepare (cpu_backend reserve A) p h0 = (h1, Inr ses)"
    and memory: "\<And>n. cpu_grants reserve n" and ready: "cpu_ready h2" and fit: "inputs_match p inputs"
  shows "\<exists>h3 r. canonical_execute ses inputs h2 = (h3, r) \<and>
    (case r of
       Inr ts \<Rightarrow> (\<forall>v \<in> set (pg_outputs p). \<exists>s. contiguous (value_shape p v) = Inr s) \<and> ts = map (program_tensor A p inputs) (pg_outputs p)
     | Inl f \<Rightarrow> \<exists>v \<in> set (pg_outputs p). (\<forall>s. contiguous (value_shape p v) \<noteq> Inr s) \<and> f = Err (OutputConstruction (value_shape p v) 0))"
proof -
  let ?g = "program_graph p" and ?b = "bound_inputs p inputs"
  from program_prepare_decided [OF ok, where B = "cpu_backend reserve A" and s = h0] prep
  have session: "session_prepare (cpu_backend reserve A) ?g (program_constants p) h0 = (h1, Inr (cs_session ses))" by simp
  have "\<exists>h3 ys. session_execute (cs_session ses) ?b h2 = (h3, Inr ys)"
    by (rule session_total [OF program_small [OF ok] program_valid [OF ok] session ready _ bound_fit [OF ok fit]])
      (use memory program_batches [OF ok] in auto)
  then obtain h' ys where run: "session_execute (cs_session ses) ?b h2 = (h', Inr ys)" by blast
  obtain h3 r where r: "canonical_execute ses inputs h2 = (h3, r)" by (cases "canonical_execute ses inputs h2")
  note decided = execute_decided [OF ok prep, where inputs = inputs and ?h2.0 = h2]
  show ?thesis
  proof (cases r)
    case (Inl f)
    with decided r run match_not_rejected [OF fit, where ?'a = cpu_error] show ?thesis by auto
  next
    case (Inr ts)
    with decided r have "ts = map (program_tensor A p inputs) (pg_outputs p)" "\<forall>t \<in> set ts. nd_ok t" by simp_all
    then have "\<forall>v \<in> set (pg_outputs p). \<exists>s. contiguous (value_shape p v) = Inr s" by (auto simp: nd_ok_def program_tensor_def)
    with decided r Inr show ?thesis by simp
  qed
qed

end
