(* ===== verification/Canonical_Theorems.thy ===== *)
theory Canonical_Theorems
  imports Canonical_Progress
begin

text \<open>
  The contract of the canonical front end: what every call of the builder does, the programs it can
  build, when a program becomes a session, what an execution returns and when it completes.
\<close>

section \<open>Building\<close>

text \<open>
  C25: every call on a program that calls have built either is refused with an error whose reason holds and
  leaves the program as it was, or has exactly its effect (one node, or the output list) and returns
  the handle of the new node; a call is accepted exactly when no reason to refuse it holds, and no
  call panics.
\<close>

theorem canonical_calls_decide:
  assumes "built p"
  shows "case perform c p of
      (p', Inl f) \<Rightarrow> p' = p \<and> (\<exists>e. f = Err e \<and> call_refused p c e)
    | (p', Inr r) \<Rightarrow> p' = call_effect c p \<and> r = call_value c p \<and> (\<nexists>e. call_refused p c e)"
  using calls_meet_contract [OF built_ok [OF assms], of c] by (auto simp: call_contract_def split: prod.splits sum.splits)

text \<open>
  C26: whatever the calls, the program's graph with its outputs is structurally valid and well-typed, every
  value is F32 with the shape the program records, every declared input and every constant is a node of
  the graph, input names are distinct, and constants are dense tensors of the shape of their node.
\<close>

theorem built_programs_valid:
  assumes "built p"
  shows "validate (program_graph p) = Inr () \<and> validate_semantics (program_graph p) = Inr () \<and>
    pg_shapes p = map (\<lambda>n. ty_shape (node_output n)) (program_nodes p) \<and>
    (\<forall>n \<in> set (program_nodes p). ty_dtype (node_output n) = F32 \<and> offered (node_operation n)) \<and>
    inputs_declared (program_nodes p) (pg_inputs p) \<and> constants_kept (program_nodes p) (pg_constants p)"
proof -
  have ok: "program_ok p" by (rule built_ok [OF assms])
  have "validate (program_graph p) = Inr ()" using program_wf [OF ok] by (simp add: validate_iff_wf)
  with program_valid [OF ok] ok show ?thesis by (simp add: program_ok_def nodes_offered_def)
qed

section \<open>Preparing\<close>

text \<open>
  preparing a built program on any backend. It fails without touching the backend when there is no
  output or when the element count of a computed value that an output needs overflows (which a
  permutation of a shape with a zero can cause); otherwise it fails exactly as the preparation of the
  lowered plan does, or it returns the session with the needed inputs and the declared outputs. The
  errors for rejected outputs, unknown inputs and miscounted outputs cannot occur, nor can any error of
  the graph session about constants, inputs or compilation.
\<close>

theorem canonical_preparation_decides:
  fixes B :: "('s, 'b, 'k, 't, 'v, 'e) backend"
  assumes "built p"
  shows "case program_prepare B p s of
      (s', Inl f) \<Rightarrow> pg_outputs p = [] \<and> s' = s \<and> f = Err CanonicalNoOutputs \<or>
        pg_outputs p \<noteq> [] \<and>
          ((\<exists>n. survives (program_graph p) n \<and> computed (node_operation (program_nodes p ! n)) \<and> \<not> countable (pg_shapes p ! n) \<and> s' = s \<and>
              f = Err (GraphSessionPreparation (SessionCompilerPipeline (PipelineLowering (IrLowering (DispatchExtentOverflow n)))))) \<or>
           (\<exists>plan lp f'. compile (program_graph p) = Inr plan \<and> lower_plan plan (external_table (program_graph p)) = Inr lp \<and>
              prepare_with_external_types B lp (table_types (program_graph p)) s = (s', Inl f') \<and>
              Inl f = map_err GraphSessionPreparation (map_err PlanPreparation (Inl f' :: ('e prep_error, unit) outcome))))
    | (s', Inr ses) \<Rightarrow> pg_outputs p \<noteq> [] \<and> ses = canonical_session_of p (cs_session ses) \<and>
        session_prepare B (program_graph p) (program_constants p) s = (s', Inr (cs_session ses))"
  by (rule program_prepare_decided [OF built_ok [OF assms]])

section \<open>Executing\<close>

lemma bound_inputs_mset:
  assumes same: "mset inputs' = mset inputs" and fit: "inputs_match p inputs"
  shows "inputs_match p inputs' \<and> bound_inputs p inputs' = bound_inputs p inputs"
proof -
  have set: "set inputs' = set inputs" using same by (rule mset_eq_setD)
  have "mset (map fst inputs') = mset (map fst inputs)" using same by simp
  then have dist: "distinct (map fst inputs')" using fit mset_eq_imp_distinct_iff [of "map fst inputs'" "map fst inputs"] by (simp add: inputs_match_def)
  then have "map_of inputs' = map_of inputs" using map_of_mset [OF same] by simp
  then show ?thesis using fit dist by (simp add: inputs_match_def bound_inputs_def set)
qed

text \<open>
  C27: on any backend, inputs that do not match the session (an input unneeded, supplied twice, missing, of
  another shape or not dense) are refused with an error whose reason holds and the backend is not
  called; matching inputs are handed to the graph session in declaration order, and the order in which
  they were bound has no effect.
\<close>

theorem canonical_inputs_decide:
  fixes B :: "('s, 'b, 'k, 't, 'v, 'e) backend"
  assumes "built p" and "program_prepare B p s0 = (s1, Inr ses)"
  shows "if inputs_match p inputs
    then canonical_execute ses inputs s =
        act_bind (act_map_err GraphSessionExecution (session_execute (cs_session ses) (bound_inputs p inputs)))
          (\<lambda>produced. act_lift (traverse output_tensor produced)) s \<and>
      (mset inputs' = mset inputs \<longrightarrow> canonical_execute ses inputs' s = canonical_execute ses inputs s)
    else \<exists>e. canonical_execute ses inputs s = (s, fail e) \<and> inputs_rejected p inputs e"
proof -
  from program_prepare_decided [OF built_ok [OF assms(1)], where B = B and s = s0] assms(2)
  have "ses = canonical_session_of p (cs_session ses)" by simp
  then have specs: "cs_inputs ses = map (required_spec p) (required_nodes_of p)" by (metis canonical_session_of_def canonical_session.select_convs(2))
  have accepted: "canonical_execute ses xs s =
      act_bind (act_map_err GraphSessionExecution (session_execute (cs_session ses) (bound_inputs p xs)))
        (\<lambda>produced. act_lift (traverse output_tensor produced)) s" if "inputs_match p xs" for xs
  proof (cases "canonical_bound (cs_inputs ses) xs :: ('e canonical_exec_error, _) outcome")
    case (Inl f)
    with canonical_bound_decided [of p xs, where ?'e = 'e] match_not_rejected [OF that, where ?'a = 'e] show ?thesis by (auto simp: specs)
  next
    case (Inr b)
    with canonical_bound_decided [of p xs, where ?'e = 'e] have "b = bound_inputs p xs" by (simp add: specs)
    with Inr show ?thesis by (simp add: canonical_execute_def act_bind_lift)
  qed
  show ?thesis
  proof (cases "inputs_match p inputs")
    case True
    then show ?thesis using accepted [OF True] accepted [of inputs'] bound_inputs_mset [OF _ True, of inputs'] by simp
  next
    case False
    with canonical_bound_decided [of p inputs, where ?'e = 'e] show ?thesis
      by (cases "canonical_bound (cs_inputs ses) inputs :: ('e canonical_exec_error, _) outcome")
        (auto simp: specs canonical_execute_def act_bind_lift)
  qed
qed

text \<open>
  C6: end to end on the CPU backend: whatever an execution of a prepared program returns, it is the list
  of the declared outputs, in order, as dense tensors of the recorded shapes, holding the values that
  the program's graph gives them over its constants and the bound inputs. An execution fails only by
  refusing its inputs, in the graph session, or because the strides of an empty output overflow.
\<close>

theorem canonical_refines:
  assumes "built p" and "program_prepare (cpu_backend reserve A) p h0 = (h1, Inr ses)"
  shows "case canonical_execute ses inputs h2 of
      (h3, Inr ts) \<Rightarrow> inputs_match p inputs \<and> ts = map (program_tensor A p inputs) (pg_outputs p) \<and> (\<forall>t \<in> set ts. nd_ok t)
    | (h3, Inl f) \<Rightarrow> h3 = h2 \<and> inputs_halt p inputs f \<or>
        inputs_match p inputs \<and>
          ((\<exists>f'. session_execute (cs_session ses) (bound_inputs p inputs) h2 = (h3, Inl f') \<and>
              Inl f = map_err GraphSessionExecution (Inl f' :: (cpu_error session_exec_error, unit) outcome)) \<or>
           (\<exists>v \<in> set (pg_outputs p). (\<forall>s. contiguous (value_shape p v) \<noteq> Inr s) \<and> prod_list (value_shape p v) = 0 \<and>
              f = Err (OutputConstruction (value_shape p v) 0)))"
  by (rule execute_decided [OF built_ok [OF assms(1)] assms(2)])

text \<open>
  C7: a built program with outputs whose needed values have at most 32 axes, 64-bit sizes and (under
  permutations) 64-bit strides is prepared by the CPU backend, and each execution over matching inputs
  completes when the allocator grants memory and no buffer is borrowed: it returns the outputs exactly
  when the strides of every output shape are 64-bit numbers, and otherwise reports such an output.
\<close>

theorem canonical_completes:
  assumes "built p" and "pg_outputs p \<noteq> []" and "runs_on_cpu p" and "\<And>n. cpu_grants reserve n"
    and "cpu_ready h2" and "inputs_match p inputs"
  shows "\<exists>ses h3 r. program_prepare (cpu_backend reserve A) p h = (h, Inr ses) \<and> canonical_execute ses inputs h2 = (h3, r) \<and>
    (case r of
       Inr ts \<Rightarrow> (\<forall>v \<in> set (pg_outputs p). \<exists>s. contiguous (value_shape p v) = Inr s) \<and> ts = map (program_tensor A p inputs) (pg_outputs p)
     | Inl f \<Rightarrow> \<exists>v \<in> set (pg_outputs p). (\<forall>s. contiguous (value_shape p v) \<noteq> Inr s) \<and> f = Err (OutputConstruction (value_shape p v) 0))"
proof -
  have ok: "program_ok p" by (rule built_ok [OF assms(1)])
  obtain ses where ses: "program_prepare (cpu_backend reserve A) p h = (h, Inr ses)" using program_prepares [OF ok assms(2,3)] by blast
  from program_completes [OF ok this assms(4-6)] ses show ?thesis by blast
qed

end
