(* ===== verification/Canonical_Examples.thy ===== *)
theory Canonical_Examples
  imports Canonical_Theorems
begin

text \<open>
  Two concrete programs: one doubles a vector; the other reshapes an empty vector to a shape whose strides
  overflow, so that its execution ends in the error the source calls defensive.
\<close>

declare One_nat_def [simp del]

definition run_calls :: "canonical_call list \<Rightarrow> canonical_program" where
  "run_calls cs = foldl (\<lambda>p c. fst (perform c p)) program_new cs"

lemma run_calls_built: "built (run_calls cs)"
  unfolding run_calls_def by (induction cs rule: rev_induct) (simp_all add: built.intros)

definition doubling_program :: canonical_program where
  "doubling_program = run_calls [CallInput ''x'' [2], CallAdd (CanonicalValue 0) (CanonicalValue 0), CallOutputs [CanonicalValue 1]]"

definition overflow_shape :: shape where
  "overflow_shape = [0, 9223372036854775808, 4]"

definition overflow_program :: canonical_program where
  "overflow_program = run_calls [CallInput ''x'' [0], CallReshape (CanonicalValue 0) overflow_shape, CallOutputs [CanonicalValue 1]]"

lemma counts: "checked_num_elements [2] = Inr 2" "checked_num_elements [0] = Inr 0" "checked_num_elements overflow_shape = Inr 0"
  by (simp_all add: checked_num_elements_def checked_mul_def overflow_shape_def)

lemma elements: "canonical_elements [2] = Some 2" "canonical_elements [0] = Some 0" "canonical_elements overflow_shape = Some 0"
  by (simp_all add: canonical_elements_Some counts)

text \<open>A two-node program over one vector.\<close>

abbreviation chain_of :: "operation \<Rightarrow> node_id list \<Rightarrow> shape \<Rightarrow> shape \<Rightarrow> canonical_program" where
  "chain_of oper ins source target \<equiv>
     \<lparr>pg_graph = \<lparr>graph_nodes = [\<lparr>node_operation = Input ''x'', node_inputs = [], node_output = f32_tensor source\<rparr>,
        \<lparr>node_operation = oper, node_inputs = ins, node_output = f32_tensor target\<rparr>], graph_outputs = []\<rparr>,
      pg_shapes = [source, target], pg_inputs = [\<lparr>di_input = CanonicalInput 0, di_name = ''x''\<rparr>], pg_constants = [],
      pg_outputs = [CanonicalValue 1]\<rparr>"

lemmas call_defs = program_input_def program_add_def program_reshape_def program_set_outputs_def program_binary_def program_push_def
  graph_call_def program_read_def program_modify_def push_shape_def act_bind_def act_lift_def act_return_def add_input_def add_node_def
  check_inputs_def require_def shape_of_def program_new_def graph_new_def get_def Let_def

lemma doubling_eq: "doubling_program = chain_of Add [0, 0] [2] [2]"
  by (simp add: doubling_program_def run_calls_def call_defs elements)

lemma overflow_eq: "overflow_program = chain_of (Reshape overflow_shape) [0] [0] overflow_shape"
  by (simp add: overflow_program_def run_calls_def call_defs elements)

lemma chain_survives:
  assumes "ins \<noteq> []" and "set ins = {0}"
  shows "needed (program_nodes (chain_of oper ins source target)) [1] = {0, 1}"
proof -
  let ?ns = "program_nodes (chain_of oper ins source target)"
  have one: "1 \<in> needed ?ns [1]" by (rule needed_output) simp
  have "0 \<in> set (node_inputs (?ns ! 1))" using assms(2) by simp
  from needed_input [OF one _ this] have "0 \<in> needed ?ns [1]" by simp
  moreover have "n \<in> {0, 1}" if "n \<in> needed ?ns [1]" for n using that
    by (induction rule: needed_induct) (use assms(2) in \<open>auto simp: nth_Cons split: nat.splits\<close>)
  ultimately show ?thesis using one by blast
qed

lemma chain_required:
  assumes "ins \<noteq> []" and "set ins = {0}" and "\<forall>name. oper \<noteq> Input name"
  shows "required_nodes_of (chain_of oper ins source target) = [0]"
proof -
  have "needed_list (program_graph (chain_of oper ins source target)) = [0, 1]"
    using chain_survives [OF assms(1,2), where oper = oper and source = source and target = target] by (simp add: needed_list_def upt_rec)
  then show ?thesis using assms(3) by (cases oper) (auto simp: required_nodes_of_def kind_of_def)
qed

text \<open>The two programs run on the CPU backend.\<close>

lemma chain_runs:
  assumes "ins \<noteq> []" and "set ins = {0}" and "\<forall>axes. oper \<noteq> Transpose axes"
    and "\<forall>sh \<in> {source, target}. shape_encodable sh \<and> 4 * prod_list sh \<le> usize_max"
  shows "runs_on_cpu (chain_of oper ins source target)"
  unfolding runs_on_cpu_def program_graph_nodes program_graph_outputs
  using chain_survives [OF assms(1,2), where oper = oper and source = source and target = target] assms(3,4) by auto

lemma encodable: "shape_encodable [2]" "shape_encodable [0]" "shape_encodable overflow_shape"
  using counts by (auto simp: shape_encodable_def overflow_shape_def)

lemma doubling_runs: "runs_on_cpu doubling_program" "pg_outputs doubling_program \<noteq> []" "built doubling_program"
proof -
  show "runs_on_cpu doubling_program" unfolding doubling_eq by (rule chain_runs) (simp_all add: encodable)
  show "pg_outputs doubling_program \<noteq> []" by (simp add: doubling_eq)
  show "built doubling_program" unfolding doubling_program_def by (rule run_calls_built)
qed

lemma overflow_product: "prod_list overflow_shape = 0"
  by (simp add: overflow_shape_def)

lemma overflow_runs: "runs_on_cpu overflow_program" "pg_outputs overflow_program \<noteq> []" "built overflow_program"
proof -
  show "runs_on_cpu overflow_program" unfolding overflow_eq by (rule chain_runs) (simp_all add: encodable overflow_product)
  show "pg_outputs overflow_program \<noteq> []" by (simp add: overflow_eq)
  show "built overflow_program" unfolding overflow_program_def by (rule run_calls_built)
qed

abbreviation pair_tensor :: tensor_nd where
  "pair_tensor \<equiv> \<lparr>nd_data = [1, 2], nd_shape = [2], nd_strides = [1]\<rparr>"

abbreviation empty_tensor :: tensor_nd where
  "empty_tensor \<equiv> \<lparr>nd_data = [], nd_shape = [0], nd_strides = [1]\<rparr>"

lemma chain_match:
  assumes "ins \<noteq> []" and "set ins = {0}" and "\<forall>name. oper \<noteq> Input name" and "nd_shape t = source" and "nd_ok t"
  shows "inputs_match (chain_of oper ins source target) [(CanonicalInput 0, t)]"
  using assms(4,5) by (simp add: inputs_match_def chain_required [OF assms(1-3)])

lemma doubling_match: "inputs_match doubling_program [(CanonicalInput 0, pair_tensor)]"
  unfolding doubling_eq by (rule chain_match) (simp_all add: nd_ok_def counts)

lemma overflow_match: "inputs_match overflow_program [(CanonicalInput 0, empty_tensor)]"
  unfolding overflow_eq by (rule chain_match) (simp_all add: nd_ok_def counts)

lemma granting_grants: "cpu_grants granting n"
  by (simp add: cpu_grants_def granting_def)

lemma overflow_strides: "contiguous overflow_shape \<noteq> Inr s"
  by (simp add: overflow_shape_def checked_mul_def)

section \<open>A defensive error that happens\<close>

text \<open>
  The program reshapes an empty vector: every check of the builder, of the compiler and of the CPU backend
  passes, and the execution over the empty vector ends in \<open>OutputConstruction\<close>.
\<close>

theorem output_construction_reachable:
  "\<exists>ses h. program_prepare (cpu_backend granting A) overflow_program [] = ([], Inr ses) \<and>
     canonical_execute ses [(CanonicalInput 0, empty_tensor)] [] = (h, fail (OutputConstruction overflow_shape 0))"
proof -
  have ok: "program_ok overflow_program" by (rule built_ok [OF overflow_runs(3)])
  obtain ses where ses: "program_prepare (cpu_backend granting A) overflow_program [] = ([], Inr ses)"
    using program_prepares [OF ok overflow_runs(2,1)] by blast
  have shape: "\<forall>v \<in> set (pg_outputs overflow_program). value_shape overflow_program v = overflow_shape" "pg_outputs overflow_program \<noteq> []"
    by (simp_all add: overflow_eq)
  have "cpu_ready []" by (simp add: cpu_ready_def)
  from program_completes [OF ok ses granting_grants this overflow_match] ses shape overflow_strides
  show ?thesis by (fastforce split: sum.splits)
qed

section \<open>A permutation that cannot be counted\<close>

definition uncountable_program :: canonical_program where
  "uncountable_program = run_calls [CallInput ''x'' overflow_shape, CallPermute (CanonicalValue 0) [1, 2, 0], CallOutputs [CanonicalValue 1]]"

lemma uncountable_eq:
  "uncountable_program = chain_of (Transpose [1, 2, 0]) [0] overflow_shape [9223372036854775808, 4, 0]"
proof -
  have sorted: "(\<exists>(axis, value) \<in> set (enumerate 0 (sort [1, 2, 0 :: nat])). value \<noteq> axis) \<longleftrightarrow> False" by simp
  show ?thesis
    unfolding uncountable_program_def run_calls_def
    by (simp add: call_defs program_permute_def elements sorted) (simp add: overflow_shape_def)
qed

text \<open>
  The dimensions of a declared input are counted from the left, and a zero hides the overflow of the
  others; permuted, the same dimensions overflow, and the preparation reports it on every backend.
\<close>

theorem permuted_count_overflows:
  "program_prepare B uncountable_program s =
     (s, fail (GraphSessionPreparation (SessionCompilerPipeline (PipelineLowering (IrLowering (DispatchExtentOverflow 1))))))"
proof -
  let ?p = uncountable_program
  have "built ?p" unfolding uncountable_program_def by (rule run_calls_built)
  then have ok: "program_ok ?p" by (rule built_ok)
  have bad: "survives (program_graph ?p) 1" "\<not> countable (pg_shapes ?p ! 1)"
    using chain_survives [where ins = "[0]" and oper = "Transpose [1, 2, 0]"]
    by (simp_all add: uncountable_eq checked_num_elements_def checked_mul_def)
  have only: "n = 1" if "survives (program_graph ?p) n" "computed (node_operation (program_nodes ?p ! n))" for n
    using that chain_survives [where ins = "[0]" and oper = "Transpose [1, 2, 0]"] by (auto simp: uncountable_eq computed_def)
  obtain s' r where run: "program_prepare B ?p s = (s', r)" by (cases "program_prepare B ?p s")
  show ?thesis
  proof (cases r)
    case (Inl f)
    have "pg_outputs ?p \<noteq> []" by (simp add: uncountable_eq)
    with program_prepare_decided [OF ok, where B = B and s = s] run Inl lowered_countable [OF ok _ _ bad(1)] bad(2) only
    show ?thesis by (simp del: One_nat_def) metis
  next
    case (Inr ses)
    with program_prepare_decided [OF ok, where B = B and s = s] run prepared_countable [OF ok _ bad(1)] bad(2) show ?thesis by fastforce
  qed
qed

section \<open>Witnesses\<close>

theorem canonical_calls_decide_witness:
  "perform (CallAdd (CanonicalValue 0) (CanonicalValue 7)) doubling_program = (doubling_program, fail (ForeignValue (CanonicalValue 7))) \<and>
   (\<exists>e. call_refused doubling_program (CallAdd (CanonicalValue 0) (CanonicalValue 7)) e)"
proof -
  have "perform (CallAdd (CanonicalValue 0) (CanonicalValue 7)) doubling_program = (doubling_program, fail (ForeignValue (CanonicalValue 7)))"
    by (simp add: doubling_eq call_defs)
  with canonical_calls_decide [OF doubling_runs(3), of "CallAdd (CanonicalValue 0) (CanonicalValue 7)"] show ?thesis by auto
qed

theorem built_programs_valid_witness:
  "validate_semantics (program_graph overflow_program) = Inr () \<and> pg_shapes overflow_program = [[0], overflow_shape]"
  using built_programs_valid [OF overflow_runs(3)] by (simp add: overflow_eq)

theorem canonical_preparation_decides_witness:
  "\<exists>ses. program_prepare (cpu_backend granting text_arithmetic) doubling_program [] = ([], Inr ses) \<and>
     ses = canonical_session_of doubling_program (cs_session ses)"
proof -
  obtain ses where ses: "program_prepare (cpu_backend granting text_arithmetic) doubling_program [] = ([], Inr ses)"
    using program_prepares [OF built_ok [OF doubling_runs(3)] doubling_runs(2,1)] by blast
  with canonical_preparation_decides [OF doubling_runs(3), where B = "cpu_backend granting text_arithmetic" and s = "[]"] show ?thesis by auto
qed

theorem canonical_inputs_decide_witness:
  "\<exists>ses e. program_prepare (cpu_backend granting text_arithmetic) doubling_program [] = ([], Inr ses) \<and>
     canonical_execute ses [(CanonicalInput 0, empty_tensor)] [] = ([], fail e) \<and> inputs_rejected doubling_program [(CanonicalInput 0, empty_tensor)] e"
proof -
  obtain ses where ses: "program_prepare (cpu_backend granting text_arithmetic) doubling_program [] = ([], Inr ses)"
    using program_prepares [OF built_ok [OF doubling_runs(3)] doubling_runs(2,1)] by blast
  have "\<not> inputs_match doubling_program [(CanonicalInput 0, empty_tensor)]" by (simp add: inputs_match_def doubling_eq)
  with canonical_inputs_decide [OF doubling_runs(3) ses, of "[(CanonicalInput 0, empty_tensor)]" "[]"] ses show ?thesis by auto
qed

theorem canonical_completes_witness:
  "\<exists>ses h ts. program_prepare (cpu_backend granting text_arithmetic) doubling_program [] = ([], Inr ses) \<and>
     canonical_execute ses [(CanonicalInput 0, pair_tensor)] [] = (h, Inr ts) \<and>
     ts = map (program_tensor text_arithmetic doubling_program [(CanonicalInput 0, pair_tensor)]) [CanonicalValue 1]"
proof -
  have "cpu_ready []" by (simp add: cpu_ready_def)
  from canonical_completes [OF doubling_runs(3,2,1) granting_grants this doubling_match, where A = text_arithmetic and h = "[]"]
  obtain ses h r where run: "program_prepare (cpu_backend granting text_arithmetic) doubling_program [] = ([], Inr ses) \<and>
    canonical_execute ses [(CanonicalInput 0, pair_tensor)] [] = (h, r) \<and>
    (case r of
       Inr ts \<Rightarrow> (\<forall>v \<in> set (pg_outputs doubling_program). \<exists>s. contiguous (value_shape doubling_program v) = Inr s) \<and>
         ts = map (program_tensor text_arithmetic doubling_program [(CanonicalInput 0, pair_tensor)]) (pg_outputs doubling_program)
     | Inl f \<Rightarrow> \<exists>v \<in> set (pg_outputs doubling_program). (\<forall>s. contiguous (value_shape doubling_program v) \<noteq> Inr s) \<and>
         f = Err (OutputConstruction (value_shape doubling_program v) 0))" by blast
  have outs: "pg_outputs doubling_program = [CanonicalValue 1]" "pg_shapes doubling_program ! 1 = [2]" by (simp_all add: doubling_eq)
  show ?thesis
  proof (cases r)
    case (Inl f)
    with run show ?thesis by (simp add: outs)
  next
    case (Inr ts)
    with run outs show ?thesis by auto
  qed
qed

lemma doubling_output:
  "program_tensor text_arithmetic doubling_program [(CanonicalInput 0, pair_tensor)] (CanonicalValue 1) =
     \<lparr>nd_data = [2, 4], nd_shape = [2], nd_strides = [1]\<rparr>"
  by (simp add: program_tensor_def doubling_eq node_value.simps computed_def direct_semantics_def reference_kernels_def kernel_spec_def
      artifact_of_def program_values_def text_arithmetic_def)

theorem canonical_refines_witness:
  "\<exists>ses h. program_prepare (cpu_backend granting text_arithmetic) doubling_program [] = ([], Inr ses) \<and>
     canonical_execute ses [(CanonicalInput 0, pair_tensor)] [] = (h, Inr [\<lparr>nd_data = [2, 4], nd_shape = [2], nd_strides = [1]\<rparr>])"
proof -
  have ok: "program_ok doubling_program" by (rule built_ok [OF doubling_runs(3)])
  obtain ses where ses: "program_prepare (cpu_backend granting text_arithmetic) doubling_program [] = ([], Inr ses)"
    using program_prepares [OF ok doubling_runs(2,1)] by blast
  have ready: "cpu_ready []" by (simp add: cpu_ready_def)
  obtain h r where r: "canonical_execute ses [(CanonicalInput 0, pair_tensor)] [] = (h, r)" by (cases "canonical_execute ses [(CanonicalInput 0, pair_tensor)] []")
  from program_completes [OF ok ses granting_grants ready doubling_match] r obtain ts where "r = Inr ts"
    by (auto simp: doubling_eq split: sum.splits)
  with r canonical_refines [OF doubling_runs(3) ses, where inputs = "[(CanonicalInput 0, pair_tensor)]" and ?h2.0 = "[]"]
  have "ts = map (program_tensor text_arithmetic doubling_program [(CanonicalInput 0, pair_tensor)]) (pg_outputs doubling_program)" by simp
  moreover have "pg_outputs doubling_program = [CanonicalValue 1]" by (simp add: doubling_eq)
  ultimately have "ts = [\<lparr>nd_data = [2, 4], nd_shape = [2], nd_strides = [1]\<rparr>]" by (simp add: doubling_output)
  with ses r \<open>r = Inr ts\<close> show ?thesis by blast
qed

end
