(* ===== verification/Optimize_Semantics.thy ===== *)
theory Optimize_Semantics
  imports Plan_Execution
begin

text \<open>
  The optimizer of \<open>optimize.rs\<close> preserves the values of a graph. Dead-code elimination and
  common-subexpression elimination do so for every interpretation of the operations; aliasing and the
  folding of a scale by zero do so where the interpretation satisfies the law behind the rewrite on the
  values that the graph computes, which \<open>rewrites_exact\<close> states node by node.
\<close>

section \<open>The laws behind the local rewrites\<close>

definition operand_values :: "'v operation_semantics \<Rightarrow> (node_id \<Rightarrow> 'v) \<Rightarrow> node list \<Rightarrow> node_id \<Rightarrow> 'v list" where
  "operand_values opsem ext ns i = map (node_value opsem ext ns) (node_inputs (ns ! i))"

definition rewrite_exact :: "'v operation_semantics \<Rightarrow> (node_id \<Rightarrow> 'v) \<Rightarrow> node list \<Rightarrow> node_id \<Rightarrow> bool" where
  "rewrite_exact opsem ext ns i =
     (let n = ns ! i; tys = map (type_of ns) (node_inputs n); vs = operand_values opsem ext ns i in
      (is_alias (node_operation n) (tys ! 0) (node_output n) \<longrightarrow> opsem (node_operation n) tys (node_output n) vs = vs ! 0) \<and>
      (\<forall>folded. simplify_operation (node_operation n) = Some folded \<longrightarrow>
         opsem folded tys (node_output n) vs = opsem (node_operation n) tys (node_output n) vs))"

definition rewrites_exact :: "'v operation_semantics \<Rightarrow> (node_id \<Rightarrow> 'v) \<Rightarrow> optimization_config \<Rightarrow> graph \<Rightarrow> bool" where
  "rewrites_exact opsem ext cfg g \<longleftrightarrow>
     (algebraic_simplification cfg \<longrightarrow>
        (\<forall>i < length (graph_nodes g). live_nodes cfg g ! i \<longrightarrow> rewrite_exact opsem ext (graph_nodes g) i))"

text \<open>A set of live nodes with their operands.\<close>

definition operands_closed :: "optimization_config \<Rightarrow> graph \<Rightarrow> node_id set \<Rightarrow> bool" where
  "operands_closed cfg g S \<longleftrightarrow>
     (\<forall>i \<in> S. i < length (graph_nodes g) \<and> live_nodes cfg g ! i \<and> set (node_inputs (graph_nodes g ! i)) \<subseteq> S)"

lemma node_value_in:
  assumes "nodes_ok ns" and "i < length ns"
  shows "node_value opsem ext ns i =
    (if computed (node_operation (ns ! i))
     then opsem (node_operation (ns ! i)) (map (type_of ns) (node_inputs (ns ! i))) (node_output (ns ! i))
            (operand_values opsem ext ns i)
     else ext i)"
proof -
  have "map (\<lambda>k. if k < i then node_value opsem ext ns k else ext k) (node_inputs (ns ! i)) = operand_values opsem ext ns i"
    using nodes_ok_inputs [OF assms] by (simp add: operand_values_def)
  then show ?thesis by (subst node_value.simps) simp
qed

lemma fold_external: "\<not> computed oper \<Longrightarrow> fold_operation cfg oper = oper"
  by (cases oper) (simp_all add: computed_def fold_operation_def simplify_operation_def)

lemma fold_computed [simp]: "computed (fold_operation cfg oper) = computed oper"
  by (cases oper) (simp_all add: computed_def fold_operation_def simplify_operation_def)

lemma external_no_alias: "\<not> computed oper \<Longrightarrow> \<not> is_alias oper a out"
  by (cases oper) (simp_all add: computed_def is_alias_def)

lemma alias_computed: "is_alias oper a out \<Longrightarrow> computed oper"
  using external_no_alias by blast

section \<open>External nodes keep their order\<close>

text \<open>
  An external node is never merged or aliased, so it is appended when it is met: every node before it
  is represented before it.
\<close>

definition externals_ordered :: "node list \<Rightarrow> bool list \<Rightarrow> nat \<Rightarrow> node_id option list \<Rightarrow> bool" where
  "externals_ordered src live k mapping \<longleftrightarrow>
     (\<forall>i' < k. live ! i' \<and> \<not> computed (node_operation (src ! i')) \<longrightarrow>
        (\<forall>i < i'. live ! i \<longrightarrow> the (mapping ! i) < the (mapping ! i')))"

lemma optimize_step_mapping:
  assumes "optimize_step cfg live st (k, n) = Inr st'"
  shows "(\<exists>j. os_mapping st' = (os_mapping st)[k := Some j]) \<or> os_mapping st' = os_mapping st"
  using assms
  by (auto simp: optimize_step_def Let_def try_bind_def split: sum.splits if_splits option.splits prod.splits)

lemma optimize_step_external:
  assumes "optimize_step cfg live st (k, n) = Inr st'" and "k < length live" "live ! k"
    and "node_inputs n = []" and "\<not> computed (node_operation n)"
    and "length (graph_nodes (os_graph st)) < u32_range"
  shows "os_mapping st' = (os_mapping st)[k := Some (length (graph_nodes (os_graph st)))]"
proof -
  let ?oper = "node_operation n"
  have oper: "fold_operation cfg ?oper = ?oper" "\<not> cse_eligible ?oper" "expected_arity ?oper = 0"
    using assms(5) fold_external by (cases ?oper; force simp: computed_def cse_eligible_def)+
  have add: "add_node (os_graph st) ?oper [] (node_output n) =
      Inr ((os_graph st)\<lparr>graph_nodes := graph_nodes (os_graph st) @ [\<lparr>node_operation = ?oper, node_inputs = [], node_output = node_output n\<rparr>]\<rparr>,
        length (graph_nodes (os_graph st)))"
    using oper(3) assms(6) by (simp add: add_node_Inr)
  from assms(1-4) show ?thesis
    by (auto simp: optimize_step_def simplify_alias_def oper add Let_def split: if_splits)
qed

lemma externals_ordered_step:
  assumes inv: "opt_inv cfg src live k st" "externals_ordered src live k (os_mapping st)"
    and step: "optimize_step cfg live st (k, src ! k) = Inr st'"
    and k: "k < length src" "length live = length src" "length src \<le> u32_range" and src: "nodes_ok src"
  shows "externals_ordered src live (Suc k) (os_mapping st')"
proof -
  let ?m = "os_mapping st" and ?m' = "os_mapping st'"
  have len: "length ?m = length src" "length (graph_nodes (os_graph st)) \<le> k" using inv(1) by (simp_all add: opt_inv_def Let_def)
  have old: "?m' ! i = ?m ! i" if "i < k" for i using optimize_step_mapping [OF step] that by auto
  have mapped: "\<exists>j. ?m ! i = Some j \<and> j < length (graph_nodes (os_graph st))" if "i < k" "live ! i" for i
    using inv(1) that by (fastforce simp: opt_inv_def Let_def represents_def)
  have "the (?m' ! i) < the (?m' ! k)" if k': "live ! k" "\<not> computed (node_operation (src ! k))" and i: "i < k" "live ! i" for i
  proof -
    have "length (node_inputs (src ! k)) = expected_arity (node_operation (src ! k))" using nodes_ok_arity [OF src k(1)] .
    also have "\<dots> = 0" using k'(2) by (cases "node_operation (src ! k)") (simp_all add: computed_def)
    finally have "node_inputs (src ! k) = []" by simp
    from optimize_step_external [OF step _ k'(1) this k'(2)] k len
    have "?m' = ?m[k := Some (length (graph_nodes (os_graph st)))]" by simp
    with mapped [OF i] old [OF i(1)] k(1) len(1) show ?thesis by auto
  qed
  moreover have "the (?m' ! i) < the (?m' ! i')" if "i' < k" "live ! i'" "\<not> computed (node_operation (src ! i'))" "i < i'" "live ! i" for i i'
    using inv(2) that old [of i] old [of i'] by (simp add: externals_ordered_def)
  ultimately show ?thesis unfolding externals_ordered_def by (metis less_Suc_eq)
qed

section \<open>What the optimizer returns\<close>

text \<open>The facts about the result that do not mention the loop.\<close>

definition optimized :: "optimization_config \<Rightarrow> graph \<Rightarrow> graph \<Rightarrow> node_id option list \<Rightarrow> bool" where
  "optimized cfg src g mapping \<longleftrightarrow>
     (let ns = graph_nodes g; live = live_nodes cfg src in
      nodes_ok ns \<and> typed_graph g \<and> length ns \<le> length (graph_nodes src) \<and> length mapping = length (graph_nodes src) \<and>
      (\<forall>i < length (graph_nodes src). live ! i \<longrightarrow> (\<exists>j. mapping ! i = Some j \<and>
          represents cfg ns mapping (graph_nodes src ! i) j \<and> type_of ns j = type_of (graph_nodes src) i)) \<and>
      (\<forall>i < length (graph_nodes src). \<not> live ! i \<longrightarrow> mapping ! i = None) \<and>
      (\<forall>j < length ns. \<exists>i < length (graph_nodes src). live ! i \<and> mapping ! i = Some j) \<and>
      externals_ordered (graph_nodes src) live (length (graph_nodes src)) mapping \<and>
      graph_outputs g = map (\<lambda>k. the (mapping ! k)) (graph_outputs src))"

lemma optimize_graph_optimized:
  assumes wf: "wf_graph src" and typed: "typed_graph src" and size: "length (graph_nodes src) \<le> u32_range"
    and run: "optimize_graph src cfg = Inr r"
  shows "optimized cfg src (og_graph r) (old_to_new r)"
proof -
  let ?ns = "graph_nodes src" and ?live = "live_nodes cfg src"
  let ?s0 = "\<lparr>os_graph = graph_new, os_mapping = replicate (length ?ns) None,
               os_stats = optimization_stats_default\<lparr>original_nodes := length ?ns\<rparr>\<rparr>"
  have closed: "input_closed ?ns ?live" by (rule live_nodes_closed [OF wf])
  have ok: "nodes_ok ?ns" using wf by (simp add: wf_graph_def)
  obtain st where inv: "opt_inv cfg ?ns ?live (length ?ns) st"
    and res: "optimize_graph src cfg = Inr \<lparr>og_graph = (os_graph st)\<lparr>graph_outputs := map (\<lambda>k. the (os_mapping st ! k)) (graph_outputs src)\<rparr>,
            old_to_new = os_mapping st, og_stats = (os_stats st)\<lparr>retained_nodes := length (graph_nodes (os_graph st))\<rparr>\<rparr>"
    using optimize_graph_run [OF wf typed size] .
  have len: "length ?live = length ?ns" by (simp add: live_nodes_def)
  have base: "opt_inv cfg ?ns ?live 0 ?s0 \<and> externals_ordered ?ns ?live 0 (os_mapping ?s0)"
    by (simp add: opt_inv_def graph_new_def nodes_ok_def typed_graph_def dead_count_def externals_ordered_def
        no_common_subexpressions_def optimization_stats_default_def)
  have step: "\<exists>s'. optimize_step cfg ?live s (enumerate 0 ?ns ! i) = Inr s' \<and>
      opt_inv cfg ?ns ?live (Suc i) s' \<and> externals_ordered ?ns ?live (Suc i) (os_mapping s')"
    if i: "i < length (enumerate 0 ?ns)" and s: "opt_inv cfg ?ns ?live i s \<and> externals_ordered ?ns ?live i (os_mapping s)" for i s
  proof -
    have i': "i < length ?ns" "enumerate 0 ?ns ! i = (i, ?ns ! i)" using i by simp_all
    from optimize_step_inv [OF conjunct1 [OF s] i'(1) closed ok _ size] typed i'(1) obtain s' where
      s': "optimize_step cfg ?live s (i, ?ns ! i) = Inr s'" "opt_inv cfg ?ns ?live (Suc i) s'" by (auto simp: typed_graph_def)
    from externals_ordered_step [OF conjunct1 [OF s] conjunct2 [OF s] s'(1) i'(1) len size ok] s' i'(2) show ?thesis by auto
  qed
  from try_fold_total [of "\<lambda>k s. opt_inv cfg ?ns ?live k s \<and> externals_ordered ?ns ?live k (os_mapping s)" ?s0 "enumerate 0 ?ns"
      "optimize_step cfg ?live", OF base step]
  obtain st' where fold: "try_fold (optimize_step cfg ?live) ?s0 (enumerate 0 ?ns) = Inr st'"
    and inv': "opt_inv cfg ?ns ?live (length ?ns) st'" "externals_ordered ?ns ?live (length ?ns) (os_mapping st')"
    by (auto simp: outcome_simps)
  have "old_to_new r = os_mapping st'"
    using run fold validate_iff_wf [of src "()"] validate_semantics_iff_typed [OF wf, of "()"] wf typed
    by (auto simp: optimize_graph_def reachable_live [OF wf] try_bind_eq_Inr)
  with run res have "os_mapping st' = os_mapping st" by auto
  with inv inv'(2) run res show ?thesis
    by (auto simp: optimized_def opt_inv_def Let_def typed_graph_def)
qed

section \<open>Values are preserved\<close>

lemma live_input:
  assumes "wf_graph g" "i < length (graph_nodes g)" "live_nodes cfg g ! i" "k \<in> set (node_inputs (graph_nodes g ! i))"
  shows "k < i" "live_nodes cfg g ! k"
proof -
  show "k < i" using assms nodes_ok_inputs [of "graph_nodes g" i k] by (simp add: wf_graph_def)
  with live_nodes_closed [OF assms(1)] assms(2-4) show "live_nodes cfg g ! k" by (simp add: input_closed_def)
qed

lemma represented:
  assumes "optimized cfg src g mapping" and "i < length (graph_nodes src)" and "live_nodes cfg src ! i"
  obtains j ms where "mapping ! i = Some j" "j < length (graph_nodes g)" "type_of (graph_nodes g) j = type_of (graph_nodes src) i"
    "map ((!) mapping) (node_inputs (graph_nodes src ! i)) = map Some ms"
    "graph_nodes g ! j = \<lparr>node_operation = fold_operation cfg (node_operation (graph_nodes src ! i)), node_inputs = ms,
        node_output = node_output (graph_nodes src ! i)\<rparr> \<or>
      algebraic_simplification cfg \<and> (\<exists>rest. ms = j # rest) \<and>
      is_alias (node_operation (graph_nodes src ! i)) (type_of (graph_nodes g) j) (node_output (graph_nodes src ! i))"
proof -
  from assms obtain j where j: "mapping ! i = Some j" "represents cfg (graph_nodes g) mapping (graph_nodes src ! i) j"
    "type_of (graph_nodes g) j = type_of (graph_nodes src) i"
    unfolding optimized_def Let_def by blast
  then show ?thesis using that unfolding represents_def by blast
qed

lemma optimized_wf:
  assumes opt: "optimized cfg src g mapping" and wf: "wf_graph src"
  shows "wf_graph g" "typed_graph g"
proof -
  have "the (mapping ! k) < length (graph_nodes g)" if k: "k \<in> set (graph_outputs src)" for k
  proof -
    have "k < length (graph_nodes src)" using k wf by (simp add: wf_graph_def)
    moreover from this have "live_nodes cfg src ! k" using needed_output [OF k] by (simp add: live_nodes_def)
    ultimately show ?thesis by (rule represented [OF opt]) simp
  qed
  with opt show "wf_graph g" "typed_graph g" by (auto simp: optimized_def Let_def wf_graph_def)
qed

lemma optimized_values:
  assumes opt: "optimized cfg src g mapping" and wf: "wf_graph src" and S: "operands_closed cfg src S"
    and exact: "\<And>i. algebraic_simplification cfg \<Longrightarrow> i \<in> S \<Longrightarrow>
      (\<And>k. k \<in> set (node_inputs (graph_nodes src ! i)) \<Longrightarrow>
         node_value opsem ext' (graph_nodes g) (the (mapping ! k)) = node_value opsem ext (graph_nodes src) k) \<Longrightarrow>
      rewrite_exact opsem ext (graph_nodes src) i"
    and ext': "\<And>i j. i \<in> S \<Longrightarrow> \<not> computed (node_operation (graph_nodes src ! i)) \<Longrightarrow> mapping ! i = Some j \<Longrightarrow> ext' j = ext i"
  shows "i \<in> S \<Longrightarrow> node_value opsem ext' (graph_nodes g) (the (mapping ! i)) = node_value opsem ext (graph_nodes src) i"
proof (induction i rule: less_induct)
  case (less i)
  let ?src = "graph_nodes src" and ?ns = "graph_nodes g" and ?n = "graph_nodes src ! i"
  have oks: "nodes_ok ?src" "nodes_ok ?ns" using wf opt by (simp_all add: wf_graph_def optimized_def Let_def)
  have i: "i < length ?src" "live_nodes cfg src ! i" using S less.prems by (simp_all add: operands_closed_def)
  from opt i obtain j ms where j: "mapping ! i = Some j" and jlt: "j < length ?ns"
    and ms: "map ((!) mapping) (node_inputs ?n) = map Some ms"
    and alt: "?ns ! j = \<lparr>node_operation = fold_operation cfg (node_operation ?n), node_inputs = ms, node_output = node_output ?n\<rparr> \<or>
      algebraic_simplification cfg \<and> (\<exists>rest. ms = j # rest) \<and> is_alias (node_operation ?n) (type_of ?ns j) (node_output ?n)"
    by (rule represented)
  have ins: "k < i \<and> k \<in> S" if "k \<in> set (node_inputs ?n)" for k
    using live_input(1) [OF wf i that] S less.prems that by (auto simp: operands_closed_def)
  have types: "map (type_of ?ns) ms = map (type_of ?src) (node_inputs ?n)"
    and vals: "map (node_value opsem ext' ?ns) ms = operand_values opsem ext ?src i"
  proof -
    have ms': "ms = map (\<lambda>k. the (mapping ! k)) (node_inputs ?n)"
      using ms by (metis (no_types, lifting) list.map_comp list.map_id comp_apply map_cong option.sel id_apply)
    have "type_of ?ns (the (mapping ! k)) = type_of ?src k" if "k \<in> set (node_inputs ?n)" for k
    proof -
      have "k < length ?src" "live_nodes cfg src ! k" using S ins [OF that] by (auto simp: operands_closed_def)
      from represented [OF opt this] show ?thesis by (metis option.sel)
    qed
    then show "map (type_of ?ns) ms = map (type_of ?src) (node_inputs ?n)" by (simp add: ms')
    show "map (node_value opsem ext' ?ns) ms = operand_values opsem ext ?src i"
      using less.IH ins by (simp add: ms' operand_values_def)
  qed
  have exact': "rewrite_exact opsem ext ?src i" if "algebraic_simplification cfg"
    using exact [OF that less.prems less.IH] ins by blast
  note here = node_value_in [OF oks(1) i(1), of opsem ext]
  from alt show ?case
  proof
    assume new: "?ns ! j = \<lparr>node_operation = fold_operation cfg (node_operation ?n), node_inputs = ms, node_output = node_output ?n\<rparr>"
    have there: "node_value opsem ext' ?ns j = (if computed (node_operation ?n)
        then opsem (fold_operation cfg (node_operation ?n)) (map (type_of ?src) (node_inputs ?n)) (node_output ?n) (operand_values opsem ext ?src i)
        else ext' j)"
      using node_value_in [OF oks(2) jlt, of opsem ext'] types vals by (simp add: new operand_values_def)
    have "opsem (fold_operation cfg (node_operation ?n)) (map (type_of ?src) (node_inputs ?n)) (node_output ?n) (operand_values opsem ext ?src i) =
        opsem (node_operation ?n) (map (type_of ?src) (node_inputs ?n)) (node_output ?n) (operand_values opsem ext ?src i)"
      using exact' by (auto simp: fold_operation_def rewrite_exact_def Let_def split: option.split)
    with there here ext' [OF less.prems _ j] j show ?thesis by simp
  next
    assume "algebraic_simplification cfg \<and> (\<exists>rest. ms = j # rest) \<and> is_alias (node_operation ?n) (type_of ?ns j) (node_output ?n)"
    then obtain rest where cfg: "algebraic_simplification cfg" and ms: "ms = j # rest"
      and al: "is_alias (node_operation ?n) (type_of ?ns j) (node_output ?n)" by blast
    have "map (type_of ?src) (node_inputs ?n) ! 0 = type_of ?ns j" "operand_values opsem ext ?src i ! 0 = node_value opsem ext' ?ns j"
      by (simp_all add: ms flip: types vals)
    with exact' [OF cfg] al have "opsem (node_operation ?n) (map (type_of ?src) (node_inputs ?n)) (node_output ?n) (operand_values opsem ext ?src i) =
        node_value opsem ext' ?ns j"
      by (simp add: rewrite_exact_def Let_def)
    with here alias_computed [OF al] j show ?thesis by simp
  qed
qed

text \<open>
  Values of the external nodes of the result: each stands for exactly one external node of the source.
\<close>

definition source_of :: "node_id option list \<Rightarrow> graph \<Rightarrow> node_id \<Rightarrow> node_id" where
  "source_of mapping src j =
     the (List.find (\<lambda>i. \<not> computed (node_operation (graph_nodes src ! i)) \<and> mapping ! i = Some j) [0..<length (graph_nodes src)])"

lemma externals_injective:
  assumes opt: "optimized cfg src g mapping" and wf: "wf_graph src"
    and i: "i < length (graph_nodes src)" "live_nodes cfg src ! i" "\<not> computed (node_operation (graph_nodes src ! i))"
    and i': "i' < length (graph_nodes src)" "live_nodes cfg src ! i'" "\<not> computed (node_operation (graph_nodes src ! i'))"
    and same: "mapping ! i = mapping ! i'"
  shows "i = i'"
proof -
  have "externals_ordered (graph_nodes src) (live_nodes cfg src) (length (graph_nodes src)) mapping"
    using opt by (simp add: optimized_def Let_def)
  then have "\<not> i < i'" "\<not> i' < i" unfolding externals_ordered_def using i i' same by (metis less_irrefl)+
  then show ?thesis by simp
qed

lemma mapped_live: "optimized cfg src g mapping \<Longrightarrow> i < length (graph_nodes src) \<Longrightarrow> mapping ! i = Some j \<Longrightarrow> live_nodes cfg src ! i"
  by (auto simp: optimized_def Let_def)

lemma source_of_mapped:
  assumes "optimized cfg src g mapping" and "wf_graph src"
    and "i < length (graph_nodes src)" "\<not> computed (node_operation (graph_nodes src ! i))" "mapping ! i = Some j"
  shows "source_of mapping src j = i"
proof -
  let ?P = "\<lambda>i. \<not> computed (node_operation (graph_nodes src ! i)) \<and> mapping ! i = Some j"
  obtain i' where i': "List.find ?P [0..<length (graph_nodes src)] = Some i'"
    using assms(3-5) by (cases "List.find ?P [0..<length (graph_nodes src)]") (auto simp: find_None_iff)
  then have "i' < length (graph_nodes src)" "?P i'" by (auto simp: find_Some_iff)
  then have "i' = i" using externals_injective [OF assms(1,2)] mapped_live [OF assms(1)] assms(3-5) by metis
  with i' show ?thesis by (simp add: source_of_def)
qed

lemma live_closed:
  assumes "wf_graph g"
  shows "operands_closed cfg g {i. i < length (graph_nodes g) \<and> live_nodes cfg g ! i}"
proof -
  have "k < length (graph_nodes g) \<and> live_nodes cfg g ! k"
    if i: "i < length (graph_nodes g)" "live_nodes cfg g ! i" and k: "k \<in> set (node_inputs (graph_nodes g ! i))" for i k
    using live_input [OF assms i k] i(1) by simp
  then show ?thesis by (auto simp: operands_closed_def)
qed

lemma needed_closed:
  assumes "wf_graph g"
  shows "operands_closed cfg g (needed (graph_nodes g) (graph_outputs g))"
proof -
  have "i < length (graph_nodes g) \<and> live_nodes cfg g ! i \<and>
      set (node_inputs (graph_nodes g ! i)) \<subseteq> needed (graph_nodes g) (graph_outputs g)" if i: "i \<in> needed (graph_nodes g) (graph_outputs g)" for i
    using needed_less [OF assms i] needed_input [OF i] i by (auto simp: live_nodes_def)
  then show ?thesis by (simp add: operands_closed_def)
qed

lemma source_of_values:
  assumes opt: "optimized cfg src g mapping" and wf: "wf_graph src" and exact: "rewrites_exact opsem ext cfg src"
    and i: "i < length (graph_nodes src)" "live_nodes cfg src ! i"
  shows "node_value opsem (\<lambda>j. ext (source_of mapping src j)) (graph_nodes g) (the (mapping ! i)) = node_value opsem ext (graph_nodes src) i"
proof (rule optimized_values [OF opt wf live_closed [OF wf]])
  show "rewrite_exact opsem ext (graph_nodes src) i'" if "algebraic_simplification cfg"
    "i' \<in> {i. i < length (graph_nodes src) \<and> live_nodes cfg src ! i}" for i'
    using exact that by (simp add: rewrites_exact_def)
  show "ext (source_of mapping src j) = ext i'" if "i' \<in> {i. i < length (graph_nodes src) \<and> live_nodes cfg src ! i}"
    "\<not> computed (node_operation (graph_nodes src ! i'))" "mapping ! i' = Some j" for i' j
    using source_of_mapped [OF opt wf _ that(2,3)] that(1) by simp
qed (use i in simp)

text \<open>
  C12: every interpretation of the operations under which the local rewrites are exact on the values of
  the graph gives each live node of the source and its representative in the optimized graph the same
  value, and so the outputs; the inputs and constants of the result are those of the source.
\<close>

theorem optimize_preserves_values:
  assumes "validate src = Inr ()" and "validate_semantics src = Inr ()" and "length (graph_nodes src) \<le> u32_range"
    and "optimize_graph src cfg = Inr r" and "rewrites_exact opsem ext cfg src"
  shows "map (node_value opsem (\<lambda>j. ext (source_of (old_to_new r) src j)) (graph_nodes (og_graph r))) (graph_outputs (og_graph r)) =
      map (node_value opsem ext (graph_nodes src)) (graph_outputs src) \<and>
    (\<forall>i < length (graph_nodes src). live_nodes cfg src ! i \<longrightarrow>
      (\<exists>j < length (graph_nodes (og_graph r)). old_to_new r ! i = Some j \<and>
        node_value opsem (\<lambda>j. ext (source_of (old_to_new r) src j)) (graph_nodes (og_graph r)) j = node_value opsem ext (graph_nodes src) i \<and>
        (\<not> computed (node_operation (graph_nodes src ! i)) \<longrightarrow> node_operation (graph_nodes (og_graph r) ! j) = node_operation (graph_nodes src ! i))))"
proof -
  have wf: "wf_graph src" and typed: "typed_graph src" using assms(1,2) validate_semantics_iff_typed by (auto simp: validate_iff_wf)
  note opt = optimize_graph_optimized [OF wf typed assms(3,4)]
  note vals = source_of_values [OF opt wf assms(5)]
  have "k < length (graph_nodes src) \<and> live_nodes cfg src ! k" if "k \<in> set (graph_outputs src)" for k
    using that wf needed_output [OF that] by (auto simp: wf_graph_def live_nodes_def)
  with vals opt have "map (node_value opsem (\<lambda>j. ext (source_of (old_to_new r) src j)) (graph_nodes (og_graph r))) (graph_outputs (og_graph r)) =
      map (node_value opsem ext (graph_nodes src)) (graph_outputs src)" by (simp add: optimized_def Let_def)
  moreover have "\<exists>j < length (graph_nodes (og_graph r)). old_to_new r ! i = Some j \<and>
        node_value opsem (\<lambda>j. ext (source_of (old_to_new r) src j)) (graph_nodes (og_graph r)) j = node_value opsem ext (graph_nodes src) i \<and>
        (\<not> computed (node_operation (graph_nodes src ! i)) \<longrightarrow> node_operation (graph_nodes (og_graph r) ! j) = node_operation (graph_nodes src ! i))"
    if i: "i < length (graph_nodes src)" "live_nodes cfg src ! i" for i
  proof -
    from opt i obtain j ms where j: "old_to_new r ! i = Some j" "j < length (graph_nodes (og_graph r))"
      and alt: "graph_nodes (og_graph r) ! j = \<lparr>node_operation = fold_operation cfg (node_operation (graph_nodes src ! i)), node_inputs = ms,
          node_output = node_output (graph_nodes src ! i)\<rparr> \<or>
        algebraic_simplification cfg \<and> (\<exists>rest. ms = j # rest) \<and>
        is_alias (node_operation (graph_nodes src ! i)) (type_of (graph_nodes (og_graph r)) j) (node_output (graph_nodes src ! i))"
      by (rule represented)
    have "node_operation (graph_nodes (og_graph r) ! j) = node_operation (graph_nodes src ! i)" if "\<not> computed (node_operation (graph_nodes src ! i))"
      using alt external_no_alias [OF that] by (auto simp: fold_external [OF that])
    with vals [OF i] j show ?thesis by auto
  qed
  ultimately show ?thesis by blast
qed

definition sample_operations :: "int operation_semantics" where
  "sample_operations oper tys out vs = (case oper of Exp \<Rightarrow> vs ! 0 + 1 | Add \<Rightarrow> vs ! 0 + vs ! 1 | Scale _ \<Rightarrow> vs ! 0 | _ \<Rightarrow> 0)"

theorem optimize_preserves_values_witness:
  "\<exists>r. optimize_graph example_scaled optimization_config_default = Inr r \<and>
     map (node_value sample_operations (\<lambda>j. 5) (graph_nodes (og_graph r))) (graph_outputs (og_graph r)) =
       map (node_value sample_operations (\<lambda>i. 5) (graph_nodes example_scaled)) (graph_outputs example_scaled)"
proof -
  have "rewrite_exact sample_operations (\<lambda>i. 5) (graph_nodes example_scaled) i" if "i < 6" for i
  proof -
    have "i = 0 \<or> i = 1 \<or> i = 2 \<or> i = 3 \<or> i = 4 \<or> i = 5" using that by linarith
    then show ?thesis
      unfolding rewrite_exact_def operand_values_def example_scaled_def mk_node_def sample_operations_def is_alias_def simplify_operation_def Let_def
      by (elim disjE) (simp_all add: as_f32_is_def f32_eq_def f32_is_nan_def f32_is_zero_def)
  qed
  then have "rewrites_exact sample_operations (\<lambda>i. 5) optimization_config_default example_scaled"
    by (simp add: rewrites_exact_def example_scaled_def)
  from optimize_preserves_values [OF example_scaled_ok _ optimize_example this] show ?thesis
    by (simp add: optimize_example) (simp add: example_scaled_def)
qed

section \<open>The inputs the result needs\<close>

text \<open>A needed node of the source is represented by a needed node of the result, and conversely.\<close>

lemma needed_represented:
  assumes opt: "optimized cfg src g mapping" and wf: "wf_graph src"
    and "i \<in> needed (graph_nodes src) (graph_outputs src)" and "i < length (graph_nodes src)" and "mapping ! i = Some j"
  shows "j \<in> needed (graph_nodes g) (graph_outputs g)"
  using assms(3-5)
proof (induction arbitrary: j rule: needed_induct)
  case (root k)
  have "graph_outputs g = map (\<lambda>k. the (mapping ! k)) (graph_outputs src)" using opt by (simp add: optimized_def Let_def)
  with root show ?case by (intro needed_output) force
next
  case (edge i k)
  let ?src = "graph_nodes src" and ?ns = "graph_nodes g"
  have "live_nodes cfg src ! i" using edge.hyps by (simp add: live_nodes_def)
  then obtain i' ms where i': "mapping ! i = Some i'" "i' < length ?ns"
    and ms: "map ((!) mapping) (node_inputs (?src ! i)) = map Some ms"
    and alt: "?ns ! i' = \<lparr>node_operation = fold_operation cfg (node_operation (?src ! i)), node_inputs = ms, node_output = node_output (?src ! i)\<rparr> \<or>
      algebraic_simplification cfg \<and> (\<exists>rest. ms = i' # rest) \<and> is_alias (node_operation (?src ! i)) (type_of ?ns i') (node_output (?src ! i))"
    by (rule represented [OF opt edge.hyps(2)])
  have "length ms = expected_arity (node_operation (?src ! i))"
    using ms nodes_ok_arity edge.hyps(2) wf by (metis length_map wf_graph_def)
  with alt have "node_inputs (?ns ! i') = ms \<or> ms = [i']"
    by (cases "node_operation (?src ! i)") (auto simp: is_alias_def)
  moreover have "mapping ! k \<in> set (map ((!) mapping) (node_inputs (?src ! i)))" using edge.hyps(3) by simp
  then have "j \<in> set ms" using edge.prems(2) unfolding ms by auto
  moreover have i'': "i' \<in> needed ?ns (graph_outputs g)" by (rule edge.IH [OF edge.hyps(2) i'(1)])
  ultimately have "j \<in> set (node_inputs (?ns ! i')) \<or> j = i'" by (elim disjE) simp_all
  then show ?case using needed_input [OF i'' i'(2)] i'' by blast
qed

text \<open>The first needed node that a node of the result represents is not an alias.\<close>

lemma first_represented:
  assumes opt: "optimized cfg src g mapping" and wf: "wf_graph src"
    and a: "a < length (graph_nodes src)" "a \<in> needed (graph_nodes src) (graph_outputs src)" "mapping ! a = Some j"
  obtains i ms where "i < length (graph_nodes src)" "i \<in> needed (graph_nodes src) (graph_outputs src)" "mapping ! i = Some j"
    "map ((!) mapping) (node_inputs (graph_nodes src ! i)) = map Some ms"
    "graph_nodes g ! j = \<lparr>node_operation = fold_operation cfg (node_operation (graph_nodes src ! i)), node_inputs = ms,
        node_output = node_output (graph_nodes src ! i)\<rparr>"
    "\<And>k. k \<in> set (node_inputs (graph_nodes src ! i)) \<Longrightarrow> k < length (graph_nodes src) \<and> k \<in> needed (graph_nodes src) (graph_outputs src)"
proof -
  let ?src = "graph_nodes src" and ?ns = "graph_nodes g"
  let ?P = "\<lambda>i. i < length ?src \<and> i \<in> needed ?src (graph_outputs src) \<and> mapping ! i = Some j"
  define i where "i = (LEAST i. ?P i)"
  have P: "?P i" unfolding i_def using LeastI [of ?P a] a by blast
  have least: "\<not> ?P k" if "k < i" for k using not_less_Least [of k ?P] that unfolding i_def by blast
  have live: "live_nodes cfg src ! i" using P by (simp add: live_nodes_def)
  have ins: "k < i \<and> k < length ?src \<and> k \<in> needed ?src (graph_outputs src)" if "k \<in> set (node_inputs (?src ! i))" for k
    using live_input(1) [OF wf _ live that] P needed_input [of i ?src "graph_outputs src" k] that by auto
  from represented [OF opt _ live] P obtain ms where ms: "map ((!) mapping) (node_inputs (?src ! i)) = map Some ms"
    and alt: "?ns ! j = \<lparr>node_operation = fold_operation cfg (node_operation (?src ! i)), node_inputs = ms, node_output = node_output (?src ! i)\<rparr> \<or>
      (\<exists>rest. ms = j # rest)"
    by (metis option.inject)
  have "\<not> (\<exists>rest. ms = j # rest)"
  proof
    assume "\<exists>rest. ms = j # rest"
    then have "Some j \<in> set (map ((!) mapping) (node_inputs (?src ! i)))" unfolding ms by auto
    then obtain k where "k \<in> set (node_inputs (?src ! i))" "mapping ! k = Some j" by force
    with ins least show False by blast
  qed
  with alt ms P ins show ?thesis by (intro that [of i ms]) auto
qed

lemma needed_source:
  assumes opt: "optimized cfg src g mapping" and wf: "wf_graph src"
    and "j \<in> needed (graph_nodes g) (graph_outputs g)"
  shows "\<exists>i. i < length (graph_nodes src) \<and> i \<in> needed (graph_nodes src) (graph_outputs src) \<and> mapping ! i = Some j"
  using assms(3)
proof (induction rule: needed_induct)
  case (root k)
  with opt obtain i where i: "i \<in> set (graph_outputs src)" "k = the (mapping ! i)" by (auto simp: optimized_def Let_def)
  then have lt: "i < length (graph_nodes src)" and need: "i \<in> needed (graph_nodes src) (graph_outputs src)" using wf needed_output by (auto simp: wf_graph_def)
  then have "live_nodes cfg src ! i" by (simp add: live_nodes_def)
  from represented [OF opt lt this] i(2) have "mapping ! i = Some k" by (metis option.sel)
  with lt need show ?case by blast
next
  case (edge j k)
  let ?src = "graph_nodes src"
  from edge.IH obtain a where "a < length ?src" "a \<in> needed ?src (graph_outputs src)" "mapping ! a = Some j" by blast
  from first_represented [OF opt wf this] obtain i ms where ms: "map ((!) mapping) (node_inputs (?src ! i)) = map Some ms"
    and j: "node_inputs (graph_nodes g ! j) = ms"
    and ins: "\<And>k. k \<in> set (node_inputs (?src ! i)) \<Longrightarrow> k < length ?src \<and> k \<in> needed ?src (graph_outputs src)"
    by (metis node.select_convs(2))
  have "Some k \<in> set (map ((!) mapping) (node_inputs (?src ! i)))" unfolding ms using edge.hyps(3) j by simp
  then obtain b where "b \<in> set (node_inputs (?src ! i))" "mapping ! b = Some k" by force
  with ins show ?case by blast
qed

text \<open>The external nodes of a graph that its outputs need, in order.\<close>

definition external_nodes :: "(operation \<Rightarrow> bool) \<Rightarrow> graph \<Rightarrow> node_id list" where
  "external_nodes P g = filter (\<lambda>i. \<not> computed (node_operation (graph_nodes g ! i)) \<and> P (node_operation (graph_nodes g ! i))) (needed_list g)"

lemma external_nodes_optimized:
  assumes opt: "optimized cfg src g mapping" and wf: "wf_graph src" and g: "wf_graph g"
  shows "external_nodes P g = map (\<lambda>i. the (mapping ! i)) (external_nodes P src)"
proof (rule sorted_distinct_set_unique)
  let ?src = "graph_nodes src" and ?ns = "graph_nodes g"
  let ?xs = "external_nodes P src"
  have rep: "\<exists>j. mapping ! i = Some j \<and> j < length ?ns \<and> j \<in> needed ?ns (graph_outputs g) \<and> node_operation (?ns ! j) = node_operation (?src ! i)"
    if i: "i < length ?src" "i \<in> needed ?src (graph_outputs src)" "\<not> computed (node_operation (?src ! i))" for i
  proof -
    have "live_nodes cfg src ! i" using i by (simp add: live_nodes_def)
    from represented [OF opt i(1) this] obtain j where j: "mapping ! i = Some j" "j < length ?ns"
      "node_operation (?ns ! j) = fold_operation cfg (node_operation (?src ! i)) \<or> is_alias (node_operation (?src ! i)) (type_of ?ns j) (node_output (?src ! i))"
      by (metis node.select_convs(1))
    then have "j < length ?ns" "node_operation (?ns ! j) = node_operation (?src ! i)"
      using external_no_alias [OF i(3)] fold_external [OF i(3)] by auto
    with j(1) needed_represented [OF opt wf i(2,1) j(1)] show ?thesis by blast
  qed
  have mem: "i \<in> set ?xs \<longleftrightarrow> i < length ?src \<and> i \<in> needed ?src (graph_outputs src) \<and> \<not> computed (node_operation (?src ! i)) \<and> P (node_operation (?src ! i))" for i
    by (auto simp: external_nodes_def needed_list_def)
  have lt: "the (mapping ! (?xs ! a)) < the (mapping ! (?xs ! b))" if ab: "a < b" "b < length ?xs" for a b
  proof -
    have "sorted_wrt (<) ?xs" unfolding external_nodes_def needed_list_def by (intro sorted_wrt_filter sorted_wrt_upt)
    then have "?xs ! a < ?xs ! b" using ab by (simp add: sorted_wrt_iff_nth_less)
    moreover have "?xs ! a \<in> set ?xs" "?xs ! b \<in> set ?xs" using ab by simp_all
    moreover have "externals_ordered ?src (live_nodes cfg src) (length ?src) mapping" using opt by (simp add: optimized_def Let_def)
    ultimately show ?thesis unfolding mem by (auto simp: externals_ordered_def live_nodes_def)
  qed
  then have strict: "sorted_wrt (<) (map (\<lambda>i. the (mapping ! i)) ?xs)" by (simp add: sorted_wrt_iff_nth_less)
  then show "sorted (map (\<lambda>i. the (mapping ! i)) ?xs)" "distinct (map (\<lambda>i. the (mapping ! i)) ?xs)"
    by (simp_all add: strict_sorted_iff)
  show "sorted (external_nodes P g)" "distinct (external_nodes P g)"
    by (simp_all add: external_nodes_def needed_list_def sorted_wrt_filter)
  show "set (external_nodes P g) = set (map (\<lambda>i. the (mapping ! i)) ?xs)"
  proof (intro set_eqI iffI)
    fix j assume "j \<in> set (external_nodes P g)"
    then have j: "j \<in> needed ?ns (graph_outputs g)" "\<not> computed (node_operation (?ns ! j))" "P (node_operation (?ns ! j))"
      by (auto simp: external_nodes_def needed_list_def)
    from needed_source [OF opt wf j(1)] obtain a where "a < length ?src" "a \<in> needed ?src (graph_outputs src)" "mapping ! a = Some j" by blast
    from first_represented [OF opt wf this] obtain i where i: "i < length ?src" "i \<in> needed ?src (graph_outputs src)" "mapping ! i = Some j"
      and oper: "node_operation (?ns ! j) = fold_operation cfg (node_operation (?src ! i))"
      by (metis node.select_convs(1))
    with j(2) have ext: "\<not> computed (node_operation (?src ! i))" by simp
    with oper have "node_operation (?ns ! j) = node_operation (?src ! i)" by (simp add: fold_external)
    with i ext j(3) have "i \<in> set ?xs" unfolding mem by simp
    with i(3) show "j \<in> set (map (\<lambda>i. the (mapping ! i)) ?xs)" by force
  next
    fix j assume "j \<in> set (map (\<lambda>i. the (mapping ! i)) ?xs)"
    then obtain i where i: "i \<in> set ?xs" "j = the (mapping ! i)" by auto
    with rep [of i] g show "j \<in> set (external_nodes P g)" unfolding mem by (auto simp: external_nodes_def needed_list_def)
  qed
qed

end
