(* ===== verification/Graph_Jit.thy ===== *)
theory Graph_Jit
  imports Optimize_Semantics Session_Theorems
begin

text \<open>
  The JIT session (\<open>jit.rs\<close> of \<open>scirust-tensor-runtime\<close>): a graph is optimized, the result is prepared as a
  graph session, and an execution names its inputs by the nodes of the source graph.
\<close>

section \<open>Preparation\<close>

datatype 'e jit_prep_error =
    JitOptimization optimization_error
  | JitCompilation "'e session_prep_error"
  | InputMappingLost node_id

datatype 'e jit_exec_error =
    JitUnexpectedInput node_id
  | JitDuplicateInput node_id
  | JitMissingInput node_id
  | JitExecution "'e session_exec_error"

record jit_input_spec =
  ji_source_node :: node_id
  ji_optimized_node :: node_id
  ji_tensor_type :: tensor_type

record ('s, 'b, 'k, 't, 'v, 'e) jit_session =
  js_session :: "('s, 'b, 'k, 't, 'v, 'e) graph_session"
  js_inputs :: "jit_input_spec list"
  js_optimization :: optimized_graph

fun is_input :: "operation \<Rightarrow> bool" where
  "is_input (Input _) = True"
| "is_input _ = False"

definition source_input_for_optimized :: "graph \<Rightarrow> optimized_graph \<Rightarrow> node_id \<Rightarrow> node_id option" where
  "source_input_for_optimized source optimization optimized_id =
     map_option (\<lambda>(index, _). as_u32 index)
       (List.find (\<lambda>(index, _). get (old_to_new optimization) index = Some (Some optimized_id))
          (filter (\<lambda>(_, n). is_input (node_operation n)) (enumerate 0 (graph_nodes source))))"

definition jit_input :: "graph \<Rightarrow> optimized_graph \<Rightarrow> graph_input_spec \<Rightarrow> ('e jit_prep_error, jit_input_spec) outcome" where
  "jit_input g optimization optimized_spec =
     try_bind (ok_or (InputMappingLost (gi_node optimized_spec))
         (source_input_for_optimized g optimization (gi_node optimized_spec))) (\<lambda>source_node.
     Inr \<lparr>ji_source_node = source_node, ji_optimized_node = gi_node optimized_spec, ji_tensor_type = gi_tensor_type optimized_spec\<rparr>)"

definition jit_prepare_with_config ::
  "('s, 'b, 'k, 't, 'v, 'e) backend \<Rightarrow> graph \<Rightarrow> graph_constants \<Rightarrow> optimization_config
     \<Rightarrow> ('s, 'e jit_prep_error, ('s, 'b, 'k, 't, 'v, 'e) jit_session) action" where
  "jit_prepare_with_config B g constants cfg =
     act_bind (act_lift (map_err JitOptimization (optimize_graph g cfg))) (\<lambda>optimization.
     act_bind (act_map_err JitCompilation (session_prepare B (og_graph optimization) constants)) (\<lambda>session.
     act_bind (act_lift (traverse (jit_input g optimization) (gs_inputs session))) (\<lambda>inputs.
     act_return \<lparr>js_session = session, js_inputs = inputs, js_optimization = optimization\<rparr>)))"

definition jit_prepare ::
  "('s, 'b, 'k, 't, 'v, 'e) backend \<Rightarrow> graph \<Rightarrow> graph_constants
     \<Rightarrow> ('s, 'e jit_prep_error, ('s, 'b, 'k, 't, 'v, 'e) jit_session) action" where
  "jit_prepare B g constants = jit_prepare_with_config B g constants optimization_config_default"

section \<open>Execution\<close>

definition place_jit_input ::
  "jit_input_spec list \<Rightarrow> element list option list \<Rightarrow> node_id \<times> element list \<Rightarrow> ('e jit_exec_error, element list option list) outcome" where
  "place_jit_input specs ordered p = (case p of (source_node, v) \<Rightarrow>
     case find_position (\<lambda>spec. ji_source_node spec = source_node) specs of
       None \<Rightarrow> fail (JitUnexpectedInput source_node)
     | Some place \<Rightarrow>
         try_bind (idx ordered place) (\<lambda>entry.
         if entry \<noteq> None then fail (JitDuplicateInput source_node) else Inr (ordered[place := Some v])))"

definition remap_input :: "jit_input_spec \<times> element list option \<Rightarrow> ('e jit_exec_error, node_id \<times> element list) outcome" where
  "remap_input p = (case p of (spec, entry) \<Rightarrow>
     try_bind (ok_or (JitMissingInput (ji_source_node spec)) entry) (\<lambda>v. Inr (ji_optimized_node spec, v)))"

definition jit_remapped :: "jit_input_spec list \<Rightarrow> graph_inputs \<Rightarrow> ('e jit_exec_error, graph_inputs) outcome" where
  "jit_remapped specs inputs =
     try_bind (try_fold (place_jit_input specs) (replicate (length specs) None) inputs) (\<lambda>ordered.
     traverse remap_input (zip specs ordered))"

definition jit_execute ::
  "('s, 'b, 'k, 't, 'v, 'e) jit_session \<Rightarrow> graph_inputs \<Rightarrow> ('s, 'e jit_exec_error, plan_output_value list) action" where
  "jit_execute ses inputs =
     act_bind (act_lift (jit_remapped (js_inputs ses) inputs)) (\<lambda>remapped.
     act_map_err JitExecution (session_execute (js_session ses) remapped))"

section \<open>The inputs of a JIT session\<close>

text \<open>The input nodes that the outputs of a graph need, in order.\<close>

abbreviation input_nodes :: "graph \<Rightarrow> node_id list" where
  "input_nodes \<equiv> external_nodes is_input"

lemma is_input_kind: "is_input oper \<longleftrightarrow> kind_of oper = Some InputKind"
  by (cases oper) (simp_all add: kind_of_def)

lemma is_input_external: "is_input oper \<Longrightarrow> \<not> computed oper"
  by (cases oper) (simp_all add: computed_def)

lemma input_nodes_filter: "input_nodes g = filter (\<lambda>n. is_input (node_operation (graph_nodes g ! n))) (needed_list g)"
  unfolding external_nodes_def by (rule filter_cong) (auto dest: is_input_external)

lemma input_nodes_set: "wf_graph g \<Longrightarrow> set (input_nodes g) = required_inputs g"
  using needed_less [of g] by (auto simp: input_nodes_filter needed_list_def required_inputs_def elim: is_input.elims)

lemma input_nodes_distinct: "distinct (input_nodes g)"
  by (simp add: input_nodes_filter needed_list_def)

lemma session_inputs_are: "gs_inputs (session_of B g p st) = map (\<lambda>n. \<lparr>gi_node = n, gi_tensor_type = type_of (graph_nodes g) n\<rparr>) (input_nodes g)"
proof -
  let ?bs = "external_table g"
  have "gs_inputs (session_of B g p st) =
      map (\<lambda>n. \<lparr>gi_node = n, gi_tensor_type = type_of (graph_nodes g) n\<rparr>) (map (binding_node ?bs) (entries_of InputKind ?bs))"
    by (simp add: session_of_def resolved_of_def Let_def input_spec_of_def)
  then show ?thesis unfolding table_entries_nodes by (simp add: input_nodes_filter is_input_kind)
qed

definition jit_spec :: "graph \<Rightarrow> node_id option list \<Rightarrow> node_id \<Rightarrow> jit_input_spec" where
  "jit_spec g mapping n = \<lparr>ji_source_node = n, ji_optimized_node = the (mapping ! n), ji_tensor_type = type_of (graph_nodes g) n\<rparr>"

lemma jit_spec_sel [simp]:
  "ji_source_node (jit_spec g mapping n) = n" "ji_optimized_node (jit_spec g mapping n) = the (mapping ! n)"
  "ji_tensor_type (jit_spec g mapping n) = type_of (graph_nodes g) n"
  by (simp_all add: jit_spec_def)

lemma input_node_mapped:
  assumes opt: "optimized cfg src g mapping" and n: "n \<in> set (input_nodes src)"
  shows "n < length (graph_nodes src)" "is_input (node_operation (graph_nodes src ! n))" "live_nodes cfg src ! n"
    "\<exists>j. mapping ! n = Some j \<and> type_of (graph_nodes g) j = type_of (graph_nodes src) n"
proof -
  show lt: "n < length (graph_nodes src)" and input: "is_input (node_operation (graph_nodes src ! n))"
    using n by (auto simp: input_nodes_filter needed_list_def)
  show live: "live_nodes cfg src ! n" using n by (auto simp: input_nodes_filter needed_list_def live_nodes_def)
  from represented [OF opt lt live] show "\<exists>j. mapping ! n = Some j \<and> type_of (graph_nodes g) j = type_of (graph_nodes src) n" by metis
qed

lemma source_input_found:
  assumes opt: "optimized cfg src (og_graph r) (old_to_new r)" and wf: "wf_graph src" and small: "length (graph_nodes src) \<le> u32_range"
    and n: "n \<in> set (input_nodes src)"
  shows "source_input_for_optimized src r (the (old_to_new r ! n)) = Some n"
proof -
  note mapped = input_node_mapped [OF opt n]
  let ?j = "the (old_to_new r ! n)"
  let ?xs = "filter (\<lambda>(_, n). is_input (node_operation n)) (enumerate 0 (graph_nodes src))"
  let ?P = "\<lambda>(index, _ :: node). get (old_to_new r) index = Some (Some ?j)"
  have len: "length (old_to_new r) = length (graph_nodes src)" using opt by (simp add: optimized_def Let_def)
  have mem: "(n, graph_nodes src ! n) \<in> set ?xs" using mapped(1,2) by (simp add: set_enumerate0)
  have here: "?P (n, graph_nodes src ! n)" using mapped len by (auto simp: get_def)
  have only: "i = n" if "(i, x) \<in> set ?xs" "?P (i, x)" for i x
  proof -
    from that have i: "i < length (graph_nodes src)" "\<not> computed (node_operation (graph_nodes src ! i))" "old_to_new r ! i = Some ?j"
      by (auto simp: set_enumerate0 get_def dest: is_input_external split: if_splits)
    from externals_injective [OF opt wf i(1) mapped_live [OF opt i(1,3)] i(2) mapped(1,3) is_input_external [OF mapped(2)]] i(3) mapped(4)
    show ?thesis by auto
  qed
  obtain i x where found: "List.find ?P ?xs = Some (i, x)"
    using mem here by (cases "List.find ?P ?xs") (auto simp: find_None_iff)
  then have "(i, x) \<in> set ?xs" "?P (i, x)" by (auto simp only: find_Some_iff in_set_conv_nth)
  with only have "i = n" by blast
  with found small mapped(1) show ?thesis by (simp add: source_input_for_optimized_def as_u32_def)
qed

lemma jit_inputs_built:
  assumes opt: "optimized cfg src (og_graph r) (old_to_new r)" and wf: "wf_graph src"
    and small: "length (graph_nodes src) \<le> u32_range"
  shows "(traverse (jit_input src r) (gs_inputs (session_of B (og_graph r) p st)) :: ('e jit_prep_error, _) outcome) =
    Inr (map (jit_spec src (old_to_new r)) (input_nodes src))"
proof -
  have "(jit_input src r \<lparr>gi_node = the (old_to_new r ! n), gi_tensor_type = type_of (graph_nodes (og_graph r)) (the (old_to_new r ! n))\<rparr> ::
      ('e jit_prep_error, _) outcome) = Inr (jit_spec src (old_to_new r) n)" if "n \<in> set (input_nodes src)" for n
    using input_node_mapped(4) [OF opt that] by (auto simp: jit_input_def source_input_found [OF opt wf small that] jit_spec_def)
  then show ?thesis
    unfolding session_inputs_are external_nodes_optimized [OF opt wf optimized_wf(1) [OF opt wf]] traverse_Inr by simp
qed

section \<open>What preparation decides\<close>

lemma optimizer_decided:
  assumes small: "length (graph_nodes g) \<le> u32_range"
  shows "case optimize_graph g cfg of
      Inl f \<Rightarrow> (\<exists>e. validate g = fail e \<and> f = Err (InvalidGraph e)) \<or>
        validate g = Inr () \<and> (\<exists>e. validate_semantics g = fail e \<and> f = Err (InvalidSemantics e))
    | Inr r \<Rightarrow> wf_graph g \<and> typed_graph g \<and> optimized cfg g (og_graph r) (old_to_new r)"
proof (cases "validate g")
  case (Inl f)
  with validate_no_panic [of g] obtain e where "f = Err e" by (cases f) auto
  with Inl show ?thesis by (simp add: optimize_graph_def)
next
  case (Inr u)
  then have wf: "wf_graph g" by (simp add: validate_iff_wf)
  show ?thesis
  proof (cases "validate_semantics g")
    case (Inl f)
    with semantics_no_panic [OF wf] obtain e where "f = Err e" by (cases f) auto
    with Inl Inr show ?thesis by (simp add: optimize_graph_def)
  next
    case sem: (Inr u')
    then have typed: "typed_graph g" using validate_semantics_iff_typed [OF wf] by auto
    from optimize_graph_run [OF wf typed small] obtain r where run: "optimize_graph g cfg = Inr r" by metis
    from optimize_graph_optimized [OF wf typed small run] wf typed show ?thesis by (simp add: run)
  qed
qed

lemma optimized_checks:
  assumes "optimized cfg g g' mapping" and "wf_graph g" and "length (graph_nodes g) \<le> u32_range"
  shows "length (graph_nodes g') \<le> u32_range" "validate_semantics g' = Inr ()"
  using assms optimized_wf [OF assms(1,2)] validate_semantics_iff_typed [of g' "()"]
  by (auto simp: optimized_def Let_def)

lemma jit_prepare_decided:
  fixes B :: "('s, 'b, 'k, 't, 'v, 'e) backend"
  assumes small: "length (graph_nodes g) \<le> u32_range"
  shows "case jit_prepare_with_config B g constants cfg s of
      (s', Inl f) \<Rightarrow> s' = s \<and> (\<exists>e. validate g = fail e \<and> f = Err (JitOptimization (InvalidGraph e))) \<or>
        s' = s \<and> validate g = Inr () \<and> (\<exists>e. validate_semantics g = fail e \<and> f = Err (JitOptimization (InvalidSemantics e))) \<or>
        (\<exists>r. optimize_graph g cfg = Inr r \<and>
          act_map_err JitCompilation (session_prepare B (og_graph r) constants) s = (s', Inl f))
    | (s', Inr ses) \<Rightarrow> optimize_graph g cfg = Inr (js_optimization ses) \<and>
        session_prepare B (og_graph (js_optimization ses)) constants s = (s', Inr (js_session ses)) \<and>
        js_inputs ses = map (jit_spec g (old_to_new (js_optimization ses))) (input_nodes g)"
proof (cases "optimize_graph g cfg")
  case (Inl f)
  with optimizer_decided [OF small, of cfg] have
    "(\<exists>e. validate g = fail e \<and> f = Err (InvalidGraph e)) \<or> validate g = Inr () \<and> (\<exists>e. validate_semantics g = fail e \<and> f = Err (InvalidSemantics e))" by simp
  with Inl show ?thesis by (auto simp: jit_prepare_with_config_def act_bind_lift)
next
  case (Inr r)
  with optimizer_decided [OF small, of cfg] have opt: "optimized cfg g (og_graph r) (old_to_new r)" and wf: "wf_graph g" by simp_all
  obtain s' q where q: "session_prepare B (og_graph r) constants s = (s', q)" by (cases "session_prepare B (og_graph r) constants s")
  show ?thesis
  proof (cases q)
    case (Inl f)
    obtain f' where f': "map_err JitCompilation (Inl f :: ('e session_prep_error, ('s, 'b, 'k, 't, 'v, 'e) graph_session) outcome) = Inl f'" by (cases f) simp_all
    with q Inl have "act_map_err JitCompilation (session_prepare B (og_graph r) constants) s = (s', Inl f')" by (simp add: act_map_err_def)
    moreover from this f' q Inl have "jit_prepare_with_config B g constants cfg s = (s', Inl f')"
      using Inr by (cases f) (simp_all add: jit_prepare_with_config_def act_bind_lift act_bind_map_err)
    ultimately show ?thesis using Inr by auto
  next
    case ses: (Inr ses)
    with q have prep: "session_prepare B (og_graph r) constants s = (s', Inr ses)" by simp
    from prepared_session_built [OF optimized_checks [OF opt wf small] prep]
    obtain p st where "ses = session_of B (og_graph r) p st" by metis
    with jit_inputs_built [OF opt wf small, where B = B and p = p and st = st and ?'e = 'e]
    have inputs: "(traverse (jit_input g r) (gs_inputs ses) :: ('e jit_prep_error, _) outcome) = Inr (map (jit_spec g (old_to_new r)) (input_nodes g))" by simp
    then have "jit_prepare_with_config B g constants cfg s =
        (s', Inr \<lparr>js_session = ses, js_inputs = map (jit_spec g (old_to_new r)) (input_nodes g), js_optimization = r\<rparr>)"
      using Inr prep by (simp add: jit_prepare_with_config_def act_bind_lift act_bind_map_err act_return_def)
    with Inr prep show ?thesis by simp
  qed
qed

section \<open>What an execution does with its inputs\<close>

text \<open>Why inputs are refused before the session is called.\<close>

inductive jit_refused :: "graph \<Rightarrow> graph_inputs \<Rightarrow> 'e jit_exec_error \<Rightarrow> bool" for g inputs where
  unexpected: "n \<in> fst ` set inputs \<Longrightarrow> n \<notin> required_inputs g \<Longrightarrow> jit_refused g inputs (JitUnexpectedInput n)"
| duplicate: "1 < length (filter (\<lambda>(m, _). m = n) inputs) \<Longrightarrow> jit_refused g inputs (JitDuplicateInput n)"
| missing: "n \<in> required_inputs g \<Longrightarrow> n \<notin> fst ` set inputs \<Longrightarrow> jit_refused g inputs (JitMissingInput n)"

definition inputs_named :: "graph \<Rightarrow> graph_inputs \<Rightarrow> bool" where
  "inputs_named g inputs \<longleftrightarrow> distinct (map fst inputs) \<and> fst ` set inputs = required_inputs g"

definition remapped_inputs :: "graph \<Rightarrow> node_id option list \<Rightarrow> graph_inputs \<Rightarrow> graph_inputs" where
  "remapped_inputs g mapping inputs = map (\<lambda>n. (the (mapping ! n), the (map_of inputs n))) (input_nodes g)"

lemma jit_remapped_decided:
  assumes wf: "wf_graph g"
  shows "decided (\<lambda>f. \<exists>e. f = Err e \<and> jit_refused g inputs e)
    (\<lambda>remapped. inputs_named g inputs \<and> remapped = remapped_inputs g mapping inputs)
    (jit_remapped (map (jit_spec g mapping) (input_nodes g)) inputs :: ('e jit_exec_error, _) outcome)"
proof -
  let ?specs = "map (jit_spec g mapping) (input_nodes g)"
  let ?stop = "\<lambda>f :: 'e jit_exec_error failure. \<exists>e. f = Err e \<and> jit_refused g inputs e"
  have distinct: "distinct (map ji_source_node ?specs)" using input_nodes_distinct by (simp add: comp_def)
  have keys: "ji_source_node ` set ?specs = required_inputs g" using input_nodes_set [OF wf] by (simp add: image_image)
  have step: "place_jit_input ?specs slots (n, v) =
      (case find_position (\<lambda>spec. ji_source_node spec = n) ?specs of
         None \<Rightarrow> (fail (JitUnexpectedInput n) :: ('e jit_exec_error, _) outcome)
       | Some k \<Rightarrow> if slots ! k \<noteq> None then fail (JitDuplicateInput n) else Inr (slots[k := Some v]))"
    if "length slots = length ?specs" for slots n v
    using that find_position_Some [of "\<lambda>spec. ji_source_node spec = n" ?specs]
    by (auto simp: place_jit_input_def split: option.splits)
  have placed: "decided ?stop (\<lambda>slots. slots = map (\<lambda>spec. map_of inputs (ji_source_node spec)) ?specs \<and>
        distinct (map fst inputs) \<and> fst ` set inputs \<subseteq> required_inputs g)
      (try_fold (place_jit_input ?specs) (replicate (length ?specs) None) inputs)"
    by (rule decided_weaken [OF slots_filled [OF distinct step, unfolded keys]])
      (auto intro: jit_refused.intros jit_refused.duplicate [unfolded One_nat_def])
  have "decided ?stop (\<lambda>remapped. inputs_named g inputs \<and> remapped = remapped_inputs g mapping inputs)
      (traverse remap_input (zip ?specs (map (\<lambda>spec. map_of inputs (ji_source_node spec)) ?specs)))"
    if dist: "distinct (map fst inputs)" and sub: "fst ` set inputs \<subseteq> required_inputs g"
  proof (cases "required_inputs g \<subseteq> fst ` set inputs")
    case True
    then have "\<exists>v. map_of inputs n = Some v" if "n \<in> set (input_nodes g)" for n
      using that by (metis input_nodes_set [OF wf] map_of_eq_None_iff not_Some_eq subsetD)
    then have "remap_input (jit_spec g mapping n, map_of inputs n) = (Inr (the (mapping ! n), the (map_of inputs n)) :: ('e jit_exec_error, _) outcome)"
      if "n \<in> set (input_nodes g)" for n using that by (fastforce simp: remap_input_def)
    then have "traverse remap_input (zip ?specs (map (\<lambda>spec. map_of inputs (ji_source_node spec)) ?specs)) =
        (Inr (remapped_inputs g mapping inputs) :: ('e jit_exec_error, _) outcome)"
      by (simp add: traverse_Inr remapped_inputs_def)
    with True dist sub show ?thesis by (auto simp: inputs_named_def)
  next
    case False
    let ?zip = "zip ?specs (map (\<lambda>spec. map_of inputs (ji_source_node spec)) ?specs)"
    show ?thesis
    proof (cases "traverse remap_input ?zip :: ('e jit_exec_error, _) outcome")
      case (Inl f)
      from traverse_InlD [OF Inl] obtain n where n: "n \<in> set (input_nodes g)"
        "(remap_input (jit_spec g mapping n, map_of inputs n) :: ('e jit_exec_error, _) outcome) = Inl f"
        by (auto simp: set_zip) (use nth_mem in blast)
      then have "map_of inputs n = None" "f = Err (JitMissingInput n)" by (cases "map_of inputs n"; simp add: remap_input_def)+
      then have "?stop f" using n(1) input_nodes_set [OF wf] by (auto simp: map_of_eq_None_iff intro: jit_refused.missing)
      with Inl show ?thesis by simp
    next
      case (Inr xs)
      from False obtain n where n: "n \<in> set (input_nodes g)" "map_of inputs n = None"
        using input_nodes_set [OF wf] by (auto simp: map_of_eq_None_iff)
      then obtain i where i: "i < length (input_nodes g)" "input_nodes g ! i = n" by (auto simp: in_set_conv_nth)
      with Inr n(2) show ?thesis by (auto simp: traverse_Inr remap_input_def)
    qed
  qed
  with placed show ?thesis
    by (cases "try_fold (place_jit_input ?specs) (replicate (length ?specs) None) inputs :: ('e jit_exec_error, _) outcome")
      (auto simp: jit_remapped_def)
qed

lemma jit_execute_decided:
  fixes B :: "('s, 'b, 'k, 't, 'v, 'e) backend"
  assumes small: "length (graph_nodes g) \<le> u32_range" and prep: "jit_prepare_with_config B g constants cfg s0 = (s1, Inr ses)"
  shows "if inputs_named g inputs
    then jit_execute ses inputs s =
      act_map_err JitExecution (session_execute (js_session ses) (remapped_inputs g (old_to_new (js_optimization ses)) inputs)) s
    else \<exists>e. jit_execute ses inputs s = (s, fail e) \<and> jit_refused g inputs e"
proof -
  from jit_prepare_decided [OF small, where B = B and constants = constants and cfg = cfg and s = s0] prep
  have run: "optimize_graph g cfg = Inr (js_optimization ses)"
    and specs: "js_inputs ses = map (jit_spec g (old_to_new (js_optimization ses))) (input_nodes g)" by simp_all
  from optimizer_decided [OF small, of cfg] run have wf: "wf_graph g" by simp
  note decided = jit_remapped_decided [OF wf, of inputs "old_to_new (js_optimization ses)", where ?'e = 'e]
  have exclusive: "\<not> inputs_named g inputs" if "jit_refused g inputs e" for e :: "'e jit_exec_error"
    using that
  proof cases
    case (duplicate n)
    show ?thesis
    proof
      assume "inputs_named g inputs"
      with at_most_once [of inputs n] duplicate show False by (simp add: inputs_named_def)
    qed
  qed (auto simp: inputs_named_def)
  show ?thesis
  proof (cases "jit_remapped (js_inputs ses) inputs :: ('e jit_exec_error, _) outcome")
    case (Inl f)
    with decided specs exclusive show ?thesis by (auto simp: jit_execute_def act_bind_lift)
  next
    case (Inr remapped)
    with decided specs show ?thesis by (simp add: jit_execute_def act_bind_lift)
  qed
qed

end
