(* ===== verification/Jit_Theorems.thy ===== *)
theory Jit_Theorems
  imports Graph_Jit Oracle_Theorems
begin

text \<open>
  The contract of JIT sessions: what preparation and the checking of inputs decide on any backend, and
  that a session on the CPU backend computes the source graph.
\<close>

section \<open>The lengths of the values of a prepared graph\<close>

lemma reference_operations_length:
  assumes "family_of oper = Some (lk_family k)" and "generatable k" "preparation_error (artifact_of k) = None" "artifact_ok (artifact_of k)"
    and vs: "map length vs = map (\<lambda>t. prod_list (ty_shape t)) (lk_operands k)"
  shows "length (reference_operations A oper (lk_operands k) (lk_result k) vs) = prod_list (ty_shape (lk_result k))"
proof -
  let ?a = "artifact_of k"
  have count: "element_count (layout_of (ty_shape t)) = prod_list (ty_shape t)" if "t \<in> insert (lk_result k) (set (lk_operands k))" for t
    using that assms(2) by (intro layout_count) (auto simp: generatable_def)
  have "invocation_sized ?a vs (replicate (element_count (ra_result ?a)) 0)"
    using vs count by (simp add: invocation_sized_def artifact_of_def comp_def)
  from kernel_spec_length [OF assms(4,3) this, of A] show ?thesis
    using assms(1) count by (simp add: direct_semantics_def kernel_spec_artifact) (simp add: artifact_of_def)
qed

text \<open>A graph whose session the CPU backend has prepared: every needed node has its kernel.\<close>

definition kernels_of :: "graph \<Rightarrow> logical_kernel set \<Rightarrow> bool" where
  "kernels_of g K \<longleftrightarrow> (\<forall>n \<in> needed (graph_nodes g) (graph_outputs g). computed (node_operation (graph_nodes g ! n)) \<longrightarrow>
     (\<exists>k \<in> K. family_of (node_operation (graph_nodes g ! n)) = Some (lk_family k) \<and>
        lk_operands k = map (type_of (graph_nodes g)) (node_inputs (graph_nodes g ! n)) \<and> lk_result k = node_output (graph_nodes g ! n))) \<and>
     (\<forall>k \<in> K. generatable k \<and> preparation_error (artifact_of k) = None \<and> artifact_ok (artifact_of k))"

lemma session_kernels:
  assumes small: "length (graph_nodes g) \<le> u32_range" and valid: "validate_semantics g = Inr ()"
    and prep: "session_prepare (cpu_backend reserve A) g constants h0 = (h1, Inr ses)"
  obtains K where "kernels_of g K" "wf_graph g"
proof -
  from small valid prep obtain plan lp p st where s: "compile g = Inr plan" "lower_plan plan (external_table g) = Inr lp" "wf_graph g"
    "prepare_with_external_types (cpu_backend reserve A) lp (table_types g) h0 = (h1, Inr p)" "prepared_constants g constants st"
    "ses = session_of (cpu_backend reserve A) g p st"
    by (rule prepared_session_built)
  note kernels = cpu_prepared_kernels [OF lowered_plan_well_formed [OF s(1) small valid s(2)] s(4)]
  have "n \<in> set (needed_list g)" if "n \<in> needed (graph_nodes g) (graph_outputs g)" for n
    using that needed_less [OF s(3)] by (simp add: needed_list_def)
  then have "kernels_of g (set (lp_kernels lp))"
    using lowered_node_kernel [OF s(1) small valid s(2)] kernels by (fastforce simp: kernels_of_def type_of_def)
  with s(3) that show ?thesis by blast
qed

lemma needed_value_length:
  assumes kernels: "kernels_of g K" and wf: "wf_graph g"
    and ext: "\<And>n. n \<in> needed (graph_nodes g) (graph_outputs g) \<Longrightarrow> \<not> computed (node_operation (graph_nodes g ! n)) \<Longrightarrow>
      length (ext n) = node_elements g n"
  shows "n \<in> needed (graph_nodes g) (graph_outputs g) \<Longrightarrow>
    length (node_value (reference_operations A) ext (graph_nodes g) n) = node_elements g n"
proof (induction n rule: less_induct)
  case (less n)
  let ?ns = "graph_nodes g" and ?n = "graph_nodes g ! n"
  have ok: "nodes_ok ?ns" using wf by (simp add: wf_graph_def)
  have n: "n < length ?ns" by (rule needed_less [OF wf less.prems])
  show ?case
  proof (cases "computed (node_operation ?n)")
    case False
    with ext [OF less.prems] show ?thesis by (simp add: node_value_in [OF ok n])
  next
    case True
    with kernels less.prems obtain k where k: "family_of (node_operation ?n) = Some (lk_family k)"
      "lk_operands k = map (type_of ?ns) (node_inputs ?n)" "lk_result k = node_output ?n"
      "generatable k" "preparation_error (artifact_of k) = None" "artifact_ok (artifact_of k)"
      unfolding kernels_of_def by blast
    have "length (node_value (reference_operations A) ext ?ns i) = node_elements g i" if "i \<in> set (node_inputs ?n)" for i
      using less.IH nodes_ok_inputs [OF ok n that] needed_input [OF less.prems n that] by blast
    then have "map length (operand_values (reference_operations A) ext ?ns n) = map (\<lambda>t. prod_list (ty_shape t)) (lk_operands k)"
      by (simp add: operand_values_def k(2) node_elements_def)
    from reference_operations_length [OF k(1,4,5,6) this] True show ?thesis
      by (simp add: node_value_in [OF ok n] k(2,3)) (simp add: node_elements_def type_of_def k(2,3))
  qed
qed

section \<open>What a JIT session computes\<close>

text \<open>
  A view that keeps the shape returns its operand; every other operation is what its Reference kernel
  computes.
\<close>

definition identity_view :: "operation \<Rightarrow> tensor_type \<Rightarrow> tensor_type \<Rightarrow> bool" where
  "identity_view oper a out \<longleftrightarrow> is_alias oper a out \<and> (\<forall>factor. oper \<noteq> Scale factor)"

definition jit_operations :: "arithmetic \<Rightarrow> element list operation_semantics" where
  "jit_operations A oper tys out vs = (if identity_view oper (tys ! 0) out then vs ! 0 else reference_operations A oper tys out vs)"

lemma identity_axes: "axes_ok [0..<length ds] ds"
  by (simp add: axes_ok_def lessThan_atLeast0)

lemma permuted_identity: "length xs = length ds \<Longrightarrow> permuted [0..<length ds] xs = xs"
  unfolding permuted_def by (metis map_nth)

lemma permute_spec_identity:
  assumes "length x = prod_list ds"
  shows "permute_spec ds [0..<length ds] x = x"
proof (rule nth_equalityI)
  show "length (permute_spec ds [0..<length ds] x) = length x" using assms by (simp add: permute_spec_def)
  fix i assume "i < length (permute_spec ds [0..<length ds] x)"
  then have i: "i < prod_list ds" by (simp add: permute_spec_def)
  with ravel_surj [of i ds] obtain c where c: "in_range c ds" "ravel ds c = i" by auto
  from permute_spec_index [OF identity_axes c(1), of x] c in_range_length [OF c(1)]
  show "permute_spec ds [0..<length ds] x ! i = x ! i" by (simp add: permuted_identity)
qed

lemma reference_identity:
  assumes fam: "family_of oper = Some (lk_family k)" and gen: "generatable k"
    and view: "identity_view oper a (lk_result k)" and k: "lk_operands k = [a]" and x: "length x = prod_list (ty_shape a)"
    and typed: "op_typed oper [a] (lk_result k)"
  shows "reference_operations A oper [a] (lk_result k) [x] = x"
proof -
  note unfolded = direct_semantics_def reference_kernels_def kernel_spec_def artifact_of_def
  have enc: "shape_encodable (ty_shape a)" using gen k by (simp add: generatable_def)
  consider sh where "oper = Reshape sh" | p where "oper = Transpose p"
    using view fam by (cases oper) (auto simp: identity_view_def is_alias_def)
  then show ?thesis
  proof cases
    case 1
    then show ?thesis by (simp add: unfolded)
  next
    case 2
    from 2 view have p: "p = [0..<length p]" by (simp add: identity_view_def is_alias_def)
    moreover have "length p = length (ty_shape a)" using typed 2 by auto
    ultimately have p': "p = [0..<length (ty_shape a)]" by simp
    have "length (ty_shape a) \<le> 32" using enc by (simp add: shape_encodable_def)
    then have "map unat (map word_of_nat p :: u16 list) = p" unfolding p' by (intro nth_equalityI) (auto simp: unat_of_nat)
    with 2 permute_spec_identity [OF x] show ?thesis by (simp add: unfolded layout_nat_dims [OF enc]) (simp add: p')
  qed
qed

text \<open>Scales by one and by zero, which the optimizer rewrites, are exact on the values of the graph.\<close>

definition scales_exact :: "arithmetic \<Rightarrow> (node_id \<Rightarrow> element list) \<Rightarrow> graph \<Rightarrow> bool" where
  "scales_exact A ext g \<longleftrightarrow>
     (\<forall>n \<in> needed (graph_nodes g) (graph_outputs g). (\<exists>factor. node_operation (graph_nodes g ! n) = Scale factor) \<longrightarrow>
        rewrite_exact (jit_operations A) ext (graph_nodes g) n)"

lemma jit_rewrite_exact:
  assumes wf: "wf_graph g" and exact: "scales_exact A ext g" and n: "n \<in> needed (graph_nodes g) (graph_outputs g)"
  shows "rewrite_exact (jit_operations A) ext (graph_nodes g) n"
proof (cases "\<exists>factor. node_operation (graph_nodes g ! n) = Scale factor")
  case True
  with exact n show ?thesis by (simp add: scales_exact_def)
next
  case False
  then have "simplify_operation (node_operation (graph_nodes g ! n)) = None"
    by (cases "node_operation (graph_nodes g ! n)") (simp_all add: simplify_operation_def)
  with False show ?thesis by (auto simp: rewrite_exact_def jit_operations_def identity_view_def Let_def)
qed

lemma reference_values_jit:
  assumes kernels: "kernels_of g K" and wf: "wf_graph g" "typed_graph g"
    and ext: "\<And>n. n \<in> needed (graph_nodes g) (graph_outputs g) \<Longrightarrow> \<not> computed (node_operation (graph_nodes g ! n)) \<Longrightarrow>
      length (ext n) = node_elements g n"
  shows "n \<in> needed (graph_nodes g) (graph_outputs g) \<Longrightarrow>
    node_value (reference_operations A) ext (graph_nodes g) n = node_value (jit_operations A) ext (graph_nodes g) n"
proof (induction n rule: less_induct)
  case (less n)
  let ?ns = "graph_nodes g" and ?n = "graph_nodes g ! n"
  have ok: "nodes_ok ?ns" using wf by (simp add: wf_graph_def)
  have n: "n < length ?ns" by (rule needed_less [OF wf(1) less.prems])
  have ins: "operand_values (reference_operations A) ext ?ns n = operand_values (jit_operations A) ext ?ns n"
    unfolding operand_values_def using less.IH nodes_ok_inputs [OF ok n] needed_input [OF less.prems n] by simp
  have "reference_operations A (node_operation ?n) (map (type_of ?ns) (node_inputs ?n)) (node_output ?n) (operand_values (jit_operations A) ext ?ns n) =
      jit_operations A (node_operation ?n) (map (type_of ?ns) (node_inputs ?n)) (node_output ?n) (operand_values (jit_operations A) ext ?ns n)"
    if comp: "computed (node_operation ?n)"
  proof (cases "identity_view (node_operation ?n) (map (type_of ?ns) (node_inputs ?n) ! 0) (node_output ?n)")
    case True
    from kernels less.prems comp obtain k where k: "family_of (node_operation ?n) = Some (lk_family k)"
      "lk_operands k = map (type_of ?ns) (node_inputs ?n)" "lk_result k = node_output ?n" "generatable k"
      unfolding kernels_of_def by blast
    have typed: "op_typed (node_operation ?n) (map (type_of ?ns) (node_inputs ?n)) (node_output ?n)"
      using wf(2) n by (simp add: typed_graph_def node_typed_def)
    have "length (node_inputs ?n) = 1"
      using True nodes_ok_arity [OF ok n] by (cases "node_operation ?n") (simp_all add: identity_view_def is_alias_def)
    then obtain i where i: "node_inputs ?n = [i]" by (auto simp: length_Suc_conv)
    have "length (node_value (reference_operations A) ext ?ns i) = node_elements g i"
      by (rule needed_value_length [OF kernels wf(1) ext]) (use needed_input [OF less.prems n, of i] i in auto)
    then have "length (operand_values (reference_operations A) ext ?ns n ! 0) = prod_list (ty_shape (type_of ?ns i))"
      by (simp add: operand_values_def i node_elements_def)
    moreover have "operand_values (reference_operations A) ext ?ns n = [operand_values (reference_operations A) ext ?ns n ! 0]"
      by (simp add: operand_values_def i)
    ultimately show ?thesis
      using reference_identity [OF k(1,4), of "type_of ?ns i" "operand_values (reference_operations A) ext ?ns n ! 0" A] True k(2,3) typed i
      unfolding ins by (simp add: jit_operations_def)
  qed (simp add: jit_operations_def)
  then show ?case by (simp add: node_value_in [OF ok n] ins)
qed

lemma mapped_external:
  assumes opt: "optimized cfg src g mapping" and wf: "wf_graph src"
    and i: "i \<in> needed (graph_nodes src) (graph_outputs src)" "\<not> computed (node_operation (graph_nodes src ! i))"
  obtains j where "mapping ! i = Some j" "node_operation (graph_nodes g ! j) = node_operation (graph_nodes src ! i)"
    "type_of (graph_nodes g) j = type_of (graph_nodes src) i"
proof -
  have lt: "i < length (graph_nodes src)" by (rule needed_less [OF wf i(1)])
  have "live_nodes cfg src ! i" using i(1) lt by (simp add: live_nodes_def)
  from represented [OF opt lt this] obtain j where j: "mapping ! i = Some j" "type_of (graph_nodes g) j = type_of (graph_nodes src) i"
    "node_operation (graph_nodes g ! j) = fold_operation cfg (node_operation (graph_nodes src ! i)) \<or>
      is_alias (node_operation (graph_nodes src ! i)) (type_of (graph_nodes g) j) (node_output (graph_nodes src ! i))"
    by (metis node.select_convs(1))
  then show ?thesis using that external_no_alias [OF i(2)] fold_external [OF i(2)] by metis
qed

lemma session_values_length:
  assumes wf: "wf_graph g" and fit: "inputs_fit g inputs" and constants: "constants_accepted g (external_table g) constants"
    and n: "n \<in> needed (graph_nodes g) (graph_outputs g)" "\<not> computed (node_operation (graph_nodes g ! n))"
  shows "length (session_values g constants inputs n) = node_elements g n"
proof (cases "node_operation (graph_nodes g ! n)")
  case (Input name)
  then have "n \<in> fst ` set inputs" using n fit by (auto simp: inputs_fit_def required_inputs_def)
  then obtain v where v: "(n, v) \<in> set inputs" by auto
  then have "map_of inputs n = Some v" using fit by (simp add: inputs_fit_def)
  with v fit Input show ?thesis by (auto simp: session_values_def inputs_fit_def)
next
  case (Constant c)
  then have "\<exists>b \<in> set (entries_of ConstantKind (external_table g)). binding_node (external_table g) b = n"
    unfolding table_externals [OF wf] using n by (simp add: kind_of_def)
  with constants Constant show ?thesis by (fastforce simp: constants_accepted_def session_values_def constant_of_def)
qed (use n in \<open>simp_all add: computed_def\<close>)

lemma remapped_lookup:
  assumes opt: "optimized cfg g g' mapping" and wf: "wf_graph g" and n: "n \<in> set (input_nodes g)"
  shows "map_of (remapped_inputs g mapping inputs) (the (mapping ! n)) = Some (the (map_of inputs n))"
proof -
  have "map fst (remapped_inputs g mapping inputs) = input_nodes g'"
    unfolding external_nodes_optimized [OF opt wf optimized_wf(1) [OF opt wf]] by (simp add: remapped_inputs_def comp_def)
  then have "distinct (map fst (remapped_inputs g mapping inputs))" using input_nodes_distinct by metis
  moreover have "(the (mapping ! n), the (map_of inputs n)) \<in> set (remapped_inputs g mapping inputs)" using n by (auto simp: remapped_inputs_def)
  ultimately show ?thesis by (rule map_of_is_SomeI)
qed

lemma remapped_fit:
  assumes opt: "optimized cfg g g' mapping" and wf: "wf_graph g" and named: "inputs_named g inputs"
    and fit: "inputs_fit g' (remapped_inputs g mapping inputs)"
  shows "inputs_fit g inputs"
proof -
  have "length v = node_elements g n" if nv: "(n, v) \<in> set inputs" for n v
  proof -
    have "n \<in> required_inputs g" using nv named by (force simp: inputs_named_def)
    then have n: "n \<in> set (input_nodes g)" using input_nodes_set [OF wf] by simp
    have "the (map_of inputs n) = v" using nv named by (simp add: inputs_named_def)
    then have "(the (mapping ! n), v) \<in> set (remapped_inputs g mapping inputs)" using n by (force simp: remapped_inputs_def)
    with fit have "length v = node_elements g' (the (mapping ! n))" by (auto simp: inputs_fit_def)
    with input_node_mapped(4) [OF opt n] show ?thesis by (auto simp: node_elements_def)
  qed
  with named show ?thesis by (auto simp: inputs_fit_def inputs_named_def)
qed

lemma remapped_values:
  assumes opt: "optimized cfg g g' mapping" and wf: "wf_graph g"
    and i: "i \<in> needed (graph_nodes g) (graph_outputs g)" "\<not> computed (node_operation (graph_nodes g ! i))" and j: "mapping ! i = Some j"
  shows "session_values g' constants (remapped_inputs g mapping inputs) j = session_values g constants inputs i"
proof -
  from mapped_external [OF opt wf i] j have oper: "node_operation (graph_nodes g' ! j) = node_operation (graph_nodes g ! i)" by auto
  show ?thesis
  proof (cases "node_operation (graph_nodes g ! i)")
    case (Input name)
    then have "i \<in> set (input_nodes g)" using i needed_less [OF wf i(1)] by (simp add: input_nodes_filter needed_list_def)
    from remapped_lookup [OF opt wf this, of inputs] oper Input j show ?thesis by (simp add: session_values_def)
  qed (use oper i(2) in \<open>simp_all add: session_values_def computed_def\<close>)
qed

lemma jit_run:
  assumes small: "length (graph_nodes g) \<le> u32_range"
    and prep: "jit_prepare_with_config (cpu_backend reserve A) g constants cfg h0 = (h1, Inr ses)"
    and run: "jit_execute ses inputs h2 = (h3, Inr ys)"
    and exact: "scales_exact A (session_values g constants inputs) g"
  shows "inputs_fit g inputs \<and> ys = map (\<lambda>n. \<lparr>ov_node = the (old_to_new (js_optimization ses) ! n),
      ov_tensor_type = type_of (graph_nodes g) n,
      ov_values = node_value (jit_operations A) (session_values g constants inputs) (graph_nodes g) n\<rparr>) (graph_outputs g)"
proof -
  let ?B = "cpu_backend reserve A" and ?r = "js_optimization ses"
  let ?m = "old_to_new ?r" and ?g = "og_graph ?r"
  from jit_prepare_decided [OF small, where B = ?B and constants = constants and cfg = cfg and s = h0] prep
  have opt_run: "optimize_graph g cfg = Inr ?r" and session: "session_prepare ?B ?g constants h0 = (h1, Inr (js_session ses))" by simp_all
  from optimizer_decided [OF small, of cfg] opt_run
  have wf: "wf_graph g" and typed: "typed_graph g" and opt: "optimized cfg g ?g ?m" by simp_all
  note checks = optimized_checks [OF opt wf small] and wf' = optimized_wf [OF opt wf]
  from jit_execute_decided [OF small prep, of inputs h2] run have named: "inputs_named g inputs"
    and "act_map_err JitExecution (session_execute (js_session ses) (remapped_inputs g ?m inputs)) h2 = (h3, Inr ys)"
    by (auto split: if_splits)
  then have exec: "session_execute (js_session ses) (remapped_inputs g ?m inputs) h2 = (h3, Inr ys)" by (simp add: act_map_err_Inr)
  let ?in = "remapped_inputs g ?m inputs"
  let ?ext = "session_values g constants inputs" and ?ext' = "session_values ?g constants ?in"
  from session_run [OF checks session exec] have fit: "inputs_fit ?g ?in"
    and ys: "ys = map (\<lambda>n. \<lparr>ov_node = n, ov_tensor_type = type_of (graph_nodes ?g) n,
      ov_values = node_value (reference_operations A) ?ext' (graph_nodes ?g) n\<rparr>) (graph_outputs ?g)" .
  from session_kernels [OF checks session] obtain K where kernels: "kernels_of ?g K" .
  from prepared_session_built [OF checks session] obtain st where "prepared_constants ?g constants st" by metis
  then have constants: "constants_accepted ?g (external_table ?g) constants" by (simp add: prepared_constants_def)
  have same: "node_value (reference_operations A) ?ext' (graph_nodes ?g) (the (?m ! n)) = node_value (jit_operations A) ?ext (graph_nodes g) n \<and>
      type_of (graph_nodes ?g) (the (?m ! n)) = type_of (graph_nodes g) n"
    if out: "n \<in> set (graph_outputs g)" for n
  proof -
    let ?S = "needed (graph_nodes g) (graph_outputs g)"
    have n: "n \<in> ?S" by (rule needed_output [OF out])
    have lt: "n < length (graph_nodes g)" by (rule needed_less [OF wf n])
    have "live_nodes cfg g ! n" using n lt by (simp add: live_nodes_def)
    from represented [OF opt lt this] obtain j where j: "?m ! n = Some j" "type_of (graph_nodes ?g) j = type_of (graph_nodes g) n" by metis
    have "j \<in> needed (graph_nodes ?g) (graph_outputs ?g)" by (rule needed_represented [OF opt wf n lt j(1)])
    from reference_values_jit [OF kernels wf' session_values_length [OF wf'(1) fit constants] this, of A]
    have "node_value (reference_operations A) ?ext' (graph_nodes ?g) j = node_value (jit_operations A) ?ext' (graph_nodes ?g) j" .
    also have "\<dots> = node_value (jit_operations A) ?ext (graph_nodes g) n"
      using optimized_values [OF opt wf needed_closed [OF wf] jit_rewrite_exact [OF wf exact] remapped_values [OF opt wf] n] j(1) by simp
    finally show ?thesis using j by simp
  qed
  have "graph_outputs ?g = map (\<lambda>k. the (?m ! k)) (graph_outputs g)" using opt by (simp add: optimized_def Let_def)
  with ys same have "ys = map (\<lambda>n. \<lparr>ov_node = the (?m ! n), ov_tensor_type = type_of (graph_nodes g) n,
      ov_values = node_value (jit_operations A) ?ext (graph_nodes g) n\<rparr>) (graph_outputs g)" by simp
  with remapped_fit [OF opt wf named fit] show ?thesis by blast
qed

section \<open>Properties\<close>

text \<open>
  C23: preparing a JIT session on any backend. An invalid or ill-typed graph is refused with the reason before
  the backend is called; otherwise preparation is the preparation of the optimized graph as a graph
  session, and a session lists exactly the inputs that the outputs of the source graph need, in order,
  each with its node in the optimized graph. No input mapping is ever lost.
\<close>

theorem jit_prepare_decides:
  fixes B :: "('s, 'b, 'k, 't, 'v, 'e) backend"
  assumes "length (graph_nodes g) \<le> u32_range"
  shows "case jit_prepare_with_config B g constants cfg s of
      (s', Inl f) \<Rightarrow> s' = s \<and> (\<exists>e. validate g = fail e \<and> f = Err (JitOptimization (InvalidGraph e))) \<or>
        s' = s \<and> validate g = Inr () \<and> (\<exists>e. validate_semantics g = fail e \<and> f = Err (JitOptimization (InvalidSemantics e))) \<or>
        (\<exists>r. optimize_graph g cfg = Inr r \<and>
          act_map_err JitCompilation (session_prepare B (og_graph r) constants) s = (s', Inl f))
    | (s', Inr ses) \<Rightarrow> optimize_graph g cfg = Inr (js_optimization ses) \<and>
        session_prepare B (og_graph (js_optimization ses)) constants s = (s', Inr (js_session ses)) \<and>
        js_inputs ses = map (jit_spec g (old_to_new (js_optimization ses))) (input_nodes g)"
  by (rule jit_prepare_decided [OF assms])

lemma remapped_mset:
  assumes "mset inputs' = mset inputs" and "inputs_named g inputs"
  shows "inputs_named g inputs'" "remapped_inputs g mapping inputs' = remapped_inputs g mapping inputs"
proof -
  have dist: "distinct (map fst inputs')"
    using assms by (metis inputs_named_def mset_eq_imp_distinct_iff mset_map)
  with map_of_mset [OF assms(1)] show "remapped_inputs g mapping inputs' = remapped_inputs g mapping inputs"
    by (simp add: remapped_inputs_def)
  show "inputs_named g inputs'" using dist assms(2) mset_eq_setD [OF assms(1)] by (simp add: inputs_named_def)
qed

text \<open>
  C24: on any backend an execution names its inputs by the nodes of the source graph. An input that the
  outputs do not need, that is named twice or that is missing is refused with the reason before the
  session is called; otherwise the values reach the session under the nodes of the optimized graph, and
  the order in which they are supplied has no effect.
\<close>

theorem jit_inputs_decide:
  fixes B :: "('s, 'b, 'k, 't, 'v, 'e) backend"
  assumes "length (graph_nodes g) \<le> u32_range" and "jit_prepare_with_config B g constants cfg s0 = (s1, Inr ses)"
  shows "if inputs_named g inputs
    then jit_execute ses inputs s =
        act_map_err JitExecution (session_execute (js_session ses) (remapped_inputs g (old_to_new (js_optimization ses)) inputs)) s \<and>
      (mset inputs' = mset inputs \<longrightarrow> jit_execute ses inputs' s = jit_execute ses inputs s)
    else \<exists>e. jit_execute ses inputs s = (s, fail e) \<and> jit_refused g inputs e"
proof -
  note run = jit_execute_decided [OF assms, where s = s]
  have "jit_execute ses inputs' s = jit_execute ses inputs s" if "mset inputs' = mset inputs" "inputs_named g inputs"
    using run [of inputs] run [of inputs'] remapped_mset [OF that] that(2) by simp
  with run [of inputs] show ?thesis by simp
qed

text \<open>
  C5: optimization changes no result on the CPU backend: whenever a JIT session was prepared and an execution
  returns, the inputs were the needed inputs of the source graph with their lengths and the outputs are
  the values that the source graph gives them, with identity views returning their operand, where
  scaling by one and by zero is exact on the values of the graph (for a scale by zero this excludes NaN,
  infinite and negative elements).
\<close>

theorem jit_refines_graph:
  assumes "length (graph_nodes g) \<le> u32_range"
    and "jit_prepare_with_config (cpu_backend reserve A) g constants cfg h0 = (h1, Inr ses)"
    and "jit_execute ses inputs h2 = (h3, Inr ys)"
    and "scales_exact A (session_values g constants inputs) g"
  shows "inputs_fit g inputs \<and> ys = map (\<lambda>n. \<lparr>ov_node = the (old_to_new (js_optimization ses) ! n),
      ov_tensor_type = type_of (graph_nodes g) n,
      ov_values = node_value (jit_operations A) (session_values g constants inputs) (graph_nodes g) n\<rparr>) (graph_outputs g)"
  by (rule jit_run [OF assms])

text \<open>
  A constant that the outputs do not need is refused, although a graph session of the same graph accepts
  it: with dead-code elimination every supplied constant of a prepared JIT session is needed.
\<close>

theorem jit_refuses_dead_constants:
  fixes B :: "('s, 'b, 'k, 't, 'v, 'e) backend"
  assumes small: "length (graph_nodes g) \<le> u32_range" and prep: "jit_prepare_with_config B g constants cfg s0 = (s1, Inr ses)"
    and dce: "dead_code_elimination cfg" and c: "(c, v) \<in> set constants"
  shows "\<exists>n \<in> needed (graph_nodes g) (graph_outputs g). node_operation (graph_nodes g ! n) = Constant c"
proof -
  let ?r = "js_optimization ses"
  let ?g = "og_graph ?r"
  from jit_prepare_decided [OF small, where B = B and constants = constants and cfg = cfg and s = s0] prep
  have run: "optimize_graph g cfg = Inr ?r" and session: "session_prepare B ?g constants s0 = (s1, Inr (js_session ses))" by simp_all
  from optimizer_decided [OF small, of cfg] run
  have wf: "wf_graph g" and opt: "optimized cfg g ?g (old_to_new ?r)" by simp_all
  from prepared_session_built [OF optimized_checks [OF opt wf small] session] obtain st where "prepared_constants ?g constants st" by metis
  then have "c \<in> set (referenced_constants ?g)" using c by (force simp: prepared_constants_def constants_accepted_def)
  then obtain j where j: "j < length (graph_nodes ?g)" "node_operation (graph_nodes ?g ! j) = Constant c"
    by (auto simp: referenced_constants_set in_set_conv_nth)
  from opt j(1) obtain a where a: "a < length (graph_nodes g)" "live_nodes cfg g ! a" "old_to_new ?r ! a = Some j"
    by (auto simp: optimized_def Let_def)
  then have "a \<in> needed (graph_nodes g) (graph_outputs g)" using dce by (simp add: live_nodes_def)
  from first_represented [OF opt wf a(1) this a(3)] obtain i where i: "i \<in> needed (graph_nodes g) (graph_outputs g)"
    "fold_operation cfg (node_operation (graph_nodes g ! i)) = Constant c" using j(2) by (metis node.select_convs(1))
  then have "node_operation (graph_nodes g ! i) = Constant c"
    by (cases "node_operation (graph_nodes g ! i)") (auto simp: fold_operation_def simplify_operation_def split: if_splits)
  with i(1) show ?thesis by blast
qed

end
