(* ===== verification/Jit_Examples.thy ===== *)
theory Jit_Examples
  imports Jit_Theorems Session_Examples
begin

text \<open>
  A concrete JIT session: a graph with a dead node and a reshape to its own shape, which the optimizer turns
  into the graph that doubles a matrix.
\<close>

definition padded_graph :: graph where
  "padded_graph =
     \<lparr>graph_nodes = [mk_node (Input ''x'') [], mk_node Relu [0], mk_node (Reshape [2, 2]) [0], mk_node Add [0, 2]],
      graph_outputs = [3]\<rparr>"

lemma padded_valid: "validate padded_graph = Inr ()" "validate_semantics padded_graph = Inr ()"
proof -
  have "wf_graph padded_graph"
    by (simp add: padded_graph_def wf_graph_def nodes_ok_def node_ok_def mk_node_def less_Suc_eq numeral_eq_Suc)
  moreover have "typed_graph padded_graph"
    using matrix_elements
    by (simp add: padded_graph_def typed_graph_def node_typed_def mk_node_def type_of_def matrix_type_def tensor_type_new_def)
  ultimately show "validate padded_graph = Inr ()" "validate_semantics padded_graph = Inr ()"
    by (simp_all add: validate_iff_wf validate_semantics_iff_typed)
qed

lemma padded_optimized:
  "\<exists>stats. optimize_graph padded_graph optimization_config_default =
     Inr \<lparr>og_graph = doubled_graph, old_to_new = [Some 0, None, Some 0, Some 1], og_stats = stats\<rparr>"
proof -
  have live: "reachable_nodes padded_graph = (Inr [True, False, True, True] :: (optimization_error, bool list) outcome)"
    by (simp add: padded_graph_def reachable_nodes_def mark_reachable.simps mk_node_def)
  note unfold_step = optimize_step_def lookup_mapping_def simplify_alias_def fold_operation_def
    simplify_operation_def cse_eligible_def find_equivalent_def add_node_def Let_def check_inputs_def require_def
  show ?thesis
    by (simp add: optimize_graph_def padded_valid optimization_config_default_def live)
      (simp add: padded_graph_def doubled_graph_def mk_node_def matrix_type_def tensor_type_new_def graph_new_def optimization_stats_default_def
        unfold_step set_outputs_def check_outputs_def)
qed

lemma padded_small: "length (graph_nodes padded_graph) \<le> u32_range"
  by (simp add: padded_graph_def)

lemma padded_prepared:
  obtains ses where "jit_prepare_with_config (cpu_backend granting text_arithmetic) padded_graph [] optimization_config_default [] = ([], Inr ses)"
    "js_session ses = doubled_session granting text_arithmetic" "old_to_new (js_optimization ses) = [Some 0, None, Some 0, Some 1]"
proof -
  let ?B = "cpu_backend granting text_arithmetic"
  from padded_optimized obtain stats where opt: "optimize_graph padded_graph optimization_config_default =
     Inr \<lparr>og_graph = doubled_graph, old_to_new = [Some 0, None, Some 0, Some 1], og_stats = stats\<rparr>" ..
  obtain h r where run: "jit_prepare_with_config ?B padded_graph [] optimization_config_default [] = (h, r)"
    by (cases "jit_prepare_with_config ?B padded_graph [] optimization_config_default []")
  note decided = jit_prepare_decided [OF padded_small, where B = ?B and constants = "[]" and cfg = optimization_config_default and s = "[]"]
  note session = doubled_session_prepared [of granting text_arithmetic "[]"]
  show ?thesis
  proof (cases r)
    case (Inl f)
    with run decided session opt padded_valid show ?thesis by (auto simp: act_map_err_def)
  next
    case (Inr ses)
    with run decided have "optimize_graph padded_graph optimization_config_default = Inr (js_optimization ses)"
      "session_prepare ?B (og_graph (js_optimization ses)) [] [] = (h, Inr (js_session ses))" by simp_all
    with opt session have "js_session ses = doubled_session granting text_arithmetic" "h = []"
      "old_to_new (js_optimization ses) = [Some 0, None, Some 0, Some 1]" by auto
    with run Inr that show ?thesis by simp
  qed
qed

lemma padded_inputs: "input_nodes padded_graph = [0]" "required_inputs padded_graph = {0}"
proof -
  have wf: "wf_graph padded_graph" using padded_valid(1) by (simp add: validate_iff_wf)
  have "(Inr (live_nodes optimization_config_default padded_graph) :: (optimization_error, bool list) outcome) = Inr [True, False, True, True]"
    unfolding reachable_live [OF wf, symmetric]
    by (simp add: padded_graph_def reachable_nodes_def mark_reachable.simps mk_node_def)
  then have "live_nodes optimization_config_default padded_graph ! 0" by simp
  then have zero: "0 \<in> needed (graph_nodes padded_graph) (graph_outputs padded_graph)" by (simp add: live_nodes_def padded_graph_def)
  have only: "n = 0" if "n \<in> set (input_nodes padded_graph)" for n
  proof -
    have "n < length (graph_nodes padded_graph)" "is_input (node_operation (graph_nodes padded_graph ! n))"
      using that by (auto simp: input_nodes_filter needed_list_def)
    moreover have "length (graph_nodes padded_graph) = 4" by (simp add: padded_graph_def)
    moreover from calculation have "n = 0 \<or> n = 1 \<or> n = 2 \<or> n = 3" by linarith
    ultimately show ?thesis by (auto simp: padded_graph_def mk_node_def)
  qed
  have mem: "0 \<in> set (input_nodes padded_graph)"
    using zero unfolding input_nodes_filter needed_list_def by (simp add: padded_graph_def mk_node_def)
  show nodes: "input_nodes padded_graph = [0]"
  proof (cases "input_nodes padded_graph")
    case (Cons a as)
    with only input_nodes_distinct [of padded_graph] have "a = 0" "as = []" by (cases as; auto)+
    with Cons show ?thesis by simp
  qed (use mem in simp)
  show "required_inputs padded_graph = {0}" using input_nodes_set [OF wf] nodes by simp
qed

theorem jit_prepare_decides_witness:
  "\<exists>ses. jit_prepare_with_config (cpu_backend granting text_arithmetic) padded_graph [] optimization_config_default [] = ([], Inr ses) \<and>
     map ji_source_node (js_inputs ses) = [0]"
proof -
  from padded_prepared obtain ses where
    ses: "jit_prepare_with_config (cpu_backend granting text_arithmetic) padded_graph [] optimization_config_default [] = ([], Inr ses)" by metis
  with jit_prepare_decides [OF padded_small, where B = "cpu_backend granting text_arithmetic" and constants = "[]"
      and cfg = optimization_config_default and s = "[]"]
  show ?thesis by (simp add: padded_inputs)
qed

theorem jit_inputs_decide_witness:
  "\<exists>ses e. jit_prepare_with_config (cpu_backend granting text_arithmetic) padded_graph [] optimization_config_default [] = ([], Inr ses) \<and>
     jit_execute ses [(2, [1, 2, 3, 4])] [] = ([], fail e) \<and> jit_refused padded_graph [(2, [1, 2, 3, 4])] e"
proof -
  from padded_prepared obtain ses where
    ses: "jit_prepare_with_config (cpu_backend granting text_arithmetic) padded_graph [] optimization_config_default [] = ([], Inr ses)" by metis
  have "\<not> inputs_named padded_graph [(2, [1, 2, 3, 4])]" by (simp add: inputs_named_def padded_inputs)
  with jit_inputs_decide [OF padded_small ses, where inputs = "[(2, [1, 2, 3, 4])]" and s = "[]"] ses show ?thesis by auto
qed

theorem jit_refines_graph_witness:
  "\<exists>ses heap ys. jit_prepare_with_config (cpu_backend granting text_arithmetic) padded_graph [] optimization_config_default [] = ([], Inr ses) \<and>
     jit_execute ses [(0, [1, 2, 3, 4])] [] = (heap, Inr ys) \<and> map ov_values ys = [[2, 4, 6, 8]]"
proof -
  from padded_prepared obtain ses where
    ses: "jit_prepare_with_config (cpu_backend granting text_arithmetic) padded_graph [] optimization_config_default [] = ([], Inr ses)"
      "js_session ses = doubled_session granting text_arithmetic" "old_to_new (js_optimization ses) = [Some 0, None, Some 0, Some 1]" by metis
  let ?in = "[(0, [1, 2, 3, 4])]"
  have named: "inputs_named padded_graph ?in" by (simp add: inputs_named_def padded_inputs)
  from doubled_session_run [of text_arithmetic] obtain heap ys where
    run: "session_execute (doubled_session granting text_arithmetic) ?in [] = (heap, Inr ys)" by blast
  then have "jit_execute ses ?in [] = (heap, Inr ys)"
    using jit_execute_decided [OF padded_small ses(1), where inputs = ?in and s = "[]"] named ses(2,3)
    by (simp add: remapped_inputs_def padded_inputs act_map_err_Inr)
  moreover have "scales_exact text_arithmetic (session_values padded_graph [] ?in) padded_graph"
  proof -
    have "wf_graph padded_graph" using padded_valid(1) by (simp add: validate_iff_wf)
    then have "n < 4" if "n \<in> needed (graph_nodes padded_graph) (graph_outputs padded_graph)" for n
      using needed_less [of padded_graph n] that by (simp add: padded_graph_def)
    then show ?thesis
      by (fastforce simp: scales_exact_def padded_graph_def mk_node_def less_Suc_eq numeral_eq_Suc)
  qed
  moreover have "node_value (jit_operations text_arithmetic) (session_values padded_graph [] ?in) (graph_nodes padded_graph) 3 = [2, 4, 6, 8]"
    by (simp add: node_value.simps padded_graph_def mk_node_def computed_def direct_semantics_def reference_kernels_def
        kernel_spec_def artifact_of_def text_arithmetic_def session_values_def jit_operations_def identity_view_def is_alias_def)
  ultimately show ?thesis
    using jit_refines_graph [OF padded_small ses(1), of ?in "[]" heap ys] ses(1) by (simp add: padded_graph_def)
qed

end
