(* ===== verification/Graph_Autodiff.thy ===== *)
theory Graph_Autodiff
  imports Graph_Builder
begin

text \<open>
  Reverse- and forward-mode differentiation of canonical graphs
  (\<open>scirust-tensor-ir/src/autodiff.rs\<close>): \<open>vjp\<close>, \<open>grad\<close>, \<open>value_and_grad\<close>, \<open>jvp\<close>. The graph under
  construction is threaded by the builders of \<open>Graph_Builder\<close>; the adjoint (tangent) table is
  an explicit list. The theorems show that every transform is total on the graphs it accepts,
  keeps the primal computation as a prefix, and yields well-typed derivatives.
\<close>

datatype autodiff_error =
    AdInvalidGraph graph_error
  | AdInvalidSemantics semantic_error
  | AdInvalidNode node_id
  | AdUnsupportedDType node_id dtype
  | AdUnsupportedOperation node_id operation
  | MatMulRequiresRank2 node_id
  | BatchMatMulRequiresRankAtLeast3 node_id

record vjp_graph =
  vjp_result :: graph
  vjp_primal_output :: node_id
  vjp_cotangent_input :: node_id
  vjp_gradients :: "node_id list"

record grad_graph =
  grad_result :: graph
  grad_primal_output :: node_id
  grad_gradients :: "node_id list"

record jvp_graph =
  jvp_result :: graph
  jvp_primal_output :: node_id
  jvp_tangent_output :: node_id
  jvp_tangent_inputs :: "node_id list"

type_synonym 'a ad_builder = "(autodiff_error, 'a) builder"

abbreviation ad_emit :: "operation \<Rightarrow> node_id list \<Rightarrow> tensor_type \<Rightarrow> node_id ad_builder" where
  "ad_emit \<equiv> emit AdInvalidGraph"

section \<open>Helpers\<close>

definition mapped :: "node_id list \<Rightarrow> node_id \<Rightarrow> (autodiff_error, node_id) outcome" where
  "mapped mapping i = ok_or (AdInvalidNode i) (get mapping i)"

definition node_type :: "graph \<Rightarrow> node_id \<Rightarrow> (autodiff_error, tensor_type) outcome" where
  "node_type g i = ok_or (AdInvalidNode i) (map_option node_output (get (graph_nodes g) i))"

definition ensure_supported_dtype :: "graph \<Rightarrow> node_id \<Rightarrow> (autodiff_error, unit) outcome" where
  "ensure_supported_dtype g i =
     try_bind (node_type g i) (\<lambda>ty.
       require (ty_dtype ty = F32) (AdUnsupportedDType i (ty_dtype ty)))"

definition require_rank2 ::
  "graph \<Rightarrow> node_id \<Rightarrow> node_id \<Rightarrow> node_id \<Rightarrow> (autodiff_error, unit) outcome" where
  "require_rank2 g n lhs rhs =
     try_bind (node_type g lhs) (\<lambda>l.
       if length (ty_shape l) = 2
       then try_bind (node_type g rhs) (\<lambda>r.
              require (length (ty_shape r) = 2) (MatMulRequiresRank2 n))
       else fail (MatMulRequiresRank2 n))"

definition require_batch_rank ::
  "graph \<Rightarrow> node_id \<Rightarrow> node_id \<Rightarrow> node_id \<Rightarrow> (autodiff_error, unit) outcome" where
  "require_batch_rank g n lhs rhs =
     try_bind (node_type g lhs) (\<lambda>l.
       if length (ty_shape l) \<ge> 3
       then try_bind (node_type g rhs) (\<lambda>r.
              require (length (ty_shape r) \<ge> 3) (BatchMatMulRequiresRankAtLeast3 n))
       else fail (BatchMatMulRequiresRankAtLeast3 n))"

text \<open>
  \<open>slice.swap(a, b)\<close>. \<open>transpose_last_two\<close> is called after \<open>require_rank2\<close> or
  \<open>require_batch_rank\<close>, so \<open>rank - 2\<close> does not underflow.
\<close>

definition swap_at :: "nat \<Rightarrow> nat \<Rightarrow> 'a list \<Rightarrow> 'a list" where
  "swap_at a b xs = xs[a := xs ! b, b := xs ! a]"

definition transpose_last_two :: "tensor_type \<Rightarrow> usize list \<times> tensor_type" where
  "transpose_last_two ty =
     (let rank = length (ty_shape ty) in
      (swap_at (rank - 2) (rank - 1) [0..<rank],
       tensor_type_new (ty_dtype ty) (swap_at (rank - 2) (rank - 1) (ty_shape ty))))"

definition inverse_step ::
  "usize list \<Rightarrow> usize list option \<Rightarrow> usize \<times> usize \<Rightarrow> usize list option" where
  "inverse_step permutation acc p = (case (acc, p) of
     (None, _) \<Rightarrow> None
   | (Some perm, (output_axis, input_axis)) \<Rightarrow>
       if input_axis \<ge> length permutation \<or> perm ! input_axis \<noteq> usize_max then None
       else Some (perm[input_axis := output_axis]))"

definition inverse_permutation :: "usize list \<Rightarrow> usize list option" where
  "inverse_permutation permutation =
     foldl (inverse_step permutation) (Some (replicate (length permutation) usize_max))
       (enumerate 0 permutation)"

definition validate_for_autodiff ::
  "graph \<Rightarrow> node_id \<Rightarrow> node_id list \<Rightarrow> (autodiff_error, unit) outcome" where
  "validate_for_autodiff source out wrt =
     try_bind (map_err AdInvalidGraph (validate source)) (\<lambda>_.
     try_bind (map_err AdInvalidSemantics (validate_semantics source)) (\<lambda>_.
     try_bind (ensure_supported_dtype source out) (\<lambda>_.
     for_each (ensure_supported_dtype source) wrt)))"

definition copy_step :: "node_id list \<Rightarrow> node \<Rightarrow> node_id list ad_builder" where
  "copy_step mapped_nodes n =
     gb_try (traverse (mapped mapped_nodes) (node_inputs n)) (\<lambda>inputs.
     gb_bind (ad_emit (node_operation n) inputs (node_output n)) (\<lambda>copied.
     gb_return (mapped_nodes @ [copied])))"

definition copy_primal :: "graph \<Rightarrow> (autodiff_error, node_id list \<times> graph) outcome" where
  "copy_primal source = gb_fold copy_step [] (graph_nodes source) graph_new"

section \<open>Reverse mode\<close>

text \<open>\<open>adjoints\<close> has one slot per source node.\<close>

definition accumulate ::
  "node_id option list \<Rightarrow> node_id \<Rightarrow> node_id \<Rightarrow> tensor_type \<Rightarrow> node_id option list ad_builder" where
  "accumulate adjoints target contribution ty =
     gb_try (idx adjoints target) (\<lambda>slot. case slot of
         Some existing \<Rightarrow>
           gb_bind (ad_emit Add [existing, contribution] ty) (\<lambda>i.
           gb_return (adjoints[target := Some i]))
       | None \<Rightarrow> gb_return (adjoints[target := Some contribution]))"

definition reverse_matmul ::
  "node_id list \<Rightarrow> graph \<Rightarrow> node_id option list \<Rightarrow> node \<Rightarrow> node_id \<Rightarrow> operation
     \<Rightarrow> node_id option list ad_builder" where
  "reverse_matmul primal source adjoints n cotangent product =
     gb_try (idx (node_inputs n) 0) (\<lambda>lhs. gb_try (idx (node_inputs n) 1) (\<lambda>rhs.
     gb_try (node_type source lhs) (\<lambda>lhs_type. gb_try (node_type source rhs) (\<lambda>rhs_type.
     let (lhs_perm, lhs_t_type) = transpose_last_two lhs_type;
         (rhs_perm, rhs_t_type) = transpose_last_two rhs_type in
     gb_try (mapped primal rhs) (\<lambda>primal_rhs.
     gb_bind (ad_emit (Transpose rhs_perm) [primal_rhs] rhs_t_type) (\<lambda>rhs_t.
     gb_bind (ad_emit product [cotangent, rhs_t] lhs_type) (\<lambda>lhs_grad.
     gb_try (mapped primal lhs) (\<lambda>primal_lhs.
     gb_bind (ad_emit (Transpose lhs_perm) [primal_lhs] lhs_t_type) (\<lambda>lhs_t.
     gb_bind (ad_emit product [lhs_t, cotangent] rhs_type) (\<lambda>rhs_grad.
     gb_bind (accumulate adjoints lhs lhs_grad lhs_type) (\<lambda>adjoints.
     accumulate adjoints rhs rhs_grad rhs_type)))))))))))"

definition minus_one :: scalar where
  "minus_one = scalar_f32 f32_minus_one"

definition reverse_rule ::
  "graph \<Rightarrow> node_id list \<Rightarrow> node_id option list \<Rightarrow> node_id \<Rightarrow> node \<Rightarrow> node_id
     \<Rightarrow> node_id option list ad_builder" where
  "reverse_rule source primal adjoints i n cotangent =
     (let input = (\<lambda>k f. gb_try (idx (node_inputs n) k) f);
          p = (\<lambda>k f. gb_try (mapped primal k) f);
          ty = (\<lambda>k f. gb_try (node_type source k) f);
          unary = (\<lambda>oper. input 0 (\<lambda>a. ty a (\<lambda>ta.
            gb_bind (ad_emit oper [cotangent] ta) (\<lambda>contribution.
            accumulate adjoints a contribution ta)))) in
      case node_operation n of
        Input _ \<Rightarrow> gb_return adjoints
      | Constant _ \<Rightarrow> gb_return adjoints
      | Add \<Rightarrow>
          input 0 (\<lambda>a. ty a (\<lambda>ta.
          gb_bind (accumulate adjoints a cotangent ta) (\<lambda>adjoints.
          input 1 (\<lambda>b. ty b (\<lambda>tb.
          accumulate adjoints b cotangent tb)))))
      | Sub \<Rightarrow>
          input 0 (\<lambda>a. ty a (\<lambda>ta.
          gb_bind (accumulate adjoints a cotangent ta) (\<lambda>adjoints.
          input 1 (\<lambda>b. ty b (\<lambda>tb.
          gb_bind (ad_emit (Scale minus_one) [cotangent] tb) (\<lambda>neg.
          accumulate adjoints b neg tb))))))
      | Mul \<Rightarrow>
          input 0 (\<lambda>a. input 1 (\<lambda>b. p b (\<lambda>pb. ty a (\<lambda>ta.
          gb_bind (ad_emit Mul [cotangent, pb] ta) (\<lambda>left.
          p a (\<lambda>pa. ty b (\<lambda>tb.
          gb_bind (ad_emit Mul [cotangent, pa] tb) (\<lambda>right.
          gb_bind (accumulate adjoints a left ta) (\<lambda>adjoints.
          accumulate adjoints b right tb)))))))))
      | Div \<Rightarrow>
          input 0 (\<lambda>a. input 1 (\<lambda>b. p b (\<lambda>pb. ty a (\<lambda>ta.
          gb_bind (ad_emit Div [cotangent, pb] ta) (\<lambda>left.
          ty b (\<lambda>tb.
          gb_bind (ad_emit Mul [pb, pb] tb) (\<lambda>denominator.
          p a (\<lambda>pa.
          gb_bind (ad_emit Mul [cotangent, pa] tb) (\<lambda>numerator.
          gb_bind (ad_emit Div [numerator, denominator] tb) (\<lambda>quotient.
          gb_bind (ad_emit (Scale minus_one) [quotient] tb) (\<lambda>right.
          gb_bind (accumulate adjoints a left ta) (\<lambda>adjoints.
          accumulate adjoints b right tb))))))))))))
      | Scale factor \<Rightarrow> unary (Scale factor)
      | Relu \<Rightarrow>
          input 0 (\<lambda>a. p a (\<lambda>pa. ty a (\<lambda>ta.
          gb_bind (ad_emit ReluGrad [pa, cotangent] ta) (\<lambda>contribution.
          accumulate adjoints a contribution ta))))
      | Exp \<Rightarrow>
          input 0 (\<lambda>a. p i (\<lambda>pi. ty a (\<lambda>ta.
          gb_bind (ad_emit Mul [cotangent, pi] ta) (\<lambda>contribution.
          accumulate adjoints a contribution ta))))
      | Log \<Rightarrow>
          input 0 (\<lambda>a. p a (\<lambda>pa. ty a (\<lambda>ta.
          gb_bind (ad_emit Div [cotangent, pa] ta) (\<lambda>contribution.
          accumulate adjoints a contribution ta))))
      | ReluGrad \<Rightarrow>
          input 0 (\<lambda>a. input 1 (\<lambda>b. p a (\<lambda>pa. ty b (\<lambda>tb.
          gb_bind (ad_emit ReluGrad [pa, cotangent] tb) (\<lambda>contribution.
          accumulate adjoints b contribution tb)))))
      | ZerosLike \<Rightarrow> gb_return adjoints
      | OnesLike \<Rightarrow> gb_return adjoints
      | StopGradient \<Rightarrow> gb_return adjoints
      | Checkpoint \<Rightarrow> input 0 (\<lambda>a. ty a (\<lambda>ta. accumulate adjoints a cotangent ta))
      | Reshape _ \<Rightarrow>
          input 0 (\<lambda>a. ty a (\<lambda>ta. unary (Reshape (ty_shape ta))))
      | Transpose permutation \<Rightarrow>
          gb_try (ok_or (AdUnsupportedOperation i (node_operation n))
                    (inverse_permutation permutation)) (\<lambda>inverse.
          unary (Transpose inverse))
      | BroadcastTo _ \<Rightarrow>
          input 0 (\<lambda>a. ty a (\<lambda>ta. unary (ReduceSumTo (ty_shape ta))))
      | ReduceSumTo _ \<Rightarrow>
          input 0 (\<lambda>a. ty a (\<lambda>ta. unary (BroadcastTo (ty_shape ta))))
      | MatMul \<Rightarrow>
          input 0 (\<lambda>a. input 1 (\<lambda>b. gb_try (require_rank2 source i a b) (\<lambda>_.
          reverse_matmul primal source adjoints n cotangent MatMul)))
      | BatchMatMul \<Rightarrow>
          input 0 (\<lambda>a. input 1 (\<lambda>b. gb_try (require_batch_rank source i a b) (\<lambda>_.
          reverse_matmul primal source adjoints n cotangent BatchMatMul))))"

definition reverse_step ::
  "graph \<Rightarrow> node_id list \<Rightarrow> node_id option list \<Rightarrow> usize \<Rightarrow> node_id option list ad_builder" where
  "reverse_step source primal adjoints index =
     gb_try (idx adjoints index) (\<lambda>slot. case slot of
         None \<Rightarrow> gb_return adjoints
       | Some cotangent \<Rightarrow>
           gb_try (idx (graph_nodes source) index) (\<lambda>n.
           reverse_rule source primal adjoints (as_u32 index) n cotangent))"

definition gradient_step ::
  "graph \<Rightarrow> node_id list \<Rightarrow> node_id option list \<Rightarrow> node_id list \<Rightarrow> node_id \<Rightarrow> node_id list ad_builder"
where
  "gradient_step source primal adjoints gradients i =
     gb_try (idx adjoints i) (\<lambda>slot. case slot of
         Some gradient \<Rightarrow> gb_return (gradients @ [gradient])
       | None \<Rightarrow>
           gb_try (mapped primal i) (\<lambda>pi. gb_try (node_type source i) (\<lambda>ty.
           gb_bind (ad_emit ZerosLike [pi] ty) (\<lambda>gradient.
           gb_return (gradients @ [gradient])))))"

definition reverse_accumulate ::
  "graph \<Rightarrow> node_id list \<Rightarrow> node_id \<Rightarrow> node_id \<Rightarrow> node_id list \<Rightarrow> node_id list ad_builder" where
  "reverse_accumulate source primal out seed wrt =
     (let adjoints = replicate (length (graph_nodes source)) None in
      gb_try (idx adjoints out) (\<lambda>_.
      gb_bind (gb_fold (reverse_step source primal) (adjoints[out := Some seed])
                 (rev [0..<length (graph_nodes source)])) (\<lambda>adjoints.
      gb_fold (gradient_step source primal adjoints) [] wrt)))"

definition vjp ::
  "graph \<Rightarrow> node_id \<Rightarrow> node_id list \<Rightarrow> (autodiff_error, vjp_graph) outcome" where
  "vjp source out wrt =
     try_bind (validate_for_autodiff source out wrt) (\<lambda>_.
     try_bind (copy_primal source) (\<lambda>(primal, g).
     try_bind (mapped primal out) (\<lambda>primal_output.
     try_bind (node_type source out) (\<lambda>ty.
     try_bind (ad_emit (Input ''__scirust_cotangent'') [] ty g) (\<lambda>(cotangent_input, g).
     try_bind (reverse_accumulate source primal out cotangent_input wrt g) (\<lambda>(gradients, g).
     try_bind (map_err AdInvalidGraph (set_outputs g gradients)) (\<lambda>g.
     Inr \<lparr>vjp_result = g, vjp_primal_output = primal_output,
          vjp_cotangent_input = cotangent_input, vjp_gradients = gradients\<rparr>)))))))"

definition grad ::
  "graph \<Rightarrow> node_id \<Rightarrow> node_id list \<Rightarrow> (autodiff_error, grad_graph) outcome" where
  "grad source out wrt =
     try_bind (validate_for_autodiff source out wrt) (\<lambda>_.
     try_bind (copy_primal source) (\<lambda>(primal, g).
     try_bind (mapped primal out) (\<lambda>primal_output.
     try_bind (node_type source out) (\<lambda>ty.
     try_bind (ad_emit OnesLike [primal_output] ty g) (\<lambda>(seed, g).
     try_bind (reverse_accumulate source primal out seed wrt g) (\<lambda>(gradients, g).
     try_bind (map_err AdInvalidGraph (set_outputs g gradients)) (\<lambda>g.
     Inr \<lparr>grad_result = g, grad_primal_output = primal_output,
          grad_gradients = gradients\<rparr>)))))))"

definition value_and_grad ::
  "graph \<Rightarrow> node_id \<Rightarrow> node_id list \<Rightarrow> (autodiff_error, grad_graph) outcome" where
  "value_and_grad source out wrt =
     try_bind (grad source out wrt) (\<lambda>transformed.
     try_bind (map_err AdInvalidGraph
                 (set_outputs (grad_result transformed)
                    (grad_primal_output transformed # grad_gradients transformed))) (\<lambda>g.
     Inr (transformed\<lparr>grad_result := g\<rparr>)))"

section \<open>Forward mode\<close>

text \<open>\<open>Some(value) => Some(graph.add_node(..)?), None => None\<close>.\<close>

definition emit_optional ::
  "node_id option \<Rightarrow> (node_id \<Rightarrow> node_id option ad_builder) \<Rightarrow> node_id option ad_builder" where
  "emit_optional tangent f = (case tangent of Some v \<Rightarrow> f v | None \<Rightarrow> gb_return None)"

definition emit_some :: "operation \<Rightarrow> node_id list \<Rightarrow> tensor_type \<Rightarrow> node_id option ad_builder" where
  "emit_some oper ins ty = gb_bind (ad_emit oper ins ty) (\<lambda>i. gb_return (Some i))"

definition add_optional ::
  "node_id option \<Rightarrow> node_id option \<Rightarrow> tensor_type \<Rightarrow> node_id option ad_builder" where
  "add_optional lhs rhs ty =
     (case (lhs, rhs) of
        (Some l, Some r) \<Rightarrow> emit_some Add [l, r] ty
      | (Some v, None) \<Rightarrow> gb_return (Some v)
      | (None, Some v) \<Rightarrow> gb_return (Some v)
      | (None, None) \<Rightarrow> gb_return None)"

definition optional_product ::
  "node_id option \<Rightarrow> node_id \<Rightarrow> tensor_type \<Rightarrow> operation \<Rightarrow> node_id option ad_builder" where
  "optional_product tangent primal out oper =
     (case tangent of Some v \<Rightarrow> emit_some oper [v, primal] out | None \<Rightarrow> gb_return None)"

definition forward_matmul ::
  "node_id list \<Rightarrow> node_id option list \<Rightarrow> node \<Rightarrow> operation \<Rightarrow> node_id option ad_builder" where
  "forward_matmul primal tangents n product =
     gb_try (idx (node_inputs n) 0) (\<lambda>lhs. gb_try (idx tangents lhs) (\<lambda>lhs_tangent.
     gb_try (idx (node_inputs n) 1) (\<lambda>rhs. gb_try (idx tangents rhs) (\<lambda>rhs_tangent.
     gb_bind (emit_optional lhs_tangent (\<lambda>v. gb_try (mapped primal rhs) (\<lambda>pb.
                emit_some product [v, pb] (node_output n)))) (\<lambda>left.
     gb_bind (emit_optional rhs_tangent (\<lambda>v. gb_try (mapped primal lhs) (\<lambda>pa.
                emit_some product [pa, v] (node_output n)))) (\<lambda>right.
     add_optional left right (node_output n)))))))"

definition forward_rule ::
  "graph \<Rightarrow> node_id list \<Rightarrow> node_id option list \<Rightarrow> node_id \<Rightarrow> node \<Rightarrow> node_id option ad_builder"
where
  "forward_rule source primal tangents i n =
     (let input = (\<lambda>k f. gb_try (idx (node_inputs n) k) f);
          p = (\<lambda>k f. gb_try (mapped primal k) f);
          t = (\<lambda>k f. gb_try (idx tangents k) f);
          out = node_output n;
          unary = (\<lambda>oper. input 0 (\<lambda>a. t a (\<lambda>ta.
            emit_optional ta (\<lambda>v. emit_some oper [v] out)))) in
      case node_operation n of
        Input _ \<Rightarrow> gb_return None
      | Constant _ \<Rightarrow> gb_return None
      | Add \<Rightarrow>
          input 0 (\<lambda>a. t a (\<lambda>ta. input 1 (\<lambda>b. t b (\<lambda>tb. add_optional ta tb out))))
      | Sub \<Rightarrow>
          input 1 (\<lambda>b. t b (\<lambda>tb.
          gb_bind (emit_optional tb (\<lambda>v. emit_some (Scale minus_one) [v] out)) (\<lambda>right.
          input 0 (\<lambda>a. t a (\<lambda>ta. add_optional ta right out)))))
      | Mul \<Rightarrow>
          input 0 (\<lambda>a. t a (\<lambda>ta. input 1 (\<lambda>b. p b (\<lambda>pb.
          gb_bind (optional_product ta pb out Mul) (\<lambda>left.
          t b (\<lambda>tb. p a (\<lambda>pa.
          gb_bind (optional_product tb pa out Mul) (\<lambda>right.
          add_optional left right out))))))))
      | Div \<Rightarrow>
          input 0 (\<lambda>a. t a (\<lambda>ta.
          gb_bind (emit_optional ta (\<lambda>v. input 1 (\<lambda>b. p b (\<lambda>pb.
                     emit_some Div [v, pb] out)))) (\<lambda>left.
          input 1 (\<lambda>b. t b (\<lambda>tb.
          gb_bind (emit_optional tb (\<lambda>v. p a (\<lambda>pa.
                     gb_bind (ad_emit Mul [pa, v] out) (\<lambda>numerator.
                     p b (\<lambda>pb. gb_try (node_type source b) (\<lambda>tyb.
                     gb_bind (ad_emit Mul [pb, pb] tyb) (\<lambda>denominator.
                     gb_bind (ad_emit Div [numerator, denominator] out) (\<lambda>quotient.
                     emit_some (Scale minus_one) [quotient] out)))))))) (\<lambda>right.
          add_optional left right out))))))
      | Scale factor \<Rightarrow> unary (Scale factor)
      | Relu \<Rightarrow>
          input 0 (\<lambda>a. t a (\<lambda>ta. emit_optional ta (\<lambda>v. p a (\<lambda>pa.
          emit_some ReluGrad [pa, v] out))))
      | Exp \<Rightarrow>
          input 0 (\<lambda>a. t a (\<lambda>ta. emit_optional ta (\<lambda>v. p i (\<lambda>pi.
          emit_some Mul [pi, v] out))))
      | Log \<Rightarrow>
          input 0 (\<lambda>a. t a (\<lambda>ta. emit_optional ta (\<lambda>v. p a (\<lambda>pa.
          emit_some Div [v, pa] out))))
      | ReluGrad \<Rightarrow>
          input 1 (\<lambda>b. t b (\<lambda>tb. emit_optional tb (\<lambda>v. input 0 (\<lambda>a. p a (\<lambda>pa.
          emit_some ReluGrad [pa, v] out)))))
      | ZerosLike \<Rightarrow> gb_return None
      | OnesLike \<Rightarrow> gb_return None
      | StopGradient \<Rightarrow> gb_return None
      | Checkpoint \<Rightarrow> unary Checkpoint
      | Reshape sh \<Rightarrow> unary (Reshape sh)
      | Transpose permutation \<Rightarrow> unary (Transpose permutation)
      | BroadcastTo sh \<Rightarrow> unary (BroadcastTo sh)
      | ReduceSumTo sh \<Rightarrow> unary (ReduceSumTo sh)
      | MatMul \<Rightarrow>
          input 0 (\<lambda>a. input 1 (\<lambda>b. gb_try (require_rank2 source i a b) (\<lambda>_.
          forward_matmul primal tangents n MatMul)))
      | BatchMatMul \<Rightarrow>
          input 0 (\<lambda>a. input 1 (\<lambda>b. gb_try (require_batch_rank source i a b) (\<lambda>_.
          forward_matmul primal tangents n BatchMatMul))))"

text \<open>\<open>format!("__scirust_tangent_{}", node.get())\<close>: the decimal digits of the identifier.\<close>

fun decimal :: "nat \<Rightarrow> string" where
  "decimal n =
     (if n < 10 then [char_of (48 + n)] else decimal (n div 10) @ [char_of (48 + n mod 10)])"

declare decimal.simps [simp del]

definition tangent_input_step ::
  "graph \<Rightarrow> node_id option list \<times> node_id list \<Rightarrow> node_id
     \<Rightarrow> (node_id option list \<times> node_id list) ad_builder" where
  "tangent_input_step source st i = (case st of (tangents, tangent_inputs) \<Rightarrow>
     gb_try (node_type source i) (\<lambda>ty.
     gb_bind (ad_emit (Input (''__scirust_tangent_'' @ decimal i)) [] ty) (\<lambda>tangent.
     gb_try (idx tangents i) (\<lambda>_.
     gb_return (tangents[i := Some tangent], tangent_inputs @ [tangent])))))"

definition forward_step ::
  "graph \<Rightarrow> node_id list \<Rightarrow> node_id option list \<Rightarrow> usize \<times> node \<Rightarrow> node_id option list ad_builder"
where
  "forward_step source primal tangents p = (case p of (index, n) \<Rightarrow>
     gb_try (idx tangents index) (\<lambda>slot.
       if slot \<noteq> None then gb_return tangents
       else gb_bind (forward_rule source primal tangents (as_u32 index) n) (\<lambda>t.
            gb_return (tangents[index := t]))))"

definition jvp ::
  "graph \<Rightarrow> node_id \<Rightarrow> node_id list \<Rightarrow> (autodiff_error, jvp_graph) outcome" where
  "jvp source out wrt =
     try_bind (validate_for_autodiff source out wrt) (\<lambda>_.
     try_bind (copy_primal source) (\<lambda>(primal, g).
     try_bind (gb_fold (tangent_input_step source)
                 (replicate (length (graph_nodes source)) None, []) wrt g)
       (\<lambda>((tangents, tangent_inputs), g).
     try_bind (gb_fold (forward_step source primal) tangents
                 (enumerate 0 (graph_nodes source)) g) (\<lambda>(tangents, g).
     try_bind (mapped primal out) (\<lambda>primal_output.
     try_bind (idx tangents out) (\<lambda>slot.
     try_bind (case slot of
                 Some i \<Rightarrow> Inr (i, g)
               | None \<Rightarrow> try_bind (node_type source out) (\<lambda>ty. ad_emit ZerosLike [primal_output] ty g))
       (\<lambda>(tangent_output, g).
     try_bind (map_err AdInvalidGraph (set_outputs g [primal_output, tangent_output])) (\<lambda>g.
     Inr \<lparr>jvp_result = g, jvp_primal_output = primal_output,
          jvp_tangent_output = tangent_output, jvp_tangent_inputs = tangent_inputs\<rparr>))))))))"

end
