(* ===== verification/Autodiff_Typing.thy ===== *)
theory Autodiff_Typing
  imports Graph_Autodiff
begin

text \<open>
  Totality and typing of the differentiation transforms. The invariant of both passes is that
  every filled adjoint or tangent slot holds a node of the derivative graph with the type of
  the source node it belongs to.
\<close>

section \<open>The invariant and the rules of the passes\<close>

definition slots_ok :: "graph \<Rightarrow> node_id option list \<Rightarrow> graph \<Rightarrow> bool" where
  "slots_ok src slots g \<longleftrightarrow> length slots = length (graph_nodes src) \<and>
     (\<forall>i < length slots. \<forall>j. slots ! i = Some j \<longrightarrow>
        has_type g j (type_of (graph_nodes src) i) \<and>
        ty_dtype (type_of (graph_nodes src) i) = F32)"

text \<open>The slots, and the nodes in scope with their types.\<close>

definition env :: "graph \<Rightarrow> node_id option list \<Rightarrow> (node_id \<times> tensor_type) list \<Rightarrow> graph \<Rightarrow> bool" where
  "env src slots fs g \<longleftrightarrow> slots_ok src slots g \<and> (\<forall>(i, ty) \<in> set fs. has_type g i ty)"

lemma slots_ok_extends: "slots_ok src slots g \<Longrightarrow> extends g g' \<Longrightarrow> slots_ok src slots g'"
  unfolding slots_ok_def by (blast intro: has_type_extends)

lemma env_extends: "env src slots fs g \<Longrightarrow> extends g g' \<Longrightarrow> env src slots fs g'"
  unfolding env_def by (blast intro: has_type_extends slots_ok_extends)

lemma env_slots: "env src slots fs g \<Longrightarrow> slots_ok src slots g"
  by (simp add: env_def)

abbreviation ad_full :: "autodiff_error failure" where
  "ad_full \<equiv> Err (AdInvalidGraph TooManyNodes)"

lemma emit_step:
  assumes "env src slots fs g" and "op_typed oper tys out"
    and "list_all2 (\<lambda>i ty. (i, ty) \<in> set fs) ins tys"
    and "\<And>i g'. env src slots ((i, out) # fs) g' \<Longrightarrow> builds ad_full k g' (f i) Q"
  shows "builds ad_full (Suc k) g (gb_bind (ad_emit oper ins out) f) Q"
proof -
  have "builds ad_full (1 + k) g (gb_bind (ad_emit oper ins out) f) Q"
  proof (rule builds_bind)
    show "builds ad_full 1 g (ad_emit oper ins out) (\<lambda>i g'. has_type g' i out)"
      using assms(1,3) by (intro builds_emit [OF _ assms(2)])
        (auto simp: env_def elim!: list_all2_mono)
    show "builds ad_full k g' (f i) Q" if "extends g g'" "has_type g' i out" for i g'
      using assms(4) [of i g'] env_extends [OF assms(1) that(1)] that(2) by (simp add: env_def)
  qed
  then show ?thesis by simp
qed

lemma accumulate_builds:
  assumes "env src slots fs g" and "target < length (graph_nodes src)" and "(c, ty) \<in> set fs"
    and "ty = type_of (graph_nodes src) target" and "ty_dtype ty = F32"
  shows "builds ad_full 1 g (accumulate slots target c ty) (\<lambda>slots' g'. env src slots' fs g')"
proof -
  have len: "length slots = length (graph_nodes src)"
    using assms(1) by (simp add: env_def slots_ok_def)
  have update: "env src (slots[target := Some j]) fs g'"
    if "env src slots fs g'" "has_type g' j ty" for j g'
    using that assms(2,4,5) by (auto simp: env_def slots_ok_def nth_list_update)
  show ?thesis
  proof (cases "slots ! target")
    case None
    have "has_type g c ty" using assms(1,3) by (auto simp: env_def)
    with None show ?thesis
      using len assms(1,2) update by (simp add: accumulate_def builds_return)
  next
    case (Some j)
    then have "has_type g j ty" using assms(1,2,4) len by (auto simp: env_def slots_ok_def)
    then have "env src slots ((j, ty) # fs) g" using assms(1) by (simp add: env_def)
    then have "builds ad_full (Suc 0) g
        (gb_bind (ad_emit Add [j, c] ty) (\<lambda>i. gb_return (slots[target := Some i])))
        (\<lambda>slots' g'. env src slots' fs g')"
      by (rule emit_step [where tys = "[ty, ty]"])
        (use assms(3) update in \<open>auto intro!: builds_return simp: env_def\<close>)
    with Some len assms(2) show ?thesis by (simp add: accumulate_def)
  qed
qed

lemma accumulate_step:
  assumes "env src slots fs g" and "target < length (graph_nodes src)" and "(c, ty) \<in> set fs"
    and "ty = type_of (graph_nodes src) target" and "ty_dtype ty = F32"
    and "\<And>slots' g'. env src slots' fs g' \<Longrightarrow> builds ad_full k g' (f slots') Q"
  shows "builds ad_full (Suc k) g (gb_bind (accumulate slots target c ty) f) Q"
proof -
  have "builds ad_full (1 + k) g (gb_bind (accumulate slots target c ty) f) Q"
    by (rule builds_bind [OF accumulate_builds [OF assms(1-5)]]) (use assms(6) in blast)
  then show ?thesis by simp
qed

lemma accumulate_last:
  assumes "env src slots fs g" and "target < length (graph_nodes src)" and "(c, ty) \<in> set fs"
    and "ty = type_of (graph_nodes src) target" and "ty_dtype ty = F32"
  shows "builds ad_full (Suc 0) g (accumulate slots target c ty) (slots_ok src)"
  using accumulate_builds [OF assms]
  by (rule builds_weaken) (auto dest: env_slots)

lemma op_typed_dtype: "op_typed oper tys out \<Longrightarrow> ty \<in> set tys \<Longrightarrow> ty_dtype ty = ty_dtype out"
  by (cases oper) (auto simp: tensor_type_new_def)

lemma mapped_id [simp]: "k < n \<Longrightarrow> mapped [0..<n] k = Inr k"
  by (simp add: mapped_def get_def)

lemma node_type_in [simp]:
  "k < length (graph_nodes g) \<Longrightarrow> node_type g k = Inr (type_of (graph_nodes g) k)"
  by (simp add: node_type_def get_def type_of_def)

lemma has_type_source:
  "extends src g \<Longrightarrow> k < length (graph_nodes src) \<Longrightarrow>
     has_type g k (type_of (graph_nodes src) k)"
  using extends_length [of src g] by (auto simp: has_type_def type_of_def extends_nth)

section \<open>Permutations\<close>

lemma is_permutation_lt: "is_permutation p \<Longrightarrow> i < length p \<Longrightarrow> p ! i < length p"
  unfolding is_permutation_def using nth_mem by blast

lemma inverse_permutation_steps:
  assumes "is_permutation p" and "k \<le> length p"
  shows "\<exists>q. foldl (inverse_step p) (Some (replicate (length p) usize_max))
              (take k (enumerate 0 p)) = Some q \<and> length q = length p \<and>
           (\<forall>i < k. q ! (p ! i) = i) \<and>
           (\<forall>j < length p. j \<notin> set (take k p) \<longrightarrow> q ! j = usize_max)"
  using assms(2)
proof (induction k)
  case 0
  then show ?case by simp
next
  case (Suc k)
  then obtain q where q: "foldl (inverse_step p) (Some (replicate (length p) usize_max))
      (take k (enumerate 0 p)) = Some q" "length q = length p" "\<forall>i < k. q ! (p ! i) = i"
    "\<forall>j < length p. j \<notin> set (take k p) \<longrightarrow> q ! j = usize_max" by auto
  have dist: "distinct p" using assms(1) by (simp add: is_permutation_def)
  have pk: "p ! k < length p" using is_permutation_lt [OF assms(1)] Suc.prems by simp
  have other: "p ! i \<noteq> p ! k" if "i < k" for i
    using dist Suc.prems that by (simp add: nth_eq_iff_index_eq)
  then have "p ! k \<notin> set (take k p)" using Suc.prems by (auto simp: in_set_conv_nth)
  with q(4) pk have "q ! (p ! k) = usize_max" by simp
  with q pk have "foldl (inverse_step p) (Some (replicate (length p) usize_max))
      (take (Suc k) (enumerate 0 p)) = Some (q[p ! k := k])"
    using Suc.prems by (simp add: take_Suc_conv_app_nth inverse_step_def)
  moreover have "\<forall>i < Suc k. q[p ! k := k] ! (p ! i) = i"
  proof (intro allI impI)
    fix i assume "i < Suc k"
    then consider "i < k" | "i = k" by linarith
    then show "q[p ! k := k] ! (p ! i) = i"
      using q(2,3) other [of i, THEN not_sym] pk by cases simp_all
  qed
  moreover have "\<forall>j < length p. j \<notin> set (take (Suc k) p) \<longrightarrow> q[p ! k := k] ! j = usize_max"
    using q(4) Suc.prems by (auto simp: take_Suc_conv_app_nth)
  ultimately show ?case using q(2) by auto
qed

lemma inverse_permutation_correct:
  assumes "is_permutation p"
  obtains q where "inverse_permutation p = Some q" "is_permutation q" "length q = length p"
    "\<forall>i < length p. q ! (p ! i) = i" "\<forall>j < length p. p ! (q ! j) = j"
proof -
  obtain q where q: "inverse_permutation p = Some q" "length q = length p"
    "\<forall>i < length p. q ! (p ! i) = i"
    using inverse_permutation_steps [OF assms order_refl]
    by (auto simp: inverse_permutation_def)
  have onto: "\<exists>i < length p. p ! i = j" if "j < length p" for j
    using assms that by (metis in_set_conv_nth is_permutation_def lessThan_iff)
  have right: "\<forall>j < length p. p ! (q ! j) = j" using onto q(3) by metis
  have "distinct q"
    unfolding distinct_conv_nth using right q(2) by metis
  moreover have "set q \<subseteq> {..<length p}"
    using onto q(2,3) by (metis in_set_conv_nth lessThan_iff subsetI)
  ultimately have "is_permutation q"
    using q(2) by (simp add: is_permutation_def card_subset_eq distinct_card)
  with that q right show thesis by blast
qed

lemma inverse_permutation_typed:
  assumes "op_typed (Transpose p) [a] out"
  obtains q where "inverse_permutation p = Some q" "op_typed (Transpose q) [out] a"
proof -
  from assms have p: "is_permutation p" "length p = length (ty_shape a)"
    "ty_shape out = map ((!) (ty_shape a)) p" "ty_dtype a = ty_dtype out" by auto
  obtain q where q: "inverse_permutation p = Some q" "is_permutation q" "length q = length p"
    "\<forall>i < length p. q ! (p ! i) = i" "\<forall>j < length p. p ! (q ! j) = j"
    using inverse_permutation_correct [OF p(1)] .
  have lt: "q ! j < length p" if "j < length p" for j
    using is_permutation_lt [OF q(2)] q(3) that by simp
  have shape: "ty_shape a = map ((!) (ty_shape out)) q"
  proof (rule nth_equalityI)
    show "length (ty_shape a) = length (map ((!) (ty_shape out)) q)" using p(2) q(3) by simp
    fix j assume "j < length (ty_shape a)"
    then have j: "j < length p" using p(2) by simp
    then show "ty_shape a ! j = map ((!) (ty_shape out)) q ! j"
      unfolding p(3) using lt [OF j] q(3,5) by simp
  qed
  have "length q = length (ty_shape out)" unfolding p(3) using q(3) by simp
  with shape have "op_typed (Transpose q) [out] a"
    unfolding op_typed.simps using p(4) q(2) by metis
  with q(1) that show thesis by blast
qed

lemma swap_last_two: "swap_at (length bs) (Suc (length bs)) (bs @ [m, k]) = bs @ [k, m]"
  by (simp add: swap_at_def nth_append list_update_append)

lemma transpose_last_two_typed:
  "transpose_last_two (tensor_type_new dt (bs @ [m, k])) =
     ([0..<length bs] @ [Suc (length bs), length bs], tensor_type_new dt (bs @ [k, m]))"
  "op_typed (Transpose ([0..<length bs] @ [Suc (length bs), length bs]))
     [tensor_type_new dt (bs @ [m, k])] (tensor_type_new dt (bs @ [k, m]))"
proof -
  have "[0..<length bs + 2] = [0..<length bs] @ [length bs, Suc (length bs)]" by simp
  then show "transpose_last_two (tensor_type_new dt (bs @ [m, k])) =
     ([0..<length bs] @ [Suc (length bs), length bs], tensor_type_new dt (bs @ [k, m]))"
    using swap_last_two [of bs] swap_last_two [of "[0..<length bs]"]
    by (simp add: transpose_last_two_def Let_def tensor_type_new_def)
  have "map ((!) (bs @ [m, k])) [0..<length bs] = bs"
    by (rule nth_equalityI) (auto simp: nth_append)
  then show "op_typed (Transpose ([0..<length bs] @ [Suc (length bs), length bs]))
     [tensor_type_new dt (bs @ [m, k])] (tensor_type_new dt (bs @ [k, m]))"
    by (auto simp: tensor_type_new_def is_permutation_def nth_append)
qed

section \<open>Every rule of the reverse pass\<close>

text \<open>The budget of the slowest rule (\<open>Div\<close>): five nodes and two accumulations.\<close>

lemma builds_mono: "builds cap n g m Q \<Longrightarrow> n \<le> k \<Longrightarrow> builds cap k g m Q"
  by (rule builds_weaken)

lemma idx_two [simp]: "idx [a, b] 0 = Inr a" "idx [a, b] (Suc 0) = Inr b" "idx [a] 0 = Inr a"
  by (simp_all add: idx_def)

lemmas pass_steps = emit_step [where tys = "[t, t]" for t] emit_step [where tys = "[t]" for t]
  accumulate_step accumulate_last

lemma node_typed_at:
  assumes "nodes_ok ns" and "\<forall>n \<in> set ns. node_typed ns n" and "i < length ns"
  shows "op_typed (node_operation (ns ! i)) (map (type_of ns) (node_inputs (ns ! i))) (type_of ns i)"
    and "\<forall>k \<in> set (node_inputs (ns ! i)). k < length ns"
  using assms nodes_ok_inputs [OF assms(1,3)]
  by (auto simp: node_typed_def type_of_def dest: less_trans)

lemma minus_one_dtype [simp]: "sc_dtype minus_one = F32"
  by (simp add: minus_one_def scalar_f32_def)

lemma reverse_matmul_builds:
  assumes "env src slots [(c, out), (a, ta), (b, tb)] g"
    and "a < length (graph_nodes src)" and "b < length (graph_nodes src)"
    and "type_of (graph_nodes src) a = ta" and "type_of (graph_nodes src) b = tb"
    and "ty_dtype ta = F32" and "ty_dtype tb = F32" and "node_inputs n = [a, b]"
    and "transpose_last_two ta = (pa, ta')" and "op_typed (Transpose pa) [ta] ta'"
    and "transpose_last_two tb = (pb, tb')" and "op_typed (Transpose pb) [tb] tb'"
    and "op_typed product [out, tb'] ta" and "op_typed product [ta', out] tb"
  shows "builds ad_full 6 g
    (reverse_matmul [0..<length (graph_nodes src)] src slots n c product) (slots_ok src)"
  using assms
  apply (simp add: reverse_matmul_def del: op_typed.simps)
  apply (rule builds_mono)
   apply (rule emit_step [where tys = "[tb]"], assumption, simp del: op_typed.simps, simp)
   apply (rule emit_step [where tys = "[out, tb']"], assumption, simp del: op_typed.simps, simp)
   apply (rule emit_step [where tys = "[ta]"], assumption, simp del: op_typed.simps, simp)
   apply (rule emit_step [where tys = "[ta', out]"], assumption, simp del: op_typed.simps, simp)
   apply (rule accumulate_step, assumption, simp, simp, simp, simp)
   apply (rule accumulate_last, assumption, simp, simp, simp, simp)
  apply simp
  done

lemma contribution_builds:
  assumes "env src slots fs g" and "(c, out) \<in> set fs" and "op_typed oper [out] (type_of (graph_nodes src) a)"
    and "a < length (graph_nodes src)" and "ty_dtype (type_of (graph_nodes src) a) = F32"
  shows "builds ad_full 7 g (gb_bind (ad_emit oper [c] (type_of (graph_nodes src) a))
    (\<lambda>k. accumulate slots a k (type_of (graph_nodes src) a))) (slots_ok src)"
  using assms
  by (intro builds_mono [OF emit_step [where tys = "[out]", OF _ _ _ accumulate_last]])
    (auto simp del: op_typed.simps)

lemma reverse_rule_builds:
  assumes ok: "nodes_ok (graph_nodes src)" and typed: "typed_graph src"
    and i: "i < length (graph_nodes src)" and n: "n = graph_nodes src ! i"
    and g: "extends src g" and slots: "slots_ok src slots g"
    and c: "has_type g c (node_output n)" and f32: "ty_dtype (node_output n) = F32"
  shows "builds ad_full 7 g
    (reverse_rule src [0..<length (graph_nodes src)] slots i n c) (slots_ok src)"
proof -
  let ?ty = "type_of (graph_nodes src)" and ?out = "node_output n" and ?oper = "node_operation n"
  have self: "?ty i = ?out" by (simp add: n type_of_def)
  note at = node_typed_at [OF ok typed [unfolded typed_graph_def] i, folded n, unfolded self]
  note oper = at(1) and lt = at(2)
  have dt: "ty_dtype (?ty k) = F32" if "k \<in> set (node_inputs n)" for k
    using op_typed_dtype [OF oper, of "?ty k"] f32 that by simp
  have leaf: "env src slots [(c, ?out), (i, ?out)] g"
    using slots c has_type_source [OF g i] by (simp add: env_def self)
  have unary: "env src slots [(c, ?out), (i, ?out), (a, ?ty a)] g"
      "a < length (graph_nodes src)" "ty_dtype (?ty a) = F32"
    if "node_inputs n = [a]" for a
    using that leaf lt dt has_type_source [OF g, of a] by (auto simp: env_def)
  have binary: "env src slots [(c, ?out), (i, ?out), (a, ?ty a), (b, ?ty b)] g"
      "a < length (graph_nodes src)" "ty_dtype (?ty a) = F32"
      "b < length (graph_nodes src)" "ty_dtype (?ty b) = F32"
    if "node_inputs n = [a, b]" for a b
    using that leaf lt dt has_type_source [OF g, of a] has_type_source [OF g, of b]
    by (auto simp: env_def)
  note defs = reverse_rule_def Let_def and fin = i self f32 slots
  consider (leaf) "\<exists>name. ?oper = Input name" | (const) "\<exists>k. ?oper = Constant k"
    | (none) "?oper \<in> {ZerosLike, OnesLike, StopGradient}"
    | (two) "?oper \<in> {Add, Sub, Mul, Div, ReluGrad}"
    | (one) "?oper \<in> {Relu, Exp, Log, Checkpoint} \<or> (\<exists>factor. ?oper = Scale factor)"
    | (reshape) sh where "?oper = Reshape sh" | (transpose) p where "?oper = Transpose p"
    | (broadcast) sh where "?oper = BroadcastTo sh" | (reduce) sh where "?oper = ReduceSumTo sh"
    | (matmul) "?oper = MatMul" | (batch) "?oper = BatchMatMul"
    by (cases ?oper) auto
  then show ?thesis
  proof cases
    case leaf
    then show ?thesis using slots by (auto simp: defs builds_return)
  next
    case const
    then show ?thesis using slots by (auto simp: defs builds_return)
  next
    case none
    then show ?thesis using slots by (auto simp: defs builds_return)
  next
    case two
    with oper obtain a b where ab: "node_inputs n = [a, b]" "?ty a = ?out" "?ty b = ?out"
      by (auto simp: map_eq_Cons_conv)
    show ?thesis
      by (insert two binary [OF ab(1)] ab fin, elim insertE emptyE; simp add: defs;
          (rule builds_mono, ((rule pass_steps, assumption, (simp; fail)+)+)?; simp))
  next
    case one
    with oper obtain a where a: "node_inputs n = [a]" "?ty a = ?out"
      by (auto simp: map_eq_Cons_conv)
    have f: "sc_dtype factor = F32" if "?oper = Scale factor" for factor
      using oper that f32 by simp
    show ?thesis
      by (insert one f unary [OF a(1)] a fin, elim insertE emptyE disjE exE; simp add: defs;
          (rule builds_mono, ((rule pass_steps, assumption, (simp; fail)+)+)?; simp))
  next
    case (reshape sh)
    with oper obtain a where a: "node_inputs n = [a]" by (auto simp: map_eq_Cons_conv)
    with reshape oper have "op_typed (Reshape (ty_shape (?ty a))) [?out] (?ty a)" by auto
    with contribution_builds [OF unary(1) _ this unary(2,3), OF a _ a a] reshape a unary(2) [OF a]
    show ?thesis by (simp add: defs del: op_typed.simps)
  next
    case (transpose p)
    with oper obtain a where a: "node_inputs n = [a]" by (auto simp: map_eq_Cons_conv)
    with transpose oper have "op_typed (Transpose p) [?ty a] ?out" by simp
    then obtain q where q: "inverse_permutation p = Some q" "op_typed (Transpose q) [?out] (?ty a)"
      by (rule inverse_permutation_typed)
    with contribution_builds [OF unary(1) _ q(2) unary(2,3), OF a _ a a] q(1) transpose a unary(2) [OF a]
    show ?thesis by (simp add: defs del: op_typed.simps)
  next
    case (broadcast sh)
    with oper obtain a where a: "node_inputs n = [a]" by (auto simp: map_eq_Cons_conv)
    with broadcast oper have "op_typed (ReduceSumTo (ty_shape (?ty a))) [?out] (?ty a)" by auto
    with contribution_builds [OF unary(1) _ this unary(2,3), OF a _ a a] broadcast a unary(2) [OF a]
    show ?thesis by (simp add: defs del: op_typed.simps)
  next
    case (reduce sh)
    with oper obtain a where a: "node_inputs n = [a]" by (auto simp: map_eq_Cons_conv)
    with reduce oper have "op_typed (BroadcastTo (ty_shape (?ty a))) [?out] (?ty a)" by auto
    with contribution_builds [OF unary(1) _ this unary(2,3), OF a _ a a] reduce a unary(2) [OF a]
    show ?thesis by (simp add: defs del: op_typed.simps)
  next
    case matmul
    with oper obtain a b dt m k l where ab: "node_inputs n = [a, b]"
      "?ty a = tensor_type_new dt ([] @ [m, k])" "?ty b = tensor_type_new dt ([] @ [k, l])"
      "?out = tensor_type_new dt [m, l]"
      by (auto simp: map_eq_Cons_conv)
    have "builds ad_full 6 g (reverse_matmul [0..<length (graph_nodes src)] src slots n c MatMul)
        (slots_ok src)"
    proof (rule reverse_matmul_builds [where out = ?out, OF _ _ _ ab(2) ab(3) _ _ ab(1)
          transpose_last_two_typed transpose_last_two_typed])
      show "env src slots [(c, ?out), (a, tensor_type_new dt ([] @ [m, k])),
          (b, tensor_type_new dt ([] @ [k, l]))] g"
        using binary(1) [OF ab(1)] unfolding ab(2,3) by (simp add: env_def)
      show "op_typed MatMul [?out, tensor_type_new dt ([] @ [l, k])] (tensor_type_new dt ([] @ [m, k]))"
        "op_typed MatMul [tensor_type_new dt ([] @ [k, m]), ?out] (tensor_type_new dt ([] @ [k, l]))"
        using ab(4) by (auto simp: tensor_type_new_def)
    qed (use binary(2-5) [OF ab(1)] ab(2,3) in auto)
    moreover have "require_rank2 src i a b = Inr ()"
      using binary [OF ab(1)] ab by (simp add: require_rank2_def tensor_type_new_def)
    ultimately have "builds ad_full 6 g
        (reverse_rule src [0..<length (graph_nodes src)] slots i n c) (slots_ok src)"
      using matmul ab(1) by (simp add: defs)
    then show ?thesis by (rule builds_mono) simp
  next
    case batch
    with oper obtain a b dt bs m k l where ab: "node_inputs n = [a, b]" "bs \<noteq> []"
      "?ty a = tensor_type_new dt (bs @ [m, k])" "?ty b = tensor_type_new dt (bs @ [k, l])"
      "?out = tensor_type_new dt (bs @ [m, l])"
      by (auto simp: map_eq_Cons_conv)
    have "builds ad_full 6 g (reverse_matmul [0..<length (graph_nodes src)] src slots n c BatchMatMul)
        (slots_ok src)"
    proof (rule reverse_matmul_builds [where out = ?out, OF _ _ _ ab(3) ab(4) _ _ ab(1)
          transpose_last_two_typed transpose_last_two_typed])
      show "env src slots [(c, ?out), (a, tensor_type_new dt (bs @ [m, k])),
          (b, tensor_type_new dt (bs @ [k, l]))] g"
        using binary(1) [OF ab(1)] unfolding ab(3,4) by (simp add: env_def)
      show "op_typed BatchMatMul [?out, tensor_type_new dt (bs @ [l, k])] (tensor_type_new dt (bs @ [m, k]))"
        "op_typed BatchMatMul [tensor_type_new dt (bs @ [k, m]), ?out] (tensor_type_new dt (bs @ [k, l]))"
        using ab(5) ab(2) by (auto simp: tensor_type_new_def)
    qed (use binary(2-5) [OF ab(1)] ab(3,4) in auto)
    moreover have "require_batch_rank src i a b = Inr ()"
      using binary [OF ab(1)] ab by (cases bs) (auto simp: require_batch_rank_def tensor_type_new_def)
    ultimately have "builds ad_full 6 g
        (reverse_rule src [0..<length (graph_nodes src)] slots i n c) (slots_ok src)"
      using batch ab(1) by (simp add: defs)
    then show ?thesis by (rule builds_mono) simp
  qed
qed

section \<open>Every rule of the forward pass\<close>

definition tangent_ok :: "tensor_type \<Rightarrow> node_id option \<Rightarrow> graph \<Rightarrow> bool" where
  "tangent_ok ty t g \<longleftrightarrow> (\<forall>j. t = Some j \<longrightarrow> has_type g j ty \<and> ty_dtype ty = F32)"

lemma emit_optional_simps [simp]:
  "emit_optional None f = gb_return None" "emit_optional (Some v) f = f v"
  by (simp_all add: emit_optional_def)

lemma add_optional_simps [simp]:
  "add_optional None None ty = gb_return None"
  "add_optional (Some v) None ty = gb_return (Some v)"
  "add_optional None (Some v) ty = gb_return (Some v)"
  "add_optional (Some v) (Some w) ty = emit_some Add [v, w] ty"
  by (simp_all add: add_optional_def)

lemma optional_product_simps [simp]:
  "optional_product None p ty oper = gb_return None"
  "optional_product (Some v) p ty oper = emit_some oper [v, p] ty"
  by (simp_all add: optional_product_def)

lemma return_none: "builds cap 0 g (gb_return None) (tangent_ok ty)"
  by (simp add: builds_return tangent_ok_def)

lemma return_some:
  "env src slots fs g \<Longrightarrow> (j, ty) \<in> set fs \<Longrightarrow> ty_dtype ty = F32 \<Longrightarrow>
     builds cap 0 g (gb_return (Some j)) (tangent_ok ty)"
  by (auto intro!: builds_return simp: tangent_ok_def env_def)

lemma emit_some_builds:
  assumes "env src slots fs g" and "op_typed oper tys out"
    and "list_all2 (\<lambda>i ty. (i, ty) \<in> set fs) ins tys" and "ty_dtype out = F32"
  shows "builds ad_full 6 g (emit_some oper ins out) (tangent_ok out)"
  unfolding emit_some_def
  by (rule builds_mono [OF emit_step [OF assms(1-3)]]) (auto intro: return_some simp: assms(4))

lemmas forward_steps = emit_step [where tys = "[t, t]" for t] emit_step [where tys = "[t]" for t]
  return_none return_some

lemma forward_matmul_builds:
  assumes e: "env src slots [(a, ta), (b, tb)] g"
    and "a < length (graph_nodes src)" and "b < length (graph_nodes src)"
    and ty: "type_of (graph_nodes src) a = ta" "type_of (graph_nodes src) b = tb"
    and inputs: "node_inputs n = [a, b]" and op: "op_typed product [ta, tb] (node_output n)"
  shows "builds ad_full 6 g
    (forward_matmul [0..<length (graph_nodes src)] slots n product) (tangent_ok (node_output n))"
proof -
  let ?out = "node_output n"
  have len: "length slots = length (graph_nodes src)"
    using e by (simp add: env_def slots_ok_def)
  have slot: "has_type g v ta \<and> ty_dtype ta = F32" if "slots ! a = Some v" for v
    using e assms(2) that unfolding env_def slots_ok_def ty(1) [symmetric] by simp
  have slot': "has_type g v tb \<and> ty_dtype tb = F32" if "slots ! b = Some v" for v
    using e assms(3) that unfolding env_def slots_ok_def ty(2) [symmetric] by simp
  have dt: "ty_dtype ?out = ty_dtype ta" "ty_dtype ?out = ty_dtype tb"
    using op_typed_dtype [OF op, of ta] op_typed_dtype [OF op, of tb] by simp_all
  note run = len assms(2,3) inputs forward_matmul_def emit_some_def
  show ?thesis
  proof (cases "slots ! a"; cases "slots ! b")
    assume "slots ! a = None" "slots ! b = None"
    then show ?thesis by (simp add: run builds_return tangent_ok_def)
  next
    fix w assume w: "slots ! a = None" "slots ! b = Some w"
    then have "env src slots [(a, ta), (b, tb), (w, tb)] g" using e slot' by (simp add: env_def)
    then have "builds ad_full (Suc 0) g (gb_bind (ad_emit product [a, w] ?out)
        (\<lambda>i. gb_return (Some i))) (tangent_ok ?out)"
      by (rule emit_step [OF _ op]) (use dt slot' w in \<open>auto intro: return_some\<close>)
    with w show ?thesis by (intro builds_mono [where n = "Suc 0" and k = 6]) (simp_all add: run)
  next
    fix v assume v: "slots ! a = Some v" "slots ! b = None"
    then have "env src slots [(a, ta), (b, tb), (v, ta)] g" using e slot by (simp add: env_def)
    then have "builds ad_full (Suc 0) g (gb_bind (ad_emit product [v, b] ?out)
        (\<lambda>i. gb_return (Some i))) (tangent_ok ?out)"
      by (rule emit_step [OF _ op]) (use dt slot v in \<open>auto intro: return_some\<close>)
    with v show ?thesis by (intro builds_mono [where n = "Suc 0" and k = 6]) (simp_all add: run)
  next
    fix v w assume vw: "slots ! a = Some v" "slots ! b = Some w"
    then have "env src slots [(a, ta), (b, tb), (v, ta), (w, tb)] g"
      using e slot slot' by (simp add: env_def)
    then have "builds ad_full (Suc (Suc (Suc 0))) g (gb_bind (ad_emit product [v, b] ?out) (\<lambda>i.
        gb_bind (ad_emit product [a, w] ?out) (\<lambda>j. gb_bind (ad_emit Add [i, j] ?out)
          (\<lambda>i. gb_return (Some i))))) (tangent_ok ?out)"
      apply (rule emit_step [OF _ op], simp)
      apply (rule emit_step [OF _ op], assumption, simp)
      apply (rule emit_step [where tys = "[?out, ?out]"], assumption, simp, simp)
      apply (rule return_some, assumption, simp)
      using dt slot vw by simp
    with vw show ?thesis
      by (intro builds_mono [where n = "Suc (Suc (Suc 0))" and k = 6]) (simp_all add: run)
  qed
qed

lemma forward_rule_builds:
  assumes ok: "nodes_ok (graph_nodes src)" and typed: "typed_graph src"
    and i: "i < length (graph_nodes src)" and n: "n = graph_nodes src ! i"
    and g: "extends src g" and slots: "slots_ok src slots g"
  shows "builds ad_full 6 g
    (forward_rule src [0..<length (graph_nodes src)] slots i n) (tangent_ok (node_output n))"
proof -
  let ?ty = "type_of (graph_nodes src)" and ?out = "node_output n" and ?oper = "node_operation n"
  have self: "?ty i = ?out" by (simp add: n type_of_def)
  note at = node_typed_at [OF ok typed [unfolded typed_graph_def] i, folded n, unfolded self]
  note oper = at(1) and lt = at(2)
  have len: "length slots = length (graph_nodes src)" using slots by (simp add: slots_ok_def)
  have slot: "has_type g v (?ty k) \<and> ty_dtype (?ty k) = F32 \<and> ty_dtype ?out = F32"
    if "slots ! k = Some v" "k \<in> set (node_inputs n)" for k v
    using slots that lt op_typed_dtype [OF oper, of "?ty k"] by (simp add: slots_ok_def)
  have self_env: "has_type g i ?out" using has_type_source [OF g i] by (simp add: self)
  have src_type: "has_type g k (?ty k)" if "k \<in> set (node_inputs n)" for k
    using has_type_source [OF g] lt that by simp
  note defs = forward_rule_def Let_def emit_some_def and fin = i len
  consider (leaf) "\<exists>name. ?oper = Input name" | (const) "\<exists>k. ?oper = Constant k"
    | (none) "?oper \<in> {ZerosLike, OnesLike, StopGradient}"
    | (two) "?oper \<in> {Add, Sub, Mul, Div, ReluGrad}"
    | (one) "?oper \<in> {Relu, Exp, Log}"
    | (linear) "?oper = Checkpoint \<or> (\<exists>factor. ?oper = Scale factor) \<or> (\<exists>sh. ?oper = Reshape sh)
        \<or> (\<exists>p. ?oper = Transpose p) \<or> (\<exists>sh. ?oper = BroadcastTo sh) \<or> (\<exists>sh. ?oper = ReduceSumTo sh)"
    | (matmul) "?oper = MatMul" | (batch) "?oper = BatchMatMul"
    by (cases ?oper) auto
  then show ?thesis
  proof cases
    case leaf
    then show ?thesis by (auto simp: defs builds_return tangent_ok_def)
  next
    case const
    then show ?thesis by (auto simp: defs builds_return tangent_ok_def)
  next
    case none
    then show ?thesis by (auto simp: defs builds_return tangent_ok_def)
  next
    case two
    with oper obtain a b where ab: "node_inputs n = [a, b]" "?ty a = ?out" "?ty b = ?out"
      by (auto simp: map_eq_Cons_conv)
    have e: "env src slots ([(i, ?out), (a, ?out), (b, ?out)] @ fs) g"
      if "\<forall>(k, t) \<in> set fs. has_type g k t" for fs
      using slots self_env src_type [of a] src_type [of b] ab that by (auto simp: env_def)
    have ltab: "a < length (graph_nodes src)" "b < length (graph_nodes src)" using lt ab by auto
    show ?thesis
    proof (cases "slots ! a"; cases "slots ! b")
      assume "slots ! a = None" "slots ! b = None"
      with two ab ltab len show ?thesis
        by (auto simp: defs builds_return tangent_ok_def)
    next
      fix v assume s: "slots ! a = Some v" "slots ! b = None"
      with e [of "[(v, ?out)]"] slot [of a v] ab
      have env: "env src slots ([(i, ?out), (a, ?out), (b, ?out)] @ [(v, ?out)]) g" "ty_dtype ?out = F32"
        by simp_all
      show ?thesis
        by (insert s env two ab ltab fin, elim insertE emptyE; simp add: defs; (rule builds_return, simp add: tangent_ok_def; fail |
            rule builds_mono, ((rule forward_steps, assumption, (simp; fail)+)+)?; simp))
    next
      fix w assume s: "slots ! a = None" "slots ! b = Some w"
      with e [of "[(w, ?out)]"] slot [of b w] ab
      have env: "env src slots ([(i, ?out), (a, ?out), (b, ?out)] @ [(w, ?out)]) g" "ty_dtype ?out = F32"
        by simp_all
      show ?thesis
        by (insert s env two ab ltab fin, elim insertE emptyE; simp add: defs; (rule builds_return, simp add: tangent_ok_def; fail |
            rule builds_mono, ((rule forward_steps, assumption, (simp; fail)+)+)?; simp))
    next
      fix v w assume s: "slots ! a = Some v" "slots ! b = Some w"
      with e [of "[(v, ?out), (w, ?out)]"] slot [of a v] slot [of b w] ab
      have env: "env src slots ([(i, ?out), (a, ?out), (b, ?out)] @ [(v, ?out), (w, ?out)]) g" "ty_dtype ?out = F32"
        by simp_all
      show ?thesis
        by (insert s env two ab ltab fin, elim insertE emptyE; simp add: defs; (rule builds_return, simp add: tangent_ok_def; fail |
            rule builds_mono, ((rule forward_steps, assumption, (simp; fail)+)+)?; simp))
    qed
  next
    case one
    with oper obtain a where a: "node_inputs n = [a]" "?ty a = ?out"
      by (auto simp: map_eq_Cons_conv)
    have lta: "a < length (graph_nodes src)" using lt a by simp
    show ?thesis
    proof (cases "slots ! a")
      case None
      with one a lta len show ?thesis by (auto simp: defs builds_return tangent_ok_def)
    next
      case (Some v)
      then have env: "env src slots [(i, ?out), (a, ?out), (v, ?out)] g" "ty_dtype ?out = F32"
        using slots self_env src_type [of a] slot [of a v] a by (simp_all add: env_def)
      show ?thesis
        by (insert Some env one a lta fin, elim insertE emptyE; simp add: defs;
            rule builds_mono, ((rule forward_steps, assumption, (simp; fail)+)+)?; simp)
    qed
  next
    case linear
    with oper obtain a where a: "node_inputs n = [a]"
      by (auto simp: map_eq_Cons_conv)
    have lta: "a < length (graph_nodes src)" using lt a by simp
    show ?thesis
    proof (cases "slots ! a")
      case None
      with linear a lta len show ?thesis by (auto simp: defs builds_return tangent_ok_def)
    next
      case (Some v)
      then have "builds ad_full 6 g (emit_some ?oper [v] ?out) (tangent_ok ?out)"
        using oper a slots slot [of a v]
        by (intro emit_some_builds [where tys = "[?ty a]" and fs = "[(v, ?ty a)]"])
          (auto simp: env_def)
      with Some linear a lta len show ?thesis by (auto simp: forward_rule_def Let_def)
    qed
  next
    case matmul
    with oper obtain a b dt m k l where ab: "node_inputs n = [a, b]"
      "?ty a = tensor_type_new dt [m, k]" "?ty b = tensor_type_new dt [k, l]"
      by (auto simp: map_eq_Cons_conv)
    have "require_rank2 src i a b = Inr ()"
      using lt ab by (simp add: require_rank2_def tensor_type_new_def)
    moreover have "builds ad_full 6 g (forward_matmul [0..<length (graph_nodes src)] slots n MatMul)
        (tangent_ok ?out)"
      using slots lt src_type [of a] src_type [of b] ab oper matmul
      by (intro forward_matmul_builds [OF _ _ _ refl refl ab(1)]) (simp_all add: env_def)
    ultimately show ?thesis using matmul ab(1) by (simp add: defs)
  next
    case batch
    with oper obtain a b dt bs m k l where ab: "node_inputs n = [a, b]" "bs \<noteq> []"
      "?ty a = tensor_type_new dt (bs @ [m, k])" "?ty b = tensor_type_new dt (bs @ [k, l])"
      by (auto simp: map_eq_Cons_conv)
    have "require_batch_rank src i a b = Inr ()"
      using lt ab by (cases bs) (auto simp: require_batch_rank_def tensor_type_new_def)
    moreover have "builds ad_full 6 g (forward_matmul [0..<length (graph_nodes src)] slots n BatchMatMul)
        (tangent_ok ?out)"
      using slots lt src_type [of a] src_type [of b] ab oper batch
      by (intro forward_matmul_builds [OF _ _ _ refl refl ab(1)]) (simp_all add: env_def)
    ultimately show ?thesis using batch ab(1) by (simp add: defs)
  qed
qed

section \<open>The passes\<close>

lemma copy_primal_eq:
  assumes "nodes_ok (graph_nodes src)" and "length (graph_nodes src) \<le> u32_range"
  shows "copy_primal src =
    Inr ([0..<length (graph_nodes src)], graph_new\<lparr>graph_nodes := graph_nodes src\<rparr>)"
proof -
  let ?ns = "graph_nodes src"
  have "gb_fold copy_step [0..<k] (drop k ?ns) (graph_new\<lparr>graph_nodes := take k ?ns\<rparr>) =
      Inr ([0..<length ?ns], graph_new\<lparr>graph_nodes := ?ns\<rparr>)" if "k \<le> length ?ns" for k
    using that
  proof (induction "length ?ns - k" arbitrary: k)
    case 0
    then show ?case by (simp add: gb_return_def)
  next
    case (Suc d)
    then have k: "k < length ?ns" by simp
    let ?n = "?ns ! k"
    have lt: "\<forall>j \<in> set (node_inputs ?n). j < k" using nodes_ok_inputs [OF assms(1) k] by simp
    then have "traverse (mapped [0..<k]) (node_inputs ?n) = Inr (map id (node_inputs ?n))"
      by (intro traverse_map) simp
    moreover have "add_node (graph_new\<lparr>graph_nodes := take k ?ns\<rparr>) (node_operation ?n)
        (node_inputs ?n) (node_output ?n) =
        Inr (graph_new\<lparr>graph_nodes := take (Suc k) ?ns\<rparr>, k)"
      using k lt nodes_ok_arity [OF assms(1) k] assms(2)
      by (simp add: add_node_Inr take_Suc_conv_app_nth)
    ultimately have "copy_step [0..<k] ?n (graph_new\<lparr>graph_nodes := take k ?ns\<rparr>) =
        Inr ([0..<Suc k], graph_new\<lparr>graph_nodes := take (Suc k) ?ns\<rparr>)"
      by (simp add: copy_step_def gb_bind_def gb_return_def emit_def)
    moreover have "drop k ?ns = ?n # drop (Suc k) ?ns" using k by (simp add: Cons_nth_drop_Suc)
    ultimately show ?case
      using Suc.hyps(1) [of "Suc k"] Suc.hyps(2) k by (simp add: gb_bind_def)
  qed
  from this [of 0] show ?thesis by (simp add: copy_primal_def graph_new_def)
qed

lemma reverse_step_builds:
  assumes "nodes_ok (graph_nodes src)" and "typed_graph src"
    and "length (graph_nodes src) \<le> u32_range" and "k < length (graph_nodes src)"
    and "extends src g" and "slots_ok src slots g"
  shows "builds ad_full 7 g (reverse_step src [0..<length (graph_nodes src)] slots k) (slots_ok src)"
proof (cases "slots ! k")
  case None
  then show ?thesis using assms(4,6) by (simp add: reverse_step_def slots_ok_def builds_return)
next
  case (Some c)
  then have "has_type g c (type_of (graph_nodes src) k)" "ty_dtype (type_of (graph_nodes src) k) = F32"
    using assms(4,6) by (simp_all add: slots_ok_def)
  then show ?thesis
    using reverse_rule_builds [OF assms(1,2,4) refl assms(5,6), of c] assms(3,4,6) Some
    by (simp add: reverse_step_def slots_ok_def type_of_def)
qed

definition gradients_ok :: "graph \<Rightarrow> node_id list \<Rightarrow> node_id list \<Rightarrow> graph \<Rightarrow> bool" where
  "gradients_ok src wrt gs g \<longleftrightarrow>
     list_all2 (\<lambda>k j. has_type g j (type_of (graph_nodes src) k)) wrt gs"

lemma gradients_ok_extends:
  "gradients_ok src wrt gs g \<Longrightarrow> extends g g' \<Longrightarrow> gradients_ok src wrt gs g'"
  unfolding gradients_ok_def by (erule list_all2_mono) (blast intro: has_type_extends)

lemma gradient_step_builds:
  assumes "extends src g" and "slots_ok src slots g" and "k < length (graph_nodes src)"
    and "gradients_ok src ks gs g"
  shows "builds ad_full 1 g (gradient_step src [0..<length (graph_nodes src)] slots gs k)
    (\<lambda>gs' g'. gradients_ok src (ks @ [k]) gs' g')"
proof (cases "slots ! k")
  case (Some j)
  then have "has_type g j (type_of (graph_nodes src) k)" using assms(2,3) by (simp add: slots_ok_def)
  then show ?thesis
    using Some assms by (simp add: gradient_step_def slots_ok_def gradients_ok_def
        builds_return list_all2_appendI)
next
  case None
  have "builds ad_full (1 + 0) g
      (gb_bind (ad_emit ZerosLike [k] (type_of (graph_nodes src) k)) (\<lambda>j. gb_return (gs @ [j])))
      (\<lambda>gs' g'. gradients_ok src (ks @ [k]) gs' g')"
  proof (rule builds_bind)
    show "builds ad_full 1 g (ad_emit ZerosLike [k] (type_of (graph_nodes src) k))
        (\<lambda>j g'. has_type g' j (type_of (graph_nodes src) k))"
      by (rule builds_emit [where tys = "[type_of (graph_nodes src) k]"])
        (use has_type_source [OF assms(1,3)] in auto)
    show "builds ad_full 0 g' (gb_return (gs @ [j])) (gradients_ok src (ks @ [k]))"
      if "extends g g'" "has_type g' j (type_of (graph_nodes src) k)" for j g'
      using that gradients_ok_extends [OF assms(4) that(1)]
      by (auto intro!: builds_return list_all2_appendI simp: gradients_ok_def)
  qed
  with None show ?thesis using assms(2,3) by (simp add: gradient_step_def slots_ok_def)
qed

lemma reverse_accumulate_builds:
  assumes ok: "nodes_ok (graph_nodes src)" and typed: "typed_graph src"
    and size: "length (graph_nodes src) \<le> u32_range" and g: "extends src g"
    and out: "out < length (graph_nodes src)" "ty_dtype (type_of (graph_nodes src) out) = F32"
    and seed: "has_type g seed (type_of (graph_nodes src) out)"
    and wrt: "\<forall>k \<in> set wrt. k < length (graph_nodes src)"
  shows "builds ad_full (7 * length (graph_nodes src) + length wrt) g
    (reverse_accumulate src [0..<length (graph_nodes src)] out seed wrt) (gradients_ok src wrt)"
proof -
  let ?n = "length (graph_nodes src)"
  have start: "slots_ok src ((replicate ?n None)[out := Some seed]) g"
    using out seed by (auto simp: slots_ok_def nth_list_update)
  have rev: "builds ad_full (7 * length (rev [0..<?n])) g
      (gb_fold (reverse_step src [0..<?n]) ((replicate ?n None)[out := Some seed]) (rev [0..<?n]))
      ((\<lambda>k s g'. slots_ok src s g') (length (rev [0..<?n])))"
  proof (rule builds_fold [where P = "\<lambda>k s g'. slots_ok src s g'"])
    fix k s g' assume k: "k < length (rev [0..<?n])" "extends g g'" "slots_ok src s g'"
    have "extends src g'" using g k(2) by (rule extends_trans)
    then show "builds ad_full 7 g' (reverse_step src [0..<?n] s (rev [0..<?n] ! k)) (slots_ok src)"
      using reverse_step_builds [OF ok typed size _ _ k(3)] k(1) by (simp add: rev_nth)
  qed (rule start)
  have grads: "builds ad_full (1 * length wrt) g'
      (gb_fold (gradient_step src [0..<?n] slots) [] wrt) (gradients_ok src wrt)"
    if "extends g g'" "slots_ok src slots g'" for slots g'
  proof -
    have "builds ad_full (1 * length wrt) g' (gb_fold (gradient_step src [0..<?n] slots) [] wrt)
        ((\<lambda>k gs g'. gradients_ok src (take k wrt) gs g') (length wrt))"
    proof (rule builds_fold)
      fix k gs g'' assume k: "k < length wrt" "extends g' g''" "gradients_ok src (take k wrt) gs g''"
      have "extends src g''" using g that(1) k(2) by (blast intro: extends_trans)
      moreover have "slots_ok src slots g''" using that(2) k(2) by (rule slots_ok_extends)
      ultimately show "builds ad_full 1 g'' (gradient_step src [0..<?n] slots gs (wrt ! k))
          (\<lambda>gs' g'. gradients_ok src (take (Suc k) wrt) gs' g')"
        using gradient_step_builds [of src g'' slots "wrt ! k" "take k wrt" gs] k wrt
        by (simp add: take_Suc_conv_app_nth)
    qed (simp add: gradients_ok_def)
    then show ?thesis by simp
  qed
  have "builds ad_full (7 * ?n + 1 * length wrt) g
      (gb_bind (gb_fold (reverse_step src [0..<?n]) ((replicate ?n None)[out := Some seed])
                  (rev [0..<?n]))
        (\<lambda>slots. gb_fold (gradient_step src [0..<?n] slots) [] wrt)) (gradients_ok src wrt)"
    by (rule builds_bind [OF rev [simplified]]) (use grads in auto)
  with out(1) show ?thesis by (simp add: reverse_accumulate_def Let_def)
qed

end
