(* ===== verification/Autodiff_Correct.thy ===== *)
theory Autodiff_Correct
  imports Autodiff_Typing
begin

text \<open>
  The public differentiation transforms of \<open>autodiff.rs\<close>: on a valid, well-typed source whose
  output and parameters are \<open>F32\<close> they return a valid, well-typed graph that starts with the
  source computation; the only failure is running out of node identifiers.
\<close>

lemma builds_run:
  assumes "builds cap n g m Q" and "good g"
  obtains x g' where "m g = Inr (x, g')" "good g'" "extends g g'"
      "length (graph_nodes g') \<le> length (graph_nodes g) + n" "Q x g'"
    | "m g = Inl cap" "u32_range < length (graph_nodes g) + n"
  using assms by (cases "m g") (auto simp: builds_def)

definition copied :: "graph \<Rightarrow> graph" where
  "copied src = graph_new\<lparr>graph_nodes := graph_nodes src\<rparr>"

lemma copied_good:
  assumes "validate src = Inr ()" and "validate_semantics src = Inr ()"
    and "length (graph_nodes src) \<le> u32_range"
  shows "nodes_ok (graph_nodes src)" "typed_graph src" "good (copied src)" "extends src (copied src)"
    "extends (copied src) g \<longleftrightarrow> extends src g" "length (graph_nodes (copied src)) = length (graph_nodes src)"
    "copy_primal src = Inr ([0..<length (graph_nodes src)], copied src)"
proof -
  have wf: "wf_graph src" using assms(1) by (simp add: validate_iff_wf)
  then show ok: "nodes_ok (graph_nodes src)" by (simp add: wf_graph_def)
  show typed: "typed_graph src" using assms(2) validate_semantics_iff_typed [OF wf] by simp
  from ok typed show "good (copied src)" "extends src (copied src)"
    "extends (copied src) g \<longleftrightarrow> extends src g" "length (graph_nodes (copied src)) = length (graph_nodes src)"
    using assms(3) by (simp_all add: good_def copied_def typed_graph_def extends_def)
  show "copy_primal src = Inr ([0..<length (graph_nodes src)], copied src)"
    using copy_primal_eq [OF ok assms(3)] by (simp add: copied_def)
qed

lemma validate_for_autodiff_Inr:
  "validate_for_autodiff src out wrt = Inr u \<longleftrightarrow>
     validate src = Inr () \<and> validate_semantics src = Inr () \<and>
     (\<forall>k \<in> insert out (set wrt). k < length (graph_nodes src) \<and>
        ty_dtype (type_of (graph_nodes src) k) = F32)"
  by (auto simp: validate_for_autodiff_def ensure_supported_dtype_def node_type_def type_of_def
      outcome_simps)

lemma has_type_cong: "graph_nodes g' = graph_nodes g \<Longrightarrow> has_type g' = has_type g"
  by (simp add: has_type_def fun_eq_iff)

text \<open>The operation of a node that was appended.\<close>

definition operates :: "graph \<Rightarrow> node_id \<Rightarrow> operation \<Rightarrow> bool" where
  "operates g i oper \<longleftrightarrow> i < length (graph_nodes g) \<and> node_operation (graph_nodes g ! i) = oper"

lemma operates_extends: "operates g i oper \<Longrightarrow> extends g g' \<Longrightarrow> operates g' i oper"
  using extends_length [of g g'] by (auto simp: operates_def extends_nth)

definition input_node :: "graph \<Rightarrow> node_id \<Rightarrow> bool" where
  "input_node g i \<longleftrightarrow> (\<exists>name. operates g i (Input name))"

lemma input_node_extends: "input_node g i \<Longrightarrow> extends g g' \<Longrightarrow> input_node g' i"
  unfolding input_node_def by (blast dest: operates_extends)

lemma operates_cong: "graph_nodes g' = graph_nodes g \<Longrightarrow> operates g' = operates g"
  by (simp add: operates_def fun_eq_iff)

text \<open>What both reverse transforms compute after copying the source and choosing a seed.\<close>

definition seeded_reverse ::
  "graph \<Rightarrow> operation \<Rightarrow> node_id list \<Rightarrow> node_id \<Rightarrow> node_id list \<Rightarrow> (node_id \<times> node_id list) ad_builder"
where
  "seeded_reverse src oper ins out wrt =
     gb_bind (ad_emit oper ins (type_of (graph_nodes src) out)) (\<lambda>seed.
     gb_bind (reverse_accumulate src [0..<length (graph_nodes src)] out seed wrt) (\<lambda>gs.
     gb_return (seed, gs)))"

lemma seeded_reverse_builds:
  assumes v: "validate_for_autodiff src out wrt = Inr ()" and size: "length (graph_nodes src) \<le> u32_range"
    and oper: "op_typed oper (map (type_of (graph_nodes src)) ins) (type_of (graph_nodes src) out)"
    and ins: "\<forall>k \<in> set ins. k < length (graph_nodes src)"
  shows "builds ad_full (1 + (7 * length (graph_nodes src) + length wrt)) (copied src)
    (seeded_reverse src oper ins out wrt)
    (\<lambda>(seed, gs) g. operates g seed oper \<and> has_type g seed (type_of (graph_nodes src) out) \<and> gradients_ok src wrt gs g)"
proof -
  have src: "validate src = Inr ()" "validate_semantics src = Inr ()"
    "out < length (graph_nodes src)" "ty_dtype (type_of (graph_nodes src) out) = F32"
    "\<forall>k \<in> set wrt. k < length (graph_nodes src)"
    using v by (auto simp: validate_for_autodiff_Inr)
  note start = copied_good [OF src(1,2) size]
  show ?thesis
    unfolding seeded_reverse_def
  proof (rule builds_bind)
    show "builds ad_full 1 (copied src) (ad_emit oper ins (type_of (graph_nodes src) out))
        (\<lambda>seed g. operates g seed oper \<and> has_type g seed (type_of (graph_nodes src) out))"
      by (rule builds_emit_node [OF _ oper])
        (use ins has_type_source [OF start(4)] in \<open>auto simp: list_all2_conv_all_nth operates_def has_type_def\<close>)
    fix seed g assume g: "extends (copied src) g" "operates g seed oper \<and> has_type g seed (type_of (graph_nodes src) out)"
    have "builds ad_full (7 * length (graph_nodes src) + length wrt + 0) g
        (gb_bind (reverse_accumulate src [0..<length (graph_nodes src)] out seed wrt)
           (\<lambda>gs. gb_return (seed, gs)))
        (\<lambda>(seed, gs) g. operates g seed oper \<and> has_type g seed (type_of (graph_nodes src) out) \<and> gradients_ok src wrt gs g)"
      by (rule builds_bind [OF reverse_accumulate_builds [OF start(1,2) size _ src(3,4) conjunct2 [OF g(2)] src(5)]])
        (use g start(5) in \<open>auto intro!: builds_return intro: has_type_extends operates_extends\<close>)
    then show "builds ad_full (7 * length (graph_nodes src) + length wrt) g
        (gb_bind (reverse_accumulate src [0..<length (graph_nodes src)] out seed wrt)
           (\<lambda>gs. gb_return (seed, gs)))
        (\<lambda>(seed, gs) g. operates g seed oper \<and> has_type g seed (type_of (graph_nodes src) out) \<and> gradients_ok src wrt gs g)"
      by simp
  qed
qed

text \<open>What a caller may rely on of the derivative graph.\<close>

definition derivative_ok :: "graph \<Rightarrow> graph \<Rightarrow> node_id list \<Rightarrow> tensor_type list \<Rightarrow> bool" where
  "derivative_ok src g outs tys \<longleftrightarrow>
     validate g = Inr () \<and> validate_semantics g = Inr () \<and>
     take (length (graph_nodes src)) (graph_nodes g) = graph_nodes src \<and>
     graph_outputs g = outs \<and> map (type_of (graph_nodes g)) outs = tys"

lemma derivative_okI:
  assumes "good g" and "extends src g" and "list_all2 (has_type g) outs tys"
  shows "\<exists>g'. set_outputs g outs = Inr g' \<and> derivative_ok src g' outs tys \<and> graph_nodes g' = graph_nodes g"
proof -
  have outs: "\<forall>k \<in> set outs. k < length (graph_nodes g)"
    and tys: "map (type_of (graph_nodes g)) outs = tys"
    using assms(3) by (auto simp: list_all2_conv_all_nth has_type_def in_set_conv_nth
        intro: nth_equalityI)
  let ?g = "g\<lparr>graph_outputs := outs\<rparr>"
  have wf: "wf_graph ?g" using assms(1) outs by (simp add: wf_graph_def good_def)
  have "typed_graph ?g" using assms(1) by (simp add: good_def typed_graph_def)
  then have "validate_semantics ?g = Inr ()" using validate_semantics_iff_typed [OF wf] by simp
  moreover have "validate ?g = Inr ()" using wf by (simp add: validate_iff_wf)
  ultimately have "derivative_ok src ?g outs tys"
    using assms(2) tys by (auto simp: derivative_ok_def extends_def)
  with outs show ?thesis by simp
qed

lemma gradients_typed:
  "gradients_ok src wrt gs g \<longleftrightarrow> list_all2 (has_type g) gs (map (type_of (graph_nodes src)) wrt)"
  by (auto simp: gradients_ok_def list_all2_conv_all_nth)

section \<open>Reverse mode\<close>

lemma vjp_run:
  assumes "validate_for_autodiff src out wrt = Inr ()" and "length (graph_nodes src) \<le> u32_range"
  shows "vjp src out wrt =
    try_bind (seeded_reverse src (Input ''__scirust_cotangent'') [] out wrt (copied src)) (\<lambda>((seed, gs), g).
    try_bind (map_err AdInvalidGraph (set_outputs g gs)) (\<lambda>g.
    Inr \<lparr>vjp_result = g, vjp_primal_output = out, vjp_cotangent_input = seed, vjp_gradients = gs\<rparr>))"
proof -
  have v: "validate src = Inr ()" "validate_semantics src = Inr ()" "out < length (graph_nodes src)"
    using assms(1) by (auto simp: validate_for_autodiff_Inr)
  show ?thesis
    using copied_good(7) [OF v(1,2) assms(2)] v(3) assms(1)
    by (simp add: vjp_def seeded_reverse_def gb_bind_def gb_return_def try_bind_def
        split: sum.split prod.split)
qed

lemma grad_run:
  assumes "validate_for_autodiff src out wrt = Inr ()" and "length (graph_nodes src) \<le> u32_range"
  shows "grad src out wrt =
    try_bind (seeded_reverse src OnesLike [out] out wrt (copied src)) (\<lambda>((seed, gs), g).
    try_bind (map_err AdInvalidGraph (set_outputs g gs)) (\<lambda>g.
    Inr \<lparr>grad_result = g, grad_primal_output = out, grad_gradients = gs\<rparr>))"
proof -
  have v: "validate src = Inr ()" "validate_semantics src = Inr ()" "out < length (graph_nodes src)"
    using assms(1) by (auto simp: validate_for_autodiff_Inr)
  show ?thesis
    using copied_good(7) [OF v(1,2) assms(2)] v(3) assms(1)
    by (simp add: grad_def seeded_reverse_def gb_bind_def gb_return_def try_bind_def
        split: sum.split prod.split)
qed

lemma vjp_decided:
  assumes "validate src = Inr ()" and "validate_semantics src = Inr ()"
    and "length (graph_nodes src) \<le> u32_range"
    and "\<forall>k \<in> insert out (set wrt). k < length (graph_nodes src) \<and>
           ty_dtype (type_of (graph_nodes src) k) = F32"
  shows "case vjp src out wrt of
       Inr r \<Rightarrow> derivative_ok src (vjp_result r) (vjp_gradients r)
                 (map (type_of (graph_nodes src)) wrt) \<and>
               vjp_primal_output r = out \<and>
               has_type (vjp_result r) (vjp_cotangent_input r) (type_of (graph_nodes src) out) \<and>
               input_node (vjp_result r) (vjp_cotangent_input r) \<and> length (graph_nodes (vjp_result r)) \<le> u32_range
     | Inl f \<Rightarrow> f = Err (AdInvalidGraph TooManyNodes) \<and>
               u32_range < 8 * length (graph_nodes src) + 1 + length wrt"
proof -
  have v: "validate_for_autodiff src out wrt = Inr ()"
    using assms by (simp add: validate_for_autodiff_Inr)
  note start = copied_good [OF assms(1-3)]
  have "builds ad_full (1 + (7 * length (graph_nodes src) + length wrt)) (copied src)
    (seeded_reverse src (Input ''__scirust_cotangent'') [] out wrt)
    (\<lambda>(seed, gs) g. operates g seed (Input ''__scirust_cotangent'') \<and> has_type g seed (type_of (graph_nodes src) out) \<and> gradients_ok src wrt gs g)"
    by (rule seeded_reverse_builds [OF v assms(3)]) auto
  then show ?thesis
  proof (cases rule: builds_run [OF _ start(3), consumes 1])
    case (1 x g)
    then obtain seed gs where x: "x = (seed, gs)" "operates g seed (Input ''__scirust_cotangent'')" "has_type g seed (type_of (graph_nodes src) out)"
      "gradients_ok src wrt gs g" by (cases x) auto
    from derivative_okI [OF 1(2), of src gs "map (type_of (graph_nodes src)) wrt"] 1(3) start(5) x(4)
    obtain g' where g': "set_outputs g gs = Inr g'" "graph_nodes g' = graph_nodes g"
      "derivative_ok src g' gs (map (type_of (graph_nodes src)) wrt)"
      by (auto simp: gradients_typed simp del: set_outputs_Inr)
    moreover have "length (graph_nodes g) \<le> u32_range" using 1(2) by (simp add: good_def)
    ultimately show ?thesis using 1(1) x
      by (auto simp: vjp_run [OF v assms(3)] input_node_def has_type_cong [of g' g] operates_cong [of g' g] simp del: set_outputs_Inr)
  next
    case 2
    then show ?thesis using start(6) by (simp add: vjp_run [OF v assms(3)])
  qed
qed


lemma example_graph_ok:
  "validate example_graph = Inr ()" "validate_semantics example_graph = Inr ()"
  "length (graph_nodes example_graph) \<le> u32_range"
  "\<forall>k \<in> insert 1 (set [0]). k < length (graph_nodes example_graph) \<and>
     ty_dtype (type_of (graph_nodes example_graph) k) = F32"
  using example_graph_valid
  by (auto simp: example_graph_def type_of_def mk_node_def matrix_type_def tensor_type_new_def)


lemma grad_decided:
  assumes "validate src = Inr ()" and "validate_semantics src = Inr ()"
    and "length (graph_nodes src) \<le> u32_range"
    and "\<forall>k \<in> insert out (set wrt). k < length (graph_nodes src) \<and>
           ty_dtype (type_of (graph_nodes src) k) = F32"
  shows "(case grad src out wrt of
       Inr r \<Rightarrow> derivative_ok src (grad_result r) (grad_gradients r)
                 (map (type_of (graph_nodes src)) wrt) \<and> grad_primal_output r = out \<and>
               length (graph_nodes (grad_result r)) \<le> u32_range
     | Inl f \<Rightarrow> f = Err (AdInvalidGraph TooManyNodes) \<and>
               u32_range < 8 * length (graph_nodes src) + 1 + length wrt) \<and>
    (case value_and_grad src out wrt of
       Inr r \<Rightarrow> derivative_ok src (grad_result r) (out # grad_gradients r)
                 (map (type_of (graph_nodes src)) (out # wrt)) \<and> grad_primal_output r = out
     | Inl f \<Rightarrow> f = Err (AdInvalidGraph TooManyNodes) \<and>
               u32_range < 8 * length (graph_nodes src) + 1 + length wrt)"
proof -
  let ?tys = "map (type_of (graph_nodes src)) wrt"
  have v: "validate_for_autodiff src out wrt = Inr ()"
    using assms by (simp add: validate_for_autodiff_Inr)
  note start = copied_good [OF assms(1-3)]
  have "builds ad_full (1 + (7 * length (graph_nodes src) + length wrt)) (copied src)
    (seeded_reverse src OnesLike [out] out wrt)
    (\<lambda>(seed, gs) g. operates g seed OnesLike \<and> has_type g seed (type_of (graph_nodes src) out) \<and> gradients_ok src wrt gs g)"
    by (rule seeded_reverse_builds [OF v assms(3)]) (use assms(4) in auto)
  then show ?thesis
  proof (cases rule: builds_run [OF _ start(3), consumes 1])
    case (1 x g)
    then obtain seed gs where x: "x = (seed, gs)" "gradients_ok src wrt gs g" by (cases x) auto
    have src: "extends src g" using 1(3) start(5) by simp
    have gs: "list_all2 (has_type g) gs ?tys" using x(2) by (simp add: gradients_typed)
    obtain g' where g': "set_outputs g gs = Inr g'" "graph_nodes g' = graph_nodes g"
      "derivative_ok src g' gs ?tys"
      using derivative_okI [OF 1(2) src gs] by auto
    have grad: "grad src out wrt =
        Inr \<lparr>grad_result = g', grad_primal_output = out, grad_gradients = gs\<rparr>"
      using 1(1) x(1) g'(1) by (simp add: grad_run [OF v assms(3)] del: set_outputs_Inr)
    have good: "good g'" using 1(2) g'(2) by (simp add: good_def typed_graph_def)
    have src': "extends src g'" using src g'(2) by (simp add: extends_def)
    have "list_all2 (has_type g') (out # gs) (type_of (graph_nodes src) out # ?tys)"
      using gs has_type_source [OF src, of out] assms(4) has_type_cong [OF g'(2)] by simp
    from derivative_okI [OF good src' this] obtain g'' where "set_outputs g' (out # gs) = Inr g''"
      "derivative_ok src g'' (out # gs) (type_of (graph_nodes src) out # ?tys)"
      by metis
    with grad g'(3) good show ?thesis by (simp add: value_and_grad_def good_def del: set_outputs_Inr)
  next
    case 2
    then have "grad src out wrt = Inl ad_full" by (simp add: grad_run [OF v assms(3)])
    with 2 show ?thesis using start(6) by (simp add: value_and_grad_def)
  qed
qed

text \<open>
  \<open>grad\<close> and \<open>value_and_grad\<close> are total and well-typed in the same way, with the seed
  generated inside the graph; \<open>value_and_grad\<close> has the primal output in front of the gradients.
\<close>

theorem grad_correct:
  assumes "validate src = Inr ()" and "validate_semantics src = Inr ()"
    and "length (graph_nodes src) \<le> u32_range"
    and "\<forall>k \<in> insert out (set wrt). k < length (graph_nodes src) \<and>
           ty_dtype (type_of (graph_nodes src) k) = F32"
  shows "(case grad src out wrt of
       Inr r \<Rightarrow> derivative_ok src (grad_result r) (grad_gradients r)
                 (map (type_of (graph_nodes src)) wrt) \<and> grad_primal_output r = out
     | Inl f \<Rightarrow> f = Err (AdInvalidGraph TooManyNodes) \<and>
               u32_range < 8 * length (graph_nodes src) + 1 + length wrt) \<and>
    (case value_and_grad src out wrt of
       Inr r \<Rightarrow> derivative_ok src (grad_result r) (out # grad_gradients r)
                 (map (type_of (graph_nodes src)) (out # wrt)) \<and> grad_primal_output r = out
     | Inl f \<Rightarrow> f = Err (AdInvalidGraph TooManyNodes) \<and>
               u32_range < 8 * length (graph_nodes src) + 1 + length wrt)"
  using grad_decided [OF assms] by (simp split: sum.splits)

theorem grad_correct_witness:
  "\<exists>r. value_and_grad example_graph 1 [0] = Inr r \<and>
     derivative_ok example_graph (grad_result r) (1 # grad_gradients r) [matrix_type, matrix_type]"
proof -
  have "type_of (graph_nodes example_graph) 0 = matrix_type" "length (graph_nodes example_graph) = 2"
    "type_of (graph_nodes example_graph) 1 = matrix_type"
    by (simp_all add: example_graph_def mk_node_def type_of_def)
  with grad_correct [OF example_graph_ok, THEN conjunct2] show ?thesis
    by (cases "value_and_grad example_graph 1 [0]") simp_all
qed

section \<open>Forward mode\<close>

text \<open>
  The graph after the tangent inputs are added, and the tangent input of a node: the last one made for it.
\<close>

definition tangent_node :: "graph \<Rightarrow> node_id \<Rightarrow> node" where
  "tangent_node src k = \<lparr>node_operation = Input (''__scirust_tangent_'' @ decimal k), node_inputs = [],
     node_output = type_of (graph_nodes src) k\<rparr>"

definition with_tangents :: "graph \<Rightarrow> node_id list \<Rightarrow> graph" where
  "with_tangents src wrt = graph_new\<lparr>graph_nodes := graph_nodes src @ map (tangent_node src) wrt\<rparr>"

definition tangent_ids :: "graph \<Rightarrow> node_id list \<Rightarrow> node_id list" where
  "tangent_ids src wrt = [length (graph_nodes src)..<length (graph_nodes src) + length wrt]"

definition tangent_of :: "graph \<Rightarrow> node_id list \<Rightarrow> node_id \<Rightarrow> node_id option" where
  "tangent_of src wrt = map_of (rev (zip wrt (tangent_ids src wrt)))"

lemma tangent_of_snoc:
  "tangent_of src (wrt @ [k]) = (tangent_of src wrt)(k \<mapsto> length (graph_nodes src) + length wrt)"
  by (simp add: tangent_of_def tangent_ids_def)

lemma with_tangents_inputs:
  assumes "extends (with_tangents src wrt) g"
  shows "gradients_ok src wrt (tangent_ids src wrt) g" "\<forall>t \<in> set (tangent_ids src wrt). input_node g t"
proof -
  have at: "length (graph_nodes src) + j < length (graph_nodes g) \<and>
      graph_nodes g ! (length (graph_nodes src) + j) = tangent_node src (wrt ! j)" if "j < length wrt" for j
    using assms that by (auto simp: with_tangents_def extends_def nth_append)
  then show "gradients_ok src wrt (tangent_ids src wrt) g"
    by (simp add: gradients_ok_def list_all2_conv_all_nth has_type_def type_of_def tangent_ids_def tangent_node_def)
  show "\<forall>t \<in> set (tangent_ids src wrt). input_node g t"
  proof
    fix t assume "t \<in> set (tangent_ids src wrt)"
    then have "t - length (graph_nodes src) < length wrt" "length (graph_nodes src) \<le> t"
      by (auto simp: tangent_ids_def)
    with at [of "t - length (graph_nodes src)"] show "input_node g t"
      by (simp add: input_node_def operates_def tangent_node_def)
  qed
qed

lemma tangent_input_step_builds:
  assumes "k < length (graph_nodes src)" and "ty_dtype (type_of (graph_nodes src) k) = F32"
    and slots: "slots_ok src slots g" "\<forall>i < length (graph_nodes src). slots ! i = tangent_of src ks i"
    and g: "graph_nodes g = graph_nodes (with_tangents src ks)"
  shows "builds ad_full 1 g (tangent_input_step src (slots, tangent_ids src ks) k)
    (\<lambda>(slots', ts') g'. slots_ok src slots' g' \<and> ts' = tangent_ids src (ks @ [k]) \<and>
       (\<forall>i < length (graph_nodes src). slots' ! i = tangent_of src (ks @ [k]) i) \<and>
       graph_nodes g' = graph_nodes (with_tangents src (ks @ [k])))"
    (is "builds _ _ _ _ ?Q")
proof -
  let ?ty = "type_of (graph_nodes src) k"
  have len: "length slots = length (graph_nodes src)" using slots by (simp add: slots_ok_def)
  have new: "length (graph_nodes g) = length (graph_nodes src) + length ks"
    by (simp add: g with_tangents_def)
  have "builds ad_full (1 + 0) g (gb_bind (ad_emit (Input (''__scirust_tangent_'' @ decimal k)) [] ?ty)
      (\<lambda>j. gb_return (slots[k := Some j], tangent_ids src ks @ [j]))) ?Q"
  proof (rule builds_bind)
    show "builds ad_full 1 g (ad_emit (Input (''__scirust_tangent_'' @ decimal k)) [] ?ty)
        (\<lambda>j g'. j = length (graph_nodes g) \<and> has_type g' j ?ty \<and> graph_nodes g' = graph_nodes g @ [tangent_node src k])"
      by (rule builds_emit_node [where tys = "[]"]) (auto simp: tangent_node_def)
    fix j g' assume g': "extends g g'" "j = length (graph_nodes g) \<and> has_type g' j ?ty \<and>
        graph_nodes g' = graph_nodes g @ [tangent_node src k]"
    have "slots_ok src (slots[k := Some j]) g'"
      using slots_ok_extends [OF slots(1) g'(1)] g'(2) assms(1,2)
      by (auto simp: slots_ok_def nth_list_update)
    moreover have "\<forall>i < length (graph_nodes src). slots[k := Some j] ! i = tangent_of src (ks @ [k]) i"
      using slots(2) len g'(2) new by (simp add: tangent_of_snoc nth_list_update)
    moreover have "tangent_ids src ks @ [j] = tangent_ids src (ks @ [k])"
      using g'(2) new by (simp add: tangent_ids_def)
    moreover have "graph_nodes g' = graph_nodes (with_tangents src (ks @ [k]))"
      using g'(2) g by (simp add: with_tangents_def)
    ultimately show "builds ad_full 0 g' (gb_return (slots[k := Some j], tangent_ids src ks @ [j])) ?Q"
      by (simp add: builds_return)
  qed
  then show ?thesis using assms(1) len by (simp add: tangent_input_step_def)
qed

lemma forward_step_builds:
  assumes "nodes_ok (graph_nodes src)" and "typed_graph src" and "length (graph_nodes src) \<le> u32_range"
    and "k < length (graph_nodes src)" and "extends src g" and "slots_ok src slots g"
  shows "builds ad_full 6 g
    (forward_step src [0..<length (graph_nodes src)] slots (k, graph_nodes src ! k))
    (\<lambda>slots' g'. slots_ok src slots' g' \<and> (\<forall>i j. slots ! i = Some j \<longrightarrow> slots' ! i = Some j))"
    (is "builds _ _ _ _ ?Q")
proof (cases "slots ! k")
  case (Some j)
  then show ?thesis using assms(4,6) by (simp add: forward_step_def slots_ok_def builds_return)
next
  case None
  have "builds ad_full (6 + 0) g
      (gb_bind (forward_rule src [0..<length (graph_nodes src)] slots k (graph_nodes src ! k))
         (\<lambda>t. gb_return (slots[k := t]))) ?Q"
  proof (rule builds_bind [OF forward_rule_builds [OF assms(1,2,4) refl assms(5,6)]])
    fix t g' assume "extends g g'" "tangent_ok (node_output (graph_nodes src ! k)) t g'"
    then show "builds ad_full 0 g' (gb_return (slots[k := t])) ?Q"
      using slots_ok_extends [OF assms(6)] assms(4) None
      by (intro builds_return) (auto simp: slots_ok_def tangent_ok_def nth_list_update type_of_def)
  qed
  with None assms(3,4,6) show ?thesis by (simp add: forward_step_def slots_ok_def)
qed

lemma tangent_inputs_builds:
  assumes wrt: "\<forall>k \<in> set wrt. k < length (graph_nodes src) \<and>
      ty_dtype (type_of (graph_nodes src) k) = F32"
  shows "builds ad_full (1 * length wrt) (copied src)
    (gb_fold (tangent_input_step src) (replicate (length (graph_nodes src)) None, []) wrt)
    (\<lambda>(slots, ts) g. slots_ok src slots g \<and> ts = tangent_ids src wrt \<and>
       (\<forall>i < length (graph_nodes src). slots ! i = tangent_of src wrt i) \<and>
       graph_nodes g = graph_nodes (with_tangents src wrt))"
proof -
  let ?P = "\<lambda>k st g. slots_ok src (fst st) g \<and> snd st = tangent_ids src (take k wrt) \<and>
      (\<forall>i < length (graph_nodes src). fst st ! i = tangent_of src (take k wrt) i) \<and>
      graph_nodes g = graph_nodes (with_tangents src (take k wrt))"
  have "builds ad_full (1 * length wrt) (copied src)
    (gb_fold (tangent_input_step src) (replicate (length (graph_nodes src)) None, []) wrt) (?P (length wrt))"
  proof (rule builds_fold)
    fix k st g' assume k: "k < length wrt" "?P k st g'"
    have "builds ad_full 1 g' (tangent_input_step src (fst st, tangent_ids src (take k wrt)) (wrt ! k))
      (\<lambda>(slots', ts') g'. slots_ok src slots' g' \<and> ts' = tangent_ids src (take k wrt @ [wrt ! k]) \<and>
         (\<forall>i < length (graph_nodes src). slots' ! i = tangent_of src (take k wrt @ [wrt ! k]) i) \<and>
         graph_nodes g' = graph_nodes (with_tangents src (take k wrt @ [wrt ! k])))"
      using wrt k by (intro tangent_input_step_builds) simp_all
    moreover have "(fst st, tangent_ids src (take k wrt)) = st" using k(2) by (metis prod.collapse)
    ultimately show "builds ad_full 1 g' (tangent_input_step src st (wrt ! k)) (?P (Suc k))"
      using k(1) by (auto simp: take_Suc_conv_app_nth elim!: builds_weaken)
  qed (simp add: slots_ok_def tangent_ids_def tangent_of_def with_tangents_def copied_def)
  then show ?thesis by (rule builds_weaken) auto
qed

lemma forward_pass_builds:
  assumes ok: "nodes_ok (graph_nodes src)" and typed: "typed_graph src"
    and size: "length (graph_nodes src) \<le> u32_range" and g: "extends src g"
    and slots: "slots_ok src slots g"
  shows "builds ad_full (6 * length (graph_nodes src)) g
    (gb_fold (forward_step src [0..<length (graph_nodes src)]) slots (enumerate 0 (graph_nodes src)))
    (\<lambda>slots' g'. slots_ok src slots' g' \<and> (\<forall>i j. slots ! i = Some j \<longrightarrow> slots' ! i = Some j))"
proof -
  let ?P = "\<lambda>slots' g'. slots_ok src slots' g' \<and> (\<forall>i j. slots ! i = Some j \<longrightarrow> slots' ! i = Some j)"
  have "builds ad_full (6 * length (enumerate 0 (graph_nodes src))) g
    (gb_fold (forward_step src [0..<length (graph_nodes src)]) slots (enumerate 0 (graph_nodes src)))
    ((\<lambda>k s g. ?P s g) (length (enumerate 0 (graph_nodes src))))"
  proof (rule builds_fold)
    fix k s g' assume k: "k < length (enumerate 0 (graph_nodes src))" "extends g g'" "?P s g'"
    have src: "extends src g'" using g k(2) by (rule extends_trans)
    have "builds ad_full 6 g' (forward_step src [0..<length (graph_nodes src)] s (k, graph_nodes src ! k))
        (\<lambda>slots' g'. slots_ok src slots' g' \<and> (\<forall>i j. s ! i = Some j \<longrightarrow> slots' ! i = Some j))"
      using forward_step_builds [OF ok typed size _ src conjunct1 [OF k(3)]] k(1) by simp
    then have "builds ad_full 6 g' (forward_step src [0..<length (graph_nodes src)] s (k, graph_nodes src ! k)) ?P"
      by (rule builds_weaken) (use k(3) in auto)
    then show "builds ad_full 6 g' (forward_step src [0..<length (graph_nodes src)] s
        (enumerate 0 (graph_nodes src) ! k)) ?P"
      using k(1) by simp
  qed (use slots in simp)
  then show ?thesis by simp
qed

definition jvp_body ::
  "graph \<Rightarrow> node_id \<Rightarrow> node_id list \<Rightarrow> (node_id list \<times> node_id) ad_builder" where
  "jvp_body src out wrt =
     gb_bind (gb_fold (tangent_input_step src) (replicate (length (graph_nodes src)) None, []) wrt)
       (\<lambda>(slots, ts).
     gb_bind (gb_fold (forward_step src [0..<length (graph_nodes src)]) slots
                (enumerate 0 (graph_nodes src))) (\<lambda>slots.
     gb_try (idx slots out) (\<lambda>slot.
     gb_bind (case slot of Some i \<Rightarrow> gb_return i
              | None \<Rightarrow> ad_emit ZerosLike [out] (type_of (graph_nodes src) out)) (\<lambda>t.
     gb_return (ts, t)))))"

lemma jvp_run:
  assumes "validate_for_autodiff src out wrt = Inr ()" and "length (graph_nodes src) \<le> u32_range"
  shows "jvp src out wrt =
    try_bind (jvp_body src out wrt (copied src)) (\<lambda>((ts, t), g).
    try_bind (map_err AdInvalidGraph (set_outputs g [out, t])) (\<lambda>g.
    Inr \<lparr>jvp_result = g, jvp_primal_output = out, jvp_tangent_output = t, jvp_tangent_inputs = ts\<rparr>))"
proof -
  have v: "validate src = Inr ()" "validate_semantics src = Inr ()" "out < length (graph_nodes src)"
    using assms(1) by (auto simp: validate_for_autodiff_Inr)
  note start = copied_good(7) [OF v(1,2) assms(2)]
  show ?thesis
  proof (cases "gb_fold (tangent_input_step src) (replicate (length (graph_nodes src)) None, []) wrt
      (copied src)")
    case (Inl f)
    with start assms(1) show ?thesis by (simp add: jvp_def jvp_body_def gb_bind_def)
  next
    case (Inr r)
    then obtain slots ts g where tangents: "gb_fold (tangent_input_step src)
        (replicate (length (graph_nodes src)) None, []) wrt (copied src) = Inr ((slots, ts), g)"
      by (cases r) auto
    show ?thesis
    proof (cases "gb_fold (forward_step src [0..<length (graph_nodes src)]) slots
        (enumerate 0 (graph_nodes src)) g")
      case (Inl f)
      with start assms(1) tangents show ?thesis by (simp add: jvp_def jvp_body_def gb_bind_def)
    next
      case (Inr r)
      then obtain slots' g' where "gb_fold (forward_step src [0..<length (graph_nodes src)]) slots
          (enumerate 0 (graph_nodes src)) g = Inr (slots', g')" by (cases r) auto
      with start assms(1) tangents v(3) show ?thesis
        by (cases "idx slots' out :: (autodiff_error, node_id option) outcome")
          (auto simp: jvp_def jvp_body_def gb_bind_def gb_try_def gb_return_def try_bind_def
            simp del: idx_eq_Inr idx_eq_Inl split: option.split sum.split)
    qed
  qed
qed

lemma jvp_body_builds:
  assumes v: "validate_for_autodiff src out wrt = Inr ()" and size: "length (graph_nodes src) \<le> u32_range"
  shows "builds ad_full (length wrt + (6 * length (graph_nodes src) + 1)) (copied src)
    (jvp_body src out wrt)
    (\<lambda>(ts, t) g. ts = tangent_ids src wrt \<and> extends (with_tangents src wrt) g \<and>
       has_type g t (type_of (graph_nodes src) out) \<and> (\<forall>j. tangent_of src wrt out = Some j \<longrightarrow> t = j))"
proof -
  have src: "validate src = Inr ()" "validate_semantics src = Inr ()" "out < length (graph_nodes src)"
    "\<forall>k \<in> set wrt. k < length (graph_nodes src) \<and> ty_dtype (type_of (graph_nodes src) k) = F32"
    using v by (auto simp: validate_for_autodiff_Inr)
  note start = copied_good [OF src(1,2) size]
  let ?Q = "\<lambda>(ts, t) g. ts = tangent_ids src wrt \<and> extends (with_tangents src wrt) g \<and>
       has_type g t (type_of (graph_nodes src) out) \<and> (\<forall>j. tangent_of src wrt out = Some j \<longrightarrow> t = j)"
  let ?last = "\<lambda>slots. gb_try (idx slots out) (\<lambda>slot.
      gb_bind (case slot of Some i \<Rightarrow> gb_return i
              | None \<Rightarrow> ad_emit ZerosLike [out] (type_of (graph_nodes src) out)) (\<lambda>t.
      gb_return (tangent_ids src wrt, t)))"
  have last: "builds ad_full 1 g (?last slots) ?Q"
    if g: "extends src g" "slots_ok src slots g" "extends (with_tangents src wrt) g"
      "\<forall>j. tangent_of src wrt out = Some j \<longrightarrow> slots ! out = Some j" for slots g
  proof (cases "slots ! out")
    case (Some i)
    then have "has_type g i (type_of (graph_nodes src) out)" using g(2) src(3) by (simp add: slots_ok_def)
    with Some g src(3) show ?thesis by (simp add: slots_ok_def builds_return)
  next
    case None
    have "builds ad_full (1 + 0) g (gb_bind (ad_emit ZerosLike [out] (type_of (graph_nodes src) out))
        (\<lambda>t. gb_return (tangent_ids src wrt, t))) ?Q"
    proof (rule builds_bind)
      show "builds ad_full 1 g (ad_emit ZerosLike [out] (type_of (graph_nodes src) out))
          (\<lambda>t g'. has_type g' t (type_of (graph_nodes src) out))"
        by (rule builds_emit [where tys = "[type_of (graph_nodes src) out]"])
          (use has_type_source [OF g(1) src(3)] in auto)
    qed (use g(3,4) None in \<open>auto intro!: builds_return intro: extends_trans\<close>)
    with None g(2) src(3) show ?thesis by (simp add: slots_ok_def)
  qed
  show ?thesis
    unfolding jvp_body_def
  proof (rule builds_bind [OF tangent_inputs_builds [OF src(4), simplified]], clarify)
    fix slots g
    assume g: "extends (copied src) g" "slots_ok src slots g"
      "\<forall>i < length (graph_nodes src). slots ! i = tangent_of src wrt i"
      "graph_nodes g = graph_nodes (with_tangents src wrt)"
    have src_g: "extends src g" using g(1) start(5) by simp
    have made: "extends (with_tangents src wrt) g" using g(4) by (simp add: extends_def)
    show "builds ad_full (6 * length (graph_nodes src) + 1) g
        (gb_bind (gb_fold (forward_step src [0..<length (graph_nodes src)]) slots
                (enumerate 0 (graph_nodes src))) ?last) ?Q"
    proof (rule builds_bind [OF forward_pass_builds [OF start(1,2) size src_g g(2)]])
      fix slots' g' assume g': "extends g g'" "slots_ok src slots' g' \<and> (\<forall>i j. slots ! i = Some j \<longrightarrow> slots' ! i = Some j)"
      show "builds ad_full 1 g' (?last slots') ?Q"
        by (rule last [OF extends_trans [OF src_g g'(1)] conjunct1 [OF g'(2)] extends_trans [OF made g'(1)]])
          (use g(3) g'(2) src(3) in simp)
    qed
  qed
qed

lemma jvp_decided:
  assumes "validate src = Inr ()" and "validate_semantics src = Inr ()"
    and "length (graph_nodes src) \<le> u32_range"
    and "\<forall>k \<in> insert out (set wrt). k < length (graph_nodes src) \<and>
           ty_dtype (type_of (graph_nodes src) k) = F32"
  shows "case jvp src out wrt of
       Inr r \<Rightarrow> derivative_ok src (jvp_result r) [jvp_primal_output r, jvp_tangent_output r]
                 [type_of (graph_nodes src) out, type_of (graph_nodes src) out] \<and>
               jvp_primal_output r = out \<and>
               list_all2 (has_type (jvp_result r)) (jvp_tangent_inputs r)
                 (map (type_of (graph_nodes src)) wrt) \<and>
               (\<forall>t \<in> set (jvp_tangent_inputs r). input_node (jvp_result r) t) \<and> length (graph_nodes (jvp_result r)) \<le> u32_range \<and>
               jvp_tangent_inputs r = tangent_ids src wrt \<and> extends (with_tangents src wrt) (jvp_result r) \<and>
               (\<forall>j. tangent_of src wrt out = Some j \<longrightarrow> jvp_tangent_output r = j)
     | Inl f \<Rightarrow> f = Err (AdInvalidGraph TooManyNodes) \<and>
               u32_range < 7 * length (graph_nodes src) + 1 + length wrt"
proof -
  have v: "validate_for_autodiff src out wrt = Inr ()"
    using assms by (simp add: validate_for_autodiff_Inr)
  note start = copied_good [OF assms(1-3)]
  from jvp_body_builds [OF v assms(3)] show ?thesis
  proof (cases rule: builds_run [OF _ start(3), consumes 1])
    case (1 x g)
    then obtain t where x: "x = (tangent_ids src wrt, t)" "extends (with_tangents src wrt) g"
      "\<forall>j. tangent_of src wrt out = Some j \<longrightarrow> t = j"
      "has_type g t (type_of (graph_nodes src) out)" by (cases x) auto
    note made = with_tangents_inputs [OF x(2)]
    have src: "extends src g" using 1(3) start(5) by simp
    have "list_all2 (has_type g) [out, t]
        [type_of (graph_nodes src) out, type_of (graph_nodes src) out]"
      using x(4) has_type_source [OF src, of out] assms(4) by simp
    then obtain g' where g': "set_outputs g [out, t] = Inr g'" "graph_nodes g' = graph_nodes g"
      "derivative_ok src g' [out, t] [type_of (graph_nodes src) out, type_of (graph_nodes src) out]"
      using derivative_okI [OF 1(2) src] by metis
    have "length (graph_nodes g) \<le> u32_range" using 1(2) by (simp add: good_def)
    with 1(1) x g' made show ?thesis
      by (simp add: jvp_run [OF v assms(3)] gradients_typed has_type_cong [OF g'(2)] input_node_def operates_cong [OF g'(2)]
          extends_def del: set_outputs_Inr)
  next
    case 2
    then show ?thesis using start(6) by (simp add: jvp_run [OF v assms(3)])
  qed
qed

text \<open>
  C15: forward mode. For a valid, well-typed source of at most \<open>2^32\<close> nodes whose output and parameters are
  existing \<open>F32\<close> nodes, \<open>jvp\<close> either reports that identifiers ran out, which happens only when seven
  nodes per source node, one, and one per parameter exceed the 32-bit space, or returns a valid, well-typed
  graph. That graph starts with the source nodes, unchanged, followed by one fresh input per parameter: an
  \<open>Input\<close> node of the parameter's type, named after the parameter. Its tangent inputs are exactly these
  nodes, in the order of the parameters. It returns the primal output and a tangent of the same type; if the
  output is itself a parameter, that tangent is the input made last for it.
\<close>

theorem jvp_correct:
  assumes "validate src = Inr ()" and "validate_semantics src = Inr ()"
    and "length (graph_nodes src) \<le> u32_range"
    and "\<forall>k \<in> insert out (set wrt). k < length (graph_nodes src) \<and>
           ty_dtype (type_of (graph_nodes src) k) = F32"
  shows "case jvp src out wrt of
       Inr r \<Rightarrow> derivative_ok src (jvp_result r) [jvp_primal_output r, jvp_tangent_output r]
                 [type_of (graph_nodes src) out, type_of (graph_nodes src) out] \<and>
               jvp_primal_output r = out \<and>
               take (length (graph_nodes src) + length wrt) (graph_nodes (jvp_result r)) =
                 graph_nodes src @ map (\<lambda>k. \<lparr>node_operation = Input (''__scirust_tangent_'' @ decimal k),
                   node_inputs = [], node_output = type_of (graph_nodes src) k\<rparr>) wrt \<and>
               jvp_tangent_inputs r = [length (graph_nodes src)..<length (graph_nodes src) + length wrt] \<and>
               (out \<in> set wrt \<longrightarrow>
                  map_of (rev (zip wrt (jvp_tangent_inputs r))) out = Some (jvp_tangent_output r))
     | Inl f \<Rightarrow> f = Err (AdInvalidGraph TooManyNodes) \<and>
               u32_range < 7 * length (graph_nodes src) + 1 + length wrt"
proof (cases "jvp src out wrt")
  case (Inl f)
  with jvp_decided [OF assms] show ?thesis by simp
next
  case (Inr r)
  with jvp_decided [OF assms] have r: "derivative_ok src (jvp_result r) [out, jvp_tangent_output r]
      [type_of (graph_nodes src) out, type_of (graph_nodes src) out]" "jvp_primal_output r = out"
    "jvp_tangent_inputs r = tangent_ids src wrt" "extends (with_tangents src wrt) (jvp_result r)"
    "\<forall>j. tangent_of src wrt out = Some j \<longrightarrow> jvp_tangent_output r = j" by auto
  have "out \<in> set wrt \<longrightarrow> (\<exists>j. tangent_of src wrt out = Some j)"
  proof
    assume "out \<in> set wrt"
    moreover have "map fst (zip wrt (tangent_ids src wrt)) = wrt" by (simp add: tangent_ids_def)
    ultimately have "out \<in> fst ` set (rev (zip wrt (tangent_ids src wrt)))" by (metis set_map set_rev)
    then show "\<exists>j. tangent_of src wrt out = Some j"
      by (cases "map_of (rev (zip wrt (tangent_ids src wrt))) out") (auto simp: tangent_of_def map_of_eq_None_iff)
  qed
  moreover have "take (length (graph_nodes src) + length wrt) (graph_nodes (jvp_result r)) =
      graph_nodes src @ map (tangent_node src) wrt"
    using r(4) by (auto simp: with_tangents_def extends_def)
  ultimately show ?thesis
    using Inr r by (auto simp: tangent_of_def tangent_ids_def tangent_node_def [abs_def])
qed

theorem jvp_correct_witness:
  "\<exists>r. jvp example_graph 1 [0] = Inr r \<and> jvp_tangent_inputs r = [2] \<and>
     derivative_ok example_graph (jvp_result r) [1, jvp_tangent_output r] [matrix_type, matrix_type]"
proof -
  have "type_of (graph_nodes example_graph) 1 = matrix_type" "length (graph_nodes example_graph) = 2"
    by (simp_all add: example_graph_def mk_node_def type_of_def)
  with jvp_correct [OF example_graph_ok] show ?thesis
    by (cases "jvp example_graph 1 [0]") (auto simp: numeral_2_eq_2)
qed

end
