(* ===== verification/Differential.thy ===== *)
theory Differential
  imports Autodiff_Correct Oracle_Theorems
begin

text \<open>
  The dense differential drivers of the runtime (\<open>differential.rs\<close> of \<open>scirust-tensor-runtime\<close>): Jacobians
  by forward and by reverse mode and Hessians, materialised by running the derivative graph on the CPU
  oracle once for each vector of the canonical basis.
\<close>

section \<open>Errors and bindings\<close>

datatype differential_error =
    DiffAutodiff autodiff_error
  | DiffRuntime oracle_error
  | DiffTensor tensor_error
  | DiffInvalidNode node_id
  | DiffUnsupportedDType node_id dtype
  | ScalarOutputRequired node_id usize
  | MissingTransformedOutput node_id

record differential_binding =
  db_node :: node_id
  db_value :: tensor

section \<open>Helpers\<close>

definition diff_tensor_type :: "graph \<Rightarrow> node_id \<Rightarrow> (differential_error, tensor_type) outcome" where
  "diff_tensor_type g n = ok_or (DiffInvalidNode n) (map_option node_output (get (graph_nodes g) n))"

definition diff_checked_elements :: "tensor_type \<Rightarrow> (differential_error, usize) outcome" where
  "diff_checked_elements ty = map_err (\<lambda>_. DiffTensor TensorShapeOverflow) (checked_num_elements (ty_shape ty))"

definition diff_require_f32 :: "node_id \<Rightarrow> tensor_type \<Rightarrow> (differential_error, unit) outcome" where
  "diff_require_f32 n ty = require (ty_dtype ty = F32) (DiffUnsupportedDType n (ty_dtype ty))"

definition jacobian_shape :: "tensor_type \<Rightarrow> tensor_type \<Rightarrow> shape" where
  "jacobian_shape output_type input_type = ty_shape output_type @ ty_shape input_type"

definition copy_binding :: "core2_inputs \<Rightarrow> differential_binding \<Rightarrow> (differential_error, core2_inputs) outcome" where
  "copy_binding inputs b =
     (if tn_device (db_value b) \<noteq> HostDevice then fail (DiffRuntime (HostReferenceRequired (db_node b)))
      else map_err DiffRuntime (inputs_insert inputs (db_node b) (db_value b)))"

definition copy_bindings :: "differential_binding list \<Rightarrow> (differential_error, core2_inputs) outcome" where
  "copy_bindings bindings = try_fold copy_binding [] bindings"

text \<open>
  The part of the loop bodies that both modes share: a basis vector enters at the seed node, the session
  runs, and the floats of the wanted output are read.
\<close>

definition basis_vector :: "usize \<Rightarrow> usize \<Rightarrow> ('e, u32 list) outcome" where
  "basis_vector elements index =
     (if index < elements then Inr ((replicate elements 0)[index := one_element]) else Inl Panic)"

definition basis_derivative ::
  "float_library \<Rightarrow> oracle_session \<Rightarrow> differential_binding list \<Rightarrow> node_id \<Rightarrow> tensor_type \<Rightarrow> usize \<Rightarrow> node_id \<Rightarrow> usize
     \<Rightarrow> (differential_error, u32 list) outcome" where
  "basis_derivative F session bindings seed ty elements wanted index =
     try_bind (basis_vector elements index) (\<lambda>basis.
     try_bind (copy_bindings bindings) (\<lambda>execution_inputs.
     try_bind (map_err DiffTensor (tensor_from_f32 basis (ty_shape ty))) (\<lambda>t.
     try_bind (map_err DiffRuntime (inputs_insert execution_inputs seed t)) (\<lambda>execution_inputs.
     try_bind (map_err DiffRuntime (oracle_execute F session execution_inputs)) (\<lambda>outputs.
     try_bind (ok_or (MissingTransformedOutput wanted) (lookup outputs wanted)) (\<lambda>v.
     map_err DiffTensor (to_f32_vec v)))))))"

section \<open>Forward mode\<close>

definition jacobian_cell ::
  "usize \<Rightarrow> usize \<Rightarrow> u32 list \<Rightarrow> usize \<times> u32 \<Rightarrow> (differential_error, u32 list) outcome" where
  "jacobian_cell input_elements input_index jacobian p = (case p of (output_index, derivative) \<Rightarrow>
     try_bind (usize_op (output_index * input_elements)) (\<lambda>row.
     try_bind (usize_op (row + input_index)) (\<lambda>cell.
     if cell < length jacobian then Inr (jacobian[cell := derivative]) else Inl Panic)))"

definition jacobian_column ::
  "float_library \<Rightarrow> oracle_session \<Rightarrow> differential_binding list \<Rightarrow> node_id \<Rightarrow> tensor_type \<Rightarrow> usize \<Rightarrow> node_id
     \<Rightarrow> u32 list \<Rightarrow> usize \<Rightarrow> (differential_error, u32 list) outcome" where
  "jacobian_column F session bindings tangent_input input_type input_elements tangent_output jacobian input_index =
     try_bind (basis_derivative F session bindings tangent_input input_type input_elements tangent_output input_index) (\<lambda>tangent_value.
     try_fold (jacobian_cell input_elements input_index) jacobian (enumerate 0 tangent_value))"

definition jacfwd_reference ::
  "float_library \<Rightarrow> graph \<Rightarrow> node_id \<Rightarrow> node_id \<Rightarrow> differential_binding list \<Rightarrow> core2_constants
     \<Rightarrow> (differential_error, tensor) outcome" where
  "jacfwd_reference F g out wrt bindings constants =
     try_bind (diff_tensor_type g wrt) (\<lambda>input_type.
     try_bind (diff_tensor_type g out) (\<lambda>output_type.
     try_bind (diff_require_f32 wrt input_type) (\<lambda>_.
     try_bind (diff_require_f32 out output_type) (\<lambda>_.
     try_bind (map_err DiffAutodiff (jvp g out [wrt])) (\<lambda>transformed.
     try_bind (idx (jvp_tangent_inputs transformed) 0) (\<lambda>tangent_input.
     try_bind (map_err DiffRuntime (oracle_prepare (jvp_result transformed) constants)) (\<lambda>session.
     try_bind (diff_checked_elements input_type) (\<lambda>input_elements.
     try_bind (diff_checked_elements output_type) (\<lambda>output_elements.
     try_bind (ok_or (DiffTensor TensorShapeOverflow) (checked_mul input_elements output_elements)) (\<lambda>matrix_elements.
     try_bind (try_fold (jacobian_column F session bindings tangent_input input_type input_elements (jvp_tangent_output transformed))
                 (replicate matrix_elements 0) [0..<input_elements]) (\<lambda>jacobian.
     map_err DiffTensor (tensor_from_f32 jacobian (jacobian_shape output_type input_type)))))))))))))"

section \<open>Reverse mode\<close>

text \<open>\<open>dst[start..end].copy_from_slice(src)\<close>\<close>

definition copy_from_slice :: "u32 list \<Rightarrow> usize \<Rightarrow> usize \<Rightarrow> u32 list \<Rightarrow> ('e, u32 list) outcome" where
  "copy_from_slice dst start stop source =
     (if start \<le> stop \<and> stop \<le> length dst \<and> length source = stop - start
      then Inr (take start dst @ source @ drop stop dst) else Inl Panic)"

definition jacobian_row ::
  "float_library \<Rightarrow> oracle_session \<Rightarrow> differential_binding list \<Rightarrow> node_id \<Rightarrow> tensor_type \<Rightarrow> usize \<Rightarrow> usize \<Rightarrow> node_id
     \<Rightarrow> u32 list \<Rightarrow> usize \<Rightarrow> (differential_error, u32 list) outcome" where
  "jacobian_row F session bindings cotangent_input output_type output_elements input_elements gradient_output jacobian output_index =
     try_bind (basis_derivative F session bindings cotangent_input output_type output_elements gradient_output output_index) (\<lambda>gradient.
     try_bind (usize_op (output_index * input_elements)) (\<lambda>row_start.
     try_bind (usize_op (row_start + input_elements)) (\<lambda>row_end.
     copy_from_slice jacobian row_start row_end gradient)))"

definition jacrev_reference ::
  "float_library \<Rightarrow> graph \<Rightarrow> node_id \<Rightarrow> node_id \<Rightarrow> differential_binding list \<Rightarrow> core2_constants
     \<Rightarrow> (differential_error, tensor) outcome" where
  "jacrev_reference F g out wrt bindings constants =
     try_bind (diff_tensor_type g wrt) (\<lambda>input_type.
     try_bind (diff_tensor_type g out) (\<lambda>output_type.
     try_bind (diff_require_f32 wrt input_type) (\<lambda>_.
     try_bind (diff_require_f32 out output_type) (\<lambda>_.
     try_bind (map_err DiffAutodiff (vjp g out [wrt])) (\<lambda>transformed.
     try_bind (idx (vjp_gradients transformed) 0) (\<lambda>gradient_output.
     try_bind (map_err DiffRuntime (oracle_prepare (vjp_result transformed) constants)) (\<lambda>session.
     try_bind (diff_checked_elements input_type) (\<lambda>input_elements.
     try_bind (diff_checked_elements output_type) (\<lambda>output_elements.
     try_bind (ok_or (DiffTensor TensorShapeOverflow) (checked_mul input_elements output_elements)) (\<lambda>matrix_elements.
     try_bind (try_fold (jacobian_row F session bindings (vjp_cotangent_input transformed) output_type output_elements input_elements gradient_output)
                 (replicate matrix_elements 0) [0..<output_elements]) (\<lambda>jacobian.
     map_err DiffTensor (tensor_from_f32 jacobian (jacobian_shape output_type input_type)))))))))))))"

section \<open>Mode selection and second derivatives\<close>

definition jacobian_reference ::
  "float_library \<Rightarrow> graph \<Rightarrow> node_id \<Rightarrow> node_id \<Rightarrow> differential_binding list \<Rightarrow> core2_constants
     \<Rightarrow> (differential_error, tensor) outcome" where
  "jacobian_reference F g out wrt bindings constants =
     try_bind (diff_tensor_type g wrt) (\<lambda>input_type.
     try_bind (diff_checked_elements input_type) (\<lambda>input_elements.
     try_bind (diff_tensor_type g out) (\<lambda>output_type.
     try_bind (diff_checked_elements output_type) (\<lambda>output_elements.
     if input_elements \<le> output_elements then jacfwd_reference F g out wrt bindings constants
     else jacrev_reference F g out wrt bindings constants))))"

definition hessian_reference ::
  "float_library \<Rightarrow> graph \<Rightarrow> node_id \<Rightarrow> node_id \<Rightarrow> differential_binding list \<Rightarrow> core2_constants
     \<Rightarrow> (differential_error, tensor) outcome" where
  "hessian_reference F g out wrt bindings constants =
     try_bind (diff_tensor_type g out) (\<lambda>output_type.
     try_bind (diff_checked_elements output_type) (\<lambda>output_elements.
     if output_elements \<noteq> 1 then fail (ScalarOutputRequired out output_elements)
     else
       try_bind (map_err DiffAutodiff (grad g out [wrt])) (\<lambda>gradient_graph.
       try_bind (idx (grad_gradients gradient_graph) 0) (\<lambda>gradient_output.
       jacfwd_reference F (grad_result gradient_graph) gradient_output wrt bindings constants))))"

end
