(* ===== verification/Differential_Correct.thy ===== *)
theory Differential_Correct
  imports Differential
begin

text \<open>
  What the differential drivers compute: which bindings are refused, the value of one run over a basis
  vector, and the loops that assemble the matrix.
\<close>

section \<open>Bindings\<close>

definition bound :: "differential_binding list \<Rightarrow> core2_inputs" where
  "bound bs = map (\<lambda>b. (db_node b, db_value b)) bs"

definition bindings_ok :: "differential_binding list \<Rightarrow> bool" where
  "bindings_ok bs \<longleftrightarrow> (\<forall>b \<in> set bs. tn_device (db_value b) = HostDevice) \<and> distinct (map db_node bs)"

text \<open>The first binding that is not on the host or that names a node again.\<close>

definition binding_refused :: "differential_binding list \<Rightarrow> oracle_error \<Rightarrow> bool" where
  "binding_refused bs e \<longleftrightarrow> (\<exists>i < length bs. bindings_ok (take i bs) \<and>
     (if tn_device (db_value (bs ! i)) \<noteq> HostDevice then e = HostReferenceRequired (db_node (bs ! i))
      else db_node (bs ! i) \<in> db_node ` set (take i bs) \<and> e = DuplicateInput (db_node (bs ! i))))"

lemma bound_nodes: "fst ` set (bound bs) = db_node ` set bs"
  by (force simp: bound_def)

lemma inputs_insert_eq: "inputs_insert ins n t = (if n \<in> fst ` set ins then fail (DuplicateInput n) else Inr (ins @ [(n, t)]))"
  by (force simp: inputs_insert_def list_ex_iff)

lemma copy_bindings_decided:
  "if bindings_ok bs then copy_bindings bs = Inr (bound bs)
   else \<exists>e. binding_refused bs e \<and> copy_bindings bs = fail (DiffRuntime e)"
proof (induction bs rule: rev_induct)
  case Nil
  then show ?case by (simp add: bindings_ok_def copy_bindings_def bound_def)
next
  case (snoc b bs)
  have step: "copy_bindings (bs @ [b]) = try_bind (copy_bindings bs) (\<lambda>ins. copy_binding ins b)"
    by (simp add: copy_bindings_def)
  show ?case
  proof (cases "bindings_ok bs")
    case False
    with snoc obtain e where e: "binding_refused bs e" "copy_bindings bs = fail (DiffRuntime e)" by auto
    then have "binding_refused (bs @ [b]) e" by (fastforce simp: binding_refused_def nth_append intro: less_SucI)
    moreover have "\<not> bindings_ok (bs @ [b])" using False by (auto simp: bindings_ok_def)
    ultimately show ?thesis using e(2) step by auto
  next
    case True
    with snoc have run: "copy_bindings (bs @ [b]) = copy_binding (bound bs) b" by (simp add: step)
    have here: "binding_refused (bs @ [b]) e" if "if tn_device (db_value b) \<noteq> HostDevice then e = HostReferenceRequired (db_node b)
        else db_node b \<in> db_node ` set bs \<and> e = DuplicateInput (db_node b)" for e
      unfolding binding_refused_def by (rule exI [of _ "length bs"]) (use True that in simp)
    have ok: "bindings_ok (bs @ [b]) \<longleftrightarrow> tn_device (db_value b) = HostDevice \<and> db_node b \<notin> db_node ` set bs"
      using True by (auto simp: bindings_ok_def)
    show ?thesis
      using here unfolding run ok by (auto simp: copy_binding_def inputs_insert_eq bound_nodes) (simp add: bound_def)
  qed
qed

lemma lookup_append: "lookup (xs @ [(k, t)]) j = (case lookup xs j of Some v \<Rightarrow> Some v | None \<Rightarrow> if j = k then Some t else None)"
  by (induction xs) (auto simp: lookup_def)

lemma lookup_None: "lookup xs j = None \<longleftrightarrow> j \<notin> fst ` set xs"
  by (induction xs) (auto simp: lookup_def)

lemma lookup_seed: "seed \<notin> db_node ` set bs \<Longrightarrow> lookup (bound bs @ [(seed, t)]) seed = Some t"
  using lookup_None [of "bound bs" seed] by (simp add: lookup_append bound_nodes)

section \<open>One run\<close>

text \<open>The external values of a run whose seed node carries \<open>x\<close>.\<close>

definition seeded_externals ::
  "graph \<Rightarrow> core2_constants \<Rightarrow> differential_binding list \<Rightarrow> node_id \<Rightarrow> element list \<Rightarrow> node_id \<Rightarrow> element list" where
  "seeded_externals g constants bs seed x i =
     (if i = seed then x
      else case node_operation (graph_nodes g ! i) of
        Constant c \<Rightarrow> floats (lookup constants c) | _ \<Rightarrow> floats (lookup (bound bs) i))"

definition seeded_value ::
  "float_library \<Rightarrow> graph \<Rightarrow> core2_constants \<Rightarrow> differential_binding list \<Rightarrow> node_id \<Rightarrow> node_id \<Rightarrow> element list \<Rightarrow> element list" where
  "seeded_value F g constants bs seed wanted x =
     node_value (flat_operation F) (seeded_externals g constants bs seed x) (graph_nodes g) wanted"

text \<open>Why a run is refused: the bindings, a binding of the seed, or the first input that is unusable.\<close>

definition unbound_input :: "graph \<Rightarrow> differential_binding list \<Rightarrow> node_id \<Rightarrow> oracle_error \<Rightarrow> bool" where
  "unbound_input g bs seed e \<longleftrightarrow> (\<exists>k < length (graph_nodes g). k \<noteq> seed \<and>
     input_problem (bound bs) k (graph_nodes g ! k) = Some e \<and>
     (\<forall>i < k. i \<noteq> seed \<longrightarrow> input_problem (bound bs) i (graph_nodes g ! i) = None))"

definition run_refused :: "graph \<Rightarrow> differential_binding list \<Rightarrow> node_id \<Rightarrow> oracle_error \<Rightarrow> bool" where
  "run_refused g bs seed e \<longleftrightarrow>
     (if \<not> bindings_ok bs then binding_refused bs e
      else if seed \<in> db_node ` set bs then e = DuplicateInput seed
      else unbound_input g bs seed e)"

text \<open>What the drivers rely on of a derivative graph and its seed.\<close>

definition derivative_run ::
  "graph \<Rightarrow> core2_constants \<Rightarrow> oracle_session \<Rightarrow> differential_binding list \<Rightarrow> node_id \<Rightarrow> tensor_type \<Rightarrow> node_id \<Rightarrow> bool" where
  "derivative_run g constants s bs seed ty wanted \<longleftrightarrow>
     oracle_prepare g constants = Inr s \<and> length (graph_nodes g) \<le> u32_range \<and>
     (\<forall>n \<in> set (graph_nodes g). shape_fits (ty_shape (node_output n))) \<and> all_built constants \<and> all_built (bound bs) \<and>
     has_type g seed ty \<and> input_node g seed \<and> ty_dtype ty = F32 \<and> wanted \<in> set (graph_outputs g)"

abbreviation unit_vector :: "nat \<Rightarrow> nat \<Rightarrow> element list" where
  "unit_vector n i \<equiv> (replicate n 0)[i := one_element]"

lemma seeded_problem:
  assumes seed: "has_type g seed ty" "input_node g seed" and t: "holds t ty x" and free: "seed \<notin> db_node ` set bs"
  shows "input_problem (bound bs @ [(seed, t)]) k (graph_nodes g ! k) =
    (if k = seed then None else input_problem (bound bs) k (graph_nodes g ! k))"
proof (cases "k = seed")
  case True
  note lookup_seed [OF free, of t]
  moreover have "value_problem seed t (node_output (graph_nodes g ! seed)) = None"
    using holds_valid [OF t] seed(1) by (simp add: has_type_def type_of_def)
  ultimately show ?thesis using True seed(2) by (auto simp: input_problem_def input_node_def operates_def)
next
  case False
  then have "lookup (bound bs @ [(seed, t)]) k = lookup (bound bs) k" by (simp add: lookup_append split: option.splits)
  with False show ?thesis by (simp add: input_problem_def split: operation.splits)
qed

lemma seeded_first_problem:
  assumes "has_type g seed ty" "input_node g seed" "holds t ty x" "seed \<notin> db_node ` set bs"
  shows "case first_problem (bound bs @ [(seed, t)]) (graph_nodes g) of
      None \<Rightarrow> \<forall>e. \<not> unbound_input g bs seed e | Some e \<Rightarrow> unbound_input g bs seed e"
proof (cases "first_problem (bound bs @ [(seed, t)]) (graph_nodes g)")
  case None
  then have "\<forall>k < length (graph_nodes g). k \<noteq> seed \<longrightarrow> input_problem (bound bs) k (graph_nodes g ! k) = None"
    unfolding first_problem_None seeded_problem [OF assms] by metis
  with None show ?thesis by (auto simp: unbound_input_def)
next
  case (Some e)
  from first_problem_Some [OF this] show ?thesis
    by (fastforce simp: Some unbound_input_def seeded_problem [OF assms] split: if_splits)
qed

lemma seeded_externals_eq:
  assumes "input_node g seed" and "holds t ty x" and "seed \<notin> db_node ` set bs"
  shows "oracle_externals \<lparr>ses_graph = g, ses_constants = constants\<rparr> (bound bs @ [(seed, t)]) = seeded_externals g constants bs seed x"
proof
  fix i
  note seed = lookup_seed [OF assms(3), of t]
  have other: "lookup (bound bs @ [(seed, t)]) i = lookup (bound bs) i" if "i \<noteq> seed"
    using that by (simp add: lookup_append split: option.splits)
  have "floats (Some t) = x" using assms(2) by (simp add: floats_def holds_def)
  with assms(1) seed other show "oracle_externals \<lparr>ses_graph = g, ses_constants = constants\<rparr> (bound bs @ [(seed, t)]) i =
      seeded_externals g constants bs seed x i"
    by (cases "i = seed") (auto simp: oracle_externals_def seeded_externals_def input_node_def operates_def split: operation.splits)
qed

lemma lookup_output:
  assumes "map fst outs = ks" and "k \<in> set ks" and "\<forall>(k, t) \<in> set outs. P k t"
  obtains t where "lookup outs k = Some t" "P k t"
proof -
  have "lookup outs k \<noteq> None" using assms(1,2) by (auto simp: lookup_None)
  then obtain t where t: "lookup outs k = Some t" by blast
  then have "(k, t) \<in> set outs"
    by (auto simp: lookup_def find_Some_iff) (metis nth_mem)
  with assms(3) t that show ?thesis by blast
qed

lemma basis_run:
  assumes run: "derivative_run g constants s bs seed ty wanted" and index: "index < prod_list (ty_shape ty)"
  defines "x \<equiv> unit_vector (prod_list (ty_shape ty)) index"
  shows "if \<exists>e. run_refused g bs seed e
    then \<exists>e. run_refused g bs seed e \<and> basis_derivative F s bs seed ty (prod_list (ty_shape ty)) wanted index = fail (DiffRuntime e)
    else basis_derivative F s bs seed ty (prod_list (ty_shape ty)) wanted index = Inr (seeded_value F g constants bs seed wanted x) \<and>
      length (seeded_value F g constants bs seed wanted x) = prod_list (ty_shape (type_of (graph_nodes g) wanted))"
proof -
  have g: "oracle_prepare g constants = Inr s" "length (graph_nodes g) \<le> u32_range"
    "\<forall>n \<in> set (graph_nodes g). shape_fits (ty_shape (node_output n))" "all_built constants" "all_built (bound bs)"
    "has_type g seed ty" "input_node g seed" "ty_dtype ty = F32" "wanted \<in> set (graph_outputs g)"
    using run by (simp_all add: derivative_run_def)
  have fits: "shape_fits (ty_shape ty)" using g(3,6) by (auto simp: has_type_def type_of_def)
  obtain t where t: "tensor_from_f32 x (ty_shape ty) = Inr t" "holds t (f32_type (ty_shape ty)) x"
    using from_f32_holds [OF fits, of x] by (auto simp: x_def)
  have ty: "f32_type (ty_shape ty) = ty" using g(8) by (rule f32_type_eta)
  have built: "built_tensor t" using t(1) unfolding tensor_from_f32_def by (rule built_tensor.from_bytes)
  have vector: "(basis_vector (prod_list (ty_shape ty)) index :: (differential_error, _) outcome) = Inr x"
    using index by (simp add: basis_vector_def x_def)
  show ?thesis
  proof (cases "bindings_ok bs")
    case False
    with copy_bindings_decided [of bs] obtain e where e: "binding_refused bs e" "copy_bindings bs = fail (DiffRuntime e)" by auto
    with False have "run_refused g bs seed e" by (simp add: run_refused_def)
    with e(2) show ?thesis by (auto simp: basis_derivative_def vector)
  next
    case True
    with copy_bindings_decided [of bs] have copied: "copy_bindings bs = Inr (bound bs)" by simp
    show ?thesis
    proof (cases "seed \<in> db_node ` set bs")
      case seed: True
      with True have "run_refused g bs seed (DuplicateInput seed)" by (simp add: run_refused_def)
      moreover have "basis_derivative F s bs seed ty (prod_list (ty_shape ty)) wanted index = fail (DiffRuntime (DuplicateInput seed))"
        using seed by (simp add: basis_derivative_def vector copied t(1) inputs_insert_eq bound_nodes)
      ultimately show ?thesis by auto
    next
      case free: False
      let ?ins = "bound bs @ [(seed, t)]"
      have ins: "all_built ?ins" using g(5) built by (simp add: all_built_def)
      note ses = prepared_session_ok [OF g(1-4) ins]
      have s: "s = \<lparr>ses_graph = g, ses_constants = constants\<rparr>" using ses(2,3) by (cases s) simp
      have refused: "run_refused g bs seed e \<longleftrightarrow> unbound_input g bs seed e" for e using True free by (simp add: run_refused_def)
      have inserted: "inputs_insert (bound bs) seed t = Inr ?ins" using free by (simp add: inputs_insert_eq bound_nodes)
      note reduced = basis_derivative_def vector copied t(1) inserted
      note problem = seeded_first_problem [OF g(6,7) t(2) [unfolded ty] free]
      note executed = oracle_run [OF ses(1), of F]
      show ?thesis
      proof (cases "first_problem ?ins (graph_nodes g)")
        case (Some e)
        then have "unbound_input g bs seed e" "oracle_execute F s ?ins = fail e" using problem executed by (simp_all add: s)
        then show ?thesis unfolding refused by (auto simp: reduced)
      next
        case None
        with problem have none: "\<not> (\<exists>e. unbound_input g bs seed e)" by simp
        from None executed obtain outs where outs: "oracle_execute F s ?ins = Inr outs" "map fst outs = graph_outputs g"
          "\<forall>(k, t) \<in> set outs. holds t (type_of (graph_nodes g) k) (oracle_value F s ?ins k)" by (auto simp: s)
        from lookup_output [OF outs(2) g(9) outs(3)] obtain v where v: "lookup outs wanted = Some v"
          "holds v (type_of (graph_nodes g) wanted) (oracle_value F s ?ins wanted)" .
        have "oracle_value F s ?ins wanted = seeded_value F g constants bs seed wanted x"
          unfolding s oracle_session.select_convs seeded_externals_eq [OF g(7) t(2) free] seeded_value_def ..
        with v holds_length [OF v(2)] none outs(1) show ?thesis unfolding refused by (simp add: reduced holds_def)
      qed
    qed
  qed
qed

section \<open>The loops\<close>

text \<open>The row-major matrix with \<open>m\<close> rows and \<open>n\<close> columns of the given entries.\<close>

definition matrix_of :: "nat \<Rightarrow> nat \<Rightarrow> (nat \<Rightarrow> nat \<Rightarrow> element) \<Rightarrow> element list" where
  "matrix_of m n entry = map (\<lambda>p. entry (p div n) (p mod n)) [0..<m * n]"

lemma matrix_of_length [simp]: "length (matrix_of m n entry) = m * n"
  by (simp add: matrix_of_def)

lemma cell_inject:
  fixes n i :: nat
  assumes "i < n" "i' < n"
  shows "r * n + i = r' * n + i' \<longleftrightarrow> r = r' \<and> i = i'"
proof
  assume eq: "r * n + i = r' * n + i'"
  then have "(r * n + i) div n = (r' * n + i') div n" "(r * n + i) mod n = (r' * n + i') mod n" by simp_all
  with assms show "r = r' \<and> i = i'" by simp
qed simp

lemma cell_less:
  fixes m n :: nat
  assumes "r < m" "i < n"
  shows "r * n + i < m * n"
proof -
  have "r * n + i < Suc r * n" using assms(2) by simp
  also have "\<dots> \<le> m * n" using assms(1) by (intro mult_le_mono1) simp
  finally show ?thesis .
qed

lemma column_loop:
  assumes col: "length col = m" and i: "i < n" and fits: "m * n \<le> usize_max" and J: "length J = m * n"
  shows "\<exists>J'. try_fold (jacobian_cell n i) J (enumerate 0 col) = Inr J' \<and> length J' = m * n \<and>
    (\<forall>r < m. \<forall>c < n. J' ! (r * n + c) = (if c = i then col ! r else J ! (r * n + c)))"
proof -
  let ?P = "\<lambda>k J'. length J' = m * n \<and> (\<forall>r < m. \<forall>c < n. J' ! (r * n + c) = (if r < k \<and> c = i then col ! r else J ! (r * n + c)))"
  have "\<exists>J'. try_fold (jacobian_cell n i) J (enumerate 0 col) = Inr J' \<and> ?P (length (enumerate 0 col)) J'"
  proof (rule try_fold_total [where P = ?P])
    show "?P 0 J" using J by simp
    fix k J' assume k: "k < length (enumerate 0 col)" and P: "?P k J'"
    from k col have k': "k < m" by simp
    note cell = cell_less [OF k' i]
    have "jacobian_cell n i J' (k, col ! k) = Inr (J'[k * n + i := col ! k])"
      using cell P fits by (simp add: jacobian_cell_def)
    moreover have "?P (Suc k) (J'[k * n + i := col ! k])"
      using P cell cell_inject [OF i] cell_less by (auto simp: nth_list_update less_Suc_eq)
    ultimately show "\<exists>J''. jacobian_cell n i J' (enumerate 0 col ! k) = Inr J'' \<and> ?P (Suc k) J''" using k by simp
  qed
  then show ?thesis using col by auto
qed

lemma matrix_eqI:
  assumes "length J = m * n" and "\<And>r c. r < m \<Longrightarrow> c < n \<Longrightarrow> J ! (r * n + c) = entry r c"
  shows "J = matrix_of m n entry"
proof (rule nth_equalityI)
  fix p assume "p < length J"
  with assms(1) have p: "p < m * n" by simp
  then have n: "0 < n" by (cases n) simp_all
  have "p div n < m" using p by (simp add: less_mult_imp_div_less)
  with assms(2) [of "p div n" "p mod n"] n p show "J ! p = matrix_of m n entry ! p"
    by (simp add: matrix_of_def)
qed (simp add: assms(1))

lemma columns_loop:
  assumes step: "\<And>i. i < n \<Longrightarrow> basis_derivative F s bs seed ty n wanted i = Inr (col i) \<and> length (col i) = m"
    and fits: "m * n \<le> usize_max"
  shows "try_fold (jacobian_column F s bs seed ty n wanted) (replicate (m * n) 0) [0..<n] = Inr (matrix_of m n (\<lambda>r i. col i ! r))"
proof -
  let ?P = "\<lambda>k J. length J = m * n \<and> (\<forall>r < m. \<forall>c < k. c < n \<longrightarrow> J ! (r * n + c) = col c ! r)"
  have "\<exists>J. try_fold (jacobian_column F s bs seed ty n wanted) (replicate (m * n) 0) [0..<n] = Inr J \<and> ?P (length [0..<n]) J"
  proof (rule try_fold_total [where P = ?P])
    show "?P 0 (replicate (m * n) 0)" by simp
    fix k J assume k: "k < length [0..<n]" and P: "?P k J"
    then have k': "k < n" by simp
    from column_loop [OF _ k' fits, of "col k" J] step [OF k'] P obtain J' where
      J': "try_fold (jacobian_cell n k) J (enumerate 0 (col k)) = Inr J'" "length J' = m * n"
        "\<forall>r < m. \<forall>c < n. J' ! (r * n + c) = (if c = k then col k ! r else J ! (r * n + c))" by blast
    have "jacobian_column F s bs seed ty n wanted J k = Inr J'" using step [OF k'] J'(1) by (simp add: jacobian_column_def)
    moreover have "?P (Suc k) J'" using J'(2,3) P by (auto simp: less_Suc_eq)
    ultimately show "\<exists>J'. jacobian_column F s bs seed ty n wanted J ([0..<n] ! k) = Inr J' \<and> ?P (Suc k) J'" using k' by auto
  qed
  then obtain J where J: "try_fold (jacobian_column F s bs seed ty n wanted) (replicate (m * n) 0) [0..<n] = Inr J" "?P n J" by auto
  then have "J = matrix_of m n (\<lambda>r i. col i ! r)" by (intro matrix_eqI) auto
  with J(1) show ?thesis by simp
qed

lemma copy_row:
  assumes J: "length J = m * n" and k: "k < m" and row: "length row = n"
  shows "\<exists>J'. copy_from_slice J (k * n) (k * n + n) row = Inr J' \<and> length J' = m * n \<and>
    (\<forall>r < m. \<forall>c < n. J' ! (r * n + c) = (if r = k then row ! c else J ! (r * n + c)))"
proof -
  let ?J = "take (k * n) J @ row @ drop (k * n + n) J"
  have stop: "k * n + n \<le> m * n" using mult_le_mono1 [of "Suc k" m n] k by simp
  then have start: "min (m * n) (k * n) = k * n" by simp
  have len: "length ?J = m * n" using J row stop by simp
  have "?J ! (r * n + c) = (if r = k then row ! c else J ! (r * n + c))" if r: "r < m" "c < n" for r c
  proof (cases rule: linorder_cases [of r k])
    case less
    with cell_less [OF less r(2)] J stop show ?thesis by (simp add: nth_append)
  next
    case equal
    with J row r(2) start show ?thesis by (simp add: nth_append)
  next
    case greater
    then have "k * n + n \<le> r * n" using mult_le_mono1 [of "Suc k" r n] by simp
    then have "\<not> r * n + c - k * n < n" by linarith
    with greater J row cell_less [OF r] start show ?thesis by (simp add: nth_append)
  qed
  then show ?thesis using J row stop len by (simp add: copy_from_slice_def)
qed

lemma rows_loop:
  assumes step: "\<And>i. i < m \<Longrightarrow> basis_derivative F s bs seed ty m wanted i = Inr (row i) \<and> length (row i) = n"
    and fits: "m * n \<le> usize_max"
  shows "try_fold (jacobian_row F s bs seed ty m n wanted) (replicate (m * n) 0) [0..<m] = Inr (matrix_of m n (\<lambda>r c. row r ! c))"
proof -
  let ?P = "\<lambda>k J. length J = m * n \<and> (\<forall>r < k. \<forall>c < n. r < m \<longrightarrow> J ! (r * n + c) = row r ! c)"
  have "\<exists>J. try_fold (jacobian_row F s bs seed ty m n wanted) (replicate (m * n) 0) [0..<m] = Inr J \<and> ?P (length [0..<m]) J"
  proof (rule try_fold_total [where P = ?P])
    show "?P 0 (replicate (m * n) 0)" by simp
    fix k J assume k: "k < length [0..<m]" and P: "?P k J"
    then have k': "k < m" by simp
    from copy_row [OF _ k', of J n "row k"] step [OF k'] P obtain J' where
      J': "copy_from_slice J (k * n) (k * n + n) (row k) = (Inr J' :: (differential_error, _) outcome)" "length J' = m * n"
        "\<forall>r < m. \<forall>c < n. J' ! (r * n + c) = (if r = k then row k ! c else J ! (r * n + c))" by blast
    have "k * n + n \<le> m * n" using mult_le_mono1 [of "Suc k" m n] k' by simp
    then have "jacobian_row F s bs seed ty m n wanted J k = Inr J'" using step [OF k'] J'(1) fits by (simp add: jacobian_row_def)
    moreover have "?P (Suc k) J'" using J'(2,3) P by (auto simp: less_Suc_eq)
    ultimately show "\<exists>J'. jacobian_row F s bs seed ty m n wanted J ([0..<m] ! k) = Inr J' \<and> ?P (Suc k) J'" using k' by auto
  qed
  then obtain J where J: "try_fold (jacobian_row F s bs seed ty m n wanted) (replicate (m * n) 0) [0..<m] = Inr J" "?P m J" by auto
  then have "J = matrix_of m n (\<lambda>r c. row r ! c)" by (intro matrix_eqI) auto
  with J(1) show ?thesis by simp
qed

end
