(* ===== verification/Differential_Theorems.thy ===== *)
theory Differential_Theorems
  imports Differential_Correct
begin

text \<open>
  The contract of the differential drivers: which matrix a Jacobian and a Hessian hold, in which mode
  they are computed, and every way in which they are refused.
\<close>

section \<open>What the drivers promise\<close>

definition extent :: "graph \<Rightarrow> node_id \<Rightarrow> nat" where
  "extent g i = prod_list (ty_shape (type_of (graph_nodes g) i))"

definition differentiable :: "graph \<Rightarrow> node_id \<Rightarrow> node_id \<Rightarrow> bool" where
  "differentiable g out wrt \<longleftrightarrow> validate g = Inr () \<and> validate_semantics g = Inr () \<and>
     length (graph_nodes g) \<le> u32_range \<and>
     (\<forall>k \<in> insert out (set [wrt]). k < length (graph_nodes g) \<and> ty_dtype (type_of (graph_nodes g) k) = F32)"

text \<open>The shapes of the Jacobian and of its two sides can be materialised.\<close>

definition jacobian_type :: "graph \<Rightarrow> node_id \<Rightarrow> node_id \<Rightarrow> tensor_type" where
  "jacobian_type g out wrt = f32_type (jacobian_shape (type_of (graph_nodes g) out) (type_of (graph_nodes g) wrt))"

definition jacobian_fits :: "graph \<Rightarrow> node_id \<Rightarrow> node_id \<Rightarrow> bool" where
  "jacobian_fits g out wrt \<longleftrightarrow> shape_fits (ty_shape (type_of (graph_nodes g) out)) \<and>
     shape_fits (ty_shape (type_of (graph_nodes g) wrt)) \<and> shape_fits (ty_shape (jacobian_type g out wrt))"

definition nodes_fit :: "graph \<Rightarrow> bool" where
  "nodes_fit g \<longleftrightarrow> (\<forall>n \<in> set (graph_nodes g). shape_fits (ty_shape (node_output n)))"

text \<open>
  Why the oracle refuses to prepare a well-typed graph: the first node that is not \<open>F32\<close>, or whose constant
  is missing or unusable.
\<close>

definition unprepared :: "graph \<Rightarrow> core2_constants \<Rightarrow> oracle_error \<Rightarrow> bool" where
  "unprepared g constants e \<longleftrightarrow> (\<exists>i < length (graph_nodes g).
     node_problem constants i (graph_nodes g ! i) = Some e \<and>
     (\<forall>j < i. node_problem constants j (graph_nodes g ! j) = None))"

lemma for_each_first:
  assumes "for_each f xs = Inl e"
  shows "\<exists>i < length xs. f (xs ! i) = Inl e \<and> (\<forall>j < i. f (xs ! j) = Inr ())"
  using assms
proof (induction xs)
  case (Cons x xs)
  show ?case
  proof (cases "f x")
    case (Inl a)
    with Cons.prems show ?thesis by (intro exI [of _ 0]) simp
  next
    case (Inr u)
    with Cons obtain i where i: "i < length xs" "f (xs ! i) = Inl e" "\<forall>j < i. f (xs ! j) = Inr ()" by auto
    then have "\<forall>j < Suc i. f ((x # xs) ! j) = Inr ()" using Inr by (simp add: nth_Cons split: nat.split)
    with i show ?thesis by (intro exI [of _ "Suc i"]) simp
  qed
qed simp

lemma prepare_refused:
  assumes "oracle_prepare g constants = Inl f" and "validate g = Inr ()" and "validate_semantics g = Inr ()"
    and "length (graph_nodes g) \<le> u32_range"
  shows "\<exists>e. f = Err e \<and> unprepared g constants e"
proof -
  from assms(1-3) have "for_each (prepare_node constants) (enumerate 0 (graph_nodes g)) = Inl f"
    by (auto simp: oracle_prepare_def try_bind_eq_Inl)
  from for_each_first [OF this] obtain i where i: "i < length (graph_nodes g)"
    "prepare_node constants (i, graph_nodes g ! i) = Inl f"
    "\<forall>j < i. prepare_node constants (j, graph_nodes g ! j) = Inr ()" by auto
  then show ?thesis
    using assms(4) unfolding unprepared_def
    by (fastforce simp: prepare_node_eq split: option.splits)
qed

text \<open>
  The result of \<open>count\<close> runs: refused with the error of the first run, or a host tensor of the type with
  these floats. Without a run nothing is refused.
\<close>

definition dense_result ::
  "(differential_error, tensor) outcome \<Rightarrow> (oracle_error \<Rightarrow> bool) \<Rightarrow> nat \<Rightarrow> tensor_type \<Rightarrow> element list \<Rightarrow> bool" where
  "dense_result run refused count ty x \<longleftrightarrow>
     (if count = 0 \<or> (\<forall>e. \<not> refused e) then \<exists>J. run = Inr J \<and> holds J ty x
      else \<exists>e. refused e \<and> run = fail (DiffRuntime e))"

text \<open>
  Forward mode: the entry in column \<open>col\<close> is the tangent of the output when the tangent input is the unit
  vector of the column. Reverse mode: the entry in row \<open>row\<close> is the gradient for the unit vector of the row.
\<close>

definition forward_entry ::
  "float_library \<Rightarrow> jvp_graph \<Rightarrow> core2_constants \<Rightarrow> differential_binding list \<Rightarrow> nat \<Rightarrow> nat \<Rightarrow> nat \<Rightarrow> element" where
  "forward_entry F r constants bs n row col =
     seeded_value F (jvp_result r) constants bs (jvp_tangent_inputs r ! 0) (jvp_tangent_output r) (unit_vector n col) ! row"

definition reverse_entry ::
  "float_library \<Rightarrow> vjp_graph \<Rightarrow> core2_constants \<Rightarrow> differential_binding list \<Rightarrow> nat \<Rightarrow> nat \<Rightarrow> nat \<Rightarrow> element" where
  "reverse_entry F r constants bs m row col =
     seeded_value F (vjp_result r) constants bs (vjp_cotangent_input r) (vjp_gradients r ! 0) (unit_vector m row) ! col"

lemma forward_entry_fun: "forward_entry F r constants bs n = (\<lambda>row col.
    seeded_value F (jvp_result r) constants bs (jvp_tangent_inputs r ! 0) (jvp_tangent_output r) (unit_vector n col) ! row)"
  by (intro ext) (simp add: forward_entry_def)

lemma reverse_entry_fun: "reverse_entry F r constants bs m = (\<lambda>row col.
    seeded_value F (vjp_result r) constants bs (vjp_cotangent_input r) (vjp_gradients r ! 0) (unit_vector m row) ! col)"
  by (intro ext) (simp add: reverse_entry_def)

section \<open>The loops over a basis\<close>

lemma try_fold_first: "f s x = Inl e \<Longrightarrow> try_fold f s (x # xs) = Inl e"
  by simp

lemma columns_decided:
  assumes run: "derivative_run g constants s bs seed ty wanted"
    and n: "n = prod_list (ty_shape ty)" and m: "m = prod_list (ty_shape (type_of (graph_nodes g) wanted))" and fits: "m * n \<le> usize_max"
  shows "if n = 0 \<or> (\<forall>e. \<not> run_refused g bs seed e)
    then try_fold (jacobian_column F s bs seed ty n wanted) (replicate (m * n) 0) [0..<n] =
      Inr (matrix_of m n (\<lambda>row col. seeded_value F g constants bs seed wanted (unit_vector n col) ! row))
    else \<exists>e. run_refused g bs seed e \<and>
      try_fold (jacobian_column F s bs seed ty n wanted) (replicate (m * n) 0) [0..<n] = fail (DiffRuntime e)"
proof (cases "n = 0 \<or> (\<forall>e. \<not> run_refused g bs seed e)")
  case True
  have "basis_derivative F s bs seed ty n wanted i = Inr (seeded_value F g constants bs seed wanted (unit_vector n i)) \<and>
      length (seeded_value F g constants bs seed wanted (unit_vector n i)) = m" if "i < n" for i
    using basis_run [OF run, of i F] that True by (auto simp: n m)
  from columns_loop [OF this fits] True show ?thesis by simp
next
  case False
  then obtain e where e: "run_refused g bs seed e" "basis_derivative F s bs seed ty n wanted 0 = fail (DiffRuntime e)"
    using basis_run [OF run, of 0 F] by (auto simp: n)
  have "[0..<n] = 0 # [1..<n]" using False by (simp add: upt_rec [of 0])
  with e False show ?thesis by (auto simp: jacobian_column_def)
qed

lemma rows_decided:
  assumes run: "derivative_run g constants s bs seed ty wanted"
    and m: "m = prod_list (ty_shape ty)" and n: "n = prod_list (ty_shape (type_of (graph_nodes g) wanted))" and fits: "m * n \<le> usize_max"
  shows "if m = 0 \<or> (\<forall>e. \<not> run_refused g bs seed e)
    then try_fold (jacobian_row F s bs seed ty m n wanted) (replicate (m * n) 0) [0..<m] =
      Inr (matrix_of m n (\<lambda>row col. seeded_value F g constants bs seed wanted (unit_vector m row) ! col))
    else \<exists>e. run_refused g bs seed e \<and>
      try_fold (jacobian_row F s bs seed ty m n wanted) (replicate (m * n) 0) [0..<m] = fail (DiffRuntime e)"
proof (cases "m = 0 \<or> (\<forall>e. \<not> run_refused g bs seed e)")
  case True
  have "basis_derivative F s bs seed ty m wanted i = Inr (seeded_value F g constants bs seed wanted (unit_vector m i)) \<and>
      length (seeded_value F g constants bs seed wanted (unit_vector m i)) = n" if "i < m" for i
    using basis_run [OF run, of i F] that True by (auto simp: n m)
  from rows_loop [OF this fits] True show ?thesis by simp
next
  case False
  then obtain e where e: "run_refused g bs seed e" "basis_derivative F s bs seed ty m wanted 0 = fail (DiffRuntime e)"
    using basis_run [OF run, of 0 F] by (auto simp: m)
  have "[0..<m] = 0 # [1..<m]" using False by (simp add: upt_rec [of 0])
  with e False show ?thesis by (auto simp: jacobian_row_def)
qed

section \<open>Both modes\<close>

lemma fits_elements:
  "shape_fits (ty_shape ty) \<Longrightarrow> diff_checked_elements ty = Inr (prod_list (ty_shape ty))"
  by (simp add: diff_checked_elements_def shape_fits_def)

lemma differentiable_node:
  assumes "differentiable g out wrt" and "k \<in> {out, wrt}"
  shows "diff_tensor_type g k = Inr (type_of (graph_nodes g) k)" "diff_require_f32 k (type_of (graph_nodes g) k) = Inr ()"
  using assms by (auto simp: differentiable_def diff_tensor_type_def diff_require_f32_def type_of_def get_def)

lemma jacobian_extent:
  assumes "jacobian_fits g out wrt"
  shows "extent g out * extent g wrt \<le> usize_max" "prod_list (ty_shape (jacobian_type g out wrt)) = extent g out * extent g wrt"
  using assms checked_num_elements_le [of "ty_shape (jacobian_type g out wrt)"]
  by (auto simp: jacobian_fits_def shape_fits_def extent_def jacobian_type_def jacobian_shape_def)

lemma dense_result_from:
  assumes loop: "if count = 0 \<or> (\<forall>e. \<not> refused e) then run = Inr x else \<exists>e. refused e \<and> run = fail (DiffRuntime e)"
    and fits: "shape_fits (ty_shape ty)" "ty_dtype ty = F32" and x: "length x = prod_list (ty_shape ty)"
  shows "dense_result (try_bind run (\<lambda>jacobian. map_err DiffTensor (tensor_from_f32 jacobian (ty_shape ty)))) refused count ty x"
proof -
  from from_f32_holds [OF fits(1) x] obtain t where "tensor_from_f32 x (ty_shape ty) = Inr t" "holds t ty x"
    by (auto simp: f32_type_eta [OF fits(2)])
  with loop show ?thesis unfolding dense_result_def by (cases "count = 0 \<or> (\<forall>e. \<not> refused e)") (simp, simp only: if_False, force)
qed

lemma jacfwd_decided:
  assumes diff: "differentiable g out wrt" and fits: "jacobian_fits g out wrt" and built: "all_built constants" "all_built (bound bs)"
  shows "case jvp g out [wrt] of
      Inl f \<Rightarrow> jacfwd_reference F g out wrt bs constants = fail (DiffAutodiff (AdInvalidGraph TooManyNodes)) \<and>
        u32_range < 7 * length (graph_nodes g) + 2
    | Inr r \<Rightarrow> (case oracle_prepare (jvp_result r) constants of
        Inl f \<Rightarrow> \<exists>e. f = Err e \<and> unprepared (jvp_result r) constants e \<and>
          jacfwd_reference F g out wrt bs constants = fail (DiffRuntime e)
      | Inr s \<Rightarrow> nodes_fit (jvp_result r) \<longrightarrow>
          dense_result (jacfwd_reference F g out wrt bs constants) (run_refused (jvp_result r) bs (jvp_tangent_inputs r ! 0)) (extent g wrt)
            (jacobian_type g out wrt) (matrix_of (extent g out) (extent g wrt) (forward_entry F r constants bs (extent g wrt))))"
proof -
  have v: "validate g = Inr ()" "validate_semantics g = Inr ()" "length (graph_nodes g) \<le> u32_range"
    "\<forall>k \<in> insert out (set [wrt]). k < length (graph_nodes g) \<and> ty_dtype (type_of (graph_nodes g) k) = F32"
    using diff by (simp_all add: differentiable_def)
  note jvp = jvp_decided [OF v]
  note types = differentiable_node [OF diff]
  show ?thesis
  proof (cases "jvp g out [wrt]")
    case (Inl f)
    with jvp show ?thesis by (simp add: jacfwd_reference_def types)
  next
    case (Inr r)
    let ?g = "jvp_result r" and ?seed = "jvp_tangent_inputs r ! 0" and ?out = "jvp_tangent_output r"
    from jvp Inr have r: "derivative_ok g ?g [out, ?out] [type_of (graph_nodes g) out, type_of (graph_nodes g) out]"
      "list_all2 (has_type ?g) (jvp_tangent_inputs r) [type_of (graph_nodes g) wrt]"
      "\<forall>t \<in> set (jvp_tangent_inputs r). input_node ?g t" "length (graph_nodes ?g) \<le> u32_range" by auto
    from r(2) obtain t where t: "jvp_tangent_inputs r = [t]" "has_type ?g t (type_of (graph_nodes g) wrt)"
      by (auto simp: list_all2_Cons2)
    show ?thesis
    proof (cases "oracle_prepare ?g constants")
      case (Inl f)
      from prepare_refused [OF Inl _ _ r(4)] r(1) obtain e where "f = Err e" "unprepared ?g constants e"
        by (auto simp: derivative_ok_def)
      with Inl Inr t show ?thesis by (simp add: jacfwd_reference_def types)
    next
      case prep: (Inr s)
      have "dense_result (jacfwd_reference F g out wrt bs constants) (run_refused ?g bs ?seed) (extent g wrt)
          (jacobian_type g out wrt) (matrix_of (extent g out) (extent g wrt) (forward_entry F r constants bs (extent g wrt)))"
        if nodes: "nodes_fit ?g"
      proof -
        have run: "derivative_run ?g constants s bs ?seed (type_of (graph_nodes g) wrt) ?out"
          using prep r t nodes built v(4) by (simp add: derivative_run_def derivative_ok_def nodes_fit_def)
        have "extent g out = prod_list (ty_shape (type_of (graph_nodes ?g) ?out))" using r(1) by (simp add: derivative_ok_def extent_def)
        note loop = columns_decided [OF run extent_def this jacobian_extent(1) [OF fits], of F]
        have "jacfwd_reference F g out wrt bs constants =
            try_bind (try_fold (jacobian_column F s bs ?seed (type_of (graph_nodes g) wrt) (extent g wrt) ?out)
              (replicate (extent g out * extent g wrt) 0) [0..<extent g wrt]) (\<lambda>jacobian.
            map_err DiffTensor (tensor_from_f32 jacobian (ty_shape (jacobian_type g out wrt))))"
          using Inr prep t jacobian_extent(1) [OF fits] fits
          by (simp add: jacfwd_reference_def types fits_elements jacobian_fits_def jacobian_type_def extent_def mult.commute)
        with dense_result_from [OF loop, of "jacobian_type g out wrt"] fits jacobian_extent(2) [OF fits] show ?thesis
          by (simp add: jacobian_fits_def jacobian_type_def forward_entry_fun)
      qed
      with Inr prep show ?thesis by simp
    qed
  qed
qed

lemma jacrev_decided:
  assumes diff: "differentiable g out wrt" and fits: "jacobian_fits g out wrt" and built: "all_built constants" "all_built (bound bs)"
  shows "case vjp g out [wrt] of
      Inl f \<Rightarrow> jacrev_reference F g out wrt bs constants = fail (DiffAutodiff (AdInvalidGraph TooManyNodes)) \<and>
        u32_range < 8 * length (graph_nodes g) + 2
    | Inr r \<Rightarrow> (case oracle_prepare (vjp_result r) constants of
        Inl f \<Rightarrow> \<exists>e. f = Err e \<and> unprepared (vjp_result r) constants e \<and>
          jacrev_reference F g out wrt bs constants = fail (DiffRuntime e)
      | Inr s \<Rightarrow> nodes_fit (vjp_result r) \<longrightarrow>
          dense_result (jacrev_reference F g out wrt bs constants) (run_refused (vjp_result r) bs (vjp_cotangent_input r)) (extent g out)
            (jacobian_type g out wrt) (matrix_of (extent g out) (extent g wrt) (reverse_entry F r constants bs (extent g out))))"
proof -
  have v: "validate g = Inr ()" "validate_semantics g = Inr ()" "length (graph_nodes g) \<le> u32_range"
    "\<forall>k \<in> insert out (set [wrt]). k < length (graph_nodes g) \<and> ty_dtype (type_of (graph_nodes g) k) = F32"
    using diff by (simp_all add: differentiable_def)
  note vjp = vjp_decided [OF v]
  note types = differentiable_node [OF diff]
  show ?thesis
  proof (cases "vjp g out [wrt]")
    case (Inl f)
    with vjp show ?thesis by (simp add: jacrev_reference_def types)
  next
    case (Inr r)
    let ?g = "vjp_result r" and ?seed = "vjp_cotangent_input r" and ?out = "vjp_gradients r ! 0"
    from vjp Inr have r: "derivative_ok g ?g (vjp_gradients r) [type_of (graph_nodes g) wrt]"
      "has_type ?g ?seed (type_of (graph_nodes g) out)" "input_node ?g ?seed" "length (graph_nodes ?g) \<le> u32_range" by auto
    from r(1) obtain d where d: "vjp_gradients r = [d]" "type_of (graph_nodes ?g) d = type_of (graph_nodes g) wrt"
      by (auto simp: derivative_ok_def)
    show ?thesis
    proof (cases "oracle_prepare ?g constants")
      case (Inl f)
      from prepare_refused [OF Inl _ _ r(4)] r(1) obtain e where "f = Err e" "unprepared ?g constants e"
        by (auto simp: derivative_ok_def)
      with Inl Inr d show ?thesis by (simp add: jacrev_reference_def types)
    next
      case prep: (Inr s)
      have "dense_result (jacrev_reference F g out wrt bs constants) (run_refused ?g bs ?seed) (extent g out)
          (jacobian_type g out wrt) (matrix_of (extent g out) (extent g wrt) (reverse_entry F r constants bs (extent g out)))"
        if nodes: "nodes_fit ?g"
      proof -
        have run: "derivative_run ?g constants s bs ?seed (type_of (graph_nodes g) out) ?out"
          using prep r d nodes built v(4) by (simp add: derivative_run_def derivative_ok_def nodes_fit_def)
        have "extent g wrt = prod_list (ty_shape (type_of (graph_nodes ?g) ?out))" using d by (simp add: extent_def)
        note loop = rows_decided [OF run extent_def this jacobian_extent(1) [OF fits], of F]
        have "jacrev_reference F g out wrt bs constants =
            try_bind (try_fold (jacobian_row F s bs ?seed (type_of (graph_nodes g) out) (extent g out) (extent g wrt) ?out)
              (replicate (extent g out * extent g wrt) 0) [0..<extent g out]) (\<lambda>jacobian.
            map_err DiffTensor (tensor_from_f32 jacobian (ty_shape (jacobian_type g out wrt))))"
          using Inr prep d jacobian_extent(1) [OF fits] fits
          by (simp add: jacrev_reference_def types fits_elements jacobian_fits_def jacobian_type_def extent_def mult.commute)
        with dense_result_from [OF loop, of "jacobian_type g out wrt"] fits jacobian_extent(2) [OF fits] show ?thesis
          by (simp add: jacobian_fits_def jacobian_type_def reverse_entry_fun)
      qed
      with Inr prep show ?thesis by simp
    qed
  qed
qed

section \<open>Properties\<close>

text \<open>
  C29: the Jacobian of a valid, well-typed graph of at most \<open>2^32\<close> nodes with respect to one node, output
  and node both \<open>F32\<close>, with the shapes of output, node and Jacobian small enough to be materialised, and
  constants and bindings built by the tensor interface. It is computed in the mode with the smaller basis,
  forward when both are equal. It is refused when the derivative graph does not fit into the identifiers,
  or with the error of the first node of that graph that is not \<open>F32\<close> or whose constant is missing or
  unusable. Otherwise, if also the shapes of all nodes of the derivative graph can be materialised, it is
  refused only if there is a basis vector at all, with the error of the first run, whose reason holds; or
  it is a host tensor with the shape of the output followed by the shape of the node, whose entry
  at a row and a column is the derivative that the derivative graph gives for the unit vector of the column,
  or of the row in reverse mode. Under these conditions it does not panic; for larger shapes nothing
  is stated.
\<close>

theorem jacobian_decides:
  assumes "differentiable g out wrt" and "jacobian_fits g out wrt" and "all_built constants" and "all_built (bound bs)"
  shows "if extent g wrt \<le> extent g out
    then case jvp g out [wrt] of
        Inl f \<Rightarrow> jacobian_reference F g out wrt bs constants = fail (DiffAutodiff (AdInvalidGraph TooManyNodes)) \<and>
          u32_range < 7 * length (graph_nodes g) + 2
      | Inr r \<Rightarrow> (case oracle_prepare (jvp_result r) constants of
          Inl f \<Rightarrow> \<exists>e. f = Err e \<and> unprepared (jvp_result r) constants e \<and>
            jacobian_reference F g out wrt bs constants = fail (DiffRuntime e)
        | Inr s \<Rightarrow> nodes_fit (jvp_result r) \<longrightarrow>
            dense_result (jacobian_reference F g out wrt bs constants) (run_refused (jvp_result r) bs (jvp_tangent_inputs r ! 0)) (extent g wrt)
              (jacobian_type g out wrt) (matrix_of (extent g out) (extent g wrt) (forward_entry F r constants bs (extent g wrt))))
    else case vjp g out [wrt] of
        Inl f \<Rightarrow> jacobian_reference F g out wrt bs constants = fail (DiffAutodiff (AdInvalidGraph TooManyNodes)) \<and>
          u32_range < 8 * length (graph_nodes g) + 2
      | Inr r \<Rightarrow> (case oracle_prepare (vjp_result r) constants of
          Inl f \<Rightarrow> \<exists>e. f = Err e \<and> unprepared (vjp_result r) constants e \<and>
            jacobian_reference F g out wrt bs constants = fail (DiffRuntime e)
        | Inr s \<Rightarrow> nodes_fit (vjp_result r) \<longrightarrow>
            dense_result (jacobian_reference F g out wrt bs constants) (run_refused (vjp_result r) bs (vjp_cotangent_input r)) (extent g out)
              (jacobian_type g out wrt) (matrix_of (extent g out) (extent g wrt) (reverse_entry F r constants bs (extent g out))))"
proof -
  have mode: "jacobian_reference F g out wrt bs constants =
      (if extent g wrt \<le> extent g out then jacfwd_reference F g out wrt bs constants else jacrev_reference F g out wrt bs constants)"
    using differentiable_node [OF assms(1)] assms(2)
    by (simp add: jacobian_reference_def fits_elements jacobian_fits_def extent_def)
  show ?thesis
  proof (cases "extent g wrt \<le> extent g out")
    case True
    then have "jacobian_reference F g out wrt bs constants = jacfwd_reference F g out wrt bs constants" by (simp add: mode)
    with True jacfwd_decided [OF assms, of F] show ?thesis by (simp only: if_True)
  next
    case False
    then have "jacobian_reference F g out wrt bs constants = jacrev_reference F g out wrt bs constants" by (simp add: mode)
    with False jacrev_decided [OF assms, of F] show ?thesis by (simp only: if_False)
  qed
qed

lemma gradient_differentiable:
  assumes "derivative_ok g G [d] [type_of (graph_nodes g) wrt]" and "length (graph_nodes G) \<le> u32_range" and "differentiable g out wrt"
  shows "differentiable G d wrt" "type_of (graph_nodes G) d = type_of (graph_nodes g) wrt" "type_of (graph_nodes G) wrt = type_of (graph_nodes g) wrt"
proof -
  have wrt: "wrt < length (graph_nodes g)" "ty_dtype (type_of (graph_nodes g) wrt) = F32" using assms(3) by (simp_all add: differentiable_def)
  have G: "validate G = Inr ()" "validate_semantics G = Inr ()" "take (length (graph_nodes g)) (graph_nodes G) = graph_nodes g"
    "graph_outputs G = [d]" and d: "type_of (graph_nodes G) d = type_of (graph_nodes g) wrt" using assms(1) by (simp_all add: derivative_ok_def)
  have "length (graph_nodes g) \<le> length (graph_nodes G)" using arg_cong [OF G(3), of length] by simp
  with wrt(1) have "wrt < length (graph_nodes G)" by simp
  moreover have "graph_nodes G ! wrt = graph_nodes g ! wrt" using nth_take [OF wrt(1), of "graph_nodes G"] by (simp add: G(3))
  then show "type_of (graph_nodes G) wrt = type_of (graph_nodes g) wrt" by (simp add: type_of_def)
  moreover have "d < length (graph_nodes G)" using G(1,4) by (simp add: validate_iff_wf wf_graph_def)
  ultimately show "differentiable G d wrt" using G(1,2) assms(2) d wrt(2) by (simp add: differentiable_def)
  show "type_of (graph_nodes G) d = type_of (graph_nodes g) wrt" by (rule d)
qed

text \<open>
  C30: the Hessian of a valid, well-typed graph of at most \<open>2^32\<close> nodes with respect to one node, output and
  node both \<open>F32\<close>, with the shapes involved small enough to be materialised. It is refused for an output
  that is not a scalar. Otherwise it is the forward-mode Jacobian of the gradient graph: a square matrix
  over the elements of the parameter, whose entry at a row and a column is the tangent of the element of the
  gradient at the row for the unit vector of the column. It is refused when a derivative graph does not
  fit into the identifiers, with the error of preparing that graph, or with that of a failing run.
\<close>

theorem hessian_decides:
  assumes "differentiable g out wrt" and "jacobian_fits g out wrt" and "jacobian_fits g wrt wrt"
    and "all_built constants" and "all_built (bound bs)"
  shows "if extent g out \<noteq> 1 then hessian_reference F g out wrt bs constants = fail (ScalarOutputRequired out (extent g out))
    else case grad g out [wrt] of
        Inl f \<Rightarrow> hessian_reference F g out wrt bs constants = fail (DiffAutodiff (AdInvalidGraph TooManyNodes)) \<and>
          u32_range < 8 * length (graph_nodes g) + 2
      | Inr h \<Rightarrow> (case jvp (grad_result h) (grad_gradients h ! 0) [wrt] of
          Inl f \<Rightarrow> hessian_reference F g out wrt bs constants = fail (DiffAutodiff (AdInvalidGraph TooManyNodes)) \<and>
            u32_range < 7 * length (graph_nodes (grad_result h)) + 2
        | Inr r \<Rightarrow> (case oracle_prepare (jvp_result r) constants of
            Inl f \<Rightarrow> \<exists>e. f = Err e \<and> unprepared (jvp_result r) constants e \<and>
              hessian_reference F g out wrt bs constants = fail (DiffRuntime e)
          | Inr s \<Rightarrow> nodes_fit (jvp_result r) \<longrightarrow>
              dense_result (hessian_reference F g out wrt bs constants) (run_refused (jvp_result r) bs (jvp_tangent_inputs r ! 0)) (extent g wrt)
                (jacobian_type g wrt wrt) (matrix_of (extent g wrt) (extent g wrt) (forward_entry F r constants bs (extent g wrt)))))"
proof -
  have v: "validate g = Inr ()" "validate_semantics g = Inr ()" "length (graph_nodes g) \<le> u32_range"
    "\<forall>k \<in> insert out (set [wrt]). k < length (graph_nodes g) \<and> ty_dtype (type_of (graph_nodes g) k) = F32"
    using assms(1) by (simp_all add: differentiable_def)
  note grad = conjunct1 [OF grad_decided [OF v]]
  have start: "hessian_reference F g out wrt bs constants =
      (if extent g out \<noteq> 1 then fail (ScalarOutputRequired out (extent g out))
       else try_bind (map_err DiffAutodiff (grad g out [wrt])) (\<lambda>h. try_bind (idx (grad_gradients h) 0) (\<lambda>d.
         jacfwd_reference F (grad_result h) d wrt bs constants)))"
    using differentiable_node [OF assms(1)] assms(2) by (simp add: hessian_reference_def fits_elements jacobian_fits_def extent_def)
  show ?thesis
  proof (cases "extent g out = 1")
    case False
    then show ?thesis by (simp add: start)
  next
    case scalar: True
    show ?thesis
    proof (cases "grad g out [wrt]")
      case (Inl f)
      with grad scalar show ?thesis by (simp add: start)
    next
      case (Inr h)
      let ?G = "grad_result h"
      from grad Inr have ok: "derivative_ok g ?G (grad_gradients h) [type_of (graph_nodes g) wrt]" "length (graph_nodes ?G) \<le> u32_range" by simp_all
      then obtain d where d: "grad_gradients h = [d]" by (auto simp: derivative_ok_def)
      note G = gradient_differentiable [OF ok(1) [unfolded d] ok(2) assms(1)]
      have same: "extent ?G d = extent g wrt" "extent ?G wrt = extent g wrt" "jacobian_type ?G d wrt = jacobian_type g wrt wrt"
        "jacobian_fits ?G d wrt \<longleftrightarrow> jacobian_fits g wrt wrt"
        using G(2,3) by (simp_all add: extent_def jacobian_type_def jacobian_fits_def)
      from jacfwd_decided [OF G(1) _ assms(4,5), of F] assms(3) have
        "case jvp ?G d [wrt] of
          Inl f \<Rightarrow> jacfwd_reference F ?G d wrt bs constants = fail (DiffAutodiff (AdInvalidGraph TooManyNodes)) \<and>
            u32_range < 7 * length (graph_nodes ?G) + 2
        | Inr r \<Rightarrow> (case oracle_prepare (jvp_result r) constants of
            Inl f \<Rightarrow> \<exists>e. f = Err e \<and> unprepared (jvp_result r) constants e \<and>
              jacfwd_reference F ?G d wrt bs constants = fail (DiffRuntime e)
          | Inr s \<Rightarrow> nodes_fit (jvp_result r) \<longrightarrow>
              dense_result (jacfwd_reference F ?G d wrt bs constants) (run_refused (jvp_result r) bs (jvp_tangent_inputs r ! 0)) (extent g wrt)
                (jacobian_type g wrt wrt) (matrix_of (extent g wrt) (extent g wrt) (forward_entry F r constants bs (extent g wrt))))"
        unfolding same by blast
      moreover have "hessian_reference F g out wrt bs constants = jacfwd_reference F ?G d wrt bs constants"
        using scalar Inr d by (simp add: start)
      moreover have "grad_gradients h ! 0 = d" by (simp add: d)
      ultimately show ?thesis using scalar Inr by (simp only: sum.case simp_thms if_False)
    qed
  qed
qed

end
