(* ===== verification/Differential_Examples.thy ===== *)
theory Differential_Examples
  imports Differential_Theorems
begin

text \<open>
  The differential drivers on concrete graphs: the Jacobian of \<open>relu\<close> on a matrix and the Hessian of a
  scalar square.
\<close>

section \<open>Evaluating the transforms\<close>

lemma emit_run:
  assumes "length ins = expected_arity oper" "\<forall>k \<in> set ins. k < length (graph_nodes g)" "length (graph_nodes g) < u32_range"
  shows "emit wrap oper ins out g = Inr (length (graph_nodes g),
    g\<lparr>graph_nodes := graph_nodes g @ [\<lparr>node_operation = oper, node_inputs = ins, node_output = out\<rparr>]\<rparr>)"
proof -
  have "add_node g oper ins out =
      Inr (g\<lparr>graph_nodes := graph_nodes g @ [\<lparr>node_operation = oper, node_inputs = ins, node_output = out\<rparr>]\<rparr>, length (graph_nodes g))"
    using assms by (simp add: add_node_Inr)
  then show ?thesis by (simp add: emit_def)
qed

lemma set_outputs_run: "\<forall>k \<in> set outs. k < length (graph_nodes g) \<Longrightarrow> set_outputs g outs = Inr (g\<lparr>graph_outputs := outs\<rparr>)"
  by simp

lemmas run_simps = gb_bind_def gb_try_def gb_return_def emit_run set_outputs_run copied_def graph_new_def node_type_def mapped_def get_def type_of_def

lemmas forward_simps = jvp_body_def tangent_input_step_def forward_step_def forward_rule_def emit_optional_def emit_some_def optional_product_def
  add_optional_def

lemmas reverse_simps = seeded_reverse_def reverse_accumulate_def reverse_step_def reverse_rule_def accumulate_def gradient_step_def

definition square_node :: "operation \<Rightarrow> node_id list \<Rightarrow> node" where
  "square_node oper ins = \<lparr>node_operation = oper, node_inputs = ins, node_output = f32_type [1]\<rparr>"

definition square_graph :: graph where
  "square_graph = \<lparr>graph_nodes = [square_node (Input ''x'') [], square_node Mul [0, 0]], graph_outputs = [1]\<rparr>"

lemma square_graph_ok:
  "validate square_graph = Inr ()" "validate_semantics square_graph = Inr ()" "length (graph_nodes square_graph) \<le> u32_range"
proof -
  have wf: "wf_graph square_graph"
    by (simp add: square_graph_def square_node_def wf_graph_def nodes_ok_def node_ok_def all_less_Suc numeral_eq_Suc)
  then show "validate square_graph = Inr ()" by (simp add: validate_iff_wf)
  have "typed_graph square_graph"
    by (simp add: square_graph_def square_node_def typed_graph_def node_typed_def type_of_def)
  then show "validate_semantics square_graph = Inr ()" using validate_semantics_iff_typed [OF wf] by simp
qed (simp add: square_graph_def)

lemma square_differentiable: "differentiable square_graph 1 0"
  using square_graph_ok by (simp add: differentiable_def) (simp add: square_graph_def square_node_def type_of_def)

definition square_gradient :: graph where
  "square_gradient = \<lparr>graph_nodes = [square_node (Input ''x'') [], square_node Mul [0, 0], square_node OnesLike [1],
     square_node Mul [2, 0], square_node Mul [2, 0], square_node Add [3, 4]], graph_outputs = [5]\<rparr>"

lemma square_grad: "grad square_graph 1 [0] = Inr \<lparr>grad_result = square_gradient, grad_primal_output = 1, grad_gradients = [5]\<rparr>"
proof -
  have "validate_for_autodiff square_graph 1 [0] = Inr ()"
    using square_graph_ok by (simp add: validate_for_autodiff_Inr) (simp add: square_graph_def square_node_def type_of_def)
  note run = grad_run [OF this square_graph_ok(3)]
  show ?thesis
    unfolding run by (simp add: reverse_simps run_simps square_graph_def square_node_def square_gradient_def del: set_outputs_Inr)
qed

lemma square_gradient_ok:
  "validate square_gradient = Inr ()" "validate_semantics square_gradient = Inr ()" "length (graph_nodes square_gradient) \<le> u32_range"
  "differentiable square_gradient 5 0"
proof -
  have "derivative_ok square_graph square_gradient [5] [type_of (graph_nodes square_graph) 0]"
    using grad_decided [of square_graph 1 "[0]"] square_differentiable by (simp add: differentiable_def square_grad [unfolded One_nat_def])
  moreover show len: "length (graph_nodes square_gradient) \<le> u32_range" by (simp add: square_gradient_def)
  ultimately show "validate square_gradient = Inr ()" "validate_semantics square_gradient = Inr ()" "differentiable square_gradient 5 0"
    using gradient_differentiable(1) [OF _ len square_differentiable] by (simp_all add: derivative_ok_def)
qed

definition square_tangent :: graph where
  "square_tangent = \<lparr>graph_nodes = graph_nodes square_gradient @
     [square_node (Input (''__scirust_tangent_'' @ Graph_Autodiff.decimal 0)) [], square_node Mul [6, 0], square_node Mul [6, 0],
      square_node Add [7, 8], square_node Mul [6, 2], square_node Mul [6, 2], square_node Add [10, 11]],
     graph_outputs = [5, 12]\<rparr>"

definition square_jvp :: jvp_graph where
  "square_jvp = \<lparr>jvp_result = square_tangent, jvp_primal_output = 5, jvp_tangent_output = 12, jvp_tangent_inputs = [6]\<rparr>"

lemma square_jvp_eq: "jvp square_gradient 5 [0] = Inr square_jvp"
proof -
  have "validate_for_autodiff square_gradient 5 [0] = Inr ()"
    using square_gradient_ok(4) by (simp add: differentiable_def validate_for_autodiff_Inr)
  note run = jvp_run [OF this square_gradient_ok(3)]
  show ?thesis
    unfolding run by (simp add: forward_simps Let_def run_simps square_gradient_def square_node_def square_tangent_def square_jvp_def del: set_outputs_Inr)
qed

definition relu_tangent :: graph where
  "relu_tangent = \<lparr>graph_nodes = graph_nodes example_graph @
     [mk_node (Input (''__scirust_tangent_'' @ Graph_Autodiff.decimal 0)) [], mk_node ReluGrad [0, 2]], graph_outputs = [1, 3]\<rparr>"

definition relu_jvp :: jvp_graph where
  "relu_jvp = \<lparr>jvp_result = relu_tangent, jvp_primal_output = 1, jvp_tangent_output = 3, jvp_tangent_inputs = [2]\<rparr>"

lemma relu_differentiable: "differentiable example_graph 1 0"
  using example_graph_ok by (simp add: differentiable_def)

lemma relu_jvp_eq: "jvp example_graph 1 [0] = Inr relu_jvp"
proof -
  have "validate_for_autodiff example_graph 1 [0] = Inr ()"
    using relu_differentiable by (simp add: differentiable_def validate_for_autodiff_Inr)
  note run = jvp_run [OF this example_graph_ok(3)]
  show ?thesis
    unfolding run by (simp add: forward_simps Let_def run_simps example_graph_def mk_node_def relu_tangent_def relu_jvp_def del: set_outputs_Inr)
qed

section \<open>Preparing the derivative graphs\<close>

lemma derivative_prepared:
  assumes "differentiable g out wrt" and "jvp g out [wrt] = Inr r"
    and "\<forall>n \<in> set (graph_nodes (jvp_result r)). ty_dtype (node_output n) = F32 \<and> (\<forall>c. node_operation n \<noteq> Constant c)"
  shows "oracle_prepare (jvp_result r) [] = Inr \<lparr>ses_graph = jvp_result r, ses_constants = []\<rparr>"
proof -
  from jvp_decided [of g out "[wrt]"] assms(1,2) have g: "validate (jvp_result r) = Inr ()" "validate_semantics (jvp_result r) = Inr ()"
    "length (graph_nodes (jvp_result r)) \<le> u32_range" by (simp_all add: differentiable_def derivative_ok_def)
  have wf: "wf_graph (jvp_result r)" using g(1) by (simp add: validate_iff_wf)
  moreover have "typed_graph (jvp_result r)" using g(2) validate_semantics_iff_typed [OF wf] by simp
  moreover have "node_problem [] i (graph_nodes (jvp_result r) ! i) = None" if "i < length (graph_nodes (jvp_result r))" for i
    using assms(3) that by (cases "node_operation (graph_nodes (jvp_result r) ! i)") (auto simp: node_problem_def)
  ultimately show ?thesis using oracle_prepare_Inr [OF g(3)] by blast
qed

lemma small_fits: "shape_fits [1]" "shape_fits [1, 1]" "shape_fits [2, 2, 2, 2]"
  by (simp_all add: shape_fits_def checked_num_elements_def checked_mul_def)

lemma square_prepared:
  "oracle_prepare square_tangent [] = Inr \<lparr>ses_graph = square_tangent, ses_constants = []\<rparr>" "nodes_fit square_tangent"
proof -
  from derivative_prepared [OF square_gradient_ok(4) square_jvp_eq]
  show "oracle_prepare square_tangent [] = Inr \<lparr>ses_graph = square_tangent, ses_constants = []\<rparr>"
    by (simp add: square_jvp_def) (simp add: square_tangent_def square_gradient_def square_node_def)
  show "nodes_fit square_tangent"
    using small_fits(1) by (simp add: nodes_fit_def square_tangent_def square_gradient_def square_node_def)
qed

lemma relu_prepared:
  "oracle_prepare relu_tangent [] = Inr \<lparr>ses_graph = relu_tangent, ses_constants = []\<rparr>" "nodes_fit relu_tangent"
proof -
  from derivative_prepared [OF relu_differentiable relu_jvp_eq]
  show "oracle_prepare relu_tangent [] = Inr \<lparr>ses_graph = relu_tangent, ses_constants = []\<rparr>"
    by (simp add: relu_jvp_def) (simp add: relu_tangent_def example_graph_def mk_node_def matrix_type_def tensor_type_new_def)
  show "nodes_fit relu_tangent"
    using square_fits by (simp add: nodes_fit_def relu_tangent_def example_graph_def mk_node_def matrix_type_def tensor_type_new_def)
qed

section \<open>Witnesses\<close>

lemma relu_side:
  "jacobian_fits example_graph 1 0" "extent example_graph 0 = 4" "extent example_graph 1 = 4"
  "ty_shape (jacobian_type example_graph 1 0) = [2, 2, 2, 2]"
  using square_fits small_fits(3)
  by (simp_all add: jacobian_fits_def jacobian_type_def jacobian_shape_def extent_def type_of_def example_graph_def mk_node_def matrix_type_def tensor_type_new_def)

definition relu_binding :: differential_binding where
  "relu_binding = \<lparr>db_node = 0, db_value = square_tensor\<rparr>"

lemma first_unbound:
  assumes "input_problem (bound bs) 0 (graph_nodes g ! 0) = Some p" and "0 < length (graph_nodes g)" and "seed \<noteq> 0"
  shows "unbound_input g bs seed e \<longleftrightarrow> e = p"
proof
  assume "unbound_input g bs seed e"
  then obtain k where k: "input_problem (bound bs) k (graph_nodes g ! k) = Some e"
    "\<forall>i < k. i \<noteq> seed \<longrightarrow> input_problem (bound bs) i (graph_nodes g ! i) = None" by (auto simp: unbound_input_def)
  then have "k = 0" using assms(1,3) by (cases k) auto
  with k(1) assms(1) show "e = p" by simp
qed (use assms in \<open>auto simp: unbound_input_def\<close>)

lemma all_bound:
  "\<forall>k < length (graph_nodes g). k \<noteq> seed \<longrightarrow> input_problem (bound bs) k (graph_nodes g ! k) = None \<Longrightarrow> \<not> unbound_input g bs seed e"
  by (auto simp: unbound_input_def)

lemma relu_run_accepted: "\<not> run_refused relu_tangent [relu_binding] 2 e"
proof -
  have "\<not> unbound_input relu_tangent [relu_binding] 2 e"
    by (rule all_bound) (simp add: relu_tangent_def example_graph_def mk_node_def matrix_type_def tensor_type_new_def all_less_Suc
        input_problem_def lookup_def bound_def relu_binding_def value_problem_def square_tensor_def)
  then show ?thesis by (simp add: run_refused_def bindings_ok_def relu_binding_def square_tensor_def)
qed

lemma relu_run_refused: "run_refused relu_tangent [] 2 e \<longleftrightarrow> e = MissingInput 0"
proof -
  have "unbound_input relu_tangent [] 2 e \<longleftrightarrow> e = MissingInput 0"
    by (rule first_unbound) (simp_all add: relu_tangent_def example_graph_def mk_node_def input_problem_def lookup_def bound_def)
  then show ?thesis by (simp add: run_refused_def bindings_ok_def)
qed

theorem jacobian_decides_witness:
  "jacobian_reference sample_library example_graph 1 0 [] [] = fail (DiffRuntime (MissingInput 0)) \<and>
   (\<exists>J. jacobian_reference sample_library example_graph 1 0 [relu_binding] [] = Inr J \<and> tn_shape J = [2, 2, 2, 2])"
proof
  note run = jacobian_decides [OF relu_differentiable relu_side(1) sample_built_inputs(1), where F = sample_library]
  have built: "all_built (bound [])" "all_built (bound [relu_binding])"
    using sample_built_inputs by (simp_all add: bound_def relu_binding_def)
  from run [OF built(1)] show "jacobian_reference sample_library example_graph 1 0 [] [] = fail (DiffRuntime (MissingInput 0))"
    unfolding relu_side relu_jvp_eq by (simp add: relu_jvp_def relu_prepared dense_result_def relu_run_refused)
  from run [OF built(2)] show "\<exists>J. jacobian_reference sample_library example_graph 1 0 [relu_binding] [] = Inr J \<and> tn_shape J = [2, 2, 2, 2]"
    unfolding relu_side relu_jvp_eq by (auto simp: relu_jvp_def relu_prepared dense_result_def relu_run_accepted holds_def relu_side(4) [unfolded One_nat_def])
qed

lemma square_side:
  "jacobian_fits square_graph 1 0" "jacobian_fits square_graph 0 0" "extent square_graph 0 = 1" "extent square_graph 1 = 1"
  "ty_shape (jacobian_type square_graph 0 0) = [1, 1]"
  using small_fits
  by (simp_all add: jacobian_fits_def jacobian_type_def jacobian_shape_def extent_def type_of_def square_graph_def square_node_def)

lemma square_run_accepted:
  assumes "holds t (f32_type [1]) x"
  shows "\<not> run_refused square_tangent [\<lparr>db_node = 0, db_value = t\<rparr>] 6 e"
proof -
  have t: "tn_dtype t = F32" "tn_shape t = [1]" "tn_device t = HostDevice" using assms by (simp_all add: holds_def)
  have "\<not> unbound_input square_tangent [\<lparr>db_node = 0, db_value = t\<rparr>] 6 e"
    by (rule all_bound) (simp add: square_tangent_def square_gradient_def square_node_def all_less_Suc input_problem_def lookup_def
        bound_def value_problem_def t)
  then show ?thesis by (simp add: run_refused_def bindings_ok_def t)
qed

text \<open>The one entry of the Hessian of a square does not depend on the operand.\<close>

lemma square_entry: "forward_entry F square_jvp [] bs 1 0 0 = fadd F (fmul F one_element one_element) (fmul F one_element one_element)"
proof -
  let ?v = "node_value (flat_operation F) (seeded_externals square_tangent [] bs 6 [one_element]) (graph_nodes square_tangent)"
  note at = square_tangent_def square_gradient_def square_node_def computed_def flat_operation_def Let_def
  have seed: "?v 6 = [one_element]" by (subst node_value.simps) (simp add: at seeded_externals_def)
  have ones: "?v 2 = [one_element]" by (subst node_value.simps) (simp add: at)
  have "?v 10 = [fmul F one_element one_element]" "?v 11 = [fmul F one_element one_element]"
    by (subst node_value.simps, simp add: at, use seed ones in \<open>simp add: at\<close>)+
  then have "?v 12 = [fadd F (fmul F one_element one_element) (fmul F one_element one_element)]"
    by (subst node_value.simps) (simp add: at)
  then show ?thesis by (simp add: forward_entry_def seeded_value_def square_jvp_def)
qed

theorem hessian_decides_witness:
  "hessian_reference sample_library example_graph 1 0 [] [] = fail (ScalarOutputRequired 1 4) \<and>
   (\<exists>t J. tensor_from_f32 [0x40400000] [1] = Inr t \<and>
      hessian_reference sample_library square_graph 1 0 [\<lparr>db_node = 0, db_value = t\<rparr>] [] = Inr J \<and> tn_shape J = [1, 1] \<and>
      to_f32_vec J = Inr [fadd sample_library (fmul sample_library one_element one_element) (fmul sample_library one_element one_element)])"
proof
  have fits: "jacobian_fits example_graph 0 0" using relu_side(1)
    by (simp add: jacobian_fits_def jacobian_type_def jacobian_shape_def type_of_def example_graph_def mk_node_def)
  have "all_built (bound [])" using sample_built_inputs(1) by (simp add: bound_def)
  from hessian_decides [OF relu_differentiable relu_side(1) fits sample_built_inputs(1) this, where F = sample_library]
  show "hessian_reference sample_library example_graph 1 0 [] [] = fail (ScalarOutputRequired 1 4)" unfolding relu_side by simp
  obtain t where t: "tensor_from_f32 [0x40400000] [1] = Inr t" "holds t (f32_type [1]) [0x40400000]"
    using from_f32_holds [OF small_fits(1), of "[0x40400000]"] by auto
  have "all_built (bound [\<lparr>db_node = 0, db_value = t\<rparr>])"
    using t(1) unfolding tensor_from_f32_def by (simp add: bound_def all_built_def) (rule built_tensor.from_bytes)
  from hessian_decides [OF square_differentiable square_side(1,2) sample_built_inputs(1) this, where F = sample_library]
  have "dense_result (hessian_reference sample_library square_graph 1 0 [\<lparr>db_node = 0, db_value = t\<rparr>] [])
      (run_refused square_tangent [\<lparr>db_node = 0, db_value = t\<rparr>] 6) 1 (jacobian_type square_graph 0 0)
      (matrix_of 1 1 (forward_entry sample_library square_jvp [] [\<lparr>db_node = 0, db_value = t\<rparr>] 1))"
    unfolding square_side square_grad by (simp add: square_jvp_eq square_prepared square_jvp_def)
  with square_run_accepted [OF t(2)] obtain J where
    J: "hessian_reference sample_library square_graph 1 0 [\<lparr>db_node = 0, db_value = t\<rparr>] [] = Inr J"
      "holds J (jacobian_type square_graph 0 0) (matrix_of 1 1 (forward_entry sample_library square_jvp [] [\<lparr>db_node = 0, db_value = t\<rparr>] 1))"
    by (auto simp: dense_result_def)
  then have "tn_shape J = [1, 1]" "to_f32_vec J = Inr [fadd sample_library (fmul sample_library one_element one_element) (fmul sample_library one_element one_element)]"
    using square_side(5) square_entry [of sample_library] by (simp_all add: holds_def matrix_of_def)
  with t(1) J(1) show "\<exists>t J. tensor_from_f32 [0x40400000] [1] = Inr t \<and>
      hessian_reference sample_library square_graph 1 0 [\<lparr>db_node = 0, db_value = t\<rparr>] [] = Inr J \<and> tn_shape J = [1, 1] \<and>
      to_f32_vec J = Inr [fadd sample_library (fmul sample_library one_element one_element) (fmul sample_library one_element one_element)]" by blast
qed

end
