(* ===== verification/Workspace.thy ===== *)
theory Workspace
  imports Compute_Core
begin

text \<open>
  Caller-owned reusable kernel workspaces (\<open>scirust-compute/src/workspace.rs\<close>): storage
  requirements, their sequential composition with alignment padding, and the validation of a
  buffer before a kernel touches it. The base address of the buffer is an argument of the
  validation, as \<open>bytes.as_ptr() as usize\<close> is in the source.
\<close>

record workspace_spec =
  ws_size :: usize
  ws_align :: usize

text \<open>\<open>WorkspaceSpec::new\<close> asserts its precondition: a failed assertion is a panic.\<close>

definition workspace_spec_new :: "usize \<Rightarrow> usize \<Rightarrow> ('e, workspace_spec) outcome" where
  "workspace_spec_new bytes align =
     (if align = 0 then Inl Panic
      else if \<not> is_power_of_two align then Inl Panic
      else Inr \<lparr>ws_size = bytes, ws_align = align\<rparr>)"

definition workspace_empty :: workspace_spec where
  "workspace_empty = \<lparr>ws_size = 0, ws_align = 1\<rparr>"

definition workspace_is_empty :: "workspace_spec \<Rightarrow> bool" where
  "workspace_is_empty s \<longleftrightarrow> ws_size s = 0"

definition align_up :: "usize \<Rightarrow> usize \<Rightarrow> usize option" where
  "align_up value alignment =
     (let mask = alignment - 1 in
      case checked_add value mask of
        Some padded \<Rightarrow> Some (unat ((of_nat padded :: 64 word) AND NOT (of_nat mask)))
      | None \<Rightarrow> None)"

definition workspace_then :: "workspace_spec \<Rightarrow> workspace_spec \<Rightarrow> workspace_spec option" where
  "workspace_then self next =
     (let align = (if ws_align self > ws_align next then ws_align self else ws_align next) in
      case align_up (ws_size self) (ws_align next) of
        None \<Rightarrow> None
      | Some second_offset \<Rightarrow>
          (case checked_add second_offset (ws_size next) of
             None \<Rightarrow> None
           | Some bytes \<Rightarrow> Some \<lparr>ws_size = bytes, ws_align = align\<rparr>))"

datatype workspace_error =
    TooSmall usize usize
  | Misaligned usize usize

text \<open>
  \<open>KernelWorkspace::new\<close> on a slice of \<open>len\<close> bytes at address \<open>base\<close>: the usable prefix is
  returned as its address and length.
\<close>

definition kernel_workspace_new ::
  "usize \<Rightarrow> usize \<Rightarrow> workspace_spec \<Rightarrow> (workspace_error, usize \<times> usize) outcome" where
  "kernel_workspace_new base len spec =
     (if len < ws_size spec then fail (TooSmall (ws_size spec) len)
      else
        (let remainder = unat ((of_nat base :: 64 word) AND of_nat (ws_align spec - 1)) in
         if ws_size spec \<noteq> 0 \<and> remainder \<noteq> 0
         then fail (Misaligned (ws_align spec) remainder)
         else Inr (base, ws_size spec)))"

text \<open>The specifications that exist: built by \<open>new\<close>, \<open>empty\<close> or \<open>then\<close>.\<close>

inductive built_spec :: "workspace_spec \<Rightarrow> bool" where
  new: "bytes \<le> usize_max \<Longrightarrow> align \<le> usize_max \<Longrightarrow>
    (workspace_spec_new bytes align :: (unit, _) outcome) = Inr s \<Longrightarrow> built_spec s"
| empty: "built_spec workspace_empty"
| then': "built_spec s \<Longrightarrow> built_spec t \<Longrightarrow> workspace_then s t = Some u \<Longrightarrow> built_spec u"

definition spec_ok :: "workspace_spec \<Rightarrow> bool" where
  "spec_ok s \<longleftrightarrow> is_power_of_two (ws_align s) \<and> ws_size s \<le> usize_max"

section \<open>Masks of powers of two\<close>

lemma unat_of_nat_64: "n \<le> usize_max \<Longrightarrow> unat (of_nat n :: 64 word) = n"
  by (simp add: unat_of_nat)

lemma and_pow2_minus_1:
  assumes "n \<le> usize_max" and "k < 64"
  shows "unat ((of_nat n :: 64 word) AND of_nat (2 ^ k - 1)) = n mod 2 ^ k"
proof -
  have "(of_nat (2 ^ k - 1) :: 64 word) = mask k"
    by (simp add: mask_eq_exp_minus_1 of_nat_diff)
  then have "(of_nat n :: 64 word) AND of_nat (2 ^ k - 1) = take_bit k (of_nat n)"
    by (simp add: take_bit_eq_mask)
  also have "unat \<dots> = take_bit k n"
    using assms(1) by (simp add: unsigned_take_bit_eq unat_of_nat_64)
  finally show ?thesis by (simp add: take_bit_eq_mod)
qed

lemma and_not_mask_word:
  fixes w :: "64 word"
  shows "w AND NOT (mask k) = w - take_bit k w"
proof -
  have "w AND mask k OR w AND NOT (mask k) = w"
    by (rule bit_word_eqI) (auto simp: bit_simps)
  moreover have "(w AND mask k) AND (w AND NOT (mask k)) = 0"
    by (rule bit_word_eqI) (auto simp: bit_simps)
  ultimately have "take_bit k w + (w AND NOT (mask k)) = w"
    by (metis disjunctive_add_eq_or take_bit_eq_mask)
  then show ?thesis by (simp add: algebra_simps)
qed

lemma and_not_pow2_minus_1:
  assumes "n \<le> usize_max" and "k < 64"
  shows "unat ((of_nat n :: 64 word) AND NOT (of_nat (2 ^ k - 1))) = n - n mod 2 ^ k"
proof -
  let ?w = "of_nat n :: 64 word"
  have "(of_nat (2 ^ k - 1) :: 64 word) = mask k"
    by (simp add: mask_eq_exp_minus_1 of_nat_diff)
  then have eq: "?w AND NOT (of_nat (2 ^ k - 1)) = ?w - take_bit k ?w"
    by (simp add: and_not_mask_word)
  have "unat (take_bit k ?w) = take_bit k n"
    using assms(1) by (simp add: unsigned_take_bit_eq unat_of_nat_64)
  then have t: "unat (take_bit k ?w) = n mod 2 ^ k"
    by (simp add: take_bit_eq_mod)
  then have "take_bit k ?w \<le> ?w"
    using assms(1) by (simp add: word_le_nat_alt unat_of_nat_64)
  then have "unat (?w - take_bit k ?w) = unat ?w - unat (take_bit k ?w)"
    by (simp add: unat_sub)
  with eq t show ?thesis using assms(1) by (simp add: unat_of_nat_64)
qed

lemma align_up_pow2:
  assumes "align_up v a = Some r" and "is_power_of_two a"
  shows "v \<le> r \<and> r < v + a \<and> a dvd r \<and> r \<le> usize_max"
proof -
  from assms(2) obtain k where k: "k < 64" "a = 2 ^ k"
    by (auto simp: is_power_of_two_iff)
  let ?s = "v + (a - 1)"
  from assms(1) have le: "?s \<le> usize_max"
    and r: "r = unat ((of_nat ?s :: 64 word) AND NOT (of_nat (a - 1)))"
    by (auto simp: align_up_def Let_def split: option.splits)
  have req: "r = ?s - ?s mod a"
    using r k and_not_pow2_minus_1 [OF le k(1)] by simp
  have "0 < a" using k by simp
  then have "?s mod a < a" by simp
  then have "?s mod a \<le> a - 1" using \<open>0 < a\<close> by linarith
  then have "v \<le> r" "r < v + a" "r \<le> usize_max"
    using req le \<open>0 < a\<close> by linarith+
  moreover have "a dvd r" unfolding req by (rule dvd_minus_mod)
  ultimately show ?thesis by blast
qed

lemma pow2_dvd_le:
  "is_power_of_two a \<Longrightarrow> is_power_of_two b \<Longrightarrow> a \<le> b \<Longrightarrow> a dvd b"
  by (auto simp: is_power_of_two_iff le_imp_power_dvd)

lemma built_spec_ok: "built_spec s \<Longrightarrow> spec_ok s"
proof (induction rule: built_spec.induct)
  case empty
  show ?case
    by (simp add: spec_ok_def workspace_empty_def is_power_of_two_iff) (rule exI [of _ 0], simp)
qed (auto simp: spec_ok_def workspace_spec_new_def workspace_then_def Let_def
       split: if_splits option.splits)

text \<open>
  C40: the composition of two workspace requirements reserves two disjoint regions. The first
  starts at the base, the second at an offset that is at least the size of the first; both
  fit in the combined size, and at every base aligned for the combination each region is
  aligned for its own requirement.
\<close>

theorem workspace_then_layout:
  assumes "built_spec s" and "built_spec t" and "workspace_then s t = Some u"
  shows "\<exists>off. align_up (ws_size s) (ws_align t) = Some off \<and>
           ws_size s \<le> off \<and> off < ws_size s + ws_align t \<and>
           off + ws_size t = ws_size u \<and> ws_size u \<le> usize_max \<and>
           (\<forall>base. ws_align u dvd base \<longrightarrow> ws_align s dvd base \<and> ws_align t dvd base + off)"
proof -
  from assms(3) obtain off where off: "align_up (ws_size s) (ws_align t) = Some off"
    and sz: "ws_size u = off + ws_size t" "ws_size u \<le> usize_max"
    and align: "ws_align u = max (ws_align s) (ws_align t)"
    by (auto simp: workspace_then_def Let_def max_def split: option.splits if_splits)
  have p: "is_power_of_two (ws_align s)" "is_power_of_two (ws_align t)"
    using assms(1,2) built_spec_ok by (auto simp: spec_ok_def)
  have d: "ws_align s dvd ws_align u" "ws_align t dvd ws_align u"
    using p align pow2_dvd_le by (auto simp: max_def)
  have "ws_align s dvd base \<and> ws_align t dvd base + off" if "ws_align u dvd base" for base
    using that d align_up_pow2 [OF off p(2)] by (meson dvd_add dvd_trans)
  with off sz align_up_pow2 [OF off p(2)] show ?thesis by auto
qed

theorem workspace_then_layout_witness:
  "\<exists>off. align_up 65 64 = Some off \<and> 65 \<le> off \<and> off < 65 + 64 \<and> off + 64 = 192 \<and>
     (192::nat) \<le> usize_max \<and> (\<forall>base. (64::nat) dvd base \<longrightarrow> 1 dvd base \<and> 64 dvd base + off)"
proof -
  have p: "is_power_of_two (Suc 0)" "is_power_of_two 64"
    by (code_simp, code_simp)
  have s: "built_spec \<lparr>ws_size = 65, ws_align = 1\<rparr>"
    by (rule built_spec.new [of 65 1]) (simp_all add: workspace_spec_new_def p)
  have t: "built_spec \<lparr>ws_size = 64, ws_align = 64\<rparr>"
    by (rule built_spec.new [of 64 64]) (simp_all add: workspace_spec_new_def p)
  have u: "workspace_then \<lparr>ws_size = 65, ws_align = 1\<rparr> \<lparr>ws_size = 64, ws_align = 64\<rparr>
      = Some \<lparr>ws_size = 192, ws_align = 64\<rparr>"
    by (simp add: workspace_then_def align_up_def checked_add_def)
  show ?thesis using workspace_then_layout [OF s t u] by simp
qed

text \<open>
  \<open>KernelWorkspace::new\<close> accepts a buffer exactly when it is large enough and, for a
  requirement that needs storage, its base address is a multiple of the alignment; the
  usable workspace has exactly the requested size.
\<close>

theorem kernel_workspace_accepts_iff:
  assumes "built_spec s" and "base \<le> usize_max"
  shows "kernel_workspace_new base len s = Inr w \<longleftrightarrow>
           ws_size s \<le> len \<and> (ws_size s = 0 \<or> ws_align s dvd base) \<and> w = (base, ws_size s)"
proof -
  from built_spec_ok [OF assms(1)] obtain k where k: "k < 64" "ws_align s = 2 ^ k"
    by (auto simp: spec_ok_def is_power_of_two_iff)
  have "unat ((of_nat base :: 64 word) AND of_nat (ws_align s - 1)) = base mod ws_align s"
    using and_pow2_minus_1 [OF assms(2) k(1)] k(2) by simp
  then show ?thesis
    by (auto simp: kernel_workspace_new_def Let_def dvd_eq_mod_eq_0)
qed

theorem kernel_workspace_accepts_iff_witness:
  "kernel_workspace_new 4096 100 workspace_empty = Inr (4096, 0) \<longleftrightarrow>
     ws_size workspace_empty \<le> 100 \<and>
     (ws_size workspace_empty = 0 \<or> ws_align workspace_empty dvd 4096) \<and>
     (4096, 0) = (4096::nat, ws_size workspace_empty)"
  by (rule kernel_workspace_accepts_iff [OF built_spec.empty]) simp

end
