(* ===== verification/Graph_Vmap.thy ===== *)
theory Graph_Vmap
  imports Graph_Builder
begin

text \<open>
  The vectorizing transform \<open>vmap\<close> of \<open>scirust-tensor-ir/src/vmap.rs\<close>: one leading batch axis
  is added to the mapped inputs and to everything that depends on them; unmapped operands of
  a mapped operation are lifted by a broadcast.
\<close>

datatype vmap_error =
    VmapInvalidGraph graph_error
  | VmapInvalidSemantics semantic_error
  | InvalidMappedInput node_id
  | MissingMappedNode node_id
  | VmapUnsupportedOperation node_id operation

record vmap_graph =
  vm_graph :: graph
  vm_mapping :: "node_id list"
  vm_mapped :: "bool list"
  vm_outputs :: "node_id list"
  vm_batch_size :: usize

type_synonym 'a vmap_builder = "(vmap_error, 'a) builder"

abbreviation vm_emit :: "operation \<Rightarrow> node_id list \<Rightarrow> tensor_type \<Rightarrow> node_id vmap_builder" where
  "vm_emit \<equiv> emit VmapInvalidGraph"

definition batched_shape :: "shape \<Rightarrow> usize \<Rightarrow> shape" where
  "batched_shape sh batch_size = batch_size # sh"

definition batched_type :: "tensor_type \<Rightarrow> usize \<Rightarrow> tensor_type" where
  "batched_type ty batch_size = tensor_type_new (ty_dtype ty) (batched_shape (ty_shape ty) batch_size)"

definition request_step ::
  "graph \<Rightarrow> bool list \<Rightarrow> node_id \<Rightarrow> (vmap_error, bool list) outcome" where
  "request_step source requested input =
     (case get (graph_nodes source) input of
        None \<Rightarrow> fail (InvalidMappedInput input)
      | Some n \<Rightarrow>
          (case node_operation n of
             Input _ \<Rightarrow> idx_set requested input True
           | _ \<Rightarrow> fail (InvalidMappedInput input)))"

definition vm_lookup :: "'a list \<Rightarrow> node_id \<Rightarrow> (vmap_error, 'a) outcome" where
  "vm_lookup table input = ok_or (MissingMappedNode input) (get table input)"

definition operand_step ::
  "graph \<Rightarrow> node \<Rightarrow> bool list \<Rightarrow> usize \<Rightarrow> node_id list \<Rightarrow> usize \<times> node_id \<Rightarrow> node_id list vmap_builder"
where
  "operand_step source n input_mapped batch_size operands p = (case p of (position, v) \<Rightarrow>
     gb_try (idx input_mapped position) (\<lambda>m.
     if m then gb_return (operands @ [v])
     else
       gb_try (idx (node_inputs n) position) (\<lambda>source_input.
       gb_try (ok_or (MissingMappedNode source_input)
                 (map_option node_output (get (graph_nodes source) source_input))) (\<lambda>input_type.
       let lifted = batched_type input_type batch_size in
       gb_bind (vm_emit (BroadcastTo (ty_shape lifted)) [v] lifted) (\<lambda>broadcast.
       gb_return (operands @ [broadcast]))))))"

definition batch_operands ::
  "graph \<Rightarrow> node \<Rightarrow> node_id list \<Rightarrow> bool list \<Rightarrow> usize \<Rightarrow> node_id list vmap_builder" where
  "batch_operands source n input_ids input_mapped batch_size =
     gb_fold (operand_step source n input_mapped batch_size) [] (enumerate 0 input_ids)"

text \<open>The three shapes of a batching rule.\<close>

definition batch_n_ary ::
  "graph \<Rightarrow> node \<Rightarrow> node_id list \<Rightarrow> bool list \<Rightarrow> usize \<Rightarrow> operation \<Rightarrow> (node_id \<times> bool) vmap_builder"
where
  "batch_n_ary source n input_ids input_mapped batch_size batched_operation =
     (let is_mapped = list_ex (\<lambda>b. b) input_mapped in
      if \<not> is_mapped
      then gb_bind (vm_emit (node_operation n) input_ids (node_output n)) (\<lambda>i. gb_return (i, False))
      else
        gb_bind (batch_operands source n input_ids input_mapped batch_size) (\<lambda>operands.
        gb_bind (vm_emit batched_operation operands (batched_type (node_output n) batch_size)) (\<lambda>i.
        gb_return (i, True))))"

definition batch_unary ::
  "node \<Rightarrow> node_id list \<Rightarrow> bool list \<Rightarrow> usize \<Rightarrow> operation \<Rightarrow> (node_id \<times> bool) vmap_builder" where
  "batch_unary n input_ids input_mapped batch_size batched_operation =
     gb_try (idx input_mapped 0) (\<lambda>is_mapped.
     gb_bind (vm_emit (if is_mapped then batched_operation else node_operation n) input_ids
               (if is_mapped then batched_type (node_output n) batch_size else node_output n)) (\<lambda>i.
     gb_return (i, is_mapped)))"

definition batch_node ::
  "graph \<Rightarrow> usize \<Rightarrow> bool list \<Rightarrow> usize \<Rightarrow> node \<Rightarrow> node_id list \<Rightarrow> bool list
     \<Rightarrow> (node_id \<times> bool) vmap_builder" where
  "batch_node source batch_size requested index n input_ids input_mapped =
     (let n_ary = batch_n_ary source n input_ids input_mapped batch_size;
          unary = batch_unary n input_ids input_mapped batch_size in
      case node_operation n of
        Input name \<Rightarrow>
          gb_try (idx requested index) (\<lambda>is_mapped.
          gb_bind (vm_emit (Input name) []
                    (if is_mapped then batched_type (node_output n) batch_size else node_output n))
            (\<lambda>i. gb_return (i, is_mapped)))
      | Constant c \<Rightarrow>
          gb_bind (vm_emit (Constant c) [] (node_output n)) (\<lambda>i. gb_return (i, False))
      | Add \<Rightarrow> n_ary Add
      | Sub \<Rightarrow> n_ary Sub
      | Mul \<Rightarrow> n_ary Mul
      | Div \<Rightarrow> n_ary Div
      | ReluGrad \<Rightarrow> n_ary ReluGrad
      | Relu \<Rightarrow> unary Relu
      | Exp \<Rightarrow> unary Exp
      | Log \<Rightarrow> unary Log
      | Scale factor \<Rightarrow> unary (Scale factor)
      | ZerosLike \<Rightarrow> unary ZerosLike
      | OnesLike \<Rightarrow> unary OnesLike
      | StopGradient \<Rightarrow> unary StopGradient
      | Checkpoint \<Rightarrow> unary Checkpoint
      | Reshape sh \<Rightarrow> unary (Reshape (batched_shape sh batch_size))
      | Transpose permutation \<Rightarrow> unary (Transpose (0 # map Suc permutation))
      | BroadcastTo sh \<Rightarrow> unary (BroadcastTo (batched_shape sh batch_size))
      | ReduceSumTo sh \<Rightarrow> unary (ReduceSumTo (batched_shape sh batch_size))
      | MatMul \<Rightarrow> n_ary BatchMatMul
      | BatchMatMul \<Rightarrow> n_ary BatchMatMul)"

definition vmap_step ::
  "graph \<Rightarrow> usize \<Rightarrow> bool list \<Rightarrow> node_id list \<times> bool list \<Rightarrow> usize \<times> node
     \<Rightarrow> (node_id list \<times> bool list) vmap_builder" where
  "vmap_step source batch_size requested st p = (case (st, p) of ((mapping, mapped), (index, n)) \<Rightarrow>
     gb_try (traverse (vm_lookup mapping) (node_inputs n)) (\<lambda>input_ids.
     gb_try (traverse (vm_lookup mapped) (node_inputs n)) (\<lambda>input_mapped.
     gb_bind (batch_node source batch_size requested index n input_ids input_mapped)
       (\<lambda>(new_id, is_mapped). gb_return (mapping @ [new_id], mapped @ [is_mapped])))))"

definition vmap ::
  "graph \<Rightarrow> usize \<Rightarrow> node_id list \<Rightarrow> (vmap_error, vmap_graph) outcome" where
  "vmap source batch_size mapped_inputs =
     try_bind (map_err VmapInvalidGraph (validate source)) (\<lambda>_.
     try_bind (map_err VmapInvalidSemantics (validate_semantics source)) (\<lambda>_.
     try_bind (try_fold (request_step source) (replicate (length (graph_nodes source)) False)
                 mapped_inputs) (\<lambda>requested.
     try_bind (gb_fold (vmap_step source batch_size requested) ([], [])
                 (enumerate 0 (graph_nodes source)) graph_new) (\<lambda>((mapping, mapped), g).
     try_bind (traverse (vm_lookup mapping) (graph_outputs source)) (\<lambda>outputs.
     try_bind (map_err VmapInvalidGraph (set_outputs g outputs)) (\<lambda>g.
     try_bind (map_err VmapInvalidSemantics (validate_semantics g)) (\<lambda>_.
     Inr \<lparr>vm_graph = g, vm_mapping = mapping, vm_mapped = mapped, vm_outputs = outputs,
          vm_batch_size = batch_size\<rparr>)))))))"

section \<open>Which nodes are batched, and which batchings are well-typed\<close>

text \<open>A node is mapped when a requested input is among its ancestors (itself included).\<close>

definition depends_on :: "node list \<Rightarrow> node_id \<Rightarrow> node_id set" where
  "depends_on ns i = {k. (i, k) \<in> {(i, k). i < length ns \<and> k \<in> set (node_inputs (ns ! i))}\<^sup>*}"

text \<open>
  The side conditions under which the leading batch axis keeps a node well-typed: a broadcast
  or a reduction must not change the rank, and the batched element count must be representable.
\<close>

fun batchable :: "usize \<Rightarrow> operation \<Rightarrow> tensor_type list \<Rightarrow> bool" where
  "batchable b (BroadcastTo sh) tys \<longleftrightarrow> (\<forall>ty \<in> set tys. length (ty_shape ty) = length sh)"
| "batchable b (ReduceSumTo sh) tys \<longleftrightarrow> (\<forall>ty \<in> set tys. length (ty_shape ty) = length sh)"
| "batchable b (Reshape sh) tys \<longleftrightarrow>
     (\<forall>ty \<in> set (tensor_type_new F32 sh # tys). \<exists>n. checked_num_elements (b # ty_shape ty) = Inr n)"
| "batchable b _ _ \<longleftrightarrow> True"

fun batched_operation :: "usize \<Rightarrow> operation \<Rightarrow> operation" where
  "batched_operation b (Reshape sh) = Reshape (b # sh)"
| "batched_operation b (Transpose p) = Transpose (0 # map Suc p)"
| "batched_operation b (BroadcastTo sh) = BroadcastTo (b # sh)"
| "batched_operation b (ReduceSumTo sh) = ReduceSumTo (b # sh)"
| "batched_operation b MatMul = BatchMatMul"
| "batched_operation b oper = oper"

abbreviation bty :: "usize \<Rightarrow> tensor_type \<Rightarrow> tensor_type" where
  "bty b ty \<equiv> batched_type ty b"

lemma bty_sel [simp]: "ty_dtype (bty b ty) = ty_dtype ty" "ty_shape (bty b ty) = b # ty_shape ty"
  by (simp_all add: batched_type_def batched_shape_def tensor_type_new_def)

lemma bty_new: "bty b (tensor_type_new dt sh) = tensor_type_new dt (b # sh)"
  by (simp add: batched_type_def batched_shape_def tensor_type_new_def)

lemma broadcastable_Cons:
  "broadcastable s t \<Longrightarrow> length s = length t \<Longrightarrow> broadcastable (b # s) (b # t)"
  by (auto simp: broadcastable_def nth_Cons split: nat.split)

lemma broadcastable_lift: "broadcastable s (b # s)"
  by (simp add: broadcastable_def)

lemma is_permutation_Suc:
  assumes "is_permutation p"
  shows "is_permutation (0 # map Suc p)"
proof -
  have "Suc ` set p = {1..<Suc (length p)}"
    using assms by (auto simp: is_permutation_def image_Suc_lessThan atLeast1_lessThan_eq_remove0
        lessThan_Suc_eq_insert_0)
  then show ?thesis using assms by (auto simp: is_permutation_def distinct_map)
qed

lemma batched_typed:
  assumes typed: "op_typed oper tys out" and ok: "batchable b oper tys"
    and leaf: "expected_arity oper \<noteq> 0"
  shows "op_typed (batched_operation b oper) (map (bty b) tys) (bty b out)"
proof (cases oper)
  case (Transpose p)
  with typed obtain a where a: "tys = [a]" "ty_dtype a = ty_dtype out" "length p = length (ty_shape a)"
    "is_permutation p" "ty_shape out = map ((!) (ty_shape a)) p" by auto
  have "b # map ((!) (ty_shape a)) p = map ((!) (b # ty_shape a)) (0 # map Suc p)" by simp
  then show ?thesis using Transpose a is_permutation_Suc [OF a(4)] by simp
next
  case (Reshape sh)
  with typed obtain a n where a: "tys = [a]" "ty_dtype a = ty_dtype out" "ty_shape out = sh"
    "checked_num_elements (ty_shape a) = Inr n" "checked_num_elements sh = Inr n" by auto
  from Reshape ok a(1) obtain m m' where m: "checked_num_elements (b # ty_shape a) = Inr m"
    "checked_num_elements (b # sh) = Inr m'" by (auto simp: tensor_type_new_def)
  have "m = m'" using a(4,5) m by (auto dest!: checked_num_elements_Inr)
  with Reshape a m show ?thesis by auto
next
  case (BroadcastTo sh)
  with typed ok show ?thesis by (auto intro: broadcastable_Cons)
next
  case (ReduceSumTo sh)
  with typed ok show ?thesis by (auto intro!: broadcastable_Cons)
next
  case MatMul
  with typed show ?thesis by (fastforce simp: bty_new intro: exI [of _ "[b]"])
next
  case BatchMatMul
  with typed show ?thesis by (fastforce simp: bty_new intro: exI [of _ "b # bs" for bs])
qed (use typed leaf in auto)

section \<open>The graph that the transform builds\<close>

abbreviation vm_full :: "vmap_error failure" where
  "vm_full \<equiv> Err (VmapInvalidGraph TooManyNodes)"

abbreviation vty :: "usize \<Rightarrow> bool \<Rightarrow> tensor_type \<Rightarrow> tensor_type" where
  "vty b m ty \<equiv> (if m then bty b ty else ty)"

text \<open>
  Node \<open>j\<close> repeats the value \<open>v\<close> of type \<open>ty\<close> along the batch axis; \<open>j\<close> is the operand that a node
  receives for \<open>v\<close>: the value itself, or its repetition when the node is mapped and the value is not.
\<close>

definition lifts :: "graph \<Rightarrow> usize \<Rightarrow> node_id \<Rightarrow> tensor_type \<Rightarrow> node_id \<Rightarrow> bool" where
  "lifts g b v ty j \<longleftrightarrow> j < length (graph_nodes g) \<and> has_type g v ty \<and>
     graph_nodes g ! j = \<lparr>node_operation = BroadcastTo (b # ty_shape ty), node_inputs = [v], node_output = bty b ty\<rparr>"

definition batched_operand ::
  "graph \<Rightarrow> usize \<Rightarrow> bool \<Rightarrow> bool \<Rightarrow> node_id \<Rightarrow> tensor_type \<Rightarrow> node_id \<Rightarrow> bool" where
  "batched_operand g b m mapped_value v ty j \<longleftrightarrow> (if m \<and> \<not> mapped_value then lifts g b v ty j else j = v)"

text \<open>Node \<open>i\<close> applies \<open>oper\<close>, batched when \<open>m\<close> holds, to the operands made from \<open>ids\<close>.\<close>

definition batched_image ::
  "graph \<Rightarrow> usize \<Rightarrow> operation \<Rightarrow> tensor_type \<Rightarrow> bool list \<Rightarrow> node_id list \<Rightarrow> tensor_type list \<Rightarrow> bool \<Rightarrow> node_id
     \<Rightarrow> bool" where
  "batched_image g b oper out ms ids tys m i \<longleftrightarrow> i < length (graph_nodes g) \<and>
     node_operation (graph_nodes g ! i) = (if m then batched_operation b oper else oper) \<and>
     node_output (graph_nodes g ! i) = vty b m out \<and>
     length (node_inputs (graph_nodes g ! i)) = length ids \<and>
     (\<forall>p < length ids. batched_operand g b m (ms ! p) (ids ! p) (tys ! p) (node_inputs (graph_nodes g ! i) ! p))"

lemma lifts_extends: "lifts g b v ty j \<Longrightarrow> extends g g' \<Longrightarrow> lifts g' b v ty j"
  using extends_length [of g g'] has_type_extends [of g v ty g']
  by (simp add: lifts_def extends_nth)

lemma batched_operand_extends:
  "batched_operand g b m mv v ty j \<Longrightarrow> extends g g' \<Longrightarrow> batched_operand g' b m mv v ty j"
  using lifts_extends by (auto simp: batched_operand_def split: if_splits)

lemma batched_image_extends:
  "batched_image g b oper out ms ids tys m i \<Longrightarrow> extends g g' \<Longrightarrow> batched_image g' b oper out ms ids tys m i"
  using extends_length [of g g'] batched_operand_extends [of g b m _ _ _ _ g']
  unfolding batched_image_def by (simp add: extends_nth)

lemma lifts_has_type: "lifts g b v ty j \<Longrightarrow> has_type g j (bty b ty)"
  by (simp add: lifts_def has_type_def type_of_def)

lemma lifts_typed: "lifts g b v ty j \<Longrightarrow> node_typed (graph_nodes g) (graph_nodes g ! j)"
  by (auto simp: lifts_def node_typed_def has_type_def broadcastable_lift)

lemma batched_operand_type:
  assumes "batched_operand g b m mv v ty j" and "has_type g v (vty b mv ty)" and "mv \<Longrightarrow> m"
  shows "has_type g j (vty b m ty)"
  using assms lifts_has_type [of g b v ty j] by (auto simp: batched_operand_def split: if_splits)

lemma batched_image_typed:
  assumes "batched_image g b oper out ms ids tys m i" and "length tys = length ids"
    and "\<forall>p < length ids. has_type g (ids ! p) (vty b (ms ! p) (tys ! p))"
    and "\<And>p. p < length ids \<Longrightarrow> ms ! p \<Longrightarrow> m"
  shows "has_type g i (vty b m out)"
    and "node_typed (graph_nodes g) (graph_nodes g ! i) \<longleftrightarrow>
      op_typed (if m then batched_operation b oper else oper) (map (vty b m) tys) (vty b m out)"
proof -
  show "has_type g i (vty b m out)"
    using assms(1) by (simp add: batched_image_def has_type_def type_of_def)
  have "has_type g (node_inputs (graph_nodes g ! i) ! p) (vty b m (tys ! p))" if "p < length ids" for p
    using assms that batched_operand_type [of g b m "ms ! p" "ids ! p" "tys ! p"]
    by (simp add: batched_image_def)
  then have "map (type_of (graph_nodes g)) (node_inputs (graph_nodes g ! i)) = map (vty b m) tys"
    using assms(1,2) by (intro nth_equalityI) (auto simp: batched_image_def has_type_def)
  then show "node_typed (graph_nodes g) (graph_nodes g ! i) \<longleftrightarrow>
      op_typed (if m then batched_operation b oper else oper) (map (vty b m) tys) (vty b m out)"
    using assms(1) by (simp add: node_typed_def batched_image_def)
qed

lemma emit_node:
  assumes "\<forall>k \<in> set ins. k < length (graph_nodes g)" and "length ins = expected_arity oper"
    and "\<And>g'. extends g g' \<Longrightarrow> graph_nodes g' = graph_nodes g @
           [\<lparr>node_operation = oper, node_inputs = ins, node_output = out\<rparr>] \<Longrightarrow> Q (length (graph_nodes g), m) g'"
  shows "runs sound vm_full (1 + 0) g (gb_bind (vm_emit oper ins out) (\<lambda>i. gb_return (i, m))) Q"
proof (rule builds_bind)
  show "runs sound vm_full 1 g (vm_emit oper ins out) (\<lambda>i g'. i = length (graph_nodes g) \<and>
      graph_nodes g' = graph_nodes g @ [\<lparr>node_operation = oper, node_inputs = ins, node_output = out\<rparr>])"
    by (rule runs_emit) (use assms in auto)
qed (use assms(3) in \<open>auto intro!: builds_return\<close>)

lemma batch_operands_runs:
  assumes "length ms = length ids" and "length tys = length ids"
    and at: "\<forall>p < length ids. has_type g (ids ! p) (vty b (ms ! p) (tys ! p))"
    and inputs: "map (type_of (graph_nodes src)) (node_inputs n) = tys"
    and lt: "\<forall>k \<in> set (node_inputs n). k < length (graph_nodes src)"
  shows "runs sound vm_full (1 * length ids) g (batch_operands src n ids ms b)
    (\<lambda>ops g'. length ops = length ids \<and>
       (\<forall>p < length ids. batched_operand g' b True (ms ! p) (ids ! p) (tys ! p) (ops ! p)) \<and>
       (\<forall>j. length (graph_nodes g) \<le> j \<longrightarrow> j < length (graph_nodes g') \<longrightarrow> (\<exists>v ty. lifts g' b v ty j)))"
proof -
  have inp: "length (node_inputs n) = length ids"
    "p < length ids \<Longrightarrow> type_of (graph_nodes src) (node_inputs n ! p) = tys ! p \<and>
       node_inputs n ! p < length (graph_nodes src)" for p
    using inputs lt assms(2) by auto
  let ?P = "\<lambda>p ops g'. extends g g' \<and> length ops = p \<and>
      (\<forall>q < p. batched_operand g' b True (ms ! q) (ids ! q) (tys ! q) (ops ! q)) \<and>
      (\<forall>j. length (graph_nodes g) \<le> j \<longrightarrow> j < length (graph_nodes g') \<longrightarrow> (\<exists>v ty. lifts g' b v ty j))"
  have "runs sound vm_full (1 * length (enumerate 0 ids)) g
    (gb_fold (operand_step src n ms b) [] (enumerate 0 ids)) (?P (length (enumerate 0 ids)))"
  proof (rule builds_fold)
    fix p ops g' assume p: "p < length (enumerate 0 ids)" and g': "extends g g'" and P: "?P p ops g'"
    then have pi: "p < length ids" by simp
    show "runs sound vm_full 1 g' (operand_step src n ms b ops (enumerate 0 ids ! p)) (?P (Suc p))"
    proof (cases "ms ! p")
      case True
      with P pi assms(1) show ?thesis
        by (simp add: operand_step_def builds_return batched_operand_def nth_append less_Suc_eq)
    next
      case False
      let ?t = "tys ! p"
      let ?n = "\<lparr>node_operation = BroadcastTo (b # ty_shape ?t), node_inputs = [ids ! p], node_output = bty b ?t\<rparr>"
      have v: "has_type g' (ids ! p) ?t" using has_type_extends [OF at [rule_format, OF pi] g'] False by simp
      have step: "?P (Suc p) (ops @ [length (graph_nodes g')]) g''"
        if g'': "extends g' g''" "graph_nodes g'' = graph_nodes g' @ [?n]" for g''
      proof -
        have new: "lifts g'' b (ids ! p) ?t (length (graph_nodes g'))"
          using has_type_extends [OF v g''(1)] g''(2) by (simp add: lifts_def)
        have "\<exists>v ty. lifts g'' b v ty j"
          if "length (graph_nodes g) \<le> j" "j < length (graph_nodes g'')" for j
          using that new P lifts_extends [OF _ g''(1)] g''(2)
          by (cases "j = length (graph_nodes g')") (auto, metis less_SucE)
        moreover have "extends g g''" using P g''(1) by (blast intro: extends_trans)
        moreover have "batched_operand g'' b True (ms ! q) (ids ! q) (tys ! q) ((ops @ [length (graph_nodes g')]) ! q)"
          if "q < Suc p" for q
        proof (cases "q = p")
          case True
          with P new False show ?thesis by (simp add: nth_append batched_operand_def)
        next
          case neq: False
          with that P batched_operand_extends [OF _ g''(1)] show ?thesis by (simp add: nth_append)
        qed
        ultimately show ?thesis using P by simp
      qed
      have "runs sound vm_full (1 + 0) g'
        (gb_bind (vm_emit (BroadcastTo (b # ty_shape ?t)) [ids ! p] (bty b ?t)) (\<lambda>i. gb_return (ops @ [i])))
        (?P (Suc p))"
      proof (rule builds_bind)
        show "runs sound vm_full 1 g' (vm_emit (BroadcastTo (b # ty_shape ?t)) [ids ! p] (bty b ?t))
            (\<lambda>i g''. i = length (graph_nodes g') \<and> graph_nodes g'' = graph_nodes g' @ [?n])"
          by (rule runs_emit) (use v in \<open>auto simp: has_type_def\<close>)
      qed (use step in \<open>auto intro!: builds_return\<close>)
      then show ?thesis
        using False pi assms(1) inp(1) inp(2) [OF pi]
        by (simp add: operand_step_def get_def type_of_def Let_def)
    qed
  qed simp
  then show ?thesis
    unfolding batch_operands_def by (rule builds_weaken) auto
qed

text \<open>The contract of one node that has operands.\<close>

definition batched_node ::
  "graph \<Rightarrow> graph \<Rightarrow> usize \<Rightarrow> node \<Rightarrow> bool list \<Rightarrow> node_id list \<Rightarrow> tensor_type list \<Rightarrow> bool \<Rightarrow> node_id \<Rightarrow> bool" where
  "batched_node g g' b n ms ids tys m i \<longleftrightarrow> m = list_ex (\<lambda>m. m) ms \<and>
     batched_image g' b (node_operation n) (node_output n) ms ids tys m i \<and>
     (\<forall>j. length (graph_nodes g) \<le> j \<longrightarrow> j < length (graph_nodes g') \<longrightarrow> j = i \<or> (\<exists>v ty. lifts g' b v ty j))"

lemma batched_operation_arity [simp]: "expected_arity (batched_operation b oper) = expected_arity oper"
  by (cases oper) simp_all

lemma plain_image:
  assumes "\<forall>k \<in> set ids. k < length (graph_nodes g)" and "length ids = expected_arity (node_operation n)"
    and "m = list_ex (\<lambda>m. m) ms" and "\<And>p. m \<Longrightarrow> p < length ids \<Longrightarrow> ms ! p"
  shows "runs sound vm_full (1 + 0) g
    (gb_bind (vm_emit (if m then batched_operation b (node_operation n) else node_operation n) ids
                (vty b m (node_output n))) (\<lambda>i. gb_return (i, m)))
    (\<lambda>(i, m) g'. batched_node g g' b n ms ids tys m i)"
  by (rule emit_node)
    (use assms in \<open>auto simp: batched_node_def batched_image_def batched_operand_def\<close>)

lemma batch_node_runs:
  assumes len: "length ms = length ids" "length tys = length ids"
    and at: "\<forall>p < length ids. has_type g (ids ! p) (vty b (ms ! p) (tys ! p))"
    and inputs: "map (type_of (graph_nodes src)) (node_inputs n) = tys"
    and lt: "\<forall>k \<in> set (node_inputs n). k < length (graph_nodes src)"
    and arity: "length ids = expected_arity (node_operation n)" and leaf: "ids \<noteq> []"
  shows "runs sound vm_full 3 g (batch_node src b requested index n ids ms)
    (\<lambda>(i, m) g'. batched_node g g' b n ms ids tys m i)"
proof -
  let ?oper = "node_operation n" and ?out = "node_output n"
  have ids: "\<forall>k \<in> set ids. k < length (graph_nodes g)"
    using at by (auto simp: in_set_conv_nth has_type_def)
  have n_ary: "runs sound vm_full 3 g (batch_n_ary src n ids ms b (batched_operation b ?oper))
      (\<lambda>(i, m) g'. batched_node g g' b n ms ids tys m i)"
    if two: "length ids = 2"
  proof (cases "list_ex (\<lambda>m. m) ms")
    case False
    have "runs sound vm_full 3 g (gb_bind (vm_emit ?oper ids ?out) (\<lambda>i. gb_return (i, False)))
      (\<lambda>(i, m) g'. batched_node g g' b n ms ids tys m i)"
      using builds_weaken [OF plain_image [where m = False, OF ids arity]] False by simp
    with False show ?thesis by (simp add: batch_n_ary_def Let_def)
  next
    case True
    have "runs sound vm_full (1 * length ids + (1 + 0)) g
      (gb_bind (batch_operands src n ids ms b) (\<lambda>operands.
        gb_bind (vm_emit (batched_operation b ?oper) operands (bty b ?out)) (\<lambda>i. gb_return (i, True))))
      (\<lambda>(i, m) g'. batched_node g g' b n ms ids tys m i)"
    proof (rule builds_bind [OF batch_operands_runs [OF len at inputs lt]])
      fix ops g' assume g': "extends g g'"
        and ops: "length ops = length ids \<and>
          (\<forall>p < length ids. batched_operand g' b True (ms ! p) (ids ! p) (tys ! p) (ops ! p)) \<and>
          (\<forall>j. length (graph_nodes g) \<le> j \<longrightarrow> j < length (graph_nodes g') \<longrightarrow> (\<exists>v ty. lifts g' b v ty j))"
      have "\<forall>k \<in> set ops. k < length (graph_nodes g')"
      proof
        fix k assume "k \<in> set ops"
        then obtain p where p: "p < length ids" "k = ops ! p" using ops by (auto simp: in_set_conv_nth)
        with ops have "batched_operand g' b True (ms ! p) (ids ! p) (tys ! p) k" by simp
        from batched_operand_type [OF this has_type_extends [OF at [rule_format, OF p(1)] g']]
        show "k < length (graph_nodes g')" by (simp add: has_type_def)
      qed
      then show "runs sound vm_full (1 + 0) g'
        (gb_bind (vm_emit (batched_operation b ?oper) ops (bty b ?out)) (\<lambda>i. gb_return (i, True)))
        (\<lambda>(i, m) g'. batched_node g g' b n ms ids tys m i)"
      proof (rule emit_node)
        fix g'' assume ext: "extends g' g''" and new: "graph_nodes g'' = graph_nodes g' @
            [\<lparr>node_operation = batched_operation b ?oper, node_inputs = ops, node_output = bty b ?out\<rparr>]"
        have "\<exists>v ty. lifts g'' b v ty j"
          if "length (graph_nodes g) \<le> j" "j < length (graph_nodes g'')" "j \<noteq> length (graph_nodes g')" for j
          using that ops lifts_extends [OF _ ext] new by (auto, metis less_SucE)
        then show "(case (length (graph_nodes g'), True) of
            (i, m) \<Rightarrow> \<lambda>g'. batched_node g g' b n ms ids tys m i) g''"
          using True ops batched_operand_extends [OF _ ext] new
          by (auto simp: batched_node_def batched_image_def)
      qed (use ops arity in simp)
    qed
    then have "runs sound vm_full 3 g
      (gb_bind (batch_operands src n ids ms b) (\<lambda>operands.
        gb_bind (vm_emit (batched_operation b ?oper) operands (bty b ?out)) (\<lambda>i. gb_return (i, True))))
      (\<lambda>(i, m) g'. batched_node g g' b n ms ids tys m i)"
      by (rule builds_weaken) (use two in auto)
    with True show ?thesis by (simp add: batch_n_ary_def Let_def)
  qed
  have unary: "runs sound vm_full 3 g (batch_unary n ids ms b (batched_operation b ?oper))
      (\<lambda>(i, m) g'. batched_node g g' b n ms ids tys m i)"
    if one: "length ids = 1"
  proof -
    obtain m v where m: "ms = [m]" "ids = [v]" using one len by (auto simp: length1)
    have "runs sound vm_full 3 g (gb_bind (vm_emit (if m then batched_operation b ?oper else ?oper) ids
        (vty b m ?out)) (\<lambda>i. gb_return (i, m)))
      (\<lambda>(i, m) g'. batched_node g g' b n ms ids tys m i)"
      by (rule builds_weaken [OF plain_image [OF ids arity]]) (use m in auto)
    then show ?thesis by (simp add: batch_unary_def idx_def m(1))
  qed
  have "length ids \<noteq> 0" using leaf by simp
  then show ?thesis
    using n_ary unary arity
    by (cases ?oper) (auto simp: batch_node_def Let_def batched_shape_def)
qed

definition mapped_node :: "graph \<Rightarrow> node_id list \<Rightarrow> node_id \<Rightarrow> bool" where
  "mapped_node src ins i \<longleftrightarrow> (\<exists>k \<in> set ins. k \<in> depends_on (graph_nodes src) i)"

definition is_input :: "graph \<Rightarrow> node_id \<Rightarrow> bool" where
  "is_input src k \<longleftrightarrow> k < length (graph_nodes src) \<and>
     (\<exists>name. node_operation (graph_nodes src ! k) = Input name)"

lemma depends_on_step:
  assumes "i < length ns"
  shows "k \<in> depends_on ns i \<longleftrightarrow> k = i \<or> (\<exists>j \<in> set (node_inputs (ns ! i)). k \<in> depends_on ns j)"
  using assms unfolding depends_on_def
  by (auto elim: converse_rtranclE intro: converse_rtrancl_into_rtrancl)

lemma mapped_node_step:
  assumes "nodes_ok (graph_nodes src)" and "i < length (graph_nodes src)" and "\<forall>k \<in> set ins. is_input src k"
  shows "mapped_node src ins i \<longleftrightarrow>
    (if \<exists>name. node_operation (graph_nodes src ! i) = Input name then i \<in> set ins
     else \<exists>j \<in> set (node_inputs (graph_nodes src ! i)). mapped_node src ins j)"
proof (cases "\<exists>name. node_operation (graph_nodes src ! i) = Input name")
  case True
  then have "node_inputs (graph_nodes src ! i) = []"
    using nodes_ok_arity [OF assms(1,2)] by auto
  with True show ?thesis by (auto simp: mapped_node_def depends_on_step [OF assms(2)])
next
  case False
  then have "i \<notin> set ins" using assms(3) by (auto simp: is_input_def)
  with False show ?thesis by (auto simp: mapped_node_def depends_on_step [OF assms(2)])
qed

lemma request_inputs:
  assumes "\<forall>k \<in> set ins. is_input src k" and "length requested = length (graph_nodes src)"
  shows "\<exists>r. try_fold (request_step src) requested ins = Inr r \<and> length r = length (graph_nodes src) \<and>
    (\<forall>i < length (graph_nodes src). r ! i \<longleftrightarrow> requested ! i \<or> i \<in> set ins)"
  using assms
proof (induction ins arbitrary: requested)
  case Nil
  then show ?case by simp
next
  case (Cons k ins)
  then have "request_step src requested k = Inr (requested[k := True])"
    by (auto simp: request_step_def is_input_def get_def)
  with Cons.IH [of "requested[k := True]"] Cons.prems show ?case
    by (fastforce simp: is_input_def nth_list_update)
qed

text \<open>
  Node \<open>i\<close> of the source can carry the batch axis: its batched operation is well-typed on the batched
  types. \<open>batchable\<close> is sufficient for that.
\<close>

definition batch_typed :: "graph \<Rightarrow> usize \<Rightarrow> node_id \<Rightarrow> bool" where
  "batch_typed src b i \<longleftrightarrow>
     op_typed (batched_operation b (node_operation (graph_nodes src ! i)))
       (map (\<lambda>k. bty b (type_of (graph_nodes src) k)) (node_inputs (graph_nodes src ! i)))
       (bty b (type_of (graph_nodes src) i))"

definition image_at :: "graph \<Rightarrow> usize \<Rightarrow> node_id list \<Rightarrow> graph \<Rightarrow> node_id list \<Rightarrow> node_id \<Rightarrow> bool" where
  "image_at src b ins g mapping i \<longleftrightarrow>
     (let n = graph_nodes src ! i in
      batched_image g b (node_operation n) (node_output n) (map (mapped_node src ins) (node_inputs n))
        (map ((!) mapping) (node_inputs n)) (map (type_of (graph_nodes src)) (node_inputs n))
        (mapped_node src ins i) (mapping ! i))"

definition vm_inv :: "graph \<Rightarrow> usize \<Rightarrow> node_id list \<Rightarrow> nat \<Rightarrow> node_id list \<times> bool list \<Rightarrow> graph \<Rightarrow> bool" where
  "vm_inv src b ins k st g \<longleftrightarrow> length (fst st) = k \<and> length (snd st) = k \<and>
     (\<forall>i < k. (snd st ! i \<longleftrightarrow> mapped_node src ins i) \<and> image_at src b ins g (fst st) i) \<and>
     (\<forall>j < length (graph_nodes g). j \<in> set (fst st) \<or> (\<exists>v ty. lifts g b v ty j))"

lemma image_at_type:
  "image_at src b ins g mapping i \<Longrightarrow>
     has_type g (mapping ! i) (vty b (mapped_node src ins i) (type_of (graph_nodes src) i))"
  by (simp add: image_at_def batched_image_def has_type_def type_of_def Let_def)

lemma image_at_extend:
  assumes "image_at src b ins g mapping i" and "extends g g'" and "nodes_ok (graph_nodes src)"
    and "i < length mapping" and "length mapping \<le> length (graph_nodes src)"
  shows "image_at src b ins g' (mapping @ [j]) i"
proof -
  have "\<forall>k \<in> set (node_inputs (graph_nodes src ! i)). k < length mapping"
    using assms(3-5) nodes_ok_inputs [OF assms(3), of i] by fastforce
  then have same: "map ((!) (mapping @ [j])) (node_inputs (graph_nodes src ! i)) =
      map ((!) mapping) (node_inputs (graph_nodes src ! i))" "(mapping @ [j]) ! i = mapping ! i"
    using assms(4) by (simp_all add: nth_append)
  show ?thesis
    using batched_image_extends [OF assms(1) [unfolded image_at_def Let_def] assms(2)]
    by (simp only: image_at_def Let_def same)
qed

lemma vm_lookup_traverse:
  "\<forall>k \<in> set ks. k < length table \<Longrightarrow> traverse (vm_lookup table) ks = Inr (map ((!) table) ks)"
  by (rule traverse_map) (simp add: vm_lookup_def get_def)

lemma vmap_step_runs:
  assumes ok: "nodes_ok (graph_nodes src)"
    and ins: "\<forall>k \<in> set ins. is_input src k" and k: "k < length (graph_nodes src)"
    and requested: "length requested = length (graph_nodes src)"
      "requested ! k \<longleftrightarrow> k \<in> set ins"
    and inv: "vm_inv src b ins k st g"
  shows "runs sound vm_full 3 g (vmap_step src b requested st (k, graph_nodes src ! k))
    (\<lambda>st' g'. vm_inv src b ins (Suc k) st' g')"
proof -
  let ?n = "graph_nodes src ! k" and ?ty = "type_of (graph_nodes src)"
  obtain mapping ms where st: "st = (mapping, ms)" by (cases st)
  have lt: "\<forall>j \<in> set (node_inputs ?n). j < k" using nodes_ok_inputs [OF ok k] by blast
  have len: "length mapping = k" "length ms = k" using inv by (simp_all add: vm_inv_def st)
  have same: "ms ! j \<longleftrightarrow> mapped_node src ins j" if "j < k" for j
    using inv that by (simp add: vm_inv_def st)
  let ?ids = "map ((!) mapping) (node_inputs ?n)" and ?ms = "map (mapped_node src ins) (node_inputs ?n)"
  let ?tys = "map ?ty (node_inputs ?n)"
  have "map ((!) ms) (node_inputs ?n) = ?ms" using same lt by simp
  then have trav: "traverse (vm_lookup mapping) (node_inputs ?n) = Inr ?ids"
    "traverse (vm_lookup ms) (node_inputs ?n) = Inr ?ms"
    using lt len vm_lookup_traverse [of "node_inputs ?n" ms] by (simp_all add: vm_lookup_traverse)
  have out: "?ty k = node_output ?n" by (simp add: type_of_def)
  let ?Q = "\<lambda>i m g'. m = mapped_node src ins k \<and>
      batched_image g' b (node_operation ?n) (node_output ?n) ?ms ?ids ?tys m i \<and>
      (\<forall>j. length (graph_nodes g) \<le> j \<longrightarrow> j < length (graph_nodes g') \<longrightarrow> j = i \<or> (\<exists>v ty. lifts g' b v ty j))"
  have arity: "length ?ids = expected_arity (node_operation ?n)" using nodes_ok_arity [OF ok k] by simp
  have node: "runs sound vm_full 3 g (batch_node src b requested k ?n ?ids ?ms) (\<lambda>(i, m) g'. ?Q i m g')"
  proof (cases "expected_arity (node_operation ?n) = 0")
    case True
    then have none: "node_inputs ?n = []" using arity by simp
    with mapped_node_step [OF ok k ins] requested(2)
    have m: "mapped_node src ins k \<longleftrightarrow>
        (\<exists>name. node_operation ?n = Input name) \<and> requested ! k"
      by auto
    have leaf: "runs sound vm_full 3 g (gb_bind (vm_emit (node_operation ?n) [] (vty b m (node_output ?n)))
        (\<lambda>i. gb_return (i, m))) (\<lambda>(i, m) g'. ?Q i m g')"
      if "m = mapped_node src ins k" "batched_operation b (node_operation ?n) = node_operation ?n" for m
      by (rule builds_weaken [OF emit_node [where Q = "\<lambda>(i, m) g'. ?Q i m g'"]])
        (use that True none in \<open>auto simp: batched_image_def\<close>)
    consider (input) name where "node_operation ?n = Input name"
      | (const) c where "node_operation ?n = Constant c"
      using True by (cases "node_operation ?n") auto
    then show ?thesis
    proof cases
      case input
      with leaf [of "requested ! k"] m requested(1) k none show ?thesis
        by (simp add: batch_node_def Let_def)
    next
      case const
      with leaf [of False] m none show ?thesis by (simp add: batch_node_def Let_def)
    qed
  next
    case False
    then have not_input: "\<not> (\<exists>name. node_operation ?n = Input name)" by auto
    have m: "list_ex (\<lambda>m. m) ?ms \<longleftrightarrow> mapped_node src ins k"
      using not_input by (auto simp: mapped_node_step [OF ok k ins] list_ex_iff)
    have at: "\<forall>p < length ?ids. has_type g (?ids ! p) (vty b (?ms ! p) (?tys ! p))"
    proof (intro allI impI)
      fix p assume "p < length ?ids"
      then have p: "p < length (node_inputs ?n)" by simp
      with lt have "node_inputs ?n ! p < k" by simp
      then have "image_at src b ins g mapping (node_inputs ?n ! p)" using inv by (simp add: vm_inv_def st)
      from image_at_type [OF this] p show "has_type g (?ids ! p) (vty b (?ms ! p) (?tys ! p))"
        by (simp only: nth_map)
    qed
    have "runs sound vm_full 3 g (batch_node src b requested k ?n ?ids ?ms)
        (\<lambda>(i, m) g'. batched_node g g' b ?n ?ms ?ids ?tys m i)"
      by (rule batch_node_runs [OF _ _ at refl _ arity]) (use lt k False arity in \<open>auto intro: less_trans\<close>)
    then show ?thesis
      by (rule builds_weaken) (use m in \<open>auto simp: batched_node_def\<close>)
  qed
  have step: "vm_inv src b ins (Suc k) (mapping @ [i], ms @ [m]) g'" if ext: "extends g g'" and Q: "?Q i m g'"
    for i m g'
  proof -
    have "image_at src b ins g' (mapping @ [i]) k"
    proof -
      have same: "map ((!) (mapping @ [i])) (node_inputs ?n) = ?ids" "(mapping @ [i]) ! k = i"
        using lt len by (simp_all add: nth_append)
      show ?thesis unfolding image_at_def Let_def same using Q by auto
    qed
    moreover have "image_at src b ins g' (mapping @ [i]) j" if "j < k" for j
      using image_at_extend [OF _ ext ok, of b ins mapping j i] inv that k len by (simp add: vm_inv_def st)
    moreover have "j \<in> set (mapping @ [i]) \<or> (\<exists>v ty. lifts g' b v ty j)" if "j < length (graph_nodes g')" for j
    proof (cases "j < length (graph_nodes g)")
      case True
      then have "j \<in> set mapping \<or> (\<exists>v ty. lifts g b v ty j)" using inv by (simp add: vm_inv_def st)
      then show ?thesis by (auto dest: lifts_extends [OF _ ext])
    next
      case False
      then have "length (graph_nodes g) \<le> j" by simp
      with Q that show ?thesis by auto
    qed
    ultimately show ?thesis
      using inv Q len by (auto simp: vm_inv_def st nth_append less_Suc_eq)
  qed
  have "runs sound vm_full (3 + 0) g (gb_bind (batch_node src b requested k ?n ?ids ?ms)
      (\<lambda>(new_id, is_mapped). gb_return (mapping @ [new_id], ms @ [is_mapped])))
    (\<lambda>st' g'. vm_inv src b ins (Suc k) st' g')"
    by (rule builds_bind [OF node]) (auto intro!: builds_return step)
  then show ?thesis by (simp add: vmap_step_def st trav)
qed

lemma request_first_bad:
  assumes "List.find (\<lambda>k. \<not> is_input src k) ins = Some k" and "length requested = length (graph_nodes src)"
  shows "try_fold (request_step src) requested ins = fail (InvalidMappedInput k)"
  using assms
proof (induction ins arbitrary: requested)
  case (Cons i ins)
  show ?case
  proof (cases "is_input src i")
    case True
    then have "request_step src requested i = Inr (requested[i := True])"
      using Cons.prems(2) by (auto simp: request_step_def is_input_def get_def)
    with True Cons show ?thesis by simp
  next
    case False
    then have "request_step src requested i = fail (InvalidMappedInput i)"
      by (auto simp: request_step_def is_input_def get_def split: operation.splits)
    with False Cons.prems(1) show ?thesis by simp
  qed
qed simp

text \<open>Every node that is not a source image is a repetition, so the result is well-typed where the images are.\<close>

lemma built_typed:
  assumes ok: "nodes_ok (graph_nodes src)" and typed: "typed_graph src"
    and inv: "vm_inv src b ins (length (graph_nodes src)) (mapping, ms) g"
    and ins: "\<forall>k \<in> set ins. is_input src k"
  shows "typed_graph g \<longleftrightarrow>
    (\<forall>i < length (graph_nodes src). mapped_node src ins i \<longrightarrow> batch_typed src b i)"
proof -
  let ?N = "length (graph_nodes src)" and ?ty = "type_of (graph_nodes src)"
  have len: "length mapping = ?N" using inv by (simp add: vm_inv_def)
  have at: "node_typed (graph_nodes g) (graph_nodes g ! (mapping ! i)) \<longleftrightarrow>
      (mapped_node src ins i \<longrightarrow> batch_typed src b i)" and lt: "mapping ! i < length (graph_nodes g)"
    if i: "i < ?N" for i
  proof -
    let ?n = "graph_nodes src ! i" and ?m = "mapped_node src ins i"
    have img: "image_at src b ins g mapping i" using inv i by (simp add: vm_inv_def)
    then show "mapping ! i < length (graph_nodes g)" by (simp add: image_at_def batched_image_def Let_def)
    have up: "mapped_node src ins i" if "j \<in> set (node_inputs ?n)" "mapped_node src ins j" for j
    proof -
      have "\<not> (\<exists>name. node_operation ?n = Input name)" using that nodes_ok_arity [OF ok i] by auto
      with that show ?thesis unfolding mapped_node_step [OF ok i ins] by auto
    qed
    have ht: "has_type g (mapping ! j) (vty b (mapped_node src ins j) (?ty j))"
      if "j \<in> set (node_inputs ?n)" for j
    proof -
      have "j < ?N" using that nodes_ok_inputs [OF ok i] i by fastforce
      then show ?thesis using inv image_at_type by (simp add: vm_inv_def)
    qed
    have operands: "\<forall>p < length (map ((!) mapping) (node_inputs ?n)).
        has_type g (map ((!) mapping) (node_inputs ?n) ! p)
          (vty b (map (mapped_node src ins) (node_inputs ?n) ! p) (map ?ty (node_inputs ?n) ! p))"
      by (intro allI impI) (simp only: length_map nth_map ht [OF nth_mem])
    have "node_typed (graph_nodes g) (graph_nodes g ! (mapping ! i)) \<longleftrightarrow>
        op_typed (if ?m then batched_operation b (node_operation ?n) else node_operation ?n)
          (map (vty b ?m) (map ?ty (node_inputs ?n))) (vty b ?m (node_output ?n))"
      by (rule batched_image_typed (2) [OF img [unfolded image_at_def Let_def] _ operands])
        (auto intro: up [OF nth_mem])
    moreover have "op_typed (node_operation ?n) (map ?ty (node_inputs ?n)) (node_output ?n)"
      using typed i by (simp add: typed_graph_def node_typed_def)
    ultimately show "node_typed (graph_nodes g) (graph_nodes g ! (mapping ! i)) \<longleftrightarrow>
        (?m \<longrightarrow> batch_typed src b i)"
      using type_of_def [of "graph_nodes src" i] by (simp add: batch_typed_def o_def)
  qed
  show ?thesis
  proof
    assume t: "typed_graph g"
    show "\<forall>i < ?N. mapped_node src ins i \<longrightarrow> batch_typed src b i"
    proof (intro allI impI)
      fix i assume i: "i < ?N" "mapped_node src ins i"
      with t lt have "node_typed (graph_nodes g) (graph_nodes g ! (mapping ! i))" by (simp add: typed_graph_def)
      with at i show "batch_typed src b i" by simp
    qed
  next
    assume all: "\<forall>i < ?N. mapped_node src ins i \<longrightarrow> batch_typed src b i"
    have "node_typed (graph_nodes g) (graph_nodes g ! j)" if j: "j < length (graph_nodes g)" for j
    proof (cases "j \<in> set mapping")
      case True
      then obtain i where "i < ?N" "j = mapping ! i" using len by (auto simp: in_set_conv_nth)
      with at all show ?thesis by simp
    next
      case False
      with inv j lifts_typed show ?thesis by (auto simp: vm_inv_def)
    qed
    then show "typed_graph g" by (auto simp: typed_graph_def in_set_conv_nth)
  qed
qed

lemma batchable_typed:
  assumes "wf_graph src" and "typed_graph src" and "i < length (graph_nodes src)"
    and "batchable b (node_operation (graph_nodes src ! i))
           (map (type_of (graph_nodes src)) (node_inputs (graph_nodes src ! i)))"
  shows "batch_typed src b i"
proof (cases "expected_arity (node_operation (graph_nodes src ! i)) = 0")
  case True
  then have "node_inputs (graph_nodes src ! i) = []"
    using assms(1,3) nodes_ok_arity [of "graph_nodes src" i] by (simp add: wf_graph_def)
  with True show ?thesis by (cases "node_operation (graph_nodes src ! i)") (simp_all add: batch_typed_def)
next
  case False
  have "op_typed (node_operation (graph_nodes src ! i))
      (map (type_of (graph_nodes src)) (node_inputs (graph_nodes src ! i))) (node_output (graph_nodes src ! i))"
    using assms(2,3) by (simp add: typed_graph_def node_typed_def)
  from batched_typed [OF this assms(4) False] show ?thesis
    using type_of_def [of "graph_nodes src" i] by (simp add: batch_typed_def o_def)
qed

lemma vmap_requested:
  assumes "\<forall>k \<in> set ins. is_input src k"
  shows "try_fold (request_step src) (replicate (length (graph_nodes src)) False) ins =
    Inr (map (\<lambda>i. i \<in> set ins) [0..<length (graph_nodes src)])"
proof -
  from request_inputs [OF assms, of "replicate (length (graph_nodes src)) False"]
  obtain r where r: "try_fold (request_step src) (replicate (length (graph_nodes src)) False) ins = Inr r"
    "length r = length (graph_nodes src)" "\<forall>i < length (graph_nodes src). r ! i \<longleftrightarrow> i \<in> set ins"
    by auto
  then have "r = map (\<lambda>i. i \<in> set ins) [0..<length (graph_nodes src)]"
    by (intro nth_equalityI) simp_all
  with r(1) show ?thesis by simp
qed

text \<open>The main loop: it only runs out of identifiers, and establishes the invariant.\<close>

lemma vmap_run:
  assumes "wf_graph src" and ins: "\<forall>k \<in> set ins. is_input src k"
  shows "case gb_fold (vmap_step src b (map (\<lambda>i. i \<in> set ins) [0..<length (graph_nodes src)])) ([], [])
            (enumerate 0 (graph_nodes src)) graph_new of
      Inl f \<Rightarrow> f = vm_full \<and> u32_range < 3 * length (graph_nodes src)
    | Inr (st, g) \<Rightarrow> sound g \<and> vm_inv src b ins (length (graph_nodes src)) st g"
proof -
  let ?ns = "graph_nodes src" and ?req = "map (\<lambda>i. i \<in> set ins) [0..<length (graph_nodes src)]"
  have ok: "nodes_ok ?ns" using assms(1) by (simp add: wf_graph_def)
  have "runs sound vm_full (3 * length (enumerate 0 ?ns)) graph_new
    (gb_fold (vmap_step src b ?req) ([], []) (enumerate 0 ?ns))
    ((\<lambda>k st g. vm_inv src b ins k st g) (length (enumerate 0 ?ns)))"
  proof (rule builds_fold)
    fix k st g assume "k < length (enumerate 0 ?ns)" "vm_inv src b ins k st g"
    then show "runs sound vm_full 3 g (vmap_step src b ?req st (enumerate 0 ?ns ! k))
        (vm_inv src b ins (Suc k))"
      using vmap_step_runs [OF ok ins, of k ?req] by simp
  qed (simp add: vm_inv_def graph_new_def)
  then show ?thesis
    by (auto simp: runs_def sound_def graph_new_def nodes_ok_def split: sum.splits)
qed

lemma lifts_outputs [simp]: "lifts (g\<lparr>graph_outputs := outs\<rparr>) b v ty j \<longleftrightarrow> lifts g b v ty j"
  by (simp add: lifts_def has_type_def)

lemma image_at_outputs [simp]:
  "image_at src b ins (g\<lparr>graph_outputs := outs\<rparr>) mapping i \<longleftrightarrow> image_at src b ins g mapping i"
  by (simp add: image_at_def batched_image_def batched_operand_def Let_def)

text \<open>
  C13: what \<open>vmap\<close> does with every valid, well-typed graph. It never panics. It refuses a mapped input
  that is not an \<open>Input\<close> node, runs out of identifiers only when three nodes per source node exceed
  the 32-bit space, and refuses its own result as ill-typed exactly when some node that depends on a
  mapped input has no well-typed batched form. Otherwise the result is valid and well-typed: the nodes
  that depend on a mapped input are mapped, and no others; the image of a mapped node applies the
  batched operation at the batched type to the images of the operands, the unmapped ones repeated along
  the batch axis; the image of any other node repeats the source node; the outputs are the images of the
  outputs. A node has a well-typed batched form if it is no reshape, broadcast or reduction, if it is a
  broadcast or a reduction that keeps the rank, or if it is a reshape with a representable batched
  element count. A broadcast or a reduction that changes the rank has none in general, although its
  vectorization makes sense: the transform does not realign the axes behind the batch axis (see
  \<open>vmap_rejects_rank_increase\<close>), and where sizes happen to agree the batched form is well-typed but
  repeats along another axis. Types and structure are what is stated here, not values.
\<close>

theorem vmap_correct:
  assumes "validate src = Inr ()" and "validate_semantics src = Inr ()"
  shows "(case vmap src b ins of
      Inr r \<Rightarrow> (\<forall>k \<in> set ins. is_input src k) \<and>
        (\<forall>i < length (graph_nodes src). mapped_node src ins i \<longrightarrow> batch_typed src b i) \<and>
        validate (vm_graph r) = Inr () \<and> validate_semantics (vm_graph r) = Inr () \<and>
        length (vm_mapping r) = length (graph_nodes src) \<and>
        (\<forall>i < length (graph_nodes src). (vm_mapped r ! i \<longleftrightarrow> mapped_node src ins i) \<and>
           image_at src b ins (vm_graph r) (vm_mapping r) i \<and>
           has_type (vm_graph r) (vm_mapping r ! i)
             (if vm_mapped r ! i then batched_type (type_of (graph_nodes src) i) b
              else type_of (graph_nodes src) i)) \<and>
        graph_outputs (vm_graph r) = map ((!) (vm_mapping r)) (graph_outputs src)
    | Inl f \<Rightarrow>
        (\<exists>k. f = Err (InvalidMappedInput k) \<and> List.find (\<lambda>k. \<not> is_input src k) ins = Some k) \<or>
        f = Err (VmapInvalidGraph TooManyNodes) \<and> u32_range < 3 * length (graph_nodes src) \<or>
        (\<exists>e i. f = Err (VmapInvalidSemantics e) \<and> (\<forall>k \<in> set ins. is_input src k) \<and>
           i < length (graph_nodes src) \<and> mapped_node src ins i \<and> \<not> batch_typed src b i)) \<and>
    (\<forall>i < length (graph_nodes src).
       batchable b (node_operation (graph_nodes src ! i))
         (map (type_of (graph_nodes src)) (node_inputs (graph_nodes src ! i))) \<longrightarrow> batch_typed src b i)"
  (is "?decided \<and> _")
proof
  let ?ns = "graph_nodes src"
  have wf: "wf_graph src" using assms(1) by (simp add: validate_iff_wf)
  then have ok: "nodes_ok ?ns" and outs: "\<forall>k \<in> set (graph_outputs src). k < length ?ns"
    by (simp_all add: wf_graph_def)
  have typed: "typed_graph src" using assms(2) validate_semantics_iff_typed [OF wf] by simp
  show "\<forall>i < length ?ns. batchable b (node_operation (?ns ! i)) (map (type_of ?ns) (node_inputs (?ns ! i))) \<longrightarrow>
      batch_typed src b i"
    using batchable_typed [OF wf typed] by blast
  show ?decided
  proof (cases "List.find (\<lambda>k. \<not> is_input src k) ins")
    case (Some k)
    with assms request_first_bad [OF Some] show ?thesis by (simp add: vmap_def)
  next
    case None
    then have ins: "\<forall>k \<in> set ins. is_input src k" by (auto simp: find_None_iff)
    note built = vmap_run [OF wf ins, of b]
    show ?thesis
    proof (cases "gb_fold (vmap_step src b (map (\<lambda>i. i \<in> set ins) [0..<length ?ns])) ([], [])
        (enumerate 0 ?ns) graph_new")
      case (Inl f)
      with built assms show ?thesis by (simp add: vmap_def vmap_requested [OF ins])
    next
      case (Inr x)
      then obtain mapping ms g where run: "gb_fold (vmap_step src b (map (\<lambda>i. i \<in> set ins) [0..<length ?ns]))
          ([], []) (enumerate 0 ?ns) graph_new = Inr ((mapping, ms), g)" by (cases x) auto
      with built have g: "sound g" and inv: "vm_inv src b ins (length ?ns) (mapping, ms) g" by auto
      have img: "image_at src b ins g mapping i" "ms ! i \<longleftrightarrow> mapped_node src ins i" if "i < length ?ns" for i
        using inv that by (simp_all add: vm_inv_def)
      have at: "has_type g (mapping ! i) (vty b (mapped_node src ins i) (type_of ?ns i))" if "i < length ?ns" for i
        by (rule image_at_type [OF img(1) [OF that]])
      have len: "length mapping = length ?ns" using inv by (simp add: vm_inv_def)
      let ?outs = "map ((!) mapping) (graph_outputs src)"
      let ?g = "g\<lparr>graph_outputs := ?outs\<rparr>"
      have lookup: "traverse (vm_lookup mapping) (graph_outputs src) = Inr ?outs"
        using len outs by (intro vm_lookup_traverse) simp
      have lt: "\<forall>k \<in> set ?outs. k < length (graph_nodes g)"
        using at outs by (auto simp: has_type_def)
      then have set: "set_outputs g ?outs = Inr ?g" by simp
      have wf': "wf_graph ?g" using g lt by (simp add: wf_graph_def sound_def)
      have ty: "typed_graph ?g \<longleftrightarrow> (\<forall>i < length ?ns. mapped_node src ins i \<longrightarrow> batch_typed src b i)"
        using built_typed [OF ok typed inv ins] by (simp add: typed_graph_def)
      have result: "vmap src b ins = try_bind (map_err VmapInvalidSemantics (validate_semantics ?g)) (\<lambda>_.
          Inr \<lparr>vm_graph = ?g, vm_mapping = mapping, vm_mapped = ms, vm_outputs = ?outs, vm_batch_size = b\<rparr>)"
        using assms by (simp add: vmap_def vmap_requested [OF ins] run lookup set del: set_outputs_Inr)
      show ?thesis
      proof (cases "typed_graph ?g")
        case True
        then have "validate_semantics ?g = Inr ()" using validate_semantics_iff_typed [OF wf'] by simp
        with result True ty ins wf' img at len show ?thesis
          by (simp add: validate_iff_wf image_at_outputs has_type_def)
      next
        case False
        then obtain e where "validate_semantics ?g = fail e"
          using validate_semantics_iff_typed [OF wf'] semantics_no_panic [OF wf']
          by (metis failure.exhaust old.sum.exhaust old.unit.exhaust)
        with result False ty ins show ?thesis by auto
      qed
    qed
  qed
qed

lemma example_graph_mapped: "is_input example_graph 0"
  by (simp add: is_input_def example_graph_def mk_node_def)

theorem vmap_correct_witness:
  "\<exists>r. vmap example_graph 5 [0] = Inr r \<and> validate_semantics (vm_graph r) = Inr () \<and>
     has_type (vm_graph r) (vm_mapping r ! 1) (tensor_type_new F32 [5, 2, 2])"
proof -
  have len: "length (graph_nodes example_graph) = 2" by (simp add: example_graph_def)
  have ok: "nodes_ok (graph_nodes example_graph)"
    using example_graph_valid(1) by (simp add: validate_iff_wf wf_graph_def)
  have ins: "\<forall>k \<in> set [0]. is_input example_graph k" using example_graph_mapped by simp
  then have mapped: "mapped_node example_graph [0] 1"
    using mapped_node_step [OF ok, of 1 "[0]"] mapped_node_step [OF ok, of 0 "[0]"] len
    by (simp add: example_graph_def mk_node_def)
  have ty: "batched_type (type_of (graph_nodes example_graph) 1) 5 = tensor_type_new F32 [5, 2, 2]"
    by (simp add: batched_type_def batched_shape_def example_graph_def type_of_def mk_node_def
        matrix_type_def tensor_type_new_def)
  have batch: "batchable 5 (node_operation (graph_nodes example_graph ! i))
      (map (type_of (graph_nodes example_graph)) (node_inputs (graph_nodes example_graph ! i)))"
    if "i < length (graph_nodes example_graph)" for i
    using that by (auto simp: example_graph_def mk_node_def less_Suc_eq numeral_eq_Suc)
  note decided = vmap_correct [OF example_graph_valid, of "[0]" 5]
  with batch have typed: "\<forall>i < length (graph_nodes example_graph). batch_typed example_graph 5 i" by blast
  show ?thesis
  proof (cases "vmap example_graph 5 [0]")
    case (Inl f)
    with decided ins typed len show ?thesis by (auto simp: example_graph_mapped)
  next
    case (Inr r)
    with decided mapped ty len show ?thesis by (auto dest!: spec [of _ 1])
  qed
qed

text \<open>
  The rank of a broadcast matters. \<open>x : [3]\<close> broadcast to \<open>[2, 3]\<close> is a valid graph,
  but the batched broadcast aligns \<open>[b, 3]\<close> with \<open>[b, 2, 3]\<close> from the right: for \<open>b = 4\<close> the
  transform reports its own output as ill-typed.
\<close>

definition row_type :: tensor_type where
  "row_type = tensor_type_new F32 [3]"

definition rows_type :: tensor_type where
  "rows_type = tensor_type_new F32 [2, 3]"

definition example_broadcast :: graph where
  "example_broadcast = \<lparr>graph_nodes =
      [\<lparr>node_operation = Input ''x'', node_inputs = [], node_output = row_type\<rparr>,
       \<lparr>node_operation = BroadcastTo [2, 3], node_inputs = [0], node_output = rows_type\<rparr>],
    graph_outputs = [1]\<rparr>"

text \<open>
  a rank-increasing broadcast cannot be vectorized: the source is valid and well-typed,
  yet \<open>vmap\<close> with batch size 4 fails with an invalid broadcast at the node it emitted itself.
\<close>

theorem vmap_rejects_rank_increase:
  "validate example_broadcast = Inr () \<and> validate_semantics example_broadcast = Inr () \<and>
   vmap example_broadcast 4 [0] = Inl (Err (VmapInvalidSemantics (InvalidBroadcast 1)))"
proof -
  have wf: "wf_graph example_broadcast"
    by (simp add: example_broadcast_def wf_graph_def nodes_ok_def node_ok_def all_less_Suc numeral_eq_Suc)
  have "typed_graph example_broadcast"
    by (simp add: example_broadcast_def typed_graph_def node_typed_def type_of_def row_type_def
        rows_type_def tensor_type_new_def broadcastable_def all_less_Suc numeral_eq_Suc)
  then have valid: "validate example_broadcast = Inr ()" "validate_semantics example_broadcast = Inr ()"
    using wf by (simp_all add: validate_iff_wf validate_semantics_iff_typed)
  let ?g = "\<lparr>graph_nodes =
      [\<lparr>node_operation = Input ''x'', node_inputs = [], node_output = bty 4 row_type\<rparr>,
       \<lparr>node_operation = BroadcastTo [4, 2, 3], node_inputs = [0], node_output = bty 4 rows_type\<rparr>],
    graph_outputs = []\<rparr>"
  have run: "gb_fold (vmap_step example_broadcast 4 [True, False]) ([], [])
      (enumerate 0 (graph_nodes example_broadcast)) graph_new = Inr (([0, 1], [True, True]), ?g)"
    by (simp add: example_broadcast_def vmap_step_def vm_lookup_def batch_node_def batch_unary_def
        gb_bind_def gb_return_def gb_try_def emit_def add_node_def Let_def check_inputs_def
        graph_new_def idx_def get_def batched_shape_def row_type_def rows_type_def require_def)
  have "\<not> broadcastable [4, 3] [4, 2, 3]" by (auto simp: broadcastable_def intro: exI [of _ 0])
  then have "validate_semantics (?g\<lparr>graph_outputs := [1]\<rparr>) = fail (InvalidBroadcast 1)"
    by (simp add: validate_semantics_def verify_node_def input_types_def verify_operation_def get_def
        idx_def row_type_def rows_type_def tensor_type_new_def require_def Let_def)
  then have "vmap example_broadcast 4 [0] = Inl (Err (VmapInvalidSemantics (InvalidBroadcast 1)))"
    using valid run
    by (simp add: vmap_def request_step_def get_def vm_lookup_def set_outputs_def check_outputs_def
        require_def example_broadcast_def)
  with valid show ?thesis by blast
qed

end
