(* ===== verification/Spec2Isabelle.thy ===== *)
theory Spec2Isabelle
  imports Cpu_Correct Canonical_Examples Jit_Examples Differential_Examples Workspace Autodiff_Correct Graph_Vmap Compiler_Pipeline Generator_Correct Interpreter_Correct Tensor_View_Theorems
    Oracle_Theorems
begin

text \<open>
  A model of the tensor compiler stack of scirust and the theorems that make it correct.

  \<^bold>\<open>The program.\<close> scirust compiles tensor programs in stages. The crate \<open>scirust-compute\<close> holds
  the backend-neutral contracts: data types, shapes, tensor specifications, memory policies,
  launch configurations and kernel workspaces. \<open>scirust-tensor-ir\<close> holds the canonical graph, an
  append-only list of nodes whose inputs are earlier nodes, its semantic verifier, and three
  graph transformations: an optimizer, automatic differentiation and vectorization.
  \<open>scirust-tensor-compile\<close> turns a graph into an execution plan with logical buffer slots, an SSA
  program that passes rewrite, and a plan of dispatches over deduplicated kernel signatures.
  \<open>scirust-tensor-reference\<close> generates a binary artefact for every kernel of a lowered plan and
  interprets one kernel at a time on slices of \<open>f32\<close>. \<open>scirust-tensor-core\<close> holds the tensors of the
  host: dense ones and strided views. \<open>scirust-tensor-runtime\<close> prepares a lowered plan on any compute
  backend and executes it, wraps it into sessions over the inputs of a graph, and offers a front end
  that builds a program call by call; \<open>scirust-gpu\<close> provides the CPU backend that is modelled.

  \<^bold>\<open>The theories.\<close>
  \<^item> \<^bold>\<open>Prelude\<close>: outcomes (\<open>Err\<close> for a returned error, \<open>Panic\<close> for a Rust panic), the \<open>?\<close>
    operator, checked 64-bit and 32-bit arithmetic, indexing, and the loops that fold with
    early return, with one invariant rule each.
  \<^item> \<^bold>\<open>Compute_Core\<close>, \<^bold>\<open>Workspace\<close>: \<open>scirust-compute\<close>. A workspace requirement is a size and a
    power-of-two alignment; the theorems say where composed requirements lie and which
    buffers a kernel accepts.
  \<^item> \<^bold>\<open>Tensor_Graph\<close>: \<open>operation.rs\<close>, \<open>graph.rs\<close>, \<open>error.rs\<close>. The graph is a record of its node list
    and its outputs; identifiers are indices, with the \<open>u32\<close> bound written out.
  \<^item> \<^bold>\<open>Graph_Verify\<close>: \<open>verify.rs\<close>, beside a declarative typing judgement \<open>node_typed\<close>. Every slice index of
    the source is a read that can panic, in the order of the source and behind the same short-circuits.
  \<^item> \<^bold>\<open>Graph_Optimize\<close>: \<open>optimize.rs\<close>, with a simulation relation between source nodes and the
    optimized nodes that represent them.
  \<^item> \<^bold>\<open>Graph_Builder\<close>: the program logic for code that appends nodes to a graph: \<open>builds cap n g m Q\<close>
    says that the builder \<open>m\<close>, run on a well-typed graph \<open>g\<close>, appends at most \<open>n\<close> well-typed nodes
    and establishes \<open>Q\<close>, unless the identifier space is exhausted. It is the instance \<open>runs good\<close> of a
    logic over any invariant of the graph.
  \<^item> \<^bold>\<open>Graph_Autodiff\<close>, \<^bold>\<open>Autodiff_Typing\<close>, \<^bold>\<open>Autodiff_Correct\<close>: \<open>autodiff.rs\<close>, the rules of every
    operation and the transforms \<open>vjp\<close>, \<open>grad\<close>, \<open>value_and_grad\<close> and \<open>jvp\<close>. A reverse rule appends
    at most seven nodes and a forward rule at most six, which gives the bounds in the theorems.
  \<^item> \<^bold>\<open>Graph_Vmap\<close>: \<open>vmap.rs\<close>. \<open>image_at\<close> says which node stands for a source node, \<open>batch_typed\<close>
    which nodes have a well-typed batched form; a broadcast or reduction that changes the rank has none in
    general, since the transform does not realign its axes.
  \<^item> \<^bold>\<open>Ordered_Map\<close>: Rust's \<open>BTreeMap\<close> with integer keys, as a locale of its laws, interpreted on
    sorted association lists.
  \<^item> \<^bold>\<open>Memory_Plan\<close>: \<open>MemoryPlan::build\<close> of \<open>memory.rs\<close>. The planner's invariant relates its active
    map and free list to the values that are still needed.
  \<^item> \<^bold>\<open>Canonical_Compile\<close>: \<open>canonical.rs\<close>.
  \<^item> \<^bold>\<open>Compiler_IR\<close>: \<open>compiler_ir/\<close> (\<open>value.rs\<close>, \<open>operation.rs\<close>, \<open>block.rs\<close>, \<open>region.rs\<close>,
    \<open>program.rs\<close>, \<open>verify.rs\<close>) and the projection back of \<open>canonical.rs\<close>. Construction is a resolution of
    node names to the values that define them, and yields \<open>ssa_form\<close>; projection inverts it. The verifier
    by itself accepts exactly \<open>wf_ir\<close>, which is weaker (\<open>verifier_accepts_undefined_operand\<close>).
  \<^item> \<^bold>\<open>IR_Passes\<close>: \<open>analysis.rs\<close>, \<open>liveness.rs\<close>, \<open>rewrite.rs\<close>, \<open>pass.rs\<close>. The contract of a pass is the
    locale \<open>structural_pass\<close>, that of a rewrite the locale \<open>structural_rewrite\<close> below it; the
    zero-scaling pass of the code interprets both.
  \<^item> \<^bold>\<open>IR_Memory\<close>: \<open>MemoryPlan::from_compiler_ir\<close> and \<open>pipeline.rs\<close>, with a simulation between the
    instruction planner and the SSA planner.
  \<^item> \<^bold>\<open>Kernel_Lowering\<close>, \<^bold>\<open>Lowering_Correct\<close>: \<open>lowering.rs\<close>, and what a lowered plan satisfies.
  \<^item> \<^bold>\<open>Plan_Execution\<close>: the meaning of a graph (\<open>node_value\<close>, for any interpretation of the operations)
    and an abstract machine for lowered plans (\<open>run_lowered\<close>, one cell per buffer slot, for any
    interpretation of the kernels); the lowered plan refines the graph.
  \<^item> \<^bold>\<open>Lowering_Total\<close>: when lowering succeeds, and that dispatches never alias.
  \<^item> \<^bold>\<open>Compiler_Pipeline\<close>: \<open>compiler_lowering.rs\<close> and \<open>compiler_pipeline.rs\<close>, with the end-to-end
    refinement theorem of the pipeline.
  \<^item> \<^bold>\<open>Reference_Format\<close>, \<^bold>\<open>Reference_Codec\<close>, \<^bold>\<open>Codec_Correct\<close>: \<open>format.rs\<close>, \<open>artifact.rs\<close>, \<open>error.rs\<close>
    and \<open>codec.rs\<close> of \<open>scirust-tensor-reference\<close>, with wire integers as words. A wire field (locale
    \<open>wire_field\<close>) is a parser that accepts exactly the byte strings of the acceptable values;
    integers, layouts and sequences interpret it, and the decoder is their composition. The format is
    version 1.1; the decoder refuses version 1.0, which its documentation promises to accept.
  \<^item> \<^bold>\<open>Reference_Generator\<close>, \<^bold>\<open>Generator_Correct\<close>: \<open>generator.rs\<close>; which kernels of a lowered plan have
    an artefact, and that the modules of a plan decode back.
  \<^item> \<^bold>\<open>Reference_Interpreter\<close>, \<^bold>\<open>Interpreter_Bodies\<close>, \<^bold>\<open>Interpreter_Correct\<close>: \<open>interpreter.rs\<close> and
    \<open>invocation.rs\<close>. A kernel body returns the output slice with its result, also when it fails;
    matrix products and permutations are related to multi-indices.

  \<^item> \<^bold>\<open>Little_Endian\<close>, \<^bold>\<open>Row_Major\<close>: fixed-width integers as bytes, and multi-indices in row-major
    order.
  \<^item> \<^bold>\<open>Tensor_View\<close>, \<^bold>\<open>Tensor_View_Correct\<close>, \<^bold>\<open>Tensor_View_Theorems\<close>: the strided tensor views of
    \<open>scirust-tensor-core\<close> (\<open>general.rs\<close>). A tensor is observed through the bytes at a multi-index; every
    view is a map of multi-indices (\<open>view_source\<close>) over the same storage. \<open>view_error\<close> specifies the
    rejections; the two slices that the code rejects beyond it are predicates of their own.
  \<^item> \<^bold>\<open>Oracle_Runtime\<close>, \<^bold>\<open>Oracle_Correct\<close>, \<^bold>\<open>Oracle_Execution\<close>, \<^bold>\<open>Oracle_Theorems\<close>: the CPU
    oracle of \<open>scirust-tensor-runtime\<close> (\<open>core2_reference.rs\<close>), which runs a graph on tensors. Its meaning
    is \<open>node_value\<close> of the graph on flat vectors (\<open>flat_operation\<close>); the lowered plan on kernels of that
    meaning returns the same floats, and the generated Reference kernels have that meaning, except that
    \<open>relu\<close> keeps a NaN where the oracle returns zero.
  \<^item> \<^bold>\<open>Tensor_Nd\<close>: \<open>lib.rs\<close> and \<open>promotion.rs\<close> of \<open>scirust-tensor-core\<close>: the dense tensor, its checked
    accessors, its round trip through the general tensor, and the promotion of data types against the sets
    of values the types hold.
  \<^item> \<^bold>\<open>Compute_Backend\<close>: the trait \<open>ComputeBackend\<close> as a record of operations on a state, with actions
    that return the state also when they fail, and the laws of a backend with buffers as a locale.
  \<^item> \<^bold>\<open>Cpu_Backend\<close>, \<^bold>\<open>Cpu_Correct\<close>: \<open>cpu_reference.rs\<close> and the trait implementation of
    \<open>compute_adapter.rs\<close>: a heap of buffers with borrow flags, and what a launch leaves in it.
  \<^item> \<^bold>\<open>Plan_Runtime\<close>, \<^bold>\<open>Plan_Preparation\<close>, \<^bold>\<open>Plan_Consistent\<close>, \<^bold>\<open>Plan_Prepared\<close>, \<^bold>\<open>Plan_Simulation\<close>,
    \<^bold>\<open>Runtime_Theorems\<close>, \<^bold>\<open>Runtime_Examples\<close>: \<open>reference_plan.rs\<close>. Preparation assigns a type and a byte
    size to every slot and binding; the execution of the prepared dispatches on the CPU heap simulates the
    abstract machine of \<open>Plan_Execution\<close>.
  \<^item> \<^bold>\<open>Graph_Session\<close>, \<^bold>\<open>Session_Correct\<close>, \<^bold>\<open>Session_Theorems\<close>, \<^bold>\<open>Session_Examples\<close>:
    \<open>graph_session.rs\<close>, which compiles a graph with its constants once and then runs it over inputs named
    by node.
  \<^item> \<^bold>\<open>Optimize_Semantics\<close>: the optimizer preserves the meaning of a graph wherever the local rewrites are
    exact, and its result needs exactly the external values that the source needs.
  \<^item> \<^bold>\<open>Graph_Jit\<close>, \<^bold>\<open>Jit_Theorems\<close>, \<^bold>\<open>Jit_Examples\<close>: \<open>jit.rs\<close>, which optimizes a graph, prepares the
    result as a session and names the inputs of an execution by the nodes of the source graph. Its results
    are those of the source graph.
  \<^item> \<^bold>\<open>Differential\<close>, \<^bold>\<open>Differential_Correct\<close>, \<^bold>\<open>Differential_Theorems\<close>,
    \<^bold>\<open>Differential_Examples\<close>: \<open>differential.rs\<close>, the Jacobians in both modes and the Hessian. A result is the
    matrix of the values that the derivative graph gives for unit vectors; the examples evaluate the
    transforms on concrete graphs.
  \<^item> \<^bold>\<open>Canonical_Program\<close>, \<^bold>\<open>Canonical_Build\<close>, \<^bold>\<open>Canonical_Correct\<close>, \<^bold>\<open>Canonical_Progress\<close>,
    \<^bold>\<open>Canonical_Theorems\<close>, \<^bold>\<open>Canonical_Examples\<close>: \<open>canonical.rs\<close> of the runtime. The programs that calls
    can build are an inductive predicate with one invariant; preparation and execution of a built program
    are reduced to those of its session.

  \<^bold>\<open>Conventions.\<close> \<open>usize\<close> is \<open>nat\<close> with the 64-bit bound in the checked operations; a floating
  point attribute is its bit pattern as a 32-bit word. Loops over lists are folds; the only
  loop without a structural measure, the worklist of reachability, terminates by the number of
  unmarked nodes and is a total function, so no fuel is used.

  In the theorems on lowered plans the kernels are any generated code: their meaning is a parameter \<open>ksem\<close> of the
  machine, and \<open>implements ksem opsem\<close> says that each computes its operation. Passes are functions
  on programs; the refinement theorem asks of them what the code's own pass is proved to do.
  The Reference interpreter takes the four arithmetic operators of \<open>f32\<close> as a parameter, because
  the source leaves NaN payloads and rounding to the target; comparison with zero and the NaN
  test are computed on the bit pattern.

  \<^bold>\<open>Not modelled.\<close> The cache of the analysis manager is indexed by the types of the host language. Hardware
  probing and topology are input and output of the host, and the other backends are drivers of external
  devices. The algebraic representations, the cost model and the physical planning of the tensor IR stand
  beside the compilation path that is modelled and are not called by it; so does the front end that
  distributes programs over meshes. Display strings of errors are left out. The
  numerical and application crates of the workspace are outside the tensor stack.
\<close>

end
